(* ===== verification/Prelude.thy ===== *)
theory Prelude
  imports Main "HOL-Library.Word" "HOL-Library.Monad_Syntax"
begin

text \<open>
  Shared ground of the development: C addresses, unsigned long words, memmove on an
  array, the oracle that stands for the operating system, and the generic lemmas on
  option bind, lists and words that the component theories use.

  A C function that may abort (a failed DBGT\_ASSERT, which ends the process), read
  or write memory it does not own, or block for ever is a function into option:
  None is "does not return normally".
\<close>

unbundle bit_operations_syntax

subsection \<open>Types of the model\<close>

text \<open>An address; 0 is the null pointer.\<close>

type_synonym addr = nat

text \<open>OMX\_U32 and OSAL\_U32 are unsigned long, 64 bits on the 64-bit builds.\<close>

type_synonym omx_u32 = "64 word"

subsection \<open>The operating system\<close>

text \<open>
  The C library calls of the program (pthread, pipe, malloc) are outside src/. Their
  results are read from an oracle: the n-th call made returns the n-th answer. The
  oracle is arbitrary in every theorem, so a theorem holds for every behaviour of the
  system, failures included.
\<close>

record world =
  w_now :: nat                \<comment> \<open>number of system calls made so far\<close>
  w_rc :: "nat \<Rightarrow> nat"        \<comment> \<open>return code of the n-th call, 0 for success\<close>
  w_ptr :: "nat \<Rightarrow> addr"      \<comment> \<open>block offered by the n-th call, if it allocates\<close>

definition sys_call :: "'s world_scheme \<Rightarrow> nat \<times> 's world_scheme" where
  "sys_call w = (w_rc w (w_now w), w\<lparr>w_now := Suc (w_now w)\<rparr>)"

text \<open>The components extend the record world by the heaps they own; \<open>tick\<close> is
  the part of a call that every extension sees.\<close>

abbreviation tick :: "'s world_scheme \<Rightarrow> 's world_scheme" where
  "tick w \<equiv> w\<lparr>w_now := Suc (w_now w)\<rparr>"

text \<open>malloc never hands out a live block; 0 is an allocation failure.\<close>

definition sys_malloc :: "(addr \<Rightarrow> bool) \<Rightarrow> 's world_scheme \<Rightarrow> addr \<times> 's world_scheme" where
  "sys_malloc live w =
     (let p = w_ptr w (w_now w)
      in (if live p then 0 else p, w\<lparr>w_now := Suc (w_now w)\<rparr>))"

lemma sys_malloc_fresh:
  "sys_malloc live w = (p, w') \<Longrightarrow> p \<noteq> 0 \<Longrightarrow> \<not> live p"
  by (auto simp: sys_malloc_def Let_def split: if_splits)

lemma sys_malloc_world: "sys_malloc live w = (p, w') \<Longrightarrow> w' = tick w"
  by (auto simp: sys_malloc_def Let_def)

text \<open>From now on every call succeeds.\<close>

definition calls_ok :: "'s world_scheme \<Rightarrow> bool" where
  "calls_ok w = (\<forall>n \<ge> w_now w. w_rc w n = 0)"

lemma calls_ok_tick [simp]:
  "calls_ok w \<Longrightarrow> w_now w \<le> k \<Longrightarrow> calls_ok (w\<lparr>w_now := k\<rparr>)"
  by (simp add: calls_ok_def)

lemma calls_ok_rc [simp]: "calls_ok w \<Longrightarrow> w_now w \<le> n \<Longrightarrow> w_rc w n = 0"
  by (simp add: calls_ok_def)

text \<open>Same state at a later time.\<close>

definition later :: "'s world_scheme \<Rightarrow> 's world_scheme \<Rightarrow> bool" where
  "later w w' = (\<exists>k. w' = w\<lparr>w_now := k\<rparr>)"

lemma later_refl [simp]: "later w w" by (auto simp: later_def intro: exI[of _ "w_now w"])
lemma later_trans: "later w w' \<Longrightarrow> later w' w'' \<Longrightarrow> later w w''" by (auto simp: later_def)

text \<open>A system in which every call succeeds, offering the blocks p, p + 1, ...\<close>

definition good_world :: "addr \<Rightarrow> world" where
  "good_world p = \<lparr>w_now = 0, w_rc = (\<lambda>_. 0), w_ptr = (\<lambda>n. p + n)\<rparr>"

subsection \<open>Arrays\<close>

text \<open>
  memmove of n cells inside one array, from index src to index dst; None if a cell
  outside the array would be touched.
\<close>

definition memmove :: "'a list \<Rightarrow> nat \<Rightarrow> nat \<Rightarrow> nat \<Rightarrow> 'a list option" where
  "memmove xs dst src n =
     (if src + n \<le> length xs \<and> dst + n \<le> length xs
      then Some (take dst xs @ take n (drop src xs) @ drop (dst + n) xs)
      else None)"

definition array_read :: "'a list \<Rightarrow> nat \<Rightarrow> 'a option" where
  "array_read xs i = (if i < length xs then Some (xs ! i) else None)"

definition array_write :: "'a list \<Rightarrow> nat \<Rightarrow> 'a \<Rightarrow> 'a list option" where
  "array_write xs i x = (if i < length xs then Some (xs[i := x]) else None)"

definition remove_nth :: "nat \<Rightarrow> 'a list \<Rightarrow> 'a list" where
  "remove_nth i xs = take i xs @ drop (Suc i) xs"

lemma length_remove_nth [simp]:
  "i < length xs \<Longrightarrow> length (remove_nth i xs) = length xs - 1"
  by (simp add: remove_nth_def)

lemma set_remove_nth_subset: "set (remove_nth i xs) \<subseteq> set xs"
  by (auto simp: remove_nth_def dest: in_set_takeD in_set_dropD)

lemma distinct_remove_nth [simp]: "distinct xs \<Longrightarrow> distinct (remove_nth i xs)"
  by (auto simp: remove_nth_def set_take_disj_set_drop_if_distinct)

lemma remove_nth_0 [simp]: "remove_nth 0 xs = tl xs"
  by (simp add: remove_nth_def drop_Suc)

lemma remove_nth_last: "xs \<noteq> [] \<Longrightarrow> remove_nth (length xs - 1) xs = butlast xs"
  by (simp add: remove_nth_def butlast_conv_take)

lemma last_notin_butlast [simp]: "distinct xs \<Longrightarrow> xs \<noteq> [] \<Longrightarrow> last xs \<notin> set (butlast xs)"
  by (induction xs) auto

lemma set_remove_nth_distinct:
  assumes "distinct xs" "i < length xs"
  shows "set (remove_nth i xs) = set xs - {xs ! i}"
proof -
  have *: "xs = take i xs @ xs ! i # drop (Suc i) xs"
    using assms(2) by (simp add: id_take_nth_drop)
  then have "distinct (take i xs @ xs ! i # drop (Suc i) xs)"
    using assms(1) by simp
  moreover have "set xs = set (take i xs) \<union> {xs ! i} \<union> set (drop (Suc i) xs)"
    by (subst *) auto
  ultimately show ?thesis
    by (auto simp: remove_nth_def)
qed

text \<open>
  What the buffer lists do to delete cell i of the first n cells: the cells behind it
  move down by one, and the live part of the array loses exactly that cell.
\<close>

lemma memmove_down_live:
  assumes "i < n" "n \<le> length xs"
  shows "\<exists>ys. memmove xs i (Suc i) (n - i - 1) = Some ys
           \<and> length ys = length xs
           \<and> take (n - 1) ys = remove_nth i (take n xs)"
proof -
  let ?ys = "take i xs @ take (n - i - 1) (drop (Suc i) xs) @ drop (i + (n - i - 1)) xs"
  have "memmove xs i (Suc i) (n - i - 1) = Some ?ys"
    using assms by (simp add: memmove_def)
  moreover have "length ?ys = length xs"
    using assms by auto
  moreover have "take (n - 1) ?ys = remove_nth i (take n xs)"
    using assms by (simp add: remove_nth_def take_drop)
  ultimately show ?thesis by blast
qed

lemma remove_last_snoc: "remove_nth (length xs) (xs @ [x]) = xs"
  by (simp add: remove_nth_def)

text \<open>The index of the first element that satisfies P.\<close>

fun find_index :: "('a \<Rightarrow> bool) \<Rightarrow> 'a list \<Rightarrow> nat option" where
  "find_index P [] = None"
| "find_index P (x # xs) = (if P x then Some 0 else map_option Suc (find_index P xs))"

lemma find_index_None: "(find_index P xs = None) = (\<forall>x \<in> set xs. \<not> P x)"
  by (induction xs) auto

lemma find_index_Some:
  "find_index P xs = Some i \<Longrightarrow> i < length xs \<and> P (xs ! i) \<and> (\<forall>j < i. \<not> P (xs ! j))"
proof (induction xs arbitrary: i)
  case (Cons x xs)
  then show ?case by (auto simp: nth_Cons split: if_splits nat.splits)
qed simp

lemma find_index_find: "List.find P xs = map_option (nth xs) (find_index P xs)"
  by (induction xs) (auto simp: option.map_comp comp_def)

lemma find_append:
  "List.find P (xs @ ys) = (case List.find P xs of None \<Rightarrow> List.find P ys | Some x \<Rightarrow> Some x)"
  by (induction xs) auto

lemma find_index_remove1: "find_index (\<lambda>x. x = b) xs = Some i \<Longrightarrow> remove_nth i xs = remove1 b xs"
proof (induction xs arbitrary: i)
  case (Cons x xs)
  then show ?case by (auto simp: remove_nth_def split: if_splits)
qed simp

lemma find_index_cong: "(\<And>x. x \<in> set xs \<Longrightarrow> P x = Q x) \<Longrightarrow> find_index P xs = find_index Q xs"
  by (induction xs) auto

subsection \<open>Words\<close>

lemma word_minus_1_eq_0: "((x :: 'a::len word) - 1 = 0) = (unat x = 1)"
proof
  assume "unat x = 1"
  then have "unat x = unat (1 :: 'a word)" by simp
  then show "x - 1 = 0" by (metis eq_iff_diff_eq_0 word_unat_eq_iff)
next
  assume "x - 1 = 0"
  then show "unat x = 1" by simp
qed

lemma unat_of_nat_u32: "n < 2 ^ 64 \<Longrightarrow> unat (of_nat n :: omx_u32) = n"
  by (simp add: unat_of_nat)

lemma unat_minus_1: "(x :: 'a::len word) \<noteq> 0 \<Longrightarrow> unat (x - 1) = unat x - 1"
  by (simp add: unat_gt_0 unat_minus_one)

lemma unat_plus_1: "unat (x :: 'a::len word) + 1 < 2 ^ LENGTH('a) \<Longrightarrow> unat (x + 1) = unat x + 1"
  by (simp add: unat_word_ariths)

subsection \<open>Hint collections\<close>

text \<open>
  \<open>cdefs\<close> collects the definitions of C functions that are unfolded together when
  an operation is computed.
\<close>

named_theorems cdefs

lemmas bind_cases = Option.bind_eq_Some_conv

end
