(* ===== verification/OmxTypes.thy ===== *)
theory OmxTypes
  imports Prelude
begin

text \<open>
  The data types of the OpenMAX IL headers (headers/OMX\_Core.h, OMX\_Types.h,
  OMX\_Component.h) that the component of project.omx works on: error codes, states,
  commands, events, port directions, buffer suppliers, buffer headers, marks and port
  definitions.

  OSAL\_ERRORTYPE (source/OSAL.h) uses the numeric values of OMX\_ERRORTYPE
  and the code assigns one to the other, so both are the one datatype here.
\<close>

subsection \<open>Enumerations\<close>

datatype (plugins only: code size) omx_errortype =
    OMX_ErrorNone
  | OMX_ErrorInsufficientResources
  | OMX_ErrorUndefined
  | OMX_ErrorInvalidComponentName
  | OMX_ErrorComponentNotFound
  | OMX_ErrorInvalidComponent
  | OMX_ErrorBadParameter
  | OMX_ErrorNotImplemented
  | OMX_ErrorUnderflow
  | OMX_ErrorOverflow
  | OMX_ErrorHardware
  | OMX_ErrorInvalidState
  | OMX_ErrorStreamCorrupt
  | OMX_ErrorPortsNotCompatible
  | OMX_ErrorResourcesLost
  | OMX_ErrorNoMore
  | OMX_ErrorVersionMismatch
  | OMX_ErrorNotReady
  | OMX_ErrorTimeout
  | OMX_ErrorSameState
  | OMX_ErrorResourcesPreempted
  | OMX_ErrorPortUnresponsiveDuringAllocation
  | OMX_ErrorPortUnresponsiveDuringDeallocation
  | OMX_ErrorPortUnresponsiveDuringStop
  | OMX_ErrorIncorrectStateTransition
  | OMX_ErrorIncorrectStateOperation
  | OMX_ErrorUnsupportedSetting
  | OMX_ErrorUnsupportedIndex
  | OMX_ErrorBadPortIndex
  | OMX_ErrorPortUnpopulated
  | OMX_ErrorComponentSuspended
  | OMX_ErrorDynamicResourcesUnavailable
  | OMX_ErrorMbErrorsInFrame
  | OMX_ErrorFormatNotDetected
  | OMX_ErrorContentPipeOpenFailed
  | OMX_ErrorContentPipeCreationFailed
  | OMX_ErrorSeperateTablesUsed
  | OMX_ErrorTunnelingUnsupported

datatype omx_commandtype =
    OMX_CommandStateSet
  | OMX_CommandFlush
  | OMX_CommandPortDisable
  | OMX_CommandPortEnable
  | OMX_CommandMarkBuffer
  | OMX_CommandReserved nat   \<comment> \<open>a value of the reserved regions\<close>

text \<open>OMX\_STATETYPE; a state requested by a command is an integer the caller chose, so
  the values outside the named ones are kept.\<close>

datatype omx_statetype =
    OMX_StateInvalid
  | OMX_StateLoaded
  | OMX_StateIdle
  | OMX_StateExecuting
  | OMX_StatePause
  | OMX_StateWaitForResources
  | OMX_StateReserved nat

datatype omx_dirtype = OMX_DirInput | OMX_DirOutput

datatype omx_buffersupplier =
    OMX_BufferSupplyUnspecified
  | OMX_BufferSupplyInput
  | OMX_BufferSupplyOutput

datatype omx_eventtype =
    OMX_EventCmdComplete
  | OMX_EventError
  | OMX_EventMark
  | OMX_EventPortSettingsChanged
  | OMX_EventBufferFlag

subsection \<open>Structures\<close>

text \<open>OMX\_BUFFERHEADERTYPE. Opaque application pointers are addresses.\<close>

record omx_bufferheader =
  nVersion :: omx_u32
  pBuffer :: addr
  nAllocLen :: omx_u32
  nFilledLen :: omx_u32
  nOffset :: omx_u32
  pAppPrivate :: addr
  pInputPortPrivate :: addr
  pOutputPortPrivate :: addr
  hMarkTargetComponent :: addr
  pMarkData :: addr
  nTimeStamp :: "64 word"
  nFlags :: omx_u32
  nOutputPortIndex :: omx_u32
  nInputPortIndex :: omx_u32

text \<open>A header of zeroes, what memset leaves.\<close>

definition zero_header :: omx_bufferheader where
  "zero_header = \<lparr>nVersion = 0, pBuffer = 0, nAllocLen = 0, nFilledLen = 0, nOffset = 0,
     pAppPrivate = 0, pInputPortPrivate = 0, pOutputPortPrivate = 0,
     hMarkTargetComponent = 0, pMarkData = 0, nTimeStamp = 0, nFlags = 0,
     nOutputPortIndex = 0, nInputPortIndex = 0\<rparr>"

text \<open>OMX\_MARKTYPE\<close>

record omx_mark =
  mk_target :: addr
  mk_data :: addr

text \<open>OMX\_PARAM\_PORTDEFINITIONTYPE, less the format union (eDomain, format) that only the
  parameter calls use.\<close>

record omx_portdef =
  eDir :: omx_dirtype
  nBufferCountActual :: omx_u32
  nBufferCountMin :: omx_u32
  nBufferSize :: omx_u32
  bEnabled :: bool
  bPopulated :: bool

text \<open>OMX\_TUNNELSETUPTYPE\<close>

record omx_tunnelsetup =
  nTunnelFlags :: omx_u32
  eSupplier :: omx_buffersupplier

end
