(* ===== verification/Osal.thy ===== *)
theory Osal
  imports OmxTypes
begin

text \<open>
  The OS abstraction layer, source/OSAL.c: checked heap blocks, recursive mutexes, and
  events made of a flag, a mutex and a pipe.

  Every pthread or file call asks the oracle of the world for its return code. A mutex
  is seen from the thread that runs the code: its depth is how often this thread holds
  it. Waiting for another thread to release it is not a step of this thread; waiting
  for itself is a deadlock, the value None.
\<close>

subsection \<open>Mutexes\<close>

text \<open>The recursive attribute is asked for once and kept in static variables; the
  first argument is what they hold.\<close>

record osal_mutex =
  m_recursive :: bool
  m_depth :: nat

definition EINVAL :: nat where "EINVAL = 22"
definition EDEADLK :: nat where "EDEADLK = 35"
definition EPERM :: nat where "EPERM = 1"

definition OSAL_MutexCreate ::
  "bool \<Rightarrow> 's world_scheme \<Rightarrow> omx_errortype \<times> bool \<times> osal_mutex option \<times> 's world_scheme" where
  "OSAL_MutexCreate pAttr w =
     (let (p, w) = sys_malloc (\<lambda>_. False) w;
          (pAttr, w) =
            (if pAttr then (True, w)
             else (case sys_call w of (r1, w) \<Rightarrow>
                     if r1 \<noteq> 0 then (False, w)
                     else (case sys_call w of (r2, w) \<Rightarrow> (r2 = 0, w))))
      in if p = 0 then (OMX_ErrorInsufficientResources, pAttr, None, w)
         else (case sys_call w of (r, w) \<Rightarrow>
                if r \<noteq> 0 then (OMX_ErrorInsufficientResources, pAttr, None, w)
                else (OMX_ErrorNone, pAttr, Some \<lparr>m_recursive = pAttr, m_depth = 0\<rparr>, w)))"

definition OSAL_MutexDestroy ::
  "osal_mutex option \<Rightarrow> 's world_scheme \<Rightarrow> omx_errortype \<times> osal_mutex option \<times> 's world_scheme" where
  "OSAL_MutexDestroy pMutex w =
     (case pMutex of
        None \<Rightarrow> (OMX_ErrorBadParameter, None, w)
      | Some m \<Rightarrow>
          (case sys_call w of (r, w) \<Rightarrow>
             if r \<noteq> 0 then (OMX_ErrorBadParameter, Some m, w)
             else (OMX_ErrorNone, None, w)))"

definition OSAL_MutexLock ::
  "osal_mutex option \<Rightarrow> 's world_scheme
    \<Rightarrow> (omx_errortype \<times> osal_mutex option \<times> 's world_scheme) option" where
  "OSAL_MutexLock pMutex w =
     (case pMutex of
        None \<Rightarrow> Some (OMX_ErrorBadParameter, None, w)
      | Some m \<Rightarrow>
          (case sys_call w of (err, w) \<Rightarrow>
             if err = 0 then
               (if m_depth m > 0 \<and> \<not> m_recursive m then None
                else Some (OMX_ErrorNone, Some (m\<lparr>m_depth := Suc (m_depth m)\<rparr>), w))
             else if err = EINVAL then Some (OMX_ErrorBadParameter, Some m, w)
             else if err = EDEADLK then Some (OMX_ErrorNotReady, Some m, w)
             else Some (OMX_ErrorUndefined, Some m, w)))"

text \<open>Unlocking a mutex that is not held is undefined behaviour unless the system
  reports it: None.\<close>

definition OSAL_MutexUnlock ::
  "osal_mutex option \<Rightarrow> 's world_scheme
    \<Rightarrow> (omx_errortype \<times> osal_mutex option \<times> 's world_scheme) option" where
  "OSAL_MutexUnlock pMutex w =
     (case pMutex of
        None \<Rightarrow> Some (OMX_ErrorBadParameter, None, w)
      | Some m \<Rightarrow>
          (case sys_call w of (err, w) \<Rightarrow>
             if err = 0 then
               (if m_depth m = 0 then None
                else Some (OMX_ErrorNone, Some (m\<lparr>m_depth := m_depth m - 1\<rparr>), w))
             else if err = EINVAL then Some (OMX_ErrorBadParameter, Some m, w)
             else if err = EPERM then Some (OMX_ErrorNotReady, Some m, w)
             else Some (OMX_ErrorUndefined, Some m, w)))"

subsection \<open>Events\<close>

text \<open>OSAL\_THREAD\_EVENT: the flag, the bytes waiting in the pipe, and whether this
  thread holds the event's (not recursive) mutex. A pipe takes PIPE\_BUF\_SIZE bytes
  before write blocks.\<close>

record osal_event =
  bSignaled :: bool
  ev_pipe :: nat
  ev_held :: bool

definition PIPE_SIZE :: nat where "PIPE_SIZE = 65536"

definition OSAL_EventCreate ::
  "'s world_scheme \<Rightarrow> omx_errortype \<times> osal_event option \<times> 's world_scheme" where
  "OSAL_EventCreate w =
     (case sys_malloc (\<lambda>_. False) w of (p, w) \<Rightarrow>
        if p = 0 then (OMX_ErrorInsufficientResources, None, w)
        else (case sys_call w of (r, w) \<Rightarrow>
          if r \<noteq> 0 then (OMX_ErrorInsufficientResources, None, w)
          else (case sys_call w of (r, w) \<Rightarrow>
            if r \<noteq> 0 then (OMX_ErrorInsufficientResources, None, w)
            else (OMX_ErrorNone,
                  Some \<lparr>bSignaled = False, ev_pipe = 0, ev_held = False\<rparr>, w))))"

text \<open>pthread\_mutex\_lock on the event's mutex: the mutex is a plain one, so a thread
  that still holds it never returns.\<close>

definition ev_lock ::
  "osal_event \<Rightarrow> 's world_scheme \<Rightarrow> (bool \<times> osal_event \<times> 's world_scheme) option" where
  "ev_lock e w =
     (case sys_call w of (r, w) \<Rightarrow>
        if r \<noteq> 0 then Some (False, e, w)
        else if ev_held e then None
        else Some (True, e\<lparr>ev_held := True\<rparr>, w))"

text \<open>The result of pthread\_mutex\_unlock is ignored by the code; the mutex is free
  afterwards if the call succeeded.\<close>

definition ev_unlock :: "osal_event \<Rightarrow> 's world_scheme \<Rightarrow> osal_event \<times> 's world_scheme" where
  "ev_unlock e w =
     (case sys_call w of (r, w) \<Rightarrow> (if r = 0 then e\<lparr>ev_held := False\<rparr> else e, w))"

definition OSAL_EventDestroy ::
  "osal_event option \<Rightarrow> 's world_scheme
    \<Rightarrow> (omx_errortype \<times> osal_event option \<times> 's world_scheme) option" where
  "OSAL_EventDestroy hEvent w =
     (case hEvent of
        None \<Rightarrow> Some (OMX_ErrorBadParameter, None, w)
      | Some e \<Rightarrow> do {
          (ok, e, w) \<leftarrow> ev_lock e w;
          if \<not> ok then Some (OMX_ErrorBadParameter, Some e, w)
          else (case sys_call w of (r0, w) \<Rightarrow>
            if r0 \<noteq> 0 then None
            else (case sys_call w of (r1, w) \<Rightarrow>
              if r1 \<noteq> 0 then None
              else (case ev_unlock e w of (e, w) \<Rightarrow>
                (case sys_call w of (_, w) \<Rightarrow> Some (OMX_ErrorNone, None, w)))))
        })"

text \<open>read takes one byte and blocks on an empty pipe; write blocks on a full one. The
  error returns leave the event's mutex locked, as the code does.\<close>

definition OSAL_EventReset ::
  "osal_event option \<Rightarrow> 's world_scheme
    \<Rightarrow> (omx_errortype \<times> osal_event option \<times> 's world_scheme) option" where
  "OSAL_EventReset hEvent w =
     (case hEvent of
        None \<Rightarrow> Some (OMX_ErrorBadParameter, None, w)
      | Some e \<Rightarrow> do {
          (ok, e, w) \<leftarrow> ev_lock e w;
          if \<not> ok then Some (OMX_ErrorBadParameter, Some e, w)
          else if bSignaled e then
            (case sys_call w of (ret, w) \<Rightarrow>
               if ret \<noteq> 0 then Some (OMX_ErrorUndefined, Some e, w)
               else if ev_pipe e = 0 then None
               else (case ev_unlock (e\<lparr>ev_pipe := ev_pipe e - 1, bSignaled := False\<rparr>) w
                       of (e, w) \<Rightarrow> Some (OMX_ErrorNone, Some e, w)))
          else (case ev_unlock e w of (e, w) \<Rightarrow> Some (OMX_ErrorNone, Some e, w))
        })"

definition OSAL_EventSet ::
  "osal_event option \<Rightarrow> 's world_scheme
    \<Rightarrow> (omx_errortype \<times> osal_event option \<times> 's world_scheme) option" where
  "OSAL_EventSet hEvent w =
     (case hEvent of
        None \<Rightarrow> Some (OMX_ErrorBadParameter, None, w)
      | Some e \<Rightarrow> do {
          (ok, e, w) \<leftarrow> ev_lock e w;
          if \<not> ok then Some (OMX_ErrorBadParameter, Some e, w)
          else if \<not> bSignaled e then
            (case sys_call w of (ret, w) \<Rightarrow>
               if ret \<noteq> 0 then Some (OMX_ErrorUndefined, Some e, w)
               else if ev_pipe e \<ge> PIPE_SIZE then None
               else (case ev_unlock (e\<lparr>ev_pipe := ev_pipe e + 1, bSignaled := True\<rparr>) w
                       of (e, w) \<Rightarrow> Some (OMX_ErrorNone, Some e, w)))
          else (case ev_unlock e w of (e, w) \<Rightarrow> Some (OMX_ErrorNone, Some e, w))
        })"

text \<open>select over the read ends: the ready ones are those with a byte waiting. With
  none ready it blocks (None) or, with a timeout, returns 0.\<close>

definition INFINITE_WAIT :: omx_u32 where "INFINITE_WAIT = 0xFFFFFFFF"

definition fd_ready :: "osal_event \<Rightarrow> bool" where
  "fd_ready e = (ev_pipe e > 0)"

text \<open>The first result is the error, the second the array bSignaled, the third
  *pbTimedOut, which the function only ever sets. On an error return and on the early
  return for a NULL event the array is left alone.\<close>

definition OSAL_EventWaitMultiple ::
  "osal_event option list \<Rightarrow> bool list \<Rightarrow> omx_u32 \<Rightarrow> bool \<Rightarrow> 's world_scheme
    \<Rightarrow> (omx_errortype \<times> bool list \<times> bool \<times> 's world_scheme) option" where
  "OSAL_EventWaitMultiple hEvents signaled mSecs timedOut w =
     (if None \<in> set hEvents then Some (OMX_ErrorBadParameter, signaled, timedOut, w)
      else
        (case sys_call w of (ret, w) \<Rightarrow>
          let ready = List.map (\<lambda>h. case h of None \<Rightarrow> False | Some e \<Rightarrow> fd_ready e) hEvents
          in if ret \<noteq> 0 then Some (OMX_ErrorUndefined, signaled, timedOut, w)
             else if mSecs = INFINITE_WAIT then
               (if True \<in> set ready then Some (OMX_ErrorNone, ready, timedOut, w) else None)
             else Some (OMX_ErrorNone, ready, timedOut \<or> True \<notin> set ready, w)))"

text \<open>The flag of the single event is a local variable of OSAL\_EventWait, so the caller
  learns only the error and whether the wait timed out.\<close>

definition OSAL_EventWait ::
  "osal_event option \<Rightarrow> omx_u32 \<Rightarrow> bool \<Rightarrow> 's world_scheme
    \<Rightarrow> (omx_errortype \<times> bool \<times> 's world_scheme) option" where
  "OSAL_EventWait hEvent uMsec timedOut w = do {
     (err, _, timedOut, w) \<leftarrow> OSAL_EventWaitMultiple [hEvent] [False] uMsec timedOut w;
     Some (err, timedOut, w)
   }"

subsection \<open>Checked heap blocks\<close>

text \<open>
  OSAL\_Malloc puts the size in front of the payload and a sentinel behind it;
  OSAL\_Free checks the sentinel. A block is its bytes; a size is an OMX\_U32, stored
  little-endian in eight bytes.
\<close>

type_synonym byte = "8 word"

definition le_bytes :: "omx_u32 \<Rightarrow> byte list" where
  "le_bytes x = List.map (\<lambda>i. ucast (drop_bit (8 * i) x)) [0 ..< 8]"

fun le_word :: "byte list \<Rightarrow> omx_u32" where
  "le_word [] = 0"
| "le_word (b # bs) = ucast b OR push_bit 8 (le_word bs)"

definition MEMORY_SENTINEL :: omx_u32 where "MEMORY_SENTINEL = 0xACDCACDC"

text \<open>raw is what malloc returned: None or a block of as many bytes as asked for.\<close>

definition OSAL_Malloc :: "(omx_u32 \<Rightarrow> byte list option) \<Rightarrow> omx_u32 \<Rightarrow> byte list option" where
  "OSAL_Malloc raw sz =
     (case raw (sz + 16) of
        None \<Rightarrow> None
      | Some data \<Rightarrow>
          Some (le_bytes sz
                @ take (unat sz) (drop 8 data)
                @ le_bytes MEMORY_SENTINEL))"

text \<open>Writing through the pointer the caller got: cell i of the payload is byte 8 + i of
  the block; None outside the block.\<close>

definition payload_write :: "byte list \<Rightarrow> nat \<Rightarrow> byte \<Rightarrow> byte list option" where
  "payload_write block i b = array_write block (8 + i) b"

fun payload_writes :: "byte list \<Rightarrow> (nat \<times> byte) list \<Rightarrow> byte list option" where
  "payload_writes block [] = Some block"
| "payload_writes block ((i, b) # ws) =
     Option.bind (payload_write block i b) (\<lambda>block. payload_writes block ws)"

text \<open>OSAL\_Free: True is returned to malloc's heap, None is the failed assertion or a read
  outside the block.\<close>

definition OSAL_Free :: "byte list \<Rightarrow> unit option" where
  "OSAL_Free block =
     (let sz = unat (le_word (take 8 block))
      in if sz + 16 > length block then None
         else if take 8 (drop (sz + 8) block) = le_bytes MEMORY_SENTINEL then Some ()
         else None)"

subsection \<open>Threads\<close>

text \<open>OSAL\_ThreadCreate allocates its control block, then asks for the thread. The
  started thread is the function and the argument it runs.\<close>

definition OSAL_ThreadCreate ::
  "'f \<Rightarrow> 's world_scheme \<Rightarrow> omx_errortype \<times> 'f option \<times> 's world_scheme" where
  "OSAL_ThreadCreate pFunc w =
     (case sys_malloc (\<lambda>_. False) w of (p, w) \<Rightarrow>
        if p = 0 then (OMX_ErrorInsufficientResources, None, w)
        else (case sys_call w of (r, w) \<Rightarrow>
          if r \<noteq> 0 then (OMX_ErrorInsufficientResources, None, w)
          else (OMX_ErrorNone, Some pFunc, w)))"

definition OSAL_ThreadDestroy ::
  "'f option \<Rightarrow> 's world_scheme \<Rightarrow> omx_errortype \<times> 's world_scheme" where
  "OSAL_ThreadDestroy hThread w =
     (case hThread of
        None \<Rightarrow> (OMX_ErrorBadParameter, w)
      | Some _ \<Rightarrow> (case sys_call w of (r, w) \<Rightarrow>
          if r \<noteq> 0 then (OMX_ErrorBadParameter, w) else (OMX_ErrorNone, w)))"

subsection \<open>The event is a manual-reset flag\<close>

text \<open>One byte waits in the pipe exactly while the flag is set, so select on the read
  end observes the flag.\<close>

definition ev_inv :: "osal_event \<Rightarrow> bool" where
  "ev_inv e = (ev_pipe e = (if bSignaled e then 1 else 0))"

lemmas event_defs = OSAL_EventSet_def OSAL_EventReset_def OSAL_EventDestroy_def
  ev_lock_def ev_unlock_def sys_call_def

lemma OSAL_EventSet_cases:
  assumes "OSAL_EventSet (Some e) w = Some (err, h', w')" "ev_inv e"
  shows "h' \<noteq> None \<and> ev_inv (the h')
    \<and> bSignaled (the h') = (bSignaled e \<or> err = OMX_ErrorNone)"
  using assms by (auto simp: event_defs ev_inv_def split: if_splits)

lemma OSAL_EventReset_cases:
  assumes "OSAL_EventReset (Some e) w = Some (err, h', w')" "ev_inv e"
  shows "h' \<noteq> None \<and> ev_inv (the h')
    \<and> bSignaled (the h') = (bSignaled e \<and> err \<noteq> OMX_ErrorNone)"
  using assms by (auto simp: event_defs ev_inv_def split: if_splits)

text \<open>The two states an undisturbed event has.\<close>

definition event_of :: "bool \<Rightarrow> osal_event" where
  "event_of b = \<lparr>bSignaled = b, ev_pipe = (if b then 1 else 0), ev_held = False\<rparr>"

lemma event_of_sel [simp]:
  "bSignaled (event_of b) = b" "ev_held (event_of b) = False"
  "ev_pipe (event_of b) = (if b then 1 else 0)" "ev_inv (event_of b)"
  by (simp_all add: event_of_def ev_inv_def)

lemma OSAL_EventSet_ok:
  assumes "calls_ok w"
  shows "OSAL_EventSet (Some (event_of b)) w =
    Some (OMX_ErrorNone, Some (event_of True), w\<lparr>w_now := w_now w + (if b then 2 else 3)\<rparr>)"
  using assms by (simp add: event_defs event_of_def PIPE_SIZE_def numeral_3_eq_3)

lemma OSAL_EventReset_ok:
  assumes "calls_ok w"
  shows "OSAL_EventReset (Some (event_of b)) w =
    Some (OMX_ErrorNone, Some (event_of False), w\<lparr>w_now := w_now w + (if b then 3 else 2)\<rparr>)"
  using assms by (simp add: event_defs event_of_def numeral_3_eq_3)

text \<open>The calls change nothing but the time and the object they are given.\<close>

lemma OSAL_MutexLock_later:
  "OSAL_MutexLock m w = Some (err, m', w') \<Longrightarrow> later w w'"
  by (auto simp: OSAL_MutexLock_def sys_call_def later_def split: option.splits if_splits intro: exI[of _ "w_now w"])
lemma OSAL_MutexUnlock_later:
  "OSAL_MutexUnlock m w = Some (err, m', w') \<Longrightarrow> later w w'"
  by (auto simp: OSAL_MutexUnlock_def sys_call_def later_def split: option.splits if_splits intro: exI[of _ "w_now w"])
lemma OSAL_EventSet_later:
  "OSAL_EventSet e w = Some (err, e', w') \<Longrightarrow> later w w'"
  by (auto simp: event_defs later_def split: option.splits if_splits intro: exI[of _ "w_now w"])
lemma OSAL_EventReset_later:
  "OSAL_EventReset e w = Some (err, e', w') \<Longrightarrow> later w w'"
  by (auto simp: event_defs later_def split: option.splits if_splits intro: exI[of _ "w_now w"])

definition event_is :: "osal_event option \<Rightarrow> bool \<Rightarrow> bool" where
  "event_is h b = (case h of None \<Rightarrow> False | Some e \<Rightarrow> ev_inv e \<and> bSignaled e = b)"

lemma OSAL_EventSet_is:
  assumes "OSAL_EventSet h w = Some (err, h', w')" "event_is h b"
  shows "event_is h' (b \<or> err = OMX_ErrorNone)"
proof -
  obtain e where "h = Some e" using assms(2) by (cases h) (auto simp: event_is_def)
  with assms OSAL_EventSet_cases[of e w err h' w'] show ?thesis
    by (auto simp: event_is_def)
qed

lemma OSAL_EventReset_is:
  assumes "OSAL_EventReset h w = Some (err, h', w')" "event_is h b"
  shows "event_is h' (b \<and> err \<noteq> OMX_ErrorNone)"
proof -
  obtain e where "h = Some e" using assms(2) by (cases h) (auto simp: event_is_def)
  with assms OSAL_EventReset_cases[of e w err h' w'] show ?thesis
    by (auto simp: event_is_def)
qed

lemma OSAL_MutexLock_keeps: "OSAL_MutexLock m w = Some (err, m', w') \<Longrightarrow> (m' = None) = (m = None)"
  by (auto simp: OSAL_MutexLock_def sys_call_def split: option.splits if_splits)
lemma OSAL_MutexUnlock_keeps: "OSAL_MutexUnlock m w = Some (err, m', w') \<Longrightarrow> (m' = None) = (m = None)"
  by (auto simp: OSAL_MutexUnlock_def sys_call_def split: option.splits if_splits)

lemma OSAL_MutexLock_ok:
  "calls_ok w \<Longrightarrow> m_depth m = 0 \<Longrightarrow>
   OSAL_MutexLock (Some m) w = Some (OMX_ErrorNone, Some (m\<lparr>m_depth := 1\<rparr>), tick w)"
  by (simp add: OSAL_MutexLock_def sys_call_def)
lemma OSAL_MutexUnlock_ok:
  "calls_ok w \<Longrightarrow> m_depth m > 0 \<Longrightarrow>
   OSAL_MutexUnlock (Some m) w = Some (OMX_ErrorNone, Some (m\<lparr>m_depth := m_depth m - 1\<rparr>), tick w)"
  by (simp add: OSAL_MutexUnlock_def sys_call_def)

lemma OSAL_MutexCreate_cases:
  "OSAL_MutexCreate pAttr w = (err, pAttr', m, w') \<Longrightarrow> later w w'
    \<and> (err = OMX_ErrorNone \<longrightarrow> m = Some \<lparr>m_recursive = pAttr', m_depth = 0\<rparr>)"
  by (auto simp: OSAL_MutexCreate_def sys_malloc_def sys_call_def Let_def later_def
      intro: exI[of _ "w_now w"] split: if_splits)

lemma OSAL_EventCreate_cases:
  "OSAL_EventCreate w = (err, e, w') \<Longrightarrow> later w w'
    \<and> (err = OMX_ErrorNone \<longrightarrow> e = Some (event_of False))"
  by (auto simp: OSAL_EventCreate_def sys_malloc_def sys_call_def Let_def later_def event_of_def
      intro: exI[of _ "w_now w"] split: if_splits)

lemma OSAL_EventDestroy_ok:
  assumes "calls_ok w"
  shows "OSAL_EventDestroy (Some (event_of b)) w = Some (OMX_ErrorNone, None, w\<lparr>w_now := w_now w + 5\<rparr>)"
  using assms by (simp add: event_defs event_of_def eval_nat_numeral)

lemma OSAL_EventWait_event_of:
  assumes "calls_ok w"
  shows "(OSAL_EventWait (Some (event_of b)) ms False w =
     (if b then Some (OMX_ErrorNone, False, tick w)
      else if ms = INFINITE_WAIT then None
      else Some (OMX_ErrorNone, True, tick w)))"
  using assms by (simp add: OSAL_EventWait_def OSAL_EventWaitMultiple_def sys_call_def fd_ready_def)

subsection \<open>Properties\<close>

lemma bit_le_word:
  "bit (le_word bs) n \<longleftrightarrow> n < 64 \<and> n div 8 < length bs \<and> bit (bs ! (n div 8)) (n mod 8)"
proof (induction bs arbitrary: n)
  case (Cons b bs)
  show ?case
  proof (cases "n < 8")
    case True
    then show ?thesis by (simp add: bit_simps Cons.IH)
  next
    case False
    then have "n div 8 = Suc ((n - 8) div 8)" "n mod 8 = (n - 8) mod 8"
      by (simp_all add: le_div_geq le_mod_geq)
    moreover have "\<not> bit b n" using False by (auto dest: bit_imp_le_length)
    ultimately show ?thesis
      using False by (auto simp: bit_simps Cons.IH dest: bit_imp_le_length)
  qed
qed simp

lemma le_word_le_bytes [simp]: "le_word (le_bytes x) = x"
proof (rule bit_word_eqI)
  fix n :: nat
  assume n: "n < LENGTH(64)"
  then have "n div 8 < 8" by auto
  then show "bit (le_word (le_bytes x)) n = bit x n"
    using n by (simp add: bit_le_word le_bytes_def bit_simps del: upt_Suc)
qed

lemma length_le_bytes [simp]: "length (le_bytes x) = 8"
  by (simp add: le_bytes_def)

lemma OSAL_Free_frame:
  assumes "length ps = unat sz" "length s = 8"
  shows "OSAL_Free (le_bytes sz @ ps @ s)
    = (if s = le_bytes MEMORY_SENTINEL then Some () else None)"
  using assms by (simp add: OSAL_Free_def)

lemma payload_write_frame:
  assumes "length ps = unat sz" "length s = 8" "i < unat sz + 8"
  shows "payload_write (le_bytes sz @ ps @ s) i b =
    Some (le_bytes sz @ (if i < unat sz then ps[i := b] @ s
                         else ps @ s[i - unat sz := b]))"
  using assms by (simp add: payload_write_def array_write_def list_update_append)

lemma payload_writes_frame:
  assumes "length ps = unat sz" "length s = 8" "\<forall>(i, b) \<in> set ws. i < unat sz"
  shows "\<exists>qs. length qs = unat sz
    \<and> payload_writes (le_bytes sz @ ps @ s) ws = Some (le_bytes sz @ qs @ s)"
  using assms
proof (induction ws arbitrary: ps)
  case (Cons a ws)
  then show ?case by (cases a) (simp add: payload_write_frame)
qed simp

lemma OSAL_Malloc_frame:
  assumes "raw (sz + 16) = Some data" "length data = unat (sz + 16)" "unat sz + 16 < 2 ^ 64"
  shows "\<exists>ps. length ps = unat sz
    \<and> OSAL_Malloc raw sz = Some (le_bytes sz @ ps @ le_bytes MEMORY_SENTINEL)"
  using assms by (simp add: OSAL_Malloc_def unat_word_ariths)

text \<open>OSAL\_Malloc and OSAL\_Free agree on their frame: a block on which any number of
  writes stayed inside the payload is accepted by OSAL\_Free, and a later write behind the
  payload that changes one of the eight sentinel bytes is always detected (the assertion
  fails).\<close>

theorem OSAL_Free_checks_sentinel:
  assumes "raw (sz + 16) = Some data" "length data = unat (sz + 16)" "unat sz + 16 < 2 ^ 64"
  shows "\<exists>block. OSAL_Malloc raw sz = Some block
    \<and> (\<forall>ws. (\<forall>(i, b) \<in> set ws. i < unat sz) \<longrightarrow>
         (\<exists>block'. payload_writes block ws = Some block' \<and> OSAL_Free block' = Some ()
           \<and> (\<forall>i b block''. unat sz \<le> i \<and> i < unat sz + 8
                \<and> b \<noteq> le_bytes MEMORY_SENTINEL ! (i - unat sz)
                \<and> payload_write block' i b = Some block'' \<longrightarrow> OSAL_Free block'' = None)))"
proof -
  obtain ps where ps: "length ps = unat sz"
      "OSAL_Malloc raw sz = Some (le_bytes sz @ ps @ le_bytes MEMORY_SENTINEL)"
    using OSAL_Malloc_frame[of raw sz data] assms by blast
  have neq: "(le_bytes MEMORY_SENTINEL)[j := b] \<noteq> le_bytes MEMORY_SENTINEL"
    if "j < 8" "b \<noteq> le_bytes MEMORY_SENTINEL ! j" for j b
    using that by (metis length_le_bytes nth_list_update_eq)
  show ?thesis
  proof (rule exI[of _ "le_bytes sz @ ps @ le_bytes MEMORY_SENTINEL"], intro conjI allI impI)
    show "OSAL_Malloc raw sz = Some (le_bytes sz @ ps @ le_bytes MEMORY_SENTINEL)"
      by (rule ps)
  next
    fix ws :: "(nat \<times> byte) list"
    assume ws: "\<forall>(i, b) \<in> set ws. i < unat sz"
    obtain qs where qs: "length qs = unat sz"
        "payload_writes (le_bytes sz @ ps @ le_bytes MEMORY_SENTINEL) ws
          = Some (le_bytes sz @ qs @ le_bytes MEMORY_SENTINEL)"
      using payload_writes_frame[OF ps(1) length_le_bytes ws] by blast
    then show "\<exists>block'.
        payload_writes (le_bytes sz @ ps @ le_bytes MEMORY_SENTINEL) ws = Some block'
        \<and> OSAL_Free block' = Some ()
        \<and> (\<forall>i b block''. unat sz \<le> i \<and> i < unat sz + 8
              \<and> b \<noteq> le_bytes MEMORY_SENTINEL ! (i - unat sz)
              \<and> payload_write block' i b = Some block'' \<longrightarrow> OSAL_Free block'' = None)"
      by (auto simp: OSAL_Free_frame payload_write_frame neq)
  qed
qed

lemma OSAL_Free_checks_sentinel_witness:
  "\<exists>block. OSAL_Malloc (\<lambda>n. Some (replicate (unat n) 0)) 2 = Some block"
  using OSAL_Free_checks_sentinel[of "\<lambda>n. Some (replicate (unat n) 0)" 2 "replicate (unat (18::omx_u32)) 0"]
  by simp blast

text \<open>An event is a flag with commit semantics: for every behaviour of the system,
  OSAL\_EventSet raises the flag and OSAL\_EventReset lowers it exactly if they report
  success, and both keep one byte in the pipe exactly while the flag is up.\<close>

theorem OSAL_event_flag:
  assumes "ev_inv e"
  shows "(OSAL_EventSet (Some e) w = Some (err, h', w') \<longrightarrow>
      (\<exists>e'. h' = Some e' \<and> ev_inv e' \<and> bSignaled e' = (bSignaled e \<or> err = OMX_ErrorNone)))
    \<and> (OSAL_EventReset (Some e) w = Some (err, h', w') \<longrightarrow>
      (\<exists>e'. h' = Some e' \<and> ev_inv e' \<and> bSignaled e' = (bSignaled e \<and> err \<noteq> OMX_ErrorNone)))"
  using OSAL_EventSet_cases[of e w err h' w'] OSAL_EventReset_cases[of e w err h' w'] assms
  by auto

lemma OSAL_event_flag_witness:
  "\<exists>e'. OSAL_EventSet (Some (event_of False)) (good_world 1)
     = Some (OMX_ErrorNone, Some e', (good_world 1)\<lparr>w_now := 3\<rparr>) \<and> bSignaled e'"
  using OSAL_event_flag[of "event_of False" "good_world 1" OMX_ErrorNone
      "Some (event_of True)" "(good_world 1)\<lparr>w_now := 3\<rparr>"]
  by (simp add: OSAL_EventSet_ok good_world_def calls_ok_def)

text \<open>The error path of OSAL\_EventSet loses the mutex: when the write to the pipe fails
  it returns OMX\_ErrorUndefined with the event's mutex still locked, and from then on
  setting, resetting or destroying the event never returns, however well the system
  behaves.\<close>

theorem OSAL_EventSet_failure_deadlocks:
  assumes "OSAL_EventSet (Some e) w = Some (OMX_ErrorUndefined, h', w')" "calls_ok w2"
  shows "OSAL_EventSet h' w2 = None \<and> OSAL_EventReset h' w2 = None
    \<and> OSAL_EventDestroy h' w2 = None"
proof -
  have "\<exists>e'. h' = Some e' \<and> ev_held e'"
    using assms(1) by (auto simp: event_defs split: if_splits)
  with assms(2) show ?thesis by (auto simp: event_defs)
qed

lemma OSAL_EventSet_failure_deadlocks_witness:
  "OSAL_EventSet (Some ((event_of False)\<lparr>ev_held := True\<rparr>)) (good_world 1) = None"
proof -
  have "OSAL_EventSet (Some (event_of False)) \<lparr>w_now = 0, w_rc = (\<lambda>n. n), w_ptr = id\<rparr>
      = Some (OMX_ErrorUndefined, Some ((event_of False)\<lparr>ev_held := True\<rparr>),
              \<lparr>w_now = 2, w_rc = (\<lambda>n. n), w_ptr = id\<rparr>)"
    by (simp add: event_defs event_of_def)
  moreover have "calls_ok (good_world 1)"
    by (simp add: calls_ok_def good_world_def)
  ultimately show ?thesis
    by (blast dest: OSAL_EventSet_failure_deadlocks)
qed

text \<open>Waiting observes the flag: a wait on an undisturbed event returns at once without
  a timeout when the flag is up; when it is down an infinite wait does not return and a
  bounded one reports the timeout. The wait leaves the event as it is.\<close>

theorem OSAL_EventWait_flag:
  assumes "calls_ok w"
  shows "(OSAL_EventWait (Some (event_of b)) ms False w =
     (if b then Some (OMX_ErrorNone, False, tick w)
      else if ms = INFINITE_WAIT then None
      else Some (OMX_ErrorNone, True, tick w)))"
  using assms by (rule OSAL_EventWait_event_of)

lemma OSAL_EventWait_flag_witness:
  "OSAL_EventWait (Some (event_of False)) INFINITE_WAIT False (good_world 1) = None"
  by (subst OSAL_EventWait_flag) (simp_all add: good_world_def calls_ok_def)

end
