(* ===== verification/Fifo.thy ===== *)
theory Fifo
  imports OmxTypes
begin

text \<open>
  The interface the message queue offers and the command queue of the base component
  builds on: a FIFO whose operations may fail, with commit or roll back semantics. The
  operations are C functions on an explicit state; None is a call that does not return.
\<close>

text \<open>A sequence of calls. The result is the elements the queue accepted, the elements
  it delivered, both in order, and the final state.\<close>

datatype 'a queue_call = Push 'a | Pop

fun queue_run ::
  "('a \<Rightarrow> 's \<Rightarrow> (omx_errortype \<times> 's) option) \<Rightarrow>
   ('s \<Rightarrow> (omx_errortype \<times> 'a option \<times> 's) option) \<Rightarrow>
   'a queue_call list \<Rightarrow> 's \<Rightarrow> ('a list \<times> 'a list \<times> 's) option" where
  "queue_run push pop [] s = Some ([], [], s)"
| "queue_run push pop (Push x # cs) s = do {
     (err, s) \<leftarrow> push x s;
     (acc, del, s) \<leftarrow> queue_run push pop cs s;
     Some (if err = OMX_ErrorNone then x # acc else acc, del, s)
   }"
| "queue_run push pop (Pop # cs) s = do {
     (err, r, s) \<leftarrow> pop s;
     (acc, del, s) \<leftarrow> queue_run push pop cs s;
     Some (acc, (case r of None \<Rightarrow> del | Some x \<Rightarrow> x # del), s)
   }"

text \<open>queue\_of s xs: the queue of state s holds xs, oldest first. A queue counts its
  elements in a machine word, so its laws hold below a limit.\<close>

locale fifo =
  fixes queue_of :: "'s \<Rightarrow> 'a list \<Rightarrow> bool"
    and push :: "'a \<Rightarrow> 's \<Rightarrow> (omx_errortype \<times> 's) option"
    and pop :: "'s \<Rightarrow> (omx_errortype \<times> 'a option \<times> 's) option"
    and limit :: nat
  assumes push_law: "queue_of s xs \<Longrightarrow> length xs < limit \<Longrightarrow> push x s = Some (err, s') \<Longrightarrow>
      queue_of s' (if err = OMX_ErrorNone then xs @ [x] else xs)"
    and pop_law: "queue_of s xs \<Longrightarrow> pop s = Some (err, r, s') \<Longrightarrow>
      queue_of s' (if err = OMX_ErrorNone then tl xs else xs)
      \<and> r = (if err = OMX_ErrorNone \<and> xs \<noteq> [] then Some (hd xs) else None)"
begin

lemma run_order:
  "queue_of s xs \<Longrightarrow> length xs + length cs \<le> limit \<Longrightarrow>
   queue_run push pop cs s = Some (acc, del, s') \<Longrightarrow>
   \<exists>ys. queue_of s' ys \<and> xs @ acc = del @ ys"
proof (induction cs arbitrary: s xs acc del)
  case Nil
  then show ?case by auto
next
  case (Cons c cs)
  show ?case
  proof (cases c)
    case (Push x)
    then obtain err s1 acc1 where 1: "push x s = Some (err, s1)"
        "queue_run push pop cs s1 = Some (acc1, del, s')"
        "acc = (if err = OMX_ErrorNone then x # acc1 else acc1)"
      using Cons.prems(3) by (auto simp: bind_cases)
    have "queue_of s1 (if err = OMX_ErrorNone then xs @ [x] else xs)"
      using push_law[OF Cons.prems(1) _ 1(1)] Cons.prems(2) by simp
    from Cons.IH[OF this _ 1(2)] Cons.prems(2) 1(3) show ?thesis
      by (auto split: if_splits)
  next
    case Pop
    then obtain err r s1 del1 where 1: "pop s = Some (err, r, s1)"
        "queue_run push pop cs s1 = Some (acc, del1, s')"
        "del = (case r of None \<Rightarrow> del1 | Some x \<Rightarrow> x # del1)"
      using Cons.prems(3) by (auto simp: bind_cases)
    note p = pop_law[OF Cons.prems(1) 1(1)]
    have "length (if err = OMX_ErrorNone then tl xs else xs) + length cs \<le> limit"
      using Cons.prems(2) by (cases xs) auto
    from Cons.IH[OF conjunct1[OF p] this 1(2)]
    obtain ys where ys: "queue_of s' ys" "(if err = OMX_ErrorNone then tl xs else xs) @ acc = del1 @ ys"
      by auto
    show ?thesis
    proof (cases "err = OMX_ErrorNone \<and> xs \<noteq> []")
      case True
      with ys p 1(3) show ?thesis
        by (intro exI[of _ ys]) (cases xs; auto)
    next
      case False
      with ys p 1(3) show ?thesis by (intro exI[of _ ys]) (auto split: if_splits)
    qed
  qed
qed

end

end
