(* ===== verification/Port.thy ===== *)
theory Port
  imports Osal Fifo
begin

text \<open>
  Ports, source/port.c: growable lists of BUFFER pointers, and the port that owns one list
  of its allocated buffers and one queue of those waiting for processing, with a mutex
  and an event that tells that the queue is not empty.

  A buffer is a heap block; a list's storage is an array of addresses of the size the
  code asked malloc for. The field useAndroidNativeBuffer is left out (its build option
  is off).
\<close>

subsection \<open>Buffers\<close>

definition BUFFER_FLAG_IN_USE :: omx_u32 where "BUFFER_FLAG_IN_USE = 0x1"
definition BUFFER_FLAG_MY_BUFFER :: omx_u32 where "BUFFER_FLAG_MY_BUFFER = 0x2"
definition BUFFER_FLAG_IS_TUNNELED :: omx_u32 where "BUFFER_FLAG_IS_TUNNELED = 0x4"
definition BUFFER_FLAG_MARK :: omx_u32 where "BUFFER_FLAG_MARK = 0x8"
definition BUFFER_FLAG_EXT_ALLOC :: omx_u32 where "BUFFER_FLAG_EXT_ALLOC = 0x20"

text \<open>The header pointer of a buffer: null, the header inside the buffer at that address,
  or a header that a tunnelled component allocated.\<close>

datatype header_ptr = HNull | HOwn addr | HExt addr

record buffer =
  b_header :: header_ptr
  b_headerdata :: omx_bufferheader
  b_flags :: omx_u32
  b_allocsize :: omx_u32
  b_bus_address :: "64 word"
  b_bus_data :: addr
  b_frame_id :: omx_u32

definition zero_buffer :: buffer where
  "zero_buffer = \<lparr>b_header = HNull, b_headerdata = zero_header, b_flags = 0, b_allocsize = 0,
     b_bus_address = 0, b_bus_data = 0, b_frame_id = 0\<rparr>"

record port_mem = world +
  bufs :: "addr \<Rightarrow> buffer option"

definition buf_live :: "'s port_mem_scheme \<Rightarrow> addr \<Rightarrow> bool" where
  "buf_live m p = (bufs m p \<noteq> None)"

definition free_buf :: "addr \<Rightarrow> 's port_mem_scheme \<Rightarrow> 's port_mem_scheme option" where
  "free_buf p m = (if bufs m p = None then None else Some (m\<lparr>bufs := (bufs m)(p := None)\<rparr>))"

subsection \<open>Buffer lists\<close>

text \<open>BUFFERLIST; the storage is None for the null pointer.\<close>

record bufferlist =
  bl_list :: "addr list option"
  bl_size :: omx_u32
  bl_capacity :: omx_u32

definition zero_bufferlist :: bufferlist where
  "zero_bufferlist = \<lparr>bl_list = None, bl_size = 0, bl_capacity = 0\<rparr>"

text \<open>sizeof(BUFFER*) * n, computed in 64 bits, is room for this many pointers.\<close>

definition cells :: "omx_u32 \<Rightarrow> nat" where
  "cells n = unat (8 * n) div 8"

definition bufferlist_init ::
  "bufferlist \<Rightarrow> omx_u32 \<Rightarrow> 's world_scheme \<Rightarrow> omx_errortype \<times> bufferlist \<times> 's world_scheme" where
  "bufferlist_init l sz w =
     (case sys_malloc (\<lambda>_. False) w of (p, w) \<Rightarrow>
        if p = 0 then (OMX_ErrorInsufficientResources, l\<lparr>bl_list := None\<rparr>, w)
        else (OMX_ErrorNone,
              \<lparr>bl_list = Some (replicate (cells sz) 0), bl_size = 0, bl_capacity = sz\<rparr>, w))"

text \<open>The old storage is copied and freed; freeing a null pointer, which OSAL\_Free does not
  check for, is None.\<close>

definition bufferlist_reserve ::
  "bufferlist \<Rightarrow> omx_u32 \<Rightarrow> 's world_scheme
    \<Rightarrow> (omx_errortype \<times> bufferlist \<times> 's world_scheme) option" where
  "bufferlist_reserve l newsize w =
     (if newsize < bl_capacity l then Some (OMX_ErrorBadParameter, l, w)
      else (case sys_malloc (\<lambda>_. False) w of (p, w) \<Rightarrow>
        if p = 0 then Some (OMX_ErrorInsufficientResources, l, w)
        else (case bl_list l of
            None \<Rightarrow> None
          | Some xs \<Rightarrow>
              (let n = unat (bl_size l)
               in if n > length xs \<or> n > cells newsize then None
                  else Some (OMX_ErrorNone,
                    l\<lparr>bl_list := Some (take n xs @ replicate (cells newsize - n) 0),
                      bl_capacity := newsize\<rparr>, w)))))"

definition bufferlist_destroy :: "bufferlist \<Rightarrow> bufferlist" where
  "bufferlist_destroy l = zero_bufferlist"

definition bufferlist_get_size :: "bufferlist \<Rightarrow> omx_u32" where
  "bufferlist_get_size l = bl_size l"

definition bufferlist_get_capacity :: "bufferlist \<Rightarrow> omx_u32" where
  "bufferlist_get_capacity l = bl_capacity l"

text \<open>The pointer HantroOmx\_bufferlist\_at returns is only ever read; the model reads it.\<close>

definition bufferlist_at :: "bufferlist \<Rightarrow> omx_u32 \<Rightarrow> addr option" where
  "bufferlist_at l i =
     (if i < bl_size l then Option.bind (bl_list l) (\<lambda>xs. array_read xs (unat i)) else None)"

definition bufferlist_remove :: "bufferlist \<Rightarrow> omx_u32 \<Rightarrow> bufferlist option" where
  "bufferlist_remove l i =
     (if i < bl_size l then do {
        xs \<leftarrow> bl_list l;
        ys \<leftarrow> memmove xs (unat i) (unat i + 1) (unat (bl_size l - i - 1));
        Some (l\<lparr>bl_list := Some ys, bl_size := bl_size l - 1\<rparr>)
      } else None)"

definition bufferlist_clear :: "bufferlist \<Rightarrow> bufferlist" where
  "bufferlist_clear l = l\<lparr>bl_size := 0\<rparr>"

definition bufferlist_push_back :: "bufferlist \<Rightarrow> addr \<Rightarrow> (bool \<times> bufferlist) option" where
  "bufferlist_push_back l buff =
     (if bl_size l = bl_capacity l then Some (False, l)
      else do {
        xs \<leftarrow> bl_list l;
        ys \<leftarrow> array_write xs (unat (bl_size l)) buff;
        Some (True, l\<lparr>bl_list := Some ys, bl_size := bl_size l + 1\<rparr>)
      })"

text \<open>The search loops of the port: the first index from i on, in k steps, whose buffer
  satisfies the test.\<close>

fun find_loop :: "(addr \<Rightarrow> bool option) \<Rightarrow> bufferlist \<Rightarrow> omx_u32 \<Rightarrow> nat \<Rightarrow> omx_u32 option option" where
  "find_loop test l i 0 = Some None"
| "find_loop test l i (Suc k) = do {
     b \<leftarrow> bufferlist_at l i;
     found \<leftarrow> test b;
     if found then Some (Some i) else find_loop test l (i + 1) k
   }"

subsection \<open>Ports\<close>

record port =
  p_def :: omx_portdef
  p_tunnel :: omx_tunnelsetup
  p_tunnelcomp :: addr
  p_tunnelport :: omx_u32
  p_buffers :: bufferlist
  p_bufferqueue :: bufferlist
  p_buffermutex :: "osal_mutex option"
  p_bufferevent :: "osal_event option"
  p_bufferRdy :: "osal_event option"

definition zero_port :: port where
  "zero_port = \<lparr>p_def = \<lparr>eDir = OMX_DirInput, nBufferCountActual = 0, nBufferCountMin = 0,
       nBufferSize = 0, bEnabled = False, bPopulated = False\<rparr>,
     p_tunnel = \<lparr>nTunnelFlags = 0, eSupplier = OMX_BufferSupplyUnspecified\<rparr>,
     p_tunnelcomp = 0, p_tunnelport = 0, p_buffers = zero_bufferlist,
     p_bufferqueue = zero_bufferlist, p_buffermutex = None, p_bufferevent = None,
     p_bufferRdy = None\<rparr>"

text \<open>The INIT\_FAIL label: destroy what exists. The results of the destructors are ignored,
  but one that does not return keeps the whole call from returning.\<close>

definition port_init_fail :: "port \<Rightarrow> 's world_scheme \<Rightarrow> (port \<times> 's world_scheme) option" where
  "port_init_fail p w = do {
     (m, w) \<leftarrow> (if p_buffermutex p = None then Some (None, w)
              else (case OSAL_MutexDestroy (p_buffermutex p) w of (_, m, w) \<Rightarrow> Some (m, w)));
     (e, w) \<leftarrow> (if p_bufferevent p = None then Some (None, w)
              else Option.bind (OSAL_EventDestroy (p_bufferevent p) w) (\<lambda>(_, e, w). Some (e, w)));
     (r, w) \<leftarrow> (if p_bufferRdy p = None then Some (None, w)
              else Option.bind (OSAL_EventDestroy (p_bufferRdy p) w) (\<lambda>(_, e, w). Some (e, w)));
     Some (p\<lparr>p_buffermutex := m, p_bufferevent := e, p_bufferRdy := r,
             p_buffers := bufferlist_destroy (p_buffers p),
             p_bufferqueue := bufferlist_destroy (p_bufferqueue p)\<rparr>, w)
   }"

definition port_init_lists ::
  "omx_u32 \<Rightarrow> port \<Rightarrow> 's world_scheme \<Rightarrow> omx_errortype \<times> port \<times> 's world_scheme" where
  "port_init_lists nBuffers p w =
     (if nBuffers = 0 then (OMX_ErrorNone, p, w)
      else (case bufferlist_init (p_buffers p) nBuffers w of (err, l, w) \<Rightarrow>
        let p = p\<lparr>p_buffers := l\<rparr> in
        if err \<noteq> OMX_ErrorNone then (err, p, w)
        else (case bufferlist_init (p_bufferqueue p) nBuffers w of (err, l, w) \<Rightarrow>
          (err, p\<lparr>p_bufferqueue := l\<rparr>, w))))"

text \<open>pAttr is the static state of OSAL\_MutexCreate.\<close>

definition port_init ::
  "bool \<Rightarrow> omx_u32 \<Rightarrow> omx_u32 \<Rightarrow> omx_u32 \<Rightarrow> omx_u32 \<Rightarrow> 's world_scheme
    \<Rightarrow> (omx_errortype \<times> bool \<times> port \<times> 's world_scheme) option" where
  "port_init pAttr countMin countActual nBuffers bufferSize w =
     (case OSAL_MutexCreate pAttr w of (err, pAttr, m, w) \<Rightarrow>
        let p = zero_port\<lparr>p_buffermutex := m\<rparr>;
            fail = (\<lambda>err p w. Option.bind (port_init_fail p w) (\<lambda>(p, w). Some (err, pAttr, p, w)))
        in if err \<noteq> OMX_ErrorNone then fail err p w
           else (case OSAL_EventCreate w of (err, e, w) \<Rightarrow>
             let p = p\<lparr>p_bufferevent := e\<rparr>
             in if err \<noteq> OMX_ErrorNone then fail err p w
                else (case OSAL_EventCreate w of (err, e, w) \<Rightarrow>
                  let p = p\<lparr>p_bufferRdy := e\<rparr>
                  in if err \<noteq> OMX_ErrorNone then fail err p w
                     else (case port_init_lists nBuffers p w of (err, p, w) \<Rightarrow>
                       if err \<noteq> OMX_ErrorNone then fail err p w
                       else Some (OMX_ErrorNone, pAttr,
                              p\<lparr>p_def := (p_def p)\<lparr>nBufferCountActual := countActual,
                                  nBufferCountMin := countMin, nBufferSize := bufferSize\<rparr>\<rparr>, w)))))"

text \<open>for (i = 0; i < x; ++i) OSAL\_Free of the i-th buffer of the list\<close>

fun free_loop :: "bufferlist \<Rightarrow> omx_u32 \<Rightarrow> nat \<Rightarrow> 's port_mem_scheme \<Rightarrow> 's port_mem_scheme option" where
  "free_loop l i 0 m = Some m"
| "free_loop l i (Suc k) m = do {
     b \<leftarrow> bufferlist_at l i;
     m \<leftarrow> free_buf b m;
     free_loop l (i + 1) k m
   }"

definition port_destroy :: "port \<Rightarrow> 's port_mem_scheme \<Rightarrow> (port \<times> 's port_mem_scheme) option" where
  "port_destroy p m = do {
     m \<leftarrow> free_loop (p_buffers p) 0 (unat (bufferlist_get_size (p_buffers p))) m;
     (case OSAL_MutexDestroy (p_buffermutex p) m of (err, _, m) \<Rightarrow>
        if err \<noteq> OMX_ErrorNone then None
        else do {
          (err, _, m) \<leftarrow> OSAL_EventDestroy (p_bufferevent p) m;
          if err \<noteq> OMX_ErrorNone then None
          else do {
            (err, _, m) \<leftarrow> OSAL_EventDestroy (p_bufferRdy p) m;
            if err \<noteq> OMX_ErrorNone then None else Some (zero_port, m)
          }
        })
   }"

text \<open>Reads under the buffer mutex, whose results the code ignores.\<close>

definition port_locked ::
  "port \<Rightarrow> 's world_scheme \<Rightarrow> (port \<times> 's world_scheme) option" where
  "port_locked p w = do {
     (_, mu, w) \<leftarrow> OSAL_MutexLock (p_buffermutex p) w;
     (_, mu, w) \<leftarrow> OSAL_MutexUnlock mu w;
     Some (p\<lparr>p_buffermutex := mu\<rparr>, w)
   }"

definition port_is_allocated :: "port \<Rightarrow> bool" where
  "port_is_allocated p = (bufferlist_get_capacity (p_buffers p) > 0)"

definition port_is_ready ::
  "port \<Rightarrow> 's world_scheme \<Rightarrow> (bool \<times> port \<times> 's world_scheme) option" where
  "port_is_ready p w =
     (if \<not> bEnabled (p_def p) then Some (True, p, w)
      else do {
        (p, w) \<leftarrow> port_locked p w;
        Some (bPopulated (p_def p), p, w)
      })"

definition port_is_enabled :: "port \<Rightarrow> bool" where
  "port_is_enabled p = bEnabled (p_def p)"

definition port_has_buffers ::
  "port \<Rightarrow> 's world_scheme \<Rightarrow> (bool \<times> port \<times> 's world_scheme) option" where
  "port_has_buffers p w = do {
     (p, w) \<leftarrow> port_locked p w;
     Some (bufferlist_get_size (p_buffers p) > 0, p, w)
   }"

definition port_get_queued_buffer_size ::
  "port \<Rightarrow> 's world_scheme \<Rightarrow> (omx_u32 \<times> port \<times> 's world_scheme) option" where
  "port_get_queued_buffer_size p w = do {
     (p, w) \<leftarrow> port_locked p w;
     Some (bufferlist_get_size (p_bufferqueue p), p, w)
   }"

definition port_is_supplier :: "port \<Rightarrow> bool" where
  "port_is_supplier p =
     (if p_tunnelcomp p = 0 then False
      else if eDir (p_def p) = OMX_DirInput \<and> eSupplier (p_tunnel p) = OMX_BufferSupplyInput
        then True
      else if eDir (p_def p) = OMX_DirOutput \<and> eSupplier (p_tunnel p) = OMX_BufferSupplyOutput
        then True
      else False)"

definition port_is_tunneled :: "port \<Rightarrow> bool" where
  "port_is_tunneled p = (p_tunnelcomp p \<noteq> 0)"

definition port_buffer_count :: "port \<Rightarrow> omx_u32" where
  "port_buffer_count p = bufferlist_get_size (p_buffers p)"

definition port_buffer_queue_count :: "port \<Rightarrow> omx_u32" where
  "port_buffer_queue_count p = bufferlist_get_size (p_bufferqueue p)"

definition port_has_all_supplied_buffers :: "port \<Rightarrow> bool" where
  "port_has_all_supplied_buffers p =
     (if p_tunnelcomp p = 0 then True
      else if port_buffer_count p = port_buffer_queue_count p then True
      else False)"

definition port_setup_tunnel ::
  "port \<Rightarrow> addr \<Rightarrow> omx_u32 \<Rightarrow> omx_buffersupplier \<Rightarrow> port" where
  "port_setup_tunnel p tcomp tport type =
     p\<lparr>p_tunnelcomp := tcomp, p_tunnelport := tport,
       p_tunnel := \<lparr>nTunnelFlags = 0, eSupplier = type\<rparr>\<rparr>"

text \<open>Returns the address of the buffer, 0 if none has this header.\<close>

definition port_find_buffer :: "port \<Rightarrow> header_ptr \<Rightarrow> 's port_mem_scheme \<Rightarrow> addr option" where
  "port_find_buffer p header m =
     (let sz = bufferlist_get_size (p_buffers p)
      in if sz = 0 then Some 0
         else do {
           r \<leftarrow> find_loop (\<lambda>b. map_option (\<lambda>x. b_header x = header) (bufs m b))
                 (p_buffers p) 0 (unat sz);
           (case r of None \<Rightarrow> Some 0 | Some i \<Rightarrow> bufferlist_at (p_buffers p) i)
         })"

text \<open>HantroOmx\_port\_allocate\_next\_buffer; the address is *buff, written only on success.\<close>

definition port_allocate_next_buffer ::
  "port \<Rightarrow> 's port_mem_scheme \<Rightarrow> (bool \<times> addr \<times> port \<times> 's port_mem_scheme) option" where
  "port_allocate_next_buffer p m =
     (case sys_malloc (buf_live m) m of (buff, m) \<Rightarrow>
        if buff = 0 then Some (False, 0, p, m)
        else do {
          let m = m\<lparr>bufs := (bufs m)(buff \<mapsto> zero_buffer\<lparr>b_flags := BUFFER_FLAG_IN_USE,
                        b_header := HOwn buff\<rparr>)\<rparr>;
          (ret, l) \<leftarrow> bufferlist_push_back (p_buffers p) buff;
          if ret then Some (True, buff, p\<lparr>p_buffers := l\<rparr>, m)
          else do {
            let capacity = bufferlist_get_capacity l;
            let capacity = (if capacity = 0 then 5 else capacity);
            (err, l, m) \<leftarrow> bufferlist_reserve l (capacity * 2) m;
            if err \<noteq> OMX_ErrorNone then do {
              m \<leftarrow> free_buf buff m;
              Some (False, 0, p\<lparr>p_buffers := l\<rparr>, m)
            } else do {
              (_, l) \<leftarrow> bufferlist_push_back l buff;
              Some (True, buff, p\<lparr>p_buffers := l\<rparr>, m)
            }
          }
        })"

definition port_release_buffer ::
  "port \<Rightarrow> addr \<Rightarrow> 's port_mem_scheme \<Rightarrow> (bool \<times> port \<times> 's port_mem_scheme) option" where
  "port_release_buffer p buff m = do {
     r \<leftarrow> find_loop (\<lambda>b. Some (b = buff)) (p_buffers p) 0 (unat (bufferlist_get_size (p_buffers p)));
     (case r of
        None \<Rightarrow> Some (False, p, m)
      | Some i \<Rightarrow> do {
          m \<leftarrow> free_buf buff m;
          (_, mu, m) \<leftarrow> OSAL_MutexLock (p_buffermutex p) m;
          l \<leftarrow> bufferlist_remove (p_buffers p) i;
          (_, mu, m) \<leftarrow> OSAL_MutexUnlock mu m;
          Some (True, p\<lparr>p_buffers := l, p_buffermutex := mu\<rparr>, m)
        })
   }"

definition port_release_all_allocated ::
  "port \<Rightarrow> 's port_mem_scheme \<Rightarrow> (bool \<times> port \<times> 's port_mem_scheme) option" where
  "port_release_all_allocated p m = do {
     m \<leftarrow> free_loop (p_buffers p) 0 (unat (bufferlist_get_size (p_buffers p))) m;
     Some (True, p\<lparr>p_buffers := bufferlist_clear (p_buffers p)\<rparr>, m)
   }"

text \<open>Growing the full queue: on success the push is repeated and its result ignored.\<close>

definition port_queue_push ::
  "bufferlist \<Rightarrow> addr \<Rightarrow> 's world_scheme \<Rightarrow> (omx_errortype \<times> bufferlist \<times> 's world_scheme) option" where
  "port_queue_push l buff w = do {
     (ret, l) \<leftarrow> bufferlist_push_back l buff;
     if ret then Some (OMX_ErrorNone, l, w)
     else do {
       (err, l, w) \<leftarrow> bufferlist_reserve l (bufferlist_get_capacity l * 2) w;
       if err \<noteq> OMX_ErrorNone then Some (err, l, w)
       else do {
         (_, l) \<leftarrow> bufferlist_push_back l buff;
         Some (OMX_ErrorNone, l, w)
       }
     }
   }"

definition port_push_buffer ::
  "port \<Rightarrow> addr \<Rightarrow> 's world_scheme \<Rightarrow> (omx_errortype \<times> port \<times> 's world_scheme) option" where
  "port_push_buffer p buff w = do {
     (err, l, w) \<leftarrow> port_queue_push (p_bufferqueue p) buff w;
     let p = p\<lparr>p_bufferqueue := l\<rparr>;
     if err \<noteq> OMX_ErrorNone then Some (err, p, w)
     else do {
       (err, e, w) \<leftarrow> OSAL_EventSet (p_bufferevent p) w;
       let p = p\<lparr>p_bufferevent := e\<rparr>;
       if err \<noteq> OMX_ErrorNone then do {
         l \<leftarrow> bufferlist_remove (p_bufferqueue p) (bufferlist_get_size (p_bufferqueue p) - 1);
         Some (err, p\<lparr>p_bufferqueue := l\<rparr>, w)
       } else Some (OMX_ErrorNone, p, w)
     }
   }"

text \<open>The getters return the truth value and *buff.\<close>

definition port_get_buffer :: "port \<Rightarrow> (bool \<times> addr) option" where
  "port_get_buffer p =
     (if bufferlist_get_size (p_bufferqueue p) = 0 then Some (False, 0)
      else map_option (Pair True) (bufferlist_at (p_bufferqueue p) 0))"

definition port_get_buffer_at :: "port \<Rightarrow> omx_u32 \<Rightarrow> (bool \<times> addr) option" where
  "port_get_buffer_at p i =
     (if \<not> (i < bufferlist_get_size (p_bufferqueue p)) then Some (False, 0)
      else map_option (Pair True) (bufferlist_at (p_bufferqueue p) i))"

definition has_frame_id :: "'s port_mem_scheme \<Rightarrow> omx_u32 \<Rightarrow> addr \<Rightarrow> bool option" where
  "has_frame_id m frame_id b = map_option (\<lambda>x. b_frame_id x = frame_id) (bufs m b)"

definition port_get_buffer_by_frame_id ::
  "port \<Rightarrow> omx_u32 \<Rightarrow> 's port_mem_scheme \<Rightarrow> (bool \<times> addr) option" where
  "port_get_buffer_by_frame_id p frame_id m = do {
     r \<leftarrow> find_loop (has_frame_id m frame_id) (p_bufferqueue p) 0
           (unat (bufferlist_get_size (p_bufferqueue p)));
     (case r of
        None \<Rightarrow> Some (False, 0)
      | Some i \<Rightarrow> map_option (Pair True) (bufferlist_at (p_bufferqueue p) i))
   }"

definition port_get_allocated_buffer_at :: "port \<Rightarrow> omx_u32 \<Rightarrow> (bool \<times> addr) option" where
  "port_get_allocated_buffer_at p i =
     (if \<not> (i < bufferlist_get_size (p_buffers p)) then Some (False, 0)
      else map_option (Pair True) (bufferlist_at (p_buffers p) i))"

text \<open>What the three pop functions do first: reset the event if one buffer is left.\<close>

definition port_pop_signal ::
  "port \<Rightarrow> 's world_scheme \<Rightarrow> (omx_errortype \<times> port \<times> 's world_scheme) option" where
  "port_pop_signal p w =
     (if bufferlist_get_size (p_bufferqueue p) - 1 = 0 then do {
        (err, e, w) \<leftarrow> OSAL_EventReset (p_bufferevent p) w;
        Some (err, p\<lparr>p_bufferevent := e\<rparr>, w)
      } else Some (OMX_ErrorNone, p, w))"

definition port_pop_buffer ::
  "port \<Rightarrow> 's world_scheme \<Rightarrow> (bool \<times> port \<times> 's world_scheme) option" where
  "port_pop_buffer p w =
     (if bufferlist_get_size (p_bufferqueue p) = 0 then Some (False, p, w)
      else do {
        (err, p, w) \<leftarrow> port_pop_signal p w;
        if err \<noteq> OMX_ErrorNone then Some (False, p, w)
        else do {
          l \<leftarrow> bufferlist_remove (p_bufferqueue p) 0;
          Some (True, p\<lparr>p_bufferqueue := l\<rparr>, w)
        }
      })"

definition port_pop_buffer_at ::
  "port \<Rightarrow> omx_u32 \<Rightarrow> 's world_scheme \<Rightarrow> (bool \<times> port \<times> 's world_scheme) option" where
  "port_pop_buffer_at p i w =
     (let sz = bufferlist_get_size (p_bufferqueue p)
      in if sz = 0 \<or> i > sz then Some (False, p, w)
         else do {
           (err, p, w) \<leftarrow> port_pop_signal p w;
           if err \<noteq> OMX_ErrorNone then Some (False, p, w)
           else do {
             l \<leftarrow> bufferlist_remove (p_bufferqueue p) i;
             Some (True, p\<lparr>p_bufferqueue := l\<rparr>, w)
           }
         })"

definition port_pop_buffer_by_frame_id ::
  "port \<Rightarrow> omx_u32 \<Rightarrow> 's port_mem_scheme \<Rightarrow> (addr \<times> port \<times> 's port_mem_scheme) option" where
  "port_pop_buffer_by_frame_id p frame_id m =
     (let sz = bufferlist_get_size (p_bufferqueue p)
      in if sz = 0 then Some (0, p, m)
         else do {
           (err, p, m) \<leftarrow> port_pop_signal p m;
           if err \<noteq> OMX_ErrorNone then Some (0, p, m)
           else do {
             r \<leftarrow> find_loop (has_frame_id m frame_id) (p_bufferqueue p) 0 (unat sz);
             (case r of
                None \<Rightarrow> Some (0, p, m)
              | Some i \<Rightarrow> do {
                  buff \<leftarrow> bufferlist_at (p_bufferqueue p) i;
                  l \<leftarrow> bufferlist_remove (p_bufferqueue p) i;
                  Some (buff, p\<lparr>p_bufferqueue := l\<rparr>, m)
                })
           }
         })"

definition port_lock_buffers ::
  "port \<Rightarrow> 's world_scheme \<Rightarrow> (omx_errortype \<times> port \<times> 's world_scheme) option" where
  "port_lock_buffers p w = do {
     (err, mu, w) \<leftarrow> OSAL_MutexLock (p_buffermutex p) w;
     Some (err, p\<lparr>p_buffermutex := mu\<rparr>, w)
   }"

definition port_unlock_buffers ::
  "port \<Rightarrow> 's world_scheme \<Rightarrow> (omx_errortype \<times> port \<times> 's world_scheme) option" where
  "port_unlock_buffers p w = do {
     (err, mu, w) \<leftarrow> OSAL_MutexUnlock (p_buffermutex p) w;
     Some (err, p\<lparr>p_buffermutex := mu\<rparr>, w)
   }"

definition port_buffer_queue_clear ::
  "port \<Rightarrow> 's world_scheme \<Rightarrow> (port \<times> 's world_scheme) option" where
  "port_buffer_queue_clear p w =
     (if bufferlist_get_size (p_bufferqueue p) = 0 then Some (p, w)
      else do {
        (_, e, w) \<leftarrow> OSAL_EventReset (p_bufferevent p) w;
        Some (p\<lparr>p_bufferevent := e, p_bufferqueue := bufferlist_clear (p_bufferqueue p)\<rparr>, w)
      })"

subsection \<open>The list a buffer list stands for\<close>

definition bl_ok :: "bufferlist \<Rightarrow> bool" where
  "bl_ok l = (\<exists>xs. bl_list l = Some xs \<and> length xs = unat (bl_capacity l)
     \<and> 0 < bl_capacity l \<and> bl_size l \<le> bl_capacity l \<and> unat (bl_capacity l) < 2 ^ 61)"

definition elems :: "bufferlist \<Rightarrow> addr list" where
  "elems l = (case bl_list l of None \<Rightarrow> [] | Some xs \<Rightarrow> take (unat (bl_size l)) xs)"

lemma cells_eq: "unat n < 2 ^ 61 \<Longrightarrow> cells n = unat n"
  by (simp add: cells_def unat_word_ariths)

lemma length_elems [simp]: "bl_ok l \<Longrightarrow> length (elems l) = unat (bl_size l)"
  by (auto simp: bl_ok_def elems_def word_le_nat_alt)

lemma bl_ok_size: "bl_ok l \<Longrightarrow> unat (bl_size l) < 2 ^ 61"
  by (auto simp: bl_ok_def word_le_nat_alt)

lemma bufferlist_init_ok:
  assumes "bufferlist_init l n w = (err, l', w')" "0 < n" "unat n < 2 ^ 61"
  shows "later w w' \<and> (err = OMX_ErrorNone \<longrightarrow> bl_ok l' \<and> elems l' = [] \<and> bl_capacity l' = n)"
  using assms
  by (auto simp: bufferlist_init_def sys_malloc_def Let_def bl_ok_def elems_def cells_eq later_def
      intro: exI[of _ "Suc (w_now w)"] split: if_splits)

lemma bufferlist_at_elems:
  "bl_ok l \<Longrightarrow> bufferlist_at l i = (if i < bl_size l then Some (elems l ! unat i) else None)"
  by (auto simp: bl_ok_def bufferlist_at_def elems_def array_read_def word_less_nat_alt word_le_nat_alt)

lemma bufferlist_push_back_elems:
  assumes "bl_ok l"
  shows "if bl_size l = bl_capacity l then bufferlist_push_back l b = Some (False, l)
    else \<exists>l'. bufferlist_push_back l b = Some (True, l') \<and> bl_ok l' \<and> elems l' = elems l @ [b]
           \<and> bl_capacity l' = bl_capacity l"
proof (cases "bl_size l = bl_capacity l")
  case False
  obtain xs where xs: "bl_list l = Some xs" "length xs = unat (bl_capacity l)" 
     "bl_size l \<le> bl_capacity l" "unat (bl_capacity l) < 2 ^ 61" "0 < bl_capacity l"
    using assms by (auto simp: bl_ok_def)
  then have lt: "unat (bl_size l) < length xs" using False
    by (metis order_le_neq_trans word_less_nat_alt)
  then have sz: "unat (bl_size l + 1) = unat (bl_size l) + 1"
    using xs by (intro unat_plus_1) simp
  let ?l = "l\<lparr>bl_list := Some (xs[unat (bl_size l) := b]), bl_size := bl_size l + 1\<rparr>"
  have "bufferlist_push_back l b = Some (True, ?l)"
    using False xs lt by (simp add: bufferlist_push_back_def array_write_def)
  moreover have "bl_ok ?l"
    using xs lt sz by (auto simp: bl_ok_def word_le_nat_alt)
  moreover have "elems ?l = elems l @ [b]"
    using xs lt sz by (simp add: elems_def take_Suc_conv_app_nth list_update_beyond)
  ultimately show ?thesis using False by auto
qed (simp add: bufferlist_push_back_def)

lemma bufferlist_reserve_elems:
  assumes "bl_ok l" "bl_capacity l \<le> n" "unat n < 2 ^ 61"
    "bufferlist_reserve l n w = Some (err, l', w')"
  shows "later w w' \<and> bl_ok l' \<and> elems l' = elems l
    \<and> (err = OMX_ErrorNone \<longrightarrow> bl_capacity l' = n \<and> bl_size l' = bl_size l)
    \<and> (err \<noteq> OMX_ErrorNone \<longrightarrow> l' = l)"
proof -
  obtain xs where xs: "bl_list l = Some xs" "length xs = unat (bl_capacity l)" 
     "bl_size l \<le> bl_capacity l" "unat (bl_capacity l) < 2 ^ 61" "0 < bl_capacity l"
    using assms(1) by (auto simp: bl_ok_def)
  have "unat (bl_size l) \<le> unat n" "unat (bl_size l) \<le> length xs" "0 < n" "\<not> n < bl_capacity l"
    using xs assms(2) by (auto simp: word_le_nat_alt word_less_nat_alt)
  with xs assms show ?thesis
    by (auto simp: bufferlist_reserve_def sys_malloc_def Let_def bl_ok_def elems_def cells_eq later_def
       word_le_nat_alt intro: exI[of _ "Suc (w_now w)"] split: if_splits)
qed

lemma bufferlist_remove_elems:
  assumes "bl_ok l" "i < bl_size l"
  shows "\<exists>l'. bufferlist_remove l i = Some l' \<and> bl_ok l' \<and> elems l' = remove_nth (unat i) (elems l)
    \<and> bl_capacity l' = bl_capacity l"
proof -
  obtain xs where xs: "bl_list l = Some xs" "length xs = unat (bl_capacity l)" 
     "bl_size l \<le> bl_capacity l" "unat (bl_capacity l) < 2 ^ 61" "0 < bl_capacity l"
    using assms(1) by (auto simp: bl_ok_def)
  have i: "unat i < unat (bl_size l)" "unat (bl_size l) \<le> length xs"
    using assms(2) xs by (auto simp: word_less_nat_alt word_le_nat_alt)
  have s1: "unat (bl_size l - 1) = unat (bl_size l) - 1"
    using assms(2) by (intro unat_minus_1) auto
  have si: "unat (bl_size l - i - 1) = unat (bl_size l) - unat i - 1"
  proof -
    have "i \<le> bl_size l" "i \<noteq> bl_size l" using assms(2) by auto
    then show ?thesis by (simp add: unat_minus_1 unat_sub)
  qed
  from memmove_down_live[OF i] obtain ys where
    ys: "memmove xs (unat i) (Suc (unat i)) (unat (bl_size l) - unat i - 1) = Some ys"
     "length ys = length xs" "take (unat (bl_size l) - 1) ys = remove_nth (unat i) (take (unat (bl_size l)) xs)"
    by auto
  let ?l = "l\<lparr>bl_list := Some ys, bl_size := bl_size l - 1\<rparr>"
  have "bufferlist_remove l i = Some ?l"
    using assms(2) xs ys si by (simp add: bufferlist_remove_def)
  moreover have "bl_ok ?l" using xs ys s1 i by (auto simp: bl_ok_def word_le_nat_alt)
  moreover have "elems ?l = remove_nth (unat i) (elems l)" using xs ys s1 by (simp add: elems_def)
  ultimately show ?thesis by auto
qed

lemma bufferlist_clear_elems: "bl_ok l \<Longrightarrow> bl_ok (bufferlist_clear l) \<and> elems (bufferlist_clear l) = []"
  by (auto simp: bl_ok_def bufferlist_clear_def elems_def)

lemma find_loop_from:
  assumes "bl_ok l" "unat i + k \<le> unat (bl_size l)"
    "\<forall>b \<in> set (elems l). test b \<noteq> None"
  shows "find_loop test l i k = Some (map_option (\<lambda>j. i + of_nat j)
           (find_index (\<lambda>b. test b = Some True) (take k (drop (unat i) (elems l)))))"
  using assms
proof (induction k arbitrary: i)
  case (Suc k)
  have i: "i < bl_size l" using Suc.prems(2) by (simp add: word_less_nat_alt)
  have i1: "unat (i + 1) = unat i + 1"
    using Suc.prems(2) bl_ok_size[OF Suc.prems(1)] by (intro unat_plus_1) simp
  let ?b = "elems l ! unat i"
  have lt: "unat i < length (elems l)" using Suc.prems by simp
  then have d: "take (Suc k) (drop (unat i) (elems l)) = ?b # take k (drop (unat (i + 1)) (elems l))"
    by (simp add: i1 Cons_nth_drop_Suc[symmetric])
  obtain t where t: "test ?b = Some t" using Suc.prems(3) lt by (meson nth_mem not_None_eq)
  have "find_loop test l (i + 1) k = Some (map_option (\<lambda>j. i + 1 + of_nat j)
           (find_index (\<lambda>b. test b = Some True) (take k (drop (unat (i + 1)) (elems l)))))"
    using Suc.prems i1 by (intro Suc.IH) auto
  with i t show ?case unfolding d
    by (simp add: bufferlist_at_elems[OF Suc.prems(1)] option.map_comp comp_def add.assoc)
qed simp

lemma find_loop_elems:
  assumes "bl_ok l" "\<forall>b \<in> set (elems l). test b \<noteq> None"
  shows "find_loop test l 0 (unat (bl_size l))
    = Some (map_option of_nat (find_index (\<lambda>b. test b = Some True) (elems l)))"
  using find_loop_from[OF assms(1), of 0 "unat (bl_size l)"] assms by simp


subsection \<open>The queue of a port\<close>

definition port_queue :: "port \<Rightarrow> addr list \<Rightarrow> bool" where
  "port_queue p xs = (bl_ok (p_bufferqueue p) \<and> elems (p_bufferqueue p) = xs
     \<and> event_is (p_bufferevent p) (xs \<noteq> []))"

lemma port_queue_size: "port_queue p xs \<Longrightarrow> unat (bl_size (p_bufferqueue p)) = length xs"
  unfolding port_queue_def by (metis length_elems)

lemma port_queue_size_0: "port_queue p xs \<Longrightarrow> (bl_size (p_bufferqueue p) = 0) = (xs = [])"
  using port_queue_size[of p xs] by (auto simp: unat_eq_0)

lemma bl_full: "bl_ok l \<Longrightarrow> bl_size l = bl_capacity l \<Longrightarrow> unat (bl_capacity l) = length (elems l)"
  by simp

lemma port_queue_push_elems:
  assumes "bl_ok l" "length (elems l) < 2 ^ 60" "port_queue_push l b w = Some (err, l', w')"
  shows "later w w' \<and> bl_ok l' \<and> elems l' = (if err = OMX_ErrorNone then elems l @ [b] else elems l)
   \<and> (err \<noteq> OMX_ErrorNone \<longrightarrow> l' = l)"
proof (cases "bl_size l = bl_capacity l")
  case False
  with assms bufferlist_push_back_elems[OF assms(1), of b] show ?thesis
    by (auto simp: port_queue_push_def)
next
  case True
  have cap: "unat (bl_capacity l) < 2 ^ 60" using bl_full[OF assms(1) True] assms(2) by simp
  then have c2: "unat (bl_capacity l * 2) = unat (bl_capacity l) * 2"
    by (simp add: unat_word_ariths)
  have pos: "0 < unat (bl_capacity l)" using assms(1) by (auto simp: bl_ok_def unat_gt_0)
  have le: "bl_capacity l \<le> bl_capacity l * 2" using c2 by (simp add: word_le_nat_alt)
  have push: "bufferlist_push_back l b = Some (False, l)"
    using bufferlist_push_back_elems[OF assms(1), of b] True by simp
  then obtain e l1 w1 where r: "bufferlist_reserve l (bl_capacity l * 2) w = Some (e, l1, w1)"
    using assms(3) by (auto simp: port_queue_push_def bufferlist_get_capacity_def bind_cases)
  note rs = bufferlist_reserve_elems[OF assms(1) le _ r]
  show ?thesis
  proof (cases "e = OMX_ErrorNone")
    case False
    with assms(3) push r rs c2 cap show ?thesis
      by (auto simp: port_queue_push_def bufferlist_get_capacity_def)
  next
    case e: True
    have "unat (bl_size l1) \<noteq> unat (bl_capacity l1)"
      using rs c2 cap pos e True by simp
    then have "bl_size l1 \<noteq> bl_capacity l1" by metis
    with bufferlist_push_back_elems[of l1 b] rs c2 cap e obtain l2 where
      "bufferlist_push_back l1 b = Some (True, l2)" "bl_ok l2" "elems l2 = elems l @ [b]"
      by auto
    with assms(3) push r rs c2 cap e show ?thesis
      by (auto simp: port_queue_push_def bufferlist_get_capacity_def)
  qed
qed

lemma port_push_buffer_queue:
  assumes q: "port_queue p xs" and len: "length xs < 2 ^ 60"
    and push: "port_push_buffer p b w = Some (err, p', w')"
  shows "port_queue p' (if err = OMX_ErrorNone then xs @ [b] else xs) \<and> later w w'
    \<and> (\<exists>l e. p' = p\<lparr>p_bufferqueue := l, p_bufferevent := e\<rparr>)"
proof -
  have l: "bl_ok (p_bufferqueue p)" "elems (p_bufferqueue p) = xs" "event_is (p_bufferevent p) (xs \<noteq> [])"
    using q by (auto simp: port_queue_def)
  obtain e1 l1 w1 where 1: "port_queue_push (p_bufferqueue p) b w = Some (e1, l1, w1)"
    using push by (auto simp: port_push_buffer_def bind_cases)
  note p1 = port_queue_push_elems[OF l(1) _ 1]
  show ?thesis
  proof (cases "e1 = OMX_ErrorNone")
    case False
    with push 1 p1 l len have "err = e1" "p' = p" "w' = w1" by (auto simp: port_push_buffer_def Let_def)
    with q p1 len l False show ?thesis
      by (auto intro!: exI[of _ "p_bufferqueue p"] exI[of _ "p_bufferevent p"])
  next
    case True
    with push 1 obtain e2 ev w2 where 2: "OSAL_EventSet (p_bufferevent p) w1 = Some (e2, ev, w2)"
      by (auto simp: port_push_buffer_def Let_def bind_cases)
    have ev: "event_is ev (xs \<noteq> [] \<or> e2 = OMX_ErrorNone)" "later w1 w2"
      using OSAL_EventSet_is[OF 2 l(3)] OSAL_EventSet_later[OF 2] by auto
    have l1: "bl_ok l1" "elems l1 = xs @ [b]" "later w w1" using p1 len l True by auto
    show ?thesis
    proof (cases "e2 = OMX_ErrorNone")
      case e2: True
      with push 1 2 True have "err = OMX_ErrorNone" "p' = p\<lparr>p_bufferqueue := l1, p_bufferevent := ev\<rparr>" "w' = w2"
        by (auto simp: port_push_buffer_def Let_def)
      with ev e2 l1 show ?thesis by (auto simp: port_queue_def intro: later_trans)
    next
      case e2: False
      have sz: "unat (bl_size l1) = length xs + 1" using length_elems[OF l1(1)] l1(2) by simp
      then have nz: "bl_size l1 \<noteq> 0" by (metis add_is_0 unat_0 zero_neq_one)
      then have i: "bl_size l1 - 1 < bl_size l1" "unat (bl_size l1 - 1) = length xs"
        using sz by (auto simp: unat_minus_1 word_less_nat_alt)
      from bufferlist_remove_elems[OF l1(1) i(1)] i(2) l1(2) obtain l2 where
        l2: "bufferlist_remove l1 (bl_size l1 - 1) = Some l2" "bl_ok l2" "elems l2 = xs"
        by (auto simp: remove_last_snoc)
      with push 1 2 True e2 have "err = e2" "p' = p\<lparr>p_bufferqueue := l2, p_bufferevent := ev\<rparr>" "w' = w2"
        by (auto simp: port_push_buffer_def Let_def bufferlist_get_size_def)
      with ev e2 l1 l2 show ?thesis by (auto simp: port_queue_def intro: later_trans)
    qed
  qed
qed

lemma port_pop_signal_queue:
  assumes q: "port_queue p xs" and s: "port_pop_signal p w = Some (err, p', w')"
  shows "later w w' \<and> (\<exists>e. p' = p\<lparr>p_bufferevent := e\<rparr>)
     \<and> event_is (p_bufferevent p') (if err = OMX_ErrorNone then tl xs \<noteq> [] else xs \<noteq> [])"
proof (cases "length xs = 1")
  case True
  then have "xs \<noteq> []" "tl xs = []" by (cases xs; simp)+
  moreover have "bl_size (p_bufferqueue p) - 1 = 0"
    using port_queue_size[OF q] True by (subst word_minus_1_eq_0) simp
  ultimately show ?thesis
    using q s OSAL_EventReset_is[of "p_bufferevent p" w err "p_bufferevent p'" w' True]
      OSAL_EventReset_later[of "p_bufferevent p" w err "p_bufferevent p'" w']
    by (auto simp: port_pop_signal_def bufferlist_get_size_def port_queue_def bind_cases)
next
  case False
  then have *: "(tl xs \<noteq> []) = (xs \<noteq> [])" by (cases xs; simp)
  have "bl_size (p_bufferqueue p) - 1 \<noteq> 0"
    using port_queue_size[OF q] False by (subst word_minus_1_eq_0) simp
  with * q s show ?thesis
    by (auto simp: port_pop_signal_def bufferlist_get_size_def port_queue_def intro: exI[of _ "p_bufferevent p"])
qed

lemma port_pop_buffer_queue:
  assumes q: "port_queue p xs" and s: "port_pop_buffer p w = Some (r, p', w')"
  shows "port_queue p' (if r then tl xs else xs) \<and> later w w' \<and> (r \<longrightarrow> xs \<noteq> [])
    \<and> (\<exists>l e. p' = p\<lparr>p_bufferqueue := l, p_bufferevent := e\<rparr>)"
proof (cases "xs = []")
  case True
  with s q port_queue_size_0[OF q] show ?thesis
    by (auto simp: port_pop_buffer_def bufferlist_get_size_def intro!: exI[of _ "p_bufferqueue p"] exI[of _ "p_bufferevent p"])
next
  case False
  with s port_queue_size_0[OF q] obtain e p1 w1 where 1: "port_pop_signal p w = Some (e, p1, w1)"
    by (auto simp: port_pop_buffer_def bufferlist_get_size_def bind_cases)
  note p1 = port_pop_signal_queue[OF q 1]
  then obtain ev where ev: "p1 = p\<lparr>p_bufferevent := ev\<rparr>" by auto
  have l: "bl_ok (p_bufferqueue p)" "elems (p_bufferqueue p) = xs" using q by (auto simp: port_queue_def)
  have "0 < bl_size (p_bufferqueue p)" using False port_queue_size_0[OF q] by (simp add: word_gt_0)
  from bufferlist_remove_elems[OF l(1) this] l(2) obtain l2 where
    l2: "bufferlist_remove (p_bufferqueue p) 0 = Some l2" "bl_ok l2" "elems l2 = tl xs" by auto
  show ?thesis
  proof (cases "e = OMX_ErrorNone")
    case True
    with s 1 ev l2 False port_queue_size_0[OF q] have "r" "p' = p\<lparr>p_bufferqueue := l2, p_bufferevent := ev\<rparr>" "w' = w1"
      by (auto simp: port_pop_buffer_def bufferlist_get_size_def)
    with p1 ev True False l2 show ?thesis by (auto simp: port_queue_def)
  next
    case e: False
    with s 1 ev False port_queue_size_0[OF q] have "\<not> r" "p' = p1" "w' = w1"
      by (auto simp: port_pop_buffer_def bufferlist_get_size_def)
    with p1 ev e l show ?thesis
     by (auto simp: port_queue_def intro!: exI[of _ "p_bufferqueue p"] exI[of _ ev])
  qed
qed

lemma port_get_buffer_queue:
  "port_queue p xs \<Longrightarrow> port_get_buffer p = Some (if xs = [] then (False, 0) else (True, hd xs))"
  using port_queue_size_0[of p xs]
  by (auto simp: port_get_buffer_def bufferlist_get_size_def port_queue_def bufferlist_at_elems word_gt_0 hd_conv_nth)


subsection \<open>The allocated buffers of a port\<close>

definition port_bufs :: "port \<Rightarrow> 's port_mem_scheme \<Rightarrow> addr list \<Rightarrow> bool" where
  "port_bufs p m xs = (bl_ok (p_buffers p) \<and> elems (p_buffers p) = xs \<and> distinct xs
     \<and> (\<forall>b \<in> set xs. b \<noteq> 0 \<and> bufs m b \<noteq> None))"

lemma later_bufs [simp]: "later m m' \<Longrightarrow> bufs m' = bufs m"
  by (auto simp: later_def)

definition new_buffer :: "addr \<Rightarrow> buffer" where
  "new_buffer b = zero_buffer\<lparr>b_flags := BUFFER_FLAG_IN_USE, b_header := HOwn b\<rparr>"

lemma port_allocate_eq:
  assumes "bl_ok (p_buffers p)" "sys_malloc (buf_live m) m = (b, m1)" "b \<noteq> 0"
  shows "port_allocate_next_buffer p m = do {
      (err, l, m2) \<leftarrow> port_queue_push (p_buffers p) b (m1\<lparr>bufs := (bufs m1)(b \<mapsto> new_buffer b)\<rparr>);
      if err \<noteq> OMX_ErrorNone then do {
        m3 \<leftarrow> free_buf b m2;
        Some (False, 0, p\<lparr>p_buffers := l\<rparr>, m3)
      } else Some (True, b, p\<lparr>p_buffers := l\<rparr>, m2)
    }"
proof (cases "bl_size (p_buffers p) = bl_capacity (p_buffers p)")
  case True
  with bufferlist_push_back_elems[OF assms(1), of b]
  have "bufferlist_push_back (p_buffers p) b = Some (False, p_buffers p)" by simp
  moreover have "bl_capacity (p_buffers p) \<noteq> 0" using assms(1) by (auto simp: bl_ok_def)
  moreover define r where "r = bufferlist_reserve (p_buffers p) (bl_capacity (p_buffers p) * 2)
      (m1\<lparr>bufs := (bufs m1)(b \<mapsto> new_buffer b)\<rparr>)"
  ultimately have
    L: "port_allocate_next_buffer p m = do {
      (err, l, m) \<leftarrow> r;
      if err \<noteq> OMX_ErrorNone then do {
        m \<leftarrow> free_buf b m;
        Some (False, 0, p\<lparr>p_buffers := l\<rparr>, m)
      } else do {
        (_, l) \<leftarrow> bufferlist_push_back l b;
        Some (True, b, p\<lparr>p_buffers := l\<rparr>, m)
      }
    }" and
    R: "port_queue_push (p_buffers p) b (m1\<lparr>bufs := (bufs m1)(b \<mapsto> new_buffer b)\<rparr>) = do {
       (err, l, w) \<leftarrow> r;
       if err \<noteq> OMX_ErrorNone then Some (err, l, w)
       else do {
         (_, l) \<leftarrow> bufferlist_push_back l b;
         Some (OMX_ErrorNone, l, w)
       }
     }"
    using assms(2,3)
    by (simp_all add: port_allocate_next_buffer_def port_queue_push_def bufferlist_get_capacity_def
        new_buffer_def)
  show ?thesis
  proof (cases r)
    case (Some x)
    obtain e l2 m2 where x: "x = (e, l2, m2)" by (cases x)
    with Some show ?thesis unfolding L R
      by (cases "e = OMX_ErrorNone"; cases "bufferlist_push_back l2 b") auto
  qed (simp add: L R)
next
  case False
  with bufferlist_push_back_elems[OF assms(1), of b] obtain l where
    "bufferlist_push_back (p_buffers p) b = Some (True, l)" by auto
  with assms(2,3) show ?thesis
    by (simp add: port_allocate_next_buffer_def port_queue_push_def Let_def new_buffer_def)
qed

lemma port_allocate_bufs:
  assumes p: "port_bufs p m xs" and len: "length xs < 2 ^ 60"
    and a: "port_allocate_next_buffer p m = Some (ok, b, p', m')"
  shows "(\<exists>l. p' = p\<lparr>p_buffers := l\<rparr>) \<and>
    (if ok then b \<noteq> 0 \<and> bufs m b = None \<and> bufs m' = (bufs m)(b \<mapsto> new_buffer b)
       \<and> port_bufs p' m' (xs @ [b])
     else b = 0 \<and> bufs m' = bufs m \<and> port_bufs p' m' xs)"
proof -
  obtain c m1 where c: "sys_malloc (buf_live m) m = (c, m1)" by fastforce
  note m1 = sys_malloc_world[OF c]
  show ?thesis
  proof (cases "c = 0")
    case True
    with a c m1 p show ?thesis
      by (auto simp: port_allocate_next_buffer_def port_bufs_def intro: exI[of _ "p_buffers p'"])
  next
    case False
    have l: "bl_ok (p_buffers p)" "elems (p_buffers p) = xs" using p by (auto simp: port_bufs_def)
    have fresh: "bufs m c = None" using sys_malloc_fresh[OF c False] by (simp add: buf_live_def)
    then have cx: "c \<notin> set xs" using p by (auto simp: port_bufs_def)
    let ?m = "m1\<lparr>bufs := (bufs m1)(c \<mapsto> new_buffer c)\<rparr>"
    from a obtain e l2 m2 where 2: "port_queue_push (p_buffers p) c ?m = Some (e, l2, m2)"
      unfolding port_allocate_eq[OF l(1) c False] by (auto simp: bind_cases)
    from port_queue_push_elems[OF l(1) _ 2] len l(2)
    have l2: "bufs m2 = (bufs m)(c \<mapsto> new_buffer c)" "bl_ok l2"
        "elems l2 = (if e = OMX_ErrorNone then xs @ [c] else xs)"
      using m1 by auto
    from a 2 have r: "p' = p\<lparr>p_buffers := l2\<rparr>" "ok = (e = OMX_ErrorNone)"
      "b = (if ok then c else 0)" "if ok then m' = m2 else free_buf c m2 = Some m'"
      unfolding port_allocate_eq[OF l(1) c False] by (auto simp: bind_cases split: if_splits)
    show ?thesis
    proof (cases "e = OMX_ErrorNone")
      case True
      with r l2 fresh cx p False show ?thesis by (auto simp: port_bufs_def)
    next
      case e: False
      with r l2 have "bufs m' = (bufs m)(c := None)" by (auto simp: free_buf_def)
      then have "bufs m' = bufs m" using fresh by auto
      with e r l2 p show ?thesis by (auto simp: port_bufs_def)
    qed
  qed
qed

lemma of_nat_elems:
  assumes "bl_ok l" "j < length (elems l)"
  shows "unat (of_nat j :: omx_u32) = j \<and> of_nat j < bl_size l"
  using assms bl_ok_size[OF assms(1)] by (simp add: unat_of_nat_u32 word_less_nat_alt)

lemma port_find_buffer_bufs:
  assumes "port_bufs p m xs"
  shows "port_find_buffer p hp m =
    Some (case List.find (\<lambda>b. b_header (the (bufs m b)) = hp) xs of None \<Rightarrow> 0 | Some b \<Rightarrow> b)"
proof -
  let ?t = "\<lambda>b. map_option (\<lambda>x. b_header x = hp) (bufs m b)"
  let ?P = "\<lambda>b. b_header (the (bufs m b)) = hp"
  have l: "bl_ok (p_buffers p)" "elems (p_buffers p) = xs" "\<forall>b \<in> set xs. bufs m b \<noteq> None"
    using assms by (auto simp: port_bufs_def)
  have "find_index (\<lambda>b. ?t b = Some True) xs = find_index ?P xs"
    by (rule find_index_cong) (use l(3) in auto)
  moreover have "find_loop ?t (p_buffers p) 0 (unat (bl_size (p_buffers p)))
      = Some (map_option of_nat (find_index (\<lambda>b. ?t b = Some True) xs))"
    using find_loop_elems[OF l(1), of ?t] l by auto
  moreover have "bl_size (p_buffers p) = 0 \<longleftrightarrow> xs = []"
    using length_elems[OF l(1)] l(2) by (auto simp: unat_eq_0)
  moreover have "bufferlist_at (p_buffers p) (of_nat j) = Some (xs ! j)" if "j < length xs" for j
    using bufferlist_at_elems[OF l(1)] of_nat_elems[OF l(1)] that l(2) by simp
  ultimately show ?thesis
    using find_index_Some[of ?P xs]
    by (auto simp: port_find_buffer_def bufferlist_get_size_def find_index_find split: option.splits)
qed

lemma port_release_buffer_bufs:
  assumes p: "port_bufs p m xs" and r: "port_release_buffer p b m = Some (ok, p', m')"
  shows "ok = (b \<in> set xs) \<and> port_bufs p' m' (remove1 b xs)
    \<and> bufs m' = (if ok then (bufs m)(b := None) else bufs m)
    \<and> (\<exists>l mu. p' = p\<lparr>p_buffers := l, p_buffermutex := mu\<rparr>)"
proof -
  have l: "bl_ok (p_buffers p)" "elems (p_buffers p) = xs" "distinct xs"
    using p by (auto simp: port_bufs_def)
  have fl: "find_loop (\<lambda>x. Some (x = b)) (p_buffers p) 0 (unat (bl_size (p_buffers p)))
    = Some (map_option of_nat (find_index (\<lambda>x. x = b) xs))"
    using find_loop_elems[OF l(1), of "\<lambda>x. Some (x = b)"] l(2) by simp
  show ?thesis
  proof (cases "find_index (\<lambda>x. x = b) xs")
    case None
    then have "b \<notin> set xs" by (auto simp: find_index_None)
    moreover have "\<not> ok" "p' = p" "m' = m"
      using r fl None by (auto simp: port_release_buffer_def bufferlist_get_size_def)
    moreover have "p = p\<lparr>p_buffers := p_buffers p, p_buffermutex := p_buffermutex p\<rparr>" by simp
    ultimately show ?thesis using p by (metis remove1_idem)
  next
    case (Some j)
    note j = find_index_Some[OF Some]
    have oj: "unat (of_nat j :: omx_u32) = j" "of_nat j < bl_size (p_buffers p)"
      using of_nat_elems[OF l(1)] j l(2) by auto
    obtain l2 where l2: "bufferlist_remove (p_buffers p) (of_nat j) = Some l2" "bl_ok l2"
        "elems l2 = remove1 b xs"
      using bufferlist_remove_elems[OF l(1) oj(2)] oj(1) find_index_remove1[OF Some] l(2) by auto
    from r fl Some l2 obtain m1 e1 mu1 m2 e2 mu2 where
      1: "free_buf b m = Some m1" "OSAL_MutexLock (p_buffermutex p) m1 = Some (e1, mu1, m2)"
      "OSAL_MutexUnlock mu1 m2 = Some (e2, mu2, m')" "ok"
      "p' = p\<lparr>p_buffers := l2, p_buffermutex := mu2\<rparr>"
      by (auto simp: port_release_buffer_def bufferlist_get_size_def bind_cases)
    have "bufs m' = (bufs m)(b := None)"
      using 1(1) OSAL_MutexLock_later[OF 1(2)] OSAL_MutexUnlock_later[OF 1(3)]
      by (auto simp: free_buf_def split: if_splits)
    moreover have "b \<in> set xs" using j nth_mem by metis
    ultimately show ?thesis using 1 l2 p by (auto simp: port_bufs_def set_remove1_eq)
  qed
qed

lemma port_pop_buffer_at_queue:
  assumes q: "port_queue p xs" and s: "port_pop_buffer_at p i w = Some (r, p', w')"
  shows "port_queue p' (if r then remove_nth (unat i) xs else xs) \<and> later w w'
    \<and> (r \<longrightarrow> unat i < length xs)"
proof (cases "bl_size (p_bufferqueue p) = 0 \<or> i > bl_size (p_bufferqueue p)")
  case True
  with s q show ?thesis by (auto simp: port_pop_buffer_at_def bufferlist_get_size_def Let_def)
next
  case False
  with s obtain e p1 w1 where 1: "port_pop_signal p w = Some (e, p1, w1)"
    by (auto simp: port_pop_buffer_at_def bufferlist_get_size_def Let_def bind_cases)
  note p1 = port_pop_signal_queue[OF q 1]
  then obtain ev where ev: "p1 = p\<lparr>p_bufferevent := ev\<rparr>" by auto
  have l: "bl_ok (p_bufferqueue p)" "elems (p_bufferqueue p) = xs" using q by (auto simp: port_queue_def)
  show ?thesis
  proof (cases "e = OMX_ErrorNone")
    case True
    with s 1 False ev obtain l2 where l2: "bufferlist_remove (p_bufferqueue p) i = Some l2"
      "r" "p' = p\<lparr>p_bufferqueue := l2, p_bufferevent := ev\<rparr>" "w' = w1"
      by (auto simp: port_pop_buffer_at_def bufferlist_get_size_def Let_def bind_cases)
    have i: "i < bl_size (p_bufferqueue p)" using l2(1) by (auto simp: bufferlist_remove_def split: if_splits)
    with port_queue_size[OF q] have ix: "unat i < length xs" by (simp add: word_less_nat_alt)
    then have "(tl xs \<noteq> []) = (remove_nth (unat i) xs \<noteq> [])"
      by (cases xs) (auto simp: remove_nth_def drop_Suc_Cons take_Cons split: nat.splits)
    with p1 ev True l2 ix bufferlist_remove_elems[OF l(1) i] l(2) show ?thesis
      by (auto simp: port_queue_def)
  next
    case e: False
    with s 1 False have "\<not> r" "p' = p1" "w' = w1"
      by (auto simp: port_pop_buffer_at_def bufferlist_get_size_def Let_def)
    with p1 ev e l show ?thesis by (auto simp: port_queue_def)
  qed
qed

lemma frame_loop:
  assumes "bl_ok l" "elems l = xs" "\<forall>b \<in> set xs. bufs m b \<noteq> None"
  shows "find_loop (has_frame_id m f) l 0 (unat (bl_size l))
    = Some (map_option of_nat (find_index (\<lambda>b. b_frame_id (the (bufs m b)) = f) xs))"
proof -
  have "find_index (\<lambda>b. has_frame_id m f b = Some True) xs
      = find_index (\<lambda>b. b_frame_id (the (bufs m b)) = f) xs"
    by (rule find_index_cong) (use assms(3) in \<open>auto simp: has_frame_id_def\<close>)
  moreover have "\<forall>b \<in> set (elems l). has_frame_id m f b \<noteq> None"
    using assms(2,3) by (auto simp: has_frame_id_def)
  ultimately show ?thesis using find_loop_elems[OF assms(1)] assms(2) by auto
qed

lemma port_pop_by_frame_id_cases:
  assumes q: "port_queue p xs" and lv: "\<forall>b \<in> set xs. bufs m b \<noteq> None" "0 \<notin> set xs"
    and s: "port_pop_buffer_by_frame_id p f m = Some (b, p', m')"
  shows "bl_ok (p_bufferqueue p') \<and> later m m' \<and>
    (if b \<noteq> 0
     then find_index (\<lambda>b. b_frame_id (the (bufs m b)) = f) xs \<noteq> None
       \<and> Some b = List.find (\<lambda>b. b_frame_id (the (bufs m b)) = f) xs
       \<and> port_queue p' (remove_nth (the (find_index (\<lambda>b. b_frame_id (the (bufs m b)) = f) xs)) xs)
     else elems (p_bufferqueue p') = xs)"
proof (cases "xs = []")
  case True
  with s q port_queue_size_0[OF q] show ?thesis
    by (auto simp: port_pop_buffer_by_frame_id_def bufferlist_get_size_def Let_def port_queue_def)
next
  case False
  note sz = port_queue_size_0[OF q]
  from s False sz obtain e p1 m1 where 1: "port_pop_signal p m = Some (e, p1, m1)"
    by (auto simp: port_pop_buffer_by_frame_id_def bufferlist_get_size_def Let_def bind_cases)
  note p1 = port_pop_signal_queue[OF q 1]
  then obtain ev where ev: "p1 = p\<lparr>p_bufferevent := ev\<rparr>" by auto
  have l: "bl_ok (p_bufferqueue p)" "elems (p_bufferqueue p) = xs" using q by (auto simp: port_queue_def)
  let ?P = "\<lambda>b. b_frame_id (the (bufs m b)) = f"
  show ?thesis
  proof (cases "e = OMX_ErrorNone")
    case e: False
    with s 1 False sz have "b = 0" "p' = p1" "m' = m1"
      by (auto simp: port_pop_buffer_by_frame_id_def bufferlist_get_size_def Let_def)
    with p1 ev l show ?thesis by auto
  next
    case True
    have fl: "find_loop (has_frame_id m1 f) (p_bufferqueue p) 0 (unat (bl_size (p_bufferqueue p)))
       = Some (map_option of_nat (find_index ?P xs))"
      using frame_loop[OF l, of m1 f] lv by (simp add: later_bufs[OF conjunct1[OF p1]])
    show ?thesis
    proof (cases "find_index ?P xs")
      case None
      with s 1 False sz True fl ev have "b = 0" "p' = p1" "m' = m1"
        by (auto simp: port_pop_buffer_by_frame_id_def bufferlist_get_size_def Let_def)
      with p1 ev l show ?thesis by auto
    next
      case (Some j)
      note j = find_index_Some[OF Some]
      have oj: "unat (of_nat j :: omx_u32) = j" "of_nat j < bl_size (p_bufferqueue p)"
        using of_nat_elems[OF l(1)] j l(2) by auto
      from bufferlist_remove_elems[OF l(1) oj(2)] oj(1) l(2) obtain l2 where
        l2: "bufferlist_remove (p_bufferqueue p) (of_nat j) = Some l2" "bl_ok l2" "elems l2 = remove_nth j xs"
        by auto
      have at: "bufferlist_at (p_bufferqueue p) (of_nat j) = Some (xs ! j)"
        using bufferlist_at_elems[OF l(1)] oj l(2) by simp
      have r: "b = xs ! j" "p' = p\<lparr>p_bufferqueue := l2, p_bufferevent := ev\<rparr>" "m' = m1"
        using s 1 False sz True fl ev Some at l2
        by (auto simp: port_pop_buffer_by_frame_id_def bufferlist_get_size_def Let_def)
      have "b \<noteq> 0" using r(1) j lv(2) by (metis nth_mem)
      moreover have "(tl xs \<noteq> []) = (remove_nth j xs \<noteq> [])"
        using j by (cases xs) (auto simp: remove_nth_def drop_Suc_Cons take_Cons split: nat.splits)
      ultimately show ?thesis
        using r p1 ev True l2 Some j by (auto simp: port_queue_def find_index_find)
    qed
  qed
qed

lemma free_loop_from:
  assumes "bl_ok l" "unat i + k \<le> unat (bl_size l)"
    "distinct (elems l)" "\<forall>b \<in> set (take k (drop (unat i) (elems l))). bufs m b \<noteq> None"
  shows "free_loop l i k m
    = Some (m\<lparr>bufs := bufs m |` (- set (take k (drop (unat i) (elems l))))\<rparr>)"
  using assms
proof (induction k arbitrary: i m)
  case (Suc k)
  have i: "i < bl_size l" using Suc.prems(2) by (simp add: word_less_nat_alt)
  have i1: "unat (i + 1) = unat i + 1"
    using Suc.prems(2) bl_ok_size[OF Suc.prems(1)] by (intro unat_plus_1) simp
  let ?b = "elems l ! unat i"
  have lt: "unat i < length (elems l)" using Suc.prems by simp
  have d: "take (Suc k) (drop (unat i) (elems l)) = ?b # take k (drop (unat (i + 1)) (elems l))"
    using lt by (simp add: i1 Cons_nth_drop_Suc[symmetric])
  have "distinct (?b # drop (Suc (unat i)) (elems l))"
    using Suc.prems(3) lt by (metis Cons_nth_drop_Suc distinct_drop)
  then have nb: "?b \<notin> set (take k (drop (unat (i + 1)) (elems l)))"
    by (auto simp: i1 dest: in_set_takeD)
  have b: "bufs m ?b \<noteq> None" using Suc.prems(4) d by simp
  let ?m = "m\<lparr>bufs := (bufs m)(?b := None)\<rparr>"
  have "free_loop l (i + 1) k ?m = Some (?m\<lparr>bufs := bufs ?m |` (- set (take k (drop (unat (i + 1)) (elems l))))\<rparr>)"
    using Suc.prems i1 d nb by (intro Suc.IH) auto
  moreover have "bufs ?m |` (- set (take k (drop (unat (i + 1)) (elems l))))
     = bufs m |` (- set (take (Suc k) (drop (unat i) (elems l))))"
    unfolding d by (auto simp: restrict_map_def fun_eq_iff)
  ultimately show ?case using b i by (simp add: bufferlist_at_elems[OF Suc.prems(1)] free_buf_def)
qed (simp add: restrict_map_def)

lemma free_loop_all:
  assumes "port_bufs p m xs"
  shows "free_loop (p_buffers p) 0 (unat (bl_size (p_buffers p))) m = Some (m\<lparr>bufs := bufs m |` (- set xs)\<rparr>)"
  using free_loop_from[of "p_buffers p" 0 "unat (bl_size (p_buffers p))" m] assms
  by (auto simp: port_bufs_def)


subsection \<open>Initialisation and destruction\<close>

lemma port_init_lists_cases:
  assumes "port_init_lists n p w = (err, p', w')" "0 < n" "unat n < 2 ^ 61" "err = OMX_ErrorNone"
  shows "later w w' \<and> (\<exists>l q. p' = p\<lparr>p_buffers := l, p_bufferqueue := q\<rparr>
    \<and> bl_ok l \<and> elems l = [] \<and> bl_ok q \<and> elems q = [])"
proof -
  obtain e1 l1 w1 where 1: "bufferlist_init (p_buffers p) n w = (e1, l1, w1)" by (metis prod_cases3)
  obtain e2 l2 w2 where 2: "bufferlist_init (p_bufferqueue p) n w1 = (e2, l2, w2)" by (metis prod_cases3)
  have "e1 = OMX_ErrorNone" "e2 = OMX_ErrorNone" "p' = p\<lparr>p_buffers := l1, p_bufferqueue := l2\<rparr>" "w' = w2"
    using assms 1 2 by (auto simp: port_init_lists_def Let_def split: if_splits)
  with bufferlist_init_ok[OF 1 assms(2,3)] bufferlist_init_ok[OF 2 assms(2,3)] show ?thesis
    by (auto intro: later_trans)
qed

lemma port_init_ok:
  assumes "port_init pAttr cmin cact n sz w = Some (OMX_ErrorNone, pAttr', p, w')"
    "0 < n" "unat n < 2 ^ 61"
  shows "later w w' \<and> port_queue p [] \<and> port_bufs p m [] \<and> p_bufferevent p = Some (event_of False)
    \<and> p_bufferRdy p = Some (event_of False) \<and> p_buffermutex p = Some \<lparr>m_recursive = pAttr', m_depth = 0\<rparr>
    \<and> p_tunnelcomp p = 0 \<and> p_def p = (p_def zero_port)\<lparr>nBufferCountActual := cact, nBufferCountMin := cmin, nBufferSize := sz\<rparr>"
proof -
  obtain e1 a1 mu w1 where 1: "OSAL_MutexCreate pAttr w = (e1, a1, mu, w1)" by (metis prod_cases4)
  obtain e2 ev w2 where 2: "OSAL_EventCreate w1 = (e2, ev, w2)" by (metis prod_cases3)
  obtain e3 rdy w3 where 3: "OSAL_EventCreate w2 = (e3, rdy, w3)" by (metis prod_cases3)
  let ?p = "zero_port\<lparr>p_buffermutex := mu, p_bufferevent := ev, p_bufferRdy := rdy\<rparr>"
  obtain e4 p4 w4 where 4: "port_init_lists n ?p w3 = (e4, p4, w4)" by (metis prod_cases3)
  have ok: "e1 = OMX_ErrorNone" "e2 = OMX_ErrorNone" "e3 = OMX_ErrorNone" "e4 = OMX_ErrorNone"
     "a1 = pAttr'" "w' = w4" "p = p4\<lparr>p_def := (p_def p4)\<lparr>nBufferCountActual := cact,
                                  nBufferCountMin := cmin, nBufferSize := sz\<rparr>\<rparr>"
    using assms(1) 1 2 3 4 by (auto simp: port_init_def Let_def bind_cases split: if_splits)
  note c1 = OSAL_MutexCreate_cases[OF 1] and c2 = OSAL_EventCreate_cases[OF 2] and c3 = OSAL_EventCreate_cases[OF 3]
  from port_init_lists_cases[OF 4 assms(2,3) ok(4)] obtain l q where
    l: "p4 = ?p\<lparr>p_buffers := l, p_bufferqueue := q\<rparr>" "bl_ok l" "elems l = []" "bl_ok q" "elems q = []" "later w3 w4"
    by auto
  have "later w w'" using c1 c2 c3 l(6) ok(6) by (metis later_trans)
  with l ok c1 c2 c3 show ?thesis
    by (simp add: port_queue_def port_bufs_def event_is_def zero_port_def)
qed

lemma port_destroy_ok:
  assumes "calls_ok m" "port_bufs p m xs" "p_buffermutex p \<noteq> None"
    "p_bufferevent p = Some (event_of a)" "p_bufferRdy p = Some (event_of b)"
  shows "\<exists>m'. port_destroy p m = Some (zero_port, m') \<and> bufs m' = bufs m |` (- set xs)"
proof -
  obtain mu where mu: "p_buffermutex p = Some mu" using assms(3) by auto
  let ?m = "m\<lparr>bufs := bufs m |` (- set xs)\<rparr>"
  have ok: "calls_ok ?m" using assms(1) by (simp add: calls_ok_def)
  have "OSAL_MutexDestroy (Some mu) ?m = (OMX_ErrorNone, None, tick ?m)"
    using ok by (simp add: OSAL_MutexDestroy_def sys_call_def calls_ok_def)
  then show ?thesis
    using free_loop_all[OF assms(2)] mu assms(4,5) ok
      OSAL_EventDestroy_ok[of "tick ?m" a] OSAL_EventDestroy_ok[of "(tick ?m)\<lparr>w_now := w_now (tick ?m) + 5\<rparr>" b]
    by (simp add: port_destroy_def bufferlist_get_size_def calls_ok_def)
qed

subsection \<open>The queue of a port is a FIFO\<close>

definition pq_push :: "addr \<Rightarrow> port \<times> 's world_scheme \<Rightarrow> (omx_errortype \<times> port \<times> 's world_scheme) option" where
  "pq_push b s = port_push_buffer (fst s) b (snd s)"

text \<open>The way the component takes a buffer: look at the first one, then pop it. A pop that
  fails because the event could not be reset is an error.\<close>

definition pq_pop ::
  "port \<times> 's world_scheme \<Rightarrow> (omx_errortype \<times> addr option \<times> port \<times> 's world_scheme) option" where
  "pq_pop s = do {
     (some, b) \<leftarrow> port_get_buffer (fst s);
     (r, p, w) \<leftarrow> port_pop_buffer (fst s) (snd s);
     Some (if some \<and> \<not> r then OMX_ErrorUndefined else OMX_ErrorNone,
           if r then Some b else None, p, w)
   }"

lemma port_pop_buffer_law:
  assumes q: "port_queue pt xs" and s: "pq_pop (pt, w) = Some (err, r, p1, w1)"
  shows "port_queue p1 (if err = OMX_ErrorNone then tl xs else xs) \<and>
    r = (if err = OMX_ErrorNone \<and> xs \<noteq> [] then Some (hd xs) else None)"
proof -
  obtain ok p2 w2 where pop: "port_pop_buffer pt w = Some (ok, p2, w2)"
    using s port_get_buffer_queue[OF q]
    by (cases "port_pop_buffer pt w") (auto simp: pq_pop_def split: if_splits)
  have p: "p2 = p1" "err = (if xs \<noteq> [] \<and> \<not> ok then OMX_ErrorUndefined else OMX_ErrorNone)"
    "r = (if ok then Some (if xs = [] then 0 else hd xs) else None)"
    using s port_get_buffer_queue[OF q] pop unfolding pq_pop_def
    by (cases "xs = []"; cases ok; simp)+
  have "port_queue p2 (if ok then tl xs else xs)" "ok \<longrightarrow> xs \<noteq> []"
    subgoal using port_pop_buffer_queue[OF q pop] by (elim conjE)
    subgoal using port_pop_buffer_queue[OF q pop] by (elim conjE)
    done
  with p show ?thesis by (cases ok; cases "xs = []") simp_all
qed

interpretation pq: fifo "\<lambda>s xs. port_queue (fst s) xs" pq_push pq_pop "2 ^ 60"
proof (unfold_locales, goal_cases)
  case (1 s xs b err s')
  then show ?case
    using port_push_buffer_queue[of "fst s" xs b "snd s" err "fst s'" "snd s'"]
    by (simp add: pq_push_def)
next
  case (2 s xs err r s')
  then show ?case
    using port_pop_buffer_law[of "fst s" xs "snd s" err r "fst s'" "snd s'"] by simp
qed

subsection \<open>Properties\<close>

text \<open>C10: The buffer queue of an initialised port is a FIFO that may fail but never loses a
  buffer: for any interleaving of HantroOmx\_port\_push\_buffer and taking the first buffer, and
  whichever system calls fail (growing the array and setting the event included), the buffers
  taken followed by those still queued are those whose push reported success, in order; the
  buffer event is set exactly if buffers are queued.\<close>

theorem port_queue_fifo:
  assumes "port_init pAttr cmin cact n sz w = Some (OMX_ErrorNone, pAttr', p, w')"
    "0 < n" "unat n < 2 ^ 61" "length calls \<le> 2 ^ 60"
    "queue_run pq_push pq_pop calls (p, w') = Some (queued, taken, p2, w2)"
  shows "\<exists>waiting. queued = taken @ waiting \<and> elems (p_bufferqueue p2) = waiting
     \<and> event_is (p_bufferevent p2) (waiting \<noteq> [])"
proof -
  have "port_queue p []" using port_init_ok[OF assms(1-3)] by blast
  from pq.run_order[of "(p, w')" "[]" calls queued taken "(p2, w2)"] this assms(4,5)
  show ?thesis by (auto simp: port_queue_def)
qed

text \<open>HantroOmx\_port\_allocate\_next\_buffer appends a fresh zeroed buffer that is in use
  and has its own header, growing the list when it is full; HantroOmx\_port\_find\_buffer then
  finds it by this header. When it fails, the port and all buffers are as before.\<close>

theorem port_allocate_fresh:
  assumes "port_bufs p m xs" "length xs < 2 ^ 60"
    "port_allocate_next_buffer p m = Some (ok, b, p', m')"
  shows "if ok then b \<notin> set xs \<and> port_bufs p' m' (xs @ [b]) \<and> bufs m' = (bufs m)(b \<mapsto> new_buffer b)
       \<and> ((\<forall>c \<in> set xs. b_header (the (bufs m c)) \<noteq> HOwn b) \<longrightarrow> port_find_buffer p' (HOwn b) m' = Some b)
     else port_bufs p' m' xs \<and> bufs m' = bufs m"
proof -
  note a = port_allocate_bufs[OF assms]
  show ?thesis
  proof (cases ok)
    case True
    with a have b: "bufs m b = None" "bufs m' = (bufs m)(b \<mapsto> new_buffer b)" "port_bufs p' m' (xs @ [b])"
      by auto
    then have nb: "b \<notin> set xs" using assms(1) by (auto simp: port_bufs_def)
    have "port_find_buffer p' (HOwn b) m' = Some b" if "\<forall>c \<in> set xs. b_header (the (bufs m c)) \<noteq> HOwn b"
    proof -
      have "List.find (\<lambda>c. b_header (the (bufs m' c)) = HOwn b) xs = None"
        using that nb b(2) by (auto simp: find_None_iff)
      moreover have "b_header (the (bufs m' b)) = HOwn b" using b(2) by (simp add: new_buffer_def)
      ultimately show ?thesis
        using port_find_buffer_bufs[OF b(3), of "HOwn b"]
        by (auto simp: find_append split: option.splits)
    qed
    with True b nb show ?thesis by simp
  qed (use a in auto)
qed

text \<open>HantroOmx\_port\_release\_buffer frees exactly the given buffer if the port has
  it and removes it from the list, keeping the others in order; otherwise it returns
  OMX\_FALSE and changes nothing. The queue is not touched, so a queued buffer that is released
  stays queued.\<close>

theorem port_release_frees:
  assumes "port_bufs p m xs" "port_release_buffer p b m = Some (ok, p', m')"
  shows "ok = (b \<in> set xs) \<and> port_bufs p' m' (remove1 b xs)
    \<and> (if ok then bufs m' = (bufs m)(b := None) else bufs m' = bufs m)
    \<and> p_bufferqueue p' = p_bufferqueue p"
  using port_release_buffer_bufs[OF assms] by auto

text \<open>HantroOmx\_port\_pop\_buffer\_by\_frame\_id resets the event before it looks for the
  frame: with one queued buffer of another frame it returns NULL, leaves the buffer queued, and a
  thread that waits for the buffer event never wakes up.\<close>

theorem port_pop_by_frame_id_lost_wakeup:
  assumes "bl_ok (p_bufferqueue p)" "elems (p_bufferqueue p) = [b]"
    "p_bufferevent p = Some (event_of True)" "calls_ok m"
    "bufs m b = Some x" "b_frame_id x \<noteq> f"
  shows "\<exists>p' m'. port_pop_buffer_by_frame_id p f m = Some (0, p', m')
    \<and> elems (p_bufferqueue p') = [b]
    \<and> OSAL_EventWait (p_bufferevent p') INFINITE_WAIT False m' = None"
proof -
  let ?m = "m\<lparr>w_now := w_now m + 3\<rparr>" and ?p = "p\<lparr>p_bufferevent := Some (event_of False)\<rparr>"
  have ok: "calls_ok ?m" using assms(4) by simp
  have sz: "unat (bl_size (p_bufferqueue p)) = 1" using length_elems[OF assms(1)] assms(2) by simp
  then have sz1: "bl_size (p_bufferqueue p) = 1" by (metis One_nat_def unat_1 word_unat_eq_iff)
  have nz: "bl_size (p_bufferqueue p) \<noteq> 0" using sz1 by simp
  have "port_pop_signal p m = Some (OMX_ErrorNone, ?p, ?m)"
    using sz1 assms(3) OSAL_EventReset_ok[OF assms(4), of True]
    by (simp add: port_pop_signal_def bufferlist_get_size_def)
  moreover have "find_loop (has_frame_id ?m f) (p_bufferqueue p) 0 (unat (bl_size (p_bufferqueue p)))
     = Some None"
    using frame_loop[OF assms(1,2), of ?m f] assms(5,6) by simp
  ultimately have "port_pop_buffer_by_frame_id p f m = Some (0, ?p, ?m)"
    using nz by (simp add: port_pop_buffer_by_frame_id_def bufferlist_get_size_def Let_def)
  moreover have "OSAL_EventWait (Some (event_of False)) INFINITE_WAIT False ?m = None"
    using OSAL_EventWait_event_of[OF ok] by simp
  ultimately show ?thesis using assms(2) by auto
qed

text \<open>The bounds check of HantroOmx\_port\_pop\_buffer\_at is off by one: an index beyond the
  queue size is rejected with OMX\_FALSE, but the size itself passes the check and fails the
  assertion of HantroOmx\_bufferlist\_remove.\<close>

theorem port_pop_buffer_at_end:
  assumes "port_queue p xs" "xs \<noteq> []" "port_pop_signal p w = Some (OMX_ErrorNone, p1, w1)"
  shows "port_pop_buffer_at p (of_nat (length xs)) w = None
    \<and> (length xs < i \<and> i < 2 ^ 64 \<longrightarrow> port_pop_buffer_at p (of_nat i) w = Some (False, p, w))"
proof -
  have sz: "bl_size (p_bufferqueue p) = of_nat (length xs)"
    using port_queue_size[OF assms(1)] by (metis of_nat_unat ucast_id)
  have "p_bufferqueue p1 = p_bufferqueue p"
    using port_pop_signal_queue[OF assms(1,3)] by auto
  moreover have "length xs < 2 ^ 64"
    using port_queue_size[OF assms(1)] bl_ok_size[of "p_bufferqueue p"] assms(1) by (simp add: port_queue_def)
  ultimately show ?thesis
    using assms sz port_queue_size_0[OF assms(1)]
    by (auto simp: port_pop_buffer_at_def bufferlist_get_size_def Let_def bufferlist_remove_def
       word_less_nat_alt unat_of_nat_u32)
qed

text \<open>A port whose queue has no storage (nBuffers was 0) cannot take a buffer: doubling the
  capacity 0 and freeing the null storage never succeeds, so HantroOmx\_port\_push\_buffer returns
  at all only when the allocation itself fails.\<close>

theorem port_without_storage:
  assumes "bl_list (p_bufferqueue p) = None" "bl_size (p_bufferqueue p) = bl_capacity (p_bufferqueue p)"
    "bl_capacity (p_bufferqueue p) = 0" "port_push_buffer p b w = Some (err, p', w')"
  shows "err = OMX_ErrorInsufficientResources"
  using assms
  by (auto simp: port_push_buffer_def port_queue_push_def bufferlist_push_back_def bufferlist_reserve_def
    bufferlist_get_capacity_def sys_malloc_def Let_def bind_cases split: if_splits)

text \<open>HantroOmx\_port\_destroy after HantroOmx\_port\_init and an allocation (successful or
  not) frees every buffer the port allocated and no other, and leaves a zeroed port.\<close>

theorem port_destroy_frees:
  assumes "port_init pAttr cmin cact n sz m = Some (OMX_ErrorNone, pAttr', p, m')" "0 < n" "unat n < 2 ^ 61"
    "calls_ok m'" "port_allocate_next_buffer p m' = Some (ok, b, p2, m2)" "calls_ok m2"
  shows "\<exists>m3. port_destroy p2 m2 = Some (zero_port, m3) \<and> bufs m3 = bufs m"
proof -
  note i = port_init_ok[OF assms(1-3), of m']
  then have bm: "bufs m' = bufs m" by simp
  note a = port_allocate_bufs[OF _ _ assms(5), of "[]"]
  have "\<exists>xs. port_bufs p2 m2 xs \<and> bufs m2 |` (- set xs) = bufs m"
  proof (cases ok)
    case True
    with a i have "port_bufs p2 m2 [b] \<and> bufs m2 = (bufs m)(b \<mapsto> new_buffer b) \<and> bufs m b = None"
      using bm by auto
    then show ?thesis by (auto simp: fun_eq_iff restrict_map_def intro!: exI[of _ "[b]"])
  next
    case False
    with a i bm show ?thesis by (auto intro!: exI[of _ "[]"] simp: restrict_map_def)
  qed
  then obtain xs where xs: "port_bufs p2 m2 xs" "bufs m2 |` (- set xs) = bufs m" by blast
  have "\<exists>l. p2 = p\<lparr>p_buffers := l\<rparr>" using a i by auto
  then have "p_buffermutex p2 \<noteq> None" "p_bufferevent p2 = Some (event_of False)"
     "p_bufferRdy p2 = Some (event_of False)" using i by auto
  from port_destroy_ok[OF assms(6) xs(1) this] xs(2) show ?thesis by auto
qed

text \<open>A concrete port.\<close>

definition start_mem :: port_mem where
  "start_mem = \<lparr>w_now = 0, w_rc = (\<lambda>_. 0), w_ptr = (\<lambda>n. 100 + n), bufs = Map.empty\<rparr>"

definition start_port :: port where
  "start_port = zero_port\<lparr>
     p_def := (p_def zero_port)\<lparr>nBufferCountActual := 4, nBufferCountMin := 4, nBufferSize := 1000\<rparr>,
     p_buffers := \<lparr>bl_list = Some [0, 0, 0, 0], bl_size = 0, bl_capacity = 4\<rparr>,
     p_bufferqueue := \<lparr>bl_list = Some [0, 0, 0, 0], bl_size = 0, bl_capacity = 4\<rparr>,
     p_buffermutex := Some \<lparr>m_recursive = True, m_depth = 0\<rparr>,
     p_bufferevent := Some (event_of False), p_bufferRdy := Some (event_of False)\<rparr>"

lemma cells_4: "replicate (cells 4) x = [x, x, x, x]"
proof -
  have "cells 4 = 4" by (simp add: cells_def)
  then show ?thesis by (simp add: eval_nat_numeral)
qed

lemma start_port_init:
  "port_init False 4 4 4 1000 start_mem = Some (OMX_ErrorNone, True, start_port, start_mem\<lparr>w_now := 12\<rparr>)"
  by (simp add: port_init_def OSAL_MutexCreate_def OSAL_EventCreate_def port_init_lists_def
      bufferlist_init_def sys_malloc_def sys_call_def Let_def start_mem_def start_port_def
      zero_port_def zero_bufferlist_def cells_4 event_of_def)


abbreviation start_mem' :: port_mem where
  "start_mem' \<equiv> start_mem\<lparr>w_now := 12\<rparr>"

lemmas port_eval = pq_push_def pq_pop_def port_push_buffer_def port_queue_push_def
  bufferlist_push_back_def array_write_def bufferlist_get_size_def bufferlist_get_capacity_def
  port_get_buffer_def bufferlist_at_def array_read_def port_pop_buffer_def port_pop_signal_def
  bufferlist_remove_def memmove_def event_defs event_of_def PIPE_SIZE_def
  start_port_def start_mem_def Let_def
  port_allocate_next_buffer_def sys_malloc_def buf_live_def

lemma port_queue_fifo_witness:
  "\<exists>p w. queue_run pq_push pq_pop [Push 5, Push 6, Pop] (start_port, start_mem')
      = Some ([5, 6], [5], p, w) \<and> elems (p_bufferqueue p) = [6]"
proof -
  obtain p w where r: "queue_run pq_push pq_pop [Push 5, Push 6, Pop] (start_port, start_mem')
      = Some ([5, 6], [5], p, w)"
    by (simp add: port_eval)
  from port_queue_fifo[OF start_port_init _ _ _ r] r show ?thesis by auto
qed

lemma start_port_bufs: "port_bufs start_port m []"
  by (simp add: port_bufs_def start_port_def bl_ok_def elems_def)

lemma start_allocate:
  "\<exists>p m. port_allocate_next_buffer start_port start_mem' = Some (True, 112, p, m)
     \<and> w_now m = 13 \<and> w_rc m = (\<lambda>_. 0)"
  by (simp add: port_eval)

lemma port_allocate_fresh_witness:
  "\<exists>p m. port_allocate_next_buffer start_port start_mem' = Some (True, 112, p, m)
     \<and> port_bufs p m [112] \<and> port_find_buffer p (HOwn 112) m = Some 112"
proof -
  obtain p m where "port_allocate_next_buffer start_port start_mem' = Some (True, 112, p, m)"
    using start_allocate by blast
  from port_allocate_fresh[OF start_port_bufs _ this] this show ?thesis by auto
qed

lemma port_release_frees_witness:
  "\<exists>ok p m. port_release_buffer start_port 5 start_mem' = Some (ok, p, m) \<and> \<not> ok"
proof -
  have "port_release_buffer start_port 5 start_mem' = Some (False, start_port, start_mem')"
    by (simp add: port_release_buffer_def bufferlist_get_size_def start_port_def)
  from port_release_frees[OF start_port_bufs this] this show ?thesis by auto
qed

lemma port_pop_by_frame_id_lost_wakeup_witness:
  "\<exists>p (m :: port_mem) p' m'. port_pop_buffer_by_frame_id p 7 m = Some (0, p', m')
    \<and> elems (p_bufferqueue p') = [112]
    \<and> OSAL_EventWait (p_bufferevent p') INFINITE_WAIT False m' = None"
proof -
  let ?p = "start_port\<lparr>p_bufferqueue := \<lparr>bl_list = Some [112, 0, 0, 0], bl_size = 1, bl_capacity = 4\<rparr>,
    p_bufferevent := Some (event_of True)\<rparr>"
  let ?m = "start_mem\<lparr>bufs := [112 \<mapsto> new_buffer 112]\<rparr>"
  have "bl_ok (p_bufferqueue ?p)" "elems (p_bufferqueue ?p) = [112]"
    by (simp_all add: bl_ok_def elems_def)
  moreover have "calls_ok ?m" by (simp add: calls_ok_def start_mem_def)
  moreover have "b_frame_id (new_buffer 112) \<noteq> 7" by (simp add: new_buffer_def zero_buffer_def)
  ultimately show ?thesis
    using port_pop_by_frame_id_lost_wakeup[of ?p 112 ?m "new_buffer 112" 7] by auto
qed

lemma port_pop_buffer_at_end_witness:
  "\<exists>p. port_queue p [112] \<and> port_pop_buffer_at p 1 start_mem = None"
proof -
  let ?p = "start_port\<lparr>p_bufferqueue := \<lparr>bl_list = Some [112, 0, 0, 0], bl_size = 1, bl_capacity = 4\<rparr>,
    p_bufferevent := Some (event_of True)\<rparr>"
  have q: "port_queue ?p [112]"
    by (simp add: port_queue_def bl_ok_def elems_def event_is_def)
  obtain p1 w1 where "port_pop_signal ?p start_mem = Some (OMX_ErrorNone, p1, w1)"
    by (simp add: port_eval)
  from port_pop_buffer_at_end[OF q _ this] q show ?thesis by auto
qed

lemma port_without_storage_witness:
  "\<exists>p w. port_push_buffer zero_port 5 (start_mem\<lparr>w_ptr := \<lambda>_. 0\<rparr>)
     = Some (OMX_ErrorInsufficientResources, p, w)"
proof -
  obtain err p w where r: "port_push_buffer zero_port 5 (start_mem\<lparr>w_ptr := \<lambda>_. 0\<rparr>) = Some (err, p, w)"
    by (simp add: port_push_buffer_def port_queue_push_def bufferlist_push_back_def zero_port_def
        zero_bufferlist_def bufferlist_reserve_def bufferlist_get_capacity_def sys_malloc_def Let_def)
  from port_without_storage[OF _ _ _ r] r show ?thesis
    by (simp add: zero_port_def zero_bufferlist_def)
qed

lemma port_destroy_frees_witness:
  "\<exists>p m m3. port_allocate_next_buffer start_port start_mem' = Some (True, 112, p, m)
     \<and> port_destroy p m = Some (zero_port, m3) \<and> bufs m3 = Map.empty"
proof -
  obtain p m where a: "port_allocate_next_buffer start_port start_mem' = Some (True, 112, p, m)"
      "w_rc m = (\<lambda>_. 0)"
    using start_allocate by blast
  have "calls_ok start_mem'" "calls_ok m" using a(2) by (simp_all add: calls_ok_def start_mem_def)
  from port_destroy_frees[OF start_port_init _ _ this(1) a(1) this(2)] a(1) show ?thesis
    by (auto simp: start_mem_def)
qed

end
