(* ===== verification/DecBuffers.thy ===== *)
theory DecBuffers
  imports Fifo
begin

text \<open>
  What the decoder component (source/decoder/decoder.c) carries from an input buffer to the
  output buffer of the same picture: the propagate buffer of time stamps and marks, keyed by
  picture index, with the ring of the last 64 indices handed out, and the ring of marks that
  OMX\_CommandMarkBuffer queues.

  Cells of a fresh malloc block hold zero in the model; no definition reads one before it is
  written. OMX\_TICKS is a 64-bit word.
\<close>

subsection \<open>The propagate buffer\<close>

text \<open>PROPAGATE\_INPUT\_DATA, of 32 bytes\<close>

record propagate_input =
  pi_ts :: "64 word"
  pi_marks :: omx_mark
  pi_picIndex :: omx_u32

definition zero_input :: propagate_input where
  "zero_input = \<lparr>pi_ts = 0, pi_marks = \<lparr>mk_target = 0, mk_data = 0\<rparr>, pi_picIndex = 0\<rparr>"

text \<open>PROPAGATE\_BUFFER; the data is None for the null pointer.\<close>

record propagate_buffer =
  pr_data :: "propagate_input list option"
  pr_capacity :: omx_u32
  pr_count :: omx_u32

definition zero_propagate_buffer :: propagate_buffer where
  "zero_propagate_buffer = \<lparr>pr_data = None, pr_capacity = 0, pr_count = 0\<rparr>"

text \<open>The fields of OMX\_DECODER that propagate input data.\<close>

record propagation =
  dp_buf :: propagate_buffer
  dp_data :: propagate_input
  dp_received :: bool
  dp_oldest :: omx_u32
  dp_prev :: "omx_u32 list"
  dp_pos :: omx_u32
  dp_updated :: bool

definition MAX_PROPAGATE_BUFFER_SIZE :: omx_u32 where "MAX_PROPAGATE_BUFFER_SIZE = 64"
definition MAX_TICK_COUNTS :: omx_u32 where "MAX_TICK_COUNTS = 64"

text \<open>capacity * sizeof(PROPAGATE\_INPUT\_DATA), computed in 64 bits, is room for this many.\<close>

definition input_cells :: "omx_u32 \<Rightarrow> nat" where
  "input_cells n = unat (32 * n) div 32"

text \<open>The allocation is not checked: with data to copy, a failure is a write through null.\<close>

definition grow_propagate_buffer ::
  "propagate_buffer \<Rightarrow> omx_u32 \<Rightarrow> 's world_scheme \<Rightarrow> (propagate_buffer \<times> 's world_scheme) option" where
  "grow_propagate_buffer fb capacity w =
     (if capacity < pr_count fb then None
      else (case sys_malloc (\<lambda>_. False) w of (p, w) \<Rightarrow>
        let n = unat (pr_count fb); new = \<lparr>pr_data = None, pr_capacity = capacity, pr_count = pr_count fb\<rparr>
        in if n = 0 then
             Some (new\<lparr>pr_data := if p = 0 then None else Some (replicate (input_cells capacity) zero_input)\<rparr>, w)
           else if p = 0 then None
           else do {
             xs \<leftarrow> pr_data fb;
             if n > length xs \<or> n > input_cells capacity then None
             else Some (new\<lparr>pr_data := Some (take n xs @ replicate (input_cells capacity - n) zero_input)\<rparr>, w)
           }))"

definition receive_propagate_data ::
  "propagation \<Rightarrow> propagate_input \<Rightarrow> 's world_scheme \<Rightarrow> (propagation \<times> 's world_scheme) option" where
  "receive_propagate_data dp d w = do {
     let temp = dp_buf dp;
     temp \<leftarrow> (if pr_count temp \<ge> MAX_PROPAGATE_BUFFER_SIZE then do {
         xs \<leftarrow> pr_data temp;
         ys \<leftarrow> memmove xs 0 1 (unat (pr_count temp - 1));
         Some (temp\<lparr>pr_data := Some ys, pr_count := pr_count temp - 1\<rparr>)
       } else Some temp);
     (temp, w) \<leftarrow> (if pr_count temp \<ge> pr_capacity temp
       then grow_propagate_buffer temp (pr_capacity temp + 16) w else Some (temp, w));
     xs \<leftarrow> pr_data temp;
     ys \<leftarrow> array_write xs (unat (pr_count temp)) d;
     first \<leftarrow> array_read ys 0;
     Some (dp\<lparr>dp_buf := temp\<lparr>pr_data := Some ys, pr_count := pr_count temp + 1\<rparr>,
              dp_oldest := pi_picIndex first\<rparr>, w)
   }"

text \<open>The part of the array that is in use; None if the count runs beyond the block.\<close>

definition stored :: "propagate_buffer \<Rightarrow> propagate_input list option" where
  "stored fb =
     (if pr_count fb = 0 then Some []
      else do {
        xs \<leftarrow> pr_data fb;
        if unat (pr_count fb) \<le> length xs then Some (take (unat (pr_count fb)) xs) else None
      })"

text \<open>The result is the return value and what was written to *propagate\_data, if anything. For
  an index handed out before, nothing is written and OMX\_TRUE is returned.\<close>

definition pop_propagate_data ::
  "propagation \<Rightarrow> omx_u32 \<Rightarrow> (bool \<times> propagate_input option \<times> propagation) option" where
  "pop_propagate_data dp picIndex = do {
     let fb = dp_buf dp;
     used \<leftarrow> stored fb;
     (case find_index (\<lambda>d. pi_picIndex d = picIndex) used of
        Some i \<Rightarrow> do {
          xs \<leftarrow> pr_data fb;
          ys \<leftarrow> memmove xs i (i + 1) (unat (pr_count fb) - i - 1);
          prev \<leftarrow> array_write (dp_prev dp) (unat (dp_pos dp)) picIndex;
          let pos = dp_pos dp + 1;
          Some (True, Some (used ! i), dp\<lparr>dp_buf := fb\<lparr>pr_data := Some ys, pr_count := pr_count fb - 1\<rparr>,
            dp_prev := prev, dp_pos := if pos = 64 then 0 else pos\<rparr>)
        }
      | None \<Rightarrow> Some (picIndex \<in> set (take 64 (dp_prev dp)), None, dp))
   }"

fun flush_inputs :: "nat \<Rightarrow> propagate_input list \<Rightarrow> propagate_input list option" where
  "flush_inputs 0 xs = Some xs"
| "flush_inputs (Suc n) xs = Option.bind (array_write xs n zero_input) (flush_inputs n)"

definition flush_propagate_data :: "propagation \<Rightarrow> propagation option" where
  "flush_propagate_data dp =
     (if pr_count (dp_buf dp) = 0 then Some dp
      else do {
        xs \<leftarrow> pr_data (dp_buf dp);
        ys \<leftarrow> flush_inputs (unat (pr_count (dp_buf dp))) xs;
        Some (dp\<lparr>dp_buf := (dp_buf dp)\<lparr>pr_data := Some ys, pr_count := 0\<rparr>\<rparr>)
      })"

subsection \<open>Taking over the data of an input buffer\<close>

text \<open>get\_mark\_data: the event sent, if any, the mark, and the header.\<close>

definition get_mark_data :: "addr \<Rightarrow> omx_bufferheader \<Rightarrow> (omx_eventtype \<times> addr) option \<times> omx_mark \<times> omx_bufferheader" where
  "get_mark_data self h =
     (let (ev, h) = (if hMarkTargetComponent h = self
            then (Some (OMX_EventMark, pMarkData h), h\<lparr>hMarkTargetComponent := 0, pMarkData := 0\<rparr>)
            else (None, h))
      in (ev, \<lparr>mk_target = hMarkTargetComponent h, mk_data = pMarkData h\<rparr>, h))"

definition OMX_BUFFERFLAG_CODECCONFIG :: omx_u32 where "OMX_BUFFERFLAG_CODECCONFIG = 0x80"

text \<open>The step of async\_decoder\_decode when the codec has consumed an input: the first picture of
  a buffer gets its time stamp and mark, further ones get zeroes; a configuration buffer, an empty
  one at time 0 and one without a time stamp are skipped.\<close>

definition receive_input ::
  "addr \<Rightarrow> omx_bufferheader \<Rightarrow> propagation \<Rightarrow> 's world_scheme
    \<Rightarrow> ((omx_eventtype \<times> addr) option \<times> omx_bufferheader \<times> propagation \<times> 's world_scheme) option" where
  "receive_input self h dp w =
     (if dp_received dp then Some (None, h, dp, w)
      else if nTimeStamp h = -1 \<or> (nTimeStamp h = 0 \<and> nFilledLen h = 0)
          \<or> nFlags h AND OMX_BUFFERFLAG_CODECCONFIG \<noteq> 0 then Some (None, h, dp, w)
      else
        let (ev, mark, h') = get_mark_data self h;
            d = (dp_data dp)\<lparr>pi_ts := nTimeStamp h, pi_marks := mark\<rparr>;
            d = (if dp_updated dp then d
                 else d\<lparr>pi_ts := 0, pi_marks := \<lparr>mk_target = 0, mk_data = 0\<rparr>\<rparr>)
        in do {
          (dp, w) \<leftarrow> receive_propagate_data (dp\<lparr>dp_data := d, dp_updated := False\<rparr>) d w;
          Some (ev, h', dp, w)
        })"

definition codec_buffer_empty ::
  "addr \<Rightarrow> omx_bufferheader \<Rightarrow> propagation \<Rightarrow> 's world_scheme
    \<Rightarrow> ((omx_eventtype \<times> addr) option \<times> omx_bufferheader \<times> propagation \<times> 's world_scheme) option" where
  "codec_buffer_empty self h dp w = do {
     (ev, h, dp, w) \<leftarrow> receive_input self h dp w;
     Some (ev, h, dp\<lparr>dp_received := True\<rparr>, w)
   }"

definition codec_has_frame ::
  "addr \<Rightarrow> omx_bufferheader \<Rightarrow> propagation \<Rightarrow> 's world_scheme
    \<Rightarrow> ((omx_eventtype \<times> addr) option \<times> omx_bufferheader \<times> propagation \<times> 's world_scheme) option" where
  "codec_has_frame self h dp w = do {
     (ev, h, dp, w) \<leftarrow> receive_input self h dp w;
     Some (ev, h, dp\<lparr>dp_data := (dp_data dp)\<lparr>pi_picIndex := pi_picIndex (dp_data dp) + 1\<rparr>,
                     dp_received := False\<rparr>, w)
   }"

subsection \<open>Marks\<close>

text \<open>The fields marks, mark\_read\_pos, mark\_write\_pos and mark\_count.\<close>

record mark_ring =
  mr_marks :: "omx_mark list"
  mr_read :: omx_u32
  mr_write :: omx_u32
  mr_count :: omx_u32

text \<open>async\_decoder\_mark\_buffer; the event that there is no space, if it is sent.\<close>

definition mark_buffer :: "omx_mark \<Rightarrow> mark_ring \<Rightarrow> (omx_errortype option \<times> mark_ring) option" where
  "mark_buffer mark r =
     (if mr_count r < 10 then do {
        ms \<leftarrow> array_write (mr_marks r) (unat (mr_write r)) mark;
        let wr = mr_write r + 1;
        Some (None, r\<lparr>mr_marks := ms, mr_count := mr_count r + 1, mr_write := if wr = 10 then 0 else wr\<rparr>)
      }
      else Some (Some OMX_ErrorUndefined, r))"

text \<open>The step of async\_dispatch\_frame\_buffer that takes the oldest pending mark, if there is one.\<close>

definition take_mark :: "mark_ring \<Rightarrow> (omx_mark option \<times> mark_ring) option" where
  "take_mark r =
     (if mr_count r = 0 then Some (None, r)
      else do {
        m \<leftarrow> array_read (mr_marks r) (unat (mr_read r));
        let rd = mr_read r + 1;
        let r = r\<lparr>mr_read := if rd = 10 then 0 else rd, mr_count := mr_count r - 1\<rparr>;
        Some (Some m, if mr_count r = 0 then r\<lparr>mr_read := 0, mr_write := 0\<rparr> else r)
      })"

subsection \<open>The propagate buffer as a bounded queue with removal by index\<close>

text \<open>The specification: the inputs kept, oldest first, and the last 64 indices handed out.\<close>

fun spec_receive :: "propagate_input \<Rightarrow> propagate_input list \<Rightarrow> propagate_input list" where
  "spec_receive d xs = (if length xs = 64 then tl xs else xs) @ [d]"

definition spec_pop ::
  "omx_u32 \<Rightarrow> propagate_input list \<times> omx_u32 list
    \<Rightarrow> bool \<times> propagate_input option \<times> propagate_input list \<times> omx_u32 list" where
  "spec_pop k s = (case s of (xs, ks) \<Rightarrow>
     (case List.extract (\<lambda>d. pi_picIndex d = k) xs of
        Some (ys, d, zs) \<Rightarrow> (True, Some d, ys @ zs, tl ks @ [k])
      | None \<Rightarrow> (k \<in> set ks, None, xs, ks)))"

text \<open>The ring of indices, oldest first.\<close>

definition ring_list :: "'a list \<Rightarrow> nat \<Rightarrow> 'a list" where
  "ring_list xs pos = drop pos xs @ take pos xs"

lemma ring_list_set [simp]: "set (ring_list xs pos) = set xs"
proof -
  have "set (ring_list xs pos) = set (take pos xs @ drop pos xs)" unfolding ring_list_def set_append by (rule Un_commute)
  then show ?thesis by (simp only: append_take_drop_id)
qed

lemma ring_list_write:
  assumes "pos < length xs"
  shows "ring_list (xs[pos := x]) (if pos + 1 = length xs then 0 else pos + 1) = tl (ring_list xs pos) @ [x]"
proof -
  have d: "drop pos xs = xs ! pos # drop (Suc pos) xs" using assms by (rule Cons_nth_drop_Suc[symmetric])
  show ?thesis
  proof (cases "pos + 1 = length xs")
    case True
    then have "xs[pos := x] = take pos xs @ [x]" by (simp add: upd_conv_take_nth_drop)
    with True d show ?thesis by (simp add: ring_list_def)
  next
    case False
    then show ?thesis using assms by (simp add: ring_list_def d take_Suc_conv_app_nth)
  qed
qed

text \<open>The buffer holds xs, and ks were handed out last.\<close>

definition dp_rep :: "propagation \<Rightarrow> propagate_input list \<Rightarrow> omx_u32 list \<Rightarrow> bool" where
  "dp_rep dp xs ks = (\<exists>cs. pr_data (dp_buf dp) = Some cs \<and> 64 \<le> length cs
     \<and> pr_count (dp_buf dp) = of_nat (length xs) \<and> length xs \<le> 64 \<and> take (length xs) cs = xs
     \<and> 64 \<le> pr_capacity (dp_buf dp)
     \<and> length (dp_prev dp) = 64 \<and> dp_pos dp < 64 \<and> ring_list (dp_prev dp) (unat (dp_pos dp)) = ks)"

lemma unat_small: "n \<le> 64 \<Longrightarrow> unat (of_nat n :: omx_u32) = n"
  by (simp add: unat_of_nat)

lemma receive_rep:
  assumes "dp_rep dp xs ks"
  shows "\<exists>dp'. receive_propagate_data dp d w = Some (dp', w) \<and> dp_rep dp' (spec_receive d xs) ks
    \<and> dp_oldest dp' = pi_picIndex (hd (spec_receive d xs)) \<and> dp_data dp' = dp_data dp
    \<and> dp_received dp' = dp_received dp \<and> dp_updated dp' = dp_updated dp"
proof -
  obtain cs where c: "pr_data (dp_buf dp) = Some cs" "64 \<le> length cs" "pr_count (dp_buf dp) = of_nat (length xs)"
    "length xs \<le> 64" "take (length xs) cs = xs" "64 \<le> pr_capacity (dp_buf dp)"
    "length (dp_prev dp) = 64" "dp_pos dp < 64" "ring_list (dp_prev dp) (unat (dp_pos dp)) = ks"
    using assms by (auto simp: dp_rep_def)
  note u = unat_small[OF c(4)]
  define ys where "ys = (if length xs = 64 then tl xs else xs)"
  define cs' where "cs' = (if length xs = 64 then the (memmove cs 0 1 63) else cs)"
  have ys: "length ys < 64" "spec_receive d xs = ys @ [d]" using c(4) by (auto simp: ys_def)
  have uy: "unat (of_nat (length ys) :: omx_u32) = length ys" using ys by (intro unat_small) simp
  have cs': "length cs' = length cs" "take (length ys) cs' = ys"
  proof -
    show "length cs' = length cs" using c(2) by (simp add: cs'_def memmove_def)
    show "take (length ys) cs' = ys"
    proof (cases "length xs = 64")
      case True
      then have "ys = tl (take 64 cs)" using c(5) by (simp add: ys_def)
      then show ?thesis using True c(2) by (simp add: cs'_def memmove_def take_tl drop_Suc ys_def min_absorb1)
    qed (use c(5) in \<open>simp add: cs'_def ys_def\<close>)
  qed
  have full: "(MAX_PROPAGATE_BUFFER_SIZE \<le> pr_count (dp_buf dp)) = (length xs = 64)"
    using c(3,4) u by (auto simp: MAX_PROPAGATE_BUFFER_SIZE_def word_le_nat_alt)
  have step1: "(if pr_count (dp_buf dp) \<ge> MAX_PROPAGATE_BUFFER_SIZE then do {
         xs \<leftarrow> pr_data (dp_buf dp);
         ys \<leftarrow> memmove xs 0 1 (unat (pr_count (dp_buf dp) - 1));
         Some ((dp_buf dp)\<lparr>pr_data := Some ys, pr_count := pr_count (dp_buf dp) - 1\<rparr>)
       } else Some (dp_buf dp)) = Some ((dp_buf dp)\<lparr>pr_data := Some cs', pr_count := of_nat (length ys)\<rparr>)"
    using c(1,2,3) unfolding full by (auto simp: cs'_def ys_def memmove_def)
  have cap: "\<not> pr_capacity (dp_buf dp) \<le> of_nat (length ys)"
    using c(6) ys(1) uy by (auto simp: word_le_nat_alt not_le)
  have wr: "array_write cs' (length ys) d = Some (cs'[length ys := d])"
    using cs' c(2) ys by (simp add: array_write_def)
  have tk: "take (Suc (length ys)) (cs'[length ys := d]) = ys @ [d]"
    using cs' c(2) ys by (simp add: take_Suc_conv_app_nth)
  then have hd: "cs'[length ys := d] ! 0 = hd (ys @ [d])"
    using cs' c(2) by (metis hd_conv_nth length_0_conv length_list_update take_Nil hd_take list.size(3) not_less_eq_eq snoc_eq_iff_butlast zero_less_Suc nth_take)
  have "receive_propagate_data dp d w = Some (dp\<lparr>dp_buf := (dp_buf dp)\<lparr>pr_data := Some (cs'[length ys := d]),
      pr_count := of_nat (length ys) + 1\<rparr>, dp_oldest := pi_picIndex (hd (ys @ [d]))\<rparr>, w)"
    unfolding receive_propagate_data_def Let_def step1
    using cap wr uy hd cs' c(2) by (auto simp: array_read_def)
  moreover have "dp_rep (dp\<lparr>dp_buf := (dp_buf dp)\<lparr>pr_data := Some (cs'[length ys := d]),
      pr_count := of_nat (length ys) + 1\<rparr>, dp_oldest := pi_picIndex (hd (ys @ [d]))\<rparr>) (ys @ [d]) ks"
    using cs' c ys tk by (auto simp: dp_rep_def)
  ultimately show ?thesis using ys(2) by auto
qed


lemma find_index_first: "\<forall>y \<in> set ys. \<not> P y \<Longrightarrow> P d \<Longrightarrow> find_index P (ys @ d # zs) = Some (length ys)"
  by (induction ys) auto

lemma find_index_extract:
  "List.extract P xs = Some (ys, d, zs) \<Longrightarrow> find_index P xs = Some (length ys)"
  by (auto simp: extract_Some_iff find_index_first)

lemma pop_rep:
  assumes "dp_rep dp xs ks"
  shows "\<exists>dp'. pop_propagate_data dp k = Some (fst (spec_pop k (xs, ks)), fst (snd (spec_pop k (xs, ks))), dp')
    \<and> dp_rep dp' (fst (snd (snd (spec_pop k (xs, ks))))) (snd (snd (snd (spec_pop k (xs, ks)))))"
proof -
  obtain cs where c: "pr_data (dp_buf dp) = Some cs" "64 \<le> length cs" "pr_count (dp_buf dp) = of_nat (length xs)"
    "length xs \<le> 64" "take (length xs) cs = xs" "64 \<le> pr_capacity (dp_buf dp)"
    "length (dp_prev dp) = 64" "dp_pos dp < 64" "ring_list (dp_prev dp) (unat (dp_pos dp)) = ks"
    using assms by (auto simp: dp_rep_def)
  note u = unat_small[OF c(4)]
  have st: "stored (dp_buf dp) = Some xs"
  proof (cases "xs = []")
    case False
    then have "pr_count (dp_buf dp) \<noteq> 0" using u c(3) by (metis length_0_conv unat_0)
    then show ?thesis using c u by (simp add: stored_def)
  qed (simp add: stored_def c)
  have mem: "set (take 64 (dp_prev dp)) = set ks" using c(7,9) by (metis ring_list_set take_all le_refl)
  show ?thesis
  proof (cases "List.extract (\<lambda>d. pi_picIndex d = k) xs")
    case None
    then have "find_index (\<lambda>d. pi_picIndex d = k) xs = None" by (auto simp: extract_None_iff find_index_None)
    then show ?thesis using st mem None assms by (simp add: pop_propagate_data_def spec_pop_def)
  next
    case (Some r)
    obtain ys d zs where r: "r = (ys, d, zs)" by (cases r)
    note e = Some[unfolded r]
    have xs: "xs = ys @ d # zs" using e by (simp add: extract_Some_iff)
    have pos: "unat (dp_pos dp) < 64" using c(8) by (simp add: word_less_nat_alt)
    define cs' where "cs' = the (memmove cs (length ys) (length ys + 1) (length zs))"
    have mv: "memmove cs (length ys) (length ys + 1) (length xs - length ys - 1) = Some cs'"
      using c(2,4) xs by (simp add: cs'_def memmove_def)
    obtain vs where cs: "cs = ys @ d # zs @ vs" using c(5) xs by (metis append_take_drop_id append_assoc append_Cons)
    have "take (length ys + length zs) cs' = ys @ zs" "length cs' = length cs"
      by (simp_all add: cs'_def memmove_def cs)
    moreover have "ring_list ((dp_prev dp)[unat (dp_pos dp) := k]) (unat (if dp_pos dp + 1 = 64 then 0 else dp_pos dp + 1)) = tl ks @ [k]"
    proof -
      have n: "unat (dp_pos dp + 1) = unat (dp_pos dp) + 1" using pos by (simp add: unat_word_ariths)
      then have "(dp_pos dp + 1 = 64) = (unat (dp_pos dp) + 1 = 64)" unfolding word_unat_eq_iff n by simp
      then show ?thesis using ring_list_write[of "unat (dp_pos dp)" "dp_prev dp" k] pos c(7,9) n by auto
    qed
    moreover have "(if dp_pos dp + 1 = 64 then 0 else dp_pos dp + 1) < 64"
      using c(8) by (auto simp: word_less_nat_alt unat_word_ariths unat_arith_simps split: if_splits)
    moreover have "pop_propagate_data dp k = Some (True, Some d, dp\<lparr>dp_buf := (dp_buf dp)\<lparr>pr_data := Some cs',
         pr_count := pr_count (dp_buf dp) - 1\<rparr>, dp_prev := (dp_prev dp)[unat (dp_pos dp) := k],
         dp_pos := if dp_pos dp + 1 = 64 then 0 else dp_pos dp + 1\<rparr>)"
      using st find_index_extract[OF e] c(1,3,7) u mv pos xs
      by (simp add: pop_propagate_data_def array_write_def Let_def nth_append)
    ultimately show ?thesis using e c xs by (auto simp: spec_pop_def dp_rep_def)
  qed
qed

subsection \<open>Marks as a queue\<close>

lemma ring_rotate: "pos \<le> length xs \<Longrightarrow> ring_list xs pos = rotate pos xs"
  by (cases "pos = length xs") (auto simp: ring_list_def rotate_drop_take)

lemma ring_list_length [simp]: "length (ring_list xs pos) = length xs"
  by (simp add: ring_list_def)

lemma ring_list_nth: "pos \<le> length xs \<Longrightarrow> n < length xs \<Longrightarrow> ring_list xs pos ! n = xs ! ((pos + n) mod length xs)"
  by (simp add: ring_rotate nth_rotate)

lemma mod_wrap: "(a :: nat) < 2 * n \<Longrightarrow> a mod n = (if a < n then a else a - n)"
  by (simp add: le_mod_geq)

lemma ring_list_update:
  assumes "pos < length xs" "n < length xs"
  shows "ring_list (xs[(pos + n) mod length xs := x]) pos = (ring_list xs pos)[n := x]"
proof (rule nth_equalityI)
  fix j assume j: "j < length (ring_list (xs[(pos + n) mod length xs := x]) pos)"
  have "(pos + n) mod length xs = (pos + j) mod length xs \<longleftrightarrow> n = j"
    using assms j mod_wrap[of "pos + n" "length xs"] mod_wrap[of "pos + j" "length xs"]
    by (cases "pos + n < length xs"; cases "pos + j < length xs") auto
  moreover have "(pos + n) mod length xs < length xs" by (rule mod_less_divisor) (use assms in linarith)
  ultimately show "ring_list (xs[(pos + n) mod length xs := x]) pos ! j = (ring_list xs pos)[n := x] ! j"
    using assms j by (auto simp: ring_list_nth nth_list_update)
qed simp

definition mark_rep :: "mark_ring \<Rightarrow> omx_mark list \<Rightarrow> bool" where
  "mark_rep r xs = (length (mr_marks r) = 10 \<and> length xs \<le> 10 \<and> mr_count r = of_nat (length xs)
     \<and> unat (mr_read r) < 10 \<and> unat (mr_write r) = (unat (mr_read r) + length xs) mod 10
     \<and> take (length xs) (ring_list (mr_marks r) (unat (mr_read r))) = xs)"

text \<open>The two ends of the ring as operations of a queue.\<close>

definition mark_push :: "omx_mark \<Rightarrow> mark_ring \<Rightarrow> (omx_errortype \<times> mark_ring) option" where
  "mark_push m r = map_option (\<lambda>(ev, r). (case ev of None \<Rightarrow> OMX_ErrorNone | Some e \<Rightarrow> e, r)) (mark_buffer m r)"

definition mark_pop :: "mark_ring \<Rightarrow> (omx_errortype \<times> omx_mark option \<times> mark_ring) option" where
  "mark_pop r = map_option (\<lambda>(m, r). (OMX_ErrorNone, m, r)) (take_mark r)"

lemma next_pos:
  assumes "unat p < 10"
  shows "unat (if p + 1 = (10 :: omx_u32) then 0 else p + 1) = (unat p + 1) mod 10"
proof -
  have n: "unat (p + 1) = unat p + 1" using assms by (simp add: unat_word_ariths)
  have "(p + 1 = 10) = (unat p + 1 = 10)" unfolding word_unat_eq_iff n by simp
  then show ?thesis using n assms by auto
qed

lemma mark_push_rep:
  assumes r: "mark_rep r xs"
  shows "\<exists>r'. mark_buffer m r = Some (if length xs < 10 then None else Some OMX_ErrorUndefined, r')
    \<and> mark_rep r' (if length xs < 10 then xs @ [m] else xs)"
proof -
  note m = r[unfolded mark_rep_def]
  have u: "unat (mr_count r) = length xs" using m unat_small[of "length xs"] by simp
  have full: "(mr_count r < 10) = (length xs < 10)" unfolding word_less_nat_alt u by simp
  show ?thesis
  proof (cases "length xs < 10")
    case False
    then show ?thesis using r by (simp add: mark_buffer_def full)
  next
    case True
    let ?wr = "unat (mr_write r)" and ?rd = "unat (mr_read r)"
    have wr: "?wr < 10" using m by simp
    let ?r = "r\<lparr>mr_marks := (mr_marks r)[?wr := m], mr_count := mr_count r + 1,
      mr_write := if mr_write r + 1 = 10 then 0 else mr_write r + 1\<rparr>"
    have "length (mr_marks r) = 10" using m by simp
    then have "mark_buffer m r = Some (None, ?r)" using True wr by (simp add: mark_buffer_def full array_write_def Let_def)
    moreover have "ring_list ((mr_marks r)[?wr := m]) ?rd = (ring_list (mr_marks r) ?rd)[length xs := m]"
      using ring_list_update[of ?rd "mr_marks r" "length xs" m] m True by simp
    then have "mark_rep ?r (xs @ [m])"
      using m True next_pos[OF wr] by (simp add: mark_rep_def take_Suc_conv_app_nth mod_simps)
    ultimately show ?thesis using True by simp
  qed
qed

lemma mark_pop_rep:
  assumes r: "mark_rep r xs"
  shows "\<exists>r'. take_mark r = Some (if xs = [] then None else Some (hd xs), r') \<and> mark_rep r' (tl xs)"
proof -
  note m = r[unfolded mark_rep_def]
  have u: "unat (mr_count r) = length xs" using m unat_small[of "length xs"] by simp
  show ?thesis
  proof (cases xs)
    case Nil
    then show ?thesis using r m by (simp add: take_mark_def)
  next
    case (Cons x ys)
    then have nz: "mr_count r \<noteq> 0" using u by auto
    let ?rd = "unat (mr_read r)" and ?next = "if mr_read r + 1 = 10 then 0 else mr_read r + 1"
    have rd: "?rd < 10" using m by simp
    have x: "mr_marks r ! ?rd = x"
    proof -
      have "ring_list (mr_marks r) ?rd ! 0 = mr_marks r ! ?rd" using m rd by (simp add: ring_list_nth)
      moreover have "take (length xs) (ring_list (mr_marks r) ?rd) ! 0 = x" using m Cons by simp
      ultimately show ?thesis using Cons by simp
    qed
    have n: "unat ?next = (?rd + 1) mod 10" by (rule next_pos[OF rd])
    have cnt: "mr_count r - 1 = of_nat (length ys)" using m Cons by simp
    have emp: "(mr_count r - 1 = 0) = (ys = [])" unfolding cnt word_unat_eq_iff
      using unat_small[of "length ys"] m Cons by simp
    have rot: "ring_list (mr_marks r) (unat ?next) = rotate1 (ring_list (mr_marks r) ?rd)"
    proof -
      have "rotate ((?rd + 1) mod length (mr_marks r)) (mr_marks r) = rotate (?rd + 1) (mr_marks r)"
        by (rule rotate_conv_mod[symmetric])
      then show ?thesis using rd m unfolding n by (simp add: ring_rotate)
    qed
    have tk: "take (length ys) (ring_list (mr_marks r) (unat ?next)) = ys"
      using m Cons ring_list_length[of "mr_marks r" ?rd] unfolding rot
      by (cases "ring_list (mr_marks r) ?rd") (auto simp del: ring_list_length)
    have "take_mark r = Some (Some x, (if ys = [] then \<lparr>mr_marks = mr_marks r, mr_read = 0, mr_write = 0, mr_count = 0\<rparr>
        else r\<lparr>mr_read := ?next, mr_count := mr_count r - 1\<rparr>))"
      using nz x rd m emp by (auto simp: take_mark_def array_read_def Let_def)
    moreover have "mark_rep (if ys = [] then \<lparr>mr_marks = mr_marks r, mr_read = 0, mr_write = 0, mr_count = 0\<rparr>
        else r\<lparr>mr_read := ?next, mr_count := mr_count r - 1\<rparr>) ys"
      using m Cons tk cnt n by (auto simp: mark_rep_def mod_simps)
    ultimately show ?thesis using Cons by auto
  qed
qed

interpretation marks: fifo mark_rep mark_push mark_pop limit for limit
proof (unfold_locales, goal_cases)
  case (1 r xs m err r')
  then show ?case using mark_push_rep[OF 1(1), of m] by (auto simp: mark_push_def split: if_splits)
next
  case (2 r xs err m r')
  then show ?case using mark_pop_rep[OF 2(1)] by (auto simp: mark_pop_def)
qed


subsection \<open>Properties\<close>

text \<open>A sequence of calls, and the results of its pops.\<close>

datatype prop_call = Receive propagate_input | Take omx_u32

fun prop_run :: "prop_call list \<Rightarrow> propagation \<Rightarrow> 's world_scheme
    \<Rightarrow> ((bool \<times> propagate_input option) list \<times> propagation \<times> 's world_scheme) option" where
  "prop_run [] dp w = Some ([], dp, w)"
| "prop_run (Receive d # cs) dp w = do {
     (dp, w) \<leftarrow> receive_propagate_data dp d w;
     prop_run cs dp w
   }"
| "prop_run (Take k # cs) dp w = do {
     (r, d, dp) \<leftarrow> pop_propagate_data dp k;
     (rs, dp, w) \<leftarrow> prop_run cs dp w;
     Some ((r, d) # rs, dp, w)
   }"

fun spec_run :: "prop_call list \<Rightarrow> propagate_input list \<times> omx_u32 list
    \<Rightarrow> (bool \<times> propagate_input option) list \<times> propagate_input list \<times> omx_u32 list" where
  "spec_run [] s = ([], s)"
| "spec_run (Receive d # cs) s = spec_run cs (spec_receive d (fst s), snd s)"
| "spec_run (Take k # cs) s =
     (case spec_pop k s of (r, d, s) \<Rightarrow> (case spec_run cs s of (rs, s) \<Rightarrow> ((r, d) # rs, s)))"

lemma prop_run_spec:
  "dp_rep dp xs ks \<Longrightarrow> \<exists>dp'. prop_run cs dp w = Some (fst (spec_run cs (xs, ks)), dp', w)
    \<and> dp_rep dp' (fst (snd (spec_run cs (xs, ks)))) (snd (snd (spec_run cs (xs, ks))))"
proof (induction cs arbitrary: dp xs ks)
  case (Cons c cs)
  show ?case
  proof (cases c)
    case (Receive d)
    obtain dp' where "receive_propagate_data dp d w = Some (dp', w)" "dp_rep dp' (spec_receive d xs) ks"
      using receive_rep[OF Cons.prems] by blast
    with Cons.IH[OF this(2)] Receive show ?thesis by auto
  next
    case (Take k)
    obtain r d xs' ks' where sp: "spec_pop k (xs, ks) = (r, d, xs', ks')" by (metis prod_cases4)
    obtain dp' where "pop_propagate_data dp k = Some (r, d, dp')" "dp_rep dp' xs' ks'"
      using pop_rep[OF Cons.prems, of k] sp by auto
    with Cons.IH[OF this(2)] Take sp show ?thesis by (auto split: prod.splits)
  qed
qed auto

text \<open>C31: receive\_propagate\_data and pop\_propagate\_data, in any sequence, implement a queue of the
  last 64 inputs from which an input is taken by its picture index, with a memory of the last 64
  indices taken: the array block is never outgrown, so no allocation is ever made.\<close>

theorem propagate_refines:
  assumes "dp_rep dp xs ks"
  shows "\<exists>dp'. prop_run cs dp w = Some (fst (spec_run cs (xs, ks)), dp', w)
    \<and> dp_rep dp' (fst (snd (spec_run cs (xs, ks)))) (snd (snd (spec_run cs (xs, ks))))"
  by (rule prop_run_spec[OF assms])

text \<open>What the transition to idle makes of the fields.\<close>

definition dp_start :: propagation where
  "dp_start = \<lparr>dp_buf = \<lparr>pr_data = Some (replicate (input_cells MAX_TICK_COUNTS) zero_input),
       pr_capacity = MAX_TICK_COUNTS, pr_count = 0\<rparr>,
     dp_data = zero_input, dp_received = False, dp_oldest = 0, dp_prev = replicate 64 (-1), dp_pos = 0,
     dp_updated = False\<rparr>"

lemma dp_start_rep: "dp_rep dp_start [] (replicate 64 (-1))"
  by (simp add: dp_rep_def dp_start_def MAX_TICK_COUNTS_def input_cells_def ring_list_def)

definition input_at :: "64 word \<Rightarrow> omx_u32 \<Rightarrow> propagate_input" where
  "input_at ts k = zero_input\<lparr>pi_ts := ts, pi_picIndex := k\<rparr>"

theorem propagate_refines_witness:
  "\<exists>dp'. prop_run [Receive (input_at 40 0), Receive (input_at 80 1), Take 1, Take 0, Take 1, Take 2] dp_start (good_world 1)
    = Some ([(True, Some (input_at 80 1)), (True, Some (input_at 40 0)), (True, None), (False, None)], dp', good_world 1)"
  using propagate_refines[OF dp_start_rep, of "[Receive (input_at 40 0), Receive (input_at 80 1), Take 1, Take 0, Take 1, Take 2]" "good_world 1"]
  by (auto simp: spec_pop_def List.extract_def input_at_def)

text \<open>What a sequence of calls may do between receiving an input and taking it.\<close>

fun leaves :: "omx_u32 \<Rightarrow> prop_call \<Rightarrow> bool" where
  "leaves k (Receive d) = (pi_picIndex d \<noteq> k)"
| "leaves k (Take j) = (j \<noteq> k)"

fun receives :: "prop_call list \<Rightarrow> nat" where
  "receives [] = 0"
| "receives (Receive d # cs) = Suc (receives cs)"
| "receives (Take k # cs) = receives cs"

lemma spec_run_take: "snd (spec_run (Take k # cs) s) = snd (spec_run cs (snd (snd (spec_pop k s))))"
  by (auto split: prod.splits)

lemma split_two:
  assumes "ys @ d # zs = as @ e # bs" "d \<noteq> e"
  shows "\<exists>ys' zs'. as @ bs = ys' @ d # zs' \<and> set ys' \<subseteq> set ys \<and> length zs' \<le> length zs"
proof -
  from assms consider us where "ys = as @ e # us" "bs = us @ d # zs" | us where "as = ys @ d # us" "zs = us @ e # bs"
    by (auto simp: append_eq_append_conv2 append_eq_Cons_conv Cons_eq_append_conv)
  then show ?thesis
  proof cases
    case 1
    then show ?thesis by (intro exI[of _ "as @ us"] exI[of _ zs]) auto
  next
    case 2
    then show ?thesis by (intro exI[of _ ys] exI[of _ "us @ bs"]) auto
  qed
qed

lemma set_tlD: "x \<in> set (tl xs) \<Longrightarrow> x \<in> set xs"
  by (cases xs) auto

lemma spec_run_keeps:
  assumes "\<forall>c \<in> set cs. leaves (pi_picIndex d) c" "xs = ys @ d # zs" "length zs + receives cs < 64" "length xs \<le> 64"
    "\<forall>x \<in> set ys. pi_picIndex x \<noteq> pi_picIndex d"
  shows "\<exists>ys zs ks'. snd (spec_run cs (xs, ks)) = (ys @ d # zs, ks') \<and> (\<forall>x \<in> set ys. pi_picIndex x \<noteq> pi_picIndex d)"
  using assms
proof (induction cs arbitrary: xs ys zs ks)
  case (Cons c cs)
  show ?case
  proof (cases c)
    case (Receive e)
    let ?ys = "if length xs = 64 then tl ys else ys"
    have "spec_receive e xs = ?ys @ d # (zs @ [e])"
      using Cons.prems Receive by (cases ys) auto
    moreover have "length (spec_receive e xs) \<le> 64" "\<forall>x \<in> set ?ys. pi_picIndex x \<noteq> pi_picIndex d"
      using Cons.prems by (auto dest: set_tlD)
    ultimately show ?thesis
      using Cons.IH[of "spec_receive e xs" ?ys "zs @ [e]" ks] Cons.prems Receive by simp
  next
    case (Take k)
    then have k: "k \<noteq> pi_picIndex d" using Cons.prems(1) by simp
    show ?thesis
    proof (cases "List.extract (\<lambda>d. pi_picIndex d = k) xs")
      case None
      then have "snd (snd (spec_pop k (xs, ks))) = (xs, ks)" by (simp add: spec_pop_def)
      then show ?thesis using Cons.IH[OF _ Cons.prems(2), of ks] Cons.prems unfolding Take spec_run_take by simp
    next
      case (Some r)
      obtain as e bs where r: "r = (as, e, bs)" by (cases r)
      have e: "xs = as @ e # bs" "pi_picIndex e = k" using Some r by (auto simp: extract_Some_iff)
      then obtain ys' zs' where "as @ bs = ys' @ d # zs'" "set ys' \<subseteq> set ys" "length zs' \<le> length zs"
        using split_two[of ys d zs as e bs] Cons.prems(2) k by auto
      moreover have "length (as @ bs) \<le> 64" using e Cons.prems(4) by simp
      moreover have "\<forall>x \<in> set ys'. pi_picIndex x \<noteq> pi_picIndex d" using calculation(2) Cons.prems(5) by blast
      ultimately show ?thesis
        using Cons.IH[of "as @ bs" ys' zs' "tl ks @ [k]"] Cons.prems Take Some r
        unfolding Take spec_run_take by (auto simp: spec_pop_def)
    qed
  qed
qed auto

lemma spec_run_append:
  "spec_run (cs @ cs') s = (fst (spec_run cs s) @ fst (spec_run cs' (snd (spec_run cs s))), snd (spec_run cs' (snd (spec_run cs s))))"
  by (induction cs s rule: spec_run.induct) (auto split: prod.splits)

text \<open>C32: a picture gets the time stamp and the mark of its own input: an input taken by its index is
  the one received with it, whatever is received and taken in between, as long as fewer than 64
  further inputs are received and the index is used by no other.\<close>

theorem input_of_picture:
  assumes "dp_rep dp xs ks" "\<forall>x \<in> set xs. pi_picIndex x \<noteq> pi_picIndex d"
    "\<forall>c \<in> set cs. leaves (pi_picIndex d) c" "receives cs < 64"
  shows "\<exists>rs dp'. prop_run (Receive d # cs @ [Take (pi_picIndex d)]) dp w = Some (rs @ [(True, Some d)], dp', w)"
proof -
  let ?cs = "Receive d # cs @ [Take (pi_picIndex d)]" and ?ys = "if length xs = 64 then tl xs else xs"
  have "length xs \<le> 64" using assms(1) by (auto simp: dp_rep_def)
  then have "length (spec_receive d xs) \<le> 64" by auto
  moreover have "\<forall>x \<in> set ?ys. pi_picIndex x \<noteq> pi_picIndex d"
    using assms(2) by (auto dest: set_tlD)
  ultimately obtain ys zs ks' where k: "snd (spec_run cs (spec_receive d xs, ks)) = (ys @ d # zs, ks')"
      "\<forall>x \<in> set ys. pi_picIndex x \<noteq> pi_picIndex d"
    using spec_run_keeps[OF assms(3), of "spec_receive d xs" ?ys "[]" ks] assms(4) by auto
  have "List.extract (\<lambda>e. pi_picIndex e = pi_picIndex d) (ys @ d # zs) = Some (ys, d, zs)"
    using k(2) by (simp add: extract_Some_iff)
  then have "fst (spec_run ?cs (xs, ks)) = fst (spec_run cs (spec_receive d xs, ks)) @ [(True, Some d)]"
    using k(1) by (simp add: spec_run_append spec_pop_def)
  then show ?thesis using prop_run_spec[OF assms(1), of ?cs w] by auto
qed

theorem input_of_picture_witness:
  "\<exists>rs dp'. prop_run [Receive (input_at 40 0), Receive (input_at 80 1), Take 7, Take 0] dp_start (good_world 1)
    = Some (rs @ [(True, Some (input_at 40 0))], dp', good_world 1)"
  using input_of_picture[OF dp_start_rep, of "input_at 40 0" "[Receive (input_at 80 1), Take 7]" "good_world 1"]
  by (simp add: input_at_def)

definition mark_start :: mark_ring where
  "mark_start = \<lparr>mr_marks = replicate 10 \<lparr>mk_target = 0, mk_data = 0\<rparr>, mr_read = 0, mr_write = 0, mr_count = 0\<rparr>"

lemma mark_start_rep: "mark_rep mark_start []"
  by (simp add: mark_rep_def mark_start_def)

lemma mark_run_total:
  "mark_rep r xs \<Longrightarrow> \<exists>acc del r'. queue_run mark_push mark_pop cs r = Some (acc, del, r')"
proof (induction cs arbitrary: r xs)
  case (Cons c cs)
  show ?case
  proof (cases c)
    case (Push m)
    obtain r' xs' err where "mark_push m r = Some (err, r')" "mark_rep r' xs'"
      using mark_push_rep[OF Cons.prems, of m] by (auto simp: mark_push_def)
    with Cons.IH[OF this(2)] Push show ?thesis by auto
  next
    case Pop
    obtain r' d where "mark_pop r = Some (OMX_ErrorNone, d, r')" "mark_rep r' (tl xs)"
      using mark_pop_rep[OF Cons.prems] by (auto simp: mark_pop_def)
    with Cons.IH[OF this(2)] Pop show ?thesis by auto
  qed
qed simp

text \<open>C33: the marks that OMX\_CommandMarkBuffer queues are attached to output buffers in the order in
  which they were accepted; at most ten are waiting, and no access leaves the ring.\<close>

theorem marks_in_order:
  "\<exists>accepted taken waiting r. queue_run mark_push mark_pop calls mark_start = Some (accepted, taken, r)
    \<and> accepted = taken @ waiting \<and> length waiting \<le> 10 \<and> mr_count r = of_nat (length waiting)"
proof -
  obtain accepted taken r where q: "queue_run mark_push mark_pop calls mark_start = Some (accepted, taken, r)"
    using mark_run_total[OF mark_start_rep] by blast
  obtain waiting where "mark_rep r waiting" "accepted = taken @ waiting"
    using marks.run_order[OF mark_start_rep, of calls "length calls" accepted taken r] q by auto
  then show ?thesis using q by (auto simp: mark_rep_def)
qed

text \<open>flush\_propagate\_data empties the buffer and keeps the indices handed out.\<close>

lemma flush_inputs_length: "n \<le> length xs \<Longrightarrow> \<exists>ys. flush_inputs n xs = Some ys \<and> length ys = length xs"
proof (induction n arbitrary: xs)
  case (Suc n)
  then show ?case using Suc.IH[of "xs[n := zero_input]"] by (simp add: array_write_def)
qed simp

lemma flush_propagate_rep:
  assumes "dp_rep dp xs ks"
  shows "\<exists>dp'. flush_propagate_data dp = Some dp' \<and> dp_rep dp' [] ks"
proof -
  obtain cs where c: "pr_data (dp_buf dp) = Some cs" "64 \<le> length cs" "pr_count (dp_buf dp) = of_nat (length xs)"
    "length xs \<le> 64" using assms by (auto simp: dp_rep_def)
  show ?thesis
  proof (cases "pr_count (dp_buf dp) = 0")
    case True
    then have "length xs = 0" using c(3) unat_small[OF c(4)] by (metis unat_0)
    then show ?thesis using True assms by (simp add: flush_propagate_data_def)
  next
    case False
    obtain ys where "flush_inputs (length xs) cs = Some ys" "length ys = length cs"
      using flush_inputs_length[of "length xs" cs] c by auto
    then show ?thesis using assms False c unat_small[OF c(4)]
      by (auto simp: flush_propagate_data_def dp_rep_def)
  qed
qed

end
