(* ===== verification/Decoder.thy ===== *)
theory Decoder
  imports Port DecBuffers
begin

text \<open>
  The decoder component, source/decoder/decoder.c: its state, and the steps the component
  thread's command handlers are made of: returning and awaiting buffers, supplying the buffers of
  a tunnel, and creating a codec.

  What is outside the component is an argument, the record peer: what the tunnelled component
  answers to the n-th call, what other threads do to the decoder while the component thread
  sleeps, and what an uninitialised local holds, and
  the build options (image or video domain, the codings enabled). Calls to the application, the tunnelled component
  and the codec are logged in order. They are taken not to call back into the decoder. The
  mutexes of the decoder itself (statemutex, threadmutex, timemutex), whose results the code
  ignores, are left out.
\<close>

subsection \<open>State\<close>

text \<open>FRAME\_BUFFER\<close>

record frame_buffer =
  fb_bus_address :: addr
  fb_bus_data :: addr
  fb_capacity :: omx_u32
  fb_size :: omx_u32

definition zero_frame_buffer :: frame_buffer where
  "zero_frame_buffer = \<lparr>fb_bus_address = 0, fb_bus_data = 0, fb_capacity = 0, fb_size = 0\<rparr>"

text \<open>eCompressionFormat of a video or an image port, and eColorFormat\<close>

datatype omx_coding =
    CodingAVC | CodingH263 | CodingMPEG4 | CodingSORENSON | CodingDIVX | CodingDIVX3 | CodingRV
  | CodingWMV | CodingVP8 | CodingAVS | CodingVP6 | CodingMPEG2 | CodingMJPEG | CodingHEVC
  | CodingVP9 | CodingUnused | CodingJPEG | CodingWEBP | CodingOther nat

datatype omx_color =
    ColorYUV420Planar | ColorYUV420PackedPlanar | ColorYUV420SemiPlanar
  | ColorYUV420PackedSemiPlanar | ColorYCbYCr | ColorYCrYCb | ColorCbYCrY | ColorCrYCbY
  | ColorOther nat

text \<open>What the component calls on the outside.\<close>

datatype dec_call =
    EvError omx_errortype
  | EvStateSet omx_statetype
  | EvCmdComplete omx_commandtype omx_u32
  | EvMark addr
  | EmptyBufferDone addr omx_bufferheader
  | FillBufferDone addr omx_bufferheader "bool option"
  | PeerFillThisBuffer addr header_ptr
  | PeerEmptyThisBuffer addr header_ptr
  | PeerFreeBuffer addr header_ptr
  | CodecAbort | CodecAbortAfter | CodecDestroy

text \<open>OMX\_DECODER, with the fields of shared\_data (sh). The codec is its address; d\_mem are the
  blocks of the hardware memory allocator, d\_headers the headers that tunnelled components own.\<close>

record decoder = port_mem +
  d_state :: omx_statetype
  d_statetrans :: omx_statetype
  d_run :: bool
  d_self :: addr
  d_in :: port
  d_inpp :: port
  d_out :: port
  d_role :: string
  d_coding :: omx_coding
  d_color :: omx_color
  d_pp_width :: omx_u32
  d_pp_height :: omx_u32
  d_codec :: addr
  d_frame_in :: frame_buffer
  d_frame_out :: frame_buffer
  d_mask :: frame_buffer
  d_prop :: propagation
  d_marks :: mark_ring
  d_buffer :: addr
  d_prevBuffer :: addr
  d_portReconfigPending :: bool
  d_disablingOutPort :: bool
  d_flushingOutPort :: bool
  d_releaseBuffers :: bool
  d_checkExtraBuffers :: bool
  d_reallocAddress :: "64 word"
  d_outputBufList :: "omx_u32 list"
  d_outputBufListPrev :: "omx_u32 list"
  d_outputBufSize :: omx_u32
  sh_inbuff :: addr
  sh_EOS :: bool
  sh_hasFrame :: bool
  sh_output_thread :: bool
  sh_output_thread_run :: bool
  sh_eos_bus_address :: "64 word"
  d_mem :: "addr list"
  d_markmem :: "addr \<Rightarrow> omx_mark option"
  d_headers :: "addr \<Rightarrow> omx_bufferheader option"
  d_log :: "dec_call list"

datatype port_id = PIn | POut | PPp

fun port_of :: "port_id \<Rightarrow> decoder \<Rightarrow> port" where
  "port_of PIn d = d_in d"
| "port_of POut d = d_out d"
| "port_of PPp d = d_inpp d"

fun with_port :: "port_id \<Rightarrow> port \<Rightarrow> decoder \<Rightarrow> decoder" where
  "with_port PIn p d = d\<lparr>d_in := p\<rparr>"
| "with_port POut p d = d\<lparr>d_out := p\<rparr>"
| "with_port PPp p d = d\<lparr>d_inpp := p\<rparr>"

text \<open>An operation of port.c on a port of the decoder.\<close>

definition on_port ::
  "port_id \<Rightarrow> (port \<Rightarrow> decoder \<Rightarrow> ('a \<times> port \<times> decoder) option) \<Rightarrow> decoder \<Rightarrow> ('a \<times> decoder) option" where
  "on_port i f d = do {
     (a, p, d) \<leftarrow> f (port_of i d) d;
     Some (a, with_port i p d)
   }"

definition log_call :: "dec_call \<Rightarrow> decoder \<Rightarrow> decoder" where
  "log_call c d = d\<lparr>d_log := d_log d @ [c]\<rparr>"

record peer =
  pe_param :: "nat \<Rightarrow> omx_errortype \<times> omx_u32 \<times> omx_u32"
  pe_use :: "nat \<Rightarrow> omx_errortype \<times> (addr \<times> omx_bufferheader) option"
  pe_fill :: "nat \<Rightarrow> omx_errortype"
  pe_junk :: "nat \<Rightarrow> bool"
  pe_frm :: addr
  pe_image :: bool
  pe_codings :: "omx_coding list"
  pe_env :: "decoder \<Rightarrow> decoder"

definition PORT_INDEX_INPUT :: omx_u32 where "PORT_INDEX_INPUT = 0"
definition PORT_INDEX_OUTPUT :: omx_u32 where "PORT_INDEX_OUTPUT = 1"
definition PORT_INDEX_PP :: omx_u32 where "PORT_INDEX_PP = 2"
definition OMX_ALL :: omx_u32 where "OMX_ALL = 0xFFFFFFFF"
definition TIMEOUT :: omx_u32 where "TIMEOUT = 2000"

lemmas port_index_defs = PORT_INDEX_INPUT_def PORT_INDEX_OUTPUT_def PORT_INDEX_PP_def OMX_ALL_def

definition decoder_map_index_to_port :: "omx_u32 \<Rightarrow> port_id option" where
  "decoder_map_index_to_port portIndex =
     (if portIndex = PORT_INDEX_INPUT then Some PIn
      else if portIndex = PORT_INDEX_OUTPUT then Some POut
      else if portIndex = PORT_INDEX_PP then Some PPp else None)"

subsection \<open>Memory\<close>

text \<open>OSAL\_AllocatorAllocMem: the bus address is given as the same number as the data pointer.\<close>

definition alloc_mem :: "decoder \<Rightarrow> omx_errortype \<times> addr \<times> decoder" where
  "alloc_mem d =
     (case sys_malloc (\<lambda>p. p \<in> set (d_mem d)) d of (p, d) \<Rightarrow>
        if p = 0 then (OMX_ErrorInsufficientResources, 0, d)
        else (OMX_ErrorNone, p, d\<lparr>d_mem := p # d_mem d\<rparr>))"

definition free_mem :: "addr \<Rightarrow> decoder \<Rightarrow> decoder option" where
  "free_mem p d = (if p \<in> set (d_mem d) then Some (d\<lparr>d_mem := remove1 p (d_mem d)\<rparr>) else None)"

text \<open>Writing through a header pointer.\<close>

definition get_header :: "header_ptr \<Rightarrow> decoder \<Rightarrow> omx_bufferheader option" where
  "get_header h d =
     (case h of HNull \<Rightarrow> None | HOwn a \<Rightarrow> map_option b_headerdata (bufs d a) | HExt a \<Rightarrow> d_headers d a)"

definition set_header :: "header_ptr \<Rightarrow> omx_bufferheader \<Rightarrow> decoder \<Rightarrow> decoder option" where
  "set_header h x d =
     (case h of
        HNull \<Rightarrow> None
      | HOwn a \<Rightarrow> map_option (\<lambda>b. d\<lparr>bufs := (bufs d)(a \<mapsto> b\<lparr>b_headerdata := x\<rparr>)\<rparr>) (bufs d a)
      | HExt a \<Rightarrow> if d_headers d a = None then None else Some (d\<lparr>d_headers := (d_headers d)(a \<mapsto> x)\<rparr>))"

subsection \<open>Waiting\<close>

text \<open>while (cond) OSAL\_ThreadSleep(RETRY\_INTERVAL), with the other threads at work during the sleep;
  None if the condition never ends.\<close>

partial_function (option) wait_while ::
  "(decoder \<Rightarrow> (bool \<times> decoder) option) \<Rightarrow> (decoder \<Rightarrow> decoder) \<Rightarrow> decoder \<Rightarrow> decoder option" where
  "wait_while cond env d = do {
     (c, d) \<leftarrow> cond d;
     if c then wait_while cond env (env d) else Some d
   }"

definition async_decoder_wait_port_buffer_dealloc :: "peer \<Rightarrow> port_id \<Rightarrow> decoder \<Rightarrow> decoder option" where
  "async_decoder_wait_port_buffer_dealloc pe i = wait_while (on_port i port_has_buffers) (pe_env pe)"

text \<open>The condition of the loop of wait\_supplied\_buffers: some buffer is still out.\<close>

definition buffers_out :: "port_id \<Rightarrow> decoder \<Rightarrow> (bool \<times> decoder) option" where
  "buffers_out i d = do {
     (_, d) \<leftarrow> on_port i port_lock_buffers d;
     let queued = port_buffer_queue_count (port_of i d) + (if i = POut \<and> d_buffer d \<noteq> 0 then 1 else 0);
     let loop = (port_buffer_count (port_of i d) \<noteq> queued);
     (_, d) \<leftarrow> on_port i port_unlock_buffers d;
     Some (loop, d)
   }"

definition wait_supplied_buffers :: "peer \<Rightarrow> port_id \<Rightarrow> decoder \<Rightarrow> decoder option" where
  "wait_supplied_buffers pe i d =
     (if \<not> port_is_supplier (port_of i d) then Some d else wait_while (buffers_out i) (pe_env pe) d)"

text \<open>OSAL\_EventWait(p-\<open>>\<close>bufferRdy, TIMEOUT, \&timeout), the local timeout uninitialised.\<close>

definition wait_ready :: "peer \<Rightarrow> port_id \<Rightarrow> decoder \<Rightarrow> (bool \<times> decoder) option" where
  "wait_ready pe i d = do {
     let junk = pe_junk pe (w_now d);
     let d = pe_env pe d;
     (_, timeout, d) \<leftarrow> OSAL_EventWait (p_bufferRdy (port_of i d)) TIMEOUT junk d;
     Some (timeout, d)
   }"

subsection \<open>Returning buffers\<close>

text \<open>One turn of the loop over the queue: clear the header of an output buffer, and give the
  buffer back to the tunnelled component or to the application.\<close>

definition clear_output_header :: "peer \<Rightarrow> decoder \<Rightarrow> omx_bufferheader \<Rightarrow> omx_bufferheader" where
  "clear_output_header pe d h = h\<lparr>
     pOutputPortPrivate := (if d_reallocAddress d \<noteq> 0 then pe_frm pe else 0),
     nFilledLen := 0, nOffset := 0, nTimeStamp := 0, hMarkTargetComponent := 0, pMarkData := 0,
     nFlags := nFlags h AND NOT 1\<rparr>"

definition return_buffer :: "peer \<Rightarrow> port_id \<Rightarrow> addr \<Rightarrow> decoder \<Rightarrow> decoder option" where
  "return_buffer pe i buff d = do {
     b \<leftarrow> bufs d buff;
     let p = port_of i d;
     let dir = eDir (p_def p);
     d \<leftarrow> (if dir = OMX_DirOutput then do {
            h \<leftarrow> get_header (b_header b) d;
            set_header (b_header b) (clear_output_header pe d h) d
          } else Some d);
     if port_is_tunneled p then
       (if b_header b \<noteq> HOwn buff then None
        else Some (log_call (if dir = OMX_DirInput then PeerFillThisBuffer (p_tunnelcomp p) (b_header b)
                             else PeerEmptyThisBuffer (p_tunnelcomp p) (b_header b)) d))
     else do {
       h \<leftarrow> get_header (b_header b) d;
       Some (log_call (if dir = OMX_DirInput then EmptyBufferDone buff h
                       else FillBufferDone buff h (if d_reallocAddress d \<noteq> 0
                         then Some (d_reallocAddress d = b_bus_address b) else None)) d)
     }
   }"

text \<open>for (i = 0; i \<open><\<close> count; ++i), from index k on in n turns\<close>

fun return_loop :: "peer \<Rightarrow> port_id \<Rightarrow> omx_u32 \<Rightarrow> nat \<Rightarrow> decoder \<Rightarrow> decoder option" where
  "return_loop pe i k 0 d = Some d"
| "return_loop pe i k (Suc n) d = do {
     (_, buff) \<leftarrow> port_get_buffer_at (port_of i d) k;
     d \<leftarrow> (if buff = 0 then None else return_buffer pe i buff d);
     return_loop pe i (k + 1) n d
   }"

text \<open>The held input buffer\<close>

definition return_prev_buffer :: "decoder \<Rightarrow> decoder option" where
  "return_prev_buffer d =
     (if d_prevBuffer d = 0 then Some d
      else do {
        b \<leftarrow> bufs d (d_prevBuffer d);
        h \<leftarrow> get_header (b_header b) d;
        d \<leftarrow> (if hMarkTargetComponent h = d_self d then
               set_header (b_header b) (h\<lparr>hMarkTargetComponent := 0, pMarkData := 0\<rparr>)
                 (log_call (EvMark (pMarkData h)) d)
             else Some d);
        h \<leftarrow> get_header (b_header b) d;
        let d = log_call (if port_is_tunneled (d_in d) then PeerFillThisBuffer (p_tunnelcomp (d_in d)) (b_header b)
                          else EmptyBufferDone (d_prevBuffer d) h) d;
        Some (d\<lparr>d_prevBuffer := 0\<rparr>)
      })"

text \<open>memset of prevPicIdList, propagateData and propagateDataReceived\<close>

definition reset_propagation :: "propagation \<Rightarrow> propagation" where
  "reset_propagation dp = dp\<lparr>dp_prev := replicate 64 (-1), dp_data := zero_input, dp_received := False\<rparr>"

definition async_decoder_return_buffers :: "peer \<Rightarrow> port_id \<Rightarrow> decoder \<Rightarrow> (omx_errortype \<times> decoder) option" where
  "async_decoder_return_buffers pe i d =
     (if port_is_supplier (port_of i d) then Some (OMX_ErrorNone, d)
      else do {
        d \<leftarrow> (if eDir (p_def (port_of i d)) = OMX_DirOutput
             then map_option (\<lambda>d. d\<lparr>sh_hasFrame := True\<rparr>) (wait_while (\<lambda>d. Some (sh_hasFrame d, d)) (pe_env pe) d)
             else Some d);
        (err, d) \<leftarrow> on_port i port_lock_buffers d;
        if err \<noteq> OMX_ErrorNone then Some (err, d)
        else do {
          d \<leftarrow> return_loop pe i 0 (unat (port_buffer_queue_count (port_of i d))) d;
          d \<leftarrow> return_prev_buffer d;
          d \<leftarrow> (if eDir (p_def (port_of i d)) = OMX_DirInput
               then map_option (\<lambda>dp. d\<lparr>d_prop := reset_propagation dp\<rparr>) (flush_propagate_data (d_prop d))
               else Some d);
          (_, d) \<leftarrow> on_port i (\<lambda>p d. map_option (Pair ()) (port_buffer_queue_clear p d)) d;
          (_, d) \<leftarrow> on_port i port_unlock_buffers d;
          Some (OMX_ErrorNone, d)
        }
      })"


subsection \<open>Supplying the buffers of a tunnel\<close>

text \<open>One turn of the loop of supply\_tunneled\_port. The truth value says that it jumps to FAIL.\<close>

definition supply_buffer :: "peer \<Rightarrow> port_id \<Rightarrow> omx_u32 \<Rightarrow> decoder \<Rightarrow> (bool \<times> omx_errortype \<times> decoder) option" where
  "supply_buffer pe i bsize d =
     (case alloc_mem d of (err, mem, d) \<Rightarrow>
        if err \<noteq> OMX_ErrorNone then Some (True, err, d)
        else do {
          ((_, buff), d) \<leftarrow> on_port i (\<lambda>p d. map_option (\<lambda>(r, b, p, d). ((r, b), p, d)) (port_allocate_next_buffer p d)) d;
          if buff = 0 then do {
            d \<leftarrow> free_mem mem d;
            Some (True, err, d)
          } else do {
            b \<leftarrow> bufs d buff;
            let b = b\<lparr>b_flags := b_flags b OR BUFFER_FLAG_MY_BUFFER, b_bus_data := mem,
                      b_bus_address := of_nat mem, b_allocsize := bsize, b_header := HNull,
                      b_headerdata := (b_headerdata b)\<lparr>pBuffer := mem, pAppPrivate := 0, nAllocLen := bsize\<rparr>\<rparr>;
            let (err, hd) = pe_use pe (w_now d);
            let d = tick d;
            let (b, d) = (case hd of None \<Rightarrow> (b, d)
                | Some (a, h) \<Rightarrow> (b\<lparr>b_header := HExt a\<rparr>, d\<lparr>d_headers := (d_headers d)(a \<mapsto> h)\<rparr>));
            let d = d\<lparr>bufs := (bufs d)(buff \<mapsto> b)\<rparr>;
            if err \<noteq> OMX_ErrorNone then Some (True, err, d)
            else (case hd of
                None \<Rightarrow> None
              | Some (a, h) \<Rightarrow>
                  if a = 0 \<or> nVersion h = 0 \<or> nAllocLen h = 0 then None else Some (False, err, d))
          }
        })"

fun supply_loop :: "peer \<Rightarrow> port_id \<Rightarrow> omx_u32 \<Rightarrow> nat \<Rightarrow> decoder \<Rightarrow> (bool \<times> omx_errortype \<times> decoder) option" where
  "supply_loop pe i bsize 0 d = Some (False, OMX_ErrorNone, d)"
| "supply_loop pe i bsize (Suc n) d = do {
     (failed, err, d) \<leftarrow> supply_buffer pe i bsize d;
     if failed then Some (True, err, d) else supply_loop pe i bsize n d
   }"

text \<open>The loop that frees the buffers of a supplied port, from index k on in n turns. At the label
  FAIL a null header is skipped; unsupply\_tunneled\_port passes it on.\<close>

fun free_supplied :: "bool \<Rightarrow> port_id \<Rightarrow> omx_u32 \<Rightarrow> nat \<Rightarrow> decoder \<Rightarrow> decoder option" where
  "free_supplied skip i k 0 d = Some d"
| "free_supplied skip i k (Suc n) d = do {
     (_, buff) \<leftarrow> port_get_allocated_buffer_at (port_of i d) k;
     b \<leftarrow> bufs d buff;
     if b_bus_data b = 0 \<or> b_bus_address b = 0 \<or> (\<not> skip \<and> b_header b = HOwn buff) then None
     else do {
       let d = (if skip \<and> b_header b = HNull then d
                else log_call (PeerFreeBuffer (p_tunnelcomp (port_of i d)) (b_header b)) d);
       d \<leftarrow> free_mem (b_bus_data b) d;
       free_supplied skip i (k + 1) n d
     }
   }"

definition release_supplied :: "bool \<Rightarrow> port_id \<Rightarrow> decoder \<Rightarrow> decoder option" where
  "release_supplied skip i d = do {
     d \<leftarrow> free_supplied skip i 0 (unat (port_buffer_count (port_of i d))) d;
     (_, d) \<leftarrow> on_port i port_release_all_allocated d;
     Some d
   }"

definition supply_tunneled_port :: "peer \<Rightarrow> port_id \<Rightarrow> decoder \<Rightarrow> (omx_errortype \<times> decoder) option" where
  "supply_tunneled_port pe i d =
     (if p_tunnelcomp (port_of i d) = 0 then None
      else case pe_param pe (w_now d) of (err, pcount, psize) \<Rightarrow>
        let d = tick d; df = p_def (port_of i d)
        in if err \<noteq> OMX_ErrorNone then Some (err, d)
           else do {
             (failed, err, d) \<leftarrow> supply_loop pe i (max psize (nBufferSize df))
                (unat (max pcount (nBufferCountActual df))) d;
             if failed then map_option (Pair err) (release_supplied True i d)
             else if port_buffer_count (port_of i d) < nBufferCountActual (p_def (port_of i d)) then None
             else do {
               let p = port_of i d;
               let p = p\<lparr>p_def := (p_def p)\<lparr>bPopulated := True\<rparr>\<rparr>;
               (err, e, d) \<leftarrow> OSAL_EventSet (p_bufferRdy p) d;
               Some (err, with_port i (p\<lparr>p_bufferRdy := e\<rparr>) d)
             }
           })"

partial_function (option) pop_all :: "port_id \<Rightarrow> decoder \<Rightarrow> decoder option" where
  "pop_all i d = do {
     (loop, d) \<leftarrow> on_port i port_pop_buffer d;
     if loop then pop_all i d else Some d
   }"

definition unsupply_tunneled_port :: "port_id \<Rightarrow> decoder \<Rightarrow> (omx_errortype \<times> decoder) option" where
  "unsupply_tunneled_port i d =
     (if p_tunnelcomp (port_of i d) = 0 then None
      else do {
        d \<leftarrow> release_supplied False i d;
        let p = port_of i d;
        let p = p\<lparr>p_def := (p_def p)\<lparr>bPopulated := False\<rparr>\<rparr>;
        (err, e, d) \<leftarrow> OSAL_EventReset (p_bufferRdy p) d;
        let d = with_port i (p\<lparr>p_bufferRdy := e\<rparr>) d;
        if err \<noteq> OMX_ErrorNone then Some (err, d)
        else do {
          d \<leftarrow> pop_all i d;
          Some (OMX_ErrorNone, if i = POut then d\<lparr>d_buffer := 0\<rparr> else d)
        }
      })"

text \<open>The two loops of startup\_tunnel: the output port queues its buffers, an input port asks the
  tunnelled component to fill them.\<close>

fun startup_output :: "port_id \<Rightarrow> omx_u32 \<Rightarrow> nat \<Rightarrow> decoder \<Rightarrow> decoder option" where
  "startup_output i k 0 d = Some d"
| "startup_output i k (Suc n) d = do {
     (_, buff) \<leftarrow> port_get_allocated_buffer_at (port_of i d) k;
     (_, d) \<leftarrow> on_port i (\<lambda>p d. port_push_buffer p buff d) d;
     startup_output i (k + 1) n d
   }"

fun startup_input :: "peer \<Rightarrow> port_id \<Rightarrow> omx_u32 \<Rightarrow> nat \<Rightarrow> decoder \<Rightarrow> (omx_errortype \<times> decoder) option" where
  "startup_input pe i k 0 d = Some (OMX_ErrorNone, d)"
| "startup_input pe i k (Suc n) d = do {
     (_, buff) \<leftarrow> port_get_allocated_buffer_at (port_of i d) k;
     b \<leftarrow> bufs d buff;
     if b_header b = HOwn buff then None
     else
       let err = pe_fill pe (w_now d);
           d = tick (log_call (PeerFillThisBuffer (p_tunnelcomp (port_of i d)) (b_header b)) d)
       in if err \<noteq> OMX_ErrorNone then Some (err, d) else startup_input pe i (k + 1) n d
   }"

definition startup_tunnel :: "peer \<Rightarrow> port_id \<Rightarrow> decoder \<Rightarrow> (omx_errortype \<times> decoder) option" where
  "startup_tunnel pe i d =
     (let p = port_of i d; n = unat (port_buffer_count p)
      in if port_is_enabled p \<and> port_is_supplier p then
           (if i = POut then map_option (Pair OMX_ErrorNone) (startup_output i 0 n d)
            else startup_input pe i 0 n d)
         else Some (OMX_ErrorNone, d))"

subsection \<open>Creating a codec\<close>

text \<open>The role each coding stands for, in the video and in the image domain.\<close>

fun video_role :: "omx_coding \<Rightarrow> string option" where
  "video_role CodingAVC = Some ''video_decoder.avc''"
| "video_role CodingH263 = Some ''video_decoder.h263''"
| "video_role CodingMPEG4 = Some ''video_decoder.mpeg4''"
| "video_role CodingSORENSON = Some ''video_decoder.mpeg4''"
| "video_role CodingDIVX = Some ''video_decoder.mpeg4''"
| "video_role CodingDIVX3 = Some ''video_decoder.mpeg4''"
| "video_role CodingRV = Some ''video_decoder.rv''"
| "video_role CodingWMV = Some ''video_decoder.wmv''"
| "video_role CodingVP8 = Some ''video_decoder.vp8''"
| "video_role CodingAVS = Some ''video_decoder.avs''"
| "video_role CodingVP6 = Some ''video_decoder.vp6''"
| "video_role CodingMPEG2 = Some ''video_decoder.mpeg2''"
| "video_role CodingMJPEG = Some ''video_decoder.jpeg''"
| "video_role CodingHEVC = Some ''video_decoder.hevc''"
| "video_role CodingVP9 = Some ''video_decoder.vp9''"
| "video_role CodingUnused = Some ''video_decoder.pp''"
| "video_role _ = None"

fun image_role :: "omx_coding \<Rightarrow> string option" where
  "image_role CodingJPEG = Some ''image_decoder.jpeg''"
| "image_role CodingWEBP = Some ''image_decoder.webp''"
| "image_role _ = None"

fun pp_color :: "omx_color \<Rightarrow> bool" where
  "pp_color (ColorOther n) = False"
| "pp_color _ = True"

text \<open>The switches over the compression format. The constructor of the codec may return null; err
  is left alone then.\<close>

definition create_codec :: "peer \<Rightarrow> omx_errortype \<Rightarrow> decoder \<Rightarrow> omx_errortype \<times> decoder" where
  "create_codec pe err d =
     (let c = d_coding d;
          role = (if pe_image pe then image_role c else video_role c);
          known = (c \<in> set (pe_codings pe) \<and> (if c = CodingUnused then pp_color (d_color d) else role \<noteq> None))
      in if \<not> known then (OMX_ErrorUnsupportedSetting, d)
         else (case sys_malloc (\<lambda>_. False) d of (codec, d) \<Rightarrow>
           (err, d\<lparr>d_role := (case role of None \<Rightarrow> d_role d | Some r \<Rightarrow> r), d_codec := codec\<rparr>)))"

end
