(* ===== verification/Msgque.thy ===== *)
theory Msgque
  imports Osal Fifo
begin

text \<open>
  The message queue, source/msgque.c: a doubly linked list of heap nodes that is pushed
  at the tail and taken from the head, with a size, a mutex, and an event that is set
  while the queue is not empty.

  Nodes and the data they point to are heap blocks. Reading or freeing a block that is
  not live is the value None, and so is a failed assertion.
\<close>

subsection \<open>State\<close>

record msg_node =
  mn_next :: addr
  mn_prev :: addr
  mn_data :: addr

text \<open>The part of the heap the queue works on: its nodes, and the blocks that data
  pointers point to (of type 'd, owned by whoever pushed them).\<close>

record 'd msg_heap = world +
  nodes :: "addr \<Rightarrow> msg_node option"
  items :: "addr \<Rightarrow> 'd option"

record msgque =
  q_head :: addr
  q_tail :: addr
  q_size :: omx_u32
  q_mutex :: "osal_mutex option"
  q_event :: "osal_event option"

definition live :: "'d msg_heap \<Rightarrow> addr \<Rightarrow> bool" where
  "live h p = (nodes h p \<noteq> None \<or> items h p \<noteq> None)"

definition free_node :: "addr \<Rightarrow> 'd msg_heap \<Rightarrow> 'd msg_heap option" where
  "free_node p h = (if nodes h p = None then None else Some (h\<lparr>nodes := (nodes h)(p := None)\<rparr>))"

definition free_item :: "addr \<Rightarrow> 'd msg_heap \<Rightarrow> 'd msg_heap option" where
  "free_item p h = (if items h p = None then None else Some (h\<lparr>items := (items h)(p := None)\<rparr>))"

subsection \<open>Operations\<close>

text \<open>pAttr is the static state of OSAL\_MutexCreate.\<close>

definition msgque_init ::
  "bool \<Rightarrow> 'd msg_heap \<Rightarrow> omx_errortype \<times> bool \<times> msgque \<times> 'd msg_heap" where
  "msgque_init pAttr h =
     (case OSAL_MutexCreate pAttr h of (err, pAttr, m, h) \<Rightarrow>
        let q = \<lparr>q_head = 0, q_tail = 0, q_size = 0, q_mutex = m, q_event = None\<rparr>
        in if err \<noteq> OMX_ErrorNone then (err, pAttr, q, h)
           else (case OSAL_EventCreate h of (err, e, h) \<Rightarrow>
             let q = q\<lparr>q_event := e\<rparr>
             in if err \<noteq> OMX_ErrorNone then
                  (case OSAL_MutexDestroy (q_mutex q) h of (_, m, h) \<Rightarrow>
                     (err, pAttr, q\<lparr>q_mutex := m\<rparr>, h))
                else (err, pAttr, q, h)))"

text \<open>The loop of HantroOmx\_msgque\_destroy: free the data and the node at the tail, then
  go to the node its next field names.\<close>

partial_function (option) msgque_destroy_loop ::
  "addr \<Rightarrow> 'd msg_heap \<Rightarrow> 'd msg_heap option" where
  "msgque_destroy_loop tail h =
     (if tail = 0 then Some h
      else Option.bind (nodes h tail) (\<lambda>n.
           Option.bind (free_item (mn_data n) h) (\<lambda>h.
           Option.bind (free_node tail h) (\<lambda>h.
           msgque_destroy_loop (mn_next n) h))))"

definition msgque_destroy :: "msgque \<Rightarrow> 'd msg_heap \<Rightarrow> (msgque \<times> 'd msg_heap) option" where
  "msgque_destroy q h = do {
     (err, m, h) \<leftarrow> OSAL_MutexLock (q_mutex q) h;
     if err \<noteq> OMX_ErrorNone then None
     else do {
       h \<leftarrow> msgque_destroy_loop (q_tail q) h;
       (err, m, h) \<leftarrow> OSAL_MutexUnlock m h;
       if err \<noteq> OMX_ErrorNone then None
       else (case OSAL_MutexDestroy m h of (err, m, h) \<Rightarrow>
         if err \<noteq> OMX_ErrorNone then None
         else do {
           (err, e, h) \<leftarrow> OSAL_EventDestroy (q_event q) h;
           if err \<noteq> OMX_ErrorNone then None
           else Some (q\<lparr>q_tail := 0, q_mutex := m, q_event := e\<rparr>, h)
         })
     }
   }"

text \<open>
  HantroOmx\_msgque\_push\_back in the two steps another thread can come between: the new
  node is allocated and linked to q->tail before the mutex is taken; the rest runs under
  the mutex.
\<close>

definition push_back_prepare ::
  "msgque \<Rightarrow> addr \<Rightarrow> 'd msg_heap \<Rightarrow> (addr \<times> 'd msg_heap) option" where
  "push_back_prepare q ptr h =
     (if ptr = 0 then None
      else (case sys_malloc (live h) h of (tail, h) \<Rightarrow>
        if tail = 0 then Some (0, h)
        else Some (tail, h\<lparr>nodes := (nodes h)(tail \<mapsto>
               \<lparr>mn_next = q_tail q, mn_prev = 0, mn_data = ptr\<rparr>)\<rparr>)))"

definition push_back_link :: "msgque \<Rightarrow> addr \<Rightarrow> 'd msg_heap \<Rightarrow> (msgque \<times> 'd msg_heap) option" where
  "push_back_link q tail h = do {
     h \<leftarrow> (if q_tail q = 0 then Some h
          else Option.bind (nodes h (q_tail q)) (\<lambda>n.
                 Some (h\<lparr>nodes := (nodes h)(q_tail q \<mapsto> n\<lparr>mn_prev := tail\<rparr>)\<rparr>)));
     let q = q\<lparr>q_size := q_size q + 1, q_tail := tail\<rparr>;
     Some (if q_head q = 0 then q\<lparr>q_head := q_tail q\<rparr> else q, h)
   }"

text \<open>The signal is set first, since linking the node cannot fail.\<close>

definition push_back_signal ::
  "msgque \<Rightarrow> 'd msg_heap \<Rightarrow> (omx_errortype \<times> osal_event option \<times> 'd msg_heap) option" where
  "push_back_signal q h =
     (if q_size q = 0 then OSAL_EventSet (q_event q) h
      else Some (OMX_ErrorNone, q_event q, h))"

definition push_back_commit ::
  "msgque \<Rightarrow> addr \<Rightarrow> 'd msg_heap \<Rightarrow> (omx_errortype \<times> msgque \<times> 'd msg_heap) option" where
  "push_back_commit q tail h = do {
     (err, m, h) \<leftarrow> OSAL_MutexLock (q_mutex q) h;
     let q = q\<lparr>q_mutex := m\<rparr>;
     if err \<noteq> OMX_ErrorNone then do {
       h \<leftarrow> free_node tail h;
       Some (err, q, h)
     } else do {
       (err, e, h) \<leftarrow> push_back_signal q h;
       let q = q\<lparr>q_event := e\<rparr>;
       if err \<noteq> OMX_ErrorNone then do {
         (_, m, h) \<leftarrow> OSAL_MutexUnlock (q_mutex q) h;
         Some (err, q\<lparr>q_mutex := m\<rparr>, h)
       } else do {
         (q, h) \<leftarrow> push_back_link q tail h;
         (err, m, h) \<leftarrow> OSAL_MutexUnlock (q_mutex q) h;
         if err \<noteq> OMX_ErrorNone then None
         else Some (OMX_ErrorNone, q\<lparr>q_mutex := m\<rparr>, h)
       }
     }
   }"

definition msgque_push_back ::
  "msgque \<Rightarrow> addr \<Rightarrow> 'd msg_heap \<Rightarrow> (omx_errortype \<times> msgque \<times> 'd msg_heap) option" where
  "msgque_push_back q ptr h = do {
     (tail, h) \<leftarrow> push_back_prepare q ptr h;
     if tail = 0 then Some (OMX_ErrorInsufficientResources, q, h)
     else push_back_commit q tail h
   }"

text \<open>Taking the first node off the list; the result pairs its data with the new state.\<close>

definition get_front_unlink ::
  "msgque \<Rightarrow> 'd msg_heap \<Rightarrow> (addr \<times> msgque \<times> 'd msg_heap) option" where
  "get_front_unlink q h = do {
     n \<leftarrow> nodes h (q_head q);
     let head = q_head q;
     let q = q\<lparr>q_head := mn_prev n, q_size := q_size q - 1\<rparr>;
     if q_head q \<noteq> 0 then do {
       n' \<leftarrow> nodes h (q_head q);
       h \<leftarrow> free_node head (h\<lparr>nodes := (nodes h)(q_head q \<mapsto> n'\<lparr>mn_next := 0\<rparr>)\<rparr>);
       Some (mn_data n, q, h)
     } else do {
       h \<leftarrow> free_node head h;
       Some (mn_data n, q\<lparr>q_tail := 0\<rparr>, h)
     }
   }"

definition get_front_signal ::
  "msgque \<Rightarrow> 'd msg_heap \<Rightarrow> (omx_errortype \<times> osal_event option \<times> 'd msg_heap) option" where
  "get_front_signal q h =
     (if q_size q - 1 = 0 then OSAL_EventReset (q_event q) h
      else Some (OMX_ErrorNone, q_event q, h))"

definition get_front_take ::
  "msgque \<Rightarrow> 'd msg_heap \<Rightarrow> (addr \<times> msgque \<times> 'd msg_heap) option" where
  "get_front_take q h =
     (if q_size q = 0 then
        (if q_head q \<noteq> 0 \<or> q_tail q \<noteq> 0 then None else Some (0, q, h))
      else get_front_unlink q h)"

text \<open>HantroOmx\_msgque\_get\_front; ptr is the value of *ptr on entry, the address in the
  result its value on return.\<close>

definition msgque_get_front ::
  "msgque \<Rightarrow> addr \<Rightarrow> 'd msg_heap \<Rightarrow> (omx_errortype \<times> addr \<times> msgque \<times> 'd msg_heap) option" where
  "msgque_get_front q ptr h = do {
     (err, m, h) \<leftarrow> OSAL_MutexLock (q_mutex q) h;
     let q = q\<lparr>q_mutex := m\<rparr>;
     if err \<noteq> OMX_ErrorNone then Some (err, ptr, q, h)
     else do {
       (err, e, h) \<leftarrow> get_front_signal q h;
       let q = q\<lparr>q_event := e\<rparr>;
       if err \<noteq> OMX_ErrorNone then do {
         (_, m, h) \<leftarrow> OSAL_MutexUnlock (q_mutex q) h;
         Some (err, ptr, q\<lparr>q_mutex := m\<rparr>, h)
       } else do {
         (ptr, q, h) \<leftarrow> get_front_take q h;
         (err, m, h) \<leftarrow> OSAL_MutexUnlock (q_mutex q) h;
         if err \<noteq> OMX_ErrorNone then None
         else Some (OMX_ErrorNone, ptr, q\<lparr>q_mutex := m\<rparr>, h)
       }
     }
   }"

definition msgque_get_size ::
  "msgque \<Rightarrow> omx_u32 \<Rightarrow> 'd msg_heap \<Rightarrow> (omx_errortype \<times> omx_u32 \<times> msgque \<times> 'd msg_heap) option" where
  "msgque_get_size q sz h = do {
     (err, m, h) \<leftarrow> OSAL_MutexLock (q_mutex q) h;
     let q = q\<lparr>q_mutex := m\<rparr>;
     if err \<noteq> OMX_ErrorNone then Some (err, sz, q, h)
     else do {
       (err, m, h) \<leftarrow> OSAL_MutexUnlock (q_mutex q) h;
       if err \<noteq> OMX_ErrorNone then None
       else Some (OMX_ErrorNone, q_size q, q\<lparr>q_mutex := m\<rparr>, h)
     }
   }"

subsection \<open>Linked lists in the heap\<close>

lemma later_heap [simp]:
  "later h h' \<Longrightarrow> nodes h' = nodes h" "later h h' \<Longrightarrow> items h' = items h"
  by (auto simp: later_def)

text \<open>links nd nx ns: the nodes ns, front first, are linked both ways in the heap nd; nx is
  the next field of the front node.\<close>

fun links :: "(addr \<Rightarrow> msg_node option) \<Rightarrow> addr \<Rightarrow> addr list \<Rightarrow> bool" where
  "links nd nx [] = True"
| "links nd nx (n # ns) =
     (n \<noteq> 0 \<and> (case nd n of None \<Rightarrow> False
                | Some x \<Rightarrow> mn_next x = nx \<and> mn_prev x = (if ns = [] then 0 else hd ns))
      \<and> links nd n ns)"

lemma links_cong: "(\<forall>n \<in> set ns. nd' n = nd n) \<Longrightarrow> links nd' nx ns = links nd nx ns"
  by (induction ns arbitrary: nx) auto

lemma links_live: "links nd nx ns \<Longrightarrow> n \<in> set ns \<Longrightarrow> n \<noteq> 0 \<and> nd n \<noteq> None"
  by (induction ns arbitrary: nx) (auto split: option.splits)

lemma links_append:
  assumes "links nd nx ns" "distinct ns" "n \<notin> set ns" "n \<noteq> 0"
    "nd' n = Some \<lparr>mn_next = (if ns = [] then nx else last ns), mn_prev = 0, mn_data = d\<rparr>"
    "ns \<noteq> [] \<Longrightarrow> nd' (last ns) = Some ((the (nd (last ns)))\<lparr>mn_prev := n\<rparr>)"
    "\<forall>m \<in> set (butlast ns). nd' m = nd m"
  shows "links nd' nx (ns @ [n])"
  using assms
proof (induction ns arbitrary: nx)
  case (Cons a ns)
  show ?case
  proof (cases "ns = []")
    case True
    with Cons.prems show ?thesis by (auto split: option.splits)
  next
    case False
    with Cons show ?thesis by (auto split: option.splits)
  qed
qed simp

lemma links_pop:
  assumes "links nd nx (n # m # ns)" "distinct (n # m # ns)"
  shows "links (nd(m \<mapsto> (the (nd m))\<lparr>mn_next := 0\<rparr>, n := None)) 0 (m # ns)"
proof -
  have "links nd m ns" using assms by (auto split: option.splits)
  then have "links (nd(m \<mapsto> (the (nd m))\<lparr>mn_next := 0\<rparr>, n := None)) m ns"
    by (subst links_cong[where nd = nd]) (use assms in auto)
  with assms show ?thesis by (auto split: option.splits)
qed

text \<open>The chain the destroy loop follows, from the tail.\<close>

fun nexts :: "(addr \<Rightarrow> msg_node option) \<Rightarrow> addr list \<Rightarrow> bool" where
  "nexts nd [] = True"
| "nexts nd (n # ns) =
     (n \<noteq> 0 \<and> (case nd n of None \<Rightarrow> False | Some x \<Rightarrow> mn_next x = (if ns = [] then 0 else hd ns))
      \<and> nexts nd ns)"

lemma nexts_cong: "(\<forall>n \<in> set ns. nd' n = nd n) \<Longrightarrow> nexts nd' ns = nexts nd ns"
  by (induction ns) auto

lemma links_nexts: "links nd nx ns \<Longrightarrow> ns \<noteq> [] \<Longrightarrow>
   nexts nd ms \<Longrightarrow> nx = (if ms = [] then 0 else hd ms) \<Longrightarrow> nexts nd (rev ns @ ms)"
  by (induction ns arbitrary: nx ms) (auto split: option.splits if_splits)

lemma destroy_loop_frees:
  assumes "nexts (nodes h) ns" "distinct ns"
    "distinct (map (\<lambda>n. mn_data (the (nodes h n))) ns)"
    "\<forall>n \<in> set ns. items h (mn_data (the (nodes h n))) \<noteq> None"
  shows "msgque_destroy_loop (if ns = [] then 0 else hd ns) h =
     Some (h\<lparr>nodes := (nodes h) |` (- set ns), items := (items h) |` (- (\<lambda>n. mn_data (the (nodes h n))) ` set ns)\<rparr>)"
  using assms
proof (induction ns arbitrary: h)
  case Nil
  then show ?case by (simp add: msgque_destroy_loop.simps)
next
  case (Cons n ns)
  then obtain x where x: "nodes h n = Some x" "mn_next x = (if ns = [] then 0 else hd ns)" "n \<noteq> 0"
    by (auto split: option.splits)
  let ?h = "h\<lparr>items := (items h)(mn_data x := None), nodes := (nodes h)(n := None)\<rparr>"
  have nin: "n \<notin> set ns" and dx: "mn_data x \<notin> (\<lambda>n. mn_data (the (nodes h n))) ` set ns"
    using Cons.prems x by auto
  have dx': "m \<in> set ns \<Longrightarrow> mn_data (the (nodes h m)) \<noteq> mn_data x" for m
    using dx by (metis imageI)
  from nin have d: "map (\<lambda>n. mn_data (the (nodes ?h n))) ns = map (\<lambda>n. mn_data (the (nodes h n))) ns"
    by (auto intro!: map_cong)
  have A: "nexts (nodes ?h) ns"
    using Cons.prems nin by (subst nexts_cong[where nd = "nodes h"]) auto
  have B: "distinct ns" using Cons.prems by simp
  have C: "distinct (map (\<lambda>n. mn_data (the (nodes ?h n))) ns)"
    unfolding d using Cons.prems by simp
  have D: "\<forall>m \<in> set ns. items ?h (mn_data (the (nodes ?h m))) \<noteq> None"
    using Cons.prems nin dx' by auto
  note Cons.IH[OF A B C D]
  moreover have "(\<lambda>n. mn_data (the (nodes ?h n))) ` set ns = (\<lambda>n. mn_data (the (nodes h n))) ` set ns"
    using d by (metis list.set_map)
  moreover have "msgque_destroy_loop n h = msgque_destroy_loop (mn_next x) ?h"
    using Cons.prems x by (subst msgque_destroy_loop.simps) (auto simp: free_item_def free_node_def)
  ultimately show ?case
    using x by (simp add: restrict_map_def fun_eq_iff cong: if_cong)
qed


subsection \<open>Representation\<close>

text \<open>chain\_ok: the fields of q and the nodes ns form the list; sync\_ok: the event is set
  exactly if the list is not empty; queue\_is: q holds the data pointers xs.\<close>

definition contents :: "'d msg_heap \<Rightarrow> addr list \<Rightarrow> addr list" where
  "contents h ns = List.map (\<lambda>n. mn_data (the (nodes h n))) ns"

definition chain_ok :: "msgque \<Rightarrow> 'd msg_heap \<Rightarrow> addr list \<Rightarrow> bool" where
  "chain_ok q h ns =
     (links (nodes h) 0 ns \<and> distinct ns \<and> length ns < 2 ^ 64
      \<and> q_head q = (if ns = [] then 0 else hd ns)
      \<and> q_tail q = (if ns = [] then 0 else last ns)
      \<and> q_size q = of_nat (length ns) \<and> 0 \<notin> set (contents h ns))"

definition sync_ok :: "msgque \<Rightarrow> addr list \<Rightarrow> bool" where
  "sync_ok q ns =
     (q_mutex q \<noteq> None \<and> event_is (q_event q) (ns \<noteq> []))"

definition queue_is :: "msgque \<Rightarrow> 'd msg_heap \<Rightarrow> addr list \<Rightarrow> bool" where
  "queue_is q h xs = (\<exists>ns. chain_ok q h ns \<and> sync_ok q ns \<and> contents h ns = xs)"

lemma chain_size_0: "chain_ok q h ns \<Longrightarrow> (q_size q = 0) = (ns = [])"
  by (auto simp: chain_ok_def word_of_nat_eq_0_iff dest: nat_dvd_not_less)

lemma push_back_link_chain:
  assumes ch: "chain_ok q h ns" and len: "length ns < 2 ^ 64 - 1" and n: "n \<noteq> 0" "n \<notin> set ns"
    and d: "d \<noteq> 0"
    and nd: "nodes h n = Some \<lparr>mn_next = q_tail q, mn_prev = 0, mn_data = d\<rparr>"
    and ln: "push_back_link q n h = Some (q', h')"
  shows "chain_ok q' h' (ns @ [n]) \<and> contents h' (ns @ [n]) = contents h ns @ [d]
    \<and> items h' = items h \<and> q_mutex q' = q_mutex q \<and> q_event q' = q_event q"
proof -
  have nodes': "nodes h' = (if ns = [] then nodes h
      else (nodes h)(last ns \<mapsto> (the (nodes h (last ns)))\<lparr>mn_prev := n\<rparr>))"
    and rest: "items h' = items h" "q_mutex q' = q_mutex q" "q_event q' = q_event q"
    and ht: "q_head q' = (if ns = [] then n else hd ns)" "q_tail q' = n"
      "q_size q' = q_size q + 1"
    using ch ln links_live[of "nodes h" 0 ns "last ns"]  links_live[of "nodes h" 0 ns "hd ns"]
    by (auto simp: push_back_link_def chain_ok_def bind_cases Let_def split: if_splits)
  have lk: "links (nodes h') 0 (ns @ [n])"
    using ch n nd nodes'
    by (intro links_append[where nd = "nodes h" and d = d])
       (auto simp: chain_ok_def dest: in_set_butlastD split: if_splits)
  have ct: "contents h' (ns @ [n]) = contents h ns @ [d]"
  proof -
    have "mn_data (the (nodes h' m)) = mn_data (the (nodes h m))" if "m \<in> set ns" for m
      using that by (auto simp: nodes')
    moreover have "mn_data (the (nodes h' n)) = d" using n nd by (auto simp: nodes')
    ultimately show ?thesis by (auto simp: contents_def)
  qed
  show ?thesis
    using lk ct rest ht ch n d len by (auto simp: chain_ok_def)
qed

lemma chain_ok_frame:
  assumes "chain_ok q h ns" "\<forall>m \<in> set ns. nodes h' m = nodes h m"
    "q_head q' = q_head q" "q_tail q' = q_tail q" "q_size q' = q_size q"
  shows "chain_ok q' h' ns \<and> contents h' ns = contents h ns"
proof -
  have "contents h' ns = contents h ns" using assms(2) by (simp add: contents_def)
  moreover have "links (nodes h') 0 ns = links (nodes h) 0 ns" by (rule links_cong) (rule assms)
  ultimately show ?thesis using assms by (simp add: chain_ok_def)
qed


lemma get_front_unlink_chain:
  assumes ch: "chain_ok q h (n # ns)" and g: "get_front_unlink q h = Some (p, q', h')"
  shows "p = mn_data (the (nodes h n)) \<and> chain_ok q' h' ns \<and> contents h' ns = contents h ns
    \<and> items h' = items h \<and> q_mutex q' = q_mutex q \<and> q_event q' = q_event q
    \<and> nodes h' n = None \<and> (ns = [] \<longrightarrow> nodes h' = (nodes h)(n := None))"
proof -
  have lk: "links (nodes h) 0 (n # ns)" using ch by (simp add: chain_ok_def)
  have n: "nodes h n \<noteq> None" "n \<noteq> 0" and hd: "q_head q = n"
    and pv: "mn_prev (the (nodes h n)) = (if ns = [] then 0 else hd ns)"
    and ns0: "0 \<notin> set ns"
    using lk links_live[OF lk] ch by (auto simp: chain_ok_def split: option.splits)
  then have ns0': "ns \<noteq> [] \<Longrightarrow> hd ns \<noteq> 0" by (metis hd_in_set)
  obtain x where x: "nodes h n = Some x" "mn_prev x = (if ns = [] then 0 else hd ns)"
    using n pv by auto
  have eff: "nodes h' = (if ns = [] then (nodes h)(n := None)
        else (nodes h)(hd ns \<mapsto> (the (nodes h (hd ns)))\<lparr>mn_next := 0\<rparr>, n := None))
    \<and> items h' = items h \<and> p = mn_data x
    \<and> q' = q\<lparr>q_head := (if ns = [] then 0 else hd ns), q_size := q_size q - 1,
           q_tail := (if ns = [] then 0 else q_tail q)\<rparr>"
  proof (cases "ns = []")
    case True
    with g hd x show ?thesis
      by (simp add: get_front_unlink_def free_node_def Let_def) auto
  next
    case False
    obtain y where "nodes h (hd ns) = Some y"
      using False ch links_live[of "nodes h" 0 "n # ns" "hd ns"] by (auto simp: chain_ok_def)
    with False ns0' g hd x show ?thesis
      by (simp add: get_front_unlink_def free_node_def Let_def split: if_splits) auto
  qed
  then have nodes': "nodes h' = (if ns = [] then (nodes h)(n := None)
      else (nodes h)(hd ns \<mapsto> (the (nodes h (hd ns)))\<lparr>mn_next := 0\<rparr>, n := None))"
    and rest: "items h' = items h" "q_mutex q' = q_mutex q" "q_event q' = q_event q"
      "p = mn_data (the (nodes h n))"
    and ht: "q_head q' = (if ns = [] then 0 else hd ns)"
      "q_tail q' = (if ns = [] then 0 else q_tail q)" "q_size q' = q_size q - 1"
    using x by simp_all
  have "links (nodes h') 0 ns"
  proof (cases ns)
    case (Cons m ms)
    with ch nodes' links_pop[of "nodes h" 0 n m ms] show ?thesis
      by (simp add: chain_ok_def)
  qed simp
  moreover have "contents h' ns = contents h ns"
    using ch by (auto simp: contents_def nodes' chain_ok_def)
  ultimately show ?thesis
    using ch rest ht nodes' by (auto simp: chain_ok_def contents_def)
qed

lemma push_back_signal_later: "push_back_signal q h = Some (err, e, h') \<Longrightarrow> later h h'"
  by (auto simp: push_back_signal_def dest: OSAL_EventSet_later split: if_splits)

lemma push_back_link_sync: "push_back_link q n h = Some (q', h') \<Longrightarrow> q_mutex q' = q_mutex q"
  by (auto simp: push_back_link_def Let_def bind_cases split: if_splits)

lemma push_back_commit_inv:
  assumes c: "push_back_commit q n h = Some (err, q', h')"
  obtains (lock) m h1 where "later h h1" "(m = None) = (q_mutex q = None)"
      "err \<noteq> OMX_ErrorNone" "q' = q\<lparr>q_mutex := m\<rparr>" "h' = h1\<lparr>nodes := (nodes h)(n := None)\<rparr>"
  | (signal) m m1 e h1 h2 where "later h h1" "(m = None) = (q_mutex q = None)"
      "push_back_signal (q\<lparr>q_mutex := m1\<rparr>) h1 = Some (err, e, h2)" "err \<noteq> OMX_ErrorNone"
      "q' = q\<lparr>q_mutex := m, q_event := e\<rparr>" "later h h'"
  | (link) m m1 e h1 h2 q2 h3 where "later h h1" "(m = None) = (q_mutex q = None)"
      "push_back_signal (q\<lparr>q_mutex := m1\<rparr>) h1 = Some (err, e, h2)" "err = OMX_ErrorNone" "later h h2"
      "push_back_link (q\<lparr>q_mutex := m1, q_event := e\<rparr>) n h2 = Some (q2, h3)"
      "q' = q2\<lparr>q_mutex := m\<rparr>" "later h3 h'"
proof -
  from c obtain e1 m1 h1 where 1: "OSAL_MutexLock (q_mutex q) h = Some (e1, m1, h1)"
    by (auto simp: push_back_commit_def bind_cases)
  note l1 = OSAL_MutexLock_later[OF 1] OSAL_MutexLock_keeps[OF 1]
  show thesis
  proof (cases "e1 = OMX_ErrorNone")
    case False
    with c 1 have "err \<noteq> OMX_ErrorNone" "q' = q\<lparr>q_mutex := m1\<rparr>"
        "h' = h1\<lparr>nodes := (nodes h1)(n := None)\<rparr>"
      by (auto simp: push_back_commit_def Let_def free_node_def split: if_splits)
    with l1 show thesis by (intro lock[of h1 m1]) auto
  next
    case True
    with c 1 obtain e2 ev h2 where
      2: "push_back_signal (q\<lparr>q_mutex := m1\<rparr>) h1 = Some (e2, ev, h2)"
      by (auto simp: push_back_commit_def bind_cases Let_def)
    note l2 = later_trans[OF l1(1) push_back_signal_later[OF 2]]
    show thesis
    proof (cases "e2 = OMX_ErrorNone")
      case False
      with c 1 2 True obtain x m2 where "OSAL_MutexUnlock m1 h2 = Some (x, m2, h')"
         "err = e2" "q' = q\<lparr>q_mutex := m2, q_event := ev\<rparr>"
        by (auto simp: push_back_commit_def Let_def bind_cases)
      with False l1 l2 2 show thesis
        by (intro signal[of h1 m2 m1 ev h2])
          (auto dest: OSAL_MutexUnlock_keeps OSAL_MutexUnlock_later intro: later_trans)
    next
      case e2: True
      with c 1 2 True obtain q2 h3 m2 where
         3: "push_back_link (q\<lparr>q_mutex := m1, q_event := ev\<rparr>) n h2 = Some (q2, h3)"
         "OSAL_MutexUnlock (q_mutex q2) h3 = Some (OMX_ErrorNone, m2, h')"
         "err = OMX_ErrorNone" "q' = q2\<lparr>q_mutex := m2\<rparr>"
        by (auto simp: push_back_commit_def Let_def bind_cases split: if_splits)
      with e2 l1 l2 2 show thesis
        using push_back_link_sync[OF 3(1)] OSAL_MutexUnlock_keeps[OF 3(2)] OSAL_MutexUnlock_later[OF 3(2)]
        by (intro link[of h1 m2 m1 ev h2 q2 h3]) auto
    qed
  qed
qed

lemma push_back_signal_sync:
  assumes "push_back_signal q h = Some (err, e, h')" "chain_ok q h0 ns" "event_is (q_event q) (ns \<noteq> [])"
  shows "event_is e (ns \<noteq> [] \<or> err = OMX_ErrorNone)"
  using assms chain_size_0[OF assms(2)] OSAL_EventSet_is[of "q_event q" h err e h' False]
  by (auto simp: push_back_signal_def split: if_splits)

lemma chain_ok_sync_fields [simp]:
  "chain_ok (q\<lparr>q_mutex := m\<rparr>) h ns = chain_ok q h ns"
  "chain_ok (q\<lparr>q_event := e\<rparr>) h ns = chain_ok q h ns"
  by (simp_all add: chain_ok_def)

lemma chain_ok_later: "later h h' \<Longrightarrow> chain_ok q h' ns = chain_ok q h ns"
  "later h h' \<Longrightarrow> contents h' ns = contents h ns"
  by (simp_all add: chain_ok_def contents_def)

lemma chain_ok_time [simp]:
  "contents (h\<lparr>w_now := k\<rparr>) ns = contents h ns"
  "chain_ok q (h\<lparr>w_now := k\<rparr>) ns = chain_ok q h ns"
  by (simp_all add: chain_ok_def contents_def)

lemma push_back_commit_safe:
  assumes q: "chain_ok q h ns" "sync_ok q ns" and len: "length ns < 2 ^ 64 - 1"
    and n: "n \<noteq> 0" "n \<notin> set ns" "d \<noteq> 0"
    and nd: "nodes h n = Some \<lparr>mn_next = q_tail q, mn_prev = 0, mn_data = d\<rparr>"
    and c: "push_back_commit q n h = Some (err, q', h')"
  shows "items h' = items h \<and>
    (if err = OMX_ErrorNone
     then chain_ok q' h' (ns @ [n]) \<and> sync_ok q' (ns @ [n])
       \<and> contents h' (ns @ [n]) = contents h ns @ [d]
     else chain_ok q' h' ns \<and> sync_ok q' ns \<and> contents h' ns = contents h ns)"
  using c
proof (cases rule: push_back_commit_inv)
  case (lock m h1)
  with q n chain_ok_frame[OF q(1), of h' q'] show ?thesis
    by (auto simp: sync_ok_def)
next
  case (signal m m1 e h1 h2)
  have "sync_ok q' ns"
    using signal q push_back_signal_sync[OF signal(3)] by (auto simp: sync_ok_def)
  with signal q show ?thesis by (simp add: chain_ok_later)
next
  case (link m m1 e h1 h2 q2 h3)
  have e: "event_is e True"
    using push_back_signal_sync[OF link(3), of h ns] q link by (auto simp: sync_ok_def)
  have "chain_ok q2 h3 (ns @ [n]) \<and> contents h3 (ns @ [n]) = contents h2 ns @ [d]
    \<and> items h3 = items h2 \<and> q_mutex q2 = m1 \<and> q_event q2 = e"
    using push_back_link_chain[OF _ len n(1,2,3) _ link(6)] q nd link(5) by (simp add: chain_ok_later)
  with link q e show ?thesis
    by (auto simp: chain_ok_later sync_ok_def)
qed

lemma get_front_signal_later: "get_front_signal q h = Some (err, e, h') \<Longrightarrow> later h h'"
  by (auto simp: get_front_signal_def dest: OSAL_EventReset_later split: if_splits)

lemma get_front_take_sync: "get_front_take q h = Some (p, q', h') \<Longrightarrow> q_mutex q' = q_mutex q"
  by (auto simp: get_front_take_def get_front_unlink_def Let_def bind_cases split: if_splits)

lemma get_front_inv:
  assumes c: "msgque_get_front q p h = Some (err, p', q', h')"
  obtains (lock) m where "later h h'" "(m = None) = (q_mutex q = None)"
      "err \<noteq> OMX_ErrorNone" "p' = p" "q' = q\<lparr>q_mutex := m\<rparr>"
  | (signal) m m1 e h1 h2 where "later h h1" "(m = None) = (q_mutex q = None)"
      "get_front_signal (q\<lparr>q_mutex := m1\<rparr>) h1 = Some (err, e, h2)" "err \<noteq> OMX_ErrorNone"
      "q' = q\<lparr>q_mutex := m, q_event := e\<rparr>" "later h h'" "p' = p"
  | (take) m m1 e h1 h2 q2 h3 where "later h h1" "(m = None) = (q_mutex q = None)"
      "get_front_signal (q\<lparr>q_mutex := m1\<rparr>) h1 = Some (err, e, h2)" "err = OMX_ErrorNone" "later h h2"
      "get_front_take (q\<lparr>q_mutex := m1, q_event := e\<rparr>) h2 = Some (p', q2, h3)"
      "q' = q2\<lparr>q_mutex := m\<rparr>" "later h3 h'"
proof -
  from c obtain e1 m1 h1 where 1: "OSAL_MutexLock (q_mutex q) h = Some (e1, m1, h1)"
    by (auto simp: msgque_get_front_def bind_cases)
  note l1 = OSAL_MutexLock_later[OF 1] OSAL_MutexLock_keeps[OF 1]
  show thesis
  proof (cases "e1 = OMX_ErrorNone")
    case False
    with c 1 l1 show thesis
      by (intro lock[of m1]) (auto simp: msgque_get_front_def Let_def)
  next
    case True
    with c 1 obtain e2 ev h2 where
      2: "get_front_signal (q\<lparr>q_mutex := m1\<rparr>) h1 = Some (e2, ev, h2)"
      by (auto simp: msgque_get_front_def bind_cases Let_def)
    note l2 = later_trans[OF l1(1) get_front_signal_later[OF 2]]
    show thesis
    proof (cases "e2 = OMX_ErrorNone")
      case False
      with c 1 2 True obtain x m2 where "OSAL_MutexUnlock m1 h2 = Some (x, m2, h')"
         "err = e2" "q' = q\<lparr>q_mutex := m2, q_event := ev\<rparr>" "p' = p"
        by (auto simp: msgque_get_front_def Let_def bind_cases)
      with False l1 l2 2 show thesis
        by (intro signal[of h1 m2 m1 ev h2])
          (auto dest: OSAL_MutexUnlock_keeps OSAL_MutexUnlock_later intro: later_trans)
    next
      case e2: True
      with c 1 2 True obtain q2 h3 m2 where
         3: "get_front_take (q\<lparr>q_mutex := m1, q_event := ev\<rparr>) h2 = Some (p', q2, h3)"
         "OSAL_MutexUnlock (q_mutex q2) h3 = Some (OMX_ErrorNone, m2, h')"
         "err = OMX_ErrorNone" "q' = q2\<lparr>q_mutex := m2\<rparr>"
        by (auto simp: msgque_get_front_def Let_def bind_cases split: if_splits)
      with e2 l1 l2 2 show thesis
        using get_front_take_sync[OF 3(1)] OSAL_MutexUnlock_keeps[OF 3(2)] OSAL_MutexUnlock_later[OF 3(2)]
        by (intro take[of h1 m2 m1 ev h2 q2 h3]) auto
    qed
  qed
qed

lemma chain_size_1: "chain_ok q h ns \<Longrightarrow> (q_size q - 1 = 0) = (length ns = 1)"
proof -
  assume "chain_ok q h ns"
  then have "unat (q_size q) = length ns" by (simp add: chain_ok_def unat_of_nat_u32)
  then show ?thesis by (metis One_nat_def eq_iff_diff_eq_0 unat_1 word_unat_eq_iff)
qed

lemma get_front_signal_sync:
  assumes "get_front_signal q h = Some (err, e, h')" "chain_ok q h0 ns" "event_is (q_event q) (ns \<noteq> [])"
  shows "event_is e (if err = OMX_ErrorNone then tl ns \<noteq> [] else ns \<noteq> [])"
proof (cases "length ns = 1")
  case True
  then have "ns \<noteq> []" "tl ns = []" by (cases ns; simp)+
  with True assms chain_size_1[OF assms(2)] OSAL_EventReset_is[of "q_event q" h err e h' True]
  show ?thesis by (auto simp: get_front_signal_def)
next
  case False
  then have "(tl ns \<noteq> []) = (ns \<noteq> [])" by (cases ns; simp)
  with False assms chain_size_1[OF assms(2)] show ?thesis by (auto simp: get_front_signal_def)
qed

lemma get_front_safe:
  assumes q: "chain_ok q h ns" "sync_ok q ns"
    and c: "msgque_get_front q p h = Some (err, p', q', h')"
  shows "items h' = items h \<and>
    (if err = OMX_ErrorNone
     then p' = (if ns = [] then 0 else mn_data (the (nodes h (hd ns))))
       \<and> chain_ok q' h' (tl ns) \<and> sync_ok q' (tl ns) \<and> contents h' (tl ns) = contents h (tl ns)
       \<and> (length ns = 1 \<longrightarrow> nodes h' = (nodes h)(hd ns := None))
     else p' = p \<and> chain_ok q' h' ns \<and> sync_ok q' ns \<and> contents h' ns = contents h ns)"
  using c
proof (cases rule: get_front_inv)
  case (lock m)
  with q show ?thesis by (simp add: chain_ok_later sync_ok_def)
next
  case (signal m m1 e h1 h2)
  have "sync_ok q' ns"
    using signal q get_front_signal_sync[OF signal(3), of h ns] by (simp add: sync_ok_def)
  with signal q show ?thesis by (simp add: chain_ok_later)
next
  case (take m m1 e h1 h2 q2 h3)
  have e: "event_is e (tl ns \<noteq> [])"
    using get_front_signal_sync[OF take(3), of h ns] q take by (auto simp: sync_ok_def)
  have ch2: "chain_ok (q\<lparr>q_mutex := m1, q_event := e\<rparr>) h2 ns"
    using q take(5) by (simp add: chain_ok_later)
  have "chain_ok q2 h3 (tl ns) \<and> contents h3 (tl ns) = contents h2 (tl ns) \<and> items h3 = items h2
     \<and> q_event q2 = e \<and> (length ns = 1 \<longrightarrow> nodes h3 = (nodes h2)(hd ns := None))
     \<and> p' = (if ns = [] then 0 else mn_data (the (nodes h2 (hd ns))))"
  proof (cases ns)
    case Nil
    with take(6) ch2 chain_size_0[OF ch2] show ?thesis
      by (auto simp: get_front_take_def split: if_splits)
  next
    case (Cons n ns')
    with take(6) ch2 chain_size_0[OF ch2] have
      "get_front_unlink (q\<lparr>q_mutex := m1, q_event := e\<rparr>) h2 = Some (p', q2, h3)"
      by (simp add: get_front_take_def)
    from get_front_unlink_chain[OF ch2[unfolded Cons] this] Cons show ?thesis by simp
  qed
  with take q e show ?thesis by (simp add: chain_ok_later sync_ok_def)
qed


subsection \<open>The contract of the operations\<close>

lemma push_back_prepare_cases:
  assumes "push_back_prepare q x h = Some (n, h1)"
  shows "x \<noteq> 0 \<and> items h1 = items h \<and> (n = 0 \<longrightarrow> nodes h1 = nodes h)
    \<and> (n \<noteq> 0 \<longrightarrow> nodes h n = None \<and> items h n = None
        \<and> nodes h1 = (nodes h)(n \<mapsto> \<lparr>mn_next = q_tail q, mn_prev = 0, mn_data = x\<rparr>))"
  using assms
  by (auto simp: push_back_prepare_def sys_malloc_def Let_def live_def split: if_splits)

lemma msgque_push_back_is:
  assumes "queue_is q h xs" "length xs < 2 ^ 64 - 1"
    and push: "msgque_push_back q x h = Some (err, q', h')"
  shows "queue_is q' h' (if err = OMX_ErrorNone then xs @ [x] else xs) \<and> items h' = items h"
proof -
  obtain ns where ns: "chain_ok q h ns" "sync_ok q ns" "contents h ns = xs"
    using assms(1) by (auto simp: queue_is_def)
  have len: "length ns < 2 ^ 64 - 1" using assms(2) ns(3) by (auto simp: contents_def)
  obtain n h1 where p: "push_back_prepare q x h = Some (n, h1)"
    using push by (auto simp: msgque_push_back_def bind_cases)
  note pc = push_back_prepare_cases[OF p]
  show ?thesis
  proof (cases "n = 0")
    case True
    with push p pc ns chain_ok_frame[of q h ns h' q] show ?thesis
      by (auto simp: msgque_push_back_def queue_is_def)
  next
    case False
    with pc ns(1) have fresh: "n \<notin> set ns"
      by (auto simp: chain_ok_def dest: links_live)
    have "chain_ok q h1 ns \<and> contents h1 ns = contents h ns"
      by (rule chain_ok_frame[OF ns(1)]) (use pc False fresh in auto)
    moreover have "push_back_commit q n h1 = Some (err, q', h')"
      using push p False by (simp add: msgque_push_back_def)
    ultimately show ?thesis
      using push_back_commit_safe[of q h1 ns n x err q' h'] ns pc False fresh len
      by (auto simp: queue_is_def split: if_splits)
  qed
qed

lemma msgque_get_front_is:
  assumes "queue_is q h xs" and get: "msgque_get_front q p h = Some (err, p', q', h')"
  shows "queue_is q' h' (if err = OMX_ErrorNone then tl xs else xs) \<and> items h' = items h
    \<and> p' = (if err = OMX_ErrorNone then (if xs = [] then 0 else hd xs) else p)"
proof -
  obtain ns where ns: "chain_ok q h ns" "sync_ok q ns" "contents h ns = xs"
    using assms(1) by (auto simp: queue_is_def)
  note s = get_front_safe[OF ns(1,2) get]
  have "contents h (tl ns) = tl xs" "xs = [] \<longleftrightarrow> ns = []"
       "ns \<noteq> [] \<Longrightarrow> mn_data (the (nodes h (hd ns))) = hd xs"
    using ns(3) by (auto simp: contents_def map_tl hd_map)
  with s ns show ?thesis by (auto simp: queue_is_def split: if_splits)
qed

lemma queue_is_nonzero: "queue_is q h xs \<Longrightarrow> 0 \<notin> set xs"
  by (auto simp: queue_is_def chain_ok_def)

text \<open>No thread is inside an operation, and the event shows b.\<close>

definition quiet :: "msgque \<Rightarrow> bool \<Rightarrow> bool" where
  "quiet q b = ((\<exists>r. q_mutex q = Some \<lparr>m_recursive = r, m_depth = 0\<rparr>)
     \<and> q_event q = Some (event_of b))"

lemma push_back_signal_ok:
  assumes "calls_ok h" "chain_ok q h0 ns" "q_event q = Some (event_of (ns \<noteq> []))"
  shows "\<exists>k. push_back_signal q h = Some (OMX_ErrorNone, Some (event_of True), h\<lparr>w_now := w_now h + k\<rparr>)"
  using assms chain_size_0[OF assms(2)] OSAL_EventSet_ok[OF assms(1), of False]
  by (auto simp: push_back_signal_def intro: exI[of _ 0])

lemma get_front_signal_ok:
  assumes "calls_ok h" "chain_ok q h0 ns" "q_event q = Some (event_of (ns \<noteq> []))"
  shows "\<exists>k. get_front_signal q h = Some (OMX_ErrorNone, Some (event_of (tl ns \<noteq> [])), h\<lparr>w_now := w_now h + k\<rparr>)"
proof (cases "length ns = 1")
  case True
  then have "ns \<noteq> []" "tl ns = []" by (cases ns; simp)+
  with True assms chain_size_1[OF assms(2)] OSAL_EventReset_ok[OF assms(1), of True]
  show ?thesis by (auto simp: get_front_signal_def)
next
  case False
  then have "(tl ns \<noteq> []) = (ns \<noteq> [])" by (cases ns; simp)
  with False assms chain_size_1[OF assms(2)] show ?thesis
   by (auto simp: get_front_signal_def intro: exI[of _ 0])
qed

lemma push_back_link_ok:
  assumes "chain_ok q h ns"
  shows "\<exists>q' h'. push_back_link q n h = Some (q', h') \<and> q_mutex q' = q_mutex q \<and> q_event q' = q_event q
    \<and> w_now h' = w_now h \<and> w_rc h' = w_rc h"
proof (cases "ns = []")
  case False
  then obtain x where "nodes h (last ns) = Some x" "last ns \<noteq> 0"
    using assms links_live[of "nodes h" 0 ns "last ns"] by (auto simp: chain_ok_def)
  with False assms show ?thesis by (simp add: push_back_link_def chain_ok_def Let_def)
qed (use assms in \<open>simp add: push_back_link_def chain_ok_def Let_def\<close>)

lemma get_front_take_ok:
  assumes "chain_ok q h ns"
  shows "\<exists>p q' h'. get_front_take q h = Some (p, q', h') \<and> q_mutex q' = q_mutex q \<and> q_event q' = q_event q
    \<and> w_now h' = w_now h \<and> w_rc h' = w_rc h"
proof (cases ns)
  case Nil
  with assms show ?thesis by (auto simp: get_front_take_def chain_ok_def)
next
  case (Cons n ms)
  have lk: "links (nodes h) 0 (n # ms)" using assms Cons by (simp add: chain_ok_def)
  then obtain x where x: "nodes h n = Some x" "mn_prev x = (if ms = [] then 0 else hd ms)"
    by (auto split: option.splits)
  have hd: "q_head q = n" "q_size q \<noteq> 0" using assms Cons chain_size_0[OF assms] by (auto simp: chain_ok_def)
  show ?thesis
  proof (cases "ms = []")
    case True
    with x hd show ?thesis by (simp add: get_front_take_def get_front_unlink_def free_node_def Let_def)
  next
    case False
    then obtain y where "nodes h (hd ms) = Some y" "hd ms \<noteq> 0"
      using links_live[OF lk, of "hd ms"] by auto
    with False x hd show ?thesis 
     by (simp add: get_front_take_def get_front_unlink_def free_node_def Let_def)
  qed
qed


lemma get_front_live:
  assumes ok: "calls_ok h" and ch: "chain_ok q h ns" and qt: "quiet q (ns \<noteq> [])"
  shows "\<exists>p' q' h'. msgque_get_front q p h = Some (OMX_ErrorNone, p', q', h')
    \<and> quiet q' (tl ns \<noteq> []) \<and> calls_ok h'"
proof -
  obtain r where m: "q_mutex q = Some \<lparr>m_recursive = r, m_depth = 0\<rparr>"
    and e: "q_event q = Some (event_of (ns \<noteq> []))" using qt by (auto simp: quiet_def)
  let ?m = "Some \<lparr>m_recursive = r, m_depth = 1\<rparr>"
  have 1: "OSAL_MutexLock (q_mutex q) h = Some (OMX_ErrorNone, ?m, tick h)"
    using OSAL_MutexLock_ok[OF ok] m by simp
  have ch1: "chain_ok (q\<lparr>q_mutex := ?m\<rparr>) (tick h) ns"
    using ch by simp
  obtain k where 2: "get_front_signal (q\<lparr>q_mutex := ?m\<rparr>) (tick h)
     = Some (OMX_ErrorNone, Some (event_of (tl ns \<noteq> [])), (tick h)\<lparr>w_now := w_now (tick h) + k\<rparr>)" (is "_ = Some (_, _, ?h2)")
    using get_front_signal_ok[OF _ ch1, of "tick h"] ok e by auto
  have ch2: "chain_ok (q\<lparr>q_mutex := ?m, q_event := Some (event_of (tl ns \<noteq> []))\<rparr>) ?h2 ns"
    using ch by (simp add: chain_ok_def)
  obtain p' q' h' where 3: "get_front_take (q\<lparr>q_mutex := ?m, q_event := Some (event_of (tl ns \<noteq> []))\<rparr>) ?h2 = Some (p', q', h')"
     "q_mutex q' = ?m" "q_event q' = Some (event_of (tl ns \<noteq> []))" "w_now h' = w_now ?h2" "w_rc h' = w_rc ?h2"
    using get_front_take_ok[OF ch2] by auto
  have ok': "calls_ok h'" using ok 3(4,5) by (auto simp: calls_ok_def)
  then show ?thesis
    using 1 2 3 OSAL_MutexUnlock_ok[OF ok', of "\<lparr>m_recursive = r, m_depth = 1\<rparr>"]
    by (simp add: msgque_get_front_def quiet_def Let_def)
qed

lemma push_back_commit_live:
  assumes ok: "calls_ok h" and ch: "chain_ok q h ns" and qt: "quiet q (ns \<noteq> [])"
  shows "\<exists>q' h'. push_back_commit q n h = Some (OMX_ErrorNone, q', h')
    \<and> quiet q' True \<and> calls_ok h'"
proof -
  obtain r where m: "q_mutex q = Some \<lparr>m_recursive = r, m_depth = 0\<rparr>"
    and e: "q_event q = Some (event_of (ns \<noteq> []))" using qt by (auto simp: quiet_def)
  let ?m = "Some \<lparr>m_recursive = r, m_depth = 1\<rparr>"
  have 1: "OSAL_MutexLock (q_mutex q) h = Some (OMX_ErrorNone, ?m, tick h)"
    using OSAL_MutexLock_ok[OF ok] m by simp
  have ch1: "chain_ok (q\<lparr>q_mutex := ?m\<rparr>) (tick h) ns"
    using ch by simp
  obtain k where 2: "push_back_signal (q\<lparr>q_mutex := ?m\<rparr>) (tick h)
     = Some (OMX_ErrorNone, Some (event_of True), (tick h)\<lparr>w_now := w_now (tick h) + k\<rparr>)" (is "_ = Some (_, _, ?h2)")
    using push_back_signal_ok[OF _ ch1, of "tick h"] ok e by auto
  have ch2: "chain_ok (q\<lparr>q_mutex := ?m, q_event := Some (event_of True)\<rparr>) ?h2 ns"
    using ch by (simp add: chain_ok_def)
  obtain q' h' where 3: "push_back_link (q\<lparr>q_mutex := ?m, q_event := Some (event_of True)\<rparr>) n ?h2 = Some (q', h')"
     "q_mutex q' = ?m" "q_event q' = Some (event_of True)" "w_now h' = w_now ?h2" "w_rc h' = w_rc ?h2"
    using push_back_link_ok[OF ch2, of n] by auto
  have ok': "calls_ok h'" using ok 3(4,5) by (auto simp: calls_ok_def)
  then show ?thesis
    using 1 2 3 OSAL_MutexUnlock_ok[OF ok', of "\<lparr>m_recursive = r, m_depth = 1\<rparr>"]
    by (simp add: push_back_commit_def quiet_def Let_def)
qed

lemma push_back_live:
  assumes ok: "calls_ok h" and ch: "chain_ok q h ns" and qt: "quiet q (ns \<noteq> [])"
    and x: "x \<noteq> 0" and mem: "w_ptr h (w_now h) \<noteq> 0" "\<not> live h (w_ptr h (w_now h))"
  shows "\<exists>q' h'. msgque_push_back q x h = Some (OMX_ErrorNone, q', h') \<and> quiet q' True \<and> calls_ok h'"
proof -
  define n where "n = w_ptr h (w_now h)"
  obtain h1 where p: "push_back_prepare q x h = Some (n, h1)" 
    and h1: "w_now h1 = Suc (w_now h)" "w_rc h1 = w_rc h"
    using x mem by (auto simp: push_back_prepare_def sys_malloc_def n_def Let_def)
  have n: "n \<noteq> 0" "n \<notin> set ns" using mem ch by (auto simp: n_def live_def chain_ok_def dest: links_live)
  have "chain_ok q h1 ns"
    using conjunct1[OF chain_ok_frame[OF ch, of h1 q]] push_back_prepare_cases[OF p] n by fastforce
  moreover have "calls_ok h1" using ok h1 by (auto simp: calls_ok_def)
  ultimately show ?thesis
    using push_back_commit_live[OF _ _ qt, of h1 n] p n by (simp add: msgque_push_back_def)
qed

lemma destroy_chain:
  assumes ok: "calls_ok h" and ch: "chain_ok q h ns" and qt: "quiet q b"
    and items: "distinct (contents h ns)" "\<forall>x \<in> set (contents h ns). items h x \<noteq> None"
  shows "\<exists>q' h'. msgque_destroy q h = Some (q', h') \<and> nodes h' = nodes h |` (- set ns)
     \<and> items h' = items h |` (- set (contents h ns))"
proof -
  obtain r where m: "q_mutex q = Some \<lparr>m_recursive = r, m_depth = 0\<rparr>"
    and e: "q_event q = Some (event_of b)" using qt by (auto simp: quiet_def)
  let ?m = "Some \<lparr>m_recursive = r, m_depth = 1\<rparr>"
  have 1: "OSAL_MutexLock (q_mutex q) h = Some (OMX_ErrorNone, ?m, tick h)"
    using OSAL_MutexLock_ok[OF ok] m by simp
  have "nexts (nodes h) (rev ns)"
    using links_nexts[of "nodes h" 0 ns "[]"] ch by (cases "ns = []") (auto simp: chain_ok_def)
  moreover have "q_tail q = (if rev ns = [] then 0 else hd (rev ns))"
    using ch by (auto simp: chain_ok_def hd_rev)
  ultimately have "msgque_destroy_loop (q_tail q) (tick h) = Some ((tick h)\<lparr>nodes := nodes h |` (- set ns),
     items := items h |` (- set (contents h ns))\<rparr>)" (is "_ = Some ?h2")
    using destroy_loop_frees[of "tick h" "rev ns"] items ch
    by (simp add: contents_def chain_ok_def rev_map[symmetric])
  moreover have "calls_ok ?h2" using ok by (auto simp: calls_ok_def)
  ultimately show ?thesis
    using 1 e ok OSAL_MutexUnlock_ok[of ?h2 "\<lparr>m_recursive = r, m_depth = 1\<rparr>"]
    by (simp add: msgque_destroy_def OSAL_MutexDestroy_def event_defs calls_ok_def)
qed

subsection \<open>The queue is a FIFO\<close>

definition mq_push :: "addr \<Rightarrow> msgque \<times> 'd msg_heap \<Rightarrow> (omx_errortype \<times> msgque \<times> 'd msg_heap) option" where
  "mq_push x s = msgque_push_back (fst s) x (snd s)"

text \<open>*ptr is 0 on entry, as in every caller.\<close>

definition mq_pop ::
  "msgque \<times> 'd msg_heap \<Rightarrow> (omx_errortype \<times> addr option \<times> msgque \<times> 'd msg_heap) option" where
  "mq_pop s = do {
     (err, p, q, h) \<leftarrow> msgque_get_front (fst s) 0 (snd s);
     Some (err, if p = 0 then None else Some p, q, h)
   }"

interpretation mq: fifo "\<lambda>s xs. queue_is (fst s) (snd s) xs" mq_push mq_pop "2 ^ 64 - 1"
proof (unfold_locales, goal_cases)
  case (1 s xs x err s')
  then show ?case
    using msgque_push_back_is[of "fst s" "snd s" xs x err "fst s'" "snd s'"]
    by (simp add: mq_push_def)
next
  case (2 s xs err r s')
  then obtain p where p: "msgque_get_front (fst s) 0 (snd s) = Some (err, p, fst s', snd s')"
     "r = (if p = 0 then None else Some p)"
    by (auto simp: mq_pop_def bind_cases)
  from msgque_get_front_is[OF 2(1) p(1)] queue_is_nonzero[OF 2(1)] p(2) show ?case
    by (cases xs) auto
qed

lemma msgque_init_cases:
  assumes "msgque_init pAttr h = (err, pAttr', q, h')"
  shows "later h h' \<and> (err = OMX_ErrorNone \<longrightarrow> queue_is q h' [] \<and> quiet q False)"
  using assms
  by (auto simp: msgque_init_def OSAL_MutexCreate_def OSAL_EventCreate_def OSAL_MutexDestroy_def
      sys_malloc_def sys_call_def Let_def later_def queue_is_def chain_ok_def sync_ok_def
      contents_def event_is_def ev_inv_def quiet_def event_of_def
      intro: exI[of _ "w_now h"] split: if_splits)

lemma msgque_get_size_is:
  assumes "queue_is q h xs" "msgque_get_size q sz h = Some (err, sz', q', h')"
  shows "queue_is q' h' xs \<and> (err = OMX_ErrorNone \<longrightarrow> unat sz' = length xs)"
proof -
  obtain ns where ns: "chain_ok q h ns" "sync_ok q ns" "contents h ns = xs"
    using assms(1) by (auto simp: queue_is_def)
  obtain e1 m1 h1 where 1: "OSAL_MutexLock (q_mutex q) h = Some (e1, m1, h1)"
    using assms(2) by (auto simp: msgque_get_size_def bind_cases)
  note l1 = OSAL_MutexLock_later[OF 1] OSAL_MutexLock_keeps[OF 1]
  have "(\<exists>m. q' = q\<lparr>q_mutex := m\<rparr> \<and> m \<noteq> None) \<and> later h h' \<and> (err = OMX_ErrorNone \<longrightarrow> sz' = q_size q)"
  proof (cases "e1 = OMX_ErrorNone")
    case False
    with 1 l1 assms(2) ns(2) show ?thesis by (auto simp: msgque_get_size_def Let_def sync_ok_def)
  next
    case True
    with 1 assms(2) obtain m2 where "OSAL_MutexUnlock m1 h1 = Some (OMX_ErrorNone, m2, h')"
      "q' = q\<lparr>q_mutex := m2\<rparr>" "sz' = q_size q"
      by (auto simp: msgque_get_size_def Let_def bind_cases split: if_splits)
    with l1 ns(2) show ?thesis
      by (auto simp: sync_ok_def dest: OSAL_MutexUnlock_keeps OSAL_MutexUnlock_later intro: later_trans)
  qed
  moreover have "unat (q_size q) = length xs"
    using ns by (auto simp: chain_ok_def contents_def unat_of_nat_u32)
  ultimately show ?thesis using ns by (auto simp: queue_is_def chain_ok_later sync_ok_def)
qed

subsection \<open>Properties\<close>

text \<open>C4: From a successful HantroOmx\_msgque\_init on, whatever calls are made and whichever of
  the system calls below them fail, the data pointers delivered followed by those still
  waiting are exactly the accepted ones in the order they were accepted: nothing is lost,
  duplicated or reordered.\<close>

theorem msgque_fifo:
  assumes "msgque_init pAttr h0 = (OMX_ErrorNone, pAttr', q, h)" "length cs < 2 ^ 64"
    "queue_run mq_push mq_pop cs (q, h) = Some (accepted, delivered, q', h')"
  shows "\<exists>waiting. accepted = delivered @ waiting \<and> queue_is q' h' waiting"
  using mq.run_order[of "(q, h)" "[]" cs accepted delivered "(q', h')"]
    msgque_init_cases[OF assms(1)] assms(2,3) by auto

text \<open>Each operation commits or rolls back: a successful push appends and a successful get
  takes the oldest pointer (0 on an empty queue), a failed one leaves the queue as it was; and
  in every case the event afterwards is set exactly if the queue is not empty.\<close>

theorem msgque_commit_rollback:
  assumes "queue_is q h xs" "length xs < 2 ^ 64 - 1"
  shows "(msgque_push_back q x h = Some (err, q', h') \<longrightarrow>
      queue_is q' h' (if err = OMX_ErrorNone then xs @ [x] else xs)
      \<and> event_is (q_event q') (xs \<noteq> [] \<or> err = OMX_ErrorNone))
    \<and> (msgque_get_front q p h = Some (err, p', q', h') \<longrightarrow>
      queue_is q' h' (if err = OMX_ErrorNone then tl xs else xs)
      \<and> event_is (q_event q') (if err = OMX_ErrorNone then tl xs \<noteq> [] else xs \<noteq> [])
      \<and> p' = (if err = OMX_ErrorNone then (if xs = [] then 0 else hd xs) else p))"
proof -
  have ev: "event_is (q_event q') (ys \<noteq> [])" if "queue_is q' h' ys" for ys
    using that by (auto simp: queue_is_def sync_ok_def contents_def)
  show ?thesis
    using msgque_push_back_is[OF assms, of x err q' h'] msgque_get_front_is[OF assms(1), of p err p' q' h']
      ev[of "xs @ [x]"] ev[of xs] ev[of "tl xs"]
    by (auto split: if_splits)
qed

text \<open>All nodes of the heap belong to the queue, and no thread is inside it.\<close>

definition idle_queue :: "msgque \<Rightarrow> 'd msg_heap \<Rightarrow> addr list \<Rightarrow> bool" where
  "idle_queue q h xs = (\<exists>ns. chain_ok q h ns \<and> quiet q (ns \<noteq> []) \<and> contents h ns = xs \<and> dom (nodes h) = set ns)"

lemma idle_queue_is: "idle_queue q h xs \<Longrightarrow> queue_is q h xs"
  by (auto simp: idle_queue_def queue_is_def sync_ok_def quiet_def event_is_def)

text \<open>The operations return: if the system calls succeed and no thread is inside an operation,
  getting always returns with OMX\_ErrorNone, and so does pushing a non-null pointer when malloc
  has a block; both release the mutexes they took.\<close>

theorem msgque_returns:
  assumes "calls_ok h" "idle_queue q h xs" 
  shows "(\<exists>p' q' h'. msgque_get_front q p h = Some (OMX_ErrorNone, p', q', h')
           \<and> quiet q' (tl xs \<noteq> []) \<and> calls_ok h')
    \<and> (x \<noteq> 0 \<and> w_ptr h (w_now h) \<noteq> 0 \<and> \<not> live h (w_ptr h (w_now h)) \<longrightarrow>
        (\<exists>q' h'. msgque_push_back q x h = Some (OMX_ErrorNone, q', h')
           \<and> quiet q' True \<and> calls_ok h'))"
proof -
  obtain ns where ns: "chain_ok q h ns" "quiet q (ns \<noteq> [])" "contents h ns = xs"
    using assms(2) by (auto simp: idle_queue_def)
  then have "(tl xs \<noteq> []) = (tl ns \<noteq> [])" by (auto simp: contents_def map_tl[symmetric])
  then show ?thesis
    using get_front_live[OF assms(1) ns(1,2), of p] push_back_live[OF assms(1) ns(1,2), of x] by auto
qed

text \<open>HantroOmx\_msgque\_destroy on an idle queue returns and frees every node and every data
  block the queue holds, each once.\<close>

theorem msgque_destroy_frees_all:
  assumes "calls_ok h" "idle_queue q h xs" "distinct xs" "dom (items h) = set xs"
  shows "\<exists>q' h'. msgque_destroy q h = Some (q', h') \<and> nodes h' = Map.empty \<and> items h' = Map.empty"
proof -
  obtain ns where ns: "chain_ok q h ns" "quiet q (ns \<noteq> [])" "contents h ns = xs" "dom (nodes h) = set ns"
    using assms(2) by (auto simp: idle_queue_def)
  have "nodes h |` (- set ns) = Map.empty" "items h |` (- set xs) = Map.empty"
    using ns(4) assms(4) by (auto simp: restrict_map_def fun_eq_iff)
  with destroy_chain[OF assms(1) ns(1,2)] ns(3) assms(3,4) show ?thesis by auto
qed


lemma msgque_destroy_None:
  assumes "\<And>h' :: 'd msg_heap. nodes h' = nodes h \<Longrightarrow> msgque_destroy_loop (q_tail q) h' = None"
  shows "msgque_destroy q (h :: 'd msg_heap) = None"
proof (cases "OSAL_MutexLock (q_mutex q) h")
  case (Some r)
  obtain err m h1 where r: "r = (err, m, h1)" by (cases r)
  with Some have "nodes h1 = nodes h" by (auto dest: OSAL_MutexLock_later)
  then have "msgque_destroy_loop (q_tail q) h1 = None" by (rule assms)
  with Some r show ?thesis by (simp add: msgque_destroy_def)
qed (simp add: msgque_destroy_def)

text \<open>HantroOmx\_msgque\_push\_back reads q->tail before it takes the mutex. If another thread
  takes the only message in between, the new node keeps a next field that names the freed node,
  and destroying the queue while the message is waiting reads freed memory.\<close>

theorem push_back_stale_tail:
  assumes "chain_ok q h [a]" "sync_ok q [a]" "n \<noteq> a"
    "push_back_prepare q x h = Some (n, h1)" "n \<noteq> 0"
    "msgque_get_front q p h1 = Some (OMX_ErrorNone, p', q2, h2)"
    "push_back_commit q2 n h2 = Some (OMX_ErrorNone, q3, h3)"
  shows "q_tail q3 = n \<and> nodes h3 n = Some \<lparr>mn_next = a, mn_prev = 0, mn_data = x\<rparr>
    \<and> nodes h3 a = None \<and> msgque_destroy q3 h3 = None"
proof -
  have a: "a \<noteq> 0" "q_tail q = a" using assms(1) by (auto simp: chain_ok_def)
  note p = push_back_prepare_cases[OF assms(4)]
  have h1: "chain_ok q h1 [a]" "nodes h1 n = Some \<lparr>mn_next = a, mn_prev = 0, mn_data = x\<rparr>"
    using chain_ok_frame[OF assms(1), of h1 q] p assms(3,5) a by auto
  have h2: "chain_ok q2 h2 []" "nodes h2 = (nodes h1)(a := None)"
    using get_front_safe[OF h1(1) assms(2) assms(6)] by auto
  from assms(7) have h3: "q_tail q3 = n \<and> nodes h3 = nodes h2"
  proof (cases rule: push_back_commit_inv)
    case (link m m1 e h1' h2' q2' h3')
    then show ?thesis using h2(1) by (auto simp: push_back_link_def chain_ok_def Let_def)
  qed simp_all
  have "msgque_destroy_loop n h' = None" if "nodes h' = nodes h3" for h' :: "'a msg_heap"
    using that h1(2) h2(2) h3 assms(3,5) a
    by (subst msgque_destroy_loop.simps)
      (auto simp: free_item_def free_node_def msgque_destroy_loop.simps[of a] bind_eq_None_conv)
  then have "msgque_destroy q3 h3 = None" using h3 by (intro msgque_destroy_None) auto
  then show ?thesis using h1(2) h2(2) h3 assms(3) by auto
qed

text \<open>A concrete run from an empty heap.\<close>

definition start_heap :: "unit msg_heap" where
  "start_heap = \<lparr>w_now = 0, w_rc = (\<lambda>_. 0), w_ptr = (\<lambda>n. 100 + n),
     nodes = Map.empty, items = Map.empty\<rparr>"

definition start_queue :: msgque where
  "start_queue = \<lparr>q_head = 0, q_tail = 0, q_size = 0,
     q_mutex = Some \<lparr>m_recursive = True, m_depth = 0\<rparr>, q_event = Some (event_of False)\<rparr>"

lemmas msgque_eval = mq_push_def mq_pop_def msgque_init_def OSAL_MutexCreate_def
  OSAL_EventCreate_def OSAL_MutexDestroy_def sys_malloc_def Let_def start_heap_def start_queue_def
  msgque_push_back_def push_back_prepare_def push_back_commit_def push_back_link_def
  push_back_signal_def msgque_get_front_def get_front_signal_def get_front_take_def
  get_front_unlink_def event_defs event_of_def OSAL_MutexLock_def OSAL_MutexUnlock_def
  live_def free_node_def PIPE_SIZE_def

lemma start_init:
  "msgque_init False start_heap = (OMX_ErrorNone, True, start_queue, start_heap\<lparr>w_now := 7\<rparr>)"
  by (simp add: msgque_eval)

lemma msgque_fifo_witness:
  "\<exists>q h. queue_run mq_push mq_pop [Push 5, Push 6, Pop, Push 7, Pop]
      (start_queue, start_heap\<lparr>w_now := 7\<rparr>) = Some ([5, 6, 7], [5, 6], q, h) \<and> queue_is q h [7]"
proof -
  obtain q h where r: "queue_run mq_push mq_pop [Push 5, Push 6, Pop, Push 7, Pop]
      (start_queue, start_heap\<lparr>w_now := 7\<rparr>) = Some ([5, 6, 7], [5, 6], q, h)"
    by (simp add: msgque_eval)
  from msgque_fifo[OF start_init _ r] r show ?thesis by auto
qed

lemma idle_start: "idle_queue start_queue (start_heap\<lparr>w_now := k\<rparr>) []"
  by (auto simp: idle_queue_def chain_ok_def contents_def quiet_def start_queue_def start_heap_def)

lemma msgque_commit_rollback_witness:
  "\<exists>q h. msgque_push_back start_queue 5 (start_heap\<lparr>w_now := 7\<rparr>) = Some (OMX_ErrorNone, q, h)
     \<and> queue_is q h [5] \<and> event_is (q_event q) True"
proof -
  obtain q h where r: "msgque_push_back start_queue 5 (start_heap\<lparr>w_now := 7\<rparr>)
      = Some (OMX_ErrorNone, q, h)"
    by (simp add: msgque_eval)
  from msgque_commit_rollback[OF idle_queue_is[OF idle_start[of 7]], of 5 OMX_ErrorNone q h] r
  show ?thesis by auto
qed

lemma msgque_returns_witness:
  "\<exists>q h. msgque_push_back start_queue 5 (start_heap\<lparr>w_now := 7\<rparr>) = Some (OMX_ErrorNone, q, h)
     \<and> quiet q True"
proof -
  have "calls_ok (start_heap\<lparr>w_now := 7\<rparr>)" by (simp add: calls_ok_def start_heap_def)
  from msgque_returns[OF this idle_start, of 0 5] show ?thesis
    by (auto simp: start_heap_def live_def)
qed

lemma msgque_destroy_frees_all_witness:
  "\<exists>q h. msgque_destroy start_queue start_heap = Some (q, h) \<and> nodes h = Map.empty"
proof -
  have "calls_ok start_heap" by (simp add: calls_ok_def start_heap_def)
  moreover have "idle_queue start_queue start_heap []"
    using idle_start[of 0] by (simp add: start_heap_def)
  ultimately show ?thesis
    using msgque_destroy_frees_all[of start_heap start_queue "[]"] by (auto simp: start_heap_def)
qed

lemma push_back_stale_tail_witness:
  "\<exists>q h n h1 q2 h2 q3 h3 p.
     msgque_push_back start_queue 5 (start_heap\<lparr>w_now := 7\<rparr>) = Some (OMX_ErrorNone, q, h)
     \<and> push_back_prepare q 6 h = Some (n, h1)
     \<and> msgque_get_front q 0 h1 = Some (OMX_ErrorNone, p, q2, h2)
     \<and> push_back_commit q2 n h2 = Some (OMX_ErrorNone, q3, h3)
     \<and> msgque_destroy q3 h3 = None"
proof -
  obtain q h where r: "msgque_push_back start_queue 5 (start_heap\<lparr>w_now := 7\<rparr>)
      = Some (OMX_ErrorNone, q, h)" 
    and q: "q = start_queue\<lparr>q_head := 107, q_tail := 107, q_size := 1, q_event := Some (event_of True)\<rparr>"
    and h: "h = start_heap\<lparr>w_now := 13, nodes := [107 \<mapsto> \<lparr>mn_next = 0, mn_prev = 0, mn_data = 5\<rparr>]\<rparr>"
    by (simp add: msgque_eval)
  obtain n h1 p q2 h2 q3 h3 where s: "push_back_prepare q 6 h = Some (n, h1)" "n \<noteq> 107" "n \<noteq> 0"
      "msgque_get_front q 0 h1 = Some (OMX_ErrorNone, p, q2, h2)"
      "push_back_commit q2 n h2 = Some (OMX_ErrorNone, q3, h3)"
    by (simp add: q h msgque_eval)
  have "chain_ok q h [107]" "sync_ok q [107]"
    by (simp_all add: q h chain_ok_def contents_def sync_ok_def event_is_def start_queue_def)
  from push_back_stale_tail[OF this s(2,1,3,4,5)] r s show ?thesis by blast
qed

end
