(* ===== verification/Basecomp.thy ===== *)
theory Basecomp
  imports Msgque
begin

text \<open>
  The base component, source/basecomp.c: a worker thread and the queue of commands that
  OMX\_SendCommand fills and the thread empties. A command is copied into a heap block on
  sending and out of it on receiving.
\<close>

subsection \<open>Commands\<close>

datatype cmd_type = CMD_SEND_COMMAND | CMD_EXIT_LOOP

text \<open>SEND\_COMMAND\_ARGS and CMD; 'f is the type of the handler pointer.\<close>

record 'f send_args =
  a_cmd :: omx_commandtype
  a_param1 :: omx_u32
  a_data :: addr
  a_fun :: 'f

record 'f cmd =
  c_type :: cmd_type
  c_arg :: "'f send_args"

text \<open>BASECOMP. The thread is what it runs, 't; None is the null handle.\<close>

record 't basecomp =
  bc_thread :: "'t option"
  bc_queue :: msgque

definition zero_queue :: msgque where
  "zero_queue = \<lparr>q_head = 0, q_tail = 0, q_size = 0, q_mutex = None, q_event = None\<rparr>"

type_synonym 'f cmd_heap = "'f cmd msg_heap"

subsection \<open>Operations\<close>

text \<open>HantroOmx\_basecomp\_init; f is the thread's function with its argument. A failed
  initialisation destroys the queue again.\<close>

definition basecomp_init ::
  "bool \<Rightarrow> 't \<Rightarrow> 'f cmd_heap \<Rightarrow> (omx_errortype \<times> bool \<times> 't basecomp \<times> 'f cmd_heap) option" where
  "basecomp_init pAttr f h =
     (case msgque_init pAttr h of (err, pAttr, q, h) \<Rightarrow>
        let b = \<lparr>bc_thread = None, bc_queue = q\<rparr> in
        if err \<noteq> OMX_ErrorNone then Some (err, pAttr, b, h)
        else (case sys_malloc (live h) h of (param, h) \<Rightarrow>
          if param = 0 then do {
            (q, h) \<leftarrow> msgque_destroy q h;
            Some (OMX_ErrorInsufficientResources, pAttr, b\<lparr>bc_queue := q\<rparr>, h)
          } else (case OSAL_ThreadCreate f h of (err, t, h) \<Rightarrow>
            if err \<noteq> OMX_ErrorNone then do {
              (q, h) \<leftarrow> msgque_destroy q h;
              Some (err, pAttr, b\<lparr>bc_queue := q\<rparr>, h)
            } else Some (OMX_ErrorNone, pAttr, b\<lparr>bc_thread := t\<rparr>, h))))"

definition basecomp_destroy ::
  "'t basecomp \<Rightarrow> 'f cmd_heap \<Rightarrow> (omx_errortype \<times> 't basecomp \<times> 'f cmd_heap) option" where
  "basecomp_destroy b h =
     (if bc_thread b = None then None
      else (case OSAL_ThreadDestroy (bc_thread b) h of (err, h) \<Rightarrow>
        if err \<noteq> OMX_ErrorNone then None
        else do {
          (_, h) \<leftarrow> msgque_destroy (bc_queue b) h;
          Some (OMX_ErrorNone, \<lparr>bc_thread = None, bc_queue = zero_queue\<rparr>, h)
        }))"

definition basecomp_send_command ::
  "'t basecomp \<Rightarrow> 'f cmd \<Rightarrow> 'f cmd_heap \<Rightarrow> (omx_errortype \<times> 't basecomp \<times> 'f cmd_heap) option" where
  "basecomp_send_command b c h =
     (case sys_malloc (live h) h of (ptr, h) \<Rightarrow>
        if ptr = 0 then Some (OMX_ErrorInsufficientResources, b, h)
        else do {
          let h = h\<lparr>items := (items h)(ptr \<mapsto> c)\<rparr>;
          (err, q, h) \<leftarrow> msgque_push_back (bc_queue b) ptr h;
          let b = b\<lparr>bc_queue := q\<rparr>;
          if err \<noteq> OMX_ErrorNone then do {
            h \<leftarrow> free_item ptr h;
            Some (err, b, h)
          } else Some (OMX_ErrorNone, b, h)
        })"

text \<open>The command buffer c is returned as it is left: None if nothing was written to it.
  HantroOmx\_basecomp\_recv\_command asserts that there is a command.\<close>

definition basecomp_recv_command ::
  "'t basecomp \<Rightarrow> 'f cmd_heap
    \<Rightarrow> (omx_errortype \<times> 'f cmd option \<times> 't basecomp \<times> 'f cmd_heap) option" where
  "basecomp_recv_command b h = do {
     (err, ptr, q, h) \<leftarrow> msgque_get_front (bc_queue b) 0 h;
     let b = b\<lparr>bc_queue := q\<rparr>;
     if err \<noteq> OMX_ErrorNone then Some (err, None, b, h)
     else if ptr = 0 then None
     else do {
       c \<leftarrow> items h ptr;
       h \<leftarrow> free_item ptr h;
       Some (OMX_ErrorNone, Some c, b, h)
     }
   }"

text \<open>The flag *ok is OMX\_TRUE exactly if a command is returned; it is left alone on an
  error.\<close>

definition basecomp_try_recv_command ::
  "'t basecomp \<Rightarrow> bool \<Rightarrow> 'f cmd_heap
    \<Rightarrow> (omx_errortype \<times> bool \<times> 'f cmd option \<times> 't basecomp \<times> 'f cmd_heap) option" where
  "basecomp_try_recv_command b ok h = do {
     (err, ptr, q, h) \<leftarrow> msgque_get_front (bc_queue b) 0 h;
     let b = b\<lparr>bc_queue := q\<rparr>;
     if err \<noteq> OMX_ErrorNone then Some (err, ok, None, b, h)
     else if ptr = 0 then Some (OMX_ErrorNone, False, None, b, h)
     else do {
       c \<leftarrow> items h ptr;
       h \<leftarrow> free_item ptr h;
       Some (OMX_ErrorNone, True, Some c, b, h)
     }
   }"

text \<open>OMX\_UUIDTYPE is 128 bytes; ival is the component handle.\<close>

definition generate_uuid :: "omx_u32 \<Rightarrow> byte list" where
  "generate_uuid ival = List.map (\<lambda>i. ucast (drop_bit (i mod 8) ival)) [0 ..< 128]"

text \<open>The handler a command carries is called with the command's arguments; any other
  command type fails the assertion.\<close>

definition cmd_dispatch ::
  "('f \<Rightarrow> omx_commandtype \<Rightarrow> omx_u32 \<Rightarrow> addr \<Rightarrow> 's \<Rightarrow> (omx_errortype \<times> 's) option)
    \<Rightarrow> 'f cmd \<Rightarrow> 's \<Rightarrow> (omx_errortype \<times> 's) option" where
  "cmd_dispatch call c s =
     (case c_type c of
        CMD_SEND_COMMAND \<Rightarrow>
          call (a_fun (c_arg c)) (a_cmd (c_arg c)) (a_param1 (c_arg c)) (a_data (c_arg c)) s
      | CMD_EXIT_LOOP \<Rightarrow> None)"

subsection \<open>The command queue\<close>

text \<open>The queue of b holds the commands cs: its data pointers are distinct live blocks with
  these contents.\<close>

definition commands ::
  "'t basecomp \<Rightarrow> 'f cmd_heap \<Rightarrow> 'f cmd list \<Rightarrow> bool" where
  "commands b h cs =
     (\<exists>xs. queue_is (bc_queue b) h xs \<and> distinct xs \<and> map (items h) xs = map Some cs)"

lemma map_items_upd:
  "x \<notin> set xs \<Longrightarrow> map (m(x := y)) xs = map m xs"
  by (induction xs) auto

lemma queue_is_items [simp]:
  "queue_is q (h\<lparr>items := m\<rparr>) xs = queue_is q h xs"
  "queue_is q (h\<lparr>w_now := k\<rparr>) xs = queue_is q h xs"
  by (simp_all add: queue_is_def chain_ok_def contents_def)

lemma send_command_commands:
  assumes b: "commands b h cs" and len: "length cs < 2 ^ 64 - 1"
    and s: "basecomp_send_command b c h = Some (err, b', h')"
  shows "commands b' h' (if err = OMX_ErrorNone then cs @ [c] else cs)"
proof -
  obtain xs where xs: "queue_is (bc_queue b) h xs" "distinct xs" "map (items h) xs = map Some cs"
    using b by (auto simp: commands_def)
  have lxs: "length xs = length cs" using arg_cong[OF xs(3), of length] by simp
  obtain p h1 where p: "sys_malloc (live h) h = (p, h1)" by fastforce
  note h1 = sys_malloc_world[OF p]
  show ?thesis
  proof (cases "p = 0")
    case True
    with s p h1 xs show ?thesis
      by (auto simp: basecomp_send_command_def commands_def)
  next
    case False
    have fresh: "items h p = None" using sys_malloc_fresh[OF p False] by (simp add: live_def)
    then have pxs: "p \<notin> set xs" 
      using xs(3) by (metis (no_types, lifting) in_set_conv_nth length_map nth_map option.distinct(1))
    let ?h = "h1\<lparr>items := (items h1)(p \<mapsto> c)\<rparr>"
    obtain e q h2 where push: "msgque_push_back (bc_queue b) p ?h = Some (e, q, h2)"
      and r: "err = e" "b' = b\<lparr>bc_queue := q\<rparr>"
        "if e = OMX_ErrorNone then h' = h2 else free_item p h2 = Some h'"
      using s p False by (auto simp: basecomp_send_command_def Let_def bind_cases split: if_splits)
    have "queue_is (bc_queue b) ?h xs" using xs(1) h1 by simp
    from msgque_push_back_is[OF this _ push] len lxs
    have q: "queue_is q h2 (if e = OMX_ErrorNone then xs @ [p] else xs)" "items h2 = (items h)(p \<mapsto> c)"
      using h1 by auto
    show ?thesis
    proof (cases "e = OMX_ErrorNone")
      case True
      with q r pxs xs show ?thesis
        by (auto simp: commands_def map_items_upd intro!: exI[of _ "xs @ [p]"])
    next
      case False
      with q r pxs xs show ?thesis
        by (auto simp: commands_def free_item_def map_items_upd intro!: exI[of _ xs])
    qed
  qed
qed

lemma try_recv_commands:
  assumes b: "commands b h cs"
    and s: "basecomp_try_recv_command b ok h = Some (err, ok', c, b', h')"
  shows "commands b' h' (if err = OMX_ErrorNone then tl cs else cs)
    \<and> c = (if err = OMX_ErrorNone \<and> cs \<noteq> [] then Some (hd cs) else None)
    \<and> ok' = (if err = OMX_ErrorNone then cs \<noteq> [] else ok)"
proof -
  obtain xs where xs: "queue_is (bc_queue b) h xs" "distinct xs" "map (items h) xs = map Some cs"
    using b by (auto simp: commands_def)
  obtain e p q h2 where get: "msgque_get_front (bc_queue b) 0 h = Some (e, p, q, h2)"
    using s by (auto simp: basecomp_try_recv_command_def bind_cases)
  note g = msgque_get_front_is[OF xs(1) get]
  show ?thesis
  proof (cases "e = OMX_ErrorNone \<and> cs \<noteq> []")
    case True
    then obtain c0 cs0 x xs0 where c: "cs = c0 # cs0" "xs = x # xs0"
      using xs(3) by (cases cs; cases xs) auto
    then have x: "items h x = Some c0" "map (items h) xs0 = map Some cs0" "x \<notin> set xs0" "x \<noteq> 0"
      using xs queue_is_nonzero[OF xs(1)] by auto
    with g c s get True xs(2) show ?thesis
      by (auto simp: basecomp_try_recv_command_def Let_def free_item_def commands_def map_items_upd
          intro!: exI[of _ xs0])
  next
    case False
    have q: "queue_is q h2 xs" "p = 0" "e = OMX_ErrorNone \<Longrightarrow> cs = []"
      using False g xs(3) by (cases "e = OMX_ErrorNone"; simp)+
    then have "err = e" "b' = b\<lparr>bc_queue := q\<rparr>" "h' = h2" "c = None"
        "ok' = (if e = OMX_ErrorNone then False else ok)"
      using s get by (auto simp: basecomp_try_recv_command_def Let_def split: if_splits)
    with q g xs show ?thesis by (auto simp: commands_def)
  qed
qed

lemma recv_command_commands:
  assumes b: "commands b h cs"
    and s: "basecomp_recv_command b h = Some (err, c, b', h')"
  shows "if err = OMX_ErrorNone
    then cs \<noteq> [] \<and> c = Some (hd cs) \<and> commands b' h' (tl cs)
    else c = None \<and> commands b' h' cs"
proof -
  obtain e p q h2 where "msgque_get_front (bc_queue b) 0 h = Some (e, p, q, h2)"
    using s by (auto simp: basecomp_recv_command_def bind_cases)
  with s have "basecomp_try_recv_command b False h = Some (err, err = OMX_ErrorNone, c, b', h')"
    by (cases "e = OMX_ErrorNone"; cases "p = 0")
      (auto simp: basecomp_recv_command_def basecomp_try_recv_command_def Let_def bind_cases)
  from try_recv_commands[OF b this] show ?thesis by (auto split: if_splits)
qed

definition bc_push ::
  "'f cmd \<Rightarrow> 't basecomp \<times> 'f cmd_heap \<Rightarrow> (omx_errortype \<times> 't basecomp \<times> 'f cmd_heap) option" where
  "bc_push c s = basecomp_send_command (fst s) c (snd s)"

definition bc_pop ::
  "'t basecomp \<times> 'f cmd_heap
    \<Rightarrow> (omx_errortype \<times> 'f cmd option \<times> 't basecomp \<times> 'f cmd_heap) option" where
  "bc_pop s = do {
     (err, _, c, b, h) \<leftarrow> basecomp_try_recv_command (fst s) False (snd s);
     Some (err, c, b, h)
   }"

interpretation bc: fifo "\<lambda>s cs. commands (fst s) (snd s) cs" bc_push bc_pop "2 ^ 64 - 1"
proof (unfold_locales, goal_cases)
  case (1 s xs x err s')
  then show ?case
    using send_command_commands[of "fst s" "snd s" xs x err "fst s'" "snd s'"]
    by (simp add: bc_push_def)
next
  case (2 s xs err r s')
  then obtain ok where "basecomp_try_recv_command (fst s) False (snd s)
      = Some (err, ok, r, fst s', snd s')"
    by (auto simp: bc_pop_def bind_cases)
  from try_recv_commands[OF 2(1) this] show ?case by simp
qed

lemma basecomp_init_commands:
  assumes "basecomp_init pAttr f h = Some (OMX_ErrorNone, pAttr', b, h')"
  shows "commands b h' [] \<and> bc_thread b = Some f"
proof -
  obtain err p q h1 where q: "msgque_init pAttr h = (err, p, q, h1)"
    by (cases "msgque_init pAttr h") auto
  note i = msgque_init_cases[OF q]
  obtain x h2 where x: "sys_malloc (live h1) h1 = (x, h2)" by fastforce
  obtain e t h3 where t: "OSAL_ThreadCreate f h2 = (e, t, h3)" by (metis prod_cases3)
  have "err = OMX_ErrorNone \<and> x \<noteq> 0 \<and> e = OMX_ErrorNone \<and> h' = h3 \<and> b = \<lparr>bc_thread = t, bc_queue = q\<rparr>"
    using assms q x t by (auto simp: basecomp_init_def Let_def bind_cases split: if_splits)
  moreover have "\<exists>k. h3 = h1\<lparr>w_now := k\<rparr>" and "e = OMX_ErrorNone \<Longrightarrow> t = Some f"
    using t sys_malloc_world[OF x]
    by (auto simp: OSAL_ThreadCreate_def sys_malloc_def sys_call_def Let_def split: if_splits)
  ultimately show ?thesis using i by (auto simp: commands_def)
qed

lemma bit_generate_uuid:
  "k < 8 \<Longrightarrow> j < 8 \<Longrightarrow> bit (generate_uuid a ! k) j = bit a (k + j)"
  by (simp add: generate_uuid_def bit_simps)

lemma generate_uuid_eq:
  "generate_uuid a = generate_uuid b \<longleftrightarrow> take_bit 15 a = take_bit 15 b"
proof
  assume eq: "generate_uuid a = generate_uuid b"
  show "take_bit 15 a = take_bit 15 b"
  proof (rule bit_word_eqI)
    fix n assume "n < LENGTH(64)"
    have "bit a n = bit b n" if "n < 15"
    proof -
      have "n - 7 < 8" "min n 7 < 8" "n - 7 + min n 7 = n" using that by auto
      then show ?thesis using bit_generate_uuid[of "n - 7" "min n 7"] eq by metis
    qed
    then show "bit (take_bit 15 a) n = bit (take_bit 15 b) n" by (auto simp: bit_simps)
  qed
next
  assume eq: "take_bit 15 a = take_bit 15 b"
  have "(ucast (drop_bit (i mod 8) a) :: byte) = ucast (drop_bit (i mod 8) b)" for i
  proof (rule bit_word_eqI)
    fix n assume "n < LENGTH(8)"
    then have "i mod 8 + n < 15" by simp
    then have "bit a (i mod 8 + n) = bit b (i mod 8 + n)"
      using eq by (metis bit_take_bit_iff)
    then show "bit (ucast (drop_bit (i mod 8) a) :: byte) n = bit (ucast (drop_bit (i mod 8) b) :: byte) n"
      by (simp add: bit_simps)
  qed
  then show "generate_uuid a = generate_uuid b" by (simp add: generate_uuid_def)
qed

subsection \<open>Properties\<close>

text \<open>C24: Commands reach the component's thread in the order they were sent: after a
  successful HantroOmx\_basecomp\_init, for any interleaving of sends and receives and whichever
  system calls fail, the commands received followed by those still queued are exactly the
  commands whose send reported success, unchanged and in order.\<close>

theorem basecomp_commands_in_order:
  assumes "basecomp_init pAttr f h0 = Some (OMX_ErrorNone, pAttr', b, h)" "length calls < 2 ^ 64"
    "queue_run bc_push bc_pop calls (b, h) = Some (sent, received, b', h')"
  shows "\<exists>queued. sent = received @ queued \<and> commands b' h' queued"
  using bc.run_order[of "(b, h)" "[]" calls sent received "(b', h')"]
    basecomp_init_commands[OF assms(1)] assms(2,3) by auto

text \<open>A concrete run.\<close>

definition start_cmd_heap :: "nat cmd_heap" where
  "start_cmd_heap = \<lparr>w_now = 0, w_rc = (\<lambda>_. 0), w_ptr = (\<lambda>n. 100 + n),
     nodes = Map.empty, items = Map.empty\<rparr>"

definition flush_cmd :: "omx_u32 \<Rightarrow> nat cmd" where
  "flush_cmd port = \<lparr>c_type = CMD_SEND_COMMAND,
     c_arg = \<lparr>a_cmd = OMX_CommandFlush, a_param1 = port, a_data = 0, a_fun = 1\<rparr>\<rparr>"

lemmas basecomp_eval = bc_push_def bc_pop_def basecomp_init_def basecomp_send_command_def
  basecomp_try_recv_command_def OSAL_ThreadCreate_def free_item_def msgque_eval

lemma basecomp_commands_in_order_witness:
  "\<exists>b0 h0 b h. basecomp_init False (7 :: nat) start_cmd_heap = Some (OMX_ErrorNone, True, b0, h0)
     \<and> queue_run bc_push bc_pop [Push (flush_cmd 0), Push (flush_cmd 1), Pop] (b0, h0)
       = Some ([flush_cmd 0, flush_cmd 1], [flush_cmd 0], b, h)
     \<and> commands b h [flush_cmd 1]"
proof -
  obtain b0 h0 where i: "basecomp_init False (7 :: nat) start_cmd_heap
      = Some (OMX_ErrorNone, True, b0, h0)"
    and b0: "b0 = \<lparr>bc_thread = Some 7, bc_queue = start_queue\<rparr>" "h0 = start_cmd_heap\<lparr>w_now := 10\<rparr>"
    by (simp add: basecomp_eval start_cmd_heap_def)
  obtain b h where r: "queue_run bc_push bc_pop
      [Push (flush_cmd 0), Push (flush_cmd 1), Pop] (b0, h0)
    = Some ([flush_cmd 0, flush_cmd 1], [flush_cmd 0], b, h)"
    by (simp add: b0 basecomp_eval start_cmd_heap_def)
  from basecomp_commands_in_order[OF i _ r] have "commands b h [flush_cmd 1]" by auto
  with i r show ?thesis by blast
qed

text \<open>The identifier HantroOmx\_generate\_uuid computes depends on the low 15 bits of the
  component handle only: two components have the same identifier exactly if their handles agree
  in these bits.\<close>

theorem generate_uuid_low_bits:
  "(generate_uuid a = generate_uuid b) = (a AND 0x7FFF = b AND 0x7FFF)"
proof -
  have "x AND 0x7FFF = take_bit 15 x" for x :: omx_u32
    by (simp add: take_bit_eq_mask mask_eq_exp_minus_1)
  then show ?thesis by (simp add: generate_uuid_eq)
qed

text \<open>HantroOmx\_basecomp\_recv\_command never hands out a command that was not sent: it
  either reports the error of the queue and leaves the commands as they are, or returns the
  oldest command and removes it.\<close>

theorem basecomp_recv_oldest:
  assumes "commands b h cs" "basecomp_recv_command b h = Some (err, c, b', h')"
  shows "(err = OMX_ErrorNone \<and> cs \<noteq> [] \<and> c = Some (hd cs) \<and> commands b' h' (tl cs))
    \<or> (err \<noteq> OMX_ErrorNone \<and> c = None \<and> commands b' h' cs)"
  using recv_command_commands[OF assms] by (auto split: if_splits)

lemma basecomp_recv_oldest_witness:
  "\<exists>(b :: nat basecomp) h b' h'. basecomp_recv_command b h = Some (OMX_ErrorNone, Some (flush_cmd 0), b', h')
     \<and> commands b' h' []"
proof -
  let ?b0 = "\<lparr>bc_thread = Some (7 :: nat), bc_queue = start_queue\<rparr>"
  let ?h0 = "start_cmd_heap\<lparr>w_now := 10\<rparr>"
  have c0: "commands ?b0 ?h0 []"
    by (auto simp: commands_def queue_is_def chain_ok_def contents_def sync_ok_def
        start_queue_def event_is_def)
  obtain b h where s: "basecomp_send_command ?b0 (flush_cmd 0) ?h0 = Some (OMX_ErrorNone, b, h)"
    and r: "\<exists>b' h'. basecomp_recv_command b h = Some (OMX_ErrorNone, Some (flush_cmd 0), b', h')"
    by (simp add: basecomp_eval start_cmd_heap_def basecomp_recv_command_def)
  have c: "commands b h [flush_cmd 0]" using send_command_commands[OF c0 _ s] by simp
  from r obtain b' h' where r': "basecomp_recv_command b h
      = Some (OMX_ErrorNone, Some (flush_cmd 0), b', h')" by blast
  from basecomp_recv_oldest[OF c r'] r' show ?thesis by auto
qed

end
