(* ===== verification/DecState.thy ===== *)
theory DecState
  imports Decoder Basecomp
begin

text \<open>
  The command handlers of the decoder component, source/decoder/decoder.c: the state transitions
  of OMX\_CommandStateSet, flushing, disabling and enabling ports, and the entry point
  decoder\_send\_command that hands a command to the component thread. The configuration of the post
  processor (pp\_args), the codec state and the guard-buffer count, which only the decoding loop
  reads, are left out.
\<close>

subsection \<open>From loaded to idle\<close>

definition supply_if_supplier :: "peer \<Rightarrow> port_id \<Rightarrow> decoder \<Rightarrow> (bool \<times> decoder) option" where
  "supply_if_supplier pe i d =
     (if \<not> port_is_supplier (port_of i d) then Some (True, d)
      else do {
        (err, d) \<leftarrow> supply_tunneled_port pe i d;
        Some (err = OMX_ErrorNone, d)
      })"

text \<open>The loop that waits until the input and the output port are populated; the result says
  whether they are (else a wait timed out).\<close>

partial_function (option) wait_populated :: "peer \<Rightarrow> decoder \<Rightarrow> (bool \<times> decoder) option" where
  "wait_populated pe d = do {
     (rin, d) \<leftarrow> on_port PIn port_is_ready d;
     (rout, d) \<leftarrow> (if rin then on_port POut port_is_ready d else Some (False, d));
     if rin \<and> rout then Some (True, d)
     else do {
       (timeout, d) \<leftarrow> wait_ready pe PIn d;
       if timeout then Some (False, d)
       else do {
         (timeout, d) \<leftarrow> wait_ready pe POut d;
         if timeout then Some (False, d) else wait_populated pe d
       }
     }
   }"

text \<open>The temporary frame buffers, the mask and the propagate buffer. The truth value says that all
  were allocated.\<close>

definition alloc_frames :: "decoder \<Rightarrow> omx_errortype \<times> decoder" where
  "alloc_frames d =
     (let insize = nBufferSize (p_def (d_in d)); outsize = nBufferSize (p_def (d_out d));
          masksize = d_pp_width d * d_pp_height d * 4
      in case alloc_mem d of (err, mem, d) \<Rightarrow>
        if err \<noteq> OMX_ErrorNone then (err, d)
        else
          let d = d\<lparr>d_frame_in := (d_frame_in d)\<lparr>fb_bus_data := mem, fb_bus_address := mem, fb_capacity := insize\<rparr>\<rparr>
          in (case alloc_mem d of (err, mem, d) \<Rightarrow>
            if err \<noteq> OMX_ErrorNone then (err, d)
            else
              let d = d\<lparr>d_frame_out := (d_frame_out d)\<lparr>fb_bus_data := mem, fb_bus_address := mem, fb_capacity := outsize\<rparr>\<rparr>
              in if \<not> bEnabled (p_def (d_inpp d)) then (OMX_ErrorNone, d)
                 else if masksize = 0 then (OMX_ErrorNone, d\<lparr>d_mask := (d_mask d)\<lparr>fb_capacity := masksize\<rparr>\<rparr>)
                 else (case alloc_mem d of (err, mem, d) \<Rightarrow>
                   if err \<noteq> OMX_ErrorNone then (err, d)
                   else (OMX_ErrorNone, d\<lparr>d_mask := (d_mask d)\<lparr>fb_bus_data := mem, fb_bus_address := mem,
                     fb_capacity := masksize\<rparr>\<rparr>))))"

definition init_propagate_buffer :: "decoder \<Rightarrow> decoder" where
  "init_propagate_buffer d =
     (case sys_malloc (\<lambda>_. False) d of (p, d) \<Rightarrow>
        d\<lparr>d_prop := (d_prop d)\<lparr>dp_buf := \<lparr>
          pr_data = (if p = 0 then None else Some (replicate (input_cells MAX_TICK_COUNTS) zero_input)),
          pr_capacity = MAX_TICK_COUNTS, pr_count = 0\<rparr>\<rparr>\<rparr>)"

text \<open>FRAME\_BUFF\_FREE if the test holds, and memset of the frame buffer.\<close>

definition free_frame :: "addr \<Rightarrow> frame_buffer \<Rightarrow> decoder \<Rightarrow> decoder option" where
  "free_frame test fb d = (if test = 0 then Some d else free_mem (fb_bus_data fb) d)"

text \<open>The label FAIL of transition\_to\_idle\_from\_loaded.\<close>

definition idle_from_loaded_fail :: "decoder \<Rightarrow> decoder option" where
  "idle_from_loaded_fail d = do {
     d \<leftarrow> free_frame (fb_bus_address (d_frame_out d)) (d_frame_out d) d;
     let d = (if fb_bus_address (d_frame_out d) = 0 then d else d\<lparr>d_frame_out := zero_frame_buffer\<rparr>);
     d \<leftarrow> free_frame (fb_bus_data (d_frame_in d)) (d_frame_in d) d;
     let d = (if fb_bus_data (d_frame_in d) = 0 then d else d\<lparr>d_frame_in := zero_frame_buffer\<rparr>);
     let d = (if pr_data (dp_buf (d_prop d)) = None then d
              else d\<lparr>d_prop := reset_propagation ((d_prop d)\<lparr>dp_buf := zero_propagate_buffer\<rparr>)\<rparr>);
     d \<leftarrow> free_frame (fb_bus_data (d_mask d)) (d_mask d) d;
     let d = (if fb_bus_data (d_mask d) = 0 then d else d\<lparr>d_mask := zero_frame_buffer\<rparr>);
     Some (if d_codec d = 0 then d else log_call CodecDestroy (d\<lparr>d_codec := 0\<rparr>))
   }"

definition transition_to_idle_from_loaded :: "peer \<Rightarrow> decoder \<Rightarrow> (omx_errortype \<times> decoder) option" where
  "transition_to_idle_from_loaded pe d =
     (if d_state d \<noteq> OMX_StateLoaded \<or> d_statetrans d \<noteq> OMX_StateIdle \<or> d_codec d \<noteq> 0
         \<or> fb_bus_data (d_frame_in d) \<noteq> 0 \<or> fb_bus_data (d_frame_out d) \<noteq> 0 \<or> fb_bus_data (d_mask d) \<noteq> 0
      then None
      else
        let fail = (\<lambda>err d. map_option (Pair err) (idle_from_loaded_fail d))
        in do {
          (ok, d) \<leftarrow> supply_if_supplier pe PIn d;
          if \<not> ok then fail OMX_ErrorHardware d else do {
          (ok, d) \<leftarrow> supply_if_supplier pe POut d;
          if \<not> ok then fail OMX_ErrorHardware d else do {
          (ok, d) \<leftarrow> supply_if_supplier pe PPp d;
          if \<not> ok then fail OMX_ErrorHardware d else do {
          (ok, d) \<leftarrow> wait_populated pe d;
          if \<not> ok then fail OMX_ErrorTimeout d
          else
            case create_codec pe OMX_ErrorHardware d of (err, d) \<Rightarrow>
            if d_codec d = 0 then fail err d
            else (case alloc_frames d of (err, d) \<Rightarrow>
              if err \<noteq> OMX_ErrorNone then fail err d
              else Some (OMX_ErrorNone, init_propagate_buffer d))
          }}}
        })"

subsection \<open>The other transitions\<close>

definition transition_to_idle_from_paused :: "peer \<Rightarrow> decoder \<Rightarrow> (omx_errortype \<times> decoder) option" where
  "transition_to_idle_from_paused pe d =
     (if d_state d \<noteq> OMX_StatePause \<or> d_statetrans d \<noteq> OMX_StateIdle then None
      else do {
        (_, d) \<leftarrow> async_decoder_return_buffers pe PIn d;
        (_, d) \<leftarrow> async_decoder_return_buffers pe POut d;
        (_, d) \<leftarrow> async_decoder_return_buffers pe PPp d;
        Some (OMX_ErrorNone, d)
      })"

text \<open>The dynamic parameters that leaving the executing state and flushing all ports clear.\<close>

definition clear_dynamic :: "decoder \<Rightarrow> decoder" where
  "clear_dynamic d = d\<lparr>d_frame_in := (d_frame_in d)\<lparr>fb_size := 0\<rparr>, d_outputBufList := replicate 34 0,
     d_outputBufSize := 0, d_releaseBuffers := False, d_portReconfigPending := False, d_run := True,
     d_buffer := 0, sh_EOS := False, sh_eos_bus_address := 0\<rparr>"

definition transition_to_idle_from_executing :: "peer \<Rightarrow> decoder \<Rightarrow> (omx_errortype \<times> decoder) option" where
  "transition_to_idle_from_executing pe d =
     (if d_state d \<noteq> OMX_StateExecuting \<or> d_statetrans d \<noteq> OMX_StateIdle then None
      else do {
        (_, d) \<leftarrow> async_decoder_return_buffers pe PIn d;
        (_, d) \<leftarrow> async_decoder_return_buffers pe POut d;
        (_, d) \<leftarrow> async_decoder_return_buffers pe PPp d;
        d \<leftarrow> wait_supplied_buffers pe PIn d;
        d \<leftarrow> wait_supplied_buffers pe POut d;
        d \<leftarrow> wait_supplied_buffers pe PPp d;
        Some (OMX_ErrorNone, clear_dynamic d)
      })"

definition unsupply_if_supplier :: "port_id \<Rightarrow> decoder \<Rightarrow> decoder option" where
  "unsupply_if_supplier i d =
     (if port_is_supplier (port_of i d) then map_option snd (unsupply_tunneled_port i d) else Some d)"

text \<open>The loop condition HantroOmx\_port\_has\_buffers(in) || ... (out) || ... (inpp)\<close>

definition any_port_has_buffers :: "decoder \<Rightarrow> (bool \<times> decoder) option" where
  "any_port_has_buffers d = do {
     (b, d) \<leftarrow> on_port PIn port_has_buffers d;
     if b then Some (True, d)
     else do {
       (b, d) \<leftarrow> on_port POut port_has_buffers d;
       if b then Some (True, d) else on_port PPp port_has_buffers d
     }
   }"

definition clear_loaded :: "decoder \<Rightarrow> decoder" where
  "clear_loaded d = d\<lparr>d_codec := 0, d_buffer := 0, d_run := True, d_checkExtraBuffers := False,
     d_portReconfigPending := False, d_disablingOutPort := False, d_flushingOutPort := False,
     d_releaseBuffers := False, sh_EOS := False, sh_inbuff := 0, sh_output_thread_run := False,
     sh_output_thread := False, sh_hasFrame := False, sh_eos_bus_address := 0,
     d_prop := reset_propagation ((d_prop d)\<lparr>dp_buf := zero_propagate_buffer\<rparr>),
     d_marks := (d_marks d)\<lparr>mr_count := 0, mr_read := 0, mr_write := 0\<rparr>,
     d_frame_in := zero_frame_buffer, d_frame_out := zero_frame_buffer, d_mask := zero_frame_buffer\<rparr>"

definition transition_to_loaded_from_idle :: "peer \<Rightarrow> decoder \<Rightarrow> (omx_errortype \<times> decoder) option" where
  "transition_to_loaded_from_idle pe d =
     (if d_state d \<noteq> OMX_StateIdle \<or> d_statetrans d \<noteq> OMX_StateLoaded then None
      else do {
        d \<leftarrow> unsupply_if_supplier PIn d;
        d \<leftarrow> unsupply_if_supplier POut d;
        d \<leftarrow> unsupply_if_supplier PPp d;
        if port_buffer_queue_count (d_in d) \<noteq> 0 \<or> port_buffer_queue_count (d_out d) \<noteq> 0
            \<or> port_buffer_queue_count (d_inpp d) \<noteq> 0 then None
        else do {
          d \<leftarrow> wait_while any_port_has_buffers (pe_env pe) d;
          if d_codec d = 0 then None
          else do {
            let d = log_call CodecDestroy d;
            d \<leftarrow> free_frame (fb_bus_address (d_frame_in d)) (d_frame_in d) d;
            d \<leftarrow> free_frame (fb_bus_address (d_frame_out d)) (d_frame_out d) d;
            d \<leftarrow> free_frame (fb_bus_address (d_mask d)) (d_mask d) d;
            Some (OMX_ErrorNone, clear_loaded d)
          }
        }
      })"

definition transition_to_loaded_from_wait_for_resources :: "decoder \<Rightarrow> (omx_errortype \<times> decoder) option" where
  "transition_to_loaded_from_wait_for_resources d =
     (if d_state d \<noteq> OMX_StateWaitForResources \<or> d_statetrans d \<noteq> OMX_StateLoaded then None
      else Some (OMX_ErrorNone, d))"

definition transition_to_executing_from_paused :: "decoder \<Rightarrow> (omx_errortype \<times> decoder) option" where
  "transition_to_executing_from_paused d =
     (if d_state d \<noteq> OMX_StatePause \<or> d_statetrans d \<noteq> OMX_StateExecuting then None
      else Some (OMX_ErrorNone, d))"

text \<open>pthread\_create of the output thread, if there is none.\<close>

definition create_output_thread :: "decoder \<Rightarrow> decoder" where
  "create_output_thread d =
     (if sh_output_thread d then d
      else (case sys_call d of (r, d) \<Rightarrow> d\<lparr>sh_output_thread_run := True, sh_output_thread := (r = 0)\<rparr>))"

definition transition_to_executing_from_idle :: "decoder \<Rightarrow> (omx_errortype \<times> decoder) option" where
  "transition_to_executing_from_idle d =
     (if d_state d \<noteq> OMX_StateIdle \<or> d_statetrans d \<noteq> OMX_StateExecuting then None
      else Some (OMX_ErrorNone, create_output_thread (d\<lparr>d_releaseBuffers := False\<rparr>)))"

definition transition_to_wait_for_resources_from_loaded :: "decoder \<Rightarrow> (omx_errortype \<times> decoder) option" where
  "transition_to_wait_for_resources_from_loaded d =
     (if d_state d \<noteq> OMX_StateLoaded \<or> d_statetrans d \<noteq> OMX_StateWaitForResources then None
      else Some (OMX_ErrorNone, d))"


subsection \<open>OMX\_CommandStateSet\<close>

text \<open>The cast of nParam1 to OMX\_STATETYPE\<close>

definition to_state :: "omx_u32 \<Rightarrow> omx_statetype" where
  "to_state n =
     (if n = 0 then OMX_StateInvalid else if n = 1 then OMX_StateLoaded
      else if n = 2 then OMX_StateIdle else if n = 3 then OMX_StateExecuting
      else if n = 4 then OMX_StatePause else if n = 5 then OMX_StateWaitForResources
      else OMX_StateReserved (unat n))"

text \<open>Joining the output thread (other threads work until it ends) and aborting the codec.\<close>

definition join_output_thread :: "peer \<Rightarrow> decoder \<Rightarrow> decoder" where
  "join_output_thread pe d =
     (if sh_output_thread d then (pe_env pe d)\<lparr>sh_output_thread_run := False, sh_output_thread := False\<rparr> else d)"

definition codec_call :: "dec_call \<Rightarrow> decoder \<Rightarrow> decoder option" where
  "codec_call c d = (if d_codec d = 0 then None else Some (log_call c d))"

text \<open>The state switch; None is also the failed assertion on a state out of the enumeration.\<close>

definition state_switch :: "peer \<Rightarrow> omx_statetype \<Rightarrow> decoder \<Rightarrow> (omx_errortype \<times> decoder) option" where
  "state_switch pe nextstate d =
     (let stay = Some (OMX_ErrorIncorrectStateTransition, d)
      in case nextstate of
        OMX_StateIdle \<Rightarrow>
          (case d_state d of
             OMX_StateLoaded \<Rightarrow> transition_to_idle_from_loaded pe d
           | OMX_StatePause \<Rightarrow> transition_to_idle_from_paused pe d
           | OMX_StateExecuting \<Rightarrow> do {
               d \<leftarrow> codec_call CodecAbortAfter (join_output_thread pe d);
               transition_to_idle_from_executing pe d
             }
           | _ \<Rightarrow> stay)
      | OMX_StateLoaded \<Rightarrow>
          (case d_state d of
             OMX_StateIdle \<Rightarrow> transition_to_loaded_from_idle pe d
           | OMX_StateWaitForResources \<Rightarrow> transition_to_loaded_from_wait_for_resources d
           | _ \<Rightarrow> stay)
      | OMX_StateExecuting \<Rightarrow>
          (case d_state d of
             OMX_StatePause \<Rightarrow> transition_to_executing_from_paused d
           | OMX_StateIdle \<Rightarrow> transition_to_executing_from_idle d
           | _ \<Rightarrow> stay)
      | OMX_StatePause \<Rightarrow>
          (if d_state d = OMX_StateIdle \<or> d_state d = OMX_StateExecuting then Some (OMX_ErrorNone, d) else stay)
      | OMX_StateWaitForResources \<Rightarrow>
          (if d_state d = OMX_StateLoaded then transition_to_wait_for_resources_from_loaded d else stay)
      | OMX_StateInvalid \<Rightarrow> Some (OMX_ErrorInvalidState, d)
      | OMX_StateReserved _ \<Rightarrow> None)"

definition startup_port :: "peer \<Rightarrow> port_id \<Rightarrow> decoder \<Rightarrow> (omx_errortype \<times> decoder) option" where
  "startup_port pe i d = do {
     (err, d) \<leftarrow> startup_tunnel pe i d;
     Some (err, if err = OMX_ErrorNone then d else d\<lparr>d_state := OMX_StateInvalid, d_run := False\<rparr>)
   }"

definition async_decoder_set_state :: "peer \<Rightarrow> omx_u32 \<Rightarrow> decoder \<Rightarrow> (omx_errortype \<times> decoder) option" where
  "async_decoder_set_state pe nParam1 d =
     (let nextstate = to_state nParam1
      in if nextstate = d_state d then Some (OMX_ErrorNone, log_call (EvError OMX_ErrorSameState) d)
         else do {
           (err, d) \<leftarrow> state_switch pe nextstate d;
           if err \<noteq> OMX_ErrorNone then
             let d = (if err \<noteq> OMX_ErrorIncorrectStateTransition
                      then d\<lparr>d_state := OMX_StateInvalid, d_run := False\<rparr>
                      else d\<lparr>d_statetrans := d_state d\<rparr>)
             in Some (err, log_call (EvError err) d)
           else
             let d = log_call (EvStateSet nextstate) (d\<lparr>d_statetrans := nextstate, d_state := nextstate\<rparr>)
             in if nextstate = OMX_StateExecuting then do {
                  (_, d) \<leftarrow> startup_port pe PIn d;
                  (_, d) \<leftarrow> startup_port pe PPp d;
                  startup_port pe POut d
                } else Some (OMX_ErrorNone, d)
         })"

subsection \<open>Flushing, disabling and enabling ports\<close>

text \<open>The end of async\_decoder\_flush\_port: zero the whole propagate array.\<close>

definition flush_propagation :: "decoder \<Rightarrow> decoder option" where
  "flush_propagation d =
     (let dp = d_prop d; fb = dp_buf dp; n = input_cells (pr_capacity fb)
      in do {
        data \<leftarrow> (case pr_data fb of
            None \<Rightarrow> if n = 0 then Some None else None
          | Some xs \<Rightarrow> if n \<le> length xs then Some (Some (replicate n zero_input @ drop n xs)) else None);
        Some (d\<lparr>d_prop := reset_propagation (dp\<lparr>dp_buf := fb\<lparr>pr_data := data, pr_count := 0\<rparr>\<rparr>)\<rparr>)
      })"

definition flush_fail :: "omx_errortype \<Rightarrow> decoder \<Rightarrow> omx_errortype \<times> decoder" where
  "flush_fail err d = (err, log_call (EvError err) (d\<lparr>d_state := OMX_StateInvalid, d_run := False\<rparr>))"

definition flush_all_ports :: "peer \<Rightarrow> decoder \<Rightarrow> (omx_errortype \<times> decoder) option" where
  "flush_all_ports pe d = do {
     d \<leftarrow> codec_call CodecAbortAfter (join_output_thread pe d);
     (err, d) \<leftarrow> async_decoder_return_buffers pe PIn d;
     if err \<noteq> OMX_ErrorNone then Some (err, d) else do {
     (err, d) \<leftarrow> async_decoder_return_buffers pe POut d;
     if err \<noteq> OMX_ErrorNone then Some (err, d) else do {
     (err, d) \<leftarrow> async_decoder_return_buffers pe PPp d;
     if err \<noteq> OMX_ErrorNone then Some (err, d)
     else
       let d = create_output_thread (clear_dynamic d);
           d = fold (\<lambda>i. log_call (EvCmdComplete OMX_CommandFlush i)) [0, 1, 2] d
       in Some (OMX_ErrorNone, d\<lparr>d_flushingOutPort := False\<rparr>)
     }}
   }"

definition flush_one_port :: "peer \<Rightarrow> omx_u32 \<Rightarrow> decoder \<Rightarrow> (omx_errortype \<times> decoder) option" where
  "flush_one_port pe portindex d =
     (case decoder_map_index_to_port portindex of
        None \<Rightarrow> Some (OMX_ErrorNone, d)
      | Some i \<Rightarrow> do {
          (err, d) \<leftarrow> async_decoder_return_buffers pe i d;
          if err \<noteq> OMX_ErrorNone then Some (err, d)
          else
            let d = log_call (EvCmdComplete OMX_CommandFlush portindex) d
            in Some (OMX_ErrorNone, if i = POut then d\<lparr>d_flushingOutPort := False\<rparr> else d)
        })"

definition async_decoder_flush_port :: "peer \<Rightarrow> omx_u32 \<Rightarrow> decoder \<Rightarrow> (omx_errortype \<times> decoder) option" where
  "async_decoder_flush_port pe nParam1 d = do {
     (err, d) \<leftarrow> (if nParam1 = OMX_ALL then flush_all_ports pe d else flush_one_port pe nParam1 d);
     if err \<noteq> OMX_ErrorNone then Some (flush_fail err d)
     else map_option (Pair OMX_ErrorNone) (flush_propagation d)
   }"

text \<open>The results of returning and unsupplying buffers are ignored when a port is disabled.\<close>

definition disable_all_ports :: "peer \<Rightarrow> decoder \<Rightarrow> decoder option" where
  "disable_all_ports pe d = do {
     (_, d) \<leftarrow> async_decoder_return_buffers pe PIn d;
     (_, d) \<leftarrow> async_decoder_return_buffers pe POut d;
     (_, d) \<leftarrow> async_decoder_return_buffers pe PPp d;
     d \<leftarrow> wait_supplied_buffers pe PIn d;
     d \<leftarrow> wait_supplied_buffers pe POut d;
     d \<leftarrow> wait_supplied_buffers pe PPp d;
     d \<leftarrow> unsupply_if_supplier PIn d;
     d \<leftarrow> unsupply_if_supplier POut d;
     d \<leftarrow> unsupply_if_supplier PPp d;
     d \<leftarrow> async_decoder_wait_port_buffer_dealloc pe PIn d;
     d \<leftarrow> async_decoder_wait_port_buffer_dealloc pe POut d;
     d \<leftarrow> async_decoder_wait_port_buffer_dealloc pe PPp d;
     Some (fold (\<lambda>i. log_call (EvCmdComplete OMX_CommandPortDisable i)) [0, 1, 2] d)
   }"

definition disable_one_port :: "peer \<Rightarrow> omx_u32 \<Rightarrow> decoder \<Rightarrow> decoder option" where
  "disable_one_port pe portIndex d = do {
     d \<leftarrow> (case decoder_map_index_to_port portIndex of
         None \<Rightarrow> Some d
       | Some i \<Rightarrow> do {
           (_, d) \<leftarrow> async_decoder_return_buffers pe i d;
           d \<leftarrow> wait_supplied_buffers pe i d;
           d \<leftarrow> unsupply_if_supplier i d;
           async_decoder_wait_port_buffer_dealloc pe i d
         });
     Some (log_call (EvCmdComplete OMX_CommandPortDisable portIndex) d)
   }"

text \<open>In the array of disable\_port the ports stand in the order in, out, inpp, which is that of
  their indices.\<close>

definition async_decoder_disable_port :: "peer \<Rightarrow> omx_u32 \<Rightarrow> decoder \<Rightarrow> (omx_errortype \<times> decoder) option" where
  "async_decoder_disable_port pe nParam1 d = do {
     d \<leftarrow> (if nParam1 = OMX_ALL then disable_all_ports pe d else disable_one_port pe nParam1 d);
     Some (OMX_ErrorNone,
       if d_disablingOutPort d \<and> (nParam1 = PORT_INDEX_OUTPUT \<or> nParam1 = OMX_ALL)
       then d\<lparr>d_disablingOutPort := False, d_outputBufListPrev := d_outputBufList d,
              d_outputBufList := replicate 34 0, d_outputBufSize := 0, d_checkExtraBuffers := False\<rparr>
       else d)
   }"

text \<open>while (!port\_is\_ready(p)) wait for bufferRdy; the result says whether it got ready.\<close>

partial_function (option) wait_port_ready :: "peer \<Rightarrow> port_id \<Rightarrow> decoder \<Rightarrow> (bool \<times> decoder) option" where
  "wait_port_ready pe i d = do {
     (ready, d) \<leftarrow> on_port i port_is_ready d;
     if ready then Some (True, d)
     else do {
       (timeout, d) \<leftarrow> wait_ready pe i d;
       if timeout then Some (False, d) else wait_port_ready pe i d
     }
   }"

text \<open>One of the three blocks of async\_decoder\_enable\_port; an error jumps to FAIL.\<close>

definition enable_one_port :: "peer \<Rightarrow> port_id \<Rightarrow> omx_u32 \<Rightarrow> decoder \<Rightarrow> (omx_errortype \<times> decoder) option" where
  "enable_one_port pe i index d = do {
     (err, d) \<leftarrow> (if d_state d = OMX_StateLoaded then Some (OMX_ErrorNone, d)
       else do {
         (err, d) \<leftarrow> (if port_is_supplier (port_of i d) then supply_tunneled_port pe i d
                    else Some (OMX_ErrorNone, d));
         if err \<noteq> OMX_ErrorNone then Some (err, d)
         else do {
           (ready, d) \<leftarrow> wait_port_ready pe i d;
           Some (if ready then OMX_ErrorNone else OMX_ErrorTimeout, d)
         }
       });
     if err \<noteq> OMX_ErrorNone then Some (err, d)
     else do {
       d \<leftarrow> (if d_state d = OMX_StateExecuting then map_option snd (startup_tunnel pe i d) else Some d);
       let d = log_call (EvCmdComplete OMX_CommandPortEnable index) d;
       Some (OMX_ErrorNone, if i = POut then d\<lparr>d_portReconfigPending := False\<rparr> else d)
     }
   }"

definition async_decoder_enable_port :: "peer \<Rightarrow> omx_u32 \<Rightarrow> decoder \<Rightarrow> (omx_errortype \<times> decoder) option" where
  "async_decoder_enable_port pe portIndex d =
     (let step = (\<lambda>i index (err, d).
            if err = OMX_ErrorNone \<and> (portIndex = index \<or> portIndex = OMX_ALL)
            then enable_one_port pe i index d else Some (err, d))
      in do {
        r \<leftarrow> step PIn PORT_INDEX_INPUT (OMX_ErrorNone, d);
        r \<leftarrow> step POut PORT_INDEX_OUTPUT r;
        (err, d) \<leftarrow> step PPp PORT_INDEX_PP r;
        Some (err, if err = OMX_ErrorNone then d else log_call (EvError err) d)
      })"

text \<open>async\_decoder\_mark\_buffer, with the mark read from its heap block, which is freed.\<close>

definition async_decoder_mark_buffer :: "addr \<Rightarrow> decoder \<Rightarrow> (omx_errortype \<times> decoder) option" where
  "async_decoder_mark_buffer pCmdData d = do {
     mark \<leftarrow> d_markmem d pCmdData;
     (ev, ms) \<leftarrow> mark_buffer mark (d_marks d);
     let d = d\<lparr>d_marks := ms\<rparr>;
     let d = (case ev of None \<Rightarrow> d | Some e \<Rightarrow> log_call (EvError e) d);
     Some (OMX_ErrorNone, d\<lparr>d_markmem := (d_markmem d)(pCmdData := None)\<rparr>)
   }"


subsection \<open>Sending and receiving commands\<close>

text \<open>The handler pointers of the commands. A decoder with its command queue: the decoder, its base
  component and the heap of the queue.\<close>

datatype handler = HSetState | HFlushPort | HDisablePort | HEnablePort | HMarkBuffer

type_synonym 't dec_sys = "decoder \<times> 't basecomp \<times> handler cmd_heap"

definition send :: "handler \<Rightarrow> omx_commandtype \<Rightarrow> omx_u32 \<Rightarrow> addr \<Rightarrow> 't dec_sys \<Rightarrow> (omx_errortype \<times> 't dec_sys) option" where
  "send f Cmd param data s =
     (case s of (d, b, h) \<Rightarrow> do {
        (err, b, h) \<leftarrow> basecomp_send_command b \<lparr>c_type = CMD_SEND_COMMAND,
          c_arg = \<lparr>a_cmd = Cmd, a_param1 = param, a_data = data, a_fun = f\<rparr>\<rparr> h;
        Some (err, d, b, h)
      })"

definition bad_port :: "omx_u32 \<Rightarrow> bool" where
  "bad_port n = (n > PORT_INDEX_PP \<and> n \<noteq> OMX_ALL)"

definition enable_flag :: "bool \<Rightarrow> port \<Rightarrow> port" where
  "enable_flag e p = p\<lparr>p_def := (p_def p)\<lparr>bEnabled := e\<rparr>\<rparr>"

text \<open>Setting bEnabled of the ports a command names.\<close>

definition set_enabled :: "bool \<Rightarrow> omx_u32 \<Rightarrow> decoder \<Rightarrow> decoder" where
  "set_enabled e n d =
     (let d = (if n = PORT_INDEX_INPUT \<or> n = OMX_ALL then d\<lparr>d_in := enable_flag e (d_in d)\<rparr> else d);
          d = (if n = PORT_INDEX_OUTPUT \<or> n = OMX_ALL then d\<lparr>d_out := enable_flag e (d_out d)\<rparr> else d)
      in if n = PORT_INDEX_PP \<or> n = OMX_ALL then d\<lparr>d_inpp := enable_flag e (d_inpp d)\<rparr> else d)"

definition send_set_state :: "omx_u32 \<Rightarrow> 't dec_sys \<Rightarrow> (omx_errortype \<times> 't dec_sys) option" where
  "send_set_state nParam1 s =
     (case s of (d, b, h) \<Rightarrow>
        if d_statetrans d \<noteq> d_state d then Some (OMX_ErrorIncorrectStateTransition, s)
        else do {
          let d = d\<lparr>d_statetrans := to_state nParam1\<rparr>;
          d \<leftarrow> (if d_statetrans d = OMX_StateIdle \<and> d_state d = OMX_StateExecuting
               then codec_call CodecAbort (d\<lparr>d_releaseBuffers := True\<rparr>) else Some d);
          send HSetState OMX_CommandStateSet nParam1 0 (d, b, h)
        })"

definition send_flush :: "omx_u32 \<Rightarrow> 't dec_sys \<Rightarrow> (omx_errortype \<times> 't dec_sys) option" where
  "send_flush nParam1 s =
     (case s of (d, b, h) \<Rightarrow>
        if bad_port nParam1 then Some (OMX_ErrorBadPortIndex, s)
        else do {
          let d = (if nParam1 = PORT_INDEX_OUTPUT \<or> nParam1 = OMX_ALL then d\<lparr>d_flushingOutPort := True\<rparr> else d);
          d \<leftarrow> codec_call CodecAbort (d\<lparr>d_releaseBuffers := True\<rparr>);
          send HFlushPort OMX_CommandFlush nParam1 0 (d, b, h)
        })"

definition send_port_disable :: "omx_u32 \<Rightarrow> 't dec_sys \<Rightarrow> (omx_errortype \<times> 't dec_sys) option" where
  "send_port_disable nParam1 s =
     (case s of (d, b, h) \<Rightarrow>
        if bad_port nParam1 then Some (OMX_ErrorBadPortIndex, s)
        else
          let d = set_enabled False nParam1 d;
              d = (if nParam1 = PORT_INDEX_OUTPUT \<or> nParam1 = OMX_ALL then d\<lparr>d_disablingOutPort := True\<rparr> else d)
          in send HDisablePort OMX_CommandPortDisable nParam1 0 (d, b, h))"

definition send_port_enable :: "omx_u32 \<Rightarrow> 't dec_sys \<Rightarrow> (omx_errortype \<times> 't dec_sys) option" where
  "send_port_enable nParam1 s =
     (case s of (d, b, h) \<Rightarrow>
        if bad_port nParam1 then Some (OMX_ErrorBadPortIndex, s)
        else send HEnablePort OMX_CommandPortEnable nParam1 0 (set_enabled True nParam1 d, b, h))"

definition send_mark_buffer :: "omx_u32 \<Rightarrow> omx_mark option \<Rightarrow> 't dec_sys \<Rightarrow> (omx_errortype \<times> 't dec_sys) option" where
  "send_mark_buffer nParam1 pCmdData s =
     (case s of (d, b, h) \<Rightarrow>
        if nParam1 \<noteq> PORT_INDEX_INPUT \<and> nParam1 \<noteq> PORT_INDEX_PP then Some (OMX_ErrorBadPortIndex, s)
        else (case pCmdData of
            None \<Rightarrow> Some (OMX_ErrorBadParameter, s)
          | Some m \<Rightarrow> (case sys_malloc (\<lambda>p. d_markmem d p \<noteq> None) d of (mark, d) \<Rightarrow>
              if mark = 0 then Some (OMX_ErrorInsufficientResources, d, b, h)
              else do {
                (err, d, b, h) \<leftarrow> send HMarkBuffer OMX_CommandMarkBuffer nParam1 mark
                  (d\<lparr>d_markmem := (d_markmem d)(mark \<mapsto> m)\<rparr>, b, h);
                Some (err, if err = OMX_ErrorNone then d else d\<lparr>d_markmem := (d_markmem d)(mark := None)\<rparr>, b, h)
              })))"

definition decoder_send_command ::
  "addr \<Rightarrow> omx_commandtype \<Rightarrow> omx_u32 \<Rightarrow> omx_mark option \<Rightarrow> 't dec_sys \<Rightarrow> (omx_errortype \<times> 't dec_sys) option" where
  "decoder_send_command hComponent Cmd nParam1 pCmdData s =
     (if hComponent = 0 then Some (OMX_ErrorBadParameter, s)
      else if d_state (fst s) = OMX_StateInvalid then Some (OMX_ErrorInvalidState, s)
      else (case Cmd of
          OMX_CommandStateSet \<Rightarrow> send_set_state nParam1 s
        | OMX_CommandFlush \<Rightarrow> send_flush nParam1 s
        | OMX_CommandPortDisable \<Rightarrow> send_port_disable nParam1 s
        | OMX_CommandPortEnable \<Rightarrow> send_port_enable nParam1 s
        | OMX_CommandMarkBuffer \<Rightarrow> send_mark_buffer nParam1 pCmdData s
        | OMX_CommandReserved _ \<Rightarrow> Some (OMX_ErrorBadParameter, s)))"

text \<open>The handler a command carries, as cmd\_dispatch calls it.\<close>

definition call_handler ::
  "peer \<Rightarrow> handler \<Rightarrow> omx_commandtype \<Rightarrow> omx_u32 \<Rightarrow> addr \<Rightarrow> decoder \<Rightarrow> (omx_errortype \<times> decoder) option" where
  "call_handler pe f Cmd nParam1 pCmdData d =
     (case f of
        HSetState \<Rightarrow> async_decoder_set_state pe nParam1 d
      | HFlushPort \<Rightarrow> async_decoder_flush_port pe nParam1 d
      | HDisablePort \<Rightarrow> async_decoder_disable_port pe nParam1 d
      | HEnablePort \<Rightarrow> async_decoder_enable_port pe nParam1 d
      | HMarkBuffer \<Rightarrow> async_decoder_mark_buffer pCmdData d)"

text \<open>The inner loop of decoder\_thread\_main: take commands until there is none.\<close>

partial_function (option) drain_commands :: "peer \<Rightarrow> 't dec_sys \<Rightarrow> (omx_errortype \<times> 't dec_sys) option" where
  "drain_commands pe s =
     (case s of (d, b, h) \<Rightarrow> do {
        (err, ok, c, b, h) \<leftarrow> basecomp_try_recv_command b True h;
        if err \<noteq> OMX_ErrorNone then Some (err, d\<lparr>d_run := False\<rparr>, b, h)
        else (case c of
            None \<Rightarrow> Some (err, d, b, h)
          | Some c \<Rightarrow>
              if c_type c = CMD_EXIT_LOOP then Some (err, d\<lparr>d_run := False\<rparr>, b, h)
              else do {
                (_, d) \<leftarrow> cmd_dispatch (call_handler pe) c d;
                drain_commands pe (d, b, h)
              })
      })"

text \<open>decoder\_thread\_main. What the other threads do before each wait is env; the handling of a new
  input buffer (async\_decoder\_decode, async\_decoder\_set\_mask) is a parameter. A failed wait ends
  the loop.\<close>

definition thread_step ::
  "peer \<Rightarrow> (decoder \<Rightarrow> decoder option) \<Rightarrow> (decoder \<Rightarrow> decoder option) \<Rightarrow> 't dec_sys
    \<Rightarrow> (bool \<times> omx_errortype \<times> 't dec_sys) option" where
  "thread_step pe decode set_mask s =
     (case s of (d, b, h) \<Rightarrow> do {
        (err, sig, _, d) \<leftarrow> OSAL_EventWaitMultiple [q_event (bc_queue b), p_bufferevent (d_in d), p_bufferevent (d_inpp d)]
          [False, False, False] INFINITE_WAIT False d;
        if err \<noteq> OMX_ErrorNone then Some (False, err, d, b, h)
        else if sig ! 0 then map_option (Pair True) (drain_commands pe (d, b, h))
        else do {
          d \<leftarrow> (if sig ! 2 \<and> d_state d = OMX_StateExecuting then set_mask d else Some d);
          d \<leftarrow> (if sig ! 1 \<and> d_state d = OMX_StateExecuting \<and> \<not> d_portReconfigPending d then decode d else Some d);
          Some (True, err, d, b, h)
        }
      })"

partial_function (option) thread_loop ::
  "('t dec_sys \<Rightarrow> (bool \<times> omx_errortype \<times> 't dec_sys) option) \<Rightarrow> ('t dec_sys \<Rightarrow> 't dec_sys)
    \<Rightarrow> omx_errortype \<Rightarrow> 't dec_sys \<Rightarrow> (omx_errortype \<times> 't dec_sys) option" where
  "thread_loop step env err s =
     (if \<not> d_run (fst s) then Some (err, s)
      else do {
        (go_on, err, s) \<leftarrow> step (env s);
        if go_on then thread_loop step env err s else Some (err, s)
      })"

definition decoder_thread_main ::
  "peer \<Rightarrow> (decoder \<Rightarrow> decoder option) \<Rightarrow> (decoder \<Rightarrow> decoder option) \<Rightarrow> ('t dec_sys \<Rightarrow> 't dec_sys)
    \<Rightarrow> 't dec_sys \<Rightarrow> 't dec_sys option" where
  "decoder_thread_main pe decode set_mask env s = do {
     (err, d, b, h) \<leftarrow> thread_loop (thread_step pe decode set_mask) env OMX_ErrorNone s;
     Some (if err = OMX_ErrorNone then d
           else log_call (EvError OMX_ErrorInvalidState) (d\<lparr>d_state := OMX_StateInvalid\<rparr>), b, h)
   }"

end
