(* ===== verification/DecProtocol.thy ===== *)
theory DecProtocol
  imports DecState
begin

text \<open>
  What the command handlers of the decoder (DecState) keep to. The core view of a decoder, its
  state, codec and temporary frame buffers, is left alone by every step but a transition, so each
  handler moves along the state diagram of OpenMAX IL or to the invalid state, and the resources
  match the state. Sending and receiving commands then keeps a protocol: a queued request for a
  state is for the present one, or it is the last and is what statetrans says. Other threads are
  taken to leave the core view alone while a handler sleeps: sending a command to change state and
  running a handler do not overlap.
\<close>

subsection \<open>What the steps leave alone\<close>

text \<open>The state, the codec and the temporary frame buffers of a decoder.\<close>

definition core_view ::
  "decoder \<Rightarrow> omx_statetype \<times> omx_statetype \<times> addr \<times> addr list" where
  "core_view d = (d_state d, d_statetrans d, d_codec d,
     [fb_bus_data (d_frame_in d), fb_bus_address (d_frame_in d), fb_bus_data (d_frame_out d),
      fb_bus_address (d_frame_out d), fb_bus_data (d_mask d), fb_bus_address (d_mask d)])"

named_theorems core "steps that keep the core view"

lemma core_view_updates [simp]:
  "core_view (d\<lparr>w_now := n\<rparr>) = core_view d" "core_view (d\<lparr>bufs := m\<rparr>) = core_view d"
  "core_view (d\<lparr>d_in := p\<rparr>) = core_view d" "core_view (d\<lparr>d_out := p\<rparr>) = core_view d"
  "core_view (d\<lparr>d_inpp := p\<rparr>) = core_view d" "core_view (d\<lparr>d_mem := l\<rparr>) = core_view d"
  "core_view (d\<lparr>d_headers := hs\<rparr>) = core_view d" "core_view (d\<lparr>d_log := cs\<rparr>) = core_view d"
  "core_view (d\<lparr>d_prop := pr\<rparr>) = core_view d" "core_view (d\<lparr>d_marks := ms\<rparr>) = core_view d"
  "core_view (d\<lparr>d_markmem := mm\<rparr>) = core_view d" "core_view (d\<lparr>d_buffer := a\<rparr>) = core_view d"
  "core_view (d\<lparr>d_prevBuffer := a\<rparr>) = core_view d" "core_view (d\<lparr>sh_hasFrame := b\<rparr>) = core_view d"
  "core_view (d\<lparr>d_releaseBuffers := b\<rparr>) = core_view d" "core_view (d\<lparr>d_flushingOutPort := b\<rparr>) = core_view d"
  "core_view (d\<lparr>d_disablingOutPort := b\<rparr>) = core_view d" "core_view (d\<lparr>d_portReconfigPending := b\<rparr>) = core_view d"
  "core_view (d\<lparr>sh_output_thread := b\<rparr>) = core_view d" "core_view (d\<lparr>sh_output_thread_run := b\<rparr>) = core_view d"
  "core_view (d\<lparr>d_run := b\<rparr>) = core_view d"
  "core_view (with_port i p d) = core_view d" "core_view (log_call c d) = core_view d"
  "core_view (clear_dynamic d) = core_view d"
  by (cases i; simp add: core_view_def log_call_def clear_dynamic_def)+

lemma core_later [core]: "later d d' \<Longrightarrow> core_view d' = core_view d"
  by (auto simp: later_def)

lemma core_osal [core]:
  "OSAL_MutexLock m d = Some (e, m', d') \<Longrightarrow> core_view d' = core_view d"
  "OSAL_MutexUnlock m d = Some (e, m', d') \<Longrightarrow> core_view d' = core_view d"
  "OSAL_EventSet v d = Some (e, v', d') \<Longrightarrow> core_view d' = core_view d"
  "OSAL_EventReset v d = Some (e, v', d') \<Longrightarrow> core_view d' = core_view d"
  by (auto dest!: OSAL_MutexLock_later OSAL_MutexUnlock_later OSAL_EventSet_later OSAL_EventReset_later core_later)

lemma core_wait [core]:
  "OSAL_EventWait v ms b d = Some (e, t, d') \<Longrightarrow> core_view d' = core_view d"
  by (auto simp: OSAL_EventWait_def OSAL_EventWaitMultiple_def sys_call_def Let_def bind_cases split: if_splits)

lemma core_bufferlist_reserve [core]:
  "bufferlist_reserve l n d = Some (e, l', d') \<Longrightarrow> core_view d' = core_view d"
  by (auto simp: bufferlist_reserve_def sys_malloc_def Let_def split: if_splits option.splits)

lemma core_port [core]:
  "port_lock_buffers p d = Some (e, p', d') \<Longrightarrow> core_view d' = core_view d"
  "port_unlock_buffers p d = Some (e, p', d') \<Longrightarrow> core_view d' = core_view d"
  "port_locked p d = Some (p', d') \<Longrightarrow> core_view d' = core_view d"
  "port_buffer_queue_clear p d = Some (p', d') \<Longrightarrow> core_view d' = core_view d"
  by (auto simp: port_lock_buffers_def port_unlock_buffers_def port_locked_def port_buffer_queue_clear_def
      bind_cases dest!: core split: if_splits)

lemma core_port2 [core]:
  "port_has_buffers p d = Some (b, p', d') \<Longrightarrow> core_view d' = core_view d"
  "port_is_ready p d = Some (b, p', d') \<Longrightarrow> core_view d' = core_view d"
  "port_pop_buffer p d = Some (b, p', d') \<Longrightarrow> core_view d' = core_view d"
  "port_push_buffer p a d = Some (e, p', d') \<Longrightarrow> core_view d' = core_view d"
  by (auto simp: port_has_buffers_def port_is_ready_def port_pop_buffer_def port_pop_signal_def port_push_buffer_def
      port_queue_push_def Let_def bind_cases dest!: core split: if_splits)

lemma core_free_loop [core]: "free_loop l k n d = Some d' \<Longrightarrow> core_view d' = core_view d"
  by (induction l k n d rule: free_loop.induct) (auto simp: bind_cases free_buf_def split: if_splits)

lemma core_port3 [core]:
  "port_allocate_next_buffer p d = Some (b, a, p', d') \<Longrightarrow> core_view d' = core_view d"
  "port_release_all_allocated p d = Some (b, p', d') \<Longrightarrow> core_view d' = core_view d"
  by (auto simp: port_allocate_next_buffer_def port_release_all_allocated_def sys_malloc_def free_buf_def Let_def bind_cases
      dest!: core split: if_splits)

lemma core_on_port [core]:
  assumes "on_port i f d = Some (a, d')" "\<And>p d a p' d'. f p d = Some (a, p', d') \<Longrightarrow> core_view d' = core_view d"
  shows "core_view d' = core_view d"
  using assms by (auto simp: on_port_def bind_cases)


definition env_ok :: "peer \<Rightarrow> bool" where
  "env_ok pe = (\<forall>d. core_view (pe_env pe d) = core_view d)"

lemma core_env [simp]: "env_ok pe \<Longrightarrow> core_view (pe_env pe d) = core_view d"
  by (simp add: env_ok_def)

lemma wait_while_core:
  "wait_while cond env d = Some d' \<Longrightarrow> (\<And>d. core_view (env d) = core_view d) \<Longrightarrow>
    (\<And>d b d'. cond d = Some (b, d') \<Longrightarrow> core_view d' = core_view d) \<Longrightarrow> core_view d' = core_view d"
proof (induction rule: wait_while.raw_induct[rotated, consumes 1, case_names step])
  case (step f cond env d d')
  then obtain b d1 where b: "cond d = Some (b, d1)" "if b then f cond env (env d1) = Some d' else d' = d1"
    by (auto simp: bind_cases split: if_splits)
  show ?case
  proof (cases b)
    case True
    then have "core_view d' = core_view (env d1)" using b(2) step.IH step.prems by auto
    then show ?thesis using b(1) step.prems by simp
  qed (use b step.prems in auto)
qed

lemma core_wait_dealloc [core]:
  "async_decoder_wait_port_buffer_dealloc pe i d = Some d' \<Longrightarrow> env_ok pe \<Longrightarrow> core_view d' = core_view d"
  unfolding async_decoder_wait_port_buffer_dealloc_def
  by (erule wait_while_core) (auto dest!: core)

lemma core_buffers_out [core]: "buffers_out i d = Some (b, d') \<Longrightarrow> core_view d' = core_view d"
  by (auto simp: buffers_out_def bind_cases Let_def dest!: core)

lemma core_wait_supplied [core]:
  "wait_supplied_buffers pe i d = Some d' \<Longrightarrow> env_ok pe \<Longrightarrow> core_view d' = core_view d"
  by (auto simp: wait_supplied_buffers_def dest: core elim!: wait_while_core split: if_splits)

lemma core_wait_ready [core]:
  "wait_ready pe i d = Some (b, d') \<Longrightarrow> env_ok pe \<Longrightarrow> core_view d' = core_view d"
  by (auto simp: wait_ready_def bind_cases Let_def dest!: core)

lemma core_set_header [core]: "set_header h x d = Some d' \<Longrightarrow> core_view d' = core_view d"
  by (auto simp: set_header_def split: header_ptr.splits if_splits)

lemma core_mem [core]:
  "alloc_mem d = (e, a, d') \<Longrightarrow> core_view d' = core_view d"
  "free_mem a d = Some d' \<Longrightarrow> core_view d' = core_view d"
  by (auto simp: alloc_mem_def free_mem_def sys_malloc_def Let_def split: if_splits)

lemma core_return_buffer [core]: "return_buffer pe i a d = Some d' \<Longrightarrow> core_view d' = core_view d"
  by (auto simp: return_buffer_def bind_cases Let_def dest!: core split: if_splits)

lemma core_return_loop [core]: "return_loop pe i k n d = Some d' \<Longrightarrow> core_view d' = core_view d"
proof (induction n arbitrary: k d)
  case (Suc n)
  then show ?case by (auto simp: bind_cases Let_def dest!: core Suc.IH split: if_splits)
qed simp

lemma core_return_prev [core]: "return_prev_buffer d = Some d' \<Longrightarrow> core_view d' = core_view d"
  by (auto simp: return_prev_buffer_def bind_cases Let_def dest!: core split: if_splits)

lemma core_return_buffers [core]:
  assumes "async_decoder_return_buffers pe i d = Some (e, d')" "env_ok pe"
  shows "core_view d' = core_view d"
proof -
  have w: "core_view d2 = core_view d1" if "wait_while (\<lambda>d. Some (sh_hasFrame d, d)) (pe_env pe) d1 = Some d2" for d1 d2
    using that by (rule wait_while_core) (use assms(2) in auto)
  show ?thesis using assms(1)
    by (auto simp: async_decoder_return_buffers_def bind_cases Let_def dest!: core w split: if_splits)
qed

lemma core_supply_buffer [core]:
  assumes "supply_buffer pe i n d = Some (b, e, d')"
  shows "core_view d' = core_view d"
proof -
  obtain err mem d1 where a: "alloc_mem d = (err, mem, d1)" by (cases "alloc_mem d")
  have "core_view d' = core_view d1"
  proof (cases "err = OMX_ErrorNone")
    case False
    then show ?thesis using assms a by (simp add: supply_buffer_def)
  next
    case True
    let ?next = "on_port i (\<lambda>p d. map_option (\<lambda>(r, b, p, d). ((r, b), p, d)) (port_allocate_next_buffer p d)) d1"
    obtain r buff d2 where n: "?next = Some ((r, buff), d2)"
      using assms a True by (cases ?next) (auto simp: supply_buffer_def)
    have c: "core_view d2 = core_view d1" using n by (auto dest!: core)
    show ?thesis
    proof (cases "buff = 0")
      case True
      then show ?thesis using assms a n c \<open>err = OMX_ErrorNone\<close> by (auto simp: supply_buffer_def bind_cases dest!: core)
    next
      case False
      obtain uerr hd where u: "pe_use pe (w_now d2) = (uerr, hd)" by (cases "pe_use pe (w_now d2)")
      then show ?thesis using False assms a n c \<open>err = OMX_ErrorNone\<close>
        by (cases hd) (auto simp: supply_buffer_def bind_cases Let_def u split: if_splits)
    qed
  qed
  then show ?thesis using core_mem(1)[OF a] by simp
qed

lemma core_supply_loop [core]: "supply_loop pe i s n d = Some (b, e, d') \<Longrightarrow> core_view d' = core_view d"
proof (induction n arbitrary: d)
  case (Suc n)
  then show ?case by (auto simp: bind_cases Let_def dest!: core Suc.IH split: if_splits)
qed simp

lemma core_free_supplied [core]: "free_supplied s i k n d = Some d' \<Longrightarrow> core_view d' = core_view d"
proof (induction n arbitrary: k d)
  case (Suc n)
  then show ?case by (auto simp: bind_cases Let_def dest!: core Suc.IH split: if_splits)
qed simp

lemma core_release_supplied [core]: "release_supplied s i d = Some d' \<Longrightarrow> core_view d' = core_view d"
  by (auto simp: release_supplied_def bind_cases dest!: core)

lemma core_supply [core]:
  assumes "supply_tunneled_port pe i d = Some (e, d')"
  shows "core_view d' = core_view d"
proof -
  obtain err pc ps where p: "pe_param pe (w_now d) = (err, pc, ps)" by (cases "pe_param pe (w_now d)")
  show ?thesis using assms p
    by (auto simp: supply_tunneled_port_def bind_cases Let_def dest!: core split: if_splits)
qed

lemma core_pop_all [core]: "pop_all i d = Some d' \<Longrightarrow> core_view d' = core_view d"
proof (induction rule: pop_all.raw_induct[rotated, consumes 1, case_names step])
  case (step f i d d')
  then show ?case by (auto simp: bind_cases dest!: core split: if_splits)
qed

lemma core_unsupply [core]:
  assumes "unsupply_tunneled_port i d = Some (e, d')"
  shows "core_view d' = core_view d"
proof -
  obtain d1 where r: "release_supplied False i d = Some d1" "p_tunnelcomp (port_of i d) \<noteq> 0"
    using assms by (cases "release_supplied False i d") (auto simp: unsupply_tunneled_port_def split: if_splits)
  let ?p = "(port_of i d1)\<lparr>p_def := (p_def (port_of i d1))\<lparr>bPopulated := False\<rparr>\<rparr>"
  obtain err ev d2 where v: "OSAL_EventReset (p_bufferRdy ?p) d1 = Some (err, ev, d2)"
    using assms r by (cases "OSAL_EventReset (p_bufferRdy ?p) d1") (auto simp: unsupply_tunneled_port_def)
  have c: "core_view d2 = core_view d" using core_osal(4)[OF v] core_release_supplied[OF r(1)] by simp
  show ?thesis
  proof (cases "err = OMX_ErrorNone")
    case True
    then obtain d3 where d3: "pop_all i (with_port i (?p\<lparr>p_bufferRdy := ev\<rparr>) d2) = Some d3" "d' = (if i = POut then d3\<lparr>d_buffer := 0\<rparr> else d3)"
      using assms r v by (simp add: unsupply_tunneled_port_def Let_def bind_cases) blast
    then show ?thesis using core_pop_all[OF d3(1)] d3(2) c by simp
  next
    case False
    then show ?thesis using assms r v c by (auto simp: unsupply_tunneled_port_def Let_def)
  qed
qed

lemma core_startup_output [core]: "startup_output i k n d = Some d' \<Longrightarrow> core_view d' = core_view d"
proof (induction n arbitrary: k d)
  case (Suc n)
  then show ?case by (auto simp: bind_cases Let_def dest!: core Suc.IH split: if_splits)
qed simp

lemma core_startup_input [core]: "startup_input pe i k n d = Some (e, d') \<Longrightarrow> core_view d' = core_view d"
proof (induction n arbitrary: k d)
  case (Suc n)
  then show ?case by (auto simp: bind_cases Let_def dest!: core Suc.IH split: if_splits)
qed simp

lemma core_startup_tunnel [core]: "startup_tunnel pe i d = Some (e, d') \<Longrightarrow> core_view d' = core_view d"
  by (auto simp: startup_tunnel_def Let_def dest!: core split: if_splits)


subsection \<open>The state diagram\<close>

text \<open>The transitions of the OpenMAX IL state diagram that the component supports.\<close>

definition omx_transitions :: "(omx_statetype \<times> omx_statetype) list" where
  "omx_transitions =
     [(OMX_StateLoaded, OMX_StateIdle), (OMX_StateIdle, OMX_StateLoaded),
      (OMX_StateIdle, OMX_StateExecuting), (OMX_StateExecuting, OMX_StateIdle),
      (OMX_StateIdle, OMX_StatePause), (OMX_StatePause, OMX_StateIdle),
      (OMX_StateExecuting, OMX_StatePause), (OMX_StatePause, OMX_StateExecuting),
      (OMX_StateLoaded, OMX_StateWaitForResources), (OMX_StateWaitForResources, OMX_StateLoaded)]"

text \<open>The resources that go with a state: a codec and the temporary frame buffers from idle on, and
  none of them before.\<close>

definition resources_ok :: "decoder \<Rightarrow> bool" where
  "resources_ok d =
     (if d_state d \<in> {OMX_StateLoaded, OMX_StateWaitForResources} then
        d_codec d = 0 \<and> fb_bus_data (d_frame_in d) = 0 \<and> fb_bus_address (d_frame_in d) = 0
        \<and> fb_bus_data (d_frame_out d) = 0 \<and> fb_bus_address (d_frame_out d) = 0
        \<and> fb_bus_data (d_mask d) = 0 \<and> fb_bus_address (d_mask d) = 0
      else d_state d \<in> {OMX_StateIdle, OMX_StateExecuting, OMX_StatePause} \<longrightarrow>
        d_codec d \<noteq> 0 \<and> fb_bus_data (d_frame_in d) \<noteq> 0 \<and> fb_bus_data (d_frame_out d) \<noteq> 0)"

lemma resources_ok_view: "core_view d' = core_view d \<Longrightarrow> resources_ok d' = resources_ok d"
  by (simp add: resources_ok_def core_view_def)

lemma view_sel:
  assumes "core_view d' = core_view d"
  shows "d_state d' = d_state d" "d_statetrans d' = d_statetrans d" "d_codec d' = d_codec d"
    "fb_bus_data (d_frame_in d') = fb_bus_data (d_frame_in d)" "fb_bus_data (d_frame_out d') = fb_bus_data (d_frame_out d)"
  using assms by (simp_all add: core_view_def)

lemma core_supply_if [core]: "supply_if_supplier pe i d = Some (b, d') \<Longrightarrow> core_view d' = core_view d"
  by (auto simp: supply_if_supplier_def bind_cases dest!: core split: if_splits)

lemma core_unsupply_if [core]: "unsupply_if_supplier i d = Some d' \<Longrightarrow> core_view d' = core_view d"
  by (auto simp: unsupply_if_supplier_def dest!: core split: if_splits)

lemma core_any_port [core]: "any_port_has_buffers d = Some (b, d') \<Longrightarrow> core_view d' = core_view d"
  by (auto simp: any_port_has_buffers_def bind_cases dest!: core split: if_splits)

lemma core_ready: "on_port i port_is_ready d = Some (b, d') \<Longrightarrow> core_view d' = core_view d"
  by (erule core_on_port) (rule core_port2(2))

lemma wait_populated_view:
  "wait_populated pe d = Some y \<Longrightarrow> env_ok pe \<Longrightarrow> core_view (snd y) = core_view d"
proof (induction rule: wait_populated.raw_induct[rotated, consumes 1, case_names step])
  case (step f pe d y)
  obtain rin d1 where 1: "on_port PIn port_is_ready d = Some (rin, d1)"
    using step.hyps by (cases "on_port PIn port_is_ready d") auto
  obtain rout d2 where 2: "(if rin then on_port POut port_is_ready d1 else Some (False, d1)) = Some (rout, d2)"
    using step.hyps 1 by (cases "if rin then on_port POut port_is_ready d1 else Some (False, d1)") auto
  have c2: "core_view d2 = core_view d" using core_ready[OF 1] 2 core_ready[of POut d1 rout d2] by (auto split: if_splits)
  show ?case
  proof (cases "rin \<and> rout")
    case True
    then show ?thesis using step.hyps 1 2 c2 by auto
  next
    case False
    then obtain t d3 where 3: "wait_ready pe PIn d2 = Some (t, d3)"
      using step.hyps 1 2 by (cases "wait_ready pe PIn d2") auto
    have c3: "core_view d3 = core_view d" using core_wait_ready[OF 3 step.prems] c2 by simp
    show ?thesis
    proof (cases t)
      case True
      then show ?thesis using step.hyps 1 2 3 False c3 by auto
    next
      case nt: False
      then obtain t' d4 where 4: "wait_ready pe POut d3 = Some (t', d4)"
        using step.hyps 1 2 3 False by (cases "wait_ready pe POut d3") auto
      have c4: "core_view d4 = core_view d" using core_wait_ready[OF 4 step.prems] c3 by simp
      have "if t' then y = (False, d4) else f pe d4 = Some y"
        using step.hyps 1 2 3 4 False nt by (auto split: if_splits)
      then show ?thesis using step.IH[of pe d4 y] step.prems c4 by (auto split: if_splits)
    qed
  qed
qed

lemma core_wait_populated [core]:
  "wait_populated pe d = Some (b, d') \<Longrightarrow> env_ok pe \<Longrightarrow> core_view d' = core_view d"
  using wait_populated_view[of pe d "(b, d')"] by simp

lemma wait_port_ready_view:
  "wait_port_ready pe i d = Some y \<Longrightarrow> env_ok pe \<Longrightarrow> core_view (snd y) = core_view d"
proof (induction rule: wait_port_ready.raw_induct[rotated, consumes 1, case_names step])
  case (step f pe i d y)
  obtain r d1 where 1: "on_port i port_is_ready d = Some (r, d1)"
    using step.hyps by (cases "on_port i port_is_ready d") auto
  note c1 = core_ready[OF 1]
  show ?case
  proof (cases r)
    case False
    then obtain t d2 where 2: "wait_ready pe i d1 = Some (t, d2)"
      using step.hyps 1 by (cases "wait_ready pe i d1") auto
    have "if t then y = (False, d2) else f pe i d2 = Some y" using step.hyps 1 2 False by (auto split: if_splits)
    then show ?thesis using step.IH[of pe i d2 y] step.prems c1 core_wait_ready[OF 2 step.prems]
      by (auto split: if_splits)
  qed (use step.hyps 1 c1 in auto)
qed

lemma core_wait_port_ready [core]:
  "wait_port_ready pe i d = Some (b, d') \<Longrightarrow> env_ok pe \<Longrightarrow> core_view d' = core_view d"
  using wait_port_ready_view[of pe i d "(b, d')"] by simp

lemma alloc_mem_zero: "alloc_mem d = (OMX_ErrorNone, a, d') \<Longrightarrow> a \<noteq> 0"
  "alloc_mem d = (e, a, d') \<Longrightarrow> e \<in> {OMX_ErrorNone, OMX_ErrorInsufficientResources}"
  by (auto simp: alloc_mem_def sys_malloc_def Let_def split: if_splits)

lemma create_codec_view:
  assumes "create_codec pe OMX_ErrorHardware d = (e, d')"
  shows "core_view (d'\<lparr>d_codec := d_codec d\<rparr>) = core_view d \<and> e \<in> {OMX_ErrorHardware, OMX_ErrorUnsupportedSetting}"
  using assms by (auto simp: create_codec_def sys_malloc_def Let_def core_view_def split: if_splits)

lemma alloc_frames_view:
  assumes "alloc_frames d = (e, d')"
  shows "d_state d' = d_state d \<and> d_statetrans d' = d_statetrans d \<and> d_codec d' = d_codec d
    \<and> e \<in> {OMX_ErrorNone, OMX_ErrorInsufficientResources}
    \<and> (e = OMX_ErrorNone \<longrightarrow> fb_bus_data (d_frame_in d') \<noteq> 0 \<and> fb_bus_data (d_frame_out d') \<noteq> 0)"
proof -
  have v: "d_state d2 = d_state d1 \<and> d_statetrans d2 = d_statetrans d1 \<and> d_codec d2 = d_codec d1
      \<and> d_frame_in d2 = d_frame_in d1 \<and> d_frame_out d2 = d_frame_out d1
      \<and> (e1 = OMX_ErrorNone \<longrightarrow> a1 \<noteq> 0) \<and> (e1 \<noteq> OMX_ErrorNone \<longrightarrow> e1 = OMX_ErrorInsufficientResources)"
    if "alloc_mem d1 = (e1, a1, d2)" for d1 d2 e1 a1
    using that by (auto simp: alloc_mem_def sys_malloc_def Let_def split: if_splits)
  show ?thesis using assms
    by (auto simp: alloc_frames_def Let_def dest!: v split: prod.splits if_splits)
qed

lemma idle_from_loaded_fail_state:
  "idle_from_loaded_fail d = Some d' \<Longrightarrow> d_state d' = d_state d \<and> d_statetrans d' = d_statetrans d"
  by (auto simp: idle_from_loaded_fail_def free_frame_def free_mem_def log_call_def Let_def bind_cases split: if_splits)


lemma to_idle_from_loaded_view:
  assumes "transition_to_idle_from_loaded pe d = Some (e, d')" "env_ok pe"
  shows "d_state d' = d_state d \<and> d_statetrans d' = d_statetrans d \<and> e \<noteq> OMX_ErrorIncorrectStateTransition
    \<and> (e = OMX_ErrorNone \<longrightarrow> d_codec d' \<noteq> 0 \<and> fb_bus_data (d_frame_in d') \<noteq> 0 \<and> fb_bus_data (d_frame_out d') \<noteq> 0)"
proof -
  have failed: ?thesis if "map_option (Pair err) (idle_from_loaded_fail d1) = Some (e, d')" "core_view d1 = core_view d"
    "err \<notin> {OMX_ErrorNone, OMX_ErrorIncorrectStateTransition}" for err d1
    using that idle_from_loaded_fail_state[of d1 d'] view_sel[OF that(2)] by auto
  note t = assms(1)[unfolded transition_to_idle_from_loaded_def Let_def]
  obtain b1 d1 where 1: "supply_if_supplier pe PIn d = Some (b1, d1)"
    using t by (cases "supply_if_supplier pe PIn d") (auto split: if_splits)
  note c1 = core_supply_if[OF 1]
  show ?thesis
  proof (cases b1)
    case False
    then show ?thesis using t 1 failed[of OMX_ErrorHardware d1] c1 by (auto split: if_splits)
  next
    case b1: True
    obtain b2 d2 where 2: "supply_if_supplier pe POut d1 = Some (b2, d2)"
      using t 1 b1 by (cases "supply_if_supplier pe POut d1") (auto split: if_splits)
    have c2: "core_view d2 = core_view d" using core_supply_if[OF 2] c1 by simp
    show ?thesis
    proof (cases b2)
      case False
      then show ?thesis using t 1 2 b1 failed[of OMX_ErrorHardware d2] c2 by (auto split: if_splits)
    next
      case b2: True
      obtain b3 d3 where 3: "supply_if_supplier pe PPp d2 = Some (b3, d3)"
        using t 1 2 b1 b2 by (cases "supply_if_supplier pe PPp d2") (auto split: if_splits)
      have c3: "core_view d3 = core_view d" using core_supply_if[OF 3] c2 by simp
      show ?thesis
      proof (cases b3)
        case False
        then show ?thesis using t 1 2 3 b1 b2 failed[of OMX_ErrorHardware d3] c3 by (auto split: if_splits)
      next
        case b3: True
        obtain b4 d4 where 4: "wait_populated pe d3 = Some (b4, d4)"
          using t 1 2 3 b1 b2 b3 by (cases "wait_populated pe d3") (auto split: if_splits)
        have c4: "core_view d4 = core_view d" using core_wait_populated[OF 4 assms(2)] c3 by simp
        note steps = 1 2 3 4 b1 b2 b3
        show ?thesis
        proof (cases b4)
          case False
          then show ?thesis using t steps failed[of OMX_ErrorTimeout d4] c4 by (auto split: if_splits)
        next
          case b4: True
          obtain e5 d5 where 5: "create_codec pe OMX_ErrorHardware d4 = (e5, d5)" by (cases "create_codec pe OMX_ErrorHardware d4")
          note c5 = create_codec_view[OF 5]
          obtain e6 d6 where 6: "alloc_frames d5 = (e6, d6)" by (cases "alloc_frames d5")
          note c6 = alloc_frames_view[OF 6]
          have s5: "d_state d5 = d_state d" "d_statetrans d5 = d_statetrans d"
            using view_sel[OF conjunct1[OF c5]] view_sel[OF c4] by simp_all
          have tt: "(if d_codec d5 = 0 then map_option (Pair e5) (idle_from_loaded_fail d5)
              else if e6 \<noteq> OMX_ErrorNone then map_option (Pair e6) (idle_from_loaded_fail d6)
              else Some (OMX_ErrorNone, init_propagate_buffer d6)) = Some (e, d')"
            using t steps b4 5 6 by (auto split: if_splits)
          show ?thesis
          proof (cases "d_codec d5 = 0 \<or> e6 \<noteq> OMX_ErrorNone")
            case True
            then obtain x err where "idle_from_loaded_fail x = Some d'" "x = d5 \<or> x = d6" "e = err"
              "err \<in> {OMX_ErrorHardware, OMX_ErrorUnsupportedSetting, OMX_ErrorInsufficientResources}"
              using tt c5 c6 by (cases "d_codec d5 = 0") auto
            then show ?thesis using idle_from_loaded_fail_state[of x d'] s5 c6 by auto
          next
            case False
            then have "d' = init_propagate_buffer d6" "e = OMX_ErrorNone" using tt by auto
            then show ?thesis using False c6 s5 by (auto simp: init_propagate_buffer_def sys_malloc_def Let_def)
          qed
        qed
      qed
    qed
  qed
qed

lemma core_join [simp]: "env_ok pe \<Longrightarrow> core_view (join_output_thread pe d) = core_view d"
  by (simp add: join_output_thread_def)

lemma core_codec_call [core]: "codec_call c d = Some d' \<Longrightarrow> core_view d' = core_view d"
  by (auto simp: codec_call_def split: if_splits)

lemma core_create_thread [simp]: "core_view (create_output_thread d) = core_view d"
  by (simp add: create_output_thread_def sys_call_def)

lemma core_idle_from_paused [core]:
  "transition_to_idle_from_paused pe d = Some (e, d') \<Longrightarrow> env_ok pe \<Longrightarrow> core_view d' = core_view d \<and> e = OMX_ErrorNone"
  by (auto simp: transition_to_idle_from_paused_def bind_cases dest!: core_return_buffers split: if_splits)

lemma core_idle_from_executing [core]:
  "transition_to_idle_from_executing pe d = Some (e, d') \<Longrightarrow> env_ok pe \<Longrightarrow> core_view d' = core_view d \<and> e = OMX_ErrorNone"
  by (auto simp: transition_to_idle_from_executing_def bind_cases dest!: core_return_buffers core_wait_supplied split: if_splits)

lemma to_loaded_from_idle_view:
  assumes "transition_to_loaded_from_idle pe d = Some (e, d')" "env_ok pe"
  shows "e = OMX_ErrorNone \<and> d_codec d' = 0 \<and> d_frame_in d' = zero_frame_buffer
    \<and> d_frame_out d' = zero_frame_buffer \<and> d_mask d' = zero_frame_buffer"
  using assms(1)
  by (auto simp: transition_to_loaded_from_idle_def bind_cases Let_def clear_loaded_def split: if_splits)


text \<open>Resources after the state is set to t.\<close>

lemma resources_at:
  "core_view d1 = core_view d \<Longrightarrow> resources_ok d \<Longrightarrow>
    d_state d \<in> {OMX_StateIdle, OMX_StateExecuting, OMX_StatePause} = (t \<in> {OMX_StateIdle, OMX_StateExecuting, OMX_StatePause}) \<Longrightarrow>
    d_state d \<in> {OMX_StateLoaded, OMX_StateWaitForResources} = (t \<in> {OMX_StateLoaded, OMX_StateWaitForResources}) \<Longrightarrow>
    resources_ok (d1\<lparr>d_state := t, d_statetrans := t'\<rparr>)"
  by (auto simp: resources_ok_def core_view_def split: if_splits)

definition switch_post :: "omx_statetype \<Rightarrow> decoder \<Rightarrow> omx_errortype \<Rightarrow> decoder \<Rightarrow> bool" where
  "switch_post t d e d1 =
     (if e = OMX_ErrorIncorrectStateTransition then d1 = d \<and> (d_state d, t) \<notin> set omx_transitions
      else if e = OMX_ErrorNone then (d_state d, t) \<in> set omx_transitions
        \<and> resources_ok (d1\<lparr>d_state := t, d_statetrans := t\<rparr>)
      else True)"

lemma switch_idle:
  assumes "state_switch pe OMX_StateIdle d = Some (e, d1)" "env_ok pe" "resources_ok d" "d_state d \<noteq> OMX_StateIdle"
  shows "switch_post OMX_StateIdle d e d1"
proof (cases "d_state d")
  case OMX_StateLoaded
  then have "transition_to_idle_from_loaded pe d = Some (e, d1)" using assms(1) by (simp add: state_switch_def)
  from to_idle_from_loaded_view[OF this assms(2)] OMX_StateLoaded show ?thesis
    by (simp add: switch_post_def omx_transitions_def resources_ok_def)
next
  case OMX_StatePause
  then have "transition_to_idle_from_paused pe d = Some (e, d1)" using assms(1) by (simp add: state_switch_def)
  from core_idle_from_paused[OF this assms(2)] OMX_StatePause show ?thesis
    using resources_at[of d1 d OMX_StateIdle] assms(3) by (simp add: switch_post_def omx_transitions_def)
next
  case OMX_StateExecuting
  then obtain d2 where d2: "codec_call CodecAbortAfter (join_output_thread pe d) = Some d2"
    "transition_to_idle_from_executing pe d2 = Some (e, d1)"
    using assms(1) by (auto simp: state_switch_def bind_cases)
  have "core_view d1 = core_view d \<and> e = OMX_ErrorNone"
    using core_codec_call[OF d2(1)] core_idle_from_executing[OF d2(2) assms(2)] assms(2) by simp
  then show ?thesis using resources_at[of d1 d OMX_StateIdle] assms(3) OMX_StateExecuting
    by (simp add: switch_post_def omx_transitions_def)
qed (use assms(1,4) in \<open>simp_all add: state_switch_def switch_post_def omx_transitions_def\<close>)

lemma switch_loaded:
  assumes "state_switch pe OMX_StateLoaded d = Some (e, d1)" "env_ok pe" "resources_ok d" "d_state d \<noteq> OMX_StateLoaded"
  shows "switch_post OMX_StateLoaded d e d1"
proof (cases "d_state d")
  case OMX_StateIdle
  then have "transition_to_loaded_from_idle pe d = Some (e, d1)" using assms(1) by (simp add: state_switch_def)
  from to_loaded_from_idle_view[OF this assms(2)] OMX_StateIdle show ?thesis
    by (simp add: switch_post_def omx_transitions_def resources_ok_def zero_frame_buffer_def)
next
  case OMX_StateWaitForResources
  then have "e = OMX_ErrorNone" "d1 = d" using assms(1)
    by (simp_all add: state_switch_def transition_to_loaded_from_wait_for_resources_def split: if_splits)
  then show ?thesis using resources_at[of d d OMX_StateLoaded] assms(3) OMX_StateWaitForResources
    by (simp add: switch_post_def omx_transitions_def)
qed (use assms(1,4) in \<open>simp_all add: state_switch_def switch_post_def omx_transitions_def\<close>)

lemma switch_executing:
  assumes "state_switch pe OMX_StateExecuting d = Some (e, d1)" "resources_ok d" "d_state d \<noteq> OMX_StateExecuting"
  shows "switch_post OMX_StateExecuting d e d1"
proof (cases "d_state d = OMX_StatePause \<or> d_state d = OMX_StateIdle")
  case True
  then have "e = OMX_ErrorNone" "core_view d1 = core_view d" using assms(1)
    by (auto simp: state_switch_def transition_to_executing_from_paused_def transition_to_executing_from_idle_def split: if_splits)
  then show ?thesis using resources_at[of d1 d OMX_StateExecuting] assms(2) True
    by (auto simp: switch_post_def omx_transitions_def)
qed (use assms(1,3) in \<open>cases "d_state d"; simp add: state_switch_def switch_post_def omx_transitions_def\<close>)

lemma switch_rest:
  assumes "state_switch pe t d = Some (e, d1)" "resources_ok d" "d_state d \<noteq> t"
    "t \<in> {OMX_StatePause, OMX_StateWaitForResources, OMX_StateInvalid}"
  shows "switch_post t d e d1"
proof -
  consider (pause) "t = OMX_StatePause" | (wait) "t = OMX_StateWaitForResources" | (inv) "t = OMX_StateInvalid"
    using assms(4) by auto
  then show ?thesis
  proof cases
    case pause
    then show ?thesis using assms resources_at[of d d OMX_StatePause]
      by (auto simp: state_switch_def switch_post_def omx_transitions_def split: if_splits)
  next
    case wait
    then show ?thesis using assms resources_at[of d d OMX_StateWaitForResources]
      by (auto simp: state_switch_def switch_post_def omx_transitions_def
          transition_to_wait_for_resources_from_loaded_def split: if_splits)
  next
    case inv
    then show ?thesis using assms(1) by (simp add: state_switch_def switch_post_def)
  qed
qed

lemma switch_view:
  assumes "state_switch pe t d = Some (e, d1)" "env_ok pe" "resources_ok d" "d_state d \<noteq> t"
  shows "switch_post t d e d1"
proof (cases t)
  case (OMX_StateReserved k)
  then show ?thesis using assms(1) by (simp add: state_switch_def)
qed (use assms switch_idle switch_loaded switch_executing switch_rest in auto)

lemma startup_port_view:
  assumes "startup_port pe i d = Some (e, d')" "d_state d \<in> {t, OMX_StateInvalid}" "resources_ok d" "d_statetrans d = u"
  shows "d_state d' \<in> {t, OMX_StateInvalid} \<and> resources_ok d' \<and> d_statetrans d' = u"
proof -
  obtain d1 where s: "startup_tunnel pe i d = Some (e, d1)"
    "d' = (if e = OMX_ErrorNone then d1 else d1\<lparr>d_state := OMX_StateInvalid, d_run := False\<rparr>)"
    using assms(1) by (auto simp: startup_port_def bind_cases)
  note v = core_startup_tunnel[OF s(1)]
  show ?thesis using s(2) assms view_sel[OF v] resources_ok_view[OF v]
    by (auto simp: resources_ok_def)
qed

text \<open>What a command to set the state does.\<close>

lemma set_state_view:
  assumes "async_decoder_set_state pe n d = Some (err, d')" "env_ok pe" "resources_ok d"
  shows "resources_ok d' \<and>
    (if to_state n = d_state d then d_state d' = d_state d \<and> d_statetrans d' = d_statetrans d
     else if (d_state d, to_state n) \<in> set omx_transitions
     then d_state d' = OMX_StateInvalid \<or> d_state d' = to_state n \<and> d_statetrans d' = to_state n
     else d_state d' = OMX_StateInvalid \<or> d_state d' = d_state d \<and> d_statetrans d' = d_state d)"
proof (cases "to_state n = d_state d")
  case True
  then have "d' = log_call (EvError OMX_ErrorSameState) d" using assms(1) by (simp add: async_decoder_set_state_def)
  then have v: "core_view d' = core_view d" by simp
  then show ?thesis using True view_sel[OF v] resources_ok_view[OF v] assms(3) by simp
next
  case False
  then obtain e d1 where s: "state_switch pe (to_state n) d = Some (e, d1)"
    using assms(1) by (cases "state_switch pe (to_state n) d") (auto simp: async_decoder_set_state_def)
  note p = switch_view[OF s assms(2,3) False[symmetric]]
  show ?thesis
  proof (cases "e = OMX_ErrorNone")
    case True
    let ?d = "log_call (EvStateSet (to_state n)) (d1\<lparr>d_statetrans := to_state n, d_state := to_state n\<rparr>)"
    have v: "core_view ?d = core_view (d1\<lparr>d_state := to_state n, d_statetrans := to_state n\<rparr>)"
      by (simp add: core_view_def log_call_def)
    have r: "resources_ok ?d" "(d_state d, to_state n) \<in> set omx_transitions"
      using resources_ok_view[OF v] p True by (simp_all add: switch_post_def)
    have st: "d_state ?d = to_state n" "d_statetrans ?d = to_state n" by (simp_all add: log_call_def)
    show ?thesis
    proof (cases "to_state n = OMX_StateExecuting")
      case False
      then have "d' = ?d" using assms(1) s True \<open>to_state n \<noteq> d_state d\<close> by (simp add: async_decoder_set_state_def Let_def)
      then show ?thesis using r st \<open>to_state n \<noteq> d_state d\<close> by simp
    next
      case ex: True
      then obtain e2 d2 e3 d3 where q: "startup_port pe PIn ?d = Some (e2, d2)" "startup_port pe PPp d2 = Some (e3, d3)"
        "startup_port pe POut d3 = Some (err, d')"
        using assms(1) s True \<open>to_state n \<noteq> d_state d\<close> by (auto simp: async_decoder_set_state_def bind_cases)
      note a = startup_port_view[OF q(1), of "to_state n" "to_state n"]
      have "d_state d2 \<in> {to_state n, OMX_StateInvalid} \<and> resources_ok d2 \<and> d_statetrans d2 = to_state n"
        using a r st by simp
      with startup_port_view[OF q(2), of "to_state n" "to_state n"]
      have "d_state d3 \<in> {to_state n, OMX_StateInvalid} \<and> resources_ok d3 \<and> d_statetrans d3 = to_state n" by simp
      with startup_port_view[OF q(3), of "to_state n" "to_state n"]
      have "d_state d' \<in> {to_state n, OMX_StateInvalid} \<and> resources_ok d' \<and> d_statetrans d' = to_state n" by simp
      then show ?thesis using r False by auto
    qed
  next
    case ne: False
    show ?thesis
    proof (cases "e = OMX_ErrorIncorrectStateTransition")
      case True
      then have "d1 = d" "(d_state d, to_state n) \<notin> set omx_transitions" using p by (simp_all add: switch_post_def)
      moreover have "d' = log_call (EvError e) (d\<lparr>d_statetrans := d_state d\<rparr>)"
        using assms(1) s True False \<open>d1 = d\<close> by (simp add: async_decoder_set_state_def)
      ultimately show ?thesis using assms(3) False by (simp add: log_call_def resources_ok_def)
    next
      case False
      then have "d' = log_call (EvError e) (d1\<lparr>d_state := OMX_StateInvalid, d_run := False\<rparr>)"
        using assms(1) s ne \<open>to_state n \<noteq> d_state d\<close> by (auto simp: async_decoder_set_state_def Let_def)
      then show ?thesis using \<open>to_state n \<noteq> d_state d\<close> by (simp add: log_call_def resources_ok_def)
    qed
  qed
qed


subsection \<open>The other handlers\<close>

lemma core_flush_propagation [core]: "flush_propagation d = Some d' \<Longrightarrow> core_view d' = core_view d"
  by (auto simp: flush_propagation_def Let_def bind_cases)

lemma core_flush_all [core]:
  assumes "flush_all_ports pe d = Some (e, d')" "env_ok pe"
  shows "core_view d' = core_view d"
proof -
  note f = assms(1)[unfolded flush_all_ports_def]
  obtain d0 where 0: "codec_call CodecAbortAfter (join_output_thread pe d) = Some d0"
    using f by (cases "codec_call CodecAbortAfter (join_output_thread pe d)") auto
  obtain e1 d1 where 1: "async_decoder_return_buffers pe PIn d0 = Some (e1, d1)"
    using f 0 by (cases "async_decoder_return_buffers pe PIn d0") auto
  have c1: "core_view d1 = core_view d"
    using core_codec_call[OF 0] core_return_buffers[OF 1 assms(2)] assms(2) by simp
  show ?thesis
  proof (cases "e1 = OMX_ErrorNone")
    case True
    obtain e2 d2 where 2: "async_decoder_return_buffers pe POut d1 = Some (e2, d2)"
      using f 0 1 True by (cases "async_decoder_return_buffers pe POut d1") auto
    have c2: "core_view d2 = core_view d" using core_return_buffers[OF 2 assms(2)] c1 by simp
    show ?thesis
    proof (cases "e2 = OMX_ErrorNone")
      case True
      obtain e3 d3 where 3: "async_decoder_return_buffers pe PPp d2 = Some (e3, d3)"
        using f 0 1 2 True \<open>e1 = _\<close> by (cases "async_decoder_return_buffers pe PPp d2") auto
      have c3: "core_view d3 = core_view d" using core_return_buffers[OF 3 assms(2)] c2 by simp
      show ?thesis
        using f 0 1 2 3 True \<open>e1 = _\<close> c3 by (cases "e3 = OMX_ErrorNone") (auto simp: Let_def)
    qed (use f 0 1 2 c2 \<open>e1 = _\<close> in auto)
  qed (use f 0 1 c1 in auto)
qed

lemma core_flush_one [core]: "flush_one_port pe n d = Some (e, d') \<Longrightarrow> env_ok pe \<Longrightarrow> core_view d' = core_view d"
  by (auto simp: flush_one_port_def bind_cases Let_def dest!: core_return_buffers split: if_splits option.splits)

lemma flush_port_view:
  assumes "async_decoder_flush_port pe n d = Some (e, d')" "env_ok pe"
  shows "core_view d' = core_view d \<or> d_state d' = OMX_StateInvalid"
proof -
  obtain e1 d1 where f: "(if n = OMX_ALL then flush_all_ports pe d else flush_one_port pe n d) = Some (e1, d1)"
    using assms(1) by (cases "if n = OMX_ALL then flush_all_ports pe d else flush_one_port pe n d")
      (auto simp: async_decoder_flush_port_def)
  have v: "core_view d1 = core_view d"
    using f core_flush_all[of pe d e1 d1] core_flush_one[of pe n d e1 d1] assms(2) by (auto split: if_splits)
  show ?thesis
  proof (cases "e1 = OMX_ErrorNone")
    case True
    then have "flush_propagation d1 = Some d'" using assms(1) f by (auto simp: async_decoder_flush_port_def)
    then show ?thesis using core_flush_propagation v by metis
  next
    case False
    then show ?thesis using assms(1) f by (auto simp: async_decoder_flush_port_def flush_fail_def log_call_def)
  qed
qed

lemma core_disable_all [core]: "disable_all_ports pe d = Some d' \<Longrightarrow> env_ok pe \<Longrightarrow> core_view d' = core_view d"
  by (auto simp: disable_all_ports_def bind_cases
      dest!: core_return_buffers core_wait_supplied core_unsupply_if core_wait_dealloc)

lemma core_disable_one [core]: "disable_one_port pe n d = Some d' \<Longrightarrow> env_ok pe \<Longrightarrow> core_view d' = core_view d"
  by (auto simp: disable_one_port_def bind_cases
      dest!: core_return_buffers core_wait_supplied core_unsupply_if core_wait_dealloc split: option.splits)

lemma disable_port_view:
  assumes "async_decoder_disable_port pe n d = Some (e, d')" "env_ok pe"
  shows "core_view d' = core_view d"
proof -
  obtain d1 where 1: "(if n = OMX_ALL then disable_all_ports pe d else disable_one_port pe n d) = Some d1"
    using assms(1) by (cases "if n = OMX_ALL then disable_all_ports pe d else disable_one_port pe n d")
      (auto simp: async_decoder_disable_port_def)
  have "core_view d1 = core_view d"
    using 1 core_disable_all[OF _ assms(2)] core_disable_one[OF _ assms(2)] by (auto split: if_splits)
  then show ?thesis using assms(1) 1 by (auto simp: async_decoder_disable_port_def core_view_def split: if_splits)
qed

lemma core_enable_one:
  assumes "enable_one_port pe i k d = Some (e, d')" "env_ok pe"
  shows "core_view d' = core_view d"
proof -
  let ?s = "if port_is_supplier (port_of i d) then supply_tunneled_port pe i d else Some (OMX_ErrorNone, d)"
  let ?r = "if d_state d = OMX_StateLoaded then Some (OMX_ErrorNone, d)
       else do {
         (err, d) \<leftarrow> ?s;
         if err \<noteq> OMX_ErrorNone then Some (err, d)
         else do {
           (ready, d) \<leftarrow> wait_port_ready pe i d;
           Some (if ready then OMX_ErrorNone else OMX_ErrorTimeout, d)
         }
       }"
  obtain err d1 where r: "?r = Some (err, d1)"
    using assms(1) by (cases ?r) (auto simp: enable_one_port_def)
  have v: "core_view d1 = core_view d"
  proof (cases "d_state d = OMX_StateLoaded")
    case False
    then obtain e0 d0 where s: "?s = Some (e0, d0)" using r by (cases ?s) auto
    have v0: "core_view d0 = core_view d" using s core_supply[of pe i d e0 d0] by (auto split: if_splits)
    show ?thesis
    proof (cases "e0 = OMX_ErrorNone")
      case True
      then obtain b where "wait_port_ready pe i d0 = Some (b, d1)" using r s False by (auto simp: bind_cases)
      then show ?thesis using core_wait_port_ready assms(2) v0 by metis
    qed (use r s False v0 in auto)
  qed (use r in auto)
  show ?thesis
  proof (cases "err = OMX_ErrorNone")
    case True
    let ?t = "if d_state d1 = OMX_StateExecuting then map_option snd (startup_tunnel pe i d1) else Some d1"
    have "Option.bind ?t (\<lambda>d. Some (OMX_ErrorNone, let d = log_call (EvCmdComplete OMX_CommandPortEnable k) d
        in if i = POut then d\<lparr>d_portReconfigPending := False\<rparr> else d)) = Some (e, d')"
      using assms(1) r True by (simp add: enable_one_port_def Let_def)
    moreover obtain d2 where t: "?t = Some d2" using calculation by (cases ?t) auto
    moreover have "core_view d2 = core_view d1"
      using t core_startup_tunnel by (auto split: if_splits)
    ultimately show ?thesis using v by (auto simp: Let_def)
  next
    case False
    then show ?thesis using assms(1) r v by (simp add: enable_one_port_def)
  qed
qed

lemma enable_port_view:
  assumes "async_decoder_enable_port pe n d = Some (e, d')" "env_ok pe"
  shows "core_view d' = core_view d"
proof -
  let ?step = "\<lambda>i k (err, d). if err = OMX_ErrorNone \<and> (n = k \<or> n = OMX_ALL)
            then enable_one_port pe i k d else Some (err, d)"
  have st: "core_view d2 = core_view d1" if "?step i k (e1, d1) = Some (e2, d2)" for i k e1 d1 e2 d2
    using that core_enable_one[OF _ assms(2)] by (auto split: if_splits)
  note f = assms(1)[unfolded async_decoder_enable_port_def Let_def]
  obtain e1 d1 where 1: "?step PIn PORT_INDEX_INPUT (OMX_ErrorNone, d) = Some (e1, d1)"
    using f by (cases "?step PIn PORT_INDEX_INPUT (OMX_ErrorNone, d)") (auto simp only: option.simps Option.bind.simps)
  obtain e2 d2 where 2: "?step POut PORT_INDEX_OUTPUT (e1, d1) = Some (e2, d2)"
    using f 1 by (cases "?step POut PORT_INDEX_OUTPUT (e1, d1)") (auto simp only: option.simps Option.bind.simps)
  obtain e3 d3 where 3: "?step PPp PORT_INDEX_PP (e2, d2) = Some (e3, d3)"
    using f 1 2 by (cases "?step PPp PORT_INDEX_PP (e2, d2)") (auto simp only: option.simps Option.bind.simps)
  have "d' = (if e3 = OMX_ErrorNone then d3 else log_call (EvError e3) d3)"
    using f unfolding 1 Option.bind.simps 2 3 by auto
  then show ?thesis using st[OF 1] st[OF 2] st[OF 3] by simp
qed

lemma mark_buffer_view: "async_decoder_mark_buffer a d = Some (e, d') \<Longrightarrow> core_view d' = core_view d"
  by (auto simp: async_decoder_mark_buffer_def bind_cases Let_def split: option.splits)


subsection \<open>The command protocol\<close>

text \<open>The states that the queued commands ask for.\<close>

definition asked :: "handler cmd list \<Rightarrow> omx_statetype list" where
  "asked cs = List.map (\<lambda>c. to_state (a_param1 (c_arg c))) (filter (\<lambda>c. a_fun (c_arg c) = HSetState) cs)"

lemma asked_simps [simp]:
  "asked [] = []" "asked (cs @ cs') = asked cs @ asked cs'"
  "asked (c # cs) = (if a_fun (c_arg c) = HSetState then [to_state (a_param1 (c_arg c))] else []) @ asked cs"
  by (simp_all add: asked_def)

text \<open>Unless the decoder is invalid, the commands ask for the present state, except for at most the last
  one, which asks for statetrans.\<close>

definition pending_ok :: "decoder \<Rightarrow> handler cmd list \<Rightarrow> bool" where
  "pending_ok d cs = ((\<forall>c \<in> set cs. c_type c = CMD_SEND_COMMAND)
     \<and> (d_state d = OMX_StateInvalid \<or>
        (\<exists>k ys. asked cs = replicate k (d_state d) @ ys \<and> (ys = [] \<or> ys = [d_statetrans d]))))"

definition sys_ok :: "'t dec_sys \<Rightarrow> handler cmd list \<Rightarrow> bool" where
  "sys_ok s cs = (case s of (d, b, h) \<Rightarrow> commands b h cs \<and> resources_ok d \<and> pending_ok d cs)"

text \<open>A step of the application (sending a command), of the component thread (taking a command and
  running its handler, or failing to take one), or anything else that leaves the core view alone,
  such as handing over buffers and decoding.\<close>

inductive dec_step :: "peer \<Rightarrow> 't dec_sys \<Rightarrow> 't dec_sys \<Rightarrow> bool" for pe where
  send: "decoder_send_command hComponent Cmd n mark s = Some (err, s') \<Longrightarrow> dec_step pe s s'"
| recv: "basecomp_try_recv_command b True h = Some (err, ok, Some c, b', h') \<Longrightarrow>
    cmd_dispatch (call_handler pe) c d = Some (e, d') \<Longrightarrow> dec_step pe (d, b, h) (d', b', h')"
| none: "basecomp_try_recv_command b True h = Some (err, ok, None, b', h') \<Longrightarrow> dec_step pe (d, b, h) (d, b', h')"
| other: "core_view d' = core_view d \<Longrightarrow> dec_step pe (d, b, h) (d', b, h)"

lemma send_sys:
  assumes "send f Cmd p data (d, b, h) = Some (err, d', b', h')" "commands b h cs" "length cs < 2 ^ 64 - 1"
  shows "d' = d \<and> (commands b' h' cs \<or> commands b' h' (cs @ [\<lparr>c_type = CMD_SEND_COMMAND,
      c_arg = \<lparr>a_cmd = Cmd, a_param1 = p, a_data = data, a_fun = f\<rparr>\<rparr>]))"
proof -
  let ?c = "\<lparr>c_type = CMD_SEND_COMMAND, c_arg = \<lparr>a_cmd = Cmd, a_param1 = p, a_data = data, a_fun = f\<rparr>\<rparr>"
  have "basecomp_send_command b ?c h = Some (err, b', h') \<and> d' = d"
    using assms(1) by (auto simp: send_def bind_cases)
  then show ?thesis using send_command_commands[OF assms(2,3), of ?c err b' h'] by (cases "err = OMX_ErrorNone") simp_all
qed

lemma core_set_enabled [simp]: "core_view (set_enabled e n d) = core_view d"
  by (simp add: set_enabled_def Let_def)

text \<open>Every command but one to set the state keeps the core view and adds a command of its own handler.\<close>

lemma send_other:
  assumes "decoder_send_command hc Cmd n mark (d, b, h) = Some (err, d', b', h')" "Cmd \<noteq> OMX_CommandStateSet"
    "commands b h cs" "length cs < 2 ^ 64 - 1"
  shows "core_view d' = core_view d \<and> (commands b' h' cs \<or> (\<exists>c. commands b' h' (cs @ [c])
    \<and> c_type c = CMD_SEND_COMMAND \<and> a_fun (c_arg c) \<noteq> HSetState))"
proof (cases "hc = 0 \<or> d_state d = OMX_StateInvalid")
  case True
  then have "d' = d" "b' = b" "h' = h" using assms(1) by (auto simp: decoder_send_command_def split: if_splits)
  then show ?thesis using assms(3) by simp
next
  case False
  note sd = send_sys[OF _ assms(3,4)]
  have sent: "core_view d2 = core_view d1 \<and> (f \<noteq> HSetState \<longrightarrow> commands b' h' cs \<or> (\<exists>c. commands b' h' (cs @ [c])
    \<and> c_type c = CMD_SEND_COMMAND \<and> a_fun (c_arg c) \<noteq> HSetState))"
    if "send f C p data (d1, b, h) = Some (e1, d2, b', h')" for f C p data d1 d2 e1
    using sd[OF that(1)] by auto
  show ?thesis
  proof (cases Cmd)
    case OMX_CommandFlush
    then have f: "send_flush n (d, b, h) = Some (err, d', b', h')" using assms(1) False by (simp add: decoder_send_command_def)
    let ?d = "(if n = PORT_INDEX_OUTPUT \<or> n = OMX_ALL then d\<lparr>d_flushingOutPort := True\<rparr> else d)\<lparr>d_releaseBuffers := True\<rparr>"
    show ?thesis
    proof (cases "bad_port n")
      case True
      then show ?thesis using f assms(3) by (simp add: send_flush_def)
    next
      case False
      then obtain y where y: "codec_call CodecAbort ?d = Some y" "send HFlushPort OMX_CommandFlush n 0 (y, b, h) = Some (err, d', b', h')"
        using f by (auto simp: send_flush_def bind_cases Let_def)
      then have "core_view y = core_view d" using core_codec_call[OF y(1)] by simp
      then show ?thesis using sent[OF y(2)] by simp
    qed
  next
    case OMX_CommandPortDisable
    then have "send_port_disable n (d, b, h) = Some (err, d', b', h')" using assms(1) False by (simp add: decoder_send_command_def)
    then show ?thesis using assms(3)
      by (auto simp: send_port_disable_def Let_def dest!: sent split: if_splits)
  next
    case OMX_CommandPortEnable
    then have "send_port_enable n (d, b, h) = Some (err, d', b', h')" using assms(1) False by (simp add: decoder_send_command_def)
    then show ?thesis using assms(3)
      by (auto simp: send_port_enable_def dest!: sent split: if_splits)
  next
    case OMX_CommandMarkBuffer
    then have m: "send_mark_buffer n mark (d, b, h) = Some (err, d', b', h')" using assms(1) False by (simp add: decoder_send_command_def)
    show ?thesis
    proof (cases "(n \<noteq> PORT_INDEX_INPUT \<and> n \<noteq> PORT_INDEX_PP) \<or> mark = None")
      case True
      then show ?thesis using m assms(3) by (auto simp: send_mark_buffer_def split: if_splits)
    next
      case False
      then obtain x where x: "mark = Some x" "\<not> (n \<noteq> PORT_INDEX_INPUT \<and> n \<noteq> PORT_INDEX_PP)" by blast
      obtain p d1 where p: "sys_malloc (\<lambda>p. d_markmem d p \<noteq> None) d = (p, d1)" by fastforce
      have v: "core_view d1 = core_view d" using p by (auto simp: sys_malloc_def Let_def)
      show ?thesis
      proof (cases "p = 0")
        case True
        then show ?thesis using m x p v assms(3) by (simp add: send_mark_buffer_def)
      next
        case False
        then obtain e d2 where s: "send HMarkBuffer OMX_CommandMarkBuffer n p (d1\<lparr>d_markmem := (d_markmem d1)(p \<mapsto> x)\<rparr>, b, h)
            = Some (e, d2, b', h')" "core_view d' = core_view d2"
          using m x p by (auto simp: send_mark_buffer_def bind_cases simp del: de_Morgan_conj split: if_splits)
        then show ?thesis using sent[OF s(1)] v by simp
      qed
    qed
  next
    case (OMX_CommandReserved k)
    then show ?thesis using assms False by (simp add: decoder_send_command_def)
  qed (use assms(2) in simp)
qed


lemma send_step:
  assumes "decoder_send_command hc Cmd n mark (d, b, h) = Some (err, d', b', h')"
    "sys_ok (d, b, h) cs" "length cs < 2 ^ 64 - 1"
  shows "\<exists>cs'. sys_ok (d', b', h') cs' \<and> length cs' \<le> length cs + 1"
proof (cases "Cmd = OMX_CommandStateSet")
  case False
  have c: "commands b h cs" "resources_ok d" "pending_ok d cs" using assms(2) by (simp_all add: sys_ok_def)
  from send_other[OF assms(1) False c(1) assms(3)] obtain cs' where
    cs': "commands b' h' cs'" "asked cs' = asked cs" "length cs' \<le> length cs + 1"
      "\<forall>c \<in> set cs'. c \<in> set cs \<or> c_type c = CMD_SEND_COMMAND" and v: "core_view d' = core_view d"
    by (elim conjE disjE exE) (force intro: that)+
  have "pending_ok d' cs'" using c(3) cs'(2,4) view_sel[OF v] by (auto simp: pending_ok_def)
  then show ?thesis using cs' resources_ok_view[OF v] c(2) by (auto simp: sys_ok_def)
next
  case True
  have c: "commands b h cs" "resources_ok d" "pending_ok d cs" using assms(2) by (simp_all add: sys_ok_def)
  show ?thesis
  proof (cases "hc = 0 \<or> d_state d = OMX_StateInvalid \<or> d_statetrans d \<noteq> d_state d")
    case True
    then have "d' = d" "b' = b" "h' = h" using assms(1) \<open>Cmd = _\<close>
      by (auto simp: decoder_send_command_def send_set_state_def split: if_splits)
    then show ?thesis using assms(2) by auto
  next
    case False
    let ?d = "d\<lparr>d_statetrans := to_state n\<rparr>"
    obtain d1 e where d1: "core_view d1 = core_view ?d" and s: "send HSetState OMX_CommandStateSet n 0 (d1, b, h) = Some (e, d', b', h')"
      using assms(1) False True by (auto simp: decoder_send_command_def send_set_state_def Let_def bind_cases
          dest!: core_codec_call split: if_splits)
    from send_sys[OF s c(1) assms(3)] obtain ys where ys: "d' = d1" "commands b' h' (cs @ ys)" "length ys \<le> 1"
      "ys = [] \<or> asked ys = [to_state n]" "\<forall>c \<in> set ys. c_type c = CMD_SEND_COMMAND"
      by (elim conjE disjE) (force intro: that[of "[]"] that)+
    have st: "d_state d' = d_state d" "d_statetrans d' = to_state n" "resources_ok d'"
      using view_sel[OF d1] resources_ok_view[OF d1] c(2) ys(1) by (simp_all add: resources_ok_def)
    obtain k where "asked cs = replicate k (d_state d)"
      using c(3) False by (auto simp: pending_ok_def replicate_append_same simp flip: replicate_Suc)
    then have "pending_ok d' (cs @ ys)"
      using st ys(4,5) c(3) by (auto simp: pending_ok_def intro!: exI[of _ k])
    then show ?thesis using ys st by (intro exI[of _ "cs @ ys"]) (simp add: sys_ok_def)
  qed
qed

lemma handler_step:
  assumes "cmd_dispatch (call_handler pe) c d = Some (e, d')" "env_ok pe" "resources_ok d" "pending_ok d (c # cs)"
  shows "resources_ok d' \<and> pending_ok d' cs"
proof -
  have t: "c_type c = CMD_SEND_COMMAND" "\<forall>c \<in> set cs. c_type c = CMD_SEND_COMMAND" using assms(4) by (auto simp: pending_ok_def)
  then have ch: "call_handler pe (a_fun (c_arg c)) (a_cmd (c_arg c)) (a_param1 (c_arg c)) (a_data (c_arg c)) d = Some (e, d')"
    using assms(1) by (simp add: cmd_dispatch_def)
  show ?thesis
  proof (cases "a_fun (c_arg c) = HSetState")
    case False
    have "core_view d' = core_view d \<or> d_state d' = OMX_StateInvalid"
      using ch False assms(2) flush_port_view disable_port_view enable_port_view mark_buffer_view
      by (cases "a_fun (c_arg c)") (auto simp: call_handler_def)
    then show ?thesis
    proof
      assume v: "core_view d' = core_view d"
      then show ?thesis using assms(3,4) False view_sel[OF v] resources_ok_view[OF v] by (auto simp: pending_ok_def)
    next
      assume "d_state d' = OMX_StateInvalid"
      then show ?thesis using t by (simp add: resources_ok_def pending_ok_def)
    qed
  next
    case True
    let ?n = "a_param1 (c_arg c)"
    have "async_decoder_set_state pe ?n d = Some (e, d')" using ch True by (simp add: call_handler_def)
    note v = set_state_view[OF this assms(2,3)]
    show ?thesis
    proof (cases "d_state d' = OMX_StateInvalid")
      case True
      then show ?thesis using v t by (simp add: pending_ok_def)
    next
      case False
      then have nv: "d_state d \<noteq> OMX_StateInvalid" using v by (auto simp: omx_transitions_def split: if_splits)
      then obtain k ys where a: "asked (c # cs) = replicate k (d_state d) @ ys" "ys = [] \<or> ys = [d_statetrans d]"
        using assms(4) by (auto simp: pending_ok_def)
      show ?thesis
      proof (cases "to_state ?n = d_state d")
        case True
        then have "d_state d' = d_state d" "d_statetrans d' = d_statetrans d" using v by simp_all
        moreover have "\<exists>k zs. asked cs = replicate k (d_state d) @ zs \<and> (zs = [] \<or> zs = [d_statetrans d])"
        proof (cases k)
          case 0
          then show ?thesis using a True \<open>a_fun (c_arg c) = HSetState\<close> by auto
        next
          case (Suc m)
          then have "asked cs = replicate m (d_state d) @ ys" using a(1) \<open>a_fun (c_arg c) = HSetState\<close> by simp
          then show ?thesis using a(2) by blast
        qed
        ultimately show ?thesis using v t by (auto simp: pending_ok_def)
      next
        case ne: False
        then have "asked cs = []" using a \<open>a_fun (c_arg c) = HSetState\<close> by (cases k) auto
        then show ?thesis using v t by (auto simp: pending_ok_def)
      qed
    qed
  qed
qed

lemma sys_ok_step:
  assumes "dec_step pe s s'" "sys_ok s cs" "env_ok pe" "length cs < 2 ^ 64 - 1"
  shows "\<exists>cs'. sys_ok s' cs' \<and> length cs' \<le> length cs + 1"
  using assms(1)
proof cases
  case (send hc Cmd n mark err)
  then show ?thesis using send_step assms(2,4) by (metis prod_cases3)
next
  case (recv b h err ok c b' h' d e d')
  have s: "commands b h cs" "resources_ok d" "pending_ok d cs" using assms(2) recv(1) by (simp_all add: sys_ok_def)
  note r = try_recv_commands[OF s(1) recv(3)]
  then have cs: "cs \<noteq> []" "c = hd cs" "commands b' h' (tl cs)" by (auto split: if_splits)
  have "pending_ok d (c # tl cs)" using s(3) cs by simp
  from handler_step[OF recv(4) assms(3) s(2) this] show ?thesis
    using cs recv(2) by (intro exI[of _ "tl cs"]) (simp add: sys_ok_def)
next
  case (none b h err ok b' h' d)
  have s: "commands b h cs" "resources_ok d" "pending_ok d cs" using assms(2) none(1) by (simp_all add: sys_ok_def)
  note r = try_recv_commands[OF s(1) none(3)]
  have "commands b' h' cs" using r by (cases "cs = []") (auto split: if_splits)
  then show ?thesis using s none(2) by (intro exI[of _ cs]) (simp add: sys_ok_def)
next
  case (other d' d b h)
  then show ?thesis using assms(2) view_sel[OF other(3)] resources_ok_view[OF other(3)]
    by (intro exI[of _ cs]) (auto simp: sys_ok_def pending_ok_def)
qed



subsection \<open>Returning the buffers of a port\<close>

text \<open>The loop over the queue of a port that is not tunnelled, whose direction is input: each
  queued buffer goes back to the application, with the header it has.\<close>

definition has_header :: "(addr \<Rightarrow> omx_bufferheader) \<Rightarrow> addr \<Rightarrow> decoder \<Rightarrow> bool" where
  "has_header hdr x d = (x \<noteq> 0 \<and> (\<exists>b. bufs d x = Some b \<and> get_header (b_header b) d = Some (hdr x)))"

lemma get_header_updates [simp]:
  "get_header h (log_call c d) = get_header h d" "get_header h (tick d) = get_header h d"
  "get_header h (d\<lparr>d_in := p\<rparr>) = get_header h d"
  by (simp_all add: get_header_def log_call_def split: header_ptr.split)

lemma has_header_log [simp]: "has_header hdr x (log_call c d) = has_header hdr x d"
  by (simp add: has_header_def) (simp add: log_call_def)

lemma port_of_log [simp]: "port_of i (log_call c d) = port_of i d"
  by (cases i) (simp_all add: log_call_def)

lemma return_buffer_input:
  assumes "has_header hdr x d" "eDir (p_def (port_of i d)) = OMX_DirInput" "p_tunnelcomp (port_of i d) = 0"
  shows "return_buffer pe i x d = Some (log_call (EmptyBufferDone x (hdr x)) d)"
  using assms by (auto simp: has_header_def return_buffer_def port_is_tunneled_def Let_def)

lemma return_loop_input:
  assumes "port_queue (port_of i d) xs" "eDir (p_def (port_of i d)) = OMX_DirInput" "p_tunnelcomp (port_of i d) = 0"
    "\<forall>x \<in> set xs. has_header hdr x d" "k + n = length xs"
  shows "return_loop pe i (of_nat k) n d
    = Some (d\<lparr>d_log := d_log d @ List.map (\<lambda>x. EmptyBufferDone x (hdr x)) (drop k xs)\<rparr>)"
  using assms
proof (induction n arbitrary: k d)
  case (Suc n)
  let ?p = "port_of i d"
  have l: "bl_ok (p_bufferqueue ?p)" "elems (p_bufferqueue ?p) = xs" "unat (bl_size (p_bufferqueue ?p)) = length xs"
    using Suc.prems(1) port_queue_size by (auto simp: port_queue_def)
  have k: "k < length xs" "k < 2 ^ 64" "unat (of_nat k :: omx_u32) = k" "(of_nat k :: omx_u32) < bl_size (p_bufferqueue ?p)"
  proof -
    show 1: "k < length xs" using Suc.prems(5) by simp
    show 2: "k < 2 ^ 64" using 1 l(1,3) bl_ok_size[of "p_bufferqueue ?p"] by simp
    show 3: "unat (of_nat k :: omx_u32) = k" using 2 by (simp add: unat_of_nat)
    show "(of_nat k :: omx_u32) < bl_size (p_bufferqueue ?p)" using 1 3 l(3) by (simp add: word_less_nat_alt)
  qed
  have g: "port_get_buffer_at ?p (of_nat k) = Some (True, xs ! k)"
    using k l by (simp add: port_get_buffer_at_def bufferlist_get_size_def bufferlist_at_elems)
  have h: "has_header hdr (xs ! k) d" "xs ! k \<noteq> 0" using Suc.prems(4) k(1) by (auto simp: has_header_def)
  let ?d = "log_call (EmptyBufferDone (xs ! k) (hdr (xs ! k))) d"
  have "return_loop pe i (of_nat k + 1) n ?d
    = Some (?d\<lparr>d_log := d_log ?d @ List.map (\<lambda>x. EmptyBufferDone x (hdr x)) (drop (Suc k) xs)\<rparr>)"
  proof -
    have e: "(of_nat k + 1 :: omx_u32) = of_nat (Suc k)" by simp
    show ?thesis unfolding e using Suc.prems by (intro Suc.IH) simp_all
  qed
  then show ?case
    using g h return_buffer_input[OF h(1) Suc.prems(2,3)] k(1)
    by (simp add: log_call_def flip: Cons_nth_drop_Suc)
qed simp

lemma with_port_of [simp]: "port_of i (with_port i p d) = p"
  by (cases i) simp_all

lemma port_of_updates [simp]:
  "port_of i (d\<lparr>w_now := t\<rparr>) = port_of i d" "port_of i (d\<lparr>d_log := lg\<rparr>) = port_of i d" "port_of i (d\<lparr>d_prop := dp\<rparr>) = port_of i d"
  by (cases i; simp)+

text \<open>C29: async\_decoder\_return\_buffers on an input port that is not tunnelled hands every
  queued buffer back to the application, each once and in the order they were queued, forgets the
  time stamps and marks taken over from them, and leaves the queue empty, its event cleared and
  the port unlocked.\<close>

theorem return_buffers_in_order:
  assumes "port_queue (d_in d) xs" "p_bufferevent (d_in d) = Some (event_of (xs \<noteq> []))"
    "p_buffermutex (d_in d) = Some mu" "m_depth mu = 0"
    "eDir (p_def (d_in d)) = OMX_DirInput" "p_tunnelcomp (d_in d) = 0" "d_prevBuffer d = 0"
    "\<forall>x \<in> set xs. has_header hdr x d" "dp_rep (d_prop d) ds ks" "calls_ok d"
  shows "\<exists>d'. async_decoder_return_buffers pe PIn d = Some (OMX_ErrorNone, d')
    \<and> d_log d' = d_log d @ List.map (\<lambda>x. EmptyBufferDone x (hdr x)) xs
    \<and> port_queue (d_in d') [] \<and> p_buffermutex (d_in d') = Some mu \<and> bufs d' = bufs d
    \<and> dp_rep (d_prop d') [] (replicate 64 (-1))"
proof -
  let ?p = "d_in d"
  let ?d1 = "(tick d)\<lparr>d_in := ?p\<lparr>p_buffermutex := Some (mu\<lparr>m_depth := 1\<rparr>)\<rparr>\<rparr>"
  have 1: "on_port PIn port_lock_buffers d = Some (OMX_ErrorNone, ?d1)"
    using assms by (simp add: on_port_def port_lock_buffers_def OSAL_MutexLock_ok)
  let ?d2 = "?d1\<lparr>d_log := d_log d @ List.map (\<lambda>x. EmptyBufferDone x (hdr x)) xs\<rparr>"
  have n: "unat (port_buffer_queue_count (d_in ?d1)) = length xs"
    using port_queue_size[OF assms(1)] by (simp add: port_buffer_queue_count_def bufferlist_get_size_def)
  have "return_loop pe PIn (of_nat 0) (length xs) ?d1 = Some (?d1\<lparr>d_log := d_log ?d1 @
      List.map (\<lambda>x. EmptyBufferDone x (hdr x)) (drop 0 xs)\<rparr>)"
    using assms by (intro return_loop_input) (auto simp: port_queue_def has_header_def)
  then have 2: "return_loop pe PIn 0 (length xs) ?d1 = Some ?d2" by simp
  obtain dp where dp: "flush_propagate_data (d_prop d) = Some dp" "dp_rep dp [] ks"
    using flush_propagate_rep[OF assms(9)] by blast
  let ?e = "Some (event_of False)"
  let ?l = "if xs = [] then p_bufferqueue ?p else bufferlist_clear (p_bufferqueue ?p)"
  let ?d3 = "?d2\<lparr>d_prop := reset_propagation dp\<rparr>"
  obtain t where t: "port_buffer_queue_clear (d_in ?d3) ?d3 = Some ((d_in ?d3)\<lparr>p_bufferevent := ?e, p_bufferqueue := ?l\<rparr>, ?d3\<lparr>w_now := t\<rparr>)"
    "w_now d < t"
  proof (cases "xs = []")
    case True
    then have "bl_size (p_bufferqueue ?p) = 0" using port_queue_size_0[OF assms(1)] by simp
    then show ?thesis using True assms(2) that[of "w_now ?d3"] by (simp add: port_buffer_queue_clear_def bufferlist_get_size_def)
  next
    case False
    then have "bl_size (p_bufferqueue ?p) \<noteq> 0" using port_queue_size_0[OF assms(1)] by simp
    moreover have "calls_ok ?d3" using assms(10) by (simp add: calls_ok_def)
    ultimately show ?thesis using False assms(2) that[of "w_now ?d3 + 3"]
      by (simp add: port_buffer_queue_clear_def bufferlist_get_size_def OSAL_EventReset_ok)
  qed
  let ?d4 = "?d3\<lparr>w_now := t, d_in := (d_in ?d3)\<lparr>p_bufferevent := ?e, p_bufferqueue := ?l\<rparr>\<rparr>"
  let ?d5 = "?d4\<lparr>w_now := Suc t, d_in := (d_in ?d4)\<lparr>p_buffermutex := Some mu\<rparr>\<rparr>"
  have 4: "on_port PIn (\<lambda>p d. map_option (Pair ()) (port_buffer_queue_clear p d)) ?d3 = Some ((), ?d4)"
    using t(1) by (simp add: on_port_def)
  have "calls_ok ?d4" using assms(10) t(2) by (simp add: calls_ok_def)
  then have 5: "on_port PIn port_unlock_buffers ?d4 = Some (OMX_ErrorNone, ?d5)"
    using assms(4) by (simp add: on_port_def port_unlock_buffers_def OSAL_MutexUnlock_ok)
  have "async_decoder_return_buffers pe PIn d = Some (OMX_ErrorNone, ?d5)"
    using assms(5,6,7) 1 n 2 dp(1) 4 5
    by (simp add: async_decoder_return_buffers_def port_is_supplier_def return_prev_buffer_def)
  moreover have "port_queue (d_in ?d5) []"
    using assms(1) bufferlist_clear_elems[of "p_bufferqueue ?p"] by (auto simp: port_queue_def event_is_def ev_inv_def event_of_def)
  moreover have "dp_rep (d_prop ?d5) [] (replicate 64 (-1))"
  proof -
    have "replicate (64 - unat (dp_pos dp)) x @ replicate (unat (dp_pos dp)) x = replicate 64 x" if "dp_pos dp < 64" for x :: omx_u32
      using that by (simp add: word_less_nat_alt flip: replicate_add)
    then show ?thesis using dp(2)
      by (auto simp: dp_rep_def reset_propagation_def ring_list_def word_less_nat_alt min_absorb1)
  qed
  ultimately show ?thesis by (intro exI[of _ ?d5]) simp
qed


subsection \<open>The state machine\<close>

text \<open>C9: The state machine of the decoder: async\_decoder\_set\_state moves only along the state
  diagram of OpenMAX IL, to the state asked for, or to the invalid state; a request off the diagram
  returns OMX\_ErrorIncorrectStateTransition and undoes statetrans, nothing else; and a decoder holds a codec
  and its frame buffers exactly from the idle state on, whichever transition succeeded or failed.\<close>

theorem set_state_diagram:
  assumes "async_decoder_set_state pe n d = Some (err, d')" "env_ok pe" "resources_ok d"
  shows "resources_ok d'
    \<and> (d_state d' \<in> {d_state d, OMX_StateInvalid}
       \<or> (d_state d, d_state d') \<in> set omx_transitions \<and> d_state d' = to_state n \<and> d_statetrans d' = to_state n)
    \<and> (to_state n \<notin> {d_state d, OMX_StateInvalid} \<and> (d_state d, to_state n) \<notin> set omx_transitions
       \<longrightarrow> err = OMX_ErrorIncorrectStateTransition
         \<and> d' = log_call (EvError OMX_ErrorIncorrectStateTransition) (d\<lparr>d_statetrans := d_state d\<rparr>))"
proof -
  have "err = OMX_ErrorIncorrectStateTransition
      \<and> d' = log_call (EvError OMX_ErrorIncorrectStateTransition) (d\<lparr>d_statetrans := d_state d\<rparr>)"
    if "to_state n \<notin> {d_state d, OMX_StateInvalid}" "(d_state d, to_state n) \<notin> set omx_transitions"
  proof -
    have "state_switch pe (to_state n) d = Some (OMX_ErrorIncorrectStateTransition, d)"
      using that assms(1)
      by (cases "to_state n"; cases "d_state d") (auto simp: state_switch_def omx_transitions_def async_decoder_set_state_def)
    then show ?thesis using that assms(1) by (simp add: async_decoder_set_state_def)
  qed
  then show ?thesis using set_state_view[OF assms] by (auto split: if_splits)
qed

text \<open>C8: The protocol of StateSet commands. From a loaded decoder with an empty command queue,
  through any sequence of commands sent and handled: a queued request for a state asks for the
  present state or for the one in statetrans, so the assertions on statetrans in the transitions
  hold when it is handled, and the resources match the state.\<close>

theorem state_protocol:
  assumes "(dec_step pe ^^ k) (d0, b0, h0) (d, b, h)" "k < 2 ^ 64" "env_ok pe"
    "commands b0 h0 []" "d_state d0 = OMX_StateLoaded" "d_statetrans d0 = OMX_StateLoaded" "resources_ok d0"
  shows "\<exists>cs. commands b h cs \<and> resources_ok d
    \<and> (\<forall>c \<in> set cs. a_fun (c_arg c) = HSetState \<longrightarrow>
        d_state d = OMX_StateInvalid \<or> to_state (a_param1 (c_arg c)) \<in> {d_state d, d_statetrans d})"
proof -
  have "\<exists>cs. sys_ok s cs \<and> length cs \<le> k" if "(dec_step pe ^^ k) (d0, b0, h0) s" "k < 2 ^ 64" for s k
    using that
  proof (induction k arbitrary: s)
    case 0
    then show ?case using assms(4,7) by (auto simp: sys_ok_def pending_ok_def)
  next
    case (Suc k)
    then obtain s1 where s1: "(dec_step pe ^^ k) (d0, b0, h0) s1" "dec_step pe s1 s" by auto
    obtain cs where cs: "sys_ok s1 cs" "length cs \<le> k" using Suc.IH[OF s1(1)] Suc.prems(2) by auto
    then obtain cs' where "sys_ok s cs'" "length cs' \<le> length cs + 1"
      using sys_ok_step[OF s1(2) cs(1) assms(3)] Suc.prems(2) by auto
    then show ?case using cs(2) by (intro exI[of _ cs']) simp
  qed
  from this[OF assms(1,2)] obtain cs where cs: "commands b h cs" "resources_ok d" "pending_ok d cs"
    by (auto simp: sys_ok_def)
  have "to_state (a_param1 (c_arg c)) \<in> {d_state d, d_statetrans d}"
    if c: "c \<in> set cs" "a_fun (c_arg c) = HSetState" "d_state d \<noteq> OMX_StateInvalid" for c
  proof -
    obtain k ys where k: "asked cs = replicate k (d_state d) @ ys" "ys = [] \<or> ys = [d_statetrans d]"
      using cs(3) c(3) by (auto simp: pending_ok_def)
    have "to_state (a_param1 (c_arg c)) \<in> set (asked cs)" using c(1,2) by (auto simp: asked_def)
    then show ?thesis using k by auto
  qed
  then show ?thesis using cs by blast
qed

subsection \<open>Where sending a command goes wrong\<close>

text \<open>If the command of a StateSet cannot be queued, the component stays in transition: the
  error is reported, but statetrans has been set, and every later StateSet is refused with
  OMX\_ErrorIncorrectStateTransition.\<close>

theorem failed_send_wedges_state:
  assumes "decoder_send_command hc OMX_CommandStateSet n mk (d, b, h) = Some (err, s')" "err \<noteq> OMX_ErrorNone"
    "hc \<noteq> 0" "d_state d \<noteq> OMX_StateInvalid" "d_statetrans d = d_state d" "to_state n \<noteq> d_state d" "hc' \<noteq> 0"
  shows "decoder_send_command hc' OMX_CommandStateSet m mk' s' = Some (OMX_ErrorIncorrectStateTransition, s')"
proof -
  let ?d = "d\<lparr>d_statetrans := to_state n\<rparr>"
  obtain d1 b1 h1 where 1: "s' = (d1, b1, h1)" "core_view d1 = core_view ?d"
  proof -
    let ?c = "if to_state n = OMX_StateIdle \<and> d_state d = OMX_StateExecuting
      then codec_call CodecAbort (?d\<lparr>d_releaseBuffers := True\<rparr>) else Some ?d"
    obtain d1 where d1: "?c = Some d1" "send HSetState OMX_CommandStateSet n 0 (d1, b, h) = Some (err, s')"
      using assms(1,3-5) by (cases ?c) (auto simp: decoder_send_command_def send_set_state_def Let_def)
    have "core_view d1 = core_view ?d" using d1(1) core_codec_call[of CodecAbort "?d\<lparr>d_releaseBuffers := True\<rparr>" d1]
      by (auto split: if_splits)
    moreover obtain b1 h1 where "s' = (d1, b1, h1)" using d1(2) by (auto simp: send_def bind_cases)
    ultimately show thesis using that by blast
  qed
  have "d_state d1 = d_state d" "d_statetrans d1 = to_state n" using view_sel[OF 1(2)] by simp_all
  then show ?thesis using 1(1) assms(4,6,7) by (simp add: decoder_send_command_def send_set_state_def)
qed

text \<open>A Flush command in the loaded or wait-for-resources state calls abort of a null codec:
  decoder\_send\_command only excludes the invalid state, and before the idle state there is no codec.\<close>

theorem flush_without_codec:
  assumes "resources_ok d" "d_state d \<in> {OMX_StateLoaded, OMX_StateWaitForResources}" "hc \<noteq> 0" "\<not> bad_port n"
  shows "decoder_send_command hc OMX_CommandFlush n mk (d, b, h) = None"
  using assms by (auto simp: decoder_send_command_def send_flush_def codec_call_def resources_ok_def Let_def)

lemma sys_malloc_sel:
  assumes "sys_malloc l d = (p, d')" shows "d_in d' = d_in d \<and> d_mem d' = d_mem d"
proof -
  from sys_malloc_world[OF assms] show ?thesis by simp
qed

lemma alloc_mem_sel:
  assumes "alloc_mem d = (OMX_ErrorNone, p, d')" shows "d_in d' = d_in d \<and> d_mem d' = p # d_mem d"
proof -
  obtain q d1 where q: "sys_malloc (\<lambda>p. p \<in> set (d_mem d)) d = (q, d1)" by fastforce
  then have "q = p" "d' = d1\<lparr>d_mem := p # d_mem d1\<rparr>"
    using assms by (auto simp: alloc_mem_def split: if_splits)
  then show ?thesis using sys_malloc_sel[OF q] by simp
qed

text \<open>supply\_tunneled\_port reports success when no buffer object can be allocated: at its first
  buffer the error variable still holds the success of the memory allocation, the port is left unpopulated
  and without buffers, and OMX\_ErrorNone is returned.\<close>

theorem supply_hides_failure:
  assumes "p_tunnelcomp (d_in d) \<noteq> 0" "pe_param pe (w_now d) = (OMX_ErrorNone, pcount, psize)" "0 < pcount"
    "alloc_mem (tick d) = (OMX_ErrorNone, mem, d1)" "port_bufs (d_in d) d []"
    "sys_malloc (buf_live d1) d1 = (0, d2)"
  shows "\<exists>d'. supply_tunneled_port pe PIn d = Some (OMX_ErrorNone, d') \<and> d_mem d' = d_mem d
    \<and> bPopulated (p_def (d_in d')) = bPopulated (p_def (d_in d)) \<and> port_bufs (d_in d') d' []"
proof -
  have d1: "d_in d1 = d_in d" "d_mem d1 = mem # d_mem d" and d2: "d_in d2 = d_in d" "d_mem d2 = mem # d_mem d"
    using alloc_mem_sel[OF assms(4)] sys_malloc_sel[OF assms(6)] by simp_all
  have l0: "bl_ok (p_buffers (d_in d))" "elems (p_buffers (d_in d)) = []" using assms(5) by (simp_all add: port_bufs_def)
  have l: "bl_ok (p_buffers (d_in d))" "bl_size (p_buffers (d_in d)) = 0"
    using l0(1) length_elems[OF l0(1)] unfolding l0(2) by (simp_all add: unat_eq_0)
  let ?d3 = "d2\<lparr>d_mem := d_mem d\<rparr>"
  have a: "on_port PIn (\<lambda>p d. map_option (\<lambda>(r, b, p, d). ((r, b), p, d)) (port_allocate_next_buffer p d)) d1
      = Some ((False, 0), d2)"
    using assms(6) d1 d2 by (simp add: on_port_def port_allocate_next_buffer_def)
  have "supply_buffer pe PIn sz (tick d) = Some (True, OMX_ErrorNone, ?d3)" for sz
    using assms(4) a d2 by (simp add: supply_buffer_def free_mem_def)
  moreover obtain k where "unat (max pcount (nBufferCountActual (p_def (d_in d)))) = Suc k"
    using assms(3) by (cases "unat (max pcount (nBufferCountActual (p_def (d_in d))))") (auto simp: unat_eq_0 max_def split: if_splits)
  ultimately have s: "supply_loop pe PIn sz (unat (max pcount (nBufferCountActual (p_def (d_in d))))) (tick d)
      = Some (True, OMX_ErrorNone, ?d3)" for sz
    by simp
  let ?d4 = "?d3\<lparr>d_in := (d_in d)\<lparr>p_buffers := bufferlist_clear (p_buffers (d_in d))\<rparr>\<rparr>"
  have r: "release_supplied True PIn ?d3 = Some ?d4"
    using l d2 by (simp add: release_supplied_def port_buffer_count_def bufferlist_get_size_def on_port_def
        port_release_all_allocated_def)
  have "supply_tunneled_port pe PIn d = Some (OMX_ErrorNone, ?d4)"
    using assms(1,2) s r by (simp add: supply_tunneled_port_def Let_def)
  moreover have "port_bufs (d_in ?d4) ?d4 []"
    using bufferlist_clear_elems[OF l(1)] by (simp add: port_bufs_def)
  ultimately show ?thesis by (intro exI[of _ ?d4]) simp
qed

subsection \<open>Concrete decoders\<close>

definition start_dec :: decoder where
  "start_dec = \<lparr>w_now = 0, w_rc = (\<lambda>_. 0), w_ptr = (\<lambda>n. 100 + n), bufs = Map.empty,
     d_state = OMX_StateLoaded, d_statetrans = OMX_StateLoaded, d_run = True, d_self = 1,
     d_in = start_port, d_inpp = start_port, d_out = start_port, d_role = [], d_coding = CodingAVC,
     d_color = ColorYUV420Planar, d_pp_width = 0, d_pp_height = 0, d_codec = 0,
     d_frame_in = zero_frame_buffer, d_frame_out = zero_frame_buffer, d_mask = zero_frame_buffer,
     d_prop = dp_start, d_marks = mark_start, d_buffer = 0, d_prevBuffer = 0,
     d_portReconfigPending = False, d_disablingOutPort = False, d_flushingOutPort = False,
     d_releaseBuffers = False, d_checkExtraBuffers = False, d_reallocAddress = 0,
     d_outputBufList = [], d_outputBufListPrev = [], d_outputBufSize = 0,
     sh_inbuff = 0, sh_EOS = False, sh_hasFrame = False, sh_output_thread = False,
     sh_output_thread_run = False, sh_eos_bus_address = 0,
     d_mem = [], d_markmem = Map.empty, d_headers = Map.empty, d_log = []\<rparr>"

definition idle_dec :: decoder where
  "idle_dec = start_dec\<lparr>d_state := OMX_StateIdle, d_statetrans := OMX_StatePause, d_codec := 7,
     d_frame_in := zero_frame_buffer\<lparr>fb_bus_data := 8\<rparr>, d_frame_out := zero_frame_buffer\<lparr>fb_bus_data := 9\<rparr>\<rparr>"

definition quiet_peer :: peer where
  "quiet_peer = \<lparr>pe_param = (\<lambda>_. (OMX_ErrorNone, 2, 512)), pe_use = (\<lambda>_. (OMX_ErrorNone, None)),
     pe_fill = (\<lambda>_. OMX_ErrorNone), pe_junk = (\<lambda>_. False), pe_frm = 0, pe_image = False,
     pe_codings = [], pe_env = (\<lambda>d. d)\<rparr>"

lemma quiet_env [simp]: "env_ok quiet_peer"
  by (simp add: env_ok_def quiet_peer_def)

lemma start_resources: "resources_ok start_dec" "resources_ok idle_dec"
  by (simp_all add: resources_ok_def start_dec_def idle_dec_def zero_frame_buffer_def)

definition start_handlers :: "nat \<Rightarrow> handler cmd_heap" where
  "start_handlers k = \<lparr>w_now = 10, w_rc = (\<lambda>_. 0), w_ptr = (\<lambda>n. k * n), nodes = Map.empty, items = Map.empty\<rparr>"

abbreviation start_base :: "nat basecomp" where
  "start_base \<equiv> \<lparr>bc_thread = Some 7, bc_queue = start_queue\<rparr>"

lemma start_commands: "commands start_base (start_handlers k) []"
  by (auto simp: commands_def queue_is_def chain_ok_def contents_def sync_ok_def start_queue_def
      start_handlers_def event_is_def)

lemma return_buffers_in_order_witness:
  "\<exists>d d'. d_in d = start_port\<lparr>p_bufferqueue := \<lparr>bl_list = Some [50, 60, 0, 0], bl_size = 2, bl_capacity = 4\<rparr>,
      p_bufferevent := Some (event_of True)\<rparr>
    \<and> async_decoder_return_buffers quiet_peer PIn d = Some (OMX_ErrorNone, d')
    \<and> d_log d' = [EmptyBufferDone 50 zero_header, EmptyBufferDone 60 zero_header]"
proof -
  let ?p = "start_port\<lparr>p_bufferqueue := \<lparr>bl_list = Some [50, 60, 0, 0], bl_size = 2, bl_capacity = 4\<rparr>,
      p_bufferevent := Some (event_of True)\<rparr>"
  let ?d = "start_dec\<lparr>d_in := ?p, bufs := [50 \<mapsto> new_buffer 50, 60 \<mapsto> new_buffer 60]\<rparr>"
  have q: "port_queue ?p [50, 60]"
    by (simp add: port_queue_def bl_ok_def elems_def event_is_def ev_inv_def event_of_def)
  have h: "\<forall>x \<in> set [50, 60]. has_header (\<lambda>_. zero_header) x ?d"
    by (simp add: has_header_def get_header_def new_buffer_def zero_buffer_def)
  have c: "calls_ok ?d" by (simp add: calls_ok_def start_dec_def)
  have e: "d_in ?d = ?p" "d_prevBuffer ?d = 0" "d_prop ?d = dp_start" "d_log ?d = []" by (simp_all add: start_dec_def)
  have p: "p_bufferevent ?p = Some (event_of ([50 :: nat, 60] \<noteq> []))" "p_buffermutex ?p = Some \<lparr>m_recursive = True, m_depth = 0\<rparr>"
    "eDir (p_def ?p) = OMX_DirInput" "p_tunnelcomp ?p = 0"
    by (simp_all add: start_port_def zero_port_def)
  have m: "m_depth \<lparr>m_recursive = True, m_depth = 0\<rparr> = 0" by simp
  have "\<exists>d'. async_decoder_return_buffers quiet_peer PIn ?d = Some (OMX_ErrorNone, d')
      \<and> d_log d' = [EmptyBufferDone 50 zero_header, EmptyBufferDone 60 zero_header]"
    using return_buffers_in_order[of ?d, unfolded e, OF q p(1,2) m p(3,4) refl h dp_start_rep c, of quiet_peer] by auto
  then show ?thesis using e(1) by blast
qed

lemma set_state_diagram_witness:
  "\<exists>err d'. async_decoder_set_state quiet_peer 4 idle_dec = Some (err, d') \<and> resources_ok d' \<and> d_state d' = OMX_StatePause"
proof -
  obtain err d' where s: "async_decoder_set_state quiet_peer 4 idle_dec = Some (err, d')" "d_state d' = OMX_StatePause"
    by (simp add: async_decoder_set_state_def state_switch_def to_state_def idle_dec_def log_call_def)
  from set_state_diagram[OF s(1) quiet_env start_resources(2)] s show ?thesis by blast
qed

lemma state_protocol_witness:
  "\<exists>d b h cs. (dec_step quiet_peer ^^ 1) (start_dec, start_base, start_handlers 3) (d, b, h)
     \<and> d_statetrans d = OMX_StateIdle \<and> commands b h cs \<and> resources_ok d"
proof -
  obtain d b h where s: "decoder_send_command 1 OMX_CommandStateSet 2 None (start_dec, start_base, start_handlers 3)
      = Some (OMX_ErrorNone, d, b, h)" "d_statetrans d = OMX_StateIdle"
    by (simp add: decoder_send_command_def send_set_state_def send_def start_dec_def to_state_def basecomp_eval
        start_handlers_def)
  then have "(dec_step quiet_peer ^^ 1) (start_dec, start_base, start_handlers 3) (d, b, h)"
    by (auto intro: dec_step.send)
  from state_protocol[OF this _ quiet_env start_commands _ _ start_resources(1)] this s(2) show ?thesis
    by (auto simp: start_dec_def)
qed

lemma failed_send_wedges_state_witness:
  "\<exists>s. decoder_send_command 1 OMX_CommandStateSet 2 None (start_dec, start_base, start_handlers 0)
      = Some (OMX_ErrorInsufficientResources, s)
    \<and> decoder_send_command 1 OMX_CommandStateSet 2 None s = Some (OMX_ErrorIncorrectStateTransition, s)"
proof -
  obtain s where s: "decoder_send_command 1 OMX_CommandStateSet 2 None (start_dec, start_base, start_handlers 0)
      = Some (OMX_ErrorInsufficientResources, s)"
    by (simp add: decoder_send_command_def send_set_state_def send_def start_dec_def to_state_def basecomp_eval
        start_handlers_def)
  from failed_send_wedges_state[OF s, of 1 2 None] s show ?thesis by (simp add: start_dec_def to_state_def)
qed

lemma flush_without_codec_witness:
  "decoder_send_command 1 OMX_CommandFlush 0 None (start_dec, start_base, start_handlers 3) = None"
  using flush_without_codec[OF start_resources(1), of 1 0 None start_base "start_handlers 3"]
  by (simp add: start_dec_def bad_port_def port_index_defs)

lemma supply_hides_failure_witness:
  "\<exists>d d'. p_tunnelcomp (d_in d) = 9 \<and> supply_tunneled_port quiet_peer PIn d = Some (OMX_ErrorNone, d')
    \<and> d_mem d' = [] \<and> port_bufs (d_in d') d' []"
proof -
  let ?d = "start_dec\<lparr>d_in := start_port\<lparr>p_tunnelcomp := 9\<rparr>, w_ptr := (\<lambda>n. if n = 1 then 50 else 0)\<rparr>"
  obtain d1 d2 where m: "alloc_mem (tick ?d) = (OMX_ErrorNone, 50, d1)" "sys_malloc (buf_live d1) d1 = (0, d2)"
    by (simp add: alloc_mem_def sys_malloc_def start_dec_def)
  have a: "port_allocate_next_buffer (d_in d1) d1 = Some (False, 0, d_in d1, d2)"
    using m(2) by (simp add: port_allocate_next_buffer_def)
  have b: "port_bufs (d_in ?d) ?d []" by (simp add: port_bufs_def start_port_def bl_ok_def elems_def)
  have e: "p_tunnelcomp (d_in ?d) = 9" "d_mem ?d = []" by (simp_all add: start_dec_def)
  have p: "pe_param quiet_peer (w_now ?d) = (OMX_ErrorNone, 2, 512)" by (simp add: quiet_peer_def)
  have "p_tunnelcomp (d_in ?d) \<noteq> 0" "(0 :: omx_u32) < 2" using e(1) by simp_all
  from supply_hides_failure[OF this(1) p this(2) m(1) b m(2)] e show ?thesis by metis
qed

end
