(* ===== verification/OmxCore.thy ===== *)
theory OmxCore
  imports OmxTypes
begin

text \<open>
  The OpenMAX IL core, source/core/hantro\_omx\_core.c: the table of components and their
  roles, and the handles of the components that are loaded.

  The dynamic linker and the allocator are the oracle of the prelude: dlopen and calloc
  offer a block or fail, dlsym and the mutex calls return a code. The constructor and the
  methods of a component are reached through function pointers and are arguments. None is a
  crash: strcmp on a null name, a call through a handle that is not allocated, free of a
  block that is not.
\<close>

subsection \<open>State\<close>

definition MAXCOMP :: nat where "MAXCOMP = 15"
definition MAXNAMESIZE :: nat where "MAXNAMESIZE = 130"
definition MAX_ROLES :: nat where "MAX_ROLES = 20"
definition MAX_TABLE_SIZE :: nat where "MAX_TABLE_SIZE = 30"
definition MAX_CONCURRENT_INSTANCES :: nat where "MAX_CONCURRENT_INSTANCES = 4"

lemmas core_consts =
  MAXCOMP_def MAXNAMESIZE_def MAX_ROLES_def MAX_TABLE_SIZE_def MAX_CONCURRENT_INSTANCES_def

text \<open>ComponentTable; a null name is None, ct\_roles holds the first nRoles entries of
  pRoleArray.\<close>

record comp_entry =
  ct_name :: "string option"
  ct_roles :: "string list"
  ct_handles :: "addr list"
  ct_refCount :: nat

text \<open>The static variables of the file, and the component structures calloc handed out.\<close>

record core = world +
  co_modules :: "addr list"
  co_components :: "addr list"
  co_count :: nat
  co_tableCount :: nat
  co_table :: "comp_entry list"
  co_alloc :: "addr list"

definition empty_entry :: comp_entry where
  "empty_entry = \<lparr>ct_name = None, ct_roles = [], ct_handles = replicate MAX_CONCURRENT_INSTANCES 0,
     ct_refCount = 0\<rparr>"

definition tComponentName :: "(string \<times> string option) option list" where
  "tComponentName =
     [Some (''OMX.hantro.G1.video.decoder'', Some ''video_decoder.mpeg4''),
      Some (''OMX.hantro.G1.video.decoder'', Some ''video_decoder.avc''),
      Some (''OMX.hantro.G1.video.decoder'', Some ''video_decoder.h263''),
      Some (''OMX.hantro.G1.video.decoder'', Some ''video_decoder.vp8''),
      Some (''OMX.hantro.G1.image.decoder'', Some ''image_decoder.jpeg''),
      Some (''OMX.hantro.G1.image.decoder'', Some ''image_decoder.webp''),
      Some (''OMX.hantro.H1.video.encoder'', Some ''video_encoder.avc''),
      Some (''OMX.hantro.H1.video.encoder'', Some ''video_encoder.vp8''),
      Some (''OMX.hantro.H1.image.encoder'', Some ''image_encoder.jpeg''),
      Some (''OMX.hantro.H1.image.encoder'', Some ''image_encoder.webp''),
      None, None, None, None, None]"

subsection \<open>The component table\<close>

text \<open>The inner loop of hantro\_OMX\_BuildComponentTable: j runs over the entries made so far
  and the result is the j it stops at. A role beyond MAX\_ROLES and a null handle beyond
  MAX\_CONCURRENT\_INSTANCES are written out of their arrays.\<close>

fun add_role :: "string \<Rightarrow> string option \<Rightarrow> nat \<Rightarrow> nat \<Rightarrow> comp_entry list \<Rightarrow> (nat \<times> comp_entry list) option" where
  "add_role name role j 0 tab = Some (j, tab)"
| "add_role name role j (Suc k) tab =
     (case ct_name (tab ! j) of
        None \<Rightarrow> None
      | Some n \<Rightarrow>
          if n \<noteq> name then add_role name role (j + 1) k tab
          else (case role of
              None \<Rightarrow> Some (j, tab)
            | Some r \<Rightarrow>
                (let e = tab ! j; n = length (ct_roles e)
                 in if n \<ge> MAX_ROLES \<or> n \<ge> length (ct_handles e) then None
                    else Some (j, tab[j := e\<lparr>ct_roles := ct_roles e @ [r],
                                             ct_handles := (ct_handles e)[n := 0]\<rparr>]))))"

fun build_table ::
  "(string \<times> string option) option list \<Rightarrow> nat \<Rightarrow> comp_entry list \<Rightarrow> (nat \<times> comp_entry list) option" where
  "build_table [] numFiles tab = Some (numFiles, tab)"
| "build_table (None # ns) numFiles tab = Some (numFiles, tab)"
| "build_table (Some (name, role) # ns) numFiles tab =
     (if numFiles \<le> MAX_TABLE_SIZE then do {
        (j, tab) \<leftarrow> add_role name role 0 numFiles tab;
        if j = numFiles then
          if numFiles \<ge> length tab then None
          else
            let e = tab ! numFiles;
                e = (case role of None \<Rightarrow> e | Some r \<Rightarrow> e\<lparr>ct_roles := [r]\<rparr>)
            in build_table ns (numFiles + 1)
                 (tab[numFiles := e\<lparr>ct_name := Some name, ct_refCount := 0\<rparr>])
        else build_table ns numFiles tab
      }
      else build_table ns numFiles tab)"

definition OMX_BuildComponentTable :: "core \<Rightarrow> (omx_errortype \<times> core) option" where
  "OMX_BuildComponentTable c = do {
     (numFiles, tab) \<leftarrow> build_table tComponentName 0 (co_table c);
     Some (OMX_ErrorNone, c\<lparr>co_table := tab, co_tableCount := numFiles\<rparr>)
   }"

subsection \<open>Init and Deinit\<close>

definition OMX_Init :: "core \<Rightarrow> (omx_errortype \<times> core) option" where
  "OMX_Init c =
     (case sys_call c of (r, c) \<Rightarrow>
        if r \<noteq> 0 then Some (OMX_ErrorUndefined, c)
        else do {
          let c = c\<lparr>co_count := co_count c + 1\<rparr>;
          (err, c) \<leftarrow> (if co_count c = 1 then OMX_BuildComponentTable c else Some (OMX_ErrorNone, c));
          (case sys_call c of (r, c) \<Rightarrow>
             Some (if r \<noteq> 0 then OMX_ErrorUndefined else err, c))
        })"

definition OMX_Deinit :: "core \<Rightarrow> omx_errortype \<times> core" where
  "OMX_Deinit c =
     (case sys_call c of (r, c) \<Rightarrow>
        if r \<noteq> 0 then (OMX_ErrorUndefined, c)
        else
          let c = (if co_count c \<noteq> 0 then c\<lparr>co_count := co_count c - 1\<rparr> else c)
          in (case sys_call c of (r, c) \<Rightarrow>
                (if r \<noteq> 0 then OMX_ErrorUndefined else OMX_ErrorNone, c)))"

subsection \<open>GetHandle\<close>

text \<open>The label CLEAN\_UP: *pHandle is freed whatever put it there.\<close>

definition get_handle_clean_up :: "nat \<Rightarrow> addr \<Rightarrow> core \<Rightarrow> (addr \<times> core) option" where
  "get_handle_clean_up i h c =
     (if h \<noteq> 0 \<and> h \<notin> set (co_alloc c) then None
      else Some (0, c\<lparr>co_alloc := remove1 h (co_alloc c),
                      co_components := (co_components c)[i := 0],
                      co_modules := (co_modules c)[i := 0]\<rparr>))"

text \<open>The names hantro\_OMX\_GetHandle knows a constructor of.\<close>

definition known_constructors :: "string list" where
  "known_constructors =
     [''OMX.hantro.G1.video.decoder'', ''OMX.hantro.G1.image.decoder'',
      ''OMX.hantro.H1.video.encoder'', ''OMX.hantro.H1.image.encoder'']"

text \<open>Loading the component of table entry refIndex into slot i. The truth value says that the
  search goes on.\<close>

definition load_component ::
  "(addr \<Rightarrow> string \<Rightarrow> omx_errortype) \<Rightarrow> (addr \<Rightarrow> omx_errortype) \<Rightarrow> string \<Rightarrow> nat \<Rightarrow> nat \<Rightarrow> addr \<Rightarrow> core
    \<Rightarrow> (bool \<times> omx_errortype \<times> addr \<times> core) option" where
  "load_component init setcb name i refIndex h c =
     (let clean = (\<lambda>err h c. Option.bind (get_handle_clean_up i h c) (\<lambda>(h, c). Some (False, err, h, c)))
      in case sys_malloc (\<lambda>_. False) c of (dl, c) \<Rightarrow>
        let c = c\<lparr>co_modules := (co_modules c)[i := dl]\<rparr>
        in if dl = 0 then Some (False, OMX_ErrorComponentNotFound, h, c)
           else (case sys_call c of (r, c) \<Rightarrow>
             if name \<notin> set known_constructors \<or> r \<noteq> 0 then clean OMX_ErrorInvalidComponent h c
             else (case sys_malloc (\<lambda>p. p \<in> set (co_alloc c)) c of (h, c) \<Rightarrow>
               if h = 0 then clean OMX_ErrorInsufficientResources h c
               else
                 let c = c\<lparr>co_alloc := h # co_alloc c, co_components := (co_components c)[i := h]\<rparr>;
                     err = init h name
                 in if err = OMX_ErrorNone then
                      if setcb h \<noteq> OMX_ErrorNone then clean (setcb h) h c
                      else
                        let e = co_table c ! refIndex
                        in if ct_refCount e \<ge> length (ct_handles e) then None
                           else Some (False, OMX_ErrorNone, h,
                             c\<lparr>co_table := (co_table c)[refIndex := e\<lparr>
                                  ct_handles := (ct_handles e)[ct_refCount e := h],
                                  ct_refCount := ct_refCount e + 1\<rparr>]\<rparr>)
                    else if err = OMX_ErrorInsufficientResources then clean err h c
                    else Some (True, err, h, c))))"

text \<open>for (refIndex = 0; refIndex < MAX\_TABLE\_SIZE; refIndex++)\<close>

fun get_handle_loop ::
  "(addr \<Rightarrow> string \<Rightarrow> omx_errortype) \<Rightarrow> (addr \<Rightarrow> omx_errortype) \<Rightarrow> string \<Rightarrow> nat \<Rightarrow> nat \<Rightarrow> nat \<Rightarrow> addr \<Rightarrow> core
    \<Rightarrow> (omx_errortype \<times> addr \<times> core) option" where
  "get_handle_loop init setcb name i refIndex 0 h c = Some (OMX_ErrorComponentNotFound, h, c)"
| "get_handle_loop init setcb name i refIndex (Suc k) h c =
     (case ct_name (co_table c ! refIndex) of
        None \<Rightarrow> None
      | Some n \<Rightarrow>
          if n \<noteq> name then get_handle_loop init setcb name i (refIndex + 1) k h c
          else if ct_refCount (co_table c ! refIndex) \<ge> MAX_CONCURRENT_INSTANCES
          then Some (OMX_ErrorInsufficientResources, h, c)
          else do {
            (go_on, err, h, c) \<leftarrow> load_component init setcb name i refIndex h c;
            if go_on then get_handle_loop init setcb name i (refIndex + 1) k h c
            else Some (err, h, c)
          })"

text \<open>pHandle is None when the pointer is null, and else the value *pHandle has on entry.\<close>

definition OMX_GetHandle ::
  "(addr \<Rightarrow> string \<Rightarrow> omx_errortype) \<Rightarrow> (addr \<Rightarrow> omx_errortype) \<Rightarrow> addr option \<Rightarrow> string option \<Rightarrow> bool \<Rightarrow> core
    \<Rightarrow> (omx_errortype \<times> addr option \<times> core) option" where
  "OMX_GetHandle init setcb pHandle cComponentName callbacks c =
     (case sys_call c of (r, c) \<Rightarrow>
        if r \<noteq> 0 then Some (OMX_ErrorUndefined, pHandle, c)
        else do {
          (err, pHandle, c) \<leftarrow>
            (case (pHandle, cComponentName) of
               (Some h, Some name) \<Rightarrow>
                 if \<not> callbacks then Some (OMX_ErrorBadParameter, pHandle, c)
                 else if length name \<ge> MAXNAMESIZE then Some (OMX_ErrorInvalidComponentName, pHandle, c)
                 else (case find_index (\<lambda>m. m = 0) (co_modules c) of
                     None \<Rightarrow> Some (OMX_ErrorInsufficientResources, pHandle, c)
                   | Some i \<Rightarrow> do {
                       (err, h, c) \<leftarrow> get_handle_loop init setcb name i 0 MAX_TABLE_SIZE h c;
                       Some (err, Some h, c)
                     })
             | _ \<Rightarrow> Some (OMX_ErrorBadParameter, pHandle, c));
          (case sys_call c of (r, c) \<Rightarrow>
             Some (if r \<noteq> 0 then OMX_ErrorUndefined else err, pHandle, c))
        })"

subsection \<open>FreeHandle\<close>

text \<open>The two nested loops over the table: the first entry and index that hold the handle.\<close>

fun find_handle :: "addr \<Rightarrow> nat \<Rightarrow> comp_entry list \<Rightarrow> (nat \<times> nat) option" where
  "find_handle h refIndex [] = None"
| "find_handle h refIndex (e # es) =
     (case find_index (\<lambda>p. p = h) (ct_handles e) of
        Some k \<Rightarrow> Some (refIndex, k)
      | None \<Rightarrow> find_handle h (refIndex + 1) es)"

definition free_component :: "addr \<Rightarrow> nat \<Rightarrow> core \<Rightarrow> (omx_errortype \<times> core) option" where
  "free_component h i c =
     (case find_handle h 0 (co_table c) of
        None \<Rightarrow> Some (OMX_ErrorComponentNotFound, c)
      | Some (refIndex, k) \<Rightarrow>
          (let e = co_table c ! refIndex
           in if h \<notin> set (co_alloc c) then None
              else Some (OMX_ErrorNone, c\<lparr>
                co_table := (co_table c)[refIndex := e\<lparr>
                  ct_refCount := ct_refCount e - 1,
                  ct_handles := (ct_handles e)[k := 0]\<rparr>],
                co_modules := (co_modules c)[i := 0],
                co_alloc := remove1 h (co_alloc c),
                co_components := (co_components c)[i := 0]\<rparr>)))"

definition OMX_FreeHandle :: "(addr \<Rightarrow> omx_errortype) \<Rightarrow> addr \<Rightarrow> core \<Rightarrow> (omx_errortype \<times> core) option" where
  "OMX_FreeHandle deinit hComponent c =
     (case sys_call c of (r, c) \<Rightarrow>
        if r \<noteq> 0 then Some (OMX_ErrorUndefined, c)
        else do {
          (ret, c) \<leftarrow>
            (case find_index (\<lambda>p. p = hComponent) (co_components c) of
               None \<Rightarrow> Some (OMX_ErrorBadParameter, c)
             | Some i \<Rightarrow>
                 if hComponent \<notin> set (co_alloc c) then None
                 else if deinit hComponent \<noteq> OMX_ErrorNone then Some (deinit hComponent, c)
                 else free_component hComponent i c);
          (case sys_call c of (r, c) \<Rightarrow>
             Some (if r \<noteq> 0 then OMX_ErrorUndefined else ret, c))
        })"

subsection \<open>Tunnels and queries\<close>

text \<open>ComponentTunnelRequest of a component, with its port, the other component and port and
  the tunnel setup (absent when a tunnel is cancelled), as a function on the components'
  state.\<close>

type_synonym 's tunnel_request =
  "addr \<Rightarrow> omx_u32 \<Rightarrow> addr \<Rightarrow> omx_u32 \<Rightarrow> omx_tunnelsetup option \<Rightarrow> 's
    \<Rightarrow> omx_errortype \<times> omx_tunnelsetup option \<times> 's"

definition OMX_SetupTunnel ::
  "'s tunnel_request \<Rightarrow> addr \<Rightarrow> omx_u32 \<Rightarrow> addr \<Rightarrow> omx_u32 \<Rightarrow> 's \<Rightarrow> omx_errortype \<times> 's" where
  "OMX_SetupTunnel req hOutput nPortOutput hInput nPortInput s =
     (if hOutput = 0 \<and> hInput = 0 then (OMX_ErrorBadParameter, s)
      else
        let setup = Some \<lparr>nTunnelFlags = 0, eSupplier = OMX_BufferSupplyUnspecified\<rparr>;
            (err, setup, s) =
              (if hOutput \<noteq> 0 then req hOutput nPortOutput hInput nPortInput setup s
               else (OMX_ErrorNotImplemented, setup, s))
        in if err = OMX_ErrorNone \<and> hInput \<noteq> 0 then
             let (err, setup, s) = req hInput nPortInput hOutput nPortOutput setup s
             in if err \<noteq> OMX_ErrorNone \<and> hOutput \<noteq> 0 then
                  let (_, _, s) = req hOutput nPortOutput 0 0 None s in (err, s)
                else (err, s)
           else (err, s))"

definition OMX_ComponentNameEnum :: "omx_u32 \<Rightarrow> core \<Rightarrow> (omx_errortype \<times> string option) option" where
  "OMX_ComponentNameEnum nIndex c =
     (if unat nIndex \<ge> co_tableCount c then Some (OMX_ErrorNoMore, None)
      else (case ct_name (co_table c ! unat nIndex) of
          None \<Rightarrow> None
        | Some n \<Rightarrow> Some (OMX_ErrorNone, Some n)))"

text \<open>roles is None in the first of the two calls; the result is the error, *pNumRoles and the
  strings copied.\<close>

definition find_component :: "string \<Rightarrow> core \<Rightarrow> nat option" where
  "find_component name c = find_index (\<lambda>e. ct_name e = Some name) (take (co_tableCount c) (co_table c))"

definition OMX_GetRolesOfComponent ::
  "string option \<Rightarrow> omx_u32 option \<Rightarrow> bool \<Rightarrow> core \<Rightarrow> omx_errortype \<times> omx_u32 option \<times> string list" where
  "OMX_GetRolesOfComponent cComponentName pNumRoles roles c =
     (case (cComponentName, pNumRoles) of
        (Some name, Some n) \<Rightarrow>
          (case find_component name c of
             None \<Rightarrow> (OMX_ErrorComponentNotFound, pNumRoles, [])
           | Some i \<Rightarrow>
               (let e = co_table c ! i; nRoles = of_nat (length (ct_roles e))
                in if \<not> roles then (OMX_ErrorNone, Some nRoles, [])
                   else if n \<ge> nRoles then (OMX_ErrorNone, Some nRoles, ct_roles e)
                   else (OMX_ErrorBadParameter, pNumRoles, [])))
      | _ \<Rightarrow> (OMX_ErrorBadParameter, pNumRoles, []))"

text \<open>The counting loops, and the filling loops, which stop at the count.\<close>

fun count_role :: "string \<Rightarrow> comp_entry list \<Rightarrow> omx_u32 \<Rightarrow> omx_u32" where
  "count_role role [] n = n"
| "count_role role (e # es) n =
     count_role role es (fold (\<lambda>r n. if r = role then n + 1 else n) (ct_roles e) n)"

fun fill_roles :: "string \<Rightarrow> string option \<Rightarrow> string list \<Rightarrow> omx_u32 \<Rightarrow> string option list \<Rightarrow> bool \<times> string option list" where
  "fill_roles role name [] cnt out = (False, out)"
| "fill_roles role name (r # rs) cnt out =
     (if r = role then
        let out = out @ [name]
        in if of_nat (length out) = cnt then (True, out) else fill_roles role name rs cnt out
      else fill_roles role name rs cnt out)"

fun fill_names :: "string \<Rightarrow> comp_entry list \<Rightarrow> omx_u32 \<Rightarrow> string option list \<Rightarrow> bool \<times> string option list" where
  "fill_names role [] cnt out = (False, out)"
| "fill_names role (e # es) cnt out =
     (case fill_roles role (ct_name e) (ct_roles e) cnt out of
        (True, out) \<Rightarrow> (True, out)
      | (False, out) \<Rightarrow> fill_names role es cnt out)"

definition OMX_GetComponentsOfRole ::
  "string option \<Rightarrow> omx_u32 option \<Rightarrow> bool \<Rightarrow> core \<Rightarrow> omx_errortype \<times> omx_u32 option \<times> string option list" where
  "OMX_GetComponentsOfRole role pNumComps compNames c =
     (case (role, pNumComps) of
        (Some role, Some n) \<Rightarrow>
          if co_tableCount c = 0 then (OMX_ErrorUndefined, pNumComps, [])
          else
            let tab = take (co_tableCount c) (co_table c);
                cnt = count_role role tab 0;
                err = (if cnt = 0 then OMX_ErrorComponentNotFound else OMX_ErrorNone)
            in if \<not> compNames then (err, Some cnt, [])
               else if n < cnt then (OMX_ErrorBadParameter, pNumComps, [])
               else (case fill_names role tab cnt [] of
                   (True, out) \<Rightarrow> (err, Some cnt, out)
                 | (False, out) \<Rightarrow> (err, pNumComps, out))
      | _ \<Rightarrow> (OMX_ErrorBadParameter, pNumComps, []))"

subsection \<open>Invariant\<close>

text \<open>A place of the table, and what it holds.\<close>

definition place :: "comp_entry list \<Rightarrow> nat \<Rightarrow> nat \<Rightarrow> bool" where
  "place tab r k = (r < length tab \<and> k < length (ct_handles (tab ! r)))"

definition handle_at :: "comp_entry list \<Rightarrow> nat \<Rightarrow> nat \<Rightarrow> addr" where
  "handle_at tab r k = ct_handles (tab ! r) ! k"

text \<open>The table has its size, the counters their bounds, every handle in it is allocated and
  stands at one place only.\<close>

definition table_inv :: "addr set \<Rightarrow> comp_entry list \<Rightarrow> bool" where
  "table_inv live tab = (length tab = MAX_TABLE_SIZE
     \<and> (\<forall>e \<in> set tab. length (ct_handles e) = MAX_CONCURRENT_INSTANCES
          \<and> ct_refCount e \<le> MAX_CONCURRENT_INSTANCES \<and> length (ct_roles e) \<le> MAX_ROLES)
     \<and> (\<forall>r k. place tab r k \<longrightarrow> handle_at tab r k \<noteq> 0 \<longrightarrow> handle_at tab r k \<in> live)
     \<and> (\<forall>r k r' k'. place tab r k \<longrightarrow> place tab r' k' \<longrightarrow> handle_at tab r k \<noteq> 0
          \<longrightarrow> handle_at tab r k = handle_at tab r' k' \<longrightarrow> r = r' \<and> k = k'))"

definition slots_inv :: "addr set \<Rightarrow> addr list \<Rightarrow> addr list \<Rightarrow> bool" where
  "slots_inv live mods comps = (length mods = MAXCOMP \<and> length comps = MAXCOMP
     \<and> (\<forall>i < MAXCOMP. mods ! i = 0 \<longrightarrow> comps ! i = 0)
     \<and> (\<forall>i < MAXCOMP. comps ! i \<noteq> 0 \<longrightarrow> comps ! i \<in> live)
     \<and> (\<forall>i < MAXCOMP. \<forall>j < MAXCOMP. comps ! i \<noteq> 0 \<longrightarrow> comps ! i = comps ! j \<longrightarrow> i = j))"

definition core_inv :: "core \<Rightarrow> bool" where
  "core_inv c = (table_inv (set (co_alloc c)) (co_table c)
     \<and> slots_inv (set (co_alloc c)) (co_modules c) (co_components c)
     \<and> distinct (co_alloc c) \<and> 0 \<notin> set (co_alloc c))"

lemma table_inv_mono: "table_inv L tab \<Longrightarrow> L \<subseteq> M \<Longrightarrow> table_inv M tab"
  unfolding table_inv_def by blast

lemma table_inv_entry:
  "table_inv L tab \<Longrightarrow> r < MAX_TABLE_SIZE \<Longrightarrow> length (ct_handles (tab ! r)) = MAX_CONCURRENT_INSTANCES
    \<and> ct_refCount (tab ! r) \<le> MAX_CONCURRENT_INSTANCES \<and> length (ct_roles (tab ! r)) \<le> MAX_ROLES"
  by (simp add: table_inv_def)

text \<open>Writing one handle: a null one, or one that is not in the table yet.\<close>

lemma table_inv_update:
  assumes inv: "table_inv L tab" and r: "r < MAX_TABLE_SIZE"
    and e: "ct_handles e = (ct_handles (tab ! r))[k := h]" "ct_refCount e \<le> MAX_CONCURRENT_INSTANCES"
      "length (ct_roles e) \<le> MAX_ROLES"
    and h: "h = 0 \<or> h \<in> L \<and> (\<forall>r k. place tab r k \<longrightarrow> handle_at tab r k \<noteq> h)"
  shows "table_inv L (tab[r := e])"
proof -
  have len: "length tab = MAX_TABLE_SIZE" using inv by (simp add: table_inv_def)
  have pl: "place (tab[r := e]) r' k' = place tab r' k'" for r' k'
    using len r e(1) by (auto simp: place_def nth_list_update)
  have at: "handle_at (tab[r := e]) r' k' = (if r' = r \<and> k' = k then h else handle_at tab r' k')"
    if "place tab r' k'" for r' k'
    using that len r e(1) by (auto simp: place_def handle_at_def nth_list_update)
  have "\<forall>x \<in> set (tab[r := e]). length (ct_handles x) = MAX_CONCURRENT_INSTANCES
      \<and> ct_refCount x \<le> MAX_CONCURRENT_INSTANCES \<and> length (ct_roles x) \<le> MAX_ROLES"
    using inv e table_inv_entry[OF inv r] by (auto simp: table_inv_def dest!: set_update_subset_insert[THEN subsetD])
  moreover have "handle_at (tab[r := e]) r' k' \<in> L"
    if "place tab r' k'" "handle_at (tab[r := e]) r' k' \<noteq> 0" for r' k'
    using that inv h at[OF that(1)] unfolding table_inv_def by (auto split: if_splits)
  moreover have "r' = r'' \<and> k' = k''"
    if "place tab r' k'" "place tab r'' k''" "handle_at (tab[r := e]) r' k' \<noteq> 0"
      "handle_at (tab[r := e]) r' k' = handle_at (tab[r := e]) r'' k''" for r' k' r'' k''
    using that inv h at[OF that(1)] at[OF that(2)] unfolding table_inv_def by (auto split: if_splits)
  ultimately show ?thesis unfolding table_inv_def pl using len by auto
qed

lemma table_inv_absent: "table_inv L tab \<Longrightarrow> h \<notin> L \<Longrightarrow> h \<noteq> 0 \<Longrightarrow> place tab r k \<Longrightarrow> handle_at tab r k \<noteq> h"
  unfolding table_inv_def by blast

lemma table_inv_unique:
  "table_inv L tab \<Longrightarrow> place tab r k \<Longrightarrow> place tab r' k' \<Longrightarrow> handle_at tab r k = h \<Longrightarrow> handle_at tab r' k' = h
    \<Longrightarrow> h \<noteq> 0 \<Longrightarrow> r = r' \<and> k = k'"
  unfolding table_inv_def by metis

text \<open>Freeing a handle that is not in the table.\<close>

lemma table_inv_remove:
  assumes "table_inv L tab" "\<And>r k. place tab r k \<Longrightarrow> handle_at tab r k \<noteq> h"
  shows "table_inv (L - {h}) tab"
  using assms unfolding table_inv_def by blast

lemma slots_inv_mono: "slots_inv L mods comps \<Longrightarrow> L \<subseteq> M \<Longrightarrow> slots_inv M mods comps"
  unfolding slots_inv_def by blast

lemma nth_update_if: "xs[i := x] ! j = (if i = j \<and> j < length xs then x else xs ! j)"
  by (cases "i < length xs") (auto simp: nth_list_update list_update_beyond)

text \<open>Filling the free slot i, and clearing slot i.\<close>

lemma slots_inv_fill:
  assumes "slots_inv L mods comps" "h = 0 \<or> h \<in> L \<and> h \<notin> set comps" "m \<noteq> 0"
  shows "slots_inv L (mods[i := m]) (comps[i := h])"
  using assms unfolding slots_inv_def by (auto simp: nth_update_if in_set_conv_nth split: if_splits)

lemma slots_inv_clear:
  assumes "slots_inv L mods comps"
  shows "slots_inv L (mods[i := 0]) (comps[i := 0])"
  using assms unfolding slots_inv_def by (auto simp: nth_update_if split: if_splits)

lemma slots_inv_remove:
  assumes "slots_inv L mods comps" "h \<notin> set comps"
  shows "slots_inv (L - {h}) mods comps"
  using assms unfolding slots_inv_def by (auto simp: in_set_conv_nth)

lemma slots_inv_cleared:
  assumes "slots_inv L mods comps" "comps ! i = h" "h \<noteq> 0" "i < MAXCOMP"
  shows "h \<notin> set (comps[i := 0])"
proof
  assume "h \<in> set (comps[i := 0])"
  then obtain j where "j < length comps" "comps[i := 0] ! j = h" by (auto simp: in_set_conv_nth)
  with assms show False unfolding slots_inv_def by (cases "i = j") auto
qed

subsection \<open>The operations keep the invariant\<close>

lemma core_inv_simps [simp]:
  "core_inv (c\<lparr>w_now := n\<rparr>) = core_inv c" "core_inv (c\<lparr>co_count := m\<rparr>) = core_inv c"
  by (simp_all add: core_inv_def)

lemma add_role_inv:
  "table_inv L tab \<Longrightarrow> j + k \<le> MAX_TABLE_SIZE \<Longrightarrow> add_role name role j k tab = Some (j', tab') \<Longrightarrow> table_inv L tab'"
proof (induction name role j k tab rule: add_role.induct)
  case (2 name role j k tab)
  have j: "j < MAX_TABLE_SIZE" using 2(3) by simp
  show ?case
  proof (cases "ct_name (tab ! j) = Some name")
    case False
    with 2 show ?thesis by (auto split: option.splits)
  next
    case True
    show ?thesis
    proof (cases role)
      case (Some r)
      let ?e = "tab ! j" and ?n = "length (ct_roles (tab ! j))"
      from 2(4) True Some have n: "?n < MAX_ROLES" "tab' = tab[j := ?e\<lparr>ct_roles := ct_roles ?e @ [r],
          ct_handles := (ct_handles ?e)[?n := 0]\<rparr>]"
        by (auto simp: Let_def split: if_splits)
      show ?thesis unfolding n(2)
        by (rule table_inv_update[OF 2(2) j, where k = ?n and h = 0])
          (use n(1) table_inv_entry[OF 2(2) j] in auto)
    qed (use 2 True in auto)
  qed
qed auto

lemma build_table_inv:
  "table_inv L tab \<Longrightarrow> numFiles \<le> MAX_TABLE_SIZE \<Longrightarrow> build_table ns numFiles tab = Some (n', tab') \<Longrightarrow> table_inv L tab'"
proof (induction ns numFiles tab rule: build_table.induct)
  case (3 name role ns numFiles tab)
  note p = "3.prems"
  from p(3,2) obtain j tab1 where a: "add_role name role 0 numFiles tab = Some (j, tab1)"
    by (auto simp: bind_eq_Some_conv)
  have inv1: "table_inv L tab1" by (rule add_role_inv[OF p(1) _ a]) (use p(2) in simp)
  then have len: "length tab1 = MAX_TABLE_SIZE" by (simp add: table_inv_def)
  show ?case
  proof (cases "j = numFiles")
    case False
    then have "build_table ns numFiles tab1 = Some (n', tab')" using p(3,2) a by simp
    then show ?thesis using "3.IH"(2)[OF p(2) a refl False inv1 p(2)] by simp
  next
    case True
    define e where "e = (case role of None \<Rightarrow> tab1 ! numFiles | Some r \<Rightarrow> (tab1 ! numFiles)\<lparr>ct_roles := [r]\<rparr>)"
    from p(3,2) a True have lt: "numFiles < length tab1"
      and b: "build_table ns (numFiles + 1) (tab1[numFiles := e\<lparr>ct_name := Some name, ct_refCount := 0\<rparr>]) = Some (n', tab')"
      by (auto simp: Let_def e_def split: if_splits)
    have "table_inv L (tab1[numFiles := e\<lparr>ct_name := Some name, ct_refCount := 0\<rparr>])"
      by (rule table_inv_update[OF inv1, where k = MAX_CONCURRENT_INSTANCES and h = 0])
        (use lt len table_inv_entry[OF inv1, of numFiles] in \<open>auto simp: e_def MAX_ROLES_def list_update_beyond split: option.splits\<close>)
    then show ?thesis using "3.IH"(1)[OF p(2) a refl True _ refl _ _ _ b] lt len e_def by auto
  qed
qed auto

lemma BuildComponentTable_inv:
  "core_inv c \<Longrightarrow> OMX_BuildComponentTable c = Some (err, c') \<Longrightarrow> core_inv c'"
  using build_table_inv[of _ _ 0] by (auto simp: OMX_BuildComponentTable_def core_inv_def bind_eq_Some_conv)

lemma Init_inv:
  assumes "core_inv c" "OMX_Init c = Some (err, c')"
  shows "core_inv c'"
proof (cases "w_rc c (w_now c) = 0")
  case True
  define c0 where "c0 = c\<lparr>w_now := Suc (w_now c), co_count := Suc (co_count c)\<rparr>"
  have "core_inv c0" using assms(1) by (simp add: c0_def)
  moreover have "OMX_Init c = Option.bind
      (if co_count c0 = 1 then OMX_BuildComponentTable c0 else Some (OMX_ErrorNone, c0))
      (\<lambda>(err, c). case sys_call c of (r, c) \<Rightarrow> Some (if r \<noteq> 0 then OMX_ErrorUndefined else err, c))"
    using True by (simp add: OMX_Init_def sys_call_def c0_def Let_def)
  then obtain e1 c1 where "(if co_count c0 = 1 then OMX_BuildComponentTable c0 else Some (OMX_ErrorNone, c0)) = Some (e1, c1)"
    "c' = tick c1"
    using assms(2)
    by (cases "if co_count c0 = 1 then OMX_BuildComponentTable c0 else Some (OMX_ErrorNone, c0)")
      (auto simp: sys_call_def)
  ultimately show ?thesis using BuildComponentTable_inv[of c0 e1 c1] by (auto split: if_splits)
qed (use assms in \<open>auto simp: OMX_Init_def sys_call_def\<close>)

lemma Deinit_inv: "core_inv c \<Longrightarrow> core_inv (snd (OMX_Deinit c))"
  by (simp add: OMX_Deinit_def sys_call_def Let_def)

text \<open>Cleaning up a slot that was being filled gives the state before.\<close>

lemma clean_up_inv:
  assumes "core_inv c" "get_handle_clean_up i h c1 = Some (h', c2)" "co_table c1 = co_table c"
    "(co_modules c1)[i := 0] = co_modules c" "(co_components c1)[i := 0] = co_components c"
    "remove1 h (co_alloc c1) = co_alloc c"
  shows "core_inv c2"
  using assms by (auto simp: get_handle_clean_up_def core_inv_def split: if_splits)

text \<open>Loading a component, with *pHandle not a handle in use on entry: null or not initialised\<close>

lemma load_component_inv:
  assumes inv: "core_inv c" and i: "i < MAXCOMP" "co_modules c ! i = 0" and r: "refIndex < MAX_TABLE_SIZE"
    and h0: "h0 \<notin> set (co_alloc c)" and ld: "load_component init setcb name i refIndex h0 c = Some (go_on, err, h, c')"
  shows "core_inv c'"
proof -
  have t: "table_inv (set (co_alloc c)) (co_table c)"
    and sl: "slots_inv (set (co_alloc c)) (co_modules c) (co_components c)"
    and al: "distinct (co_alloc c)" "0 \<notin> set (co_alloc c)"
    using inv by (auto simp: core_inv_def)
  have ci: "co_components c ! i = 0" using sl i by (simp add: slots_inv_def)
  define dl where "dl = w_ptr c (w_now c)"
  define p where "p = w_ptr c (Suc (Suc (w_now c)))"
  have same: "(co_modules c)[i := 0] = co_modules c" "(co_components c)[i := 0] = co_components c"
    using i(2) ci by (metis list_update_id)+
  have undo: "core_inv c2"
    if "get_handle_clean_up i x c1 = Some (h', c2)" "co_table c1 = co_table c"
      "co_modules c1 = (co_modules c)[i := dl]" "(co_components c1)[i := 0] = co_components c"
      "remove1 x (co_alloc c1) = co_alloc c" for x h' c1 c2
    by (rule clean_up_inv[OF inv that(1,2) _ that(4,5)]) (simp add: that(3) same)
  have nz: "remove1 0 (co_alloc c) = co_alloc c" "remove1 h0 (co_alloc c) = co_alloc c" using al(2) h0 by (simp_all add: remove1_idem)
  consider (dl) "dl = 0" | (sym) "dl \<noteq> 0" "name \<notin> set known_constructors \<or> w_rc c (w_now c + 1) \<noteq> 0"
    | (mem) "dl \<noteq> 0" "name \<in> set known_constructors" "w_rc c (w_now c + 1) = 0" "p \<in> set (co_alloc c) \<or> p = 0"
    | (new) "dl \<noteq> 0" "name \<in> set known_constructors" "w_rc c (w_now c + 1) = 0" "p \<notin> set (co_alloc c)" "p \<noteq> 0"
    by blast
  then show ?thesis
  proof cases
    case dl
    then obtain n where "c' = c\<lparr>w_now := n, co_modules := (co_modules c)[i := 0]\<rparr>" using ld
      by (auto simp: load_component_def sys_malloc_def Let_def dl_def)
    then show ?thesis using inv same by (simp add: core_inv_def)
  next
    case sym
    then obtain c1 h' where "get_handle_clean_up i h0 c1 = Some (h', c')" "co_table c1 = co_table c"
      "co_modules c1 = (co_modules c)[i := dl]" "co_components c1 = co_components c" "co_alloc c1 = co_alloc c"
      using ld by (fastforce simp: load_component_def sys_malloc_def sys_call_def Let_def bind_eq_Some_conv simp flip: dl_def)
    then show ?thesis using undo nz same by simp
  next
    case mem
    define c1 where "c1 = c\<lparr>co_modules := (co_modules c)[i := dl], w_now := Suc (Suc (Suc (w_now c)))\<rparr>"
    have "load_component init setcb name i refIndex h0 c = Option.bind (get_handle_clean_up i 0 c1)
        (\<lambda>(h, c). Some (False, OMX_ErrorInsufficientResources, h, c))"
      using mem by (auto simp: load_component_def sys_malloc_def sys_call_def Let_def c1_def simp flip: dl_def p_def)
    then obtain h' where "get_handle_clean_up i 0 c1 = Some (h', c')"
      using ld by (cases "get_handle_clean_up i 0 c1") auto
    moreover have "co_table c1 = co_table c" "co_modules c1 = (co_modules c)[i := dl]"
      "co_components c1 = co_components c" "co_alloc c1 = co_alloc c" by (simp_all add: c1_def)
    ultimately show ?thesis using undo nz same by simp
  next
    case new
    define c1 where "c1 = c\<lparr>co_modules := (co_modules c)[i := dl], w_now := Suc (Suc (Suc (w_now c))),
      co_alloc := p # co_alloc c, co_components := (co_components c)[i := p]\<rparr>"
    have "p \<notin> set (co_components c)" using sl new unfolding slots_inv_def in_set_conv_nth by metis
    then have loaded: "core_inv c1"
      using slots_inv_fill[OF slots_inv_mono[OF sl, of "insert p (set (co_alloc c))"], of p dl i]
        table_inv_mono[OF t, of "insert p (set (co_alloc c))"] new al
      by (simp add: c1_def core_inv_def subset_insertI)
    have clean: "core_inv c2" if "get_handle_clean_up i p c1 = Some (h', c2)" for h' c2
      by (rule undo[OF that]) (simp_all add: c1_def same)
    have run: "load_component init setcb name i refIndex h0 c =
        (if init p name = OMX_ErrorNone then
           if setcb p \<noteq> OMX_ErrorNone
           then Option.bind (get_handle_clean_up i p c1) (\<lambda>(h, c). Some (False, setcb p, h, c))
           else let e = co_table c1 ! refIndex
             in if ct_refCount e \<ge> length (ct_handles e) then None
                else Some (False, OMX_ErrorNone, p, c1\<lparr>co_table := (co_table c1)[refIndex := e\<lparr>
                     ct_handles := (ct_handles e)[ct_refCount e := p], ct_refCount := ct_refCount e + 1\<rparr>]\<rparr>)
         else if init p name = OMX_ErrorInsufficientResources
         then Option.bind (get_handle_clean_up i p c1) (\<lambda>(h, c). Some (False, init p name, h, c))
         else Some (True, init p name, p, c1))"
      using new by (simp add: load_component_def sys_malloc_def sys_call_def c1_def Let_def
          flip: dl_def p_def)
    show ?thesis
    proof (cases "init p name = OMX_ErrorNone \<and> setcb p = OMX_ErrorNone")
      case False
      then show ?thesis using ld clean loaded unfolding run by (auto simp: bind_eq_Some_conv split: if_splits)
    next
      case True
      let ?e = "co_table c ! refIndex"
      let ?tab = "(co_table c)[refIndex := ?e\<lparr>ct_handles := (ct_handles ?e)[ct_refCount ?e := p],
        ct_refCount := ct_refCount ?e + 1\<rparr>]"
      have tab: "co_table c1 = co_table c" by (simp add: c1_def)
      from ld True have c': "c' = c1\<lparr>co_table := ?tab\<rparr>" and lt: "ct_refCount ?e < length (ct_handles ?e)"
        unfolding run tab by (auto simp: Let_def split: if_splits)
      have "table_inv (insert p (set (co_alloc c))) ?tab"
        by (rule table_inv_update[OF table_inv_mono[OF t] r, where k = "ct_refCount ?e" and h = p])
          (use lt table_inv_entry[OF t r] table_inv_absent[OF t, of p] new in auto)
      then show ?thesis using loaded by (simp add: c' core_inv_def c1_def)
    qed
  qed
qed

lemma load_component_goes_on:
  "load_component init setcb name i refIndex h c = Some (True, err, h', c') \<Longrightarrow> co_table c' = co_table c"
  by (auto simp: load_component_def sys_malloc_def sys_call_def Let_def get_handle_clean_up_def split: if_splits)

lemma get_handle_loop_misses:
  "(\<And>j. refIndex \<le> j \<Longrightarrow> j < refIndex + k \<Longrightarrow> ct_name (co_table c ! j) \<noteq> Some name) \<Longrightarrow>
    get_handle_loop init setcb name i refIndex k h c = Some (err, h', c') \<Longrightarrow> c' = c"
proof (induction k arbitrary: refIndex)
  case (Suc k)
  have "ct_name (co_table c ! refIndex) \<noteq> Some name" using Suc.prems(1) by simp
  then show ?case using Suc.prems Suc.IH[of "refIndex + 1"] by (auto split: option.splits if_splits)
qed simp

text \<open>The names of the table: no component has two entries.\<close>

definition names_inv :: "comp_entry list \<Rightarrow> bool" where
  "names_inv tab = (\<forall>i j. i < j \<longrightarrow> j < length tab \<longrightarrow> ct_name (tab ! i) \<noteq> None \<longrightarrow> ct_name (tab ! i) \<noteq> ct_name (tab ! j))"

text \<open>A constructor that fails with any other error makes the search go on, but no other entry has the name.\<close>

lemma get_handle_loop_inv:
  assumes "core_inv c" "i < MAXCOMP" "co_modules c ! i = 0" "refIndex + k \<le> MAX_TABLE_SIZE"
    and "names_inv (co_table c)" "h0 \<notin> set (co_alloc c)"
    and "get_handle_loop init setcb name i refIndex k h0 c = Some (err, h, c')"
  shows "core_inv c'"
  using assms
proof (induction k arbitrary: refIndex)
  case (Suc k)
  obtain n where n: "ct_name (co_table c ! refIndex) = Some n"
    using Suc.prems(7) by (cases "ct_name (co_table c ! refIndex)") auto
  show ?case
  proof (cases "n = name \<and> ct_refCount (co_table c ! refIndex) < MAX_CONCURRENT_INSTANCES")
    case False
    then show ?thesis using Suc.prems n Suc.IH[of "refIndex + 1"] by (auto split: if_splits)
  next
    case True
    then obtain go_on e1 h1 c1 where l: "load_component init setcb name i refIndex h0 c = Some (go_on, e1, h1, c1)"
      using Suc.prems(7) n by (cases "load_component init setcb name i refIndex h0 c") auto
    have c1: "core_inv c1" using load_component_inv[OF Suc.prems(1-3) _ Suc.prems(6) l] Suc.prems(4) by simp
    show ?thesis
    proof (cases go_on)
      case go: True
      have "length (co_table c) = MAX_TABLE_SIZE" using Suc.prems(1) by (simp add: core_inv_def table_inv_def)
      then have other: "ct_name (co_table c ! refIndex) \<noteq> ct_name (co_table c ! j)" if "refIndex + 1 \<le> j" "j < refIndex + 1 + k" for j
        using Suc.prems(5)[unfolded names_inv_def, rule_format, of refIndex j] that Suc.prems(4) n by simp
      then have "ct_name (co_table c1 ! j) \<noteq> Some name" if "refIndex + 1 \<le> j" "j < refIndex + 1 + k" for j
        using other[OF that] n True load_component_goes_on[of init setcb name i refIndex h0 c e1 h1 c1] l go by simp
      moreover have "get_handle_loop init setcb name i (refIndex + 1) k h1 c1 = Some (err, h, c')"
        using Suc.prems(7) n True l go by auto
      ultimately show ?thesis using c1 get_handle_loop_misses by blast
    next
      case False
      then show ?thesis using Suc.prems(7) n True l c1 by auto
    qed
  qed
qed auto

lemma find_index_slot:
  "find_index (\<lambda>m. m = 0) ms = Some i \<Longrightarrow> i < length ms \<and> ms ! i = (0 :: addr)"
  using find_index_Some by blast

lemma GetHandle_inv:
  assumes inv: "core_inv c" "names_inv (co_table c)" and p: "\<And>h0. pHandle = Some h0 \<Longrightarrow> h0 \<notin> set (co_alloc c)"
    and get: "OMX_GetHandle init setcb pHandle cName callbacks c = Some (err, h, c')"
  shows "core_inv c'"
proof (cases "w_rc c (w_now c) \<noteq> 0 \<or> pHandle = None \<or> cName = None \<or> \<not> callbacks \<or> length (the cName) \<ge> MAXNAMESIZE
    \<or> find_index (\<lambda>m. m = 0) (co_modules c) = None")
  case True
  then show ?thesis using get inv by (elim disjE) (auto simp: OMX_GetHandle_def sys_call_def split: if_splits option.splits)
next
  case False
  then obtain i h0 name where i: "find_index (\<lambda>m. m = 0) (co_modules c) = Some i" "pHandle = Some h0" "cName = Some name" by auto
  let ?c = "tick c"
  from False i get obtain e1 h1 c1 where
    l: "get_handle_loop init setcb name i 0 MAX_TABLE_SIZE h0 ?c = Some (e1, h1, c1)" and c': "c' = tick c1"
    by (cases "get_handle_loop init setcb name i 0 MAX_TABLE_SIZE h0 ?c") (auto simp: OMX_GetHandle_def sys_call_def)
  have "length (co_modules c) = MAXCOMP" using inv by (simp add: core_inv_def slots_inv_def)
  then have "i < MAXCOMP" "co_modules ?c ! i = 0" using find_index_slot[OF i(1)] by auto
  then show ?thesis unfolding c' using get_handle_loop_inv[OF _ _ _ _ _ _ l] inv p[OF i(2)] by simp
qed

lemma find_handle_Some:
  "find_handle h n tab = Some (r, k) \<Longrightarrow> n \<le> r \<and> place tab (r - n) k \<and> handle_at tab (r - n) k = h"
proof (induction h n tab rule: find_handle.induct)
  case (2 h n e es)
  show ?case
  proof (cases "find_index (\<lambda>p. p = h) (ct_handles e)")
    case None
    with 2 have "n + 1 \<le> r" "place es (r - (n + 1)) k" "handle_at es (r - (n + 1)) k = h" by auto
    moreover have "r - n = Suc (r - (n + 1))" using calculation(1) by simp
    ultimately show ?thesis by (simp add: place_def handle_at_def)
  next
    case (Some j)
    then show ?thesis using 2(2) find_index_Some[OF Some] by (auto simp: place_def handle_at_def)
  qed
qed simp

lemma free_component_inv:
  assumes inv: "core_inv c" and i: "i < MAXCOMP" "co_components c ! i = h" "h \<in> set (co_alloc c)"
    and fr: "free_component h i c = Some (err, c')"
  shows "core_inv c'"
proof (cases "find_handle h 0 (co_table c)")
  case (Some rk)
  obtain r k where rk: "rk = (r, k)" by force
  note f = find_handle_Some[OF Some[unfolded rk], simplified]
  have t: "table_inv (set (co_alloc c)) (co_table c)"
    and sl: "slots_inv (set (co_alloc c)) (co_modules c) (co_components c)"
    and al: "distinct (co_alloc c)" "0 \<notin> set (co_alloc c)"
    using inv by (auto simp: core_inv_def)
  have h: "h \<noteq> 0" using al(2) i(3) by (cases "h = 0") simp_all
  have r: "r < MAX_TABLE_SIZE" using f t by (simp add: place_def table_inv_def)
  let ?e = "co_table c ! r"
  let ?tab = "(co_table c)[r := ?e\<lparr>ct_refCount := ct_refCount ?e - 1, ct_handles := (ct_handles ?e)[k := 0]\<rparr>]"
  have inv1: "table_inv (set (co_alloc c)) ?tab"
    by (rule table_inv_update[OF t r, where k = k and h = 0]) (use table_inv_entry[OF t r] in auto)
  have "handle_at ?tab r' k' \<noteq> h" if "place ?tab r' k'" for r' k'
  proof
    assume eq: "handle_at ?tab r' k' = h"
    have pl: "place (co_table c) r' k'" using that by (cases "r' = r") (auto simp: place_def nth_list_update)
    show False
    proof (cases "r' = r \<and> k' = k")
      case True
      then show False using eq h f by (auto simp: handle_at_def place_def)
    next
      case False
      then have "handle_at (co_table c) r' k' = h" using eq f by (auto simp: handle_at_def place_def nth_list_update split: if_splits)
      then show False using False table_inv_unique[OF t _ pl _ _ h] f by blast
    qed
  qed
  then have tab: "table_inv (set (co_alloc c) - {h}) ?tab" by (rule table_inv_remove[OF inv1])
  have "slots_inv (set (co_alloc c) - {h}) ((co_modules c)[i := 0]) ((co_components c)[i := 0])"
    by (rule slots_inv_remove[OF slots_inv_clear[OF sl] slots_inv_cleared[OF sl i(2) h i(1)]])
  with tab show ?thesis using fr Some rk al i(3)
    by (auto simp: free_component_def Let_def core_inv_def)
qed (use fr inv in \<open>simp add: free_component_def\<close>)

lemma FreeHandle_inv:
  assumes inv: "core_inv c" and fr: "OMX_FreeHandle deinit h c = Some (err, c')"
  shows "core_inv c'"
proof (cases "w_rc c (w_now c) = 0 \<and> find_index (\<lambda>p. p = h) (co_components c) \<noteq> None \<and> deinit h = OMX_ErrorNone")
  case True
  then obtain i where i: "find_index (\<lambda>p. p = h) (co_components c) = Some i" by auto
  from True i fr obtain e1 c1 where l: "free_component h i (tick c) = Some (e1, c1)" "c' = tick c1"
    and al: "h \<in> set (co_alloc c)"
    by (cases "free_component h i (tick c)") (auto simp: OMX_FreeHandle_def sys_call_def split: if_splits)
  have "i < length (co_components c)" "co_components c ! i = h" using find_index_Some[OF i] by auto
  moreover have "length (co_components c) = MAXCOMP" using inv by (simp add: core_inv_def slots_inv_def)
  ultimately show ?thesis using free_component_inv[of "tick c" i h e1 c1] inv l al by simp
next
  case False
  then show ?thesis using fr inv
    by (auto simp: OMX_FreeHandle_def sys_call_def split: if_splits option.splits)
qed

subsection \<open>Building the table\<close>

definition component_roles :: "(string \<times> string list) list" where
  "component_roles =
     [(''OMX.hantro.G1.video.decoder'',
       [''video_decoder.mpeg4'', ''video_decoder.avc'', ''video_decoder.h263'', ''video_decoder.vp8'']),
      (''OMX.hantro.G1.image.decoder'', [''image_decoder.jpeg'', ''image_decoder.webp'']),
      (''OMX.hantro.H1.video.encoder'', [''video_encoder.avc'', ''video_encoder.vp8'']),
      (''OMX.hantro.H1.image.encoder'', [''image_encoder.jpeg'', ''image_encoder.webp''])]"

lemma add_role_step:
  "add_role name role j (Suc k) tab = (if ct_name (tab ! j) = Some name then
     (case role of None \<Rightarrow> Some (j, tab) | Some r \<Rightarrow>
        if length (ct_roles (tab ! j)) \<ge> MAX_ROLES \<or> length (ct_roles (tab ! j)) \<ge> length (ct_handles (tab ! j)) then None
        else Some (j, tab[j := (tab ! j)\<lparr>ct_roles := ct_roles (tab ! j) @ [r],
                  ct_handles := (ct_handles (tab ! j))[length (ct_roles (tab ! j)) := 0]\<rparr>]))
     else if ct_name (tab ! j) = None then None else add_role name role (j + 1) k tab)"
  by (auto simp: Let_def split: option.splits)

lemma build_component_table_roles:
  assumes "core_inv c"
  shows "\<exists>c'. OMX_BuildComponentTable c = Some (OMX_ErrorNone, c')
    \<and> map (\<lambda>e. (ct_name e, ct_roles e)) (take (co_tableCount c') (co_table c'))
      = map (\<lambda>(n, rs). (Some n, rs)) component_roles
    \<and> drop (co_tableCount c') (co_table c') = drop (co_tableCount c') (co_table c)
    \<and> map ct_refCount (take (co_tableCount c') (co_table c')) = [0, 0, 0, 0]"
proof -
  have len: "length (co_table c) = 30" using assms by (simp add: core_inv_def table_inv_def core_consts)
  then have "\<exists>a b d e rest. co_table c = a # b # d # e # rest"
    using len by (cases "co_table c"; cases "tl (co_table c)"; cases "tl (tl (co_table c))"; cases "tl (tl (tl (co_table c)))") auto
  then obtain a b d e rest where tab: "co_table c = a # b # d # e # rest" by blast
  have h: "length (ct_handles a) = 4" "length (ct_handles b) = 4" "length (ct_handles d) = 4" "length (ct_handles e) = 4"
    using assms tab by (auto simp: core_inv_def table_inv_def core_consts)
  show ?thesis
    by (simp add: OMX_BuildComponentTable_def tab tComponentName_def component_roles_def core_consts h Let_def)
qed

text \<open>building the table, on the first OMX\_Init or on a later one, gives one entry for each of
  the four components, with its roles in the order of tComponentName and no instance counted.\<close>

theorem BuildComponentTable_roles:
  assumes "core_inv c"
  shows "\<exists>c'. OMX_BuildComponentTable c = Some (OMX_ErrorNone, c')
    \<and> map (\<lambda>e. (ct_name e, ct_roles e)) (take (co_tableCount c') (co_table c'))
      = map (\<lambda>(n, rs). (Some n, rs)) component_roles
    \<and> drop (co_tableCount c') (co_table c') = drop (co_tableCount c') (co_table c)
    \<and> map ct_refCount (take (co_tableCount c') (co_table c')) = [0, 0, 0, 0]"
  by (rule build_component_table_roles[OF assms])

subsection \<open>Reachable cores\<close>

text \<open>The static variables before the first call.\<close>

definition core_start :: "world \<Rightarrow> core" where
  "core_start w = world.extend w \<lparr>co_modules = replicate MAXCOMP 0, co_components = replicate MAXCOMP 0,
     co_count = 0, co_tableCount = 0, co_table = replicate MAX_TABLE_SIZE empty_entry, co_alloc = []\<rparr>"

text \<open>The calls of an application, with any components; the one condition is that *pHandle is
  not a handle in use when hantro\_OMX\_GetHandle is called.\<close>

inductive core_reachable :: "core \<Rightarrow> bool" where
  start: "core_reachable (core_start w)"
| init: "core_reachable c \<Longrightarrow> OMX_Init c = Some (err, c') \<Longrightarrow> core_reachable c'"
| deinit: "core_reachable c \<Longrightarrow> OMX_Deinit c = (err, c') \<Longrightarrow> core_reachable c'"
| get: "core_reachable c \<Longrightarrow> (\<And>h0. pHandle = Some h0 \<Longrightarrow> h0 \<notin> set (co_alloc c))
    \<Longrightarrow> OMX_GetHandle constr setcb pHandle cName callbacks c = Some (err, h, c') \<Longrightarrow> core_reachable c'"
| free: "core_reachable c \<Longrightarrow> OMX_FreeHandle de_init h c = Some (err, c') \<Longrightarrow> core_reachable c'"

lemma core_inv_start: "core_inv (core_start w)"
  by (auto simp: core_inv_def table_inv_def slots_inv_def core_start_def world.defs core_consts
      place_def handle_at_def empty_entry_def)

subsection \<open>The names of the table\<close>

definition built_names :: "comp_entry list \<Rightarrow> bool" where
  "built_names tab = (map ct_name tab = replicate MAX_TABLE_SIZE None
     \<or> map ct_name tab = map (\<lambda>(n, rs). Some n) component_roles @ replicate 26 None)"

lemma built_names_inv: "built_names tab \<Longrightarrow> names_inv tab"
proof -
  assume b: "built_names tab"
  have "names_inv tab = (\<forall>j < length (map ct_name tab). \<forall>i < j. (map ct_name tab) ! i \<noteq> None \<longrightarrow> (map ct_name tab) ! i \<noteq> (map ct_name tab) ! j)"
    by (auto simp: names_inv_def)
  moreover have names: "\<forall>j < length ns. \<forall>i < j. ns ! i \<noteq> None \<longrightarrow> ns ! i \<noteq> ns ! j"
    if ns: "ns = replicate MAX_TABLE_SIZE None \<or> ns = map (\<lambda>(n, rs). Some n) component_roles @ replicate 26 None" for ns :: "string option list"
  proof (intro allI impI)
    fix i j assume ij: "j < length ns" "i < j" "ns ! i \<noteq> None"
    define four where "four = map (\<lambda>(n, rs :: string list). Some n) component_roles"
    have len: "length four = 4" "distinct four" by (auto simp: four_def component_roles_def)
    have ns4: "ns = four @ replicate 26 None" using ns ij by (auto simp: four_def)
    then have i: "i < 4" "ns ! i = four ! i" using ij len(1) by (auto simp: nth_append split: if_splits)
    show "ns ! i \<noteq> ns ! j"
    proof (cases "j < 4")
      case True
      then have "four ! i \<noteq> four ! j" "ns ! j = four ! j"
        using i(1) ij(2) ns4 len nth_eq_iff_index_eq[OF len(2), of i j] by (auto simp: nth_append)
      then show ?thesis using i(2) by simp
    next
      case False
      then have "ns ! j = None" using ij(1) ns4 len(1) by (simp add: nth_append)
      then show ?thesis using ij(3) by simp
    qed
  qed
  ultimately show ?thesis using names[of "map ct_name tab"] b unfolding built_names_def by blast
qed

lemma names_update: "ct_name e = ct_name (tab ! r) \<Longrightarrow> map ct_name (tab[r := e]) = map ct_name tab"
  by (cases "r < length tab") (auto simp: map_update list_update_same_conv list_update_beyond)

lemma load_component_names:
  "load_component init setcb name i r h c = Some (go_on, err, h', c') \<Longrightarrow> map ct_name (co_table c') = map ct_name (co_table c)"
  by (auto simp: load_component_def sys_malloc_def sys_call_def Let_def get_handle_clean_up_def names_update bind_eq_Some_conv
      split: if_splits)

lemma get_handle_loop_names:
  "get_handle_loop init setcb name i r k h c = Some (err, h', c') \<Longrightarrow> map ct_name (co_table c') = map ct_name (co_table c)"
proof (induction k arbitrary: r h c)
  case (Suc k)
  then show ?case
    by (auto split: option.splits if_splits simp: bind_eq_Some_conv dest!: load_component_names)
qed simp

lemma GetHandle_names:
  "OMX_GetHandle init setcb p name cb c = Some (err, h, c') \<Longrightarrow> map ct_name (co_table c') = map ct_name (co_table c)"
  by (auto simp: OMX_GetHandle_def sys_call_def bind_eq_Some_conv split: if_splits option.splits dest!: get_handle_loop_names)

lemma FreeHandle_names:
  "OMX_FreeHandle deinit h c = Some (err, c') \<Longrightarrow> map ct_name (co_table c') = map ct_name (co_table c)"
  by (auto simp: OMX_FreeHandle_def free_component_def sys_call_def Let_def bind_eq_Some_conv names_update split: if_splits option.splits)

lemma Init_names:
  assumes "core_inv c" "built_names (co_table c)" "OMX_Init c = Some (err, c')"
  shows "built_names (co_table c')"
proof -
  have build: "built_names (co_table c1)" if "OMX_BuildComponentTable c0 = Some (e, c1)" "co_table c0 = co_table c" "core_inv c0" for c0 e c1
  proof -
    let ?n = "co_tableCount c1"
    have b: "map (\<lambda>e. (ct_name e, ct_roles e)) (take ?n (co_table c1)) = map (\<lambda>(n, rs). (Some n, rs)) component_roles"
      "drop ?n (co_table c1) = drop ?n (co_table c)" using build_component_table_roles[OF that(3)] that(1,2) by auto
    have len: "length (co_table c1) = 30" "length (co_table c) = 30"
      using BuildComponentTable_inv[OF that(3,1)] assms(1) by (simp_all add: core_inv_def table_inv_def core_consts)
    have "min 30 ?n = 4" using arg_cong[OF b(1), of length] len by (simp add: component_roles_def)
    then have n: "?n = 4" by simp
    have "map ct_name (take 4 (co_table c1)) = map fst (map (\<lambda>e. (ct_name e, ct_roles e)) (take 4 (co_table c1)))" by simp
    also have "\<dots> = map (\<lambda>(n, rs). Some n) component_roles" using b(1) n by (simp add: comp_def case_prod_beta)
    finally have "map ct_name (take 4 (co_table c1)) = map (\<lambda>(n, rs). Some n) component_roles" .
    moreover have "map ct_name (drop 4 (co_table c1)) = drop 4 (map ct_name (co_table c))" using b(2) n by (simp add: drop_map)
    moreover have "drop 4 (map ct_name (co_table c)) = replicate 26 None"
      using assms(2) by (auto simp: built_names_def core_consts component_roles_def)
    ultimately show ?thesis unfolding built_names_def by (metis append_take_drop_id map_append)
  qed
  have "core_inv (c\<lparr>w_now := x, co_count := y\<rparr>)" for x y using assms(1) by simp
  then show ?thesis using assms(2,3) build
    by (auto simp: OMX_Init_def sys_call_def Let_def bind_eq_Some_conv split: if_splits)
qed

text \<open>C13: after any sequence of calls of the core that return, with any components and any failures of system calls,
  constructors (with whatever error) and SetCallbacks, the module and component slots and the instance
  tables agree with the blocks that are allocated: no handle in them is dangling, none stands twice,
  and no counter leaves its bounds. The one condition on the application is that *pHandle is not a handle in use
  when hantro\_OMX\_GetHandle is called; it is needed, since the label CLEAN\_UP frees that
  handle (GetHandle\_frees\_other). A call that crashes, as GetHandle\_unknown\_name and
  GetHandle\_constructor\_fails show there are, leads to no state.\<close>

theorem core_reachable_inv:
  assumes "core_reachable c"
  shows "core_inv c"
proof -
  have "core_inv c \<and> built_names (co_table c)" using assms
  proof induction
    case (start w)
    then show ?case using core_inv_start[of w] by (simp add: built_names_def core_start_def world.defs empty_entry_def)
  next
    case (init c err c')
    then show ?case using Init_inv Init_names by blast
  next
    case (deinit c err c')
    then show ?case using Deinit_inv[of c] by (auto simp: OMX_Deinit_def sys_call_def split: if_splits)
  next
    case (get c pHandle constr setcb cName callbacks err h c')
    then have "core_inv c'" using GetHandle_inv[OF _ built_names_inv get(2) get(3)] by blast
    then show ?case using get GetHandle_names[OF get(3)] by (simp add: built_names_def)
  next
    case (free c de_init h err c')
    then show ?case using FreeHandle_inv[OF _ free(2)] FreeHandle_names[OF free(2)] by (simp add: built_names_def)
  qed
  then show ?thesis ..
qed

theorem BuildComponentTable_roles_witness:
  "\<exists>c'. OMX_BuildComponentTable (core_start (good_world 1)) = Some (OMX_ErrorNone, c')
    \<and> map (\<lambda>e. (ct_name e, ct_roles e)) (take (co_tableCount c') (co_table c'))
      = map (\<lambda>(n, rs). (Some n, rs)) component_roles"
  using BuildComponentTable_roles[OF core_inv_start[of "good_world 1"]] by blast

subsection \<open>Components of a role\<close>

text \<open>The names that fit a role, an entry once for every time it has the role.\<close>

definition role_names :: "string \<Rightarrow> comp_entry list \<Rightarrow> string option list" where
  "role_names role tab = concat (map (\<lambda>e. map (\<lambda>_. ct_name e) (filter (\<lambda>r. r = role) (ct_roles e))) tab)"

lemma role_names_simps [simp]:
  "role_names role [] = []"
  "role_names role (e # es) = map (\<lambda>_. ct_name e) (filter (\<lambda>r. r = role) (ct_roles e)) @ role_names role es"
  by (simp_all add: role_names_def)

lemma fold_count: "fold (\<lambda>r n. if r = x then n + 1 else n) rs (n :: 'a::len word) = n + of_nat (length (filter (\<lambda>r. r = x) rs))"
  by (induction rs arbitrary: n) (auto simp: algebra_simps)

lemma count_role_names: "count_role role tab n = n + of_nat (length (role_names role tab))"
  by (induction role tab n rule: count_role.induct) (simp_all add: fold_count)

lemma fill_roles_spec:
  "length out < unat cnt \<Longrightarrow> length out + length (filter (\<lambda>r. r = role) rs) \<le> unat cnt \<Longrightarrow>
    fill_roles role name rs cnt out =
      (length out + length (filter (\<lambda>r. r = role) rs) = unat cnt, out @ map (\<lambda>_. name) (filter (\<lambda>r. r = role) rs))"
proof (induction role name rs cnt out rule: fill_roles.induct)
  case (2 role name r rs cnt out)
  have eq: "(of_nat (length (out @ [name])) = cnt) = (Suc (length out) = unat cnt)" if "r = role"
  proof -
    have "Suc (length out) < 2 ^ 64" using 2(3) unsigned_less[of cnt, where ?'a = nat] by simp
    then have "unat (of_nat (Suc (length out)) :: 64 word) = Suc (length out)" by (simp only: unat_of_nat) simp
    then show ?thesis by (metis length_append_singleton word_unat_eq_iff)
  qed
  show ?case
  proof (cases "r = role \<and> Suc (length out) = unat cnt")
    case True
    then have "length (filter (\<lambda>r. r = role) rs) = 0" using 2(4) by (simp del: length_0_conv)
    with True eq show ?thesis by simp
  next
    case False
    show ?thesis
    proof (cases "r = role")
      case True
      with False eq show ?thesis using 2 by (simp add: Let_def)
    qed (use 2 in auto)
  qed
qed simp

lemma fill_names_spec:
  "length out < unat cnt \<Longrightarrow> length out + length (role_names role tab) \<le> unat cnt \<Longrightarrow>
    fill_names role tab cnt out = (length out + length (role_names role tab) = unat cnt, out @ role_names role tab)"
proof (induction role tab cnt out rule: fill_names.induct)
  case (2 role e es cnt out)
  let ?k = "length (filter (\<lambda>r. r = role) (ct_roles e))"
  have f: "fill_roles role (ct_name e) (ct_roles e) cnt out
      = (length out + ?k = unat cnt, out @ map (\<lambda>_. ct_name e) (filter (\<lambda>r. r = role) (ct_roles e)))"
    by (rule fill_roles_spec) (use 2 in auto)
  show ?case
  proof (cases "length out + ?k = unat cnt")
    case True
    then have "length (role_names role es) = 0" using 2(3) by (simp del: length_0_conv)
    with True f show ?thesis by simp
  next
    case False
    with f 2 show ?thesis by (simp add: add.assoc)
  qed
qed simp

text \<open>querying the components of a role with two calls, the first for their number and the
  second with that much room or more, gives the names of all components of the role; with less
  room the second call is refused.\<close>

theorem GetComponentsOfRole_two_calls:
  fixes c role
  defines "names \<equiv> role_names role (take (co_tableCount c) (co_table c))"
  assumes "co_tableCount c \<noteq> 0" "names \<noteq> []" "length names < 2 ^ 64"
  shows "OMX_GetComponentsOfRole (Some role) (Some m) False c = (OMX_ErrorNone, Some (of_nat (length names)), [])
    \<and> OMX_GetComponentsOfRole (Some role) (Some n) True c =
        (if of_nat (length names) \<le> n then (OMX_ErrorNone, Some (of_nat (length names)), names)
         else (OMX_ErrorBadParameter, Some n, []))"
proof -
  let ?tab = "take (co_tableCount c) (co_table c)"
  have cnt: "count_role role ?tab 0 = of_nat (length names)" by (simp add: count_role_names names_def)
  have u: "unat (of_nat (length names) :: 64 word) = length names"
    using assms(4) by (simp add: unat_of_nat)
  have nz: "(of_nat (length names) :: 64 word) \<noteq> 0" using u assms(3) by (metis length_0_conv unat_0)
  have "fill_names role ?tab (of_nat (length names)) [] = (True, names)"
    using fill_names_spec[of "[]" "of_nat (length names)" role ?tab] assms(3) u by (simp add: names_def)
  then show ?thesis using assms(2) nz by (simp add: OMX_GetComponentsOfRole_def cnt Let_def) (simp add: not_less[symmetric])
qed

theorem GetComponentsOfRole_two_calls_witness:
  "\<exists>c. OMX_BuildComponentTable (core_start (good_world 1)) = Some (OMX_ErrorNone, c)
    \<and> OMX_GetComponentsOfRole (Some ''video_encoder.vp8'') (Some 0) False c = (OMX_ErrorNone, Some 1, [])
    \<and> OMX_GetComponentsOfRole (Some ''video_encoder.vp8'') (Some 3) True c
        = (OMX_ErrorNone, Some 1, [Some ''OMX.hantro.H1.video.encoder''])"
proof -
  obtain c where c: "OMX_BuildComponentTable (core_start (good_world 1)) = Some (OMX_ErrorNone, c)"
    and t: "map (\<lambda>e. (ct_name e, ct_roles e)) (take (co_tableCount c) (co_table c))
      = map (\<lambda>(n, rs). (Some n, rs)) component_roles"
    using build_component_table_roles[OF core_inv_start] by blast
  have n: "role_names ''video_encoder.vp8'' (take (co_tableCount c) (co_table c)) = [Some ''OMX.hantro.H1.video.encoder'']"
    using t by (auto simp: component_roles_def map_eq_Cons_conv)
  have "co_tableCount c \<noteq> 0" using t by (cases "co_tableCount c") (auto simp: component_roles_def)
  then show ?thesis using c n
      GetComponentsOfRole_two_calls[of c "''video_encoder.vp8''" 0 3] by simp
qed

subsection \<open>Getting and freeing a handle\<close>

lemma get_handle_loop_skip:
  "(\<And>j. refIndex \<le> j \<Longrightarrow> j < refIndex + m \<Longrightarrow> ct_name (co_table c ! j) \<noteq> None \<and> ct_name (co_table c ! j) \<noteq> Some name) \<Longrightarrow>
    get_handle_loop init setcb name i refIndex (m + k) h c = get_handle_loop init setcb name i (refIndex + m) k h c"
proof (induction m arbitrary: refIndex)
  case (Suc m)
  have "ct_name (co_table c ! refIndex) \<noteq> None \<and> ct_name (co_table c ! refIndex) \<noteq> Some name"
    by (rule Suc.prems) simp_all
  then obtain n where n: "ct_name (co_table c ! refIndex) = Some n" "n \<noteq> name" by blast
  have "get_handle_loop init setcb name i (refIndex + 1) (m + k) h c = get_handle_loop init setcb name i (refIndex + 1 + m) k h c"
    by (rule Suc.IH) (rule Suc.prems; simp)
  then show ?case using n by simp
qed simp

lemma find_index_eq:
  assumes "i < length xs" "P (xs ! i)" and u: "\<And>j. j < length xs \<Longrightarrow> P (xs ! j) \<Longrightarrow> j = i"
  shows "find_index P xs = Some i"
proof -
  have "find_index P xs \<noteq> None" unfolding find_index_None using assms(1,2) nth_mem by blast
  then obtain j where j: "find_index P xs = Some j" by blast
  then show ?thesis using u[of j] find_index_Some[OF j] by simp
qed

lemma find_handle_ex: "place tab r k \<Longrightarrow> find_handle (handle_at tab r k) n tab \<noteq> None"
proof (induction tab arbitrary: r n)
  case (Cons e tab)
  show ?case
  proof (cases r)
    case 0
    then have "handle_at (e # tab) r k \<in> set (ct_handles e)" using Cons.prems by (simp add: place_def handle_at_def)
    then have "find_index (\<lambda>p. p = handle_at (e # tab) r k) (ct_handles e) \<noteq> None"
      using find_index_None[of "\<lambda>p. p = handle_at (e # tab) r k"] by auto
    then show ?thesis by auto
  next
    case (Suc r')
    then have "handle_at (e # tab) r k = handle_at tab r' k" "place tab r' k" using Cons.prems by (simp_all add: place_def handle_at_def)
    then show ?thesis using Cons.IH[of r' "n + 1"] by (auto split: option.splits)
  qed
qed (simp add: place_def)

lemma find_handle_eq:
  assumes "table_inv L tab" "place tab r k" "handle_at tab r k = h" "h \<noteq> 0"
  shows "find_handle h 0 tab = Some (r, k)"
proof -
  obtain r' k' where f: "find_handle h 0 tab = Some (r', k')" using find_handle_ex[OF assms(2), of 0] assms(3) by auto
  then show ?thesis using find_handle_Some[OF f] table_inv_unique[OF assms(1,2) _ assms(3)] assms(4) by auto
qed


text \<open>What a system in which every call succeeds must offer for a component to be loaded: a
  module, and a block that is not in use.\<close>

definition loadable :: "string \<Rightarrow> nat \<Rightarrow> core \<Rightarrow> bool" where
  "loadable name r c = (calls_ok c \<and> w_ptr c (w_now c + 1) \<noteq> 0
     \<and> w_ptr c (w_now c + 3) \<noteq> 0 \<and> w_ptr c (w_now c + 3) \<notin> set (co_alloc c)
     \<and> name \<in> set known_constructors \<and> 0 \<in> set (co_modules c) \<and> r < MAX_TABLE_SIZE
     \<and> ct_name (co_table c ! r) = Some name
     \<and> (\<forall>j < r. ct_name (co_table c ! j) \<noteq> None \<and> ct_name (co_table c ! j) \<noteq> Some name)
     \<and> ct_refCount (co_table c ! r) < MAX_CONCURRENT_INSTANCES)"

lemma get_handle_loads:
  assumes inv: "core_inv c" and ld: "loadable name r c"
    and ok: "init (w_ptr c (w_now c + 3)) name = OMX_ErrorNone" "setcb (w_ptr c (w_now c + 3)) = OMX_ErrorNone"
  shows "\<exists>i. find_index (\<lambda>m. m = 0) (co_modules c) = Some i \<and>
    OMX_GetHandle init setcb (Some p) (Some name) True c = (let h = w_ptr c (w_now c + 3); e = co_table c ! r in
      Some (OMX_ErrorNone, Some h, c\<lparr>w_now := w_now c + 5,
        co_modules := (co_modules c)[i := w_ptr c (w_now c + 1)],
        co_components := (co_components c)[i := h],
        co_table := (co_table c)[r := e\<lparr>ct_handles := (ct_handles e)[ct_refCount e := h], ct_refCount := ct_refCount e + 1\<rparr>],
        co_alloc := h # co_alloc c\<rparr>))"
proof -
  let ?n = "w_now c" and ?e = "co_table c ! r"
  have t: "table_inv (set (co_alloc c)) (co_table c)" using inv by (simp add: core_inv_def)
  have r: "r < MAX_TABLE_SIZE" "ct_refCount ?e < MAX_CONCURRENT_INSTANCES"
    "length (ct_handles ?e) = MAX_CONCURRENT_INSTANCES" "ct_name ?e = Some name"
    using ld table_inv_entry[OF t] by (simp_all add: loadable_def)
  have rc: "w_rc c m = 0" if "?n \<le> m" for m using ld that by (simp add: loadable_def)
  have new: "w_ptr c (Suc ?n) \<noteq> 0" "w_ptr c (?n + 3) \<noteq> 0" "w_ptr c (?n + 3) \<notin> set (co_alloc c)"
    "name \<in> set known_constructors" using ld by (simp_all add: loadable_def)
  have "find_index (\<lambda>m. m = 0) (co_modules c) \<noteq> None" using ld by (auto simp: loadable_def find_index_None)
  then obtain i where i: "find_index (\<lambda>m. m = 0) (co_modules c) = Some i" by blast
  have name: "length name < MAXNAMESIZE" using new(4) by (auto simp: known_constructors_def MAXNAMESIZE_def)
  have "load_component init setcb name i r p (tick c) =
    Some (False, OMX_ErrorNone, w_ptr c (?n + 3), c\<lparr>w_now := ?n + 4,
        co_modules := (co_modules c)[i := w_ptr c (Suc ?n)], co_components := (co_components c)[i := w_ptr c (?n + 3)],
        co_table := (co_table c)[r := ?e\<lparr>ct_handles := (ct_handles ?e)[ct_refCount ?e := w_ptr c (?n + 3)], ct_refCount := ct_refCount ?e + 1\<rparr>],
        co_alloc := w_ptr c (?n + 3) # co_alloc c\<rparr>)"
    using new r rc[of "Suc (Suc ?n)"] ok
    by (simp add: load_component_def sys_malloc_def sys_call_def Let_def numeral_3_eq_3 eval_nat_numeral)
  moreover have "get_handle_loop init setcb name i 0 MAX_TABLE_SIZE p (tick c)
      = get_handle_loop init setcb name i r (Suc (MAX_TABLE_SIZE - r - 1)) p (tick c)"
    using get_handle_loop_skip[of 0 r "tick c" name init setcb i "MAX_TABLE_SIZE - r" p] ld r(1)
    by (simp add: loadable_def Suc_diff_Suc)
  ultimately have l: "get_handle_loop init setcb name i 0 MAX_TABLE_SIZE p (tick c) =
    Some (OMX_ErrorNone, w_ptr c (?n + 3), c\<lparr>w_now := ?n + 4,
        co_modules := (co_modules c)[i := w_ptr c (Suc ?n)], co_components := (co_components c)[i := w_ptr c (?n + 3)],
        co_table := (co_table c)[r := ?e\<lparr>ct_handles := (ct_handles ?e)[ct_refCount ?e := w_ptr c (?n + 3)], ct_refCount := ct_refCount ?e + 1\<rparr>],
        co_alloc := w_ptr c (?n + 3) # co_alloc c\<rparr>)"
    using r by simp
  show ?thesis using i name l rc[of ?n] rc[of "?n + 4"]
    by (simp add: OMX_GetHandle_def sys_call_def Let_def)
qed


text \<open>asking for a component that is not in the table, the core does not report it missing but
  hands the null name behind the last entry to strcmp.\<close>

theorem GetHandle_unknown_name:
  assumes "w_rc c (w_now c) = 0" "0 \<in> set (co_modules c)" "length name < MAXNAMESIZE"
    and n: "n < MAX_TABLE_SIZE" "ct_name (co_table c ! n) = None"
    and before: "\<And>j. j < n \<Longrightarrow> ct_name (co_table c ! j) \<noteq> None \<and> ct_name (co_table c ! j) \<noteq> Some name"
  shows "OMX_GetHandle init setcb (Some p) (Some name) True c = None"
proof -
  have "find_index (\<lambda>m. m = 0) (co_modules c) \<noteq> None" using assms(2) by (auto simp: find_index_None)
  then obtain i where i: "find_index (\<lambda>m. m = 0) (co_modules c) = Some i" by blast
  have "get_handle_loop init setcb name i 0 MAX_TABLE_SIZE p (tick c)
      = get_handle_loop init setcb name i n (Suc (MAX_TABLE_SIZE - n - 1)) p (tick c)"
    using get_handle_loop_skip[of 0 n "tick c" name init setcb i "MAX_TABLE_SIZE - n" p] before n(1)
    by (simp add: Suc_diff_Suc)
  then show ?thesis using assms(1,3) i n(2) by (simp add: OMX_GetHandle_def sys_call_def)
qed


text \<open>The table after the first OMX\_Init.\<close>

definition core_built :: "world \<Rightarrow> core" where
  "core_built w = (core_start w)\<lparr>
     co_table := map (\<lambda>(n, rs). empty_entry\<lparr>ct_name := Some n, ct_roles := rs\<rparr>) component_roles
       @ replicate 26 empty_entry,
     co_tableCount := 4\<rparr>"

lemma build_start: "OMX_BuildComponentTable (core_start w) = Some (OMX_ErrorNone, core_built w)"
  by (simp add: OMX_BuildComponentTable_def core_built_def core_start_def world.defs tComponentName_def
      component_roles_def core_consts empty_entry_def Let_def eval_nat_numeral)

lemma core_inv_built: "core_inv (core_built w)"
  by (rule BuildComponentTable_inv[OF core_inv_start build_start])

lemma core_reachable_built: "core_reachable ((core_built (good_world 1))\<lparr>co_count := 1, w_now := 2\<rparr>)"
proof (rule core_reachable.init[OF core_reachable.start])
  show "OMX_Init (core_start (good_world 1)) = Some (OMX_ErrorNone, (core_built (good_world 1))\<lparr>co_count := 1, w_now := 2\<rparr>)"
    by (simp add: OMX_Init_def sys_call_def core_built_def core_start_def world.defs good_world_def tComponentName_def
      component_roles_def core_consts empty_entry_def Let_def eval_nat_numeral OMX_BuildComponentTable_def)
qed

theorem core_reachable_inv_witness: "core_inv ((core_built (good_world 1))\<lparr>co_count := 1, w_now := 2\<rparr>)"
  by (rule core_reachable_inv[OF core_reachable_built])

lemma loadable_built: "loadable ''OMX.hantro.G1.image.decoder'' 1 (core_built (good_world 1))"
  by (simp add: loadable_def core_built_def core_start_def world.defs good_world_def calls_ok_def
      component_roles_def known_constructors_def empty_entry_def core_consts)


theorem GetHandle_unknown_name_witness:
  "OMX_GetHandle (\<lambda>h n. OMX_ErrorNone) (\<lambda>h. OMX_ErrorNone) (Some 0) (Some ''OMX.hantro.G2.video.decoder'') True
    (core_built (good_world 1)) = None"
proof (rule GetHandle_unknown_name[where n = 4])
  fix j :: nat assume "j < 4"
  then have "j = 0 \<or> j = 1 \<or> j = 2 \<or> j = 3" by auto
  then show "ct_name (co_table (core_built (good_world 1)) ! j) \<noteq> None \<and>
    ct_name (co_table (core_built (good_world 1)) ! j) \<noteq> Some ''OMX.hantro.G2.video.decoder''"
    by (elim disjE) (simp_all add: core_built_def component_roles_def)
qed (simp_all add: core_built_def core_start_def world.defs good_world_def component_roles_def empty_entry_def core_consts)

text \<open>instances of one component that are not freed in the reverse order of their making: the
  handle of a third instance overwrites the one of the second in the table, and freeing the second
  then deinitialises it and fails, its block and its slot being lost.\<close>

theorem FreeHandle_out_of_order:
  "(let get = OMX_GetHandle (\<lambda>h n. OMX_ErrorNone) (\<lambda>h. OMX_ErrorNone) (Some 0) (Some ''OMX.hantro.G1.video.decoder'') True;
        free = OMX_FreeHandle (\<lambda>h. OMX_ErrorNone)
    in do {
      (e0, h0, c) \<leftarrow> get (core_built (good_world 1));
      (e1, h1, c) \<leftarrow> get c;
      (e2, c) \<leftarrow> free (the h0) c;
      (e3, h2, c) \<leftarrow> get c;
      (e4, c) \<leftarrow> free (the h1) c;
      Some ([e0, e1, e2, e3, e4], the h1 \<in> set (co_alloc c), the h1 \<in> set (co_components c),
        find_handle (the h1) 0 (co_table c))
    }) = Some ([OMX_ErrorNone, OMX_ErrorNone, OMX_ErrorNone, OMX_ErrorNone, OMX_ErrorComponentNotFound], True, True, None)"
  by (simp add: OMX_GetHandle_def OMX_FreeHandle_def core_built_def core_start_def world.defs good_world_def sys_call_def
      sys_malloc_def component_roles_def empty_entry_def core_consts load_component_def free_component_def
      known_constructors_def Let_def eval_nat_numeral)

text \<open>the label CLEAN\_UP frees *pHandle also when hantro\_OMX\_GetHandle has not set it yet: called with the handle of another
  instance in *pHandle, it frees that instance when dlsym fails, and the slots and the table keep the
  handle.\<close>

theorem GetHandle_frees_other:
  "(let get = OMX_GetHandle (\<lambda>h n. OMX_ErrorNone) (\<lambda>h. OMX_ErrorNone);
        w = (good_world 1)\<lparr>w_rc := (\<lambda>n. if n = 7 then 1 else 0)\<rparr>
    in do {
      (e0, h0, c0) \<leftarrow> get (Some 0) (Some ''OMX.hantro.G1.video.decoder'') True (core_built w);
      (e1, h1, c1) \<leftarrow> get h0 (Some ''OMX.hantro.G1.image.decoder'') True c0;
      Some ([e0, e1], the h0 \<in> set (co_alloc c0), the h0 \<in> set (co_alloc c1), the h0 \<in> set (co_components c1),
        find_handle (the h0) 0 (co_table c1))
    }) = Some ([OMX_ErrorNone, OMX_ErrorInvalidComponent], True, False, True, Some (0, 0))"
  by (simp add: OMX_GetHandle_def core_built_def core_start_def world.defs good_world_def sys_call_def
      sys_malloc_def component_roles_def empty_entry_def core_consts load_component_def get_handle_clean_up_def
      known_constructors_def Let_def eval_nat_numeral)

text \<open>a constructor that fails with an error other than InsufficientResources makes the search go
  on behind its entry, and it ends in strcmp with the null name of an unused entry.\<close>

theorem GetHandle_constructor_fails:
  assumes "e \<notin> {OMX_ErrorNone, OMX_ErrorInsufficientResources}"
  shows "OMX_GetHandle (\<lambda>h n. e) setcb (Some p) (Some ''OMX.hantro.G1.video.decoder'') True (core_built (good_world 1)) = None"
  using assms
  by (simp add: OMX_GetHandle_def core_built_def core_start_def world.defs good_world_def sys_call_def
      sys_malloc_def component_roles_def empty_entry_def core_consts load_component_def get_handle_clean_up_def
      known_constructors_def Let_def eval_nat_numeral)

end
