(* ===== verification/Bits.thy ===== *)
theory Bits
  imports Prelude
begin

text \<open>
  Bit strings and emulation prevention, the format the encoder's bit writer and the
  decoder's bit reader share. A bit string is a list of booleans, most significant bit
  first.
\<close>

type_synonym bits = "bool list"

subsection \<open>Bit strings of numbers and bytes\<close>

text \<open>The n low bits of w.\<close>

definition low_bits :: "nat \<Rightarrow> 'a::len word \<Rightarrow> bits" where
  "low_bits n w = map (\<lambda>i. bit w (n - 1 - i)) [0 ..< n]"

definition byte_bits :: "8 word \<Rightarrow> bits" where
  "byte_bits c = low_bits 8 c"

definition bits_of :: "8 word list \<Rightarrow> bits" where
  "bits_of cs = concat (map byte_bits cs)"

text \<open>The n high bits of a 32-bit word.\<close>

definition top_bits :: "nat \<Rightarrow> 32 word \<Rightarrow> bits" where
  "top_bits n w = map (\<lambda>i. bit w (31 - i)) [0 ..< n]"

lemma length_low_bits [simp]: "length (low_bits n w) = n"
  by (simp add: low_bits_def)

lemma length_byte_bits [simp]: "length (byte_bits c) = 8"
  by (simp add: byte_bits_def)

lemma length_top_bits [simp]: "length (top_bits n w) = n"
  by (simp add: top_bits_def)

lemma nth_low_bits [simp]: "i < n \<Longrightarrow> low_bits n w ! i = bit w (n - 1 - i)"
  by (simp add: low_bits_def)

lemma nth_byte_bits [simp]: "i < 8 \<Longrightarrow> byte_bits c ! i = bit c (7 - i)"
  by (simp add: byte_bits_def)

lemma nth_top_bits [simp]: "i < n \<Longrightarrow> top_bits n w ! i = bit w (31 - i)"
  by (simp add: top_bits_def)

lemma length_bits_of [simp]: "length (bits_of cs) = 8 * length cs"
  by (induction cs) (simp_all add: bits_of_def)

lemma bits_of_simps [simp]:
  "bits_of [] = []" "bits_of (c # cs) = byte_bits c @ bits_of cs"
  "bits_of (xs @ ys) = bits_of xs @ bits_of ys"
  by (simp_all add: bits_of_def)

lemma byte_bits_inj [simp]: "byte_bits c = byte_bits d \<longleftrightarrow> c = d"
proof
  assume eq: "byte_bits c = byte_bits d"
  show "c = d"
  proof (rule bit_word_eqI)
    fix n :: nat
    assume "n < LENGTH(8)"
    then have "7 - n < 8" "7 - (7 - n) = n" by auto
    then show "bit c n = bit d n" using eq by (metis nth_byte_bits)
  qed
qed simp

lemma bits_of_inj: "bits_of xs = bits_of ys \<Longrightarrow> xs = ys"
proof (induction xs arbitrary: ys)
  case Nil
  then show ?case by (cases ys) (auto dest: arg_cong[of _ _ length])
next
  case (Cons x xs)
  then obtain y ys' where ys: "ys = y # ys'" by (cases ys) (auto dest: arg_cong[of _ _ length])
  with Cons.prems have "byte_bits x @ bits_of xs = byte_bits y @ bits_of ys'" by simp
  then have "byte_bits x = byte_bits y \<and> bits_of xs = bits_of ys'"
    by (subst (asm) append_eq_append_conv) simp_all
  with Cons.IH ys show ?case by simp
qed

text \<open>Every bit string of whole bytes is that of a byte list.\<close>

definition byte_of :: "bits \<Rightarrow> 8 word" where
  "byte_of bs = word_of_int (horner_sum of_bool 2 (rev (take 8 bs)))"

lemma bit_byte_of: "length bs = 8 \<Longrightarrow> n < 8 \<Longrightarrow> bit (byte_of bs) n = bs ! (7 - n)"
  by (simp add: byte_of_def bit_word_of_int_iff bit_horner_sum_bit_iff rev_nth)

lemma byte_bits_byte_of: "length bs = 8 \<Longrightarrow> byte_bits (byte_of bs) = bs"
  by (rule nth_equalityI) (simp_all add: bit_byte_of)

fun bytes_of :: "bits \<Rightarrow> 8 word list" where
  "bytes_of [] = []"
| "bytes_of (b # bs) = byte_of (take 8 (b # bs)) # bytes_of (drop 8 (b # bs))"

lemma bits_of_bytes_of: "length bs mod 8 = 0 \<Longrightarrow> bits_of (bytes_of bs) = bs"
proof (induction bs rule: bytes_of.induct)
  case (2 b bs)
  let ?l = "b # bs"
  have len: "8 \<le> length ?l" using 2(2) by (metis length_0_conv linorder_not_less list.distinct(1) mod_less)
  have "length (drop 8 ?l) mod 8 = 0" using 2(2) le_mod_geq[OF len] by simp
  with 2(1) have "bits_of (bytes_of (drop 8 ?l)) = drop 8 ?l" by simp
  moreover have "byte_bits (byte_of (take 8 ?l)) = take 8 ?l"
    using len by (intro byte_bits_byte_of) simp
  moreover have "bytes_of ?l = byte_of (take 8 ?l) # bytes_of (drop 8 ?l)" by simp
  ultimately show ?case by (metis append_take_drop_id bits_of_simps(2))
qed simp

lemma bytes_of_bits_of [simp]: "bytes_of (bits_of cs) = cs"
  by (rule bits_of_inj) (simp add: bits_of_bytes_of)

lemma unat_drop_bit_div: "unat (drop_bit k x) = unat x div 2 ^ k"
  by (metis drop_bit_eq_div unat_drop_bit_eq)

lemma small_drop_bit: "m < 2 ^ n \<Longrightarrow> m < 2 ^ 32 \<Longrightarrow> drop_bit n (of_nat m :: 32 word) = 0"
proof -
  assume m: "m < 2 ^ n" "m < 2 ^ 32"
  then have u: "unat (of_nat m :: 32 word) = m" by (simp add: unat_of_nat)
  then show ?thesis using unat_drop_bit_div[of n "of_nat m :: 32 word"] m by (simp add: word_unat_eq_iff)
qed

subsection \<open>Emulation prevention\<close>

text \<open>Inside a NAL unit the byte 3 is put between two zero bytes and a byte of at most 3, so
  that no start code appears in it.\<close>

fun escape :: "8 word list \<Rightarrow> 8 word list" where
  "escape (a # b # c # cs) =
     (if a = 0 \<and> b = 0 \<and> c \<le> 3 then a # b # 3 # escape (c # cs)
      else a # escape (b # c # cs))"
| "escape cs = cs"

text \<open>Taking it out again; z is the number of zero bytes just before, at most 2 of them
  count.\<close>

fun unescape :: "nat \<Rightarrow> 8 word list \<Rightarrow> 8 word list" where
  "unescape z [] = []"
| "unescape z (c # cs) =
     (if 2 \<le> z \<and> c = 3 then unescape 0 cs
      else c # unescape (if c = 0 then Suc z else 0) cs)"

text \<open>No three bytes in a row are 0, 0 and less than 3.\<close>

fun code_free :: "nat \<Rightarrow> 8 word list \<Rightarrow> bool" where
  "code_free z [] = True"
| "code_free z (c # cs) = ((2 \<le> z \<longrightarrow> 3 \<le> c) \<and> code_free (if c = 0 then Suc z else 0) cs)"

text \<open>What escape guarantees of its input after z zero bytes.\<close>

definition esc_ok :: "nat \<Rightarrow> 8 word list \<Rightarrow> bool" where
  "esc_ok z cs = ((2 \<le> z \<longrightarrow> cs \<noteq> [] \<longrightarrow> 3 < hd cs)
     \<and> (z = 1 \<longrightarrow> 2 \<le> length cs \<longrightarrow> cs ! 0 = 0 \<longrightarrow> 3 < cs ! 1))"

lemma escape_context:
  "esc_ok z cs \<Longrightarrow> unescape z (escape cs) = cs \<and> code_free z (escape cs)"
proof (induction cs arbitrary: z rule: escape.induct)
  case (1 a b c cs)
  show ?case
  proof (cases "a = 0 \<and> b = 0 \<and> c \<le> 3")
    case True
    then have z: "z = 0" using 1(3) by (cases "z = 1") (auto simp: esc_ok_def)
    have "esc_ok 0 (c # cs)" by (simp add: esc_ok_def)
    with 1(1)[OF True] True z show ?thesis by simp
  next
    case False
    have "esc_ok (if a = 0 then Suc z else 0) (b # c # cs)"
      using 1(3) False by (auto simp: esc_ok_def not_le)
    with 1(2)[OF False] have IH: "unescape (if a = 0 then Suc z else 0) (escape (b # c # cs)) = b # c # cs
        \<and> code_free (if a = 0 then Suc z else 0) (escape (b # c # cs))" by blast
    have "2 \<le> z \<Longrightarrow> 3 < a" using 1(3) by (simp add: esc_ok_def)
    with False IH show ?thesis by auto
  qed
qed (auto simp: esc_ok_def)

lemma unescape_escape [simp]: "unescape 0 (escape cs) = cs"
  and code_free_escape [simp]: "code_free 0 (escape cs)"
  using escape_context[of 0 cs] by (auto simp: esc_ok_def)

lemma code_free_nth:
  "code_free z cs \<Longrightarrow> i + 2 < length cs \<Longrightarrow> cs ! i = 0 \<Longrightarrow> cs ! (i + 1) = 0 \<Longrightarrow> 3 \<le> cs ! (i + 2)"
proof (induction z cs arbitrary: i rule: code_free.induct)
  case (2 z c cs)
  show ?case
  proof (cases i)
    case 0
    with 2 obtain d e r where "cs = d # e # r" by (cases cs; cases "tl cs") auto
    with 2 0 show ?thesis by auto
  next
    case (Suc j)
    with 2 show ?thesis by auto
  qed
qed simp

lemma length_escape: "length cs \<le> length (escape cs) \<and> 2 * length (escape cs) \<le> 3 * length cs"
  by (induction cs rule: escape.induct) auto

end
