(* ===== verification/H264Stream.thy ===== *)
theory H264Stream
  imports Bits
begin

text \<open>
  The decoder's bit reader, vc8000d/software/source/h264high/legacy/h264hwd\_stream.c: it shows
  and skips bits of a NAL unit in its buffer, leaving out the emulation prevention bytes.

  The buffer is linear (is\_rb and the low-latency mode are off); a read outside it is None, as
  is a failed ASSERT. SwTurnAround (common/sw\_util.c) copies the bytes from the current position on to a local array of 32
  bytes when the position is less than 2 bytes from the start; a copy that overruns the array is None, else the
  array holds the same bytes, so reads go to the buffer, but the early returns of FlushBits store a pointer into that array in
  strm\_curr\_pos, which sd\_dangling records.
\<close>

subsection \<open>The stream\<close>

text \<open>strmData\_t; positions are offsets from p\_strm\_buff\_start, u32 counters are naturals with
  the wrap-around written out.\<close>

record strm_data =
  sd_buf :: "8 word list"
  sd_pos :: nat
  sd_dangling :: bool
  sd_bit_pos :: nat
  sd_data_size :: nat
  sd_read_bits :: nat
  sd_remove_emul3 :: bool
  sd_emul_count :: nat

definition u32 :: "nat \<Rightarrow> nat" where
  "u32 x = x mod 2 ^ 32"

definition i32 :: "int \<Rightarrow> int" where
  "i32 x = signed_take_bit 31 x"

definition HANTRO_OK :: "32 word" where "HANTRO_OK = 0"
definition HANTRO_NOK :: "32 word" where "HANTRO_NOK = 1"
definition END_OF_STREAM :: "32 word" where "END_OF_STREAM = 0xFFFFFFFF"

lemmas status_defs = HANTRO_OK_def HANTRO_NOK_def END_OF_STREAM_def

text \<open>One byte through strm\_curr\_pos + k.\<close>

definition read_byte :: "strm_data \<Rightarrow> nat \<Rightarrow> 8 word option" where
  "read_byte s p = (if p < length (sd_buf s) then Some (sd_buf s ! p) else None)"

text \<open>The two checks the functions repeat: p is at an emulation prevention byte, tested only
  after 16 bits; p is at a start code prefix.\<close>

definition at_emulation :: "strm_data \<Rightarrow> nat \<Rightarrow> nat \<Rightarrow> bool option" where
  "at_emulation s p read_bits =
     (if read_bits < 16 then Some False
      else if p < 2 then None
      else do {
        a \<leftarrow> read_byte s (p - 2);
        if a \<noteq> 0 then Some False else do {
          b \<leftarrow> read_byte s (p - 1);
          if b \<noteq> 0 then Some False else do {
            c \<leftarrow> read_byte s p;
            Some (c = 3)
          }
        }
      })"

definition at_start_code :: "strm_data \<Rightarrow> nat \<Rightarrow> nat \<Rightarrow> bool option" where
  "at_start_code s p bytes_left =
     (if bytes_left \<le> 2 then Some False
      else do {
        a \<leftarrow> read_byte s p;
        if a \<noteq> 0 then Some False else do {
          b \<leftarrow> read_byte s (p + 1);
          if b \<noteq> 0 then Some False else do {
            c \<leftarrow> read_byte s (p + 2);
            Some (c \<le> 1)
          }
        }
      })"

text \<open>The ASSERTs both functions start with; strm\_curr\_pos must point into the buffer.\<close>

definition strm_pre :: "strm_data \<Rightarrow> bool" where
  "strm_pre s = (\<not> sd_dangling s \<and> sd_bit_pos s < 8 \<and> sd_bit_pos s = sd_read_bits s mod 8)"

subsection \<open>SwTurnAround\<close>

text \<open>Whether the bytes of num\_bits bits have been copied to the array of the caller. They are preceded there by the last two
  bytes of the buffer. In a linear buffer no bytes are asked for beyond its end (None: they are those of a ring
  buffer).\<close>

definition SwTurnAround :: "strm_data \<Rightarrow> nat \<Rightarrow> bool option" where
  "SwTurnAround s num_bits =
     (let bytes = u32 (num_bits + 7) div 8
      in if sd_pos s + bytes > length (sd_buf s) then None
         else if sd_pos s < 2 then
           if length (sd_buf s) < 2 \<or> 2 + sd_pos s + bytes > 32 then None else Some True
         else Some False)"

text \<open>The call both functions make: MIN(bits, num\_bits + bit\_pos\_in\_word + 32) compares unsigned.\<close>

definition turn_around :: "strm_data \<Rightarrow> nat \<Rightarrow> bool option" where
  "turn_around s num_bits =
     SwTurnAround s (min (nat ((8 * int (sd_data_size s) - int (sd_read_bits s)) mod 2 ^ 32)) (u32 (num_bits + sd_bit_pos s + 32)))"

subsection \<open>h264bsdShowBits\<close>

text \<open>while (bits \&\& (out\_bits < num\_bits))\<close>

function show_loop ::
  "strm_data \<Rightarrow> nat \<Rightarrow> nat \<Rightarrow> 32 word \<Rightarrow> nat \<Rightarrow> int \<Rightarrow> nat \<Rightarrow> 32 word option" where
  "show_loop s num_bits p out out_bits bits tmp_read_bits =
     (if bits \<noteq> 0 \<and> out_bits < num_bits then do {
        e \<leftarrow> at_emulation s p tmp_read_bits;
        let p = (if e then p + 1 else p);
            tmp_read_bits = (if e then u32 (tmp_read_bits + 8) else tmp_read_bits);
            bits = (if e then bits - 8 else bits)
        in if e \<and> bits \<le> 0 then Some out
           else do {
             c \<leftarrow> read_byte s p;
             show_loop s num_bits (p + 1)
               (out OR (if out_bits \<le> 24 then push_bit (24 - out_bits) (ucast c)
                        else drop_bit (out_bits - 24) (ucast c)))
               (out_bits + 8) (bits - 8) (u32 (tmp_read_bits + 8))
           }
      }
      else Some out)"
  by pat_completeness auto
termination
  by (relation "measure (\<lambda>(s, num_bits, p, out, out_bits, bits, trb). num_bits - out_bits)") auto

declare show_loop.simps [simp del]

text \<open>while (bits > 0), with the emulation prevention bytes already removed\<close>

function show_tail :: "strm_data \<Rightarrow> nat \<Rightarrow> 32 word \<Rightarrow> nat \<Rightarrow> int \<Rightarrow> 32 word option" where
  "show_tail s p out shift bits =
     (if bits > 0 then
        if shift < 8 then None
        else do {
          c \<leftarrow> read_byte s p;
          show_tail s (p + 1) (out OR push_bit (shift - 8) (ucast c)) (shift - 8) (bits - 8)
        }
      else Some out)"
  by pat_completeness auto
termination by (relation "measure (\<lambda>(s, p, out, shift, bits). nat bits)") auto

declare show_tail.simps [simp del]

definition h264bsdShowBits :: "strm_data \<Rightarrow> nat \<Rightarrow> 32 word option" where
  "h264bsdShowBits s num_bits =
     (let bits = i32 (8 * int (sd_data_size s) - int (sd_read_bits s));
          p = sd_pos s;
          result = (\<lambda>out. if num_bits = 0 then None else Some (drop_bit (32 - num_bits) out))
      in if \<not> (strm_pre s \<and> num_bits \<le> 32) then None
         else if bits = 0 then Some 0
         else if turn_around s num_bits = None then None
         else if \<not> sd_remove_emul3 s then
           if sd_bit_pos s \<noteq> 0 then do {
             c \<leftarrow> read_byte s p;
             let out_bits = 8 - sd_bit_pos s
             in Option.bind
                  (show_loop s num_bits (p + 1) (push_bit (24 + sd_bit_pos s) (ucast c)) out_bits
                     (bits - int out_bits) (u32 (sd_read_bits s + out_bits)))
                  result
           } else Option.bind (show_loop s num_bits p 0 0 bits (sd_read_bits s)) result
         else if bits \<ge> 32 then do {
           d \<leftarrow> read_byte s (p + 3);
           c \<leftarrow> read_byte s (p + 2);
           b \<leftarrow> read_byte s (p + 1);
           a \<leftarrow> read_byte s p;
           let out = ucast d OR push_bit 8 (ucast c) OR push_bit 16 (ucast b) OR push_bit 24 (ucast a)
           in if sd_bit_pos s \<noteq> 0 then do {
                e \<leftarrow> read_byte s (p + 4);
                result (push_bit (sd_bit_pos s) out OR drop_bit (8 - sd_bit_pos s) (ucast e))
              } else result out
         }
         else if bits > 0 then do {
           a \<leftarrow> read_byte s p;
           out \<leftarrow> show_tail s (p + 1) (push_bit (24 + sd_bit_pos s) (ucast a)) (24 + sd_bit_pos s)
             (bits - int (8 - sd_bit_pos s));
           result out
         }
         else Some 0)"

subsection \<open>h264bsdFlushBits\<close>

text \<open>Skipping an emulation prevention byte: the stream's counters, the position and the bytes
  left.\<close>

definition skip_emulation :: "strm_data \<Rightarrow> nat \<Rightarrow> nat \<Rightarrow> (strm_data \<times> nat \<times> nat) option" where
  "skip_emulation s p bytes_left = do {
     e \<leftarrow> (if sd_read_bits s \<ge> 16 \<and> bytes_left \<noteq> 0 then at_emulation s p (sd_read_bits s) else Some False);
     Some (if e then (s\<lparr>sd_read_bits := u32 (sd_read_bits s + 8), sd_emul_count := u32 (sd_emul_count s + 1)\<rparr>,
                      p + 1, bytes_left - 1)
           else (s, p, bytes_left))
   }"

text \<open>while (num\_bits >= 8 \&\& bytes\_left): Inl is the early return, with p\_strm stored\<close>

fun flush_loop ::
  "strm_data \<Rightarrow> nat \<Rightarrow> nat \<Rightarrow> nat \<Rightarrow> (strm_data \<times> nat + strm_data \<times> nat \<times> nat \<times> nat) option" where
  "flush_loop s p num_bits bytes_left =
     (if 8 \<le> num_bits \<and> bytes_left \<noteq> 0 then do {
        sc \<leftarrow> at_start_code s p bytes_left;
        if sc then Some (Inl (s, p))
        else do {
          (s, p, bytes_left) \<leftarrow>
            skip_emulation (s\<lparr>sd_read_bits := u32 (sd_read_bits s + 8)\<rparr>) (p + 1) (bytes_left - 1);
          flush_loop s p (num_bits - 8) bytes_left
        }
      }
      else Some (Inr (s, p, num_bits, bytes_left)))"

declare flush_loop.simps [simp del]

text \<open>The part of h264bsdFlushBits from a byte boundary p on; turn says that p\_strm points into
  the copy SwTurnAround made.\<close>

definition flush_aligned :: "bool \<Rightarrow> strm_data \<Rightarrow> nat \<Rightarrow> nat \<Rightarrow> nat \<Rightarrow> (32 word \<times> strm_data) option" where
  "flush_aligned turn s p num_bits bytes_left = do {
     r \<leftarrow> flush_loop s p num_bits bytes_left;
     case r of
       Inl (s, p) \<Rightarrow> Some (HANTRO_NOK, s\<lparr>sd_pos := p, sd_dangling := turn\<rparr>)
     | Inr (s, p, num_bits, bytes_left) \<Rightarrow>
         if num_bits \<noteq> 0 \<and> bytes_left \<noteq> 0 then do {
           sc \<leftarrow> at_start_code s p bytes_left;
           if sc then Some (HANTRO_NOK, s\<lparr>sd_pos := p, sd_dangling := turn\<rparr>)
           else Some (HANTRO_OK, s\<lparr>sd_read_bits := u32 (sd_read_bits s + num_bits),
                                   sd_bit_pos := num_bits, sd_pos := p\<rparr>)
         }
         else Some (if num_bits \<noteq> 0 then END_OF_STREAM else HANTRO_OK, s\<lparr>sd_pos := p\<rparr>)
   }"

definition h264bsdFlushBits :: "strm_data \<Rightarrow> nat \<Rightarrow> (32 word \<times> strm_data) option" where
  "h264bsdFlushBits s num_bits =
     (let turn = (turn_around s num_bits = Some True)
      in if \<not> strm_pre s \<or> turn_around s num_bits = None then None
         else if \<not> sd_remove_emul3 s then
           if u32 (sd_read_bits s + num_bits) > u32 (8 * sd_data_size s) then
             Some (END_OF_STREAM, s\<lparr>sd_read_bits := u32 (8 * sd_data_size s), sd_bit_pos := 0,
                                    sd_pos := sd_data_size s\<rparr>)
           else if sd_bit_pos s \<noteq> 0 \<and> num_bits < 8 - sd_bit_pos s then
             Some (HANTRO_OK, s\<lparr>sd_read_bits := u32 (sd_read_bits s + num_bits),
                                sd_bit_pos := sd_bit_pos s + num_bits\<rparr>)
           else do {
             let bytes_left = u32 (8 * sd_data_size s + 2 ^ 32 - sd_read_bits s) div 8;
             (s, p, num_bits, bytes_left) \<leftarrow>
               (if sd_bit_pos s \<noteq> 0 then do {
                  let num_bits = num_bits - (8 - sd_bit_pos s);
                  (s, p, bytes_left) \<leftarrow>
                    skip_emulation
                      (s\<lparr>sd_read_bits := u32 (sd_read_bits s + (8 - sd_bit_pos s)), sd_bit_pos := 0\<rparr>)
                      (sd_pos s + 1) bytes_left;
                  Some (s, p, num_bits, bytes_left)
                } else Some (s, sd_pos s, num_bits, bytes_left));
             flush_aligned turn s p num_bits bytes_left
           }
         else
           let bytes_shift = (sd_bit_pos s + num_bits) div 8;
               read_bits = u32 (sd_read_bits s + num_bits);
               s = s\<lparr>sd_read_bits := read_bits, sd_bit_pos := read_bits mod 8\<rparr>
           in if read_bits \<le> u32 (8 * sd_data_size s)
              then Some (HANTRO_OK, s\<lparr>sd_pos := sd_pos s + bytes_shift\<rparr>)
              else Some (END_OF_STREAM, s))"

subsection \<open>h264bsdGetBits, h264bsdIsByteAligned\<close>

definition h264bsdGetBits :: "strm_data \<Rightarrow> nat \<Rightarrow> (32 word \<times> strm_data) option" where
  "h264bsdGetBits s num_bits =
     (if num_bits \<ge> 32 then None
      else if num_bits = 0 then Some (0, s)
      else do {
        show \<leftarrow> h264bsdShowBits s 32;
        let out = drop_bit (32 - num_bits) show;
        (status, s) \<leftarrow> h264bsdFlushBits s num_bits;
        Some (if status = HANTRO_OK then out else END_OF_STREAM, s)
      })"

definition h264bsdIsByteAligned :: "strm_data \<Rightarrow> bool" where
  "h264bsdIsByteAligned s = (sd_bit_pos s = 0)"

subsection \<open>What the stream holds\<close>

text \<open>p is at an emulation prevention byte of S; the payload bytes from p on.\<close>

definition emul :: "8 word list \<Rightarrow> nat \<Rightarrow> bool" where
  "emul S p = (2 \<le> p \<and> p < length S \<and> S ! (p - 2) = 0 \<and> S ! (p - 1) = 0 \<and> S ! p = 3)"

function rbsp_from :: "8 word list \<Rightarrow> nat \<Rightarrow> 8 word list" where
  "rbsp_from S p = (if length S \<le> p then [] else if emul S p then rbsp_from S (Suc p)
     else S ! p # rbsp_from S (Suc p))"
  by pat_completeness auto
termination by (relation "measure (\<lambda>(S, p). length S - p)") auto

declare rbsp_from.simps [simp del]

lemma length_rbsp_from: "length (rbsp_from S p) \<le> length S - p"
proof (induction S p rule: rbsp_from.induct)
  case (1 S p)
  then show ?case by (subst rbsp_from.simps) auto
qed

lemma rbsp_from_end [simp]: "length S \<le> p \<Longrightarrow> rbsp_from S p = []"
  by (simp add: rbsp_from.simps)

lemma rbsp_from_emul: "emul S p \<Longrightarrow> rbsp_from S p = rbsp_from S (Suc p)"
  by (subst rbsp_from.simps) (simp add: emul_def)

lemma rbsp_from_byte: "\<not> emul S p \<Longrightarrow> p < length S \<Longrightarrow> rbsp_from S p = S ! p # rbsp_from S (Suc p)"
  by (subst rbsp_from.simps) simp

lemma not_emul_after: "emul S p \<Longrightarrow> \<not> emul S (Suc p)"
  by (auto simp: emul_def)

text \<open>Looking back in the stream finds the same bytes as counting zeros.\<close>

lemma unescape_rbsp_from:
  assumes "p \<le> length S" "2 \<le> z \<longleftrightarrow> 2 \<le> p \<and> S ! (p - 2) = 0 \<and> S ! (p - 1) = 0"
    "1 \<le> z \<longleftrightarrow> 1 \<le> p \<and> S ! (p - 1) = 0"
  shows "unescape z (drop p S) = rbsp_from S p"
  using assms
proof (induction "length S - p" arbitrary: p z)
  case (Suc m)
  then have p: "p < length S" by simp
  then have d: "drop p S = S ! p # drop (Suc p) S" by (simp add: Cons_nth_drop_Suc)
  have m: "m = length S - Suc p" using Suc(2) by simp
  show ?case
  proof (cases "2 \<le> z \<and> S ! p = 3")
    case True
    then have "emul S p" using Suc.prems p by (simp add: emul_def)
    moreover have "unescape 0 (drop (Suc p) S) = rbsp_from S (Suc p)"
      by (rule Suc(1)[OF m]) (use True p in auto)
    ultimately show ?thesis using True d by (simp add: rbsp_from_emul)
  next
    case False
    then have "\<not> emul S p" using Suc.prems by (auto simp: emul_def)
    moreover have "unescape (if S ! p = 0 then Suc z else 0) (drop (Suc p) S) = rbsp_from S (Suc p)"
      by (rule Suc(1)[OF m]) (use Suc.prems p in auto)
    ultimately show ?thesis using False d p by (auto simp: rbsp_from_byte)
  qed
qed auto

lemma rbsp_from_0: "rbsp_from S 0 = unescape 0 S"
  using unescape_rbsp_from[of 0 S 0] by simp

text \<open>The bytes of the NAL unit, and the bits left to read.\<close>

definition sd_bytes :: "strm_data \<Rightarrow> 8 word list" where
  "sd_bytes s = take (sd_data_size s) (sd_buf s)"

definition sd_rest :: "strm_data \<Rightarrow> bits" where
  "sd_rest s = drop (sd_bit_pos s) (bits_of (rbsp_from (sd_bytes s) (sd_pos s)))"

definition strm_ok :: "strm_data \<Rightarrow> bool" where
  "strm_ok s = (\<not> sd_remove_emul3 s \<and> \<not> sd_dangling s \<and> sd_bit_pos s < 8
     \<and> sd_read_bits s = 8 * sd_pos s + sd_bit_pos s \<and> sd_pos s \<le> sd_data_size s
     \<and> (sd_pos s = sd_data_size s \<longrightarrow> sd_bit_pos s = 0)
     \<and> sd_data_size s \<le> length (sd_buf s) \<and> 2 \<le> length (sd_buf s) \<and> sd_data_size s < 2 ^ 28
     \<and> \<not> emul (sd_bytes s) (sd_pos s))"

text \<open>No start code prefix in the NAL unit.\<close>

definition no_start_code :: "8 word list \<Rightarrow> bool" where
  "no_start_code S = (\<forall>p. p + 2 < length S \<longrightarrow> S ! p = 0 \<longrightarrow> S ! (p + 1) = 0 \<longrightarrow> 1 < S ! (p + 2))"

lemma u32_id [simp]: "x < 4294967296 \<Longrightarrow> u32 x = x"
  by (simp add: u32_def)

lemma i32_id: "- (2 ^ 31) \<le> x \<Longrightarrow> x < 2 ^ 31 \<Longrightarrow> i32 x = x"
  unfolding i32_def by (rule signed_take_bit_int_eq_self) simp_all

lemma length_sd_bytes: "strm_ok s \<Longrightarrow> length (sd_bytes s) = sd_data_size s"
  by (simp add: strm_ok_def sd_bytes_def)

lemma at_emulation_is:
  assumes "p < sd_data_size s" "sd_data_size s \<le> length (sd_buf s)" "r = 8 * p"
  shows "at_emulation s p r = Some (emul (sd_bytes s) p)"
  using assms by (auto simp: at_emulation_def read_byte_def emul_def sd_bytes_def)

lemma at_start_code_is:
  assumes "bl = sd_data_size s - p" "sd_data_size s \<le> length (sd_buf s)" "no_start_code (sd_bytes s)"
  shows "at_start_code s p bl = Some False"
  using assms(1,2) assms(3)[unfolded no_start_code_def, rule_format, of p]
  by (auto simp: at_start_code_def read_byte_def sd_bytes_def not_le)

subsection \<open>ShowBits\<close>

text \<open>out holds the bits bs from the top, padded with zeros and cut to 32.\<close>

definition holds :: "bits \<Rightarrow> 32 word \<Rightarrow> bool" where
  "holds bs out = (\<forall>i < 32. bit out (31 - i) = (i < length bs \<and> bs ! i))"

lemma holds_byte:
  assumes "holds bs out" "length bs \<le> 31"
  shows "holds (bs @ byte_bits c) (out OR (if length bs \<le> 24 then push_bit (24 - length bs) (ucast c)
    else drop_bit (length bs - 24) (ucast c)))"
  unfolding holds_def
proof (intro allI impI)
  fix i :: nat assume i: "i < 32"
  have o: "bit out (31 - i) = (i < length bs \<and> bs ! i)" using assms(1) i by (simp add: holds_def)
  show "bit (out OR (if length bs \<le> 24 then push_bit (24 - length bs) (ucast c)
    else drop_bit (length bs - 24) (ucast c))) (31 - i)
    = (i < length (bs @ byte_bits c) \<and> (bs @ byte_bits c) ! i)"
  proof (cases "i < length bs")
    case True
    have "\<not> bit c (31 - i - (24 - length bs))" if "length bs \<le> 24"
      using bit_imp_le_length[of c "31 - i - (24 - length bs)"] True that i by auto
    moreover have "\<not> bit c (length bs - 24 + (31 - i))" if "24 < length bs"
      using bit_imp_le_length[of c "length bs - 24 + (31 - i)"] True that i assms(2) by auto
    ultimately show ?thesis using True o i assms(2) by (auto simp: nth_append bit_simps)
  next
    case False
    show ?thesis
    proof (cases "length bs \<le> 24")
      case True
      have "31 - i - (24 - length bs) = 7 - (i - length bs)" if "i < length bs + 8" using True that False by simp
      then show ?thesis using True False o i by (auto simp: nth_append bit_simps)
    next
      case F: False
      have "length bs - 24 + (31 - i) = 7 - (i - length bs)" using False F i by simp
      then show ?thesis using F False o i assms(2) by (auto simp: nth_append bit_simps)
    qed
  qed
qed

lemma holds_top:
  assumes "holds bs out" "n \<le> 32" "n \<le> length bs \<or> r = []"
  shows "top_bits n out = take n (bs @ r @ replicate n False)"
proof (rule nth_equalityI)
  fix i assume i: "i < length (top_bits n out)"
  then have "bit out (31 - i) = (i < length bs \<and> bs ! i)" using assms(1,2) by (simp add: holds_def)
  then show "top_bits n out ! i = take n (bs @ r @ replicate n False) ! i"
    using i assms(2,3) by (auto simp: nth_append)
qed simp

lemma low_bits_drop: "n \<le> 32 \<Longrightarrow> low_bits n (drop_bit (32 - n) (out :: 32 word)) = top_bits n out"
  by (rule nth_equalityI) (auto simp: bit_simps)

lemma show_loop_holds:
  assumes "holds bs out" "length bs < 40" "num_bits \<le> 32" "p \<le> sd_data_size s"
    and sz: "sd_data_size s \<le> length (sd_buf s)" "sd_data_size s < 2 ^ 28"
    and "bits = 8 * (int (sd_data_size s) - int p)" "r = 8 * p"
  shows "\<exists>out'. show_loop s num_bits p out (length bs) bits r = Some out'
    \<and> top_bits num_bits out' = take num_bits (bs @ bits_of (rbsp_from (sd_bytes s) p) @ replicate num_bits False)"
  using assms(1-4,7-)
proof (induction "num_bits - length bs" arbitrary: bs out p bits r rule: less_induct)
  case less
  have len: "length (sd_bytes s) = sd_data_size s" using sz by (simp add: sd_bytes_def)
  show ?case
  proof (cases "bits \<noteq> 0 \<and> length bs < num_bits")
    case False
    then have "num_bits \<le> length bs \<or> bits_of (rbsp_from (sd_bytes s) p) = []"
      using less.prems len by auto
    then have "top_bits num_bits out
        = take num_bits (bs @ bits_of (rbsp_from (sd_bytes s) p) @ replicate num_bits False)"
      by (rule holds_top[OF less.prems(1,3)])
    moreover have "show_loop s num_bits p out (length bs) bits r = Some out"
      using False by (subst show_loop.simps) auto
    ultimately show ?thesis by blast
  next
    case True
    then have p: "p < sd_data_size s" using less.prems by auto
    define e where "e = emul (sd_bytes s) p"
    define q where "q = (if e then Suc p else p)"
    have em: "at_emulation s p r = Some e"
      unfolding e_def by (rule at_emulation_is) (use p sz less.prems in auto)
    have rq: "rbsp_from (sd_bytes s) p = rbsp_from (sd_bytes s) q" and ne: "\<not> emul (sd_bytes s) q"
      using rbsp_from_emul[of "sd_bytes s" p] not_emul_after[of "sd_bytes s" p] by (auto simp: q_def e_def)
    have ql: "q \<le> sd_data_size s" using p by (simp add: q_def)
    have rr: "(if e then u32 (r + 8) else r) = 8 * q" using less.prems p sz(2) by (simp add: q_def)
    have bb: "(if e then bits - 8 else bits) = 8 * (int (sd_data_size s) - int q)"
      using less.prems by (simp add: q_def)
    show ?thesis
    proof (cases "q = sd_data_size s")
      case Q: True
      then have e: "e" using p by (auto simp: q_def split: if_splits)
      have "bits - 8 \<le> 0" using bb e Q by simp
      then have "show_loop s num_bits p out (length bs) bits r = Some out"
        using True em e by (simp add: show_loop.simps[of s num_bits p])
      moreover have "rbsp_from (sd_bytes s) p = []" using rq Q len by simp
      ultimately show ?thesis using holds_top[OF less.prems(1,3), of "[]"] by simp
    next
      case False
      then have q: "q < sd_data_size s" using ql by simp
      define c where "c = sd_buf s ! q"
      have rd: "read_byte s q = Some c" using q sz by (simp add: read_byte_def c_def)
      have byte: "rbsp_from (sd_bytes s) p = c # rbsp_from (sd_bytes s) (Suc q)"
        using rbsp_from_byte[OF ne] q len rq by (simp add: c_def sd_bytes_def)
      have go: "\<not> (e \<and> (if e then bits - 8 else bits) \<le> 0)" using bb q by simp
      let ?out = "out OR (if length bs \<le> 24 then push_bit (24 - length bs) (ucast c)
        else drop_bit (length bs - 24) (ucast c))"
      have b8: "(if e then bits - 8 else bits) - 8 = 8 * (int (sd_data_size s) - int (Suc q))"
        using bb by simp
      have r8: "u32 ((if e then u32 (r + 8) else r) + 8) = 8 * Suc q" using rr q sz(2) by simp
      have pq: "(if e then p + 1 else p) = q" by (simp add: q_def)
      have step: "show_loop s num_bits p out (length bs) bits r
        = show_loop s num_bits (Suc q) ?out (length (bs @ byte_bits c))
            (8 * (int (sd_data_size s) - int (Suc q))) (8 * Suc q)"
        by (subst show_loop.simps) (simp only: True[THEN conjunct1] True[THEN conjunct2] em rd pq b8 r8 go
          simp_thms if_True if_False bind.bind_lunit Let_def length_append length_byte_bits Suc_eq_plus1)
      have "\<exists>out'. show_loop s num_bits (Suc q) ?out (length (bs @ byte_bits c))
            (8 * (int (sd_data_size s) - int (Suc q))) (8 * Suc q) = Some out'
        \<and> top_bits num_bits out' = take num_bits ((bs @ byte_bits c)
            @ bits_of (rbsp_from (sd_bytes s) (Suc q)) @ replicate num_bits False)"
        by (rule less.hyps) (use True less.prems q holds_byte[OF less.prems(1), of c] in auto)
      then show ?thesis using step byte by simp
    qed
  qed
qed

lemma turn_around_is:
  assumes "strm_ok s" "n \<le> 193 \<or> 2 \<le> sd_pos s"
  shows "turn_around s n = Some (sd_pos s < 2)"
proof -
  define left where "left = 8 * sd_data_size s - sd_read_bits s"
  define m where "m = min left (u32 (n + sd_bit_pos s + 32))"
  have ok: "sd_bit_pos s < 8" "sd_read_bits s = 8 * sd_pos s + sd_bit_pos s" "sd_pos s \<le> sd_data_size s" "sd_pos s = sd_data_size s \<Longrightarrow> sd_bit_pos s = 0"
    "sd_data_size s \<le> length (sd_buf s)" "2 \<le> length (sd_buf s)" "sd_data_size s < 2 ^ 28"
    using assms(1) by (auto simp: strm_ok_def)
  have le: "sd_read_bits s \<le> 8 * sd_data_size s" using ok(1-4) by (cases "sd_pos s = sd_data_size s") auto
  then have "8 * int (sd_data_size s) - int (sd_read_bits s) = int left" "left < 2 ^ 31" using ok(7) by (simp_all add: left_def)
  then have call: "turn_around s n = SwTurnAround s m" by (simp add: turn_around_def m_def)
  have m: "m \<le> left" "m < 2 ^ 31" using \<open>left < 2 ^ 31\<close> by (simp_all add: m_def)
  then have u: "u32 (m + 7) = m + 7" by simp
  have fits: "sd_pos s + (m + 7) div 8 \<le> length (sd_buf s)"
    using m(1) ok(2,3,5) by (simp add: left_def)
  have "2 + sd_pos s + (m + 7) div 8 \<le> 32" if "sd_pos s < 2"
  proof -
    have "n \<le> 193" using that assms(2) by simp
    then have "u32 (n + sd_bit_pos s + 32) \<le> n + 39" using ok(1) by simp
    then have "(m + 7) div 8 \<le> 29" using \<open>n \<le> 193\<close> by (simp add: m_def)
    then show ?thesis using that by simp
  qed
  then show ?thesis using fits ok(6) by (cases "sd_pos s < 2") (simp_all add: call SwTurnAround_def u)
qed

lemma ShowBits_rest:
  assumes "strm_ok s" "0 < n" "n \<le> 32"
  shows "\<exists>out. h264bsdShowBits s n = Some out \<and> low_bits n out = take n (sd_rest s @ replicate n False)"
proof -
  let ?S = "sd_bytes s" and ?p = "sd_pos s" and ?o = "sd_bit_pos s"
  have ok: "\<not> sd_remove_emul3 s" "\<not> sd_dangling s" "?o < 8" "sd_read_bits s = 8 * ?p + ?o"
    "?p \<le> sd_data_size s" "?p = sd_data_size s \<Longrightarrow> ?o = 0"
    "sd_data_size s \<le> length (sd_buf s)" "sd_data_size s < 2 ^ 28" "\<not> emul ?S ?p"
    using assms(1) by (auto simp: strm_ok_def)
  have len: "length ?S = sd_data_size s" using length_sd_bytes[OF assms(1)] .
  have pre: "strm_pre s" "turn_around s n \<noteq> None" using ok turn_around_is[of s n] assms by (simp_all add: strm_pre_def)
  have bits: "i32 (8 * int (sd_data_size s) - int (sd_read_bits s)) = 8 * (int (sd_data_size s) - int ?p) - int ?o"
    using ok by (subst i32_id) auto
  have fin: "low_bits n (drop_bit (32 - n) out) = take n (sd_rest s @ replicate n False)"
    if "top_bits n out = take n (sd_rest s @ replicate n False)" for out
    using that low_bits_drop[OF assms(3)] by simp
  show ?thesis
  proof (cases "8 * (int (sd_data_size s) - int ?p) - int ?o = 0")
    case True
    then have "?p = sd_data_size s" using ok(3,5) by presburger
    then have "sd_rest s = []" using len by (simp add: sd_rest_def)
    moreover have "low_bits n (0 :: 32 word) = take n (replicate n False)"
      by (rule nth_equalityI) auto
    ultimately show ?thesis using True pre assms(3) bits by (simp add: h264bsdShowBits_def)
  next
    case False
    show ?thesis
    proof (cases "?o = 0")
      case True
      have "\<exists>out'. show_loop s n ?p 0 (length ([] :: bits)) (8 * (int (sd_data_size s) - int ?p)) (8 * ?p) = Some out'
        \<and> top_bits n out' = take n ([] @ bits_of (rbsp_from ?S ?p) @ replicate n False)"
        by (rule show_loop_holds) (use assms(3) ok in \<open>auto simp: holds_def\<close>)
      then show ?thesis using True False pre assms(2,3) bits ok(1,4) fin
        by (auto simp: h264bsdShowBits_def sd_rest_def)
    next
      case O: False
      then have p: "?p < sd_data_size s" using ok by (metis le_neq_implies_less)
      define c where "c = sd_buf s ! ?p"
      have rd: "read_byte s ?p = Some c" using p ok(7) by (simp add: read_byte_def c_def)
      have byte: "rbsp_from ?S ?p = c # rbsp_from ?S (Suc ?p)"
        using rbsp_from_byte[OF ok(9)] p len by (simp add: c_def sd_bytes_def)
      let ?bs = "drop ?o (byte_bits c)" and ?out = "push_bit (24 + ?o) (ucast c) :: 32 word"
      have holds: "holds ?bs ?out"
        unfolding holds_def
      proof (intro allI impI)
        fix i :: nat assume i: "i < 32"
        show "bit ?out (31 - i) = (i < length ?bs \<and> ?bs ! i)"
        proof (cases "i < 8 - ?o")
          case True
          then have "31 - i - (24 + ?o) = 7 - (?o + i)" by simp
          with True ok(3) show ?thesis by (auto simp: bit_simps)
        qed (use ok(3) in \<open>auto simp: bit_simps\<close>)
      qed
      have "\<exists>out'. show_loop s n (Suc ?p) ?out (length ?bs)
          (8 * (int (sd_data_size s) - int (Suc ?p))) (8 * Suc ?p) = Some out'
        \<and> top_bits n out' = take n (?bs @ bits_of (rbsp_from ?S (Suc ?p)) @ replicate n False)"
        by (rule show_loop_holds) (use assms(3) ok p holds in auto)
      then obtain out' where out': "show_loop s n (Suc ?p) ?out (length ?bs)
          (8 * (int (sd_data_size s) - int (Suc ?p))) (8 * Suc ?p) = Some out'"
        "top_bits n out' = take n (?bs @ bits_of (rbsp_from ?S (Suc ?p)) @ replicate n False)" by blast
      have "sd_rest s = ?bs @ bits_of (rbsp_from ?S (Suc ?p))"
        using byte ok(3) by (simp add: sd_rest_def)
      then have top: "top_bits n out' = take n (sd_rest s @ replicate n False)" using out'(2) by simp
      have "8 * (int (sd_data_size s) - int ?p) - int ?o - int (8 - ?o)
          = 8 * (int (sd_data_size s) - int (Suc ?p))" using ok(3) by simp
      moreover have "u32 (sd_read_bits s + (8 - ?o)) = 8 * Suc ?p" using ok(3,4,8) p by simp
      ultimately have "h264bsdShowBits s n = Some (drop_bit (32 - n) out')"
        unfolding h264bsdShowBits_def Let_def bits using out'(1) O False pre assms(2,3) ok(1) rd
        by (simp only: simp_thms if_True if_False bind.bind_lunit length_drop length_byte_bits Suc_eq_plus1) simp
      then show ?thesis using fin[OF top] by simp
    qed
  qed
qed

subsection \<open>FlushBits\<close>

lemma skip_emulation_is:
  assumes "p \<le> sd_data_size s" "sd_data_size s \<le> length (sd_buf s)" "sd_data_size s < 2 ^ 28"
    and "sd_read_bits s = 8 * p" "bl = sd_data_size s - p"
  shows "\<exists>q ec. skip_emulation s p bl = Some (s\<lparr>sd_read_bits := 8 * q, sd_emul_count := ec\<rparr>, q, sd_data_size s - q)
    \<and> p \<le> q \<and> q \<le> sd_data_size s \<and> \<not> emul (sd_bytes s) q
    \<and> rbsp_from (sd_bytes s) p = rbsp_from (sd_bytes s) q"
proof (cases "p = sd_data_size s")
  case True
  then have "skip_emulation s p bl = Some (s, p, bl)" using assms by (simp add: skip_emulation_def)
  moreover have "\<not> emul (sd_bytes s) p" using True assms by (simp add: emul_def sd_bytes_def)
  moreover have "s = s\<lparr>sd_read_bits := 8 * p, sd_emul_count := sd_emul_count s\<rparr>" using assms(4) by simp
  ultimately show ?thesis using assms by (metis order_refl)
next
  case False
  then have p: "p < sd_data_size s" using assms(1) by simp
  have em: "at_emulation s p (8 * p) = Some (emul (sd_bytes s) p)"
    by (rule at_emulation_is[OF p assms(2)]) simp
  show ?thesis
  proof (cases "emul (sd_bytes s) p")
    case True
    then have "2 \<le> p" by (simp add: emul_def)
    then have "skip_emulation s p bl = Some (s\<lparr>sd_read_bits := 8 * Suc p,
        sd_emul_count := u32 (sd_emul_count s + 1)\<rparr>, Suc p, sd_data_size s - Suc p)"
      using assms p em True by (simp add: skip_emulation_def)
    then show ?thesis using p rbsp_from_emul[OF True] not_emul_after[OF True] by fastforce
  next
    case F: False
    have "skip_emulation s p bl = Some (s, p, bl)" using assms p em F by (simp add: skip_emulation_def)
    moreover have "s = s\<lparr>sd_read_bits := 8 * p, sd_emul_count := sd_emul_count s\<rparr>" using assms(4) by simp
    ultimately show ?thesis using assms F by (metis order_refl)
  qed
qed

text \<open>The loop skips whole bytes; n' bits of the request are left.\<close>

lemma flush_loop_is:
  assumes "no_start_code (sd_bytes s)"
    and "p \<le> sd_data_size s" "sd_data_size s \<le> length (sd_buf s)" "sd_data_size s < 2 ^ 28"
    and "sd_read_bits s = 8 * p" "bl = sd_data_size s - p" "\<not> emul (sd_bytes s) p"
  shows "\<exists>q ec n'. flush_loop s p n bl
      = Some (Inr (s\<lparr>sd_read_bits := 8 * q, sd_emul_count := ec\<rparr>, q, n', sd_data_size s - q))
    \<and> q \<le> sd_data_size s \<and> \<not> emul (sd_bytes s) q \<and> (n' < 8 \<or> q = sd_data_size s)
    \<and> n' \<le> n \<and> 8 * length (rbsp_from (sd_bytes s) p) = 8 * length (rbsp_from (sd_bytes s) q) + (n - n')
    \<and> bits_of (rbsp_from (sd_bytes s) q) = drop (n - n') (bits_of (rbsp_from (sd_bytes s) p))"
  using assms
proof (induction n arbitrary: s p bl rule: less_induct)
  case (less n)
  have len: "length (sd_bytes s) = sd_data_size s" using less.prems(3) by (simp add: sd_bytes_def)
  show ?case
  proof (cases "8 \<le> n \<and> bl \<noteq> 0")
    case False
    then have "flush_loop s p n bl = Some (Inr (s, p, n, bl))" by (subst flush_loop.simps) auto
    moreover have "s = s\<lparr>sd_read_bits := 8 * p, sd_emul_count := sd_emul_count s\<rparr>" using less.prems by simp
    moreover have "n < 8 \<or> p = sd_data_size s" using False less.prems by auto
    ultimately show ?thesis using less.prems
      by (intro exI[of _ p] exI[of _ "sd_emul_count s"] exI[of _ n]) auto
  next
    case True
    then have p: "p < sd_data_size s" using less.prems(6) by simp
    define s1 where "s1 = s\<lparr>sd_read_bits := 8 * Suc p\<rparr>"
    have s1: "sd_bytes s1 = sd_bytes s" "sd_data_size s1 = sd_data_size s" "sd_buf s1 = sd_buf s"
      "sd_read_bits s1 = 8 * Suc p" by (simp_all add: s1_def sd_bytes_def)
    have sc: "at_start_code s p bl = Some False"
      by (rule at_start_code_is[OF less.prems(6,3,1)])
    have u: "s\<lparr>sd_read_bits := u32 (sd_read_bits s + 8)\<rparr> = s1" using less.prems(4,5) p by (simp add: s1_def)
    obtain q ec where sk: "skip_emulation s1 (Suc p) (bl - 1)
        = Some (s1\<lparr>sd_read_bits := 8 * q, sd_emul_count := ec\<rparr>, q, sd_data_size s1 - q)"
      "Suc p \<le> q" "q \<le> sd_data_size s" "\<not> emul (sd_bytes s) q"
      "rbsp_from (sd_bytes s) (Suc p) = rbsp_from (sd_bytes s) q"
      using skip_emulation_is[of "Suc p" s1 "bl - 1"] p less.prems(3,4,6) s1 by auto
    define s2 where "s2 = s1\<lparr>sd_read_bits := 8 * q, sd_emul_count := ec\<rparr>"
    have s2: "sd_bytes s2 = sd_bytes s" "sd_data_size s2 = sd_data_size s" "sd_buf s2 = sd_buf s"
      "sd_read_bits s2 = 8 * q" by (simp_all add: s2_def s1_def sd_bytes_def)
    have step: "flush_loop s p n bl = flush_loop s2 q (n - 8) (sd_data_size s - q)"
      using True sc u sk(1) s1(2) by (subst flush_loop.simps) (simp add: s2_def)
    have byte: "rbsp_from (sd_bytes s) p = sd_bytes s ! p # rbsp_from (sd_bytes s) q"
      using rbsp_from_byte[OF less.prems(7)] p len sk(5) by simp
    obtain q' ec' n' where r: "flush_loop s2 q (n - 8) (sd_data_size s2 - q)
        = Some (Inr (s2\<lparr>sd_read_bits := 8 * q', sd_emul_count := ec'\<rparr>, q', n', sd_data_size s - q'))"
      "q' \<le> sd_data_size s" "\<not> emul (sd_bytes s) q'" "n' < 8 \<or> q' = sd_data_size s" "n' \<le> n - 8"
      "8 * length (rbsp_from (sd_bytes s) q) = 8 * length (rbsp_from (sd_bytes s) q') + (n - 8 - n')"
      "bits_of (rbsp_from (sd_bytes s) q') = drop (n - 8 - n') (bits_of (rbsp_from (sd_bytes s) q))"
      using less.IH[of "n - 8" s2 q "sd_data_size s2 - q"] less.prems(1,3,4) True s2 sk(3,4)
      by (auto simp: s2)
    have upd: "s2\<lparr>sd_read_bits := 8 * q', sd_emul_count := ec'\<rparr>
        = s\<lparr>sd_read_bits := 8 * q', sd_emul_count := ec'\<rparr>" by (simp add: s2_def s1_def)
    have e: "n - n' = 8 + (n - 8 - n')" using True[THEN conjunct1] r(5) by arith
    show ?thesis
    proof (intro exI conjI)
      show "flush_loop s p n bl = Some (Inr (s\<lparr>sd_read_bits := 8 * q', sd_emul_count := ec'\<rparr>,
        q', n', sd_data_size s - q'))"
        unfolding step by (rule r(1)[unfolded s2(2) upd])
      show "8 * length (rbsp_from (sd_bytes s) p) = 8 * length (rbsp_from (sd_bytes s) q') + (n - n')"
        unfolding byte list.size e distrib_left r(6) by simp
      show "bits_of (rbsp_from (sd_bytes s) q') = drop (n - n') (bits_of (rbsp_from (sd_bytes s) p))"
        unfolding byte e bits_of_simps(2) using r(7) by simp
      show "n' \<le> n" using r(5) by simp
    qed (fact r(2-4))+
  qed
qed

lemma strm_okD:
  assumes "strm_ok s"
  shows "strm_pre s" "\<not> sd_remove_emul3 s" "sd_bit_pos s < 8" "sd_read_bits s = 8 * sd_pos s + sd_bit_pos s"
    "sd_pos s \<le> sd_data_size s" "sd_pos s = sd_data_size s \<Longrightarrow> sd_bit_pos s = 0"
    "sd_data_size s \<le> length (sd_buf s)" "sd_data_size s < 2 ^ 28" "\<not> emul (sd_bytes s) (sd_pos s)"
    "length (sd_bytes s) = sd_data_size s" "u32 (8 * sd_data_size s) = 8 * sd_data_size s"
  using assms length_sd_bytes[OF assms] by (auto simp: strm_ok_def strm_pre_def)

text \<open>The result of a flush of n bits of rest: enough bits or the end of the stream.\<close>

definition flushed :: "strm_data \<Rightarrow> nat \<Rightarrow> bits \<Rightarrow> 32 word \<times> strm_data \<Rightarrow> bool" where
  "flushed s n rest r = (strm_ok (snd r) \<and> sd_bytes (snd r) = sd_bytes s \<and> sd_rest (snd r) = drop n rest
     \<and> fst r = (if n \<le> length rest then HANTRO_OK else END_OF_STREAM))"

lemma flush_aligned_is:
  assumes nsc: "no_start_code (sd_bytes s)"
    and p: "p \<le> sd_data_size s" "sd_data_size s \<le> length (sd_buf s)" "sd_data_size s < 2 ^ 28"
    and st: "sd_read_bits s = 8 * p" "bl = sd_data_size s - p" "\<not> emul (sd_bytes s) p" "2 \<le> length (sd_buf s)"
    and fl: "sd_bit_pos s = 0" "\<not> sd_remove_emul3 s" "\<not> sd_dangling s"
  shows "\<exists>r. flush_aligned turn s p n bl = Some r \<and> flushed s n (bits_of (rbsp_from (sd_bytes s) p)) r"
proof -
  let ?S = "sd_bytes s"
  have len: "length ?S = sd_data_size s" using p(2) by (simp add: sd_bytes_def)
  obtain q ec n' where r: "flush_loop s p n bl
      = Some (Inr (s\<lparr>sd_read_bits := 8 * q, sd_emul_count := ec\<rparr>, q, n', sd_data_size s - q))"
    "q \<le> sd_data_size s" "\<not> emul ?S q" "n' < 8 \<or> q = sd_data_size s" "n' \<le> n"
    "8 * length (rbsp_from ?S p) = 8 * length (rbsp_from ?S q) + (n - n')"
    "bits_of (rbsp_from ?S q) = drop (n - n') (bits_of (rbsp_from ?S p))"
    using flush_loop_is[OF nsc p st(1-3)] by blast
  let ?s = "s\<lparr>sd_read_bits := 8 * q, sd_emul_count := ec\<rparr>"
  have drop: "drop n' (bits_of (rbsp_from ?S q)) = drop n (bits_of (rbsp_from ?S p))"
    using r(5) by (simp add: r(7))
  show ?thesis
  proof (cases "n' \<noteq> 0 \<and> sd_data_size s - q \<noteq> 0")
    case True
    then have q: "q < sd_data_size s" "n' < 8" using r(4) by auto
    have "at_start_code ?s q (sd_data_size s - q) = Some False"
      by (rule at_start_code_is) (use p nsc in \<open>auto simp: sd_bytes_def\<close>)
    then have "flush_aligned turn s p n bl
        = Some (HANTRO_OK, ?s\<lparr>sd_read_bits := 8 * q + n', sd_bit_pos := n', sd_pos := q\<rparr>)"
      using r(1) True q p(3) by (simp add: flush_aligned_def)
    moreover have "n \<le> length (bits_of (rbsp_from ?S p))"
      using r(5,6) rbsp_from_byte[OF r(3)] q len by simp
    ultimately show ?thesis using q p r(3) fl drop st(4)
      by (auto simp: flushed_def strm_ok_def sd_bytes_def sd_rest_def)
  next
    case False
    then have "flush_aligned turn s p n bl
        = Some (if n' \<noteq> 0 then END_OF_STREAM else HANTRO_OK, ?s\<lparr>sd_pos := q\<rparr>)"
      using r(1) by (auto simp: flush_aligned_def)
    moreover have "n \<le> length (bits_of (rbsp_from ?S p)) \<longleftrightarrow> n' = 0"
      using r(2,5,6) False len by auto
    moreover have "drop n' (bits_of (rbsp_from ?S q)) = bits_of (rbsp_from ?S q)"
      using False r(2) len by auto
    ultimately show ?thesis using r(2,3) p fl drop st(4)
      by (auto simp: flushed_def strm_ok_def sd_bytes_def sd_rest_def)
  qed
qed

lemma FlushBits_rest:
  assumes ok: "strm_ok s" and nsc: "no_start_code (sd_bytes s)" and n: "n < 2 ^ 31" "n \<le> 193 \<or> 2 \<le> sd_pos s"
  shows "\<exists>r. h264bsdFlushBits s n = Some r \<and> flushed s n (sd_rest s) r"
proof -
  note d = strm_okD[OF ok]
  let ?S = "sd_bytes s" and ?p = "sd_pos s" and ?o = "sd_bit_pos s"
  note turn = turn_around_is[OF ok n(2)]
  have rdn: "u32 (sd_read_bits s + n) = sd_read_bits s + n" using d n by simp
  have restlen: "length (sd_rest s) + sd_read_bits s \<le> 8 * sd_data_size s"
  proof (cases "?p = sd_data_size s")
    case False
    then have "length (rbsp_from ?S ?p) = Suc (length (rbsp_from ?S (Suc ?p)))"
      using rbsp_from_byte[OF d(9)] d(5,10) by simp
    then show ?thesis using length_rbsp_from[of ?S ?p] d(3,4,5,10) by (simp add: sd_rest_def)
  qed (use d(4,6,10) in \<open>simp add: sd_rest_def\<close>)
  consider (over) "sd_read_bits s + n > 8 * sd_data_size s"
    | (within) "sd_read_bits s + n \<le> 8 * sd_data_size s" "?o \<noteq> 0" "n < 8 - ?o"
    | (across) "sd_read_bits s + n \<le> 8 * sd_data_size s" "?o \<noteq> 0" "8 - ?o \<le> n"
    | (aligned) "sd_read_bits s + n \<le> 8 * sd_data_size s" "?o = 0"
    by linarith
  then show ?thesis
  proof cases
    case over
    let ?s = "s\<lparr>sd_read_bits := 8 * sd_data_size s, sd_bit_pos := 0, sd_pos := sd_data_size s\<rparr>"
    have "h264bsdFlushBits s n = Some (END_OF_STREAM, ?s)"
      using over d(1,2,11) rdn turn by (simp add: h264bsdFlushBits_def)
    moreover have "\<not> n \<le> length (sd_rest s)" using over restlen by linarith
    moreover have "strm_ok ?s" using ok by (auto simp: strm_ok_def sd_bytes_def emul_def)
    moreover have "sd_bytes ?s = ?S" by (simp add: sd_bytes_def)
    moreover have "sd_rest ?s = []" using d(10) by (simp add: sd_rest_def sd_bytes_def)
    ultimately show ?thesis by (simp add: flushed_def)
  next
    case within
    then have p: "?p < sd_data_size s" using d(5,6) by linarith
    let ?s = "s\<lparr>sd_read_bits := sd_read_bits s + n, sd_bit_pos := ?o + n\<rparr>"
    have "h264bsdFlushBits s n = Some (HANTRO_OK, ?s)"
      using within d(1,2,11) rdn turn by (simp add: h264bsdFlushBits_def)
    moreover have "n \<le> length (sd_rest s)"
      using within rbsp_from_byte[OF d(9)] p d(10) by (simp add: sd_rest_def)
    moreover have "strm_ok ?s" using ok within p by (auto simp: strm_ok_def sd_bytes_def)
    moreover have "sd_bytes ?s = ?S" "sd_rest ?s = drop n (sd_rest s)"
      by (simp_all add: sd_bytes_def sd_rest_def add.commute)
    ultimately show ?thesis by (simp add: flushed_def)
  next
    case across
    then have p: "?p < sd_data_size s" using d(5,6) by linarith
    let ?n = "n - (8 - ?o)" and ?bl = "sd_data_size s - Suc ?p"
    let ?s = "s\<lparr>sd_read_bits := 8 * Suc ?p, sd_bit_pos := 0\<rparr>"
    have bl: "u32 (8 * sd_data_size s + 2 ^ 32 - sd_read_bits s) div 8 = ?bl"
    proof -
      have "u32 (8 * sd_data_size s + 2 ^ 32 - sd_read_bits s) = 8 * sd_data_size s - sd_read_bits s"
        using p d(3,4,8) by (simp add: u32_def le_mod_geq)
      moreover have "(8 * a - (8 * p + o')) div 8 = a - Suc p" if lt: "p < a" and o8: "o' < 8" "o' \<noteq> 0" for a p o' :: nat
      proof -
        obtain k where "a = Suc p + k" using less_imp_Suc_add[OF lt] by auto
        then have "8 * a - (8 * p + o') = 8 * k + (8 - o')" "a - Suc p = k" using o8 by simp_all
        moreover have "(8 * k + (8 - o')) div 8 = k" using o8 by simp
        ultimately show ?thesis by simp
      qed
      ultimately show ?thesis using p d(3,4) across(2) by simp
    qed
    have rd8: "u32 (sd_read_bits s + (8 - ?o)) = 8 * Suc ?p" using p d(3,4,8) by simp
    obtain q ec where sk: "skip_emulation ?s (Suc ?p) ?bl
        = Some (?s\<lparr>sd_read_bits := 8 * q, sd_emul_count := ec\<rparr>, q, sd_data_size ?s - q)"
      "Suc ?p \<le> q" "q \<le> sd_data_size ?s" "\<not> emul (sd_bytes ?s) q"
      "rbsp_from (sd_bytes ?s) (Suc ?p) = rbsp_from (sd_bytes ?s) q"
      using skip_emulation_is[of "Suc ?p" ?s ?bl] p d(7,8) by auto
    let ?s' = "?s\<lparr>sd_read_bits := 8 * q, sd_emul_count := ec\<rparr>"
    have S: "sd_bytes ?s = ?S" "sd_bytes ?s' = ?S" by (simp_all add: sd_bytes_def)
    have "h264bsdFlushBits s n = flush_aligned (?p < 2) ?s' q ?n (sd_data_size s - q)"
      using across d(1,2,11) rdn bl rd8 sk(1) turn by (simp add: h264bsdFlushBits_def Let_def)
    moreover obtain r where r: "flush_aligned (?p < 2) ?s' q ?n (sd_data_size s - q) = Some r"
      "flushed ?s' ?n (bits_of (rbsp_from (sd_bytes ?s') q)) r"
      using flush_aligned_is[of ?s' q "sd_data_size s - q" "?p < 2" ?n] nsc sk(3,4) ok d(7,8) S
      by (auto simp: strm_ok_def)
    moreover have "flushed s n (sd_rest s) r"
    proof -
      have rest: "sd_rest s = drop ?o (byte_bits (?S ! ?p)) @ bits_of (rbsp_from ?S q)"
        using rbsp_from_byte[OF d(9)] p d(3,10) sk(5) S by (simp add: sd_rest_def)
      then have "drop n (sd_rest s) = drop ?n (bits_of (rbsp_from ?S q))"
        "n \<le> length (sd_rest s) \<longleftrightarrow> ?n \<le> length (bits_of (rbsp_from ?S q))"
        using across d(3) by auto
      with r(2) S show ?thesis by (simp add: flushed_def)
    qed
    ultimately show ?thesis by auto
  next
    case aligned
    have bl: "u32 (8 * sd_data_size s + 2 ^ 32 - sd_read_bits s) div 8 = sd_data_size s - ?p"
    proof -
      have "u32 (8 * sd_data_size s + 2 ^ 32 - sd_read_bits s) = 8 * sd_data_size s - sd_read_bits s"
        using aligned d(4,8) by (simp add: u32_def le_mod_geq)
      then show ?thesis using aligned d(4) by simp
    qed
    have "h264bsdFlushBits s n = flush_aligned (?p < 2) s ?p n (sd_data_size s - ?p)"
      using aligned d(1,2,11) rdn bl turn by (simp add: h264bsdFlushBits_def Let_def)
    moreover obtain r where r: "flush_aligned (?p < 2) s ?p n (sd_data_size s - ?p) = Some r"
      "flushed s n (bits_of (rbsp_from ?S ?p)) r"
      using flush_aligned_is[of s ?p "sd_data_size s - ?p" "?p < 2" n] nsc d aligned ok
      by (auto simp: strm_ok_def)
    moreover have "sd_rest s = bits_of (rbsp_from ?S ?p)" using aligned by (simp add: sd_rest_def)
    ultimately show ?thesis by auto
  qed
qed

subsection \<open>Properties\<close>

text \<open>A NAL unit in a buffer that is two bytes longer, read from the start\<close>

definition demo_stream :: "8 word list \<Rightarrow> strm_data" where
  "demo_stream S = \<lparr>sd_buf = S @ [0, 0], sd_pos = 0, sd_dangling = False, sd_bit_pos = 0, sd_data_size = length S,
    sd_read_bits = 0, sd_remove_emul3 = False, sd_emul_count = 0\<rparr>"

lemma demo_stream_ok: "length S < 2 ^ 28 \<Longrightarrow> strm_ok (demo_stream S)"
  by (simp add: strm_ok_def demo_stream_def emul_def)

lemma demo_stream_bytes [simp]: "sd_bytes (demo_stream S) = S"
  by (simp add: demo_stream_def sd_bytes_def)

lemma demo_stream_rest: "sd_rest (demo_stream S) = bits_of (unescape 0 S)"
  by (simp add: sd_rest_def demo_stream_def sd_bytes_def rbsp_from_0)

lemma no_start_code_Nil: "length S \<le> 2 \<Longrightarrow> no_start_code S"
  by (simp add: no_start_code_def)

lemma code_free_no_start_code: "code_free 0 S \<Longrightarrow> no_start_code S"
  unfolding no_start_code_def
proof (intro allI impI)
  fix p assume "code_free 0 S" "p + 2 < length S" "S ! p = 0" "S ! (p + 1) = 0"
  then have "3 \<le> S ! (p + 2)" by (rule code_free_nth)
  then show "1 < S ! (p + 2)" by (simp add: word_le_nat_alt word_less_nat_alt)
qed

text \<open>
  C34: h264bsdShowBits returns the next num\_bits payload bits, right aligned, with the
  emulation prevention bytes left out and zeros after the end of the data; it never reads
  outside the buffer.
\<close>

theorem ShowBits_next_bits:
  assumes "strm_ok s" "0 < n" "n \<le> 32"
  shows "\<exists>out. h264bsdShowBits s n = Some out \<and> low_bits n out = take n (sd_rest s @ replicate n False)"
  by (rule ShowBits_rest[OF assms])

theorem ShowBits_next_bits_witness:
  "\<exists>out. h264bsdShowBits (demo_stream [0, 0, 3, 1, 0x80]) 32 = Some out
    \<and> low_bits 32 out = bits_of [0, 0, 1, 0x80]"
  using ShowBits_next_bits[OF demo_stream_ok, of "[0, 0, 3, 1, 0x80]" 32]
  by (simp add: demo_stream_rest)



text \<open>
  in the first two bytes of the buffer, skipping more bits overruns the array tmp\_strm\_buf of 32 bytes.
\<close>

theorem FlushBits_overruns:
  assumes "strm_ok s" "sd_pos s < 2" "32 \<le> sd_data_size s - sd_pos s" "209 \<le> n" "n < 2 ^ 31"
  shows "h264bsdFlushBits s n = None"
proof -
  have ok: "sd_bit_pos s < 8" "sd_read_bits s = 8 * sd_pos s + sd_bit_pos s" "sd_data_size s < 2 ^ 28"
    using assms(1) by (auto simp: strm_ok_def)
  define left where "left = 8 * sd_data_size s - sd_read_bits s"
  define m where "m = min left (u32 (n + sd_bit_pos s + 32))"
  have "sd_read_bits s \<le> 8 * sd_data_size s" "241 \<le> left" using ok(1,2) assms(2,3) unfolding left_def by linarith+
  moreover have "left \<le> 8 * sd_data_size s" by (simp add: left_def)
  ultimately have left: "8 * int (sd_data_size s) - int (sd_read_bits s) = int left" "left < 2 ^ 31" "241 \<le> left"
    using ok(3) by (simp_all add: left_def)
  then have call: "turn_around s n = SwTurnAround s m" by (simp add: turn_around_def m_def)
  have "u32 (n + sd_bit_pos s + 32) = n + sd_bit_pos s + 32" using ok(1) assms(5) by simp
  then have "241 \<le> m" "m < 2 ^ 31" using left assms(4) by (simp_all add: m_def)
  then have "31 \<le> u32 (m + 7) div 8" by simp
  then have "turn_around s n = None" using assms(2) by (auto simp: call SwTurnAround_def Let_def)
  then show ?thesis by (simp add: h264bsdFlushBits_def)
qed

theorem FlushBits_overruns_witness: "h264bsdFlushBits (demo_stream (replicate 40 5)) 256 = None"
  by (rule FlushBits_overruns[OF demo_stream_ok]) (simp_all add: demo_stream_def)

text \<open>
  skipping bits at a start code prefix in the first two bytes of the buffer returns HANTRO\_NOK and
  leaves strm\_curr\_pos pointing into the local copy of the bytes, so the stream can no longer
  be read.
\<close>

theorem FlushBits_dangling:
  assumes "sd_pos s = 0" "sd_read_bits s = 0" "sd_bit_pos s = 0" "\<not> sd_dangling s" "\<not> sd_remove_emul3 s"
    and "3 \<le> sd_data_size s" "sd_data_size s < 2 ^ 28" "sd_data_size s \<le> length (sd_buf s)"
    and "sd_buf s ! 0 = 0" "sd_buf s ! 1 = 0" "sd_buf s ! 2 \<le> 1"
    and "0 < n" "n \<le> 8 * sd_data_size s" "n \<le> 193"
  shows "\<exists>s'. h264bsdFlushBits s n = Some (HANTRO_NOK, s')
    \<and> h264bsdShowBits s' 32 = None \<and> (\<forall>m. h264bsdFlushBits s' m = None)"
proof -
  have pre: "strm_pre s" using assms(2-4) by (simp add: strm_pre_def)
  have turn: "turn_around s n = Some True"
    by (rule turn_around_is[of s n, simplified assms(1), simplified]) (use assms in \<open>auto simp: strm_ok_def emul_def\<close>)
  have sc: "at_start_code s 0 (sd_data_size s) = Some True"
    using assms by (auto simp: at_start_code_def read_byte_def numeral_2_eq_2)
  have bl: "u32 (8 * sd_data_size s + 2 ^ 32 - sd_read_bits s) div 8 = sd_data_size s"
    using assms(2,7) by (simp add: u32_def)
  have "flush_aligned True s 0 n (sd_data_size s) = Some (HANTRO_NOK, s\<lparr>sd_pos := 0, sd_dangling := True\<rparr>)"
  proof (cases "8 \<le> n")
    case True
    then show ?thesis using sc assms(6) by (simp add: flush_aligned_def flush_loop.simps)
  next
    case False
    then show ?thesis using sc assms(6,12) by (simp add: flush_aligned_def flush_loop.simps)
  qed
  then have "h264bsdFlushBits s n = Some (HANTRO_NOK, s\<lparr>sd_pos := 0, sd_dangling := True\<rparr>)"
    using assms(1-5,7,13) pre bl turn by (simp add: h264bsdFlushBits_def Let_def)
  moreover have "\<not> strm_pre (s\<lparr>sd_pos := 0, sd_dangling := True\<rparr>)" by (simp add: strm_pre_def)
  ultimately show ?thesis by (simp add: h264bsdShowBits_def h264bsdFlushBits_def)
qed

theorem FlushBits_dangling_witness:
  "\<exists>s'. h264bsdFlushBits (demo_stream [0, 0, 1, 0x67]) 8 = Some (HANTRO_NOK, s')
    \<and> h264bsdShowBits s' 32 = None"
  using FlushBits_dangling[of "demo_stream [0, 0, 1, 0x67]" 8] by (auto simp: demo_stream_def)

end
