(* ===== verification/PutBits.thy ===== *)
theory PutBits
  imports Bits
begin

text \<open>
  The encoder's bit writer, vc8000e/software/source/common/sw\_put\_bits.c: a 32-bit cache
  that is flushed to the stream byte by byte, with emulation prevention bytes put in, and
  the Exp-Golomb codes written through it.

  The stream pointer only moves forward, so the stream is the list of the bytes written.
  A failed ASSERT and signed overflow are None. The trace calls (TEST\_DATA) are left out.
\<close>

subsection \<open>The buffer\<close>

text \<open>struct buffer, less the fields the writer does not use; pb\_cnt is *cnt.\<close>

record put_buffer =
  pb_stream :: "8 word list"
  pb_cnt :: "32 word"
  pb_size :: "32 word"
  pb_cache :: "32 word"
  pb_bit_cnt :: "32 word"
  pb_emulCnt :: "32 word"

definition buffer_full :: "put_buffer \<Rightarrow> bool" where
  "buffer_full b = (pb_size b < pb_cnt b + 8)"

text \<open>*stream++ = c for each c, and the counter.\<close>

definition put_bytes :: "8 word list \<Rightarrow> put_buffer \<Rightarrow> put_buffer" where
  "put_bytes cs b = b\<lparr>pb_stream := pb_stream b @ cs, pb_cnt := pb_cnt b + of_nat (length cs)\<rparr>"

subsection \<open>Writing bits\<close>

text \<open>ASSERT((number <= 8) \&\& (number > 0)); ASSERT(!(value \& (~0 << number)))\<close>

definition put_bit_pre :: "32 word \<Rightarrow> nat \<Rightarrow> bool" where
  "put_bit_pre value number =
     (number \<le> 8 \<and> 0 < number \<and> value AND push_bit number (NOT 0) = 0)"

definition put_bit :: "put_buffer \<Rightarrow> 32 word \<Rightarrow> nat \<Rightarrow> put_buffer option" where
  "put_bit b value number =
     (if \<not> put_bit_pre value number then None
      else if buffer_full b then Some b
      else
        let b = b\<lparr>pb_bit_cnt := pb_bit_cnt b + of_nat number\<rparr>;
            left = sint (32 - pb_bit_cnt b)
        in if left > 0 then
             Some (b\<lparr>pb_cache := pb_cache b OR push_bit (nat left) value\<rparr>)
           else if pb_cache b AND 0xFFFFFC00 \<noteq> 0 then
             let b = put_bytes [ucast (drop_bit 24 (pb_cache b))] b
             in Some (b\<lparr>pb_cache := push_bit 8 (pb_cache b) OR push_bit (nat (left + 8)) value,
                        pb_bit_cnt := pb_bit_cnt b - 8\<rparr>)
           else
             let b = put_bytes [0, 0, 3] b
             in Some (b\<lparr>pb_emulCnt := pb_emulCnt b + 1,
                        pb_cache := push_bit 16 (pb_cache b) OR push_bit (nat (left + 16)) value,
                        pb_bit_cnt := pb_bit_cnt b - 16\<rparr>))"

text \<open>The writer for AV1 streams, which have no emulation prevention.\<close>

definition put_bit_av1 :: "put_buffer \<Rightarrow> 32 word \<Rightarrow> nat \<Rightarrow> put_buffer option" where
  "put_bit_av1 b value number =
     (if \<not> put_bit_pre value number then None
      else if buffer_full b then Some b
      else
        let b = b\<lparr>pb_bit_cnt := pb_bit_cnt b + of_nat number\<rparr>;
            left = sint (32 - pb_bit_cnt b)
        in if left > 0 then
             Some (b\<lparr>pb_cache := pb_cache b OR push_bit (nat left) value\<rparr>)
           else
             let b = put_bytes [ucast (drop_bit 24 (pb_cache b))] b
             in Some (b\<lparr>pb_cache := push_bit 8 (pb_cache b) OR push_bit (nat (left + 8)) value,
                        pb_bit_cnt := pb_bit_cnt b - 8\<rparr>))"

text \<open>put\_bit\_32 writes the value's bytes from the top; k bytes are left, so bits\_left is
  8 * (k - 1). With bits\_left 0 the rest is written, so the loop ends there.\<close>

fun put_bit_32_loop ::
  "(put_buffer \<Rightarrow> 32 word \<Rightarrow> nat \<Rightarrow> put_buffer option)
    \<Rightarrow> nat \<Rightarrow> put_buffer \<Rightarrow> 32 word \<Rightarrow> nat \<Rightarrow> put_buffer option" where
  "put_bit_32_loop put 0 b value number = (if number = 0 then Some b else None)"
| "put_bit_32_loop put (Suc k) b value number =
     (if number = 0 then Some b
      else
        let bits_left = 8 * k
        in if number > bits_left then do {
             b \<leftarrow> put b (signed_drop_bit bits_left value AND 0xFF) (number - bits_left);
             put_bit_32_loop put k b value bits_left
           } else put_bit_32_loop put k b value number)"

definition put_bit_32 :: "put_buffer \<Rightarrow> 32 word \<Rightarrow> nat \<Rightarrow> put_buffer option" where
  "put_bit_32 b value number =
     (if number \<le> 32 then put_bit_32_loop put_bit 4 b value number else None)"

definition put_bit_av1_32 :: "put_buffer \<Rightarrow> 32 word \<Rightarrow> nat \<Rightarrow> put_buffer option" where
  "put_bit_av1_32 b value number =
     (if number \<le> 32 then put_bit_32_loop put_bit_av1 4 b value number else None)"

subsection \<open>Exp-Golomb codes\<close>

text \<open>while (val >> ++tmp); for a positive val: the number of its bits\<close>

function code_len :: "nat \<Rightarrow> nat \<Rightarrow> nat" where
  "code_len val tmp = (if drop_bit (Suc tmp) val = 0 then Suc tmp else code_len val (Suc tmp))"
  by auto
termination
proof (relation "measure (\<lambda>(val, tmp). val - tmp)")
  fix val tmp :: nat
  assume "drop_bit (Suc tmp) val \<noteq> 0"
  then have "2 ^ Suc tmp \<le> val" by (simp add: drop_bit_eq_div div_eq_0_iff)
  then have "Suc tmp < val" using less_exp[of "Suc tmp"] by linarith
  then show "((val, Suc tmp), (val, tmp)) \<in> measure (\<lambda>(val, tmp). val - tmp)" by simp
qed simp

declare code_len.simps [simp del]

text \<open>val is an i32; the increment and the doubling must not overflow.\<close>

definition i32_ok :: "int \<Rightarrow> bool" where
  "i32_ok x = (- (2 ^ 31) \<le> x \<and> x < 2 ^ 31)"

definition put_bit_ue :: "put_buffer \<Rightarrow> int \<Rightarrow> put_buffer option" where
  "put_bit_ue b val =
     (if 0 \<le> val \<and> i32_ok (val + 1)
      then put_bit_32 b (word_of_int (val + 1)) (code_len (nat (val + 1)) 0 * 2 - 1)
      else None)"

definition put_bit_se :: "put_buffer \<Rightarrow> int \<Rightarrow> put_buffer option" where
  "put_bit_se b val =
     (let val = (if val > 0 then 2 * val else -2 * val + 1)
      in if i32_ok val then put_bit_32 b (word_of_int val) (code_len (nat val) 0 * 2 - 1)
         else None)"

subsection \<open>Trailing bits, start code, flush\<close>

text \<open>while (b->bit\_cnt \% 8) put\_bit(b, 0, 1); a put that is dropped because the buffer is full
  would make it run for ever.\<close>

partial_function (option) align_loop ::
  "(put_buffer \<Rightarrow> 32 word \<Rightarrow> nat \<Rightarrow> put_buffer option) \<Rightarrow> put_buffer \<Rightarrow> put_buffer option" where
  "align_loop put b =
     (if pb_bit_cnt b mod 8 = 0 then Some b
      else Option.bind (put b 0 1) (\<lambda>b. align_loop put b))"

text \<open>while (b->bit\_cnt): flush what is left in the cache\<close>

partial_function (option) trailing_loop :: "put_buffer \<Rightarrow> put_buffer option" where
  "trailing_loop b =
     (if pb_bit_cnt b = 0 then Some b
      else if 24 \<le> pb_bit_cnt b \<and> pb_cache b AND 0xFFFFFC00 = 0 then
        let b = put_bytes [0, 0, 3] b
        in trailing_loop (b\<lparr>pb_emulCnt := pb_emulCnt b + 1, pb_cache := push_bit 16 (pb_cache b),
                            pb_bit_cnt := pb_bit_cnt b - 16\<rparr>)
      else
        let b = put_bytes [ucast (drop_bit 24 (pb_cache b))] b
        in trailing_loop (b\<lparr>pb_cache := push_bit 8 (pb_cache b),
                            pb_bit_cnt := pb_bit_cnt b - 8\<rparr>))"

definition rbsp_trailing_bits :: "put_buffer \<Rightarrow> put_buffer option" where
  "rbsp_trailing_bits b =
     (if buffer_full b then Some b
      else do {
        b \<leftarrow> put_bit b 1 1;
        b \<leftarrow> align_loop put_bit b;
        trailing_loop b
      })"

text \<open>The AV1 variant still puts in emulation prevention bytes when it flushes.\<close>

definition rbsp_trailing_bits_av1 :: "put_buffer \<Rightarrow> put_buffer option" where
  "rbsp_trailing_bits_av1 b =
     (if buffer_full b then Some b
      else do {
        b \<leftarrow> put_bit_av1 b 1 1;
        b \<leftarrow> align_loop put_bit_av1 b;
        trailing_loop b
      })"

definition put_bits_startcode :: "put_buffer \<Rightarrow> put_buffer" where
  "put_bits_startcode b = (if buffer_full b then b else put_bytes [0, 0, 0, 1] b)"

partial_function (option) rbsp_flush_bits :: "put_buffer \<Rightarrow> put_buffer option" where
  "rbsp_flush_bits b =
     (if 8 \<le> pb_bit_cnt b then
        let b = put_bytes [ucast (drop_bit 24 (pb_cache b))] b
        in rbsp_flush_bits (b\<lparr>pb_cache := push_bit 8 (pb_cache b),
                              pb_bit_cnt := pb_bit_cnt b - 8\<rparr>)
      else Some b)"

subsection \<open>Words and bit strings\<close>

lemma sint_left: "c \<le> 40 \<Longrightarrow> sint (32 - (of_nat c :: 32 word)) = 32 - int c"
proof -
  assume c: "c \<le> 40"
  have "(32 - of_nat c :: 32 word) = word_of_int (32 - int c)" by simp
  then have "sint (32 - (of_nat c :: 32 word)) = sint (word_of_int (32 - int c) :: 32 word)"
    by (rule arg_cong)
  also have "\<dots> = signed_take_bit 31 (32 - int c)" by (subst sint_sbintrunc') simp
  also have "\<dots> = 32 - int c" using c by (intro signed_take_bit_int_eq_self) auto
  finally show ?thesis .
qed

lemma and_high: "(x :: 32 word) AND 0xFFFFFC00 = 0 \<longleftrightarrow> unat x < 1024"
proof -
  have m: "(0xFFFFFC00 :: 32 word) = NOT (mask 10)" by (simp add: mask_eq_exp_minus_1)
  have "x AND NOT (mask 10) = 0 \<longleftrightarrow> take_bit 10 x = x"
    by (auto simp: bit_eq_iff bit_simps)
  also have "\<dots> \<longleftrightarrow> unat x mod 1024 = unat x"
    by (simp only: word_unat_eq_iff unsigned_take_bit_eq) (simp add: take_bit_eq_mod)
  also have "\<dots> \<longleftrightarrow> unat x < 1024" by (metis mod_less mod_less_divisor zero_less_numeral)
  finally show ?thesis unfolding m .
qed

abbreviation byte_at :: "nat \<Rightarrow> 32 word \<Rightarrow> 8 word" where
  "byte_at k x \<equiv> ucast (drop_bit k x)"

lemma unat_byte_at: "unat (byte_at k x) = unat x div 2 ^ k mod 256"
proof -
  have "unat (drop_bit k x) = unat x div 2 ^ k" by (metis drop_bit_eq_div unat_drop_bit_eq)
  then show ?thesis by (simp add: unsigned_ucast_eq take_bit_eq_mod)
qed

lemma low_number:
  fixes u :: nat
  assumes "u < 4294967296" "u div 16777216 mod 256 = 0" "u div 65536 mod 256 = 0" "u div 256 mod 256 \<le> 3"
  shows "u < 1024"
proof -
  have 1: "u div 16777216 < 256" using assms(1) by (simp add: less_mult_imp_div_less)
  then have "u < 16777216" using assms(2) by (simp add: div_eq_0_iff)
  then have "u div 65536 < 256" by (simp add: less_mult_imp_div_less)
  then have "u < 65536" using assms(3) by (simp add: div_eq_0_iff)
  then have "u div 256 < 256" by (simp add: less_mult_imp_div_less)
  then have "u div 256 \<le> 3" using assms(4) by simp
  then show ?thesis by (simp add: div_less_iff_less_mult flip: less_Suc_eq_le)
qed

lemma emulation_test:
  "(x :: 32 word) AND 0xFFFFFC00 = 0 \<longleftrightarrow> byte_at 24 x = 0 \<and> byte_at 16 x = 0 \<and> byte_at 8 x \<le> 3"
proof -
  have u: "unat x < 4294967296" using unsigned_less[of x] by simp
  have "unat x < 1024 \<longleftrightarrow> unat x div 16777216 mod 256 = 0 \<and> unat x div 65536 mod 256 = 0
    \<and> unat x div 256 mod 256 \<le> 3"
  proof
    assume "unat x < 1024"
    then have "unat x div 256 \<le> 3" "unat x div 65536 = 0" "unat x div 16777216 = 0" by auto
    then show "unat x div 16777216 mod 256 = 0 \<and> unat x div 65536 mod 256 = 0
      \<and> unat x div 256 mod 256 \<le> 3" by simp
  qed (use low_number[OF u] in auto)
  moreover have "byte_at k x = 0 \<longleftrightarrow> unat (byte_at k x) = 0" for k by (simp add: unat_eq_0)
  moreover have "byte_at k x \<le> 3 \<longleftrightarrow> unat (byte_at k x) \<le> 3" for k by (simp add: word_le_nat_alt)
  ultimately show ?thesis by (simp add: and_high unat_byte_at)
qed

lemma byte_bits_byte_at: "k \<le> 24 \<Longrightarrow> byte_bits (byte_at k x) = map (\<lambda>i. bit x (k + 7 - i)) [0..<8]"
  by (rule nth_equalityI) (auto simp: bit_simps)

lemma map_bits_upt: "map f [0..<a + b] = map f [0..<a] @ map (\<lambda>i. f (a + i)) [0..<b]"
  by (rule nth_equalityI) (auto simp: nth_append)

lemma top_bits_split: "a + b \<le> 32 \<Longrightarrow> top_bits (a + b) x = top_bits a x @ top_bits b (push_bit a x)"
  by (rule nth_equalityI) (auto simp: nth_append bit_simps)

lemma top_bits_byte: "top_bits 8 x = byte_bits (byte_at 24 x)"
  by (rule nth_equalityI) (auto simp: bit_simps)

lemma top_bits_3bytes:
  "top_bits 24 x = byte_bits (byte_at 24 x) @ byte_bits (byte_at 16 x) @ byte_bits (byte_at 8 x)"
  by (rule nth_equalityI) (auto simp: nth_append bit_simps)

definition pending :: "put_buffer \<Rightarrow> bits" where
  "pending b = top_bits (unat (pb_bit_cnt b)) (pb_cache b)"

definition cache_ok :: "put_buffer \<Rightarrow> bool" where
  "cache_ok b = (unat (pb_bit_cnt b) < 32
     \<and> (\<forall>j < 32 - unat (pb_bit_cnt b). \<not> bit (pb_cache b) j))"

definition wrote :: "8 word list \<Rightarrow> put_buffer \<Rightarrow> bits \<Rightarrow> bool" where
  "wrote s0 b bs = (cache_ok b \<and> (\<exists>k. 8 * k \<le> length bs \<and> pending b = drop (8 * k) bs
     \<and> (\<forall>B r. bits_of B = bs @ r \<longrightarrow> s0 @ escape B = pb_stream b @ escape (drop k B))))"

lemma bits_of_drop: "bits_of (drop k B) = drop (8 * k) (bits_of B)"
  by (induction B arbitrary: k) (auto simp: drop_Cons split: nat.splits)

lemma put_bit_pre_bits:
  assumes "put_bit_pre v n" "n \<le> j" "j < 32"
  shows "\<not> bit v j"
proof
  assume b: "bit v j"
  have "bit (v AND push_bit n (NOT 0)) j" using assms b by (auto simp: bit_simps)
  then show False using assms(1) by (simp add: put_bit_pre_def)
qed

text \<open>Appending v below c valid bits.\<close>

lemma append_bits:
  assumes "\<forall>j < 32 - c. \<not> bit x j" "put_bit_pre v n" "c + n \<le> 32"
  shows "top_bits (c + n) (x OR push_bit (32 - (c + n)) v) = top_bits c x @ low_bits n v
    \<and> (\<forall>j < 32 - (c + n). \<not> bit (x OR push_bit (32 - (c + n)) v) j)"
proof
  show "top_bits (c + n) (x OR push_bit (32 - (c + n)) v) = top_bits c x @ low_bits n v"
  proof (rule nth_equalityI)
    fix i assume i: "i < length (top_bits (c + n) (x OR push_bit (32 - (c + n)) v))"
    show "top_bits (c + n) (x OR push_bit (32 - (c + n)) v) ! i = (top_bits c x @ low_bits n v) ! i"
    proof (cases "i < c")
      case True
      have "\<not> bit v (31 - i - (32 - (c + n)))" 
        using put_bit_pre_bits[OF assms(2), of "31 - i - (32 - (c + n))"] True assms(3) by auto
      with True i assms(3) show ?thesis by (auto simp: nth_append bit_simps)
    next
      case False
      then have "\<not> bit x (31 - i)" "31 - i - (32 - (c + n)) = n - 1 - (i - c)" using assms i by auto
      with False i assms(3) show ?thesis by (auto simp: nth_append bit_simps)
    qed
  qed simp
  show "\<forall>j < 32 - (c + n). \<not> bit (x OR push_bit (32 - (c + n)) v) j"
    using assms(1) by (auto simp: bit_simps)
qed


lemma bits_of_head:
  assumes "bits_of D = byte_bits a @ R"
  shows "\<exists>D'. D = a # D' \<and> bits_of D' = R"
proof (cases D)
  case Nil
  with assms show ?thesis by (auto dest: arg_cong[of _ _ length])
next
  case (Cons d D')
  with assms have "byte_bits d @ bits_of D' = byte_bits a @ R" by simp
  then have "byte_bits d = byte_bits a \<and> bits_of D' = R"
    by (subst (asm) append_eq_append_conv) simp_all
  with Cons show ?thesis by simp
qed

text \<open>What the flush puts out: one byte, or two zero bytes and the 3.\<close>

lemma escape_flush:
  assumes "bits_of D = top_bits c x @ R" "24 \<le> c" "c \<le> 32"
  shows "x AND 0xFFFFFC00 \<noteq> 0 \<Longrightarrow> escape D = [byte_at 24 x] @ escape (drop 1 D)"
    and "x AND 0xFFFFFC00 = 0 \<Longrightarrow> escape D = [0, 0, 3] @ escape (drop 2 D)"
proof -
  have "top_bits c x = top_bits 24 x @ top_bits (c - 24) (push_bit 24 x)"
    using top_bits_split[of 24 "c - 24" x] assms(2,3) by simp
  then have "bits_of D = byte_bits (byte_at 24 x) @ byte_bits (byte_at 16 x) @ byte_bits (byte_at 8 x)
      @ top_bits (c - 24) (push_bit 24 x) @ R"
    using assms(1) by (simp add: top_bits_3bytes)
  then obtain D' where D: "D = byte_at 24 x # byte_at 16 x # byte_at 8 x # D'"
    by (metis bits_of_head)
  show "x AND 0xFFFFFC00 \<noteq> 0 \<Longrightarrow> escape D = [byte_at 24 x] @ escape (drop 1 D)"
    unfolding D emulation_test by auto
  show "x AND 0xFFFFFC00 = 0 \<Longrightarrow> escape D = [0, 0, 3] @ escape (drop 2 D)"
    unfolding D emulation_test by (auto simp: numeral_2_eq_2)
qed

lemma shifted_cache:
  assumes "\<forall>j < 32 - c. \<not> bit (x :: 32 word) j" "s \<le> c"
  shows "\<forall>j < 32 - (c - s). \<not> bit (push_bit s x) j"
  using assms by (auto simp: bit_simps)

text \<open>One flush of s bits (s is 8 or 16), after which v is appended.\<close>

lemma flush_append:
  assumes "\<forall>j < 32 - c. \<not> bit x j" "put_bit_pre v n" "s \<le> c" "c - s + n \<le> 32" "c < 32"
  shows "top_bits (c - s + n) (push_bit s x OR push_bit (32 - (c - s + n)) v)
      = drop s (top_bits c x) @ low_bits n v
    \<and> (\<forall>j < 32 - (c - s + n). \<not> bit (push_bit s x OR push_bit (32 - (c - s + n)) v) j)"
proof -
  have "top_bits c x = top_bits s x @ top_bits (c - s) (push_bit s x)"
    using top_bits_split[of s "c - s" x] assms(3,5) by simp
  then have "drop s (top_bits c x) = top_bits (c - s) (push_bit s x)" by simp
  with append_bits[OF shifted_cache[OF assms(1,3)] assms(2,4)] show ?thesis by simp
qed

definition room :: "put_buffer \<Rightarrow> nat \<Rightarrow> bool" where
  "room b n = (unat (pb_cnt b) + n \<le> unat (pb_size b))"

lemma room_not_full: "room b n \<Longrightarrow> 8 \<le> n \<Longrightarrow> \<not> buffer_full b"
proof -
  assume r: "room b n" "8 \<le> n"
  then have "unat (pb_cnt b) + 8 \<le> unat (pb_size b)" by (simp add: room_def)
  moreover have "unat (pb_size b) < 2 ^ 32" using unsigned_less[of "pb_size b"] by simp
  ultimately have "unat (pb_cnt b + 8) = unat (pb_cnt b) + 8" by (simp add: unat_word_ariths)
  with r show ?thesis by (simp add: buffer_full_def room_def word_less_nat_alt)
qed

lemma put_bytes_fields [simp]:
  "pb_stream (put_bytes cs b) = pb_stream b @ cs" "pb_size (put_bytes cs b) = pb_size b"
  "pb_cache (put_bytes cs b) = pb_cache b" "pb_bit_cnt (put_bytes cs b) = pb_bit_cnt b"
  "pb_cnt (put_bytes cs b) = pb_cnt b + of_nat (length cs)"
  by (simp_all add: put_bytes_def)

lemma cnt_room:
  assumes "room b n" "k \<le> n"
  shows "unat (pb_cnt b + of_nat k) = unat (pb_cnt b) + k"
proof -
  have "unat (pb_size b) < 2 ^ 32" using unsigned_less[of "pb_size b"] by simp
  then have "unat (pb_cnt b) + k < 2 ^ 32" using assms by (simp add: room_def)
  then show ?thesis by (simp add: unat_word_ariths unat_of_nat)
qed

lemma put_bit_wrote:
  assumes w: "wrote s0 b bs" and pre: "put_bit_pre v n" and r: "room b m" "8 \<le> m"
  shows "\<exists>b'. put_bit b v n = Some b' \<and> wrote s0 b' (bs @ low_bits n v) \<and> room b' (m - 3)"
proof -
  define c where "c = unat (pb_bit_cnt b)"
  define x where "x = pb_cache b"
  from w obtain k where c: "c < 32" "\<forall>j < 32 - c. \<not> bit x j" and k: "8 * k \<le> length bs"
    and pend: "top_bits c x = drop (8 * k) bs"
    and esc: "\<And>B r. bits_of B = bs @ r \<Longrightarrow> s0 @ escape B = pb_stream b @ escape (drop k B)"
    by (auto simp: wrote_def cache_ok_def pending_def c_def x_def)
  have n: "0 < n" "n \<le> 8" using pre by (auto simp: put_bit_pre_def)
  have bc: "pb_bit_cnt b = of_nat c" unfolding c_def by (metis of_nat_unat ucast_id)
  have bc': "pb_bit_cnt b + of_nat n = of_nat (c + n)" by (simp add: bc)
  have left: "sint (32 - (pb_bit_cnt b + of_nat n)) = 32 - int (c + n)"
    unfolding bc' by (rule sint_left) (use c n in simp)
  have un: "unat (of_nat j :: 32 word) = j" if "j < 100" for j
    using that by (simp add: unat_of_nat)
  have notfull: "\<not> buffer_full b" using room_not_full[OF r] .
  have dropD: "bits_of (drop k B) = top_bits c x @ low_bits n v @ q"
    if "bits_of B = bs @ low_bits n v @ q" for B q
    using that k pend by (simp add: bits_of_drop)
  show ?thesis
  proof (cases "c + n < 32")
    case True
    let ?b = "b\<lparr>pb_bit_cnt := of_nat (c + n), pb_cache := x OR push_bit (32 - (c + n)) v\<rparr>"
    have "nat (32 - int (c + n)) = 32 - (c + n)" by simp
    then have p: "put_bit b v n = Some ?b"
      using True pre notfull left bc' by (simp add: put_bit_def Let_def x_def)
    note ab = append_bits[OF c(2) pre]
    have "wrote s0 ?b (bs @ low_bits n v)"
      unfolding wrote_def cache_ok_def pending_def
      using ab True k pend esc un[of "c + n"] by (auto intro!: exI[of _ k])
    moreover have "room ?b (m - 3)" using r by (simp add: room_def)
    ultimately show ?thesis using p by blast
  next
    case False
    then have c24: "24 \<le> c" using n by simp
    have lft: "\<not> 0 < 32 - int (c + n)" using False by simp
    show ?thesis
    proof (cases "x AND 0xFFFFFC00 = 0")
      case em: False
      let ?b = "(put_bytes [byte_at 24 x] (b\<lparr>pb_bit_cnt := of_nat (c + n)\<rparr>))
         \<lparr>pb_cache := push_bit 8 x OR push_bit (32 - (c - 8 + n)) v, pb_bit_cnt := of_nat (c - 8 + n)\<rparr>"
      have "nat (32 - int (c + n) + 8) = 32 - (c - 8 + n)" using c24 c n by simp
      moreover have "(of_nat (c + n) :: 32 word) - 8 = of_nat (c - 8 + n)" using c24 by simp
      ultimately have p: "put_bit b v n = Some ?b"
        using em pre notfull left bc' lft by (simp add: put_bit_def Let_def x_def)
      have fa: "top_bits (c - 8 + n) (push_bit 8 x OR push_bit (32 - (c - 8 + n)) v)
          = drop 8 (top_bits c x) @ low_bits n v"
        "\<forall>j < 32 - (c - 8 + n). \<not> bit (push_bit 8 x OR push_bit (32 - (c - 8 + n)) v) j"
        using flush_append[OF c(2) pre, of 8] c24 c n by auto
      have "8 * Suc k \<le> length bs" using arg_cong[OF pend, of length] c24 k by simp
      moreover have "drop 8 (top_bits c x) @ low_bits n v = drop (8 * Suc k) (bs @ low_bits n v)"
        using pend calculation by simp
      moreover have "s0 @ escape B = (pb_stream b @ [byte_at 24 x]) @ escape (drop (Suc k) B)"
        if "bits_of B = (bs @ low_bits n v) @ q" for B q
        using esc[of B "low_bits n v @ q"] that escape_flush(1)[OF dropD[of B q] c24 _ em] c
        by (simp add: add.commute)
      ultimately have "wrote s0 ?b (bs @ low_bits n v)"
        unfolding wrote_def cache_ok_def pending_def
        using fa un[of "c - 8 + n"] c n c24 by (auto intro!: exI[of _ "Suc k"])
      moreover have "room ?b (m - 3)" using r cnt_room[OF r(1), of 1] by (simp add: room_def)
      ultimately show ?thesis using p by blast
    next
      case em: True
      let ?b = "(put_bytes [0, 0, 3] (b\<lparr>pb_bit_cnt := of_nat (c + n)\<rparr>))
         \<lparr>pb_emulCnt := pb_emulCnt b + 1, pb_cache := push_bit 16 x OR push_bit (32 - (c - 16 + n)) v,
          pb_bit_cnt := of_nat (c - 16 + n)\<rparr>"
      have "nat (32 - int (c + n) + 16) = 32 - (c - 16 + n)" using c24 c n by simp
      moreover have "(of_nat (c + n) :: 32 word) - 16 = of_nat (c - 16 + n)" using c24 by simp
      ultimately have p: "put_bit b v n = Some ?b"
        using em pre notfull left bc' lft by (simp add: put_bit_def Let_def x_def put_bytes_def)
      have fa: "top_bits (c - 16 + n) (push_bit 16 x OR push_bit (32 - (c - 16 + n)) v)
          = drop 16 (top_bits c x) @ low_bits n v"
        "\<forall>j < 32 - (c - 16 + n). \<not> bit (push_bit 16 x OR push_bit (32 - (c - 16 + n)) v) j"
        using flush_append[OF c(2) pre, of 16] c24 c n by auto
      have "8 * (k + 2) \<le> length bs" using arg_cong[OF pend, of length] c24 k by simp
      moreover have "drop 16 (top_bits c x) @ low_bits n v = drop (8 * (k + 2)) (bs @ low_bits n v)"
        using pend calculation by simp
      moreover have "s0 @ escape B = (pb_stream b @ [0, 0, 3]) @ escape (drop (k + 2) B)"
        if "bits_of B = (bs @ low_bits n v) @ q" for B q
        using esc[of B "low_bits n v @ q"] that escape_flush(2)[OF dropD[of B q] c24 _ em] c
        by (simp add: add.commute)
      ultimately have "wrote s0 ?b (bs @ low_bits n v)"
        unfolding wrote_def cache_ok_def pending_def
        using fa un[of "c - 16 + n"] c n c24 by (auto intro!: exI[of _ "k + 2"])
      moreover have "room ?b (m - 3)" using r cnt_room[OF r(1), of 3] by (simp add: room_def)
      ultimately show ?thesis using p by blast
    qed
  qed
qed


lemma low_bits_split: "low_bits (a + b) v = low_bits a (drop_bit b v) @ low_bits b v"
  by (rule nth_equalityI) (auto simp: nth_append bit_simps intro!: arg_cong[of _ _ "bit v"])

lemma bit_chunk:
  "k \<le> 24 \<Longrightarrow> bit (signed_drop_bit k (v :: 32 word) AND 0xFF) j = (j < 8 \<and> bit v (j + k))"
proof -
  assume k: "k \<le> 24"
  have m: "(0xFF :: 32 word) = mask 8" by (simp add: mask_eq_exp_minus_1)
  have "bit (signed_drop_bit k v AND mask 8) j = (j < 8 \<and> bit (signed_drop_bit k v) j)"
    by (auto simp only: bit_and_iff bit_mask_iff possible_bit_word)
       (auto dest: bit_imp_le_length)
  also have "\<dots> = (j < 8 \<and> bit v (j + k))"
    using k by (auto simp only: bit_signed_drop_bit_iff add.commute split: if_splits) auto
  finally show ?thesis unfolding m .
qed

text \<open>The bits of v from 8 * k up, cut to a byte, fit the number of bits they are put with.\<close>

lemma chunk_pre:
  assumes "8 * k < number" "number \<le> 8 * Suc k" "Suc k \<le> 4"
    "\<forall>j. number \<le> j \<and> j < 8 * Suc k \<longrightarrow> \<not> bit v j"
  shows "put_bit_pre (signed_drop_bit (8 * k) v AND 0xFF) (number - 8 * k)"
proof -
  let ?c = "signed_drop_bit (8 * k) v AND 0xFF" and ?t = "number - 8 * k"
  have bc: "bit ?c j = (j < 8 \<and> bit v (j + 8 * k))" for j
    by (rule bit_chunk) (use assms(3) in simp)
  have nz: "\<not> bit ?c j" if "?t \<le> j" for j
    using that assms(4) bc by auto
  have "?c AND push_bit ?t (NOT 0) = 0"
  proof (rule bit_word_eqI)
    fix j
    show "bit (?c AND push_bit ?t (NOT 0)) j = bit 0 j"
      using nz[of j] by (cases "?t \<le> j") (simp_all only: bit_and_iff bit_push_bit_iff bit_0_eq bot_fun_def bot_bool_def simp_thms)
  qed
  then show ?thesis using assms(1,2) by (simp only: put_bit_pre_def simp_thms) auto
qed

lemma put_bit_32_loop_wrote:
  assumes "wrote s0 b bs" "number \<le> 8 * k" "k \<le> 4" "room b m" "8 + 3 * k \<le> m"
    "\<forall>j. number \<le> j \<and> j < 8 * k \<longrightarrow> \<not> bit v j"
  shows "\<exists>b'. put_bit_32_loop put_bit k b v number = Some b' \<and> wrote s0 b' (bs @ low_bits number v)
    \<and> room b' (m - 3 * k)"
  using assms
proof (induction k arbitrary: b bs number m)
  case 0
  then show ?case by (simp add: low_bits_def)
next
  case (Suc k)
  show ?case
  proof (cases "number > 8 * k")
    case False
    have "room b (m - 3)" using Suc.prems(4) by (auto simp: room_def)
    moreover have "8 + 3 * k \<le> m - 3" using Suc.prems(5) by simp
    ultimately have "\<exists>b'. put_bit_32_loop put_bit k b v number = Some b'
        \<and> wrote s0 b' (bs @ low_bits number v) \<and> room b' (m - 3 - 3 * k)"
      using Suc.IH[OF Suc.prems(1), of number "m - 3"] Suc.prems(3,6) False by simp
    then
    obtain b' where "put_bit_32_loop put_bit k b v number = Some b'" "wrote s0 b' (bs @ low_bits number v)"
      "room b' (m - 3 - 3 * k)" by auto
    moreover have "number = 0 \<Longrightarrow> put_bit_32_loop put_bit k b v number = Some b" by (cases k) auto
    ultimately show ?thesis using False by (auto simp: Let_def)
  next
    case True
    let ?c = "signed_drop_bit (8 * k) v AND 0xFF" and ?t = "number - 8 * k"
    have bc: "bit ?c j = (j < 8 \<and> bit v (j + 8 * k))" for j
      by (rule bit_chunk) (use Suc.prems(3) in simp)
    have pre: "put_bit_pre ?c ?t" by (rule chunk_pre) (use True Suc.prems in auto)
    from put_bit_wrote[OF Suc.prems(1) pre Suc.prems(4)] Suc.prems(5)
    obtain b1 where b1: "put_bit b ?c ?t = Some b1" "wrote s0 b1 (bs @ low_bits ?t ?c)" "room b1 (m - 3)"
      by auto
    have "\<forall>j. 8 * k \<le> j \<and> j < 8 * k \<longrightarrow> \<not> bit v j" by auto
    moreover have "8 + 3 * k \<le> m - 3" "k \<le> 4" using Suc.prems(3,5) by auto
    ultimately obtain b2 where
      b2: "put_bit_32_loop put_bit k b1 v (8 * k) = Some b2"
      "wrote s0 b2 ((bs @ low_bits ?t ?c) @ low_bits (8 * k) v)" "room b2 (m - 3 - 3 * k)"
      using Suc.IH[OF b1(2) order_refl _ b1(3)] by blast
    have "low_bits ?t ?c = low_bits ?t (drop_bit (8 * k) v)"
    proof (rule nth_equalityI)
      fix i assume "i < length (low_bits ?t ?c)"
      then have i: "i < ?t" "?t - 1 - i < 8" using Suc.prems(2) by auto
      then have "low_bits ?t ?c ! i = bit v (?t - 1 - i + 8 * k)"
        by (simp only: nth_low_bits bc simp_thms)
      also have "\<dots> = low_bits ?t (drop_bit (8 * k) v) ! i"
        by (simp only: nth_low_bits[OF i(1)] bit_drop_bit_eq comp_def add.commute)
      finally show "low_bits ?t ?c ! i = low_bits ?t (drop_bit (8 * k) v) ! i" .
    qed simp
    moreover have "?t + 8 * k = number" using True by simp
    ultimately have "low_bits number v = low_bits ?t ?c @ low_bits (8 * k) v"
      using low_bits_split[of ?t "8 * k" v] by metis
    then have "wrote s0 b2 (bs @ low_bits number v)" using b2(2) by simp
    moreover have "put_bit_32_loop put_bit (Suc k) b v number = Some b2"
      using b1(1) b2(1) True by (simp add: Let_def)
    moreover have "room b2 (m - 3 * Suc k)" using b2(3) by (simp add: diff_diff_add add.commute)
    ultimately show ?thesis by blast
  qed
qed

lemma put_bit_32_wrote:
  assumes "wrote s0 b bs" "number \<le> 32" "room b m" "20 \<le> m" "\<forall>j. number \<le> j \<longrightarrow> \<not> bit v j"
  shows "\<exists>b'. put_bit_32 b v number = Some b' \<and> wrote s0 b' (bs @ low_bits number v) \<and> room b' (m - 12)"
  using put_bit_32_loop_wrote[OF assms(1) _ _ assms(3), of number 4 v] assms(2,4,5)
  by (simp add: put_bit_32_def)

subsection \<open>Exp-Golomb codes as bit strings\<close>

text \<open>The number of bits of n, and the code of n: one zero less than n + 1 has bits, then n + 1.\<close>

definition eg_len :: "nat \<Rightarrow> nat" where
  "eg_len n = code_len n 0"

definition eg_code :: "nat \<Rightarrow> bits" where
  "eg_code n = replicate (eg_len (n + 1) - 1) False
     @ map (\<lambda>i. bit (n + 1) (eg_len (n + 1) - 1 - i)) [0 ..< eg_len (n + 1)]"

lemma code_len_bounds:
  "t < code_len v t \<and> v < 2 ^ code_len v t \<and> (code_len v t = Suc t \<or> 2 ^ (code_len v t - 1) \<le> v)"
proof (induction v t rule: code_len.induct)
  case (1 v t)
  show ?case
  proof (cases "drop_bit (Suc t) v = 0")
    case True
    then have "code_len v t = Suc t" by (subst code_len.simps) simp
    moreover have "v < 2 ^ Suc t" using True by (simp add: drop_bit_eq_div div_eq_0_iff)
    ultimately show ?thesis by simp
  next
    case False
    then have eq: "code_len v t = code_len v (Suc t)" by (subst code_len.simps) simp
    have "2 ^ Suc t \<le> v" using False by (simp add: drop_bit_eq_div div_eq_0_iff)
    with 1[OF False] show ?thesis unfolding eq by auto
  qed
qed

lemma eg_len_bounds:
  assumes "0 < n"
  shows "0 < eg_len n \<and> n < 2 ^ eg_len n \<and> 2 ^ (eg_len n - 1) \<le> n"
  using code_len_bounds[of 0 n] assms unfolding eg_len_def
  by (cases "code_len n 0 = Suc 0") auto

lemma eg_len_le:
  assumes "0 < n" "n < 2 ^ k"
  shows "eg_len n \<le> k"
proof (rule ccontr)
  assume "\<not> eg_len n \<le> k"
  then have "(2::nat) ^ k \<le> 2 ^ (eg_len n - 1)" by (intro power_increasing) auto
  also have "\<dots> \<le> n" using eg_len_bounds[OF assms(1)] by blast
  finally show False using assms(2) by simp
qed

lemma length_eg_code: "length (eg_code n) = 2 * eg_len (n + 1) - 1"
  using eg_len_bounds[of "n + 1"] by (simp add: eg_code_def)

lemma bit_nat_lt: "(n :: nat) < 2 ^ k \<Longrightarrow> k \<le> j \<Longrightarrow> \<not> bit n j"
  by (metis bit_take_bit_iff not_le take_bit_nat_eq_self)

lemma low_bits_eg_code:
  assumes "n + 1 < 2 ^ 16"
  shows "low_bits (2 * eg_len (n + 1) - 1) (of_nat (n + 1) :: 32 word) = eg_code n"
proof (rule nth_equalityI)
  note b = eg_len_bounds[of "n + 1"]
  have le: "eg_len (n + 1) \<le> 16" using eg_len_le[of "n + 1" 16] assms by simp
  let ?L = "eg_len (n + 1)"
  show "length (low_bits (2 * ?L - 1) (of_nat (n + 1) :: 32 word)) = length (eg_code n)"
    by (simp only: length_low_bits length_eg_code)
  fix i assume i: "i < length (low_bits (2 * ?L - 1) (of_nat (n + 1) :: 32 word))"
  have bw: "bit (of_nat (n + 1) :: 32 word) j = (j < 32 \<and> bit (n + 1) j)" for j
    by (simp only: bit_of_nat_iff possible_bit_word) simp
  show "low_bits (2 * ?L - 1) (of_nat (n + 1) :: 32 word) ! i = eg_code n ! i"
  proof (cases "i < ?L - 1")
    case True
    then have "\<not> bit (n + 1) (2 * ?L - 1 - 1 - i)" by (intro bit_nat_lt[of _ ?L]) (use b in auto)
    with True i b show ?thesis by (simp only: nth_low_bits bw length_low_bits eg_code_def nth_append length_replicate) simp
  next
    case False
    have e: "2 * ?L - 1 - 1 - i = ?L - 1 - (i - (?L - 1))" "i - (?L - 1) < ?L"
      using False i by auto
    have "eg_code n ! i = bit (n + 1) (?L - 1 - (i - (?L - 1)))"
      unfolding eg_code_def using False e(2)
      by (simp only: nth_append length_replicate if_False nth_map_upt[of _ ?L 0] add_0 diff_zero)
    moreover have "low_bits (2 * ?L - 1) (of_nat (n + 1) :: 32 word) ! i = bit (n + 1) (2 * ?L - 1 - 1 - i)"
    proof -
      have "2 * ?L - 1 - 1 - i < 32" using le by linarith
      then show ?thesis using i by (simp only: nth_low_bits bw length_low_bits simp_thms)
    qed
    ultimately show ?thesis unfolding e(1) by simp
  qed
qed

lemma eg_code_word:
  assumes "n + 1 < 2 ^ 16" "2 * eg_len (n + 1) - 1 \<le> j"
  shows "\<not> bit (of_nat (n + 1) :: 32 word) j"
proof -
  have "\<not> bit (n + 1) j"
    by (rule bit_nat_lt[of _ "eg_len (n + 1)"]) (use assms(2) eg_len_bounds[of "n + 1"] in auto)
  then show ?thesis by (simp only: bit_of_nat_iff) simp
qed

lemma put_bit_ue_is:
  "n + 1 < 2 ^ 16 \<Longrightarrow> put_bit_ue b (int n) = put_bit_32 b (of_nat (n + 1)) (2 * eg_len (n + 1) - 1)"
  by (simp add: put_bit_ue_def i32_ok_def eg_len_def mult.commute nat_add_distrib add.commute)

lemma put_bit_ue_wrote:
  assumes "wrote s0 b bs" "n + 1 < 2 ^ 16" "room b m" "20 \<le> m"
  shows "\<exists>b'. put_bit_ue b (int n) = Some b' \<and> wrote s0 b' (bs @ eg_code n) \<and> room b' (m - 12)"
proof -
  have "eg_len (n + 1) \<le> 16" using eg_len_le[of "n + 1" 16] assms by simp
  then show ?thesis
    unfolding put_bit_ue_is[OF assms(2)]
    using put_bit_32_wrote[OF assms(1) _ assms(3,4), of "2 * eg_len (n + 1) - 1" "of_nat (n + 1)"]
      low_bits_eg_code[OF assms(2)] eg_code_word[OF assms(2)] by auto
qed

text \<open>The unsigned code a signed number is written as.\<close>

definition se_code_num :: "int \<Rightarrow> nat" where
  "se_code_num v = (if v > 0 then nat (2 * v - 1) else nat (-2 * v))"

lemma put_bit_se_is: "put_bit_se b v = put_bit_ue b (int (se_code_num v))"
proof -
  define u where "u = (if v > 0 then 2 * v else -2 * v + 1)"
  have u: "int (se_code_num v) + 1 = u" by (simp add: u_def se_code_num_def)
  have "put_bit_ue b (int (se_code_num v)) = (if i32_ok u
      then put_bit_32 b (word_of_int u) (code_len (nat u) 0 * 2 - 1) else None)"
    unfolding put_bit_ue_def u by simp
  then show ?thesis unfolding put_bit_se_def Let_def u_def[symmetric] by simp
qed

lemma put_bit_se_wrote:
  assumes "wrote s0 b bs" "se_code_num v + 1 < 2 ^ 16" "room b m" "20 \<le> m"
  shows "\<exists>b'. put_bit_se b v = Some b' \<and> wrote s0 b' (bs @ eg_code (se_code_num v)) \<and> room b' (m - 12)"
  unfolding put_bit_se_is by (rule put_bit_ue_wrote[OF assms])

subsection \<open>Trailing bits\<close>

lemma wrote_mod8: "wrote s0 b bs \<Longrightarrow> pb_bit_cnt b mod 8 = 0 \<longleftrightarrow> length bs mod 8 = 0"
proof -
  assume "wrote s0 b bs"
  then obtain k where k: "8 * k \<le> length bs" "pending b = drop (8 * k) bs" by (auto simp: wrote_def)
  have "length (pending b) = length (drop (8 * k) bs)" by (rule arg_cong[OF k(2)])
  then have "unat (pb_bit_cnt b) = length bs - 8 * k" by (simp add: pending_def)
  then have "length bs = unat (pb_bit_cnt b) + 8 * k" using k(1) by simp
  then have "length bs mod 8 = unat (pb_bit_cnt b) mod 8" by simp
  moreover have "unat (pb_bit_cnt b mod 8) = unat (pb_bit_cnt b) mod 8" by (simp add: unat_mod)
  ultimately show ?thesis by (metis unat_0 unat_eq_0)
qed

lemma put_bit_pre_1: "put_bit_pre 0 1" "put_bit_pre 1 1"
  by (simp_all add: put_bit_pre_def)

lemma low_bits_0_1: "low_bits 1 (0 :: 32 word) = [False]" "low_bits 1 (1 :: 32 word) = [True]"
  by (simp_all add: low_bits_def)

lemma align_loop_wrote:
  assumes "wrote s0 b bs" "room b (8 + 3 * j)" "(length bs + j) mod 8 = 0" "j < 8"
  shows "\<exists>b'. align_loop put_bit b = Some b' \<and> wrote s0 b' (bs @ replicate j False)"
  using assms
proof (induction j arbitrary: b bs)
  case 0
  with wrote_mod8[OF 0(1)] show ?case by (auto simp: align_loop.simps[of put_bit b])
next
  case (Suc j)
  have "length bs mod 8 \<noteq> 0"
  proof
    assume "length bs mod 8 = 0"
    then have "Suc j mod 8 = 0" using Suc.prems(3) by (metis mod_add_left_eq add_0)
    then show False using Suc.prems(4) by simp
  qed
  then have ne: "pb_bit_cnt b mod 8 \<noteq> 0" using wrote_mod8[OF Suc.prems(1)] by simp
  from put_bit_wrote[OF Suc.prems(1) put_bit_pre_1(1) Suc.prems(2)] obtain b1 where
    b1: "put_bit b 0 1 = Some b1" "wrote s0 b1 (bs @ [False])" "room b1 (8 + 3 * j)"
    by (auto simp: low_bits_0_1[simplified])
  from Suc.IH[OF b1(2,3)] Suc.prems(3,4) obtain b2 where
    "align_loop put_bit b1 = Some b2" "wrote s0 b2 ((bs @ [False]) @ replicate j False)" by auto
  with ne b1(1) show ?case by (subst align_loop.simps) auto
qed

lemma byte_at_shift: "s + 24 < 32 \<Longrightarrow> byte_at 24 (push_bit s x) = byte_at (24 - s) (x :: 32 word)"
  by (rule bit_word_eqI) (auto simp: bit_simps)

lemma byte_at_shift': "byte_at 24 (push_bit 8 x) = byte_at 16 x" "byte_at 24 (push_bit 16 x) = byte_at 8 x"
  by (rule bit_word_eqI; auto simp: bit_simps)+


lemma unat_cases:
  "unat (x :: 32 word) < 32 \<Longrightarrow> unat x mod 8 = 0 \<Longrightarrow> x \<in> {0, 8, 16, 24}"
proof -
  assume "unat x < 32" "unat x mod 8 = 0"
  then have "unat x = 0 \<or> unat x = 8 \<or> unat x = 16 \<or> unat x = 24" by presburger
  then show ?thesis by (auto simp: word_unat_eq_iff)
qed

lemma bits_of_Nil: "bits_of D = [] \<Longrightarrow> D = []"
  by (metis bits_of_simps(1) bits_of_inj)

text \<open>The flush loop puts out the escaped bytes of a cache of whole bytes.\<close>

lemma trailing_loop_bytes:
  assumes "bits_of D = top_bits (unat (pb_bit_cnt b)) (pb_cache b)" "pb_bit_cnt b \<in> {0, 8, 16, 24}"
  shows "\<exists>b'. trailing_loop b = Some b' \<and> pb_stream b' = pb_stream b @ escape D
    \<and> pb_size b' = pb_size b \<and> pb_bit_cnt b' = 0
    \<and> (\<exists>n \<le> 4. pb_cnt b' = pb_cnt b + of_nat n \<and> length (pb_stream b') = length (pb_stream b) + n)"
proof -
  let ?x = "pb_cache b"
  have one: "\<exists>b'. trailing_loop b = Some b' \<and> pb_stream b' = pb_stream b @ [byte_at 24 (pb_cache b)]
    \<and> pb_size b' = pb_size b \<and> pb_cnt b' = pb_cnt b + 1 \<and> pb_bit_cnt b' = 0"
    if "pb_bit_cnt b = 8" for b
    using that by (simp add: trailing_loop.simps[of b] trailing_loop.simps[of "b\<lparr>pb_bit_cnt := 0\<rparr>"]
        trailing_loop.simps Let_def)
  have two: "\<exists>b'. trailing_loop b = Some b'
    \<and> pb_stream b' = pb_stream b @ [byte_at 24 (pb_cache b), byte_at 16 (pb_cache b)]
    \<and> pb_size b' = pb_size b \<and> pb_cnt b' = pb_cnt b + 2 \<and> pb_bit_cnt b' = 0"
    if c: "pb_bit_cnt b = 16" for b
  proof -
    let ?b = "(put_bytes [byte_at 24 (pb_cache b)] b)\<lparr>pb_cache := push_bit 8 (pb_cache b), pb_bit_cnt := 8\<rparr>"
    have "trailing_loop b = trailing_loop ?b"
      using c by (subst trailing_loop.simps) (simp add: Let_def)
    with one[of ?b] show ?thesis by (auto simp: byte_at_shift' add.assoc)
  qed
  consider "pb_bit_cnt b = 0" | "pb_bit_cnt b = 8" | "pb_bit_cnt b = 16" | "pb_bit_cnt b = 24"
    using assms(2) by auto
  then show ?thesis
  proof cases
    case 1
    then have "D = []" using assms(1) by (intro bits_of_Nil) (simp add: top_bits_def)
    with 1 show ?thesis by (subst trailing_loop.simps) (auto intro: exI[of _ 0])
  next
    case 2
    have "bits_of D = bits_of [byte_at 24 ?x]" using assms(1) 2 top_bits_byte[of ?x] by simp
    then have "D = [byte_at 24 ?x]" by (rule bits_of_inj)
    with one[OF 2] show ?thesis by (auto intro: exI[of _ 1])
  next
    case 3
    have "bits_of D = bits_of [byte_at 24 ?x, byte_at 16 ?x]"
      using top_bits_split[of 8 8 ?x] top_bits_byte[of ?x] top_bits_byte[of "push_bit 8 ?x"] assms(1) 3
      by (simp add: byte_at_shift')
    then have "D = [byte_at 24 ?x, byte_at 16 ?x]" by (rule bits_of_inj)
    with two[OF 3] show ?thesis by (auto intro: exI[of _ 2])
  next
    case 4
    have "bits_of D = bits_of [byte_at 24 ?x, byte_at 16 ?x, byte_at 8 ?x]"
      using assms(1) 4 top_bits_3bytes[of ?x] by simp
    then have D: "D = [byte_at 24 ?x, byte_at 16 ?x, byte_at 8 ?x]" by (rule bits_of_inj)
    show ?thesis
    proof (cases "?x AND 0xFFFFFC00 = 0")
      case True
      let ?b = "(put_bytes [0, 0, 3] b)\<lparr>pb_emulCnt := pb_emulCnt b + 1, pb_cache := push_bit 16 ?x, pb_bit_cnt := 8\<rparr>"
      have "trailing_loop b = trailing_loop ?b"
        using 4 True by (subst trailing_loop.simps) (simp add: Let_def put_bytes_def)
      moreover have "escape D = [0, 0, 3, byte_at 8 ?x]"
        using True unfolding D emulation_test by simp
      ultimately show ?thesis using one[of ?b] by (auto simp: byte_at_shift' intro!: exI[of _ 4])
    next
      case False
      let ?b = "(put_bytes [byte_at 24 ?x] b)\<lparr>pb_cache := push_bit 8 ?x, pb_bit_cnt := 16\<rparr>"
      have "trailing_loop b = trailing_loop ?b"
        using 4 False by (subst trailing_loop.simps) (simp add: Let_def)
      moreover have "escape D = D"
        using False unfolding D emulation_test by auto
      moreover have "byte_at 16 (push_bit 8 ?x) = byte_at 8 ?x" by (rule bit_word_eqI) (auto simp: bit_simps)
      ultimately show ?thesis using two[of ?b] D by (auto simp: byte_at_shift' intro!: exI[of _ 3])
    qed
  qed
qed

lemma rbsp_trailing_bits_wrote:
  assumes w: "wrote s0 b bs" and r: "room b 40"
  shows "\<exists>b' B. rbsp_trailing_bits b = Some b' \<and> pb_stream b' = s0 @ escape B
    \<and> bits_of B = bs @ True # replicate ((7 * (length bs + 1)) mod 8) False"
proof -
  let ?j = "(7 * (length bs + 1)) mod 8"
  obtain b1 where b1: "put_bit b 1 1 = Some b1" "wrote s0 b1 (bs @ [True])" "room b1 37"
    using put_bit_wrote[OF w put_bit_pre_1(2) r] by (auto simp: low_bits_0_1[simplified])
  have "room b1 (8 + 3 * ?j)" using b1(3) mod_less_divisor[of 8 "7 * (length bs + 1)"] unfolding room_def by linarith
  moreover have "(length (bs @ [True]) + ?j) mod 8 = 0" by (simp add: mod_simps) presburger
  ultimately obtain b2 where b2: "align_loop put_bit b1 = Some b2"
      "wrote s0 b2 ((bs @ [True]) @ replicate ?j False)"
    using align_loop_wrote[OF b1(2)] by force
  let ?bs = "bs @ True # replicate ?j False"
  define B where "B = bytes_of ?bs"
  have "length ?bs mod 8 = 0" by (simp add: mod_simps) presburger
  then have B: "bits_of B = ?bs" unfolding B_def by (rule bits_of_bytes_of)
  from b2(2) obtain k where k: "8 * k \<le> length ?bs" "pending b2 = drop (8 * k) ?bs"
      "s0 @ escape B = pb_stream b2 @ escape (drop k B)" "unat (pb_bit_cnt b2) < 32"
    using B unfolding wrote_def cache_ok_def by fastforce
  have "bits_of (drop k B) = top_bits (unat (pb_bit_cnt b2)) (pb_cache b2)"
    using k(2) B by (simp add: bits_of_drop pending_def)
  moreover have "pb_bit_cnt b2 \<in> {0, 8, 16, 24}"
  proof -
    have "unat (pb_bit_cnt b2 mod 8) = 0" using wrote_mod8[OF b2(2)] \<open>length ?bs mod 8 = 0\<close> by simp
    then show ?thesis using k(4) by (intro unat_cases) (simp_all add: unat_mod)
  qed
  ultimately obtain b3 where "trailing_loop b2 = Some b3" "pb_stream b3 = pb_stream b2 @ escape (drop k B)"
    using trailing_loop_bytes by blast
  moreover have "\<not> buffer_full b" using room_not_full[OF r] by simp
  ultimately have "rbsp_trailing_bits b = Some b3" "pb_stream b3 = s0 @ escape B"
    using b1 b2 k(3) by (simp_all add: rbsp_trailing_bits_def)
  with B show ?thesis by blast
qed

subsection \<open>The writer returns and stays inside the buffer\<close>

lemma put_bit_count:
  assumes c: "unat (pb_bit_cnt b) < 32" and pre: "put_bit_pre v n" and nf: "\<not> buffer_full b"
  shows "\<exists>b'. put_bit b v n = Some b' \<and> pb_size b' = pb_size b \<and>
    (if unat (pb_bit_cnt b) + n < 32
     then unat (pb_bit_cnt b') = unat (pb_bit_cnt b) + n \<and> pb_cnt b' = pb_cnt b
     else (unat (pb_bit_cnt b') = unat (pb_bit_cnt b) + n - 8 \<and> pb_cnt b' = pb_cnt b + 1)
       \<or> (unat (pb_bit_cnt b') = unat (pb_bit_cnt b) + n - 16 \<and> pb_cnt b' = pb_cnt b + 3))"
proof -
  obtain c where c: "unat (pb_bit_cnt b) = c" and bc: "pb_bit_cnt b = of_nat c"
    by (metis of_nat_unat ucast_id)
  have n: "0 < n" "n \<le> 8" using pre by (auto simp: put_bit_pre_def)
  have bc': "pb_bit_cnt b + of_nat n = of_nat (c + n)" by (simp add: bc)
  have left: "sint (32 - (pb_bit_cnt b + of_nat n)) = 32 - int (c + n)"
    unfolding bc' by (rule sint_left) (use assms(1) n c in simp)
  have un: "unat (of_nat j :: 32 word) = j" if "j < 100" for j using that by (simp add: unat_of_nat)
  show ?thesis
  proof (cases "c + n < 32")
    case True
    then have "0 < 32 - int (c + n)" by simp
    with pre nf un[of "c + n"] True show ?thesis
      by (simp add: put_bit_def Let_def left c) (simp add: bc')
  next
    case False
    then have "24 \<le> c" using n by simp
    then have w: "pb_bit_cnt b + of_nat n - 8 = of_nat (c + n - 8)"
      "pb_bit_cnt b + of_nat n - 16 = of_nat (c + n - 16)" unfolding bc' by simp_all
    have u: "unat (of_nat (c + n - 8) :: 32 word) = c + n - 8"
      "unat (of_nat (c + n - 16) :: 32 word) = c + n - 16"
      using assms(1) n c by (simp_all add: unat_of_nat)
    have lft: "\<not> 0 < 32 - int (c + n)" using False by simp
    show ?thesis using pre nf False
      by (simp add: put_bit_def Let_def left lft put_bytes_def) (simp add: w u c del: of_nat_diff)
  qed
qed

lemma mod8_unat: "((x :: 32 word) mod 8 = 0) = (unat x mod 8 = 0)"
proof -
  have "unat (x mod 8) = unat x mod 8" by (simp add: unat_mod)
  then show ?thesis by (metis unat_0 unat_eq_0)
qed

lemma align_loop_count:
  assumes "unat (pb_bit_cnt b) < 32" "\<not> buffer_full b \<or> unat (pb_bit_cnt b) mod 8 = 0"
  shows "\<exists>b'. align_loop put_bit b = Some b' \<and> pb_size b' = pb_size b
    \<and> pb_bit_cnt b' \<in> {0, 8, 16, 24} \<and> (\<exists>k \<le> 3. pb_cnt b' = pb_cnt b + of_nat k
      \<and> (unat (pb_bit_cnt b) mod 8 = 0 \<longrightarrow> k = 0))"
  using assms
proof (induction "32 - unat (pb_bit_cnt b)" arbitrary: b rule: less_induct)
  case less
  show ?case
  proof (cases "unat (pb_bit_cnt b) mod 8 = 0")
    case True
    then show ?thesis using less.prems(1) unat_cases[of "pb_bit_cnt b"]
      by (subst align_loop.simps) (auto simp: mod8_unat intro!: exI[of _ 0])
  next
    case False
    with less.prems have nf: "\<not> buffer_full b" by simp
    from put_bit_count[OF less.prems(1) put_bit_pre_1(1) nf] obtain b1 where
      b1: "put_bit b 0 1 = Some b1" "pb_size b1 = pb_size b" and
      c1: "if unat (pb_bit_cnt b) + 1 < 32
        then unat (pb_bit_cnt b1) = unat (pb_bit_cnt b) + 1 \<and> pb_cnt b1 = pb_cnt b
        else (unat (pb_bit_cnt b1) = unat (pb_bit_cnt b) + 1 - 8 \<and> pb_cnt b1 = pb_cnt b + 1)
          \<or> (unat (pb_bit_cnt b1) = unat (pb_bit_cnt b) + 1 - 16 \<and> pb_cnt b1 = pb_cnt b + 3)" by blast
    have step: "align_loop put_bit b = align_loop put_bit b1"
      using False b1(1) by (subst align_loop.simps) (simp add: mod8_unat)
    show ?thesis
    proof (cases "unat (pb_bit_cnt b) + 1 < 32")
      case True
      with c1 have c: "unat (pb_bit_cnt b1) = unat (pb_bit_cnt b) + 1" "pb_cnt b1 = pb_cnt b" by simp_all
      have "\<not> buffer_full b1" using nf b1(2) c(2) by (simp add: buffer_full_def)
      with less.hyps[of b1] c True obtain b2 where b2: "align_loop put_bit b1 = Some b2"
        "pb_size b2 = pb_size b1" "pb_bit_cnt b2 \<in> {0, 8, 16, 24}" and
        "\<exists>k \<le> 3. pb_cnt b2 = pb_cnt b1 + of_nat k" by force
      then obtain k where "k \<le> 3" "pb_cnt b2 = pb_cnt b1 + of_nat k" by blast
      with b2 step c(2) b1(2) False show ?thesis by auto
    next
      case F: False
      then have e: "unat (pb_bit_cnt b) = 31" using less.prems(1) by simp
      with c1 have c: "(unat (pb_bit_cnt b1) = 24 \<and> pb_cnt b1 = pb_cnt b + of_nat 1)
          \<or> (unat (pb_bit_cnt b1) = 16 \<and> pb_cnt b1 = pb_cnt b + of_nat 3)" by simp
      then have "unat (pb_bit_cnt b1) mod 8 = 0" "unat (pb_bit_cnt b1) < 32" by auto
      moreover from this have "align_loop put_bit b1 = Some b1"
        by (subst align_loop.simps) (simp add: mod8_unat)
      moreover have "\<exists>k\<le>3. pb_cnt b1 = pb_cnt b + of_nat k" using c by (elim disjE) (auto intro: exI[of _ 1] exI[of _ 3])
      ultimately show ?thesis using step b1(2) False unat_cases[of "pb_bit_cnt b1"] by auto
    qed
  qed
qed

lemma rbsp_trailing_bits_count:
  assumes "unat (pb_bit_cnt b) < 32" "unat (pb_cnt b) < 2 ^ 32 - 8"
  shows "\<exists>b'. rbsp_trailing_bits b = Some b'
    \<and> (buffer_full b \<longrightarrow> b' = b)
    \<and> (\<not> buffer_full b \<longrightarrow> pb_bit_cnt b' = 0 \<and> unat (pb_cnt b') \<le> unat (pb_cnt b) + 7
         \<and> pb_cnt b' \<le> pb_size b')"
proof (cases "buffer_full b")
  case False
  from put_bit_count[OF assms(1) put_bit_pre_1(2) False] obtain b1 where
    b1: "put_bit b 1 1 = Some b1" "pb_size b1 = pb_size b" and
    c1: "if unat (pb_bit_cnt b) + 1 < 32
      then unat (pb_bit_cnt b1) = unat (pb_bit_cnt b) + 1 \<and> pb_cnt b1 = pb_cnt b
      else (unat (pb_bit_cnt b1) = unat (pb_bit_cnt b) + 1 - 8 \<and> pb_cnt b1 = pb_cnt b + 1)
        \<or> (unat (pb_bit_cnt b1) = unat (pb_bit_cnt b) + 1 - 16 \<and> pb_cnt b1 = pb_cnt b + 3)" by blast
  have "\<exists>k b2. k \<le> 3 \<and> align_loop put_bit b1 = Some b2 \<and> pb_size b2 = pb_size b
      \<and> pb_bit_cnt b2 \<in> {0, 8, 16, 24} \<and> pb_cnt b2 = pb_cnt b + of_nat k"
  proof (cases "unat (pb_bit_cnt b) + 1 < 32")
    case True
    with c1 have c: "unat (pb_bit_cnt b1) = unat (pb_bit_cnt b) + 1" "pb_cnt b1 = pb_cnt b" by simp_all
    have "\<not> buffer_full b1" using False b1(2) c(2) by (simp add: buffer_full_def)
    with align_loop_count[of b1] c True obtain b2 k where
      "align_loop put_bit b1 = Some b2" "pb_size b2 = pb_size b1" "pb_bit_cnt b2 \<in> {0, 8, 16, 24}"
      "k \<le> 3" "pb_cnt b2 = pb_cnt b1 + of_nat k" by force
    with c(2) b1(2) show ?thesis by auto
  next
    case F: False
    then have e: "unat (pb_bit_cnt b) = 31" using assms(1) by simp
    with c1 have "(unat (pb_bit_cnt b1) = 24 \<and> pb_cnt b1 = pb_cnt b + of_nat 1)
        \<or> (unat (pb_bit_cnt b1) = 16 \<and> pb_cnt b1 = pb_cnt b + of_nat 3)" by simp
    then obtain k where k: "k \<le> 3" "pb_cnt b1 = pb_cnt b + of_nat k"
      and m: "unat (pb_bit_cnt b1) mod 8 = 0" "unat (pb_bit_cnt b1) < 32" by (auto intro: that[of 1] that[of 3])
    from align_loop_count[OF m(2)] m(1) obtain b2 where
      "align_loop put_bit b1 = Some b2" "pb_size b2 = pb_size b1" "pb_bit_cnt b2 \<in> {0, 8, 16, 24}"
      "pb_cnt b2 = pb_cnt b1" by auto
    with k b1(2) show ?thesis by auto
  qed
  then obtain k b2 where b2: "k \<le> 3" "align_loop put_bit b1 = Some b2" "pb_size b2 = pb_size b"
      "pb_bit_cnt b2 \<in> {0, 8, 16, 24}" "pb_cnt b2 = pb_cnt b + of_nat k" by blast
  define D where "D = bytes_of (top_bits (unat (pb_bit_cnt b2)) (pb_cache b2))"
  have "bits_of D = top_bits (unat (pb_bit_cnt b2)) (pb_cache b2)"
    unfolding D_def using b2(4) by (intro bits_of_bytes_of) auto
  from trailing_loop_bytes[OF this b2(4)] obtain b3 n where b3: "trailing_loop b2 = Some b3"
    "pb_size b3 = pb_size b2" "pb_bit_cnt b3 = 0" "n \<le> 4" "pb_cnt b3 = pb_cnt b2 + of_nat n" by blast
  have cnt: "pb_cnt b3 = pb_cnt b + of_nat (k + n)" using b3(5) b2(5) by simp
  have small: "k + n \<le> 7" using b2(1) b3(4) by simp
  then have un: "unat (pb_cnt b3) = unat (pb_cnt b) + (k + n)"
    unfolding cnt using assms(2)
    by (subst unat_word_ariths) (simp only: unat_of_nat, simp)
  have "unat (pb_cnt b + 8) = unat (pb_cnt b) + 8" using assms(2) by (subst unat_word_ariths) simp
  then have "unat (pb_cnt b) + 8 \<le> unat (pb_size b)"
    using False by (simp add: buffer_full_def word_less_nat_alt)
  then have "pb_cnt b3 \<le> pb_size b3" using un small b2(3) b3(2) by (simp add: word_le_nat_alt)
  moreover have "rbsp_trailing_bits b = Some b3"
    using False b1(1) b2(2) b3(1) by (simp add: rbsp_trailing_bits_def)
  ultimately show ?thesis using False un small b3(3) by auto
qed (simp add: rbsp_trailing_bits_def)

text \<open>The counter stays within the size, whether or not there is room.\<close>

definition in_bounds :: "put_buffer \<Rightarrow> bool" where
  "in_bounds b = (unat (pb_bit_cnt b) < 32 \<and> pb_cnt b \<le> pb_size b \<and> unat (pb_size b) < 2 ^ 32 - 8)"

lemma cnt_add:
  assumes "pb_cnt b \<le> pb_size b" "unat (pb_size b) < 2 ^ 32 - 8" "k \<le> 8"
  shows "unat (pb_cnt b + of_nat k) = unat (pb_cnt b) + k"
  using assms by (subst unat_word_ariths) (simp add: unat_of_nat word_le_nat_alt)

lemma put_bit_in_bounds:
  assumes "in_bounds b" "put_bit_pre v n"
  shows "\<exists>b'. put_bit b v n = Some b' \<and> in_bounds b' \<and> pb_size b' = pb_size b"
proof (cases "buffer_full b")
  case True
  then show ?thesis using assms by (simp add: put_bit_def)
next
  case False
  have i: "unat (pb_bit_cnt b) < 32" "pb_cnt b \<le> pb_size b" "unat (pb_size b) < 2 ^ 32 - 8"
    using assms(1) by (auto simp: in_bounds_def)
  have n: "n \<le> 8" using assms(2) by (simp add: put_bit_pre_def)
  have "unat (pb_cnt b) + 8 \<le> unat (pb_size b)"
    using False cnt_add[OF i(2,3), of 8] by (simp add: buffer_full_def word_less_nat_alt)
  then have "pb_cnt b + of_nat k \<le> pb_size b" if "k \<le> 8" for k
    using cnt_add[OF i(2,3) that] that by (simp add: word_le_nat_alt)
  from this[of 1] this[of 3] show ?thesis
    using put_bit_count[OF i(1) assms(2) False] i n unfolding in_bounds_def
    by (elim exE conjE) (auto split: if_splits)
qed

lemma put_bit_32_loop_in_bounds:
  assumes "in_bounds b" "number \<le> 8 * k" "k \<le> 4" "\<forall>j. number \<le> j \<and> j < 8 * k \<longrightarrow> \<not> bit v j"
  shows "\<exists>b'. put_bit_32_loop put_bit k b v number = Some b' \<and> in_bounds b' \<and> pb_size b' = pb_size b"
  using assms
proof (induction k arbitrary: b number)
  case (Suc k)
  show ?case
  proof (cases "number > 8 * k")
    case False
    have "number = 0 \<Longrightarrow> put_bit_32_loop put_bit k b v number = Some b" by (cases k) auto
    with Suc.IH[OF Suc.prems(1), of number] Suc.prems(3,4) False show ?thesis by (auto simp: Let_def)
  next
    case True
    have "put_bit_pre (signed_drop_bit (8 * k) v AND 0xFF) (number - 8 * k)"
      by (rule chunk_pre) (use True Suc.prems in auto)
    from put_bit_in_bounds[OF Suc.prems(1) this] obtain b1 where
      b1: "put_bit b (signed_drop_bit (8 * k) v AND 0xFF) (number - 8 * k) = Some b1"
      "in_bounds b1" "pb_size b1 = pb_size b" by auto
    have "\<forall>j. 8 * k \<le> j \<and> j < 8 * k \<longrightarrow> \<not> bit v j" "k \<le> 4" using Suc.prems(3) by auto
    from Suc.IH[OF b1(2) order_refl this(2,1)] b1 True show ?thesis by (auto simp: Let_def)
  qed
qed simp

lemma put_bit_32_in_bounds:
  assumes "in_bounds b" "number \<le> 32" "\<forall>j. number \<le> j \<longrightarrow> \<not> bit v j"
  shows "\<exists>b'. put_bit_32 b v number = Some b' \<and> in_bounds b' \<and> pb_size b' = pb_size b"
  using put_bit_32_loop_in_bounds[OF assms(1), of number 4 v] assms(2,3) by (simp add: put_bit_32_def)

subsection \<open>Sequences of syntax elements\<close>

text \<open>What the stream writers above this layer put out: fixed-length fields and codes.\<close>

datatype (plugins only: code size) syntax_element = U "32 word" nat | UE nat | SE int

definition put_element :: "syntax_element \<Rightarrow> put_buffer \<Rightarrow> put_buffer option" where
  "put_element e b = (case e of U v n \<Rightarrow> put_bit_32 b v n | UE n \<Rightarrow> put_bit_ue b (int n)
     | SE v \<Rightarrow> put_bit_se b v)"

fun put_elements :: "syntax_element list \<Rightarrow> put_buffer \<Rightarrow> put_buffer option" where
  "put_elements [] b = Some b"
| "put_elements (e # es) b = Option.bind (put_element e b) (put_elements es)"

definition element_ok :: "syntax_element \<Rightarrow> bool" where
  "element_ok e = (case e of U v n \<Rightarrow> n \<le> 32 \<and> drop_bit n v = 0 | UE n \<Rightarrow> n + 1 < 2 ^ 16
     | SE v \<Rightarrow> se_code_num v + 1 < 2 ^ 16)"

definition element_bits :: "syntax_element \<Rightarrow> bits" where
  "element_bits e = (case e of U v n \<Rightarrow> low_bits n v | UE n \<Rightarrow> eg_code n
     | SE v \<Rightarrow> eg_code (se_code_num v))"

lemma drop_bit_0_bits: "drop_bit n (v :: 32 word) = 0 \<Longrightarrow> n \<le> j \<Longrightarrow> \<not> bit v j"
proof
  assume z: "drop_bit n v = 0" "n \<le> j" "bit v j"
  from z(2,3) have "bit (drop_bit n v) (j - n)" by (simp add: bit_drop_bit_eq)
  with z(1) show False by simp
qed

lemma put_element_wrote:
  assumes "wrote s0 b bs" "element_ok e" "room b m" "20 \<le> m"
  shows "\<exists>b'. put_element e b = Some b' \<and> wrote s0 b' (bs @ element_bits e) \<and> room b' (m - 12)"
proof (cases e)
  case (U v n)
  then show ?thesis using put_bit_32_wrote[OF assms(1) _ assms(3,4), of n v] assms(2) drop_bit_0_bits[of n v]
    by (simp add: put_element_def element_ok_def element_bits_def)
qed (use put_bit_ue_wrote[OF assms(1) _ assms(3,4)] put_bit_se_wrote[OF assms(1) _ assms(3,4)] assms(2)
  in \<open>simp_all add: put_element_def element_ok_def element_bits_def\<close>)

lemma put_elements_wrote:
  assumes "wrote s0 b bs" "list_all element_ok es" "room b (40 + 12 * length es)"
  shows "\<exists>b'. put_elements es b = Some b' \<and> wrote s0 b' (bs @ concat (map element_bits es)) \<and> room b' 40"
  using assms
proof (induction es arbitrary: b bs)
  case (Cons e es)
  from put_element_wrote[OF Cons.prems(1) _ Cons.prems(3)] Cons.prems(2) obtain b1 where
    b1: "put_element e b = Some b1" "wrote s0 b1 (bs @ element_bits e)" "room b1 (40 + 12 * length es)"
    by auto
  from Cons.IH[OF b1(2) _ b1(3)] Cons.prems(2) b1(1) show ?case by auto
qed auto

lemma put_element_in_bounds:
  assumes "in_bounds b" "element_ok e"
  shows "\<exists>b'. put_element e b = Some b' \<and> in_bounds b' \<and> pb_size b' = pb_size b"
proof -
  have ue: "\<exists>b'. put_bit_ue b (int n) = Some b' \<and> in_bounds b' \<and> pb_size b' = pb_size b"
    if "n + 1 < 2 ^ 16" for n
    unfolding put_bit_ue_is[OF that] using eg_len_le[of "n + 1" 16] eg_code_word[OF that] that
    by (intro put_bit_32_in_bounds[OF assms(1)]) auto
  show ?thesis
  proof (cases e)
    case (U v n)
    then show ?thesis using put_bit_32_in_bounds[OF assms(1), of n v] assms(2) drop_bit_0_bits[of n v]
      by (simp add: put_element_def element_ok_def)
  next
    case (SE v)
    then show ?thesis using ue[of "se_code_num v"] assms(2)
      by (simp add: put_element_def element_ok_def put_bit_se_is)
  qed (use ue assms(2) in \<open>simp add: put_element_def element_ok_def\<close>)
qed

lemma put_elements_in_bounds:
  assumes "in_bounds b" "list_all element_ok es"
  shows "\<exists>b'. put_elements es b = Some b' \<and> in_bounds b' \<and> pb_size b' = pb_size b"
  using assms
proof (induction es arbitrary: b)
  case (Cons e es)
  with put_element_in_bounds[OF Cons.prems(1), of e] obtain b1 where
    b1: "put_element e b = Some b1" "in_bounds b1" "pb_size b1 = pb_size b" by auto
  from Cons.IH[OF b1(2)] Cons.prems(2) b1(1,3) show ?case by auto
qed auto

subsection \<open>Properties\<close>

lemma wrote_start: "cache_ok b \<Longrightarrow> pb_bit_cnt b = 0 \<Longrightarrow> wrote (pb_stream b) b []"
  by (auto simp: wrote_def pending_def top_bits_def intro!: exI[of _ 0])

definition demo_buffer :: put_buffer where
  "demo_buffer = \<lparr>pb_stream = [], pb_cnt = 0, pb_size = 100, pb_cache = 0, pb_bit_cnt = 0, pb_emulCnt = 0\<rparr>"

lemma demo_buffer_simps [simp]:
  "pb_stream demo_buffer = []" "pb_cnt demo_buffer = 0" "pb_size demo_buffer = 100"
  "pb_cache demo_buffer = 0" "pb_bit_cnt demo_buffer = 0"
  by (simp_all add: demo_buffer_def)

text \<open>
  C14: syntax elements put into a writer whose cache is empty and whose buffer has room, and then
  the RBSP trailing bits, append to the stream exactly the escaped bytes of an RBSP whose bits are
  the fixed-length fields and Exp-Golomb codes in order, a one, and the zeros up to the next byte.
\<close>

theorem put_elements_stream:
  assumes "pb_bit_cnt b = 0" "pb_cache b = 0" "list_all element_ok es"
    and "unat (pb_cnt b) + 40 + 12 * length es \<le> unat (pb_size b)"
  shows "\<exists>b' b'' B. put_elements es b = Some b' \<and> rbsp_trailing_bits b' = Some b''
    \<and> pb_stream b'' = pb_stream b @ escape B
    \<and> bits_of B = (let bs = concat (map element_bits es)
        in bs @ True # replicate ((7 * (length bs + 1)) mod 8) False)"
proof -
  have "wrote (pb_stream b) b []" using assms(1,2) by (intro wrote_start) (auto simp: cache_ok_def)
  from put_elements_wrote[OF this assms(3)] assms(4) obtain b' where
    b': "put_elements es b = Some b'" "wrote (pb_stream b) b' (concat (map element_bits es))" "room b' 40"
    by (auto simp: room_def)
  from rbsp_trailing_bits_wrote[OF b'(2,3)] b'(1) show ?thesis by (auto simp: Let_def)
qed

theorem put_elements_stream_witness:
  "\<exists>b' b'' B. put_elements [U 0x67 8, UE 0, UE 5, SE (-3)] demo_buffer = Some b'
    \<and> rbsp_trailing_bits b' = Some b''
    \<and> pb_stream b'' = pb_stream demo_buffer @ escape B
    \<and> bits_of B = (let bs = concat (map element_bits [U 0x67 8, UE 0, UE 5, SE (-3)])
        in bs @ True # replicate ((7 * (length bs + 1)) mod 8) False)"
  by (rule put_elements_stream)
    (simp_all add: element_ok_def se_code_num_def drop_bit_eq_div)

text \<open>
  what the writer appends holds no three bytes 0, 0 and one below 3, so neither a start code
  nor its prefix, whatever the syntax elements were.
\<close>

theorem put_elements_no_start_code:
  assumes "pb_bit_cnt b = 0" "pb_cache b = 0" "list_all element_ok es"
    and "unat (pb_cnt b) + 40 + 12 * length es \<le> unat (pb_size b)"
    and "Option.bind (put_elements es b) rbsp_trailing_bits = Some b''"
    and "length (pb_stream b) \<le> i" "i + 2 < length (pb_stream b'')"
    and "pb_stream b'' ! i = 0" "pb_stream b'' ! (i + 1) = 0"
  shows "3 \<le> pb_stream b'' ! (i + 2)"
proof -
  have "wrote (pb_stream b) b []" using assms(1,2) by (intro wrote_start) (auto simp: cache_ok_def)
  from put_elements_wrote[OF this assms(3)] assms(4) obtain b' where
    b': "put_elements es b = Some b'" "wrote (pb_stream b) b' (concat (map element_bits es))" "room b' 40"
    by (auto simp: room_def)
  from rbsp_trailing_bits_wrote[OF b'(2,3)] b'(1) assms(5) obtain B where
    B: "pb_stream b'' = pb_stream b @ escape B" by auto
  have "3 \<le> escape B ! (i - length (pb_stream b) + 2)"
    by (rule code_free_nth[OF code_free_escape]) (use assms(6-9) in \<open>auto simp: B nth_append Suc_diff_le\<close>)
  then show ?thesis using assms(6) by (simp add: B nth_append Suc_diff_le)
qed

theorem put_elements_no_start_code_witness:
  "\<exists>b''. Option.bind (put_elements [U 0 32, U 1 31] demo_buffer) rbsp_trailing_bits = Some b''
    \<and> pb_stream b'' = [0, 0, 3, 0, 0, 3, 0, 0, 3, 0, 3] \<and> 3 \<le> pb_stream b'' ! (0 + 2)"
proof -
  let ?b = "demo_buffer\<lparr>pb_stream := [0, 0, 3, 0, 0, 3, 0, 0, 3], pb_cnt := 9, pb_emulCnt := 3\<rparr>"
  have full: "(case put_elements [U 0 32, U 1 31] demo_buffer of None \<Rightarrow> True | Some b \<Rightarrow> buffer_full b) = False"
    by code_simp
  have put: "Option.bind (put_elements [U 0 32, U 1 31] demo_buffer) (\<lambda>b. put_bit b 1 1)
      = Some (?b\<lparr>pb_cache := 0x30000, pb_bit_cnt := 16\<rparr>)" by code_simp
  have align: "align_loop put_bit (?b\<lparr>pb_cache := 0x30000, pb_bit_cnt := 16\<rparr>)
      = Some (?b\<lparr>pb_cache := 0x30000, pb_bit_cnt := 16\<rparr>)" by (subst align_loop.simps) simp
  have flush: "trailing_loop (?b\<lparr>pb_cache := 0x30000, pb_bit_cnt := 16\<rparr>)
      = Some (?b\<lparr>pb_stream := [0, 0, 3, 0, 0, 3, 0, 0, 3, 0, 3], pb_cnt := 11, pb_cache := 0, pb_bit_cnt := 0\<rparr>)"
    by (simp add: trailing_loop.simps put_bytes_def Let_def)
  have "Option.bind (put_elements [U 0 32, U 1 31] demo_buffer) rbsp_trailing_bits
      = Some (?b\<lparr>pb_stream := [0, 0, 3, 0, 0, 3, 0, 0, 3, 0, 3], pb_cnt := 11, pb_cache := 0, pb_bit_cnt := 0\<rparr>)"
    (is "?run = Some ?b''")
    using full put align flush by (auto simp: rbsp_trailing_bits_def bind_eq_Some_conv split: option.splits)
  moreover from this have "3 \<le> pb_stream ?b'' ! (0 + 2)"
    by (intro put_elements_no_start_code[where b = demo_buffer and es = "[U 0 32, U 1 31]"])
      (auto simp: element_ok_def drop_bit_eq_div)
  ultimately show ?thesis by simp
qed
text \<open>
  C40: the trailing bits always end, also when the buffer runs full on the way: either the buffer
  was full and nothing happens, or all bits of the cache are flushed, at most 7 bytes are
  written and the byte counter stays within the buffer's size.
\<close>

theorem rbsp_trailing_bits_total:
  assumes "unat (pb_bit_cnt b) < 32" "unat (pb_cnt b) < 2 ^ 32 - 8"
  shows "\<exists>b'. rbsp_trailing_bits b = Some b'
    \<and> (buffer_full b \<longrightarrow> b' = b)
    \<and> (\<not> buffer_full b \<longrightarrow> pb_bit_cnt b' = 0 \<and> unat (pb_cnt b') \<le> unat (pb_cnt b) + 7
         \<and> pb_cnt b' \<le> pb_size b')"
  by (rule rbsp_trailing_bits_count[OF assms])

theorem rbsp_trailing_bits_total_witness:
  "\<exists>b'. rbsp_trailing_bits (demo_buffer\<lparr>pb_bit_cnt := 31, pb_cnt := 91\<rparr>) = Some b'
    \<and> pb_bit_cnt b' = 0 \<and> unat (pb_cnt b') \<le> 98 \<and> pb_cnt b' \<le> pb_size b'"
  using rbsp_trailing_bits_total[of "demo_buffer\<lparr>pb_bit_cnt := 31, pb_cnt := 91\<rparr>"]
  by (simp add: buffer_full_def)

text \<open>
  C37: the writer never overruns its buffer: any valid syntax elements are accepted without a
  failed assertion, however little room is left, and the byte counter stays within the size.
\<close>

theorem put_elements_bounded:
  assumes "unat (pb_bit_cnt b) < 32" "pb_cnt b \<le> pb_size b" "unat (pb_size b) < 2 ^ 32 - 8"
    and "list_all element_ok es"
  shows "\<exists>b'. put_elements es b = Some b' \<and> unat (pb_bit_cnt b') < 32
    \<and> pb_cnt b' \<le> pb_size b' \<and> pb_size b' = pb_size b"
proof -
  have "in_bounds b" using assms(1-3) by (simp add: in_bounds_def)
  from put_elements_in_bounds[OF this assms(4)] show ?thesis by (auto simp: in_bounds_def)
qed

theorem put_elements_bounded_witness:
  "\<exists>b'. put_elements [UE 77, SE 9, U 5 32] (demo_buffer\<lparr>pb_cnt := 93\<rparr>) = Some b'
    \<and> unat (pb_bit_cnt b') < 32 \<and> pb_cnt b' \<le> pb_size b' \<and> pb_size b' = 100"
  using put_elements_bounded[of "demo_buffer\<lparr>pb_cnt := 93\<rparr>" "[UE 77, SE 9, U 5 32]"]
  by (simp add: element_ok_def se_code_num_def drop_bit_eq_div)

end
