(* ===== verification/ExpGolomb.thy ===== *)
theory ExpGolomb
  imports H264Stream PutBits
begin

text \<open>
  The decoder's Exp-Golomb codes, vc8000d/software/source/h264high/legacy/h264hwd\_vlc.c, with
  h264bsdCountLeadingZeros and the end-of-payload checks of h264hwd\_util.c.

  A function returns its status, the values of its output parameters (with the value they had
  before where it does not write them) and the stream.
\<close>

subsection \<open>h264hwd\_util.c\<close>

text \<open>while (mask \&\& !(value \& mask))\<close>

function clz_loop :: "32 word \<Rightarrow> 32 word \<Rightarrow> nat \<Rightarrow> nat" where
  "clz_loop value msk zeros =
     (if msk \<noteq> 0 \<and> value AND msk = 0 then clz_loop value (drop_bit 1 msk) (zeros + 1) else zeros)"
  by pat_completeness auto
termination
proof (relation "measure (\<lambda>(v, msk, zeros). unat msk)")
  fix v msk :: "32 word" and zeros :: nat
  assume "msk \<noteq> 0 \<and> v AND msk = 0"
  then have "0 < unat msk" by (simp add: unat_gt_0)
  then show "((v, drop_bit 1 msk, zeros + 1), v, msk, zeros)
      \<in> measure (\<lambda>(v, msk, zeros). unat msk)"
    using unat_drop_bit_div[of 1 msk] by simp
qed simp

declare clz_loop.simps [simp del]

definition h264bsdCountLeadingZeros :: "32 word \<Rightarrow> nat \<Rightarrow> nat option" where
  "h264bsdCountLeadingZeros value len =
     (if 0 < len \<and> len \<le> 32 then Some (clz_loop value (2 ^ (len - 1)) 0) else None)"

text \<open>Without HANTRO\_PEDANTIC\_MODE the stuffing bits are not compared.\<close>

definition h264bsdRbspTrailingBits :: "strm_data \<Rightarrow> (32 word \<times> strm_data) option" where
  "h264bsdRbspTrailingBits s =
     (if sd_bit_pos s \<ge> 8 then None
      else do {
        let stuffing_length = 8 - sd_bit_pos s;
        (stuffing, s) \<leftarrow> h264bsdGetBits s stuffing_length;
        Some (if stuffing = END_OF_STREAM then HANTRO_NOK else HANTRO_OK, s)
      })"

definition h264bsdMoreRbspData :: "strm_data \<Rightarrow> bool option" where
  "h264bsdMoreRbspData s =
     (if sd_read_bits s > u32 (8 * sd_data_size s) then None
      else
        let bits = u32 (8 * sd_data_size s) - sd_read_bits s
        in if bits = 0 then Some False
           else if bits > 8 then
             if sd_remove_emul3 s then Some True
             else
               let bits = (if bits mod 8 = 0 then 8 else bits mod 8)
               in do {
                    x \<leftarrow> h264bsdShowBits s bits;
                    if x \<noteq> 2 ^ (bits - 1) then Some True
                    else do {
                      y \<leftarrow> h264bsdShowBits s (23 + bits);
                      Some (push_bit 9 y \<noteq> 0)
                    }
                  }
           else do {
             x \<leftarrow> h264bsdShowBits s bits;
             Some (x \<noteq> 2 ^ (bits - 1))
           })"

subsection \<open>h264hwd\_vlc.c\<close>

definition BIG_CODE_NUM :: "32 word" where "BIG_CODE_NUM = 0xFFFFFFFF"

definition coded_block_pattern_intra4x4 :: "nat list" where
  "coded_block_pattern_intra4x4 = [
     47,31,15,0,23,27,29,30,7,11,13,14,39,43,45,46,16,3,5,10,12,19,21,26,28,35,
     37,42,44,1,2,4,8,17,18,20,24,6,9,22,25,32,33,34,36,40,38,41]"

definition coded_block_pattern_inter :: "nat list" where
  "coded_block_pattern_inter = [
     0,16,1,2,4,8,32,3,5,10,12,15,47,7,11,13,14,6,9,31,35,37,42,44,33,34,36,40,
     39,43,45,46,17,18,20,24,19,21,26,28,23,27,29,30,22,25,38,41]"

text \<open>The status other than END\_OF\_STREAM that h264bsdFlushBits may return, HANTRO\_NOK at a
  start code prefix, is taken as success, as in the code.\<close>

definition flush_then ::
  "strm_data \<Rightarrow> nat \<Rightarrow> 32 word \<Rightarrow> (strm_data \<Rightarrow> (32 word \<times> 32 word \<times> strm_data) option)
    \<Rightarrow> (32 word \<times> 32 word \<times> strm_data) option" where
  "flush_then s num_bits code_num k = do {
     (status, s) \<leftarrow> h264bsdFlushBits s num_bits;
     if status = END_OF_STREAM then Some (HANTRO_NOK, code_num, s) else k s
   }"

definition h264bsdDecodeExpGolombUnsigned ::
  "strm_data \<Rightarrow> 32 word \<Rightarrow> (32 word \<times> 32 word \<times> strm_data) option" where
  "h264bsdDecodeExpGolombUnsigned s code_num = do {
     bits \<leftarrow> h264bsdShowBits s 32;
     if bits \<ge> 0x80000000 then
       flush_then s 1 code_num (\<lambda>s. Some (HANTRO_OK, 0, s))
     else if bits \<ge> 0x40000000 then
       flush_then s 3 code_num (\<lambda>s. Some (HANTRO_OK, 1 + (drop_bit 29 bits AND 0x1), s))
     else if bits \<ge> 0x20000000 then
       flush_then s 5 code_num (\<lambda>s. Some (HANTRO_OK, 3 + (drop_bit 27 bits AND 0x3), s))
     else if bits \<ge> 0x10000000 then
       flush_then s 7 code_num (\<lambda>s. Some (HANTRO_OK, 7 + (drop_bit 25 bits AND 0x7), s))
     else do {
       zeros \<leftarrow> h264bsdCountLeadingZeros bits 28;
       let num_zeros = 4 + zeros;
       if num_zeros = 32 then
         flush_then s 32 0 (\<lambda>s. do {
           (bits, s) \<leftarrow> h264bsdGetBits s 1;
           if bits = 1 then do {
             bits \<leftarrow> h264bsdShowBits s 32;
             flush_then s 32 0 (\<lambda>s.
               if bits = 0 then Some (HANTRO_OK, BIG_CODE_NUM, s)
               else if bits = 1 then Some (HANTRO_NOK, BIG_CODE_NUM, s)
               else Some (HANTRO_NOK, 0, s))
           }
           else Some (HANTRO_NOK, 0, s)
         })
       else
         flush_then s (num_zeros + 1) code_num (\<lambda>s. do {
           (bits, s) \<leftarrow> h264bsdGetBits s num_zeros;
           if bits = END_OF_STREAM then Some (HANTRO_NOK, code_num, s)
           else Some (HANTRO_OK, push_bit num_zeros 1 - 1 + bits, s)
         })
     }
   }"

text \<open>value is an i32, kept as the 32-bit word it is stored in.\<close>

definition h264bsdDecodeExpGolombSigned ::
  "strm_data \<Rightarrow> 32 word \<Rightarrow> (32 word \<times> 32 word \<times> strm_data) option" where
  "h264bsdDecodeExpGolombSigned s v = do {
     (status, code_num, s) \<leftarrow> h264bsdDecodeExpGolombUnsigned s 0;
     Some (if code_num = BIG_CODE_NUM then
             if status = HANTRO_OK then (HANTRO_NOK, v, s) else (HANTRO_OK, 0x80000000, s)
           else if status = HANTRO_OK then
             (HANTRO_OK, if code_num AND 0x1 \<noteq> 0 then drop_bit 1 (code_num + 1)
                         else - drop_bit 1 (code_num + 1), s)
           else (HANTRO_NOK, v, s))
   }"

text \<open>code\_num is not initialised; it is only read after it has been written.\<close>

definition h264bsdDecodeExpGolombMapped ::
  "strm_data \<Rightarrow> 32 word \<Rightarrow> bool \<Rightarrow> (32 word \<times> 32 word \<times> strm_data) option" where
  "h264bsdDecodeExpGolombMapped s v is_intra = do {
     (status, code_num, s) \<leftarrow> h264bsdDecodeExpGolombUnsigned s 0;
     Some (if status \<noteq> HANTRO_OK then (HANTRO_NOK, v, s)
           else if code_num > 47 then (HANTRO_NOK, v, s)
           else if is_intra then
             (HANTRO_OK, of_nat (coded_block_pattern_intra4x4 ! unat code_num), s)
           else (HANTRO_OK, of_nat (coded_block_pattern_inter ! unat code_num), s))
   }"

definition h264bsdDecodeExpGolombTruncated ::
  "strm_data \<Rightarrow> 32 word \<Rightarrow> bool \<Rightarrow> (32 word \<times> 32 word \<times> strm_data) option" where
  "h264bsdDecodeExpGolombTruncated s v greater_than_one =
     (if greater_than_one then h264bsdDecodeExpGolombUnsigned s v
      else do {
        (v, s) \<leftarrow> h264bsdGetBits s 1;
        Some (if v = END_OF_STREAM then (HANTRO_NOK, v, s) else (HANTRO_OK, v XOR 0x1, s))
      })"

subsection \<open>Words from bit strings\<close>

lemma unat_ge_bit: "bit (w :: 32 word) k \<Longrightarrow> 2 ^ k \<le> unat w"
proof -
  assume b: "bit w k"
  have "unat (drop_bit k w) \<noteq> 0"
  proof
    assume "unat (drop_bit k w) = 0"
    then have "drop_bit k w = 0" by (simp add: unat_eq_0)
    moreover have "bit (drop_bit k w) 0" using b by (simp add: bit_drop_bit_eq)
    ultimately show False by simp
  qed
  then have "unat w div 2 ^ k \<noteq> 0" by (simp add: unat_drop_bit_div)
  then show ?thesis by (simp add: div_eq_0_iff not_less)
qed

lemma unat_lt_bits:
  assumes "\<And>j. k \<le> j \<Longrightarrow> \<not> bit (w :: 32 word) j"
  shows "unat w < 2 ^ k"
proof -
  have "take_bit k w = w"
  proof (rule bit_word_eqI)
    fix j show "bit (take_bit k w) j = bit w j" using assms[of j] by (cases "k \<le> j") (auto simp: bit_take_bit_iff)
  qed
  then have "unat w = take_bit k (unat w)" by (metis unsigned_take_bit_eq)
  then show ?thesis by (metis take_bit_nat_less_exp)
qed

lemma word_of_low_bits:
  assumes "\<And>j. j < k \<Longrightarrow> bit (w :: 32 word) j = bit (m :: nat) j" "\<And>j. k \<le> j \<Longrightarrow> \<not> bit w j" "k \<le> 32"
  shows "w = of_nat (take_bit k m)"
proof (rule bit_word_eqI)
  fix j assume "j < LENGTH(32)"
  then show "bit w j = bit (of_nat (take_bit k m) :: 32 word) j"
    using assms(1)[of j] assms(2)[of j] by (cases "k \<le> j") (auto simp: bit_of_nat_iff bit_take_bit_iff)
qed

subsection \<open>Leading zeros\<close>

lemma exp_ne: "k < 32 \<Longrightarrow> (2 :: 32 word) ^ k \<noteq> 0"
  by simp

lemma clz_loop_0: "clz_loop v 1 m = (if bit v 0 then m else m + 1)"
  by (simp add: clz_loop.simps[of _ 1] clz_loop.simps[of _ 0] and_exp_eq_0_iff_not_bit[of _ 0, simplified])

lemma clz_loop_Suc:
  assumes "Suc k < 32"
  shows "clz_loop v (2 ^ Suc k) m = (if bit v (Suc k) then m else clz_loop v (2 ^ k) (m + 1))"
proof -
  have "(2 :: 32 word) ^ Suc k \<noteq> 0" using assms by (rule exp_ne)
  moreover have "drop_bit 1 ((2 :: 32 word) ^ Suc k) = 2 ^ k"
    by (rule bit_word_eqI) (use assms in \<open>auto simp: bit_simps\<close>)
  ultimately show ?thesis
    by (subst clz_loop.simps) (simp add: and_exp_eq_0_iff_not_bit del: power_Suc)
qed

lemma clz_loop_found:
  "bit v j \<Longrightarrow> j \<le> k \<Longrightarrow> k < 32 \<Longrightarrow> (\<And>i. j < i \<Longrightarrow> i \<le> k \<Longrightarrow> \<not> bit v i)
    \<Longrightarrow> clz_loop v (2 ^ k) m = m + (k - j)"
proof (induction k arbitrary: m)
  case (Suc k)
  show ?case
  proof (cases "j = Suc k")
    case False
    then have "\<not> bit v (Suc k)" using Suc.prems by auto
    moreover have "clz_loop v (2 ^ k) (Suc m) = Suc m + (k - j)"
      by (rule Suc.IH) (use Suc.prems False in auto)
    ultimately show ?thesis using Suc.prems(2,3) False by (simp add: clz_loop_Suc del: power_Suc)
  qed (use Suc.prems in \<open>simp add: clz_loop_Suc del: power_Suc\<close>)
qed (simp add: clz_loop_0)

lemma clz_loop_none:
  "k < 32 \<Longrightarrow> (\<And>i. i \<le> k \<Longrightarrow> \<not> bit v i) \<Longrightarrow> clz_loop v (2 ^ k) m = m + k + 1"
  by (induction k arbitrary: m) (simp_all add: clz_loop_0 clz_loop_Suc del: power_Suc)

lemma clz_loop_le: "k < 32 \<Longrightarrow> clz_loop v (2 ^ k) m \<le> m + k + 1"
proof (induction k arbitrary: m)
  case (Suc k)
  then show ?case using Suc.IH[of "m + 1"] by (simp add: clz_loop_Suc del: power_Suc)
qed (simp add: clz_loop_0)

subsection \<open>The codes\<close>

text \<open>The code of n: z zeros, a one, and the z low bits of n + 1.\<close>

lemma eg_code_split:
  assumes "z = eg_len (n + 1) - 1"
  shows "eg_code n = replicate z False @ True # map (\<lambda>i. bit (n + 1) (z - 1 - i)) [0 ..< z]"
proof -
  have b: "0 < eg_len (n + 1)" "n + 1 < 2 ^ eg_len (n + 1)" "2 ^ (eg_len (n + 1) - 1) \<le> n + 1"
    using eg_len_bounds[of "n + 1"] by auto
  then have L: "eg_len (n + 1) = Suc z" using assms by simp
  have hi: "bit (n + 1) z"
  proof -
    have "(n + 1) div 2 ^ z = 1" using b L by (intro div_nat_eqI) auto
    then show ?thesis by (simp add: bit_iff_odd)
  qed
  show ?thesis
  proof (rule nth_equalityI)
    fix i assume "i < length (eg_code n)"
    then have i: "i < 2 * z + 1" unfolding length_eg_code L by simp
    consider "i < z" | "i = z" | "z < i" by linarith
    then show "eg_code n ! i = (replicate z False @ True # map (\<lambda>i. bit (n + 1) (z - 1 - i)) [0..<z]) ! i"
    proof cases
      case 3
      then have "z - (i - z) = z - 1 - (i - Suc z)" by simp
      with 3 i show ?thesis
        unfolding eg_code_def L by (simp add: nth_append nth_Cons' del: upt_Suc)
    qed (use hi in \<open>unfold eg_code_def L, auto simp: nth_append simp del: upt_Suc\<close>)
  qed (unfold length_eg_code L, simp)
qed

text \<open>A number of z + 1 bits is its top bit and its low bits.\<close>

lemma eg_value:
  assumes "z = eg_len (n + 1) - 1"
  shows "2 ^ z - 1 + take_bit z (n + 1) = n"
proof -
  have b: "n + 1 < 2 ^ Suc z" "2 ^ z \<le> n + 1"
    using eg_len_bounds[of "n + 1"] assms by auto
  have "take_bit z (n + 1) = n + 1 - 2 ^ z"
    using b by (simp add: take_bit_eq_mod mod_if)
  with b(2) show ?thesis by simp
qed

subsection \<open>Reading bits\<close>

text \<open>s' is s with n bits read.\<close>

definition advanced :: "strm_data \<Rightarrow> nat \<Rightarrow> strm_data \<Rightarrow> bool" where
  "advanced s n s' = (strm_ok s' \<and> sd_bytes s' = sd_bytes s \<and> sd_rest s' = drop n (sd_rest s))"

definition readable :: "strm_data \<Rightarrow> bool" where
  "readable s = (strm_ok s \<and> no_start_code (sd_bytes s))"

lemma readable_advanced: "readable s \<Longrightarrow> advanced s n s' \<Longrightarrow> readable s'"
  by (simp add: readable_def advanced_def)

lemma advanced_trans: "advanced s n s1 \<Longrightarrow> advanced s1 m s2 \<Longrightarrow> advanced s (n + m) s2"
  by (simp add: advanced_def add.commute)

lemma Show32:
  assumes "readable s"
  shows "\<exists>b. h264bsdShowBits s 32 = Some b
    \<and> (\<forall>i < 32. bit b (31 - i) = (i < length (sd_rest s) \<and> sd_rest s ! i))"
proof -
  obtain b where b: "h264bsdShowBits s 32 = Some b"
    "low_bits 32 b = take 32 (sd_rest s @ replicate 32 False)"
    using ShowBits_rest[of s 32] assms by (auto simp: readable_def)
  have "bit b (31 - i) = (i < length (sd_rest s) \<and> sd_rest s ! i)" if "i < 32" for i
  proof -
    have "bit b (31 - i) = low_bits 32 b ! i" using that by simp
    also have "\<dots> = (sd_rest s @ replicate 32 False) ! i" unfolding b(2) by (rule nth_take[OF that])
    finally show ?thesis using that by (auto simp: nth_append)
  qed
  with b(1) show ?thesis by blast
qed

lemma flush_then_rest:
  assumes "readable s" "n \<le> 193"
  shows "\<exists>s'. advanced s n s' \<and> flush_then s n c k
    = (if n \<le> length (sd_rest s) then k s' else Some (HANTRO_NOK, c, s'))"
  using FlushBits_rest[of s n] assms
  by (auto simp: flush_then_def flushed_def advanced_def readable_def status_defs)

lemma GetBits_rest:
  assumes "readable s" "0 < n" "n < 32"
  shows "\<exists>out s'. h264bsdGetBits s n = Some (out, s') \<and> advanced s n s'
    \<and> (if n \<le> length (sd_rest s)
       then (\<forall>j < n. bit out j = sd_rest s ! (n - 1 - j)) \<and> (\<forall>j \<ge> n. \<not> bit out j) \<and> out \<noteq> END_OF_STREAM
       else out = END_OF_STREAM)"
proof -
  obtain b where b: "h264bsdShowBits s 32 = Some b"
    "\<And>i. i < 32 \<Longrightarrow> bit b (31 - i) = (i < length (sd_rest s) \<and> sd_rest s ! i)"
    using Show32[OF assms(1)] by auto
  obtain st s' where f: "h264bsdFlushBits s n = Some (st, s')" "advanced s n s'"
    "st = (if n \<le> length (sd_rest s) then HANTRO_OK else END_OF_STREAM)"
    using FlushBits_rest[of s n] assms by (auto simp: readable_def flushed_def advanced_def)
  let ?out = "drop_bit (32 - n) b"
  have hi: "\<not> bit ?out j" if "n \<le> j" for j
    using that assms(3) bit_imp_le_length[of b "32 - n + j"] by (auto simp: bit_drop_bit_eq)
  have lo: "bit ?out j = sd_rest s ! (n - 1 - j)" if "j < n" "n \<le> length (sd_rest s)" for j
  proof -
    have "32 - n + j = 31 - (n - 1 - j)" using that assms(3) by simp
    then have "bit ?out j = bit b (31 - (n - 1 - j))" by (simp add: bit_drop_bit_eq)
    also have "\<dots> = sd_rest s ! (n - 1 - j)" using b(2)[of "n - 1 - j"] that assms(3) by auto
    finally show ?thesis .
  qed
  have "?out \<noteq> END_OF_STREAM"
  proof
    assume eos: "?out = END_OF_STREAM"
    have "\<not> bit (0xFFFFFFFF :: 32 word) n" using hi[OF order_refl] unfolding eos END_OF_STREAM_def .
    moreover have "(0xFFFFFFFF :: 32 word) = - 1" by simp
    ultimately have "\<not> bit (- 1 :: 32 word) n" by metis
    then show False using assms(3) by (simp add: bit_minus_1_iff)
  qed
  then show ?thesis using b(1) f assms(2,3) hi lo by (auto simp: h264bsdGetBits_def status_defs)
qed

subsection \<open>Decoding a code\<close>

lemma info_word:
  assumes "\<And>j. j < z \<Longrightarrow> bit (w :: 32 word) j = info ! (z - 1 - j)" "\<And>j. z \<le> j \<Longrightarrow> \<not> bit w j" "z \<le> 32"
    and "info = map (\<lambda>i. bit m (z - 1 - i)) [0 ..< z]"
  shows "w = of_nat (take_bit z m)"
  by (rule word_of_low_bits) (use assms in auto)

lemma code_word:
  assumes "z = eg_len (n + 1) - 1"
  shows "push_bit z 1 - 1 + (of_nat (take_bit z (n + 1)) :: 32 word) = of_nat n"
proof -
  have "(of_nat n :: 32 word) = of_nat (2 ^ z - 1 + take_bit z (n + 1))" using eg_value[OF assms] by simp
  also have "\<dots> = of_nat (2 ^ z - 1) + of_nat (take_bit z (n + 1))" by (simp only: of_nat_add)
  also have "of_nat (2 ^ z - 1) = (2 ^ z - 1 :: 32 word)" by (simp add: of_nat_diff)
  finally show ?thesis by (simp add: push_bit_eq_mult)
qed

lemma Unsigned_short:
  assumes r: "readable s" and n: "n + 1 < 2 ^ 32" and rest: "sd_rest s = eg_code n @ r"
  shows "\<exists>s'. h264bsdDecodeExpGolombUnsigned s c = Some (HANTRO_OK, of_nat n, s')
    \<and> advanced s (length (eg_code n)) s'"
proof -
  define z where "z = eg_len (n + 1) - 1"
  define info where "info = map (\<lambda>i. bit (n + 1) (z - 1 - i)) [0 ..< z]"
  have code: "eg_code n = replicate z False @ True # info"
    unfolding info_def by (rule eg_code_split[OF z_def])
  have li: "length info = z" by (simp add: info_def)
  have z: "z < 32" using eg_len_le[of "n + 1" 32] n by (simp add: z_def)
  obtain b where b: "h264bsdShowBits s 32 = Some b"
    "\<And>i. i < 32 \<Longrightarrow> bit b (31 - i) = (i < length (sd_rest s) \<and> sd_rest s ! i)"
    using Show32[OF r] by auto
  have top: "bit b (31 - z)" using b(2)[OF z] rest code by (simp add: nth_append)
  have zeros: "\<not> bit b j" if "32 - z \<le> j" for j
  proof
    assume j: "bit b j"
    then have "j < 32" using bit_imp_le_length[of b j] by simp
    then have "bit b (31 - (31 - j))" "31 - j < z" using j that by auto
    then show False using b(2)[of "31 - j"] rest code by (auto simp: nth_append)
  qed
  have lo: "2 ^ (31 - z) \<le> unat b" by (rule unat_ge_bit[OF top])
  have hi: "unat b < 2 ^ (32 - z)" by (rule unat_lt_bits) (rule zeros)
  have len: "length (eg_code n) = 2 * z + 1" using code li by simp
  have short: "drop_bit (31 - 2 * z) b AND mask z = of_nat (take_bit z (n + 1))" if "z \<le> 15"
  proof (rule info_word[OF _ _ _ info_def])
    fix j assume "j < z"
    moreover from this have "bit b (31 - (2 * z - j)) = (2 * z - j < length (sd_rest s) \<and> sd_rest s ! (2 * z - j))"
      using that by (intro b(2)) simp
    moreover have "31 - 2 * z + j = 31 - (2 * z - j)" using that \<open>j < z\<close> by simp
    moreover have "2 * z - j = Suc (z + (z - 1 - j))" using \<open>j < z\<close> by simp
    then have "sd_rest s ! (2 * z - j) = info ! (z - 1 - j)"
      using \<open>j < z\<close> li by (simp only: rest code nth_append length_replicate) (auto simp: nth_append)
    ultimately show "bit (drop_bit (31 - 2 * z) b AND mask z) j = info ! (z - 1 - j)"
      using len rest z by (auto simp: bit_simps)
  qed (use z in \<open>auto simp: bit_simps\<close>)
  have enough: "2 * z + 1 \<le> length (sd_rest s)" using len rest by simp
  let ?goal = "\<exists>s'. h264bsdDecodeExpGolombUnsigned s c = Some (HANTRO_OK, of_nat n, s')
    \<and> advanced s (length (eg_code n)) s'"
  note val = code_word[OF z_def]
  have ge: "0x80000000 \<le> b \<longleftrightarrow> 2 ^ 31 \<le> unat b" "0x40000000 \<le> b \<longleftrightarrow> 2 ^ 30 \<le> unat b"
    "0x20000000 \<le> b \<longleftrightarrow> 2 ^ 29 \<le> unat b" "0x10000000 \<le> b \<longleftrightarrow> 2 ^ 28 \<le> unat b"
    by (simp_all add: word_le_nat_alt)
  note step = flush_then_rest[OF r, where c = c]
  consider "z = 0" | "z = 1" | "z = 2" | "z = 3" | "4 \<le> z" by linarith
  then show ?goal
  proof cases
    case 1
    then have "h264bsdDecodeExpGolombUnsigned s c = flush_then s 1 c (\<lambda>s. Some (HANTRO_OK, 0, s))"
      using b(1) lo by (simp add: h264bsdDecodeExpGolombUnsigned_def ge)
    with step[of 1 "\<lambda>s. Some (HANTRO_OK, 0, s)"] enough 1 val len show ?thesis by auto
  next
    case 2
    then have "h264bsdDecodeExpGolombUnsigned s c = flush_then s 3 c (\<lambda>s. Some (HANTRO_OK, of_nat n, s))"
      using b(1) lo hi val short by (simp add: h264bsdDecodeExpGolombUnsigned_def ge mask_eq_exp_minus_1)
    with step[of 3 "\<lambda>s. Some (HANTRO_OK, of_nat n, s)"] enough 2 len show ?thesis by auto
  next
    case 3
    then have "h264bsdDecodeExpGolombUnsigned s c = flush_then s 5 c (\<lambda>s. Some (HANTRO_OK, of_nat n, s))"
      using b(1) lo hi val short by (simp add: h264bsdDecodeExpGolombUnsigned_def ge mask_eq_exp_minus_1)
    with step[of 5 "\<lambda>s. Some (HANTRO_OK, of_nat n, s)"] enough 3 len show ?thesis by auto
  next
    case 4
    then have "h264bsdDecodeExpGolombUnsigned s c = flush_then s 7 c (\<lambda>s. Some (HANTRO_OK, of_nat n, s))"
      using b(1) lo hi val short by (simp add: h264bsdDecodeExpGolombUnsigned_def ge mask_eq_exp_minus_1)
    with step[of 7 "\<lambda>s. Some (HANTRO_OK, of_nat n, s)"] enough 4 len show ?thesis by auto
  next
    case 5
    have "(2::nat) ^ (32 - z) \<le> 2 ^ 28" using 5 by (intro power_increasing) auto
    then have lt: "unat b < 2 ^ 28" using hi by linarith
    have "clz_loop b (2 ^ 27) 0 = 0 + (27 - (31 - z))"
      by (rule clz_loop_found[OF top]) (use 5 z zeros in auto)
    then have clz: "h264bsdCountLeadingZeros b 28 = Some (z - 4)"
      using 5 z by (simp add: h264bsdCountLeadingZeros_def)
    obtain y where y: "z = 4 + y" using 5 by (metis le_Suc_ex)
    let ?k = "\<lambda>s. do {
           (bits, s) \<leftarrow> h264bsdGetBits s z;
           if bits = END_OF_STREAM then Some (HANTRO_NOK, c, s)
           else Some (HANTRO_OK, push_bit z 1 - 1 + bits, s)
         }"
    have "h264bsdDecodeExpGolombUnsigned s c = flush_then s (z + 1) c ?k"
      using b(1) lt clz z unfolding y by (simp add: h264bsdDecodeExpGolombUnsigned_def ge Let_def)
    moreover obtain s1 where s1: "advanced s (z + 1) s1" "flush_then s (z + 1) c ?k = ?k s1"
      using step[of "z + 1" ?k] enough z by auto
    moreover obtain out s2 where s2: "h264bsdGetBits s1 z = Some (out, s2)" "advanced s1 z s2"
      "if z \<le> length (sd_rest s1)
       then (\<forall>j < z. bit out j = sd_rest s1 ! (z - 1 - j)) \<and> (\<forall>j \<ge> z. \<not> bit out j) \<and> out \<noteq> END_OF_STREAM
       else out = END_OF_STREAM"
      using GetBits_rest[OF readable_advanced[OF r s1(1)], of z] 5 z by auto
    moreover have rest1: "sd_rest s1 = info @ r"
      using s1(1) rest code by (simp add: advanced_def)
    have "out = of_nat (take_bit z (n + 1))"
      by (rule info_word[OF _ _ _ info_def])
        (use s2(3) rest1 li z in \<open>auto simp: nth_append split: if_splits\<close>)
    moreover have "out \<noteq> END_OF_STREAM" using s2(3) rest1 li by simp
    ultimately show ?thesis using val advanced_trans[OF s1(1) s2(2)] len by (simp add: mult_2)
  qed
qed

text \<open>The two codes of 65 bits: 32 zeros, a one, and 0 or 1 in 32 bits.\<close>

lemma eg_len_big: "n = 2 ^ 32 - 1 \<or> n = 2 ^ 32 \<Longrightarrow> eg_len (n + 1) - 1 = 32"
proof -
  assume n: "n = 2 ^ 32 - 1 \<or> n = 2 ^ 32"
  then have "eg_len (n + 1) \<le> 33" by (intro eg_len_le) auto
  moreover have "\<not> eg_len (n + 1) \<le> 32"
  proof
    assume "eg_len (n + 1) \<le> 32"
    then have "(2::nat) ^ eg_len (n + 1) \<le> 2 ^ 32" by (intro power_increasing) auto
    then show False using eg_len_bounds[of "n + 1"] n by auto
  qed
  ultimately show ?thesis by simp
qed

lemma Unsigned_big:
  assumes r: "readable s" and n: "n = 2 ^ 32 - 1 \<or> n = 2 ^ 32" and rest: "sd_rest s = eg_code n @ r"
  shows "\<exists>s'. h264bsdDecodeExpGolombUnsigned s c
      = Some (if n = 2 ^ 32 then HANTRO_NOK else HANTRO_OK, BIG_CODE_NUM, s')
    \<and> advanced s (length (eg_code n)) s'"
proof -
  define info where "info = map (\<lambda>i. bit (n + 1) (32 - 1 - i)) [0 ..< 32]"
  have code: "eg_code n = replicate 32 False @ True # info"
    unfolding info_def by (rule eg_code_split[OF eg_len_big[OF n, symmetric]])
  have li: "length info = 32" by (simp add: info_def)
  have len: "length (eg_code n) = 65" using code li by simp
  obtain b where b: "h264bsdShowBits s 32 = Some b"
    "\<And>i. i < 32 \<Longrightarrow> bit b (31 - i) = (i < length (sd_rest s) \<and> sd_rest s ! i)"
    using Show32[OF r] by auto
  have "\<not> bit b j" for j
  proof
    assume j: "bit b j"
    then have "j < 32" using bit_imp_le_length[of b j] by simp
    then have "bit b (31 - (31 - j))" "31 - j < 32" using j by auto
    then show False using b(2)[of "31 - j"] rest code by (simp add: nth_append)
  qed
  then have b0: "b = 0" by (intro bit_word_eqI) simp
  have "clz_loop 0 (2 ^ 27) 0 = 0 + 27 + 1" by (rule clz_loop_none) auto
  then have clz: "h264bsdCountLeadingZeros 0 28 = Some 28"
    by (simp add: h264bsdCountLeadingZeros_def)
  let ?k2 = "\<lambda>bits s. if bits = 0 then Some (HANTRO_OK, BIG_CODE_NUM, s)
               else if bits = 1 then Some (HANTRO_NOK, BIG_CODE_NUM, s)
               else Some (HANTRO_NOK, 0, s)"
  let ?k = "\<lambda>s. do {
           (bits, s) \<leftarrow> h264bsdGetBits s 1;
           if bits = 1 then do {
             bits \<leftarrow> h264bsdShowBits s 32;
             flush_then s 32 0 (?k2 bits)
           }
           else Some (HANTRO_NOK, 0, s)
         }"
  have start: "h264bsdDecodeExpGolombUnsigned s c = flush_then s 32 0 ?k"
    using b(1) clz by (simp add: h264bsdDecodeExpGolombUnsigned_def b0 Let_def)
  obtain s1 where s1: "advanced s 32 s1" "flush_then s 32 0 ?k = ?k s1"
    using flush_then_rest[OF r, of 32 0 ?k] len rest by auto
  have rest1: "sd_rest s1 = True # info @ r" using s1(1) rest code by (simp add: advanced_def)
  obtain out s2 where s2: "h264bsdGetBits s1 1 = Some (out, s2)" "advanced s1 1 s2"
      "bit out 0 = True" "\<forall>j \<ge> 1. \<not> bit out j"
    using GetBits_rest[OF readable_advanced[OF r s1(1)], of 1] rest1 by auto
  have out1: "out = 1"
  proof (rule bit_word_eqI)
    fix j show "bit out j = bit (1 :: 32 word) j" using s2(3,4) by (cases j) (auto simp: bit_1_iff)
  qed
  have r2: "readable s2" using readable_advanced[OF readable_advanced[OF r s1(1)] s2(2)] .
  have rest2: "sd_rest s2 = info @ r" using s2(2) rest1 by (simp add: advanced_def)
  obtain b2 where b2: "h264bsdShowBits s2 32 = Some b2"
    "\<And>i. i < 32 \<Longrightarrow> bit b2 (31 - i) = (i < length (sd_rest s2) \<and> sd_rest s2 ! i)"
    using Show32[OF r2] by auto
  have "b2 = of_nat (take_bit 32 (n + 1))"
  proof (rule info_word[OF _ _ _ info_def])
    fix j :: nat assume "j < 32"
    then show "bit b2 j = info ! (32 - 1 - j)"
      using b2(2)[of "31 - j"] rest2 li by (simp add: nth_append)
  next
    fix j :: nat assume "32 \<le> j"
    then show "\<not> bit b2 j" using bit_imp_le_length[of b2 j] by auto
  qed simp
  then have word: "b2 = (if n = 2 ^ 32 then 1 else 0)" using n by (auto simp: take_bit_eq_mod)
  obtain s3 where s3: "advanced s2 32 s3" "flush_then s2 32 0 (?k2 b2) = ?k2 b2 s3"
    using flush_then_rest[OF r2, of 32 0 "?k2 b2"] rest2 li by auto
  have "advanced s (32 + (1 + 32)) s3"
    using advanced_trans[OF s1(1) advanced_trans[OF s2(2) s3(1)]] .
  moreover have "h264bsdDecodeExpGolombUnsigned s c = ?k2 b2 s3"
    using start s1(2) s2(1) out1 b2(1) s3(2) by simp
  ultimately show ?thesis using word len by auto
qed

text \<open>Any bits at all: the decoder returns, inside the stream.\<close>

definition ends_ok :: "strm_data \<Rightarrow> (32 word \<times> 32 word \<times> strm_data) option \<Rightarrow> bool" where
  "ends_ok s x = (\<exists>st v s' n. x = Some (st, v, s') \<and> advanced s n s')"

lemma ends_ok_leaf: "readable s \<Longrightarrow> ends_ok s (Some (st, v, s))"
  by (auto simp: ends_ok_def advanced_def readable_def intro!: exI[of _ 0])

lemma ends_ok_advanced: "advanced s n s' \<Longrightarrow> ends_ok s' x \<Longrightarrow> ends_ok s x"
  unfolding ends_ok_def using advanced_trans by blast

lemma ends_ok_flush:
  assumes "readable s" "n \<le> 193" "\<And>s'. readable s' \<Longrightarrow> ends_ok s' (k s')"
  shows "ends_ok s (flush_then s n c k)"
proof -
  obtain s' where s': "advanced s n s'" "flush_then s n c k
      = (if n \<le> length (sd_rest s) then k s' else Some (HANTRO_NOK, c, s'))"
    using flush_then_rest[OF assms(1,2)] by blast
  have "ends_ok s' (flush_then s n c k)"
    using assms(3) ends_ok_leaf readable_advanced[OF assms(1) s'(1)] unfolding s'(2) by simp
  with s'(1) show ?thesis by (rule ends_ok_advanced)
qed

lemma ends_ok_get:
  assumes "readable s" "0 < n" "n < 32" "\<And>out s'. readable s' \<Longrightarrow> ends_ok s' (k (out, s'))"
  shows "ends_ok s (Option.bind (h264bsdGetBits s n) k)"
proof -
  obtain out s' where s': "h264bsdGetBits s n = Some (out, s')" "advanced s n s'"
    using GetBits_rest[OF assms(1-3)] by blast
  have "ends_ok s' (k (out, s'))" using assms(4) readable_advanced[OF assms(1) s'(2)] by blast
  with s' show ?thesis by (auto intro: ends_ok_advanced)
qed

lemma ends_ok_show:
  assumes "readable s" "\<And>bits. ends_ok s (k bits)"
  shows "ends_ok s (Option.bind (h264bsdShowBits s 32) k)"
  using Show32[OF assms(1)] assms(2) by auto

lemma Unsigned_total:
  assumes "readable s"
  shows "ends_ok s (h264bsdDecodeExpGolombUnsigned s c)"
proof -
  have clz: "ends_ok s (Option.bind (h264bsdCountLeadingZeros b 28) k)"
    if "\<And>z. z \<le> 28 \<Longrightarrow> ends_ok s (k z)" for b k
    using that clz_loop_le[of 27 b 0] by (simp add: h264bsdCountLeadingZeros_def)
  show ?thesis
    unfolding h264bsdDecodeExpGolombUnsigned_def Let_def
    by (auto intro!: clz ends_ok_show ends_ok_flush ends_ok_get ends_ok_leaf assms)
qed

subsection \<open>Signed and mapped codes\<close>

lemma word_BIG: "n < 2 ^ 32 - 1 \<Longrightarrow> (of_nat n :: 32 word) \<noteq> BIG_CODE_NUM"
  by (simp add: BIG_CODE_NUM_def word_unat_eq_iff unat_of_nat)

lemma signed_value:
  assumes "- (2 ^ 31) < v" "v < 2 ^ 31"
  defines "n \<equiv> se_code_num v"
  shows "(if (of_nat n :: 32 word) AND 1 \<noteq> 0 then drop_bit 1 (of_nat n + 1) else - drop_bit 1 (of_nat n + 1))
    = (word_of_int v :: 32 word)"
proof -
  have lt: "n + 1 < 2 ^ 32" using assms by (auto simp: se_code_num_def)
  then have u: "unat (of_nat n + 1 :: 32 word) = n + 1" by (simp add: unat_word_ariths unat_of_nat)
  have d: "drop_bit 1 (of_nat n + 1 :: 32 word) = of_nat ((n + 1) div 2)"
    using unat_drop_bit_div[of 1 "of_nat n + 1 :: 32 word"] u by (metis power_one_right of_nat_unat ucast_id)
  have odd: "(of_nat n :: 32 word) AND 1 \<noteq> 0 \<longleftrightarrow> odd n"
  proof -
    have "bit (of_nat n :: 32 word) 0 \<longleftrightarrow> bit n 0" by (simp only: bit_of_nat_iff) simp
    then show ?thesis by (simp only: and_one_eq mod_2_eq_odd bit_0) simp
  qed
  show ?thesis
  proof (cases "v > 0")
    case True
    then have n: "n = nat (2 * v - 1)" "odd n" "(n + 1) div 2 = nat v"
      using assms by (auto simp: se_code_num_def even_nat_iff)
    show ?thesis unfolding odd d n(3) using n(2) True by simp
  next
    case False
    then have n: "n = nat (- 2 * v)" using assms by (simp add: se_code_num_def)
    then have "even n" "(n + 1) div 2 = nat (- v)" using False by (auto simp: even_nat_iff)
    then show ?thesis unfolding odd d using False by simp
  qed
qed

lemma Signed_decodes:
  assumes r: "readable s" and v: "- (2 ^ 31) \<le> v" "v < 2 ^ 31" and rest: "sd_rest s = eg_code (se_code_num v) @ r"
  shows "\<exists>s'. h264bsdDecodeExpGolombSigned s x = Some (HANTRO_OK, word_of_int v, s')
    \<and> advanced s (length (eg_code (se_code_num v))) s'"
proof (cases "v = - (2 ^ 31)")
  case True
  then have n: "se_code_num v = 2 ^ 32" by (simp add: se_code_num_def)
  from Unsigned_big[OF r _ rest[unfolded n], of 0] obtain s' where
    "h264bsdDecodeExpGolombUnsigned s 0 = Some (HANTRO_NOK, BIG_CODE_NUM, s')"
    "advanced s (length (eg_code (2 ^ 32))) s'" by auto
  then show ?thesis using True n by (auto simp: h264bsdDecodeExpGolombSigned_def status_defs)
next
  case False
  then have n: "se_code_num v + 1 < 2 ^ 32" using v by (auto simp: se_code_num_def)
  from Unsigned_short[OF r n rest, of 0] obtain s' where
    "h264bsdDecodeExpGolombUnsigned s 0 = Some (HANTRO_OK, of_nat (se_code_num v), s')"
    "advanced s (length (eg_code (se_code_num v))) s'" by auto
  then show ?thesis using signed_value[of v] word_BIG[of "se_code_num v"] n False v
    by (auto simp: h264bsdDecodeExpGolombSigned_def)
qed

subsection \<open>Properties\<close>

text \<open>
  C17: h264bsdDecodeExpGolombUnsigned reads every Exp-Golomb code of a number below 2^32 - 1,
  in any of its length classes: it returns the number and leaves the stream right behind the
  code.
\<close>

theorem DecodeExpGolombUnsigned_decodes:
  assumes "strm_ok s" "no_start_code (sd_bytes s)" "n + 1 < 2 ^ 32" "sd_rest s = eg_code n @ r"
  shows "\<exists>s'. h264bsdDecodeExpGolombUnsigned s c = Some (HANTRO_OK, of_nat n, s')
    \<and> strm_ok s' \<and> sd_bytes s' = sd_bytes s \<and> sd_rest s' = r"
  using Unsigned_short[of s n r c] assms by (auto simp: readable_def advanced_def)

theorem DecodeExpGolombUnsigned_decodes_witness:
  "\<exists>s'. h264bsdDecodeExpGolombUnsigned (demo_stream [0x0A, 0x7F]) 7 = Some (HANTRO_OK, of_nat 19, s')
    \<and> strm_ok s' \<and> sd_rest s' = replicate 7 True"
proof -
  have "bits_of [0x0A, 0x7F] = eg_code 19 @ replicate 7 True" by code_simp
  then have "sd_rest (demo_stream [0x0A, 0x7F]) = eg_code 19 @ replicate 7 True"
    by (simp only: demo_stream_rest) simp
  from DecodeExpGolombUnsigned_decodes[OF demo_stream_ok _ _ this] show ?thesis
    by (auto simp: no_start_code_Nil)
qed

text \<open>
  C20: h264bsdDecodeExpGolombSigned reads the code of every 32-bit signed number, down to -2^31, whose
  code number 2^32 does not fit the unsigned code\_num.
\<close>

theorem DecodeExpGolombSigned_decodes:
  assumes "strm_ok s" "no_start_code (sd_bytes s)" "- (2 ^ 31) \<le> v" "v < 2 ^ 31"
    and "sd_rest s = eg_code (se_code_num v) @ r"
  shows "\<exists>s'. h264bsdDecodeExpGolombSigned s x = Some (HANTRO_OK, word_of_int v, s')
    \<and> strm_ok s' \<and> sd_bytes s' = sd_bytes s \<and> sd_rest s' = r"
  using Signed_decodes[of s v r x] assms by (auto simp: readable_def advanced_def)

theorem DecodeExpGolombSigned_decodes_witness:
  "\<exists>s'. h264bsdDecodeExpGolombSigned (demo_stream [0x0A, 0xFF]) 7 = Some (HANTRO_OK, word_of_int (-10), s')
    \<and> strm_ok s' \<and> sd_rest s' = replicate 7 True"
proof -
  have "bits_of [0x0A, 0xFF] = eg_code (se_code_num (-10)) @ replicate 7 True" by code_simp
  then have "sd_rest (demo_stream [0x0A, 0xFF]) = eg_code (se_code_num (-10)) @ replicate 7 True"
    by (simp only: demo_stream_rest) simp
  from DecodeExpGolombSigned_decodes[OF demo_stream_ok _ _ _ this] show ?thesis
    by (auto simp: no_start_code_Nil)
qed

text \<open>
  on any data without a start code prefix, valid code or not, h264bsdDecodeExpGolombUnsigned
  returns: no assertion fails, nothing outside the buffer is read, and the stream stays well
  formed.
\<close>

theorem DecodeExpGolombUnsigned_safe:
  assumes "strm_ok s" "no_start_code (sd_bytes s)"
  shows "\<exists>st v s'. h264bsdDecodeExpGolombUnsigned s c = Some (st, v, s')
    \<and> strm_ok s' \<and> sd_bytes s' = sd_bytes s \<and> (\<exists>n. sd_rest s' = drop n (sd_rest s))"
  using Unsigned_total[of s c] assms by (auto simp: readable_def ends_ok_def advanced_def)

theorem DecodeExpGolombUnsigned_safe_witness:
  "\<exists>st v s'. h264bsdDecodeExpGolombUnsigned (demo_stream [0, 0]) 7 = Some (st, v, s') \<and> strm_ok s'"
  using DecodeExpGolombUnsigned_safe[OF demo_stream_ok, of "[0, 0]" 7] by (auto simp: no_start_code_Nil)

text \<open>
  the two coded\_block\_pattern tables are permutations of 0..47, so h264bsdDecodeExpGolombMapped
  maps the codes 0..47 one to one to the patterns, and it rejects every larger code.
\<close>

theorem DecodeExpGolombMapped_patterns:
  assumes "strm_ok s" "no_start_code (sd_bytes s)" "n + 1 < 2 ^ 32" "sd_rest s = eg_code n @ r"
  shows "\<exists>s'. h264bsdDecodeExpGolombMapped s v intra
      = Some (if n > 47 then (HANTRO_NOK, v, s')
              else (HANTRO_OK, of_nat ((if intra then coded_block_pattern_intra4x4 else coded_block_pattern_inter) ! n), s'))
    \<and> strm_ok s' \<and> sd_rest s' = r
    \<and> bij_betw (\<lambda>k. (if intra then coded_block_pattern_intra4x4 else coded_block_pattern_inter) ! k) {..<48} {..<48}"
proof -
  let ?t = "if intra then coded_block_pattern_intra4x4 else coded_block_pattern_inter"
  have t: "length ?t = 48" "distinct ?t" "list_all (\<lambda>x. x < 48) ?t"
    by (cases intra; simp add: coded_block_pattern_intra4x4_def coded_block_pattern_inter_def)+
  have "bij_betw ((!) ?t) {..<length ?t} (set ?t)" by (rule bij_betw_nth[OF t(2)]) auto
  moreover have "set ?t = {..<48}"
  proof (rule card_subset_eq)
    show "set ?t \<subseteq> {..<48}" using t(3) by (auto simp: list_all_iff)
    show "card (set ?t) = card {..<48 :: nat}" using distinct_card[OF t(2)] t(1) by simp
  qed simp
  ultimately have bij: "bij_betw (\<lambda>k. ?t ! k) {..<48} {..<48}" using t(1) by simp
  from Unsigned_short[of s n r 0] assms obtain s' where s':
    "h264bsdDecodeExpGolombUnsigned s 0 = Some (HANTRO_OK, of_nat n, s')" "strm_ok s'" "sd_rest s' = r"
    by (auto simp: readable_def advanced_def)
  have "unat (of_nat n :: 32 word) = n" using assms(3) by (simp add: unat_of_nat)
  then have "(of_nat n :: 32 word) > 47 \<longleftrightarrow> n > 47" by (simp add: word_less_nat_alt)
  then have "h264bsdDecodeExpGolombMapped s v intra
      = Some (if n > 47 then (HANTRO_NOK, v, s') else (HANTRO_OK, of_nat (?t ! n), s'))"
    using s'(1) \<open>unat (of_nat n :: 32 word) = n\<close> by (auto simp: h264bsdDecodeExpGolombMapped_def)
  with s'(2,3) bij show ?thesis by blast
qed

theorem DecodeExpGolombMapped_patterns_witness:
  "\<exists>s'. h264bsdDecodeExpGolombMapped (demo_stream [0x37]) 7 True = Some (HANTRO_OK, 27, s')
    \<and> sd_rest s' = [True, True, True]"
proof -
  have "bits_of [0x37] = eg_code 5 @ [True, True, True]" by code_simp
  then have "sd_rest (demo_stream [0x37]) = eg_code 5 @ [True, True, True]"
    by (simp only: demo_stream_rest) simp
  from DecodeExpGolombMapped_patterns[OF demo_stream_ok _ _ this, of 7 True] show ?thesis
    by (auto simp: no_start_code_Nil coded_block_pattern_intra4x4_def)
qed

text \<open>
  the status HANTRO\_NOK of h264bsdFlushBits, part of the code lies in a start code prefix, is taken for
  success: three bits before the bytes 0, 0, 1 the code 00100 is reported as read although only
  its first three bits were skipped and the stream position is lost.
\<close>

theorem DecodeExpGolombUnsigned_start_code:
  "let s = (demo_stream [1, 0, 0, 1])\<lparr>sd_bit_pos := 5, sd_read_bits := 5\<rparr>
   in \<exists>s'. h264bsdDecodeExpGolombUnsigned s c = Some (HANTRO_OK, 3, s')
     \<and> sd_read_bits s' = sd_read_bits s + 3 \<and> h264bsdShowBits s' 32 = None"
proof -
  let ?s = "(demo_stream [1, 0, 0, 1])\<lparr>sd_bit_pos := 5, sd_read_bits := 5\<rparr>"
  let ?s' = "?s\<lparr>sd_read_bits := 8, sd_bit_pos := 0, sd_pos := 1, sd_dangling := True\<rparr>"
  have show1: "h264bsdShowBits ?s 32 = Some 0x20000020"
    by (simp add: h264bsdShowBits_def demo_stream_def show_loop.simps at_emulation_def read_byte_def
        strm_pre_def i32_id turn_around_def SwTurnAround_def)
  have flush: "h264bsdFlushBits ?s 5 = Some (HANTRO_NOK, ?s')"
    by (simp add: h264bsdFlushBits_def demo_stream_def flush_aligned_def flush_loop.simps
        skip_emulation_def at_start_code_def read_byte_def strm_pre_def u32_def turn_around_def SwTurnAround_def Let_def)
  have "flush_then ?s 5 c k = k ?s'" for k
    using flush by (simp add: flush_then_def status_defs)
  then have "h264bsdDecodeExpGolombUnsigned ?s c = Some (HANTRO_OK, 3, ?s')"
    using show1 by (simp add: h264bsdDecodeExpGolombUnsigned_def)
  moreover have "h264bsdShowBits ?s' 32 = None" by (simp add: h264bsdShowBits_def strm_pre_def)
  ultimately show ?thesis by simp
qed

end
