(* ===== verification/StreamRoundtrip.thy ===== *)
theory StreamRoundtrip
  imports ExpGolomb
begin

text \<open>
  The encoder's bit writer (PutBits) and the decoder's bit reader (H264Stream, ExpGolomb) put
  together: what the one writes, the other reads back.
\<close>

subsection \<open>Reading syntax elements\<close>

text \<open>Reading an element of the same kind as e, with the decoder's functions.\<close>

definition get_element :: "syntax_element \<Rightarrow> strm_data \<Rightarrow> (syntax_element \<times> strm_data) option" where
  "get_element e s = (case e of
     U v n \<Rightarrow> do {
       (out, s) \<leftarrow> h264bsdGetBits s n;
       if out = END_OF_STREAM then None else Some (U out n, s)
     }
   | UE n \<Rightarrow> do {
       (status, code_num, s) \<leftarrow> h264bsdDecodeExpGolombUnsigned s 0;
       if status = HANTRO_OK then Some (UE (unat code_num), s) else None
     }
   | SE v \<Rightarrow> do {
       (status, val, s) \<leftarrow> h264bsdDecodeExpGolombSigned s 0;
       if status = HANTRO_OK then Some (SE (sint val), s) else None
     })"

fun get_elements :: "syntax_element list \<Rightarrow> strm_data \<Rightarrow> (syntax_element list \<times> strm_data) option" where
  "get_elements [] s = Some ([], s)"
| "get_elements (e # es) s = do {
     (e, s) \<leftarrow> get_element e s;
     (es, s) \<leftarrow> get_elements es s;
     Some (e # es, s)
   }"

text \<open>h264bsdGetBits reads 1 to 31 bits.\<close>

definition readable_element :: "syntax_element \<Rightarrow> bool" where
  "readable_element e = (element_ok e \<and> (case e of U v n \<Rightarrow> 0 < n \<and> n < 32 | _ \<Rightarrow> True))"

lemma readable_elementD: "readable_element e \<Longrightarrow> element_ok e"
  by (simp add: readable_element_def)

lemma get_element_reads:
  assumes r: "readable s" and e: "readable_element e" and rest: "sd_rest s = element_bits e @ rs"
  shows "\<exists>s'. get_element e s = Some (e, s') \<and> advanced s (length (element_bits e)) s'"
proof (cases e)
  case (U v n)
  with e have n: "0 < n" "n < 32" "drop_bit n v = 0" by (auto simp: readable_element_def element_ok_def)
  have bits: "sd_rest s = low_bits n v @ rs" using rest U by (simp add: element_bits_def)
  obtain out s' where o: "h264bsdGetBits s n = Some (out, s')" "advanced s n s'"
    "\<And>j. j < n \<Longrightarrow> bit out j = sd_rest s ! (n - 1 - j)" "\<And>j. n \<le> j \<Longrightarrow> \<not> bit out j" "out \<noteq> END_OF_STREAM"
    using GetBits_rest[OF r n(1,2)] bits by auto
  have "out = v"
  proof (rule bit_word_eqI)
    fix j show "bit out j = bit v j"
    proof (cases "j < n")
      case True
      then have "sd_rest s ! (n - 1 - j) = bit v j" unfolding bits by (simp add: nth_append)
      then show ?thesis using o(3)[OF True] by simp
    qed (use o(4)[of j] drop_bit_0_bits[OF n(3), of j] in auto)
  qed
  then show ?thesis using o(1,2,5) U by (auto simp: get_element_def element_bits_def)
next
  case (UE n)
  with e have n: "n + 1 < 2 ^ 32" "unat (of_nat n :: 32 word) = n"
    by (auto simp: readable_element_def element_ok_def unat_of_nat)
  then show ?thesis using Unsigned_short[OF r n(1), of rs 0] rest UE
    by (auto simp: get_element_def element_bits_def)
next
  case (SE v)
  with e have v: "- (2 ^ 31) \<le> v" "v < 2 ^ 31"
    by (auto simp: readable_element_def element_ok_def se_code_num_def split: if_splits)
  then have "sint (word_of_int v :: 32 word) = v"
    by (simp add: sint_sbintrunc' signed_take_bit_int_eq_self)
  then show ?thesis using Signed_decodes[OF r v, of rs 0] rest SE
    by (auto simp: get_element_def element_bits_def)
qed

lemma get_elements_reads:
  assumes "readable s" "list_all readable_element es" "sd_rest s = concat (map element_bits es) @ rs"
  shows "\<exists>s'. get_elements es s = Some (es, s') \<and> readable s' \<and> sd_rest s' = rs"
  using assms
proof (induction es arbitrary: s)
  case (Cons e es)
  then have "sd_rest s = element_bits e @ concat (map element_bits es) @ rs" "readable_element e" by simp_all
  from get_element_reads[OF Cons.prems(1) this(2,1)] obtain s1 where
    s1: "get_element e s = Some (e, s1)" "advanced s (length (element_bits e)) s1" by blast
  have "sd_rest s1 = concat (map element_bits es) @ rs" using s1(2) Cons.prems(3) by (simp add: advanced_def)
  from Cons.IH[OF readable_advanced[OF Cons.prems(1) s1(2)] _ this] Cons.prems(2) s1(1)
  show ?case by auto
qed auto

text \<open>The stuffing bits: a one and fewer than 8 zeros, which end the current byte.\<close>

lemma trailing_bits_read:
  assumes r: "readable s" and rest: "sd_rest s = True # replicate k False" "k < 8"
  shows "\<exists>s'. h264bsdRbspTrailingBits s = Some (HANTRO_OK, s') \<and> sd_rest s' = []
    \<and> h264bsdIsByteAligned s'"
proof -
  have ok: "strm_ok s" using r by (simp add: readable_def)
  note d = strm_okD[OF ok]
  have "Suc k + sd_bit_pos s = 8 * length (rbsp_from (sd_bytes s) (sd_pos s))"
  proof -
    have "length (sd_rest s) = Suc k" using rest by simp
    then have "8 * length (rbsp_from (sd_bytes s) (sd_pos s)) - sd_bit_pos s = Suc k"
      by (simp add: sd_rest_def)
    then show ?thesis by simp
  qed
  then have "Suc k + sd_bit_pos s = 8" using rest(2) d(3) by presburger
  then have k: "8 - sd_bit_pos s = Suc k" by simp
  obtain out s' where o: "h264bsdGetBits s (Suc k) = Some (out, s')" "advanced s (Suc k) s'" "out \<noteq> END_OF_STREAM"
    using GetBits_rest[OF r, of "Suc k"] rest by auto
  have r': "sd_rest s' = []" "strm_ok s'" using o(2) rest by (auto simp: advanced_def)
  have "sd_bit_pos s' = 0"
  proof (rule ccontr)
    assume nz: "sd_bit_pos s' \<noteq> 0"
    note d' = strm_okD[OF r'(2)]
    have "sd_pos s' < sd_data_size s'" using d'(5,6) nz by linarith
    then have "rbsp_from (sd_bytes s') (sd_pos s') \<noteq> []" using rbsp_from_byte[OF d'(9)] d'(10) by simp
    then have "8 \<le> length (bits_of (rbsp_from (sd_bytes s') (sd_pos s')))"
      by (cases "rbsp_from (sd_bytes s') (sd_pos s')") auto
    then show False using r'(1) d'(3) by (simp add: sd_rest_def)
  qed
  then show ?thesis using o k r'(1) d(3)
    by (auto simp: h264bsdRbspTrailingBits_def h264bsdIsByteAligned_def)
qed

text \<open>
  C1: the round trip from the encoder to the decoder: fields of 1 to 31 bits and Exp-Golomb codes that the
  encoder puts out, closed by its RBSP trailing bits, are read back unchanged from the byte
  stream by the decoder's h264bsdGetBits and h264bsdDecodeExpGolomb functions, emulation
  prevention included; then h264bsdRbspTrailingBits accepts the rest and the stream is at its
  end, byte aligned.
\<close>

theorem encode_decode:
  assumes "pb_stream b = []" "pb_bit_cnt b = 0" "pb_cache b = 0" "list_all readable_element es"
    and "unat (pb_cnt b) + 40 + 12 * length es \<le> unat (pb_size b)"
    and "Option.bind (put_elements es b) rbsp_trailing_bits = Some b'" "length (pb_stream b') < 2 ^ 28"
  shows "\<exists>s s'. get_elements es (demo_stream (pb_stream b')) = Some (es, s)
    \<and> h264bsdRbspTrailingBits s = Some (HANTRO_OK, s') \<and> sd_rest s' = [] \<and> h264bsdIsByteAligned s'"
proof -
  have ok: "list_all element_ok es" using assms(4) by (auto simp: list_all_iff readable_elementD)
  have "wrote [] b []" using wrote_start[of b] assms(1-3) by (simp add: cache_ok_def)
  from put_elements_wrote[OF this ok] assms(5) obtain b1 where
    b1: "put_elements es b = Some b1" "wrote [] b1 (concat (map element_bits es))" "room b1 40"
    by (auto simp: room_def)
  let ?bs = "concat (map element_bits es)"
  let ?k = "(7 * (length ?bs + 1)) mod 8"
  from rbsp_trailing_bits_wrote[OF b1(2,3)] b1(1) assms(6) obtain B where
    B: "pb_stream b' = escape B" "bits_of B = ?bs @ True # replicate ?k False" by auto
  let ?s = "demo_stream (pb_stream b')"
  have "readable ?s" using demo_stream_ok[OF assms(7)] B(1)
    by (simp add: readable_def code_free_no_start_code)
  moreover have "sd_rest ?s = ?bs @ (True # replicate ?k False)"
    unfolding demo_stream_rest B(1) unescape_escape by (rule B(2))
  ultimately obtain s where s: "get_elements es ?s = Some (es, s)" "readable s"
      "sd_rest s = True # replicate ?k False"
    using get_elements_reads[OF _ assms(4)] by blast
  from trailing_bits_read[OF s(2,3)] s(1) show ?thesis by auto
qed

theorem encode_decode_witness:
  "\<exists>b' s s'. Option.bind (put_elements [U 0 16, UE 5, SE (-3), U 0 24] demo_buffer) rbsp_trailing_bits = Some b'
    \<and> get_elements [U 0 16, UE 5, SE (-3), U 0 24] (demo_stream (pb_stream b'))
      = Some ([U 0 16, UE 5, SE (-3), U 0 24], s)
    \<and> h264bsdRbspTrailingBits s = Some (HANTRO_OK, s') \<and> sd_rest s' = []"
proof -
  let ?es = "[U 0 16, UE 5, SE (-3), U 0 24]"
  have ok: "list_all readable_element ?es"
    by (simp add: readable_element_def element_ok_def se_code_num_def)
  then have "list_all element_ok ?es" by (auto simp: readable_elementD)
  from put_elements_wrote[OF _ this, of "[]" demo_buffer "[]"] wrote_start[of demo_buffer] obtain b1 where
    b1: "put_elements ?es demo_buffer = Some b1" "wrote [] b1 (concat (map element_bits ?es))" "room b1 40"
    by (auto simp: room_def cache_ok_def)
  from rbsp_trailing_bits_wrote[OF b1(2,3)] obtain b2 B where
    b2: "rbsp_trailing_bits b1 = Some b2" "pb_stream b2 = escape B"
    "bits_of B = concat (map element_bits ?es) @ True # replicate ((7 * (length (concat (map element_bits ?es)) + 1)) mod 8) False"
    by auto
  have "length (concat (map element_bits ?es)) = 50" by code_simp
  then have "8 * length B < 100" using arg_cong[OF b2(3), of length] by simp
  then have "length (pb_stream b2) < 2 ^ 28" using length_escape[of B] b2(2) by simp
  moreover have run: "Option.bind (put_elements ?es demo_buffer) rbsp_trailing_bits = Some b2"
    using b1(1) b2(1) by simp
  ultimately obtain s s' where "get_elements ?es (demo_stream (pb_stream b2)) = Some (?es, s)"
    "h264bsdRbspTrailingBits s = Some (HANTRO_OK, s')" "sd_rest s' = []"
    using encode_decode[OF _ _ _ ok, of demo_buffer b2] by auto
  with run show ?thesis by blast
qed

end
