(* ===== verification/H264Types.thy ===== *)
theory H264Types
  imports H264Stream
begin

text \<open>
  The syntax structures of an H.264 stream, as the decoder stores them
  (vc8000d/software/source/h264high/legacy: h264hwd\_nal\_unit.h, h264hwd\_seq\_param\_set.h,
  h264hwd\_pic\_param\_set.h, h264hwd\_vui.h, h264hwd\_slice\_header.h). An array that a pointer leads to is a list,
  None the null pointer. u32 is a word, i32 an integer: signed
  overflow is undefined in C and the value None here.
\<close>

subsection \<open>Signed arithmetic\<close>

definition chk :: "int \<Rightarrow> int option" where
  "chk x = (if - (2 ^ 31) \<le> x \<and> x < 2 ^ 31 then Some x else None)"

lemma chk_Some [simp]: "(chk x = Some y) = (y = x \<and> - (2 ^ 31) \<le> x \<and> x < 2 ^ 31)"
  by (auto simp: chk_def)

lemma sint_small: "uint (w :: 32 word) < 2 ^ 31 \<Longrightarrow> sint w = uint w"
  using signed_take_bit_int_eq_self[of 31 "uint w"] uint_ge_0[of w] by (simp add: sint_uint del: uint_ge_0)

subsection \<open>nalUnit\_t\<close>

record nal_unit =
  nal_unit_type :: "32 word"
  nal_ref_idc :: "32 word"
  svc_extension_flag :: "32 word"
  non_idr_flag :: "32 word"
  priority_id :: "32 word"
  view_id :: "32 word"
  temporal_id :: "32 word"
  anchor_pic_flag :: "32 word"
  inter_view_flag :: "32 word"

definition NAL_CODED_SLICE_IDR :: "32 word" where "NAL_CODED_SLICE_IDR = 5"
definition NAL_CODED_SLICE_EXT :: "32 word" where "NAL_CODED_SLICE_EXT = 20"

definition IS_IDR_NAL_UNIT :: "nal_unit \<Rightarrow> bool" where
  "IS_IDR_NAL_UNIT n = (nal_unit_type n = NAL_CODED_SLICE_IDR
     \<or> nal_unit_type n = NAL_CODED_SLICE_EXT \<and> non_idr_flag n = 0)"

subsection \<open>hrdParameters\_t, vuiParameters\_t\<close>

definition MAX_CPB_CNT :: nat where "MAX_CPB_CNT = 32"
definition ASPECT_RATIO_EXTENDED_SAR :: "32 word" where "ASPECT_RATIO_EXTENDED_SAR = 255"

record hrd_parameters =
  hrd_cpb_cnt :: "32 word"
  hrd_bit_rate_scale :: "32 word"
  hrd_cpb_size_scale :: "32 word"
  hrd_bit_rate_value :: "32 word list"
  hrd_cpb_size_value :: "32 word list"
  hrd_cbr_flag :: "32 word list"
  hrd_initial_cpb_removal_delay_length :: "32 word"
  hrd_cpb_removal_delay_length :: "32 word"
  hrd_dpb_output_delay_length :: "32 word"
  hrd_time_offset_length :: "32 word"

record vui_parameters =
  vui_aspect_ratio_present_flag :: "32 word"
  vui_aspect_ratio_idc :: "32 word"
  vui_sar_width :: "32 word"
  vui_sar_height :: "32 word"
  vui_overscan_info_present_flag :: "32 word"
  vui_overscan_appropriate_flag :: "32 word"
  vui_video_signal_type_present_flag :: "32 word"
  vui_video_format :: "32 word"
  vui_video_full_range_flag :: "32 word"
  vui_colour_description_present_flag :: "32 word"
  vui_colour_primaries :: "32 word"
  vui_transfer_characteristics :: "32 word"
  vui_matrix_coefficients :: "32 word"
  vui_chroma_loc_info_present_flag :: "32 word"
  vui_chroma_sample_loc_type_top_field :: "32 word"
  vui_chroma_sample_loc_type_bottom_field :: "32 word"
  vui_timing_info_present_flag :: "32 word"
  vui_num_units_in_tick :: "32 word"
  vui_time_scale :: "32 word"
  vui_fixed_frame_rate_flag :: "32 word"
  vui_nal_hrd_parameters_present_flag :: "32 word"
  vui_nal_hrd_parameters :: hrd_parameters
  vui_vcl_hrd_parameters_present_flag :: "32 word"
  vui_vcl_hrd_parameters :: hrd_parameters
  vui_low_delay_hrd_flag :: "32 word"
  vui_pic_struct_present_flag :: "32 word"
  vui_bitstream_restriction_flag :: "32 word"
  vui_motion_vectors_over_pic_boundaries_flag :: "32 word"
  vui_max_bytes_per_pic_denom :: "32 word"
  vui_max_bits_per_mb_denom :: "32 word"
  vui_log2_max_mv_length_horizontal :: "32 word"
  vui_log2_max_mv_length_vertical :: "32 word"
  vui_num_reorder_frames :: "32 word"
  vui_max_dec_frame_buffering :: "32 word"
  vui_update_hrdparameter_flag :: "32 word"
  vui_error_hrdparameter_flag :: "32 word"

subsection \<open>seqParamSet\_t\<close>

record seq_param_set =
  sps_profile_idc :: "32 word"
  sps_level_idc :: "32 word"
  sps_constrained_set0_flag :: "32 word"
  sps_constrained_set1_flag :: "32 word"
  sps_constrained_set2_flag :: "32 word"
  sps_constrained_set3_flag :: "32 word"
  sps_seq_parameter_set_id :: "32 word"
  sps_max_frame_num :: "32 word"
  sps_pic_order_cnt_type :: "32 word"
  sps_max_pic_order_cnt_lsb :: "32 word"
  sps_delta_pic_order_always_zero_flag :: "32 word"
  sps_offset_for_non_ref_pic :: int
  sps_offset_for_top_to_bottom_field :: int
  sps_num_ref_frames_in_pic_order_cnt_cycle :: "32 word"
  sps_offset_for_ref_frame :: "int list option"
  sps_num_ref_frames :: "32 word"
  sps_gaps_in_frame_num_value_allowed_flag :: "32 word"
  sps_pic_width_in_mbs :: "32 word"
  sps_pic_height_in_mbs :: "32 word"
  sps_frame_cropping_flag :: "32 word"
  sps_frame_crop_left_offset :: "32 word"
  sps_frame_crop_right_offset :: "32 word"
  sps_frame_crop_top_offset :: "32 word"
  sps_frame_crop_bottom_offset :: "32 word"
  sps_vui_parameters_present_flag :: "32 word"
  sps_vui_parameters :: "vui_parameters option"
  sps_max_dpb_size :: "32 word"
  sps_frame_mbs_only_flag :: "32 word"
  sps_mb_adaptive_frame_field_flag :: "32 word"
  sps_direct8x8_inference_flag :: "32 word"
  sps_chroma_format_idc :: "32 word"
  sps_mono_chrome :: "32 word"
  sps_bit_depth_luma :: "32 word"
  sps_bit_depth_chroma :: "32 word"
  sps_scaling_matrix_present_flag :: "32 word"
  sps_scaling_list_present :: "32 word list"
  sps_use_default_scaling :: "32 word list"
  sps_scaling_list :: "8 word list list"
  sps_num_views :: "32 word"
  sps_view_id :: "32 word list"

subsection \<open>picParamSet\_t\<close>

record pic_param_set =
  pps_pic_parameter_set_id :: "32 word"
  pps_seq_parameter_set_id :: "32 word"
  pps_pic_order_present_flag :: "32 word"
  pps_num_slice_groups :: "32 word"
  pps_slice_group_map_type :: "32 word"
  pps_run_length :: "32 word list option"
  pps_top_left :: "32 word list option"
  pps_bottom_right :: "32 word list option"
  pps_slice_group_change_direction_flag :: "32 word"
  pps_slice_group_change_rate :: "32 word"
  pps_pic_size_in_map_units :: "32 word"
  pps_slice_group_id :: "32 word list option"
  pps_num_ref_idx_l0_active :: "32 word"
  pps_num_ref_idx_l1_active :: "32 word"
  pps_pic_init_qp :: "32 word"
  pps_chroma_qp_index_offset :: int
  pps_chroma_qp_index_offset2 :: int
  pps_deblocking_filter_control_present_flag :: "32 word"
  pps_constrained_intra_pred_flag :: "32 word"
  pps_redundant_pic_cnt_present_flag :: "32 word"
  pps_entropy_coding_mode_flag :: "32 word"
  pps_weighted_pred_flag :: "32 word"
  pps_weighted_bi_pred_idc :: "32 word"
  pps_transform8x8_flag :: "32 word"
  pps_scaling_matrix_present_flag :: "32 word"
  pps_scaling_list_present :: "32 word list"
  pps_use_default_scaling :: "32 word list"
  pps_scaling_list :: "8 word list list"

subsection \<open>sliceHeader\_t\<close>

definition MAX_NUM_REF_PICS :: nat where "MAX_NUM_REF_PICS = 16"
definition MAX_NUM_SLICE_GROUPS :: nat where "MAX_NUM_SLICE_GROUPS = 8"
definition MAX_NUM_MMC_OPERATIONS :: nat where "MAX_NUM_MMC_OPERATIONS = 2 * MAX_NUM_REF_PICS + 2 + 1"

record reordering_op =
  ro_idc :: "32 word"
  ro_abs_diff_pic_num :: "32 word"
  ro_long_term_pic_num :: "32 word"
  ro_abs_diff_view_idx :: "32 word"

record reordering =
  rl_flag :: "32 word"
  rl_command :: "reordering_op list"

record mmc_operation =
  mm_operation :: "32 word"
  mm_difference_of_pic_nums :: "32 word"
  mm_long_term_pic_num :: "32 word"
  mm_long_term_frame_idx :: "32 word"
  mm_max_long_term_frame_idx :: "32 word"

record ref_pic_marking =
  dm_strm_len :: "32 word"
  dm_no_output_of_prior_pics_flag :: "32 word"
  dm_long_term_reference_flag :: "32 word"
  dm_adaptive_flag :: "32 word"
  dm_operation :: "mmc_operation list"

record slice_header =
  sh_first_mb_in_slice :: "32 word"
  sh_slice_type :: "32 word"
  sh_pic_parameter_set_id :: "32 word"
  sh_frame_num :: "32 word"
  sh_idr_pic_id :: "32 word"
  sh_poc_length :: "32 word"
  sh_poc_length_hw :: "32 word"
  sh_pic_order_cnt_lsb :: "32 word"
  sh_delta_pic_order_cnt_bottom :: int
  sh_delta_pic_order_cnt :: "int \<times> int"
  sh_redundant_pic_cnt :: "32 word"
  sh_num_ref_idx_active_override_flag :: "32 word"
  sh_num_ref_idx_l0_active :: "32 word"
  sh_num_ref_idx_l1_active :: "32 word"
  sh_slice_qp_delta :: int
  sh_disable_deblocking_filter_idc :: "32 word"
  sh_slice_alpha_c0_offset :: int
  sh_slice_beta_offset :: int
  sh_slice_group_change_cycle :: "32 word"
  sh_reordering_l0 :: reordering
  sh_reordering_l1 :: reordering
  sh_marking :: ref_pic_marking
  sh_cabac_init_idc :: "32 word"
  sh_field_pic_flag :: "32 word"
  sh_bottom_field_flag :: "32 word"
  sh_direct_spatial_mv_pred_flag :: "32 word"

end
