(* ===== verification/H264Poc.thy ===== *)
theory H264Poc
  imports H264Types
begin

text \<open>
  Picture order counts, h264hwd\_pic\_order\_cnt.c: the three ways of the standard to number the
  pictures of a stream in output order, from what slice headers and parameter sets carry.

  The first field of a pair is pic\_order\_cnt[0], the top field, the second pic\_order\_cnt[1].
\<close>

text \<open>pocStorage\_t\<close>

record poc_storage =
  poc_prev_lsb :: "32 word"
  poc_prev_msb :: int
  poc_prev_frame_num :: "32 word"
  poc_prev_frame_num_offset :: "32 word"
  poc_contains_mmco5 :: bool
  poc_pic_order_cnt :: "int \<times> int"

text \<open>The search for an operation 5; the array is read until its terminator, None is a read past its end.\<close>

fun has_mmco5 :: "mmc_operation list \<Rightarrow> bool option" where
  "has_mmco5 [] = None"
| "has_mmco5 (op # ops) =
     (if mm_operation op = 0 then Some False
      else if mm_operation op = 5 then Some True else has_mmco5 ops)"

definition poc_mmco5 :: "slice_header \<Rightarrow> bool option" where
  "poc_mmco5 h =
     (if dm_adaptive_flag (sh_marking h) \<noteq> 0 then has_mmco5 (dm_operation (sh_marking h)) else Some False)"

subsection \<open>Type 0\<close>

text \<open>picOrderCntMsb from the previous reference picture's and the present lsb\<close>

definition poc_msb :: "poc_storage \<Rightarrow> seq_param_set \<Rightarrow> slice_header \<Rightarrow> int option" where
  "poc_msb poc sps h =
     (let lsb = sh_pic_order_cnt_lsb h; prev = poc_prev_lsb poc; mx = sps_max_pic_order_cnt_lsb sps
      in if lsb < prev \<and> prev - lsb \<ge> mx div 2 then chk (poc_prev_msb poc + sint mx)
         else if lsb > prev \<and> lsb - prev > mx div 2 then chk (poc_prev_msb poc - sint mx)
         else Some (poc_prev_msb poc))"

definition poc_type0 :: "poc_storage \<Rightarrow> seq_param_set \<Rightarrow> slice_header \<Rightarrow> nal_unit \<Rightarrow> poc_storage option" where
  "poc_type0 poc sps h nal = do {
     let poc = (if IS_IDR_NAL_UNIT nal then poc\<lparr>poc_prev_msb := 0, poc_prev_lsb := 0\<rparr> else poc);
     msb \<leftarrow> poc_msb poc sps h;
     let poc = (if nal_ref_idc nal \<noteq> 0 then poc\<lparr>poc_prev_msb := msb\<rparr> else poc);
     top \<leftarrow> chk (msb + sint (sh_pic_order_cnt_lsb h));
     let db = sh_delta_pic_order_cnt_bottom h;
     poc \<leftarrow> (if nal_ref_idc nal = 0 then Some poc
       else if poc_contains_mmco5 poc then do {
         lsb \<leftarrow> (if db < 0 \<and> sh_bottom_field_flag h = 0 then map_option word_of_int (chk (- db)) else Some 0);
         Some (poc\<lparr>poc_prev_msb := 0, poc_prev_lsb := lsb\<rparr>)
       } else Some (poc\<lparr>poc_prev_lsb := sh_pic_order_cnt_lsb h\<rparr>));
     bottom \<leftarrow> (if sh_field_pic_flag h = 0 then chk (top + db) else Some top);
     Some (poc\<lparr>poc_pic_order_cnt := (top, bottom)\<rparr>)
   }"

subsection \<open>Type 1\<close>

text \<open>The frame number offset, of types 1 and 2\<close>

definition frame_num_offset :: "poc_storage \<Rightarrow> seq_param_set \<Rightarrow> slice_header \<Rightarrow> nal_unit \<Rightarrow> 32 word" where
  "frame_num_offset poc sps h nal =
     (if IS_IDR_NAL_UNIT nal then 0
      else if poc_prev_frame_num poc > sh_frame_num h then poc_prev_frame_num_offset poc + sps_max_frame_num sps
      else poc_prev_frame_num_offset poc)"

text \<open>for (i = 0; i \<open><\<close> n; i++) acc += offset\_for\_ref\_frame[i], from index i on\<close>

fun add_offsets :: "int list \<Rightarrow> nat \<Rightarrow> nat \<Rightarrow> int \<Rightarrow> int option" where
  "add_offsets xs i 0 acc = Some acc"
| "add_offsets xs i (Suc n) acc = do {
     x \<leftarrow> array_read xs i;
     acc \<leftarrow> chk (acc + x);
     add_offsets xs (Suc i) n acc
   }"

text \<open>Steps 3 to 5: the expected picture order count of the frame with this number. With a cycle of
  length 0 the array is not read.\<close>

definition expected_poc :: "seq_param_set \<Rightarrow> 32 word \<Rightarrow> int option" where
  "expected_poc sps abs_frame_num = do {
     let cycle = sps_num_ref_frames_in_pic_order_cnt_cycle sps;
     let xs = (case sps_offset_for_ref_frame sps of None \<Rightarrow> [] | Some xs \<Rightarrow> xs);
     expected_delta \<leftarrow> add_offsets xs 0 (unat cycle) 0;
     if abs_frame_num = 0 then Some 0
     else if cycle = 0 then None
     else do {
       let cycle_cnt = (abs_frame_num - 1) div cycle;
       let in_cycle = (abs_frame_num - 1) mod cycle;
       acc \<leftarrow> chk (sint cycle_cnt * expected_delta);
       add_offsets xs 0 (Suc (unat in_cycle)) acc
     }
   }"

definition store_frame_num :: "poc_storage \<Rightarrow> slice_header \<Rightarrow> 32 word \<Rightarrow> poc_storage" where
  "store_frame_num poc h offset =
     (if poc_contains_mmco5 poc then poc\<lparr>poc_prev_frame_num_offset := 0, poc_prev_frame_num := 0\<rparr>
      else poc\<lparr>poc_prev_frame_num_offset := offset, poc_prev_frame_num := sh_frame_num h\<rparr>)"

definition poc_type1 :: "poc_storage \<Rightarrow> seq_param_set \<Rightarrow> slice_header \<Rightarrow> nal_unit \<Rightarrow> poc_storage option" where
  "poc_type1 poc sps h nal = do {
     let offset = frame_num_offset poc sps h nal;
     let n = (if sps_num_ref_frames_in_pic_order_cnt_cycle sps \<noteq> 0 then offset + sh_frame_num h else 0);
     let n = (if nal_ref_idc nal = 0 \<and> n > 0 then n - 1 else n);
     cnt \<leftarrow> expected_poc sps n;
     cnt \<leftarrow> (if nal_ref_idc nal = 0 then chk (cnt + sps_offset_for_non_ref_pic sps) else Some cnt);
     let cnt = (if poc_contains_mmco5 poc then 0 else cnt);
     let poc = store_frame_num poc h offset;
     (top, bottom) \<leftarrow>
       (if sh_field_pic_flag h = 0 then do {
          top \<leftarrow> chk (cnt + fst (sh_delta_pic_order_cnt h));
          b \<leftarrow> chk (top + sps_offset_for_top_to_bottom_field sps);
          b \<leftarrow> chk (b + snd (sh_delta_pic_order_cnt h));
          Some (top, b)
        } else if sh_bottom_field_flag h = 0 then
          map_option (\<lambda>t. (t, t)) (chk (cnt + fst (sh_delta_pic_order_cnt h)))
        else do {
          b \<leftarrow> chk (cnt + sps_offset_for_top_to_bottom_field sps);
          map_option (\<lambda>t. (t, t)) (chk (b + fst (sh_delta_pic_order_cnt h)))
        });
     Some (poc\<lparr>poc_pic_order_cnt := (top, bottom)\<rparr>)
   }"

subsection \<open>Type 2\<close>

definition poc_type2 :: "poc_storage \<Rightarrow> seq_param_set \<Rightarrow> slice_header \<Rightarrow> nal_unit \<Rightarrow> poc_storage option" where
  "poc_type2 poc sps h nal = do {
     let offset = frame_num_offset poc sps h nal;
     cnt \<leftarrow> (if IS_IDR_NAL_UNIT nal then Some 0
       else do {
         c \<leftarrow> chk (2 * sint (offset + sh_frame_num h));
         if nal_ref_idc nal = 0 then chk (c - 1) else Some c
       });
     Some (store_frame_num (poc\<lparr>poc_pic_order_cnt := (cnt, cnt)\<rparr>) h offset)
   }"

definition h264bsdDecodePicOrderCnt ::
  "poc_storage \<Rightarrow> seq_param_set \<Rightarrow> slice_header \<Rightarrow> nal_unit \<Rightarrow> poc_storage option" where
  "h264bsdDecodePicOrderCnt poc sps h nal =
     (if sps_pic_order_cnt_type sps > 2 then None
      else do {
        mmco5 \<leftarrow> poc_mmco5 h;
        let poc = poc\<lparr>poc_contains_mmco5 := mmco5\<rparr>;
        if sps_pic_order_cnt_type sps = 0 then poc_type0 poc sps h nal
        else if sps_pic_order_cnt_type sps = 1 then poc_type1 poc sps h nal
        else poc_type2 poc sps h nal
      })"

subsection \<open>Type 0: what the encoder left out is recovered\<close>

text \<open>The state after a reference picture whose top field has order count P, with lsb of M values.\<close>

definition poc0_state :: "int \<Rightarrow> int \<Rightarrow> poc_storage \<Rightarrow> bool" where
  "poc0_state M P poc = (poc_prev_msb poc = P - P mod M \<and> uint (poc_prev_lsb poc) = P mod M)"

definition poc_close :: "int \<Rightarrow> int \<Rightarrow> int \<Rightarrow> bool" where
  "poc_close M P T = (- M < 2 * (T - P) \<and> 2 * (T - P) \<le> M \<and> \<bar>P\<bar> < 2 ^ 30 \<and> \<bar>T\<bar> < 2 ^ 30)"

lemma quot_step:
  fixes T P M :: int
  assumes "M > 0" "- M < 2 * (T - P)" "2 * (T - P) \<le> M"
  shows "T - T mod M = P - P mod M + M * (if T mod M < P mod M \<and> M \<le> 2 * (P mod M - T mod M) then 1
    else if T mod M > P mod M \<and> M < 2 * (T mod M - P mod M) then -1 else 0)"
proof -
  have T: "T = M * (T div M) + T mod M" and P: "P = M * (P div M) + P mod M" by simp_all
  define d a b where "d = T div M - P div M" and "a = T mod M" and "b = P mod M"
  have ab: "0 \<le> a" "a < M" "0 \<le> b" "b < M" using assms(1) by (simp_all add: a_def b_def)
  have e: "T - P = M * d + (a - b)" unfolding d_def a_def b_def right_diff_distrib using T P by linarith
  have e2: "2 * (M * d) = 2 * (T - P) - 2 * a + 2 * b" using e by simp
  have "2 * (M * d) < 4 * M" using e2 assms(3) ab by linarith
  then have m1: "M * d < M * 2" by simp
  have "- (4 * M) < 2 * (M * d)" using e2 assms(2) ab by linarith
  then have m2: "M * (- 2) < M * d" by simp
  have "d < 2" "- 2 < d"
    using m1[unfolded mult_less_cancel_left_pos[OF assms(1)]] m2[unfolded mult_less_cancel_left_pos[OF assms(1)]] by simp_all
  then consider "d = -1" | "d = 0" | "d = 1" by linarith
  then have "d = (if a < b \<and> M \<le> 2 * (b - a) then 1 else if a > b \<and> M < 2 * (a - b) then -1 else 0)"
    using e assms ab by cases auto
  moreover have "T - a = P - b + M * d" using e by simp
  ultimately show ?thesis by (simp add: a_def b_def)
qed

lemma poc_msb_recovers:
  assumes "poc0_state M P poc" "uint (sps_max_pic_order_cnt_lsb sps) = M" "M > 0" "even M" "M \<le> 2 ^ 16"
    "uint (sh_pic_order_cnt_lsb h) = T mod M" "poc_close M P T"
  shows "poc_msb poc sps h = Some (T - T mod M)"
proof -
  let ?lsb = "sh_pic_order_cnt_lsb h" and ?prev = "poc_prev_lsb poc" and ?mx = "sps_max_pic_order_cnt_lsb sps"
  have p: "poc_prev_msb poc = P - P mod M" "uint ?prev = P mod M" using assms(1) by (simp_all add: poc0_state_def)
  have mx: "sint ?mx = M" using assms(2,3,5) by (simp add: sint_small)
  have half: "uint (?mx div 2) = M div 2" using assms(2) by (simp add: uint_div_distrib)
  have lt: "(?lsb < ?prev) = (T mod M < P mod M)" "(?lsb > ?prev) = (T mod M > P mod M)"
    using p assms(6) by (simp_all add: word_less_def)
  have d1: "uint (?prev - ?lsb) = P mod M - T mod M" if "T mod M < P mod M"
    using that p assms(6) uint_sub_lem[of ?lsb ?prev] by simp
  have d2: "uint (?lsb - ?prev) = T mod M - P mod M" if "T mod M > P mod M"
    using that p assms(6) uint_sub_lem[of ?prev ?lsb] by simp
  have c1: "(T mod M < P mod M \<and> ?prev - ?lsb \<ge> ?mx div 2) = (T mod M < P mod M \<and> M \<le> 2 * (P mod M - T mod M))"
    using d1 half assms(4) by (auto simp: word_le_def)
  have c2: "(T mod M > P mod M \<and> ?lsb - ?prev > ?mx div 2) = (T mod M > P mod M \<and> M < 2 * (T mod M - P mod M))"
    using d2 half assms(4) by (auto simp: word_less_def)
  have q: "T - T mod M = P - P mod M + M * (if T mod M < P mod M \<and> M \<le> 2 * (P mod M - T mod M) then 1
    else if T mod M > P mod M \<and> M < 2 * (T mod M - P mod M) then -1 else 0)"
    using quot_step[OF assms(3)] assms(7) by (auto simp: poc_close_def)
  define a where "a = T mod M"
  have "0 \<le> a" "a < M" using pos_mod_bound[OF assms(3)] pos_mod_sign[OF assms(3)] by (simp_all add: a_def)
  then have r: "- (2 ^ 31) \<le> T - T mod M" "T - T mod M < 2 ^ 31"
    using assms(5,7) unfolding poc_close_def a_def[symmetric] by auto
  show ?thesis unfolding poc_msb_def Let_def lt c1 c2 mx p(1) using q r by (auto simp: chk_def)
qed

text \<open>Decoding the order counts of a sequence of pictures.\<close>

fun poc_run :: "seq_param_set \<Rightarrow> poc_storage \<Rightarrow> (slice_header \<times> nal_unit) list \<Rightarrow> (int \<times> int) list option" where
  "poc_run sps poc [] = Some []"
| "poc_run sps poc ((h, nal) # ps) = do {
     poc \<leftarrow> h264bsdDecodePicOrderCnt poc sps h nal;
     cs \<leftarrow> poc_run sps poc ps;
     Some (poc_pic_order_cnt poc # cs)
   }"

text \<open>The picture has top field order count T, and carries its lsb; P is the count of the last
  reference picture, after a memory management operation 5 the one it is given then.\<close>

definition carries0 :: "int \<Rightarrow> int \<Rightarrow> int \<Rightarrow> slice_header \<Rightarrow> nal_unit \<Rightarrow> bool" where
  "carries0 M P T h nal = (uint (sh_pic_order_cnt_lsb h) = T mod M
     \<and> poc_close M (if IS_IDR_NAL_UNIT nal then 0 else P) T
     \<and> \<bar>sh_delta_pic_order_cnt_bottom h\<bar> < M \<and> poc_mmco5 h \<noteq> None)"

definition ref0 :: "int \<Rightarrow> int \<Rightarrow> slice_header \<Rightarrow> nal_unit \<Rightarrow> int" where
  "ref0 P T h nal =
     (if nal_ref_idc nal = 0 then (if IS_IDR_NAL_UNIT nal then 0 else P)
      else if poc_mmco5 h = Some True then
        (if sh_delta_pic_order_cnt_bottom h < 0 \<and> sh_bottom_field_flag h = 0
         then - sh_delta_pic_order_cnt_bottom h else 0)
      else T)"

fun all_carry0 :: "int \<Rightarrow> int \<Rightarrow> (int \<times> slice_header \<times> nal_unit) list \<Rightarrow> bool" where
  "all_carry0 M P [] = True"
| "all_carry0 M P ((T, h, nal) # ps) = (carries0 M P T h nal \<and> all_carry0 M (ref0 P T h nal) ps)"

definition fields0 :: "int \<Rightarrow> slice_header \<Rightarrow> int \<times> int" where
  "fields0 T h = (T, if sh_field_pic_flag h = 0 then T + sh_delta_pic_order_cnt_bottom h else T)"

definition lsb_range :: "int \<Rightarrow> seq_param_set \<Rightarrow> bool" where
  "lsb_range M sps = (uint (sps_max_pic_order_cnt_lsb sps) = M \<and> 0 < M \<and> even M \<and> M \<le> 2 ^ 16)"

lemma poc_type0_step:
  assumes "poc0_state M P poc" "lsb_range M sps" "sps_pic_order_cnt_type sps = 0" "carries0 M P T h nal"
  shows "\<exists>poc'. h264bsdDecodePicOrderCnt poc sps h nal = Some poc' \<and> poc_pic_order_cnt poc' = fields0 T h
    \<and> poc0_state M (ref0 P T h nal) poc'"
proof -
  let ?P = "if IS_IDR_NAL_UNIT nal then 0 else P"
  obtain m where m: "poc_mmco5 h = Some m" using assms(4) by (auto simp: carries0_def)
  let ?p0 = "poc\<lparr>poc_contains_mmco5 := m\<rparr>"
  define p1 where "p1 = (if IS_IDR_NAL_UNIT nal then ?p0\<lparr>poc_prev_msb := 0, poc_prev_lsb := 0\<rparr> else ?p0)"
  have M: "0 < M" "even M" "M \<le> 2 ^ 16" "uint (sps_max_pic_order_cnt_lsb sps) = M" using assms(2) by (simp_all add: lsb_range_def)
  have c: "uint (sh_pic_order_cnt_lsb h) = T mod M" "poc_close M ?P T" "\<bar>sh_delta_pic_order_cnt_bottom h\<bar> < M"
    using assms(4) by (simp_all add: carries0_def)
  have p1: "poc0_state M ?P p1" "poc_contains_mmco5 p1 = m" using assms(1) by (simp_all add: p1_def poc0_state_def)
  have msb: "poc_msb p1 sps h = Some (T - T mod M)" by (rule poc_msb_recovers[OF p1(1) M(4,1,2,3) c(1,2)])
  have lsb: "sint (sh_pic_order_cnt_lsb h) = T mod M"
    using c(1) pos_mod_bound[OF M(1), of T] M(3) by (simp add: sint_small)
  have T: "\<bar>T\<bar> < 2 ^ 30" using c(2) by (simp add: poc_close_def)
  let ?db = "sh_delta_pic_order_cnt_bottom h"
  have r: "- (2 ^ 31) \<le> T" "T < 2 ^ 31" "- (2 ^ 31) \<le> T + ?db" "T + ?db < 2 ^ 31" "- ?db < 2 ^ 31" "- (2 ^ 31) \<le> - ?db"
    using T c(3) M(3) by auto
  let ?p2 = "if nal_ref_idc nal \<noteq> 0 then p1\<lparr>poc_prev_msb := T - T mod M\<rparr> else p1"
  let ?lsb = "if ?db < 0 \<and> sh_bottom_field_flag h = 0 then word_of_int (- ?db) else 0"
  let ?p3 = "if nal_ref_idc nal = 0 then ?p2 else if m then ?p2\<lparr>poc_prev_msb := 0, poc_prev_lsb := ?lsb\<rparr>
    else ?p2\<lparr>poc_prev_lsb := sh_pic_order_cnt_lsb h\<rparr>"
  have "h264bsdDecodePicOrderCnt poc sps h nal = Some (?p3\<lparr>poc_pic_order_cnt := fields0 T h\<rparr>)"
    using assms(3) m msb lsb p1(2) r unfolding p1_def
    by (simp add: h264bsdDecodePicOrderCnt_def poc_type0_def Let_def chk_def fields0_def)
  moreover have "poc0_state M (ref0 P T h nal) (?p3\<lparr>poc_pic_order_cnt := fields0 T h\<rparr>)"
  proof -
    have u: "uint (word_of_int k :: 32 word) = k" if "0 \<le> k" "k < 2 ^ 16" for k
      using that by (simp add: uint_word_of_int)
    have "uint (word_of_int (- ?db) :: 32 word) = - ?db" if "?db < 0" using u[of "- ?db"] that c(3) M(3) by simp
    then show ?thesis using p1(1) m c M(1) by (auto simp: poc0_state_def ref0_def)
  qed
  ultimately show ?thesis by (intro exI[of _ "?p3\<lparr>poc_pic_order_cnt := fields0 T h\<rparr>"]) simp
qed

text \<open>C21: Picture order counts of type 0 are recovered from their low bits: in every sequence of
  pictures whose top field counts stay within half the range of the lsb from the last reference picture's
  count, the decoder computes for each picture the count it was sent with, through IDR pictures and
  memory management operation 5.\<close>

theorem poc_type0_recovers:
  assumes "all_carry0 M P ps" "poc0_state M P poc" "lsb_range M sps" "sps_pic_order_cnt_type sps = 0"
  shows "poc_run sps poc (List.map snd ps) = Some (List.map (\<lambda>(T, h, nal). fields0 T h) ps)"
  using assms(1,2)
proof (induction ps arbitrary: P poc)
  case (Cons x ps)
  obtain T h nal where x: "x = (T, h, nal)" by (cases x) auto
  have c: "carries0 M P T h nal" "all_carry0 M (ref0 P T h nal) ps" using Cons.prems(1) x by simp_all
  obtain poc' where s: "h264bsdDecodePicOrderCnt poc sps h nal = Some poc'" "poc_pic_order_cnt poc' = fields0 T h"
    "poc0_state M (ref0 P T h nal) poc'"
    using poc_type0_step[OF Cons.prems(2) assms(3,4) c(1)] by blast
  show ?case using Cons.IH[OF c(2) s(3)] s(1,2) x by simp
qed simp


subsection \<open>Types 1 and 2: frame numbers\<close>

text \<open>The state after a picture with absolute frame number A, of which frame\_num carries the
  remainder modulo m.\<close>

definition frame_state :: "nat \<Rightarrow> nat \<Rightarrow> poc_storage \<Rightarrow> bool" where
  "frame_state m A poc = (unat (poc_prev_frame_num poc) = A mod m \<and> unat (poc_prev_frame_num_offset poc) = A - A mod m)"

definition carries_frame :: "nat \<Rightarrow> nat \<Rightarrow> nat \<Rightarrow> slice_header \<Rightarrow> nal_unit \<Rightarrow> bool" where
  "carries_frame m A A' h nal = (unat (sh_frame_num h) = A' mod m \<and> A' < 2 ^ 30 \<and> poc_mmco5 h \<noteq> None
     \<and> (if IS_IDR_NAL_UNIT nal then A' = 0 \<and> nal_ref_idc nal \<noteq> 0 else A \<le> A' \<and> A' < A + m))"

definition next_frame :: "nat \<Rightarrow> slice_header \<Rightarrow> nat" where
  "next_frame A h = (if poc_mmco5 h = Some True then 0 else A)"

fun all_carry_frame :: "nat \<Rightarrow> nat \<Rightarrow> (nat \<times> slice_header \<times> nal_unit) list \<Rightarrow> bool" where
  "all_carry_frame m A [] = True"
| "all_carry_frame m A ((A', h, nal) # ps) = (carries_frame m A A' h nal \<and> all_carry_frame m (next_frame A' h) ps)"

lemma frame_quot:
  fixes A A' m :: nat
  assumes "0 < m" "A \<le> A'" "A' < A + m"
  shows "A' - A' mod m = A - A mod m + (if A mod m > A' mod m then m else 0)"
proof -
  define t t' a a' where "t = A div m" and "t' = A' div m" and "a = A mod m" and "a' = A' mod m"
  have A: "A = m * t + a" "A' = m * t' + a'" "a < m" "a' < m" using assms(1) by (simp_all add: t_def t'_def a_def a'_def)
  have "t \<le> t'" using assms(2) by (simp add: t_def t'_def div_le_mono)
  moreover have "t' \<le> t + 1"
  proof -
    have "A' div m \<le> (A + m) div m" using assms(3) by (intro div_le_mono) simp
    moreover have "(A + m) div m = A div m + 1" using assms(1) by (simp add: div_add_self2)
    ultimately show ?thesis by (simp add: t_def t'_def)
  qed
  ultimately consider "t' = t" | "t' = t + 1" by linarith
  then have "m * t' = m * t + (if a > a' then m else 0)"
  proof cases
    case 1
    then show ?thesis using A assms(2) by simp
  next
    case 2
    then show ?thesis using A assms(3) by auto
  qed
  then show ?thesis using A unfolding a_def[symmetric] a'_def[symmetric] by simp
qed

lemma frame_num_offset_recovers:
  assumes "frame_state m A poc" "unat (sps_max_frame_num sps) = m" "0 < m" "m \<le> 2 ^ 16" "carries_frame m A A' h nal"
  shows "unat (frame_num_offset poc sps h nal) = A' - A' mod m" "frame_num_offset poc sps h nal + sh_frame_num h = of_nat A'"
proof -
  have c: "unat (sh_frame_num h) = A' mod m" "A' < 2 ^ 30" "IS_IDR_NAL_UNIT nal \<Longrightarrow> A' = 0"
    "\<not> IS_IDR_NAL_UNIT nal \<Longrightarrow> A \<le> A'" "\<not> IS_IDR_NAL_UNIT nal \<Longrightarrow> A' < A + m"
    using assms(5) by (auto simp: carries_frame_def)
  have p: "unat (poc_prev_frame_num poc) = A mod m" "unat (poc_prev_frame_num_offset poc) = A - A mod m"
    using assms(1) by (simp_all add: frame_state_def)
  show u: "unat (frame_num_offset poc sps h nal) = A' - A' mod m"
  proof (cases "IS_IDR_NAL_UNIT nal")
    case False
    note q = frame_quot[OF assms(3) c(4,5)[OF False]]
    show ?thesis
    proof (cases "A mod m > A' mod m")
      case True
      have "A - A mod m + m < 2 ^ 32" using c(4)[OF False] c(2) assms(4) by simp
      then have "unat (poc_prev_frame_num_offset poc + sps_max_frame_num sps) = A - A mod m + m"
        using p(2) assms(2) by (subst unat_add_lem[THEN iffD1]) simp_all
      then show ?thesis using True False c(1) p(1) q by (simp add: frame_num_offset_def word_less_nat_alt)
    qed (use False c(1) p q in \<open>simp add: frame_num_offset_def word_less_nat_alt\<close>)
  qed (use c(3) in \<open>simp add: frame_num_offset_def\<close>)
  have "unat (frame_num_offset poc sps h nal + sh_frame_num h) = A'"
    using u c(1,2) by (subst unat_add_lem[THEN iffD1]) simp_all
  then show "frame_num_offset poc sps h nal + sh_frame_num h = of_nat A'" by auto
qed

lemma store_frame_state:
  assumes "frame_state m A poc" "unat (sps_max_frame_num sps) = m" "0 < m" "m \<le> 2 ^ 16" "carries_frame m A A' h nal"
    "poc_mmco5 h = Some (poc_contains_mmco5 poc')"
  shows "frame_state m (next_frame A' h) (store_frame_num poc' h (frame_num_offset poc sps h nal))"
  using frame_num_offset_recovers(1)[OF assms(1-5)] assms(5,6)
  by (auto simp: frame_state_def store_frame_num_def next_frame_def carries_frame_def)

definition count2 :: "nat \<Rightarrow> nal_unit \<Rightarrow> int" where
  "count2 A nal = 2 * int A - (if nal_ref_idc nal = 0 then 1 else 0)"

lemma poc_type2_step:
  assumes "frame_state m A poc" "unat (sps_max_frame_num sps) = m" "0 < m" "m \<le> 2 ^ 16" "carries_frame m A A' h nal"
    "sps_pic_order_cnt_type sps = 2"
  shows "\<exists>poc'. h264bsdDecodePicOrderCnt poc sps h nal = Some poc'
    \<and> poc_pic_order_cnt poc' = (count2 A' nal, count2 A' nal) \<and> frame_state m (next_frame A' h) poc'"
proof -
  obtain x where x: "poc_mmco5 h = Some x" using assms(5) by (auto simp: carries_frame_def)
  let ?p = "poc\<lparr>poc_contains_mmco5 := x\<rparr>"
  have f: "frame_num_offset ?p sps h nal = frame_num_offset poc sps h nal" by (simp add: frame_num_offset_def)
  have A: "A' < 2 ^ 30" "IS_IDR_NAL_UNIT nal \<Longrightarrow> A' = 0 \<and> nal_ref_idc nal \<noteq> 0"
    using assms(5) by (auto simp: carries_frame_def)
  have s: "sint (of_nat A' :: 32 word) = int A'"
    using A(1) by (subst sint_small) (simp_all add: unsigned_of_nat take_bit_nat_eq_self)
  let ?c = "count2 A' nal"
  have "h264bsdDecodePicOrderCnt poc sps h nal
      = Some (store_frame_num (?p\<lparr>poc_pic_order_cnt := (?c, ?c)\<rparr>) h (frame_num_offset poc sps h nal))"
    using assms(6) x A f frame_num_offset_recovers(2)[OF assms(1-5)] s
    by (auto simp: h264bsdDecodePicOrderCnt_def poc_type2_def Let_def chk_def count2_def)
  moreover have "frame_state m (next_frame A' h) (store_frame_num (?p\<lparr>poc_pic_order_cnt := (?c, ?c)\<rparr>) h (frame_num_offset poc sps h nal))"
    using x by (intro store_frame_state[OF assms(1-5)]) simp
  ultimately show ?thesis by (auto simp: store_frame_num_def)
qed

lemma poc_type2_run:
  assumes "all_carry_frame m A ps" "frame_state m A poc" "unat (sps_max_frame_num sps) = m" "0 < m" "m \<le> 2 ^ 16"
    "sps_pic_order_cnt_type sps = 2"
  shows "poc_run sps poc (List.map snd ps) = Some (List.map (\<lambda>(A, h, nal). (count2 A nal, count2 A nal)) ps)"
  using assms(1,2)
proof (induction ps arbitrary: A poc)
  case (Cons x ps)
  obtain A' h nal where x: "x = (A', h, nal)" by (cases x) auto
  have c: "carries_frame m A A' h nal" "all_carry_frame m (next_frame A' h) ps" using Cons.prems(1) x by simp_all
  obtain poc' where s: "h264bsdDecodePicOrderCnt poc sps h nal = Some poc'"
    "poc_pic_order_cnt poc' = (count2 A' nal, count2 A' nal)" "frame_state m (next_frame A' h) poc'"
    using poc_type2_step[OF Cons.prems(2) assms(3-5) c(1) assms(6)] by blast
  show ?case using Cons.IH[OF c(2) s(3)] s(1,2) x by simp
qed simp


text \<open>With picture order count type 2 the output order is the decoding order: the decoder numbers the
  frames 2 A, or 2 A - 1 for one that is not a reference, A being the frame number without its wrap-around.
  As long as frame numbers do not fall and one is used twice only by a non-reference frame and the
  reference frame after it, the counts of both fields rise from picture to picture.\<close>

theorem poc_type2_output_order:
  assumes "all_carry_frame m A ps" "frame_state m A poc" "unat (sps_max_frame_num sps) = m" "0 < m" "m \<le> 2 ^ 16"
    "sps_pic_order_cnt_type sps = 2"
    "successively (\<lambda>(A, h, nal) (A', h', nal'). A < A' \<or> A = A' \<and> nal_ref_idc nal = 0 \<and> nal_ref_idc nal' \<noteq> 0) ps"
  shows "\<exists>cs. poc_run sps poc (List.map snd ps) = Some (List.map (\<lambda>c. (c, c)) cs)
    \<and> cs = List.map (\<lambda>(A, h, nal). count2 A nal) ps \<and> sorted_wrt (<) cs"
proof -
  let ?cs = "List.map (\<lambda>(A, h, nal). count2 A nal) ps"
  have "successively (<) ?cs"
    unfolding successively_map using assms(7)
    by (rule successively_mono) (auto simp: count2_def)
  then have "sorted_wrt (<) ?cs" by (simp add: successively_conv_sorted_wrt)
  then show ?thesis using poc_type2_run[OF assms(1-6)] by (auto simp: case_prod_unfold)
qed

subsection \<open>Type 1: the cycle of offsets\<close>

text \<open>The expected picture order count after n reference frames: the offsets added up in turn.\<close>

definition cyclic_sum :: "int list \<Rightarrow> nat \<Rightarrow> int" where
  "cyclic_sum xs n = (\<Sum>j<n. xs ! (j mod length xs))"

lemma add_offsets_sum:
  assumes "i + n \<le> length xs" "\<forall>x \<in> set xs. \<bar>x\<bar> \<le> B" "\<bar>acc\<bar> + B * int n < 2 ^ 31"
  shows "add_offsets xs i n acc = Some (acc + (\<Sum>j<n. xs ! (i + j)))"
  using assms
proof (induction n arbitrary: i acc)
  case (Suc n)
  have x: "array_read xs i = Some (xs ! i)" "\<bar>xs ! i\<bar> \<le> B" using Suc.prems by (simp_all add: array_read_def)
  have b: "\<bar>acc + xs ! i\<bar> + B * int n < 2 ^ 31" using Suc.prems(3) x(2) by (simp add: algebra_simps)
  moreover have "0 \<le> B * int n" using x(2) by simp
  ultimately have "chk (acc + xs ! i) = Some (acc + xs ! i)" by (auto simp: chk_def)
  moreover have "add_offsets xs (Suc i) n (acc + xs ! i) = Some (acc + xs ! i + (\<Sum>j<n. xs ! (Suc i + j)))"
    using Suc.prems(1,2) b by (intro Suc.IH) simp_all
  ultimately show ?case using x(1) by (simp add: sum.lessThan_Suc_shift chk_def del: sum.lessThan_Suc)
qed simp

lemma cyclic_sum_cycles:
  assumes "xs \<noteq> []" "r \<le> length xs"
  shows "cyclic_sum xs (length xs * q + r) = int q * (\<Sum>j<length xs. xs ! j) + (\<Sum>j<r. xs ! j)"
proof -
  let ?c = "length xs"
  have one: "(\<Sum>j<?c * k + r. xs ! (j mod ?c)) = (\<Sum>j<?c * k. xs ! (j mod ?c)) + (\<Sum>j<r. xs ! j)" if "r \<le> ?c" for k r
  proof -
    have "(\<Sum>j<?c * k + r. xs ! (j mod ?c)) = (\<Sum>j<?c * k. xs ! (j mod ?c)) + (\<Sum>j<r. xs ! ((?c * k + j) mod ?c))"
      by (induction r) simp_all
    also have "(\<Sum>j<r. xs ! ((?c * k + j) mod ?c)) = (\<Sum>j<r. xs ! j)" using that by (intro sum.cong) auto
    finally show ?thesis .
  qed
  have "(\<Sum>j<?c * q. xs ! (j mod ?c)) = int q * (\<Sum>j<?c. xs ! j)"
  proof (induction q)
    case (Suc q)
    have "(\<Sum>j<?c * Suc q. xs ! (j mod ?c)) = (\<Sum>j<?c * q + ?c. xs ! (j mod ?c))" by (simp add: add.commute)
    then show ?case using one[of ?c q] Suc by (simp add: algebra_simps)
  qed simp
  then show ?thesis using one[OF assms(2), of q] by (simp add: cyclic_sum_def)
qed

lemma abs_sum_le:
  assumes "\<forall>x \<in> set xs. \<bar>x\<bar> \<le> (B :: int)" "r \<le> length xs"
  shows "\<bar>\<Sum>j<r. xs ! j\<bar> \<le> int r * B"
proof -
  have "\<bar>\<Sum>j<r. xs ! j\<bar> \<le> (\<Sum>j<r. \<bar>xs ! j\<bar>)" by (rule sum_abs)
  also have "\<dots> \<le> (\<Sum>j<r. B)" using assms by (intro sum_mono) simp
  finally show ?thesis by simp
qed

lemma expected_poc_cyclic:
  assumes "sps_offset_for_ref_frame sps = Some xs" "unat (sps_num_ref_frames_in_pic_order_cnt_cycle sps) = length xs"
    "xs \<noteq> []" "\<forall>x \<in> set xs. \<bar>x\<bar> \<le> B" "B * (int n + int (length xs)) < 2 ^ 31" "n < 2 ^ 31"
  shows "expected_poc sps (of_nat n) = Some (cyclic_sum xs n)"
proof (cases n)
  case 0
  have "0 \<le> B" using assms(3,4) by (cases xs) auto
  then have "add_offsets xs 0 (length xs) 0 = Some (0 + (\<Sum>j<length xs. xs ! (0 + j)))"
    using assms(4,5) 0 by (intro add_offsets_sum) simp_all
  then show ?thesis using assms(1,2) 0 by (simp add: expected_poc_def cyclic_sum_def)
next
  case (Suc k)
  let ?c = "length xs" and ?w = "sps_num_ref_frames_in_pic_order_cnt_cycle sps"
  let ?S = "\<Sum>j<?c. xs ! j"
  have B: "0 \<le> B" using assms(3,4) by (cases xs) auto
  have c: "0 < ?c" using assms(3) by simp
  have w0: "?w \<noteq> 0" using assms(2) c by (auto simp: unat_eq_0)
  have n1: "(of_nat n :: 32 word) - 1 = of_nat k" using Suc by simp
  have un: "unat (of_nat n :: 32 word) = n" "unat (of_nat k :: 32 word) = k"
    using Suc assms(6) by (simp_all add: unsigned_of_nat take_bit_nat_eq_self del: of_nat_Suc)
  have n0: "(of_nat n :: 32 word) \<noteq> 0" using un(1) Suc by (metis unat_0 nat.distinct(1))
  have d: "sint (of_nat k div ?w) = int (k div ?c)" "unat (of_nat k mod ?w) = k mod ?c"
  proof -
    have "unat (of_nat k div ?w) = k div ?c" using un(2) assms(2) by (simp add: unat_div_distrib)
    then show "sint (of_nat k div ?w) = int (k div ?c)"
      using le_less_trans[OF div_le_dividend[of k ?c], of "2 ^ 31"] Suc assms(6) by (subst sint_small) (simp_all add: uint_nat)
    show "unat (of_nat k mod ?w) = k mod ?c" using un(2) assms(2) by (simp add: unat_mod_distrib)
  qed
  have B1: "\<bar>int (k div ?c) * ?S\<bar> \<le> B * int k"
  proof -
    have "\<bar>int (k div ?c) * ?S\<bar> \<le> int (k div ?c) * (int ?c * B)"
      using abs_sum_le[OF assms(4) order_refl] by (simp add: abs_mult mult_left_mono)
    also have "\<dots> = int (?c * (k div ?c)) * B" by simp
    also have "\<dots> \<le> int k * B" using B by (intro mult_right_mono) (simp_all only: of_nat_le_iff, simp)
    finally show ?thesis by (simp add: mult.commute)
  qed
  have B2: "B * int k + B * int (Suc (k mod ?c)) < 2 ^ 31"
  proof -
    have "B * int (Suc (k mod ?c)) \<le> B * int ?c" using B mod_less_divisor[OF c, of k] by (intro mult_left_mono) simp_all
    moreover have "B * int k \<le> B * int n" using B Suc by (intro mult_left_mono) simp_all
    ultimately show ?thesis using assms(5) by (simp add: distrib_left)
  qed
  have B3: "\<bar>0\<bar> + B * int ?c < 2 ^ 31" using assms(5) B by (simp add: distrib_left) (smt (verit) mult_nonneg_nonneg of_nat_0_le_iff)
  have a1: "add_offsets xs 0 ?c 0 = Some (0 + (\<Sum>j<?c. xs ! (0 + j)))"
    using assms(4) B3 by (intro add_offsets_sum) simp_all
  have a2: "add_offsets xs 0 (Suc (k mod ?c)) (int (k div ?c) * ?S)
      = Some (int (k div ?c) * ?S + (\<Sum>j<Suc (k mod ?c). xs ! (0 + j)))"
  proof (rule add_offsets_sum[OF _ assms(4)])
    show "0 + Suc (k mod ?c) \<le> ?c" using mod_less_divisor[OF c, of k] by simp
    show "\<bar>int (k div ?c) * ?S\<bar> + B * int (Suc (k mod ?c)) < 2 ^ 31" using B1 B2 by linarith
  qed
  have ch: "chk (int (k div ?c) * ?S) = Some (int (k div ?c) * ?S)"
  proof -
    have "0 \<le> B * int (Suc (k mod ?c))" using B by simp
    then show ?thesis using B1 B2 by (auto simp: chk_def)
  qed
  have "cyclic_sum xs n = int (k div ?c) * ?S + (\<Sum>j<Suc (k mod ?c). xs ! j)"
    using cyclic_sum_cycles[OF assms(3), of "Suc (k mod ?c)" "k div ?c"] mod_less_divisor[OF c, of k] Suc
    by (simp del: sum.lessThan_Suc)
  then show ?thesis
    using assms(1,2) a1 a2 ch d n0 n1 w0
    by (simp add: expected_poc_def Let_def del: sum.lessThan_Suc add_offsets.simps chk_Some)
qed


text \<open>The counts of a frame in type 1. All offsets are bounded so that nothing overflows.\<close>

definition count1 :: "seq_param_set \<Rightarrow> int list \<Rightarrow> nat \<Rightarrow> slice_header \<Rightarrow> nal_unit \<Rightarrow> int \<times> int" where
  "count1 sps xs A h nal =
     (let ref = (nal_ref_idc nal \<noteq> 0);
          cnt = (if poc_mmco5 h = Some True then 0
                 else cyclic_sum xs (if ref then A else A - 1) + (if ref then 0 else sps_offset_for_non_ref_pic sps));
          top = cnt + fst (sh_delta_pic_order_cnt h)
      in (top, top + sps_offset_for_top_to_bottom_field sps + snd (sh_delta_pic_order_cnt h)))"

definition offsets_ok :: "seq_param_set \<Rightarrow> int list \<Rightarrow> int \<Rightarrow> bool" where
  "offsets_ok sps xs B = (sps_offset_for_ref_frame sps = Some xs \<and> xs \<noteq> []
     \<and> unat (sps_num_ref_frames_in_pic_order_cnt_cycle sps) = length xs \<and> (\<forall>x \<in> set xs. \<bar>x\<bar> \<le> B)
     \<and> \<bar>sps_offset_for_non_ref_pic sps\<bar> < 2 ^ 28 \<and> \<bar>sps_offset_for_top_to_bottom_field sps\<bar> < 2 ^ 28)"

definition deltas_ok :: "int list \<Rightarrow> int \<Rightarrow> nat \<Rightarrow> slice_header \<Rightarrow> bool" where
  "deltas_ok xs B A h = (sh_field_pic_flag h = 0 \<and> B * (int A + int (length xs)) < 2 ^ 28
     \<and> \<bar>fst (sh_delta_pic_order_cnt h)\<bar> < 2 ^ 28 \<and> \<bar>snd (sh_delta_pic_order_cnt h)\<bar> < 2 ^ 28)"

lemma abs_cyclic_sum:
  assumes "xs \<noteq> []" "\<forall>x \<in> set xs. \<bar>x\<bar> \<le> B"
  shows "\<bar>cyclic_sum xs n\<bar> \<le> B * int n"
proof -
  have "\<bar>cyclic_sum xs n\<bar> \<le> (\<Sum>j<n. \<bar>xs ! (j mod length xs)\<bar>)" unfolding cyclic_sum_def by (rule sum_abs)
  also have "\<dots> \<le> (\<Sum>j<n. B)" using assms by (intro sum_mono) simp
  finally show ?thesis by (simp add: mult.commute)
qed

lemma poc_type1_step:
  assumes "frame_state m A poc" "unat (sps_max_frame_num sps) = m" "0 < m" "m \<le> 2 ^ 16" "carries_frame m A A' h nal"
    "sps_pic_order_cnt_type sps = 1" "offsets_ok sps xs B" "deltas_ok xs B A' h"
  shows "\<exists>poc'. h264bsdDecodePicOrderCnt poc sps h nal = Some poc'
    \<and> poc_pic_order_cnt poc' = count1 sps xs A' h nal \<and> frame_state m (next_frame A' h) poc'"
proof -
  obtain x where x: "poc_mmco5 h = Some x" using assms(5) by (auto simp: carries_frame_def)
  let ?p = "poc\<lparr>poc_contains_mmco5 := x\<rparr>"
  have f: "frame_num_offset ?p sps h nal = frame_num_offset poc sps h nal" by (simp add: frame_num_offset_def)
  have A: "A' < 2 ^ 30" using assms(5) by (simp add: carries_frame_def)
  have o: "sps_offset_for_ref_frame sps = Some xs" "xs \<noteq> []"
    "unat (sps_num_ref_frames_in_pic_order_cnt_cycle sps) = length xs" "\<forall>x \<in> set xs. \<bar>x\<bar> \<le> B"
    "\<bar>sps_offset_for_non_ref_pic sps\<bar> < 2 ^ 28" "\<bar>sps_offset_for_top_to_bottom_field sps\<bar> < 2 ^ 28"
    using assms(7) by (simp_all add: offsets_ok_def)
  have d: "sh_field_pic_flag h = 0" "B * (int A' + int (length xs)) < 2 ^ 28" "\<bar>fst (sh_delta_pic_order_cnt h)\<bar> < 2 ^ 28"
    "\<bar>snd (sh_delta_pic_order_cnt h)\<bar> < 2 ^ 28" using assms(8) by (simp_all add: deltas_ok_def)
  have B: "0 \<le> B" using o(2,4) by (cases xs) auto
  have cyc: "sps_num_ref_frames_in_pic_order_cnt_cycle sps \<noteq> 0" using o(2,3) by (auto simp: unat_eq_0)
  let ?n = "if nal_ref_idc nal \<noteq> 0 then A' else A' - 1"
  have n: "(if nal_ref_idc nal = 0 \<and> (of_nat A' :: 32 word) > 0 then of_nat A' - 1 else of_nat A') = (of_nat ?n :: 32 word)"
  proof -
    have "(of_nat A' :: 32 word) > 0 \<longleftrightarrow> A' > 0"
      using A by (simp add: word_less_nat_alt unsigned_of_nat take_bit_nat_eq_self)
    then show ?thesis by (cases A') auto
  qed
  have le: "B * (int ?n + int (length xs)) < 2 ^ 28"
  proof -
    have "B * (int ?n + int (length xs)) \<le> B * (int A' + int (length xs))" using B by (intro mult_left_mono) auto
    then show ?thesis using d(2) by linarith
  qed
  have e: "expected_poc sps (of_nat ?n) = Some (cyclic_sum xs ?n)"
    using le A by (intro expected_poc_cyclic[OF o(1,3,2,4)]) auto
  have cs: "\<bar>cyclic_sum xs ?n\<bar> < 2 ^ 28"
  proof -
    have "B * int ?n \<le> B * (int ?n + int (length xs))" using B by (intro mult_left_mono) auto
    then show ?thesis using abs_cyclic_sum[OF o(2,4), of ?n] le by linarith
  qed
  let ?c = "count1 sps xs A' h nal" and ?p1 = "store_frame_num ?p h (frame_num_offset poc sps h nal)"
  have s: "h264bsdDecodePicOrderCnt poc sps h nal = Some (?p1\<lparr>poc_pic_order_cnt := ?c\<rparr>)"
    using assms(6) x f d(1) e n cs o(5,6) d(3,4) cyc frame_num_offset_recovers(2)[OF assms(1-5)]
    by (cases "nal_ref_idc nal = 0"; cases x; cases "(0 :: 32 word) < of_nat A'")
      (simp_all add: h264bsdDecodePicOrderCnt_def poc_type1_def Let_def count1_def chk_def abs_less_iff)
  have "frame_state m (next_frame A' h) (?p1\<lparr>poc_pic_order_cnt := ?c\<rparr>)"
    using store_frame_state[OF assms(1-5), of ?p] x by (simp add: frame_state_def)
  then show ?thesis using s by (intro exI[of _ "?p1\<lparr>poc_pic_order_cnt := ?c\<rparr>"]) simp
qed


text \<open>C35: With picture order count type 1 the decoder counts every frame by adding up the cycle of
  offsets once for each reference frame before it: the division into whole cycles and a rest that the code
  makes is equivalent to going round the cycle, for every sequence of frames whose offsets do not
  overflow 32 bits.\<close>

theorem poc_type1_cycles:
  assumes "all_carry_frame m A ps" "frame_state m A poc" "unat (sps_max_frame_num sps) = m" "0 < m" "m \<le> 2 ^ 16"
    "sps_pic_order_cnt_type sps = 1" "offsets_ok sps xs B" "\<forall>(A, h, nal) \<in> set ps. deltas_ok xs B A h"
  shows "poc_run sps poc (List.map snd ps) = Some (List.map (\<lambda>(A, h, nal). count1 sps xs A h nal) ps)"
  using assms(1,2,8)
proof (induction ps arbitrary: A poc)
  case (Cons x ps)
  obtain A' h nal where x: "x = (A', h, nal)" by (cases x) auto
  have c: "carries_frame m A A' h nal" "all_carry_frame m (next_frame A' h) ps" "deltas_ok xs B A' h"
    using Cons.prems(1,3) x by simp_all
  obtain poc' where s: "h264bsdDecodePicOrderCnt poc sps h nal = Some poc'"
    "poc_pic_order_cnt poc' = count1 sps xs A' h nal" "frame_state m (next_frame A' h) poc'"
    using poc_type1_step[OF Cons.prems(2) assms(3-5) c(1) assms(6,7) c(3)] by blast
  have "poc_run sps poc' (List.map snd ps) = Some (List.map (\<lambda>(A, h, nal). count1 sps xs A h nal) ps)"
    using Cons.IH[OF c(2) s(3)] Cons.prems(3) by simp
  then show ?case using s(1,2) x by simp
qed simp

text \<open>The search for memory management operation 5 reads on until an operation 0: if the slice
  header has adaptive marking and its array holds neither, the count is not computed and the array is read past its end.\<close>

theorem poc_unterminated_marking:
  assumes "dm_adaptive_flag (sh_marking h) \<noteq> 0" "\<forall>op \<in> set (dm_operation (sh_marking h)). mm_operation op \<notin> {0, 5}"
  shows "h264bsdDecodePicOrderCnt poc sps h nal = None"
proof -
  have "has_mmco5 ops = None" if "\<forall>op \<in> set ops. mm_operation op \<notin> {0, 5}" for ops
    using that by (induction ops) auto
  then show ?thesis using assms by (simp add: h264bsdDecodePicOrderCnt_def poc_mmco5_def)
qed

subsection \<open>Concrete pictures\<close>

definition no_reordering :: reordering where
  "no_reordering = \<lparr>rl_flag = 0, rl_command = []\<rparr>"

definition plain_header :: slice_header where
  "plain_header = \<lparr>sh_first_mb_in_slice = 0, sh_slice_type = 0, sh_pic_parameter_set_id = 0, sh_frame_num = 0,
     sh_idr_pic_id = 0, sh_poc_length = 0, sh_poc_length_hw = 0, sh_pic_order_cnt_lsb = 0,
     sh_delta_pic_order_cnt_bottom = 0, sh_delta_pic_order_cnt = (0, 0), sh_redundant_pic_cnt = 0,
     sh_num_ref_idx_active_override_flag = 0, sh_num_ref_idx_l0_active = 0, sh_num_ref_idx_l1_active = 0,
     sh_slice_qp_delta = 0, sh_disable_deblocking_filter_idc = 0, sh_slice_alpha_c0_offset = 0,
     sh_slice_beta_offset = 0, sh_slice_group_change_cycle = 0, sh_reordering_l0 = no_reordering,
     sh_reordering_l1 = no_reordering,
     sh_marking = \<lparr>dm_strm_len = 0, dm_no_output_of_prior_pics_flag = 0, dm_long_term_reference_flag = 0,
       dm_adaptive_flag = 0, dm_operation = []\<rparr>,
     sh_cabac_init_idc = 0, sh_field_pic_flag = 0, sh_bottom_field_flag = 0, sh_direct_spatial_mv_pred_flag = 0\<rparr>"

definition plain_nal :: "32 word \<Rightarrow> 32 word \<Rightarrow> nal_unit" where
  "plain_nal t r = \<lparr>nal_unit_type = t, nal_ref_idc = r, svc_extension_flag = 0, non_idr_flag = 0, priority_id = 0,
     view_id = 0, temporal_id = 0, anchor_pic_flag = 0, inter_view_flag = 0\<rparr>"

definition plain_sps :: "32 word \<Rightarrow> seq_param_set" where
  "plain_sps t = \<lparr>sps_profile_idc = 100, sps_level_idc = 40, sps_constrained_set0_flag = 0, sps_constrained_set1_flag = 0,
     sps_constrained_set2_flag = 0, sps_constrained_set3_flag = 0, sps_seq_parameter_set_id = 0, sps_max_frame_num = 16,
     sps_pic_order_cnt_type = t, sps_max_pic_order_cnt_lsb = 16, sps_delta_pic_order_always_zero_flag = 0,
     sps_offset_for_non_ref_pic = -2, sps_offset_for_top_to_bottom_field = 1,
     sps_num_ref_frames_in_pic_order_cnt_cycle = 2, sps_offset_for_ref_frame = Some [2, 4],
     sps_num_ref_frames = 1, sps_gaps_in_frame_num_value_allowed_flag = 0, sps_pic_width_in_mbs = 4,
     sps_pic_height_in_mbs = 4, sps_frame_cropping_flag = 0, sps_frame_crop_left_offset = 0,
     sps_frame_crop_right_offset = 0, sps_frame_crop_top_offset = 0, sps_frame_crop_bottom_offset = 0,
     sps_vui_parameters_present_flag = 0, sps_vui_parameters = None, sps_max_dpb_size = 1, sps_frame_mbs_only_flag = 1,
     sps_mb_adaptive_frame_field_flag = 0, sps_direct8x8_inference_flag = 0, sps_chroma_format_idc = 1,
     sps_mono_chrome = 0, sps_bit_depth_luma = 8, sps_bit_depth_chroma = 8, sps_scaling_matrix_present_flag = 0,
     sps_scaling_list_present = [], sps_use_default_scaling = [], sps_scaling_list = [], sps_num_views = 0,
     sps_view_id = []\<rparr>"

definition start_poc :: poc_storage where
  "start_poc = \<lparr>poc_prev_lsb = 0, poc_prev_msb = 0, poc_prev_frame_num = 0, poc_prev_frame_num_offset = 0,
     poc_contains_mmco5 = False, poc_pic_order_cnt = (0, 0)\<rparr>"

lemmas poc_demo = plain_header_def plain_nal_def plain_sps_def start_poc_def IS_IDR_NAL_UNIT_def
  NAL_CODED_SLICE_IDR_def NAL_CODED_SLICE_EXT_def poc_mmco5_def

text \<open>An IDR picture and two P pictures 8 counts apart, with 16 values of the lsb.\<close>

lemma poc_type0_recovers_witness:
  "poc_run (plain_sps 0) start_poc
     [(plain_header, plain_nal 5 1), (plain_header\<lparr>sh_pic_order_cnt_lsb := 8\<rparr>, plain_nal 1 1), (plain_header, plain_nal 1 1)]
   = Some [(0, 0), (8, 8), (16, 16)]"
  using poc_type0_recovers[of 16 0 "[(0, plain_header, plain_nal 5 1),
    (8, plain_header\<lparr>sh_pic_order_cnt_lsb := 8\<rparr>, plain_nal 1 1), (16, plain_header, plain_nal 1 1)]" start_poc "plain_sps 0"]
  by (simp add: poc_demo carries0_def poc_close_def ref0_def poc0_state_def lsb_range_def fields0_def)

lemma poc_type2_output_order_witness:
  "poc_run (plain_sps 2) start_poc
     [(plain_header, plain_nal 5 1), (plain_header\<lparr>sh_frame_num := 1\<rparr>, plain_nal 1 0), (plain_header\<lparr>sh_frame_num := 1\<rparr>, plain_nal 1 1)]
   = Some [(0, 0), (1, 1), (2, 2)]"
  using poc_type2_output_order[of 16 0 "[(0, plain_header, plain_nal 5 1),
    (1, plain_header\<lparr>sh_frame_num := 1\<rparr>, plain_nal 1 0), (1, plain_header\<lparr>sh_frame_num := 1\<rparr>, plain_nal 1 1)]" start_poc "plain_sps 2"]
  by (simp add: poc_demo carries_frame_def next_frame_def frame_state_def count2_def)

lemma cyclic_sum_Suc: "cyclic_sum xs (Suc n) = cyclic_sum xs n + xs ! (n mod length xs)"
  by (simp add: cyclic_sum_def)

lemma cyclic_sum_demo: "cyclic_sum [2, 4] 0 = 0" "cyclic_sum [2, 4] (Suc 0) = 2" "cyclic_sum [2, 4] 2 = 6"
  using cyclic_sum_Suc[of "[2, 4]" 0] cyclic_sum_Suc[of "[2, 4]" 1] by (simp_all add: cyclic_sum_def numeral_2_eq_2)

lemma poc_type1_cycles_witness:
  "poc_run (plain_sps 1) start_poc
     [(plain_header, plain_nal 5 1), (plain_header\<lparr>sh_frame_num := 1\<rparr>, plain_nal 1 1), (plain_header\<lparr>sh_frame_num := 3\<rparr>, plain_nal 1 0)]
   = Some [(0, 1), (2, 3), (4, 5)]"
  using poc_type1_cycles[of 16 0 "[(0, plain_header, plain_nal 5 1), (1, plain_header\<lparr>sh_frame_num := 1\<rparr>, plain_nal 1 1),
    (3, plain_header\<lparr>sh_frame_num := 3\<rparr>, plain_nal 1 0)]" start_poc "plain_sps 1" "[2, 4]" 4]
  by (simp add: poc_demo carries_frame_def next_frame_def frame_state_def count1_def offsets_ok_def deltas_ok_def
      cyclic_sum_demo)

lemma poc_unterminated_marking_witness:
  "h264bsdDecodePicOrderCnt start_poc (plain_sps 0)
     (plain_header\<lparr>sh_marking := (sh_marking plain_header)\<lparr>dm_adaptive_flag := 1\<rparr>\<rparr>) (plain_nal 1 1) = None"
  by (rule poc_unterminated_marking) (simp_all add: plain_header_def)

end
