(* ===== verification/H264Reader.thy ===== *)
theory H264Reader
  imports ExpGolomb H264Types
begin

text \<open>
  The steps the parsers of the decoder are made of: read a syntax element, return early when the stream
  ends or the code is bad, else go on. A step takes what follows as its last arguments: e where the code
  returns early, k where it goes on with the element.

  A parser of a parameter set gives Inl of the status where it fails, the structure being freed by the
  caller, and Inr of the structure and the stream where it succeeds.
\<close>

subsection \<open>Steps\<close>

text \<open>tmp = h264bsdGetBits(s, n); if (tmp == END\_OF\_STREAM) return e; with k for the bits\<close>

definition read_u :: "nat \<Rightarrow> (strm_data \<Rightarrow> 'r option) \<Rightarrow> (32 word \<Rightarrow> strm_data \<Rightarrow> 'r option) \<Rightarrow> strm_data \<Rightarrow> 'r option" where
  "read_u n e k s = Option.bind (h264bsdGetBits s n) (\<lambda>(tmp, s). if tmp = END_OF_STREAM then e s else k tmp s)"

text \<open>The same without the check, and with the bit as a truth value\<close>

definition read_any :: "nat \<Rightarrow> (32 word \<Rightarrow> strm_data \<Rightarrow> 'r option) \<Rightarrow> strm_data \<Rightarrow> 'r option" where
  "read_any n k s = Option.bind (h264bsdGetBits s n) (\<lambda>(tmp, s). k tmp s)"

definition read_flag :: "(strm_data \<Rightarrow> 'r option) \<Rightarrow> (32 word \<Rightarrow> strm_data \<Rightarrow> 'r option) \<Rightarrow> strm_data \<Rightarrow> 'r option" where
  "read_flag e k = read_u 1 e (\<lambda>tmp. k (if tmp = 1 then 1 else 0))"

text \<open>tmp = h264bsdShowBits(s, 32); if (h264bsdFlushBits(s, 32) == END\_OF\_STREAM) return e\<close>

definition read_32 :: "(strm_data \<Rightarrow> 'r option) \<Rightarrow> (32 word \<Rightarrow> strm_data \<Rightarrow> 'r option) \<Rightarrow> strm_data \<Rightarrow> 'r option" where
  "read_32 e k s = do {
     tmp \<leftarrow> h264bsdShowBits s 32;
     (status, s) \<leftarrow> h264bsdFlushBits s 32;
     if status = END_OF_STREAM then e s else k tmp s
   }"

text \<open>tmp = h264bsdDecodeExpGolombUnsigned(s, v), v holding c; if (tmp != HANTRO\_OK) return e\<close>

definition read_ue ::
  "32 word \<Rightarrow> (32 word \<Rightarrow> 32 word \<Rightarrow> strm_data \<Rightarrow> 'r option) \<Rightarrow> (32 word \<Rightarrow> strm_data \<Rightarrow> 'r option) \<Rightarrow> strm_data \<Rightarrow> 'r option" where
  "read_ue c e k s = Option.bind (h264bsdDecodeExpGolombUnsigned s c)
     (\<lambda>(st, v, s). if st \<noteq> HANTRO_OK then e st v s else k v s)"

definition read_se ::
  "(32 word \<Rightarrow> 32 word \<Rightarrow> strm_data \<Rightarrow> 'r option) \<Rightarrow> (int \<Rightarrow> strm_data \<Rightarrow> 'r option) \<Rightarrow> strm_data \<Rightarrow> 'r option" where
  "read_se e k s = Option.bind (h264bsdDecodeExpGolombSigned s 0)
     (\<lambda>(st, v, s). if st \<noteq> HANTRO_OK then e st v s else k (sint v) s)"

text \<open>A loop that reads n code numbers\<close>

fun read_ues ::
  "nat \<Rightarrow> (32 word \<Rightarrow> 32 word \<Rightarrow> strm_data \<Rightarrow> 'r option) \<Rightarrow> 32 word list \<Rightarrow> (32 word list \<Rightarrow> strm_data \<Rightarrow> 'r option) \<Rightarrow> strm_data \<Rightarrow> 'r option" where
  "read_ues 0 e acc k s = k acc s"
| "read_ues (Suc n) e acc k s = read_ue 0 e (\<lambda>v. read_ues n e (acc @ [v]) k) s"

text \<open>return(st) and return(tmp) of the parsers of parameter sets\<close>

definition failed :: "32 word \<Rightarrow> strm_data \<Rightarrow> (32 word + 'a) option" where
  "failed st s = Some (Inl st)"

definition failed_ue :: "32 word \<Rightarrow> 32 word \<Rightarrow> strm_data \<Rightarrow> (32 word + 'a) option" where
  "failed_ue st v s = Some (Inl st)"

definition MEMORY_ALLOCATION_ERROR :: "32 word" where "MEMORY_ALLOCATION_ERROR = 0xFFFF"

subsection \<open>What a step leaves\<close>

text \<open>The rest of a parser returns, with Q for its result.\<close>

definition returns :: "('r \<Rightarrow> bool) \<Rightarrow> 'r option \<Rightarrow> bool" where
  "returns Q r = (\<exists>x. r = Some x \<and> Q x)"

named_theorems step_intros

lemma returns_Some: "Q x \<Longrightarrow> returns Q (Some x)"
  by (simp add: returns_def)

lemma returns_failed [step_intros]: "Q (Inl st) \<Longrightarrow> returns Q (failed st s)"
  by (simp add: returns_def failed_def)

lemma returns_failed_ue [step_intros]: "Q (Inl st) \<Longrightarrow> returns Q (failed_ue st v s)"
  by (simp add: returns_def failed_ue_def)

lemma returns_if [step_intros]:
  "(c \<Longrightarrow> returns Q (f s)) \<Longrightarrow> (\<not> c \<Longrightarrow> returns Q (g s)) \<Longrightarrow> returns Q ((if c then f else g) s)"
  by simp

lemma returns_if' [step_intros]:
  "(c \<Longrightarrow> returns Q r) \<Longrightarrow> (\<not> c \<Longrightarrow> returns Q r') \<Longrightarrow> returns Q (if c then r else r')"
  by simp

lemma GetBits_small: "h264bsdGetBits s n = Some (out, s') \<Longrightarrow> out \<noteq> END_OF_STREAM \<Longrightarrow> unat out < 2 ^ n"
proof -
  assume a: "h264bsdGetBits s n = Some (out, s')" "out \<noteq> END_OF_STREAM"
  show "unat out < 2 ^ n"
  proof (cases "n = 0")
    case True
    then show ?thesis using a by (simp add: h264bsdGetBits_def)
  next
    case False
    then obtain sh where sh: "out = drop_bit (32 - n) sh" "n < 32"
      using a by (auto simp: h264bsdGetBits_def Let_def bind_cases split: if_splits)
    have "unat sh < 2 ^ (32 - n) * 2 ^ n"
      using unsigned_less[of sh] sh(2) by (simp flip: power_add)
    then have "unat sh div 2 ^ (32 - n) < 2 ^ n" by (simp add: less_mult_imp_div_less mult.commute)
    then show ?thesis using unat_drop_bit_div[of "32 - n" sh] sh(1) by simp
  qed
qed

lemma returns_u [step_intros]:
  assumes "readable s" "0 < n" "n < 32" "\<And>s'. readable s' \<Longrightarrow> returns Q (e s')"
    and "\<And>v s'. readable s' \<Longrightarrow> unat v < 2 ^ n \<Longrightarrow> returns Q (k v s')"
  shows "returns Q (read_u n e k s)"
proof -
  obtain out s' where g: "h264bsdGetBits s n = Some (out, s')" "advanced s n s'"
    using GetBits_rest[OF assms(1-3)] by blast
  then have "readable s'" using assms(1) by (blast intro: readable_advanced)
  then show ?thesis using g GetBits_small[OF g(1)] assms(4,5) by (auto simp: read_u_def)
qed

lemma returns_any [step_intros]:
  assumes "readable s" "0 < n" "n < 32" "\<And>v s'. readable s' \<Longrightarrow> v = END_OF_STREAM \<or> unat v < 2 ^ n \<Longrightarrow> returns Q (k v s')"
  shows "returns Q (read_any n k s)"
proof -
  obtain out s' where g: "h264bsdGetBits s n = Some (out, s')" "advanced s n s'"
    using GetBits_rest[OF assms(1-3)] by blast
  then have "readable s'" using assms(1) by (blast intro: readable_advanced)
  then show ?thesis using g GetBits_small[OF g(1)] assms(4) by (auto simp: read_any_def)
qed

text \<open>An unchecked read, with the number of bits that are left\<close>

lemma returns_any_left:
  assumes "readable s" "0 < n" "n < 32"
    and "\<And>v s'. readable s' \<Longrightarrow> length (sd_rest s') = length (sd_rest s) - n \<Longrightarrow>
      (n \<le> length (sd_rest s) \<Longrightarrow> v \<noteq> END_OF_STREAM \<and> unat v < 2 ^ n) \<Longrightarrow>
      (length (sd_rest s) < n \<Longrightarrow> v = END_OF_STREAM) \<Longrightarrow> returns Q (k v s')"
  shows "returns Q (read_any n k s)"
proof -
  obtain out s' where g: "h264bsdGetBits s n = Some (out, s')" "advanced s n s'"
    "n \<le> length (sd_rest s) \<Longrightarrow> out \<noteq> END_OF_STREAM" "length (sd_rest s) < n \<Longrightarrow> out = END_OF_STREAM"
    using GetBits_rest[OF assms(1-3)] by (auto split: if_splits)
  then have "readable s'" "length (sd_rest s') = length (sd_rest s) - n"
    using assms(1) by (auto intro: readable_advanced simp: advanced_def)
  then show ?thesis using g GetBits_small[OF g(1)] assms(4) by (auto simp: read_any_def)
qed

text \<open>The same with what is known when the stream ends only\<close>

lemma returns_any_end:
  assumes "readable s" "0 < n" "n < 32"
    and "\<And>v s'. readable s' \<Longrightarrow> sd_rest s = [] \<longrightarrow> v = END_OF_STREAM \<Longrightarrow> v = END_OF_STREAM \<longrightarrow> sd_rest s' = [] \<Longrightarrow>
      v \<noteq> END_OF_STREAM \<longrightarrow> unat v < 2 ^ n \<Longrightarrow> returns Q (k v s')"
  shows "returns Q (read_any n k s)"
proof (rule returns_any_left[OF assms(1-3)])
  fix v s'
  assume a: "readable s'" "length (sd_rest s') = length (sd_rest s) - n"
    "n \<le> length (sd_rest s) \<Longrightarrow> v \<noteq> END_OF_STREAM \<and> unat v < 2 ^ n" "length (sd_rest s) < n \<Longrightarrow> v = END_OF_STREAM"
  show "returns Q (k v s')"
  proof (cases "n \<le> length (sd_rest s)")
    case True
    then show ?thesis using assms(2) a by (intro assms(4)) auto
  next
    case False
    then have "sd_rest s' = []" using a(2) by simp
    then show ?thesis using False a by (intro assms(4)) auto
  qed
qed

lemma returns_u_left:
  assumes "readable s" "0 < n" "n < 32"
    and "\<And>s'. readable s' \<Longrightarrow> length (sd_rest s) < n \<Longrightarrow> returns Q (e s')"
    and "\<And>v s'. readable s' \<Longrightarrow> length (sd_rest s') = length (sd_rest s) - n \<Longrightarrow> returns Q (k v s')"
  shows "returns Q (read_u n e k s)"
proof -
  have "returns Q (read_any n (\<lambda>tmp s. if tmp = END_OF_STREAM then e s else k tmp s) s)"
    by (rule returns_any_left[OF assms(1-3)]) (use assms(4,5) in \<open>auto simp: not_le[symmetric]\<close>)
  then show ?thesis by (simp add: read_any_def read_u_def)
qed

lemma returns_flag [step_intros]:
  assumes "readable s" "\<And>s'. readable s' \<Longrightarrow> returns Q (e s')"
    and "\<And>v s'. readable s' \<Longrightarrow> v = 0 \<or> v = 1 \<Longrightarrow> returns Q (k v s')"
  shows "returns Q (read_flag e k s)"
  unfolding read_flag_def by (rule returns_u) (use assms in auto)

lemma returns_32 [step_intros]:
  assumes "readable s" "\<And>s'. readable s' \<Longrightarrow> returns Q (e s')" "\<And>v s'. readable s' \<Longrightarrow> returns Q (k v s')"
  shows "returns Q (read_32 e k s)"
proof -
  obtain b where b: "h264bsdShowBits s 32 = Some b" using Show32[OF assms(1)] by blast
  obtain st s' where f: "h264bsdFlushBits s 32 = Some (st, s')" "advanced s 32 s'"
    using FlushBits_rest[of s 32] assms(1) by (auto simp: readable_def flushed_def advanced_def)
  then have "readable s'" using assms(1) by (blast intro: readable_advanced)
  then show ?thesis using b f(1) assms(2,3) by (simp add: read_32_def)
qed

lemma returns_ue [step_intros]:
  assumes "readable s" "\<And>st v s'. readable s' \<Longrightarrow> st \<noteq> HANTRO_OK \<Longrightarrow> returns Q (e st v s')"
    and "\<And>v s'. readable s' \<Longrightarrow> returns Q (k v s')"
  shows "returns Q (read_ue c e k s)"
proof -
  obtain st v s' n where g: "h264bsdDecodeExpGolombUnsigned s c = Some (st, v, s')" "advanced s n s'"
    using Unsigned_total[OF assms(1), of c] by (auto simp: ends_ok_def)
  then have "readable s'" using assms(1) by (blast intro: readable_advanced)
  then show ?thesis using g(1) assms(2,3) by (auto simp: read_ue_def)
qed

lemma returns_se [step_intros]:
  assumes "readable s" "\<And>st v s'. readable s' \<Longrightarrow> st \<noteq> HANTRO_OK \<Longrightarrow> returns Q (e st v s')"
    and "\<And>v s'. readable s' \<Longrightarrow> returns Q (k v s')"
  shows "returns Q (read_se e k s)"
proof -
  obtain st v s' n where g: "h264bsdDecodeExpGolombUnsigned s 0 = Some (st, v, s')" "advanced s n s'"
    using Unsigned_total[OF assms(1), of 0] by (auto simp: ends_ok_def)
  then have r: "readable s'" using assms(1) by (blast intro: readable_advanced)
  obtain st' v' where "h264bsdDecodeExpGolombSigned s 0 = Some (st', v', s')"
    using g(1)
    by (cases "v = BIG_CODE_NUM"; cases "st = HANTRO_OK"; simp add: h264bsdDecodeExpGolombSigned_def)
  then show ?thesis using r assms(2,3) by (auto simp: read_se_def)
qed

lemma returns_ues:
  assumes "readable s" "\<And>st v s'. readable s' \<Longrightarrow> st \<noteq> HANTRO_OK \<Longrightarrow> returns Q (e st v s')"
    and "\<And>vs s'. readable s' \<Longrightarrow> length vs = n \<Longrightarrow> returns Q (k (acc @ vs) s')"
  shows "returns Q (read_ues n e acc k s)"
  using assms(1,3)
proof (induction n arbitrary: acc s)
  case 0
  then show ?case using 0(2)[of s "[]"] by simp
next
  case (Suc n)
  show ?case unfolding read_ues.simps
  proof (rule returns_ue[OF Suc.prems(1) assms(2)])
    fix v s' assume "readable s'"
    then show "returns Q (read_ues n e (acc @ [v]) k s')"
      using Suc.prems(2)[of _ "v # _"] by (intro Suc.IH) auto
  qed
qed

lemma RbspTrailing_total: "readable s \<Longrightarrow> \<exists>st s'. h264bsdRbspTrailingBits s = Some (st, s') \<and> readable s'"
proof -
  assume r: "readable s"
  then have b: "sd_bit_pos s < 8" by (simp add: readable_def strm_ok_def)
  then have lt: "0 < 8 - sd_bit_pos s" "8 - sd_bit_pos s < 32" by auto
  obtain out s' where "h264bsdGetBits s (8 - sd_bit_pos s) = Some (out, s')" "advanced s (8 - sd_bit_pos s) s'"
    using GetBits_rest[OF r lt] by blast
  moreover from this(2) have "readable s'" using r by (blast intro: readable_advanced)
  ultimately show ?thesis using b by (simp add: h264bsdRbspTrailingBits_def Let_def)
qed

lemma ShowBits_total: "readable s \<Longrightarrow> 0 < n \<Longrightarrow> n \<le> 32 \<Longrightarrow> \<exists>out. h264bsdShowBits s n = Some out"
  using ShowBits_rest[of s n] by (auto simp: readable_def)

lemma MoreRbspData_total: "readable s \<Longrightarrow> \<exists>b. h264bsdMoreRbspData s = Some b"
proof -
  assume r: "readable s"
  then have ok: "strm_ok s" by (simp add: readable_def)
  note d = strm_okD[OF ok]
  have le: "\<not> sd_read_bits s > u32 (8 * sd_data_size s)" using d(3-6,11) by (cases "sd_pos s = sd_data_size s") auto
  define b where "b = u32 (8 * sd_data_size s) - sd_read_bits s"
  define c where "c = (if b mod 8 = 0 then 8 else b mod 8)"
  have c: "0 < c" "c \<le> 8" by (auto simp: c_def)
  obtain x y where x: "h264bsdShowBits s c = Some x" "h264bsdShowBits s (23 + c) = Some y"
    using ShowBits_total[OF r c(1)] ShowBits_total[OF r, of "23 + c"] c(2) by auto
  have z: "\<exists>z. h264bsdShowBits s b = Some z" if "b \<noteq> 0" "\<not> b > 8"
    by (rule ShowBits_total[OF r]) (use that in auto)
  show ?thesis
    unfolding h264bsdMoreRbspData_def Let_def b_def[symmetric] c_def[symmetric]
    using le x z by (auto simp: d(2))
qed

end
