(* ===== verification/H264SliceGroup.thy ===== *)
theory H264SliceGroup
  imports H264Types
begin

text \<open>
  Slice group maps, h264hwd\_slice\_group\_map.c: for each of the seven map types, the slice group of
  every macroblock, and the check of the parameter sets that goes before it, CheckPps of
  h264hwd\_storage.c.

  The map is the array of u32 that the decoder allocates for the picture; None is a failed ASSERT, an
  access outside an array, or a loop that does not end.
\<close>

subsection \<open>Filling the map\<close>

text \<open>for (j = 0; j \<open><\<close> n; j++) map[i+j] = v(i+j)\<close>

fun fill_map :: "(nat \<Rightarrow> 32 word) \<Rightarrow> nat \<Rightarrow> nat \<Rightarrow> 32 word list \<Rightarrow> 32 word list option" where
  "fill_map v i 0 m = Some m"
| "fill_map v i (Suc n) m = Option.bind (array_write m i (v i)) (fill_map v (Suc i) n)"

subsection \<open>Types 0 to 2\<close>

text \<open>The loop over the groups, from group g on in n turns; the result is i and the map.\<close>

fun interleaved_groups ::
  "32 word list \<Rightarrow> nat \<Rightarrow> nat \<Rightarrow> nat \<Rightarrow> nat \<Rightarrow> 32 word list \<Rightarrow> (nat \<times> 32 word list) option" where
  "interleaved_groups run_length pic_size g 0 i m = Some (i, m)"
| "interleaved_groups run_length pic_size g (Suc n) i m =
     (if i \<ge> pic_size then Some (i, m)
      else do {
        r \<leftarrow> array_read run_length g;
        if unat r > pic_size then None
        else do {
          m \<leftarrow> fill_map (\<lambda>_. of_nat g) i (min (unat r) (pic_size - i)) m;
          interleaved_groups run_length pic_size (Suc g) n (u32 (i + unat r)) m
        }
      })"

partial_function (option) interleaved_loop ::
  "32 word list \<Rightarrow> nat \<Rightarrow> nat \<Rightarrow> nat \<Rightarrow> 32 word list \<Rightarrow> 32 word list option" where
  "interleaved_loop run_length pic_size n i m = do {
     (i, m) \<leftarrow> interleaved_groups run_length pic_size 0 n i m;
     if i < pic_size then interleaved_loop run_length pic_size n i m else Some m
   }"

definition DecodeInterleavedMap :: "32 word list \<Rightarrow> 32 word \<Rightarrow> 32 word list \<Rightarrow> 32 word \<Rightarrow> 32 word list option" where
  "DecodeInterleavedMap m num_slice_groups run_length pic_size =
     (if num_slice_groups < 1 \<or> unat num_slice_groups > MAX_NUM_SLICE_GROUPS then None
      else interleaved_loop run_length (unat pic_size) (unat num_slice_groups) 0 m)"

definition DecodeDispersedMap :: "32 word list \<Rightarrow> 32 word \<Rightarrow> 32 word \<Rightarrow> 32 word \<Rightarrow> 32 word list option" where
  "DecodeDispersedMap m num_slice_groups pic_width pic_height =
     (if num_slice_groups < 1 \<or> unat num_slice_groups > MAX_NUM_SLICE_GROUPS \<or> pic_width = 0 \<or> pic_height = 0 then None
      else fill_map (\<lambda>k. let i = of_nat k
          in (i mod pic_width + drop_bit 1 ((i div pic_width) * num_slice_groups)) mod num_slice_groups)
        0 (unat (pic_width * pic_height)) m)"

text \<open>The rows y to y + n - 1 of a rectangle, columns x to x + k - 1\<close>

fun fill_rows :: "32 word \<Rightarrow> nat \<Rightarrow> nat \<Rightarrow> nat \<Rightarrow> nat \<Rightarrow> nat \<Rightarrow> 32 word list \<Rightarrow> 32 word list option" where
  "fill_rows v w x k y 0 m = Some m"
| "fill_rows v w x k y (Suc n) m =
     Option.bind (fill_map (\<lambda>_. v) (y * w + x) k m) (fill_rows v w x k (Suc y) n)"

text \<open>for (group = num\_slice\_groups - 1; group--;)\<close>

fun foreground_groups :: "32 word list \<Rightarrow> 32 word list \<Rightarrow> 32 word \<Rightarrow> 32 word \<Rightarrow> nat \<Rightarrow> 32 word list \<Rightarrow> 32 word list option" where
  "foreground_groups top_left bottom_right w pic_size 0 m = Some m"
| "foreground_groups top_left bottom_right w pic_size (Suc g) m = do {
     tl \<leftarrow> array_read top_left g;
     br \<leftarrow> array_read bottom_right g;
     if \<not> (tl \<le> br \<and> br < pic_size) \<or> tl mod w > br mod w then None
     else do {
       m \<leftarrow> fill_rows (of_nat g) (unat w) (unat (tl mod w)) (Suc (unat (br mod w)) - unat (tl mod w))
         (unat (tl div w)) (Suc (unat (br div w)) - unat (tl div w)) m;
       foreground_groups top_left bottom_right w pic_size g m
     }
   }"

definition DecodeForegroundLeftOverMap ::
  "32 word list \<Rightarrow> 32 word \<Rightarrow> 32 word list \<Rightarrow> 32 word list \<Rightarrow> 32 word \<Rightarrow> 32 word \<Rightarrow> 32 word list option" where
  "DecodeForegroundLeftOverMap m num_slice_groups top_left bottom_right pic_width pic_height =
     (if num_slice_groups < 1 \<or> unat num_slice_groups > MAX_NUM_SLICE_GROUPS \<or> pic_width = 0 \<or> pic_height = 0 then None
      else do {
        m \<leftarrow> fill_map (\<lambda>_. num_slice_groups - 1) 0 (unat (pic_width * pic_height)) m;
        foreground_groups top_left bottom_right pic_width (pic_width * pic_height) (unat (num_slice_groups - 1)) m
      })"

subsection \<open>Type 3: box-out\<close>

record box_walk =
  bw_x :: int
  bw_y :: int
  bw_x_dir :: int
  bw_y_dir :: int
  bw_left :: int
  bw_top :: int
  bw_right :: int
  bw_bottom :: int

text \<open>The move to the next macroblock; f is the direction flag, w and h the picture size.\<close>

definition box_move :: "int \<Rightarrow> int \<Rightarrow> int \<Rightarrow> box_walk \<Rightarrow> box_walk" where
  "box_move f w h s =
     (if bw_x_dir s = -1 \<and> bw_x s = bw_left s then
        (let l = max (bw_left s - 1) 0 in s\<lparr>bw_left := l, bw_x := l, bw_x_dir := 0, bw_y_dir := 2 * f - 1\<rparr>)
      else if bw_x_dir s = 1 \<and> bw_x s = bw_right s then
        (let r = min (bw_right s + 1) (w - 1) in s\<lparr>bw_right := r, bw_x := r, bw_x_dir := 0, bw_y_dir := 1 - 2 * f\<rparr>)
      else if bw_y_dir s = -1 \<and> bw_y s = bw_top s then
        (let t = max (bw_top s - 1) 0 in s\<lparr>bw_top := t, bw_y := t, bw_x_dir := 1 - 2 * f, bw_y_dir := 0\<rparr>)
      else if bw_y_dir s = 1 \<and> bw_y s = bw_bottom s then
        (let b = min (bw_bottom s + 1) (h - 1) in s\<lparr>bw_bottom := b, bw_y := b, bw_x_dir := 2 * f - 1, bw_y_dir := 0\<rparr>)
      else s\<lparr>bw_x := bw_x s + bw_x_dir s, bw_y := bw_y s + bw_y_dir s\<rparr>)"

text \<open>for (k = 0; k \<open><\<close> units; k += map\_unit\_vacant ? 1 : 0)\<close>

partial_function (option) box_loop ::
  "int \<Rightarrow> 32 word \<Rightarrow> int \<Rightarrow> nat \<Rightarrow> nat \<Rightarrow> box_walk \<Rightarrow> 32 word list \<Rightarrow> 32 word list option" where
  "box_loop f w h units k s m =
     (if k < units then do {
        let i = unat (word_of_int (bw_y s) * w + word_of_int (bw_x s));
        v \<leftarrow> array_read m i;
        m \<leftarrow> (if v = 1 then array_write m i 0 else Some m);
        box_loop f w h units (if v = 1 then Suc k else k) (box_move f (sint w) h s) m
      } else Some m)"

definition DecodeBoxOutMap :: "32 word list \<Rightarrow> 32 word \<Rightarrow> 32 word \<Rightarrow> 32 word \<Rightarrow> 32 word \<Rightarrow> 32 word list option" where
  "DecodeBoxOutMap m flag units_in_slice_group0 pic_width pic_height =
     (if pic_width = 0 \<or> pic_height = 0 \<or> units_in_slice_group0 > pic_width * pic_height then None
      else do {
        m \<leftarrow> fill_map (\<lambda>_. 1) 0 (unat (pic_width * pic_height)) m;
        let x = sint (drop_bit 1 (pic_width - flag));
        let y = sint (drop_bit 1 (pic_height - flag));
        box_loop (sint flag) pic_width (sint pic_height) (unat units_in_slice_group0) 0
          \<lparr>bw_x = x, bw_y = y, bw_x_dir = sint flag - 1, bw_y_dir = sint flag,
            bw_left = x, bw_top = y, bw_right = x, bw_bottom = y\<rparr> m
      })"

subsection \<open>Types 4 to 6\<close>

definition DecodeRasterScanMap :: "32 word list \<Rightarrow> 32 word \<Rightarrow> 32 word \<Rightarrow> 32 word \<Rightarrow> 32 word list option" where
  "DecodeRasterScanMap m flag size_of_upper_left_group pic_size =
     (if pic_size = 0 \<or> size_of_upper_left_group > pic_size then None
      else fill_map (\<lambda>i. if of_nat i < size_of_upper_left_group then flag else 1 - flag) 0 (unat pic_size) m)"

text \<open>The columns j of the picture, macroblock k in the order of the scan being the i-th of column j.\<close>

fun wipe_column :: "32 word \<Rightarrow> nat \<Rightarrow> nat \<Rightarrow> nat \<Rightarrow> nat \<Rightarrow> nat \<Rightarrow> nat \<Rightarrow> 32 word list \<Rightarrow> 32 word list option" where
  "wipe_column flag upper w j k i 0 m = Some m"
| "wipe_column flag upper w j k i (Suc n) m =
     Option.bind (array_write m (i * w + j) (if k < upper then flag else 1 - flag)) (wipe_column flag upper w j (Suc k) (Suc i) n)"

fun wipe_columns :: "32 word \<Rightarrow> nat \<Rightarrow> nat \<Rightarrow> nat \<Rightarrow> nat \<Rightarrow> nat \<Rightarrow> nat \<Rightarrow> 32 word list \<Rightarrow> 32 word list option" where
  "wipe_columns flag upper w h k j 0 m = Some m"
| "wipe_columns flag upper w h k j (Suc n) m =
     Option.bind (wipe_column flag upper w j k 0 h m) (wipe_columns flag upper w h (k + h) (Suc j) n)"

definition DecodeWipeMap :: "32 word list \<Rightarrow> 32 word \<Rightarrow> 32 word \<Rightarrow> 32 word \<Rightarrow> 32 word \<Rightarrow> 32 word list option" where
  "DecodeWipeMap m flag size_of_upper_left_group pic_width pic_height =
     (if pic_width = 0 \<or> pic_height = 0 \<or> size_of_upper_left_group > pic_width * pic_height then None
      else wipe_columns flag (unat size_of_upper_left_group) (unat pic_width) (unat pic_height) 0 0 (unat pic_width) m)"

fun copy_ids :: "32 word list \<Rightarrow> 32 word \<Rightarrow> nat \<Rightarrow> nat \<Rightarrow> 32 word list \<Rightarrow> 32 word list option" where
  "copy_ids ids groups i 0 m = Some m"
| "copy_ids ids groups i (Suc n) m = do {
     g \<leftarrow> array_read ids i;
     if g \<ge> groups then None
     else do {
       m \<leftarrow> array_write m i g;
       copy_ids ids groups (Suc i) n m
     }
   }"

subsection \<open>The map of a picture\<close>

definition h264bsdDecodeSliceGroupMap ::
  "32 word list \<Rightarrow> pic_param_set \<Rightarrow> 32 word \<Rightarrow> 32 word \<Rightarrow> 32 word \<Rightarrow> 32 word list option" where
  "h264bsdDecodeSliceGroupMap m pps slice_group_change_cycle pic_width pic_height =
     (let type = pps_slice_group_map_type pps; groups = pps_num_slice_groups pps;
          flag = pps_slice_group_change_direction_flag pps; rate = pps_slice_group_change_rate pps;
          pic_size = pic_width * pic_height;
          units = min (slice_group_change_cycle * rate) pic_size;
          upper = (if flag \<noteq> 0 then pic_size - units else units)
      in if pic_width = 0 \<or> pic_height = 0 \<or> type \<ge> 7 then None
         else if groups = 1 then fill_map (\<lambda>_. 0) 0 (unat pic_size) m
         else if 2 < type \<and> type < 6 \<and> \<not> (rate \<noteq> 0 \<and> rate \<le> pic_size) then None
         else if type = 0 then Option.bind (pps_run_length pps) (\<lambda>r. DecodeInterleavedMap m groups r pic_size)
         else if type = 1 then DecodeDispersedMap m groups pic_width pic_height
         else if type = 2 then do {
           tl \<leftarrow> pps_top_left pps;
           br \<leftarrow> pps_bottom_right pps;
           DecodeForegroundLeftOverMap m groups tl br pic_width pic_height
         }
         else if type = 3 then DecodeBoxOutMap m flag units pic_width pic_height
         else if type = 4 then DecodeRasterScanMap m flag upper pic_size
         else if type = 5 then DecodeWipeMap m flag upper pic_width pic_height
         else Option.bind (pps_slice_group_id pps) (\<lambda>ids. copy_ids ids groups 0 (unat pic_size) m))"

subsection \<open>CheckPps\<close>

text \<open>The loops of CheckPps over the groups, from group i on in n turns; false is a return of HANTRO\_NOK.\<close>

fun check_runs :: "32 word list \<Rightarrow> 32 word \<Rightarrow> nat \<Rightarrow> nat \<Rightarrow> bool option" where
  "check_runs rs pic_size i 0 = Some True"
| "check_runs rs pic_size i (Suc n) = do {
     r \<leftarrow> array_read rs i;
     if r > pic_size then Some False else check_runs rs pic_size (Suc i) n
   }"

fun check_rectangles :: "32 word list \<Rightarrow> 32 word list \<Rightarrow> 32 word \<Rightarrow> 32 word \<Rightarrow> nat \<Rightarrow> nat \<Rightarrow> bool option" where
  "check_rectangles tls brs w pic_size i 0 = Some True"
| "check_rectangles tls brs w pic_size i (Suc n) = do {
     tl \<leftarrow> array_read tls i;
     br \<leftarrow> array_read brs i;
     if tl > br \<or> br \<ge> pic_size then Some False
     else if tl mod w > br mod w then Some False
     else check_rectangles tls brs w pic_size (Suc i) n
   }"

definition CheckPps :: "pic_param_set \<Rightarrow> seq_param_set \<Rightarrow> bool option" where
  "CheckPps pps sps =
     (let w = sps_pic_width_in_mbs sps; pic_size = w * sps_pic_height_in_mbs sps;
          groups = pps_num_slice_groups pps; type = pps_slice_group_map_type pps
      in if groups > 1 then
           (if sps_frame_mbs_only_flag sps \<noteq> 1 \<or> sps_chroma_format_idc sps \<noteq> 1
               \<or> sps_scaling_matrix_present_flag sps \<noteq> 0 \<or> pps_entropy_coding_mode_flag pps \<noteq> 0
               \<or> (pps_weighted_pred_flag pps \<noteq> 0 \<or> pps_weighted_bi_pred_idc pps \<noteq> 0)
               \<or> pps_transform8x8_flag pps \<noteq> 0 \<or> pps_scaling_matrix_present_flag pps \<noteq> 0 then Some False
            else if type = 0 then Option.bind (pps_run_length pps) (\<lambda>rs. check_runs rs pic_size 0 (unat groups))
            else if type = 2 then do {
              tl \<leftarrow> pps_top_left pps;
              br \<leftarrow> pps_bottom_right pps;
              check_rectangles tl br w pic_size 0 (unat (groups - 1))
            }
            else if 2 < type \<and> type < 6 then Some (\<not> pps_slice_group_change_rate pps > pic_size)
            else Some (\<not> (type = 6 \<and> pps_pic_size_in_map_units pps < pic_size)))
         else Some True)"

subsection \<open>What the loops write\<close>


lemma fill_map_eq:
  "i + n \<le> length m \<Longrightarrow>
   fill_map v i n m = Some (map (\<lambda>k. if i \<le> k \<and> k < i + n then v k else m ! k) [0 ..< length m])"
proof (induction n arbitrary: i m)
  case 0
  then show ?case by (auto intro!: nth_equalityI)
next
  case (Suc n)
  then have "fill_map v (Suc i) n (m[i := v i]) = Some (map (\<lambda>k. if Suc i \<le> k \<and> k < Suc i + n then v k else m[i := v i] ! k) [0 ..< length m])"
    by simp
  moreover have "map (\<lambda>k. if Suc i \<le> k \<and> k < Suc i + n then v k else m[i := v i] ! k) [0 ..< length m]
    = map (\<lambda>k. if i \<le> k \<and> k < i + Suc n then v k else m ! k) [0 ..< length m]"
    by (rule map_cong) (auto simp: nth_list_update, metis not_less_eq_eq le_antisym)
  ultimately show ?case using Suc.prems by (simp add: array_write_def)
qed

text \<open>A loop that writes some cells of the map, those of D with the values f\<close>

definition writes :: "32 word list \<Rightarrow> (nat \<Rightarrow> bool) \<Rightarrow> (nat \<Rightarrow> 32 word) \<Rightarrow> 32 word list option \<Rightarrow> bool" where
  "writes m D f r = (r = Some (map (\<lambda>k. if D k then f k else m ! k) [0 ..< length m]))"

lemma writesD: "writes m D f r \<Longrightarrow> \<exists>m'. r = Some m' \<and> length m' = length m
    \<and> (\<forall>k < length m. m' ! k = (if D k then f k else m ! k))"
  by (simp add: writes_def)

lemma writes_fill: "i + n \<le> length m \<Longrightarrow> writes m (\<lambda>k. i \<le> k \<and> k < i + n) v (fill_map v i n m)"
  by (simp add: writes_def fill_map_eq)

lemma writes_none: "writes m (\<lambda>_. False) f (Some m)"
  by (simp add: writes_def map_nth)

lemma writes_one: "i < length m \<Longrightarrow> writes m (\<lambda>k. k = i) (\<lambda>_. v) (array_write m i v)"
  by (auto simp: writes_def array_write_def nth_list_update intro!: nth_equalityI)

lemma writes_bind:
  assumes "writes m D f r" "\<And>m'. length m' = length m \<Longrightarrow> writes m' D' f' (c m')"
  shows "writes m (\<lambda>k. D' k \<or> D k) (\<lambda>k. if D' k then f' k else f k) (Option.bind r c)"
proof -
  obtain m' where m': "r = Some m'" "length m' = length m" "\<forall>k < length m. m' ! k = (if D k then f k else m ! k)"
    using writesD[OF assms(1)] by blast
  show ?thesis using assms(2)[OF m'(2)] m' by (auto simp: writes_def)
qed

lemma writes_cong:
  assumes "writes m D f r" "\<And>k. k < length m \<Longrightarrow> D k = D' k" "\<And>k. k < length m \<Longrightarrow> D k \<Longrightarrow> f k = f' k"
  shows "writes m D' f' r"
  using assms by (auto simp: writes_def)


subsection \<open>Types 0 to 2\<close>

text \<open>The runs of the groups g to g + n - 1, one after the other\<close>

definition run_pattern :: "32 word list \<Rightarrow> nat \<Rightarrow> nat \<Rightarrow> 32 word list" where
  "run_pattern rs g n = concat (map (\<lambda>j. replicate (unat (rs ! j)) (of_nat j)) [g ..< g + n])"

lemma run_pattern_Suc:
  "run_pattern rs g (Suc n) = replicate (unat (rs ! g)) (of_nat g) @ run_pattern rs (Suc g) n"
  by (simp add: run_pattern_def upt_conv_Cons del: upt_Suc)

lemma interleaved_groups_eq:
  assumes "g + n \<le> length rs" "\<forall>r \<in> set rs. unat r \<le> p" "2 * p < 2 ^ 32" "p \<le> length m" "i < 2 * p"
  shows "\<exists>i' m'. interleaved_groups rs p g n i m = Some (i', m') \<and> length m' = length m
    \<and> (i' < p \<longrightarrow> i' = i + length (run_pattern rs g n)) \<and> (p \<le> i' \<longrightarrow> p \<le> i + length (run_pattern rs g n))
    \<and> (\<forall>k < length m. m' ! k = (if i \<le> k \<and> k < i + length (run_pattern rs g n) \<and> k < p
          then run_pattern rs g n ! (k - i) else m ! k))"
  using assms
proof (induction n arbitrary: g i m)
  case 0
  then show ?case by (auto simp: run_pattern_def)
next
  case (Suc n)
  show ?case
  proof (cases "i \<ge> p")
    case True
    then show ?thesis by auto
  next
    case False
    let ?r = "unat (rs ! g)" and ?P = "run_pattern rs (Suc g) n"
    have r: "array_read rs g = Some (rs ! g)" "?r \<le> p"
      using Suc.prems by (auto simp: array_read_def)
    have le: "i + min ?r (p - i) \<le> length m" using False Suc.prems(4) by simp
    obtain m1 where m1: "fill_map (\<lambda>_. of_nat g) i (min ?r (p - i)) m = Some m1" "length m1 = length m"
        "\<forall>k < length m. m1 ! k = (if i \<le> k \<and> k < i + min ?r (p - i) then of_nat g else m ! k)"
      using writesD[OF writes_fill[OF le, of "\<lambda>_. of_nat g"]] by blast
    have i1: "u32 (i + ?r) = i + ?r" "i + ?r < 2 * p" using False r(2) Suc.prems(3) by auto
    obtain i' m' where IH: "interleaved_groups rs p (Suc g) n (i + ?r) m1 = Some (i', m')" "length m' = length m1"
        "i' < p \<longrightarrow> i' = i + ?r + length ?P" "p \<le> i' \<longrightarrow> p \<le> i + ?r + length ?P"
        "\<forall>k < length m1. m' ! k = (if i + ?r \<le> k \<and> k < i + ?r + length ?P \<and> k < p then ?P ! (k - (i + ?r)) else m1 ! k)"
      using Suc.IH[of "Suc g" m1 "i + ?r"] Suc.prems i1(2) m1(2) by auto
    have "interleaved_groups rs p g (Suc n) i m = Some (i', m')"
      using False r m1(1) i1(1) IH(1) by simp
    moreover have "m' ! k = (if i \<le> k \<and> k < i + length (run_pattern rs g (Suc n)) \<and> k < p
        then run_pattern rs g (Suc n) ! (k - i) else m ! k)" if "k < length m" for k
    proof -
      have "m' ! k = (if i + ?r \<le> k \<and> k < i + ?r + length ?P \<and> k < p then ?P ! (k - (i + ?r))
          else if i \<le> k \<and> k < i + min ?r (p - i) then of_nat g else m ! k)"
        using IH(5) m1(2,3) that by simp
      moreover have "k < i + min ?r (p - i) \<longleftrightarrow> k < i + ?r \<and> k < p" using False by auto
      ultimately show ?thesis
        by (cases "i + ?r \<le> k") (auto simp: run_pattern_Suc nth_append)
    qed
    moreover have "length m' = length m" using IH(2) m1(2) by simp
    moreover have "length (run_pattern rs g (Suc n)) = ?r + length ?P" by (simp add: run_pattern_Suc)
    ultimately show ?thesis using IH(3,4) by (simp add: add.assoc)
  qed
qed

lemma interleaved_loop_eq:
  assumes "n \<le> length rs" "\<forall>r \<in> set rs. unat r \<le> p" "2 * p < 2 ^ 32" "p \<le> length m"
    and "run_pattern rs 0 n \<noteq> []" "i < 2 * p" "i mod length (run_pattern rs 0 n) = 0"
    and "\<forall>k < p. k < i \<longrightarrow> m ! k = run_pattern rs 0 n ! (k mod length (run_pattern rs 0 n))"
  shows "\<exists>m'. interleaved_loop rs p n i m = Some m' \<and> length m' = length m
    \<and> (\<forall>k < p. m' ! k = run_pattern rs 0 n ! (k mod length (run_pattern rs 0 n)))"
  using assms(4,6-)
proof (induction "2 * p - i" arbitrary: i m rule: less_induct)
  case less
  let ?P = "run_pattern rs 0 n"
  have L: "0 < length ?P" using assms(5) by simp
  obtain i' m' where s: "interleaved_groups rs p 0 n i m = Some (i', m')" "length m' = length m"
      "i' < p \<longrightarrow> i' = i + length ?P" "p \<le> i' \<longrightarrow> p \<le> i + length ?P"
      "\<forall>k < length m. m' ! k = (if i \<le> k \<and> k < i + length ?P \<and> k < p then ?P ! (k - i) else m ! k)"
    using interleaved_groups_eq[of 0 n rs p m i] assms(1-3) less.prems by auto
  have eq: "m' ! k = ?P ! (k mod length ?P)" if k: "k < p" "k < i + length ?P" for k
  proof (cases "i \<le> k")
    case True
    have "k mod length ?P = (k - i) mod length ?P"
      using less.prems(3) True by (metis add.right_neutral le_add_diff_inverse2 mod_add_right_eq)
    then show ?thesis using s(5) True k less.prems(1) by simp
  next
    case False
    then show ?thesis using s(5) k less.prems by simp
  qed
  show ?case
  proof (cases "i' < p")
    case True
    then have i': "i' = i + length ?P" using s(3) by simp
    have dec: "2 * p - i' < 2 * p - i" using i' L True by linarith
    have "\<exists>m''. interleaved_loop rs p n i' m' = Some m'' \<and> length m'' = length m'
      \<and> (\<forall>k < p. m'' ! k = ?P ! (k mod length ?P))"
      by (rule less.hyps[OF dec]) (use True i' less.prems s(2) eq in \<open>auto\<close>)
    then show ?thesis using s True by (subst interleaved_loop.simps) simp
  next
    case False
    then show ?thesis using s eq by (subst interleaved_loop.simps) simp
  qed
qed


lemma row_cells: "(w::nat) > 0 \<Longrightarrow> x + c \<le> w \<Longrightarrow> (y * w + x \<le> k \<and> k < y * w + x + c) = (k div w = y \<and> x \<le> k mod w \<and> k mod w < x + c)"
proof
  assume w: "0 < w" "x + c \<le> w" and k: "y * w + x \<le> k \<and> k < y * w + x + c"
  have "k div w = y" by (rule div_nat_eqI) (use w k in \<open>simp_all add: mult.commute[of w]\<close>)
  moreover have "k mod w = k - y * w" using \<open>k div w = y\<close> by (simp add: modulo_nat_def mult.commute)
  ultimately show "k div w = y \<and> x \<le> k mod w \<and> k mod w < x + c" using k by auto
next
  assume "k div w = y \<and> x \<le> k mod w \<and> k mod w < x + c"
  then show "y * w + x \<le> k \<and> k < y * w + x + c" using div_mult_mod_eq[of k w] by auto
qed

lemma writes_rows:
  "0 < w \<Longrightarrow> x + c \<le> w \<Longrightarrow> (y + n) * w \<le> length m \<Longrightarrow>
   writes m (\<lambda>k. y \<le> k div w \<and> k div w < y + n \<and> x \<le> k mod w \<and> k mod w < x + c) (\<lambda>_. v) (fill_rows v w x c y n m)"
proof (induction n arbitrary: y m)
  case 0
  show ?case by (rule writes_cong[OF writes_none[of m "\<lambda>_. v", folded fill_rows.simps(1)[of v w x c y m]]]) auto
next
  case (Suc n)
  have "(y + Suc n) * w = y * w + w + n * w" by (simp add: algebra_simps)
  then have le: "y * w + x + c \<le> length m" using Suc.prems(2,3) by linarith
  have "writes m (\<lambda>k. (Suc y \<le> k div w \<and> k div w < Suc y + n \<and> x \<le> k mod w \<and> k mod w < x + c) \<or> (y * w + x \<le> k \<and> k < y * w + x + c))
    (\<lambda>k. if Suc y \<le> k div w \<and> k div w < Suc y + n \<and> x \<le> k mod w \<and> k mod w < x + c then v else v) (fill_rows v w x c y (Suc n) m)"
    unfolding fill_rows.simps
    by (rule writes_bind[OF writes_fill[OF le]], rule Suc.IH) (use Suc.prems in auto)
  then show ?case
    by (rule writes_cong) (auto simp: row_cells[OF Suc.prems(1,2)])
qed

text \<open>Macroblock k lies in the rectangle from macroblock a to macroblock b.\<close>

definition in_rectangle :: "nat \<Rightarrow> nat \<Rightarrow> nat \<Rightarrow> nat \<Rightarrow> bool" where
  "in_rectangle w a b k = (a div w \<le> k div w \<and> k div w \<le> b div w \<and> a mod w \<le> k mod w \<and> k mod w \<le> b mod w)"

definition first_rectangle :: "32 word list \<Rightarrow> 32 word list \<Rightarrow> nat \<Rightarrow> nat \<Rightarrow> nat \<Rightarrow> nat option" where
  "first_rectangle tls brs w n k = List.find (\<lambda>g. in_rectangle w (unat (tls ! g)) (unat (brs ! g)) k) [0 ..< n]"

definition rectangle_ok :: "nat \<Rightarrow> nat \<Rightarrow> 32 word \<Rightarrow> 32 word \<Rightarrow> bool" where
  "rectangle_ok w p a b = (a \<le> b \<and> unat b < p \<and> unat a mod w \<le> unat b mod w)"

lemma writes_groups:
  assumes "0 < unat w" "\<forall>g < n. rectangle_ok (unat w) (unat p) (tls ! g) (brs ! g)"
    "n \<le> length tls" "n \<le> length brs" "unat p = unat w * h" "unat p \<le> length m"
  shows "writes m (\<lambda>k. first_rectangle tls brs (unat w) n k \<noteq> None)
    (\<lambda>k. of_nat (the (first_rectangle tls brs (unat w) n k))) (foreground_groups tls brs w p n m)"
  using assms
proof (induction n arbitrary: m)
  case 0
  show ?case by (rule writes_cong[OF writes_none[of m "\<lambda>_. 0", folded foreground_groups.simps(1)[of tls brs w p m]]])
      (auto simp: first_rectangle_def)
next
  case (Suc g)
  let ?w = "unat w" and ?a = "unat (tls ! g)" and ?b = "unat (brs ! g)"
  have ok: "?a \<le> ?b" "?b < unat p" "?a mod ?w \<le> ?b mod ?w"
    using Suc.prems(2) by (auto simp: rectangle_ok_def word_le_nat_alt)
  have rd: "array_read tls g = Some (tls ! g)" "array_read brs g = Some (brs ! g)"
    using Suc.prems by (auto simp: array_read_def)
  have dv: "?a div ?w \<le> ?b div ?w" using ok(1) by (rule div_le_mono)
  have md: "?b mod ?w < ?w" using Suc.prems(1) by simp
  have "?b div ?w < h" using ok(2) Suc.prems(1,5) by (metis less_mult_imp_div_less mult.commute)
  then have le: "(?a div ?w + (Suc (?b div ?w) - ?a div ?w)) * ?w \<le> length m"
    using dv Suc.prems(5,6) mult_le_mono1[of "Suc (?b div ?w)" h ?w] by (simp add: mult.commute)
  have "writes m (\<lambda>k. ?a div ?w \<le> k div ?w \<and> k div ?w < ?a div ?w + (Suc (?b div ?w) - ?a div ?w)
      \<and> ?a mod ?w \<le> k mod ?w \<and> k mod ?w < ?a mod ?w + (Suc (?b mod ?w) - ?a mod ?w)) (\<lambda>_. of_nat g)
    (fill_rows (of_nat g) ?w (?a mod ?w) (Suc (?b mod ?w) - ?a mod ?w) (?a div ?w) (Suc (?b div ?w) - ?a div ?w) m)"
    by (rule writes_rows[OF Suc.prems(1) _ le]) (use md ok(3) in simp)
  then have "writes m (\<lambda>k. in_rectangle ?w ?a ?b k) (\<lambda>_. of_nat g)
    (fill_rows (of_nat g) ?w (?a mod ?w) (Suc (?b mod ?w) - ?a mod ?w) (?a div ?w) (Suc (?b div ?w) - ?a div ?w) m)"
    by (rule writes_cong) (use dv ok(3) in \<open>auto simp: in_rectangle_def\<close>)
  moreover have "foreground_groups tls brs w p (Suc g) m = Option.bind
    (fill_rows (of_nat g) ?w (?a mod ?w) (Suc (?b mod ?w) - ?a mod ?w) (?a div ?w) (Suc (?b div ?w) - ?a div ?w) m)
    (foreground_groups tls brs w p g)"
    using rd ok by (simp add: word_le_nat_alt word_less_nat_alt unat_div unat_mod not_less)
  ultimately have "writes m (\<lambda>k. first_rectangle tls brs ?w g k \<noteq> None \<or> in_rectangle ?w ?a ?b k)
    (\<lambda>k. if first_rectangle tls brs ?w g k \<noteq> None then of_nat (the (first_rectangle tls brs ?w g k)) else of_nat g)
    (foreground_groups tls brs w p (Suc g) m)"
    using writes_bind[of m _ "\<lambda>_. of_nat g" _ "\<lambda>k. first_rectangle tls brs ?w g k \<noteq> None"
      "\<lambda>k. of_nat (the (first_rectangle tls brs ?w g k))" "foreground_groups tls brs w p g"] Suc
    by simp
  then show ?case
    by (rule writes_cong) (auto simp: first_rectangle_def find_append split: option.splits)
qed

subsection \<open>Types 5 and 6\<close>

lemma writes_column:
  "j < w \<Longrightarrow> (i + n) * w \<le> length m \<Longrightarrow>
   writes m (\<lambda>q. q mod w = j \<and> i \<le> q div w \<and> q div w < i + n) (\<lambda>q. if k + (q div w - i) < upper then flag else 1 - flag)
     (wipe_column flag upper w j k i n m)"
proof (induction n arbitrary: i k m)
  case 0
  show ?case by (rule writes_cong[OF writes_none[of m "\<lambda>_. 0", folded wipe_column.simps(1)[of flag upper w j k i m]]]) auto
next
  case (Suc n)
  have "(i + Suc n) * w = i * w + w + n * w" by (simp add: algebra_simps)
  then have lt: "i * w + j < length m" using Suc.prems(1,2) by linarith
  let ?f = "\<lambda>q. if Suc k + (q div w - Suc i) < upper then flag else 1 - flag"
  have "writes m (\<lambda>q. (q mod w = j \<and> Suc i \<le> q div w \<and> q div w < Suc i + n) \<or> q = i * w + j)
    (\<lambda>q. if q mod w = j \<and> Suc i \<le> q div w \<and> q div w < Suc i + n then ?f q else (if k < upper then flag else 1 - flag))
    (wipe_column flag upper w j k i (Suc n) m)"
    unfolding wipe_column.simps by (rule writes_bind[OF writes_one[OF lt]], rule Suc.IH) (use Suc.prems in auto)
  moreover have "(q = i * w + j) = (q div w = i \<and> q mod w = j)" for q
    using Suc.prems(1) div_mult_mod_eq[of q w] by auto
  ultimately show ?case
    by (elim writes_cong) (auto simp: Suc_diff_le not_le Suc_le_eq intro: le_neq_trans)
qed

lemma writes_columns:
  "j + n \<le> w \<Longrightarrow> h * w \<le> length m \<Longrightarrow>
   writes m (\<lambda>q. j \<le> q mod w \<and> q mod w < j + n \<and> q div w < h)
     (\<lambda>q. if k + (q mod w - j) * h + q div w < upper then flag else 1 - flag)
     (wipe_columns flag upper w h k j n m)"
proof (induction n arbitrary: j k m)
  case 0
  show ?case by (rule writes_cong[OF writes_none[of m "\<lambda>_. 0", folded wipe_columns.simps(1)[of flag upper w h k j m]]]) auto
next
  case (Suc n)
  have c: "writes m (\<lambda>q. q mod w = j \<and> 0 \<le> q div w \<and> q div w < 0 + h) (\<lambda>q. if k + (q div w - 0) < upper then flag else 1 - flag)
     (wipe_column flag upper w j k 0 h m)"
    by (rule writes_column) (use Suc.prems in auto)
  let ?f = "\<lambda>q. if k + h + (q mod w - Suc j) * h + q div w < upper then flag else 1 - flag"
  have "writes m (\<lambda>q. (Suc j \<le> q mod w \<and> q mod w < Suc j + n \<and> q div w < h) \<or> (q mod w = j \<and> 0 \<le> q div w \<and> q div w < 0 + h))
    (\<lambda>q. if Suc j \<le> q mod w \<and> q mod w < Suc j + n \<and> q div w < h then ?f q else (if k + (q div w - 0) < upper then flag else 1 - flag))
    (wipe_columns flag upper w h k j (Suc n) m)"
    unfolding wipe_columns.simps by (rule writes_bind[OF c], rule Suc.IH) (use Suc.prems in auto)
  then show ?case
  proof (rule writes_cong)
    fix q assume "Suc j \<le> q mod w \<and> q mod w < Suc j + n \<and> q div w < h \<or> q mod w = j \<and> 0 \<le> q div w \<and> q div w < 0 + h"
    moreover have "(q mod w - j) * h = h + (q mod w - Suc j) * h" if "Suc j \<le> q mod w"
      using that by (metis Suc_diff_Suc Suc_le_lessD mult_Suc)
    ultimately show "(if Suc j \<le> q mod w \<and> q mod w < Suc j + n \<and> q div w < h then ?f q else (if k + (q div w - 0) < upper then flag else 1 - flag))
      = (if k + (q mod w - j) * h + q div w < upper then flag else 1 - flag)" by auto
  qed auto
qed

lemma writes_ids:
  "i + n \<le> length ids \<Longrightarrow> i + n \<le> length m \<Longrightarrow> \<forall>g \<in> set ids. g < groups \<Longrightarrow>
   writes m (\<lambda>k. i \<le> k \<and> k < i + n) (\<lambda>k. ids ! k) (copy_ids ids groups i n m)"
proof (induction n arbitrary: i m)
  case 0
  show ?case by (rule writes_cong[OF writes_none[of m "\<lambda>_. 0", folded copy_ids.simps(1)[of ids groups i m]]]) auto
next
  case (Suc n)
  have rd: "array_read ids i = Some (ids ! i)" "\<not> ids ! i \<ge> groups"
    using Suc.prems by (auto simp: array_read_def not_le)
  have lt: "i < length m" using Suc.prems by simp
  have "writes m (\<lambda>k. (Suc i \<le> k \<and> k < Suc i + n) \<or> k = i) (\<lambda>k. if Suc i \<le> k \<and> k < Suc i + n then ids ! k else ids ! i)
    (Option.bind (array_write m i (ids ! i)) (copy_ids ids groups (Suc i) n))"
    by (rule writes_bind[OF writes_one[OF lt]], rule Suc.IH) (use Suc.prems in auto)
  then have "writes m (\<lambda>k. (Suc i \<le> k \<and> k < Suc i + n) \<or> k = i) (\<lambda>k. if Suc i \<le> k \<and> k < Suc i + n then ids ! k else ids ! i)
    (copy_ids ids groups i (Suc n) m)" using rd by simp
  then show ?case by (rule writes_cong) auto
qed

end
