(* ===== verification/H264BoxOut.thy ===== *)
theory H264BoxOut
  imports H264SliceGroup
begin

text \<open>
  The loop of DecodeBoxOutMap (slice group map type 3, h264hwd\_slice\_group\_map.c) ends, and marks
  as many macroblocks as it is asked to.

  The walk goes round the box in four directions, with the flag clockwise or counterclockwise; it is
  always on the edge of the box that its direction runs along.
\<close>

definition walk_ok :: "int \<Rightarrow> int \<Rightarrow> int \<Rightarrow> box_walk \<Rightarrow> bool" where
  "walk_ok f w h s = ((f = 0 \<or> f = 1)
     \<and> 0 \<le> bw_left s \<and> bw_left s \<le> bw_x s \<and> bw_x s \<le> bw_right s \<and> bw_right s < w
     \<and> 0 \<le> bw_top s \<and> bw_top s \<le> bw_y s \<and> bw_y s \<le> bw_bottom s \<and> bw_bottom s < h
     \<and> (bw_x_dir s = -1 \<and> bw_y_dir s = 0 \<and> bw_y s = (if f = 0 then bw_bottom s else bw_top s)
      \<or> bw_x_dir s = 1 \<and> bw_y_dir s = 0 \<and> bw_y s = (if f = 0 then bw_top s else bw_bottom s)
      \<or> bw_x_dir s = 0 \<and> bw_y_dir s = -1 \<and> bw_x s = (if f = 0 then bw_left s else bw_right s)
      \<or> bw_x_dir s = 0 \<and> bw_y_dir s = 1 \<and> bw_x s = (if f = 0 then bw_right s else bw_left s)))"

text \<open>The cells between the position and the end of the edge\<close>

definition ahead :: "box_walk \<Rightarrow> int \<Rightarrow> int \<Rightarrow> bool" where
  "ahead s a b = (if bw_x_dir s \<noteq> 0 then b = bw_y s \<and> 0 \<le> (a - bw_x s) * bw_x_dir s
     else a = bw_x s \<and> 0 \<le> (b - bw_y s) * bw_y_dir s)"

definition in_box :: "box_walk \<Rightarrow> int \<Rightarrow> int \<Rightarrow> bool" where
  "in_box s a b = (bw_left s \<le> a \<and> a \<le> bw_right s \<and> bw_top s \<le> b \<and> b \<le> bw_bottom s)"

text \<open>The measure of the loop: how far the box can still grow, the turns that do not let it grow, the
  way to the next turn\<close>

definition room :: "int \<Rightarrow> int \<Rightarrow> box_walk \<Rightarrow> nat" where
  "room w h s = nat (bw_left s + bw_top s + (w - 1 - bw_right s) + (h - 1 - bw_bottom s))"

definition edge_rest :: "box_walk \<Rightarrow> nat" where
  "edge_rest s = nat (if bw_x_dir s = -1 then bw_x s - bw_left s else if bw_x_dir s = 1 then bw_right s - bw_x s
     else if bw_y_dir s = -1 then bw_y s - bw_top s else bw_bottom s - bw_y s)"

fun idle_turns :: "int \<Rightarrow> int \<Rightarrow> int \<Rightarrow> nat" where
  "idle_turns a b c = (if a > 0 then 0 else if b > 0 then 1 else if c > 0 then 2 else 3)"

definition turns :: "int \<Rightarrow> int \<Rightarrow> int \<Rightarrow> box_walk \<Rightarrow> nat" where
  "turns f w h s =
     (let l = bw_left s; t = bw_top s; r = w - 1 - bw_right s; b = h - 1 - bw_bottom s
      in if bw_x_dir s = -1 then (if f = 0 then idle_turns l t r else idle_turns l b r)
         else if bw_x_dir s = 1 then (if f = 0 then idle_turns r b l else idle_turns r t l)
         else if bw_y_dir s = -1 then (if f = 0 then idle_turns t r b else idle_turns t l b)
         else (if f = 0 then idle_turns b l t else idle_turns b r t))"

lemmas walk_defs = walk_ok_def ahead_def in_box_def room_def edge_rest_def turns_def Let_def

lemma walk_cases:
  assumes "walk_ok f w h s"
  obtains x l t r b where "f = 0" "s = \<lparr>bw_x = x, bw_y = b, bw_x_dir = -1, bw_y_dir = 0, bw_left = l, bw_top = t, bw_right = r, bw_bottom = b\<rparr>"
      "0 \<le> l" "l \<le> r" "r < w" "0 \<le> t" "t \<le> b" "b < h" "l \<le> x" "x \<le> r"
  | x l t r b where "f = 1" "s = \<lparr>bw_x = x, bw_y = t, bw_x_dir = -1, bw_y_dir = 0, bw_left = l, bw_top = t, bw_right = r, bw_bottom = b\<rparr>"
      "0 \<le> l" "l \<le> r" "r < w" "0 \<le> t" "t \<le> b" "b < h" "l \<le> x" "x \<le> r"
  | x l t r b where "f = 0" "s = \<lparr>bw_x = x, bw_y = t, bw_x_dir = 1, bw_y_dir = 0, bw_left = l, bw_top = t, bw_right = r, bw_bottom = b\<rparr>"
      "0 \<le> l" "l \<le> r" "r < w" "0 \<le> t" "t \<le> b" "b < h" "l \<le> x" "x \<le> r"
  | x l t r b where "f = 1" "s = \<lparr>bw_x = x, bw_y = b, bw_x_dir = 1, bw_y_dir = 0, bw_left = l, bw_top = t, bw_right = r, bw_bottom = b\<rparr>"
      "0 \<le> l" "l \<le> r" "r < w" "0 \<le> t" "t \<le> b" "b < h" "l \<le> x" "x \<le> r"
  | y l t r b where "f = 0" "s = \<lparr>bw_x = l, bw_y = y, bw_x_dir = 0, bw_y_dir = -1, bw_left = l, bw_top = t, bw_right = r, bw_bottom = b\<rparr>"
      "0 \<le> l" "l \<le> r" "r < w" "0 \<le> t" "t \<le> b" "b < h" "t \<le> y" "y \<le> b"
  | y l t r b where "f = 1" "s = \<lparr>bw_x = r, bw_y = y, bw_x_dir = 0, bw_y_dir = -1, bw_left = l, bw_top = t, bw_right = r, bw_bottom = b\<rparr>"
      "0 \<le> l" "l \<le> r" "r < w" "0 \<le> t" "t \<le> b" "b < h" "t \<le> y" "y \<le> b"
  | y l t r b where "f = 0" "s = \<lparr>bw_x = r, bw_y = y, bw_x_dir = 0, bw_y_dir = 1, bw_left = l, bw_top = t, bw_right = r, bw_bottom = b\<rparr>"
      "0 \<le> l" "l \<le> r" "r < w" "0 \<le> t" "t \<le> b" "b < h" "t \<le> y" "y \<le> b"
  | y l t r b where "f = 1" "s = \<lparr>bw_x = l, bw_y = y, bw_x_dir = 0, bw_y_dir = 1, bw_left = l, bw_top = t, bw_right = r, bw_bottom = b\<rparr>"
      "0 \<le> l" "l \<le> r" "r < w" "0 \<le> t" "t \<le> b" "b < h" "t \<le> y" "y \<le> b"
proof (cases s)
  case (fields x y dx dy l t r b)
  then have b: "f = 0 \<or> f = 1" "0 \<le> l" "l \<le> r" "r < w" "0 \<le> t" "t \<le> b" "b < h" "l \<le> x" "x \<le> r" "t \<le> y" "y \<le> b"
    using assms by (auto simp: walk_ok_def)
  have "dx = -1 \<and> dy = 0 \<and> y = (if f = 0 then b else t) \<or> dx = 1 \<and> dy = 0 \<and> y = (if f = 0 then t else b)
      \<or> dx = 0 \<and> dy = -1 \<and> x = (if f = 0 then l else r) \<or> dx = 0 \<and> dy = 1 \<and> x = (if f = 0 then r else l)"
    using assms fields by (simp add: walk_ok_def cong: if_cong)
  with b(1) consider "f = 0" "dx = -1" "dy = 0" "y = b" | "f = 1" "dx = -1" "dy = 0" "y = t"
    | "f = 0" "dx = 1" "dy = 0" "y = t" | "f = 1" "dx = 1" "dy = 0" "y = b"
    | "f = 0" "dx = 0" "dy = -1" "x = l" | "f = 1" "dx = 0" "dy = -1" "x = r"
    | "f = 0" "dx = 0" "dy = 1" "x = r" | "f = 1" "dx = 0" "dy = 1" "x = l"
    by (elim disjE) (simp_all del: neg_equal_iff_equal)
  then show thesis
    using that b fields by cases (simp_all del: neg_equal_iff_equal)
qed

lemma box_move_rules:
  "box_move 0 w h \<lparr>bw_x = x, bw_y = b, bw_x_dir = -1, bw_y_dir = 0, bw_left = l, bw_top = t, bw_right = r, bw_bottom = b\<rparr>
    = (if x = l then \<lparr>bw_x = max (l - 1) 0, bw_y = b, bw_x_dir = 0, bw_y_dir = -1, bw_left = max (l - 1) 0, bw_top = t, bw_right = r, bw_bottom = b\<rparr> else \<lparr>bw_x = x - 1, bw_y = b, bw_x_dir = -1, bw_y_dir = 0, bw_left = l, bw_top = t, bw_right = r, bw_bottom = b\<rparr>)"
  "box_move 1 w h \<lparr>bw_x = x, bw_y = t, bw_x_dir = -1, bw_y_dir = 0, bw_left = l, bw_top = t, bw_right = r, bw_bottom = b\<rparr>
    = (if x = l then \<lparr>bw_x = max (l - 1) 0, bw_y = t, bw_x_dir = 0, bw_y_dir = 1, bw_left = max (l - 1) 0, bw_top = t, bw_right = r, bw_bottom = b\<rparr> else \<lparr>bw_x = x - 1, bw_y = t, bw_x_dir = -1, bw_y_dir = 0, bw_left = l, bw_top = t, bw_right = r, bw_bottom = b\<rparr>)"
  "box_move 0 w h \<lparr>bw_x = x, bw_y = t, bw_x_dir = 1, bw_y_dir = 0, bw_left = l, bw_top = t, bw_right = r, bw_bottom = b\<rparr>
    = (if x = r then \<lparr>bw_x = min (r + 1) (w - 1), bw_y = t, bw_x_dir = 0, bw_y_dir = 1, bw_left = l, bw_top = t, bw_right = min (r + 1) (w - 1), bw_bottom = b\<rparr> else \<lparr>bw_x = x + 1, bw_y = t, bw_x_dir = 1, bw_y_dir = 0, bw_left = l, bw_top = t, bw_right = r, bw_bottom = b\<rparr>)"
  "box_move 1 w h \<lparr>bw_x = x, bw_y = b, bw_x_dir = 1, bw_y_dir = 0, bw_left = l, bw_top = t, bw_right = r, bw_bottom = b\<rparr>
    = (if x = r then \<lparr>bw_x = min (r + 1) (w - 1), bw_y = b, bw_x_dir = 0, bw_y_dir = -1, bw_left = l, bw_top = t, bw_right = min (r + 1) (w - 1), bw_bottom = b\<rparr> else \<lparr>bw_x = x + 1, bw_y = b, bw_x_dir = 1, bw_y_dir = 0, bw_left = l, bw_top = t, bw_right = r, bw_bottom = b\<rparr>)"
  "box_move 0 w h \<lparr>bw_x = l, bw_y = y, bw_x_dir = 0, bw_y_dir = -1, bw_left = l, bw_top = t, bw_right = r, bw_bottom = b\<rparr>
    = (if y = t then \<lparr>bw_x = l, bw_y = max (t - 1) 0, bw_x_dir = 1, bw_y_dir = 0, bw_left = l, bw_top = max (t - 1) 0, bw_right = r, bw_bottom = b\<rparr> else \<lparr>bw_x = l, bw_y = y - 1, bw_x_dir = 0, bw_y_dir = -1, bw_left = l, bw_top = t, bw_right = r, bw_bottom = b\<rparr>)"
  "box_move 1 w h \<lparr>bw_x = r, bw_y = y, bw_x_dir = 0, bw_y_dir = -1, bw_left = l, bw_top = t, bw_right = r, bw_bottom = b\<rparr>
    = (if y = t then \<lparr>bw_x = r, bw_y = max (t - 1) 0, bw_x_dir = -1, bw_y_dir = 0, bw_left = l, bw_top = max (t - 1) 0, bw_right = r, bw_bottom = b\<rparr> else \<lparr>bw_x = r, bw_y = y - 1, bw_x_dir = 0, bw_y_dir = -1, bw_left = l, bw_top = t, bw_right = r, bw_bottom = b\<rparr>)"
  "box_move 0 w h \<lparr>bw_x = r, bw_y = y, bw_x_dir = 0, bw_y_dir = 1, bw_left = l, bw_top = t, bw_right = r, bw_bottom = b\<rparr>
    = (if y = b then \<lparr>bw_x = r, bw_y = min (b + 1) (h - 1), bw_x_dir = -1, bw_y_dir = 0, bw_left = l, bw_top = t, bw_right = r, bw_bottom = min (b + 1) (h - 1)\<rparr> else \<lparr>bw_x = r, bw_y = y + 1, bw_x_dir = 0, bw_y_dir = 1, bw_left = l, bw_top = t, bw_right = r, bw_bottom = b\<rparr>)"
  "box_move 1 w h \<lparr>bw_x = l, bw_y = y, bw_x_dir = 0, bw_y_dir = 1, bw_left = l, bw_top = t, bw_right = r, bw_bottom = b\<rparr>
    = (if y = b then \<lparr>bw_x = l, bw_y = min (b + 1) (h - 1), bw_x_dir = 1, bw_y_dir = 0, bw_left = l, bw_top = t, bw_right = r, bw_bottom = min (b + 1) (h - 1)\<rparr> else \<lparr>bw_x = l, bw_y = y + 1, bw_x_dir = 0, bw_y_dir = 1, bw_left = l, bw_top = t, bw_right = r, bw_bottom = b\<rparr>)"
  unfolding box_move_def Let_def by (simp_all split del: if_split cong: if_cong)

lemma move_walk_ok:
  assumes "walk_ok f w h s"
  shows "walk_ok f w h (box_move f w h s)"
  using assms by (cases rule: walk_cases) (auto simp: box_move_rules walk_ok_def min_def max_def)

lemma idle_less: "\<not> a > 0 \<Longrightarrow> 0 < b \<or> 0 < c \<or> 0 < d \<Longrightarrow> idle_turns b c d < idle_turns a b c"
  by auto

lemma box_bounds: "0 \<le> l \<Longrightarrow> max (l - 1) 0 = (if 0 < l then l - 1 else (l :: int))"
  "r < w \<Longrightarrow> min (r + 1) (w - 1) = (if r < w - 1 then r + 1 else (r :: int))"
  by simp_all

lemma move_measure:
  assumes "walk_ok f w h s" "room w h s \<noteq> 0 \<or> edge_rest s \<noteq> 0"
  shows "(box_move f w h s, s) \<in> measures [room w h, turns f w h, edge_rest]"
  using assms(1)
proof (cases rule: walk_cases)
qed (use assms(2) in \<open>simp_all add: box_move_rules box_bounds room_def turns_def edge_rest_def Let_def
      del: idle_turns.simps split: if_split\<close>, (auto simp del: idle_turns.simps intro!: idle_less)+)

lemma move_visited:
  assumes "walk_ok f w h s" "in_box (box_move f w h s) a b" "\<not> ahead (box_move f w h s) a b"
  shows "in_box s a b \<and> \<not> ahead s a b \<or> a = bw_x s \<and> b = bw_y s"
  using assms(1) by (cases rule: walk_cases)
    (use assms(2,3) in \<open>auto simp: box_move_rules in_box_def ahead_def split: if_splits\<close>)

lemma all_visited:
  assumes "walk_ok f w h s" "room w h s = 0" "edge_rest s = 0" "0 \<le> a" "a < w" "0 \<le> b" "b < h"
  shows "in_box s a b \<and> \<not> ahead s a b \<or> a = bw_x s \<and> b = bw_y s"
  using assms(1) by (cases rule: walk_cases)
    (use assms(2-) in \<open>auto simp: room_def edge_rest_def in_box_def ahead_def\<close>)


text \<open>The map and the count while the walk is at s\<close>

definition marked :: "int \<Rightarrow> int \<Rightarrow> box_walk \<Rightarrow> 32 word list \<Rightarrow> nat \<Rightarrow> bool" where
  "marked w h s m k = (nat (w * h) \<le> length m \<and> (\<forall>i < nat (w * h). m ! i = 0 \<or> m ! i = 1)
     \<and> k = card {i. i < nat (w * h) \<and> m ! i = 0}
     \<and> (\<forall>a b. 0 \<le> a \<and> a < w \<and> 0 \<le> b \<and> b < h \<and> in_box s a b \<and> \<not> ahead s a b \<longrightarrow> m ! nat (b * w + a) = 0))"

lemma cell_bound:
  fixes w h :: int
  assumes "0 \<le> a" "a < w" "0 \<le> b" "b < h"
  shows "0 \<le> b * w + a \<and> b * w + a < w * h"
proof -
  have "(b + 1) * w \<le> h * w" using assms by (intro mult_right_mono) auto
  then show ?thesis using assms by (simp add: algebra_simps)
qed

lemma unat_word_of_int: "0 \<le> z \<Longrightarrow> z < 2 ^ 31 \<Longrightarrow> unat (word_of_int z :: 32 word) = nat z"
  using unat_of_nat[where 'a = 32, of "nat z"] by (cases z) simp_all

lemma walk_cell:
  assumes "0 \<le> x" "x < sint w" "0 \<le> y" "y < h" "sint w * h < 2 ^ 31"
  shows "unat (word_of_int y * w + word_of_int x :: 32 word) = nat (y * sint w + x)"
proof -
  have "word_of_int y * w + word_of_int x = (word_of_int (y * sint w + x) :: 32 word)"
    by (simp add: of_int_sint)
  moreover have "0 \<le> y * sint w + x" "y * sint w + x < 2 ^ 31" using cell_bound[OF assms(1-4)] assms(5) by auto
  ultimately show ?thesis by (simp only: unat_word_of_int)
qed

lemma marked_mark:
  assumes mk: "marked w h s m k" and ok: "walk_ok f w h s"
    and i: "i = nat (bw_y s * w + bw_x s)"
    and m': "m' = (if m ! i = 1 then m[i := 0] else m)"
  shows "i < length m" "i < nat (w * h)" "m' ! i = 0" "length m' = length m"
    "\<forall>j < nat (w * h). j \<noteq> i \<longrightarrow> m' ! j = m ! j"
    "(if m ! i = 1 then Suc k else k) = card {j. j < nat (w * h) \<and> m' ! j = 0}"
proof -
  have b: "0 \<le> bw_x s" "bw_x s < w" "0 \<le> bw_y s" "bw_y s < h" using ok by (auto simp: walk_ok_def)
  show iw: "i < nat (w * h)" using cell_bound[OF b] i by simp
  then show il: "i < length m" using mk by (auto simp: marked_def)
  have v: "m ! i = 0 \<or> m ! i = 1" using mk iw by (auto simp: marked_def)
  show i0: "m' ! i = 0" using v il m' by auto
  show "length m' = length m" using m' by simp
  show other: "\<forall>j < nat (w * h). j \<noteq> i \<longrightarrow> m' ! j = m ! j" using m' by auto
  have k: "k = card {j. j < nat (w * h) \<and> m ! j = 0}" using mk by (simp add: marked_def)
  show "(if m ! i = 1 then Suc k else k) = card {j. j < nat (w * h) \<and> m' ! j = 0}"
  proof (cases "m ! i = 1")
    case True
    have "{j. j < nat (w * h) \<and> m' ! j = 0} = insert i {j. j < nat (w * h) \<and> m ! j = 0}"
      using other i0 iw by auto
    then show ?thesis using True k by simp
  next
    case False
    then show ?thesis using k m' by simp
  qed
qed

lemma box_loop_ok:
  assumes "walk_ok f (sint w) h s" "marked (sint w) h s m k" "sint w * h < 2 ^ 31" "k \<le> units" "units \<le> nat (sint w * h)"
  shows "\<exists>m'. box_loop f w h units k s m = Some m' \<and> length m' = length m
    \<and> (\<forall>i < nat (sint w * h). m' ! i = 0 \<or> m' ! i = 1) \<and> card {i. i < nat (sint w * h) \<and> m' ! i = 0} = units"
  using assms(1,2,4)
proof (induction s arbitrary: k m rule: wf_induct_rule[OF wf_measures[of "[room (sint w) h, turns f (sint w) h, edge_rest]"]])
  case (1 s)
  let ?W = "sint w" and ?i = "nat (bw_y s * sint w + bw_x s)" and ?s = "box_move f (sint w) h s"
  note ok = 1(2) and mk = 1(3) and ku = 1(4)
  show ?case
  proof (cases "k < units")
    case False
    then show ?thesis using mk ku by (subst box_loop.simps) (auto simp: marked_def)
  next
    case True
    have b: "0 \<le> bw_x s" "bw_x s < ?W" "0 \<le> bw_y s" "bw_y s < h" using ok by (auto simp: walk_ok_def)
    define m' where "m' = (if m ! ?i = 1 then m[?i := 0] else m)"
    define k' where "k' = (if m ! ?i = 1 then Suc k else k)"
    note mark = marked_mark[OF mk ok refl m'_def]
    have step: "box_loop f w h units k s m = box_loop f w h units k' ?s m'"
      using True mark(1) by (subst box_loop.simps)
        (simp add: walk_cell[OF b assms(3)] array_read_def array_write_def m'_def k'_def)
    have k': "k' = card {j. j < nat (?W * h) \<and> m' ! j = 0}" using mark(6) by (simp add: k'_def)
    have bits: "\<forall>j < nat (?W * h). m' ! j = 0 \<or> m' ! j = 1" 
    proof (intro allI impI)
      fix j assume "j < nat (?W * h)"
      then show "m' ! j = 0 \<or> m' ! j = 1" using mk mark(3,5) by (cases "j = ?i") (auto simp: marked_def)
    qed
    have seen: "m' ! nat (d * ?W + a) = 0"
      if "0 \<le> a" "a < ?W" "0 \<le> d" "d < h" "in_box s a d \<and> \<not> ahead s a d \<or> a = bw_x s \<and> d = bw_y s" for a d
    proof (cases "nat (d * ?W + a) = ?i")
      case True then show ?thesis using mark(3) by simp
    next
      case False
      then have "in_box s a d \<and> \<not> ahead s a d" using that(5) by auto
      then have "m ! nat (d * ?W + a) = 0" using mk that(1-4) by (auto simp: marked_def)
      moreover have "nat (d * ?W + a) < nat (?W * h)" using cell_bound[OF that(1-4)] by simp
      ultimately show ?thesis using mark(5) False by simp
    qed
    have mk': "marked ?W h ?s m' k'"
      using mk mark(4) k' bits seen move_visited[OF ok] unfolding marked_def by (metis (no_types, lifting))
    have ku': "k' \<le> units" using True by (simp add: k'_def)
    show ?thesis
    proof (cases "room ?W h s = 0 \<and> edge_rest s = 0")
      case False
      then have "(?s, s) \<in> measures [room ?W h, turns f ?W h, edge_rest]"
        by (intro move_measure[OF ok]) auto
      from 1(1)[OF this move_walk_ok[OF ok] mk' ku'] show ?thesis using step mark(4) by simp
    next
      case True
      have "m' ! j = 0" if "j < nat (?W * h)" for j
      proof -
        have w0: "0 < ?W" using b by simp
        have j: "int j < ?W * h" using that by simp
        have "int j div ?W < h"
        proof (rule ccontr)
          assume "\<not> int j div ?W < h"
          then have "h * ?W \<le> int j div ?W * ?W" using w0 by (intro mult_right_mono) auto
          moreover have "int j div ?W * ?W \<le> int j" using w0 by (simp add: minus_mod_eq_div_mult[symmetric])
          ultimately show False using j by (simp add: mult.commute)
        qed
        then have "m' ! nat (int j div ?W * ?W + int j mod ?W) = 0"
          using w0 by (intro seen all_visited[OF ok]) (use True in \<open>auto simp: pos_imp_zdiv_nonneg_iff\<close>)
        then show ?thesis by simp
      qed
      then have "{j. j < nat (?W * h) \<and> m' ! j = 0} = {..< nat (?W * h)}" by auto
      then have "k' = nat (?W * h)" using k' by simp
      then have "k' = units" using ku' assms(5) by simp
      then have "box_loop f w h units k' ?s m' = Some m'" by (subst box_loop.simps) simp
      then show ?thesis using step bits k' \<open>k' = units\<close> mark(4) by auto
    qed
  qed
qed

end
