(* ===== verification/H264SliceGroupMap.thy ===== *)
theory H264SliceGroupMap
  imports H264BoxOut H264Poc
begin

text \<open>
  Slice group maps as a whole: what a parsed picture parameter set and CheckPps guarantee, the formulas of
  section 8.2.2 of the standard, and that h264bsdDecodeSliceGroupMap computes them.
\<close>

subsection \<open>What the parser and CheckPps leave\<close>

text \<open>The shape of a picture parameter set that h264bsdDecodePicParamSet has accepted, up to the values
  that are code numbers plus one\<close>

definition pps_shape :: "pic_param_set \<Rightarrow> bool" where
  "pps_shape pps =
     (let groups = pps_num_slice_groups pps; type = pps_slice_group_map_type pps
      in unat groups \<le> MAX_NUM_SLICE_GROUPS \<and> type \<le> 6
       \<and> (pps_slice_group_change_direction_flag pps = 0 \<or> pps_slice_group_change_direction_flag pps = 1)
       \<and> (1 < groups \<longrightarrow>
          (type = 0 \<longrightarrow> (\<exists>rs. pps_run_length pps = Some rs \<and> length rs = unat groups))
        \<and> (type = 2 \<longrightarrow> (\<exists>tl br. pps_top_left pps = Some tl \<and> pps_bottom_right pps = Some br
             \<and> length tl = unat groups - 1 \<and> length br = unat groups - 1))
        \<and> (type = 6 \<longrightarrow> (\<exists>ids. pps_slice_group_id pps = Some ids
             \<and> length ids = unat (pps_pic_size_in_map_units pps) \<and> (\<forall>g \<in> set ids. g < groups)))))"

text \<open>The values that are code numbers plus one have not wrapped around.\<close>

definition pps_no_wrap :: "pic_param_set \<Rightarrow> bool" where
  "pps_no_wrap pps =
     (pps_num_slice_groups pps \<noteq> 0
      \<and> (\<forall>rs. pps_run_length pps = Some rs \<longrightarrow> (\<forall>r \<in> set rs. r \<noteq> 0))
      \<and> (3 \<le> pps_slice_group_map_type pps \<longrightarrow> pps_slice_group_map_type pps \<le> 5 \<longrightarrow> pps_slice_group_change_rate pps \<noteq> 0))"

lemma check_runs_True:
  "check_runs rs p i n = Some True \<Longrightarrow> \<forall>g. i \<le> g \<and> g < i + n \<longrightarrow> g < length rs \<and> rs ! g \<le> p"
proof (induction n arbitrary: i)
  case (Suc n)
  then have "i < length rs" "rs ! i \<le> p" "check_runs rs p (Suc i) n = Some True"
    by (auto simp: array_read_def split: if_splits)
  moreover from Suc.IH[OF this(3)] have "\<forall>g. Suc i \<le> g \<and> g < Suc i + n \<longrightarrow> g < length rs \<and> rs ! g \<le> p" .
  ultimately show ?case by (metis Suc_leI add_Suc_right add_Suc_shift le_neq_implies_less)
qed auto

lemma check_rectangles_True:
  "check_rectangles tls brs w p i n = Some True \<Longrightarrow>
   \<forall>g. i \<le> g \<and> g < i + n \<longrightarrow> rectangle_ok (unat w) (unat p) (tls ! g) (brs ! g)"
proof (induction n arbitrary: i)
  case (Suc n)
  then have "rectangle_ok (unat w) (unat p) (tls ! i) (brs ! i)" "check_rectangles tls brs w p (Suc i) n = Some True"
    by (auto simp: array_read_def rectangle_ok_def not_less not_le word_le_nat_alt word_less_nat_alt unat_mod
        split: if_splits)
  moreover from Suc.IH[OF this(2)] have "\<forall>g. Suc i \<le> g \<and> g < Suc i + n \<longrightarrow> rectangle_ok (unat w) (unat p) (tls ! g) (brs ! g)" .
  ultimately show ?case by (metis Suc_leI add_Suc_right add_Suc_shift le_neq_implies_less)
qed auto

subsection \<open>The slice group of a macroblock, as the standard has it\<close>

text \<open>Section 8.2.2 of H.264 for the map types other than 3: the group of macroblock k in a picture of w
  by h macroblocks; units is mapUnitsInSliceGroup0.\<close>

definition slice_group_of :: "pic_param_set \<Rightarrow> nat \<Rightarrow> nat \<Rightarrow> nat \<Rightarrow> nat \<Rightarrow> 32 word" where
  "slice_group_of pps units w h k =
     (let groups = unat (pps_num_slice_groups pps); type = pps_slice_group_map_type pps;
          flag = pps_slice_group_change_direction_flag pps;
          upper = (if flag = 1 then w * h - units else units)
      in if groups = 1 then 0
         else if type = 0 then
           (let pattern = run_pattern (the (pps_run_length pps)) 0 groups in pattern ! (k mod length pattern))
         else if type = 1 then of_nat ((k mod w + (k div w * groups) div 2) mod groups)
         else if type = 2 then
           (case first_rectangle (the (pps_top_left pps)) (the (pps_bottom_right pps)) w (groups - 1) k of
              Some g \<Rightarrow> of_nat g | None \<Rightarrow> pps_num_slice_groups pps - 1)
         else if type = 4 then (if k < upper then flag else 1 - flag)
         else if type = 5 then (if (k mod w) * h + k div w < upper then flag else 1 - flag)
         else the (pps_slice_group_id pps) ! k)"

lemma unat_mult_small: "unat (w :: 32 word) * unat h < 2 ^ 31 \<Longrightarrow> unat (w * h) = unat w * unat h"
  by (simp add: unat_word_ariths)

lemma sint_nat: "unat (w :: 32 word) < 2 ^ 31 \<Longrightarrow> sint w = int (unat w)"
  by (metis sint_small uint_nat of_nat_less_iff of_nat_numeral of_nat_power)

lemma run_pattern_nonempty: "0 < n \<Longrightarrow> unat (rs ! g) \<noteq> 0 \<Longrightarrow> run_pattern rs g n \<noteq> []"
  by (cases n) (auto simp: run_pattern_Suc)

lemma run_pattern_less: "x \<in> set (run_pattern rs g n) \<Longrightarrow> \<exists>j < g + n. x = of_nat j"
  by (auto simp: run_pattern_def split: if_splits)

lemma interleaved_map:
  assumes "length rs = unat groups" "1 < groups" "unat groups \<le> 8" "\<forall>r \<in> set rs. r \<noteq> 0 \<and> r \<le> p" "unat p < 2 ^ 31" "unat p \<le> length m"
  shows "\<exists>m'. DecodeInterleavedMap m groups rs p = Some m' \<and> length m' = length m
    \<and> (\<forall>k < unat p. m' ! k = run_pattern rs 0 (unat groups) ! (k mod length (run_pattern rs 0 (unat groups))))"
proof -
  have g: "0 < unat groups" "\<not> groups < 1" using assms(2) by (auto simp: word_less_nat_alt)
  then have r0: "unat (rs ! 0) \<noteq> 0" using assms(1,4) by (metis nth_mem unat_eq_zero)
  show ?thesis
  proof (cases "unat p = 0")
    case True
    have "interleaved_groups rs 0 0 (unat groups) 0 m = Some (0, m)" by (cases "unat groups") auto
    then show ?thesis using True g assms(3)
      by (simp add: DecodeInterleavedMap_def MAX_NUM_SLICE_GROUPS_def interleaved_loop.simps)
  next
    case False
    show ?thesis
      using interleaved_loop_eq[of "unat groups" rs "unat p" m 0] run_pattern_nonempty[OF g(1) r0] assms g False
      by (simp add: DecodeInterleavedMap_def MAX_NUM_SLICE_GROUPS_def word_le_nat_alt)
  qed
qed

lemma dispersed_map:
  assumes "1 < groups" "unat groups \<le> 8" "w \<noteq> 0" "h \<noteq> 0" "unat w * unat h < 2 ^ 28" "unat w * unat h \<le> length m"
  shows "\<exists>m'. DecodeDispersedMap m groups w h = Some m' \<and> length m' = length m
    \<and> (\<forall>k < unat w * unat h. m' ! k = of_nat ((k mod unat w + (k div unat w * unat groups) div 2) mod unat groups))"
proof -
  let ?v = "\<lambda>k. let i = of_nat k in (i mod w + drop_bit 1 (i div w * groups)) mod groups"
  have p: "unat (w * h) = unat w * unat h" using assms(5) by (intro unat_mult_small) simp
  obtain m' where m': "fill_map ?v 0 (unat w * unat h) m = Some m'" "length m' = length m"
      "\<forall>k < length m. m' ! k = (if 0 \<le> k \<and> k < 0 + unat w * unat h then ?v k else m ! k)"
    using writesD[OF writes_fill[of 0 "unat w * unat h" m ?v]] assms(6) by auto
  have "?v k = of_nat ((k mod unat w + (k div unat w * unat groups) div 2) mod unat groups)"
    if k: "k < unat w * unat h" for k
  proof -
    have k28: "k < 2 ^ 28" using k assms(5) by simp
    then have uk: "unat (of_nat k :: 32 word) = k" by (simp add: unat_of_nat)
    have "k div unat w \<le> k" by simp
    then have "k div unat w * unat groups \<le> k * 8" using assms(2) by (intro mult_mono) auto
    then have "k div unat w * unat groups < 2 ^ 32" by (rule le_less_trans) (use k28 in simp)
    then have d: "unat (of_nat k div w * groups) = k div unat w * unat groups"
      using uk by (simp add: unat_mult_lem[THEN iffD1] unat_div)
    have "k mod unat w \<le> k" by simp
    moreover have "(k div unat w * unat groups) div 2 \<le> k * 4"
      using \<open>k div unat w * unat groups \<le> k * 8\<close> by simp
    ultimately have "k mod unat w + (k div unat w * unat groups) div 2 \<le> k + k * 4" by (rule add_mono)
    then have lt: "k mod unat w + (k div unat w * unat groups) div 2 < 2 ^ 32" using k28 by (rule_tac le_less_trans) auto
    have "unat (?v k) = (k mod unat w + (k div unat w * unat groups) div 2) mod unat groups"
      using uk d lt unat_drop_bit_div[of 1 "of_nat k div w * groups"] by (simp add: Let_def unat_mod unat_word_ariths)
    then show ?thesis by (metis of_nat_unat ucast_id)
  qed
  then show ?thesis using m' p assms
    by (auto simp: DecodeDispersedMap_def MAX_NUM_SLICE_GROUPS_def word_less_nat_alt)
qed

lemma foreground_map:
  assumes "1 < groups" "unat groups \<le> 8" "w \<noteq> 0" "h \<noteq> 0" "unat w * unat h < 2 ^ 31" "unat w * unat h \<le> length m"
    and "length tls = unat groups - 1" "length brs = unat groups - 1"
    and "\<forall>g < unat groups - 1. rectangle_ok (unat w) (unat (w * h)) (tls ! g) (brs ! g)"
  shows "\<exists>m'. DecodeForegroundLeftOverMap m groups tls brs w h = Some m' \<and> length m' = length m
    \<and> (\<forall>k < unat w * unat h. m' ! k = (case first_rectangle tls brs (unat w) (unat groups - 1) k of
         Some g \<Rightarrow> of_nat g | None \<Rightarrow> groups - 1))"
proof -
  have p: "unat (w * h) = unat w * unat h" using assms(5) by (rule unat_mult_small)
  have g1: "unat (groups - 1) = unat groups - 1"
    by (rule unat_minus_1) (use assms(1) in \<open>auto simp: word_less_nat_alt\<close>)
  have g3: "\<not> groups < 1" using assms(1) by (auto simp: word_less_nat_alt)
  note g = g1 g3
  let ?n = "unat groups - 1"
  have W: "writes m (\<lambda>k. first_rectangle tls brs (unat w) ?n k \<noteq> None \<or> 0 \<le> k \<and> k < 0 + unat w * unat h)
      (\<lambda>k. if first_rectangle tls brs (unat w) ?n k \<noteq> None then of_nat (the (first_rectangle tls brs (unat w) ?n k)) else groups - 1)
      (Option.bind (fill_map (\<lambda>_. groups - 1) 0 (unat w * unat h) m) (foreground_groups tls brs w (w * h) ?n))"
  proof (rule writes_bind[OF writes_fill])
    show "0 + unat w * unat h \<le> length m" using assms(6) by simp
    fix m' :: "32 word list" assume "length m' = length m"
    then show "writes m' (\<lambda>k. first_rectangle tls brs (unat w) ?n k \<noteq> None)
      (\<lambda>k. of_nat (the (first_rectangle tls brs (unat w) ?n k))) (foreground_groups tls brs w (w * h) ?n m')"
      using assms p by (intro writes_groups[where h = "unat h"]) (auto simp: unat_gt_0)
  qed
  have eq: "DecodeForegroundLeftOverMap m groups tls brs w h =
      Option.bind (fill_map (\<lambda>_. groups - 1) 0 (unat w * unat h) m) (foreground_groups tls brs w (w * h) ?n)"
    using assms(2-4) g p by (simp add: DecodeForegroundLeftOverMap_def MAX_NUM_SLICE_GROUPS_def)
  from writesD[OF W[folded eq]] obtain m' where m': "DecodeForegroundLeftOverMap m groups tls brs w h = Some m'" "length m' = length m"
      "\<forall>k < length m. m' ! k = (if first_rectangle tls brs (unat w) ?n k \<noteq> None \<or> 0 \<le> k \<and> k < 0 + unat w * unat h
         then (if first_rectangle tls brs (unat w) ?n k \<noteq> None then of_nat (the (first_rectangle tls brs (unat w) ?n k)) else groups - 1)
         else m ! k)"
    by blast
  then show ?thesis using assms(6) by (auto split: option.splits)
qed


lemma box_out_map:
  assumes "flag = 0 \<or> flag = 1" "w \<noteq> 0" "h \<noteq> 0" "unat w * unat h < 2 ^ 31" "unat units \<le> unat w * unat h" "unat w * unat h \<le> length m"
  shows "\<exists>m'. DecodeBoxOutMap m flag units w h = Some m' \<and> length m' = length m
    \<and> (\<forall>k < unat w * unat h. m' ! k = 0 \<or> m' ! k = 1) \<and> card {k. k < unat w * unat h \<and> m' ! k = 0} = unat units"
proof -
  have p: "unat (w * h) = unat w * unat h" using assms(4) by (rule unat_mult_small)
  have pos: "0 < unat w" "0 < unat h" using assms(2,3) by (auto simp: unat_gt_0)
  have "unat w \<le> unat w * unat h" "unat h \<le> unat w * unat h" using pos by simp_all
  then have wb: "unat w < 2 ^ 31" "unat h < 2 ^ 31" using assms(4) by (blast intro: le_less_trans)+
  note sw = sint_nat[OF wb(1)] sint_nat[OF wb(2)]
  have half: "sint (drop_bit 1 (z - flag)) = int ((unat z - unat flag) div 2)" if "z \<noteq> 0" "unat z < 2 ^ 31" for z :: "32 word"
  proof -
    have "unat flag \<le> unat z" using assms(1) that by (auto simp: word_le_nat_alt Suc_le_eq unat_gt_0)
    then have d: "unat (drop_bit 1 (z - flag)) = (unat z - unat flag) div 2"
      using unat_drop_bit_div[of 1 "z - flag"] by (simp add: unat_sub word_le_nat_alt)
    then show ?thesis using sint_nat[of "drop_bit 1 (z - flag)"] that(2) by simp
  qed
  obtain m1 where m1: "fill_map (\<lambda>_. 1) 0 (unat w * unat h) m = Some m1" "length m1 = length m"
      "\<forall>k < length m. m1 ! k = (if 0 \<le> k \<and> k < 0 + unat w * unat h then 1 else m ! k)"
    using writesD[OF writes_fill[of 0 "unat w * unat h" m "\<lambda>_. 1"]] assms(6) by auto
  let ?x = "sint (drop_bit 1 (w - flag))" and ?y = "sint (drop_bit 1 (h - flag))"
  let ?s = "\<lparr>bw_x = ?x, bw_y = ?y, bw_x_dir = sint flag - 1, bw_y_dir = sint flag,
            bw_left = ?x, bw_top = ?y, bw_right = ?x, bw_bottom = ?y\<rparr>"
  have xy: "0 \<le> ?x" "?x < sint w" "0 \<le> ?y" "?y < sint h"
    unfolding half[OF assms(2) wb(1)] half[OF assms(3) wb(2)] sw of_nat_less_iff using pos by auto
  have f: "sint flag = 0 \<or> sint flag = 1" using assms(1) by auto
  have wh: "nat (sint w * sint h) = unat w * unat h" "sint w * sint h < 2 ^ 31"
  proof -
    have e: "sint w * sint h = int (unat w * unat h)" by (simp only: sw of_nat_mult)
    show "nat (sint w * sint h) = unat w * unat h" unfolding e by (rule nat_int)
    show "sint w * sint h < 2 ^ 31" unfolding e using assms(4) by (metis of_nat_less_iff of_nat_numeral of_nat_power)
  qed
  have ok: "walk_ok (sint flag) (sint w) (sint h) ?s" using f xy by (auto simp: walk_ok_def)
  have "{i. i < unat w * unat h \<and> m1 ! i = 0} = {}" using m1(3) assms(6) by auto
  then have mk: "marked (sint w) (sint h) ?s m1 0"
    using m1 assms(6) f unfolding marked_def wh by (auto simp: in_box_def ahead_def)
  obtain m' where "box_loop (sint flag) w (sint h) (unat units) 0 ?s m1 = Some m'" "length m' = length m1"
      "\<forall>i < unat w * unat h. m' ! i = 0 \<or> m' ! i = 1" "card {i. i < unat w * unat h \<and> m' ! i = 0} = unat units"
    using box_loop_ok[OF ok mk wh(2), of "unat units"] assms(5) unfolding wh(1) by auto
  moreover have "\<not> units > w * h" using assms(5) p by (simp add: word_less_nat_alt)
  ultimately show ?thesis using assms(2,3) m1(1,2) p by (simp add: DecodeBoxOutMap_def Let_def)
qed

lemma wipe_map:
  assumes "w \<noteq> 0" "h \<noteq> 0" "unat w * unat h < 2 ^ 31" "unat upper \<le> unat w * unat h" "unat w * unat h \<le> length m"
  shows "\<exists>m'. DecodeWipeMap m flag upper w h = Some m' \<and> length m' = length m
    \<and> (\<forall>k < unat w * unat h. m' ! k = (if (k mod unat w) * unat h + k div unat w < unat upper then flag else 1 - flag))"
proof -
  have p: "unat (w * h) = unat w * unat h" using assms(3) by (rule unat_mult_small)
  have w: "0 < unat w" using assms(1) by (simp add: unat_gt_0)
  have "writes m (\<lambda>q. 0 \<le> q mod unat w \<and> q mod unat w < 0 + unat w \<and> q div unat w < unat h)
     (\<lambda>q. if 0 + (q mod unat w - 0) * unat h + q div unat w < unat upper then flag else 1 - flag)
     (wipe_columns flag (unat upper) (unat w) (unat h) 0 0 (unat w) m)"
    by (rule writes_columns) (use assms in \<open>auto simp: mult.commute\<close>)
  from writesD[OF this] obtain m' where m': "wipe_columns flag (unat upper) (unat w) (unat h) 0 0 (unat w) m = Some m'"
      "length m' = length m" "\<forall>q < length m. m' ! q = (if 0 \<le> q mod unat w \<and> q mod unat w < 0 + unat w \<and> q div unat w < unat h
        then (if 0 + (q mod unat w - 0) * unat h + q div unat w < unat upper then flag else 1 - flag) else m ! q)"
    by blast
  have "k div unat w < unat h" if "k < unat w * unat h" for k
    using that by (metis less_mult_imp_div_less mult.commute)
  moreover have "DecodeWipeMap m flag upper w h = Some m'"
    using assms(1,2,4) p m'(1) by (simp add: DecodeWipeMap_def word_less_nat_alt)
  ultimately show ?thesis using m'(2,3) assms(5) w by auto
qed


text \<open>The picture parameter set is one that CheckPps has accepted for the picture, and the map has a cell
  for every macroblock.\<close>

definition map_ready :: "pic_param_set \<Rightarrow> seq_param_set \<Rightarrow> 32 word \<Rightarrow> 32 word \<Rightarrow> 32 word list \<Rightarrow> bool" where
  "map_ready pps sps w h m =
     (pps_shape pps \<and> pps_no_wrap pps \<and> CheckPps pps sps = Some True
      \<and> w = sps_pic_width_in_mbs sps \<and> h = sps_pic_height_in_mbs sps \<and> w \<noteq> 0 \<and> h \<noteq> 0
      \<and> unat w * unat h < 2 ^ 28 \<and> unat w * unat h \<le> length m)"

definition units_in_group0 :: "pic_param_set \<Rightarrow> 32 word \<Rightarrow> 32 word \<Rightarrow> 32 word \<Rightarrow> nat" where
  "units_in_group0 pps cycle w h = min (unat (cycle * pps_slice_group_change_rate pps)) (unat w * unat h)"

lemma groups_1_map:
  assumes "pps_num_slice_groups pps = 1" "map_ready pps sps w h m"
  shows "\<exists>m'. h264bsdDecodeSliceGroupMap m pps cycle w h = Some m' \<and> length m' = length m
    \<and> (\<forall>k < unat w * unat h. m' ! k = 0)"
proof -
  have "unat w * unat h < 2 ^ 31" using assms(2) by (auto simp: map_ready_def)
  then have p: "unat (w * h) = unat w * unat h" by (rule unat_mult_small)
  have ty: "\<not> pps_slice_group_map_type pps \<ge> 7" "0 + unat w * unat h \<le> length m"
    using assms(2) by (auto simp: map_ready_def pps_shape_def Let_def not_le word_le_nat_alt word_less_nat_alt)
  from writesD[OF writes_fill[OF ty(2), of "\<lambda>_. 0"]] show ?thesis
    using assms ty p by (auto simp: h264bsdDecodeSliceGroupMap_def Let_def map_ready_def)
qed

lemma units_min:
  "unat w * unat h < 2 ^ 31 \<Longrightarrow> unat (min (c * r) (w * h)) = min (unat (c * r)) (unat w * unat h)" for w h c r :: "32 word"
  by (auto simp: min_def word_le_nat_alt unat_mult_small)

lemma raster_map:
  assumes "unat p \<noteq> 0" "unat upper \<le> unat p" "unat p \<le> length m"
  shows "\<exists>m'. DecodeRasterScanMap m flag upper p = Some m' \<and> length m' = length m
    \<and> (\<forall>k < unat p. m' ! k = (if k < unat upper then flag else 1 - flag))"
proof -
  let ?v = "\<lambda>i. if of_nat i < upper then flag else 1 - flag"
  have le: "0 + unat p \<le> length m" using assms(3) by simp
  from writesD[OF writes_fill[OF le, of ?v]] obtain m' where m': "fill_map ?v 0 (unat p) m = Some m'" "length m' = length m"
      "\<forall>k < length m. m' ! k = (if 0 \<le> k \<and> k < 0 + unat p then ?v k else m ! k)" by blast
  have "of_nat k < upper \<longleftrightarrow> k < unat upper" if "k < unat p" for k
  proof -
    have "unat p < 2 ^ 32" by (rule order.strict_trans2[OF unsigned_less]) simp
    then show ?thesis using that by (simp add: word_less_nat_alt unat_of_nat)
  qed
  moreover have "DecodeRasterScanMap m flag upper p = Some m'"
    using assms(1,2) m'(1) by (auto simp: DecodeRasterScanMap_def word_less_nat_alt)
  ultimately show ?thesis using m'(2,3) assms(3) by auto
qed

lemma decode_map:
  assumes r: "map_ready pps sps w h m" and t3: "pps_num_slice_groups pps = 1 \<or> pps_slice_group_map_type pps \<noteq> 3"
  shows "\<exists>m'. h264bsdDecodeSliceGroupMap m pps cycle w h = Some m' \<and> length m' = length m
    \<and> (\<forall>k < unat w * unat h. m' ! k = slice_group_of pps (units_in_group0 pps cycle w h) (unat w) (unat h) k)"
proof (cases "pps_num_slice_groups pps = 1")
  case True
  then show ?thesis using groups_1_map[OF True r, of cycle] by (simp add: slice_group_of_def Let_def)
next
  case False
  let ?g = "pps_num_slice_groups pps" and ?t = "pps_slice_group_map_type pps" and ?d = "h264bsdDecodeSliceGroupMap m pps cycle w h"
  note rr = r[unfolded map_ready_def]
  have wh: "w \<noteq> 0" "h \<noteq> 0" "unat w * unat h < 2 ^ 28" "unat w * unat h \<le> length m" using rr by auto
  have b: "unat w * unat h < 2 ^ 31" using rr by auto
  note p = unat_mult_small[OF b]
  have g1: "1 < ?g" using rr False by (simp add: pps_no_wrap_def word_less_nat_alt word_unat_eq_iff) 
  have ug: "unat ?g \<noteq> 1" using False by (simp add: word_unat_eq_iff)
  have shape: "unat ?g \<le> 8" "?t \<le> 6"
    using rr by (simp_all add: pps_shape_def Let_def MAX_NUM_SLICE_GROUPS_def)
  have chk: "(if ?t = 0 then Option.bind (pps_run_length pps) (\<lambda>rs. check_runs rs (w * h) 0 (unat ?g))
            else if ?t = 2 then do {
              tl \<leftarrow> pps_top_left pps;
              br \<leftarrow> pps_bottom_right pps;
              check_rectangles tl br w (w * h) 0 (unat (?g - 1))
            }
            else if 2 < ?t \<and> ?t < 6 then Some (\<not> pps_slice_group_change_rate pps > w * h)
            else Some (\<not> (?t = 6 \<and> pps_pic_size_in_map_units pps < w * h))) = Some True"
    using rr g1 unfolding CheckPps_def Let_def by (auto split: if_splits)
  have t7: "\<not> ?t \<ge> 7" using shape(2) by (simp add: word_le_nat_alt)
  have start: "\<not> (w = 0 \<or> h = 0 \<or> ?t \<ge> 7)" using rr t7 by auto
  let ?f = "pps_slice_group_change_direction_flag pps" and ?r = "pps_slice_group_change_rate pps"
  let ?un = "min (cycle * ?r) (w * h)"
  let ?up = "if ?f \<noteq> 0 then w * h - ?un else ?un"
  have fl: "?f = 0 \<or> ?f = 1" using rr by (simp add: pps_shape_def Let_def)
  have un: "unat ?un = units_in_group0 pps cycle w h" "unat ?un \<le> unat w * unat h"
    using units_min[OF b] by (simp_all add: units_in_group0_def)
  then have up: "unat ?up = (if ?f = 1 then unat w * unat h - units_in_group0 pps cycle w h else units_in_group0 pps cycle w h)"
      "unat ?up \<le> unat w * unat h"
    using fl p by (auto simp: unat_sub)
  have pz: "unat w * unat h \<noteq> 0" using rr by (auto simp: unat_eq_zero)
  have rate: "?r \<noteq> 0 \<and> ?r \<le> w * h" if "?t = 4 \<or> ?t = 5"
    using that chk rr by (auto simp: pps_no_wrap_def)
  have "unat ?t \<le> 6" using shape(2) by (simp add: word_le_nat_alt)
  then consider "?t = 0" | "?t = 1" | "?t = 2" | "?t = 4" | "?t = 5" | "?t = 6" | "?t = 3"
    by (simp add: word_unat_eq_iff) linarith
  then show ?thesis
  proof cases
    case 1
    obtain rs where rs: "pps_run_length pps = Some rs" "length rs = unat ?g" "\<forall>r \<in> set rs. r \<noteq> 0"
      using rr g1 1 by (auto simp: pps_shape_def pps_no_wrap_def Let_def)
    have "\<forall>r \<in> set rs. r \<le> w * h" using chk check_runs_True[of rs "w * h" 0 "unat ?g"] 1 rs(1,2)
      by (auto simp: in_set_conv_nth)
    then have "?d = DecodeInterleavedMap m ?g rs (w * h) \<and> (\<forall>r \<in> set rs. r \<noteq> 0 \<and> r \<le> w * h)"
      using start False 1 rs(1,3) by (simp add: h264bsdDecodeSliceGroupMap_def Let_def)
    then show ?thesis using interleaved_map[of rs ?g "w * h" m] rs(1,2) g1 shape(1) b p wh 1 ug
      by (simp add: slice_group_of_def Let_def)
  next
    case 2
    then have "?d = DecodeDispersedMap m ?g w h" using start False by (simp add: h264bsdDecodeSliceGroupMap_def Let_def)
    then show ?thesis using dispersed_map[of ?g w h m] g1 shape(1) wh 2 ug by (simp add: slice_group_of_def Let_def)
  next
    case 3
    obtain tls brs where tb: "pps_top_left pps = Some tls" "pps_bottom_right pps = Some brs"
        "length tls = unat ?g - 1" "length brs = unat ?g - 1"
      using rr g1 3 by (auto simp: pps_shape_def Let_def)
    have "unat (?g - 1) = unat ?g - 1" using g1 by (intro unat_minus_1) auto
    then have "\<forall>g < unat ?g - 1. rectangle_ok (unat w) (unat (w * h)) (tls ! g) (brs ! g)"
      using chk check_rectangles_True[of tls brs w "w * h" 0 "unat ?g - 1"] 3 tb(1,2) by auto
    moreover have "?d = DecodeForegroundLeftOverMap m ?g tls brs w h"
      using start False 3 tb(1,2) by (simp add: h264bsdDecodeSliceGroupMap_def Let_def)
    ultimately show ?thesis using foreground_map[of ?g w h m tls brs] tb g1 shape(1) b wh 3 ug
      by (simp add: slice_group_of_def Let_def)
  next
    case 4
    have d: "?d = DecodeRasterScanMap m ?f ?up (w * h)" using start False 4 rate by (simp add: h264bsdDecodeSliceGroupMap_def Let_def)
    show ?thesis using raster_map[of "w * h" ?up m ?f] up pz wh 4 ug unfolding d p
      by (simp add: slice_group_of_def Let_def)
  next
    case 5
    have d: "?d = DecodeWipeMap m ?f ?up w h" using start False 5 rate by (simp add: h264bsdDecodeSliceGroupMap_def Let_def)
    show ?thesis using wipe_map[of w h ?up m ?f] up wh b 5 ug unfolding d
      by (simp add: slice_group_of_def Let_def)
  next
    case 6
    obtain ids where ids: "pps_slice_group_id pps = Some ids" "length ids = unat (pps_pic_size_in_map_units pps)" "\<forall>g \<in> set ids. g < ?g"
      using rr g1 6 by (auto simp: pps_shape_def Let_def)
    have le: "0 + unat w * unat h \<le> length ids" "0 + unat w * unat h \<le> length m"
      using chk 6 ids(2) wh p by (auto simp: word_less_nat_alt)
    have d: "?d = copy_ids ids ?g 0 (unat w * unat h) m"
      using start False 6 ids(1) p by (simp add: h264bsdDecodeSliceGroupMap_def Let_def)
    show ?thesis using writesD[OF writes_ids[OF le ids(3)]] wh 6 ug ids(1) unfolding d
      by (auto simp: slice_group_of_def Let_def)
  next
    case 7
    then show ?thesis using t3 False by simp
  qed
qed


lemma decode_box_out:
  assumes r: "map_ready pps sps w h m" and t3: "pps_num_slice_groups pps \<noteq> 1" "pps_slice_group_map_type pps = 3"
  shows "\<exists>m'. h264bsdDecodeSliceGroupMap m pps cycle w h = Some m' \<and> length m' = length m
    \<and> (\<forall>k < unat w * unat h. m' ! k = 0 \<or> m' ! k = 1)
    \<and> card {k. k < unat w * unat h \<and> m' ! k = 0} = units_in_group0 pps cycle w h"
proof -
  note rr = r[unfolded map_ready_def]
  have wh: "w \<noteq> 0" "h \<noteq> 0" "unat w * unat h < 2 ^ 31" "unat w * unat h \<le> length m" using rr by auto
  have fl: "pps_slice_group_change_direction_flag pps = 0 \<or> pps_slice_group_change_direction_flag pps = 1"
    using rr by (simp add: pps_shape_def Let_def)
  have g1: "1 < pps_num_slice_groups pps" using rr t3(1) by (auto simp: pps_no_wrap_def word_less_nat_alt word_unat_eq_iff)
  have rate: "pps_slice_group_change_rate pps \<noteq> 0 \<and> pps_slice_group_change_rate pps \<le> w * h"
    using rr g1 t3 by (auto simp: CheckPps_def pps_no_wrap_def Let_def split: if_splits)
  let ?un = "min (cycle * pps_slice_group_change_rate pps) (w * h)"
  have un: "unat ?un = units_in_group0 pps cycle w h"
    using units_min[OF wh(3)] by (simp add: units_in_group0_def)
  then have "unat ?un \<le> unat w * unat h" by (simp add: units_in_group0_def)
  note box_out_map[OF fl wh(1,2,3) this wh(4)]
  moreover have "h264bsdDecodeSliceGroupMap m pps cycle w h = DecodeBoxOutMap m (pps_slice_group_change_direction_flag pps) ?un w h"
    using wh rate t3 by (simp add: h264bsdDecodeSliceGroupMap_def Let_def)
  ultimately show ?thesis by (simp add: un)
qed

lemma of_nat_less_groups: "n < unat groups \<Longrightarrow> (of_nat n :: 32 word) < groups"
  using unsigned_less[of groups] by (simp add: word_less_nat_alt unat_of_nat)

lemma slice_group_of_less:
  assumes "map_ready pps sps w h m" "k < unat w * unat h" "pps_num_slice_groups pps = 1 \<or> pps_slice_group_map_type pps \<noteq> 3"
  shows "slice_group_of pps units (unat w) (unat h) k < pps_num_slice_groups pps"
proof -
  let ?g = "pps_num_slice_groups pps" and ?t = "pps_slice_group_map_type pps"
  note rr = assms(1)[unfolded map_ready_def]
  have shape: "pps_shape pps" "pps_no_wrap pps" using rr by auto
  show ?thesis
  proof (cases "?g = 1")
    case True
    then show ?thesis by (simp add: slice_group_of_def Let_def)
  next
    case False
    have g1: "1 < ?g" using shape(2) False by (auto simp: pps_no_wrap_def word_less_nat_alt word_unat_eq_iff)
    have ug: "1 < unat ?g" using g1 by (simp add: word_less_nat_alt)
    have fl: "pps_slice_group_change_direction_flag pps = 0 \<or> pps_slice_group_change_direction_flag pps = 1"
      using shape(1) by (simp add: pps_shape_def Let_def)
    have fg: "pps_slice_group_change_direction_flag pps < ?g" "1 - pps_slice_group_change_direction_flag pps < ?g"
      using fl g1 by (auto simp: word_less_nat_alt)
    have t0: "run_pattern (the (pps_run_length pps)) 0 (unat ?g) ! (k mod length (run_pattern (the (pps_run_length pps)) 0 (unat ?g))) < ?g"
      if t: "?t = 0"
    proof -
      obtain rs where rs: "pps_run_length pps = Some rs" "length rs = unat ?g" "\<forall>r \<in> set rs. r \<noteq> 0"
        using shape g1 t by (auto simp: pps_shape_def pps_no_wrap_def Let_def)
      then have "unat (rs ! 0) \<noteq> 0" using ug by (metis nth_mem unat_eq_zero less_trans zero_less_one)
      then have "run_pattern rs 0 (unat ?g) \<noteq> []" using ug by (intro run_pattern_nonempty) auto
      then have "run_pattern rs 0 (unat ?g) ! (k mod length (run_pattern rs 0 (unat ?g))) \<in> set (run_pattern rs 0 (unat ?g))"
        by (intro nth_mem) simp
      then show ?thesis using run_pattern_less rs(1) of_nat_less_groups by fastforce
    qed
    have t1: "of_nat ((k mod unat w + k div unat w * unat ?g div 2) mod unat ?g) < ?g"
      by (rule of_nat_less_groups) (use ug in simp)
    have t2: "(case first_rectangle tls brs (unat w) (unat ?g - 1) k of Some g \<Rightarrow> of_nat g | None \<Rightarrow> ?g - 1) < ?g" for tls brs
    proof (cases "first_rectangle tls brs (unat w) (unat ?g - 1) k")
      case None
      have "?g \<noteq> 0" using ug by auto
      then show ?thesis using None ug by (simp add: word_less_nat_alt unat_minus_1)
    next
      case (Some g)
      then have "g < unat ?g" by (auto simp: first_rectangle_def find_Some_iff)
      then show ?thesis using Some of_nat_less_groups by simp
    qed
    have t6: "the (pps_slice_group_id pps) ! k < ?g" if t: "?t = 6"
    proof -
      obtain ids where ids: "pps_slice_group_id pps = Some ids" "length ids = unat (pps_pic_size_in_map_units pps)" "\<forall>g \<in> set ids. g < ?g"
        using shape(1) g1 t by (auto simp: pps_shape_def Let_def)
      have "unat w * unat h < 2 ^ 31" using rr by auto
      note p = unat_mult_small[OF this]
      have "\<not> pps_pic_size_in_map_units pps < w * h"
        using rr g1 t by (auto simp: CheckPps_def Let_def split: if_splits)
      then have "k < length ids" using ids(2) assms(2) p by (simp add: word_less_nat_alt)
      then show ?thesis using ids by simp
    qed
    have "?t \<le> 6" using shape(1) by (simp add: pps_shape_def Let_def)
    then have "unat ?t \<le> 6" by (simp add: word_le_nat_alt)
    then consider "?t = 0" | "?t = 1" | "?t = 2" | "?t = 3" | "?t = 4" | "?t = 5" | "?t = 6"
      by (simp add: word_unat_eq_iff) linarith
    then show ?thesis using t0 t1 t2 t6 fg ug assms(3) False
      by cases (simp_all add: slice_group_of_def Let_def)
  qed
qed

subsection \<open>Runs of length zero\<close>

lemma interleaved_groups_zero:
  "g + n \<le> length rs \<Longrightarrow> \<forall>r \<in> set rs. r = 0 \<Longrightarrow> i < p \<Longrightarrow> p < 2 ^ 32 \<Longrightarrow> interleaved_groups rs p g n i m = Some (i, m)"
proof (induction n arbitrary: g)
  case (Suc n)
  then have "array_read rs g = Some 0" by (auto simp: array_read_def)
  then show ?case using Suc by simp
qed simp

lemma interleaved_loop_zero:
  assumes "n \<le> length rs" "\<forall>r \<in> set rs. r = 0" "i < p" "p < 2 ^ 32"
  shows "interleaved_loop rs p n i m = None"
proof -
  have "\<not> (n \<le> length rs \<and> (\<forall>r \<in> set rs. r = 0) \<and> i < p \<and> p < 2 ^ 32)" if "interleaved_loop rs p n i m = Some m'" for m'
    using that
  proof (induction rule: interleaved_loop.raw_induct[rotated, consumes 1, case_names step])
    case (step f rs p n i m m')
    show ?case
    proof
      assume z: "n \<le> length rs \<and> (\<forall>r \<in> set rs. r = 0) \<and> i < p \<and> p < 2 ^ 32"
      then have "interleaved_groups rs p 0 n i m = Some (i, m)" by (intro interleaved_groups_zero) auto
      then have "f rs p n i m = Some m'" using step(2) z by simp
      then show False using step(1) z by blast
    qed
  qed
  then show ?thesis using assms by (cases "interleaved_loop rs p n i m") auto
qed

lemma zero_runs_hang:
  assumes "pps_slice_group_map_type pps = 0" "pps_run_length pps = Some rs" "length rs = unat (pps_num_slice_groups pps)"
    and "\<forall>r \<in> set rs. r = 0" "pps_num_slice_groups pps \<noteq> 1" "w * h \<noteq> 0"
  shows "h264bsdDecodeSliceGroupMap m pps cycle w h = None"
proof -
  have "w \<noteq> 0" "h \<noteq> 0" "0 < unat (w * h)" using assms(6) by (auto simp: unat_gt_0)
  moreover have "unat (w * h) < 2 ^ 32" by (rule order.strict_trans2[OF unsigned_less]) simp
  ultimately show ?thesis using assms
    by (auto simp: h264bsdDecodeSliceGroupMap_def DecodeInterleavedMap_def Let_def intro!: interleaved_loop_zero)
qed

subsection \<open>Examples\<close>

definition demo_map_pps :: "32 word \<Rightarrow> pic_param_set" where
  "demo_map_pps type = \<lparr>pps_pic_parameter_set_id = 0, pps_seq_parameter_set_id = 0, pps_pic_order_present_flag = 0,
     pps_num_slice_groups = 2, pps_slice_group_map_type = type, pps_run_length = Some [3, 1], pps_top_left = None,
     pps_bottom_right = None, pps_slice_group_change_direction_flag = 0, pps_slice_group_change_rate = 5,
     pps_pic_size_in_map_units = 0, pps_slice_group_id = None, pps_num_ref_idx_l0_active = 1,
     pps_num_ref_idx_l1_active = 1, pps_pic_init_qp = 26, pps_chroma_qp_index_offset = 0,
     pps_chroma_qp_index_offset2 = 0, pps_deblocking_filter_control_present_flag = 0,
     pps_constrained_intra_pred_flag = 0, pps_redundant_pic_cnt_present_flag = 0, pps_entropy_coding_mode_flag = 0,
     pps_weighted_pred_flag = 0, pps_weighted_bi_pred_idc = 0, pps_transform8x8_flag = 0,
     pps_scaling_matrix_present_flag = 0, pps_scaling_list_present = [], pps_use_default_scaling = [],
     pps_scaling_list = []\<rparr>"

lemma demo_runs: "check_runs [3, 1] 16 0 (Suc (Suc 0)) = Some True"
  by (simp add: array_read_def)

lemma demo_map_ready: "type = 0 \<or> type = 3 \<Longrightarrow> map_ready (demo_map_pps type) (plain_sps 0) 4 4 (replicate 16 0)"
  by (auto simp: map_ready_def demo_map_pps_def plain_sps_def pps_shape_def pps_no_wrap_def CheckPps_def Let_def
      MAX_NUM_SLICE_GROUPS_def demo_runs[folded numeral_2_eq_2])

subsection \<open>Properties\<close>

text \<open>
  C25: for every picture parameter set that the parser and CheckPps have accepted, with no code number
  wrapped around, h264bsdDecodeSliceGroupMap is total: it stays inside the map, its loops end, and it
  gives every macroblock the number of one of the picture's slice groups.
\<close>

theorem slice_group_map_type:
  assumes "map_ready pps sps w h m"
  shows "\<exists>m'. h264bsdDecodeSliceGroupMap m pps cycle w h = Some m' \<and> length m' = length m
    \<and> (\<forall>k < unat w * unat h. m' ! k < pps_num_slice_groups pps)"
proof (cases "pps_num_slice_groups pps = 1 \<or> pps_slice_group_map_type pps \<noteq> 3")
  case True
  then show ?thesis using decode_map[OF assms True, of cycle] slice_group_of_less[OF assms _ True] by auto
next
  case False
  then have "pps_num_slice_groups pps \<noteq> 1" by simp
  then have "1 < pps_num_slice_groups pps"
    using assms by (auto simp: map_ready_def pps_no_wrap_def word_less_nat_alt word_unat_eq_iff)
  then have lt: "v < pps_num_slice_groups pps" if "v = 0 \<or> v = 1" for v using that by (auto simp: word_less_nat_alt)
  obtain m' where "h264bsdDecodeSliceGroupMap m pps cycle w h = Some m'" "length m' = length m"
      "\<forall>k < unat w * unat h. m' ! k = 0 \<or> m' ! k = 1"
    using decode_box_out[OF assms, of cycle] False by auto
  then show ?thesis using lt by blast
qed

theorem slice_group_map_type_witness:
  "\<exists>m'. h264bsdDecodeSliceGroupMap (replicate 16 0) (demo_map_pps 0) 1 4 4 = Some m' \<and> length m' = 16
    \<and> (\<forall>k < 16. m' ! k < 2)"
  using slice_group_map_type[OF demo_map_ready[of 0], of 1] by (simp add: demo_map_pps_def)

text \<open>
  C22: h264bsdDecodeSliceGroupMap computes the formulas of section 8.2.2 of the standard: for the types
  other than box-out the map is the slice group of each macroblock in closed form, and for box-out the
  walk leaves exactly mapUnitsInSliceGroup0 macroblocks in group 0 and the others in group 1.
\<close>

theorem slice_group_map_standard:
  assumes "map_ready pps sps w h m" "unat cycle * unat (pps_slice_group_change_rate pps) < 2 ^ 32"
  defines "units \<equiv> min (unat cycle * unat (pps_slice_group_change_rate pps)) (unat w * unat h)"
  shows "\<exists>m'. h264bsdDecodeSliceGroupMap m pps cycle w h = Some m'
    \<and> (if pps_num_slice_groups pps = 1 \<or> pps_slice_group_map_type pps \<noteq> 3
       then \<forall>k < unat w * unat h. m' ! k = slice_group_of pps units (unat w) (unat h) k
       else (\<forall>k < unat w * unat h. m' ! k = 0 \<or> m' ! k = 1) \<and> card {k. k < unat w * unat h \<and> m' ! k = 0} = units)"
proof -
  have u: "units_in_group0 pps cycle w h = units"
    using assms(2) by (simp add: units_in_group0_def units_def unat_word_ariths)
  show ?thesis
  proof (cases "pps_num_slice_groups pps = 1 \<or> pps_slice_group_map_type pps \<noteq> 3")
    case True
    then show ?thesis using decode_map[OF assms(1) True, of cycle] u by auto
  next
    case False
    then show ?thesis using decode_box_out[OF assms(1), of cycle] u by auto
  qed
qed

theorem slice_group_map_standard_witness:
  "\<exists>m'. h264bsdDecodeSliceGroupMap (replicate 16 0) (demo_map_pps 3) 2 4 4 = Some m'
    \<and> (\<forall>k < 16. m' ! k = 0 \<or> m' ! k = 1) \<and> card {k. k < 16 \<and> m' ! k = 0} = 10"
  using slice_group_map_standard[OF demo_map_ready[of 3], of 2] by (simp add: demo_map_pps_def)

end
