(* ===== verification/H264Pps.thy ===== *)
theory H264Pps
  imports H264Reader H264SliceGroupMap
begin

text \<open>
  Scaling lists (ScalingList and FallbackScaling of h264hwd\_seq\_param\_set.c) and the parser of picture
  parameter sets, h264hwd\_pic\_param\_set.c.

  alloc i says whether the i-th memory allocation of a call succeeds. delta i is what the uninitialised
  variable delta of ScalingList holds when the list with index i is read; it is used when a code is bad.
\<close>

subsection \<open>Scaling lists\<close>

definition default4x4_intra :: "8 word list" where
  "default4x4_intra = [6,13,13,20,20,20,28,28,28,28,32,32,32,37,37,42]"

definition default4x4_inter :: "8 word list" where
  "default4x4_inter = [10,14,14,20,20,20,24,24,24,24,27,27,27,30,30,34]"

definition default8x8_intra :: "8 word list" where
  "default8x8_intra = [
     6,10,10,13,11,13,16,16,16,16,18,18,18,18,18,23,
     23,23,23,23,23,25,25,25,25,25,25,25,27,27,27,27,
     27,27,27,27,29,29,29,29,29,29,29,31,31,31,31,31,
     31,33,33,33,33,33,36,36,36,36,38,38,38,40,40,42]"

definition default8x8_inter :: "8 word list" where
  "default8x8_inter = [
     9,13,13,15,13,15,17,17,17,17,19,19,19,19,19,21,
     21,21,21,21,21,22,22,22,22,22,22,22,24,24,24,24,
     24,24,24,24,25,25,25,25,25,25,25,27,27,27,27,27,
     27,28,28,28,28,28,30,30,30,30,32,32,32,33,33,35]"

definition zig_zag4x4 :: "nat list" where
  "zig_zag4x4 = [0, 1, 4, 8, 5, 2, 3, 6, 9, 12, 13, 10, 7, 11, 14, 15]"

definition zig_zag8x8 :: "nat list" where
  "zig_zag8x8 = [
     0,  1,  8, 16,  9,  2,  3, 10, 17, 24, 32, 25, 18, 11,  4,  5,
     12, 19, 26, 33, 40, 48, 41, 34, 27, 20, 13,  6,  7, 14, 21, 28,
     35, 42, 49, 56, 57, 50, 43, 36, 29, 22, 15, 23, 30, 37, 44, 51,
     58, 59, 52, 45, 38, 31, 39, 46, 53, 60, 61, 54, 47, 55, 62, 63]"

text \<open>list[zz[i]] = d[i], for every i\<close>

fun spread :: "nat list \<Rightarrow> 8 word list \<Rightarrow> 8 word list \<Rightarrow> 8 word list option" where
  "spread (z # zz) (d # ds) row = Option.bind (array_write row z d) (spread zz ds)"
| "spread zz ds row = Some row"

text \<open>The loop over the coefficients zz; the Boolean says whether the default list is to be used.\<close>

fun scaling_loop ::
  "nat list \<Rightarrow> bool \<Rightarrow> 32 word \<Rightarrow> 32 word \<Rightarrow> 32 word \<Rightarrow> 8 word list \<Rightarrow> strm_data \<Rightarrow> (bool \<times> 8 word list \<times> strm_data) option" where
  "scaling_loop [] first last_scale next_scale delta row s = Some (False, row, s)"
| "scaling_loop (z # zz) first last_scale next_scale delta row s = do {
     (next_scale, delta, s) \<leftarrow>
       (if next_scale \<noteq> 0 then do {
          (status, delta, s) \<leftarrow> h264bsdDecodeExpGolombSigned s delta;
          Some ((last_scale + delta + 256) AND 0xFF, delta, s)
        } else Some (next_scale, delta, s));
     if first \<and> next_scale = 0 then Some (True, row, s)
     else do {
       let v = (if next_scale \<noteq> 0 then ucast next_scale else ucast last_scale);
       row \<leftarrow> array_write row z v;
       scaling_loop zz False (ucast v) next_scale delta row s
     }
   }"

definition default_list :: "nat \<Rightarrow> 8 word list" where
  "default_list idx = (if idx < 3 then default4x4_intra else if idx < 6 then default4x4_inter
     else if idx = 6 then default8x8_intra else default8x8_inter)"

definition ScalingList :: "8 word list list \<Rightarrow> strm_data \<Rightarrow> nat \<Rightarrow> 32 word \<Rightarrow> (8 word list list \<times> strm_data) option" where
  "ScalingList ls s idx delta = do {
     row \<leftarrow> array_read ls idx;
     let zig_zag = (if idx < 6 then zig_zag4x4 else zig_zag8x8);
     (use_default, row, s) \<leftarrow> scaling_loop zig_zag True 8 8 delta row s;
     row \<leftarrow> (if use_default then spread zig_zag (default_list idx) row else Some row);
     Some (ls[idx := row], s)
   }"

definition FallbackScaling :: "8 word list list \<Rightarrow> nat \<Rightarrow> 8 word list list option" where
  "FallbackScaling ls idx =
     (if \<not> idx < 8 then None
      else do {
        row \<leftarrow> array_read ls idx;
        row \<leftarrow> (if idx = 0 then spread zig_zag4x4 default4x4_intra row
                else if idx = 3 then spread zig_zag4x4 default4x4_inter row
                else if idx = 6 then spread zig_zag8x8 default8x8_intra row
                else if idx = 7 then spread zig_zag8x8 default8x8_inter row
                else do {
                  prev \<leftarrow> array_read ls (idx - 1);
                  if length prev < 16 \<or> length row < 16 then None else Some (take 16 prev @ drop 16 row)
                });
        Some (ls[idx := row])
      })"

text \<open>The loop over the lists i to i + n - 1 in both parsers; present is scaling\_list\_present.\<close>

fun read_scaling_lists ::
  "(nat \<Rightarrow> 32 word) \<Rightarrow> nat \<Rightarrow> nat \<Rightarrow> 32 word list \<Rightarrow> 8 word list list
    \<Rightarrow> (32 word list \<Rightarrow> 8 word list list \<Rightarrow> strm_data \<Rightarrow> 'r option) \<Rightarrow> strm_data \<Rightarrow> 'r option" where
  "read_scaling_lists delta i 0 present ls k s = k present ls s"
| "read_scaling_lists delta i (Suc n) present ls k s =
     read_any 1 (\<lambda>tmp s. do {
       present \<leftarrow> array_write present i tmp;
       if tmp \<noteq> 0 then do {
         (ls, s) \<leftarrow> ScalingList ls s i (delta i);
         read_scaling_lists delta (Suc i) n present ls k s
       }
       else do {
         ls \<leftarrow> FallbackScaling ls i;
         read_scaling_lists delta (Suc i) n present ls k s
       }
     }) s"

subsection \<open>h264bsdDecodePicParamSet\<close>

definition MAX_NUM_SEQ_PARAM_SETS :: "32 word" where "MAX_NUM_SEQ_PARAM_SETS = 32"
definition MAX_NUM_PIC_PARAM_SETS :: "32 word" where "MAX_NUM_PIC_PARAM_SETS = 256"

definition CeilLog2NumSliceGroups :: "nat list" where
  "CeilLog2NumSliceGroups = [1, 1, 2, 2, 3, 3, 3, 3]"

text \<open>After DWLmemset\<close>

definition zero_pps :: pic_param_set where
  "zero_pps = \<lparr>pps_pic_parameter_set_id = 0, pps_seq_parameter_set_id = 0, pps_pic_order_present_flag = 0,
     pps_num_slice_groups = 0, pps_slice_group_map_type = 0, pps_run_length = None, pps_top_left = None,
     pps_bottom_right = None, pps_slice_group_change_direction_flag = 0, pps_slice_group_change_rate = 0,
     pps_pic_size_in_map_units = 0, pps_slice_group_id = None, pps_num_ref_idx_l0_active = 0,
     pps_num_ref_idx_l1_active = 0, pps_pic_init_qp = 0, pps_chroma_qp_index_offset = 0,
     pps_chroma_qp_index_offset2 = 0, pps_deblocking_filter_control_present_flag = 0,
     pps_constrained_intra_pred_flag = 0, pps_redundant_pic_cnt_present_flag = 0, pps_entropy_coding_mode_flag = 0,
     pps_weighted_pred_flag = 0, pps_weighted_bi_pred_idc = 0, pps_transform8x8_flag = 0,
     pps_scaling_matrix_present_flag = 0, pps_scaling_list_present = replicate 8 0,
     pps_use_default_scaling = replicate 8 0, pps_scaling_list = replicate 8 (replicate 64 0)\<rparr>"

type_synonym pps_result = "(32 word + pic_param_set \<times> strm_data) option"
type_synonym pps_step = "pic_param_set \<Rightarrow> (pic_param_set \<Rightarrow> strm_data \<Rightarrow> (32 word + pic_param_set \<times> strm_data) option)
  \<Rightarrow> strm_data \<Rightarrow> (32 word + pic_param_set \<times> strm_data) option"

definition pps_head :: pps_step where
  "pps_head p k =
     read_ue 0 failed_ue (\<lambda>v. let p = p\<lparr>pps_pic_parameter_set_id := v\<rparr> in
     if v \<ge> MAX_NUM_PIC_PARAM_SETS then failed HANTRO_NOK
     else read_ue 0 failed_ue (\<lambda>v. let p = p\<lparr>pps_seq_parameter_set_id := v\<rparr> in
     if v \<ge> MAX_NUM_SEQ_PARAM_SETS then failed HANTRO_NOK
     else read_u 1 (failed HANTRO_NOK) (\<lambda>tmp. let p = p\<lparr>pps_entropy_coding_mode_flag := tmp\<rparr> in
     read_flag (failed HANTRO_NOK) (\<lambda>f. k (p\<lparr>pps_pic_order_present_flag := f\<rparr>)))))"

text \<open>The loops that read the rectangles of type 2 and the slice group ids of type 6\<close>

fun read_rectangles ::
  "nat \<Rightarrow> 32 word list \<Rightarrow> 32 word list \<Rightarrow> (32 word list \<Rightarrow> 32 word list \<Rightarrow> strm_data \<Rightarrow> pps_result) \<Rightarrow> strm_data \<Rightarrow> pps_result" where
  "read_rectangles 0 tls brs k s = k tls brs s"
| "read_rectangles (Suc n) tls brs k s =
     read_ue 0 failed_ue (\<lambda>v. read_ue 0 failed_ue (\<lambda>v'. read_rectangles n (tls @ [v]) (brs @ [v']) k)) s"

fun read_group_ids ::
  "nat \<Rightarrow> 32 word \<Rightarrow> nat \<Rightarrow> 32 word list \<Rightarrow> (32 word list \<Rightarrow> strm_data \<Rightarrow> pps_result) \<Rightarrow> strm_data \<Rightarrow> pps_result" where
  "read_group_ids bits groups 0 ids k s = k ids s"
| "read_group_ids bits groups (Suc n) ids k s =
     read_any bits (\<lambda>g. if g \<ge> groups then failed HANTRO_NOK else read_group_ids bits groups n (ids @ [g]) k) s"

definition pps_slice_groups :: "(nat \<Rightarrow> bool) \<Rightarrow> pps_step" where
  "pps_slice_groups alloc p k =
     read_ue 0 failed_ue (\<lambda>v. let groups = v + 1; p = p\<lparr>pps_num_slice_groups := groups\<rparr> in
     if unat groups > MAX_NUM_SLICE_GROUPS then failed HANTRO_NOK
     else if groups > 1 then
       read_ue 0 failed_ue (\<lambda>type. let p = p\<lparr>pps_slice_group_map_type := type\<rparr> in
       if type > 6 then failed HANTRO_NOK
       else if type = 0 then
         (if \<not> alloc 0 then failed MEMORY_ALLOCATION_ERROR
          else read_ues (unat groups) failed_ue []
            (\<lambda>vs. k (p\<lparr>pps_run_length := Some (map (\<lambda>v. v + 1) vs)\<rparr>)))
       else if type = 2 then
         (if \<not> alloc 0 \<or> \<not> alloc 1 then failed MEMORY_ALLOCATION_ERROR
          else read_rectangles (unat (groups - 1)) [] []
            (\<lambda>tls brs. k (p\<lparr>pps_top_left := Some tls, pps_bottom_right := Some brs\<rparr>)))
       else if type = 3 \<or> type = 4 \<or> type = 5 then
         read_flag (failed HANTRO_NOK) (\<lambda>f. read_ue 0 failed_ue (\<lambda>v.
           k (p\<lparr>pps_slice_group_change_direction_flag := f, pps_slice_group_change_rate := v + 1\<rparr>)))
       else if type = 6 then
         read_ue 0 failed_ue (\<lambda>v. let size = v + 1; p = p\<lparr>pps_pic_size_in_map_units := size\<rparr> in
         if size > 65536 then failed HANTRO_NOK
         else if \<not> alloc 0 then failed MEMORY_ALLOCATION_ERROR
         else read_group_ids (CeilLog2NumSliceGroups ! unat (groups - 1)) groups (unat size) []
           (\<lambda>ids. k (p\<lparr>pps_slice_group_id := Some ids\<rparr>)))
       else k p)
     else k p)"

definition pps_references :: pps_step where
  "pps_references p k =
     read_ue 0 failed_ue (\<lambda>v. if v > 31 then failed HANTRO_NOK
     else let p = p\<lparr>pps_num_ref_idx_l0_active := v + 1\<rparr> in
     read_ue 0 failed_ue (\<lambda>v. if v > 31 then failed HANTRO_NOK
     else let p = p\<lparr>pps_num_ref_idx_l1_active := v + 1\<rparr> in
     read_u 1 (failed HANTRO_NOK) (\<lambda>tmp. let p = p\<lparr>pps_weighted_pred_flag := tmp\<rparr> in
     read_any 2 (\<lambda>tmp. if tmp > 2 then failed HANTRO_NOK
     else k (p\<lparr>pps_weighted_bi_pred_idc := tmp\<rparr>)))))"

definition pps_quantisation :: pps_step where
  "pps_quantisation p k =
     read_se failed_ue (\<lambda>itmp. if itmp < -38 \<or> itmp > 25 then failed HANTRO_NOK
     else let p = p\<lparr>pps_pic_init_qp := word_of_int (itmp + 26)\<rparr> in
     read_se failed_ue (\<lambda>itmp. if itmp < -26 \<or> itmp > 25 then failed HANTRO_NOK
     else read_se failed_ue (\<lambda>itmp. if itmp < -12 \<or> itmp > 12 then failed HANTRO_NOK
     else let p = p\<lparr>pps_chroma_qp_index_offset := itmp\<rparr> in
     read_flag (failed HANTRO_NOK) (\<lambda>f. let p = p\<lparr>pps_deblocking_filter_control_present_flag := f\<rparr> in
     read_flag (failed HANTRO_NOK) (\<lambda>f. let p = p\<lparr>pps_constrained_intra_pred_flag := f\<rparr> in
     read_flag (failed HANTRO_NOK) (\<lambda>f. k (p\<lparr>pps_redundant_pic_cnt_present_flag := f\<rparr>)))))))"

text \<open>The part behind h264bsdMoreRbspData\<close>

definition pps_second_offset :: pps_step where
  "pps_second_offset p k =
     read_se failed_ue (\<lambda>itmp. if itmp < -12 \<or> itmp > 12 then failed HANTRO_NOK
     else k (p\<lparr>pps_chroma_qp_index_offset2 := itmp\<rparr>))"

definition pps_extension :: "(nat \<Rightarrow> 32 word) \<Rightarrow> pps_step" where
  "pps_extension delta p k =
     read_u 1 (failed HANTRO_NOK) (\<lambda>t8x8. let p = p\<lparr>pps_transform8x8_flag := t8x8\<rparr> in
     read_u 1 (failed HANTRO_NOK) (\<lambda>tmp. let p = p\<lparr>pps_scaling_matrix_present_flag := tmp\<rparr> in
     if tmp \<noteq> 0 then
       read_scaling_lists delta 0 (unat (6 + 2 * t8x8)) (pps_scaling_list_present p) (pps_scaling_list p)
         (\<lambda>present ls. pps_second_offset (p\<lparr>pps_scaling_list_present := present, pps_scaling_list := ls\<rparr>) k)
     else pps_second_offset p k))"

definition pps_tail :: "(nat \<Rightarrow> 32 word) \<Rightarrow> pps_step" where
  "pps_tail delta p k s = do {
     more \<leftarrow> h264bsdMoreRbspData s;
     if more then pps_extension delta p k s
     else k (p\<lparr>pps_scaling_matrix_present_flag := 0, pps_transform8x8_flag := 0,
               pps_chroma_qp_index_offset2 := pps_chroma_qp_index_offset p\<rparr>) s
   }"

definition h264bsdDecodePicParamSet :: "(nat \<Rightarrow> bool) \<Rightarrow> (nat \<Rightarrow> 32 word) \<Rightarrow> strm_data \<Rightarrow> pps_result" where
  "h264bsdDecodePicParamSet alloc delta =
     pps_head zero_pps (\<lambda>p. pps_slice_groups alloc p (\<lambda>p. pps_references p (\<lambda>p. pps_quantisation p
       (\<lambda>p. pps_tail delta p (\<lambda>p s. do {
         (tmp, s) \<leftarrow> h264bsdRbspTrailingBits s;
         Some (Inr (p, s))
       })))))"


subsection \<open>Every stream is parsed\<close>

text \<open>Eight lists of 64 entries\<close>

definition lists_ok :: "8 word list list \<Rightarrow> bool" where
  "lists_ok ls = (length ls = 8 \<and> (\<forall>row \<in> set ls. length row = 64))"

lemma zig_zag_bounds: "\<forall>z \<in> set zig_zag4x4. z < 64" "\<forall>z \<in> set zig_zag8x8. z < 64"
  by (simp_all add: zig_zag4x4_def zig_zag8x8_def)

lemma Signed_total:
  assumes "readable s"
  shows "\<exists>st v s'. h264bsdDecodeExpGolombSigned s c = Some (st, v, s') \<and> readable s'"
proof -
  obtain st v s' n where g: "h264bsdDecodeExpGolombUnsigned s 0 = Some (st, v, s')" "advanced s n s'"
    using Unsigned_total[OF assms, of 0] by (auto simp: ends_ok_def)
  then have "readable s'" using assms by (blast intro: readable_advanced)
  then show ?thesis using g(1)
    by (cases "v = BIG_CODE_NUM"; cases "st = HANTRO_OK"; simp add: h264bsdDecodeExpGolombSigned_def)
qed

lemma spread_total: "\<forall>z \<in> set zz. z < length row \<Longrightarrow> \<exists>row'. spread zz ds row = Some row' \<and> length row' = length row"
  by (induction zz ds row rule: spread.induct) (auto simp: array_write_def)

lemma scaling_loop_total:
  "readable s \<Longrightarrow> \<forall>z \<in> set zz. z < length row \<Longrightarrow>
   \<exists>d row' s'. scaling_loop zz first ls ns delta row s = Some (d, row', s') \<and> length row' = length row \<and> readable s'"
proof (induction zz arbitrary: first ls ns delta row s)
  case (Cons z zz)
  obtain ns1 d1 s1 where r: "(if ns \<noteq> 0 then do {
          (status, delta, s) \<leftarrow> h264bsdDecodeExpGolombSigned s delta;
          Some ((ls + delta + 256) AND 0xFF, delta, s)
        } else Some (ns, delta, s)) = Some (ns1, d1, s1)" "readable s1"
  proof (cases "ns = 0")
    case True
    then show ?thesis using that Cons.prems(1) by simp
  next
    case False
    obtain st v s' where "h264bsdDecodeExpGolombSigned s delta = Some (st, v, s')" "readable s'"
      using Signed_total[OF Cons.prems(1), of delta] by blast
    then show ?thesis using that False by simp
  qed
  show ?case
  proof (cases "first \<and> ns1 = 0")
    case True
    then show ?thesis using r Cons.prems by auto
  next
    case False
    let ?v = "if ns1 \<noteq> 0 then ucast ns1 else ucast ls :: 8 word"
    have z: "z < length row" using Cons.prems(2) by simp
    have "\<exists>d row' s'. scaling_loop zz False (ucast ?v) ns1 d1 (row[z := ?v]) s1 = Some (d, row', s')
        \<and> length row' = length (row[z := ?v]) \<and> readable s'"
      by (rule Cons.IH[OF r(2)]) (use Cons.prems(2) in simp)
    then obtain d row' s' where "scaling_loop zz False (ucast ?v) ns1 d1 (row[z := ?v]) s1 = Some (d, row', s')"
        "length row' = length row" "readable s'" by auto
    then show ?thesis using r(1) False z by (auto simp: array_write_def Let_def)
  qed
qed auto

lemma lists_ok_row: "lists_ok ls \<Longrightarrow> i < 8 \<Longrightarrow> array_read ls i = Some (ls ! i) \<and> length (ls ! i) = 64"
  by (simp add: lists_ok_def array_read_def)

lemma lists_ok_update: "lists_ok ls \<Longrightarrow> length row = 64 \<Longrightarrow> lists_ok (ls[i := row])"
  unfolding lists_ok_def by (metis length_list_update insert_iff set_update_subset_insert subsetD)

lemma ScalingList_total:
  assumes "readable s" "lists_ok ls" "i < 8"
  shows "\<exists>ls' s'. ScalingList ls s i delta = Some (ls', s') \<and> lists_ok ls' \<and> readable s'"
proof -
  let ?zz = "if i < 6 then zig_zag4x4 else zig_zag8x8"
  note row = lists_ok_row[OF assms(2,3)]
  have zz: "\<forall>z \<in> set ?zz. z < length (ls ! i)" using row zig_zag_bounds by simp
  obtain d row' s' where l: "scaling_loop ?zz True 8 8 delta (ls ! i) s = Some (d, row', s')"
      "length row' = length (ls ! i)" "readable s'"
    using scaling_loop_total[OF assms(1) zz] by blast
  obtain row'' where "spread ?zz (default_list i) row' = Some row''" "length row'' = length row'"
    using spread_total[of ?zz row' "default_list i"] zz l(2) by auto
  then show ?thesis using row l lists_ok_update[OF assms(2)] by (cases d) (simp_all add: ScalingList_def Let_def)
qed

lemma FallbackScaling_total:
  assumes "lists_ok ls" "i < 8"
  shows "\<exists>ls'. FallbackScaling ls i = Some ls' \<and> lists_ok ls'"
proof -
  note row = lists_ok_row[OF assms]
  have sp: "\<exists>row'. spread zz ds (ls ! i) = Some row' \<and> length row' = 64"
    if "zz = zig_zag4x4 \<or> zz = zig_zag8x8" for zz ds
    using spread_total[of zz "ls ! i" ds] that row zig_zag_bounds by auto
  have prev: "array_read ls (i - 1) = Some (ls ! (i - 1))" "length (ls ! (i - 1)) = 64"
    using lists_ok_row[OF assms(1), of "i - 1"] assms(2) by auto
  have "\<exists>row'. (if i = 0 then spread zig_zag4x4 default4x4_intra (ls ! i)
                else if i = 3 then spread zig_zag4x4 default4x4_inter (ls ! i)
                else if i = 6 then spread zig_zag8x8 default8x8_intra (ls ! i)
                else if i = 7 then spread zig_zag8x8 default8x8_inter (ls ! i)
                else do {
                  prev \<leftarrow> array_read ls (i - 1);
                  if length prev < 16 \<or> length (ls ! i) < 16 then None else Some (take 16 prev @ drop 16 (ls ! i))
                }) = Some row' \<and> length row' = 64"
    using sp prev row assms(2) by auto
  then show ?thesis using row prev assms(2) lists_ok_update[OF assms(1)] by (auto simp: FallbackScaling_def)
qed

lemma returns_scaling_lists:
  assumes "readable s" "lists_ok ls" "length present = 8" "i + n \<le> 8"
    and "\<And>present ls s. readable s \<Longrightarrow> lists_ok ls \<Longrightarrow> length present = 8 \<Longrightarrow> returns Q (k present ls s)"
  shows "returns Q (read_scaling_lists delta i n present ls k s)"
  using assms(1-4)
proof (induction n arbitrary: i present ls s)
  case 0
  then show ?case using assms(5) by simp
next
  case (Suc n)
  have i: "i < 8" using Suc.prems by simp
  show ?case unfolding read_scaling_lists.simps
  proof (rule returns_any[OF Suc.prems(1)])
    fix v s' assume r: "readable s'"
    obtain ls1 s1 where "ScalingList ls s' i (delta i) = Some (ls1, s1)" "lists_ok ls1" "readable s1"
      using ScalingList_total[OF r Suc.prems(2) i] by blast
    moreover obtain ls2 where "FallbackScaling ls i = Some ls2" "lists_ok ls2"
      using FallbackScaling_total[OF Suc.prems(2) i] by blast
    ultimately show "returns Q (do {
       present \<leftarrow> array_write present i v;
       if v \<noteq> 0 then do {
         (ls, s) \<leftarrow> ScalingList ls s' i (delta i);
         read_scaling_lists delta (Suc i) n present ls k s
       }
       else do {
         ls \<leftarrow> FallbackScaling ls i;
         read_scaling_lists delta (Suc i) n present ls k s'
       }
     })"
      using Suc.IH Suc.prems r i by (simp add: array_write_def)
  qed simp_all
qed

subsection \<open>The type of a parsed picture parameter set\<close>

definition bit01 :: "32 word \<Rightarrow> bool" where
  "bit01 v = (v = 0 \<or> v = 1)"

definition pps_wf :: "pic_param_set \<Rightarrow> bool" where
  "pps_wf p = (pps_shape p \<and> unat (pps_pic_parameter_set_id p) < 256 \<and> unat (pps_seq_parameter_set_id p) < 32
     \<and> 1 \<le> unat (pps_num_ref_idx_l0_active p) \<and> unat (pps_num_ref_idx_l0_active p) \<le> 32
     \<and> 1 \<le> unat (pps_num_ref_idx_l1_active p) \<and> unat (pps_num_ref_idx_l1_active p) \<le> 32
     \<and> unat (pps_weighted_bi_pred_idc p) \<le> 2
     \<and> (\<exists>qp. pps_pic_init_qp p = word_of_int qp \<and> -12 \<le> qp \<and> qp \<le> 51)
     \<and> \<bar>pps_chroma_qp_index_offset p\<bar> \<le> 12 \<and> \<bar>pps_chroma_qp_index_offset2 p\<bar> \<le> 12
     \<and> list_all bit01 [pps_entropy_coding_mode_flag p, pps_pic_order_present_flag p, pps_weighted_pred_flag p,
          pps_deblocking_filter_control_present_flag p, pps_constrained_intra_pred_flag p,
          pps_redundant_pic_cnt_present_flag p, pps_transform8x8_flag p, pps_scaling_matrix_present_flag p]
     \<and> length (pps_scaling_list_present p) = 8 \<and> lists_ok (pps_scaling_list p))"

lemma bit01_small: "unat v < 2 \<Longrightarrow> bit01 v"
  by (auto simp: bit01_def word_unat_eq_iff)

lemma bit01_flag: "v = 0 \<or> v = 1 \<Longrightarrow> bit01 v"
  by (simp add: bit01_def)

lemmas pps_bounds = MAX_NUM_PIC_PARAM_SETS_def MAX_NUM_SEQ_PARAM_SETS_def not_le not_less word_less_nat_alt word_le_nat_alt
  bit01_small bit01_flag

text \<open>What the stages have established; each keeps what the ones before it have.\<close>

definition head_ok :: "pic_param_set \<Rightarrow> bool" where
  "head_ok p = (unat (pps_pic_parameter_set_id p) < 256 \<and> unat (pps_seq_parameter_set_id p) < 32
     \<and> bit01 (pps_entropy_coding_mode_flag p) \<and> bit01 (pps_pic_order_present_flag p)
     \<and> length (pps_scaling_list_present p) = 8 \<and> lists_ok (pps_scaling_list p))"

lemma zero_pps_lists: "length (pps_scaling_list_present zero_pps) = 8" "lists_ok (pps_scaling_list zero_pps)"
  by (simp_all add: zero_pps_def lists_ok_def)

lemma returns_head:
  assumes "readable s" "\<And>st. Q (Inl st)"
    and "\<And>p s. readable s \<Longrightarrow> head_ok p \<and> pps_run_length p = None \<and> pps_top_left p = None
      \<and> pps_slice_group_map_type p = 0 \<and> pps_slice_group_change_direction_flag p = 0 \<Longrightarrow> returns Q (k p s)"
  shows "returns Q (pps_head zero_pps k s)"
  unfolding pps_head_def Let_def
  by (intro step_intros assms) (auto simp: head_ok_def zero_pps_lists pps_bounds, auto simp: zero_pps_def)

lemma returns_groups:
  assumes "readable s" "\<And>st. Q (Inl st)"
    and p: "head_ok p" "pps_run_length p = None" "pps_top_left p = None" "pps_slice_group_map_type p = 0"
      "pps_slice_group_change_direction_flag p = 0"
    and k: "\<And>p s. readable s \<Longrightarrow> head_ok p \<Longrightarrow> pps_shape p \<Longrightarrow> returns Q (k p s)"
  shows "returns Q (pps_slice_groups alloc p k s)"
proof -
  have rect: "returns Q (read_rectangles n tls brs k' s)"
    if "readable s" "\<And>tls' brs' s'. readable s' \<Longrightarrow> length tls' = length tls + n \<Longrightarrow> length brs' = length brs + n \<Longrightarrow> returns Q (k' tls' brs' s')"
    for n tls brs k' s
    using that
  proof (induction n arbitrary: tls brs s)
    case (Suc n)
    then show ?case unfolding read_rectangles.simps by (intro step_intros assms(2) Suc.IH) auto
  qed simp
  have ids: "returns Q (read_group_ids b groups n is k' s)"
    if "readable s" "0 < b" "b < 32" "\<And>is' s'. readable s' \<Longrightarrow> length is' = length is + n \<Longrightarrow> \<forall>g \<in> set is'. g < groups \<Longrightarrow> returns Q (k' is' s')"
      "\<forall>g \<in> set is. g < groups" for b groups n "is" k' s
    using that
  proof (induction n arbitrary: "is" s)
    case (Suc n)
    then show ?case unfolding read_group_ids.simps by (intro step_intros assms(2) Suc.IH) (auto simp: not_le)
  qed simp
  have ceil: "0 < CeilLog2NumSliceGroups ! n \<and> CeilLog2NumSliceGroups ! n < 32" if "\<not> 7 < n" for n
  proof -
    have "CeilLog2NumSliceGroups ! n \<in> set CeilLog2NumSliceGroups"
      using that by (intro nth_mem) (simp add: CeilLog2NumSliceGroups_def)
    then show ?thesis by (auto simp: CeilLog2NumSliceGroups_def)
  qed
  have succ: "unat (v + 1) = Suc (unat v)" if "1 < v + 1" for v :: "32 word"
    using that unat_minus_1[of "v + 1"] by (cases "v + 1 = 0") (auto simp: word_less_nat_alt)
  have le6: "t \<le> 6" if "\<not> 6 < t" for t :: "32 word" using that by simp
  show ?thesis unfolding pps_slice_groups_def Let_def
    by (intro step_intros returns_ues rect ids assms(2) k assms(1)) (auto simp: MAX_NUM_SLICE_GROUPS_def head_ok_def pps_shape_def Let_def succ ceil p(2-5) p(1)[unfolded head_ok_def])
qed


definition refs_ok :: "pic_param_set \<Rightarrow> bool" where
  "refs_ok p = (head_ok p \<and> pps_shape p
     \<and> 1 \<le> unat (pps_num_ref_idx_l0_active p) \<and> unat (pps_num_ref_idx_l0_active p) \<le> 32
     \<and> 1 \<le> unat (pps_num_ref_idx_l1_active p) \<and> unat (pps_num_ref_idx_l1_active p) \<le> 32
     \<and> bit01 (pps_weighted_pred_flag p) \<and> unat (pps_weighted_bi_pred_idc p) \<le> 2)"

definition quant_ok :: "pic_param_set \<Rightarrow> bool" where
  "quant_ok p = (refs_ok p \<and> (\<exists>qp. pps_pic_init_qp p = word_of_int qp \<and> -12 \<le> qp \<and> qp \<le> 51)
     \<and> \<bar>pps_chroma_qp_index_offset p\<bar> \<le> 12
     \<and> bit01 (pps_deblocking_filter_control_present_flag p) \<and> bit01 (pps_constrained_intra_pred_flag p)
     \<and> bit01 (pps_redundant_pic_cnt_present_flag p))"

lemma ref_count: "\<not> 31 < v \<Longrightarrow> 1 \<le> unat (v + 1 :: 32 word) \<and> unat (v + 1) \<le> 32"
proof -
  assume "\<not> 31 < v"
  then have "unat v \<le> 31" by (simp add: not_less word_le_nat_alt)
  then have "unat (v + 1) = unat v + 1" by (intro unat_plus_1) simp
  then show ?thesis using \<open>unat v \<le> 31\<close> by simp
qed

lemma returns_references:
  assumes "readable s" "\<And>st. Q (Inl st)" "head_ok p" "pps_shape p"
    and "\<And>p s. readable s \<Longrightarrow> refs_ok p \<Longrightarrow> returns Q (k p s)"
  shows "returns Q (pps_references p k s)"
  unfolding pps_references_def Let_def
  by (intro step_intros assms)
    (use assms(3,4) ref_count in \<open>auto simp: refs_ok_def head_ok_def pps_shape_def Let_def bit01_small not_less word_le_nat_alt\<close>)

lemma shape_update [simp]:
  "pps_shape (p\<lparr>pps_pic_init_qp := q\<rparr>) = pps_shape p" "pps_shape (p\<lparr>pps_chroma_qp_index_offset := i\<rparr>) = pps_shape p"
  "pps_shape (p\<lparr>pps_deblocking_filter_control_present_flag := v\<rparr>) = pps_shape p"
  "pps_shape (p\<lparr>pps_constrained_intra_pred_flag := v\<rparr>) = pps_shape p"
  "pps_shape (p\<lparr>pps_redundant_pic_cnt_present_flag := v\<rparr>) = pps_shape p"
  by (simp_all add: pps_shape_def)

lemma returns_quantisation:
  assumes "readable s" "\<And>st. Q (Inl st)" "refs_ok p"
    and "\<And>p s. readable s \<Longrightarrow> quant_ok p \<Longrightarrow> returns Q (k p s)"
  shows "returns Q (pps_quantisation p k s)"
proof -
  have qp: "\<exists>qp. word_of_int (i + 26) = (word_of_int qp :: 32 word) \<and> -12 \<le> qp \<and> qp \<le> 51" if "\<not> (i < -38 \<or> i > 25)" for i
    by (rule exI[of _ "i + 26"]) (use that in auto)
  show ?thesis
    unfolding pps_quantisation_def Let_def
    by (intro step_intros assms) (use assms(3) qp in \<open>auto simp: quant_ok_def refs_ok_def head_ok_def bit01_flag\<close>)
qed

lemma returns_second_offset:
  assumes "readable s" "\<And>st. Q (Inl st)" "quant_ok p" "bit01 (pps_transform8x8_flag p)" "bit01 (pps_scaling_matrix_present_flag p)"
    and "\<And>p s. readable s \<Longrightarrow> pps_wf p \<Longrightarrow> returns Q (k p s)"
  shows "returns Q (pps_second_offset p k s)"
  unfolding pps_second_offset_def
  by (intro step_intros assms)
    (use assms(3-5) in \<open>auto simp: pps_wf_def quant_ok_def refs_ok_def head_ok_def pps_shape_def Let_def\<close>)

lemma returns_tail:
  assumes "readable s" "\<And>st. Q (Inl st)" "quant_ok p" "\<And>p s. readable s \<Longrightarrow> pps_wf p \<Longrightarrow> returns Q (k p s)"
  shows "returns Q (pps_tail delta p k s)"
proof -
  obtain more where m: "h264bsdMoreRbspData s = Some more" using MoreRbspData_total[OF assms(1)] by blast
  show ?thesis
  proof (cases more)
    case True
    have six: "0 + unat (6 + 2 * v) \<le> 8" if "unat v < 2" for v :: "32 word"
    proof -
      have "v = 0 \<or> v = 1" using bit01_small[OF that] by (simp add: bit01_def)
      then show ?thesis by auto
    qed
    have "returns Q (pps_extension delta p k s)"
      unfolding pps_extension_def Let_def
      by (intro step_intros assms(1,2,4) returns_second_offset returns_scaling_lists six)
        (use assms(3) in \<open>auto simp: quant_ok_def refs_ok_def head_ok_def pps_shape_def Let_def bit01_small\<close>)
    then show ?thesis using True m by (simp add: pps_tail_def)
  next
    case False
    have "returns Q (k (p\<lparr>pps_scaling_matrix_present_flag := 0, pps_transform8x8_flag := 0,
               pps_chroma_qp_index_offset2 := pps_chroma_qp_index_offset p\<rparr>) s)"
      by (rule assms(4)[OF assms(1)])
        (use assms(3) in \<open>auto simp: pps_wf_def quant_ok_def refs_ok_def head_ok_def pps_shape_def Let_def bit01_def\<close>)
    then show ?thesis using False m by (simp add: pps_tail_def)
  qed
qed

lemma DecodePicParamSet_returns:
  assumes "readable s"
  shows "returns (\<lambda>r. case r of Inl st \<Rightarrow> True | Inr (p, s') \<Rightarrow> pps_wf p \<and> readable s') (h264bsdDecodePicParamSet alloc delta s)"
  unfolding h264bsdDecodePicParamSet_def
proof (intro returns_head returns_groups returns_references returns_quantisation returns_tail assms)
  fix p s assume "readable s" "pps_wf p"
  then show "returns (\<lambda>r. case r of Inl st \<Rightarrow> True | Inr (p, s') \<Rightarrow> pps_wf p \<and> readable s')
     (do { (tmp, s) \<leftarrow> h264bsdRbspTrailingBits s; Some (Inr (p, s)) })"
    using RbspTrailing_total[of s] by (auto simp: returns_def)
qed auto

end
