(* ===== verification/H264Reading.thy ===== *)
theory H264Reading
  imports H264Pps StreamRoundtrip
begin

text \<open>
  The steps of the parsers on a stream whose next bits are known: each takes its code off the front of
  the rest and goes on with the value.
\<close>

definition reading :: "strm_data \<Rightarrow> bits \<Rightarrow> bool" where
  "reading s bs = (readable s \<and> sd_rest s = bs)"

definition flag_bit :: "bool \<Rightarrow> 32 word" where
  "flag_bit b = (if b then 1 else 0)"

lemma reading_advanced: "reading s (c @ r) \<Longrightarrow> advanced s (length c) s' \<Longrightarrow> reading s' r"
  by (auto simp: reading_def advanced_def readable_def)

lemma Unsigned_reads:
  assumes "reading s (eg_code n @ r)" "n < 2 ^ 32"
  shows "\<exists>s'. h264bsdDecodeExpGolombUnsigned s c = Some (HANTRO_OK, of_nat n, s') \<and> reading s' r"
proof (cases "n + 1 < 2 ^ 32")
  case True
  then show ?thesis using Unsigned_short[of s n r c] assms(1) reading_advanced[OF assms(1)] by (auto simp: reading_def)
next
  case False
  then have n: "n = 2 ^ 32 - 1" using assms(2) by simp
  then have "of_nat n = BIG_CODE_NUM" by (simp add: BIG_CODE_NUM_def)
  then show ?thesis using Unsigned_big[of s n r c] assms(1) reading_advanced[OF assms(1)] n by (auto simp: reading_def)
qed

lemma GetBits_reads:
  assumes "reading s (low_bits n v @ r)" "0 < n" "n < 32" "drop_bit n v = 0"
  shows "\<exists>s'. h264bsdGetBits s n = Some (v, s') \<and> v \<noteq> END_OF_STREAM \<and> reading s' r"
proof -
  have r: "readable s" "sd_rest s = low_bits n v @ r" using assms(1) by (auto simp: reading_def)
  have "readable_element (U v n)" using assms(2-4) by (simp add: readable_element_def element_ok_def)
  from get_element_reads[OF r(1) this] r(2) obtain s' where
    g: "get_element (U v n) s = Some (U v n, s')" "advanced s (length (low_bits n v)) s'"
    by (auto simp: element_bits_def)
  then have "h264bsdGetBits s n = Some (v, s') \<and> v \<noteq> END_OF_STREAM"
    by (auto simp: get_element_def bind_cases split: if_splits)
  then show ?thesis using reading_advanced[OF assms(1) g(2)] by blast
qed

lemma flag_low_bits: "low_bits 1 (flag_bit b) = [b]" "drop_bit 1 (flag_bit b) = 0"
  by (simp_all add: flag_bit_def low_bits_def)

text \<open>The branch that is taken\<close>

lemma skip_if: "\<not> c \<Longrightarrow> returns Q (g s) \<Longrightarrow> returns Q ((if c then f else g) s)"
  by simp

lemma take_if: "c \<Longrightarrow> returns Q (f s) \<Longrightarrow> returns Q ((if c then f else g) s)"
  by simp

lemma of_nat_small: "n < 2 ^ 32 \<Longrightarrow> unat (of_nat n :: 32 word) = n"
  by (simp add: unat_of_nat)

subsection \<open>The rules\<close>

named_theorems reads

lemma reads_u: "reading s (low_bits n v @ r) \<Longrightarrow> 0 < n \<Longrightarrow> n < 32 \<Longrightarrow> drop_bit n v = 0 \<Longrightarrow>
    (\<And>s'. reading s' r \<Longrightarrow> returns Q (k v s')) \<Longrightarrow> returns Q (read_u n e k s)"
  using GetBits_reads[of s n v r] by (auto simp: read_u_def)

lemma reads_any: "reading s (low_bits n v @ r) \<Longrightarrow> 0 < n \<Longrightarrow> n < 32 \<Longrightarrow> drop_bit n v = 0 \<Longrightarrow>
    (\<And>s'. reading s' r \<Longrightarrow> returns Q (k v s')) \<Longrightarrow> returns Q (read_any n k s)"
  using GetBits_reads[of s n v r] by (auto simp: read_any_def)

lemma reads_bit: "reading s (b # r) \<Longrightarrow> (\<And>s'. reading s' r \<Longrightarrow> returns Q (k (flag_bit b) s')) \<Longrightarrow> returns Q (read_u 1 e k s)"
  by (rule reads_u[of s 1 "flag_bit b" r]) (simp_all add: flag_low_bits del: One_nat_def)

lemma reads_any_bit: "reading s (b # r) \<Longrightarrow> (\<And>s'. reading s' r \<Longrightarrow> returns Q (k (flag_bit b) s')) \<Longrightarrow> returns Q (read_any 1 k s)"
  by (rule reads_any[of s 1 "flag_bit b" r]) (simp_all add: flag_low_bits del: One_nat_def)

lemma reads_flag: "reading s (b # r) \<Longrightarrow> (\<And>s'. reading s' r \<Longrightarrow> returns Q (k (flag_bit b) s')) \<Longrightarrow> returns Q (read_flag e k s)"
  unfolding read_flag_def by (rule reads_bit, assumption) (cases b; simp add: flag_bit_def)

lemma reads_ue: "reading s (eg_code n @ r) \<Longrightarrow> n < 2 ^ 32 \<Longrightarrow>
    (\<And>s'. reading s' r \<Longrightarrow> returns Q (k (of_nat n) s')) \<Longrightarrow> returns Q (read_ue c e k s)"
  using Unsigned_reads[of s n r c] by (auto simp: read_ue_def)

lemma reads_se: "reading s (eg_code (se_code_num v) @ r) \<Longrightarrow> - (2 ^ 31) \<le> v \<Longrightarrow> v < 2 ^ 31 \<Longrightarrow>
    (\<And>s'. reading s' r \<Longrightarrow> returns Q (k v s')) \<Longrightarrow> returns Q (read_se e k s)"
proof -
  assume a: "reading s (eg_code (se_code_num v) @ r)" "- (2 ^ 31) \<le> v" "v < 2 ^ 31" "\<And>s'. reading s' r \<Longrightarrow> returns Q (k v s')"
  have "sint (word_of_int v :: 32 word) = v"
    using a(2,3) by (simp add: sint_sbintrunc' signed_take_bit_int_eq_self)
  then show ?thesis using Signed_decodes[of s v r 0] a reading_advanced[OF a(1)] by (auto simp: read_se_def reading_def)
qed

lemma reads_32:
  assumes "reading s (low_bits 32 v @ r)" "\<And>s'. reading s' r \<Longrightarrow> returns Q (k v s')"
  shows "returns Q (read_32 e k s)"
proof -
  have r: "readable s" "sd_rest s = low_bits 32 v @ r" using assms(1) by (auto simp: reading_def)
  obtain b where b: "h264bsdShowBits s 32 = Some b" "\<And>i. i < 32 \<Longrightarrow> bit b (31 - i) = (i < length (sd_rest s) \<and> sd_rest s ! i)"
    using Show32[OF r(1)] by blast
  have "b = v"
  proof (rule bit_word_eqI)
    fix j :: nat assume "j < LENGTH(32)"
    then have "31 - j < 32" "31 - (31 - j) = j" by auto
    then show "bit b j = bit v j" using b(2)[of "31 - j"] r(2) by (simp add: nth_append)
  qed
  moreover obtain st s' where f: "h264bsdFlushBits s 32 = Some (st, s')" "advanced s 32 s'" "st = HANTRO_OK"
    using FlushBits_rest[of s 32] r by (auto simp: readable_def flushed_def advanced_def)
  moreover have "reading s' r" using reading_advanced[OF assms(1)] f(2) by simp
  ultimately show ?thesis using b(1) assms(2) by (simp add: read_32_def status_defs)
qed

lemma reads_ues:
  "reading s (concat (map eg_code ns) @ r) \<Longrightarrow> \<forall>n \<in> set ns. n < 2 ^ 32 \<Longrightarrow>
   (\<And>s'. reading s' r \<Longrightarrow> returns Q (k (acc @ map of_nat ns) s')) \<Longrightarrow> returns Q (read_ues (length ns) e acc k s)"
proof (induction ns arbitrary: acc s)
  case (Cons n ns)
  show ?case unfolding list.size read_ues.simps add_Suc_right add_0_right
    by (rule reads_ue[of s n "concat (map eg_code ns) @ r"]) (use Cons in auto)
qed simp

subsection \<open>The end of the payload\<close>

lemma trailing_reads:
  "reading s (True # replicate k False) \<Longrightarrow> k < 8 \<Longrightarrow> \<exists>s'. h264bsdRbspTrailingBits s = Some (HANTRO_OK, s')"
  using trailing_bits_read[of s k] by (auto simp: reading_def)

lemma replicate_tail: "bs @ True # replicate k False = True # replicate j False \<Longrightarrow> bs = []"
  by (cases bs) (auto simp: append_eq_conv_conj dest!: arg_cong[of _ _ set])


lemma ShowBits_small: "h264bsdShowBits s n = Some x \<Longrightarrow> drop_bit n x = 0"
proof -
  assume a: "h264bsdShowBits s n = Some x"
  have d: "drop_bit n (drop_bit (32 - n) out) = 0" if "n \<le> 32" for out :: "32 word"
  proof (rule bit_word_eqI)
    fix j show "bit (drop_bit n (drop_bit (32 - n) out)) j = bit (0 :: 32 word) j"
      using that bit_imp_le_length[of out "32 - n + (n + j)"] by (auto simp: bit_drop_bit_eq)
  qed
  have r: "drop_bit n x = 0" if "(if n = 0 then None else Some (drop_bit (32 - n) out)) = Some x" "n \<le> 32" for out :: "32 word"
    using that d by (auto split: if_splits)
  show ?thesis using a unfolding h264bsdShowBits_def Let_def
    by (auto simp: bind_cases r split: if_splits dest!: r)
qed

lemma word_of_low: "drop_bit n (x :: 32 word) = 0 \<Longrightarrow> 0 < n \<Longrightarrow> n \<le> 32 \<Longrightarrow>
  (x = 2 ^ (n - 1)) = (low_bits n x = True # replicate (n - 1) False)"
proof -
  assume a: "drop_bit n x = 0" "0 < n" "n \<le> 32"
  have two: "low_bits n (2 ^ (n - 1) :: 32 word) = True # replicate (n - 1) False"
    by (rule nth_equalityI) (use a(2,3) in \<open>auto simp: nth_Cons' bit_exp_iff\<close>)
  show ?thesis
  proof
    assume eq: "low_bits n x = True # replicate (n - 1) False"
    show "x = 2 ^ (n - 1)"
    proof (rule bit_word_eqI)
      fix j :: nat assume "j < LENGTH(32)"
      show "bit x j = bit (2 ^ (n - 1) :: 32 word) j"
      proof (cases "j < n")
        case True
        then have "low_bits n x ! (n - 1 - j) = low_bits n (2 ^ (n - 1) :: 32 word) ! (n - 1 - j)" using eq two by simp
        then show ?thesis using True by simp
      next
        case False
        then show ?thesis using drop_bit_0_bits[OF a(1), of j] a(2) by (auto simp: bit_exp_iff)
      qed
    qed
  qed (simp only: two)
qed

lemma take_length_append: "length xs = n \<Longrightarrow> take n (xs @ ys) = xs"
  by simp

lemma More_reads:
  assumes rd: "reading s (bs @ True # replicate k False)" and k: "k < 8" and len: "length bs \<le> 23"
  shows "h264bsdMoreRbspData s = Some (bs \<noteq> [])"
proof -
  let ?S = "sd_bytes s" and ?p = "sd_pos s" and ?o = "sd_bit_pos s"
  let ?rest = "bs @ True # replicate k False"
  have ok: "strm_ok s" and r: "readable s" and rest: "sd_rest s = ?rest" using rd by (auto simp: reading_def readable_def)
  note d = strm_okD[OF ok]
  have p: "?p < sd_data_size s"
  proof (rule ccontr)
    assume "\<not> ?p < sd_data_size s"
    then have "sd_rest s = []" using d(5,10) by (simp add: sd_rest_def)
    then show False using rest by simp
  qed
  define cs where "cs = rbsp_from ?S (Suc ?p)"
  have rb: "rbsp_from ?S ?p = ?S ! ?p # cs" using rbsp_from_byte[OF d(9)] d(10) p by (simp add: cs_def)
  have split: "?rest = drop ?o (byte_bits (?S ! ?p)) @ bits_of cs"
    using rest rb d(3) by (simp add: sd_rest_def)
  have rlen: "length ?rest = 8 - ?o + 8 * length cs" using arg_cong[OF split, of length] by simp
  define bits where "bits = u32 (8 * sd_data_size s) - sd_read_bits s"
  have bits: "bits = 8 * (sd_data_size s - ?p) - ?o" using d(4,11) p by (simp add: bits_def algebra_simps)
  have le: "\<not> sd_read_bits s > u32 (8 * sd_data_size s)" using d(3,4,11) p by simp
  show ?thesis
  proof (cases "cs = []")
    case True
    have "sd_data_size s = Suc ?p"
    proof (rule ccontr)
      assume "sd_data_size s \<noteq> Suc ?p"
      then have "Suc ?p < length ?S" using p d(10) by simp
      then have "emul ?S (Suc ?p)" using True rbsp_from_byte[of ?S "Suc ?p"] unfolding cs_def by fastforce
      then have "?S ! ?p = 0" by (simp add: emul_def)
      then have "drop ?o (byte_bits (?S ! ?p)) = replicate (8 - ?o) False"
        by (intro nth_equalityI) (auto simp: byte_bits_def low_bits_def)
      then have "?rest = replicate (8 - ?o) False" using split True by simp
      then have "True \<in> set (replicate (8 - ?o) False)" by (metis in_set_conv_decomp)
      then show False by simp
    qed
    then have n: "bits = 8 - ?o" "0 < bits" "bits \<le> 8" using bits d(3) by auto
    obtain x where x: "h264bsdShowBits s bits = Some x" "low_bits bits x = take bits (?rest @ replicate bits False)"
      using ShowBits_rest[OF ok n(2)] n(3) rest by auto
    have "length ?rest = bits" using rlen True n(1) by simp
    then have "low_bits bits x = ?rest" unfolding x(2) by (rule take_length_append)
    then have eq: "(x = 2 ^ (bits - 1)) = (?rest = True # replicate (bits - 1) False)"
      using word_of_low[OF ShowBits_small[OF x(1)] n(2)] n(3) by simp
    have "(?rest = True # replicate (bits - 1) False) = (bs = [])"
      using replicate_tail[of bs k "bits - 1"] rlen True n(1) by auto
    moreover have "\<not> bits > 8" "bits \<noteq> 0" using n(2,3) by simp_all
    ultimately show ?thesis using le x(1) eq unfolding h264bsdMoreRbspData_def Let_def bits_def[symmetric] by simp
  next
    case False
    then have l1: "1 \<le> length cs" by (cases cs) auto
    have "Suc ?p < sd_data_size s"
    proof (rule ccontr)
      assume "\<not> Suc ?p < sd_data_size s"
      then show False using False d(10) by (simp add: cs_def)
    qed
    then have "bits = 8 - ?o + 8 * (sd_data_size s - ?p - 1)" and b8: "bits > 8" using bits d(3) by simp_all
    then have "bits mod 8 = (8 - ?o) mod 8" by simp
    then have m8: "(if bits mod 8 = 0 then 8 else bits mod 8) = 8 - ?o" using d(3) by (cases "?o = 0") simp_all
    have i: "8 - ?o \<le> length bs" using rlen l1 k d(3) by simp
    have o: "0 < 8 - ?o" "8 - ?o \<le> 32" "0 < 23 + (8 - ?o)" "23 + (8 - ?o) \<le> 32" using d(3) by auto
    obtain x where x: "h264bsdShowBits s (8 - ?o) = Some x" using ShowBits_rest[OF ok o(1,2)] by blast
    obtain y where y: "h264bsdShowBits s (23 + (8 - ?o)) = Some y"
        "low_bits (23 + (8 - ?o)) y = take (23 + (8 - ?o)) (?rest @ replicate (23 + (8 - ?o)) False)"
      using ShowBits_rest[OF ok o(3,4)] rest by auto
    have il: "length bs < 23 + (8 - ?o)" using len o(1) by linarith
    have "low_bits (23 + (8 - ?o)) y ! length bs" using y(2) il by (simp add: nth_append)
    then have ybit: "bit y (23 + (8 - ?o) - 1 - length bs)" using il by simp
    define j where "j = 23 + (8 - ?o) - 1 - length bs"
    have "j \<le> 22" using i by (simp add: j_def)
    then have "bit (push_bit 9 y) (9 + j)" using ybit by (simp add: bit_push_bit_iff j_def)
    then have "push_bit 9 y \<noteq> 0" by (metis bit_0_eq bot_apply bot_bool_def)
    moreover have "bs \<noteq> []" using i o(1) by auto
    ultimately show ?thesis using le b8 m8 x y(1) d(2)
      unfolding h264bsdMoreRbspData_def Let_def bits_def[symmetric] by simp
  qed
qed

end
