(* ===== verification/H264PpsStream.thy ===== *)
theory H264PpsStream
  imports H264Reading
begin

text \<open>
  Picture parameter sets as streams: the parser gives well-formed structures, and a stream whose run
  lengths wrap around to zero, which the parser and CheckPps accept and which makes the decoder hang.
\<close>

subsection \<open>The stages of the parser on known bits\<close>

lemma reads_head:
  assumes "reading s (eg_code a @ eg_code b @ c # d # r)" "a < 256" "b < 32"
    and "\<And>s'. reading s' r \<Longrightarrow> returns Q (k (p\<lparr>pps_pic_parameter_set_id := of_nat a, pps_seq_parameter_set_id := of_nat b,
      pps_entropy_coding_mode_flag := flag_bit c, pps_pic_order_present_flag := flag_bit d\<rparr>) s')"
  shows "returns Q (pps_head p k s)"
proof -
  have ab: "\<not> of_nat a \<ge> MAX_NUM_PIC_PARAM_SETS" "\<not> of_nat b \<ge> MAX_NUM_SEQ_PARAM_SETS"
    using assms(2,3) by (auto simp: MAX_NUM_PIC_PARAM_SETS_def MAX_NUM_SEQ_PARAM_SETS_def word_le_nat_alt of_nat_small)
  have lt: "a < 2 ^ 32" "b < 2 ^ 32" using assms(2,3) by simp_all
  show ?thesis unfolding pps_head_def Let_def
    apply (rule reads_ue[OF assms(1) lt(1)], rule skip_if[OF ab(1)])
    apply (rule reads_ue, assumption, rule lt(2), rule skip_if[OF ab(2)])
    apply (rule reads_bit, assumption, rule reads_flag, assumption)
    by (rule assms(4))
qed

lemma reads_one_group:
  assumes "reading s (eg_code 0 @ r)" "\<And>s'. reading s' r \<Longrightarrow> returns Q (k (p\<lparr>pps_num_slice_groups := 1\<rparr>) s')"
  shows "returns Q (pps_slice_groups alloc p k s)"
  unfolding pps_slice_groups_def Let_def
  by (rule reads_ue[OF assms(1)]) (use assms(2) in \<open>simp_all add: MAX_NUM_SLICE_GROUPS_def\<close>)

lemma reads_runs:
  assumes "reading s (eg_code (length ns - 1) @ eg_code 0 @ concat (map eg_code ns) @ r)"
    and "2 \<le> length ns" "length ns \<le> 8" "\<forall>n \<in> set ns. n < 2 ^ 32" "alloc 0"
    and "\<And>s'. reading s' r \<Longrightarrow> returns Q (k (p\<lparr>pps_num_slice_groups := of_nat (length ns), pps_slice_group_map_type := 0,
      pps_run_length := Some (map (\<lambda>n. of_nat n + 1) ns)\<rparr>) s')"
  shows "returns Q (pps_slice_groups alloc p k s)"
proof -
  have g: "of_nat (length ns - 1) + 1 = (of_nat (length ns) :: 32 word)" using assms(2) by (simp add: of_nat_diff)
  have u: "unat (of_nat (length ns) :: 32 word) = length ns" using assms(3) by (intro of_nat_small) simp
  have c: "\<not> unat (of_nat (length ns) :: 32 word) > MAX_NUM_SLICE_GROUPS" "(of_nat (length ns) :: 32 word) > 1"
    using u assms(2,3) by (simp_all add: MAX_NUM_SLICE_GROUPS_def word_less_nat_alt)
  have lt: "length ns - 1 < 2 ^ 32" using assms(3) by simp
  have z: "\<not> (of_nat 0 :: 32 word) > 6" "(of_nat 0 :: 32 word) = 0" by simp_all
  have a: "\<not> \<not> alloc 0" using assms(5) by simp
  show ?thesis unfolding pps_slice_groups_def Let_def
    apply (rule reads_ue[OF assms(1) lt], unfold g)
    apply (rule skip_if[OF c(1)], rule take_if[OF c(2)])
    apply (rule reads_ue, assumption, simp)
    apply (rule skip_if[OF z(1)], rule take_if[OF z(2)], rule skip_if[OF a], unfold u)
    apply (rule reads_ues, assumption, rule assms(4))
    using assms(6) by (simp add: comp_def)
qed

lemma reads_references:
  assumes "reading s (eg_code a @ eg_code b @ c # low_bits 2 (of_nat w :: 32 word) @ r)" "a \<le> 31" "b \<le> 31" "w \<le> 2"
    and "\<And>s'. reading s' r \<Longrightarrow> returns Q (k (p\<lparr>pps_num_ref_idx_l0_active := of_nat a + 1, pps_num_ref_idx_l1_active := of_nat b + 1,
      pps_weighted_pred_flag := flag_bit c, pps_weighted_bi_pred_idc := of_nat w\<rparr>) s')"
  shows "returns Q (pps_references p k s)"
proof -
  have ab: "\<not> (of_nat a :: 32 word) > 31" "\<not> (of_nat b :: 32 word) > 31" "\<not> (of_nat w :: 32 word) > 2"
    using assms(2-4) by (auto simp: word_less_nat_alt of_nat_small)
  have w: "drop_bit 2 (of_nat w :: 32 word) = 0"
    using unat_drop_bit_div[of 2 "of_nat w :: 32 word"] assms(4) by (simp add: of_nat_small word_unat_eq_iff)
  have lt: "a < 2 ^ 32" "b < 2 ^ 32" using assms(2,3) by simp_all
  show ?thesis unfolding pps_references_def Let_def
    apply (rule reads_ue[OF assms(1) lt(1)], rule skip_if[OF ab(1)])
    apply (rule reads_ue, assumption, rule lt(2), rule skip_if[OF ab(2)])
    apply (rule reads_bit, assumption, rule reads_any[OF _ _ _ w], assumption, simp, simp, rule skip_if[OF ab(3)])
    by (rule assms(5))
qed

lemma reads_quantisation:
  assumes "reading s (eg_code (se_code_num qp) @ eg_code (se_code_num qs) @ eg_code (se_code_num ch) @ a # b # c # r)"
    and "-38 \<le> qp" "qp \<le> 25" "-26 \<le> qs" "qs \<le> 25" "-12 \<le> ch" "ch \<le> 12"
    and "\<And>s'. reading s' r \<Longrightarrow> returns Q (k (p\<lparr>pps_pic_init_qp := word_of_int (qp + 26), pps_chroma_qp_index_offset := ch,
      pps_deblocking_filter_control_present_flag := flag_bit a, pps_constrained_intra_pred_flag := flag_bit b,
      pps_redundant_pic_cnt_present_flag := flag_bit c\<rparr>) s')"
  shows "returns Q (pps_quantisation p k s)"
proof -
  have ok: "\<not> (qp < -38 \<or> qp > 25)" "\<not> (qs < -26 \<or> qs > 25)" "\<not> (ch < -12 \<or> ch > 12)" using assms(2-7) by auto
  have lt: "- (2 ^ 31) \<le> qp" "qp < 2 ^ 31" "- (2 ^ 31) \<le> qs" "qs < 2 ^ 31" "- (2 ^ 31) \<le> ch" "ch < 2 ^ 31" using assms(2-7) by simp_all
  show ?thesis unfolding pps_quantisation_def Let_def
    apply (rule reads_se[OF assms(1) lt(1,2)], rule skip_if[OF ok(1)])
    apply (rule reads_se, assumption, rule lt(3), rule lt(4), rule skip_if[OF ok(2)])
    apply (rule reads_se, assumption, rule lt(5), rule lt(6), rule skip_if[OF ok(3)])
    apply (rule reads_flag, assumption, rule reads_flag, assumption, rule reads_flag, assumption)
    by (rule assms(8))
qed

lemma reads_no_extension:
  assumes "reading s (True # replicate j False)" "j < 8"
    and "\<And>s'. reading s' (True # replicate j False) \<Longrightarrow> returns Q (k (p\<lparr>pps_scaling_matrix_present_flag := 0, pps_transform8x8_flag := 0,
      pps_chroma_qp_index_offset2 := pps_chroma_qp_index_offset p\<rparr>) s')"
  shows "returns Q (pps_tail delta p k s)"
  using More_reads[of s "[]" j] assms by (simp add: pps_tail_def)

lemma reads_extension:
  assumes "reading s (a # False # eg_code (se_code_num ch) @ True # replicate j False)" "j < 8" "-12 \<le> ch" "ch \<le> 12"
    and "\<And>s'. reading s' (True # replicate j False) \<Longrightarrow> returns Q (k (p\<lparr>pps_transform8x8_flag := flag_bit a,
      pps_scaling_matrix_present_flag := 0, pps_chroma_qp_index_offset2 := ch\<rparr>) s')"
  shows "returns Q (pps_tail delta p k s)"
proof -
  have n: "se_code_num ch + 1 \<le> 25" using assms(3,4) by (auto simp: se_code_num_def)
  then have "eg_len (se_code_num ch + 1) \<le> 5" by (intro eg_len_le) auto
  then have len: "length (a # False # eg_code (se_code_num ch)) \<le> 23" by (simp add: length_eg_code)
  have more: "h264bsdMoreRbspData s = Some True"
    using More_reads[of s "a # False # eg_code (se_code_num ch)" j] assms(1,2) len by simp
  have lt: "- (2 ^ 31) \<le> ch" "ch < 2 ^ 31" and ok: "\<not> (ch < -12 \<or> ch > 12)" using assms(3,4) by auto
  have f: "\<not> flag_bit False \<noteq> 0" by (simp add: flag_bit_def)
  have "returns Q (pps_extension delta p k s)" unfolding pps_extension_def pps_second_offset_def Let_def
    apply (rule reads_bit[OF assms(1)], rule reads_bit, assumption, rule skip_if[OF f])
    apply (rule reads_se, assumption, rule lt(1), rule lt(2), rule skip_if[OF ok])
    using assms(5) by (simp add: flag_bit_def)
  then show ?thesis using more by (simp add: pps_tail_def)
qed

lemma reads_end:
  assumes "reading s (True # replicate j False)" "j < 8" "\<And>s'. Q (Inr (p, s'))"
  shows "returns Q (do { (tmp, s) \<leftarrow> h264bsdRbspTrailingBits s; Some (Inr (p, s)) })"
  using trailing_reads[OF assms(1,2)] assms(3) by (auto simp: returns_def)

subsection \<open>Run lengths that wrap around\<close>

lemma eg_code_small: "eg_code 0 = [True]" "eg_code 1 = [False, True, False]"
  by code_simp+

lemma eg_code_big: "eg_code 4294967295 = replicate 32 False @ True # replicate 32 False"
proof -
  have "eg_code (2 ^ 32 - 1) = replicate 32 False @ True # map (\<lambda>i. bit ((2::nat) ^ 32 - 1 + 1) (32 - 1 - i)) [0 ..< 32]"
    by (rule eg_code_split) (simp only: eg_len_big simp_thms)
  moreover have "(2::nat) ^ 32 - 1 + 1 = 2 ^ 32" by simp
  moreover have "map (\<lambda>i. bit ((2::nat) ^ 32) (32 - 1 - i)) [0 ..< 32] = replicate 32 False"
    by (rule nth_equalityI) (simp_all add: bit_exp_iff del: power_numeral)
  ultimately have "eg_code (2 ^ 32 - 1) = replicate 32 False @ True # replicate 32 False" by (simp only:)
  then show ?thesis by simp
qed

text \<open>Two slice groups of type 0, run\_length\_minus1 being 2^32 - 1 for both\<close>

definition zero_run_bytes :: "8 word list" where
  "zero_run_bytes = [0xC5, 0, 0, 3, 0, 0, 0x80, 0, 0, 3, 0, 0, 3, 0, 0, 3, 0, 0x40, 0, 0, 3, 0, 0x31, 0xC4]"

definition zero_run_bits :: bits where
  "zero_run_bits = eg_code 0 @ eg_code 0 @ False # False # eg_code 1 @ eg_code 0
     @ concat (map eg_code [4294967295, 4294967295])
     @ eg_code 0 @ eg_code 0 @ False # low_bits 2 (0 :: 32 word) @ eg_code (se_code_num 0) @ eg_code (se_code_num 0)
     @ eg_code (se_code_num 0) @ False # False # False # [] @ True # replicate 2 False"

lemma zero_run_stream: "reading (demo_stream zero_run_bytes) zero_run_bits"
proof -
  have u: "unescape 0 zero_run_bytes = [0xc5, 0, 0, 0, 0, 0x80, 0, 0, 0, 0, 0, 0, 0, 0x40, 0, 0, 0, 0x31, 0xc4]"
    by (simp add: zero_run_bytes_def)
  have "bits_of (unescape 0 zero_run_bytes) = zero_run_bits"
    unfolding u zero_run_bits_def list.map concat.simps eg_code_big eg_code_small se_code_num_def
    by code_simp
  moreover have "code_free 0 zero_run_bytes" by (simp add: zero_run_bytes_def)
  moreover have "length zero_run_bytes < 2 ^ 28" by (simp add: zero_run_bytes_def)
  ultimately show ?thesis
    using demo_stream_rest[of zero_run_bytes] demo_stream_ok[of zero_run_bytes] code_free_no_start_code[of zero_run_bytes]
    by (simp add: reading_def readable_def)
qed


definition zero_run_pps :: pic_param_set where
  "zero_run_pps = zero_pps\<lparr>pps_num_slice_groups := 2, pps_run_length := Some [0, 0], pps_num_ref_idx_l0_active := 1,
     pps_num_ref_idx_l1_active := 1, pps_pic_init_qp := 26\<rparr>"

lemma zero_run_parsed:
  "\<exists>s'. h264bsdDecodePicParamSet (\<lambda>_. True) delta (demo_stream zero_run_bytes) = Some (Inr (zero_run_pps, s'))"
proof -
  let ?Q = "\<lambda>r. \<exists>s'. r = Inr (zero_run_pps, s')"
  have e: "(of_nat 4294967295 :: 32 word) + 1 = 0" by simp
  have "returns ?Q (h264bsdDecodePicParamSet (\<lambda>_. True) delta (demo_stream zero_run_bytes))"
    unfolding h264bsdDecodePicParamSet_def
    apply (rule reads_head[OF zero_run_stream[unfolded zero_run_bits_def]], simp, simp)
    apply (rule reads_runs[where ns = "[4294967295, 4294967295]"], simp, simp, simp, simp, simp)
    apply (rule reads_references[where a = 0 and b = 0 and w = 0], simp, simp, simp, simp)
    apply (rule reads_quantisation[where qp = 0 and qs = 0 and ch = 0], simp, simp, simp, simp, simp, simp, simp)
    apply (rule reads_no_extension[where j = 2], simp, simp)
    by (rule reads_end[where j = 2], assumption, simp, simp add: zero_run_pps_def zero_pps_def flag_bit_def)
  then show ?thesis by (auto simp: returns_def)
qed


subsection \<open>Properties\<close>

text \<open>
  C26: h264bsdDecodePicParamSet is total on every NAL unit without a start code prefix, whatever bits
  it holds and whichever allocations fail, and what it accepts is well formed: the identifiers, the
  numbers of reference indices, the quantiser values and the flags are in their ranges, the arrays of
  the slice group map have the lengths that the map type asks for, and there are eight scaling lists of
  64 entries.
\<close>

theorem DecodePicParamSet_type:
  assumes "strm_ok s" "no_start_code (sd_bytes s)"
  shows "\<exists>r. h264bsdDecodePicParamSet alloc delta s = Some r
    \<and> (case r of Inl st \<Rightarrow> True | Inr (p, s') \<Rightarrow> pps_wf p \<and> strm_ok s')"
proof -
  have "readable s" using assms by (simp add: readable_def)
  from DecodePicParamSet_returns[OF this, of alloc delta] obtain r where
    r: "h264bsdDecodePicParamSet alloc delta s = Some r" "case r of Inl st \<Rightarrow> True | Inr (p, s') \<Rightarrow> pps_wf p \<and> readable s'"
    by (auto simp: returns_def)
  then show ?thesis by (cases r) (auto simp: readable_def)
qed

theorem DecodePicParamSet_type_witness:
  "\<exists>p s'. h264bsdDecodePicParamSet (\<lambda>_. True) (\<lambda>_. 0) (demo_stream zero_run_bytes) = Some (Inr (p, s')) \<and> pps_wf p \<and> strm_ok s'"
proof -
  have "strm_ok (demo_stream zero_run_bytes)" "no_start_code (sd_bytes (demo_stream zero_run_bytes))"
    using zero_run_stream by (auto simp: reading_def readable_def)
  from DecodePicParamSet_type[OF this, of "\<lambda>_. True" "\<lambda>_. 0"] show ?thesis
    using zero_run_parsed[of "\<lambda>_. 0"] by auto
qed

text \<open>
  C38: a picture parameter set that makes the decoder hang: with run\_length\_minus1 = 2^32 - 1 the parser
  stores a run length of 0 and succeeds, CheckPps accepts it for an ordinary sequence parameter set, and the
  loop of DecodeInterleavedMap never ends, whatever is in the map and the slice header.
\<close>

theorem zero_run_stream_hangs:
  "\<exists>s'. h264bsdDecodePicParamSet (\<lambda>_. True) delta (demo_stream zero_run_bytes) = Some (Inr (zero_run_pps, s'))
    \<and> CheckPps zero_run_pps (plain_sps 0) = Some True
    \<and> h264bsdDecodeSliceGroupMap m zero_run_pps cycle 4 4 = None"
proof -
  have runs: "check_runs [0, 0] 16 0 (Suc (Suc 0)) = Some True" by (simp add: array_read_def)
  have "CheckPps zero_run_pps (plain_sps 0) = Some True"
    by (simp add: CheckPps_def zero_run_pps_def zero_pps_def plain_sps_def Let_def runs[folded numeral_2_eq_2])
  moreover have "h264bsdDecodeSliceGroupMap m zero_run_pps cycle 4 4 = None"
    by (rule zero_runs_hang[of _ "[0, 0]"]) (simp_all add: zero_run_pps_def zero_pps_def)
  ultimately show ?thesis using zero_run_parsed by simp
qed

end
