(* ===== verification/H264Vui.thy ===== *)
theory H264Vui
  imports H264Pps H264Reading
begin

text \<open>
  VUI and HRD parameters: vc8000d/software/source/h264high/legacy/h264hwd\_vui.c. The caller uses what was
  filled in before the stream ended, so the structure is a result in every case; the function gives the
  status, the structure and the stream to its continuation. The checks of HANTRO\_PEDANTIC\_MODE, which no
  build file turns on, are left out.
\<close>

subsection \<open>After DWLmemset\<close>

definition zero_hrd :: hrd_parameters where
  "zero_hrd = \<lparr>hrd_cpb_cnt = 0, hrd_bit_rate_scale = 0, hrd_cpb_size_scale = 0,
     hrd_bit_rate_value = replicate MAX_CPB_CNT 0, hrd_cpb_size_value = replicate MAX_CPB_CNT 0,
     hrd_cbr_flag = replicate MAX_CPB_CNT 0, hrd_initial_cpb_removal_delay_length = 0,
     hrd_cpb_removal_delay_length = 0, hrd_dpb_output_delay_length = 0, hrd_time_offset_length = 0\<rparr>"

definition zero_vui :: vui_parameters where
  "zero_vui = \<lparr>vui_aspect_ratio_present_flag = 0, vui_aspect_ratio_idc = 0, vui_sar_width = 0, vui_sar_height = 0,
     vui_overscan_info_present_flag = 0, vui_overscan_appropriate_flag = 0,
     vui_video_signal_type_present_flag = 0, vui_video_format = 0, vui_video_full_range_flag = 0,
     vui_colour_description_present_flag = 0, vui_colour_primaries = 0,
     vui_transfer_characteristics = 0, vui_matrix_coefficients = 0,
     vui_chroma_loc_info_present_flag = 0, vui_chroma_sample_loc_type_top_field = 0,
     vui_chroma_sample_loc_type_bottom_field = 0, vui_timing_info_present_flag = 0,
     vui_num_units_in_tick = 0, vui_time_scale = 0, vui_fixed_frame_rate_flag = 0,
     vui_nal_hrd_parameters_present_flag = 0, vui_nal_hrd_parameters = zero_hrd,
     vui_vcl_hrd_parameters_present_flag = 0, vui_vcl_hrd_parameters = zero_hrd,
     vui_low_delay_hrd_flag = 0, vui_pic_struct_present_flag = 0,
     vui_bitstream_restriction_flag = 0, vui_motion_vectors_over_pic_boundaries_flag = 0,
     vui_max_bytes_per_pic_denom = 0, vui_max_bits_per_mb_denom = 0,
     vui_log2_max_mv_length_horizontal = 0, vui_log2_max_mv_length_vertical = 0,
     vui_num_reorder_frames = 0, vui_max_dec_frame_buffering = 0, vui_update_hrdparameter_flag = 0,
     vui_error_hrdparameter_flag = 0\<rparr>"

definition MAX_DPB_SIZE :: "32 word" where "MAX_DPB_SIZE = 16"
definition MAX_BR :: "32 word" where "MAX_BR = 240000"
definition MAX_CPB :: "32 word" where "MAX_CPB = 240000"

subsection \<open>h264bsdDecodeHrdParameters\<close>

type_synonym 'r hrd_cont = "32 word \<Rightarrow> hrd_parameters \<Rightarrow> strm_data \<Rightarrow> 'r option"

text \<open>The loop over the schedules i to i + n - 1; ret is the return with a status.\<close>

fun hrd_schedules :: "nat \<Rightarrow> nat \<Rightarrow> hrd_parameters \<Rightarrow> 'r hrd_cont \<Rightarrow> (hrd_parameters \<Rightarrow> strm_data \<Rightarrow> 'r option) \<Rightarrow> strm_data \<Rightarrow> 'r option" where
  "hrd_schedules i 0 h ret k s = k h s"
| "hrd_schedules i (Suc n) h ret k s =
     (if i \<ge> length (hrd_bit_rate_value h) \<or> i \<ge> length (hrd_cpb_size_value h) \<or> i \<ge> length (hrd_cbr_flag h) then None
      else
        read_ue (hrd_bit_rate_value h ! i) (\<lambda>st v. ret st (h\<lparr>hrd_bit_rate_value := (hrd_bit_rate_value h)[i := v]\<rparr>))
        (\<lambda>v. if v > 4294967294 then ret HANTRO_NOK (h\<lparr>hrd_bit_rate_value := (hrd_bit_rate_value h)[i := v]\<rparr>)
         else let h = h\<lparr>hrd_bit_rate_value := (hrd_bit_rate_value h)[i := v + 1]\<rparr> in
        read_ue (hrd_cpb_size_value h ! i) (\<lambda>st v. ret st (h\<lparr>hrd_cpb_size_value := (hrd_cpb_size_value h)[i := v]\<rparr>))
        (\<lambda>v. if v > 4294967294 then ret HANTRO_NOK (h\<lparr>hrd_cpb_size_value := (hrd_cpb_size_value h)[i := v]\<rparr>)
         else let h = h\<lparr>hrd_cpb_size_value := (hrd_cpb_size_value h)[i := push_bit (4 + unat (hrd_cpb_size_scale h)) (v + 1)]\<rparr> in
        read_flag (ret END_OF_STREAM h) (\<lambda>f. hrd_schedules (Suc i) n (h\<lparr>hrd_cbr_flag := (hrd_cbr_flag h)[i := f]\<rparr>) ret k))) s)"

definition hrd_lengths :: "hrd_parameters \<Rightarrow> 'r hrd_cont \<Rightarrow> strm_data \<Rightarrow> 'r option" where
  "hrd_lengths h ret =
     read_u 5 (ret END_OF_STREAM h) (\<lambda>tmp. let h = h\<lparr>hrd_initial_cpb_removal_delay_length := tmp + 1\<rparr> in
     read_u 5 (ret END_OF_STREAM h) (\<lambda>tmp. let h = h\<lparr>hrd_cpb_removal_delay_length := tmp + 1\<rparr> in
     read_u 5 (ret END_OF_STREAM h) (\<lambda>tmp. let h = h\<lparr>hrd_dpb_output_delay_length := tmp + 1\<rparr> in
     read_u 5 (ret END_OF_STREAM h) (\<lambda>tmp. ret HANTRO_OK (h\<lparr>hrd_time_offset_length := tmp\<rparr>)))))"

definition h264bsdDecodeHrdParameters :: "hrd_parameters \<Rightarrow> 'r hrd_cont \<Rightarrow> strm_data \<Rightarrow> 'r option" where
  "h264bsdDecodeHrdParameters h ret =
     read_ue (hrd_cpb_cnt h) (\<lambda>st v. ret st (h\<lparr>hrd_cpb_cnt := v\<rparr>)) (\<lambda>v. let h = h\<lparr>hrd_cpb_cnt := v + 1\<rparr> in
     if unat (hrd_cpb_cnt h) > MAX_CPB_CNT then ret HANTRO_NOK (h\<lparr>hrd_cpb_cnt := of_nat MAX_CPB_CNT\<rparr>)
     else read_u 4 (ret END_OF_STREAM h) (\<lambda>tmp. let h = h\<lparr>hrd_bit_rate_scale := tmp\<rparr> in
     read_u 4 (ret END_OF_STREAM h) (\<lambda>tmp. let h = h\<lparr>hrd_cpb_size_scale := tmp\<rparr> in
     hrd_schedules 0 (unat (hrd_cpb_cnt h)) h ret (\<lambda>h. hrd_lengths h ret))))"

subsection \<open>h264bsdDecodeVuiParameters\<close>

type_synonym 'r vui_cont = "32 word \<Rightarrow> vui_parameters \<Rightarrow> strm_data \<Rightarrow> 'r option"
type_synonym 'r vui_stage = "vui_parameters \<Rightarrow> (32 word \<Rightarrow> vui_parameters \<Rightarrow> strm_data \<Rightarrow> 'r option)
  \<Rightarrow> (vui_parameters \<Rightarrow> strm_data \<Rightarrow> 'r option) \<Rightarrow> strm_data \<Rightarrow> 'r option"

definition vui_aspect_ratio :: "'r vui_stage" where
  "vui_aspect_ratio v ret k =
     read_flag (ret END_OF_STREAM v) (\<lambda>f. let v = v\<lparr>vui_aspect_ratio_present_flag := f\<rparr> in
     if f \<noteq> 0 then
       read_u 8 (ret END_OF_STREAM v) (\<lambda>tmp. let v = v\<lparr>vui_aspect_ratio_idc := tmp\<rparr> in
       if tmp = ASPECT_RATIO_EXTENDED_SAR then
         read_u 16 (ret END_OF_STREAM v) (\<lambda>tmp. let v = v\<lparr>vui_sar_width := tmp\<rparr> in
         read_u 16 (ret END_OF_STREAM v) (\<lambda>tmp. k (v\<lparr>vui_sar_height := tmp\<rparr>)))
       else k v)
     else k v)"

definition vui_overscan :: "'r vui_stage" where
  "vui_overscan v ret k =
     read_flag (ret END_OF_STREAM v) (\<lambda>f. let v = v\<lparr>vui_overscan_info_present_flag := f\<rparr> in
     if f \<noteq> 0 then read_flag (ret END_OF_STREAM v) (\<lambda>f. k (v\<lparr>vui_overscan_appropriate_flag := f\<rparr>))
     else k v)"

definition default_colours :: "vui_parameters \<Rightarrow> vui_parameters" where
  "default_colours v = v\<lparr>vui_colour_primaries := 2, vui_transfer_characteristics := 2, vui_matrix_coefficients := 2\<rparr>"

definition vui_video_signal :: "'r vui_stage" where
  "vui_video_signal v ret k =
     read_flag (ret END_OF_STREAM v) (\<lambda>f. let v = v\<lparr>vui_video_signal_type_present_flag := f\<rparr> in
     if f \<noteq> 0 then
       read_u 3 (ret END_OF_STREAM v) (\<lambda>tmp. let v = v\<lparr>vui_video_format := tmp\<rparr> in
       read_flag (ret END_OF_STREAM v) (\<lambda>f. let v = v\<lparr>vui_video_full_range_flag := f\<rparr> in
       read_flag (ret END_OF_STREAM v) (\<lambda>f. let v = v\<lparr>vui_colour_description_present_flag := f\<rparr> in
       if f \<noteq> 0 then
         read_u 8 (ret END_OF_STREAM v) (\<lambda>tmp. let v = v\<lparr>vui_colour_primaries := tmp\<rparr> in
         read_u 8 (ret END_OF_STREAM v) (\<lambda>tmp. let v = v\<lparr>vui_transfer_characteristics := tmp\<rparr> in
         read_u 8 (ret END_OF_STREAM v) (\<lambda>tmp. k (v\<lparr>vui_matrix_coefficients := tmp\<rparr>))))
       else k (default_colours v))))
     else k (default_colours (v\<lparr>vui_video_format := 5\<rparr>)))"

definition vui_chroma_loc :: "'r vui_stage" where
  "vui_chroma_loc v ret k =
     read_flag (ret END_OF_STREAM v) (\<lambda>f. let v = v\<lparr>vui_chroma_loc_info_present_flag := f\<rparr> in
     if f \<noteq> 0 then
       read_ue (vui_chroma_sample_loc_type_top_field v) (\<lambda>st x. ret st (v\<lparr>vui_chroma_sample_loc_type_top_field := x\<rparr>))
       (\<lambda>x. let v = v\<lparr>vui_chroma_sample_loc_type_top_field := x\<rparr> in
       if x > 5 then ret END_OF_STREAM v
       else read_ue (vui_chroma_sample_loc_type_bottom_field v) (\<lambda>st x. ret st (v\<lparr>vui_chroma_sample_loc_type_bottom_field := x\<rparr>))
       (\<lambda>x. let v = v\<lparr>vui_chroma_sample_loc_type_bottom_field := x\<rparr> in
       if x > 5 then ret END_OF_STREAM v else k v))
     else k v)"

definition vui_timing :: "'r vui_stage" where
  "vui_timing v ret k =
     read_flag (ret END_OF_STREAM v) (\<lambda>f. let v = v\<lparr>vui_timing_info_present_flag := f\<rparr> in
     if f \<noteq> 0 then
       read_32 (ret END_OF_STREAM v) (\<lambda>tmp. let v = v\<lparr>vui_num_units_in_tick := tmp\<rparr> in
       read_32 (ret END_OF_STREAM v) (\<lambda>tmp. let v = v\<lparr>vui_time_scale := tmp\<rparr> in
       read_flag (ret END_OF_STREAM v) (\<lambda>f. k (v\<lparr>vui_fixed_frame_rate_flag := f\<rparr>))))
     else k v)"

text \<open>What stands for absent HRD parameters\<close>

definition default_hrd :: "32 word \<Rightarrow> hrd_parameters \<Rightarrow> hrd_parameters" where
  "default_hrd factor h = h\<lparr>hrd_cpb_cnt := 1,
     hrd_bit_rate_value := (hrd_bit_rate_value h)[0 := factor * MAX_BR + 1],
     hrd_cpb_size_value := (hrd_cpb_size_value h)[0 := factor * MAX_CPB + 1],
     hrd_initial_cpb_removal_delay_length := 24, hrd_cpb_removal_delay_length := 24,
     hrd_dpb_output_delay_length := 24, hrd_time_offset_length := 24\<rparr>"

text \<open>An error in the HRD parameters ends the function with HANTRO\_OK.\<close>

definition vui_nal_hrd :: "'r vui_stage" where
  "vui_nal_hrd v ret k =
     read_flag (ret END_OF_STREAM v) (\<lambda>f. let v = v\<lparr>vui_nal_hrd_parameters_present_flag := f\<rparr> in
     if f \<noteq> 0 then
       h264bsdDecodeHrdParameters (vui_nal_hrd_parameters v) (\<lambda>st h. let v = v\<lparr>vui_nal_hrd_parameters := h\<rparr> in
         if st \<noteq> HANTRO_OK then ret HANTRO_OK v else k v)
     else k (v\<lparr>vui_nal_hrd_parameters := default_hrd 1200 (vui_nal_hrd_parameters v)\<rparr>))"

definition vui_vcl_hrd :: "'r vui_stage" where
  "vui_vcl_hrd v ret k =
     read_flag (ret END_OF_STREAM v) (\<lambda>f. let v = v\<lparr>vui_vcl_hrd_parameters_present_flag := f\<rparr> in
     if f \<noteq> 0 then
       let v = v\<lparr>vui_update_hrdparameter_flag := 1\<rparr> in
       h264bsdDecodeHrdParameters (vui_vcl_hrd_parameters v) (\<lambda>st h. let v = v\<lparr>vui_vcl_hrd_parameters := h\<rparr> in
         if st \<noteq> HANTRO_OK then ret HANTRO_OK v else k v)
     else k (v\<lparr>vui_vcl_hrd_parameters := default_hrd 1000 (vui_vcl_hrd_parameters v)\<rparr>))"

definition vui_low_delay :: "'r vui_stage" where
  "vui_low_delay v ret k =
     (if vui_nal_hrd_parameters_present_flag v \<noteq> 0 \<or> vui_vcl_hrd_parameters_present_flag v \<noteq> 0
      then read_flag (ret END_OF_STREAM v) (\<lambda>f. k (v\<lparr>vui_low_delay_hrd_flag := f\<rparr>))
      else k v)"

definition vui_restriction :: "'r vui_stage" where
  "vui_restriction v ret k =
     read_flag (ret END_OF_STREAM v) (\<lambda>f. let v = v\<lparr>vui_bitstream_restriction_flag := f\<rparr> in
     if f \<noteq> 0 then
       read_flag (ret END_OF_STREAM v) (\<lambda>f. let v = v\<lparr>vui_motion_vectors_over_pic_boundaries_flag := f\<rparr> in
       read_ue (vui_max_bytes_per_pic_denom v) (\<lambda>st x. ret st (v\<lparr>vui_max_bytes_per_pic_denom := x\<rparr>))
       (\<lambda>x. let v = v\<lparr>vui_max_bytes_per_pic_denom := x\<rparr> in
       read_ue (vui_max_bits_per_mb_denom v) (\<lambda>st x. ret st (v\<lparr>vui_max_bits_per_mb_denom := x\<rparr>))
       (\<lambda>x. let v = v\<lparr>vui_max_bits_per_mb_denom := x\<rparr> in
       read_ue (vui_log2_max_mv_length_horizontal v) (\<lambda>st x. ret st (v\<lparr>vui_log2_max_mv_length_horizontal := x\<rparr>))
       (\<lambda>x. let v = v\<lparr>vui_log2_max_mv_length_horizontal := x\<rparr> in
       read_ue (vui_log2_max_mv_length_vertical v) (\<lambda>st x. ret st (v\<lparr>vui_log2_max_mv_length_vertical := x\<rparr>))
       (\<lambda>x. let v = v\<lparr>vui_log2_max_mv_length_vertical := x\<rparr> in
       read_ue (vui_num_reorder_frames v) (\<lambda>st x. ret st (v\<lparr>vui_num_reorder_frames := x\<rparr>))
       (\<lambda>x. let v = v\<lparr>vui_num_reorder_frames := x\<rparr> in
       read_ue (vui_max_dec_frame_buffering v) (\<lambda>st x. ret st (v\<lparr>vui_max_dec_frame_buffering := x\<rparr>))
       (\<lambda>x. k (v\<lparr>vui_max_dec_frame_buffering := x\<rparr>))))))))
     else k (v\<lparr>vui_motion_vectors_over_pic_boundaries_flag := 1, vui_max_bytes_per_pic_denom := 2,
       vui_max_bits_per_mb_denom := 1, vui_log2_max_mv_length_horizontal := 16, vui_log2_max_mv_length_vertical := 16,
       vui_num_reorder_frames := MAX_DPB_SIZE, vui_max_dec_frame_buffering := MAX_DPB_SIZE\<rparr>))"

definition h264bsdDecodeVuiParameters :: "'r vui_cont \<Rightarrow> strm_data \<Rightarrow> 'r option" where
  "h264bsdDecodeVuiParameters ret =
     vui_aspect_ratio zero_vui ret (\<lambda>v. vui_overscan v ret (\<lambda>v. vui_video_signal v ret (\<lambda>v.
     vui_chroma_loc v ret (\<lambda>v. vui_timing v ret (\<lambda>v. vui_nal_hrd v ret (\<lambda>v. vui_vcl_hrd v ret (\<lambda>v.
     vui_low_delay v ret (\<lambda>v. read_flag (ret END_OF_STREAM v) (\<lambda>f. let v = v\<lparr>vui_pic_struct_present_flag := f\<rparr> in
     vui_restriction v ret (ret HANTRO_OK))))))))))"

end
