(* ===== verification/H264Sps.thy ===== *)
theory H264Sps
  imports H264Vui H264PpsStream
begin

text \<open>
  Sequence parameter sets of the decoder: vc8000d/software/source/h264high/legacy/h264hwd\_seq\_param\_set.c,
  h264bsdDecodeSeqParamSet with GetDpbSize and the multiview extension. The
  parser is cut into stages in the order of the code. On failure the status is the result.

  invalid\_dpb\_size is set to 1 in one branch and read without having been initialised in the other: the
  value it has there is the argument junk. alloc says which allocation succeeds; delta are the uninitialised
  variables of ScalingList.
\<close>

subsection \<open>Sizes of the decoded picture buffer\<close>

definition INVALID_DPB_SIZE :: "32 word" where "INVALID_DPB_SIZE = 0x7FFFFFFF"
definition MAX_NUM_VIEWS :: nat where "MAX_NUM_VIEWS = 2"

text \<open>The switch over level\_idc: 1024 * MaxDPB and the largest picture\<close>

definition level_limits :: "32 word \<Rightarrow> (32 word \<times> 32 word) option" where
  "level_limits level = map_of
     [(10, (396, 99)), (11, (900, 396)), (12, (2376, 396)), (13, (2376, 396)), (20, (2376, 396)), (21, (4752, 792)),
      (22, (8100, 1620)), (30, (8100, 1620)), (31, (18000, 3600)), (32, (20480, 5120)), (40, (32768, 8192)),
      (41, (32768, 8192)), (42, (34816, 8704)), (50, (110400, 22080)), (51, (184320, 36864)), (52, (184320, 36864)),
      (60, (696320, 139264)), (61, (696320, 139264)), (62, (696320, 139264))] level"

definition GetDpbSize :: "32 word \<Rightarrow> 32 word \<Rightarrow> 32 word" where
  "GetDpbSize pic_size_in_mbs level_idc =
     (if pic_size_in_mbs = 0 then INVALID_DPB_SIZE
      else case level_limits level_idc of
        None \<Rightarrow> INVALID_DPB_SIZE
      | Some (tmp, max_pic_size_in_mbs) \<Rightarrow>
          if pic_size_in_mbs > max_pic_size_in_mbs then INVALID_DPB_SIZE
          else min (tmp div pic_size_in_mbs) 16)"

subsection \<open>The multiview extension\<close>

type_synonym sps_result = "(32 word + seq_param_set \<times> strm_data) option"
type_synonym sps_step = "seq_param_set \<Rightarrow> (seq_param_set \<Rightarrow> strm_data \<Rightarrow> (32 word + seq_param_set \<times> strm_data) option)
  \<Rightarrow> strm_data \<Rightarrow> (32 word + seq_param_set \<times> strm_data) option"
type_synonym sps_cont = "strm_data \<Rightarrow> (32 word + seq_param_set \<times> strm_data) option"

fun mvc_view_ids :: "nat \<Rightarrow> nat \<Rightarrow> sps_step" where
  "mvc_view_ids i 0 p k s = k p s"
| "mvc_view_ids i (Suc n) p k s =
     read_ue 0 failed_ue (\<lambda>v. mvc_view_ids (Suc i) n
       (if i < MAX_NUM_VIEWS then p\<lparr>sps_view_id := (sps_view_id p)[i := v]\<rparr> else p) k) s"

text \<open>n code numbers that are skipped; the second form does not look at the status.\<close>

fun skip_ues :: "nat \<Rightarrow> sps_cont \<Rightarrow> sps_cont" where
  "skip_ues 0 k s = k s"
| "skip_ues (Suc n) k s = read_ue 0 failed_ue (\<lambda>v. skip_ues n k) s"

fun ignore_ues :: "nat \<Rightarrow> sps_cont \<Rightarrow> sps_cont" where
  "ignore_ues 0 k s = k s"
| "ignore_ues (Suc n) k s = read_ue 0 (\<lambda>st v. ignore_ues n k) (\<lambda>v. ignore_ues n k) s"

text \<open>The reference lists of the views i to i + n - 1, of either list\<close>

fun mvc_refs :: "nat \<Rightarrow> sps_cont \<Rightarrow> sps_cont" where
  "mvc_refs 0 k s = k s"
| "mvc_refs (Suc n) k s =
     read_ue 0 failed_ue (\<lambda>v. skip_ues (unat v) (read_ue 0 failed_ue (\<lambda>v. skip_ues (unat v) (mvc_refs n k)))) s"

fun mvc_ops :: "nat \<Rightarrow> sps_cont \<Rightarrow> sps_cont" where
  "mvc_ops 0 k s = k s"
| "mvc_ops (Suc n) k s =
     read_any 3 (\<lambda>tmp. read_ue 0 failed_ue (\<lambda>v. ignore_ues (unat (v + 1))
       (read_ue 0 failed_ue (\<lambda>v. mvc_ops n k)))) s"

fun mvc_levels :: "nat \<Rightarrow> sps_cont \<Rightarrow> sps_cont" where
  "mvc_levels 0 k s = k s"
| "mvc_levels (Suc n) k s =
     read_any 8 (\<lambda>tmp. read_ue 0 failed_ue (\<lambda>v. mvc_ops (unat (v + 1)) (mvc_levels n k))) s"

text \<open>One HRD structure that is read and dropped, whatever the status; its fields are not used.\<close>

definition mvc_hrd :: "(32 word \<Rightarrow> sps_cont) \<Rightarrow> sps_cont" where
  "mvc_hrd k = read_any 1 (\<lambda>tmp. if tmp = 1 then h264bsdDecodeHrdParameters zero_hrd (\<lambda>st h. k 1) else k 0)"

definition mvc_timing :: "sps_cont \<Rightarrow> sps_cont" where
  "mvc_timing k = read_any 1 (\<lambda>tmp. if tmp = 1 then
     read_32 (failed END_OF_STREAM) (\<lambda>tmp. read_32 (failed END_OF_STREAM) (\<lambda>tmp. read_any 1 (\<lambda>tmp. k)))
     else k)"

fun mvc_vui_ops :: "nat \<Rightarrow> sps_cont \<Rightarrow> sps_cont" where
  "mvc_vui_ops 0 k s = k s"
| "mvc_vui_ops (Suc n) k s =
     read_any 3 (\<lambda>tmp. read_ue 0 failed_ue (\<lambda>v. ignore_ues (unat (v + 1)) (mvc_timing
       (mvc_hrd (\<lambda>j1. mvc_hrd (\<lambda>j2.
         (if j1 \<noteq> 0 \<or> j2 \<noteq> 0 then read_any 1 (\<lambda>tmp. read_any 1 (\<lambda>tmp. mvc_vui_ops n k))
          else read_any 1 (\<lambda>tmp. mvc_vui_ops n k)))))))) s"

definition DecodeMvcExtension :: sps_step where
  "DecodeMvcExtension p k =
     read_ue 0 failed_ue (\<lambda>v. let p = p\<lparr>sps_num_views := v + 1\<rparr>; views = unat (v + 1) in
     if views > MAX_NUM_VIEWS then failed HANTRO_NOK
     else mvc_view_ids 0 views p (\<lambda>p. mvc_refs (views - 1) (mvc_refs (views - 1)
       (read_ue 0 failed_ue (\<lambda>v. mvc_levels (unat (v + 1))
       (read_any 1 (\<lambda>tmp. if tmp = 1
         then read_ue 0 failed_ue (\<lambda>v. mvc_vui_ops (unat (v + 1)) (k p))
         else k p)))))))"

subsection \<open>h264bsdDecodeSeqParamSet\<close>

text \<open>After DWLmemset\<close>

definition zero_sps :: seq_param_set where
  "zero_sps = \<lparr>sps_profile_idc = 0, sps_level_idc = 0, sps_constrained_set0_flag = 0, sps_constrained_set1_flag = 0,
     sps_constrained_set2_flag = 0, sps_constrained_set3_flag = 0, sps_seq_parameter_set_id = 0, sps_max_frame_num = 0,
     sps_pic_order_cnt_type = 0, sps_max_pic_order_cnt_lsb = 0, sps_delta_pic_order_always_zero_flag = 0,
     sps_offset_for_non_ref_pic = 0, sps_offset_for_top_to_bottom_field = 0,
     sps_num_ref_frames_in_pic_order_cnt_cycle = 0, sps_offset_for_ref_frame = None,
     sps_num_ref_frames = 0, sps_gaps_in_frame_num_value_allowed_flag = 0, sps_pic_width_in_mbs = 0,
     sps_pic_height_in_mbs = 0, sps_frame_cropping_flag = 0, sps_frame_crop_left_offset = 0,
     sps_frame_crop_right_offset = 0, sps_frame_crop_top_offset = 0, sps_frame_crop_bottom_offset = 0,
     sps_vui_parameters_present_flag = 0, sps_vui_parameters = None, sps_max_dpb_size = 0, sps_frame_mbs_only_flag = 0,
     sps_mb_adaptive_frame_field_flag = 0, sps_direct8x8_inference_flag = 0, sps_chroma_format_idc = 0,
     sps_mono_chrome = 0, sps_bit_depth_luma = 0, sps_bit_depth_chroma = 0, sps_scaling_matrix_present_flag = 0,
     sps_scaling_list_present = replicate 8 0, sps_use_default_scaling = replicate 8 0,
     sps_scaling_list = replicate 8 (replicate 64 0), sps_num_views = 0, sps_view_id = replicate MAX_NUM_VIEWS 0\<rparr>"

definition sps_profile :: sps_step where
  "sps_profile p k =
     read_u 8 (failed HANTRO_NOK) (\<lambda>tmp. let p = p\<lparr>sps_profile_idc := tmp\<rparr> in
     read_any 1 (\<lambda>tmp. let p = p\<lparr>sps_constrained_set0_flag := tmp\<rparr> in
     read_any 1 (\<lambda>tmp. let p = p\<lparr>sps_constrained_set1_flag := tmp\<rparr> in
     read_any 1 (\<lambda>tmp. let p = p\<lparr>sps_constrained_set2_flag := tmp\<rparr> in
     read_u 1 (failed HANTRO_NOK) (\<lambda>tmp. let p = p\<lparr>sps_constrained_set3_flag := tmp\<rparr> in
     read_u 4 (failed HANTRO_NOK) (\<lambda>tmp.
     read_u 8 (failed HANTRO_NOK) (\<lambda>tmp. let p = p\<lparr>sps_level_idc := tmp\<rparr> in
     read_ue 0 failed_ue (\<lambda>v. let p = p\<lparr>sps_seq_parameter_set_id := v\<rparr> in
     if v \<ge> MAX_NUM_SEQ_PARAM_SETS then failed HANTRO_NOK else k p))))))))"

text \<open>The check behind chroma\_format\_idc looks at the status, which is HANTRO\_OK there, and not at the value.\<close>

definition sps_chroma_format :: sps_step where
  "sps_chroma_format p k =
     read_ue 0 failed_ue (\<lambda>value. if HANTRO_OK > (1 :: 32 word) then failed HANTRO_NOK
     else let p = p\<lparr>sps_chroma_format_idc := value\<rparr>
     in k (if value = 0 then p\<lparr>sps_mono_chrome := 1\<rparr> else p))"

definition sps_high :: "(nat \<Rightarrow> 32 word) \<Rightarrow> sps_step" where
  "sps_high delta p k =
     (if sps_profile_idc p \<ge> 100 then
        sps_chroma_format p (\<lambda>p.
        read_ue 0 failed_ue (\<lambda>value. let p = p\<lparr>sps_bit_depth_luma := value + 8\<rparr> in
        read_ue 0 failed_ue (\<lambda>value. let p = p\<lparr>sps_bit_depth_chroma := value + 8\<rparr> in
        read_u 1 (failed HANTRO_NOK) (\<lambda>tmp.
        read_u 1 (failed HANTRO_NOK) (\<lambda>tmp. let p = p\<lparr>sps_scaling_matrix_present_flag := tmp\<rparr> in
        if tmp \<noteq> 0 then
          read_scaling_lists delta 0 8 (sps_scaling_list_present p) (sps_scaling_list p)
            (\<lambda>present ls. k (p\<lparr>sps_scaling_list_present := present, sps_scaling_list := ls\<rparr>))
        else k p)))))
      else k (p\<lparr>sps_chroma_format_idc := 1, sps_scaling_matrix_present_flag := 0,
                sps_bit_depth_luma := 8, sps_bit_depth_chroma := 8\<rparr>))"

definition sps_frame_num :: sps_step where
  "sps_frame_num p k =
     read_ue 0 failed_ue (\<lambda>value. if value > 12 then failed HANTRO_NOK
     else k (p\<lparr>sps_max_frame_num := push_bit (unat (value + 4)) 1\<rparr>))"

text \<open>The loop over offset\_for\_ref\_frame\<close>

fun read_ses :: "nat \<Rightarrow> int list \<Rightarrow> (int list \<Rightarrow> sps_cont) \<Rightarrow> sps_cont" where
  "read_ses 0 acc k s = k acc s"
| "read_ses (Suc n) acc k s = read_se failed_ue (\<lambda>v. read_ses n (acc @ [v]) k) s"

definition sps_poc1 :: "(nat \<Rightarrow> bool) \<Rightarrow> sps_step" where
  "sps_poc1 alloc p k =
     read_flag (failed HANTRO_NOK) (\<lambda>f. let p = p\<lparr>sps_delta_pic_order_always_zero_flag := f\<rparr> in
     read_se failed_ue (\<lambda>v. let p = p\<lparr>sps_offset_for_non_ref_pic := v\<rparr> in
     read_se failed_ue (\<lambda>v. let p = p\<lparr>sps_offset_for_top_to_bottom_field := v\<rparr> in
     read_ue 0 failed_ue (\<lambda>n. let p = p\<lparr>sps_num_ref_frames_in_pic_order_cnt_cycle := n\<rparr> in
     if n > 255 then failed HANTRO_NOK
     else if n \<noteq> 0 then
       (if \<not> alloc 0 then failed MEMORY_ALLOCATION_ERROR
        else read_ses (unat n) [] (\<lambda>vs. k (p\<lparr>sps_offset_for_ref_frame := Some vs\<rparr>)))
     else k (p\<lparr>sps_offset_for_ref_frame := None\<rparr>)))))"

definition sps_poc :: "(nat \<Rightarrow> bool) \<Rightarrow> sps_step" where
  "sps_poc alloc p k =
     read_ue 0 failed_ue (\<lambda>value. if value > 2 then failed HANTRO_NOK
     else let p = p\<lparr>sps_pic_order_cnt_type := value\<rparr> in
     if value = 0 then
       read_ue 0 failed_ue (\<lambda>value. if value > 12 then failed HANTRO_NOK
       else k (p\<lparr>sps_max_pic_order_cnt_lsb := push_bit (unat (value + 4)) 1\<rparr>))
     else if value = 1 then sps_poc1 alloc p k
     else k p)"

definition sps_refs :: "bool \<Rightarrow> sps_step" where
  "sps_refs mvc_flag p k =
     read_ue 0 failed_ue (\<lambda>v. let p = p\<lparr>sps_num_ref_frames := v\<rparr> in
     if unat v > MAX_NUM_REF_PICS \<or> mvc_flag \<and> v > 15 then failed HANTRO_NOK
     else read_flag (failed HANTRO_NOK) (\<lambda>f. k (p\<lparr>sps_gaps_in_frame_num_value_allowed_flag := f\<rparr>)))"

definition sps_size :: sps_step where
  "sps_size p k =
     read_ue 0 failed_ue (\<lambda>value. let p = p\<lparr>sps_pic_width_in_mbs := value + 1\<rparr> in
     read_ue 0 failed_ue (\<lambda>value. let p = p\<lparr>sps_pic_height_in_mbs := value + 1\<rparr> in
     read_u 1 (failed HANTRO_NOK) (\<lambda>tmp. let p = p\<lparr>sps_frame_mbs_only_flag := tmp\<rparr>;
       rest = (\<lambda>p. read_u 1 (failed HANTRO_NOK) (\<lambda>tmp. k (p\<lparr>sps_direct8x8_inference_flag := tmp\<rparr>))) in
     if tmp = 0 then
       read_any 1 (\<lambda>tmp. rest (p\<lparr>sps_mb_adaptive_frame_field_flag := tmp,
         sps_pic_height_in_mbs := sps_pic_height_in_mbs p * 2\<rparr>))
     else rest p)))"

text \<open>(i32)low > 8 * (i32)mbs - ((i32)high + 1), None where the signed arithmetic overflows\<close>

definition crop_exceeds :: "32 word \<Rightarrow> 32 word \<Rightarrow> 32 word \<Rightarrow> bool option" where
  "crop_exceeds low mbs high = do {
     size \<leftarrow> chk (8 * sint mbs);
     used \<leftarrow> chk (sint high + 1);
     left \<leftarrow> chk (size - used);
     Some (sint low > left)
   }"

text \<open>The whole condition; ub is what a comparison gives where it overflows.\<close>

definition crop_invalid :: "bool \<Rightarrow> seq_param_set \<Rightarrow> bool" where
  "crop_invalid ub p =
     (let test = (\<lambda>r. case r of None \<Rightarrow> ub | Some c \<Rightarrow> c)
      in test (crop_exceeds (sps_frame_crop_left_offset p) (sps_pic_width_in_mbs p) (sps_frame_crop_right_offset p))
       \<or> test (crop_exceeds (sps_frame_crop_top_offset p) (sps_pic_height_in_mbs p) (sps_frame_crop_bottom_offset p)))"

definition sps_cropping :: "bool \<Rightarrow> sps_step" where
  "sps_cropping ub p k =
     read_flag (failed HANTRO_NOK) (\<lambda>f. let p = p\<lparr>sps_frame_cropping_flag := f\<rparr> in
     if f \<noteq> 0 then
       read_ue 0 failed_ue (\<lambda>v. let p = p\<lparr>sps_frame_crop_left_offset := v\<rparr> in
       read_ue 0 failed_ue (\<lambda>v. let p = p\<lparr>sps_frame_crop_right_offset := v\<rparr> in
       read_ue 0 failed_ue (\<lambda>v. let p = p\<lparr>sps_frame_crop_top_offset := v\<rparr> in
       read_ue 0 failed_ue (\<lambda>v. let p = p\<lparr>sps_frame_crop_bottom_offset := v\<rparr> in
       if crop_invalid ub p then failed HANTRO_NOK else k p))))
     else k p)"

text \<open>max\_dpb\_size, and whether invalid\_dpb\_size is set\<close>

definition sps_dpb :: "seq_param_set \<Rightarrow> seq_param_set \<times> bool" where
  "sps_dpb p = (
     let tmp = sps_pic_width_in_mbs p * sps_pic_height_in_mbs p;
         value = GetDpbSize tmp (sps_level_idc p)
     in if value = INVALID_DPB_SIZE \<or> sps_num_ref_frames p > value
        then (p\<lparr>sps_max_dpb_size := (if sps_num_ref_frames p \<noteq> 0 then sps_num_ref_frames p else 1)\<rparr>, True)
        else (p\<lparr>sps_max_dpb_size := value\<rparr>, False))"

text \<open>The checks of num\_reorder\_frames and max\_dec\_frame\_buffering; None is the error return.\<close>

definition vui_dpb_check :: "bool \<Rightarrow> seq_param_set \<Rightarrow> vui_parameters \<Rightarrow> seq_param_set option" where
  "vui_dpb_check invalid p v =
     (if vui_num_reorder_frames v > vui_max_dec_frame_buffering v
         \<or> vui_max_dec_frame_buffering v < sps_num_ref_frames p
         \<or> vui_max_dec_frame_buffering v > sps_max_dpb_size p
      then
        (if vui_max_dec_frame_buffering v > sps_max_dpb_size p \<and> invalid
         then Some (if vui_max_dec_frame_buffering v \<le> 16 then p\<lparr>sps_max_dpb_size := vui_max_dec_frame_buffering v\<rparr> else p)
         else if vui_num_reorder_frames v > vui_max_dec_frame_buffering v then Some p
         else None)
      else Some p)"

definition vui_dpb_size :: "seq_param_set \<Rightarrow> vui_parameters \<Rightarrow> seq_param_set" where
  "vui_dpb_size p v = (
     let value = max 1 (vui_max_dec_frame_buffering v)
     in if sps_num_ref_frames p > value then p\<lparr>sps_max_dpb_size := sps_num_ref_frames p\<rparr>
        else if value \<le> 16 then p\<lparr>sps_max_dpb_size := value\<rparr> else p)"

definition sps_vui :: "(nat \<Rightarrow> bool) \<Rightarrow> bool \<Rightarrow> sps_step" where
  "sps_vui alloc junk p0 k = (case sps_dpb p0 of (p, invalid) \<Rightarrow>
     read_flag (failed HANTRO_NOK) (\<lambda>f. let p = p\<lparr>sps_vui_parameters_present_flag := f\<rparr> in
     if f \<noteq> 0 then
       (if \<not> alloc 1 then failed MEMORY_ALLOCATION_ERROR
        else h264bsdDecodeVuiParameters (\<lambda>tmp v.
          let v = (if tmp = HANTRO_OK then v\<lparr>vui_update_hrdparameter_flag := 1, vui_error_hrdparameter_flag := 0\<rparr>
                   else v\<lparr>vui_update_hrdparameter_flag := 0, vui_error_hrdparameter_flag := 1\<rparr>);
              v = (if tmp = END_OF_STREAM then v\<lparr>vui_bitstream_restriction_flag := vui_bitstream_restriction_flag v OR 1,
                     vui_max_dec_frame_buffering := sps_max_dpb_size p\<rparr> else v)
          in if tmp \<noteq> END_OF_STREAM \<and> tmp \<noteq> HANTRO_OK then failed tmp
             else let p = p\<lparr>sps_vui_parameters := Some v\<rparr> in
             if vui_bitstream_restriction_flag v \<noteq> 0 then
               (case vui_dpb_check (invalid \<or> junk) p v of None \<Rightarrow> failed HANTRO_NOK | Some p \<Rightarrow> k (vui_dpb_size p v))
             else k p))
     else k p))"

definition sps_mvc :: "bool \<Rightarrow> sps_step" where
  "sps_mvc mvc_flag p k =
     (if mvc_flag then
        (if sps_profile_idc p = 118 \<or> sps_profile_idc p = 128
         then read_any 1 (\<lambda>tmp. DecodeMvcExtension p (\<lambda>p. read_any 1 (\<lambda>tmp. k p)))
         else read_any 1 (\<lambda>tmp. k p))
      else k p)"

definition h264bsdDecodeSeqParamSet ::
  "(nat \<Rightarrow> bool) \<Rightarrow> (nat \<Rightarrow> 32 word) \<Rightarrow> bool \<Rightarrow> bool \<Rightarrow> bool \<Rightarrow> strm_data \<Rightarrow> sps_result" where
  "h264bsdDecodeSeqParamSet alloc delta junk ub mvc_flag =
     sps_profile zero_sps (\<lambda>p. sps_high delta p (\<lambda>p. sps_frame_num p (\<lambda>p. sps_poc alloc p (\<lambda>p.
     sps_refs mvc_flag p (\<lambda>p. sps_size p (\<lambda>p. sps_cropping ub p (\<lambda>p. sps_vui alloc junk p (\<lambda>p.
     sps_mvc mvc_flag p (\<lambda>p s. do {
       (tmp, s) \<leftarrow> h264bsdRbspTrailingBits s;
       Some (Inr (p, s))
     })))))))))"

end
