(* ===== verification/H264SpsCompare.thy ===== *)
theory H264SpsCompare
  imports H264Sps
begin

text \<open>
  h264bsdCompareSeqParamSets of h264hwd\_seq\_param\_set.c: whether a sequence parameter set that arrives
  again is the stored one. The result is 0 (False) for equal and 1 (True) for different sets, with the second
  set, into which the scaling lists of the first are copied. None is an access out of an array or through a
  null pointer.
\<close>

definition sps_heads_equal :: "seq_param_set \<Rightarrow> seq_param_set \<Rightarrow> bool" where
  "sps_heads_equal p q =
     (sps_profile_idc p = sps_profile_idc q \<and> sps_level_idc p = sps_level_idc q
      \<and> sps_max_frame_num p = sps_max_frame_num q \<and> sps_pic_order_cnt_type p = sps_pic_order_cnt_type q
      \<and> sps_num_ref_frames p = sps_num_ref_frames q
      \<and> sps_gaps_in_frame_num_value_allowed_flag p = sps_gaps_in_frame_num_value_allowed_flag q
      \<and> sps_pic_width_in_mbs p = sps_pic_width_in_mbs q \<and> sps_pic_height_in_mbs p = sps_pic_height_in_mbs q
      \<and> sps_frame_cropping_flag p = sps_frame_cropping_flag q \<and> sps_frame_mbs_only_flag p = sps_frame_mbs_only_flag q
      \<and> sps_vui_parameters_present_flag p = sps_vui_parameters_present_flag q
      \<and> sps_scaling_matrix_present_flag p = sps_scaling_matrix_present_flag q)"

text \<open>The loop over n elements of two arrays from i: whether one differs\<close>

fun elements_differ :: "nat \<Rightarrow> nat \<Rightarrow> 'a list \<Rightarrow> 'a list \<Rightarrow> bool option" where
  "elements_differ i 0 xs ys = Some False"
| "elements_differ i (Suc n) xs ys = do {
     x \<leftarrow> array_read xs i;
     y \<leftarrow> array_read ys i;
     if x \<noteq> y then Some True else elements_differ (Suc i) n xs ys
   }"

definition arrays_differ :: "nat \<Rightarrow> 'a list option \<Rightarrow> 'a list option \<Rightarrow> bool option" where
  "arrays_differ n a b =
     (if n = 0 then Some False else do { xs \<leftarrow> a; ys \<leftarrow> b; elements_differ 0 n xs ys })"

definition poc_differs :: "seq_param_set \<Rightarrow> seq_param_set \<Rightarrow> bool option" where
  "poc_differs p q =
     (if sps_pic_order_cnt_type p = 0 then Some (sps_max_pic_order_cnt_lsb p \<noteq> sps_max_pic_order_cnt_lsb q)
      else if sps_pic_order_cnt_type p = 1 then
        (if sps_delta_pic_order_always_zero_flag p \<noteq> sps_delta_pic_order_always_zero_flag q
            \<or> sps_offset_for_non_ref_pic p \<noteq> sps_offset_for_non_ref_pic q
            \<or> sps_offset_for_top_to_bottom_field p \<noteq> sps_offset_for_top_to_bottom_field q
            \<or> sps_num_ref_frames_in_pic_order_cnt_cycle p \<noteq> sps_num_ref_frames_in_pic_order_cnt_cycle q
         then Some True
         else arrays_differ (unat (sps_num_ref_frames_in_pic_order_cnt_cycle p))
           (sps_offset_for_ref_frame p) (sps_offset_for_ref_frame q))
      else Some False)"

definition crops_differ :: "seq_param_set \<Rightarrow> seq_param_set \<Rightarrow> bool" where
  "crops_differ p q =
     (sps_frame_cropping_flag p \<noteq> 0
      \<and> (sps_frame_crop_left_offset p \<noteq> sps_frame_crop_left_offset q
       \<or> sps_frame_crop_right_offset p \<noteq> sps_frame_crop_right_offset q
       \<or> sps_frame_crop_top_offset p \<noteq> sps_frame_crop_top_offset q
       \<or> sps_frame_crop_bottom_offset p \<noteq> sps_frame_crop_bottom_offset q))"

definition mbaffs_differ :: "seq_param_set \<Rightarrow> seq_param_set \<Rightarrow> bool" where
  "mbaffs_differ p q = (sps_frame_mbs_only_flag p = 0
     \<and> sps_mb_adaptive_frame_field_flag p \<noteq> sps_mb_adaptive_frame_field_flag q)"

text \<open>The scaling lists are copied into the second set, not compared.\<close>

definition copy_scaling :: "seq_param_set \<Rightarrow> seq_param_set \<Rightarrow> seq_param_set" where
  "copy_scaling p q =
     (if sps_scaling_matrix_present_flag p \<noteq> 0
      then q\<lparr>sps_scaling_list_present := sps_scaling_list_present p, sps_scaling_list := sps_scaling_list p\<rparr> else q)"

definition vui_flags_equal :: "vui_parameters \<Rightarrow> vui_parameters \<Rightarrow> bool" where
  "vui_flags_equal v w =
     (vui_aspect_ratio_present_flag v = vui_aspect_ratio_present_flag w
      \<and> vui_overscan_info_present_flag v = vui_overscan_info_present_flag w
      \<and> vui_video_signal_type_present_flag v = vui_video_signal_type_present_flag w
      \<and> vui_chroma_loc_info_present_flag v = vui_chroma_loc_info_present_flag w
      \<and> vui_timing_info_present_flag v = vui_timing_info_present_flag w
      \<and> vui_nal_hrd_parameters_present_flag v = vui_nal_hrd_parameters_present_flag w
      \<and> vui_vcl_hrd_parameters_present_flag v = vui_vcl_hrd_parameters_present_flag w
      \<and> vui_pic_struct_present_flag v = vui_pic_struct_present_flag w
      \<and> vui_bitstream_restriction_flag v = vui_bitstream_restriction_flag w)"

definition hrds_differ :: "hrd_parameters \<Rightarrow> hrd_parameters \<Rightarrow> bool option" where
  "hrds_differ h g =
     (if hrd_cpb_cnt h \<noteq> hrd_cpb_cnt g \<or> hrd_bit_rate_scale h \<noteq> hrd_bit_rate_scale g
         \<or> hrd_cpb_size_scale h \<noteq> hrd_cpb_size_scale g
         \<or> hrd_initial_cpb_removal_delay_length h \<noteq> hrd_initial_cpb_removal_delay_length g
         \<or> hrd_cpb_removal_delay_length h \<noteq> hrd_cpb_removal_delay_length g
         \<or> hrd_dpb_output_delay_length h \<noteq> hrd_dpb_output_delay_length g
         \<or> hrd_time_offset_length h \<noteq> hrd_time_offset_length g
      then Some True
      else elements_differ 0 (unat (hrd_cpb_cnt h))
        (zip (hrd_bit_rate_value h) (zip (hrd_cpb_size_value h) (hrd_cbr_flag h)))
        (zip (hrd_bit_rate_value g) (zip (hrd_cpb_size_value g) (hrd_cbr_flag g))))"

text \<open>The chain of else if: only the first part that is present is compared.\<close>

definition vuis_differ :: "vui_parameters \<Rightarrow> vui_parameters \<Rightarrow> bool option" where
  "vuis_differ v w =
     (if \<not> vui_flags_equal v w then Some True
      else if vui_aspect_ratio_present_flag v \<noteq> 0 then
        Some (vui_aspect_ratio_idc v \<noteq> vui_aspect_ratio_idc w
          \<or> vui_aspect_ratio_idc v = ASPECT_RATIO_EXTENDED_SAR
            \<and> (vui_sar_width v \<noteq> vui_sar_width w \<or> vui_sar_height v \<noteq> vui_sar_height w))
      else if vui_overscan_info_present_flag v \<noteq> 0 then
        Some (vui_overscan_appropriate_flag v \<noteq> vui_overscan_appropriate_flag w)
      else if vui_video_signal_type_present_flag v \<noteq> 0 then
        Some (vui_video_format v \<noteq> vui_video_format w \<or> vui_video_full_range_flag v \<noteq> vui_video_full_range_flag w
          \<or> vui_colour_description_present_flag v \<noteq> vui_colour_description_present_flag w
          \<or> vui_colour_description_present_flag v \<noteq> 0
            \<and> (vui_colour_primaries v \<noteq> vui_colour_primaries w
             \<or> vui_transfer_characteristics v \<noteq> vui_transfer_characteristics w
             \<or> vui_matrix_coefficients v \<noteq> vui_matrix_coefficients w))
      else if vui_chroma_loc_info_present_flag v \<noteq> 0 then
        Some (vui_chroma_sample_loc_type_top_field v \<noteq> vui_chroma_sample_loc_type_top_field w
          \<or> vui_chroma_sample_loc_type_bottom_field v \<noteq> vui_chroma_sample_loc_type_bottom_field w)
      else if vui_timing_info_present_flag v \<noteq> 0 then
        Some (vui_num_units_in_tick v \<noteq> vui_num_units_in_tick w \<or> vui_time_scale v \<noteq> vui_time_scale w
          \<or> vui_fixed_frame_rate_flag v \<noteq> vui_fixed_frame_rate_flag w)
      else if vui_nal_hrd_parameters_present_flag v \<noteq> 0 \<or> vui_vcl_hrd_parameters_present_flag v \<noteq> 0 then do {
        d \<leftarrow> (if vui_nal_hrd_parameters_present_flag v \<noteq> 0
             then hrds_differ (vui_nal_hrd_parameters v) (vui_nal_hrd_parameters w)
             else hrds_differ (vui_vcl_hrd_parameters v) (vui_vcl_hrd_parameters w));
        Some (d \<or> vui_low_delay_hrd_flag v \<noteq> vui_low_delay_hrd_flag w)
      }
      else if vui_bitstream_restriction_flag v \<noteq> 0 then
        Some (vui_motion_vectors_over_pic_boundaries_flag v \<noteq> vui_motion_vectors_over_pic_boundaries_flag w
          \<or> vui_max_bytes_per_pic_denom v \<noteq> vui_max_bytes_per_pic_denom w
          \<or> vui_max_bits_per_mb_denom v \<noteq> vui_max_bits_per_mb_denom w
          \<or> vui_log2_max_mv_length_horizontal v \<noteq> vui_log2_max_mv_length_horizontal w
          \<or> vui_log2_max_mv_length_vertical v \<noteq> vui_log2_max_mv_length_vertical w
          \<or> vui_num_reorder_frames v \<noteq> vui_num_reorder_frames w
          \<or> vui_max_dec_frame_buffering v \<noteq> vui_max_dec_frame_buffering w)
      else Some False)"

definition h264bsdCompareSeqParamSets :: "seq_param_set \<Rightarrow> seq_param_set \<Rightarrow> (bool \<times> seq_param_set) option" where
  "h264bsdCompareSeqParamSets p q =
     (if \<not> sps_heads_equal p q then Some (True, q)
      else do {
        d \<leftarrow> poc_differs p q;
        if d \<or> crops_differ p q \<or> mbaffs_differ p q then Some (True, q)
        else do {
          q \<leftarrow> Some (copy_scaling p q);
          if sps_vui_parameters_present_flag p \<noteq> 0 then do {
            v \<leftarrow> sps_vui_parameters p;
            w \<leftarrow> sps_vui_parameters q;
            d \<leftarrow> vuis_differ v w;
            Some (d, q)
          } else Some (False, q)
        }
      })"

end
