(* ===== verification/H264Nal.thy ===== *)
theory H264Nal
  imports H264Reading
begin

text \<open>
  NAL unit headers of the decoder: vc8000d/software/source/h264high/legacy/h264hwd\_nal\_unit.c and .h,
  with the multiview extension (Annex H) and the skipped scalable one (Annex G).
\<close>

subsection \<open>Data\<close>

text \<open>nalUnitType\_e\<close>

definition NAL_CODED_SLICE :: "32 word" where "NAL_CODED_SLICE = 1"
definition NAL_CODED_SLICE_DP_A :: "32 word" where "NAL_CODED_SLICE_DP_A = 2"
definition NAL_CODED_SLICE_DP_B :: "32 word" where "NAL_CODED_SLICE_DP_B = 3"
definition NAL_CODED_SLICE_DP_C :: "32 word" where "NAL_CODED_SLICE_DP_C = 4"
definition NAL_SEI :: "32 word" where "NAL_SEI = 6"
definition NAL_SEQ_PARAM_SET :: "32 word" where "NAL_SEQ_PARAM_SET = 7"
definition NAL_PIC_PARAM_SET :: "32 word" where "NAL_PIC_PARAM_SET = 8"
definition NAL_ACCESS_UNIT_DELIMITER :: "32 word" where "NAL_ACCESS_UNIT_DELIMITER = 9"
definition NAL_END_OF_SEQUENCE :: "32 word" where "NAL_END_OF_SEQUENCE = 10"
definition NAL_END_OF_STREAM :: "32 word" where "NAL_END_OF_STREAM = 11"
definition NAL_FILLER_DATA :: "32 word" where "NAL_FILLER_DATA = 12"
definition NAL_PREFIX :: "32 word" where "NAL_PREFIX = 14"

lemmas nal_type_defs = NAL_CODED_SLICE_def NAL_CODED_SLICE_DP_A_def NAL_CODED_SLICE_DP_B_def
  NAL_CODED_SLICE_DP_C_def NAL_CODED_SLICE_IDR_def NAL_SEI_def NAL_SEQ_PARAM_SET_def NAL_PIC_PARAM_SET_def
  NAL_ACCESS_UNIT_DELIMITER_def NAL_END_OF_SEQUENCE_def NAL_END_OF_STREAM_def NAL_FILLER_DATA_def
  NAL_PREFIX_def NAL_CODED_SLICE_EXT_def

text \<open>DWLmemset(p\_nal\_unit, 0, sizeof(nalUnit\_t))\<close>

definition zero_nal :: nal_unit where
  "zero_nal = \<lparr>nal_unit_type = 0, nal_ref_idc = 0, svc_extension_flag = 0, non_idr_flag = 0,
     priority_id = 0, view_id = 0, temporal_id = 0, anchor_pic_flag = 0, inter_view_flag = 0\<rparr>"

subsection \<open>The header\<close>

text \<open>The result is the status, the structure and the stream; the caller keeps the structure on failure too.\<close>

definition nal_result :: "32 word \<Rightarrow> nal_unit \<Rightarrow> strm_data \<Rightarrow> (32 word \<times> nal_unit \<times> strm_data) option" where
  "nal_result st n s = Some (st, n, s)"

text \<open>The extension: the last tmp is compared with END\_OF\_STREAM.\<close>

definition nal_mvc :: "nal_unit \<Rightarrow> (32 word \<Rightarrow> nal_unit \<Rightarrow> strm_data \<Rightarrow> 'r option) \<Rightarrow> strm_data \<Rightarrow> 'r option" where
  "nal_mvc n k =
     read_any 1 (\<lambda>tmp. let n = n\<lparr>non_idr_flag := tmp\<rparr> in
     read_any 6 (\<lambda>tmp. let n = n\<lparr>priority_id := tmp\<rparr> in
     read_any 10 (\<lambda>tmp. let n = n\<lparr>view_id := tmp\<rparr> in
     read_any 3 (\<lambda>tmp. let n = n\<lparr>temporal_id := tmp\<rparr> in
     read_any 1 (\<lambda>tmp. let n = n\<lparr>anchor_pic_flag := tmp\<rparr> in
     read_any 1 (\<lambda>tmp. let n = n\<lparr>inter_view_flag := tmp\<rparr> in
     read_any 1 (\<lambda>tmp. k tmp n)))))))"

definition nal_svc :: "nal_unit \<Rightarrow> (32 word \<Rightarrow> nal_unit \<Rightarrow> strm_data \<Rightarrow> 'r option) \<Rightarrow> strm_data \<Rightarrow> 'r option" where
  "nal_svc n k =
     read_any 1 (\<lambda>tmp. read_any 6 (\<lambda>tmp. read_any 1 (\<lambda>tmp. read_any 3 (\<lambda>tmp. read_any 4 (\<lambda>tmp.
     read_any 3 (\<lambda>tmp. read_any 1 (\<lambda>tmp. read_any 1 (\<lambda>tmp. read_any 1 (\<lambda>tmp. read_any 2 (\<lambda>tmp. k tmp n))))))))))"

definition nal_extension :: "nal_unit \<Rightarrow> (nal_unit \<Rightarrow> strm_data \<Rightarrow> (32 word \<times> nal_unit \<times> strm_data) option)
    \<Rightarrow> strm_data \<Rightarrow> (32 word \<times> nal_unit \<times> strm_data) option" where
  "nal_extension n k =
     read_u 1 (nal_result HANTRO_NOK n) (\<lambda>tmp.
       let n = n\<lparr>svc_extension_flag := tmp\<rparr>
       in (if tmp = 0 then nal_mvc else nal_svc) n (\<lambda>tmp n.
         if tmp = END_OF_STREAM then nal_result HANTRO_NOK n else k n))"

definition h264bsdDecodeNalUnit :: "strm_data \<Rightarrow> (32 word \<times> nal_unit \<times> strm_data) option" where
  "h264bsdDecodeNalUnit s =
     (if sd_bit_pos s \<noteq> 0 then None
      else
        read_u 1 (nal_result HANTRO_NOK zero_nal) (\<lambda>tmp.
        read_any 2 (\<lambda>tmp. let n = zero_nal\<lparr>nal_ref_idc := tmp\<rparr> in
        read_any 5 (\<lambda>tmp. let n = n\<lparr>nal_unit_type := tmp\<rparr> in
          if tmp \<in> {NAL_CODED_SLICE_DP_A, NAL_CODED_SLICE_DP_B, NAL_CODED_SLICE_DP_C}
          then nal_result HANTRO_NOK n
          else if tmp \<in> {NAL_SEQ_PARAM_SET, NAL_PIC_PARAM_SET, NAL_CODED_SLICE_IDR} \<and> nal_ref_idc n = 0
          then nal_result HANTRO_NOK n
          else if tmp \<in> {NAL_SEI, NAL_ACCESS_UNIT_DELIMITER, NAL_END_OF_SEQUENCE, NAL_END_OF_STREAM, NAL_FILLER_DATA}
            \<and> nal_ref_idc n \<noteq> 0
          then nal_result HANTRO_NOK n
          else if nal_unit_type n = NAL_PREFIX \<or> nal_unit_type n = NAL_CODED_SLICE_EXT
          then nal_extension n (nal_result HANTRO_OK)
          else nal_result HANTRO_OK n))) s)"

subsection \<open>What the header gives\<close>

lemma returns_nal_result [step_intros]: "Q (st, n, s) \<Longrightarrow> returns Q (nal_result st n s)"
  by (simp add: nal_result_def returns_def)

text \<open>An accepted header: the ranges of the fields, and the rules on nal\_ref\_idc\<close>

definition nal_ok :: "nal_unit \<Rightarrow> bool" where
  "nal_ok n = (unat (nal_unit_type n) < 32 \<and> unat (nal_ref_idc n) < 4
     \<and> nal_unit_type n \<notin> {2, 3, 4}
     \<and> (nal_unit_type n \<in> {5, 7, 8} \<longrightarrow> nal_ref_idc n \<noteq> 0)
     \<and> (nal_unit_type n \<in> {6, 9, 10, 11, 12} \<longrightarrow> nal_ref_idc n = 0)
     \<and> unat (view_id n) < 1024 \<and> unat (priority_id n) < 64 \<and> unat (temporal_id n) < 8)"


lemma returns_if_args: "(c \<Longrightarrow> returns Q (f x y s)) \<Longrightarrow> (\<not> c \<Longrightarrow> returns Q (g x y s)) \<Longrightarrow> returns Q ((if c then f else g) x y s)"
  by simp

lemma aligned_left: "readable s \<Longrightarrow> sd_bit_pos s = 0 \<Longrightarrow> length (sd_rest s) = 0 \<or> 8 \<le> length (sd_rest s)"
  by (cases "rbsp_from (sd_bytes s) (sd_pos s)") (auto simp: sd_rest_def)

lemma nal_mvc_returns:
  assumes "readable s" "nal_ok n"
    and "\<And>tmp n s'. readable s' \<Longrightarrow> tmp = END_OF_STREAM \<or> nal_ok n \<Longrightarrow> returns Q (k tmp n s')"
  shows "returns Q (nal_mvc n k s)"
  unfolding nal_mvc_def Let_def
  apply (rule returns_any_end[OF assms(1)], simp, simp)
  apply (rule returns_any_end, assumption, simp, simp)
  apply (rule returns_any_end, assumption, simp, simp)
  apply (rule returns_any_end, assumption, simp, simp)
  apply (rule returns_any_end, assumption, simp, simp)
  apply (rule returns_any_end, assumption, simp, simp)
  apply (rule returns_any_end, assumption, simp, simp)
  apply (rule assms(3), assumption)
  subgoal using assms(2) by (auto simp: nal_ok_def)
  done

lemma nal_svc_returns:
  assumes "readable s" "\<And>tmp s'. readable s' \<Longrightarrow> returns Q (k tmp n s')"
  shows "returns Q (nal_svc n k s)"
  unfolding nal_svc_def
  by (rule returns_any[OF assms(1)], simp, simp,
      (rule returns_any, assumption, simp, simp)+, rule assms(2), assumption)

lemma DecodeNalUnit_returns:
  assumes "readable s" "sd_bit_pos s = 0"
  shows "returns (\<lambda>(st, n, s'). readable s' \<and> (st = HANTRO_OK \<and> nal_ok n \<or> st = HANTRO_NOK)) (h264bsdDecodeNalUnit s)"
proof -
  have ext: "returns (\<lambda>(st, n, s'). readable s' \<and> (st = HANTRO_OK \<and> nal_ok n \<or> st = HANTRO_NOK))
      (nal_extension n (nal_result HANTRO_OK) s')" if "readable s'" "nal_ok n" for n s'
    unfolding nal_extension_def Let_def
    apply (rule returns_u[OF that(1)], simp, simp)
     apply (rule returns_nal_result, simp)
    apply (rule returns_if_args)
     apply (rule nal_mvc_returns, assumption)
    subgoal using that(2) by (simp add: nal_ok_def)
     apply (rule returns_if; rule returns_nal_result; auto)
    apply (rule nal_svc_returns, assumption)
    apply (rule returns_if; rule returns_nal_result)
    using that(2) by (auto simp: nal_ok_def)
  show ?thesis
  proof (cases "length (sd_rest s) = 0")
    case True
    then show ?thesis
      using GetBits_rest[OF assms(1), of 1] assms readable_advanced[OF assms(1)]
      by (auto simp: h264bsdDecodeNalUnit_def read_u_def returns_def nal_result_def)
  next
    case False
    then have left: "8 \<le> length (sd_rest s)" using aligned_left[OF assms] by simp
    show ?thesis unfolding h264bsdDecodeNalUnit_def Let_def
      apply (simp only: assms(2) simp_thms if_False not_True_eq_False)
      apply (rule returns_u_left[OF assms(1)], simp, simp, use left in simp)
      apply (rule returns_any_left, assumption, simp, simp)
      apply (rule returns_any_left, assumption, simp, simp)
      apply (rule returns_if, rule returns_nal_result, simp)+
      apply (rule returns_if, rule ext, assumption)
      subgoal using left by (simp add: nal_ok_def nal_type_defs zero_nal_def) blast
      apply (rule returns_nal_result)
      using left by (simp add: nal_ok_def nal_type_defs zero_nal_def) blast
  qed
qed


subsection \<open>Headers on known bits\<close>

text \<open>The header of a NAL unit without extension\<close>

definition nal_bits :: "nat \<Rightarrow> nat \<Rightarrow> bits" where
  "nal_bits idc ty = False # low_bits 2 (of_nat idc :: 32 word) @ low_bits 5 (of_nat ty :: 32 word)"

definition plain_type :: "nat \<Rightarrow> nat \<Rightarrow> bool" where
  "plain_type idc ty = (ty < 32 \<and> idc < 4 \<and> ty \<notin> {2, 3, 4, 14, 20}
     \<and> (ty \<in> {5, 7, 8} \<longrightarrow> 0 < idc) \<and> (ty \<in> {6, 9, 10, 11, 12} \<longrightarrow> idc = 0))"

lemma of_nat_eq_word: "m < 2 ^ 32 \<Longrightarrow> (of_nat m :: 32 word) = w \<longleftrightarrow> m = unat w"
  by (auto simp: unat_of_nat)

lemma reads_nal:
  assumes "reading s (nal_bits idc ty @ r)" "sd_bit_pos s = 0" "plain_type idc ty"
    and "\<And>s'. reading s' r \<Longrightarrow> Q (HANTRO_OK, zero_nal\<lparr>nal_ref_idc := of_nat idc, nal_unit_type := of_nat ty\<rparr>, s')"
  shows "returns Q (h264bsdDecodeNalUnit s)"
proof -
  have rd: "reading s (False # low_bits 2 (of_nat idc :: 32 word) @ low_bits 5 (of_nat ty :: 32 word) @ r)"
    using assms(1) by (simp add: nal_bits_def)
  have lt: "idc < 4" "ty < 32" using assms(3) by (auto simp: plain_type_def)
  then have d: "drop_bit 2 (of_nat idc :: 32 word) = 0" "drop_bit 5 (of_nat ty :: 32 word) = 0"
    using small_drop_bit[of idc 2] small_drop_bit[of ty 5] by simp_all
  have "ty < 2 ^ 32" "idc < 2 ^ 32" using lt by auto
  note eqs = of_nat_eq_word[OF this(1)] of_nat_eq_word[OF this(2)]
  have t: "(of_nat ty :: 32 word) \<notin> {2, 3, 4, 14, 20}"
    "(of_nat ty :: 32 word) \<in> {5, 7, 8} \<longrightarrow> (of_nat idc :: 32 word) \<noteq> 0"
    "(of_nat ty :: 32 word) \<in> {6, 9, 10, 11, 12} \<longrightarrow> (of_nat idc :: 32 word) = 0"
    using assms(3) by (simp_all add: plain_type_def eqs)
  show ?thesis unfolding h264bsdDecodeNalUnit_def Let_def
    apply (simp only: assms(2) simp_thms if_False not_True_eq_False)
    apply (rule reads_bit[OF rd])
    apply (rule reads_any[OF _ _ _ d(1)], assumption, simp, simp)
    apply (rule reads_any[OF _ _ _ d(2)], assumption, simp, simp)
    apply (rule skip_if, use t(1) in \<open>simp add: nal_type_defs\<close>)
    apply (rule skip_if) subgoal using t(2) by (auto simp: nal_type_defs)
    apply (rule skip_if) subgoal using t(3) by (auto simp: nal_type_defs)
    apply (rule skip_if, use t(1) in \<open>simp add: nal_type_defs\<close>)
    by (rule returns_nal_result, rule assms(4))
qed


subsection \<open>Properties\<close>

text \<open>
  h264bsdDecodeNalUnit is total on every NAL unit without a start code prefix and returns
  HANTRO\_OK or HANTRO\_NOK; a header it accepts keeps the rules of the standard (no data partitions, a
  reference parameter set or IDR slice, an unreferenced SEI, delimiter, end or filler unit) and its fields
  are in their ranges, although the code reads most of the extension without looking for the end of the
  stream.
\<close>

theorem DecodeNalUnit_type:
  assumes "strm_ok s" "no_start_code (sd_bytes s)" "sd_bit_pos s = 0"
  shows "\<exists>st n s'. h264bsdDecodeNalUnit s = Some (st, n, s') \<and> strm_ok s' \<and> (st = HANTRO_OK \<or> st = HANTRO_NOK)
    \<and> (st = HANTRO_OK \<longrightarrow> nal_ok n)"
proof -
  have "readable s" using assms(1,2) by (simp add: readable_def)
  from DecodeNalUnit_returns[OF this assms(3)] show ?thesis
    by (auto simp: returns_def readable_def status_defs)
qed

theorem DecodeNalUnit_type_witness:
  "\<exists>st n s'. h264bsdDecodeNalUnit (demo_stream [0x74, 0x41, 0x83, 0x7F, 0x80]) = Some (st, n, s') \<and> strm_ok s'
    \<and> (st = HANTRO_OK \<longrightarrow> nal_ok n)"
proof -
  have "strm_ok (demo_stream [0x74, 0x41, 0x83, 0x7F, 0x80])" by (simp add: demo_stream_ok)
  moreover have "no_start_code (sd_bytes (demo_stream [0x74, 0x41, 0x83, 0x7F, 0x80]))"
    by (simp add: code_free_no_start_code)
  moreover have "sd_bit_pos (demo_stream [0x74, 0x41, 0x83, 0x7F, 0x80]) = 0" by (simp add: demo_stream_def)
  ultimately show ?thesis using DecodeNalUnit_type by blast
qed

end
