(* ===== verification/H264Storage.thy ===== *)
theory H264Storage
  imports H264SpsCompare H264SliceGroupMap H264Nal
begin

text \<open>
  The store of parameter sets, h264hwd\_storage.c: a slot for every identifier, the active sets, and their
  activation by the slices. A slot is allocated once and keeps its structure, so a pointer to a stored set is the
  number of its slot; the pointers to the buffer and the slice header of the current view are the number of the
  view (st\_redundant\_pic\_cnt holds that field of the first slice header of each view). Copying a structure
  copies what its pointers lead to, which the old owner gives up. None is a failed ASSERT, a null pointer or an
  access outside an array. The fields for pictures, post-processing and supplemental information are left out.
\<close>

definition I_SLICE :: "32 word" where "I_SLICE = 2"

definition IS_I_SLICE :: "32 word \<Rightarrow> bool" where
  "IS_I_SLICE slice_type = (slice_type = I_SLICE \<or> slice_type = I_SLICE + 5)"

subsection \<open>storage\_t\<close>

text \<open>What the previous slice had, for the check of access unit boundaries\<close>

record aub_check =
  aub_nu_prev :: nal_unit
  aub_prev_frame_num :: "32 word"
  aub_prev_mod_frame_num :: "32 word"
  aub_prev_idr_pic_id :: "32 word"
  aub_prev_pic_order_cnt_lsb :: "32 word"
  aub_prev_delta_pic_order_cnt_bottom :: int
  aub_prev_delta_pic_order_cnt0 :: int
  aub_prev_delta_pic_order_cnt1 :: int
  aub_prev_field_pic_flag :: "32 word"
  aub_prev_bottom_field_flag :: "32 word"
  aub_first_call_flag :: bool
  aub_new_picture :: bool

definition zero_aub :: aub_check where
  "zero_aub = \<lparr>aub_nu_prev = zero_nal, aub_prev_frame_num = 0, aub_prev_mod_frame_num = 0, aub_prev_idr_pic_id = 0,
     aub_prev_pic_order_cnt_lsb = 0, aub_prev_delta_pic_order_cnt_bottom = 0, aub_prev_delta_pic_order_cnt0 = 0,
     aub_prev_delta_pic_order_cnt1 = 0, aub_prev_field_pic_flag = 0, aub_prev_bottom_field_flag = 0,
     aub_first_call_flag = False, aub_new_picture = False\<rparr>"

text \<open>slice\_id and decoded of a macroblock\<close>

type_synonym mb_storage = "32 word \<times> 32 word"

record storage =
  st_old_sps_id :: "32 word"
  st_active_pps_id :: "32 word"
  st_active_sps_id :: "32 word"
  st_active_view_sps_id :: "32 word list"
  st_active_pps :: "nat option"
  st_active_sps :: "nat option"
  st_active_view_sps :: "nat option list"
  st_sps :: "seq_param_set option list"
  st_pps :: "pic_param_set option list"
  st_slice_group_map :: "32 word list"
  st_pic_size_in_mbs :: "32 word"
  st_valid_slice_in_access_unit :: "32 word"
  st_slice_id :: "32 word"
  st_num_decoded_mbs :: "32 word"
  st_mb :: "mb_storage list option"
  st_dpb :: "32 word option"
  st_slice_header :: "32 word option"
  st_redundant_pic_cnt :: "32 word list"
  st_aub :: aub_check
  st_tmp_aub :: aub_check
  st_pending_flush :: "32 word"
  st_mvc_stream :: "32 word"
  st_view :: "32 word"
  st_num_views :: "32 word"

definition h264bsdInitStorage :: storage where
  "h264bsdInitStorage = \<lparr>st_old_sps_id = MAX_NUM_SEQ_PARAM_SETS, st_active_pps_id = MAX_NUM_PIC_PARAM_SETS,
     st_active_sps_id = MAX_NUM_SEQ_PARAM_SETS, st_active_view_sps_id = replicate MAX_NUM_VIEWS MAX_NUM_SEQ_PARAM_SETS,
     st_active_pps = None, st_active_sps = None, st_active_view_sps = replicate MAX_NUM_VIEWS None,
     st_sps = replicate (unat MAX_NUM_SEQ_PARAM_SETS) None, st_pps = replicate (unat MAX_NUM_PIC_PARAM_SETS) None,
     st_slice_group_map = [], st_pic_size_in_mbs = 0, st_valid_slice_in_access_unit = 0, st_slice_id = 0,
     st_num_decoded_mbs = 0, st_mb = None, st_dpb = None, st_slice_header = None,
     st_redundant_pic_cnt = replicate MAX_NUM_VIEWS 0, st_aub = zero_aub\<lparr>aub_first_call_flag := True\<rparr>, st_tmp_aub = zero_aub,
     st_pending_flush = 0, st_mvc_stream = 0, st_view = 0, st_num_views = 0\<rparr>"

text \<open>What a pointer leads to\<close>

definition deref :: "'a option list \<Rightarrow> nat option \<Rightarrow> 'a option" where
  "deref slots ptr = do { i \<leftarrow> ptr; x \<leftarrow> array_read slots i; x }"

subsection \<open>Storing a sequence parameter set\<close>

definition put_sps :: "storage \<Rightarrow> seq_param_set \<Rightarrow> (32 word \<times> storage) option" where
  "put_sps st p = do {
     slots \<leftarrow> array_write (st_sps st) (unat (sps_seq_parameter_set_id p)) (Some p);
     Some (HANTRO_OK, st\<lparr>st_sps := slots\<rparr>)
   }"

text \<open>The contents of an active set change: the active sets become invalid. The pointer that is cleared is
  the one of storage->view, and not of the view of the set.\<close>

definition deactivate :: "nat \<Rightarrow> storage \<Rightarrow> storage option" where
  "deactivate v st = do {
     let st = (if v = unat (st_view st)
               then st\<lparr>st_active_sps_id := MAX_NUM_SEQ_PARAM_SETS + 1, st_active_sps := None,
                        st_active_pps_id := MAX_NUM_PIC_PARAM_SETS + 1, st_active_pps := None,
                        st_old_sps_id := MAX_NUM_SEQ_PARAM_SETS + 1\<rparr> else st);
     ids \<leftarrow> array_write (st_active_view_sps_id st) v (MAX_NUM_SEQ_PARAM_SETS + 1);
     ptrs \<leftarrow> array_write (st_active_view_sps st) (unat (st_view st)) None;
     Some (st\<lparr>st_active_view_sps_id := ids, st_active_view_sps := ptrs\<rparr>)
   }"

definition h264bsdStoreSeqParamSet :: "bool \<Rightarrow> storage \<Rightarrow> seq_param_set \<Rightarrow> (32 word \<times> storage) option" where
  "h264bsdStoreSeqParamSet alloc st p =
     (let id = sps_seq_parameter_set_id p
      in if id \<ge> MAX_NUM_SEQ_PARAM_SETS then None
         else do {
           old \<leftarrow> array_read (st_sps st) (unat id);
           if old = None then
             (if alloc then put_sps st p else Some (MEMORY_ALLOCATION_ERROR, st))
           else do {
             id0 \<leftarrow> array_read (st_active_view_sps_id st) 0;
             id1 \<leftarrow> array_read (st_active_view_sps_id st) 1;
             if id = id0 \<or> id = id1 then do {
               let v = (if id = id1 then 1 else 0);
               ptr \<leftarrow> array_read (st_active_view_sps st) v;
               q \<leftarrow> deref (st_sps st) ptr;
               (differs, q) \<leftarrow> h264bsdCompareSeqParamSets p q;
               slots \<leftarrow> array_write (st_sps st) (the ptr) (Some q);
               let st = st\<lparr>st_sps := slots\<rparr>;
               if differs then Option.bind (deactivate v st) (\<lambda>st. put_sps st p)
               else Some (HANTRO_OK, st)
             }
             else put_sps st p
           }
         })"

subsection \<open>Storing a picture parameter set\<close>

text \<open>DWLmemcpy of the first n elements of row i of one array to row j of another\<close>

definition copy_row :: "nat \<Rightarrow> nat \<Rightarrow> 8 word list list \<Rightarrow> nat \<Rightarrow> 8 word list list \<Rightarrow> 8 word list list option" where
  "copy_row n j dst i src = do {
     row \<leftarrow> array_read src i;
     old \<leftarrow> array_read dst j;
     if n \<le> length row \<and> n \<le> length old then Some (dst[j := take n row @ drop n old]) else None
   }"

text \<open>The loop over the lists i to i + n - 1 that are not present: each is the one before it.\<close>

fun copy_previous :: "nat \<Rightarrow> nat \<Rightarrow> 32 word list \<Rightarrow> 8 word list list \<Rightarrow> 8 word list list option" where
  "copy_previous i 0 present ls = Some ls"
| "copy_previous i (Suc n) present ls = do {
     f \<leftarrow> array_read present i;
     ls \<leftarrow> (if f = 0 then copy_row 16 i ls (i - 1) ls else Some ls);
     copy_previous (Suc i) n present ls
   }"

text \<open>The loop over the 8x8 lists\<close>

fun copy_missing :: "nat \<Rightarrow> nat \<Rightarrow> 32 word list \<Rightarrow> 8 word list list \<Rightarrow> 8 word list list \<Rightarrow> 8 word list list option" where
  "copy_missing i 0 present src ls = Some ls"
| "copy_missing i (Suc n) present src ls = do {
     f \<leftarrow> array_read present i;
     ls \<leftarrow> (if f = 0 then copy_row 64 i ls i src else Some ls);
     copy_missing (Suc i) n present src ls
   }"

definition h264bsdModifyScalingLists :: "storage \<Rightarrow> pic_param_set \<Rightarrow> pic_param_set option" where
  "h264bsdModifyScalingLists st p = do {
     s \<leftarrow> array_read (st_sps st) (unat (pps_seq_parameter_set_id p));
     case s of
       None \<Rightarrow> Some p
     | Some sps \<Rightarrow>
         if pps_scaling_matrix_present_flag p = 0 \<and> sps_scaling_matrix_present_flag sps \<noteq> 0
         then Some (p\<lparr>pps_scaling_matrix_present_flag := 1, pps_scaling_list := sps_scaling_list sps\<rparr>)
         else if sps_scaling_matrix_present_flag sps \<noteq> 0 then do {
           let present = pps_scaling_list_present p;
           f0 \<leftarrow> array_read present 0;
           ls \<leftarrow> (if f0 = 0
                 then Option.bind (copy_row 16 0 (pps_scaling_list p) 0 (sps_scaling_list sps)) (copy_previous 1 2 present)
                 else Some (pps_scaling_list p));
           f3 \<leftarrow> array_read present 3;
           ls \<leftarrow> (if f3 = 0
                 then Option.bind (copy_row 16 3 ls 3 (sps_scaling_list sps)) (copy_previous 4 2 present)
                 else Some ls);
           ls \<leftarrow> copy_missing 6 2 present (sps_scaling_list sps) ls;
           Some (p\<lparr>pps_scaling_list := ls\<rparr>)
         }
         else Some p
   }"

definition h264bsdStorePicParamSet :: "bool \<Rightarrow> storage \<Rightarrow> pic_param_set \<Rightarrow> (32 word \<times> storage) option" where
  "h264bsdStorePicParamSet alloc st p =
     (let id = pps_pic_parameter_set_id p
      in if id \<ge> MAX_NUM_PIC_PARAM_SETS \<or> pps_seq_parameter_set_id p \<ge> MAX_NUM_SEQ_PARAM_SETS then None
         else do {
           old \<leftarrow> array_read (st_pps st) (unat id);
           if old = None \<and> \<not> alloc then Some (MEMORY_ALLOCATION_ERROR, st)
           else do {
             let st = (if old \<noteq> None \<and> id = st_active_pps_id st \<and> pps_seq_parameter_set_id p \<noteq> st_active_sps_id st
                       then st\<lparr>st_active_pps_id := MAX_NUM_PIC_PARAM_SETS + 1\<rparr> else st);
             p \<leftarrow> h264bsdModifyScalingLists st p;
             slots \<leftarrow> array_write (st_pps st) (unat id) (Some p);
             Some (HANTRO_OK, st\<lparr>st_pps := slots\<rparr>)
           }
         })"

subsection \<open>Activation\<close>

text \<open>active\_sps and active\_view\_sps of the view of the slice become the set of the active picture parameter set.\<close>

definition activate_sps_of :: "nat option \<Rightarrow> storage \<Rightarrow> storage option" where
  "activate_sps_of pps st = do {
     p \<leftarrow> deref (st_pps st) pps;
     let id = pps_seq_parameter_set_id p;
     s \<leftarrow> array_read (st_sps st) (unat id);
     let ptr = map_option (\<lambda>_. unat id) s;
     ids \<leftarrow> array_write (st_active_view_sps_id st) (unat (st_view st)) id;
     ptrs \<leftarrow> array_write (st_active_view_sps st) (unat (st_view st)) ptr;
     Some (st\<lparr>st_active_sps_id := id, st_active_view_sps_id := ids, st_active_sps := ptr, st_active_view_sps := ptrs\<rparr>)
   }"

text \<open>The picture parameter set changes; None in the result is the return with HANTRO\_NOK.\<close>

definition change_pps :: "storage \<Rightarrow> 32 word \<Rightarrow> pic_param_set \<Rightarrow> 32 word \<Rightarrow> bool \<Rightarrow> (bool \<times> storage) option" where
  "change_pps st pps_id pps slice_type is_idr = do {
     let view = unat (st_view st);
     v \<leftarrow> array_read (st_active_view_sps_id st) view;
     if pps_seq_parameter_set_id pps \<noteq> v then
       (if is_idr \<or> IS_I_SLICE slice_type then do {
          let id = pps_seq_parameter_set_id pps;
          s \<leftarrow> array_read (st_sps st) (unat id);
          ids \<leftarrow> array_write (st_active_view_sps_id st) view id;
          ptrs \<leftarrow> array_write (st_active_view_sps st) view (map_option (\<lambda>_. unat id) s);
          let st = st\<lparr>st_active_pps_id := pps_id, st_active_pps := Some (unat pps_id),
                      st_active_view_sps_id := ids, st_active_view_sps := ptrs\<rparr>;
          Some (True, if st_mvc_stream st = 0 then st\<lparr>st_pending_flush := 1\<rparr> else st)
        }
        else do {
          other \<leftarrow> array_read (st_active_view_sps st) 1;
          Some (False, if st_view st \<noteq> 0 \<and> other = None then st\<lparr>st_view := 0\<rparr> else st)
        })
     else Some (True, st\<lparr>st_active_pps_id := pps_id, st_active_pps := Some (unat pps_id)\<rparr>)
   }"

text \<open>The end of h264bsdActivateParamSets\<close>

definition select_view :: "storage \<Rightarrow> storage option" where
  "select_view st = do {
     let st = (if st_view st \<noteq> 0 then st\<lparr>st_num_views := 1\<rparr> else st);
     id \<leftarrow> array_read (st_active_view_sps_id st) (unat (st_view st));
     ptr \<leftarrow> array_read (st_active_view_sps st) (unat (st_view st));
     Some (st\<lparr>st_active_sps_id := id, st_active_sps := ptr, st_dpb := Some (st_view st), st_slice_header := Some (st_view st)\<rparr>)
   }"

definition h264bsdActivateParamSets :: "storage \<Rightarrow> 32 word \<Rightarrow> 32 word \<Rightarrow> bool \<Rightarrow> (32 word \<times> storage) option" where
  "h264bsdActivateParamSets st pps_id slice_type is_idr =
     (if pps_id \<ge> MAX_NUM_PIC_PARAM_SETS then None
      else do {
        slot \<leftarrow> array_read (st_pps st) (unat pps_id);
        case slot of
          None \<Rightarrow> Some (HANTRO_NOK, st)
        | Some pps \<Rightarrow> do {
            slot \<leftarrow> array_read (st_sps st) (unat (pps_seq_parameter_set_id pps));
            case slot of
              None \<Rightarrow> Some (HANTRO_NOK, st)
            | Some sps \<Rightarrow> do {
                ok \<leftarrow> CheckPps pps sps;
                if \<not> ok then Some (HANTRO_NOK, st)
                else do {
                  (ok, st) \<leftarrow>
                    (if st_active_pps_id st = MAX_NUM_PIC_PARAM_SETS then
                       map_option (\<lambda>st. (True, st)) (activate_sps_of (Some (unat pps_id))
                         (st\<lparr>st_active_pps_id := pps_id, st_active_pps := Some (unat pps_id)\<rparr>))
                     else if pps_id \<noteq> st_active_pps_id st then change_pps st pps_id pps slice_type is_idr
                     else do {
                       ptr \<leftarrow> array_read (st_active_view_sps st) (unat (st_view st));
                       if ptr = None then map_option (\<lambda>st. (True, st)) (activate_sps_of (st_active_pps st) st)
                       else Some (True, st)
                     });
                  if ok then map_option (\<lambda>st. (HANTRO_OK, st)) (select_view st) else Some (HANTRO_NOK, st)
                }
              }
          }
      })"

subsection \<open>Pictures\<close>

text \<open>The loop of h264bsdResetStorage over the macroblocks i to i + n - 1\<close>

fun reset_mbs :: "nat \<Rightarrow> nat \<Rightarrow> mb_storage list \<Rightarrow> mb_storage list option" where
  "reset_mbs i 0 mbs = Some mbs"
| "reset_mbs i (Suc n) mbs = Option.bind (array_write mbs i (0, 0)) (reset_mbs (Suc i) n)"

definition h264bsdResetStorage :: "storage \<Rightarrow> storage option" where
  "h264bsdResetStorage st = (
     let st = st\<lparr>st_num_decoded_mbs := 0, st_slice_id := 0\<rparr>
     in case st_mb st of None \<Rightarrow> Some st
        | Some mbs \<Rightarrow> map_option (\<lambda>mbs. st\<lparr>st_mb := Some mbs\<rparr>) (reset_mbs 0 (unat (st_pic_size_in_mbs st)) mbs))"

definition h264bsdIsStartOfPicture :: "storage \<Rightarrow> bool" where
  "h264bsdIsStartOfPicture st = (st_valid_slice_in_access_unit st = 0)"

text \<open>The loop that counts the decoded macroblocks\<close>

fun count_decoded :: "nat \<Rightarrow> nat \<Rightarrow> mb_storage list \<Rightarrow> 32 word \<Rightarrow> 32 word option" where
  "count_decoded i 0 mbs tmp = Some tmp"
| "count_decoded i (Suc n) mbs tmp = do {
     mb \<leftarrow> array_read mbs i;
     count_decoded (Suc i) n mbs (tmp + (if snd mb \<noteq> 0 then 1 else 0))
   }"

definition h264bsdIsEndOfPicture :: "storage \<Rightarrow> bool option" where
  "h264bsdIsEndOfPicture st = do {
     v \<leftarrow> st_slice_header st;
     cnt \<leftarrow> array_read (st_redundant_pic_cnt st) (unat v);
     if cnt = 0 then Some (st_num_decoded_mbs st = st_pic_size_in_mbs st)
     else do {
       mbs \<leftarrow> st_mb st;
       tmp \<leftarrow> count_decoded 0 (unat (st_pic_size_in_mbs st)) mbs 0;
       Some (tmp = st_pic_size_in_mbs st)
     }
   }"

definition h264bsdComputeSliceGroupMap :: "storage \<Rightarrow> 32 word \<Rightarrow> storage option" where
  "h264bsdComputeSliceGroupMap st slice_group_change_cycle = do {
     pps \<leftarrow> deref (st_pps st) (st_active_pps st);
     sps \<leftarrow> deref (st_sps st) (st_active_sps st);
     m \<leftarrow> h264bsdDecodeSliceGroupMap (st_slice_group_map st) pps slice_group_change_cycle
            (sps_pic_width_in_mbs sps) (sps_pic_height_in_mbs sps);
     Some (st\<lparr>st_slice_group_map := m\<rparr>)
   }"

text \<open>The loop over the picture parameter sets\<close>

fun any_valid :: "pic_param_set option list \<Rightarrow> seq_param_set option list \<Rightarrow> bool option" where
  "any_valid [] slots = Some False"
| "any_valid (None # ps) slots = any_valid ps slots"
| "any_valid (Some p # ps) slots = do {
     s \<leftarrow> array_read slots (unat (pps_seq_parameter_set_id p));
     ok \<leftarrow> (case s of None \<Rightarrow> Some False | Some sps \<Rightarrow> CheckPps p sps);
     if ok then Some True else any_valid ps slots
   }"

definition h264bsdValidParamSets :: "storage \<Rightarrow> 32 word option" where
  "h264bsdValidParamSets st = map_option (\<lambda>ok. if ok then HANTRO_OK else HANTRO_NOK) (any_valid (st_pps st) (st_sps st))"

end
