(* ===== verification/H264Slice.thy ===== *)
theory H264Slice
  imports H264Storage
begin

text \<open>
  Slice headers, h264hwd\_slice\_header.c: the parser of the header of a slice for a given pair of parameter sets.
  Its stages are steps (H264Reader) on the header, composed in h264bsdDecodeSliceHeader; where the code returns an
  error the header is given up (Inl of the status). None is a failed ASSERT,
  a division by zero, a shift by 32 or an access outside an array; ub is what a comparison gives whose operands
  have overflowed.
\<close>

definition P_SLICE :: "32 word" where "P_SLICE = 0"
definition B_SLICE :: "32 word" where "B_SLICE = 1"

definition IS_P_SLICE :: "32 word \<Rightarrow> bool" where
  "IS_P_SLICE slice_type = (slice_type = P_SLICE \<or> slice_type = P_SLICE + 5)"

definition IS_B_SLICE :: "32 word \<Rightarrow> bool" where
  "IS_B_SLICE slice_type = (slice_type = B_SLICE \<or> slice_type = B_SLICE + 5)"

definition NO_LONG_TERM_FRAME_INDICES :: "32 word" where "NO_LONG_TERM_FRAME_INDICES = 0xFFFF"

type_synonym slice_result = "(32 word + slice_header \<times> strm_data) option"
type_synonym slice_cont = "slice_header \<Rightarrow> strm_data \<Rightarrow> slice_result"
type_synonym slice_step = "slice_header \<Rightarrow> slice_cont \<Rightarrow> strm_data \<Rightarrow> slice_result"

text \<open>DWLmemset of the header\<close>

definition zero_reordering :: reordering where
  "zero_reordering = \<lparr>rl_flag = 0, rl_command = replicate (MAX_NUM_REF_PICS + 1)
     \<lparr>ro_idc = 0, ro_abs_diff_pic_num = 0, ro_long_term_pic_num = 0, ro_abs_diff_view_idx = 0\<rparr>\<rparr>"

definition zero_slice_header :: slice_header where
  "zero_slice_header = \<lparr>sh_first_mb_in_slice = 0, sh_slice_type = 0, sh_pic_parameter_set_id = 0, sh_frame_num = 0,
     sh_idr_pic_id = 0, sh_poc_length = 0, sh_poc_length_hw = 0, sh_pic_order_cnt_lsb = 0,
     sh_delta_pic_order_cnt_bottom = 0, sh_delta_pic_order_cnt = (0, 0), sh_redundant_pic_cnt = 0,
     sh_num_ref_idx_active_override_flag = 0, sh_num_ref_idx_l0_active = 0, sh_num_ref_idx_l1_active = 0,
     sh_slice_qp_delta = 0, sh_disable_deblocking_filter_idc = 0, sh_slice_alpha_c0_offset = 0,
     sh_slice_beta_offset = 0, sh_slice_group_change_cycle = 0, sh_reordering_l0 = zero_reordering,
     sh_reordering_l1 = zero_reordering,
     sh_marking = \<lparr>dm_strm_len = 0, dm_no_output_of_prior_pics_flag = 0, dm_long_term_reference_flag = 0,
       dm_adaptive_flag = 0, dm_operation = replicate MAX_NUM_MMC_OPERATIONS
         \<lparr>mm_operation = 0, mm_difference_of_pic_nums = 0, mm_long_term_pic_num = 0, mm_long_term_frame_idx = 0,
          mm_max_long_term_frame_idx = 0\<rparr>\<rparr>,
     sh_cabac_init_idc = 0, sh_field_pic_flag = 0, sh_bottom_field_flag = 0, sh_direct_spatial_mv_pred_flag = 0\<rparr>"

subsection \<open>Numbers of bits\<close>

text \<open>i = 0; while (x >> i) i++; the first argument counts the shifts that are left.\<close>

fun count_bits :: "nat \<Rightarrow> nat \<Rightarrow> 32 word \<Rightarrow> nat option" where
  "count_bits 0 i x = None"
| "count_bits (Suc n) i x = (if drop_bit i x \<noteq> 0 then count_bits n (Suc i) x else Some i)"

text \<open>i--; h264bsdGetBits refuses the number -1.\<close>

definition log2_bits :: "32 word \<Rightarrow> nat option" where
  "log2_bits x = do { i \<leftarrow> count_bits 32 0 x; if i = 0 then None else Some (i - 1) }"

definition read_log2 :: "32 word \<Rightarrow> (strm_data \<Rightarrow> 'r option) \<Rightarrow> (32 word \<Rightarrow> strm_data \<Rightarrow> 'r option) \<Rightarrow> strm_data \<Rightarrow> 'r option" where
  "read_log2 x e k s = do { i \<leftarrow> log2_bits x; read_u i e k s }"

text \<open>while (tmp \& (mask << ++num\_bits)) ;\<close>

fun mask_loop :: "nat \<Rightarrow> nat \<Rightarrow> 32 word \<Rightarrow> nat option" where
  "mask_loop 0 num_bits tmp = None"
| "mask_loop (Suc n) num_bits tmp =
     (if tmp AND push_bit (Suc num_bits) (- 1) \<noteq> 0 then mask_loop n (Suc num_bits) tmp else Some (Suc num_bits))"

definition NumSliceGroupChangeCycleBits :: "32 word \<Rightarrow> 32 word \<Rightarrow> nat option" where
  "NumSliceGroupChangeCycleBits pic_size_in_mbs rate =
     (if pic_size_in_mbs = 0 \<or> rate = 0 \<or> rate > pic_size_in_mbs then None
      else do {
        let tmp = (if pic_size_in_mbs mod rate \<noteq> 0 then 2 else 1) + pic_size_in_mbs div rate;
        n \<leftarrow> mask_loop 31 0 tmp;
        let num_bits = n - 1;
        Some (if tmp AND (push_bit num_bits 1 - 1) \<noteq> 0 then num_bits + 1 else num_bits)
      })"

subsection \<open>The head of the header\<close>

definition pic_size_of :: "seq_param_set \<Rightarrow> 32 word" where
  "pic_size_of sps = sps_pic_width_in_mbs sps * sps_pic_height_in_mbs sps"

definition sh_ids :: "seq_param_set \<Rightarrow> pic_param_set \<Rightarrow> nal_unit \<Rightarrow> slice_step" where
  "sh_ids sps pps nal h k =
     read_ue 0 failed_ue (\<lambda>value. let h = h\<lparr>sh_first_mb_in_slice := value\<rparr> in
     if value \<ge> pic_size_of sps then failed HANTRO_NOK else
     read_ue 0 failed_ue (\<lambda>value. let h = h\<lparr>sh_slice_type := value\<rparr> in
     if \<not> (IS_I_SLICE value \<or> (IS_P_SLICE value \<or> IS_B_SLICE value)
            \<and> nal_unit_type nal \<noteq> NAL_CODED_SLICE_IDR \<and> sps_num_ref_frames sps \<noteq> 0) then failed HANTRO_NOK else
     read_ue 0 failed_ue (\<lambda>value. let h = h\<lparr>sh_pic_parameter_set_id := value\<rparr> in
     if value \<noteq> pps_pic_parameter_set_id pps then failed HANTRO_NOK else k h)))"

definition sh_frame :: "seq_param_set \<Rightarrow> slice_step" where
  "sh_frame sps h k = read_log2 (sps_max_frame_num sps) (failed HANTRO_NOK) (\<lambda>tmp. k (h\<lparr>sh_frame_num := tmp\<rparr>))"

definition sh_field :: "seq_param_set \<Rightarrow> slice_step" where
  "sh_field sps h k =
     (if sps_frame_mbs_only_flag sps = 0 then
        read_u 1 (failed HANTRO_NOK) (\<lambda>tmp. let h = h\<lparr>sh_field_pic_flag := tmp\<rparr> in
        if tmp \<noteq> 0 then read_u 1 (failed HANTRO_NOK) (\<lambda>tmp. k (h\<lparr>sh_bottom_field_flag := tmp\<rparr>)) else k h)
      else k h)"

definition sh_idr :: "nal_unit \<Rightarrow> slice_step" where
  "sh_idr nal h k =
     (if IS_IDR_NAL_UNIT nal then
        read_ue 0 failed_ue (\<lambda>value. if value > 65535 then failed HANTRO_NOK else k (h\<lparr>sh_idr_pic_id := value\<rparr>))
      else k h)"

subsection \<open>The picture order count\<close>

definition sh_poc0 :: "seq_param_set \<Rightarrow> pic_param_set \<Rightarrow> slice_step" where
  "sh_poc0 sps pps h k =
     (if sps_pic_order_cnt_type sps = 0 then
        read_log2 (sps_max_pic_order_cnt_lsb sps) (failed HANTRO_NOK) (\<lambda>tmp. let h = h\<lparr>sh_pic_order_cnt_lsb := tmp\<rparr> in
        if pps_pic_order_present_flag pps \<noteq> 0 \<and> sh_field_pic_flag h = 0 then
          read_se failed_ue (\<lambda>itmp. k (h\<lparr>sh_delta_pic_order_cnt_bottom := itmp\<rparr>))
        else k h)
      else k h)"

text \<open>Whether the picture order count of an IDR picture is not zero\<close>

definition idr_poc_bad :: "bool \<Rightarrow> seq_param_set \<Rightarrow> slice_header \<Rightarrow> bool" where
  "idr_poc_bad ub sps h =
     (let d = sh_delta_pic_order_cnt h;
          sum = do { a \<leftarrow> chk (fst d + sps_offset_for_top_to_bottom_field sps); chk (a + snd d) }
      in if sh_field_pic_flag h \<noteq> 0
         then if sh_bottom_field_flag h \<noteq> 0 then (case sum of None \<Rightarrow> ub | Some c \<Rightarrow> c \<noteq> 0) else fst d \<noteq> 0
         else (case sum of None \<Rightarrow> ub | Some c \<Rightarrow> min (fst d) c \<noteq> 0))"

definition sh_poc1 :: "bool \<Rightarrow> seq_param_set \<Rightarrow> pic_param_set \<Rightarrow> nal_unit \<Rightarrow> slice_step" where
  "sh_poc1 ub sps pps nal h k =
     (if sps_pic_order_cnt_type sps = 1 \<and> sps_delta_pic_order_always_zero_flag sps = 0 then
        read_se failed_ue (\<lambda>itmp. let h = h\<lparr>sh_delta_pic_order_cnt := (itmp, snd (sh_delta_pic_order_cnt h))\<rparr>;
          check = (\<lambda>h. if IS_IDR_NAL_UNIT nal \<and> idr_poc_bad ub sps h then failed HANTRO_NOK else k h) in
        if pps_pic_order_present_flag pps \<noteq> 0 \<and> sh_field_pic_flag h = 0 then
          read_se failed_ue (\<lambda>itmp. check (h\<lparr>sh_delta_pic_order_cnt := (fst (sh_delta_pic_order_cnt h), itmp)\<rparr>))
        else check h)
      else k h)"

text \<open>With the length of the part in the stream\<close>

definition poc_lengths :: "nat \<Rightarrow> slice_step" where
  "poc_lengths strm_pos h k s =
     (let len = of_nat (sd_read_bits s) - of_nat strm_pos
      in k (h\<lparr>sh_poc_length := len, sh_poc_length_hw := len - 8 * of_nat (sd_emul_count s)\<rparr>) s)"

definition sh_poc :: "bool \<Rightarrow> seq_param_set \<Rightarrow> pic_param_set \<Rightarrow> nal_unit \<Rightarrow> slice_step" where
  "sh_poc ub sps pps nal h k s =
     (let strm_pos = sd_read_bits s
      in sh_poc0 sps pps h (\<lambda>h. sh_poc1 ub sps pps nal h (\<lambda>h. poc_lengths strm_pos h k)) (s\<lparr>sd_emul_count := 0\<rparr>))"

subsection \<open>Reference pictures\<close>

definition sh_redundant :: "pic_param_set \<Rightarrow> slice_step" where
  "sh_redundant pps h k =
     (if pps_redundant_pic_cnt_present_flag pps \<noteq> 0 then
        read_ue 0 failed_ue (\<lambda>value. if value > 127 then failed HANTRO_NOK else k (h\<lparr>sh_redundant_pic_cnt := value\<rparr>))
      else k h)"

definition sh_direct :: slice_step where
  "sh_direct h k =
     (if IS_B_SLICE (sh_slice_type h)
      then read_u 1 (failed HANTRO_NOK) (\<lambda>tmp. k (h\<lparr>sh_direct_spatial_mv_pred_flag := tmp\<rparr>)) else k h)"

definition sh_ref_counts :: "pic_param_set \<Rightarrow> slice_step" where
  "sh_ref_counts pps h k =
     (let bad = (\<lambda>value :: 32 word. value > 31 \<or> sh_field_pic_flag h = 0 \<and> value > 15); b = IS_B_SLICE (sh_slice_type h) in
      if IS_P_SLICE (sh_slice_type h) \<or> b then
        read_u 1 (failed HANTRO_NOK) (\<lambda>tmp. let h = h\<lparr>sh_num_ref_idx_active_override_flag := tmp\<rparr> in
        if tmp \<noteq> 0 then
          read_ue 0 failed_ue (\<lambda>value. if bad value then failed HANTRO_NOK else
          let h = h\<lparr>sh_num_ref_idx_l0_active := value + 1\<rparr> in
          if b then
            read_ue 0 failed_ue (\<lambda>value. if bad value then failed HANTRO_NOK
            else k (h\<lparr>sh_num_ref_idx_l1_active := value + 1\<rparr>))
          else k h)
        else if pps_num_ref_idx_l0_active pps > 16 \<and> sh_field_pic_flag h = 0
             \<or> b \<and> pps_num_ref_idx_l1_active pps > 16 \<and> sh_field_pic_flag h = 0 then failed HANTRO_NOK
        else k (h\<lparr>sh_num_ref_idx_l0_active := pps_num_ref_idx_l0_active pps,
                  sh_num_ref_idx_l1_active := pps_num_ref_idx_l1_active pps\<rparr>))
      else k h)"

text \<open>The operand of a reordering command\<close>

definition reorder_operand :: "32 word \<Rightarrow> 32 word \<Rightarrow> reordering_op \<Rightarrow> (reordering_op \<Rightarrow> strm_data \<Rightarrow> (32 word + 'a) option)
    \<Rightarrow> strm_data \<Rightarrow> (32 word + 'a) option" where
  "reorder_operand command max_pic_num cmd k =
     (if command = 0 \<or> command = 1 then
        read_ue 0 failed_ue (\<lambda>value. if value \<ge> max_pic_num then failed HANTRO_NOK
        else k (cmd\<lparr>ro_abs_diff_pic_num := value + 1\<rparr>))
      else if command = 2 then read_ue 0 failed_ue (\<lambda>value. k (cmd\<lparr>ro_long_term_pic_num := value\<rparr>))
      else if command = 4 \<or> command = 5 then read_ue 0 failed_ue (\<lambda>value. k (cmd\<lparr>ro_abs_diff_view_idx := value + 1\<rparr>))
      else k cmd)"

text \<open>The loop over the commands; the first argument counts the commands that are left before i exceeds
  num\_ref\_idx\_active.\<close>

fun reorder_loop :: "nat \<Rightarrow> nat \<Rightarrow> 32 word \<Rightarrow> bool \<Rightarrow> reordering_op list
    \<Rightarrow> (nat \<Rightarrow> reordering_op list \<Rightarrow> strm_data \<Rightarrow> (32 word + 'a) option) \<Rightarrow> strm_data \<Rightarrow> (32 word + 'a) option" where
  "reorder_loop 0 i max_pic_num mvc cs k = failed HANTRO_NOK"
| "reorder_loop (Suc n) i max_pic_num mvc cs k =
     read_ue 0 failed_ue (\<lambda>command. if command > (if mvc then 5 else 3) then failed HANTRO_NOK else (\<lambda>s. do {
       cmd \<leftarrow> array_read cs i;
       reorder_operand command max_pic_num (cmd\<lparr>ro_idc := command\<rparr>) (\<lambda>cmd.
         let cs = cs[i := cmd] in
         if command \<noteq> 3 then reorder_loop n (Suc i) max_pic_num mvc cs k else k (Suc i) cs) s
     }))"

definition RefPicListReordering :: "32 word \<Rightarrow> 32 word \<Rightarrow> bool \<Rightarrow> reordering
    \<Rightarrow> (reordering \<Rightarrow> strm_data \<Rightarrow> (32 word + 'a) option) \<Rightarrow> strm_data \<Rightarrow> (32 word + 'a) option" where
  "RefPicListReordering num_ref_idx_active max_pic_num mvc rl k s =
     (if num_ref_idx_active = 0 \<or> max_pic_num = 0 then None
      else read_u 1 (failed HANTRO_NOK) (\<lambda>tmp. let rl = rl\<lparr>rl_flag := tmp\<rparr> in
        if tmp \<noteq> 0 then
          reorder_loop (unat num_ref_idx_active + 1) 0 max_pic_num mvc (rl_command rl) (\<lambda>i cs.
          if i = 1 then failed HANTRO_NOK else k (rl\<lparr>rl_command := cs\<rparr>))
        else k rl) s)"

definition sh_reorder :: "seq_param_set \<Rightarrow> nal_unit \<Rightarrow> slice_step" where
  "sh_reorder sps nal h k =
     (let max_pic_num = (if sh_field_pic_flag h \<noteq> 0 then 2 * sps_max_frame_num sps else sps_max_frame_num sps);
          mvc = (nal_unit_type nal = NAL_CODED_SLICE_EXT);
          l1 = (\<lambda>h. if IS_B_SLICE (sh_slice_type h)
                then RefPicListReordering (sh_num_ref_idx_l1_active h) max_pic_num mvc (sh_reordering_l1 h)
                  (\<lambda>rl. k (h\<lparr>sh_reordering_l1 := rl\<rparr>))
                else k h)
      in if \<not> IS_I_SLICE (sh_slice_type h)
         then RefPicListReordering (sh_num_ref_idx_l0_active h) max_pic_num mvc (sh_reordering_l0 h)
           (\<lambda>rl. l1 (h\<lparr>sh_reordering_l0 := rl\<rparr>))
         else l1 h)"

subsection \<open>The table of weights\<close>

text \<open>A syntax element whose status and value are not looked at\<close>

definition skip_ue :: "(strm_data \<Rightarrow> 'r option) \<Rightarrow> strm_data \<Rightarrow> 'r option" where
  "skip_ue k s = Option.bind (h264bsdDecodeExpGolombUnsigned s 0) (\<lambda>(st, v, s). k s)"

fun skip_ses :: "nat \<Rightarrow> (strm_data \<Rightarrow> 'r option) \<Rightarrow> strm_data \<Rightarrow> 'r option" where
  "skip_ses 0 k s = k s"
| "skip_ses (Suc n) k s = Option.bind (h264bsdDecodeExpGolombSigned s 0) (\<lambda>(st, v, s). skip_ses n k s)"

fun skip_weights :: "nat \<Rightarrow> bool \<Rightarrow> (strm_data \<Rightarrow> 'r option) \<Rightarrow> strm_data \<Rightarrow> 'r option" where
  "skip_weights 0 grey k = k"
| "skip_weights (Suc n) grey k =
     (let chroma = (if \<not> grey then read_any 1 (\<lambda>tmp. skip_ses (if tmp = 1 then 4 else 0) (skip_weights n grey k))
                    else skip_weights n grey k)
      in read_any 1 (\<lambda>tmp. skip_ses (if tmp = 1 then 2 else 0) chroma))"

definition PredWeightTable :: "slice_header \<Rightarrow> bool \<Rightarrow> (strm_data \<Rightarrow> 'r option) \<Rightarrow> strm_data \<Rightarrow> 'r option" where
  "PredWeightTable h grey k =
     (let l1 = (if IS_B_SLICE (sh_slice_type h) then skip_weights (unat (sh_num_ref_idx_l1_active h)) grey k else k);
          l0 = skip_weights (unat (sh_num_ref_idx_l0_active h)) grey l1
      in skip_ue (if \<not> grey then skip_ue l0 else l0))"

definition sh_weights :: "seq_param_set \<Rightarrow> pic_param_set \<Rightarrow> slice_step" where
  "sh_weights sps pps h k =
     (if pps_weighted_pred_flag pps \<noteq> 0 \<and> IS_P_SLICE (sh_slice_type h)
         \<or> pps_weighted_bi_pred_idc pps = 1 \<and> IS_B_SLICE (sh_slice_type h)
      then PredWeightTable h (sps_mono_chrome sps \<noteq> 0) (k h) else k h)"

subsection \<open>The marking of reference pictures\<close>

text \<open>How many operations 4, 5, 6 and 1 to 3 there were\<close>

type_synonym mmc_counts = "nat \<times> nat \<times> nat \<times> nat"

text \<open>The operands of a memory management control operation, in the order of the code\<close>

definition mmc_difference :: "32 word \<Rightarrow> mmc_operation \<Rightarrow> (mmc_operation \<Rightarrow> strm_data \<Rightarrow> (32 word + 'a) option)
    \<Rightarrow> strm_data \<Rightarrow> (32 word + 'a) option" where
  "mmc_difference operation m k =
     (if operation = 1 \<or> operation = 3
      then read_ue 0 failed_ue (\<lambda>value. k (m\<lparr>mm_difference_of_pic_nums := value + 1\<rparr>)) else k m)"

definition mmc_long_term :: "32 word \<Rightarrow> mmc_operation \<Rightarrow> (mmc_operation \<Rightarrow> strm_data \<Rightarrow> (32 word + 'a) option)
    \<Rightarrow> strm_data \<Rightarrow> (32 word + 'a) option" where
  "mmc_long_term operation m k =
     (let frame = (\<lambda>m. if operation = 3 \<or> operation = 6
          then read_ue 0 failed_ue (\<lambda>value. k (m\<lparr>mm_long_term_frame_idx := value\<rparr>)) else k m)
      in if operation = 2 then read_ue 0 failed_ue (\<lambda>value. frame (m\<lparr>mm_long_term_pic_num := value\<rparr>)) else frame m)"

definition mmc_max_index :: "32 word \<Rightarrow> 32 word \<Rightarrow> mmc_operation \<Rightarrow> (mmc_operation \<Rightarrow> strm_data \<Rightarrow> (32 word + 'a) option)
    \<Rightarrow> strm_data \<Rightarrow> (32 word + 'a) option" where
  "mmc_max_index operation num_ref_frames m k =
     (if operation = 4 then
        read_ue 0 failed_ue (\<lambda>value. if value > num_ref_frames then failed HANTRO_NOK
        else k (m\<lparr>mm_max_long_term_frame_idx := if value = 0 then NO_LONG_TERM_FRAME_INDICES else value - 1\<rparr>))
      else k m)"

definition count_mmc :: "32 word \<Rightarrow> mmc_counts \<Rightarrow> mmc_counts" where
  "count_mmc operation c =
     (case c of (num4, num5, num6, num1to3) \<Rightarrow>
        (if operation = 4 then num4 + 1 else num4, if operation = 5 then num5 + 1 else num5,
         if operation = 6 then num6 + 1 else num6,
         if operation \<noteq> 0 \<and> operation \<le> 3 then num1to3 + 1 else num1to3))"

text \<open>The loop; the first argument counts the operations that are left before i exceeds 2 * num\_ref\_frames + 2.\<close>

fun mmc_loop :: "nat \<Rightarrow> nat \<Rightarrow> 32 word \<Rightarrow> mmc_counts \<Rightarrow> mmc_operation list
    \<Rightarrow> (mmc_counts \<Rightarrow> mmc_operation list \<Rightarrow> strm_data \<Rightarrow> (32 word + 'a) option) \<Rightarrow> strm_data \<Rightarrow> (32 word + 'a) option" where
  "mmc_loop 0 i num_ref_frames c ms k = failed HANTRO_NOK"
| "mmc_loop (Suc n) i num_ref_frames c ms k =
     read_ue 0 failed_ue (\<lambda>operation. if operation > 6 then failed HANTRO_NOK else (\<lambda>s. do {
       m \<leftarrow> array_read ms i;
       mmc_difference operation (m\<lparr>mm_operation := operation\<rparr>) (\<lambda>m.
       mmc_long_term operation m (\<lambda>m.
       mmc_max_index operation num_ref_frames m (\<lambda>m.
       let ms = ms[i := m]; c = count_mmc operation c in
       if operation \<noteq> 0 then mmc_loop n (Suc i) num_ref_frames c ms k else k c ms))) s
     }))"

definition mmc_conflict :: "mmc_counts \<Rightarrow> bool" where
  "mmc_conflict c = (case c of (num4, num5, num6, num1to3) \<Rightarrow>
     num4 > 1 \<or> num5 > 1 \<or> num6 > 1 \<or> num1to3 \<noteq> 0 \<and> num5 \<noteq> 0)"

definition DecRefPicMarking :: "bool \<Rightarrow> 32 word \<Rightarrow> ref_pic_marking
    \<Rightarrow> (ref_pic_marking \<Rightarrow> strm_data \<Rightarrow> (32 word + 'a) option) \<Rightarrow> strm_data \<Rightarrow> (32 word + 'a) option" where
  "DecRefPicMarking idr_pic_flag num_ref_frames d k s =
     (let strm_pos = sd_read_bits s;
          finish = (\<lambda>d s. k (d\<lparr>dm_strm_len := of_nat (sd_read_bits s) - of_nat strm_pos - 8 * of_nat (sd_emul_count s)\<rparr>) s)
      in (if idr_pic_flag then
            read_u 1 (failed HANTRO_NOK) (\<lambda>tmp. let d = d\<lparr>dm_no_output_of_prior_pics_flag := tmp\<rparr> in
            read_u 1 (failed HANTRO_NOK) (\<lambda>tmp. let d = d\<lparr>dm_long_term_reference_flag := tmp\<rparr> in
            if num_ref_frames = 0 \<and> tmp \<noteq> 0 then failed HANTRO_NOK else finish d))
          else
            read_u 1 (failed HANTRO_NOK) (\<lambda>tmp. let d = d\<lparr>dm_adaptive_flag := tmp\<rparr> in
            if tmp \<noteq> 0 then
              mmc_loop (unat (2 * num_ref_frames + 2) + 1) 0 num_ref_frames (0, 0, 0, 0) (dm_operation d) (\<lambda>c ms.
              if mmc_conflict c then failed HANTRO_NOK else finish (d\<lparr>dm_operation := ms\<rparr>))
            else finish d)) (s\<lparr>sd_emul_count := 0\<rparr>))"

definition sh_mark :: "seq_param_set \<Rightarrow> nal_unit \<Rightarrow> slice_step" where
  "sh_mark sps nal h k =
     (if nal_ref_idc nal \<noteq> 0
      then DecRefPicMarking (IS_IDR_NAL_UNIT nal) (sps_num_ref_frames sps) (sh_marking h) (\<lambda>d. k (h\<lparr>sh_marking := d\<rparr>))
      else k (h\<lparr>sh_marking := (sh_marking h)\<lparr>dm_strm_len := 0\<rparr>\<rparr>))"

subsection \<open>The rest\<close>

definition sh_cabac :: "pic_param_set \<Rightarrow> slice_step" where
  "sh_cabac pps h k =
     (if pps_entropy_coding_mode_flag pps \<noteq> 0 \<and> \<not> IS_I_SLICE (sh_slice_type h) then
        read_ue 0 (\<lambda>st v. failed HANTRO_NOK) (\<lambda>value. if value > 2 then failed HANTRO_NOK
        else k (h\<lparr>sh_cabac_init_idc := value\<rparr>))
      else k h)"

text \<open>The initial quantisation parameter of the slice is out of range.\<close>

definition qp_invalid :: "bool \<Rightarrow> seq_param_set \<Rightarrow> pic_param_set \<Rightarrow> int \<Rightarrow> bool" where
  "qp_invalid ub sps pps itmp =
     (case do {
        qp \<leftarrow> chk (itmp + sint (pps_pic_init_qp pps));
        low \<leftarrow> chk (0 - sint (6 * (sps_bit_depth_luma sps - 8)));
        Some (qp < low \<or> qp > 51)
      } of None \<Rightarrow> ub | Some b \<Rightarrow> b)"

definition sh_qp :: "bool \<Rightarrow> seq_param_set \<Rightarrow> pic_param_set \<Rightarrow> slice_step" where
  "sh_qp ub sps pps h k =
     read_se failed_ue (\<lambda>itmp. let h = h\<lparr>sh_slice_qp_delta := itmp\<rparr> in
     if qp_invalid ub sps pps itmp then failed HANTRO_NOK else k h)"

definition sh_deblocking :: "pic_param_set \<Rightarrow> slice_step" where
  "sh_deblocking pps h k =
     (if pps_deblocking_filter_control_present_flag pps \<noteq> 0 then
        read_ue 0 failed_ue (\<lambda>value. let h = h\<lparr>sh_disable_deblocking_filter_idc := value\<rparr> in
        if value > 2 then failed HANTRO_NOK
        else if value \<noteq> 1 then
          read_se failed_ue (\<lambda>itmp. if itmp < -6 \<or> itmp > 6 then failed HANTRO_NOK else
          let h = h\<lparr>sh_slice_alpha_c0_offset := itmp\<rparr> in
          read_se failed_ue (\<lambda>itmp. if itmp < -6 \<or> itmp > 6 then failed HANTRO_NOK
          else k (h\<lparr>sh_slice_beta_offset := itmp\<rparr>)))
        else k h)
      else k h)"

definition sh_group_cycle :: "seq_param_set \<Rightarrow> pic_param_set \<Rightarrow> slice_step" where
  "sh_group_cycle sps pps h k s =
     (if pps_num_slice_groups pps > 1 \<and> pps_slice_group_map_type pps \<ge> 3 \<and> pps_slice_group_map_type pps \<le> 5 then do {
        let size = pic_size_of sps;
        let rate = pps_slice_group_change_rate pps;
        tmp \<leftarrow> NumSliceGroupChangeCycleBits size rate;
        read_u tmp (failed HANTRO_NOK) (\<lambda>value. let h = h\<lparr>sh_slice_group_change_cycle := value\<rparr> in
          if value > (size + rate - 1) div rate then failed HANTRO_NOK else k h) s
      } else k h s)"

definition h264bsdDecodeSliceHeader :: "bool \<Rightarrow> seq_param_set \<Rightarrow> pic_param_set \<Rightarrow> nal_unit \<Rightarrow> strm_data \<Rightarrow> slice_result" where
  "h264bsdDecodeSliceHeader ub sps pps nal s =
     (if nal_unit_type nal \<notin> {NAL_CODED_SLICE, NAL_CODED_SLICE_IDR, NAL_CODED_SLICE_EXT} then None
      else
        (sh_ids sps pps nal zero_slice_header (\<lambda>h. sh_frame sps h (\<lambda>h. sh_field sps h (\<lambda>h. sh_idr nal h (\<lambda>h.
         sh_poc ub sps pps nal h (\<lambda>h. sh_redundant pps h (\<lambda>h. sh_direct h (\<lambda>h. sh_ref_counts pps h (\<lambda>h.
         sh_reorder sps nal h (\<lambda>h. sh_weights sps pps h (\<lambda>h. sh_mark sps nal h (\<lambda>h. sh_cabac pps h (\<lambda>h.
         sh_qp ub sps pps h (\<lambda>h. sh_deblocking pps h (\<lambda>h. sh_group_cycle sps pps h (\<lambda>h s.
         Some (Inr (h, s)))))))))))))))))) s)"

definition h264bsdIsOppositeFieldPic :: "slice_header \<Rightarrow> slice_header \<Rightarrow> 32 word \<Rightarrow> 32 word \<Rightarrow> bool \<Rightarrow> bool \<times> 32 word" where
  "h264bsdIsOppositeFieldPic cur prev second_field prev_ref_frame_num new_picture =
     (if (sh_frame_num cur = sh_frame_num prev \<or> sh_frame_num cur = prev_ref_frame_num)
         \<and> sh_field_pic_flag cur \<noteq> 0 \<and> sh_field_pic_flag prev \<noteq> 0
         \<and> sh_bottom_field_flag cur \<noteq> sh_bottom_field_flag prev \<and> second_field \<noteq> 0 \<and> \<not> new_picture
      then (True, 0)
      else (False, if sh_field_pic_flag cur \<noteq> 0 then 1 else 0))"

end
