(* ===== verification/H264SlicePeek.thy ===== *)
theory H264SlicePeek
  imports H264Slice
begin

text \<open>
  The functions of h264hwd\_slice\_header.c that look at one field of the header of the next slice without moving the
  stream, each by going over the fields before it again, and h264bsdCheckAccessUnitBoundary of h264hwd\_storage.c,
  which decides with them whether a NAL unit starts a new access unit. The result of a peek is Inl of the status
  or Inr of the value; the code that FFWD\_WORKAROUND compiles in is left out, as the build leaves it out.
\<close>

type_synonym 'a peeked = "(32 word + 'a) option"

subsection \<open>The fields before\<close>

text \<open>first\_mb\_in\_slice, slice\_type and pic\_parameter\_set\_id\<close>

definition skip_ids :: "(strm_data \<Rightarrow> 'a peeked) \<Rightarrow> strm_data \<Rightarrow> 'a peeked" where
  "skip_ids k = read_ue 0 failed_ue (\<lambda>_. read_ue 0 failed_ue (\<lambda>_. read_ue 0 failed_ue (\<lambda>_. k)))"

text \<open>frame\_num too\<close>

definition skip_frame_num :: "32 word \<Rightarrow> (strm_data \<Rightarrow> 'a peeked) \<Rightarrow> strm_data \<Rightarrow> 'a peeked" where
  "skip_frame_num max_frame_num k = skip_ids (read_log2 max_frame_num (failed HANTRO_NOK) (\<lambda>_. k))"

text \<open>The field flags, when they are there; k takes field\_pic\_flag.\<close>

definition skip_field :: "bool \<Rightarrow> (32 word \<Rightarrow> strm_data \<Rightarrow> 'a peeked) \<Rightarrow> strm_data \<Rightarrow> 'a peeked" where
  "skip_field present k =
     (if present then
        read_u 1 (failed HANTRO_NOK) (\<lambda>tmp. if tmp \<noteq> 0 then read_u 1 (failed HANTRO_NOK) (\<lambda>_. k tmp) else k tmp)
      else k 0)"

text \<open>Up to idr\_pic\_id, which is there when idr holds\<close>

definition skip_idr :: "bool \<Rightarrow> seq_param_set \<Rightarrow> (32 word \<Rightarrow> strm_data \<Rightarrow> 'a peeked) \<Rightarrow> strm_data \<Rightarrow> 'a peeked" where
  "skip_idr idr sps k = skip_frame_num (sps_max_frame_num sps) (skip_field (sps_frame_mbs_only_flag sps = 0)
     (\<lambda>field. if idr then read_ue 0 failed_ue (\<lambda>_. k field) else k field))"

text \<open>The end of a peek\<close>

definition peeked :: "'a \<Rightarrow> strm_data \<Rightarrow> 'a peeked" where "peeked v s = Some (Inr v)"

subsection \<open>The peeks\<close>

text \<open>pic\_parameter\_set\_id and slice\_type\<close>

definition h264bsdCheckPpsId :: "strm_data \<Rightarrow> (32 word \<times> 32 word) peeked" where
  "h264bsdCheckPpsId = read_ue 0 failed_ue (\<lambda>_. read_ue 0 failed_ue (\<lambda>slice_type. read_ue 0 failed_ue (\<lambda>value.
     if value \<ge> MAX_NUM_PIC_PARAM_SETS then failed HANTRO_NOK else peeked (value, slice_type))))"

definition h264bsdCheckFrameNum :: "strm_data \<Rightarrow> 32 word \<Rightarrow> 32 word peeked" where
  "h264bsdCheckFrameNum s max_frame_num =
     (if max_frame_num = 0 then None else skip_ids (read_log2 max_frame_num (failed HANTRO_NOK) peeked) s)"

text \<open>None for a flag that is not there: the variable of the caller is not written.\<close>

definition h264bsdCheckFieldPicFlag :: "strm_data \<Rightarrow> 32 word \<Rightarrow> bool \<Rightarrow> 32 word option peeked" where
  "h264bsdCheckFieldPicFlag s max_frame_num present =
     (if max_frame_num = 0 then None
      else skip_frame_num max_frame_num
        (if present then read_u 1 (failed HANTRO_NOK) (\<lambda>tmp. peeked (Some tmp)) else peeked None) s)"

definition h264bsdCheckBottomFieldFlag :: "strm_data \<Rightarrow> 32 word \<Rightarrow> bool \<Rightarrow> 32 word option peeked" where
  "h264bsdCheckBottomFieldFlag s max_frame_num present =
     (if max_frame_num = 0 then None
      else skip_frame_num max_frame_num
        (if present then
           read_u 1 (failed HANTRO_NOK) (\<lambda>tmp.
           if tmp \<noteq> 0 then read_u 1 (failed HANTRO_NOK) (\<lambda>tmp. peeked (Some tmp)) else peeked None)
         else peeked None) s)"

definition h264bsdCheckIdrPicId :: "strm_data \<Rightarrow> 32 word \<Rightarrow> 32 word \<Rightarrow> bool \<Rightarrow> 32 word peeked" where
  "h264bsdCheckIdrPicId s max_frame_num nal_type field_pic_flag =
     (if max_frame_num = 0 then None
      else if nal_type \<noteq> NAL_CODED_SLICE_IDR then Some (Inl HANTRO_NOK)
      else skip_frame_num max_frame_num (skip_field field_pic_flag (\<lambda>_. read_ue 0 failed_ue peeked)) s)"

definition h264bsdCheckPicOrderCntLsb :: "strm_data \<Rightarrow> seq_param_set \<Rightarrow> 32 word \<Rightarrow> 32 word peeked" where
  "h264bsdCheckPicOrderCntLsb s sps nal_type =
     (if sps_pic_order_cnt_type sps \<noteq> 0 \<or> sps_max_frame_num sps = 0 \<or> sps_max_pic_order_cnt_lsb sps = 0 then None
      else skip_idr (nal_type = NAL_CODED_SLICE_IDR) sps
        (\<lambda>_. read_log2 (sps_max_pic_order_cnt_lsb sps) (failed HANTRO_NOK) peeked) s)"

definition h264bsdCheckDeltaPicOrderCntBottom :: "strm_data \<Rightarrow> seq_param_set \<Rightarrow> 32 word \<Rightarrow> int peeked" where
  "h264bsdCheckDeltaPicOrderCntBottom s sps nal_type =
     (if sps_pic_order_cnt_type sps \<noteq> 0 \<or> sps_max_frame_num sps = 0 \<or> sps_max_pic_order_cnt_lsb sps = 0 then None
      else skip_idr (nal_type = NAL_CODED_SLICE_IDR) sps
        (\<lambda>_. read_log2 (sps_max_pic_order_cnt_lsb sps) (failed HANTRO_NOK) (\<lambda>_. read_se failed_ue peeked)) s)"

text \<open>delta\_pic\_order\_cnt[1] is written only when it is there.\<close>

definition h264bsdCheckDeltaPicOrderCnt :: "strm_data \<Rightarrow> seq_param_set \<Rightarrow> 32 word \<Rightarrow> bool \<Rightarrow> (int \<times> int option) peeked" where
  "h264bsdCheckDeltaPicOrderCnt s sps nal_type pic_order_present_flag =
     (if sps_pic_order_cnt_type sps \<noteq> 1 \<or> sps_delta_pic_order_always_zero_flag sps \<noteq> 0 \<or> sps_max_frame_num sps = 0 then None
      else skip_idr (nal_type = NAL_CODED_SLICE_IDR) sps
        (\<lambda>field. read_se failed_ue (\<lambda>d0.
         if pic_order_present_flag \<and> field = 0 then read_se failed_ue (\<lambda>d1. peeked (d0, Some d1))
         else peeked (d0, None))) s)"

text \<open>The part from pic\_order\_cnt\_lsb to delta\_pic\_order\_cnt[1]\<close>

definition skip_poc :: "seq_param_set \<Rightarrow> pic_param_set \<Rightarrow> 32 word \<Rightarrow> (strm_data \<Rightarrow> 'a peeked) \<Rightarrow> strm_data \<Rightarrow> 'a peeked" where
  "skip_poc sps pps field k =
     (let second = pps_pic_order_present_flag pps \<noteq> 0 \<and> field = 0;
          one = (if sps_pic_order_cnt_type sps = 1 \<and> sps_delta_pic_order_always_zero_flag sps = 0 then
              read_se failed_ue (\<lambda>_. if second then read_se failed_ue (\<lambda>_. k) else k)
            else k)
      in if sps_pic_order_cnt_type sps = 0 then
           read_log2 (sps_max_pic_order_cnt_lsb sps) (failed HANTRO_NOK)
             (\<lambda>_. if second then read_se failed_ue (\<lambda>_. one) else one)
         else one)"

definition h264bsdCheckPriorPicsFlag :: "strm_data \<Rightarrow> seq_param_set \<Rightarrow> pic_param_set \<Rightarrow> 32 word peeked" where
  "h264bsdCheckPriorPicsFlag s sps pps =
     skip_idr True sps (\<lambda>field. skip_poc sps pps field
       (let flag = read_u 1 (failed HANTRO_NOK) peeked
        in if pps_redundant_pic_cnt_present_flag pps \<noteq> 0 then read_ue 0 failed_ue (\<lambda>_. flag) else flag)) s"

definition h264bsdCheckFirstMbInSlice :: "strm_data \<Rightarrow> 32 word \<Rightarrow> 32 word peeked" where
  "h264bsdCheckFirstMbInSlice s nal_type =
     (if nal_type \<noteq> NAL_CODED_SLICE_IDR then Some (Inl HANTRO_NOK) else read_ue 0 failed_ue peeked s)"

definition h264bsdCheckRedundantPicCnt :: "strm_data \<Rightarrow> seq_param_set \<Rightarrow> pic_param_set \<Rightarrow> 32 word peeked" where
  "h264bsdCheckRedundantPicCnt s sps pps =
     (if pps_redundant_pic_cnt_present_flag pps = 0 then Some (Inr 0)
      else skip_idr True sps (\<lambda>field. skip_poc sps pps field (read_ue 0 failed_ue peeked)) s)"

subsection \<open>Access unit boundaries\<close>

definition PARAM_SET_ERROR :: "32 word" where "PARAM_SET_ERROR = 0xFFF0"

text \<open>The status, the flag and what is stored for the next call\<close>

type_synonym aub_result = "(32 word \<times> bool \<times> aub_check) option"
type_synonym aub_cont = "bool \<Rightarrow> aub_check \<Rightarrow> aub_result"

definition peek :: "'a peeked \<Rightarrow> (32 word \<Rightarrow> 'r option) \<Rightarrow> ('a \<Rightarrow> 'r option) \<Rightarrow> 'r option" where
  "peek r e k = Option.bind r (case_sum e k)"

text \<open>What the header of the NAL unit says\<close>

definition aub_nal :: "nal_unit \<Rightarrow> bool \<Rightarrow> aub_check \<Rightarrow> aub_cont \<Rightarrow> aub_result" where
  "aub_nal nal flag aub k =
     (let prev = aub_nu_prev aub;
          ref = (nal_ref_idc prev \<noteq> nal_ref_idc nal \<and> (nal_ref_idc prev = 0 \<or> nal_ref_idc nal = 0));
          idr = ((nal_unit_type prev = NAL_CODED_SLICE_IDR) \<noteq> (nal_unit_type nal = NAL_CODED_SLICE_IDR))
      in k (flag \<or> view_id prev \<noteq> view_id nal \<or> ref \<or> idr) (aub\<lparr>aub_new_picture := ref\<rparr>))"

definition aub_frame :: "strm_data \<Rightarrow> seq_param_set \<Rightarrow> bool \<Rightarrow> aub_check \<Rightarrow> aub_cont \<Rightarrow> aub_result" where
  "aub_frame s sps flag aub k =
     peek (h264bsdCheckFrameNum s (sps_max_frame_num sps)) (\<lambda>_. Some (HANTRO_NOK, flag, aub)) (\<lambda>frame_num.
     if aub_prev_frame_num aub \<noteq> frame_num \<and> aub_prev_mod_frame_num aub \<noteq> frame_num
     then k True (aub\<lparr>aub_prev_frame_num := frame_num\<rparr>) else k flag aub)"

text \<open>The status of the first peek is not looked at; a flag that is not written is 0.\<close>

definition aub_field :: "strm_data \<Rightarrow> seq_param_set \<Rightarrow> bool \<Rightarrow> aub_check \<Rightarrow> aub_cont \<Rightarrow> aub_result" where
  "aub_field s sps flag aub k =
     (let written = (\<lambda>f. case f of None \<Rightarrow> 0 | Some v \<Rightarrow> v);
          bottom = (\<lambda>flag aub. peek (h264bsdCheckBottomFieldFlag s (sps_max_frame_num sps) (sps_frame_mbs_only_flag sps = 0))
            (\<lambda>_. Some (HANTRO_NOK, flag, aub)) (\<lambda>f.
            if written f \<noteq> aub_prev_bottom_field_flag aub then k True (aub\<lparr>aub_prev_bottom_field_flag := written f\<rparr>)
            else k flag aub));
          field = (\<lambda>f. if f \<noteq> aub_prev_field_pic_flag aub then bottom True (aub\<lparr>aub_prev_field_pic_flag := f\<rparr>)
            else bottom flag aub)
      in peek (h264bsdCheckFieldPicFlag s (sps_max_frame_num sps) (sps_frame_mbs_only_flag sps = 0))
           (\<lambda>_. field 0) (\<lambda>f. field (written f)))"

definition aub_idr :: "strm_data \<Rightarrow> seq_param_set \<Rightarrow> nal_unit \<Rightarrow> bool \<Rightarrow> aub_check \<Rightarrow> aub_cont \<Rightarrow> aub_result" where
  "aub_idr s sps nal flag aub k =
     (if nal_unit_type nal = NAL_CODED_SLICE_IDR then
        peek (h264bsdCheckIdrPicId s (sps_max_frame_num sps) (nal_unit_type nal) (sps_frame_mbs_only_flag sps = 0))
          (\<lambda>_. Some (HANTRO_NOK, flag, aub)) (\<lambda>idr_pic_id.
        k (flag \<or> nal_unit_type (aub_nu_prev aub) = NAL_CODED_SLICE_IDR \<and> aub_prev_idr_pic_id aub \<noteq> idr_pic_id)
          (aub\<lparr>aub_prev_idr_pic_id := idr_pic_id\<rparr>))
      else k flag aub)"

definition aub_poc0 :: "strm_data \<Rightarrow> seq_param_set \<Rightarrow> pic_param_set \<Rightarrow> nal_unit \<Rightarrow> bool \<Rightarrow> aub_check \<Rightarrow> aub_cont \<Rightarrow> aub_result" where
  "aub_poc0 s sps pps nal flag aub k =
     peek (h264bsdCheckPicOrderCntLsb s sps (nal_unit_type nal)) (\<lambda>_. Some (HANTRO_NOK, flag, aub)) (\<lambda>lsb.
     let changed = (aub_prev_pic_order_cnt_lsb aub \<noteq> lsb);
         flag = (flag \<or> changed);
         aub = (if changed then aub\<lparr>aub_prev_pic_order_cnt_lsb := lsb\<rparr> else aub) in
     if pps_pic_order_present_flag pps \<noteq> 0 then
       peek (h264bsdCheckDeltaPicOrderCntBottom s sps (nal_unit_type nal)) (\<lambda>tmp. Some (tmp, flag, aub)) (\<lambda>delta.
       if aub_prev_delta_pic_order_cnt_bottom aub \<noteq> delta
       then k True (aub\<lparr>aub_prev_delta_pic_order_cnt_bottom := delta\<rparr>) else k flag aub)
     else k flag aub)"

text \<open>junk is the content of delta\_pic\_order\_cnt[1] when it has not been written.\<close>

definition aub_poc1 :: "int \<Rightarrow> strm_data \<Rightarrow> seq_param_set \<Rightarrow> pic_param_set \<Rightarrow> nal_unit \<Rightarrow> bool \<Rightarrow> aub_check \<Rightarrow> aub_cont \<Rightarrow> aub_result" where
  "aub_poc1 junk s sps pps nal flag aub k =
     peek (h264bsdCheckDeltaPicOrderCnt s sps (nal_unit_type nal) (pps_pic_order_present_flag pps \<noteq> 0))
       (\<lambda>tmp. Some (tmp, flag, aub)) (\<lambda>(d0, d1).
     let changed = (aub_prev_delta_pic_order_cnt0 aub \<noteq> d0);
         flag = (flag \<or> changed);
         aub = (if changed then aub\<lparr>aub_prev_delta_pic_order_cnt0 := d0\<rparr> else aub);
         d1 = (case d1 of None \<Rightarrow> junk | Some v \<Rightarrow> v) in
     if pps_pic_order_present_flag pps \<noteq> 0 \<and> aub_prev_delta_pic_order_cnt1 aub \<noteq> d1
     then k True (aub\<lparr>aub_prev_delta_pic_order_cnt1 := d1\<rparr>) else k flag aub)"

definition aub_poc :: "int \<Rightarrow> strm_data \<Rightarrow> seq_param_set \<Rightarrow> pic_param_set \<Rightarrow> nal_unit \<Rightarrow> bool \<Rightarrow> aub_check \<Rightarrow> aub_cont \<Rightarrow> aub_result" where
  "aub_poc junk s sps pps nal flag aub k =
     (if sps_pic_order_cnt_type sps = 0 then aub_poc0 s sps pps nal flag aub k
      else if sps_pic_order_cnt_type sps = 1 \<and> sps_delta_pic_order_always_zero_flag sps = 0
      then aub_poc1 junk s sps pps nal flag aub k
      else k flag aub)"

text \<open>The pair of parameter sets of the slice, None where the code returns PARAM\_SET\_ERROR\<close>

definition aub_sets :: "storage \<Rightarrow> nal_unit \<Rightarrow> 32 word \<Rightarrow> 32 word \<Rightarrow> (seq_param_set \<times> pic_param_set) option option" where
  "aub_sets st nal pps_id slice_type = do {
     slot \<leftarrow> array_read (st_pps st) (unat pps_id);
     case slot of None \<Rightarrow> Some None
     | Some pps \<Rightarrow> do {
         slot \<leftarrow> array_read (st_sps st) (unat (pps_seq_parameter_set_id pps));
         case slot of None \<Rightarrow> Some None
         | Some sps \<Rightarrow> do {
             v \<leftarrow> array_read (st_active_view_sps_id st) (if nal_unit_type nal = NAL_CODED_SLICE_EXT then 1 else 0);
             if v \<noteq> MAX_NUM_SEQ_PARAM_SETS \<and> pps_seq_parameter_set_id pps \<noteq> v \<and> \<not> IS_I_SLICE slice_type
                \<and> (nal_unit_type nal = NAL_CODED_SLICE \<or> nal_unit_type nal = NAL_CODED_SLICE_EXT \<and> non_idr_flag nal \<noteq> 0)
             then Some None else Some (Some (sps, pps))
           }
       }
   }"

definition aub_slice :: "int \<Rightarrow> strm_data \<Rightarrow> nal_unit \<Rightarrow> storage \<Rightarrow> bool \<Rightarrow> aub_check \<Rightarrow> aub_result" where
  "aub_slice junk s nal st flag aub =
     peek (h264bsdCheckPpsId s) (\<lambda>tmp. Some (tmp, flag, aub)) (\<lambda>(pps_id, slice_type). do {
       sets \<leftarrow> aub_sets st nal pps_id slice_type;
       case sets of
         None \<Rightarrow> Some (PARAM_SET_ERROR, flag, aub)
       | Some (sps, pps) \<Rightarrow>
           aub_nal nal flag aub (\<lambda>flag aub. aub_frame s sps flag aub (\<lambda>flag aub. aub_field s sps flag aub (\<lambda>flag aub.
           aub_idr s sps nal flag aub (\<lambda>flag aub. aub_poc junk s sps pps nal flag aub (\<lambda>flag aub.
           Some (HANTRO_OK, flag, aub\<lparr>aub_nu_prev := nal\<rparr>))))))
     })"

definition h264bsdCheckAccessUnitBoundary :: "int \<Rightarrow> strm_data \<Rightarrow> nal_unit \<Rightarrow> storage \<Rightarrow> bool \<Rightarrow> (32 word \<times> bool \<times> storage) option" where
  "h264bsdCheckAccessUnitBoundary junk s nal st error_check_flag =
     (let t = nal_unit_type nal; aub = (if error_check_flag then st_tmp_aub st else st_aub st)
      in if t > 5 \<and> t < 12 \<or> t > 12 \<and> t \<le> 18 then Some (HANTRO_OK, True, st)
         else if t \<noteq> NAL_CODED_SLICE \<and> t \<noteq> NAL_CODED_SLICE_IDR \<and> t \<noteq> NAL_CODED_SLICE_EXT then Some (HANTRO_OK, False, st)
         else do {
           (tmp, flag, aub) \<leftarrow> aub_slice junk s nal st (aub_first_call_flag aub) (aub\<lparr>aub_first_call_flag := False\<rparr>);
           Some (tmp, flag, if error_check_flag then st\<lparr>st_tmp_aub := aub\<rparr> else st\<lparr>st_aub := aub\<rparr>)
         })"

end
