(* ===== verification/EncParams.thy ===== *)
theory EncParams
  imports PutBits
begin

text \<open>
  The parameter sets of the encoder: vc8000e/software/source/hevc/sw\_parameter\_set.c and .h, the H.264
  functions, with sw\_nal\_unit.c. The records hold the fields that these functions use; the buffer ps.b is
  an argument and a result. A failed ASSERT and undefined behaviour are None. An i32 or true\_e is an int,
  a u32 a word; TEST\_DATA comments are left out.
\<close>

subsection \<open>Structures\<close>

text \<open>vui\_t\<close>

record vui_t =
  vu_timeScale :: "32 word"
  vu_numUnitsInTick :: "32 word"
  vu_bitStreamRestrictionFlag :: "32 word"
  vu_videoFullRange :: "32 word"
  vu_sarWidth :: "32 word"
  vu_sarHeight :: "32 word"
  vu_nalHrdParametersPresentFlag :: "32 word"
  vu_vclHrdParametersPresentFlag :: "32 word"
  vu_field_seq_flag :: "32 word"
  vu_frame_field_info_present_flag :: "32 word"
  vu_initialCpbRemovalDelayLength :: "32 word"
  vu_cpbRemovalDelayLength :: "32 word"
  vu_dpbOutputDelayLength :: "32 word"
  vu_timeOffsetLength :: "32 word"
  vu_bitRate :: "32 word"
  vu_cpbSize :: "32 word"
  vu_VideoSignalTypePresentFlag :: "32 word"
  vu_video_format :: "32 word"
  vu_ColorDescripPresentFlag :: "32 word"
  vu_ColorPrimaries :: "32 word"
  vu_TransferCharacteristics :: "32 word"
  vu_MatrixCoefficients :: "32 word"

record sps =
  es_id :: int
  es_chroma_format_idc :: int
  es_max_dec_pic_buffering0 :: int
  es_vui_parameters_present_flag :: int
  es_vui :: vui_t
  es_frameCropping :: int
  es_frameCropLeftOffset :: "32 word"
  es_frameCropRightOffset :: "32 word"
  es_frameCropTopOffset :: "32 word"
  es_frameCropBottomOffset :: "32 word"
  es_streamMode :: int
  es_general_level_idc :: "32 word"
  es_general_profile_idc :: "32 word"
  es_bit_depth_luma_minus8 :: "32 word"
  es_bit_depth_chroma_minus8 :: "32 word"
  es_constraintSet0 :: int
  es_constraintSet1 :: int
  es_constraintSet2 :: int
  es_constraintSet3 :: int
  es_log2MaxFrameNumMinus4 :: int
  es_log2MaxpicOrderCntLsbMinus4 :: int
  es_picOrderCntType :: "32 word"
  es_gapsInFrameNumValueAllowed :: int
  es_picWidthInMbsMinus1 :: int
  es_picHeightInMapUnitsMinus1 :: int
  es_frameMbsOnly :: int
  es_direct8x8Inference :: int
  es_numRefFrames :: "32 word"

record pps =
  ep_id :: int
  ep_sps_id :: int
  ep_entropy_coding_mode_flag :: int
  ep_num_ref_idx_l0_default_active :: int
  ep_num_ref_idx_l1_default_active :: int
  ep_init_qp :: int
  ep_constrained_intra_pred_flag :: int
  ep_cb_qp_offset :: int
  ep_weighted_pred_flag :: int
  ep_weighted_bipred_flag :: int
  ep_deblocking_filter_control_present_flag :: int
  ep_streamMode :: int
  ep_transform8x8Mode :: int

definition ENCHW_YES :: int where "ENCHW_YES = 1"
definition ENCHW_NO :: int where "ENCHW_NO = 0"
definition VCENC_BYTE_STREAM :: int where "VCENC_BYTE_STREAM = 0"
definition VCENC_CHROMA_IDC_420 :: int where "VCENC_CHROMA_IDC_420 = 1"
definition EXTENDED_SAR :: int where "EXTENDED_SAR = 255"
definition LOG2_MAX_MV_LENGTH_HOR :: int where "LOG2_MAX_MV_LENGTH_HOR = 10"
definition LOG2_MAX_MV_LENGTH_VER :: int where "LOG2_MAX_MV_LENGTH_VER = 8"
definition H264_SPS_NUT :: int where "H264_SPS_NUT = 7"
definition H264_PPS_NUT :: int where "H264_PPS_NUT = 8"
definition H264_AUD_NUT :: int where "H264_AUD_NUT = 9"
definition H264_ENDOFSEQUENCE :: int where "H264_ENDOFSEQUENCE = 10"

lemmas enc_consts = ENCHW_YES_def ENCHW_NO_def VCENC_BYTE_STREAM_def VCENC_CHROMA_IDC_420_def EXTENDED_SAR_def
  LOG2_MAX_MV_LENGTH_HOR_def LOG2_MAX_MV_LENGTH_VER_def H264_SPS_NUT_def H264_PPS_NUT_def H264_AUD_NUT_def
  H264_ENDOFSEQUENCE_def

subsection \<open>NAL unit headers\<close>

text \<open>(streamMode == VCENC\_BYTE\_STREAM) ? ENCHW\_YES : ENCHW\_NO\<close>

definition byte_stream :: "int \<Rightarrow> int" where
  "byte_stream mode = (if mode = VCENC_BYTE_STREAM then ENCHW_YES else ENCHW_NO)"

definition H264NalUnitHdr :: "put_buffer \<Rightarrow> int \<Rightarrow> int \<Rightarrow> int \<Rightarrow> put_buffer option" where
  "H264NalUnitHdr b nalRefIdc nalType byteStream = do {
     b \<leftarrow> Some (if byteStream = ENCHW_YES then put_bits_startcode b else b);
     b \<leftarrow> put_bit b 0 1;
     b \<leftarrow> put_bit b (word_of_int nalRefIdc) 2;
     put_bit b (word_of_int nalType) 5
   }"

definition H264EndOfSequence :: "put_buffer \<Rightarrow> int \<Rightarrow> put_buffer option" where
  "H264EndOfSequence b mode = do {
     b \<leftarrow> H264NalUnitHdr b 0 H264_ENDOFSEQUENCE (byte_stream mode);
     rbsp_flush_bits b
   }"

definition H264AccessUnitDelimiter :: "put_buffer \<Rightarrow> int \<Rightarrow> 32 word \<Rightarrow> put_buffer option" where
  "H264AccessUnitDelimiter b mode primary_pic_type = do {
     b \<leftarrow> H264NalUnitHdr b 0 H264_AUD_NUT (byte_stream mode);
     b \<leftarrow> put_bit b primary_pic_type 3;
     rbsp_trailing_bits b
   }"

subsection \<open>Picture parameter sets\<close>

text \<open>a - b of i32\<close>

definition sub_i32 :: "int \<Rightarrow> int \<Rightarrow> int option" where
  "sub_i32 a b = (if i32_ok (a - b) then Some (a - b) else None)"

definition H264PicParameterSet :: "pps \<Rightarrow> put_buffer \<Rightarrow> put_buffer option" where
  "H264PicParameterSet p b = do {
     b \<leftarrow> H264NalUnitHdr b 1 H264_PPS_NUT (byte_stream (ep_streamMode p));
     b \<leftarrow> put_bit_ue b (ep_id p);
     b \<leftarrow> put_bit_ue b (ep_sps_id p);
     b \<leftarrow> put_bit b (word_of_int (ep_entropy_coding_mode_flag p)) 1;
     b \<leftarrow> put_bit b 0 1;
     b \<leftarrow> put_bit_ue b 0;
     v \<leftarrow> sub_i32 (ep_num_ref_idx_l0_default_active p) 1;
     b \<leftarrow> put_bit_ue b v;
     v \<leftarrow> sub_i32 (ep_num_ref_idx_l1_default_active p) 1;
     b \<leftarrow> put_bit_ue b v;
     b \<leftarrow> put_bit b (word_of_int (ep_weighted_pred_flag p)) 1;
     b \<leftarrow> put_bit b (word_of_int (ep_weighted_bipred_flag p)) 2;
     v \<leftarrow> sub_i32 (ep_init_qp p) 26;
     b \<leftarrow> put_bit_se b v;
     b \<leftarrow> put_bit_se b 0;
     b \<leftarrow> put_bit_se b (ep_cb_qp_offset p);
     b \<leftarrow> put_bit b (word_of_int (ep_deblocking_filter_control_present_flag p)) 1;
     b \<leftarrow> put_bit b (word_of_int (ep_constrained_intra_pred_flag p)) 1;
     b \<leftarrow> put_bit b 0 1;
     b \<leftarrow> (if ep_transform8x8Mode p = ENCHW_YES then do {
         b \<leftarrow> put_bit b (word_of_int (ep_transform8x8Mode p)) 1;
         b \<leftarrow> put_bit b 0 1;
         put_bit_se b (ep_cb_qp_offset p)
       } else Some b);
     rbsp_trailing_bits b
   }"


subsection \<open>Setting the video usability information\<close>

text \<open>sps->vui\<close>

definition set_vui :: "(vui_t \<Rightarrow> vui_t) \<Rightarrow> sps \<Rightarrow> sps" where
  "set_vui f s = s\<lparr>es_vui := f (es_vui s)\<rparr>"

definition vui_present :: "bool \<Rightarrow> sps \<Rightarrow> sps" where
  "vui_present c s = (if c then s\<lparr>es_vui_parameters_present_flag := ENCHW_YES\<rparr> else s)"

definition VCEncSpsSetVuiTimigInfo :: "sps \<Rightarrow> 32 word \<Rightarrow> 32 word \<Rightarrow> sps" where
  "VCEncSpsSetVuiTimigInfo s timeScale numUnitsInTick =
     set_vui (\<lambda>v. v\<lparr>vu_timeScale := timeScale, vu_numUnitsInTick := numUnitsInTick\<rparr>)
       (vui_present (timeScale \<noteq> 0) s)"

definition VCEncSpsSetVuiVideoInfo :: "sps \<Rightarrow> 32 word \<Rightarrow> sps" where
  "VCEncSpsSetVuiVideoInfo s videoFullRange =
     set_vui (\<lambda>v. v\<lparr>vu_videoFullRange := videoFullRange\<rparr>) (vui_present (videoFullRange \<noteq> 0) s)"

definition VCEncSpsSetVuiAspectRatio :: "sps \<Rightarrow> 32 word \<Rightarrow> 32 word \<Rightarrow> sps option" where
  "VCEncSpsSetVuiAspectRatio s w h =
     (if w < 2 ^ 16 \<and> h < 2 ^ 16
      then Some (set_vui (\<lambda>v. v\<lparr>vu_sarWidth := w, vu_sarHeight := h\<rparr>) (vui_present (w \<noteq> 0) s))
      else None)"

definition VCEncSpsSetVuiSignalType ::
  "sps \<Rightarrow> 32 word \<Rightarrow> 32 word \<Rightarrow> 32 word \<Rightarrow> 32 word \<Rightarrow> 32 word \<Rightarrow> 32 word \<Rightarrow> 32 word \<Rightarrow> sps" where
  "VCEncSpsSetVuiSignalType s present video_format full_range colour primaries transfer matrix =
     vui_present (present = 1 \<or> colour = 1)
       (set_vui (\<lambda>v. v\<lparr>vu_VideoSignalTypePresentFlag := present, vu_video_format := video_format,
          vu_videoFullRange := full_range, vu_ColorDescripPresentFlag := colour, vu_ColorPrimaries := primaries,
          vu_TransferCharacteristics := transfer, vu_MatrixCoefficients := matrix\<rparr>) s)"

text \<open>while (numUnitsInTick > (1U << n)) n++; a shift by 32 is undefined.\<close>

function offset_length :: "32 word \<Rightarrow> nat \<Rightarrow> nat option" where
  "offset_length units n =
     (if 32 \<le> n then None else if units > push_bit n 1 then offset_length units (n + 1) else Some n)"
  by auto
termination by (relation "measure (\<lambda>(units, n). 32 - n)") auto

definition VCEncSpsSetVuiHrd :: "sps \<Rightarrow> 32 word \<Rightarrow> sps option" where
  "VCEncSpsSetVuiHrd s present = (
     let s = set_vui (\<lambda>v. v\<lparr>vu_nalHrdParametersPresentFlag := present\<rparr>) s
     in if present = 0 then Some s
        else
          let s = vui_present True s
          in if vu_timeScale (es_vui s) = 0 \<or> vu_numUnitsInTick (es_vui s) = 0 then None
             else do {
               n \<leftarrow> offset_length (vu_numUnitsInTick (es_vui s)) 1;
               Some (set_vui (\<lambda>v. v\<lparr>vu_initialCpbRemovalDelayLength := 24, vu_cpbRemovalDelayLength := 24,
                 vu_dpbOutputDelayLength := 24, vu_timeOffsetLength := of_nat n\<rparr>) s)
             })"

definition VCEncSpsSetVuiHrdBitRate :: "sps \<Rightarrow> 32 word \<Rightarrow> sps" where
  "VCEncSpsSetVuiHrdBitRate s bitRate = set_vui (\<lambda>v. v\<lparr>vu_bitRate := bitRate\<rparr>) s"

definition VCEncSpsSetVuiHrdCpbSize :: "sps \<Rightarrow> 32 word \<Rightarrow> sps" where
  "VCEncSpsSetVuiHrdCpbSize s cpbSize = set_vui (\<lambda>v. v\<lparr>vu_cpbSize := cpbSize\<rparr>) s"

definition VCEncSpsGetVuiHrdBitRate :: "sps \<Rightarrow> 32 word" where
  "VCEncSpsGetVuiHrdBitRate s = vu_bitRate (es_vui s)"

definition VCEncSpsGetVuiHrdCpbSize :: "sps \<Rightarrow> 32 word" where
  "VCEncSpsGetVuiHrdCpbSize s = vu_cpbSize (es_vui s)"

definition VCEncSpsSetVuiPictStructPresentFlag :: "sps \<Rightarrow> 32 word \<Rightarrow> sps" where
  "VCEncSpsSetVuiPictStructPresentFlag s flag = set_vui (\<lambda>v. v\<lparr>vu_frame_field_info_present_flag := flag\<rparr>) s"

definition VCEncSpsSetVui_field_seq_flag :: "sps \<Rightarrow> 32 word \<Rightarrow> sps" where
  "VCEncSpsSetVui_field_seq_flag s flag = set_vui (\<lambda>v. v\<lparr>vu_field_seq_flag := flag\<rparr>) s"

text \<open>The presence flag is only ever cleared here.\<close>

definition UpdateVuiPresence :: "sps \<Rightarrow> sps" where
  "UpdateVuiPresence s = (
     let v = es_vui s
     in if vu_nalHrdParametersPresentFlag v = 0 \<and> vu_timeScale v = 0 \<and> vu_frame_field_info_present_flag v = 0
          \<and> vu_sarWidth v = 0 \<and> vu_videoFullRange v = 0 \<and> vu_ColorDescripPresentFlag v = 0
          \<and> vu_bitStreamRestrictionFlag v = 0
        then s\<lparr>es_vui_parameters_present_flag := ENCHW_NO\<rparr> else s)"

subsection \<open>Levels\<close>

definition H264LevelIdc :: "32 word list" where
  "H264LevelIdc = [10, 99, 11, 12, 13, 20, 21, 22, 30, 31, 32, 40, 41, 42, 50, 51]"

definition INVALID_LEVEL :: "32 word" where "INVALID_LEVEL = 0xFFFF"

text \<open>The index is read before it is checked, which is in bounds as long as the loop leaves at the end.\<close>

function level_loop :: "32 word \<Rightarrow> nat \<Rightarrow> 32 word option" where
  "level_loop levelIdc i =
     (if i \<ge> length H264LevelIdc then None
      else if H264LevelIdc ! i \<noteq> levelIdc then
        (if i + 1 \<ge> length H264LevelIdc then Some INVALID_LEVEL else level_loop levelIdc (i + 1))
      else Some (of_nat i))"
  by auto
termination by (relation "measure (\<lambda>(levelIdc, i). length H264LevelIdc - i)") auto

definition H264GetLevelIndex :: "32 word \<Rightarrow> 32 word option" where
  "H264GetLevelIndex levelIdc = level_loop levelIdc 0"

subsection \<open>Writing the video usability information\<close>

definition GetAspectRatioIdc :: "int \<Rightarrow> int \<Rightarrow> int" where
  "GetAspectRatioIdc sarWidth sarHeight =
     (if sarWidth = 0 \<or> sarHeight = 0 then 0
      else if sarWidth = sarHeight then 1
      else if sarHeight = 11 then
        (if sarWidth = 12 then 2
         else if sarWidth = 10 then 3
         else if sarWidth = 16 then 4
         else if sarWidth = 24 then 6
         else if sarWidth = 20 then 7
         else if sarWidth = 32 then 8
         else if sarWidth = 18 then 10
         else if sarWidth = 15 then 11
         else EXTENDED_SAR)
      else if sarHeight = 33 then
        (if sarWidth = 40 then 5
         else if sarWidth = 80 then 9
         else if sarWidth = 64 then 12
         else EXTENDED_SAR)
      else if sarWidth = 160 \<and> sarHeight = 99 then 13
      else if sarWidth = 4 \<and> sarHeight = 3 then 14
      else if sarWidth = 3 \<and> sarHeight = 2 then 15
      else if sarWidth = 2 \<and> sarHeight = 1 then 16
      else EXTENDED_SAR)"

text \<open>while (4095 < (tmp >> (from + i++))); the value of i behind it\<close>

function hrd_scale :: "32 word \<Rightarrow> nat \<Rightarrow> nat \<Rightarrow> nat" where
  "hrd_scale tmp from i = (if 4095 < drop_bit (from + i) tmp then hrd_scale tmp from (i + 1) else i + 1)"
  by auto
termination
proof (relation "measure (\<lambda>(tmp, from, i). 32 - (from + i))")
  fix tmp :: "32 word" and start i :: nat
  assume a: "4095 < drop_bit (start + i) tmp"
  have "start + i < 32"
  proof (rule ccontr)
    assume "\<not> start + i < 32"
    then have "drop_bit (start + i) tmp = 0" by (intro bit_word_eqI) (auto simp: bit_drop_bit_eq dest: bit_imp_le_length)
    then show False using a by simp
  qed
  then show "((tmp, start, i + 1), (tmp, start, i)) \<in> measure (\<lambda>(tmp, from, i). 32 - (from + i))" by auto
qed simp

declare hrd_scale.simps [simp del] offset_length.simps [simp del] level_loop.simps [simp del]


definition write_aspect_ratio :: "vui_t \<Rightarrow> put_buffer \<Rightarrow> put_buffer option" where
  "write_aspect_ratio v b = (
     let sarIdc = GetAspectRatioIdc (sint (vu_sarWidth v)) (sint (vu_sarHeight v))
     in if sarIdc = 0 then put_bit b 0 1
        else do {
          b \<leftarrow> put_bit b 1 1;
          b \<leftarrow> put_bit b (word_of_int sarIdc) 8;
          if sarIdc = EXTENDED_SAR then do {
            b \<leftarrow> put_bit b (vu_sarWidth v) 16;
            put_bit b (vu_sarHeight v) 16
          } else Some b
        })"

definition write_video_signal :: "vui_t \<Rightarrow> put_buffer \<Rightarrow> put_buffer option" where
  "write_video_signal v b =
     (if vu_videoFullRange v \<noteq> 0 then do {
        b \<leftarrow> put_bit b 1 1;
        b \<leftarrow> put_bit b 5 3;
        b \<leftarrow> put_bit b 1 1;
        put_bit b 0 1
      } else put_bit b 0 1)"

definition write_timing :: "vui_t \<Rightarrow> put_buffer \<Rightarrow> put_buffer option" where
  "write_timing v b =
     (if vu_timeScale v \<noteq> 0 then do {
        b \<leftarrow> put_bit b 1 1;
        b \<leftarrow> put_bit_32 b (vu_numUnitsInTick v) 32;
        b \<leftarrow> put_bit_32 b (vu_timeScale v * (if vu_frame_field_info_present_flag v = 0 then 2 else 1)) 32;
        put_bit b 0 1
      } else put_bit b 0 1)"

text \<open>The rates are rounded down to what the stream can say, in the structure too.\<close>

definition write_hrd :: "vui_t \<Rightarrow> put_buffer \<Rightarrow> (put_buffer \<times> vui_t) option" where
  "write_hrd v b = do {
     b \<leftarrow> put_bit_ue b 0;
     cpb_size_scale \<leftarrow> Some (hrd_scale (vu_cpbSize v) 4 0);
     bit_rate_scale \<leftarrow> Some (hrd_scale (vu_bitRate v) 6 0);
     b \<leftarrow> put_bit b (of_nat bit_rate_scale) 4;
     b \<leftarrow> put_bit b (of_nat cpb_size_scale) 4;
     tmp \<leftarrow> Some (drop_bit (6 + bit_rate_scale) (vu_bitRate v));
     b \<leftarrow> put_bit_ue b (sint (tmp - 1));
     v \<leftarrow> Some (v\<lparr>vu_bitRate := push_bit (6 + bit_rate_scale) tmp\<rparr>);
     tmp \<leftarrow> Some (drop_bit (4 + cpb_size_scale) (vu_cpbSize v));
     b \<leftarrow> put_bit_ue b (sint (tmp - 1));
     v \<leftarrow> Some (v\<lparr>vu_cpbSize := push_bit (4 + cpb_size_scale) tmp\<rparr>);
     b \<leftarrow> put_bit b 0 1;
     b \<leftarrow> put_bit b (vu_initialCpbRemovalDelayLength v - 1) 5;
     b \<leftarrow> put_bit b (vu_cpbRemovalDelayLength v - 1) 5;
     b \<leftarrow> put_bit b (vu_dpbOutputDelayLength v - 1) 5;
     b \<leftarrow> put_bit b (vu_timeOffsetLength v) 5;
     Some (b, v)
   }"

definition write_restriction :: "vui_t \<Rightarrow> int \<Rightarrow> put_buffer \<Rightarrow> put_buffer option" where
  "write_restriction v maxNumRefFrames b =
     (if vu_bitStreamRestrictionFlag v = 1 then do {
        b \<leftarrow> put_bit b 1 1;
        b \<leftarrow> put_bit_ue b 0;
        b \<leftarrow> put_bit_ue b 0;
        b \<leftarrow> put_bit_ue b LOG2_MAX_MV_LENGTH_HOR;
        b \<leftarrow> put_bit_ue b LOG2_MAX_MV_LENGTH_VER;
        b \<leftarrow> put_bit_ue b maxNumRefFrames;
        put_bit_ue b maxNumRefFrames
      } else Some b)"

definition H264WriteVui :: "put_buffer \<Rightarrow> vui_t \<Rightarrow> int \<Rightarrow> (put_buffer \<times> vui_t) option" where
  "H264WriteVui b v maxNumRefFrames = do {
     b \<leftarrow> write_aspect_ratio v b;
     b \<leftarrow> put_bit b 0 1;
     b \<leftarrow> write_video_signal v b;
     b \<leftarrow> put_bit b 0 1;
     b \<leftarrow> write_timing v b;
     b \<leftarrow> put_bit b (vu_nalHrdParametersPresentFlag v) 1;
     (b, v) \<leftarrow> (if vu_nalHrdParametersPresentFlag v = 1 then write_hrd v b else Some (b, v));
     b \<leftarrow> put_bit b 0 1;
     b \<leftarrow> (if vu_nalHrdParametersPresentFlag v = 1 then put_bit b 0 1 else Some b);
     b \<leftarrow> put_bit b (vu_frame_field_info_present_flag v) 1;
     b \<leftarrow> put_bit b (vu_bitStreamRestrictionFlag v) 1;
     b \<leftarrow> write_restriction v maxNumRefFrames b;
     Some (b, v)
   }"

subsection \<open>Sequence parameter sets\<close>

text \<open>A stream of a higher profile drops the constraint flags of the lower ones.\<close>

definition update_constraints :: "sps \<Rightarrow> sps" where
  "update_constraints s = (
     let s = (if es_general_profile_idc s > 66 then s\<lparr>es_constraintSet0 := ENCHW_NO\<rparr> else s);
         s = (if es_general_profile_idc s > 77 then s\<lparr>es_constraintSet1 := ENCHW_NO\<rparr> else s)
     in if es_general_profile_idc s > 88 then s\<lparr>es_constraintSet2 := ENCHW_NO\<rparr> else s)"

definition write_profile :: "sps \<Rightarrow> put_buffer \<Rightarrow> put_buffer option" where
  "write_profile s b = do {
     b \<leftarrow> put_bit b (word_of_int (es_constraintSet0 s)) 1;
     b \<leftarrow> put_bit b (word_of_int (es_constraintSet1 s)) 1;
     b \<leftarrow> put_bit b (word_of_int (es_constraintSet2 s)) 1;
     b \<leftarrow> put_bit b (word_of_int (es_constraintSet3 s)) 1;
     b \<leftarrow> put_bit b 0 4;
     b \<leftarrow> put_bit b (es_general_level_idc s) 8;
     b \<leftarrow> put_bit_ue b (es_id s);
     if es_general_profile_idc s \<ge> 100 then do {
       b \<leftarrow> put_bit_ue b (es_chroma_format_idc s);
       b \<leftarrow> (if es_chroma_format_idc s \<le> VCENC_CHROMA_IDC_420 then Some b else None);
       b \<leftarrow> put_bit_ue b (sint (es_bit_depth_luma_minus8 s));
       b \<leftarrow> put_bit_ue b (sint (es_bit_depth_chroma_minus8 s));
       b \<leftarrow> put_bit b 0 1;
       put_bit b 0 1
     } else Some b
   }"

definition write_frame_format :: "sps \<Rightarrow> put_buffer \<Rightarrow> put_buffer option" where
  "write_frame_format s b = do {
     b \<leftarrow> put_bit_ue b (es_log2MaxFrameNumMinus4 s);
     b \<leftarrow> put_bit_ue b (sint (es_picOrderCntType s));
     b \<leftarrow> (if es_picOrderCntType s = 0 then put_bit_ue b (es_log2MaxpicOrderCntLsbMinus4 s) else Some b);
     b \<leftarrow> put_bit_ue b (sint (es_numRefFrames s));
     b \<leftarrow> put_bit b (word_of_int (es_gapsInFrameNumValueAllowed s)) 1;
     b \<leftarrow> put_bit_ue b (es_picWidthInMbsMinus1 s);
     b \<leftarrow> put_bit_ue b (es_picHeightInMapUnitsMinus1 s);
     b \<leftarrow> put_bit b (word_of_int (es_frameMbsOnly s)) 1;
     b \<leftarrow> (if es_frameMbsOnly s = 0 then put_bit b 0 1 else Some b);
     put_bit b (word_of_int (es_direct8x8Inference s)) 1
   }"

definition write_cropping :: "sps \<Rightarrow> put_buffer \<Rightarrow> put_buffer option" where
  "write_cropping s b = do {
     b \<leftarrow> put_bit b (word_of_int (es_frameCropping s)) 1;
     if es_frameCropping s \<noteq> 0 then do {
       b \<leftarrow> put_bit_ue b (sint (es_frameCropLeftOffset s));
       b \<leftarrow> put_bit_ue b (sint (es_frameCropRightOffset s));
       b \<leftarrow> put_bit_ue b (sint (es_frameCropTopOffset s));
       put_bit_ue b (sint (es_frameCropBottomOffset s))
     } else Some b
   }"

definition H264SeqParameterSet :: "sps \<Rightarrow> put_buffer \<Rightarrow> (put_buffer \<times> sps) option" where
  "H264SeqParameterSet s b = do {
     b \<leftarrow> H264NalUnitHdr b 1 H264_SPS_NUT (byte_stream (es_streamMode s));
     b \<leftarrow> put_bit b (es_general_profile_idc s) 8;
     s \<leftarrow> Some (update_constraints s);
     b \<leftarrow> write_profile s b;
     b \<leftarrow> write_frame_format s b;
     b \<leftarrow> write_cropping s b;
     s \<leftarrow> Some (UpdateVuiPresence (set_vui (\<lambda>v. v\<lparr>vu_bitStreamRestrictionFlag := 1\<rparr>) s));
     b \<leftarrow> put_bit b (word_of_int (es_vui_parameters_present_flag s)) 1;
     (b, s) \<leftarrow> (if es_vui_parameters_present_flag s = ENCHW_YES then do {
         (b, v) \<leftarrow> H264WriteVui b (es_vui s) (es_max_dec_pic_buffering0 s);
         Some (b, set_vui (\<lambda>_. v) s)
       } else Some (b, s));
     b \<leftarrow> rbsp_trailing_bits b;
     Some (b, s)
   }"

end
