(* ===== verification/EncSyntax.thy ===== *)
theory EncSyntax
  imports EncParams
begin

text \<open>
  The encoder's parameter sets against the syntax tables of the standard: each writer puts out the list of
  syntax elements that section 7.3.2 gives for its structure.
\<close>

subsection \<open>What a writer puts out\<close>

text \<open>f appends the elements es, where they are in range and the buffer has 12 bytes for each.\<close>

definition emits :: "(put_buffer \<Rightarrow> put_buffer option) \<Rightarrow> syntax_element list \<Rightarrow> bool" where
  "emits f es = (list_all element_ok es \<longrightarrow> (\<forall>s0 b bs m. wrote s0 b bs \<longrightarrow> room b (m + 12 * length es) \<longrightarrow> 8 \<le> m \<longrightarrow>
     (\<exists>b'. f b = Some b' \<and> wrote s0 b' (bs @ concat (map element_bits es)) \<and> room b' m)))"

text \<open>The same with a second result x, which does not depend on the buffer\<close>

definition emits_val :: "(put_buffer \<Rightarrow> (put_buffer \<times> 'a) option) \<Rightarrow> syntax_element list \<Rightarrow> 'a \<Rightarrow> bool" where
  "emits_val f es x = emits (\<lambda>b. Option.bind (f b) (\<lambda>(b', y). if y = x then Some b' else None)) es"

named_theorems emits_intros

lemma room_le: "room b n \<Longrightarrow> m \<le> n \<Longrightarrow> room b m"
  by (simp add: room_def)

lemma emits_done [emits_intros]: "emits Some []"
  by (auto simp: emits_def)

lemma emits_bind: "emits f es \<Longrightarrow> emits g es' \<Longrightarrow> emits (\<lambda>b. Option.bind (f b) g) (es @ es')"
proof -
  assume f: "emits f es" and g: "emits g es'"
  show ?thesis unfolding emits_def
  proof (intro impI allI)
    fix s0 b bs and m :: nat
    assume a: "list_all element_ok (es @ es')" "wrote s0 b bs" "room b (m + 12 * length (es @ es'))" "8 \<le> m"
    have r: "room b ((m + 12 * length es') + 12 * length es)" using a(3) by (simp add: algebra_simps)
    have ok: "list_all element_ok es" "list_all element_ok es'" using a(1) by auto
    have "8 \<le> m + 12 * length es'" using a(4) by simp
    from f[unfolded emits_def, rule_format, OF ok(1) a(2) r this] obtain b1 where
      b1: "f b = Some b1" "wrote s0 b1 (bs @ concat (map element_bits es))" "room b1 (m + 12 * length es')" by blast
    from g[unfolded emits_def, rule_format, OF ok(2) b1(2,3) a(4)] b1(1)
    show "\<exists>b'. Option.bind (f b) g = Some b' \<and> wrote s0 b' (bs @ concat (map element_bits (es @ es'))) \<and> room b' m"
      by auto
  qed
qed

lemma emits_cons [emits_intros]: "emits f [e] \<Longrightarrow> emits g es \<Longrightarrow> emits (\<lambda>b. Option.bind (f b) g) (e # es)"
  using emits_bind[of f "[e]" g es] by simp

lemma emits_last: "emits f es \<Longrightarrow> emits (\<lambda>b. Option.bind (f b) Some) es"
  by simp

lemma emits_const [emits_intros]: "x = Some v \<Longrightarrow> emits (g v) es \<Longrightarrow> emits (\<lambda>b. Option.bind x (\<lambda>v. g v b)) es"
  by simp

lemma emits_if [emits_intros]:
  "(c \<Longrightarrow> emits f es) \<Longrightarrow> (\<not> c \<Longrightarrow> emits g es') \<Longrightarrow> emits (\<lambda>b. if c then f b else g b) (if c then es else es')"
  by simp

lemma emits_element:
  assumes "element_ok e \<Longrightarrow> (\<And>s0 b bs m. wrote s0 b bs \<Longrightarrow> room b m \<Longrightarrow> 20 \<le> m \<Longrightarrow>
    \<exists>b'. f b = Some b' \<and> wrote s0 b' (bs @ element_bits e) \<and> room b' (m - 12))"
  shows "emits f [e]"
  using assms by (simp add: emits_def) force

lemma emits_u [emits_intros]:
  assumes "0 < n" "n \<le> 8" shows "emits (\<lambda>b. put_bit b v n) [U v n]"
proof (rule emits_element)
  fix s0 b bs and m :: nat
  assume a: "element_ok (U v n)" "wrote s0 b bs" "room b m" "20 \<le> m"
  have "drop_bit n v = 0" using a(1) by (simp add: element_ok_def)
  then have "\<forall>j. bit v j \<longrightarrow> j < n" using drop_bit_0_bits[of n v] by (meson not_le)
  then have "put_bit_pre v n"
    using assms by (auto simp: put_bit_pre_def bit_eq_iff bit_simps)
  from put_bit_wrote[OF a(2) this a(3)] a(4) obtain b' where
    "put_bit b v n = Some b'" "wrote s0 b' (bs @ low_bits n v)" "room b' (m - 3)" by auto
  then show "\<exists>b'. put_bit b v n = Some b' \<and> wrote s0 b' (bs @ element_bits (U v n)) \<and> room b' (m - 12)"
    by (auto simp: element_bits_def intro: room_le)
qed

lemma emits_u32 [emits_intros]: "n \<le> 32 \<Longrightarrow> emits (\<lambda>b. put_bit_32 b v n) [U v n]"
  by (rule emits_element) (use put_element_wrote[of _ _ _ "U v n"] in \<open>auto simp: put_element_def\<close>)

lemma emits_ue [emits_intros]: "0 \<le> x \<Longrightarrow> emits (\<lambda>b. put_bit_ue b x) [UE (nat x)]"
  by (rule emits_element) (use put_element_wrote[of _ _ _ "UE (nat x)"] in \<open>auto simp: put_element_def\<close>)

lemma emits_se [emits_intros]: "emits (\<lambda>b. put_bit_se b x) [SE x]"
  by (rule emits_element) (use put_element_wrote[of _ _ _ "SE x"] in \<open>auto simp: put_element_def\<close>)

lemma emits_val_Some [emits_intros]: "emits_val (\<lambda>b. Some (b, x)) [] x"
  by (simp add: emits_val_def emits_done)


lemma emits_val_bind:
  assumes f: "emits_val f es x" and g: "emits (\<lambda>b. g b x) es'"
  shows "emits (\<lambda>b. Option.bind (f b) (\<lambda>(b, v). g b v)) (es @ es')"
proof -
  have e: "emits (\<lambda>b. Option.bind (Option.bind (f b) (\<lambda>(b', y). if y = x then Some b' else None)) (\<lambda>b. g b x)) (es @ es')"
    (is "emits ?h _") using f g unfolding emits_val_def by (rule emits_bind)
  have "?h b = Some b' \<Longrightarrow> Option.bind (f b) (\<lambda>(b, v). g b v) = Some b'" for b b'
    by (auto simp: bind_eq_Some_conv split: if_splits)
  then show ?thesis using e unfolding emits_def by meson
qed

lemma emits_val_after:
  assumes "emits f es" "emits_val g es' x" shows "emits_val (\<lambda>b. Option.bind (f b) g) (es @ es') x"
  using emits_bind[OF assms(1), of "\<lambda>b. Option.bind (g b) (\<lambda>(b', y). if y = x then Some b' else None)" es'] assms(2)
  by (simp add: emits_val_def bind_assoc)

lemma emits_val_cons [emits_intros]:
  "emits f [e] \<Longrightarrow> emits_val g es x \<Longrightarrow> emits_val (\<lambda>b. Option.bind (f b) g) (e # es) x"
  using emits_val_after[of f "[e]" g es x] by simp

lemma emits_val_bind_val:
  assumes f: "emits_val f es x" and g: "emits_val (\<lambda>b. g b x) es' y"
  shows "emits_val (\<lambda>b. Option.bind (f b) (\<lambda>(b, v). g b v)) (es @ es') y"
proof -
  have "emits (\<lambda>b. Option.bind (f b) (\<lambda>(b, v). Option.bind (g b v) (\<lambda>(b', z). if z = y then Some b' else None))) (es @ es')"
    using f g[unfolded emits_val_def] by (rule emits_val_bind)
  moreover have "Option.bind (Option.bind (f b) (\<lambda>(b, v). g b v)) (\<lambda>(b', z). if z = y then Some b' else None)
      = Option.bind (f b) (\<lambda>(b, v). Option.bind (g b v) (\<lambda>(b', z). if z = y then Some b' else None))" for b
    by (cases "f b") auto
  ultimately show ?thesis by (simp add: emits_val_def)
qed

lemma emits_val_const: "x = Some v \<Longrightarrow> emits_val (g v) es y \<Longrightarrow> emits_val (\<lambda>b. Option.bind x (\<lambda>v. g v b)) es y"
  by simp

subsection \<open>Writers that end with the RBSP trailing bits\<close>

definition rbsp_bits :: "syntax_element list \<Rightarrow> bits" where
  "rbsp_bits es = concat (map element_bits es)
     @ True # replicate ((7 * (length (concat (map element_bits es)) + 1)) mod 8) False"

definition closes :: "(put_buffer \<Rightarrow> put_buffer option) \<Rightarrow> syntax_element list \<Rightarrow> bool" where
  "closes f es = (list_all element_ok es \<longrightarrow> (\<forall>s0 b bs. wrote s0 b bs \<longrightarrow> room b (40 + 12 * length es) \<longrightarrow>
     (\<exists>b' B. f b = Some b' \<and> pb_stream b' = s0 @ escape B
       \<and> bits_of B = bs @ concat (map element_bits es)
           @ True # replicate ((7 * (length (bs @ concat (map element_bits es)) + 1)) mod 8) False)))"

lemma closes_trailing: "emits f es \<Longrightarrow> closes (\<lambda>b. Option.bind (f b) rbsp_trailing_bits) es"
proof -
  assume f: "emits f es"
  show ?thesis unfolding closes_def
  proof (intro impI allI)
    fix s0 b bs
    assume a: "list_all element_ok es" "wrote s0 b bs" "room b (40 + 12 * length es)"
    from f[unfolded emits_def, rule_format, OF a] obtain b1 where
      b1: "f b = Some b1" "wrote s0 b1 (bs @ concat (map element_bits es))" "room b1 40" by auto
    from rbsp_trailing_bits_wrote[OF b1(2,3)] b1(1)
    show "\<exists>b' B. Option.bind (f b) rbsp_trailing_bits = Some b' \<and> pb_stream b' = s0 @ escape B
       \<and> bits_of B = bs @ concat (map element_bits es)
           @ True # replicate ((7 * (length (bs @ concat (map element_bits es)) + 1)) mod 8) False"
      by auto
  qed
qed

lemma closes_bind: "emits f es \<Longrightarrow> closes g es' \<Longrightarrow> closes (\<lambda>b. Option.bind (f b) g) (es @ es')"
proof -
  assume f: "emits f es" and g: "closes g es'"
  show ?thesis unfolding closes_def
  proof (intro impI allI)
    fix s0 b bs
    assume a: "list_all element_ok (es @ es')" "wrote s0 b bs" "room b (40 + 12 * length (es @ es'))"
    have r: "room b ((40 + 12 * length es') + 12 * length es)" using a(3) by (simp add: algebra_simps)
    have ok: "list_all element_ok es" "list_all element_ok es'" using a(1) by auto
    from f[unfolded emits_def, rule_format, OF ok(1) a(2) r] obtain b1 where
      b1: "f b = Some b1" "wrote s0 b1 (bs @ concat (map element_bits es))" "room b1 (40 + 12 * length es')" by auto
    from g[unfolded closes_def, rule_format, OF ok(2) b1(2,3)] b1(1)
    show "\<exists>b' B. Option.bind (f b) g = Some b' \<and> pb_stream b' = s0 @ escape B
       \<and> bits_of B = bs @ concat (map element_bits (es @ es'))
           @ True # replicate ((7 * (length (bs @ concat (map element_bits (es @ es'))) + 1)) mod 8) False"
      by simp
  qed
qed

lemma closes_cons: "emits f [e] \<Longrightarrow> closes g es \<Longrightarrow> closes (\<lambda>b. Option.bind (f b) g) (e # es)"
  using closes_bind[of f "[e]" g es] by simp

lemma closes_const: "x = Some v \<Longrightarrow> closes (g v) es \<Longrightarrow> closes (\<lambda>b. Option.bind x (\<lambda>v. g v b)) es"
  by simp

text \<open>An empty writer with room, and the stream it leaves\<close>

definition fresh :: "put_buffer \<Rightarrow> nat \<Rightarrow> bool" where
  "fresh b n = (pb_bit_cnt b = 0 \<and> pb_cache b = 0 \<and> unat (pb_cnt b) + 4 + 40 + 12 * n \<le> unat (pb_size b))"

lemma closes_fresh:
  assumes "closes f es" "list_all element_ok es" "fresh b (length es)"
  shows "\<exists>b' B. f b = Some b' \<and> pb_stream b' = pb_stream b @ escape B \<and> bits_of B = rbsp_bits es"
proof -
  have "wrote (pb_stream b) b []" using assms(3) by (intro wrote_start) (auto simp: fresh_def cache_ok_def)
  moreover have "room b (40 + 12 * length es)" using assms(3) by (simp add: fresh_def room_def)
  ultimately show ?thesis using assms(1,2) unfolding closes_def rbsp_bits_def by fastforce
qed

text \<open>The start code of the byte stream format\<close>

definition start_code :: "int \<Rightarrow> 8 word list" where
  "start_code mode = (if mode = VCENC_BYTE_STREAM then [0, 0, 0, 1] else [])"

definition with_start_code :: "int \<Rightarrow> put_buffer \<Rightarrow> put_buffer" where
  "with_start_code mode b = (if mode = VCENC_BYTE_STREAM then put_bits_startcode b else b)"

text \<open>A NAL unit: the start code, where the stream has them, the header, and the payload\<close>

definition closes_nal :: "int \<Rightarrow> (put_buffer \<Rightarrow> put_buffer option) \<Rightarrow> syntax_element list \<Rightarrow> bool" where
  "closes_nal mode f es = (\<exists>g. closes g es \<and> (\<forall>b. f b = g (with_start_code mode b)))"

lemma closes_start_code:
  assumes "closes_nal mode f es" "list_all element_ok es" "fresh b (length es)"
  shows "\<exists>b' B. f b = Some b' \<and> pb_stream b' = pb_stream b @ start_code mode @ escape B
    \<and> bits_of B = rbsp_bits es"
proof -
  obtain g where g: "closes g es" "f b = g (with_start_code mode b)" using assms(1) by (auto simp: closes_nal_def)
  let ?b = "with_start_code mode b"
  have r: "room b 44" using assms(3) by (simp add: fresh_def room_def)
  then have "\<not> buffer_full b" by (rule room_not_full) simp
  then have s: "pb_stream ?b = pb_stream b @ start_code mode" "pb_cache ?b = pb_cache b" "pb_bit_cnt ?b = pb_bit_cnt b"
    "unat (pb_cnt ?b) \<le> unat (pb_cnt b) + 4" "pb_size ?b = pb_size b"
    using cnt_room[OF r, of 4] by (auto simp: with_start_code_def start_code_def put_bits_startcode_def)
  have "wrote (pb_stream ?b) ?b []" using assms(3) s by (intro wrote_start) (auto simp: fresh_def cache_ok_def)
  moreover have "room ?b (40 + 12 * length es)" using assms(3) s by (simp add: fresh_def room_def)
  ultimately show ?thesis using g assms(2) s(1) unfolding closes_def rbsp_bits_def by fastforce
qed

subsection \<open>The syntax tables\<close>

abbreviation B1 :: "32 word \<Rightarrow> syntax_element" where "B1 v \<equiv> U v 1"

text \<open>Section 7.3.1: forbidden\_zero\_bit, nal\_ref\_idc, nal\_unit\_type\<close>

definition nal_syntax :: "int \<Rightarrow> int \<Rightarrow> syntax_element list" where
  "nal_syntax idc ty = [B1 0, U (word_of_int idc) 2, U (word_of_int ty) 5]"

lemma NalUnitHdr_emits: "emits (\<lambda>b. H264NalUnitHdr b idc ty ENCHW_NO) (nal_syntax idc ty)"
proof -
  have "emits (\<lambda>b. Option.bind (put_bit b 0 1) (\<lambda>b. Option.bind (put_bit b (word_of_int idc) 2)
      (\<lambda>b. put_bit b (word_of_int ty) 5))) (nal_syntax idc ty)"
    unfolding nal_syntax_def by (rule emits_intros; (rule emits_intros)?; simp?)+
  then show ?thesis by (simp add: H264NalUnitHdr_def enc_consts)
qed


lemma NalUnitHdr_start: "H264NalUnitHdr b idc ty (byte_stream mode) = H264NalUnitHdr (with_start_code mode b) idc ty ENCHW_NO"
  by (simp add: H264NalUnitHdr_def with_start_code_def byte_stream_def enc_consts)

lemma closes_header: "closes g es \<Longrightarrow> closes_nal mode
    (\<lambda>b. Option.bind (H264NalUnitHdr b idc ty (byte_stream mode)) g) (nal_syntax idc ty @ es)"
  unfolding closes_nal_def NalUnitHdr_start
  by (rule exI[of _ "\<lambda>b. Option.bind (H264NalUnitHdr b idc ty ENCHW_NO) g"])
    (simp add: closes_bind[OF NalUnitHdr_emits])

text \<open>Section 7.3.2.2, with one slice group\<close>

definition pps_syntax :: "pps \<Rightarrow> syntax_element list" where
  "pps_syntax p = nal_syntax 1 H264_PPS_NUT @
     [UE (nat (ep_id p)), UE (nat (ep_sps_id p)),
      B1 (word_of_int (ep_entropy_coding_mode_flag p)), B1 0, UE (nat 0),
      UE (nat (ep_num_ref_idx_l0_default_active p - 1)), UE (nat (ep_num_ref_idx_l1_default_active p - 1)),
      B1 (word_of_int (ep_weighted_pred_flag p)), U (word_of_int (ep_weighted_bipred_flag p)) 2,
      SE (ep_init_qp p - 26), SE 0, SE (ep_cb_qp_offset p),
      B1 (word_of_int (ep_deblocking_filter_control_present_flag p)),
      B1 (word_of_int (ep_constrained_intra_pred_flag p)), B1 0]
     @ (if ep_transform8x8Mode p = ENCHW_YES then [B1 (word_of_int (ep_transform8x8Mode p)), B1 0, SE (ep_cb_qp_offset p)] else [])"

text \<open>The picture parameter sets that the encoder's checks let through\<close>

definition pps_fields_ok :: "pps \<Rightarrow> bool" where
  "pps_fields_ok p = (0 \<le> ep_id p \<and> ep_id p < 256 \<and> 0 \<le> ep_sps_id p \<and> ep_sps_id p < 32
     \<and> ep_entropy_coding_mode_flag p \<in> {0, 1}
     \<and> 1 \<le> ep_num_ref_idx_l0_default_active p \<and> ep_num_ref_idx_l0_default_active p \<le> 32
     \<and> 1 \<le> ep_num_ref_idx_l1_default_active p \<and> ep_num_ref_idx_l1_default_active p \<le> 32
     \<and> ep_weighted_pred_flag p \<in> {0, 1} \<and> 0 \<le> ep_weighted_bipred_flag p \<and> ep_weighted_bipred_flag p \<le> 2
     \<and> 0 \<le> ep_init_qp p \<and> ep_init_qp p \<le> 51 \<and> -12 \<le> ep_cb_qp_offset p \<and> ep_cb_qp_offset p \<le> 12
     \<and> ep_deblocking_filter_control_present_flag p \<in> {0, 1} \<and> ep_constrained_intra_pred_flag p \<in> {0, 1}
     \<and> ep_transform8x8Mode p \<in> {0, 1})"

subsection \<open>Picture parameter sets\<close>

lemma sub_i32_small: "0 \<le> a \<Longrightarrow> a \<le> 100 \<Longrightarrow> 0 \<le> c \<Longrightarrow> c \<le> 100 \<Longrightarrow> sub_i32 a c = Some (a - c)"
  by (simp add: sub_i32_def i32_ok_def)

lemma widths [emits_intros]: "0 < (1 :: nat)" "1 \<le> (8 :: nat)" "0 < (numeral k :: nat)" "numeral k \<le> (numeral k :: nat)"
  "2 \<le> (8 :: nat)" "3 \<le> (8 :: nat)" "4 \<le> (8 :: nat)" "5 \<le> (8 :: nat)" "0 \<le> (0 :: int)"
  by simp_all

lemma PicParameterSet_closes:
  assumes "pps_fields_ok p"
  shows "closes_nal (ep_streamMode p) (H264PicParameterSet p) (pps_syntax p)"
proof -
  note ok = assms[unfolded pps_fields_ok_def]
  have sub: "sub_i32 (ep_num_ref_idx_l0_default_active p) 1 = Some (ep_num_ref_idx_l0_default_active p - 1)"
    "sub_i32 (ep_num_ref_idx_l1_default_active p) 1 = Some (ep_num_ref_idx_l1_default_active p - 1)"
    "sub_i32 (ep_init_qp p) 26 = Some (ep_init_qp p - 26)" using ok by (auto intro!: sub_i32_small)
  have pos: "0 \<le> ep_id p" "0 \<le> ep_sps_id p" "0 \<le> ep_num_ref_idx_l0_default_active p - 1"
    "0 \<le> ep_num_ref_idx_l1_default_active p - 1" using ok by simp_all
  show ?thesis
    unfolding H264PicParameterSet_def pps_syntax_def append_assoc append_Cons append_Nil
    by (rule closes_header) (rule closes_cons closes_const closes_trailing sub pos emits_intros)+
qed

lemma word_of_small: "0 \<le> x \<Longrightarrow> x < 2 ^ n \<Longrightarrow> n \<le> 32 \<Longrightarrow> drop_bit n (word_of_int x :: 32 word) = 0"
proof -
  assume x: "0 \<le> x" "x < 2 ^ n" "n \<le> 32"
  have "(2 :: nat) ^ n \<le> 2 ^ 32" using x(3) by (rule power_increasing) simp
  moreover have "nat x < 2 ^ n" using x(1,2) by (simp add: nat_less_iff)
  ultimately have "nat x < 2 ^ n" "nat x < 2 ^ 32" by linarith+
  then show ?thesis using small_drop_bit[of "nat x" n] x(1) by simp
qed

lemma element_ok_u: "0 \<le> x \<Longrightarrow> x < 2 ^ n \<Longrightarrow> n \<le> 32 \<Longrightarrow> element_ok (U (word_of_int x) n)"
  by (simp add: element_ok_def word_of_small)

lemma element_ok_ue: "0 \<le> x \<Longrightarrow> x < 2 ^ 16 - 1 \<Longrightarrow> element_ok (UE (nat x))"
  by (simp add: element_ok_def nat_less_iff)

lemma element_ok_se: "- (2 ^ 14) < x \<Longrightarrow> x < 2 ^ 14 \<Longrightarrow> element_ok (SE x)"
  by (auto simp: element_ok_def se_code_num_def)

lemma element_ok_flag: "x = 0 \<or> x = 1 \<Longrightarrow> element_ok (B1 (word_of_int x))"
  using element_ok_u[of x 1] by auto

lemma element_ok_zero: "element_ok (B1 0)" "element_ok (B1 1)" "element_ok (UE 0)" "element_ok (SE 0)"
  by (simp_all add: element_ok_def se_code_num_def)

lemma nal_syntax_ok: "0 \<le> idc \<Longrightarrow> idc < 4 \<Longrightarrow> 0 \<le> ty \<Longrightarrow> ty < 32 \<Longrightarrow> list_all element_ok (nal_syntax idc ty)"
  using element_ok_u[of idc 2] element_ok_u[of ty 5] element_ok_zero
  by (simp add: nal_syntax_def del: One_nat_def)

lemma pps_syntax_ok: "pps_fields_ok p \<Longrightarrow> list_all element_ok (pps_syntax p)"
proof -
  assume a: "pps_fields_ok p"
  note ok = a[unfolded pps_fields_ok_def insert_iff empty_iff simp_thms]
  have h: "list_all element_ok (nal_syntax 1 H264_PPS_NUT)" by (rule nal_syntax_ok) (simp_all add: enc_consts)
  have "list_all element_ok [UE (nat (ep_id p)), UE (nat (ep_sps_id p)),
      B1 (word_of_int (ep_entropy_coding_mode_flag p)), B1 0, UE (nat 0),
      UE (nat (ep_num_ref_idx_l0_default_active p - 1)), UE (nat (ep_num_ref_idx_l1_default_active p - 1)),
      B1 (word_of_int (ep_weighted_pred_flag p)), U (word_of_int (ep_weighted_bipred_flag p)) 2,
      SE (ep_init_qp p - 26), SE 0, SE (ep_cb_qp_offset p),
      B1 (word_of_int (ep_deblocking_filter_control_present_flag p)),
      B1 (word_of_int (ep_constrained_intra_pred_flag p)), B1 0]"
    unfolding list.pred_inject
    by (intro conjI element_ok_flag element_ok_zero element_ok_u element_ok_ue element_ok_se) (use ok in \<open>simp_all\<close>)
  then show ?thesis using h ok
    by (simp add: pps_syntax_def element_ok_flag element_ok_se element_ok_zero enc_consts del: One_nat_def)
qed

end
