(* ===== verification/EncSps.thy ===== *)
theory EncSps
  imports EncSyntax
begin

text \<open>
  The encoder's sequence parameter sets: the rounding of the HRD rates, the setters of the video usability
  information, and H264SeqParameterSet against the syntax tables 7.3.2.1 and E.1.
\<close>

subsection \<open>The scales of the HRD rates\<close>

text \<open>The least shift that leaves 12 bits, and one more\<close>

lemma hrd_scale_least: "\<exists>j \<ge> i. hrd_scale w k i = Suc j \<and> drop_bit (k + j) w \<le> 4095
    \<and> (\<forall>l. i \<le> l \<and> l < j \<longrightarrow> 4095 < drop_bit (k + l) w)"
proof (induction w k i rule: hrd_scale.induct)
  case (1 w k i)
  show ?case
  proof (cases "4095 < drop_bit (k + i) w")
    case True
    then have e: "hrd_scale w k i = hrd_scale w k (i + 1)" by (simp add: hrd_scale.simps[of w k i])
    from 1[OF True] obtain j where j: "i + 1 \<le> j" "hrd_scale w k (i + 1) = Suc j" "drop_bit (k + j) w \<le> 4095"
      "\<forall>l. i + 1 \<le> l \<and> l < j \<longrightarrow> 4095 < drop_bit (k + l) w" by blast
    have "\<forall>l. i \<le> l \<and> l < j \<longrightarrow> 4095 < drop_bit (k + l) w" using j(4) True by (metis Suc_eq_plus1 Suc_leI le_neq_implies_less)
    then show ?thesis using j e by (intro exI[of _ j]) auto
  next
    case False
    then show ?thesis by (intro exI[of _ i]) (auto simp: hrd_scale.simps[of w k i])
  qed
qed

lemma unat_drop: "unat (drop_bit k (w :: 32 word)) = unat w div 2 ^ k"
  by (rule unat_drop_bit_div)

lemma div_next: "(x :: nat) div 2 ^ Suc i = x div 2 ^ i div 2"
  unfolding power_Suc2 by (rule div_mult2_eq)

lemma hrd_scale_bounds:
  assumes "hrd_scale w k 0 = n" "2 ^ (k + 1) \<le> unat w"
  shows "1 \<le> n" "unat w div 2 ^ (k + n) \<le> 2047" "1 \<le> unat w div 2 ^ (k + n)" "\<And>m. unat w < 2 ^ (k + 12 + m) \<Longrightarrow> n \<le> m + 1"
proof -
  obtain j where j: "n = Suc j" "drop_bit (k + j) w \<le> 4095" "\<forall>l. l < j \<longrightarrow> 4095 < drop_bit (k + l) w"
    using hrd_scale_least[of 0 w k] assms(1) by auto
  have le: "unat w div 2 ^ (k + j) \<le> 4095" using j(2) by (simp add: word_le_nat_alt unat_drop)
  have half: "unat w div 2 ^ (k + n) = unat w div 2 ^ (k + j) div 2" using div_next[of "unat w" "k + j"] by (simp add: j(1) del: power_Suc)
  show "1 \<le> n" "unat w div 2 ^ (k + n) \<le> 2047" using j(1) le half by simp_all
  show "1 \<le> unat w div 2 ^ (k + n)"
  proof (cases j)
    case 0
    then have "2 ^ (k + n) \<le> unat w" using assms(2) j(1) by simp
    then show ?thesis by (simp add: Suc_le_eq div_greater_zero_iff)
  next
    case (Suc i)
    then have "4095 < unat w div 2 ^ (k + i)" using j(3)[rule_format, of i] by (simp add: word_less_nat_alt unat_drop)
    moreover have "unat w div 2 ^ (k + j) = unat w div 2 ^ (k + i) div 2" 
      using div_next[of "unat w" "k + i"] by (simp add: Suc del: power_Suc)
    ultimately show ?thesis unfolding half by linarith
  qed
  show "n \<le> m + 1" if m: "unat w < 2 ^ (k + 12 + m)" for m
  proof (rule ccontr)
    assume "\<not> n \<le> m + 1"
    then have "m < j" using j(1) by simp
    then have "4095 < unat w div 2 ^ (k + m)" using j(3) by (simp add: word_less_nat_alt unat_drop)
    moreover have "unat w < 4096 * 2 ^ (k + m)" using m by (simp add: power_add mult.commute mult.left_commute)
    then have "unat w div 2 ^ (k + m) < 4096" by (simp add: less_mult_imp_div_less)
    ultimately show False by simp
  qed
qed

subsection \<open>The syntax tables\<close>

definition aspect_syntax :: "vui_t \<Rightarrow> syntax_element list" where
  "aspect_syntax v = (let idc = GetAspectRatioIdc (sint (vu_sarWidth v)) (sint (vu_sarHeight v))
     in if idc = 0 then [B1 0] else [B1 1, U (word_of_int idc) 8])"

definition video_syntax :: "vui_t \<Rightarrow> syntax_element list" where
  "video_syntax v = (if vu_videoFullRange v \<noteq> 0 then [B1 1, U 5 3, B1 1, B1 0] else [B1 0])"

text \<open>The decoder counts fields, so the time scale is doubled where frames are counted.\<close>

definition timing_syntax :: "vui_t \<Rightarrow> syntax_element list" where
  "timing_syntax v = (if vu_timeScale v \<noteq> 0 then
     [B1 1, U (vu_numUnitsInTick v) 32,
      U (vu_timeScale v * (if vu_frame_field_info_present_flag v = 0 then 2 else 1)) 32, B1 0] else [B1 0])"

text \<open>Section E.1.2, with one schedule; the values are rounded down.\<close>

definition rate_scale :: "vui_t \<Rightarrow> nat" where "rate_scale v = hrd_scale (vu_bitRate v) 6 0"
definition size_scale :: "vui_t \<Rightarrow> nat" where "size_scale v = hrd_scale (vu_cpbSize v) 4 0"
definition rate_value :: "vui_t \<Rightarrow> nat" where "rate_value v = unat (vu_bitRate v) div 2 ^ (6 + rate_scale v)"
definition size_value :: "vui_t \<Rightarrow> nat" where "size_value v = unat (vu_cpbSize v) div 2 ^ (4 + size_scale v)"

definition hrd_syntax :: "vui_t \<Rightarrow> syntax_element list" where
  "hrd_syntax v = [UE (nat 0), U (of_nat (rate_scale v)) 4, U (of_nat (size_scale v)) 4,
     UE (rate_value v - 1), UE (size_value v - 1), B1 0,
     U (vu_initialCpbRemovalDelayLength v - 1) 5, U (vu_cpbRemovalDelayLength v - 1) 5,
     U (vu_dpbOutputDelayLength v - 1) 5, U (vu_timeOffsetLength v) 5]"

definition rounded :: "vui_t \<Rightarrow> vui_t" where
  "rounded v = v\<lparr>vu_bitRate := push_bit (6 + rate_scale v) (drop_bit (6 + rate_scale v) (vu_bitRate v)),
     vu_cpbSize := push_bit (4 + size_scale v) (drop_bit (4 + size_scale v) (vu_cpbSize v))\<rparr>"

definition restriction_syntax :: "int \<Rightarrow> syntax_element list" where
  "restriction_syntax n = [B1 1, UE (nat 0), UE (nat 0), UE (nat LOG2_MAX_MV_LENGTH_HOR), UE (nat LOG2_MAX_MV_LENGTH_VER),
     UE (nat n), UE (nat n)]"

text \<open>Section E.1.1, with bitstream\_restriction\_flag 1\<close>

definition vui_syntax :: "vui_t \<Rightarrow> int \<Rightarrow> syntax_element list" where
  "vui_syntax v n = aspect_syntax v @ B1 0 # video_syntax v @ B1 0 # timing_syntax v
     @ B1 (vu_nalHrdParametersPresentFlag v)
     # (if vu_nalHrdParametersPresentFlag v = 1 then hrd_syntax v else [])
     @ B1 0 # (if vu_nalHrdParametersPresentFlag v = 1 then [B1 0] else [])
     @ B1 (vu_frame_field_info_present_flag v) # B1 1 # restriction_syntax n"

text \<open>Section 7.3.2.1, for profiles without and with the high profiles' fields\<close>

definition high_syntax :: "sps \<Rightarrow> syntax_element list" where
  "high_syntax s = (if es_general_profile_idc s \<ge> 100 then
     [UE (nat (es_chroma_format_idc s)), UE (nat (sint (es_bit_depth_luma_minus8 s))),
      UE (nat (sint (es_bit_depth_chroma_minus8 s))), B1 0, B1 0] else [])"

definition frame_syntax :: "sps \<Rightarrow> syntax_element list" where
  "frame_syntax s = UE (nat (es_log2MaxFrameNumMinus4 s)) # UE (nat (sint (es_picOrderCntType s)))
     # (if es_picOrderCntType s = 0 then [UE (nat (es_log2MaxpicOrderCntLsbMinus4 s))] else [])
     @ UE (nat (sint (es_numRefFrames s))) # B1 (word_of_int (es_gapsInFrameNumValueAllowed s))
     # UE (nat (es_picWidthInMbsMinus1 s)) # UE (nat (es_picHeightInMapUnitsMinus1 s))
     # B1 (word_of_int (es_frameMbsOnly s)) # (if es_frameMbsOnly s = 0 then [B1 0] else [])
     @ [B1 (word_of_int (es_direct8x8Inference s))]"

definition crop_syntax :: "sps \<Rightarrow> syntax_element list" where
  "crop_syntax s = B1 (word_of_int (es_frameCropping s)) # (if es_frameCropping s \<noteq> 0 then
     [UE (nat (sint (es_frameCropLeftOffset s))), UE (nat (sint (es_frameCropRightOffset s))),
      UE (nat (sint (es_frameCropTopOffset s))), UE (nat (sint (es_frameCropBottomOffset s)))] else [])"

text \<open>The constraint flags a profile keeps\<close>

definition kept :: "sps \<Rightarrow> 32 word \<Rightarrow> int \<Rightarrow> int" where
  "kept s limit flag = (if es_general_profile_idc s > limit then 0 else flag)"

definition sps_syntax :: "sps \<Rightarrow> syntax_element list" where
  "sps_syntax s = nal_syntax 1 H264_SPS_NUT @ U (es_general_profile_idc s) 8
     # B1 (word_of_int (kept s 66 (es_constraintSet0 s))) # B1 (word_of_int (kept s 77 (es_constraintSet1 s)))
     # B1 (word_of_int (kept s 88 (es_constraintSet2 s))) # B1 (word_of_int (es_constraintSet3 s)) # U 0 4
     # U (es_general_level_idc s) 8 # UE (nat (es_id s)) # high_syntax s @ frame_syntax s @ crop_syntax s
     @ B1 (word_of_int (es_vui_parameters_present_flag s))
     # (if es_vui_parameters_present_flag s = ENCHW_YES then vui_syntax (es_vui s) (es_max_dec_pic_buffering0 s) else [])"

text \<open>The structures in range\<close>

definition vui_fields_ok :: "vui_t \<Rightarrow> bool" where
  "vui_fields_ok v = (GetAspectRatioIdc (sint (vu_sarWidth v)) (sint (vu_sarHeight v)) \<noteq> EXTENDED_SAR
     \<and> vu_nalHrdParametersPresentFlag v \<in> {0, 1} \<and> vu_frame_field_info_present_flag v \<in> {0, 1}
     \<and> (vu_nalHrdParametersPresentFlag v = 1 \<longrightarrow> 2 ^ 7 \<le> vu_bitRate v \<and> 2 ^ 5 \<le> vu_cpbSize v \<and> vu_cpbSize v < 2 ^ 30
       \<and> vu_initialCpbRemovalDelayLength v \<in> {1..32} \<and> vu_cpbRemovalDelayLength v \<in> {1..32}
       \<and> vu_dpbOutputDelayLength v \<in> {1..32} \<and> vu_timeOffsetLength v < 32))"

definition sps_fields_ok :: "sps \<Rightarrow> bool" where
  "sps_fields_ok s = (es_general_profile_idc s < 256 \<and> es_general_level_idc s < 256
     \<and> es_constraintSet0 s \<in> {0, 1} \<and> es_constraintSet1 s \<in> {0, 1} \<and> es_constraintSet2 s \<in> {0, 1} \<and> es_constraintSet3 s \<in> {0, 1}
     \<and> 0 \<le> es_id s \<and> es_id s < 32 \<and> 0 \<le> es_chroma_format_idc s \<and> es_chroma_format_idc s \<le> 1
     \<and> es_bit_depth_luma_minus8 s \<le> 6 \<and> es_bit_depth_chroma_minus8 s \<le> 6
     \<and> 0 \<le> es_log2MaxFrameNumMinus4 s \<and> es_log2MaxFrameNumMinus4 s \<le> 12 \<and> es_picOrderCntType s \<in> {0, 2}
     \<and> 0 \<le> es_log2MaxpicOrderCntLsbMinus4 s \<and> es_log2MaxpicOrderCntLsbMinus4 s \<le> 12 \<and> es_numRefFrames s \<le> 16
     \<and> es_gapsInFrameNumValueAllowed s \<in> {0, 1} \<and> 0 \<le> es_picWidthInMbsMinus1 s \<and> es_picWidthInMbsMinus1 s < 4096
     \<and> 0 \<le> es_picHeightInMapUnitsMinus1 s \<and> es_picHeightInMapUnitsMinus1 s < 4096
     \<and> es_frameMbsOnly s \<in> {0, 1} \<and> es_direct8x8Inference s \<in> {0, 1} \<and> es_frameCropping s \<in> {0, 1}
     \<and> es_frameCropLeftOffset s < 2 ^ 15 \<and> es_frameCropRightOffset s < 2 ^ 15
     \<and> es_frameCropTopOffset s < 2 ^ 15 \<and> es_frameCropBottomOffset s < 2 ^ 15
     \<and> es_vui_parameters_present_flag s \<in> {0, 1} \<and> vui_fields_ok (es_vui s)
     \<and> 0 \<le> es_max_dec_pic_buffering0 s \<and> es_max_dec_pic_buffering0 s \<le> 16)"


subsection \<open>Writing the video usability information\<close>

lemma aspect_emits: "GetAspectRatioIdc (sint (vu_sarWidth v)) (sint (vu_sarHeight v)) \<noteq> EXTENDED_SAR \<Longrightarrow>
    emits (write_aspect_ratio v) (aspect_syntax v)"
proof -
  let ?idc = "GetAspectRatioIdc (sint (vu_sarWidth v)) (sint (vu_sarHeight v))"
  assume a: "?idc \<noteq> EXTENDED_SAR"
  have "emits (\<lambda>b. if ?idc = 0 then put_bit b 0 1 else Option.bind (put_bit b 1 1) (\<lambda>b. put_bit b (word_of_int ?idc) 8))
    (aspect_syntax v)" unfolding aspect_syntax_def Let_def by (rule emits_intros order_refl)+
  moreover have "write_aspect_ratio v = (\<lambda>b. if ?idc = 0 then put_bit b 0 1
      else Option.bind (put_bit b 1 1) (\<lambda>b. put_bit b (word_of_int ?idc) 8))"
    using a by (intro ext) (simp add: write_aspect_ratio_def Let_def)
  ultimately show ?thesis by simp
qed

lemma video_emits: "emits (write_video_signal v) (video_syntax v)"
  unfolding write_video_signal_def video_syntax_def by (rule emits_intros)+

lemma timing_emits: "emits (write_timing v) (timing_syntax v)"
  unfolding write_timing_def timing_syntax_def by (rule emits_intros order_refl)+

lemma restriction_emits:
  assumes "0 \<le> n" "vu_bitStreamRestrictionFlag v = 1" shows "emits (write_restriction v n) (restriction_syntax n)"
proof -
  have c: "0 \<le> LOG2_MAX_MV_LENGTH_HOR" "0 \<le> LOG2_MAX_MV_LENGTH_VER" by (simp_all add: enc_consts)
  show ?thesis unfolding write_restriction_def restriction_syntax_def
    by (simp only: assms(2) simp_thms if_True) (rule emits_intros assms(1) c)+
qed

lemma emits_val_here: "x = Some v \<Longrightarrow> emits_val (\<lambda>b. g b v) es y \<Longrightarrow> emits_val (\<lambda>b. Option.bind x (g b)) es y"
  by simp

lemma minus_1_word: "1 \<le> n \<Longrightarrow> n < 2 ^ 31 \<Longrightarrow> unat w = n \<Longrightarrow> sint (w - 1 :: 32 word) = int (n - 1)"
proof -
  assume n: "1 \<le> n" "n < 2 ^ 31" "unat w = n"
  then have "w \<noteq> 0" by auto
  then have u: "unat (w - 1) = n - 1" using n(3) by (simp add: unat_minus_one)
  then have "uint (w - 1) < 2 ^ 31" using n by (simp add: uint_nat)
  then have "sint (w - 1) = uint (w - 1)"
    using signed_take_bit_int_eq_self[of 31 "uint (w - 1)"] uint_ge_0[of "w - 1"] by (simp add: sint_uint del: uint_ge_0)
  then show ?thesis using u by (simp add: uint_nat)
qed

lemma hrd_emits:
  assumes "2 ^ 7 \<le> vu_bitRate v" "2 ^ 5 \<le> vu_cpbSize v"
  shows "emits_val (write_hrd v) (hrd_syntax v) (rounded v)"
proof -
  have "2 ^ (6 + 1) \<le> unat (vu_bitRate v)" "2 ^ (4 + 1) \<le> unat (vu_cpbSize v)"
    using assms by (simp_all add: word_le_nat_alt)
  note r = hrd_scale_bounds[OF refl this(1), folded rate_scale_def, folded rate_value_def]
    and c = hrd_scale_bounds[OF refl this(2), folded size_scale_def, folded size_value_def]
  have v: "sint (drop_bit (6 + rate_scale v) (vu_bitRate v) - 1) = int (rate_value v - 1)"
    "sint (drop_bit (4 + size_scale v) (vu_cpbSize v) - 1) = int (size_value v - 1)"
    using r(2,3) c(2,3) by (intro minus_1_word; simp add: unat_drop rate_value_def size_value_def)+
  have ue: "emits (\<lambda>b. put_bit_ue b 0) [UE 0]" "emits (\<lambda>b. put_bit_ue b (int n)) [UE n]" for n
    using emits_ue[of 0] emits_ue[of "int n"] by simp_all
  show ?thesis
    unfolding write_hrd_def hrd_syntax_def rounded_def rate_scale_def[symmetric] size_scale_def[symmetric] bind.bind_lunit
    by (simp add: v rate_scale_def[symmetric] size_scale_def[symmetric] del: One_nat_def) (rule emits_val_cons emits_val_Some ue emits_intros)+
qed


lemma WriteVui_emits:
  assumes "vui_fields_ok v" "vu_bitStreamRestrictionFlag v = 1" "0 \<le> n"
  shows "emits_val (\<lambda>b. H264WriteVui b v n) (vui_syntax v n) (if vu_nalHrdParametersPresentFlag v = 1 then rounded v else v)"
proof -
  note ok = assms(1)[unfolded vui_fields_ok_def]
  have sar: "GetAspectRatioIdc (sint (vu_sarWidth v)) (sint (vu_sarHeight v)) \<noteq> EXTENDED_SAR" using ok by blast
  have r: "vu_nalHrdParametersPresentFlag (rounded v) = vu_nalHrdParametersPresentFlag v"
    "vu_frame_field_info_present_flag (rounded v) = vu_frame_field_info_present_flag v"
    "vu_bitStreamRestrictionFlag (rounded v) = 1"
    using assms(2) by (simp_all add: rounded_def)
  note restr = restriction_emits[OF assms(3,2)] restriction_emits[OF assms(3) r(3)]
  have last: "emits_val (\<lambda>b. Option.bind (write_restriction v' n b) (\<lambda>b. Some (b, v'))) (restriction_syntax n) v'"
    if "emits (write_restriction v' n) (restriction_syntax n)" for v'
    using emits_val_after[OF that emits_val_Some] by simp
  show ?thesis
  proof (cases "vu_nalHrdParametersPresentFlag v = 1")
    case True
    have b: "2 ^ 7 \<le> vu_bitRate v" "2 ^ 5 \<le> vu_cpbSize v" using ok True by auto
    show ?thesis unfolding H264WriteVui_def vui_syntax_def
      apply (simp only: True simp_thms if_True)
      apply (rule emits_val_after[OF aspect_emits[OF sar]])
      apply (rule emits_intros)+
      apply (rule emits_val_after[OF video_emits])
      apply (rule emits_intros)+
      apply (rule emits_val_after[OF timing_emits])
      apply (rule emits_intros)+
      apply (rule emits_val_bind_val[OF hrd_emits[OF b]])
      apply (simp only: r True assms(2) simp_thms if_True append_Cons append_Nil)
      apply (rule emits_intros)+
      by (rule last, rule restr)
  next
    case False
    then show ?thesis unfolding H264WriteVui_def vui_syntax_def
      apply (simp only: False simp_thms if_False append_Nil bind.bind_lunit prod.case)
      apply (rule emits_val_after[OF aspect_emits[OF sar]])
      apply (rule emits_intros)+
      apply (rule emits_val_after[OF video_emits])
      apply (rule emits_intros)+
      apply (rule emits_val_after[OF timing_emits])
      apply (simp only: assms(2))
      apply (rule emits_intros)+
      by (rule last, rule restr)
  qed
qed


subsection \<open>Sequence parameter sets\<close>

lemma sint_pos: "w < 2 ^ 31 \<Longrightarrow> sint (w :: 32 word) = uint w"
proof -
  assume "w < 2 ^ 31"
  then have "uint w < 2 ^ 31" by (simp add: word_less_def)
  then show ?thesis using signed_take_bit_int_eq_self[of 31 "uint w"] uint_ge_0[of w]
    by (simp add: sint_uint del: uint_ge_0)
qed

lemma sint_ge_0: "w < 2 ^ 31 \<Longrightarrow> 0 \<le> sint (w :: 32 word)"
  by (simp add: sint_pos)

lemma sint_le: "w \<le> c \<Longrightarrow> c < 2 ^ 31 \<Longrightarrow> 0 \<le> sint (w :: 32 word)"
  by (rule sint_ge_0) simp

lemma update_constraints_simps:
  "es_constraintSet0 (update_constraints s) = kept s 66 (es_constraintSet0 s)"
  "es_constraintSet1 (update_constraints s) = kept s 77 (es_constraintSet1 s)"
  "es_constraintSet2 (update_constraints s) = kept s 88 (es_constraintSet2 s)"
  "es_constraintSet3 (update_constraints s) = es_constraintSet3 s"
  "es_general_level_idc (update_constraints s) = es_general_level_idc s"
  "es_general_profile_idc (update_constraints s) = es_general_profile_idc s"
  "es_id (update_constraints s) = es_id s"
  "high_syntax (update_constraints s) = high_syntax s"
  "frame_syntax (update_constraints s) = frame_syntax s"
  "crop_syntax (update_constraints s) = crop_syntax s"
  "es_vui_parameters_present_flag (update_constraints s) = es_vui_parameters_present_flag s"
  "es_vui (update_constraints s) = es_vui s"
  "es_max_dec_pic_buffering0 (update_constraints s) = es_max_dec_pic_buffering0 s"
  by (simp_all add: update_constraints_def kept_def Let_def high_syntax_def frame_syntax_def crop_syntax_def enc_consts)

lemma profile_emits:
  assumes "0 \<le> es_id s" "0 \<le> es_chroma_format_idc s" "es_chroma_format_idc s \<le> 1"
    "es_bit_depth_luma_minus8 s \<le> 6" "es_bit_depth_chroma_minus8 s \<le> 6"
  shows "emits (write_profile s) (B1 (word_of_int (es_constraintSet0 s)) # B1 (word_of_int (es_constraintSet1 s))
     # B1 (word_of_int (es_constraintSet2 s)) # B1 (word_of_int (es_constraintSet3 s)) # U 0 4
     # U (es_general_level_idc s) 8 # UE (nat (es_id s)) # high_syntax s)"
proof -
  have c: "es_chroma_format_idc s \<le> VCENC_CHROMA_IDC_420" using assms(3) by (simp add: enc_consts)
  have d: "0 \<le> sint (es_bit_depth_luma_minus8 s)" "0 \<le> sint (es_bit_depth_chroma_minus8 s)"
    using assms(4,5) by (auto intro: sint_le)
  have skip: "Option.bind (if es_chroma_format_idc s \<le> VCENC_CHROMA_IDC_420 then Some b else None) g = g b" for b and g :: "put_buffer \<Rightarrow> put_buffer option"
    using c by simp
  show ?thesis unfolding write_profile_def high_syntax_def skip
    by (rule emits_intros assms(1,2) d order_refl)+
qed

lemma frame_emits:
  assumes "0 \<le> es_log2MaxFrameNumMinus4 s" "es_picOrderCntType s \<le> 2" "0 \<le> es_log2MaxpicOrderCntLsbMinus4 s"
    "es_numRefFrames s \<le> 16" "0 \<le> es_picWidthInMbsMinus1 s" "0 \<le> es_picHeightInMapUnitsMinus1 s"
  shows "emits (write_frame_format s) (frame_syntax s)"
proof -
  have d: "0 \<le> sint (es_picOrderCntType s)" "0 \<le> sint (es_numRefFrames s)" using assms(2,4) by (auto intro: sint_le)
  note pos = assms(1,3,5,6) d
  have poc: "emits (\<lambda>b. if es_picOrderCntType s = 0 then put_bit_ue b (es_log2MaxpicOrderCntLsbMinus4 s) else Some b)
      (if es_picOrderCntType s = 0 then [UE (nat (es_log2MaxpicOrderCntLsbMinus4 s))] else [])"
    by (rule emits_intros pos)+
  have mbs: "emits (\<lambda>b. if es_frameMbsOnly s = 0 then put_bit b 0 1 else Some b) (if es_frameMbsOnly s = 0 then [B1 0] else [])"
    by (rule emits_intros)+
  show ?thesis unfolding write_frame_format_def frame_syntax_def
    apply (rule emits_intros pos)+
    apply (rule emits_bind[OF poc])
    apply (rule emits_intros pos)+
    apply (rule emits_bind[OF mbs])
    by (rule emits_intros)+
qed

lemma crop_emits:
  assumes "es_frameCropLeftOffset s < 2 ^ 15" "es_frameCropRightOffset s < 2 ^ 15"
    "es_frameCropTopOffset s < 2 ^ 15" "es_frameCropBottomOffset s < 2 ^ 15"
  shows "emits (write_cropping s) (crop_syntax s)"
proof -
  have "(2 :: 32 word) ^ 15 < 2 ^ 31" by simp
  then have "0 \<le> sint (es_frameCropLeftOffset s)" "0 \<le> sint (es_frameCropRightOffset s)"
    "0 \<le> sint (es_frameCropTopOffset s)" "0 \<le> sint (es_frameCropBottomOffset s)"
    using assms by (auto intro!: sint_ge_0 elim: less_trans)
  then show ?thesis unfolding write_cropping_def crop_syntax_def by - (rule emits_intros | assumption)+
qed

text \<open>A writer that closes and gives x besides\<close>

definition closes_val :: "(put_buffer \<Rightarrow> (put_buffer \<times> 'a) option) \<Rightarrow> syntax_element list \<Rightarrow> 'a \<Rightarrow> bool" where
  "closes_val f es x = closes (\<lambda>b. Option.bind (f b) (\<lambda>(b', y). if y = x then Some b' else None)) es"

lemma closes_val_after:
  assumes "emits f es" "closes_val g es' x" shows "closes_val (\<lambda>b. Option.bind (f b) g) (es @ es') x"
  using closes_bind[OF assms(1), of "\<lambda>b. Option.bind (g b) (\<lambda>(b', y). if y = x then Some b' else None)" es'] assms(2)
  by (simp add: closes_val_def bind_assoc)

lemma closes_val_cons:
  "emits f [e] \<Longrightarrow> closes_val g es x \<Longrightarrow> closes_val (\<lambda>b. Option.bind (f b) g) (e # es) x"
  using closes_val_after[of f "[e]" g es x] by simp

lemma closes_val_trailing:
  assumes "emits_val f es x"
  shows "closes_val (\<lambda>b. Option.bind (f b) (\<lambda>(b, s). Option.bind (rbsp_trailing_bits b) (\<lambda>b. Some (b, s)))) es x"
proof -
  have e: "Option.bind (Option.bind (f b) (\<lambda>(b, s). Option.bind (rbsp_trailing_bits b) (\<lambda>b. Some (b, s))))
        (\<lambda>(b', y). if y = x then Some b' else None)
      = Option.bind (Option.bind (f b) (\<lambda>(b', y). if y = x then Some b' else None)) rbsp_trailing_bits" for b
    by (cases "f b") (auto split: prod.splits simp: bind_eq_None_conv)
  show ?thesis using closes_trailing[OF assms[unfolded emits_val_def]] by (simp only: closes_val_def e)
qed


lemma closes_val_header:
  assumes "closes_val g es x"
  shows "closes_nal mode (\<lambda>b. Option.bind (Option.bind (H264NalUnitHdr b idc ty (byte_stream mode)) g)
    (\<lambda>(b', y). if y = x then Some b' else None)) (nal_syntax idc ty @ es)"
  using closes_header[OF assms[unfolded closes_val_def], of mode idc ty] by (simp add: bind_assoc)

text \<open>The structure that H264SeqParameterSet leaves\<close>

definition written_vui :: "vui_t \<Rightarrow> vui_t" where
  "written_vui v = (let v = v\<lparr>vu_bitStreamRestrictionFlag := 1\<rparr> in if vu_nalHrdParametersPresentFlag v = 1 then rounded v else v)"

definition written_sps :: "sps \<Rightarrow> sps" where
  "written_sps s = (let s = set_vui (\<lambda>v. v\<lparr>vu_bitStreamRestrictionFlag := 1\<rparr>) (update_constraints s)
     in if es_vui_parameters_present_flag s = ENCHW_YES then set_vui (\<lambda>_. written_vui (es_vui s)) s else s)"

lemma vui_syntax_restr: "vui_syntax (v\<lparr>vu_bitStreamRestrictionFlag := 1\<rparr>) n = vui_syntax v n"
  by (simp add: vui_syntax_def aspect_syntax_def video_syntax_def timing_syntax_def hrd_syntax_def
    rate_value_def size_value_def rate_scale_def size_scale_def)

lemma SeqParameterSet_closes:
  assumes "sps_fields_ok s"
  shows "closes_nal (es_streamMode s) (\<lambda>b. Option.bind (H264SeqParameterSet s b)
    (\<lambda>(b', y). if y = written_sps s then Some b' else None)) (sps_syntax s)"
proof -
  note ok = assms[unfolded sps_fields_ok_def]
  let ?u = "update_constraints s"
  let ?s = "set_vui (\<lambda>v. v\<lparr>vu_bitStreamRestrictionFlag := 1\<rparr>) ?u"
  have present: "UpdateVuiPresence ?s = ?s" by (simp add: UpdateVuiPresence_def set_vui_def)
  have u: "es_chroma_format_idc ?u = es_chroma_format_idc s" "es_bit_depth_luma_minus8 ?u = es_bit_depth_luma_minus8 s"
    "es_bit_depth_chroma_minus8 ?u = es_bit_depth_chroma_minus8 s" "es_log2MaxFrameNumMinus4 ?u = es_log2MaxFrameNumMinus4 s"
    "es_picOrderCntType ?u = es_picOrderCntType s" "es_log2MaxpicOrderCntLsbMinus4 ?u = es_log2MaxpicOrderCntLsbMinus4 s"
    "es_numRefFrames ?u = es_numRefFrames s" "es_picWidthInMbsMinus1 ?u = es_picWidthInMbsMinus1 s"
    "es_picHeightInMapUnitsMinus1 ?u = es_picHeightInMapUnitsMinus1 s"
    "es_frameCropLeftOffset ?u = es_frameCropLeftOffset s" "es_frameCropRightOffset ?u = es_frameCropRightOffset s"
    "es_frameCropTopOffset ?u = es_frameCropTopOffset s" "es_frameCropBottomOffset ?u = es_frameCropBottomOffset s"
    by (simp_all add: update_constraints_def Let_def)
  have prof: "emits (write_profile ?u) (B1 (word_of_int (kept s 66 (es_constraintSet0 s))) # B1 (word_of_int (kept s 77 (es_constraintSet1 s)))
     # B1 (word_of_int (kept s 88 (es_constraintSet2 s))) # B1 (word_of_int (es_constraintSet3 s)) # U 0 4
     # U (es_general_level_idc s) 8 # UE (nat (es_id s)) # high_syntax s)"
    using profile_emits[of ?u] ok by (simp add: update_constraints_simps u del: One_nat_def)
  have "es_picOrderCntType s \<in> {0, 2}" using ok by blast
  then have "es_picOrderCntType s \<le> 2" by auto
  then have frame: "emits (write_frame_format ?u) (frame_syntax s)"
    using frame_emits[of ?u, unfolded update_constraints_simps u] ok by blast
  have crop: "emits (write_cropping ?u) (crop_syntax s)"
    using crop_emits[of ?u] ok by (simp add: update_constraints_simps u)
  let ?v = "(es_vui s)\<lparr>vu_bitStreamRestrictionFlag := 1\<rparr>"
  have vok: "vui_fields_ok ?v" using ok by (simp add: vui_fields_ok_def)
  have sv: "es_vui ?s = ?v" "es_vui_parameters_present_flag ?s = es_vui_parameters_present_flag s"
    "es_max_dec_pic_buffering0 ?s = es_max_dec_pic_buffering0 s"
    by (simp_all add: set_vui_def update_constraints_simps)
  have vui: "emits_val (\<lambda>b. H264WriteVui b ?v (es_max_dec_pic_buffering0 s))
      (vui_syntax (es_vui s) (es_max_dec_pic_buffering0 s)) (written_vui (es_vui s))"
    using WriteVui_emits[OF vok] ok by (simp add: written_vui_def vui_syntax_restr Let_def)
  have rest: "emits_val (\<lambda>b. if es_vui_parameters_present_flag s = ENCHW_YES then
        Option.bind (H264WriteVui b ?v (es_max_dec_pic_buffering0 s)) (\<lambda>(b, v). Some (b, set_vui (\<lambda>_. v) ?s))
      else Some (b, ?s))
    (if es_vui_parameters_present_flag s = ENCHW_YES then vui_syntax (es_vui s) (es_max_dec_pic_buffering0 s) else [])
    (written_sps s)"
  proof (cases "es_vui_parameters_present_flag s = ENCHW_YES")
    case True
    have "emits_val (\<lambda>b. Option.bind (H264WriteVui b ?v (es_max_dec_pic_buffering0 s)) (\<lambda>(b, v). Some (b, set_vui (\<lambda>_. v) ?s)))
        (vui_syntax (es_vui s) (es_max_dec_pic_buffering0 s) @ []) (set_vui (\<lambda>_. written_vui (es_vui s)) ?s)"
      by (rule emits_val_bind_val[OF vui]) (rule emits_val_Some)
    then show ?thesis using True sv by (simp add: written_sps_def Let_def written_vui_def set_vui_def)
  next
    case False
    then show ?thesis using emits_val_Some sv by (simp add: written_sps_def Let_def)
  qed
  have "closes_val (\<lambda>b. Option.bind (put_bit b (es_general_profile_idc s) 8) (\<lambda>b.
     Option.bind (write_profile ?u b) (\<lambda>b. Option.bind (write_frame_format ?u b) (\<lambda>b. Option.bind (write_cropping ?u b) (\<lambda>b.
     Option.bind (put_bit b (word_of_int (es_vui_parameters_present_flag s)) 1) (\<lambda>b.
     Option.bind (if es_vui_parameters_present_flag s = ENCHW_YES then
        Option.bind (H264WriteVui b ?v (es_max_dec_pic_buffering0 s)) (\<lambda>(b, v). Some (b, set_vui (\<lambda>_. v) ?s))
      else Some (b, ?s)) (\<lambda>(b, s). Option.bind (rbsp_trailing_bits b) (\<lambda>b. Some (b, s)))))))))
    (U (es_general_profile_idc s) 8 # (B1 (word_of_int (kept s 66 (es_constraintSet0 s))) # B1 (word_of_int (kept s 77 (es_constraintSet1 s)))
     # B1 (word_of_int (kept s 88 (es_constraintSet2 s))) # B1 (word_of_int (es_constraintSet3 s)) # U 0 4
     # U (es_general_level_idc s) 8 # UE (nat (es_id s)) # high_syntax s) @ frame_syntax s @ crop_syntax s
     @ B1 (word_of_int (es_vui_parameters_present_flag s))
     # (if es_vui_parameters_present_flag s = ENCHW_YES then vui_syntax (es_vui s) (es_max_dec_pic_buffering0 s) else []))
    (written_sps s)"
    apply (rule closes_val_cons, rule emits_u, simp, simp)
    apply (rule closes_val_after[OF prof], rule closes_val_after[OF frame], rule closes_val_after[OF crop])
    by (rule closes_val_cons, rule emits_u, simp, simp) (rule closes_val_trailing[OF rest])
  from closes_val_header[OF this, of "es_streamMode s" 1 H264_SPS_NUT]
  show ?thesis
    by (simp only: H264SeqParameterSet_def sps_syntax_def present sv bind.bind_lunit append_Cons append_assoc append_Nil)
qed


lemma element_ok_word: "v < 2 ^ n \<Longrightarrow> n < 32 \<Longrightarrow> element_ok (U v n)"
proof -
  assume a: "v < 2 ^ n" "n < 32"
  have "(2 :: nat) ^ n < 2 ^ 32" using a(2) by (rule power_strict_increasing) simp
  then have "unat (2 ^ n :: 32 word) = 2 ^ n" using unat_of_nat[of "2 ^ n", where 'a = 32] by simp
  then have "unat v < 2 ^ n" using a(1) by (simp add: word_less_nat_alt)
  then show ?thesis using unat_drop_bit_div[of n v] a(2) by (simp add: element_ok_def word_unat_eq_iff)
qed

lemma element_ok_32: "element_ok (U v 32)"
  by (auto simp: element_ok_def bit_eq_iff bit_drop_bit_eq dest: bit_imp_le_length)

lemma element_ok_nat: "n < 2 ^ 16 - 1 \<Longrightarrow> element_ok (UE n)"
  by (simp add: element_ok_def)

lemma element_ok_sint: "w < 2 ^ 15 \<Longrightarrow> element_ok (UE (nat (sint (w :: 32 word))))"
proof -
  assume w: "w < 2 ^ 15"
  then have "w < 2 ^ 31" by (rule less_trans) simp
  moreover have "unat w < 2 ^ 15" using w by (simp add: word_less_nat_alt)
  ultimately show ?thesis by (simp add: sint_pos element_ok_def)
qed

lemma aspect_small: "GetAspectRatioIdc w h \<in> {0..16} \<or> GetAspectRatioIdc w h = EXTENDED_SAR"
  by (simp add: GetAspectRatioIdc_def)

lemma hrd_syntax_ok:
  assumes "vui_fields_ok v" "vu_nalHrdParametersPresentFlag v = 1" shows "list_all element_ok (hrd_syntax v)"
proof -
  note ok = assms(1)[unfolded vui_fields_ok_def, THEN conjunct2, THEN conjunct2, THEN conjunct2, rule_format, OF assms(2)]
  have r: "2 ^ (6 + 1) \<le> unat (vu_bitRate v)" "unat (vu_bitRate v) < 2 ^ (6 + 12 + 14)"
    using ok unsigned_less[of "vu_bitRate v"] by (simp_all add: word_le_nat_alt)
  have c: "2 ^ (4 + 1) \<le> unat (vu_cpbSize v)" "unat (vu_cpbSize v) < 2 ^ (4 + 12 + 14)"
    using ok by (simp_all add: word_le_nat_alt word_less_nat_alt)
  note R = hrd_scale_bounds[OF refl r(1), folded rate_scale_def, folded rate_value_def]
    and C = hrd_scale_bounds[OF refl c(1), folded size_scale_def, folded size_value_def]
  have s: "rate_scale v < 2 ^ 4" "size_scale v < 2 ^ 4" using R(4)[OF r(2)] C(4)[OF c(2)] by simp_all
  have m: "w - 1 < 2 ^ 5" if "w \<in> {1..32}" for w :: "32 word"
  proof -
    have "w \<noteq> 0" "unat w \<le> 32" using that by (auto simp: word_le_nat_alt)
    then show ?thesis by (simp add: word_less_nat_alt unat_minus_one)
  qed
  have n: "element_ok (U (of_nat k) 4)" if "k < 2 ^ 4" for k
    using small_drop_bit[of k 4] that by (simp add: element_ok_def)
  have l: "vu_timeOffsetLength v < 2 ^ 5" using ok by simp
  show ?thesis unfolding hrd_syntax_def list.pred_inject
    using R(2) C(2) s ok
    by (intro conjI TrueI element_ok_ue element_ok_nat n element_ok_zero element_ok_word m l) (simp_all del: atLeastAtMost_iff)
qed

lemma vui_syntax_ok: "vui_fields_ok v \<Longrightarrow> 0 \<le> n \<Longrightarrow> n \<le> 16 \<Longrightarrow> list_all element_ok (vui_syntax v n)"
proof -
  assume a: "vui_fields_ok v" "0 \<le> n" "n \<le> 16"
  have f: "vu_nalHrdParametersPresentFlag v \<in> {0, 1}" "vu_frame_field_info_present_flag v \<in> {0, 1}"
    "GetAspectRatioIdc (sint (vu_sarWidth v)) (sint (vu_sarHeight v)) \<noteq> EXTENDED_SAR"
    using a(1) unfolding vui_fields_ok_def by blast+
  have flag: "element_ok (B1 w)" if "w \<in> {0, 1}" for w using that element_ok_zero by auto
  have "GetAspectRatioIdc (sint (vu_sarWidth v)) (sint (vu_sarHeight v)) \<in> {0..16}" using aspect_small f(3) by blast
  then have asp: "list_all element_ok (aspect_syntax v)"
    by (simp add: aspect_syntax_def Let_def element_ok_zero element_ok_u del: One_nat_def)
  have "element_ok (U 5 3)" by (rule element_ok_word) simp_all
  then have vid: "list_all element_ok (video_syntax v)" by (simp add: video_syntax_def element_ok_zero del: One_nat_def)
  have tim: "list_all element_ok (timing_syntax v)"
    by (simp add: timing_syntax_def element_ok_zero element_ok_32 del: One_nat_def)
  have res: "list_all element_ok (restriction_syntax n)"
    unfolding restriction_syntax_def list.pred_inject
    by (intro conjI TrueI element_ok_zero element_ok_ue) (use a in \<open>simp_all add: enc_consts\<close>)
  show ?thesis using asp vid tim res hrd_syntax_ok[OF a(1)] flag[OF f(1)] flag[OF f(2)]
    by (simp add: vui_syntax_def element_ok_zero del: One_nat_def)
qed

lemma sps_syntax_ok:
  assumes "sps_fields_ok s" shows "list_all element_ok (sps_syntax s)"
proof -
  note ok = assms[unfolded sps_fields_ok_def insert_iff empty_iff simp_thms]
  have nal: "list_all element_ok (nal_syntax 1 H264_SPS_NUT)" by (rule nal_syntax_ok) (simp_all add: enc_consts)
  have k: "element_ok (B1 (word_of_int (kept s c x)))" if "x = 0 \<or> x = 1" for c x
    using that by (intro element_ok_flag) (auto simp: kept_def)
  have lt: "w < 2 ^ 15" if "w \<le> c" "c < 2 ^ 15" for w c :: "32 word" using that by (rule le_less_trans)
  have depth: "es_bit_depth_luma_minus8 s < 2 ^ 15" "es_bit_depth_chroma_minus8 s < 2 ^ 15" "es_numRefFrames s < 2 ^ 15"
    by (rule lt[of _ 6], use ok in simp, simp, rule lt[of _ 6], use ok in simp, simp, rule lt[of _ 16], use ok in simp, simp)
  have poc: "es_picOrderCntType s < 2 ^ 15"
  proof -
    have "es_picOrderCntType s = 0 \<or> es_picOrderCntType s = 2" using ok by blast
    then show ?thesis by auto
  qed
  have high: "list_all element_ok (high_syntax s)" unfolding high_syntax_def
    using ok depth by (simp add: element_ok_zero element_ok_sint element_ok_ue del: One_nat_def)
  have frame: "list_all element_ok (frame_syntax s)" unfolding frame_syntax_def
    using ok depth poc by (simp add: element_ok_zero element_ok_sint element_ok_ue element_ok_flag del: One_nat_def)
  have crop: "list_all element_ok (crop_syntax s)" unfolding crop_syntax_def
    using ok by (simp add: element_ok_sint element_ok_flag del: One_nat_def)
  have vui: "list_all element_ok (vui_syntax (es_vui s) (es_max_dec_pic_buffering0 s))"
    by (intro vui_syntax_ok) (use ok in blast)+
  have w: "element_ok (U (es_general_profile_idc s) 8)" "element_ok (U (es_general_level_idc s) 8)" "element_ok (U 0 4)"
    by (intro element_ok_word; use ok in simp)+
  show ?thesis unfolding sps_syntax_def
    using ok nal high frame crop vui w k by (simp add: element_ok_flag element_ok_ue del: One_nat_def)
qed


subsection \<open>Properties\<close>

text \<open>
  C11: H264SeqParameterSet implements the syntax tables of the standard: for every structure in range it
  writes into a fresh buffer, behind a start code in the byte stream format, the escaped bytes of an RBSP
  whose bits are the syntax elements of the tables 7.3.2.1.1, E.1.1 and E.1.2 in order (profile and constraint
  flags, the fields of the high profiles, frame format, cropping, video usability information with HRD
  parameters), a one and the zeros up to the byte; and it leaves in the structure the constraint flags and
  the HRD rates that the stream says.
\<close>

theorem SeqParameterSet_syntax:
  assumes "sps_fields_ok s" "fresh b (length (sps_syntax s))"
  shows "\<exists>b' B. H264SeqParameterSet s b = Some (b', written_sps s)
    \<and> pb_stream b' = pb_stream b @ start_code (es_streamMode s) @ escape B \<and> bits_of B = rbsp_bits (sps_syntax s)"
  using closes_start_code[OF SeqParameterSet_closes[OF assms(1)] sps_syntax_ok[OF assms(1)] assms(2)]
  by (auto simp: bind_eq_Some_conv split: if_splits)

text \<open>A high profile stream of 1920 x 1080 with timing, HRD parameters and cropping\<close>

definition demo_vui :: vui_t where
  "demo_vui = \<lparr>vu_timeScale = 30000, vu_numUnitsInTick = 1001, vu_bitStreamRestrictionFlag = 0, vu_videoFullRange = 1,
     vu_sarWidth = 4, vu_sarHeight = 3, vu_nalHrdParametersPresentFlag = 1, vu_vclHrdParametersPresentFlag = 0, vu_field_seq_flag = 0,
     vu_frame_field_info_present_flag = 1, vu_initialCpbRemovalDelayLength = 24, vu_cpbRemovalDelayLength = 24,
     vu_dpbOutputDelayLength = 24, vu_timeOffsetLength = 10, vu_bitRate = 1000000, vu_cpbSize = 2000000,
     vu_VideoSignalTypePresentFlag = 0, vu_video_format = 0, vu_ColorDescripPresentFlag = 0, vu_ColorPrimaries = 0,
     vu_TransferCharacteristics = 0, vu_MatrixCoefficients = 0\<rparr>"

definition demo_sps :: sps where
  "demo_sps = \<lparr>es_id = 0, es_chroma_format_idc = 1, es_max_dec_pic_buffering0 = 2, es_vui_parameters_present_flag = 1,
     es_vui = demo_vui, es_frameCropping = 1, es_frameCropLeftOffset = 0, es_frameCropRightOffset = 0,
     es_frameCropTopOffset = 0, es_frameCropBottomOffset = 4, es_streamMode = 0, es_general_level_idc = 41,
     es_general_profile_idc = 100, es_bit_depth_luma_minus8 = 0, es_bit_depth_chroma_minus8 = 0,
     es_constraintSet0 = 1, es_constraintSet1 = 1, es_constraintSet2 = 1, es_constraintSet3 = 0,
     es_log2MaxFrameNumMinus4 = 12, es_log2MaxpicOrderCntLsbMinus4 = 12, es_picOrderCntType = 0,
     es_gapsInFrameNumValueAllowed = 0, es_picWidthInMbsMinus1 = 119, es_picHeightInMapUnitsMinus1 = 67,
     es_frameMbsOnly = 1, es_direct8x8Inference = 1, es_numRefFrames = 2\<rparr>"

lemma demo_vui_sar: "GetAspectRatioIdc (sint (vu_sarWidth demo_vui)) (sint (vu_sarHeight demo_vui)) = 14"
  by (simp add: demo_vui_def GetAspectRatioIdc_def)

lemma demo_sps_ok: "sps_fields_ok demo_sps"
proof -
  have "vui_fields_ok demo_vui" unfolding vui_fields_ok_def demo_vui_sar
    by (simp add: demo_vui_def enc_consts)
  then show ?thesis by (simp add: sps_fields_ok_def demo_sps_def)
qed

definition big_buffer :: put_buffer where "big_buffer = demo_buffer\<lparr>pb_size := 5000\<rparr>"

lemma demo_sps_fresh: "fresh big_buffer (length (sps_syntax demo_sps))"
proof -
  have "length (vui_syntax demo_vui 2) \<le> 50" unfolding vui_syntax_def aspect_syntax_def demo_vui_sar
    by (simp add: video_syntax_def timing_syntax_def hrd_syntax_def restriction_syntax_def Let_def)
  then have "length (sps_syntax demo_sps) \<le> 100"
    by (simp add: sps_syntax_def demo_sps_def nal_syntax_def high_syntax_def frame_syntax_def crop_syntax_def)
  then show ?thesis by (simp add: fresh_def big_buffer_def)
qed

theorem SeqParameterSet_syntax_witness:
  "\<exists>b' B. H264SeqParameterSet demo_sps big_buffer = Some (b', written_sps demo_sps)
    \<and> pb_stream b' = [0, 0, 0, 1] @ escape B \<and> bits_of B = rbsp_bits (sps_syntax demo_sps)"
  using SeqParameterSet_syntax[OF demo_sps_ok demo_sps_fresh]
  by (simp add: demo_sps_def big_buffer_def start_code_def enc_consts)

text \<open>
  no sample aspect ratio outside the table can be written: H264WriteVui hands the 16 bits of sar\_width
  to put\_bit, whose ASSERT allows 8, so the encoder stops for every such ratio that
  VCEncSpsSetVuiAspectRatio accepts.
\<close>

theorem WriteVui_extended_sar:
  assumes "GetAspectRatioIdc (sint (vu_sarWidth v)) (sint (vu_sarHeight v)) = EXTENDED_SAR"
  shows "H264WriteVui b v n = None"
proof -
  have "put_bit b' w 16 = None" for b' w by (simp add: put_bit_def put_bit_pre_def)
  then have "write_aspect_ratio v b = None"
    using assms by (cases "put_bit b 1 1") (auto simp: write_aspect_ratio_def Let_def enc_consts bind_eq_None_conv)
  then show ?thesis by (simp add: H264WriteVui_def)
qed

theorem WriteVui_extended_sar_witness:
  "(\<exists>s. VCEncSpsSetVuiAspectRatio demo_sps 5 4 = Some s \<and> H264WriteVui big_buffer (es_vui s) 2 = None)"
proof -
  have "GetAspectRatioIdc (sint (5 :: 32 word)) (sint (4 :: 32 word)) = EXTENDED_SAR"
    by (simp add: GetAspectRatioIdc_def)
  then show ?thesis using WriteVui_extended_sar[of "demo_vui\<lparr>vu_sarWidth := 5, vu_sarHeight := 4\<rparr>" big_buffer 2]
    by (simp add: VCEncSpsSetVuiAspectRatio_def set_vui_def vui_present_def demo_sps_def)
qed

end
