(* ===== verification/ParamRoundtrip.thy ===== *)
theory ParamRoundtrip
  imports EncSyntax H264Nal H264PpsStream
begin

text \<open>
  Parameter sets from the encoder to the decoder: what H264PicParameterSet writes,
  h264bsdDecodeNalUnit and h264bsdDecodePicParamSet read back.
\<close>

subsection \<open>The bits of syntax elements\<close>

lemma bits_ue: "element_bits (UE n) = eg_code n"
  by (simp add: element_bits_def)

lemma bits_se: "element_bits (SE v) = eg_code (se_code_num v)"
  by (simp add: element_bits_def)

lemma bits_u: "element_bits (U v n) = low_bits n v"
  by (simp add: element_bits_def)

lemma bits_flag: "x \<in> {0, 1} \<Longrightarrow> element_bits (B1 (word_of_int x)) = [x = 1]"
  by (auto simp: bits_u low_bits_def)

lemma bits_const: "element_bits (B1 0) = [False]" "element_bits (B1 1) = [True]"
  by (simp_all add: bits_u low_bits_def)

lemma word_of_nat_int: "0 \<le> x \<Longrightarrow> (of_nat (nat x) :: 32 word) = word_of_int x"
  by simp

lemma flag_word: "x \<in> {0, 1} \<Longrightarrow> flag_bit (x = 1) = word_of_int x"
  by (auto simp: flag_bit_def)

lemma bits_nal: "0 \<le> idc \<Longrightarrow> 0 \<le> ty \<Longrightarrow> concat (map element_bits (nal_syntax idc ty)) = nal_bits (nat idc) (nat ty)"
  by (simp add: nal_syntax_def nal_bits_def bits_u low_bits_0_1 del: One_nat_def)

subsection \<open>From the writer to the reader\<close>

lemma length_element_bits: "element_ok e \<Longrightarrow> length (element_bits e) \<le> 32"
proof (cases e)
  case (UE n)
  moreover assume "element_ok e"
  ultimately have "eg_len (n + 1) \<le> 16" by (intro eg_len_le) (auto simp: element_ok_def)
  then show ?thesis using UE by (simp add: bits_ue length_eg_code)
next
  case (SE v)
  moreover assume "element_ok e"
  ultimately have "eg_len (se_code_num v + 1) \<le> 16" by (intro eg_len_le) (auto simp: element_ok_def)
  then show ?thesis using SE by (simp add: bits_se length_eg_code)
qed (simp add: bits_u element_ok_def)

lemma length_elements: "list_all element_ok es \<Longrightarrow> length (concat (map element_bits es)) \<le> 32 * length es"
  by (induction es) (auto dest: length_element_bits)

text \<open>The decoder reads, at the start of the NAL unit, the bits the encoder wrote.\<close>

lemma reading_written:
  assumes "bits_of B = rbsp_bits es" "list_all element_ok es" "length es < 1000"
  shows "reading (demo_stream (escape B)) (rbsp_bits es)" "sd_bit_pos (demo_stream (escape B)) = 0"
proof -
  have l: "8 * length B \<le> 32 * length es + 8"
    using arg_cong[OF assms(1), of length] length_elements[OF assms(2)] by (simp add: rbsp_bits_def)
  then have "length (escape B) < 2 ^ 28" using length_escape[of B] assms(3) by simp
  then show "reading (demo_stream (escape B)) (rbsp_bits es)"
    using demo_stream_ok[of "escape B"] assms(1)
    by (simp add: reading_def readable_def code_free_no_start_code demo_stream_rest unescape_escape)
qed (simp add: demo_stream_def)

subsection \<open>Picture parameter sets\<close>

text \<open>The decoder's structure for the encoder's\<close>

definition decoded_pps :: "pps \<Rightarrow> pic_param_set" where
  "decoded_pps p = zero_pps\<lparr>
     pps_pic_parameter_set_id := word_of_int (ep_id p),
     pps_seq_parameter_set_id := word_of_int (ep_sps_id p),
     pps_entropy_coding_mode_flag := word_of_int (ep_entropy_coding_mode_flag p),
     pps_num_slice_groups := 1,
     pps_num_ref_idx_l0_active := word_of_int (ep_num_ref_idx_l0_default_active p),
     pps_num_ref_idx_l1_active := word_of_int (ep_num_ref_idx_l1_default_active p),
     pps_weighted_pred_flag := word_of_int (ep_weighted_pred_flag p),
     pps_weighted_bi_pred_idc := word_of_int (ep_weighted_bipred_flag p),
     pps_pic_init_qp := word_of_int (ep_init_qp p),
     pps_chroma_qp_index_offset := ep_cb_qp_offset p,
     pps_chroma_qp_index_offset2 := ep_cb_qp_offset p,
     pps_deblocking_filter_control_present_flag := word_of_int (ep_deblocking_filter_control_present_flag p),
     pps_constrained_intra_pred_flag := word_of_int (ep_constrained_intra_pred_flag p),
     pps_transform8x8_flag := word_of_int (ep_transform8x8Mode p)\<rparr>"

lemma pps_bits:
  assumes "pps_fields_ok p"
  shows "\<exists>j < 8. rbsp_bits (pps_syntax p) = nal_bits 1 8
    @ eg_code (nat (ep_id p)) @ eg_code (nat (ep_sps_id p)) @ (ep_entropy_coding_mode_flag p = 1) # False
    # eg_code 0
    @ eg_code (nat (ep_num_ref_idx_l0_default_active p - 1)) @ eg_code (nat (ep_num_ref_idx_l1_default_active p - 1))
    @ (ep_weighted_pred_flag p = 1) # low_bits 2 (of_nat (nat (ep_weighted_bipred_flag p)) :: 32 word)
    @ eg_code (se_code_num (ep_init_qp p - 26)) @ eg_code (se_code_num 0) @ eg_code (se_code_num (ep_cb_qp_offset p))
    @ (ep_deblocking_filter_control_present_flag p = 1) # (ep_constrained_intra_pred_flag p = 1) # False
    # (if ep_transform8x8Mode p = 1 then True # False # eg_code (se_code_num (ep_cb_qp_offset p)) else [])
    @ True # replicate j False"
proof -
  note ok = assms[unfolded pps_fields_ok_def]
  have n: "concat (map element_bits (nal_syntax 1 8)) = nal_bits 1 8" using bits_nal[of 1 8] by simp
  have w: "(of_nat (nat (ep_weighted_bipred_flag p)) :: 32 word) = word_of_int (ep_weighted_bipred_flag p)"
    using ok by simp
  have f: "element_bits (B1 (word_of_int (ep_entropy_coding_mode_flag p))) = [ep_entropy_coding_mode_flag p = 1]"
    "element_bits (B1 (word_of_int (ep_weighted_pred_flag p))) = [ep_weighted_pred_flag p = 1]"
    "element_bits (B1 (word_of_int (ep_deblocking_filter_control_present_flag p))) = [ep_deblocking_filter_control_present_flag p = 1]"
    "element_bits (B1 (word_of_int (ep_constrained_intra_pred_flag p))) = [ep_constrained_intra_pred_flag p = 1]"
    by (rule bits_flag, use ok in blast)+
  have t: "element_bits (B1 (word_of_int (ep_transform8x8Mode p))) = [True]" if "ep_transform8x8Mode p = 1"
    using bits_flag[of 1] that by simp
  define L where "L = length (concat (map element_bits (pps_syntax p)))"
  have "(7 * (L + 1)) mod 8 < 8" by simp
  then show ?thesis unfolding rbsp_bits_def L_def[symmetric]
    by (intro exI[of _ "(7 * (L + 1)) mod 8"] conjI)
      (simp_all add: pps_syntax_def n w f t bits_ue bits_se bits_const bits_u[of _ 2] enc_consts del: One_nat_def)
qed


lemma PicParamSet_reads:
  assumes "pps_fields_ok p" "j < 8"
    and "reading s (eg_code (nat (ep_id p)) @ eg_code (nat (ep_sps_id p)) @ (ep_entropy_coding_mode_flag p = 1) # False
    # eg_code 0
    @ eg_code (nat (ep_num_ref_idx_l0_default_active p - 1)) @ eg_code (nat (ep_num_ref_idx_l1_default_active p - 1))
    @ (ep_weighted_pred_flag p = 1) # low_bits 2 (of_nat (nat (ep_weighted_bipred_flag p)) :: 32 word)
    @ eg_code (se_code_num (ep_init_qp p - 26)) @ eg_code (se_code_num 0) @ eg_code (se_code_num (ep_cb_qp_offset p))
    @ (ep_deblocking_filter_control_present_flag p = 1) # (ep_constrained_intra_pred_flag p = 1) # False
    # (if ep_transform8x8Mode p = 1 then True # False # eg_code (se_code_num (ep_cb_qp_offset p)) else [])
    @ True # replicate j False)"
  shows "returns (\<lambda>r. \<exists>s'. r = Inr (decoded_pps p, s')) (h264bsdDecodePicParamSet alloc delta s)"
proof -
  note ok = assms(1)[unfolded pps_fields_ok_def insert_iff empty_iff]
  have lt: "nat (ep_id p) < 256" "nat (ep_sps_id p) < 32" "nat (ep_num_ref_idx_l0_default_active p - 1) \<le> 31"
    "nat (ep_num_ref_idx_l1_default_active p - 1) \<le> 31" "nat (ep_weighted_bipred_flag p) \<le> 2"
    "-38 \<le> ep_init_qp p - 26" "ep_init_qp p - 26 \<le> 25" "-26 \<le> (0 :: int)" "(0 :: int) \<le> 25"
    "-12 \<le> ep_cb_qp_offset p" "ep_cb_qp_offset p \<le> 12"
    using ok by auto
  have w: "word_of_nat (nat (ep_num_ref_idx_l0_default_active p - 1)) + 1 = (word_of_int (ep_num_ref_idx_l0_default_active p) :: 32 word)"
    "word_of_nat (nat (ep_num_ref_idx_l1_default_active p - 1)) + 1 = (word_of_int (ep_num_ref_idx_l1_default_active p) :: 32 word)"
    "word_of_nat (nat (ep_id p)) = (word_of_int (ep_id p) :: 32 word)"
    "word_of_nat (nat (ep_sps_id p)) = (word_of_int (ep_sps_id p) :: 32 word)"
    "word_of_nat (nat (ep_weighted_bipred_flag p)) = (word_of_int (ep_weighted_bipred_flag p) :: 32 word)"
    using ok by simp_all
  have f: "flag_bit (ep_entropy_coding_mode_flag p = 1) = word_of_int (ep_entropy_coding_mode_flag p)"
    "flag_bit (ep_weighted_pred_flag p = 1) = word_of_int (ep_weighted_pred_flag p)"
    "flag_bit (ep_deblocking_filter_control_present_flag p = 1) = word_of_int (ep_deblocking_filter_control_present_flag p)"
    "flag_bit (ep_constrained_intra_pred_flag p = 1) = word_of_int (ep_constrained_intra_pred_flag p)"
    by (rule flag_word, use ok in blast)+
  have t0: "ep_transform8x8Mode p = 0" if "ep_transform8x8Mode p \<noteq> 1" using ok that by blast
  have flags: "flag_bit False = 0" "flag_bit True = 1" by (simp_all add: flag_bit_def)
  show ?thesis unfolding h264bsdDecodePicParamSet_def
    apply (rule reads_head[OF assms(3) lt(1,2)])
    apply (rule reads_one_group, assumption)
    apply (rule reads_references, assumption, rule lt(3), rule lt(4), rule lt(5))
    apply (rule reads_quantisation, assumption, rule lt(6), rule lt(7), rule lt(8), rule lt(9), rule lt(10), rule lt(11))
    apply (cases "ep_transform8x8Mode p = 1")
    subgoal
      apply (rule reads_extension[where j = j], simp, rule assms(2), rule lt(10), rule lt(11))
      by (rule reads_end, assumption, rule assms(2)) (simp add: decoded_pps_def zero_pps_def w f flags)
    subgoal
      apply (rule reads_no_extension[where j = j], simp, rule assms(2))
      by (rule reads_end, assumption, rule assms(2)) (simp add: t0 decoded_pps_def zero_pps_def w f flags)
    done
qed


subsection \<open>Properties\<close>

text \<open>
  C3: the encoder's picture parameter set, read by the decoder: for every structure in the ranges the
  encoder's configuration allows, with or without the 8x8 transform, H264PicParameterSet writes into a fresh
  buffer a NAL unit, behind a start code in the byte stream format, whose header h264bsdDecodeNalUnit accepts
  as a referenced picture parameter set and whose payload h264bsdDecodePicParamSet parses to the same fields.
\<close>

theorem PicParameterSet_roundtrip:
  assumes "pps_fields_ok p" "fresh b (length (pps_syntax p))"
  shows "\<exists>b' nal s s'. H264PicParameterSet p b = Some b' \<and> pb_stream b' = pb_stream b @ start_code (ep_streamMode p) @ nal
    \<and> h264bsdDecodeNalUnit (demo_stream nal)
        = Some (HANTRO_OK, zero_nal\<lparr>nal_ref_idc := 1, nal_unit_type := NAL_PIC_PARAM_SET\<rparr>, s)
    \<and> h264bsdDecodePicParamSet alloc delta s = Some (Inr (decoded_pps p, s'))"
proof -
  note es = pps_syntax_ok[OF assms(1)]
  from closes_start_code[OF PicParameterSet_closes[OF assms(1)] es assms(2)] obtain b' B where
    b': "H264PicParameterSet p b = Some b'" "pb_stream b' = pb_stream b @ start_code (ep_streamMode p) @ escape B"
    "bits_of B = rbsp_bits (pps_syntax p)" by blast
  have "length (pps_syntax p) < 1000" by (simp add: pps_syntax_def nal_syntax_def)
  note rd = reading_written[OF b'(3) es this]
  obtain j where j: "j < 8" and rest: "rbsp_bits (pps_syntax p) = nal_bits 1 8
    @ eg_code (nat (ep_id p)) @ eg_code (nat (ep_sps_id p)) @ (ep_entropy_coding_mode_flag p = 1) # False
    # eg_code 0
    @ eg_code (nat (ep_num_ref_idx_l0_default_active p - 1)) @ eg_code (nat (ep_num_ref_idx_l1_default_active p - 1))
    @ (ep_weighted_pred_flag p = 1) # low_bits 2 (of_nat (nat (ep_weighted_bipred_flag p)) :: 32 word)
    @ eg_code (se_code_num (ep_init_qp p - 26)) @ eg_code (se_code_num 0) @ eg_code (se_code_num (ep_cb_qp_offset p))
    @ (ep_deblocking_filter_control_present_flag p = 1) # (ep_constrained_intra_pred_flag p = 1) # False
    # (if ep_transform8x8Mode p = 1 then True # False # eg_code (se_code_num (ep_cb_qp_offset p)) else [])
    @ True # replicate j False" using pps_bits[OF assms(1)] by blast
  have "returns (\<lambda>(st, n, s). \<exists>s'. st = HANTRO_OK \<and> n = zero_nal\<lparr>nal_ref_idc := 1, nal_unit_type := NAL_PIC_PARAM_SET\<rparr>
      \<and> h264bsdDecodePicParamSet alloc delta s = Some (Inr (decoded_pps p, s')))
    (h264bsdDecodeNalUnit (demo_stream (escape B)))"
  proof (rule reads_nal[OF rd(1)[unfolded rest] rd(2)])
    show "plain_type 1 8" by (simp add: plain_type_def)
  qed (use PicParamSet_reads[OF assms(1) j] in \<open>fastforce simp: returns_def nal_type_defs\<close>)
  then show ?thesis using b'(1,2) by (auto simp: returns_def)
qed

text \<open>A main profile set with the 8x8 transform\<close>

definition demo_pps :: pps where
  "demo_pps = \<lparr>ep_id = 1, ep_sps_id = 0, ep_entropy_coding_mode_flag = 1, ep_num_ref_idx_l0_default_active = 2,
     ep_num_ref_idx_l1_default_active = 1, ep_init_qp = 30, ep_constrained_intra_pred_flag = 0, ep_cb_qp_offset = -3,
     ep_weighted_pred_flag = 0, ep_weighted_bipred_flag = 2, ep_deblocking_filter_control_present_flag = 1,
     ep_streamMode = 0, ep_transform8x8Mode = 1\<rparr>"

theorem PicParameterSet_roundtrip_witness:
  "\<exists>b' nal s s'. H264PicParameterSet demo_pps (demo_buffer\<lparr>pb_size := 1000\<rparr>) = Some b'
    \<and> pb_stream b' = [0, 0, 0, 1] @ nal
    \<and> h264bsdDecodeNalUnit (demo_stream nal)
        = Some (HANTRO_OK, zero_nal\<lparr>nal_ref_idc := 1, nal_unit_type := NAL_PIC_PARAM_SET\<rparr>, s)
    \<and> h264bsdDecodePicParamSet (\<lambda>_. True) (\<lambda>_. 0) s = Some (Inr (decoded_pps demo_pps, s'))"
proof -
  have "pps_fields_ok demo_pps" by (simp add: pps_fields_ok_def demo_pps_def)
  moreover have "fresh (demo_buffer\<lparr>pb_size := 1000\<rparr>) (length (pps_syntax demo_pps))"
    by (simp add: fresh_def pps_syntax_def nal_syntax_def demo_pps_def enc_consts)
  ultimately show ?thesis
    using PicParameterSet_roundtrip[of demo_pps "demo_buffer\<lparr>pb_size := 1000\<rparr>" "\<lambda>_. True" "\<lambda>_. 0"]
    by (simp add: start_code_def demo_pps_def enc_consts)
qed

end
