(* ===== verification/H264SpsType.thy ===== *)
theory H264SpsType
  imports H264Sps
begin

text \<open>
  The parser of sequence parameter sets returns on every NAL unit, whatever the uninitialised variables hold
  and whichever allocation fails, and gives structures of a type: lists of the lengths of the C arrays,
  identifiers in range, and a picture buffer of 1 to 16 frames that holds the reference frames.
\<close>

text \<open>Rules for let and for a case on an option\<close>

lemma returns_let: "(\<And>x. x = a \<Longrightarrow> returns Q (f x s)) \<Longrightarrow> returns Q ((let x = a in f x) s)"
  by simp

lemma returns_case: "(r = None \<Longrightarrow> returns Q (f s)) \<Longrightarrow> (\<And>x. r = Some x \<Longrightarrow> returns Q (g x s)) \<Longrightarrow>
    returns Q ((case r of None \<Rightarrow> f | Some x \<Rightarrow> g x) s)"
  by (cases r) simp_all

subsection \<open>HRD and VUI parameters\<close>

definition hrd_ok :: "hrd_parameters \<Rightarrow> bool" where
  "hrd_ok h = (length (hrd_bit_rate_value h) = MAX_CPB_CNT \<and> length (hrd_cpb_size_value h) = MAX_CPB_CNT
     \<and> length (hrd_cbr_flag h) = MAX_CPB_CNT)"

definition vui_ok :: "vui_parameters \<Rightarrow> bool" where
  "vui_ok v = (hrd_ok (vui_nal_hrd_parameters v) \<and> hrd_ok (vui_vcl_hrd_parameters v))"

lemma vui_ok_update [simp]:
  "vui_ok (v\<lparr>vui_update_hrdparameter_flag := f\<rparr>) = vui_ok v"
  "vui_ok (v\<lparr>vui_error_hrdparameter_flag := f\<rparr>) = vui_ok v"
  "vui_ok (v\<lparr>vui_bitstream_restriction_flag := f\<rparr>) = vui_ok v"
  "vui_ok (v\<lparr>vui_max_dec_frame_buffering := f\<rparr>) = vui_ok v"
  by (simp_all add: vui_ok_def)

lemma zero_hrd_ok: "hrd_ok zero_hrd"
  by (simp add: hrd_ok_def zero_hrd_def)

lemma zero_vui_ok: "vui_ok zero_vui"
  by (simp add: vui_ok_def zero_vui_def zero_hrd_ok)

lemma default_hrd_ok: "hrd_ok (default_hrd f h) = hrd_ok h"
  by (simp add: hrd_ok_def default_hrd_def)

lemma returns_hrd_schedules:
  assumes "readable s" "hrd_ok h" "i + n \<le> MAX_CPB_CNT"
    and ret: "\<And>st h s. readable s \<Longrightarrow> hrd_ok h \<Longrightarrow> returns Q (ret st h s)"
    and k: "\<And>h s. readable s \<Longrightarrow> hrd_ok h \<Longrightarrow> returns Q (k h s)"
  shows "returns Q (hrd_schedules i n h ret k s)"
  using assms(1-3)
proof (induction n arbitrary: i h s)
  case (Suc n)
  have c: "\<not> (i \<ge> length (hrd_bit_rate_value h) \<or> i \<ge> length (hrd_cpb_size_value h) \<or> i \<ge> length (hrd_cbr_flag h))"
    using Suc.prems(2,3) by (simp add: hrd_ok_def)
  show ?case unfolding hrd_schedules.simps Let_def if_not_P[OF c]
    by (intro step_intros ret Suc.IH) (use Suc.prems in \<open>simp_all add: hrd_ok_def\<close>)
qed (simp add: k)

lemma returns_hrd:
  assumes "readable s" "hrd_ok h" and ret: "\<And>st h s. readable s \<Longrightarrow> hrd_ok h \<Longrightarrow> returns Q (ret st h s)"
  shows "returns Q (h264bsdDecodeHrdParameters h ret s)"
  unfolding h264bsdDecodeHrdParameters_def hrd_lengths_def Let_def
  by (intro step_intros returns_hrd_schedules ret assms(1)) (use assms(2) in \<open>simp_all add: hrd_ok_def not_less\<close>)

lemma returns_vui:
  assumes "readable s" and ret: "\<And>st v s. readable s \<Longrightarrow> vui_ok v \<Longrightarrow> returns Q (ret st v s)"
  shows "returns Q (h264bsdDecodeVuiParameters ret s)"
proof -
  have aspect: "returns Q (vui_aspect_ratio v ret k s)"
    if "readable s" "vui_ok v" "\<And>v s. readable s \<Longrightarrow> vui_ok v \<Longrightarrow> returns Q (k v s)" for k v s
    unfolding vui_aspect_ratio_def Let_def by (intro step_intros ret that) (use that(2) in \<open>simp_all add: vui_ok_def\<close>)
  have overscan: "returns Q (vui_overscan v ret k s)"
    if "readable s" "vui_ok v" "\<And>v s. readable s \<Longrightarrow> vui_ok v \<Longrightarrow> returns Q (k v s)" for k v s
    unfolding vui_overscan_def Let_def by (intro step_intros ret that) (use that(2) in \<open>simp_all add: vui_ok_def\<close>)
  have signal: "returns Q (vui_video_signal v ret k s)"
    if "readable s" "vui_ok v" "\<And>v s. readable s \<Longrightarrow> vui_ok v \<Longrightarrow> returns Q (k v s)" for k v s
    unfolding vui_video_signal_def Let_def
    by (intro step_intros ret that) (use that(2) in \<open>simp_all add: vui_ok_def default_colours_def\<close>)
  have chroma: "returns Q (vui_chroma_loc v ret k s)"
    if "readable s" "vui_ok v" "\<And>v s. readable s \<Longrightarrow> vui_ok v \<Longrightarrow> returns Q (k v s)" for k v s
    unfolding vui_chroma_loc_def Let_def by (intro step_intros ret that) (use that(2) in \<open>simp_all add: vui_ok_def\<close>)
  have timing: "returns Q (vui_timing v ret k s)"
    if "readable s" "vui_ok v" "\<And>v s. readable s \<Longrightarrow> vui_ok v \<Longrightarrow> returns Q (k v s)" for k v s
    unfolding vui_timing_def Let_def by (intro step_intros ret that) (use that(2) in \<open>simp_all add: vui_ok_def\<close>)
  have nal: "returns Q (vui_nal_hrd v ret k s)"
    if "readable s" "vui_ok v" "\<And>v s. readable s \<Longrightarrow> vui_ok v \<Longrightarrow> returns Q (k v s)" for k v s
    unfolding vui_nal_hrd_def Let_def
    by (intro step_intros returns_hrd ret that) (use that(2) in \<open>simp_all add: vui_ok_def default_hrd_ok\<close>)
  have vcl: "returns Q (vui_vcl_hrd v ret k s)"
    if "readable s" "vui_ok v" "\<And>v s. readable s \<Longrightarrow> vui_ok v \<Longrightarrow> returns Q (k v s)" for k v s
    unfolding vui_vcl_hrd_def Let_def
    by (intro step_intros returns_hrd ret that) (use that(2) in \<open>simp_all add: vui_ok_def default_hrd_ok\<close>)
  have delay: "returns Q (vui_low_delay v ret k s)"
    if "readable s" "vui_ok v" "\<And>v s. readable s \<Longrightarrow> vui_ok v \<Longrightarrow> returns Q (k v s)" for k v s
    unfolding vui_low_delay_def by (intro step_intros ret that) (use that(2) in \<open>simp_all add: vui_ok_def\<close>)
  have restr: "returns Q (vui_restriction v ret k s)"
    if "readable s" "vui_ok v" "\<And>v s. readable s \<Longrightarrow> vui_ok v \<Longrightarrow> returns Q (k v s)" for k v s
    unfolding vui_restriction_def Let_def by (intro step_intros ret that) (use that(2) in \<open>simp_all add: vui_ok_def\<close>)
  show ?thesis unfolding h264bsdDecodeVuiParameters_def Let_def
    by (intro aspect overscan signal chroma timing nal vcl delay restr step_intros ret assms(1) zero_vui_ok)
      (simp_all add: vui_ok_def)
qed

subsection \<open>The type of a sequence parameter set\<close>

definition sps_ids_ok :: "seq_param_set \<Rightarrow> bool" where
  "sps_ids_ok p = (unat (sps_profile_idc p) < 256 \<and> unat (sps_level_idc p) < 256 \<and> unat (sps_seq_parameter_set_id p) < 32
     \<and> length (sps_scaling_list_present p) = 8 \<and> lists_ok (sps_scaling_list p) \<and> length (sps_view_id p) = MAX_NUM_VIEWS)"

definition sps_high_ok :: "seq_param_set \<Rightarrow> bool" where
  "sps_high_ok p = (bit01 (sps_scaling_matrix_present_flag p)
     \<and> (sps_profile_idc p < 100 \<longrightarrow> sps_chroma_format_idc p = 1 \<and> sps_bit_depth_luma p = 8 \<and> sps_bit_depth_chroma p = 8))"

definition power_4_16 :: "32 word \<Rightarrow> bool" where
  "power_4_16 x = (\<exists>k. 4 \<le> k \<and> k \<le> 16 \<and> x = 2 ^ k)"

definition cycle_ok :: "32 word \<Rightarrow> int list option \<Rightarrow> bool" where
  "cycle_ok n offsets = (n \<le> 255 \<and> (case offsets of None \<Rightarrow> n = 0 | Some vs \<Rightarrow> length vs = unat n))"

lemma cycle_ok_simps [simp]: "cycle_ok n None = (n = 0)" "cycle_ok n (Some vs) = (n \<le> 255 \<and> length vs = unat n)"
  by (auto simp: cycle_ok_def)

definition sps_poc_ok :: "seq_param_set \<Rightarrow> bool" where
  "sps_poc_ok p = (sps_pic_order_cnt_type p \<le> 2 \<and> (sps_pic_order_cnt_type p = 0 \<longrightarrow> power_4_16 (sps_max_pic_order_cnt_lsb p))
     \<and> cycle_ok (sps_num_ref_frames_in_pic_order_cnt_cycle p) (sps_offset_for_ref_frame p))"

definition sps_refs_ok :: "bool \<Rightarrow> seq_param_set \<Rightarrow> bool" where
  "sps_refs_ok mvc p = (sps_num_ref_frames p \<le> (if mvc then 15 else 16) \<and> bit01 (sps_gaps_in_frame_num_value_allowed_flag p))"

definition sps_size_ok :: "seq_param_set \<Rightarrow> bool" where
  "sps_size_ok p = (bit01 (sps_frame_mbs_only_flag p) \<and> bit01 (sps_direct8x8_inference_flag p))"

definition sps_crop_ok :: "bool \<Rightarrow> seq_param_set \<Rightarrow> bool" where
  "sps_crop_ok ub p = (bit01 (sps_frame_cropping_flag p) \<and> (sps_frame_cropping_flag p = 1 \<longrightarrow> \<not> crop_invalid ub p))"

definition sps_dpb_ok :: "seq_param_set \<Rightarrow> bool" where
  "sps_dpb_ok p = (1 \<le> sps_max_dpb_size p \<and> sps_max_dpb_size p \<le> 16 \<and> sps_num_ref_frames p \<le> sps_max_dpb_size p)"

definition vui_present_ok :: "32 word \<Rightarrow> vui_parameters option \<Rightarrow> bool" where
  "vui_present_ok present vui = (case vui of None \<Rightarrow> present = 0 | Some v \<Rightarrow> present = 1 \<and> vui_ok v)"

lemma vui_present_ok_simps [simp]: "vui_present_ok f None = (f = 0)" "vui_present_ok f (Some v) = (f = 1 \<and> vui_ok v)"
  by (simp_all add: vui_present_ok_def)

definition sps_wf :: "bool \<Rightarrow> bool \<Rightarrow> seq_param_set \<Rightarrow> bool" where
  "sps_wf mvc ub p = (sps_ids_ok p \<and> sps_high_ok p \<and> power_4_16 (sps_max_frame_num p) \<and> sps_poc_ok p \<and> sps_refs_ok mvc p
     \<and> sps_size_ok p \<and> sps_crop_ok ub p \<and> sps_dpb_ok p \<and> vui_present_ok (sps_vui_parameters_present_flag p) (sps_vui_parameters p) \<and> unat (sps_num_views p) \<le> MAX_NUM_VIEWS)"

text \<open>What has not been written yet\<close>

definition no_offsets :: "seq_param_set \<Rightarrow> bool" where
  "no_offsets p = (sps_num_ref_frames_in_pic_order_cnt_cycle p = 0 \<and> sps_offset_for_ref_frame p = None)"

definition no_vui :: "seq_param_set \<Rightarrow> bool" where
  "no_vui p = (sps_vui_parameters p = None \<and> sps_num_views p = 0)"

lemmas sps_parts = sps_ids_ok_def sps_high_ok_def sps_poc_ok_def sps_refs_ok_def sps_size_ok_def
  sps_crop_ok_def sps_dpb_ok_def no_offsets_def no_vui_def

lemma crop_invalid_update [simp]:
  "crop_invalid ub (p\<lparr>sps_max_dpb_size := d\<rparr>) = crop_invalid ub p"
  "crop_invalid ub (p\<lparr>sps_vui_parameters_present_flag := f\<rparr>) = crop_invalid ub p"
  "crop_invalid ub (p\<lparr>sps_vui_parameters := v\<rparr>) = crop_invalid ub p"
  "crop_invalid ub (p\<lparr>sps_num_views := n\<rparr>) = crop_invalid ub p"
  "crop_invalid ub (p\<lparr>sps_view_id := ids\<rparr>) = crop_invalid ub p"
  by (simp_all add: crop_invalid_def)

lemma zero_sps_parts: "length (sps_scaling_list_present zero_sps) = 8" "lists_ok (sps_scaling_list zero_sps)"
    "length (sps_view_id zero_sps) = MAX_NUM_VIEWS" "no_offsets zero_sps" "no_vui zero_sps"
  by (simp_all add: zero_sps_def lists_ok_def no_offsets_def no_vui_def)

subsection \<open>The stages\<close>

lemma id_bound: "\<not> MAX_NUM_SEQ_PARAM_SETS \<le> v \<Longrightarrow> unat v < 32"
  by (simp add: MAX_NUM_SEQ_PARAM_SETS_def not_le word_less_nat_alt)

lemma returns_profile:
  assumes "readable s" "\<And>st. Q (Inl st)"
    and "\<And>p s. readable s \<Longrightarrow> sps_ids_ok p \<Longrightarrow> no_offsets p \<Longrightarrow> no_vui p \<Longrightarrow> returns Q (k p s)"
  shows "returns Q (sps_profile zero_sps k s)"
  unfolding sps_profile_def Let_def
  by (intro step_intros assms)
    (use zero_sps_parts in \<open>simp_all add: sps_ids_ok_def id_bound no_offsets_def no_vui_def\<close>)

lemma word_below_2: "unat (v :: 32 word) < 2 \<Longrightarrow> v = 0 \<or> v = 1"
  using bit01_small by (simp add: bit01_def)

lemma returns_high:
  assumes "readable s" "\<And>st. Q (Inl st)" "sps_ids_ok p" "no_offsets p" "no_vui p"
    and "\<And>p s. readable s \<Longrightarrow> sps_ids_ok p \<Longrightarrow> sps_high_ok p \<Longrightarrow> no_offsets p \<Longrightarrow> no_vui p \<Longrightarrow> returns Q (k p s)"
  shows "returns Q (sps_high delta p k s)"
  unfolding sps_high_def sps_chroma_format_def Let_def
  by (intro step_intros returns_scaling_lists assms(1,2,6))
    (use assms(3-5) in \<open>auto simp: sps_ids_ok_def sps_high_ok_def no_offsets_def no_vui_def bit01_def not_less dest: word_below_2\<close>)

lemma shifted_one: "\<not> 12 < (v :: 32 word) \<Longrightarrow> power_4_16 (2 ^ unat (v + 4))"
proof -
  assume "\<not> 12 < v"
  then have "unat v \<le> 12" by (simp add: not_less word_le_nat_alt)
  then have "unat (v + 4) = unat v + 4" by (simp add: unat_add_lem[THEN iffD1])
  then show ?thesis using \<open>unat v \<le> 12\<close> by (auto simp: power_4_16_def intro!: exI[of _ "unat v + 4"])
qed

lemma returns_frame_num:
  assumes "readable s" "\<And>st. Q (Inl st)" "sps_ids_ok p" "sps_high_ok p" "no_offsets p" "no_vui p"
    and "\<And>p s. readable s \<Longrightarrow> sps_ids_ok p \<Longrightarrow> sps_high_ok p \<Longrightarrow> no_offsets p \<Longrightarrow> no_vui p \<Longrightarrow>
      power_4_16 (sps_max_frame_num p) \<Longrightarrow> returns Q (k p s)"
  shows "returns Q (sps_frame_num p k s)"
  unfolding sps_frame_num_def
  by (intro step_intros assms(1,2,7)) (use assms(3-6) in \<open>simp_all add: sps_parts shifted_one\<close>)

lemma returns_read_ses:
  assumes "readable s" "\<And>st. Q (Inl st)" "\<And>vs s. readable s \<Longrightarrow> length vs = length acc + n \<Longrightarrow> returns Q (k vs s)"
  shows "returns Q (read_ses n acc k s)"
  using assms(1,3)
proof (induction n arbitrary: acc s)
  case (Suc n)
  then show ?case unfolding read_ses.simps by (intro step_intros assms(2) Suc.IH) auto
qed simp

text \<open>What the stages up to the order counts have established\<close>

definition sps_counted :: "seq_param_set \<Rightarrow> bool" where
  "sps_counted p = (sps_ids_ok p \<and> sps_high_ok p \<and> power_4_16 (sps_max_frame_num p) \<and> sps_poc_ok p \<and> no_vui p)"

lemma returns_poc:
  assumes "readable s" "\<And>st. Q (Inl st)" "sps_ids_ok p" "sps_high_ok p" "no_offsets p" "no_vui p" "power_4_16 (sps_max_frame_num p)"
    and "\<And>p s. readable s \<Longrightarrow> sps_counted p \<Longrightarrow> returns Q (k p s)"
  shows "returns Q (sps_poc alloc p k s)"
  unfolding sps_poc_def sps_poc1_def Let_def
  by (intro step_intros returns_read_ses assms(1,2,8))
    (use assms(3-7) in \<open>simp_all add: sps_counted_def sps_parts shifted_one not_less\<close>)

definition sps_sized :: "bool \<Rightarrow> seq_param_set \<Rightarrow> bool" where
  "sps_sized mvc p = (sps_counted p \<and> sps_refs_ok mvc p \<and> sps_size_ok p)"

lemma returns_refs:
  assumes "readable s" "\<And>st. Q (Inl st)" "sps_counted p"
    and "\<And>p s. readable s \<Longrightarrow> sps_counted p \<Longrightarrow> sps_refs_ok mvc p \<Longrightarrow> returns Q (k p s)"
  shows "returns Q (sps_refs mvc p k s)"
proof -
  have r: "v \<le> (if mvc then 15 else 16)" if "\<not> (MAX_NUM_REF_PICS < unat v \<or> mvc \<and> 15 < v)" for v :: "32 word"
    using that by (auto simp: MAX_NUM_REF_PICS_def word_le_nat_alt not_less)
  show ?thesis unfolding sps_refs_def Let_def
    by (intro step_intros assms(1,2,4))
      (use assms(3) r in \<open>simp_all add: sps_counted_def sps_parts bit01_flag del: de_Morgan_disj\<close>)
qed

lemma returns_size:
  assumes "readable s" "\<And>st. Q (Inl st)" "sps_counted p" "sps_refs_ok mvc p"
    and "\<And>p s. readable s \<Longrightarrow> sps_sized mvc p \<Longrightarrow> returns Q (k p s)"
  shows "returns Q (sps_size p k s)"
  unfolding sps_size_def Let_def
  by (intro step_intros assms(1,2,5))
    (use assms(3,4) in \<open>simp_all add: sps_sized_def sps_counted_def sps_parts bit01_small\<close>)

lemma returns_cropping:
  assumes "readable s" "\<And>st. Q (Inl st)" "sps_sized mvc p"
    and "\<And>p s. readable s \<Longrightarrow> sps_sized mvc p \<Longrightarrow> sps_crop_ok ub p \<Longrightarrow> returns Q (k p s)"
  shows "returns Q (sps_cropping ub p k s)"
  unfolding sps_cropping_def Let_def
  by (intro step_intros assms(1,2,4))
    (use assms(3) in \<open>simp_all add: sps_sized_def sps_counted_def sps_parts bit01_flag\<close>)

subsection \<open>The size of the picture buffer\<close>

lemma level_quotient:
  assumes "level_limits l = Some (t, m)" "0 < n" "n \<le> m"
  shows "1 \<le> t div n"
proof -
  have "m \<le> t" using map_of_SomeD[OF assms(1)[unfolded level_limits_def]] by auto
  then have "n \<le> t" using assms(3) by simp
  then have "1 \<le> unat t div unat n" using assms(2) by (simp add: word_less_nat_alt word_le_nat_alt div_greater_zero_iff Suc_le_eq)
  then show ?thesis by (simp add: word_le_nat_alt unat_div)
qed

lemma GetDpbSize_range: "GetDpbSize n l \<noteq> INVALID_DPB_SIZE \<Longrightarrow> 1 \<le> GetDpbSize n l \<and> GetDpbSize n l \<le> 16"
  using level_quotient[of l _ _ n]
  by (auto simp: GetDpbSize_def word_gt_0 not_less min_def split: option.splits if_splits)

text \<open>Up to the picture buffer\<close>

definition sps_before_dpb :: "bool \<Rightarrow> bool \<Rightarrow> seq_param_set \<Rightarrow> bool" where
  "sps_before_dpb mvc ub p = (sps_sized mvc p \<and> sps_crop_ok ub p)"

lemma refs_16: "sps_refs_ok mvc p \<Longrightarrow> sps_num_ref_frames p \<le> 16"
  by (auto simp: sps_refs_ok_def word_le_nat_alt split: if_splits)

lemma word_nonzero_ge1: "(w :: 32 word) \<noteq> 0 \<Longrightarrow> 1 \<le> w"
  by (simp add: word_le_nat_alt Suc_le_eq unat_gt_0)

lemma sps_dpb_gives:
  assumes "sps_before_dpb mvc ub p" "sps_dpb p = (q, invalid)"
  shows "sps_before_dpb mvc ub q \<and> sps_dpb_ok q"
proof -
  define lim where "lim = GetDpbSize (sps_pic_width_in_mbs p * sps_pic_height_in_mbs p) (sps_level_idc p)"
  have r: "sps_num_ref_frames p \<le> 16" using assms(1) refs_16 by (auto simp: sps_before_dpb_def sps_sized_def)
  obtain d where q: "q = p\<lparr>sps_max_dpb_size := d\<rparr>" using assms(2)
    by (auto simp: sps_dpb_def Let_def split: if_splits)
  have "sps_dpb_ok q"
  proof (cases "lim = INVALID_DPB_SIZE \<or> sps_num_ref_frames p > lim")
    case True
    then have "q = p\<lparr>sps_max_dpb_size := (if sps_num_ref_frames p \<noteq> 0 then sps_num_ref_frames p else 1)\<rparr>"
      using assms(2) by (simp add: sps_dpb_def lim_def Let_def)
    then show ?thesis using r by (simp add: sps_dpb_ok_def word_nonzero_ge1)
  next
    case False
    then have "q = p\<lparr>sps_max_dpb_size := lim\<rparr>" using assms(2) by (simp add: sps_dpb_def lim_def Let_def)
    then show ?thesis using False GetDpbSize_range[of "sps_pic_width_in_mbs p * sps_pic_height_in_mbs p" "sps_level_idc p"]
      by (simp add: sps_dpb_ok_def lim_def not_less)
  qed
  moreover have "sps_before_dpb mvc ub q" unfolding q
    using assms(1) by (simp add: sps_before_dpb_def sps_sized_def sps_counted_def sps_parts)
  ultimately show ?thesis by blast
qed

lemma check_branches:
  "(if a then (if c \<and> i then Some (if d then y else x) else if e then Some x else None) else Some x) = Some q
   \<Longrightarrow> q = x \<or> q = y \<and> d \<and> c"
  by (auto split: if_splits)

lemma vui_dpb_gives:
  assumes "sps_dpb_ok p" "sps_num_ref_frames p \<le> 16" "vui_dpb_check invalid p v = Some q"
  obtains d where "vui_dpb_size q v = p\<lparr>sps_max_dpb_size := d\<rparr>" "sps_dpb_ok (p\<lparr>sps_max_dpb_size := d\<rparr>)"
proof -
  let ?m = "vui_max_dec_frame_buffering v"
  have c: "q = p \<or> q = p\<lparr>sps_max_dpb_size := ?m\<rparr> \<and> ?m \<le> 16 \<and> ?m > sps_max_dpb_size p"
    using assms(3) unfolding vui_dpb_check_def by (rule check_branches)
  obtain d where q: "q = p\<lparr>sps_max_dpb_size := d\<rparr>" "sps_dpb_ok (p\<lparr>sps_max_dpb_size := d\<rparr>)"
  proof (cases "q = p")
    case True
    then show ?thesis using assms(1) by (intro that[of "sps_max_dpb_size p"]) simp_all
  next
    case False
    then have "q = p\<lparr>sps_max_dpb_size := ?m\<rparr>" "?m \<le> 16" "sps_max_dpb_size p < ?m" using c by blast+
    then show ?thesis using assms(1) by (intro that[of ?m]) (auto simp: sps_dpb_ok_def)
  qed
  define x where "x = (if sps_num_ref_frames p > max 1 (vui_max_dec_frame_buffering v) then sps_num_ref_frames p
     else if max 1 (vui_max_dec_frame_buffering v) \<le> 16 then max 1 (vui_max_dec_frame_buffering v) else d)"
  have "vui_dpb_size q v = p\<lparr>sps_max_dpb_size := x\<rparr>" by (simp add: vui_dpb_size_def Let_def q(1) x_def)
  moreover have "sps_dpb_ok (p\<lparr>sps_max_dpb_size := x\<rparr>)"
  proof (cases "sps_num_ref_frames p > max 1 (vui_max_dec_frame_buffering v)")
    case True
    then have "x = sps_num_ref_frames p" "1 \<le> sps_num_ref_frames p" by (auto simp: x_def less_imp_le)
    then show ?thesis using assms(2) by (simp add: sps_dpb_ok_def)
  next
    case False
    then have "x = (if max 1 (vui_max_dec_frame_buffering v) \<le> 16 then max 1 (vui_max_dec_frame_buffering v) else d)"
      by (simp only: x_def if_False)
    moreover have "1 \<le> max 1 (vui_max_dec_frame_buffering v)" "sps_num_ref_frames p \<le> max 1 (vui_max_dec_frame_buffering v)"
      using False by (simp_all only: max.cobounded1 not_less)
    ultimately show ?thesis using q(2) by (simp add: sps_dpb_ok_def del: max.bounded_iff le_max_iff_disj)
  qed
  ultimately show ?thesis by (rule that)
qed

lemma returns_sps_vui:
  assumes "readable s" "\<And>st. Q (Inl st)" "sps_before_dpb mvc ub p"
    and k: "\<And>p s. readable s \<Longrightarrow> sps_wf mvc ub p \<Longrightarrow> returns Q (k p s)"
  shows "returns Q (sps_vui alloc junk p k s)"
proof -
  obtain q invalid where dpb: "sps_dpb p = (q, invalid)" by (cases "sps_dpb p")
  note q = sps_dpb_gives[OF assms(3) dpb]
  have r: "sps_num_ref_frames q \<le> 16" using q refs_16 by (auto simp: sps_before_dpb_def sps_sized_def)
  let ?q = "\<lambda>f vo. q\<lparr>sps_vui_parameters_present_flag := f, sps_vui_parameters := vo\<rparr>"
  have wf: "sps_wf mvc ub (?q f vo\<lparr>sps_max_dpb_size := d\<rparr>)"
    if "vui_present_ok f vo" "sps_dpb_ok (q\<lparr>sps_max_dpb_size := d\<rparr>)" for f vo d
    using q that by (simp add: sps_wf_def sps_before_dpb_def sps_sized_def sps_counted_def sps_parts)
  have plain: "sps_wf mvc ub (?q f vo)" if "vui_present_ok f vo" for f vo
    using wf[OF that, of "sps_max_dpb_size q"] q by simp
  have checked: "returns Q (k (vui_dpb_size p' v) s)"
    if c: "vui_dpb_check i (?q f (Some v)) v = Some p'" and r: "readable s" and f: "f = 1" and v: "vui_ok v" for i f v p' s
  proof -
    have "sps_dpb_ok (?q f (Some v))" "sps_num_ref_frames (?q f (Some v)) \<le> 16"
      using q r by (simp_all add: sps_dpb_ok_def \<open>sps_num_ref_frames q \<le> 16\<close>)
    from vui_dpb_gives[OF this c] obtain d where
      "vui_dpb_size p' v = ?q f (Some v)\<lparr>sps_max_dpb_size := d\<rparr>" "sps_dpb_ok (?q f (Some v)\<lparr>sps_max_dpb_size := d\<rparr>)" .
    moreover from this(2) have "sps_dpb_ok (q\<lparr>sps_max_dpb_size := d\<rparr>)" by (simp add: sps_dpb_ok_def)
    ultimately show ?thesis using k[OF r wf] f v by simp
  qed
  have stored: "returns Q (k (?q f (Some v)) s)" if "readable s" "f = 1" "vui_ok v" for f v s
    using k[OF that(1) plain[of f "Some v"]] that(2,3) by simp
  have none: "sps_vui_parameters q = None" using q by (simp add: sps_before_dpb_def sps_sized_def sps_counted_def no_vui_def)
  have keep: "returns Q (k (q\<lparr>sps_vui_parameters_present_flag := 0\<rparr>) s)" if "readable s" for s
    using k[OF that plain[of 0 None]] none by (cases q) simp
  show ?thesis unfolding sps_vui_def dpb prod.case
    by (intro returns_flag returns_let returns_if returns_case returns_vui returns_failed assms(1,2))
      (auto intro: checked keep stored)
qed

subsection \<open>The multiview extension\<close>

text \<open>The counts are code numbers of 32 bits, so a loop has up to 2^32 rounds, but it ends.\<close>

lemma returns_view_ids:
  assumes "readable s" "\<And>st. Q (Inl st)" "P p" "\<And>p i v. P p \<Longrightarrow> i < MAX_NUM_VIEWS \<Longrightarrow> P (p\<lparr>sps_view_id := (sps_view_id p)[i := v]\<rparr>)"
    and k: "\<And>p s. readable s \<Longrightarrow> P p \<Longrightarrow> returns Q (k p s)"
  shows "returns Q (mvc_view_ids i n p k s)"
  using assms(1,3)
proof (induction n arbitrary: i p s)
  case (Suc n)
  then show ?case unfolding mvc_view_ids.simps by (intro step_intros assms(2) Suc.IH) (simp_all add: assms(4))
qed (simp add: k)

lemma returns_skip_ues:
  assumes "readable s" "\<And>st. Q (Inl st)" "\<And>s. readable s \<Longrightarrow> returns Q (k s)"
  shows "returns Q (skip_ues n k s)"
  using assms(1)
proof (induction n arbitrary: s)
  case (Suc n)
  then show ?case unfolding skip_ues.simps by (intro step_intros assms(2) Suc.IH)
qed (simp add: assms(3))

lemma returns_ignore_ues:
  assumes "readable s" "\<And>s. readable s \<Longrightarrow> returns Q (k s)"
  shows "returns Q (ignore_ues n k s)"
  using assms(1)
proof (induction n arbitrary: s)
  case (Suc n)
  then show ?case unfolding ignore_ues.simps by (intro step_intros Suc.IH)
qed (simp add: assms(2))

lemma returns_mvc_refs:
  assumes "readable s" "\<And>st. Q (Inl st)" "\<And>s. readable s \<Longrightarrow> returns Q (k s)"
  shows "returns Q (mvc_refs n k s)"
  using assms(1)
proof (induction n arbitrary: s)
  case (Suc n)
  then show ?case unfolding mvc_refs.simps by (intro step_intros returns_skip_ues assms(2) Suc.IH)
qed (simp add: assms(3))

lemma returns_mvc_ops:
  assumes "readable s" "\<And>st. Q (Inl st)" "\<And>s. readable s \<Longrightarrow> returns Q (k s)"
  shows "returns Q (mvc_ops n k s)"
  using assms(1)
proof (induction n arbitrary: s)
  case (Suc n)
  then show ?case unfolding mvc_ops.simps by (intro step_intros returns_ignore_ues assms(2) Suc.IH) simp_all
qed (simp add: assms(3))

lemma returns_mvc_levels:
  assumes "readable s" "\<And>st. Q (Inl st)" "\<And>s. readable s \<Longrightarrow> returns Q (k s)"
  shows "returns Q (mvc_levels n k s)"
  using assms(1)
proof (induction n arbitrary: s)
  case (Suc n)
  then show ?case unfolding mvc_levels.simps by (intro step_intros returns_mvc_ops assms(2) Suc.IH) simp_all
qed (simp add: assms(3))

lemma returns_mvc_hrd:
  assumes "readable s" "\<And>j s. readable s \<Longrightarrow> returns Q (k j s)"
  shows "returns Q (mvc_hrd k s)"
  unfolding mvc_hrd_def by (intro step_intros returns_hrd zero_hrd_ok assms) simp_all

lemma returns_mvc_timing:
  assumes "readable s" "\<And>st. Q (Inl st)" "\<And>s. readable s \<Longrightarrow> returns Q (k s)"
  shows "returns Q (mvc_timing k s)"
  unfolding mvc_timing_def by (intro step_intros assms) simp_all

lemma returns_mvc_vui_ops:
  assumes "readable s" "\<And>st. Q (Inl st)" "\<And>s. readable s \<Longrightarrow> returns Q (k s)"
  shows "returns Q (mvc_vui_ops n k s)"
  using assms(1)
proof (induction n arbitrary: s)
  case (Suc n)
  show ?case unfolding mvc_vui_ops.simps
    by (intro returns_any returns_ue returns_failed_ue returns_if returns_ignore_ues returns_mvc_timing returns_mvc_hrd
      assms(2) Suc.IH Suc.prems; assumption?) simp_all
qed (simp add: assms(3))

lemma sps_wf_views:
  assumes "sps_wf mvc ub p"
  shows "unat n \<le> MAX_NUM_VIEWS \<Longrightarrow> sps_wf mvc ub (p\<lparr>sps_num_views := n\<rparr>)"
    and "sps_wf mvc ub (p\<lparr>sps_view_id := (sps_view_id p)[i := v]\<rparr>)"
  using assms by (simp_all add: sps_wf_def sps_parts)

lemma returns_mvc_extension:
  assumes "readable s" "\<And>st. Q (Inl st)" "sps_wf mvc ub p" and k: "\<And>p s. readable s \<Longrightarrow> sps_wf mvc ub p \<Longrightarrow> returns Q (k p s)"
  shows "returns Q (DecodeMvcExtension p k s)"
  unfolding DecodeMvcExtension_def Let_def
  by (intro step_intros returns_view_ids[where P = "sps_wf mvc ub"] returns_mvc_refs returns_mvc_levels returns_mvc_vui_ops
      assms(1,2) k; assumption?)
    (simp_all add: sps_wf_views assms(3))

lemma DecodeSeqParamSet_returns:
  assumes "readable s"
  shows "returns (\<lambda>r. case r of Inl st \<Rightarrow> True | Inr (p, s') \<Rightarrow> sps_wf mvc ub p \<and> readable s')
    (h264bsdDecodeSeqParamSet alloc delta junk ub mvc s)"
  (is "returns ?Q _")
proof -
  have stop: "?Q (Inl st)" for st by simp
  have last: "returns ?Q (do { (tmp, s) \<leftarrow> h264bsdRbspTrailingBits s; Some (Inr (p, s)) })"
    if "readable s" "sps_wf mvc ub p" for p s
    using RbspTrailing_total[OF that(1)] that(2) by (auto simp: returns_def)
  have views: "returns ?Q (sps_mvc mvc p (\<lambda>p s. do { (tmp, s) \<leftarrow> h264bsdRbspTrailingBits s; Some (Inr (p, s)) }) s)"
    if "readable s" "sps_wf mvc ub p" for p s
    unfolding sps_mvc_def
    by (intro step_intros returns_mvc_extension[where mvc = mvc and ub = ub] stop last that; assumption?) (simp_all add: that)
  show ?thesis unfolding h264bsdDecodeSeqParamSet_def
    by (intro returns_profile returns_high returns_frame_num returns_poc returns_refs returns_size returns_cropping
        returns_sps_vui views assms stop; assumption?)
      (simp add: sps_before_dpb_def)
qed

end
