(* ===== verification/H264Elements.thy ===== *)
theory H264Elements
  imports H264Reading
begin

text \<open>
  The steps of the parsers on a stream that holds syntax elements: each takes one element off the list.
\<close>

definition elements :: "strm_data \<Rightarrow> syntax_element list \<Rightarrow> bits \<Rightarrow> bool" where
  "elements s es r = (reading s (concat (map element_bits es) @ r) \<and> list_all element_ok es)"

lemma elements_Nil: "elements s [] r = reading s r"
  by (simp add: elements_def)

lemma elements_cons: "elements s (e # es) r \<Longrightarrow> reading s (element_bits e @ concat (map element_bits es) @ r)"
  "elements s (e # es) r \<Longrightarrow> element_ok e"
  "elements s (e # es) r \<Longrightarrow> reading s' (concat (map element_bits es) @ r) \<Longrightarrow> elements s' es r"
  by (simp_all add: elements_def)

lemma elements_ue:
  assumes "elements s (UE n # es) r" "\<And>s'. elements s' es r \<Longrightarrow> returns Q (k (of_nat n) s')"
  shows "returns Q (read_ue c e k s)"
proof (rule reads_ue)
  show "reading s (eg_code n @ concat (map element_bits es) @ r)"
    using elements_cons(1)[OF assms(1)] by (simp add: element_bits_def)
  show "n < 2 ^ 32" using elements_cons(2)[OF assms(1)] by (simp add: element_ok_def)
qed (rule assms(2), rule elements_cons(3)[OF assms(1)])

lemma elements_u:
  assumes "elements s (U v n # es) r" "0 < n" "n < 32" "\<And>s'. elements s' es r \<Longrightarrow> returns Q (k v s')"
  shows "returns Q (read_u n e k s)"
proof (rule reads_u)
  show "reading s (low_bits n v @ concat (map element_bits es) @ r)"
    using elements_cons(1)[OF assms(1)] by (simp add: element_bits_def)
  show "drop_bit n v = 0" using elements_cons(2)[OF assms(1)] by (simp add: element_ok_def)
qed (use assms(2,3,4) elements_cons(3)[OF assms(1)] in auto)

lemma elements_any:
  assumes "elements s (U v n # es) r" "0 < n" "n < 32" "\<And>s'. elements s' es r \<Longrightarrow> returns Q (k v s')"
  shows "returns Q (read_any n k s)"
proof (rule reads_any)
  show "reading s (low_bits n v @ concat (map element_bits es) @ r)"
    using elements_cons(1)[OF assms(1)] by (simp add: element_bits_def)
  show "drop_bit n v = 0" using elements_cons(2)[OF assms(1)] by (simp add: element_ok_def)
qed (use assms(2,3,4) elements_cons(3)[OF assms(1)] in auto)

lemma one_bit_word: "drop_bit 1 (v :: 32 word) = 0 \<Longrightarrow> v = 0 \<or> v = 1"
proof -
  assume "drop_bit 1 v = 0"
  then have "unat v div 2 = 0" using unat_drop_bit_div[of 1 v] by simp
  then have "unat v < 2" by simp
  then show ?thesis using bit01_small by (simp add: bit01_def)
qed

lemma elements_flag:
  assumes "elements s (U v 1 # es) r" "\<And>s'. elements s' es r \<Longrightarrow> returns Q (k v s')"
  shows "returns Q (read_flag e k s)"
proof -
  have "v = 0 \<or> v = 1" using elements_cons(2)[OF assms(1)] by (intro one_bit_word) (simp add: element_ok_def)
  then have "(if v = 1 then 1 else 0) = v" by auto
  then show ?thesis unfolding read_flag_def
    by (intro elements_u[OF assms(1)]) (use assms(2) in simp_all)
qed

lemma elements_32:
  assumes "elements s (U v 32 # es) r" "\<And>s'. elements s' es r \<Longrightarrow> returns Q (k v s')"
  shows "returns Q (read_32 e k s)"
  by (rule reads_32[of s v "concat (map element_bits es) @ r"])
    (use elements_cons[OF assms(1)] assms(2) in \<open>simp_all add: element_bits_def\<close>)

text \<open>Either list behind a condition\<close>

lemma elements_if: "elements s ((if c then es else fs) @ gs) r = elements s (if c then es @ gs else fs @ gs) r"
  by simp

end
