(* ===== verification/SpsRoundtrip.thy ===== *)
theory SpsRoundtrip
  imports EncSps ParamRoundtrip H264SpsType H264Elements
begin

text \<open>
  Sequence parameter sets from the encoder to the decoder: what H264SeqParameterSet writes,
  h264bsdDecodeNalUnit and h264bsdDecodeSeqParamSet read back, video usability information and HRD parameters
  included.
\<close>

subsection \<open>Video usability information\<close>

text \<open>The decoder's structure for the encoder's, in the order in which it is filled\<close>

definition got_aspect :: "vui_t \<Rightarrow> vui_parameters \<Rightarrow> vui_parameters" where
  "got_aspect v w = (let idc = GetAspectRatioIdc (sint (vu_sarWidth v)) (sint (vu_sarHeight v))
     in if idc = 0 then w\<lparr>vui_aspect_ratio_present_flag := 0\<rparr>
        else w\<lparr>vui_aspect_ratio_present_flag := 1, vui_aspect_ratio_idc := word_of_int idc\<rparr>)"

definition got_video :: "vui_t \<Rightarrow> vui_parameters \<Rightarrow> vui_parameters" where
  "got_video v w = default_colours
     (if vu_videoFullRange v \<noteq> 0
      then w\<lparr>vui_video_signal_type_present_flag := 1, vui_video_format := 5, vui_video_full_range_flag := 1,
             vui_colour_description_present_flag := 0\<rparr>
      else w\<lparr>vui_video_signal_type_present_flag := 0, vui_video_format := 5\<rparr>)"

definition got_timing :: "vui_t \<Rightarrow> vui_parameters \<Rightarrow> vui_parameters" where
  "got_timing v w = (if vu_timeScale v \<noteq> 0
     then w\<lparr>vui_timing_info_present_flag := 1, vui_num_units_in_tick := vu_numUnitsInTick v,
            vui_time_scale := vu_timeScale v * (if vu_frame_field_info_present_flag v = 0 then 2 else 1),
            vui_fixed_frame_rate_flag := 0\<rparr>
     else w\<lparr>vui_timing_info_present_flag := 0\<rparr>)"

definition got_hrd :: "vui_t \<Rightarrow> hrd_parameters \<Rightarrow> hrd_parameters" where
  "got_hrd v h = h\<lparr>hrd_cpb_cnt := 1, hrd_bit_rate_scale := of_nat (rate_scale v), hrd_cpb_size_scale := of_nat (size_scale v),
     hrd_bit_rate_value := (hrd_bit_rate_value h)[0 := of_nat (rate_value v)],
     hrd_cpb_size_value := (hrd_cpb_size_value h)[0 := vu_cpbSize (rounded v)],
     hrd_cbr_flag := (hrd_cbr_flag h)[0 := 0],
     hrd_initial_cpb_removal_delay_length := vu_initialCpbRemovalDelayLength v,
     hrd_cpb_removal_delay_length := vu_cpbRemovalDelayLength v,
     hrd_dpb_output_delay_length := vu_dpbOutputDelayLength v,
     hrd_time_offset_length := vu_timeOffsetLength v\<rparr>"

definition got_vui :: "vui_t \<Rightarrow> int \<Rightarrow> vui_parameters" where
  "got_vui v n = (
     let w = got_timing v ((got_video v ((got_aspect v zero_vui)\<lparr>vui_overscan_info_present_flag := 0\<rparr>))
           \<lparr>vui_chroma_loc_info_present_flag := 0\<rparr>);
         w = (if vu_nalHrdParametersPresentFlag v = 1
              then w\<lparr>vui_nal_hrd_parameters_present_flag := 1, vui_nal_hrd_parameters := got_hrd v zero_hrd\<rparr>
              else w\<lparr>vui_nal_hrd_parameters_present_flag := 0, vui_nal_hrd_parameters := default_hrd 1200 zero_hrd\<rparr>);
         w = w\<lparr>vui_vcl_hrd_parameters_present_flag := 0, vui_vcl_hrd_parameters := default_hrd 1000 zero_hrd\<rparr>;
         w = (if vu_nalHrdParametersPresentFlag v = 1 then w\<lparr>vui_low_delay_hrd_flag := 0\<rparr> else w)
     in w\<lparr>vui_pic_struct_present_flag := vu_frame_field_info_present_flag v,
          vui_bitstream_restriction_flag := 1, vui_motion_vectors_over_pic_boundaries_flag := 1,
          vui_max_bytes_per_pic_denom := 0, vui_max_bits_per_mb_denom := 0,
          vui_log2_max_mv_length_horizontal := word_of_int LOG2_MAX_MV_LENGTH_HOR,
          vui_log2_max_mv_length_vertical := word_of_int LOG2_MAX_MV_LENGTH_VER,
          vui_num_reorder_frames := word_of_int n, vui_max_dec_frame_buffering := word_of_int n\<rparr>)"

lemma idc_word:
  assumes "GetAspectRatioIdc w h \<noteq> EXTENDED_SAR"
  shows "(word_of_int (GetAspectRatioIdc w h) :: 32 word) \<noteq> ASPECT_RATIO_EXTENDED_SAR"
proof -
  have "0 \<le> GetAspectRatioIdc w h" "GetAspectRatioIdc w h \<le> 16" using aspect_small[of w h] assms by auto
  then have "uint (word_of_int (GetAspectRatioIdc w h) :: 32 word) \<le> 16" by (simp add: uint_word_of_int)
  moreover have "uint ASPECT_RATIO_EXTENDED_SAR = 255" by (simp add: ASPECT_RATIO_EXTENDED_SAR_def)
  ultimately show ?thesis by auto
qed

lemma aspect_elements:
  assumes "elements s (aspect_syntax v @ es) r" "GetAspectRatioIdc (sint (vu_sarWidth v)) (sint (vu_sarHeight v)) \<noteq> EXTENDED_SAR"
    and k: "\<And>s'. elements s' es r \<Longrightarrow> returns Q (k (got_aspect v w) s')"
  shows "returns Q (vui_aspect_ratio w ret k s)"
proof -
  let ?idc = "GetAspectRatioIdc (sint (vu_sarWidth v)) (sint (vu_sarHeight v))"
  have x: "(word_of_int ?idc :: 32 word) \<noteq> ASPECT_RATIO_EXTENDED_SAR" using idc_word assms(2) by blast
  show ?thesis
  proof (cases "?idc = 0")
    case True
    then have e: "elements s (B1 0 # es) r" using assms(1) by (simp add: aspect_syntax_def del: One_nat_def)
    show ?thesis unfolding vui_aspect_ratio_def Let_def
      by (rule elements_flag[OF e]) (use k True in \<open>simp add: got_aspect_def\<close>)
  next
    case False
    then have e: "elements s (B1 1 # U (word_of_int ?idc) 8 # es) r" using assms(1) by (simp add: aspect_syntax_def del: One_nat_def)
    show ?thesis unfolding vui_aspect_ratio_def Let_def
      apply (rule elements_flag[OF e], rule take_if, simp)
      apply (rule elements_u, assumption, simp, simp, rule skip_if, rule x)
      using k False by (simp add: got_aspect_def Let_def)
  qed
qed

lemma video_elements:
  assumes "elements s (video_syntax v @ es) r" "\<And>s'. elements s' es r \<Longrightarrow> returns Q (k (got_video v w) s')"
  shows "returns Q (vui_video_signal w ret k s)"
proof (cases "vu_videoFullRange v \<noteq> 0")
  case True
  then have e: "elements s (B1 1 # U 5 3 # B1 1 # B1 0 # es) r" using assms(1) by (simp add: video_syntax_def del: One_nat_def)
  show ?thesis unfolding vui_video_signal_def Let_def
    apply (rule elements_flag[OF e], rule take_if, simp)
    apply (rule elements_u, assumption, simp, simp, rule elements_flag, assumption, rule elements_flag, assumption, rule skip_if, simp)
    using assms(2) True by (simp add: got_video_def)
next
  case False
  then have e: "elements s (B1 0 # es) r" using assms(1) by (simp add: video_syntax_def del: One_nat_def)
  show ?thesis unfolding vui_video_signal_def Let_def
    by (rule elements_flag[OF e], rule skip_if, simp) (use assms(2) False in \<open>simp add: got_video_def\<close>)
qed

lemma timing_elements:
  assumes "elements s (timing_syntax v @ es) r" "\<And>s'. elements s' es r \<Longrightarrow> returns Q (k (got_timing v w) s')"
  shows "returns Q (vui_timing w ret k s)"
proof (cases "vu_timeScale v \<noteq> 0")
  case True
  then have e: "elements s (B1 1 # U (vu_numUnitsInTick v) 32
      # U (vu_timeScale v * (if vu_frame_field_info_present_flag v = 0 then 2 else 1)) 32 # B1 0 # es) r"
    using assms(1) by (simp add: timing_syntax_def del: One_nat_def)
  show ?thesis unfolding vui_timing_def Let_def
    apply (rule elements_flag[OF e], rule take_if, simp)
    apply (rule elements_32, assumption, rule elements_32, assumption, rule elements_flag, assumption)
    using assms(2) True by (simp add: got_timing_def)
next
  case False
  then have e: "elements s (B1 0 # es) r" using assms(1) by (simp add: timing_syntax_def del: One_nat_def)
  show ?thesis unfolding vui_timing_def Let_def
    by (rule elements_flag[OF e], rule skip_if, simp) (use assms(2) False in \<open>simp add: got_timing_def\<close>)
qed

text \<open>One schedule with rounded rates: the decoder finds the sizes that the encoder stores back.\<close>

lemma minus_1_plus: "1 \<le> n \<Longrightarrow> (of_nat (n - 1) :: 32 word) + 1 = of_nat n"
  by (simp add: of_nat_diff)

lemma minus_1_limit: "n \<le> 2047 \<Longrightarrow> \<not> (of_nat n :: 32 word) > 4294967294"
  by (simp add: word_less_nat_alt of_nat_small)

lemma one_schedule:
  assumes "elements s (UE a # UE b # B1 f # es) r" "n = Suc 0" "hrd_ok h" "a \<le> 2047" "b \<le> 2047"
    and k: "\<And>s'. elements s' es r \<Longrightarrow> returns Q (k (h\<lparr>hrd_bit_rate_value := (hrd_bit_rate_value h)[0 := of_nat a + 1],
      hrd_cpb_size_value := (hrd_cpb_size_value h)[0 := push_bit (4 + unat (hrd_cpb_size_scale h)) (of_nat b + 1)],
      hrd_cbr_flag := (hrd_cbr_flag h)[0 := f]\<rparr>) s')"
  shows "returns Q (hrd_schedules 0 n h ret k s)"
proof -
  have c: "\<not> (0 \<ge> length (hrd_bit_rate_value h) \<or> 0 \<ge> length (hrd_cpb_size_value h) \<or> 0 \<ge> length (hrd_cbr_flag h))"
    using assms(3) by (simp add: hrd_ok_def MAX_CPB_CNT_def)
  show ?thesis unfolding assms(2) hrd_schedules.simps if_not_P[OF c] Let_def
    apply (rule elements_ue[OF assms(1)], rule skip_if, rule minus_1_limit[OF assms(4)])
    apply (rule elements_ue, assumption, rule skip_if, rule minus_1_limit[OF assms(5)])
    apply (rule elements_flag, assumption)
    using k by simp
qed

lemma hrd_elements:
  assumes "elements s (hrd_syntax v @ es) r" "2 ^ 7 \<le> vu_bitRate v" "2 ^ 5 \<le> vu_cpbSize v" "vu_cpbSize v < 2 ^ 30" "h = zero_hrd"
    and k: "\<And>s'. elements s' es r \<Longrightarrow> returns Q (ret HANTRO_OK (got_hrd v h) s')"
  shows "returns Q (h264bsdDecodeHrdParameters h ret s)"
proof -
  have "2 ^ (6 + 1) \<le> unat (vu_bitRate v)" "2 ^ (4 + 1) \<le> unat (vu_cpbSize v)" "unat (vu_cpbSize v) < 2 ^ (4 + 12 + 14)"
    using assms(2-4) by (simp_all add: word_le_nat_alt word_less_nat_alt)
  note R = hrd_scale_bounds[OF refl this(1), folded rate_scale_def, folded rate_value_def]
    and C = hrd_scale_bounds[OF refl this(2), folded size_scale_def, folded size_value_def]
    and S = this(3)
  have sc: "unat (of_nat (size_scale v) :: 32 word) = size_scale v" by (rule of_nat_small) (use C(4)[OF S] in simp)
  have size: "push_bit (4 + size_scale v) (of_nat (size_value v)) = vu_cpbSize (rounded v)"
    by (simp add: rounded_def size_value_def flip: unat_drop)
  have v: "of_nat (rate_value v - 1) + 1 = (of_nat (rate_value v) :: 32 word)"
    "of_nat (size_value v - 1) + 1 = (of_nat (size_value v) :: 32 word)"
    using R(3) C(3) by (simp_all add: rate_value_def size_value_def of_nat_diff)
  show ?thesis
    using assms(1) unfolding h264bsdDecodeHrdParameters_def hrd_lengths_def hrd_syntax_def append_Cons append_Nil Let_def
    apply -
    apply (rule elements_ue, assumption, rule skip_if, simp add: MAX_CPB_CNT_def)
    apply (rule elements_u, assumption, simp, simp, rule elements_u, assumption, simp, simp)
    apply (rule one_schedule, assumption, simp, simp add: hrd_ok_def zero_hrd_def assms(5))
    apply (use R(2) C(2) in \<open>simp add: rate_value_def size_value_def\<close>)
    apply (use R(2) C(2) in \<open>simp add: rate_value_def size_value_def\<close>)
    apply (rule elements_u, assumption, simp, simp, rule elements_u, assumption, simp, simp)
    apply (rule elements_u, assumption, simp, simp, rule elements_u, assumption, simp, simp)
    using k by (simp add: got_hrd_def v[unfolded One_nat_def] sc size)
qed

lemma restriction_elements:
  assumes "elements s (B1 1 # restriction_syntax n @ es) r" "0 \<le> n" "n \<le> 16"
    and k: "\<And>s'. elements s' es r \<Longrightarrow> returns Q (k (w\<lparr>vui_bitstream_restriction_flag := 1, vui_motion_vectors_over_pic_boundaries_flag := 1,
          vui_max_bytes_per_pic_denom := 0, vui_max_bits_per_mb_denom := 0,
          vui_log2_max_mv_length_horizontal := word_of_int LOG2_MAX_MV_LENGTH_HOR,
          vui_log2_max_mv_length_vertical := word_of_int LOG2_MAX_MV_LENGTH_VER,
          vui_num_reorder_frames := word_of_int n, vui_max_dec_frame_buffering := word_of_int n\<rparr>) s')"
  shows "returns Q (vui_restriction w ret k s)"
proof -
  show ?thesis using assms(1) unfolding vui_restriction_def Let_def restriction_syntax_def append_Cons append_Nil
    apply -
    apply (rule elements_flag, assumption, rule take_if, simp)
    apply (rule elements_flag, assumption)
    apply (rule elements_ue, assumption)+
    using k assms(2) by (simp add: enc_consts)
qed

lemma got_hrd_fields:
  "vui_nal_hrd_parameters (got_timing v w) = vui_nal_hrd_parameters w" "vui_vcl_hrd_parameters (got_timing v w) = vui_vcl_hrd_parameters w"
  "vui_nal_hrd_parameters (got_video v w) = vui_nal_hrd_parameters w" "vui_vcl_hrd_parameters (got_video v w) = vui_vcl_hrd_parameters w"
  "vui_nal_hrd_parameters (got_aspect v w) = vui_nal_hrd_parameters w" "vui_vcl_hrd_parameters (got_aspect v w) = vui_vcl_hrd_parameters w"
  "vui_nal_hrd_parameters zero_vui = zero_hrd" "vui_vcl_hrd_parameters zero_vui = zero_hrd"
  by (simp_all add: got_timing_def got_video_def default_colours_def got_aspect_def Let_def zero_vui_def)

lemma Vui_elements:
  assumes "elements s (vui_syntax v n @ es) r" "vui_fields_ok v" "0 \<le> n" "n \<le> 16"
    and k: "\<And>s'. elements s' es r \<Longrightarrow> returns Q (ret HANTRO_OK (got_vui v n) s')"
  shows "returns Q (h264bsdDecodeVuiParameters ret s)"
proof -
  note ok = assms(2)[unfolded vui_fields_ok_def]
  have sar: "GetAspectRatioIdc (sint (vu_sarWidth v)) (sint (vu_sarHeight v)) \<noteq> EXTENDED_SAR" using ok by blast
  show ?thesis
  proof (cases "vu_nalHrdParametersPresentFlag v = 1")
    case True
    have b: "2 ^ 7 \<le> vu_bitRate v" "2 ^ 5 \<le> vu_cpbSize v" "vu_cpbSize v < 2 ^ 30" using ok True by auto
    have e: "elements s (aspect_syntax v @ B1 0 # video_syntax v @ B1 0 # timing_syntax v @ B1 1 # hrd_syntax v @ B1 0 # B1 0
        # B1 (vu_frame_field_info_present_flag v) # B1 1 # restriction_syntax n @ es) r"
      using assms(1) True by (simp add: vui_syntax_def del: One_nat_def)
    show ?thesis unfolding h264bsdDecodeVuiParameters_def Let_def
      apply (rule aspect_elements[OF e sar])
      apply (simp only: vui_overscan_def Let_def, rule elements_flag, assumption, rule skip_if, simp)
      apply (rule video_elements, assumption)
      apply (simp only: vui_chroma_loc_def Let_def, rule elements_flag, assumption, rule skip_if, simp)
      apply (rule timing_elements, assumption)
      apply (simp only: vui_nal_hrd_def Let_def, rule elements_flag, assumption, rule take_if, simp)
      apply (rule hrd_elements, assumption, rule b, rule b, rule b, simp add: got_hrd_fields, rule skip_if, simp)
      apply (simp only: vui_vcl_hrd_def Let_def, rule elements_flag, assumption, rule skip_if, simp)
      apply (simp only: vui_low_delay_def, rule take_if, simp, rule elements_flag, assumption)
      apply (rule elements_flag, assumption, rule restriction_elements, assumption, rule assms(3), rule assms(4))
      using k True by (simp add: got_vui_def Let_def got_hrd_fields)
  next
    case False
    then have z: "vu_nalHrdParametersPresentFlag v = 0" using ok by blast
    have e: "elements s (aspect_syntax v @ B1 0 # video_syntax v @ B1 0 # timing_syntax v @ B1 0 # B1 0
        # B1 (vu_frame_field_info_present_flag v) # B1 1 # restriction_syntax n @ es) r"
      using assms(1) z by (simp add: vui_syntax_def del: One_nat_def)
    show ?thesis unfolding h264bsdDecodeVuiParameters_def Let_def
      apply (rule aspect_elements[OF e sar])
      apply (simp only: vui_overscan_def Let_def, rule elements_flag, assumption, rule skip_if, simp)
      apply (rule video_elements, assumption)
      apply (simp only: vui_chroma_loc_def Let_def, rule elements_flag, assumption, rule skip_if, simp)
      apply (rule timing_elements, assumption)
      apply (simp only: vui_nal_hrd_def Let_def, rule elements_flag, assumption, rule skip_if, simp)
      apply (simp only: vui_vcl_hrd_def Let_def, rule elements_flag, assumption, rule skip_if, simp)
      apply (simp only: vui_low_delay_def, rule skip_if, simp)
      apply (rule elements_flag, assumption, rule restriction_elements, assumption, rule assms(3), rule assms(4))
      using k False by (simp add: got_vui_def Let_def got_hrd_fields)
  qed
qed

subsection \<open>Sequence parameter sets\<close>

definition got_profile :: "sps \<Rightarrow> seq_param_set \<Rightarrow> seq_param_set" where
  "got_profile s p = p\<lparr>sps_profile_idc := es_general_profile_idc s,
     sps_constrained_set0_flag := word_of_int (kept s 66 (es_constraintSet0 s)),
     sps_constrained_set1_flag := word_of_int (kept s 77 (es_constraintSet1 s)),
     sps_constrained_set2_flag := word_of_int (kept s 88 (es_constraintSet2 s)),
     sps_constrained_set3_flag := word_of_int (es_constraintSet3 s),
     sps_level_idc := es_general_level_idc s, sps_seq_parameter_set_id := word_of_int (es_id s)\<rparr>"

definition got_high :: "sps \<Rightarrow> seq_param_set \<Rightarrow> seq_param_set" where
  "got_high s p = (if es_general_profile_idc s \<ge> 100
     then (let p = p\<lparr>sps_chroma_format_idc := word_of_int (es_chroma_format_idc s)\<rparr>
           in if es_chroma_format_idc s = 0 then p\<lparr>sps_mono_chrome := 1\<rparr> else p)
         \<lparr>sps_bit_depth_luma := es_bit_depth_luma_minus8 s + 8, sps_bit_depth_chroma := es_bit_depth_chroma_minus8 s + 8,
           sps_scaling_matrix_present_flag := 0\<rparr>
     else p\<lparr>sps_chroma_format_idc := 1, sps_scaling_matrix_present_flag := 0, sps_bit_depth_luma := 8, sps_bit_depth_chroma := 8\<rparr>)"

definition got_counts :: "sps \<Rightarrow> seq_param_set \<Rightarrow> seq_param_set" where
  "got_counts s p = (
     let p = p\<lparr>sps_max_frame_num := 2 ^ (nat (es_log2MaxFrameNumMinus4 s) + 4), sps_pic_order_cnt_type := es_picOrderCntType s\<rparr>;
         p = (if es_picOrderCntType s = 0 then p\<lparr>sps_max_pic_order_cnt_lsb := 2 ^ (nat (es_log2MaxpicOrderCntLsbMinus4 s) + 4)\<rparr> else p)
     in p\<lparr>sps_num_ref_frames := es_numRefFrames s,
          sps_gaps_in_frame_num_value_allowed_flag := word_of_int (es_gapsInFrameNumValueAllowed s)\<rparr>)"

definition got_size :: "sps \<Rightarrow> seq_param_set \<Rightarrow> seq_param_set" where
  "got_size s p = (
     let p = p\<lparr>sps_pic_width_in_mbs := word_of_int (es_picWidthInMbsMinus1 s + 1),
               sps_pic_height_in_mbs := word_of_int (es_picHeightInMapUnitsMinus1 s + 1),
               sps_frame_mbs_only_flag := word_of_int (es_frameMbsOnly s)\<rparr>;
         p = (if es_frameMbsOnly s = 0 then p\<lparr>sps_mb_adaptive_frame_field_flag := 0,
                sps_pic_height_in_mbs := word_of_int (es_picHeightInMapUnitsMinus1 s + 1) * 2\<rparr> else p)
     in p\<lparr>sps_direct8x8_inference_flag := word_of_int (es_direct8x8Inference s)\<rparr>)"

definition got_crop :: "sps \<Rightarrow> seq_param_set \<Rightarrow> seq_param_set" where
  "got_crop s p = (if es_frameCropping s = 0 then p\<lparr>sps_frame_cropping_flag := 0\<rparr>
     else p\<lparr>sps_frame_cropping_flag := 1, sps_frame_crop_left_offset := es_frameCropLeftOffset s,
            sps_frame_crop_right_offset := es_frameCropRightOffset s, sps_frame_crop_top_offset := es_frameCropTopOffset s,
            sps_frame_crop_bottom_offset := es_frameCropBottomOffset s\<rparr>)"

definition got_format :: "sps \<Rightarrow> seq_param_set" where
  "got_format s = got_crop s (got_size s (got_counts s (got_high s (got_profile s zero_sps))))"

lemma word_nat_sint: "w < 2 ^ 31 \<Longrightarrow> (of_nat (nat (sint w)) :: 32 word) = w"
  by (simp add: sint_pos)

lemma unat_small_int: "0 \<le> x \<Longrightarrow> x < 2 ^ 31 \<Longrightarrow> unat (word_of_int x :: 32 word) = nat x"
  using of_nat_small[of "nat x"] by simp

lemma exponent_word: "0 \<le> x \<Longrightarrow> x \<le> 12 \<Longrightarrow> 2 ^ unat (word_of_int x + 4 :: 32 word) = (2 :: 32 word) ^ (nat x + 4)"
proof -
  assume x: "0 \<le> x" "x \<le> 12"
  have "unat (word_of_int (x + 4) :: 32 word) = nat (x + 4)" using x by (intro unat_small_int) auto
  then show ?thesis using x by (simp add: nat_add_distrib)
qed

lemma not_above_12: "0 \<le> x \<Longrightarrow> x \<le> 12 \<Longrightarrow> \<not> (of_nat (nat x) :: 32 word) > 12"
  by (simp add: word_less_nat_alt unat_small_int)

lemma profile_elements:
  assumes "elements t (U (es_general_profile_idc s) 8 # B1 (word_of_int (kept s 66 (es_constraintSet0 s)))
       # B1 (word_of_int (kept s 77 (es_constraintSet1 s))) # B1 (word_of_int (kept s 88 (es_constraintSet2 s)))
       # B1 (word_of_int (es_constraintSet3 s)) # U 0 4 # U (es_general_level_idc s) 8 # UE (nat (es_id s)) # es) r"
    and "0 \<le> es_id s" "es_id s < 32" and k: "\<And>t. elements t es r \<Longrightarrow> returns Q (k (got_profile s p) t)"
  shows "returns Q (sps_profile p k t)"
proof -
  have id: "\<not> of_nat (nat (es_id s)) \<ge> MAX_NUM_SEQ_PARAM_SETS"
    using assms(2,3) by (simp add: MAX_NUM_SEQ_PARAM_SETS_def word_le_nat_alt unat_small_int)
  show ?thesis unfolding sps_profile_def Let_def
    apply (rule elements_u[OF assms(1)], simp, simp)
    apply (rule elements_any, assumption, simp, simp, rule elements_any, assumption, simp, simp, rule elements_any, assumption, simp, simp)
    apply (rule elements_u, assumption, simp, simp, rule elements_u, assumption, simp, simp, rule elements_u, assumption, simp, simp)
    apply (rule elements_ue, assumption, rule skip_if, rule id)
    using k assms(2) by (simp add: got_profile_def)
qed

lemma high_elements:
  assumes "elements t (high_syntax s @ es) r" "sps_profile_idc p = es_general_profile_idc s"
    and "0 \<le> es_chroma_format_idc s" "es_chroma_format_idc s \<le> 1" "es_bit_depth_luma_minus8 s \<le> 6" "es_bit_depth_chroma_minus8 s \<le> 6"
    and k: "\<And>t. elements t es r \<Longrightarrow> returns Q (k (got_high s p) t)"
  shows "returns Q (sps_high delta p k t)"
proof (cases "es_general_profile_idc s \<ge> 100")
  case True
  then have e: "elements t (UE (nat (es_chroma_format_idc s)) # UE (nat (sint (es_bit_depth_luma_minus8 s)))
      # UE (nat (sint (es_bit_depth_chroma_minus8 s))) # B1 0 # B1 0 # es) r"
    using assms(1) by (simp add: high_syntax_def del: One_nat_def)
  have w: "of_nat (nat (sint (es_bit_depth_luma_minus8 s))) = es_bit_depth_luma_minus8 s"
    "of_nat (nat (sint (es_bit_depth_chroma_minus8 s))) = es_bit_depth_chroma_minus8 s"
    by (rule word_nat_sint, rule le_less_trans, rule assms(5) assms(6), simp)+
  have c: "(word_of_int (es_chroma_format_idc s) = (0 :: 32 word)) = (es_chroma_format_idc s = 0)"
  proof -
    have "es_chroma_format_idc s = 0 \<or> es_chroma_format_idc s = 1" using assms(3,4) by auto
    then show ?thesis by auto
  qed
  show ?thesis unfolding sps_high_def sps_chroma_format_def Let_def
    apply (rule take_if, use True assms(2) in simp)
    apply (rule elements_ue[OF e], rule skip_if, simp add: HANTRO_OK_def)
    apply (rule elements_ue, assumption, rule elements_ue, assumption)
    apply (rule elements_u, assumption, simp, simp, rule elements_u, assumption, simp, simp, rule skip_if, simp)
    using k True assms(3) by (cases "es_chroma_format_idc s = 0") (simp_all add: got_high_def w c Let_def)
next
  case False
  then have e: "elements t es r" using assms(1) by (simp add: high_syntax_def)
  show ?thesis unfolding sps_high_def by (rule skip_if, use False assms(2) in simp) (use k[OF e] False in \<open>simp add: got_high_def\<close>)
qed

lemma counts_elements:
  assumes "elements t (UE (nat (es_log2MaxFrameNumMinus4 s)) # UE (nat (sint (es_picOrderCntType s)))
     # (if es_picOrderCntType s = 0 then [UE (nat (es_log2MaxpicOrderCntLsbMinus4 s))] else [])
     @ UE (nat (sint (es_numRefFrames s))) # B1 (word_of_int (es_gapsInFrameNumValueAllowed s)) # es) r"
    and "0 \<le> es_log2MaxFrameNumMinus4 s" "es_log2MaxFrameNumMinus4 s \<le> 12" "es_picOrderCntType s \<in> {0, 2}"
    "0 \<le> es_log2MaxpicOrderCntLsbMinus4 s" "es_log2MaxpicOrderCntLsbMinus4 s \<le> 12" "es_numRefFrames s \<le> 16"
    and k: "\<And>t. elements t es r \<Longrightarrow> returns Q (k (got_counts s p) t)"
  shows "returns Q (sps_frame_num p (\<lambda>p. sps_poc alloc p (\<lambda>p. sps_refs False p k)) t)"
proof -
  have n: "of_nat (nat (sint (es_numRefFrames s))) = es_numRefFrames s"
    by (rule word_nat_sint, rule le_less_trans, rule assms(7), simp)
  have refs: "\<not> (unat (es_numRefFrames s) > MAX_NUM_REF_PICS \<or> False \<and> es_numRefFrames s > 15)"
    using assms(7) by (simp add: MAX_NUM_REF_PICS_def word_le_nat_alt)
  note x = exponent_word[OF assms(2,3)] exponent_word[OF assms(5,6)]
  show ?thesis
  proof (cases "es_picOrderCntType s = 0")
    case True
    then have e: "elements t (UE (nat (es_log2MaxFrameNumMinus4 s)) # UE 0 # UE (nat (es_log2MaxpicOrderCntLsbMinus4 s))
     # UE (nat (sint (es_numRefFrames s))) # B1 (word_of_int (es_gapsInFrameNumValueAllowed s)) # es) r"
      using assms(1) by (simp del: One_nat_def)
    show ?thesis unfolding sps_frame_num_def sps_poc_def sps_refs_def Let_def
      apply (rule elements_ue[OF e], rule skip_if, rule not_above_12[OF assms(2,3)])
      apply (rule elements_ue, assumption, rule skip_if, simp, rule take_if, simp)
      apply (rule elements_ue, assumption, rule skip_if, rule not_above_12[OF assms(5,6)])
      apply (rule elements_ue, assumption, unfold n, rule skip_if, rule refs)
      apply (rule elements_flag, assumption)
      using k True x assms(2,5) by (simp add: got_counts_def Let_def)
  next
    case False
    then have two: "es_picOrderCntType s = 2" using assms(4) by blast
    then have e: "elements t (UE (nat (es_log2MaxFrameNumMinus4 s)) # UE 2
     # UE (nat (sint (es_numRefFrames s))) # B1 (word_of_int (es_gapsInFrameNumValueAllowed s)) # es) r"
      using assms(1) by (simp del: One_nat_def)
    show ?thesis unfolding sps_frame_num_def sps_poc_def sps_refs_def Let_def
      apply (rule elements_ue[OF e], rule skip_if, rule not_above_12[OF assms(2,3)])
      apply (rule elements_ue, assumption, rule skip_if, simp, rule skip_if, simp, rule skip_if, simp)
      apply (rule elements_ue, assumption, unfold n, rule skip_if, rule refs)
      apply (rule elements_flag, assumption)
      using k two x assms(2) by (simp add: got_counts_def Let_def)
  qed
qed

lemma size_elements:
  assumes "elements t (UE (nat (es_picWidthInMbsMinus1 s)) # UE (nat (es_picHeightInMapUnitsMinus1 s))
     # B1 (word_of_int (es_frameMbsOnly s)) # (if es_frameMbsOnly s = 0 then [B1 0] else [])
     @ B1 (word_of_int (es_direct8x8Inference s)) # es) r"
    and "0 \<le> es_picWidthInMbsMinus1 s" "0 \<le> es_picHeightInMapUnitsMinus1 s" "es_frameMbsOnly s \<in> {0, 1}"
    and k: "\<And>t. elements t es r \<Longrightarrow> returns Q (k (got_size s p) t)"
  shows "returns Q (sps_size p k t)"
proof (cases "es_frameMbsOnly s = 0")
  case True
  then have e: "elements t (UE (nat (es_picWidthInMbsMinus1 s)) # UE (nat (es_picHeightInMapUnitsMinus1 s))
     # B1 0 # B1 0 # B1 (word_of_int (es_direct8x8Inference s)) # es) r"
    using assms(1) by (simp del: One_nat_def)
  show ?thesis unfolding sps_size_def Let_def
    apply (rule elements_ue[OF e], rule elements_ue, assumption, rule elements_u, assumption, simp, simp, rule take_if, simp)
    apply (rule elements_any, assumption, simp, simp, rule elements_u, assumption, simp, simp)
    using k True assms(2,3) by (simp add: got_size_def Let_def)
next
  case False
  then have one: "es_frameMbsOnly s = 1" using assms(4) by blast
  then have e: "elements t (UE (nat (es_picWidthInMbsMinus1 s)) # UE (nat (es_picHeightInMapUnitsMinus1 s))
     # B1 1 # B1 (word_of_int (es_direct8x8Inference s)) # es) r"
    using assms(1) by (simp del: One_nat_def)
  show ?thesis unfolding sps_size_def Let_def
    apply (rule elements_ue[OF e], rule elements_ue, assumption, rule elements_u, assumption, simp, simp, rule skip_if, simp)
    apply (rule elements_u, assumption, simp, simp)
    using k one assms(2,3) by (simp add: got_size_def Let_def)
qed

text \<open>The picture is not cropped away: crop units of two samples, as both sides have them.\<close>

definition crop_fits :: "sps \<Rightarrow> bool" where
  "crop_fits s = (es_frameCropping s = 0 \<or>
     uint (es_frameCropLeftOffset s) + uint (es_frameCropRightOffset s) < 8 * (es_picWidthInMbsMinus1 s + 1)
     \<and> uint (es_frameCropTopOffset s) + uint (es_frameCropBottomOffset s)
       < 8 * ((es_picHeightInMapUnitsMinus1 s + 1) * (if es_frameMbsOnly s = 0 then 2 else 1)))"

lemma crop_fits_exceeds:
  assumes "low < 2 ^ 15" "high < 2 ^ 15" "sint mbs = m" "0 < m" "m \<le> 8192" "uint low + uint high < 8 * m"
  shows "crop_exceeds low mbs high = Some False"
proof -
  have "low < 2 ^ 31" "high < 2 ^ 31" by (rule less_trans[OF assms(1)], simp, rule less_trans[OF assms(2)], simp)
  then have s: "sint low = uint low" "sint high = uint high" by (simp_all add: sint_pos)
  have "uint high < 32768" "0 \<le> uint high" using assms(2) by (simp_all add: word_less_def)
  then have r: "- 2147483648 \<le> uint high + 1" "uint high + 1 < 2147483648" "- 2147483648 \<le> 8 * m - (uint high + 1)"
    "8 * m - (uint high + 1) < 2147483648" "- 2147483648 \<le> 8 * m" "8 * m < 2147483648"
    using assms(4,5) by linarith+
  have c: "chk (8 * m) = Some (8 * m)" "chk (uint high + 1) = Some (uint high + 1)"
    "chk (8 * m - (uint high + 1)) = Some (8 * m - (uint high + 1))"
    unfolding chk_Some using r by simp_all
  show ?thesis unfolding crop_exceeds_def assms(3) s c bind.bind_lunit using assms(6) by simp
qed

lemma sint_small_int: "0 \<le> x \<Longrightarrow> x < 2 ^ 31 \<Longrightarrow> sint (word_of_int x :: 32 word) = x"
  by (simp add: sint_sbintrunc' signed_take_bit_int_eq_self)

lemma crop_elements:
  assumes "elements t (crop_syntax s @ es) r" "sps_fields_ok s" "crop_fits s" "p = got_size s q"
    and k: "\<And>t. elements t es r \<Longrightarrow> returns Q (k (got_crop s p) t)"
  shows "returns Q (sps_cropping ub p k t)"
proof -
  note ok = assms(2)[unfolded sps_fields_ok_def]
  have flag: "es_frameCropping s = 0 \<or> es_frameCropping s = 1" using ok by blast
  show ?thesis
  proof (cases "es_frameCropping s = 0")
    case True
    then have e: "elements t (B1 0 # es) r" using assms(1) by (simp add: crop_syntax_def del: One_nat_def)
    show ?thesis unfolding sps_cropping_def Let_def
      by (rule elements_flag[OF e], rule skip_if, simp) (use k True in \<open>simp add: got_crop_def\<close>)
  next
    case False
    then have one: "es_frameCropping s = 1" using flag by blast
    then have e: "elements t (B1 1 # UE (nat (sint (es_frameCropLeftOffset s))) # UE (nat (sint (es_frameCropRightOffset s)))
        # UE (nat (sint (es_frameCropTopOffset s))) # UE (nat (sint (es_frameCropBottomOffset s))) # es) r"
      using assms(1) by (simp add: crop_syntax_def del: One_nat_def)
    have lt: "es_frameCropLeftOffset s < 2 ^ 15" "es_frameCropRightOffset s < 2 ^ 15"
      "es_frameCropTopOffset s < 2 ^ 15" "es_frameCropBottomOffset s < 2 ^ 15" using ok by blast+
    have w: "of_nat (nat (sint (es_frameCropLeftOffset s))) = es_frameCropLeftOffset s"
      "of_nat (nat (sint (es_frameCropRightOffset s))) = es_frameCropRightOffset s"
      "of_nat (nat (sint (es_frameCropTopOffset s))) = es_frameCropTopOffset s"
      "of_nat (nat (sint (es_frameCropBottomOffset s))) = es_frameCropBottomOffset s"
      by (rule word_nat_sint, rule less_trans, rule lt, simp)+
    define h where "h = (es_picHeightInMapUnitsMinus1 s + 1) * (if es_frameMbsOnly s = 0 then 2 else 1)"
    have h: "0 < h" "h \<le> 8192" using ok by (auto simp: h_def)
    have b: "0 \<le> es_picWidthInMbsMinus1 s" "es_picWidthInMbsMinus1 s < 4096" using ok by blast+
    have pw: "sint (sps_pic_width_in_mbs p) = es_picWidthInMbsMinus1 s + 1"
      using b sint_small_int[of "es_picWidthInMbsMinus1 s + 1"] by (simp add: assms(4) got_size_def Let_def)
    have "sps_pic_height_in_mbs p = word_of_int h" by (simp add: assms(4) got_size_def Let_def h_def)
    then have ph: "sint (sps_pic_height_in_mbs p) = h" using sint_small_int[of h] h by simp
    have fit: "uint (es_frameCropLeftOffset s) + uint (es_frameCropRightOffset s) < 8 * (es_picWidthInMbsMinus1 s + 1)"
      "uint (es_frameCropTopOffset s) + uint (es_frameCropBottomOffset s) < 8 * h"
      using assms(3) False unfolding crop_fits_def h_def by blast+
    have "crop_exceeds (es_frameCropLeftOffset s) (sps_pic_width_in_mbs p) (es_frameCropRightOffset s) = Some False"
      using b by (intro crop_fits_exceeds[OF lt(1,2) pw _ _ fit(1)]) auto
    moreover have "crop_exceeds (es_frameCropTopOffset s) (sps_pic_height_in_mbs p) (es_frameCropBottomOffset s) = Some False"
      using h by (intro crop_fits_exceeds[OF lt(3,4) ph _ _ fit(2)])
    ultimately have valid: "\<not> crop_invalid ub (p\<lparr>sps_frame_cropping_flag := f, sps_frame_crop_left_offset := es_frameCropLeftOffset s,
            sps_frame_crop_right_offset := es_frameCropRightOffset s, sps_frame_crop_top_offset := es_frameCropTopOffset s,
            sps_frame_crop_bottom_offset := es_frameCropBottomOffset s\<rparr>)" for f
      by (simp add: crop_invalid_def Let_def)
    show ?thesis unfolding sps_cropping_def Let_def
      apply (rule elements_flag[OF e], rule take_if, simp)
      apply (rule elements_ue, assumption, rule elements_ue, assumption, rule elements_ue, assumption, rule elements_ue, assumption)
      apply (unfold w, rule skip_if, rule valid)
      using k one by (simp add: got_crop_def)
  qed
qed

subsection \<open>The whole parameter set\<close>

text \<open>The picture buffer that the decoder takes from the level and the size\<close>

definition level_dpb :: "sps \<Rightarrow> seq_param_set \<times> bool" where
  "level_dpb s = sps_dpb (got_format s)"

definition decoded_sps :: "sps \<Rightarrow> seq_param_set" where
  "decoded_sps s = (
     let p = fst (level_dpb s); n = es_max_dec_pic_buffering0 s
     in if es_vui_parameters_present_flag s = 1
        then p\<lparr>sps_vui_parameters_present_flag := 1,
               sps_vui_parameters := Some ((got_vui (es_vui s) n)\<lparr>vui_update_hrdparameter_flag := 1, vui_error_hrdparameter_flag := 0\<rparr>),
               sps_max_dpb_size := max 1 (word_of_int n)\<rparr>
        else p\<lparr>sps_vui_parameters_present_flag := 0\<rparr>)"

text \<open>Behind the header of the NAL unit\<close>

definition format_syntax :: "sps \<Rightarrow> syntax_element list" where
  "format_syntax s = U (es_general_profile_idc s) 8
     # B1 (word_of_int (kept s 66 (es_constraintSet0 s))) # B1 (word_of_int (kept s 77 (es_constraintSet1 s)))
     # B1 (word_of_int (kept s 88 (es_constraintSet2 s))) # B1 (word_of_int (es_constraintSet3 s)) # U 0 4
     # U (es_general_level_idc s) 8 # UE (nat (es_id s)) # high_syntax s @ frame_syntax s @ crop_syntax s"

definition payload :: "sps \<Rightarrow> syntax_element list" where
  "payload s = format_syntax s @ B1 (word_of_int (es_vui_parameters_present_flag s))
     # (if es_vui_parameters_present_flag s = ENCHW_YES then vui_syntax (es_vui s) (es_max_dec_pic_buffering0 s) else [])"

text \<open>The stages up to the video usability information\<close>

lemma format_elements:
  assumes "elements t (format_syntax s @ es) r" "sps_fields_ok s" "crop_fits s"
    and k: "\<And>t. elements t es r \<Longrightarrow> returns Q (sps_vui alloc junk (got_format s)
       (\<lambda>p. sps_mvc False p (\<lambda>p s. do { (tmp, s) \<leftarrow> h264bsdRbspTrailingBits s; Some (Inr (p, s)) })) t)"
  shows "returns Q (h264bsdDecodeSeqParamSet alloc delta junk ub False t)"
proof -
  note ok = assms(2)[unfolded sps_fields_ok_def]
  have prof: "sps_profile_idc (got_profile s zero_sps) = es_general_profile_idc s" by (simp add: got_profile_def)
  show ?thesis unfolding h264bsdDecodeSeqParamSet_def
    apply (rule profile_elements[OF assms(1)[unfolded format_syntax_def append_Cons append_assoc]])
    subgoal using ok by blast
    subgoal using ok by blast
    apply (rule high_elements, assumption, rule prof)
    subgoal using ok by blast
    subgoal using ok by blast
    subgoal using ok by blast
    subgoal using ok by blast
    apply (simp only: frame_syntax_def append_Cons append_assoc append_Nil)
    apply (rule counts_elements, assumption)
    subgoal using ok by blast
    subgoal using ok by blast
    subgoal using ok by blast
    subgoal using ok by blast
    subgoal using ok by blast
    subgoal using ok by blast
    apply (rule size_elements, assumption)
    subgoal using ok by blast
    subgoal using ok by blast
    subgoal using ok by blast
    apply (rule crop_elements[OF _ assms(2,3) refl], assumption)
    apply (fold got_format_def)
    by (rule k)
qed

lemma end_elements:
  assumes "elements t [] (True # replicate j False)" "j < 8" "\<And>t. Q (Inr (p, t))"
  shows "returns Q (sps_mvc False p (\<lambda>p s. do { (tmp, s) \<leftarrow> h264bsdRbspTrailingBits s; Some (Inr (p, s)) }) t)"
  using reads_end[of t j Q p] assms by (simp add: sps_mvc_def elements_Nil)

lemma level_dpb_refs: "level_dpb s = (p, invalid) \<Longrightarrow> sps_num_ref_frames p = es_numRefFrames s"
  by (auto simp: level_dpb_def sps_dpb_def Let_def got_format_def got_crop_def got_size_def got_counts_def split: if_splits)

text \<open>The buffering that the VUI asks for is within what the level allows and holds the reference frames.\<close>

definition dpb_fits :: "sps \<Rightarrow> bool" where
  "dpb_fits s = (es_vui_parameters_present_flag s = 0 \<or>
     uint (es_numRefFrames s) \<le> es_max_dec_pic_buffering0 s
     \<and> es_max_dec_pic_buffering0 s \<le> uint (sps_max_dpb_size (fst (level_dpb s))))"

text \<open>It is more, and the level is known.\<close>

definition dpb_exceeds :: "sps \<Rightarrow> bool" where
  "dpb_exceeds s = (es_vui_parameters_present_flag s = 1 \<and> \<not> snd (level_dpb s)
     \<and> es_max_dec_pic_buffering0 s > uint (sps_max_dpb_size (fst (level_dpb s))))"

lemma got_vui_dpb: "vui_num_reorder_frames (got_vui v n) = word_of_int n" "vui_max_dec_frame_buffering (got_vui v n) = word_of_int n"
    "vui_bitstream_restriction_flag (got_vui v n) = 1"
  by (simp_all add: got_vui_def Let_def)

lemma uint_small_int: "0 \<le> x \<Longrightarrow> x < 2 ^ 31 \<Longrightarrow> uint (word_of_int x :: 32 word) = x"
  by (simp add: uint_word_of_int)

lemma vui_checks:
  assumes "sps_num_ref_frames p = r" "0 \<le> n" "n \<le> 16"
    "vui_num_reorder_frames v = word_of_int n" "vui_max_dec_frame_buffering v = word_of_int n"
  shows "uint r \<le> n \<Longrightarrow> n \<le> uint (sps_max_dpb_size p) \<Longrightarrow> vui_dpb_check i p v = Some p"
    and "n > uint (sps_max_dpb_size p) \<Longrightarrow>
      vui_dpb_check i p v = (if i then Some (p\<lparr>sps_max_dpb_size := word_of_int n\<rparr>) else None)"
    and "uint r \<le> n \<Longrightarrow> vui_dpb_size p v = p\<lparr>sps_max_dpb_size := max 1 (word_of_int n)\<rparr>"
proof -
  let ?n = "word_of_int n :: 32 word"
  have n: "uint ?n = n" using assms(2,3) by (simp add: uint_small_int)
  note D = vui_dpb_check_def assms(1,4,5)
  have "?n \<le> 16" using n assms(3) by (simp add: word_le_def)
  then have m: "max 1 ?n \<le> 16" by simp
  show "vui_dpb_check i p v = Some p" if "uint r \<le> n" "n \<le> uint (sps_max_dpb_size p)"
  proof -
    have "\<not> ?n < r" "\<not> sps_max_dpb_size p < ?n" using that n by (simp_all add: word_less_def)
    then show ?thesis by (simp add: D)
  qed
  show "vui_dpb_check i p v = (if i then Some (p\<lparr>sps_max_dpb_size := word_of_int n\<rparr>) else None)" if "n > uint (sps_max_dpb_size p)"
  proof -
    have "sps_max_dpb_size p < ?n" using that n by (simp add: word_less_def)
    then show ?thesis using \<open>?n \<le> 16\<close> by (simp add: D)
  qed
  show "vui_dpb_size p v = p\<lparr>sps_max_dpb_size := max 1 (word_of_int n)\<rparr>" if "uint r \<le> n"
  proof -
    have "r \<le> ?n" using that n by (simp add: word_le_def)
    then have "\<not> r > max 1 ?n" by (simp add: not_less le_max_iff_disj)
    then show ?thesis using m unfolding vui_dpb_size_def Let_def assms(1,5) by (simp only: if_False if_True)
  qed
qed

text \<open>The VUI parameters as the decoder stores them, and the parameter set with them\<close>

definition stored_vui :: "sps \<Rightarrow> vui_parameters" where
  "stored_vui s = (got_vui (es_vui s) (es_max_dec_pic_buffering0 s))\<lparr>vui_update_hrdparameter_flag := 1, vui_error_hrdparameter_flag := 0\<rparr>"

definition with_vui :: "sps \<Rightarrow> seq_param_set \<Rightarrow> seq_param_set" where
  "with_vui s p = p\<lparr>sps_vui_parameters_present_flag := 1, sps_vui_parameters := Some (stored_vui s)\<rparr>"

lemma stored_vui_dpb: "vui_num_reorder_frames (stored_vui s) = word_of_int (es_max_dec_pic_buffering0 s)"
    "vui_max_dec_frame_buffering (stored_vui s) = word_of_int (es_max_dec_pic_buffering0 s)"
    "vui_bitstream_restriction_flag (stored_vui s) = 1"
  by (simp_all add: stored_vui_def got_vui_dpb)

lemma present_elements:
  assumes "elements t (B1 1 # vui_syntax (es_vui s) (es_max_dec_pic_buffering0 s)) r" "sps_fields_ok s" "alloc 1"
    and dpb: "level_dpb s = (p, invalid)"
    and k: "\<And>t. elements t [] r \<Longrightarrow> returns Q ((case vui_dpb_check (invalid \<or> junk) (with_vui s p) (stored_vui s) of
      None \<Rightarrow> failed HANTRO_NOK | Some q \<Rightarrow> k (vui_dpb_size q (stored_vui s))) t)"
  shows "returns Q (sps_vui alloc junk (got_format s) k t)"
proof -
  note ok = assms(2)[unfolded sps_fields_ok_def]
  have e: "elements t (B1 1 # vui_syntax (es_vui s) (es_max_dec_pic_buffering0 s) @ []) r" using assms(1) by simp
  have al: "\<not> \<not> alloc 1" using assms(3) by simp
  have st: "HANTRO_OK \<noteq> END_OF_STREAM" by (simp add: status_defs)
  show ?thesis unfolding sps_vui_def dpb[unfolded level_dpb_def] prod.case
    apply (rule elements_flag[OF e], rule returns_let, rule take_if, simp, rule skip_if, rule al)
    apply (rule Vui_elements, assumption)
    subgoal using ok by blast
    subgoal using ok by blast
    subgoal using ok by blast
    using k by (simp add: st stored_vui_def[symmetric] with_vui_def Let_def stored_vui_dpb)
qed

lemma SeqParamSet_elements:
  assumes "elements t (payload s) (True # replicate j False)" "j < 8" "sps_fields_ok s" "crop_fits s" "alloc 1"
  shows "dpb_fits s \<Longrightarrow> returns (\<lambda>r. \<exists>t. r = Inr (decoded_sps s, t)) (h264bsdDecodeSeqParamSet alloc delta junk ub False t)"
    and "dpb_exceeds s \<Longrightarrow> returns (\<lambda>r. if junk then \<exists>t. r = Inr (decoded_sps s, t) else r = Inl HANTRO_NOK)
      (h264bsdDecodeSeqParamSet alloc delta junk ub False t)"
proof -
  note ok = assms(3)[unfolded sps_fields_ok_def]
  let ?n = "es_max_dec_pic_buffering0 s" and ?v = "stored_vui s"
  obtain p invalid where dpb: "level_dpb s = (p, invalid)" by (cases "level_dpb s")
  have n: "0 \<le> ?n" "?n \<le> 16" and flag: "es_vui_parameters_present_flag s = 0 \<or> es_vui_parameters_present_flag s = 1"
    using ok by blast+
  let ?p = "with_vui s p"
  have P: "sps_num_ref_frames ?p = es_numRefFrames s" "sps_max_dpb_size ?p = sps_max_dpb_size p"
    using level_dpb_refs[OF dpb] by (simp_all add: with_vui_def)
  note check = vui_checks[of ?p "es_numRefFrames s" ?n ?v, OF P(1) n stored_vui_dpb(1,2), unfolded P(2)]
  { assume a: "dpb_fits s"
    show "returns (\<lambda>r. \<exists>t. r = Inr (decoded_sps s, t)) (h264bsdDecodeSeqParamSet alloc delta junk ub False t)"
    proof (rule format_elements[OF assms(1)[unfolded payload_def] assms(3,4)], goal_cases)
      case (1 t)
      show ?case
      proof (cases "es_vui_parameters_present_flag s = 0")
        case True
        then have e: "elements t [B1 0] (True # replicate j False)" using 1 by (simp add: enc_consts del: One_nat_def)
        show ?thesis unfolding sps_vui_def dpb[unfolded level_dpb_def] prod.case Let_def
          apply (rule elements_flag[OF e], rule skip_if, simp, rule end_elements, assumption, rule assms(2))
          by (simp add: decoded_sps_def dpb True Let_def)
      next
        case False
        then have one: "es_vui_parameters_present_flag s = 1" using flag by blast
        then have e: "elements t (B1 1 # vui_syntax (es_vui s) ?n) (True # replicate j False)"
          using 1 by (simp add: enc_consts del: One_nat_def)
        have fit: "uint (es_numRefFrames s) \<le> ?n" "?n \<le> uint (sps_max_dpb_size p)"
          using a one dpb by (simp_all add: dpb_fits_def)
        have "?p\<lparr>sps_max_dpb_size := max 1 (word_of_int ?n)\<rparr> = decoded_sps s"
          by (simp add: decoded_sps_def dpb one with_vui_def stored_vui_def Let_def)
        then show ?thesis
          by (intro present_elements[where alloc = alloc, OF e assms(3,5) dpb])
            (use check(1,3)[OF fit(1)] fit(2) end_elements[OF _ assms(2)] in simp)
      qed
    qed }
  { assume a: "dpb_exceeds s"
    then have one: "es_vui_parameters_present_flag s = 1" and big: "?n > uint (sps_max_dpb_size p)" and known: "\<not> invalid"
      using dpb by (simp_all add: dpb_exceeds_def)
    have "uint (es_numRefFrames s) \<le> uint (sps_max_dpb_size p)"
      using dpb known level_dpb_refs[OF dpb]
      by (auto simp: level_dpb_def sps_dpb_def Let_def not_less word_le_def split: if_splits)
    then have refs: "uint (es_numRefFrames s) \<le> ?n" using big by simp
    show "returns (\<lambda>r. if junk then \<exists>t. r = Inr (decoded_sps s, t) else r = Inl HANTRO_NOK)
      (h264bsdDecodeSeqParamSet alloc delta junk ub False t)"
    proof (rule format_elements[OF assms(1)[unfolded payload_def] assms(3,4)], goal_cases)
      case (1 t)
      then have e: "elements t (B1 1 # vui_syntax (es_vui s) ?n) (True # replicate j False)"
        using one by (simp add: enc_consts del: One_nat_def)
      have "vui_dpb_size (?p\<lparr>sps_max_dpb_size := word_of_int ?n\<rparr>) ?v = decoded_sps s"
        using vui_checks(3)[of "?p\<lparr>sps_max_dpb_size := word_of_int ?n\<rparr>" "es_numRefFrames s" ?n ?v, OF _ n stored_vui_dpb(1,2) refs] P(1)
        by (simp add: decoded_sps_def dpb one with_vui_def stored_vui_def Let_def)
      then show ?case
        by (intro present_elements[where alloc = alloc, OF e assms(3,5) dpb])
          (use check(2)[OF big] known end_elements[OF _ assms(2)] in \<open>cases junk; simp add: failed_def returns_def\<close>)
    qed }
qed

lemma length_sps_syntax: "length (sps_syntax s) < 1000"
proof -
  have "length (aspect_syntax v) \<le> 2" "length (video_syntax v) \<le> 4" "length (timing_syntax v) \<le> 4" "length (hrd_syntax v) = 10"
    "length (restriction_syntax n) = 7" for v n
    by (simp_all add: aspect_syntax_def video_syntax_def timing_syntax_def hrd_syntax_def restriction_syntax_def Let_def)
  note l = this
  have "length (vui_syntax (es_vui s) n) \<le> 50" for n
    using l(1)[of "es_vui s"] l(2)[of "es_vui s"] l(3)[of "es_vui s"] by (simp add: vui_syntax_def l(4,5))
  from this[of "es_max_dec_pic_buffering0 s"] have "length (vui_syntax (es_vui s) (es_max_dec_pic_buffering0 s)) \<le> 50" .
  moreover have "length (high_syntax s) \<le> 5" "length (frame_syntax s) \<le> 12" "length (crop_syntax s) \<le> 5"
    by (simp_all add: high_syntax_def frame_syntax_def crop_syntax_def)
  ultimately show ?thesis 
    by (simp add: sps_syntax_def nal_syntax_def add_le_mono less_eq_Suc_le)
qed

lemma sps_syntax_payload: "sps_syntax s = nal_syntax 1 H264_SPS_NUT @ payload s"
  by (simp add: sps_syntax_def payload_def format_syntax_def)

text \<open>The NAL unit of a parameter set: the header is accepted, and the payload is left.\<close>

lemma sps_nal:
  assumes "sps_fields_ok s" "bits_of B = rbsp_bits (sps_syntax s)"
  shows "\<exists>t j. j < 8 \<and> h264bsdDecodeNalUnit (demo_stream (escape B))
      = Some (HANTRO_OK, zero_nal\<lparr>nal_ref_idc := 1, nal_unit_type := NAL_SEQ_PARAM_SET\<rparr>, t)
    \<and> elements t (payload s) (True # replicate j False)"
proof -
  note es = sps_syntax_ok[OF assms(1)]
  note rd = reading_written[OF assms(2) es length_sps_syntax]
  define L where "L = length (concat (map element_bits (sps_syntax s)))"
  define j where "j = (7 * (L + 1)) mod 8"
  have n: "concat (map element_bits (nal_syntax 1 H264_SPS_NUT)) = nal_bits 1 7" using bits_nal[of 1 7] by (simp add: enc_consts)
  have "rbsp_bits (sps_syntax s) = nal_bits 1 7 @ concat (map element_bits (payload s)) @ True # replicate j False"
    unfolding rbsp_bits_def L_def[symmetric] j_def by (simp add: sps_syntax_payload n)
  moreover have "list_all element_ok (payload s)" using es by (simp add: sps_syntax_payload)
  ultimately have "returns (\<lambda>(st, n, t). st = HANTRO_OK \<and> n = zero_nal\<lparr>nal_ref_idc := 1, nal_unit_type := NAL_SEQ_PARAM_SET\<rparr>
      \<and> elements t (payload s) (True # replicate j False)) (h264bsdDecodeNalUnit (demo_stream (escape B)))"
    using rd by (intro reads_nal[where idc = 1 and ty = 7]) (simp_all add: plain_type_def nal_type_defs elements_def)
  moreover have "j < 8" by (simp add: j_def)
  ultimately show ?thesis by (auto simp: returns_def)
qed

lemma sps_written:
  assumes "sps_fields_ok s" "fresh b (length (sps_syntax s))"
  obtains b' B where "H264SeqParameterSet s b = Some (b', written_sps s)"
    "pb_stream b' = pb_stream b @ start_code (es_streamMode s) @ escape B" "bits_of B = rbsp_bits (sps_syntax s)"
  using closes_start_code[OF SeqParameterSet_closes[OF assms(1)] sps_syntax_ok[OF assms(1)] assms(2)]
  by (auto simp: bind_eq_Some_conv split: if_splits)

lemma demo_fits: "crop_fits demo_sps" "dpb_fits demo_sps"
proof -
  have "level_limits 41 = Some (32768, 8192)" by (simp add: level_limits_def)
  then have "GetDpbSize 8160 41 = 4" by (simp add: GetDpbSize_def)
  then show "dpb_fits demo_sps"
    by (simp add: dpb_fits_def demo_sps_def level_dpb_def sps_dpb_def Let_def got_format_def got_crop_def got_size_def
      got_counts_def got_high_def got_profile_def INVALID_DPB_SIZE_def)
  show "crop_fits demo_sps" by (simp add: crop_fits_def demo_sps_def)
qed

subsection \<open>Properties\<close>

text \<open>
  C2: the encoder's sequence parameter set, read by the decoder: for every structure in the ranges of the
  encoder's configuration whose cropping leaves a picture and whose buffering the level allows,
  H264SeqParameterSet writes into a fresh buffer a NAL unit, behind a start code in the byte stream format,
  whose header h264bsdDecodeNalUnit accepts and whose payload h264bsdDecodeSeqParamSet parses to the fields of
  the structure: profile, level and the constraint flags that are kept, frame numbers and order counts,
  picture size and cropping, video usability information with the rounded HRD rates, and a picture buffer
  of the size asked for. What the uninitialised variables hold does not matter.
\<close>

theorem SeqParameterSet_roundtrip:
  assumes "sps_fields_ok s" "fresh b (length (sps_syntax s))" "crop_fits s" "dpb_fits s" "alloc 1"
  shows "\<exists>b' nal t t'. H264SeqParameterSet s b = Some (b', written_sps s)
    \<and> pb_stream b' = pb_stream b @ start_code (es_streamMode s) @ nal
    \<and> h264bsdDecodeNalUnit (demo_stream nal)
        = Some (HANTRO_OK, zero_nal\<lparr>nal_ref_idc := 1, nal_unit_type := NAL_SEQ_PARAM_SET\<rparr>, t)
    \<and> h264bsdDecodeSeqParamSet alloc delta junk ub False t = Some (Inr (decoded_sps s, t'))"
proof -
  obtain b' B where w: "H264SeqParameterSet s b = Some (b', written_sps s)"
    "pb_stream b' = pb_stream b @ start_code (es_streamMode s) @ escape B" "bits_of B = rbsp_bits (sps_syntax s)"
    using sps_written[OF assms(1,2)] .
  from sps_nal[OF assms(1) w(3)] obtain t j where t: "j < 8"
    "h264bsdDecodeNalUnit (demo_stream (escape B))
      = Some (HANTRO_OK, zero_nal\<lparr>nal_ref_idc := 1, nal_unit_type := NAL_SEQ_PARAM_SET\<rparr>, t)"
    "elements t (payload s) (True # replicate j False)" by blast
  from SeqParamSet_elements(1)[where alloc = alloc and delta = delta and junk = junk and ub = ub, OF t(3,1) assms(1,3,5,4)]
  show ?thesis using w(1,2) t(2) by (auto simp: returns_def)
qed

theorem SeqParameterSet_roundtrip_witness:
  "\<exists>b' nal t t'. H264SeqParameterSet demo_sps big_buffer = Some (b', written_sps demo_sps)
    \<and> pb_stream b' = [0, 0, 0, 1] @ nal
    \<and> h264bsdDecodeNalUnit (demo_stream nal)
        = Some (HANTRO_OK, zero_nal\<lparr>nal_ref_idc := 1, nal_unit_type := NAL_SEQ_PARAM_SET\<rparr>, t)
    \<and> h264bsdDecodeSeqParamSet (\<lambda>_. True) (\<lambda>_. 0) False False False t = Some (Inr (decoded_sps demo_sps, t'))"
  using SeqParameterSet_roundtrip[OF demo_sps_ok demo_sps_fresh demo_fits, of "\<lambda>_. True" "\<lambda>_. 0" False False]
  by (simp add: demo_sps_def big_buffer_def start_code_def enc_consts)

text \<open>
  C39: a stream on which the decoder's answer depends on an uninitialised variable: when the encoder's
  parameter set has a level whose buffer size is found and suffices for num\_ref\_frames, and its VUI asks for more buffering
  (max\_dec\_frame\_buffering) than this size, h264bsdDecodeSeqParamSet
  reads invalid\_dpb\_size without having assigned it: the only assignment is in the branch where the size is not
  found or too small. With a nonzero value on the stack the set is accepted, with zero it is refused with HANTRO\_NOK.
\<close>

theorem SeqParamSet_uninitialised:
  assumes "sps_fields_ok s" "fresh b (length (sps_syntax s))" "crop_fits s" "dpb_exceeds s" "alloc 1"
  shows "\<exists>b' nal t t'. H264SeqParameterSet s b = Some (b', written_sps s)
    \<and> pb_stream b' = pb_stream b @ start_code (es_streamMode s) @ nal
    \<and> h264bsdDecodeNalUnit (demo_stream nal)
        = Some (HANTRO_OK, zero_nal\<lparr>nal_ref_idc := 1, nal_unit_type := NAL_SEQ_PARAM_SET\<rparr>, t)
    \<and> h264bsdDecodeSeqParamSet alloc delta True ub False t = Some (Inr (decoded_sps s, t'))
    \<and> h264bsdDecodeSeqParamSet alloc delta False ub False t = Some (Inl HANTRO_NOK)"
proof -
  obtain b' B where w: "H264SeqParameterSet s b = Some (b', written_sps s)"
    "pb_stream b' = pb_stream b @ start_code (es_streamMode s) @ escape B" "bits_of B = rbsp_bits (sps_syntax s)"
    using sps_written[OF assms(1,2)] .
  from sps_nal[OF assms(1) w(3)] obtain t j where t: "j < 8"
    "h264bsdDecodeNalUnit (demo_stream (escape B))
      = Some (HANTRO_OK, zero_nal\<lparr>nal_ref_idc := 1, nal_unit_type := NAL_SEQ_PARAM_SET\<rparr>, t)"
    "elements t (payload s) (True # replicate j False)" by blast
  note r = SeqParamSet_elements(2)[where alloc = alloc and delta = delta and ub = ub, OF t(3,1) assms(1,3,5,4)]
  show ?thesis using w(1,2) t(2) r[of True] r[of False] by (auto simp: returns_def)
qed

text \<open>Level 4.1 holds four pictures of 1920 x 1088.\<close>

definition greedy_sps :: sps where "greedy_sps = demo_sps\<lparr>es_max_dec_pic_buffering0 := 5\<rparr>"

lemma greedy: "sps_fields_ok greedy_sps" "fresh big_buffer (length (sps_syntax greedy_sps))" "crop_fits greedy_sps" "dpb_exceeds greedy_sps"
proof -
  show "sps_fields_ok greedy_sps" "crop_fits greedy_sps"
    using demo_sps_ok demo_fits by (simp_all add: greedy_sps_def sps_fields_ok_def crop_fits_def)
  have "length (sps_syntax greedy_sps) = length (sps_syntax demo_sps)"
    by (simp add: greedy_sps_def sps_syntax_def high_syntax_def frame_syntax_def crop_syntax_def vui_syntax_def
      restriction_syntax_def kept_def)
  then show "fresh big_buffer (length (sps_syntax greedy_sps))" using demo_sps_fresh by simp
  have "level_limits 41 = Some (32768, 8192)" by (simp add: level_limits_def)
  then have "GetDpbSize 8160 41 = 4" by (simp add: GetDpbSize_def)
  then show "dpb_exceeds greedy_sps"
    by (simp add: dpb_exceeds_def greedy_sps_def demo_sps_def level_dpb_def sps_dpb_def Let_def got_format_def got_crop_def
      got_size_def got_counts_def got_high_def got_profile_def INVALID_DPB_SIZE_def)
qed

theorem SeqParamSet_uninitialised_witness:
  "\<exists>b' nal t t'. H264SeqParameterSet greedy_sps big_buffer = Some (b', written_sps greedy_sps)
    \<and> h264bsdDecodeNalUnit (demo_stream nal)
        = Some (HANTRO_OK, zero_nal\<lparr>nal_ref_idc := 1, nal_unit_type := NAL_SEQ_PARAM_SET\<rparr>, t)
    \<and> h264bsdDecodeSeqParamSet (\<lambda>_. True) (\<lambda>_. 0) True False False t = Some (Inr (decoded_sps greedy_sps, t'))
    \<and> h264bsdDecodeSeqParamSet (\<lambda>_. True) (\<lambda>_. 0) False False False t = Some (Inl HANTRO_NOK)"
  using SeqParamSet_uninitialised[OF greedy, of "\<lambda>_. True" "\<lambda>_. 0" False] by blast

text \<open>
  C30: h264bsdDecodeSeqParamSet is total on every NAL unit without a start code prefix, whatever bits it holds,
  whatever the uninitialised variables hold and whichever allocation fails, with the multiview extension and
  without: it returns, without an access outside an array. What it accepts is well formed: identifiers and
  exponents in range, arrays of the lengths of the C arrays, a picture buffer of 1 to 16 pictures that holds
  the reference frames, at most two views, and VUI parameters just when the flag says so.
\<close>

theorem DecodeSeqParamSet_type:
  assumes "strm_ok s" "no_start_code (sd_bytes s)"
  shows "\<exists>r. h264bsdDecodeSeqParamSet alloc delta junk ub mvc s = Some r
    \<and> (case r of Inl st \<Rightarrow> True | Inr (p, s') \<Rightarrow> sps_wf mvc ub p \<and> strm_ok s')"
proof -
  have "readable s" using assms by (simp add: readable_def)
  from DecodeSeqParamSet_returns[OF this, of mvc ub alloc delta junk] obtain r where
    r: "h264bsdDecodeSeqParamSet alloc delta junk ub mvc s = Some r" "case r of Inl st \<Rightarrow> True | Inr (p, s') \<Rightarrow> sps_wf mvc ub p \<and> readable s'"
    by (auto simp: returns_def)
  then show ?thesis by (cases r) (auto simp: readable_def)
qed

theorem DecodeSeqParamSet_type_witness:
  "\<exists>t t'. h264bsdDecodeSeqParamSet (\<lambda>_. True) (\<lambda>_. 0) False False False t = Some (Inr (decoded_sps demo_sps, t'))
    \<and> sps_wf False False (decoded_sps demo_sps) \<and> strm_ok t'"
proof -
  obtain b' B where w: "bits_of B = rbsp_bits (sps_syntax demo_sps)" using sps_written[OF demo_sps_ok demo_sps_fresh] .
  from sps_nal[OF demo_sps_ok w] obtain t j where t: "j < 8" "elements t (payload demo_sps) (True # replicate j False)" by blast
  then have "strm_ok t" "no_start_code (sd_bytes t)" by (simp_all add: elements_def reading_def readable_def)
  note ty = DecodeSeqParamSet_type[OF this, of "\<lambda>_. True" "\<lambda>_. 0" False False False]
  obtain t' where r: "h264bsdDecodeSeqParamSet (\<lambda>_. True) (\<lambda>_. 0) False False False t = Some (Inr (decoded_sps demo_sps, t'))"
    using SeqParamSet_elements(1)[where alloc = "\<lambda>_. True" and delta = "\<lambda>_. 0" and junk = False and ub = False,
      OF t(2,1) demo_sps_ok demo_fits(1) _ demo_fits(2)] by (auto simp: returns_def)
  then have "sps_wf False False (decoded_sps demo_sps) \<and> strm_ok t'" using ty by simp
  then show ?thesis using r by blast
qed

end
