(* ===== verification/H264SpsSame.thy ===== *)
theory H264SpsSame
  imports H264SpsCompare SpsRoundtrip H264Poc
begin

text \<open>
  What h264bsdCompareSeqParamSets decides: a set that arrives again is recognised, sets that compare equal give
  the same picture order counts, but a change of the sample format is not noticed, and a set whose HRD
  parameters were cut short makes the comparison leave its arrays.
\<close>

subsection \<open>Arrays\<close>

lemma elements_differ_same: "i + n \<le> length xs \<Longrightarrow> elements_differ i n xs xs = Some False"
  by (induction n arbitrary: i) (simp_all add: array_read_def)

lemma elements_differ_beyond: "i \<le> length xs \<Longrightarrow> length xs < i + n \<Longrightarrow> elements_differ i n xs xs = None"
proof (induction n arbitrary: i)
  case (Suc n)
  then show ?case by (cases "i < length xs") (simp_all add: array_read_def)
qed (simp add: array_read_def)

lemma elements_differ_equal:
  "elements_differ i n xs ys = Some False \<Longrightarrow> i \<le> j \<Longrightarrow> j < i + n \<Longrightarrow> j < length xs \<and> j < length ys \<and> xs ! j = ys ! j"
proof (induction n arbitrary: i)
  case (Suc n)
  have i: "i < length xs" "i < length ys" "xs ! i = ys ! i" "elements_differ (Suc i) n xs ys = Some False"
    using Suc.prems(1) by (auto simp: array_read_def bind_eq_Some_conv split: if_splits)
  show ?case
  proof (cases "j = i")
    case False
    then show ?thesis using Suc.prems(2,3) by (intro Suc.IH[OF i(4)]) auto
  qed (use i in simp)
qed simp

lemma array_read_equal: "i < length xs \<Longrightarrow> i < length ys \<Longrightarrow> xs ! i = ys ! i \<Longrightarrow> array_read xs i = array_read ys i"
  by (simp add: array_read_def)

subsection \<open>A set that arrives again\<close>

text \<open>The HRD parameters have no more schedules than there is room for.\<close>

definition hrd_bounded :: "hrd_parameters \<Rightarrow> bool" where
  "hrd_bounded h = (hrd_ok h \<and> unat (hrd_cpb_cnt h) \<le> MAX_CPB_CNT)"

definition vui_bounded :: "seq_param_set \<Rightarrow> bool" where
  "vui_bounded p = (\<forall>v. sps_vui_parameters p = Some v \<longrightarrow>
     hrd_bounded (vui_nal_hrd_parameters v) \<and> hrd_bounded (vui_vcl_hrd_parameters v))"

lemma hrds_differ_same: "hrd_bounded h \<Longrightarrow> hrds_differ h h = Some False"
  by (simp add: hrds_differ_def hrd_bounded_def hrd_ok_def elements_differ_same)

lemma vuis_differ_same: "hrd_bounded (vui_nal_hrd_parameters v) \<Longrightarrow> hrd_bounded (vui_vcl_hrd_parameters v) \<Longrightarrow> vuis_differ v v = Some False"
  by (simp add: vuis_differ_def vui_flags_equal_def hrds_differ_same)

lemma arrays_differ_same: "cycle_ok n offsets \<Longrightarrow> arrays_differ (unat n) offsets offsets = Some False"
  by (cases offsets) (auto simp: arrays_differ_def elements_differ_same)

lemma poc_differs_same: "sps_poc_ok p \<Longrightarrow> poc_differs p p = Some False"
  by (simp add: poc_differs_def sps_poc_ok_def arrays_differ_same)

lemma copy_scaling_same: "copy_scaling p p = p"
  by (simp add: copy_scaling_def)

text \<open>The fields that are not looked at\<close>

definition reformat :: "32 word \<Rightarrow> 32 word \<Rightarrow> 32 word \<Rightarrow> 32 word \<Rightarrow> 32 word \<Rightarrow> seq_param_set \<Rightarrow> seq_param_set" where
  "reformat chroma grey luma depth direct p = p\<lparr>sps_chroma_format_idc := chroma, sps_mono_chrome := grey, sps_bit_depth_luma := luma,
     sps_bit_depth_chroma := depth, sps_direct8x8_inference_flag := direct\<rparr>"

lemma reformat_same: "reformat (sps_chroma_format_idc p) (sps_mono_chrome p) (sps_bit_depth_luma p) (sps_bit_depth_chroma p)
    (sps_direct8x8_inference_flag p) p = p"
  by (simp add: reformat_def)

lemma compare_reformat:
  assumes "sps_wf mvc ub p" "vui_bounded p"
  shows "h264bsdCompareSeqParamSets (reformat c m l d x p) p = Some (False, p)"
proof -
  let ?q = "reformat c m l d x p"
  have poc: "poc_differs ?q p = Some False"
  proof -
    have "poc_differs ?q p = poc_differs p p" by (simp add: poc_differs_def reformat_def)
    then show ?thesis using poc_differs_same[of p] assms(1) by (simp add: sps_wf_def)
  qed
  have "sps_heads_equal ?q p" "\<not> crops_differ ?q p" "\<not> mbaffs_differ ?q p" "copy_scaling ?q p = p"
    by (simp_all add: reformat_def sps_heads_equal_def crops_differ_def mbaffs_differ_def copy_scaling_def)
  moreover have "sps_vui_parameters_present_flag ?q = sps_vui_parameters_present_flag p" "sps_vui_parameters ?q = sps_vui_parameters p"
    by (simp_all add: reformat_def)
  moreover have "vui_present_ok (sps_vui_parameters_present_flag p) (sps_vui_parameters p)" using assms(1) by (simp add: sps_wf_def)
  ultimately show ?thesis using poc assms(2)
    by (cases "sps_vui_parameters p") (auto simp: h264bsdCompareSeqParamSets_def vuis_differ_same vui_bounded_def)
qed

subsection \<open>Equal sets\<close>

lemma arrays_differ_equal:
  assumes "arrays_differ (unat n) a b = Some False" "cycle_ok n a" "cycle_ok n b"
  shows "(case a of None \<Rightarrow> [] | Some xs \<Rightarrow> xs) = (case b of None \<Rightarrow> [] | Some xs \<Rightarrow> xs)"
proof (cases a; cases b)
  fix xs ys assume ab: "a = Some xs" "b = Some ys"
  then have l: "length xs = unat n" "length ys = unat n" using assms(2,3) by simp_all
  show ?thesis
  proof (cases "n = 0")
    case False
    then have "elements_differ 0 (unat n) xs ys = Some False" using assms(1) ab by (simp add: arrays_differ_def unat_eq_0)
    then have "xs = ys" using l elements_differ_equal[of 0 "unat n" xs ys] by (intro nth_equalityI) auto
    then show ?thesis using ab by simp
  qed (use l ab in simp)
qed (use assms in \<open>auto simp: arrays_differ_def\<close>)

lemma poc_differs_counts:
  assumes "poc_differs p q = Some False" "sps_pic_order_cnt_type p = sps_pic_order_cnt_type q"
    "sps_max_frame_num p = sps_max_frame_num q" "sps_poc_ok p" "sps_poc_ok q"
  shows "h264bsdDecodePicOrderCnt poc p h nal = h264bsdDecodePicOrderCnt poc q h nal"
proof -
  have lsb: "poc_type0 poc p h nal = poc_type0 poc q h nal" if "sps_pic_order_cnt_type p = 0" for poc
    using assms(1) that by (simp add: poc_differs_def poc_type0_def poc_msb_def)
  have off: "frame_num_offset poc p h nal = frame_num_offset poc q h nal" for poc
    by (simp add: frame_num_offset_def assms(3))
  have one: "poc_type1 poc p h nal = poc_type1 poc q h nal" if "sps_pic_order_cnt_type p = 1" for poc
  proof -
    let ?n = "sps_num_ref_frames_in_pic_order_cnt_cycle p"
    have f: "sps_offset_for_non_ref_pic p = sps_offset_for_non_ref_pic q" "?n = sps_num_ref_frames_in_pic_order_cnt_cycle q"
      "sps_offset_for_top_to_bottom_field p = sps_offset_for_top_to_bottom_field q"
      "arrays_differ (unat ?n) (sps_offset_for_ref_frame p) (sps_offset_for_ref_frame q) = Some False"
      using assms(1) that by (simp_all add: poc_differs_def split: if_splits)
    have "(case sps_offset_for_ref_frame p of None \<Rightarrow> [] | Some xs \<Rightarrow> xs) = (case sps_offset_for_ref_frame q of None \<Rightarrow> [] | Some xs \<Rightarrow> xs)"
      using assms(4,5) f(2) by (intro arrays_differ_equal[OF f(4)]) (simp_all add: sps_poc_ok_def)
    then have "expected_poc p a = expected_poc q a" for a by (simp only: expected_poc_def f(2))
    then show ?thesis unfolding poc_type1_def off f(1-3) by simp
  qed
  have two: "poc_type2 poc p h nal = poc_type2 poc q h nal" for poc by (simp add: poc_type2_def off)
  show ?thesis using lsb one two assms(2)
    by (cases "sps_pic_order_cnt_type q = 0"; cases "sps_pic_order_cnt_type q = 1"; simp add: h264bsdDecodePicOrderCnt_def)
qed

text \<open>What is known when the result is equal\<close>

lemma compare_equal:
  assumes "h264bsdCompareSeqParamSets p q = Some (False, q')"
  shows "sps_heads_equal p q \<and> poc_differs p q = Some False \<and> \<not> crops_differ p q \<and> \<not> mbaffs_differ p q \<and> q' = copy_scaling p q"
  using assms by (auto simp: h264bsdCompareSeqParamSets_def bind_eq_Some_conv split: if_splits)

subsection \<open>HRD parameters that are cut short\<close>

text \<open>The code number of the schedules is longer than 32 bits: h264bsdDecodeExpGolombUnsigned leaves 2^32 - 1
  and fails, h264bsdDecodeVuiParameters goes on with HANTRO\_OK.\<close>

definition overlong :: bits where
  "overlong = eg_code (2 ^ 32)"

lemma overlong_fails:
  assumes "reading s (overlong @ r)"
  shows "\<exists>s'. h264bsdDecodeExpGolombUnsigned s c = Some (HANTRO_NOK, BIG_CODE_NUM, s') \<and> readable s'"
proof -
  have rd: "readable s" "sd_rest s = eg_code (2 ^ 32) @ r" using assms by (simp_all add: reading_def overlong_def)
  from Unsigned_big[OF rd(1) _ rd(2), of c] obtain s' where
    "h264bsdDecodeExpGolombUnsigned s c = Some (HANTRO_NOK, BIG_CODE_NUM, s')" "advanced s (length (eg_code (2 ^ 32))) s'"
    by auto
  then show ?thesis using rd(1) by (blast intro: readable_advanced)
qed

definition cut_vui :: vui_parameters where
  "cut_vui = (default_colours (zero_vui\<lparr>vui_aspect_ratio_present_flag := 0, vui_overscan_info_present_flag := 0,
       vui_video_signal_type_present_flag := 0, vui_video_format := 5\<rparr>))
     \<lparr>vui_chroma_loc_info_present_flag := 0, vui_timing_info_present_flag := 0, vui_nal_hrd_parameters_present_flag := 1,
      vui_nal_hrd_parameters := zero_hrd\<lparr>hrd_cpb_cnt := BIG_CODE_NUM\<rparr>\<rparr>"

definition cut_syntax :: "syntax_element list" where
  "cut_syntax = [B1 0, B1 0, B1 0, B1 0, B1 0, B1 1]"

lemma cut_elements:
  assumes "elements s cut_syntax (overlong @ r)" "\<And>s'. readable s' \<Longrightarrow> returns Q (ret HANTRO_OK cut_vui s')"
  shows "returns Q (h264bsdDecodeVuiParameters ret s)"
proof -
  have hrd: "returns Q (h264bsdDecodeHrdParameters zero_hrd ret' s)"
    if "elements s [] (overlong @ r)" "\<And>s'. readable s' \<Longrightarrow> returns Q (ret' HANTRO_NOK (zero_hrd\<lparr>hrd_cpb_cnt := BIG_CODE_NUM\<rparr>) s')" for ret' s
    using overlong_fails[of s r "hrd_cpb_cnt zero_hrd"] that
    by (auto simp: h264bsdDecodeHrdParameters_def read_ue_def elements_Nil status_defs)
  have z: "vui_nal_hrd_parameters (default_colours w) = vui_nal_hrd_parameters w" "vui_nal_hrd_parameters zero_vui = zero_hrd" for w
    by (simp_all add: default_colours_def zero_vui_def)
  show ?thesis using assms(1) unfolding h264bsdDecodeVuiParameters_def Let_def cut_syntax_def
    apply -
    apply (simp only: vui_aspect_ratio_def Let_def, rule elements_flag, assumption, rule skip_if, simp)
    apply (simp only: vui_overscan_def Let_def, rule elements_flag, assumption, rule skip_if, simp)
    apply (simp only: vui_video_signal_def Let_def, rule elements_flag, assumption, rule skip_if, simp)
    apply (simp only: vui_chroma_loc_def Let_def, rule elements_flag, assumption, rule skip_if, simp)
    apply (simp only: vui_timing_def Let_def, rule elements_flag, assumption, rule skip_if, simp)
    apply (simp only: vui_nal_hrd_def Let_def, rule elements_flag, assumption, rule take_if, simp)
    apply (simp add: z, rule hrd, simp)
    using assms(2) by (simp add: cut_vui_def status_defs)
qed

definition cut_sps :: "sps \<Rightarrow> seq_param_set" where
  "cut_sps s = (fst (level_dpb s))\<lparr>sps_vui_parameters_present_flag := 1,
     sps_vui_parameters := Some (cut_vui\<lparr>vui_update_hrdparameter_flag := 1, vui_error_hrdparameter_flag := 0\<rparr>)\<rparr>"

lemma cut_sps_parsed:
  assumes "elements t (format_syntax s @ B1 1 # cut_syntax) (overlong @ r)" "sps_fields_ok s" "crop_fits s" "alloc 1"
  shows "returns (\<lambda>r. \<exists>t. r = Inr (cut_sps s, t)) (h264bsdDecodeSeqParamSet alloc delta junk ub False t)"
proof (rule format_elements[OF assms(1-3)], goal_cases)
  case (1 t)
  obtain p invalid where dpb: "level_dpb s = (p, invalid)" by (cases "level_dpb s")
  have al: "\<not> \<not> alloc 1" using assms(4) by simp
  have restr: "vui_bitstream_restriction_flag cut_vui = 0"
    by (simp add: cut_vui_def default_colours_def zero_vui_def)
  have last: "returns (\<lambda>r. \<exists>t. r = Inr (p, t)) (do { (tmp, s) \<leftarrow> h264bsdRbspTrailingBits s; Some (Inr (p, s)) })" if "readable s" for p s
    using RbspTrailing_total[OF that] by (auto simp: returns_def)
  show ?case unfolding sps_vui_def dpb[unfolded level_dpb_def] prod.case
    apply (rule elements_flag[OF 1], rule returns_let, rule take_if, simp, rule skip_if, rule al)
    apply (rule cut_elements, assumption)
    using last by (simp add: status_defs Let_def restr sps_mvc_def cut_sps_def dpb)
qed

lemma got_format_poc: "sps_fields_ok s \<Longrightarrow> sps_pic_order_cnt_type (cut_sps s) \<noteq> 1"
proof -
  assume "sps_fields_ok s"
  then have "es_picOrderCntType s = 0 \<or> es_picOrderCntType s = 2" by (simp add: sps_fields_ok_def)
  moreover have "sps_pic_order_cnt_type (cut_sps s) = es_picOrderCntType s"
    by (simp add: cut_sps_def level_dpb_def sps_dpb_def Let_def got_format_def got_crop_def got_size_def got_counts_def)
  ultimately show ?thesis by auto
qed

lemma cut_sps_compared:
  assumes "sps_fields_ok s" shows "h264bsdCompareSeqParamSets (cut_sps s) (cut_sps s) = None"
proof -
  let ?p = "cut_sps s" and ?v = "cut_vui\<lparr>vui_update_hrdparameter_flag := 1, vui_error_hrdparameter_flag := 0\<rparr>"
  let ?h = "zero_hrd\<lparr>hrd_cpb_cnt := BIG_CODE_NUM\<rparr>"
  let ?xs = "zip (hrd_bit_rate_value ?h) (zip (hrd_cpb_size_value ?h) (hrd_cbr_flag ?h))"
  have "length ?xs < 0 + unat (hrd_cpb_cnt ?h)" by (simp add: zero_hrd_def MAX_CPB_CNT_def BIG_CODE_NUM_def)
  then have "elements_differ 0 (unat (hrd_cpb_cnt ?h)) ?xs ?xs = None" by (rule elements_differ_beyond[rotated]) simp
  then have "hrds_differ ?h ?h = None" by (simp add: hrds_differ_def)
  then have v: "vuis_differ ?v ?v = None"
    by (simp add: vuis_differ_def vui_flags_equal_def cut_vui_def default_colours_def zero_vui_def)
  have "poc_differs ?p ?p = Some False" using got_format_poc[OF assms] by (simp add: poc_differs_def)
  moreover have "sps_vui_parameters_present_flag ?p = 1" "sps_vui_parameters ?p = Some ?v" by (simp_all add: cut_sps_def)
  ultimately show ?thesis using v
    by (simp add: h264bsdCompareSeqParamSets_def sps_heads_equal_def crops_differ_def mbaffs_differ_def copy_scaling_same)
qed

subsection \<open>Properties\<close>

text \<open>A NAL unit with the cut parameters\<close>

lemma reading_escaped: "length B < 2 ^ 27 \<Longrightarrow> reading (demo_stream (escape B)) (bits_of B)"
proof -
  assume "length B < 2 ^ 27"
  then have "length (escape B) < 2 ^ 28" using length_escape[of B] by simp
  then show ?thesis using demo_stream_ok[of "escape B"]
    by (simp add: reading_def readable_def code_free_no_start_code demo_stream_rest unescape_escape)
qed

lemma cut_syntax_ok: "sps_fields_ok s \<Longrightarrow> list_all element_ok (format_syntax s @ B1 1 # cut_syntax)"
  using sps_syntax_ok[of s] by (simp add: sps_syntax_payload payload_def cut_syntax_def element_ok_zero del: One_nat_def)

lemma padded_length: "(L + (1 + (7 * (L + 1)) mod 8)) mod 8 = (0 :: nat)"
  by presburger

lemma padded_bytes:
  obtains B r where "bits_of B = bs @ r" "length B \<le> length bs + 8"
proof -
  define r where "r = True # replicate ((7 * (length bs + 1)) mod 8) False"
  have l: "length (bs @ r) = length bs + (1 + (7 * (length bs + 1)) mod 8)" by (simp add: r_def)
  then have "length (bs @ r) mod 8 = 0" by (simp only: padded_length)
  then have B: "bits_of (bytes_of (bs @ r)) = bs @ r" by (rule bits_of_bytes_of)
  have "8 * length (bytes_of (bs @ r)) = length (bs @ r)" using arg_cong[OF B, of length] by simp
  then have "length (bytes_of (bs @ r)) \<le> length bs + 8" using l by linarith
  then show thesis using that B by blast
qed

lemma length_overlong: "length overlong = 65"
proof -
  have "eg_len (2 ^ 32 + 1) - 1 = 32" by (rule eg_len_big) simp
  then show ?thesis by (simp add: overlong_def length_eg_code)
qed

lemma cut_bytes:
  assumes "sps_fields_ok s"
  obtains B r where "bits_of B = nal_bits 1 7 @ concat (map element_bits (format_syntax s @ B1 1 # cut_syntax)) @ overlong @ r"
    "length B < 40000"
proof -
  define es where "es = format_syntax s @ B1 1 # cut_syntax"
  obtain B r where B: "bits_of B = (nal_bits 1 7 @ concat (map element_bits es) @ overlong) @ r"
    "length B \<le> length (nal_bits 1 7 @ concat (map element_bits es) @ overlong) + 8" by (rule padded_bytes)
  have "length (format_syntax s) \<le> length (sps_syntax s)" by (simp add: sps_syntax_payload payload_def)
  then have "length es < 1010" using length_sps_syntax[of s] by (simp add: es_def cut_syntax_def)
  moreover have "length (concat (map element_bits es)) \<le> 32 * length es"
    unfolding es_def by (rule length_elements[OF cut_syntax_ok[OF assms]])
  moreover have "length (nal_bits 1 7) = 8" by (simp add: nal_bits_def)
  ultimately have "length B < 40000" using B(2) length_overlong by simp
  then show thesis using that[of B r] B(1) by (simp add: es_def)
qed

lemma demo_decoded_wf: "sps_wf False False (decoded_sps demo_sps)"
proof -
  obtain b' B where w: "bits_of B = rbsp_bits (sps_syntax demo_sps)" using sps_written[OF demo_sps_ok demo_sps_fresh] .
  from sps_nal[OF demo_sps_ok w] obtain t j where t: "j < 8" "elements t (payload demo_sps) (True # replicate j False)" by blast
  then have "readable t" by (simp add: elements_def reading_def)
  then show ?thesis
    using DecodeSeqParamSet_returns[of t False False "\<lambda>_. True" "\<lambda>_. 0" False] SeqParamSet_elements(1)[where alloc = "\<lambda>_. True"
        and delta = "\<lambda>_. 0" and junk = False and ub = False, OF t(2,1) demo_sps_ok demo_fits(1) _ demo_fits(2)]
    by (auto simp: returns_def)
qed

lemma demo_decoded_bounded: "vui_bounded (decoded_sps demo_sps)"
proof -
  have "hrd_bounded (got_hrd v zero_hrd)" "hrd_bounded (default_hrd f zero_hrd)" for v f
    by (simp_all add: hrd_bounded_def hrd_ok_def got_hrd_def default_hrd_def zero_hrd_def MAX_CPB_CNT_def)
  then show ?thesis by (simp add: vui_bounded_def decoded_sps_def Let_def demo_sps_def got_vui_def)
qed

text \<open>
  a change of the sample format is not noticed: for every well-formed set whose HRD parameters are complete,
  h264bsdCompareSeqParamSets finds it equal to the same set with any other chroma\_format\_idc, bit depths of
  luma and chroma and direct\_8x8\_inference\_flag, and leaves the stored set as it is. (With the fields
  unchanged this says that a set that arrives again is recognised.)
\<close>

theorem CompareSeqParamSets_unseen:
  assumes "sps_wf mvc ub p" "vui_bounded p"
  shows "h264bsdCompareSeqParamSets (reformat chroma grey luma depth direct p) p = Some (False, p)"
  by (rule compare_reformat[OF assms])

theorem CompareSeqParamSets_unseen_witness:
  "h264bsdCompareSeqParamSets (reformat 2 0 10 10 0 (decoded_sps demo_sps)) (decoded_sps demo_sps) = Some (False, decoded_sps demo_sps)"
  by (rule CompareSeqParamSets_unseen[OF demo_decoded_wf demo_decoded_bounded])

text \<open>
  parameter sets that compare equal number the pictures alike: whenever h264bsdCompareSeqParamSets returns 0
  for two well-formed sets, they have the same picture size, cropping, level and number of reference frames, and
  h264bsdDecodePicOrderCnt computes the same picture order counts with the one and the other, for every slice
  and every state.
\<close>

theorem CompareSeqParamSets_counts:
  assumes "sps_wf mvc ub p" "sps_wf mvc ub q" "h264bsdCompareSeqParamSets p q = Some (False, q')"
  shows "h264bsdDecodePicOrderCnt poc p h nal = h264bsdDecodePicOrderCnt poc q h nal
    \<and> sps_pic_width_in_mbs p = sps_pic_width_in_mbs q \<and> sps_pic_height_in_mbs p = sps_pic_height_in_mbs q
    \<and> sps_level_idc p = sps_level_idc q \<and> sps_num_ref_frames p = sps_num_ref_frames q
    \<and> (sps_frame_cropping_flag p = 0 \<or> sps_frame_crop_left_offset p = sps_frame_crop_left_offset q
       \<and> sps_frame_crop_right_offset p = sps_frame_crop_right_offset q \<and> sps_frame_crop_top_offset p = sps_frame_crop_top_offset q
       \<and> sps_frame_crop_bottom_offset p = sps_frame_crop_bottom_offset q)"
proof -
  note eq = compare_equal[OF assms(3)]
  then have h: "sps_pic_order_cnt_type p = sps_pic_order_cnt_type q" "sps_max_frame_num p = sps_max_frame_num q"
    by (simp_all add: sps_heads_equal_def)
  have "sps_poc_ok p" "sps_poc_ok q" using assms(1,2) by (simp_all add: sps_wf_def)
  then have "h264bsdDecodePicOrderCnt poc p h nal = h264bsdDecodePicOrderCnt poc q h nal"
    using poc_differs_counts[OF _ h] eq by blast
  then show ?thesis using eq by (auto simp: sps_heads_equal_def crops_differ_def)
qed

theorem CompareSeqParamSets_counts_witness:
  "\<forall>poc h nal. h264bsdDecodePicOrderCnt poc (reformat 1 0 10 10 1 (decoded_sps demo_sps)) h nal
   = h264bsdDecodePicOrderCnt poc (decoded_sps demo_sps) h nal"
proof (intro allI)
  fix poc h nal
  let ?p = "decoded_sps demo_sps"
  have "sps_profile_idc ?p = 100"
    by (simp add: decoded_sps_def Let_def level_dpb_def sps_dpb_def got_format_def got_crop_def got_size_def got_counts_def
      got_high_def got_profile_def demo_sps_def)
  moreover have "crop_invalid False (reformat 1 0 10 10 1 ?p) = crop_invalid False ?p" by (simp add: reformat_def crop_invalid_def)
  ultimately have "sps_wf False False (reformat 1 0 10 10 1 ?p)"
    using demo_decoded_wf by (simp add: sps_wf_def sps_parts reformat_def bit01_def)
  from CompareSeqParamSets_counts[OF this demo_decoded_wf compare_reformat[OF demo_decoded_wf demo_decoded_bounded]]
  show "h264bsdDecodePicOrderCnt poc (reformat 1 0 10 10 1 ?p) h nal = h264bsdDecodePicOrderCnt poc ?p h nal" by blast
qed

text \<open>
  C19: a parameter set that makes the comparison leave its arrays: a NAL unit whose HRD parameters begin with a
  code of more than 32 bits is accepted by h264bsdDecodeNalUnit and h264bsdDecodeSeqParamSet, which goes on
  with cpb\_cnt = 2^32 - 1; when the same NAL unit arrives again, h264bsdCompareSeqParamSets compares that many
  elements of arrays of 32. This holds for every picture format the encoder can write.
\<close>

theorem CompareSeqParamSets_out_of_bounds:
  assumes "sps_fields_ok s" "crop_fits s" "alloc 1"
  shows "\<exists>nal t p t'. h264bsdDecodeNalUnit (demo_stream nal)
        = Some (HANTRO_OK, zero_nal\<lparr>nal_ref_idc := 1, nal_unit_type := NAL_SEQ_PARAM_SET\<rparr>, t)
    \<and> h264bsdDecodeSeqParamSet alloc delta junk ub False t = Some (Inr (p, t'))
    \<and> h264bsdCompareSeqParamSets p p = None"
proof -
  obtain B r where B: "bits_of B = nal_bits 1 7 @ concat (map element_bits (format_syntax s @ B1 1 # cut_syntax)) @ overlong @ r"
    and short: "length B < 40000" using cut_bytes[OF assms(1)] .
  have ok: "list_all element_ok (format_syntax s @ B1 1 # cut_syntax)" by (rule cut_syntax_ok[OF assms(1)])
  have rd: "reading (demo_stream (escape B)) (bits_of B)" "sd_bit_pos (demo_stream (escape B)) = 0"
    by (rule reading_escaped, use short in simp) (simp add: demo_stream_def)
  have "returns (\<lambda>(st, n, t). st = HANTRO_OK \<and> n = zero_nal\<lparr>nal_ref_idc := 1, nal_unit_type := NAL_SEQ_PARAM_SET\<rparr>
      \<and> elements t (format_syntax s @ B1 1 # cut_syntax) (overlong @ r)) (h264bsdDecodeNalUnit (demo_stream (escape B)))"
    using rd ok by (intro reads_nal[where idc = 1 and ty = 7]) (simp_all add: B plain_type_def nal_type_defs elements_def)
  then obtain t where t: "h264bsdDecodeNalUnit (demo_stream (escape B))
        = Some (HANTRO_OK, zero_nal\<lparr>nal_ref_idc := 1, nal_unit_type := NAL_SEQ_PARAM_SET\<rparr>, t)"
      "elements t (format_syntax s @ B1 1 # cut_syntax) (overlong @ r)" by (auto simp: returns_def)
  from cut_sps_parsed[where alloc = alloc and delta = delta and junk = junk and ub = ub, OF t(2) assms]
  show ?thesis using t(1) cut_sps_compared[OF assms(1)] by (auto simp: returns_def)
qed

theorem CompareSeqParamSets_out_of_bounds_witness:
  "\<exists>nal t p t'. h264bsdDecodeNalUnit (demo_stream nal)
        = Some (HANTRO_OK, zero_nal\<lparr>nal_ref_idc := 1, nal_unit_type := NAL_SEQ_PARAM_SET\<rparr>, t)
    \<and> h264bsdDecodeSeqParamSet (\<lambda>_. True) (\<lambda>_. 0) False False False t = Some (Inr (p, t'))
    \<and> h264bsdCompareSeqParamSets p p = None"
  using CompareSeqParamSets_out_of_bounds[OF demo_sps_ok demo_fits(1), of "\<lambda>_. True" "\<lambda>_. 0" False False] by simp

end
