(* ===== verification/H264StorageInv.thy ===== *)
theory H264StorageInv
  imports H264Storage H264SpsSame
begin

text \<open>
  The invariant of the store of parameter sets for streams of one view, and what activation guarantees: stored
  sets lie in the slots of their identifiers and are well formed, the active pointers and identifiers agree, and
  an activated pair of sets has passed CheckPps.
\<close>

subsection \<open>CheckPps and the scaling lists are total\<close>

lemma check_runs_total: "i + n \<le> length rs \<Longrightarrow> check_runs rs sz i n \<noteq> None"
  by (induction n arbitrary: i) (auto simp: array_read_def)

lemma check_rectangles_total:
  "i + n \<le> length tls \<Longrightarrow> i + n \<le> length brs \<Longrightarrow> check_rectangles tls brs w sz i n \<noteq> None"
  by (induction n arbitrary: i) (auto simp: array_read_def)

lemma CheckPps_total:
  assumes "pps_shape pps" shows "\<exists>b. CheckPps pps sps = Some b"
proof -
  let ?g = "pps_num_slice_groups pps" and ?s = "sps_pic_width_in_mbs sps * sps_pic_height_in_mbs sps"
  have rest: "\<exists>b. (if pps_slice_group_map_type pps = 0 then Option.bind (pps_run_length pps) (\<lambda>rs. check_runs rs ?s 0 (unat ?g))
      else if pps_slice_group_map_type pps = 2 then do {
              tl \<leftarrow> pps_top_left pps;
              br \<leftarrow> pps_bottom_right pps;
              check_rectangles tl br (sps_pic_width_in_mbs sps) ?s 0 (unat (?g - 1))
            }
      else if 2 < pps_slice_group_map_type pps \<and> pps_slice_group_map_type pps < 6 then Some (\<not> pps_slice_group_change_rate pps > ?s)
      else Some (\<not> (pps_slice_group_map_type pps = 6 \<and> pps_pic_size_in_map_units pps < ?s))) = Some b" if g: "1 < ?g"
  proof -
    have m: "unat (?g - 1) = unat ?g - 1" using g by (intro unat_minus_one) auto
    show ?thesis
    proof (cases "pps_slice_group_map_type pps = 0")
      case True
      then obtain rs where "pps_run_length pps = Some rs" "length rs = unat ?g" using assms g by (auto simp: pps_shape_def Let_def)
      then show ?thesis using True check_runs_total[of 0 "unat ?g" rs] by auto
    next
      case F: False
      show ?thesis
      proof (cases "pps_slice_group_map_type pps = 2")
        case True
        then obtain tl br where "pps_top_left pps = Some tl" "pps_bottom_right pps = Some br"
          "length tl = unat ?g - 1" "length br = unat ?g - 1" using assms g by (auto simp: pps_shape_def Let_def)
        then show ?thesis using F True m check_rectangles_total[of 0 "unat (?g - 1)" tl br] by auto
      next
        case False
        then show ?thesis using F by simp
      qed
    qed
  qed
  show ?thesis unfolding CheckPps_def Let_def using rest by auto
qed

lemma copy_row_total:
  assumes "lists_ok dst" "lists_ok src" "i < 8" "j < 8" "n \<le> 64"
  shows "\<exists>ls. copy_row n j dst i src = Some ls \<and> lists_ok ls"
proof -
  note a = lists_ok_row[OF assms(2,3)] and b = lists_ok_row[OF assms(1,4)]
  have "length (take n (src ! i) @ drop n (dst ! j)) = 64" using a b assms(5) by simp
  then show ?thesis using a b assms(5) lists_ok_update[OF assms(1)] by (simp add: copy_row_def)
qed

lemma copy_previous_total:
  "lists_ok ls \<Longrightarrow> length present = 8 \<Longrightarrow> 0 < i \<Longrightarrow> i + n \<le> 8 \<Longrightarrow> \<exists>ls'. copy_previous i n present ls = Some ls' \<and> lists_ok ls'"
proof (induction n arbitrary: i ls)
  case (Suc n)
  then have i: "i < 8" "i - 1 < 8" "i < length present" by simp_all
  obtain l where l: "copy_row 16 i ls (i - 1) ls = Some l" "lists_ok l" using copy_row_total[OF Suc.prems(1,1) i(2,1), of 16] by auto
  have "\<exists>ls'. copy_previous (Suc i) n present x = Some ls' \<and> lists_ok ls'" if "x = l \<or> x = ls" for x
    using that Suc.prems l(2) by (intro Suc.IH) auto
  then show ?case using l i(3) by (simp add: array_read_def)
qed simp

lemma copy_missing_total:
  "lists_ok ls \<Longrightarrow> lists_ok src \<Longrightarrow> length present = 8 \<Longrightarrow> i + n \<le> 8 \<Longrightarrow> \<exists>ls'. copy_missing i n present src ls = Some ls' \<and> lists_ok ls'"
proof (induction n arbitrary: i ls)
  case (Suc n)
  then have i: "i < 8" "i < length present" by simp_all
  obtain l where l: "copy_row 64 i ls i src = Some l" "lists_ok l" using copy_row_total[OF Suc.prems(1,2) i(1,1), of 64] by auto
  have "\<exists>ls'. copy_missing (Suc i) n present src x = Some ls' \<and> lists_ok ls'" if "x = l \<or> x = ls" for x
    using that Suc.prems l(2) by (intro Suc.IH) auto
  then show ?case using l i(2) by (simp add: array_read_def)
qed simp

text \<open>A set that the parser has accepted, with complete HRD parameters\<close>

definition sps_fine :: "seq_param_set \<Rightarrow> bool" where
  "sps_fine p = ((\<exists>mvc ub. sps_wf mvc ub p) \<and> vui_bounded p)"

lemma sps_fineD: "sps_fine p \<Longrightarrow> unat (sps_seq_parameter_set_id p) < 32 \<and> lists_ok (sps_scaling_list p) \<and> length (sps_scaling_list_present p) = 8"
  by (auto simp: sps_fine_def sps_wf_def sps_ids_ok_def)

lemma ModifyScalingLists_total:
  assumes "pps_wf p" "length (st_sps st) = 32" "\<And>i q. st_sps st ! i = Some q \<Longrightarrow> i < 32 \<Longrightarrow> sps_fine q"
  shows "\<exists>p'. h264bsdModifyScalingLists st p = Some p' \<and> pps_wf p'
    \<and> pps_pic_parameter_set_id p' = pps_pic_parameter_set_id p \<and> pps_seq_parameter_set_id p' = pps_seq_parameter_set_id p"
proof -
  have id: "unat (pps_seq_parameter_set_id p) < 32" and ok: "length (pps_scaling_list_present p) = 8" "lists_ok (pps_scaling_list p)"
    using assms(1) by (simp_all add: pps_wf_def)
  have wf: "pps_wf (p\<lparr>pps_scaling_list := ls\<rparr>)" if "lists_ok ls" for ls
    using assms(1) that by (simp add: pps_wf_def pps_shape_def)
  have wf1: "pps_wf (p\<lparr>pps_scaling_matrix_present_flag := 1, pps_scaling_list := ls\<rparr>)" if "lists_ok ls" for ls
    using assms(1) that by (simp add: pps_wf_def pps_shape_def bit01_def)
  show ?thesis
  proof (cases "st_sps st ! unat (pps_seq_parameter_set_id p)")
    case None
    then show ?thesis using assms(1,2) id by (simp add: h264bsdModifyScalingLists_def array_read_def)
  next
    case (Some q)
    have q: "lists_ok (sps_scaling_list q)" using sps_fineD[OF assms(3)[OF Some id]] by blast
    have r: "array_read (pps_scaling_list_present p) i = Some (pps_scaling_list_present p ! i)" if "i < 8" for i
      using that ok(1) by (simp add: array_read_def)
    obtain a where a: "(if pps_scaling_list_present p ! 0 = 0
         then Option.bind (copy_row 16 0 (pps_scaling_list p) 0 (sps_scaling_list q)) (copy_previous 1 2 (pps_scaling_list_present p))
         else Some (pps_scaling_list p)) = Some a" "lists_ok a"
    proof -
      obtain l where l: "copy_row 16 0 (pps_scaling_list p) 0 (sps_scaling_list q) = Some l" "lists_ok l"
        using copy_row_total[OF ok(2) q, of 0 0 16] by auto
      obtain l' where "copy_previous 1 2 (pps_scaling_list_present p) l = Some l'" "lists_ok l'"
        using copy_previous_total[OF l(2) ok(1), of 1 2] by auto
      then show thesis using that l ok(2) by (cases "pps_scaling_list_present p ! 0 = 0") auto
    qed
    obtain b where b: "(if pps_scaling_list_present p ! 3 = 0
         then Option.bind (copy_row 16 3 a 3 (sps_scaling_list q)) (copy_previous 4 2 (pps_scaling_list_present p))
         else Some a) = Some b" "lists_ok b"
    proof -
      obtain l where l: "copy_row 16 3 a 3 (sps_scaling_list q) = Some l" "lists_ok l"
        using copy_row_total[OF a(2) q, of 3 3 16] by auto
      obtain l' where "copy_previous 4 2 (pps_scaling_list_present p) l = Some l'" "lists_ok l'"
        using copy_previous_total[OF l(2) ok(1), of 4 2] by auto
      then show thesis using that l a(2) by (cases "pps_scaling_list_present p ! 3 = 0") auto
    qed
    obtain c where c: "copy_missing 6 2 (pps_scaling_list_present p) (sps_scaling_list q) b = Some c" "lists_ok c"
      using copy_missing_total[OF b(2) q ok(1), of 6 2] by auto
    show ?thesis
    proof (cases "sps_scaling_matrix_present_flag q = 0")
      case True
      then show ?thesis using Some assms(1,2) id by (simp add: h264bsdModifyScalingLists_def array_read_def)
    next
      case False
      have s: "array_read (st_sps st) (unat (pps_seq_parameter_set_id p)) = Some (Some q)"
        using Some assms(2) id by (simp add: array_read_def)
      show ?thesis
      proof (cases "pps_scaling_matrix_present_flag p = 0")
        case True
        then show ?thesis using False s wf1[OF q] by (simp add: h264bsdModifyScalingLists_def)
      next
        case F: False
        have "h264bsdModifyScalingLists st p = Some (p\<lparr>pps_scaling_list := c\<rparr>)"
          unfolding h264bsdModifyScalingLists_def s bind.bind_lunit option.case Let_def r[of 0, simplified] r[of 3, simplified]
          using F False a(1) b(1) c(1) by (simp add: r)
        then show ?thesis using wf[OF c(2)] by simp
      qed
    qed
  qed
qed

subsection \<open>The invariant\<close>

text \<open>The slots\<close>

definition slots_ok :: "storage \<Rightarrow> bool" where
  "slots_ok st = (length (st_sps st) = 32 \<and> length (st_pps st) = 256
     \<and> (\<forall>i < 32. \<forall>p. st_sps st ! i = Some p \<longrightarrow> unat (sps_seq_parameter_set_id p) = i \<and> sps_fine p)
     \<and> (\<forall>i < 256. \<forall>p. st_pps st ! i = Some p \<longrightarrow> unat (pps_pic_parameter_set_id p) = i \<and> pps_wf p))"

text \<open>The active sets of a stream of one view: id0 and ptr0 are active\_view\_sps\_id and active\_view\_sps of view 0.\<close>

definition active_ok :: "storage \<Rightarrow> 32 word \<Rightarrow> nat option \<Rightarrow> bool" where
  "active_ok st id0 ptr0 = (
     (\<exists>id1. st_active_view_sps_id st = [id0, id1] \<and> 32 \<le> unat id1) \<and> st_active_view_sps st = [ptr0, None] \<and> st_view st = 0
     \<and> st_active_sps_id st = id0 \<and> st_active_sps st = ptr0
     \<and> (case ptr0 of None \<Rightarrow> 32 \<le> unat id0 | Some i \<Rightarrow> i = unat id0 \<and> i < 32 \<and> st_sps st ! i \<noteq> None)
     \<and> (unat (st_active_pps_id st) < 256 \<longrightarrow> st_active_pps st = Some (unat (st_active_pps_id st))
        \<and> (\<exists>p. st_pps st ! unat (st_active_pps_id st) = Some p \<and> ptr0 = Some (unat (pps_seq_parameter_set_id p)))))"

definition store_ok :: "storage \<Rightarrow> bool" where
  "store_ok st = (slots_ok st \<and> (\<exists>id0 ptr0. active_ok st id0 ptr0))"

lemma views_two: "replicate MAX_NUM_VIEWS x = [x, x]"
  by (simp add: MAX_NUM_VIEWS_def numeral_2_eq_2)

lemma init_store_ok: "store_ok h264bsdInitStorage"
proof -
  have "slots_ok h264bsdInitStorage"
    by (simp add: slots_ok_def h264bsdInitStorage_def MAX_NUM_SEQ_PARAM_SETS_def MAX_NUM_PIC_PARAM_SETS_def)
  moreover have "active_ok h264bsdInitStorage 32 None"
    by (simp add: active_ok_def h264bsdInitStorage_def views_two MAX_NUM_SEQ_PARAM_SETS_def MAX_NUM_PIC_PARAM_SETS_def)
  ultimately show ?thesis by (auto simp: store_ok_def)
qed

lemma slots_okD:
  "slots_ok st \<Longrightarrow> i < 32 \<Longrightarrow> st_sps st ! i = Some p \<Longrightarrow> unat (sps_seq_parameter_set_id p) = i \<and> sps_fine p"
  "slots_ok st \<Longrightarrow> i < 256 \<Longrightarrow> st_pps st ! i = Some q \<Longrightarrow> unat (pps_pic_parameter_set_id q) = i \<and> pps_wf q"
  "slots_ok st \<Longrightarrow> length (st_sps st) = 32" "slots_ok st \<Longrightarrow> length (st_pps st) = 256"
  by (simp_all add: slots_ok_def)

lemma slots_cong: "st_sps st = st_sps st' \<Longrightarrow> st_pps st = st_pps st' \<Longrightarrow> slots_ok st = slots_ok st'"
  by (simp only: slots_ok_def)

lemma slots_put_sps:
  "slots_ok st \<Longrightarrow> sps_fine p \<Longrightarrow> i = unat (sps_seq_parameter_set_id p) \<Longrightarrow> slots_ok (st\<lparr>st_sps := (st_sps st)[i := Some p]\<rparr>)"
  using sps_fineD[of p] by (simp add: slots_ok_def nth_list_update)

lemma slots_put_pps:
  "slots_ok st \<Longrightarrow> pps_wf p \<Longrightarrow> i = unat (pps_pic_parameter_set_id p) \<Longrightarrow> slots_ok (st\<lparr>st_pps := (st_pps st)[i := Some p]\<rparr>)"
  by (simp add: slots_ok_def nth_list_update pps_wf_def)

lemma put_sps_is: "length (st_sps st) = 32 \<Longrightarrow> unat (sps_seq_parameter_set_id p) < 32 \<Longrightarrow>
    put_sps st p = Some (HANTRO_OK, st\<lparr>st_sps := (st_sps st)[unat (sps_seq_parameter_set_id p) := Some p]\<rparr>)"
  by (simp add: put_sps_def array_write_def)

text \<open>A filled slot stays filled, so what is active stays active.\<close>

lemma active_put_sps:
  assumes "active_ok st id0 ptr0" "length (st_sps st) = 32"
  shows "active_ok (st\<lparr>st_sps := (st_sps st)[i := Some p]\<rparr>) id0 ptr0"
proof (cases ptr0)
  case (Some k)
  then show ?thesis using assms by (cases "i = k") (auto simp: active_ok_def)
qed (use assms in \<open>simp add: active_ok_def\<close>)

subsection \<open>Comparing two stored sets\<close>

lemma elements_differ_total: "i + n \<le> length xs \<Longrightarrow> i + n \<le> length ys \<Longrightarrow> \<exists>b. elements_differ i n xs ys = Some b"
  by (induction n arbitrary: i) (auto simp: array_read_def)

lemma hrds_differ_total: "hrd_bounded h \<Longrightarrow> hrd_bounded g \<Longrightarrow> \<exists>b. hrds_differ h g = Some b"
  using elements_differ_total[of 0 "unat (hrd_cpb_cnt h)" "zip (hrd_bit_rate_value h) (zip (hrd_cpb_size_value h) (hrd_cbr_flag h))"
      "zip (hrd_bit_rate_value g) (zip (hrd_cpb_size_value g) (hrd_cbr_flag g))"]
  by (auto simp: hrds_differ_def hrd_bounded_def hrd_ok_def)

lemma vuis_differ_total:
  assumes "hrd_bounded (vui_nal_hrd_parameters v)" "hrd_bounded (vui_vcl_hrd_parameters v)"
    "hrd_bounded (vui_nal_hrd_parameters w)" "hrd_bounded (vui_vcl_hrd_parameters w)"
  shows "\<exists>b. vuis_differ v w = Some b"
proof -
  obtain a b where "hrds_differ (vui_nal_hrd_parameters v) (vui_nal_hrd_parameters w) = Some a"
    "hrds_differ (vui_vcl_hrd_parameters v) (vui_vcl_hrd_parameters w) = Some b"
    using hrds_differ_total assms by blast
  then show ?thesis by (auto simp: vuis_differ_def)
qed

lemma poc_differs_total: "sps_poc_ok p \<Longrightarrow> sps_poc_ok q \<Longrightarrow> \<exists>b. poc_differs p q = Some b"
proof -
  assume ok: "sps_poc_ok p" "sps_poc_ok q"
  let ?n = "sps_num_ref_frames_in_pic_order_cnt_cycle p"
  have "\<exists>b. arrays_differ (unat ?n) (sps_offset_for_ref_frame p) (sps_offset_for_ref_frame q) = Some b"
    if "?n = sps_num_ref_frames_in_pic_order_cnt_cycle q"
    using ok that
    by (cases "sps_offset_for_ref_frame p"; cases "sps_offset_for_ref_frame q")
      (auto simp: arrays_differ_def sps_poc_ok_def elements_differ_total)
  then show ?thesis by (auto simp: poc_differs_def)
qed

lemma copy_scaling_fine: "sps_fine p \<Longrightarrow> sps_fine q \<Longrightarrow> sps_fine (copy_scaling p q)"
  by (auto simp: copy_scaling_def sps_fine_def sps_wf_def sps_parts crop_invalid_def vui_bounded_def)

lemma copy_scaling_id [simp]: "sps_seq_parameter_set_id (copy_scaling p q) = sps_seq_parameter_set_id q"
  by (simp add: copy_scaling_def)

lemma Compare_total:
  assumes "sps_fine p" "sps_fine q"
  shows "\<exists>d q'. h264bsdCompareSeqParamSets p q = Some (d, q') \<and> sps_fine q' \<and> sps_seq_parameter_set_id q' = sps_seq_parameter_set_id q"
proof (cases "sps_heads_equal p q")
  case True
  obtain mp up mq uq where wf: "sps_wf mp up p" "sps_wf mq uq q" and b: "vui_bounded p" "vui_bounded q" using assms by (auto simp: sps_fine_def)
  obtain d where d: "poc_differs p q = Some d" using poc_differs_total wf by (auto simp: sps_wf_def)
  let ?q = "copy_scaling p q"
  have q: "sps_fine ?q" by (rule copy_scaling_fine[OF assms])
  have vq: "sps_vui_parameters ?q = sps_vui_parameters q" by (simp add: copy_scaling_def)
  show ?thesis
  proof (cases "sps_vui_parameters_present_flag p = 0")
    case True
    then show ?thesis using d q assms by (auto simp: h264bsdCompareSeqParamSets_def)
  next
    case False
    then obtain v w where vw: "sps_vui_parameters p = Some v" "sps_vui_parameters q = Some w"
      using wf \<open>sps_heads_equal p q\<close> by (auto simp: sps_wf_def sps_heads_equal_def vui_present_ok_def split: option.splits)
    then obtain e where "vuis_differ v w = Some e" using vuis_differ_total b by (fastforce simp: vui_bounded_def)
    then show ?thesis using d q assms vw vq by (auto simp: h264bsdCompareSeqParamSets_def)
  qed
qed (use assms in \<open>auto simp: h264bsdCompareSeqParamSets_def\<close>)


subsection \<open>The operations\<close>

lemma store_okE:
  assumes "store_ok st"
  obtains id0 ptr0 id1 where "slots_ok st" "active_ok st id0 ptr0" "st_active_view_sps_id st = [id0, id1]" "32 \<le> unat id1"
    "st_active_view_sps st = [ptr0, None]" "st_view st = 0" "st_active_sps_id st = id0" "st_active_sps st = ptr0"
    "\<And>i. ptr0 = Some i \<Longrightarrow> i = unat id0 \<and> i < 32 \<and> st_sps st ! i \<noteq> None" "ptr0 = None \<Longrightarrow> 32 \<le> unat id0"
    "\<And>i. unat (st_active_pps_id st) = i \<Longrightarrow> i < 256 \<Longrightarrow>
       st_active_pps st = Some i \<and> (\<exists>p. st_pps st ! i = Some p \<and> ptr0 = Some (unat (pps_seq_parameter_set_id p)))"
proof -
  obtain id0 ptr0 where ok: "slots_ok st" "active_ok st id0 ptr0" using assms by (auto simp: store_ok_def)
  then obtain id1 where "st_active_view_sps_id st = [id0, id1]" "32 \<le> unat id1" by (auto simp: active_ok_def)
  then show thesis using ok(2) by (intro that[OF ok]) (auto simp: active_ok_def split: option.splits)
qed

lemma array_read_is: "i < length xs \<Longrightarrow> array_read xs i = Some (xs ! i)"
  by (simp add: array_read_def)

lemma array_write_is: "i < length xs \<Longrightarrow> array_write xs i x = Some (xs[i := x])"
  by (simp add: array_write_def)

lemma store_put_sps:
  "slots_ok st \<Longrightarrow> active_ok st i r \<Longrightarrow> sps_fine p \<Longrightarrow> \<exists>st'. put_sps st p = Some (HANTRO_OK, st') \<and> store_ok st'"
  using slots_put_sps[of st p, OF _ _ refl] active_put_sps[of st i r] put_sps_is[of st p] slots_okD(3)[of st] sps_fineD[of p]
  unfolding store_ok_def by blast

lemma StoreSeqParamSet_ok:
  assumes "store_ok st" "sps_fine p"
  shows "\<exists>r st'. h264bsdStoreSeqParamSet alloc st p = Some (r, st') \<and> store_ok st'
     \<and> (r = HANTRO_OK \<or> r = MEMORY_ALLOCATION_ERROR \<and> st' = st)"
proof -
  let ?id = "sps_seq_parameter_set_id p"
  obtain id0 ptr0 id1 where ok: "slots_ok st" "active_ok st id0 ptr0" and st: "st_active_view_sps_id st = [id0, id1]" "32 \<le> unat id1"
    "st_active_view_sps st = [ptr0, None]" "st_view st = 0" and act: "\<And>i. ptr0 = Some i \<Longrightarrow> i = unat id0 \<and> i < 32 \<and> st_sps st ! i \<noteq> None"
    and no: "ptr0 = None \<Longrightarrow> 32 \<le> unat id0"
    by (rule store_okE[OF assms(1)]) (rule that)
  have id: "unat ?id < 32" using sps_fineD[OF assms(2)] by blast
  then have le: "\<not> MAX_NUM_SEQ_PARAM_SETS \<le> ?id" by (simp add: MAX_NUM_SEQ_PARAM_SETS_def not_le word_less_nat_alt)
  note len = slots_okD(3)[OF ok(1)]
  let ?put = "st\<lparr>st_sps := (st_sps st)[unat ?id := Some p]\<rparr>"
  have put: "put_sps st p = Some (HANTRO_OK, ?put)" by (rule put_sps_is[OF len id])
  have putok: "store_ok ?put"
    using slots_put_sps[OF ok(1) assms(2) refl] active_put_sps[OF ok(2) len] by (auto simp: store_ok_def)
  show ?thesis
  proof (cases "st_sps st ! unat ?id")
    case None
    then show ?thesis using putok put le assms(1) id len by (simp add: h264bsdStoreSeqParamSet_def array_read_is)
  next
    case (Some old)
    have ne: "?id \<noteq> id1" using id st(2) by auto
    show ?thesis
    proof (cases "?id = id0")
      case False
      then show ?thesis using Some putok put le id len ne st by (simp add: h264bsdStoreSeqParamSet_def array_read_is)
    next
      case True
      then have ptr: "ptr0 = Some (unat ?id)" using act no id by (cases ptr0) auto
      have q: "sps_fine old" "unat (sps_seq_parameter_set_id old) = unat ?id" using slots_okD(1)[OF ok(1) id Some] by auto
      obtain d q' where c: "h264bsdCompareSeqParamSets p old = Some (d, q')" "sps_fine q'"
        "sps_seq_parameter_set_id q' = sps_seq_parameter_set_id old" using Compare_total[OF assms(2) q(1)] by blast
      let ?st = "st\<lparr>st_sps := (st_sps st)[unat ?id := Some q']\<rparr>"
      have s: "slots_ok ?st" by (rule slots_put_sps[OF ok(1) c(2)]) (simp add: c(3) q(2))
      have d: "deref (st_sps st) (Some (unat ?id)) = Some old" using Some len id by (simp add: deref_def array_read_is)
      have same: "h264bsdStoreSeqParamSet alloc st p =
          (if d then Option.bind (deactivate 0 ?st) (\<lambda>st. put_sps st p) else Some (HANTRO_OK, ?st))"
      proof -
        have r: "array_read (st_sps st) (unat ?id) = Some (Some old)" using Some len id by (simp add: array_read_is)
        have w: "array_write (st_sps st) (unat ?id) (Some q') = Some ((st_sps st)[unat ?id := Some q'])" using len id by (simp add: array_write_is)
        have v: "array_read [?id, id1] 0 = Some ?id" "array_read [?id, id1] 1 = Some id1" "array_read [Some (unat ?id), None] 0 = Some (Some (unat ?id))"
          by (simp_all add: array_read_def)
        have ifs: "(if ?id = id1 then 1 else 0 :: nat) = 0" "(?id = ?id \<or> ?id = id1) = True" using ne by simp_all
        show ?thesis
          unfolding h264bsdStoreSeqParamSet_def Let_def st(1,3) True[symmetric] ptr r bind.bind_lunit v ifs d c(1) prod.case option.sel w
          using le by simp
      qed
      show ?thesis
      proof (cases d)
        case True
        define off where "off = ?st\<lparr>st_active_sps_id := MAX_NUM_SEQ_PARAM_SETS + 1, st_active_sps := None,
           st_active_pps_id := MAX_NUM_PIC_PARAM_SETS + 1, st_active_pps := None,
           st_old_sps_id := MAX_NUM_SEQ_PARAM_SETS + 1,
           st_active_view_sps_id := [MAX_NUM_SEQ_PARAM_SETS + 1, id1], st_active_view_sps := [None, None]\<rparr>"
        have off: "deactivate 0 ?st = Some off" using st by (simp add: deactivate_def array_write_def off_def)
        have "slots_ok off" using s by (rule slots_cong[THEN iffD1, rotated 2]) (simp_all add: off_def)
        moreover have "active_ok off 33 None"
          using st by (simp add: active_ok_def off_def MAX_NUM_SEQ_PARAM_SETS_def MAX_NUM_PIC_PARAM_SETS_def)
        ultimately obtain st' where "put_sps off p = Some (HANTRO_OK, st')" "store_ok st'" using store_put_sps[OF _ _ assms(2)] by blast
        then show ?thesis using True same off by simp
      next
        case False
        then show ?thesis using same s active_put_sps[OF ok(2) len] by (auto simp: store_ok_def)
      qed
    qed
  qed
qed


lemma StorePicParamSet_ok:
  assumes "store_ok st" "pps_wf p"
  shows "\<exists>r st'. h264bsdStorePicParamSet alloc st p = Some (r, st') \<and> store_ok st'
     \<and> (r = HANTRO_OK \<or> r = MEMORY_ALLOCATION_ERROR \<and> st' = st)"
proof -
  let ?id = "pps_pic_parameter_set_id p"
  obtain id0 ptr0 id1 where ok: "slots_ok st" "active_ok st id0 ptr0" and act: "st_active_sps_id st = id0"
    "\<And>i. unat (st_active_pps_id st) = i \<Longrightarrow> i < 256 \<Longrightarrow>
       st_active_pps st = Some i \<and> (\<exists>p. st_pps st ! i = Some p \<and> ptr0 = Some (unat (pps_seq_parameter_set_id p)))"
    and ptr: "\<And>i. ptr0 = Some i \<Longrightarrow> i = unat id0 \<and> i < 32 \<and> st_sps st ! i \<noteq> None"
    by (rule store_okE[OF assms(1)]) (rule that)
  have id: "unat ?id < 256" "unat (pps_seq_parameter_set_id p) < 32" using assms(2) by (simp_all add: pps_wf_def)
  then have le: "\<not> (MAX_NUM_PIC_PARAM_SETS \<le> ?id \<or> MAX_NUM_SEQ_PARAM_SETS \<le> pps_seq_parameter_set_id p)"
    by (simp add: MAX_NUM_SEQ_PARAM_SETS_def MAX_NUM_PIC_PARAM_SETS_def not_le word_less_nat_alt)
  note len = slots_okD(3,4)[OF ok(1)]
  have r: "array_read (st_pps st) (unat ?id) = Some (st_pps st ! unat ?id)" using len id by (simp add: array_read_is)
  let ?c = "st_pps st ! unat ?id \<noteq> None \<and> ?id = st_active_pps_id st \<and> pps_seq_parameter_set_id p \<noteq> st_active_sps_id st"
  define st1 where "st1 = (if ?c then st\<lparr>st_active_pps_id := MAX_NUM_PIC_PARAM_SETS + 1\<rparr> else st)"
  have f: "st_sps st1 = st_sps st" "st_pps st1 = st_pps st" by (simp_all add: st1_def)
  have s1: "slots_ok st1" using ok(1) by (rule slots_cong[THEN iffD1, rotated 2]) (simp_all add: f)
  obtain p' where p': "h264bsdModifyScalingLists st1 p = Some p'" "pps_wf p'" "pps_pic_parameter_set_id p' = ?id"
    "pps_seq_parameter_set_id p' = pps_seq_parameter_set_id p"
    using ModifyScalingLists_total[OF assms(2) slots_okD(3)[OF s1]] slots_okD(1)[OF s1] by blast
  define st2 where "st2 = st1\<lparr>st_pps := (st_pps st)[unat ?id := Some p']\<rparr>"
  have e: "h264bsdStorePicParamSet alloc st p =
      (if st_pps st ! unat ?id = None \<and> \<not> alloc then Some (MEMORY_ALLOCATION_ERROR, st) else Some (HANTRO_OK, st2))"
    unfolding h264bsdStorePicParamSet_def Let_def r bind.bind_lunit st1_def[symmetric] p'(1) st2_def
    using le len id by (simp add: f array_write_is)
  have "slots_ok st2" using slots_put_pps[OF s1 p'(2), of "unat ?id"] by (simp add: st2_def f p'(3))
  moreover have "active_ok st2 id0 ptr0"
  proof -
    have g: "active_ok st2 id0 ptr0" if "\<And>i. unat (st_active_pps_id st2) = i \<Longrightarrow> i < 256 \<Longrightarrow>
       st_active_pps st2 = Some i \<and> (\<exists>p. st_pps st2 ! i = Some p \<and> ptr0 = Some (unat (pps_seq_parameter_set_id p)))"
    proof -
      have "st_sps st2 = st_sps st" "st_active_view_sps_id st2 = st_active_view_sps_id st" "st_active_view_sps st2 = st_active_view_sps st"
        "st_view st2 = st_view st" "st_active_sps_id st2 = st_active_sps_id st" "st_active_sps st2 = st_active_sps st"
        by (simp_all add: st2_def st1_def)
      then show ?thesis using ok(2) that unfolding active_ok_def by (cases ptr0) auto
    qed
    show ?thesis
    proof (cases ?c)
      case True
      then have "st1 = st\<lparr>st_active_pps_id := MAX_NUM_PIC_PARAM_SETS + 1\<rparr>" unfolding st1_def by (rule if_P)
      then show ?thesis by (intro g) (simp add: st2_def MAX_NUM_PIC_PARAM_SETS_def)
    next
      case False
      then have st1: "st1 = st" by (simp only: st1_def if_False)
      show ?thesis
      proof (rule g)
        fix i assume i: "unat (st_active_pps_id st2) = i" "i < 256"
        then obtain q where q: "st_active_pps st = Some i" "st_pps st ! i = Some q" "ptr0 = Some (unat (pps_seq_parameter_set_id q))"
          using act(2)[of i] by (auto simp: st2_def st1)
        show "st_active_pps st2 = Some i \<and> (\<exists>p. st_pps st2 ! i = Some p \<and> ptr0 = Some (unat (pps_seq_parameter_set_id p)))"
        proof (cases "i = unat ?id")
          case True
          then have "?id = st_active_pps_id st" using i(1) by (simp add: st2_def st1 word_unat_eq_iff)
          then have "pps_seq_parameter_set_id p = st_active_sps_id st" using False True q(2) by auto
          then show ?thesis using q True id len act(1) ptr[OF q(3)] p'(4) by (simp add: st2_def st1)
        next
          case False
          then show ?thesis using q by (simp add: st2_def st1)
        qed
      qed
    qed
  qed
  ultimately show ?thesis using e assms(1) by (auto simp: store_ok_def)
qed


text \<open>What an activation leads to\<close>

definition activated :: "storage \<Rightarrow> 32 word \<Rightarrow> bool" where
  "activated st pps_id = (\<exists>pps sps. st_active_pps_id st = pps_id \<and> st_active_pps st = Some (unat pps_id)
     \<and> deref (st_pps st) (st_active_pps st) = Some pps \<and> pps_pic_parameter_set_id pps = pps_id
     \<and> deref (st_sps st) (st_active_sps st) = Some sps \<and> sps_seq_parameter_set_id sps = pps_seq_parameter_set_id pps
     \<and> st_active_sps_id st = pps_seq_parameter_set_id pps \<and> CheckPps pps sps = Some True)"

lemma select_view_ok:
  assumes "slots_ok st" "st_view st = 0" "st_active_view_sps_id st = [pps_seq_parameter_set_id pps, id1]" "32 \<le> unat id1"
    "st_active_view_sps st = [Some (unat (pps_seq_parameter_set_id pps)), None]" "st_active_pps_id st = pps_id"
    "st_active_pps st = Some (unat pps_id)" "unat pps_id < 256" "st_pps st ! unat pps_id = Some pps"
    "st_sps st ! unat (pps_seq_parameter_set_id pps) = Some sps" "CheckPps pps sps = Some True"
  shows "\<exists>st'. select_view st = Some st' \<and> store_ok st' \<and> activated st' pps_id"
proof -
  let ?id = "pps_seq_parameter_set_id pps"
  define st' where "st' = st\<lparr>st_active_sps_id := ?id, st_active_sps := Some (unat ?id), st_dpb := Some 0, st_slice_header := Some 0\<rparr>"
  have p: "unat (pps_pic_parameter_set_id pps) = unat pps_id" "pps_wf pps" using slots_okD(2)[OF assms(1,8,9)] by auto
  then have id: "unat ?id < 32" by (simp add: pps_wf_def)
  have q: "unat (sps_seq_parameter_set_id sps) = unat ?id" using slots_okD(1)[OF assms(1) id assms(10)] by auto
  have f: "st_sps st' = st_sps st" "st_pps st' = st_pps st" by (simp_all add: st'_def)
  have "select_view st = Some st'" using assms(2,3,5) by (simp add: select_view_def array_read_def st'_def)
  moreover have "slots_ok st'" using assms(1) by (rule slots_cong[THEN iffD1, rotated 2]) (simp_all add: f)
  moreover have "active_ok st' ?id (Some (unat ?id))" using assms id by (auto simp: active_ok_def st'_def)
  moreover have "activated st' pps_id"
    using assms(6-11) id p(1) q slots_okD(3,4)[OF assms(1)]
    by (auto simp: activated_def st'_def deref_def array_read_def word_unat_eq_iff)
  ultimately show ?thesis by (auto simp: store_ok_def)
qed

lemma ActivateParamSets_ok:
  assumes "store_ok st" "unat pps_id < 256"
  shows "\<exists>r st'. h264bsdActivateParamSets st pps_id slice_type is_idr = Some (r, st') \<and> store_ok st'
     \<and> (r = HANTRO_OK \<and> activated st' pps_id \<or> r = HANTRO_NOK \<and> st' = st)"
proof -
  obtain id0 ptr0 id1 where ok: "slots_ok st" "active_ok st id0 ptr0" and st: "st_active_view_sps_id st = [id0, id1]" "32 \<le> unat id1"
    "st_active_view_sps st = [ptr0, None]" "st_view st = 0"
    and ptr: "\<And>i. ptr0 = Some i \<Longrightarrow> i = unat id0 \<and> i < 32 \<and> st_sps st ! i \<noteq> None" and no: "ptr0 = None \<Longrightarrow> 32 \<le> unat id0"
    and act: "\<And>i. unat (st_active_pps_id st) = i \<Longrightarrow> i < 256 \<Longrightarrow>
       st_active_pps st = Some i \<and> (\<exists>p. st_pps st ! i = Some p \<and> ptr0 = Some (unat (pps_seq_parameter_set_id p)))"
    by (rule store_okE[OF assms(1)]) (rule that)
  have le: "\<not> MAX_NUM_PIC_PARAM_SETS \<le> pps_id" using assms(2) by (simp add: MAX_NUM_PIC_PARAM_SETS_def not_le word_less_nat_alt)
  note len = slots_okD(3,4)[OF ok(1)]
  have r: "array_read (st_pps st) (unat pps_id) = Some (st_pps st ! unat pps_id)" using len assms(2) by (simp add: array_read_is)
  show ?thesis
  proof (cases "st_pps st ! unat pps_id")
    case None
    then show ?thesis using le r assms(1) by (auto simp: h264bsdActivateParamSets_def)
  next
    case pps: (Some pps)
    let ?id = "pps_seq_parameter_set_id pps"
    have wf: "pps_wf pps" using slots_okD(2)[OF ok(1) assms(2) pps] by auto
    then have id: "unat ?id < 32" by (simp add: pps_wf_def)
    have q: "array_read (st_sps st) (unat ?id) = Some (st_sps st ! unat ?id)" using len id by (simp add: array_read_is)
    show ?thesis
    proof (cases "st_sps st ! unat ?id")
      case None
      then show ?thesis using le r q pps assms(1) by (auto simp: h264bsdActivateParamSets_def)
    next
      case sps: (Some sps)
      obtain b where b: "CheckPps pps sps = Some b" using CheckPps_total wf by (auto simp: pps_wf_def)
      show ?thesis
      proof (cases b)
        case False
        then show ?thesis using le r q pps sps b assms(1) by (auto simp: h264bsdActivateParamSets_def)
      next
        case True
        define step where "step = (if st_active_pps_id st = MAX_NUM_PIC_PARAM_SETS then
             map_option (\<lambda>st. (True, st)) (activate_sps_of (Some (unat pps_id))
               (st\<lparr>st_active_pps_id := pps_id, st_active_pps := Some (unat pps_id)\<rparr>))
           else if pps_id \<noteq> st_active_pps_id st then change_pps st pps_id pps slice_type is_idr
           else do {
             ptr \<leftarrow> array_read (st_active_view_sps st) (unat (st_view st));
             if ptr = None then map_option (\<lambda>st. (True, st)) (activate_sps_of (st_active_pps st) st)
             else Some (True, st)
           })"
        have e: "h264bsdActivateParamSets st pps_id slice_type is_idr = Option.bind step (\<lambda>(ok, st).
            if ok then map_option (\<lambda>st. (HANTRO_OK, st)) (select_view st) else Some (HANTRO_NOK, st))"
          unfolding h264bsdActivateParamSets_def r bind.bind_lunit pps option.case q sps b step_def[symmetric] using le True by simp
        have sel: "\<exists>r st'. h264bsdActivateParamSets st pps_id slice_type is_idr = Some (r, st') \<and> store_ok st'
            \<and> (r = HANTRO_OK \<and> activated st' pps_id \<or> r = HANTRO_NOK \<and> st' = st)"
          if "step = Some (True, st1)" "st_sps st1 = st_sps st" "st_pps st1 = st_pps st" "st_view st1 = 0"
            "st_active_view_sps_id st1 = [?id, id1]" "st_active_view_sps st1 = [Some (unat ?id), None]"
            "st_active_pps_id st1 = pps_id" "st_active_pps st1 = Some (unat pps_id)" for st1
        proof -
          have "slots_ok st1" using ok(1) by (rule slots_cong[THEN iffD1, rotated 2]) (simp_all add: that)
          from select_view_ok[OF this that(4,5) st(2) that(6-8) assms(2), of sps] show ?thesis
            using that(1-3) pps sps b True e by auto
        qed
        have k: "st_active_pps st = Some (unat pps_id)" "ptr0 = Some (unat ?id)" "id0 = ?id" if "pps_id = st_active_pps_id st"
          using act[of "unat pps_id"] that assms(2) pps ptr by (auto simp: word_unat_eq_iff)
        have d: "deref (st_pps st) (Some (unat pps_id)) = Some pps" using r pps by (simp add: deref_def)
        show ?thesis
        proof (cases "st_active_pps_id st = MAX_NUM_PIC_PARAM_SETS")
          case True
          let ?st = "st\<lparr>st_active_pps_id := pps_id, st_active_pps := Some (unat pps_id), st_active_sps_id := ?id,
            st_active_view_sps_id := [?id, id1], st_active_sps := Some (unat ?id), st_active_view_sps := [Some (unat ?id), None]\<rparr>"
          have "step = Some (True, ?st)" using True st d q sps by (simp add: step_def activate_sps_of_def array_write_def Let_def)
          then show ?thesis by (rule sel) (simp_all add: st)
        next
          case F: False
          show ?thesis
          proof (cases "pps_id = st_active_pps_id st")
            case True
            have "step = Some (True, st)" using True F st k[OF True] by (simp add: step_def array_read_def)
            then show ?thesis by (rule sel) (use True st k[OF True] in simp_all)
          next
            case ne: False
            show ?thesis
            proof (cases "?id = id0")
              case True
              then have ptr0: "ptr0 = Some (unat ?id)" using no ptr id by (cases ptr0) auto
              have "step = Some (True, st\<lparr>st_active_pps_id := pps_id, st_active_pps := Some (unat pps_id)\<rparr>)"
                using True F ne st by (simp add: step_def change_pps_def array_read_def)
              then show ?thesis by (rule sel) (use True st ptr0 in simp_all)
            next
              case new: False
              show ?thesis
              proof (cases "is_idr \<or> IS_I_SLICE slice_type")
                case True
                let ?st = "st\<lparr>st_active_pps_id := pps_id, st_active_pps := Some (unat pps_id),
                  st_active_view_sps_id := [?id, id1], st_active_view_sps := [Some (unat ?id), None]\<rparr>"
                have "step = Some (True, if st_mvc_stream st = 0 then ?st\<lparr>st_pending_flush := 1\<rparr> else ?st)"
                  using True F ne new st q sps by (auto simp: step_def change_pps_def array_read_def array_write_def Let_def)
                then show ?thesis by (rule sel) (simp_all add: st)
              next
                case False
                then have "step = Some (False, st)" using F ne new st by (auto simp: step_def change_pps_def array_read_def)
                then show ?thesis using e assms(1) by auto
              qed
            qed
          qed
        qed
      qed
    qed
  qed
qed


subsection \<open>The stores that can be reached\<close>

text \<open>
  The stores of a stream of one view: it brings parameter sets and slices in any order, and an allocation may fail at any
  time. Two conditions limit the streams. The view stays 0: h264hwd\_decoder.c sets storage->view to 1 for slice
  extensions, and with two views the store does not stay consistent (StoreSeqParamSet\_wrong\_view,
  ActivateParamSets\_other\_pair). And the sequence parameter sets have complete HRD parameters (sps\_fine): the parser
  also accepts a set whose HRD parameters are cut off, which h264bsdCompareSeqParamSets cannot compare
  (CompareSeqParamSets\_out\_of\_bounds).
\<close>

inductive base_view_reach :: "storage \<Rightarrow> bool" where
  reach_init: "base_view_reach h264bsdInitStorage"
| reach_sps: "base_view_reach st \<Longrightarrow> sps_fine p \<Longrightarrow> h264bsdStoreSeqParamSet alloc st p = Some (r, st') \<Longrightarrow> base_view_reach st'"
| reach_pps: "base_view_reach st \<Longrightarrow> pps_wf p \<Longrightarrow> h264bsdStorePicParamSet alloc st p = Some (r, st') \<Longrightarrow> base_view_reach st'"
| reach_activate: "base_view_reach st \<Longrightarrow> unat pps_id < 256 \<Longrightarrow>
    h264bsdActivateParamSets st pps_id slice_type is_idr = Some (r, st') \<Longrightarrow> base_view_reach st'"

lemma base_view_reach_ok: "base_view_reach st \<Longrightarrow> store_ok st"
proof (induction rule: base_view_reach.induct)
  case reach_init
  show ?case by (rule init_store_ok)
next
  case (reach_sps st p alloc r st')
  then show ?case using StoreSeqParamSet_ok[of st p alloc] by auto
next
  case (reach_pps st p alloc r st')
  then show ?case using StorePicParamSet_ok[of st p alloc] by auto
next
  case (reach_activate st pps_id slice_type is_idr r st')
  then show ?case using ActivateParamSets_ok[of st pps_id slice_type is_idr] by auto
qed

text \<open>The active set arrives again, with another sample format or the same.\<close>

lemma restore_active:
  assumes "store_ok st" "deref (st_sps st) (st_active_sps st) = Some p"
  shows "h264bsdStoreSeqParamSet alloc st (reformat c g l d x p) = Some (HANTRO_OK, st)"
proof -
  obtain id0 ptr0 id1 where ok: "slots_ok st" and st: "st_active_view_sps_id st = [id0, id1]" "32 \<le> unat id1"
    "st_active_view_sps st = [ptr0, None]" "st_active_sps st = ptr0"
    and ptr: "\<And>i. ptr0 = Some i \<Longrightarrow> i = unat id0 \<and> i < 32 \<and> st_sps st ! i \<noteq> None"
    by (rule store_okE[OF assms(1)]) (rule that)
  obtain i where i: "ptr0 = Some i" "array_read (st_sps st) i = Some (Some p)"
    using assms(2) st(4) by (auto simp: deref_def bind_eq_Some_conv)
  have i0: "i = unat id0" "i < 32" using ptr[OF i(1)] by auto
  have p: "st_sps st ! i = Some p" using i(2) by (auto simp: array_read_def split: if_splits)
  have fine: "unat (sps_seq_parameter_set_id p) = i" "sps_fine p" using slots_okD(1)[OF ok i0(2) p] by auto
  then have id: "sps_seq_parameter_set_id p = id0" using i0(1) by (simp add: word_unat_eq_iff)
  have le: "\<not> MAX_NUM_SEQ_PARAM_SETS \<le> id0" using i0 by (simp add: MAX_NUM_SEQ_PARAM_SETS_def not_le word_less_nat_alt)
  have ne: "(if id0 = id1 then 1 else 0 :: nat) = 0" "(id0 = id0 \<or> id0 = id1) = True" using i0 st(2) by auto
  have same: "h264bsdCompareSeqParamSets (reformat c g l d x p) p = Some (False, p)"
    using fine(2) compare_reformat by (auto simp: sps_fine_def)
  have v: "array_read [id0, id1] 0 = Some id0" "array_read [id0, id1] 1 = Some id1" "array_read [Some (unat id0), None] 0 = Some (Some (unat id0))"
    by (simp_all add: array_read_def)
  have w: "array_write (st_sps st) (unat id0) (Some p) = Some (st_sps st)"
    using i0 p slots_okD(3)[OF ok] list_update_id[of "st_sps st" "unat id0"] by (simp add: array_write_is)
  have "sps_seq_parameter_set_id (reformat c g l d x p) = id0" using id by (simp add: reformat_def)
  moreover have "deref (st_sps st) (Some (unat id0)) = Some p" using i i0 by (simp add: deref_def)
  ultimately show ?thesis
    unfolding h264bsdStoreSeqParamSet_def Let_def st(1,3) i(1) i0(1)
    using le i(2) i0(1) ne v w same by simp
qed


subsection \<open>The first sets\<close>

lemma fresh_activation:
  assumes "unat (sps_seq_parameter_set_id q) < 32" "sps_scaling_matrix_present_flag q = 0"
    "unat (pps_pic_parameter_set_id p) < 256" "pps_seq_parameter_set_id p = sps_seq_parameter_set_id q" "pps_num_slice_groups p = 1"
  shows "\<exists>st1 st2 st3. h264bsdStoreSeqParamSet True h264bsdInitStorage q = Some (HANTRO_OK, st1)
    \<and> h264bsdStorePicParamSet True st1 p = Some (HANTRO_OK, st2)
    \<and> h264bsdActivateParamSets st2 (pps_pic_parameter_set_id p) slice_type is_idr = Some (HANTRO_OK, st3)
    \<and> deref (st_sps st3) (st_active_sps st3) = Some q \<and> deref (st_pps st3) (st_active_pps st3) = Some p"
proof -
  let ?i = "h264bsdInitStorage" and ?s = "sps_seq_parameter_set_id q" and ?p = "pps_pic_parameter_set_id p"
  define st1 where "st1 = ?i\<lparr>st_sps := (st_sps ?i)[unat ?s := Some q]\<rparr>"
  define st2 where "st2 = st1\<lparr>st_pps := (st_pps ?i)[unat ?p := Some p]\<rparr>"
  have le: "\<not> MAX_NUM_SEQ_PARAM_SETS \<le> ?s" "\<not> MAX_NUM_PIC_PARAM_SETS \<le> ?p"
    using assms by (simp_all add: MAX_NUM_SEQ_PARAM_SETS_def MAX_NUM_PIC_PARAM_SETS_def not_le word_less_nat_alt)
  have i: "st_sps ?i = replicate 32 None" "st_pps ?i = replicate 256 None" "st_active_pps_id ?i = MAX_NUM_PIC_PARAM_SETS" "st_view ?i = 0"
    "st_active_view_sps_id ?i = [MAX_NUM_SEQ_PARAM_SETS, MAX_NUM_SEQ_PARAM_SETS]" "st_active_view_sps ?i = [None, None]"
    by (simp_all add: h264bsdInitStorage_def MAX_NUM_SEQ_PARAM_SETS_def MAX_NUM_PIC_PARAM_SETS_def views_two)
  have f: "st_sps st2 = (replicate 32 None)[unat ?s := Some q]" "st_pps st2 = (replicate 256 None)[unat ?p := Some p]"
    "st_active_pps_id st2 = MAX_NUM_PIC_PARAM_SETS" "st_view st2 = 0" "st_active_view_sps_id st2 = [MAX_NUM_SEQ_PARAM_SETS, MAX_NUM_SEQ_PARAM_SETS]"
    "st_active_view_sps st2 = [None, None]"
    by (simp_all add: st2_def st1_def i)
  have "h264bsdStoreSeqParamSet True ?i q = Some (HANTRO_OK, st1)"
    using le assms(1) by (simp add: h264bsdStoreSeqParamSet_def array_read_def i put_sps_is st1_def)
  moreover have "h264bsdStorePicParamSet True st1 p = Some (HANTRO_OK, st2)"
  proof -
    have "h264bsdModifyScalingLists st1 p = Some p"
      using assms by (simp add: h264bsdModifyScalingLists_def array_read_def i st1_def)
    then show ?thesis using le assms by (simp add: h264bsdStorePicParamSet_def array_read_def array_write_def i st1_def st2_def)
  qed
  moreover have "CheckPps p q = Some True" using assms(5) by (simp add: CheckPps_def)
  then have "\<exists>st3. h264bsdActivateParamSets st2 ?p slice_type is_idr = Some (HANTRO_OK, st3)
      \<and> deref (st_sps st3) (st_active_sps st3) = Some q \<and> deref (st_pps st3) (st_active_pps st3) = Some p"
    using le assms
    by (simp add: h264bsdActivateParamSets_def f array_read_def array_write_def activate_sps_of_def deref_def select_view_def Let_def)
  ultimately show ?thesis by blast
qed

lemma decoded_sps_fields:
  "sps_seq_parameter_set_id (decoded_sps s) = word_of_int (es_id s)" "sps_scaling_matrix_present_flag (decoded_sps s) = 0"
  by (simp_all add: decoded_sps_def level_dpb_def sps_dpb_def Let_def got_format_def got_crop_def got_size_def got_counts_def
      got_high_def got_profile_def zero_sps_def)

lemma demo_pps_wf: "pps_wf (decoded_pps demo_pps)"
proof -
  have "\<exists>qp. word_of_int qp = (30 :: 32 word) \<and> -12 \<le> qp \<and> qp \<le> 51" by (intro exI[of _ 30]) simp
  then show ?thesis
    by (auto simp: pps_wf_def pps_shape_def decoded_pps_def demo_pps_def zero_pps_def lists_ok_def bit01_def MAX_NUM_SLICE_GROUPS_def Let_def)
qed

lemma demo_sps_fine: "sps_fine (decoded_sps demo_sps)"
  using demo_decoded_wf demo_decoded_bounded by (auto simp: sps_fine_def)

lemma demo_activation:
  "\<exists>t st. base_view_reach t \<and> h264bsdActivateParamSets t 1 I_SLICE True = Some (HANTRO_OK, st)
     \<and> deref (st_sps st) (st_active_sps st) = Some (decoded_sps demo_sps)
     \<and> deref (st_pps st) (st_active_pps st) = Some (decoded_pps demo_pps)"
proof -
  have "unat (sps_seq_parameter_set_id (decoded_sps demo_sps)) < 32" "sps_scaling_matrix_present_flag (decoded_sps demo_sps) = 0"
    by (simp_all add: decoded_sps_fields demo_sps_def)
  moreover have id: "pps_pic_parameter_set_id (decoded_pps demo_pps) = 1" "pps_num_slice_groups (decoded_pps demo_pps) = 1"
    "pps_seq_parameter_set_id (decoded_pps demo_pps) = sps_seq_parameter_set_id (decoded_sps demo_sps)"
    by (simp_all add: decoded_pps_def decoded_sps_fields demo_sps_def demo_pps_def)
  ultimately obtain st1 st2 st3 where
    "h264bsdStoreSeqParamSet True h264bsdInitStorage (decoded_sps demo_sps) = Some (HANTRO_OK, st1)"
    "h264bsdStorePicParamSet True st1 (decoded_pps demo_pps) = Some (HANTRO_OK, st2)"
    "h264bsdActivateParamSets st2 1 I_SLICE True = Some (HANTRO_OK, st3)"
    "deref (st_sps st3) (st_active_sps st3) = Some (decoded_sps demo_sps)" "deref (st_pps st3) (st_active_pps st3) = Some (decoded_pps demo_pps)"
    using fresh_activation[of "decoded_sps demo_sps" "decoded_pps demo_pps" I_SLICE True] unfolding id(1) by auto
  then show ?thesis using reach_pps[OF reach_sps[OF reach_init demo_sps_fine] demo_pps_wf] by blast
qed

lemma demo_reach:
  "\<exists>st. base_view_reach st \<and> deref (st_sps st) (st_active_sps st) = Some (decoded_sps demo_sps)
     \<and> deref (st_pps st) (st_active_pps st) = Some (decoded_pps demo_pps)"
proof -
  have "unat (1 :: 32 word) < 256" by simp
  then show ?thesis using demo_activation reach_activate by blast
qed

subsection \<open>Properties\<close>

text \<open>
  C5: while a stream has one view only (storage->view stays 0) and its sequence parameter sets have complete HRD parameters, the store of
  parameter sets is always consistent: from the initial store, whatever such sets arrive in
  whatever order, whichever allocations fail and whichever slices activate them, every set lies in the slot of its
  identifier, the active picture parameter set is a stored one that names the active sequence parameter set, the
  active pointer and identifier of the view agree, and the next operation neither fails an ASSERT nor follows a
  null pointer. Both conditions are needed: StoreSeqParamSet\_wrong\_view has a null pointer with two views,
  CompareSeqParamSets\_out\_of\_bounds a set with HRD parameters cut off that is compared out of bounds.
\<close>

theorem parameter_store_invariant:
  assumes "base_view_reach st" "sps_fine p" "pps_wf q" "unat pps_id < 256"
  shows "store_ok st \<and> h264bsdStoreSeqParamSet alloc st p \<noteq> None \<and> h264bsdStorePicParamSet alloc st q \<noteq> None
    \<and> h264bsdActivateParamSets st pps_id slice_type is_idr \<noteq> None"
proof -
  note ok = base_view_reach_ok[OF assms(1)]
  show ?thesis
    using ok StoreSeqParamSet_ok[OF ok assms(2), of alloc] StorePicParamSet_ok[OF ok assms(3), of alloc]
      ActivateParamSets_ok[OF ok assms(4), of slice_type is_idr] by auto
qed

theorem parameter_store_invariant_witness:
  "\<exists>st. deref (st_sps st) (st_active_sps st) = Some (decoded_sps demo_sps) \<and> store_ok st
    \<and> h264bsdStoreSeqParamSet True st (decoded_sps demo_sps) \<noteq> None \<and> h264bsdStorePicParamSet False st (decoded_pps demo_pps) \<noteq> None
    \<and> h264bsdActivateParamSets st 9 0 False \<noteq> None"
proof -
  obtain st where st: "base_view_reach st" "deref (st_sps st) (st_active_sps st) = Some (decoded_sps demo_sps)" using demo_reach by blast
  have "unat (9 :: 32 word) < 256" by simp
  from parameter_store_invariant[OF st(1) demo_sps_fine demo_pps_wf this, of True 0 False]
    parameter_store_invariant[OF st(1) demo_sps_fine demo_pps_wf this, of False] st(2)
  show ?thesis by blast
qed

text \<open>
  C16: in a stream of one view whose sets have complete HRD parameters, an activation is complete or has no effect:
  for every store that the stream can lead to, h264bsdActivateParamSets returns HANTRO\_OK
  with the requested picture parameter set and the sequence parameter set it names active, a pair that CheckPps accepts,
  or it returns HANTRO\_NOK and the store is as before. With a second view neither holds: the return with
  HANTRO\_NOK may reset storage->view, and the pair that becomes active may be another one than
  CheckPps has seen (ActivateParamSets\_other\_pair).
\<close>

theorem ActivateParamSets_all_or_nothing:
  assumes "base_view_reach st" "unat pps_id < 256"
  shows "\<exists>r st'. h264bsdActivateParamSets st pps_id slice_type is_idr = Some (r, st')
    \<and> (r = HANTRO_OK \<and> activated st' pps_id \<or> r = HANTRO_NOK \<and> st' = st)"
  using ActivateParamSets_ok[OF base_view_reach_ok[OF assms(1)] assms(2), of slice_type is_idr] by blast

theorem ActivateParamSets_all_or_nothing_witness:
  "\<exists>st r st'. deref (st_sps st) (st_active_sps st) = Some (decoded_sps demo_sps)
    \<and> h264bsdActivateParamSets st 1 0 False = Some (r, st') \<and> (r = HANTRO_OK \<and> activated st' 1 \<or> r = HANTRO_NOK \<and> st' = st)"
proof -
  obtain st where st: "base_view_reach st" "deref (st_sps st) (st_active_sps st) = Some (decoded_sps demo_sps)" using demo_reach by blast
  have "unat (1 :: 32 word) < 256" by simp
  from ActivateParamSets_all_or_nothing[OF st(1) this, of 0 False] st(2) show ?thesis by blast
qed

text \<open>
  C36: in a stream of one view whose sets have complete HRD parameters, the active sequence parameter set may be sent again without
  disturbing the picture being decoded: for every store that the stream can lead to, h264bsdStoreSeqParamSet of the active set leaves
  the store as it is, and no allocation is needed.
  This is so even when the set that arrives has another sample format: the change of chroma\_format\_idc or
  of the bit depths is dropped. For an active set with HRD parameters cut off
  CompareSeqParamSets\_out\_of\_bounds holds instead.
\<close>

theorem StoreSeqParamSet_active_again:
  assumes "base_view_reach st" "deref (st_sps st) (st_active_sps st) = Some p"
  shows "h264bsdStoreSeqParamSet alloc st (reformat chroma grey luma depth direct p) = Some (HANTRO_OK, st)"
  by (rule restore_active[OF base_view_reach_ok[OF assms(1)] assms(2)])

theorem StoreSeqParamSet_active_again_witness:
  "\<exists>st. deref (st_sps st) (st_active_sps st) = Some (decoded_sps demo_sps)
    \<and> h264bsdStoreSeqParamSet False st (reformat 2 0 10 10 1 (decoded_sps demo_sps)) = Some (HANTRO_OK, st)"
proof -
  obtain st where st: "base_view_reach st" "deref (st_sps st) (st_active_sps st) = Some (decoded_sps demo_sps)" using demo_reach by blast
  from StoreSeqParamSet_active_again[OF this, of False 2 0 10 10 1] st(2) show ?thesis by blast
qed

text \<open>
  C12: the decoder starts on the encoder's parameter sets: for every sequence and picture parameter set that the encoder
  can write, storing what the decoder reads of them in the initial store and activating the picture parameter
  set at the first IDR slice succeeds, and the sets in use are then those that the encoder described.
\<close>

theorem encoder_sets_activate:
  assumes "sps_fields_ok s" "pps_fields_ok p" "ep_sps_id p = es_id s"
  shows "\<exists>st1 st2 st3. h264bsdStoreSeqParamSet True h264bsdInitStorage (decoded_sps s) = Some (HANTRO_OK, st1)
    \<and> h264bsdStorePicParamSet True st1 (decoded_pps p) = Some (HANTRO_OK, st2)
    \<and> h264bsdActivateParamSets st2 (word_of_int (ep_id p)) I_SLICE True = Some (HANTRO_OK, st3)
    \<and> deref (st_sps st3) (st_active_sps st3) = Some (decoded_sps s)
    \<and> deref (st_pps st3) (st_active_pps st3) = Some (decoded_pps p)"
proof -
  have ids: "0 \<le> ep_id p" "ep_id p < 256" "0 \<le> es_id s" "es_id s < 32" using assms by (auto simp: pps_fields_ok_def sps_fields_ok_def)
  show ?thesis
    using fresh_activation[of "decoded_sps s" "decoded_pps p"] decoded_sps_fields[of s] ids assms(3)
    by (simp add: decoded_pps_def unsigned_of_int take_bit_int_eq_self)
qed

theorem encoder_sets_activate_witness:
  "\<exists>st1 st2 st3. h264bsdStoreSeqParamSet True h264bsdInitStorage (decoded_sps demo_sps) = Some (HANTRO_OK, st1)
    \<and> h264bsdStorePicParamSet True st1 (decoded_pps demo_pps) = Some (HANTRO_OK, st2)
    \<and> h264bsdActivateParamSets st2 1 I_SLICE True = Some (HANTRO_OK, st3)
    \<and> deref (st_sps st3) (st_active_sps st3) = Some (decoded_sps demo_sps)
    \<and> deref (st_pps st3) (st_active_pps st3) = Some (decoded_pps demo_pps)"
proof -
  have "pps_fields_ok demo_pps" "ep_sps_id demo_pps = es_id demo_sps" "word_of_int (ep_id demo_pps) = (1 :: 32 word)"
    by (simp_all add: pps_fields_ok_def demo_pps_def demo_sps_def)
  then show ?thesis using encoder_sets_activate[OF demo_sps_ok, of demo_pps] by simp
qed

text \<open>
  C23: with two views, a change of the active set of the base view breaks the other one: while the second view is being
  decoded, a changed set for view 0 clears the pointer of view 1, since deactivation takes storage->view for the view
  of the set, but not its identifier; when the set of view 1 then arrives again, h264bsdStoreSeqParamSet compares it with a
  null pointer.
\<close>

theorem StoreSeqParamSet_wrong_view:
  assumes "slots_ok st" "sps_fine p" "sps_fine q" "st_view st = 1"
    "st_active_view_sps_id st = [sps_seq_parameter_set_id p, sps_seq_parameter_set_id q]"
    "st_active_view_sps st = [Some (unat (sps_seq_parameter_set_id p)), Some (unat (sps_seq_parameter_set_id q))]"
    "sps_seq_parameter_set_id p \<noteq> sps_seq_parameter_set_id q"
    "st_sps st ! unat (sps_seq_parameter_set_id p) = Some old" "st_sps st ! unat (sps_seq_parameter_set_id q) = Some q"
    "\<not> sps_heads_equal p old"
  shows "\<exists>st'. h264bsdStoreSeqParamSet alloc st p = Some (HANTRO_OK, st') \<and> h264bsdStoreSeqParamSet alloc st' q = None"
proof -
  let ?p = "sps_seq_parameter_set_id p" and ?q = "sps_seq_parameter_set_id q"
  have ids: "unat ?p < 32" "unat ?q < 32" using sps_fineD assms(2,3) by blast+
  then have le: "\<not> MAX_NUM_SEQ_PARAM_SETS \<le> ?p" "\<not> MAX_NUM_SEQ_PARAM_SETS \<le> ?q"
    by (simp_all add: MAX_NUM_SEQ_PARAM_SETS_def not_le word_less_nat_alt)
  have ne: "unat ?p \<noteq> unat ?q" using assms(7) by (simp add: word_unat_eq_iff)
  note len = slots_okD(3)[OF assms(1)]
  have c: "h264bsdCompareSeqParamSets p old = Some (True, old)" using assms(10) by (simp add: h264bsdCompareSeqParamSets_def)
  have upd: "(st_sps st)[unat ?p := Some old] = st_sps st" using assms(8) list_update_id[of "st_sps st" "unat ?p"] by simp
  let ?st = "st\<lparr>st_active_view_sps_id := [MAX_NUM_SEQ_PARAM_SETS + 1, ?q], st_active_view_sps := [Some (unat ?p), None],
     st_sps := (st_sps st)[unat ?p := Some p]\<rparr>"
  have "h264bsdStoreSeqParamSet alloc st p = Some (HANTRO_OK, ?st)"
    using le ids ne assms(4-8) len c upd
    by (simp add: h264bsdStoreSeqParamSet_def array_read_def array_write_def deref_def deactivate_def put_sps_def Let_def)
  moreover have "h264bsdStoreSeqParamSet alloc ?st q = None"
    using le ids ne assms(9) len by (simp add: h264bsdStoreSeqParamSet_def array_read_def deref_def)
  ultimately show ?thesis by blast
qed

theorem StoreSeqParamSet_wrong_view_witness:
  "\<exists>st st' p q. h264bsdStoreSeqParamSet True st p = Some (HANTRO_OK, st') \<and> h264bsdStoreSeqParamSet True st' q = None
     \<and> deref (st_sps st) (st_active_view_sps st ! 1) = Some q"
proof -
  let ?d = "decoded_sps demo_sps"
  let ?p = "?d\<lparr>sps_gaps_in_frame_num_value_allowed_flag := 1\<rparr>" and ?q = "?d\<lparr>sps_seq_parameter_set_id := 1\<rparr>"
  let ?st = "h264bsdInitStorage\<lparr>st_view := 1, st_active_view_sps_id := [0, 1], st_active_view_sps := [Some 0, Some 1],
    st_sps := (replicate 32 None)[0 := Some ?d, 1 := Some ?q]\<rparr>"
  have id: "sps_seq_parameter_set_id ?d = 0" by (simp add: decoded_sps_fields demo_sps_def)
  have fine: "sps_fine ?p" "sps_fine ?q" using demo_sps_fine
    by (auto simp: sps_fine_def sps_wf_def sps_parts crop_invalid_def vui_bounded_def bit01_def)
  have gaps: "sps_gaps_in_frame_num_value_allowed_flag ?d = 0"
    by (simp add: decoded_sps_def level_dpb_def sps_dpb_def Let_def got_format_def got_crop_def got_size_def got_counts_def demo_sps_def)
  have "slots_ok ?st" using fine demo_sps_fine id
    by (auto simp: slots_ok_def h264bsdInitStorage_def MAX_NUM_PIC_PARAM_SETS_def nth_list_update)
  moreover have "\<not> sps_heads_equal ?p ?d" using gaps by (simp add: sps_heads_equal_def)
  ultimately obtain st' where "h264bsdStoreSeqParamSet True ?st ?p = Some (HANTRO_OK, st')" "h264bsdStoreSeqParamSet True st' ?q = None"
    using StoreSeqParamSet_wrong_view[of ?st ?p ?q ?d True] fine id by auto
  moreover have "deref (st_sps ?st) (st_active_view_sps ?st ! 1) = Some ?q" by (simp add: deref_def array_read_def)
  ultimately show ?thesis by blast
qed

text \<open>
  with two views, the pair that an activation leaves active is not always the one that CheckPps has accepted: when the
  active picture parameter set is asked for again while the second view is decoded, the sequence parameter
  set of that view stays, whichever set the picture parameter set names.
\<close>

theorem ActivateParamSets_other_pair:
  assumes "slots_ok st" "st_view st = 1" "st_active_pps_id st = pps_id" "unat pps_id < 256" "st_pps st ! unat pps_id = Some pps"
    "st_sps st ! unat (pps_seq_parameter_set_id pps) = Some sps" "CheckPps pps sps = Some True"
    "st_active_view_sps st = [ptr0, Some j]" "st_active_view_sps_id st = [id0, id1]" "j \<noteq> unat (pps_seq_parameter_set_id pps)"
  shows "\<exists>st'. h264bsdActivateParamSets st pps_id slice_type is_idr = Some (HANTRO_OK, st')
    \<and> st_active_pps_id st' = pps_id \<and> st_active_sps st' = Some j \<and> st_active_sps st' \<noteq> Some (unat (pps_seq_parameter_set_id pps))"
proof -
  note len = slots_okD(3,4)[OF assms(1)]
  have "unat (pps_seq_parameter_set_id pps) < 32" using slots_okD(2)[OF assms(1,4,5)] by (simp add: pps_wf_def)
  moreover have "\<not> MAX_NUM_PIC_PARAM_SETS \<le> pps_id" using assms(4) by (simp add: MAX_NUM_PIC_PARAM_SETS_def not_le word_less_nat_alt)
  moreover from this have "pps_id \<noteq> MAX_NUM_PIC_PARAM_SETS" by auto
  ultimately show ?thesis using assms len
    by (simp add: h264bsdActivateParamSets_def select_view_def array_read_def Let_def)
qed

end
