(* ===== verification/H264SliceType.thy ===== *)
theory H264SliceType
  imports H264SlicePeek H264StorageInv
begin

text \<open>
  The parser of slice headers is total for well-formed parameter sets of frame pictures, and what it accepts is in
  range.
\<close>

subsection \<open>Numbers of bits\<close>

lemma count_bits_power: "i \<le> Suc k \<Longrightarrow> Suc k < i + n \<Longrightarrow> k < 32 \<Longrightarrow> count_bits n i (2 ^ k) = Some (Suc k)"
proof (induction n arbitrary: i)
  case (Suc n)
  show ?case
  proof (cases "i = Suc k")
    case True
    have "drop_bit (Suc k) (2 ^ k :: 32 word) = 0"
      by (rule bit_word_eqI) (simp add: bit_drop_bit_eq bit_exp_iff)
    then show ?thesis using True by simp
  next
    case False
    then have "bit (drop_bit i (2 ^ k :: 32 word)) (k - i)" using Suc.prems by (simp add: bit_drop_bit_eq bit_exp_iff)
    then have "drop_bit i (2 ^ k :: 32 word) \<noteq> 0" by (auto simp del: bit_drop_bit_eq)
    then show ?thesis using False Suc by simp
  qed
qed simp

lemma log2_bits_power: "k \<le> 16 \<Longrightarrow> log2_bits (2 ^ k) = Some k"
  using count_bits_power[of 0 k 32] by (simp add: log2_bits_def)

lemma power_4_16_log2: "power_4_16 x \<Longrightarrow> \<exists>k. log2_bits x = Some k \<and> 0 < k \<and> k < 32 \<and> x = 2 ^ k"
  using log2_bits_power by (force simp: power_4_16_def)

lemma power_4_16_nonzero: "power_4_16 x \<Longrightarrow> x \<noteq> 0"
  by (auto simp: power_4_16_def)

lemma returns_log2 [step_intros]:
  assumes "readable s" "power_4_16 x" "\<And>s'. readable s' \<Longrightarrow> returns Q (e s')"
    and "\<And>v s'. readable s' \<Longrightarrow> unat v < unat x \<Longrightarrow> returns Q (k v s')"
  shows "returns Q (read_log2 x e k s)"
proof -
  obtain n where n: "log2_bits x = Some n" "0 < n" "n < 32" "x = 2 ^ n" using power_4_16_log2[OF assms(2)] by blast
  have "(2 :: nat) ^ n < 2 ^ 32" using n(3) by (rule power_strict_increasing) simp
  moreover have "x = word_of_nat (2 ^ n)" using n(4) by simp
  ultimately have "unat x = 2 ^ n" by (simp only: unsigned_of_nat) (use n(3) in \<open>simp add: take_bit_nat_eq_self\<close>)
  then show ?thesis using n assms by (auto simp: read_log2_def intro!: returns_u)
qed

lemma mask_above: "tmp AND push_bit i (- 1) = (0 :: 32 word) \<longleftrightarrow> drop_bit i tmp = 0"
proof
  assume "tmp AND push_bit i (- 1) = 0"
  then have "\<not> bit (tmp AND push_bit i (- 1)) (i + n)" for n by simp
  then have "\<not> bit tmp (i + n)" for n using bit_imp_le_length[of tmp "i + n"] by (auto simp: bit_and_iff bit_not_iff bit_mask_iff)
  then show "drop_bit i tmp = 0" by (intro bit_word_eqI) (simp add: bit_drop_bit_eq)
next
  assume "drop_bit i tmp = 0"
  then have "\<And>n. \<not> bit (drop_bit i tmp) n" by simp
  then have "\<not> bit tmp (i + n)" for n by (simp add: bit_drop_bit_eq)
  then show "tmp AND push_bit i (- 1) = 0"
    by (intro bit_word_eqI) (auto simp: bit_and_iff bit_not_iff bit_mask_iff not_less dest!: le_Suc_ex)
qed

lemma drop_bit_zero_unat: "drop_bit i (tmp :: 32 word) = 0 \<longleftrightarrow> unat tmp < 2 ^ i"
proof -
  have "drop_bit i tmp = 0 \<longleftrightarrow> unat (drop_bit i tmp) = 0" by (simp add: unat_eq_0)
  also have "\<dots> \<longleftrightarrow> unat tmp div 2 ^ i = 0" by (simp add: unat_drop_bit_div)
  finally show ?thesis by (simp add: div_eq_0_iff)
qed

lemma mask_loop_total:
  "unat tmp < 2 ^ (i + n) \<Longrightarrow> 0 < n \<Longrightarrow> \<exists>r. mask_loop n i tmp = Some r \<and> i < r \<and> r \<le> i + n \<and> unat tmp < 2 ^ r"
proof (induction n arbitrary: i)
  case (Suc n)
  show ?case
  proof (cases "unat tmp < 2 ^ Suc i")
    case True
    then show ?thesis using mask_above[of tmp "Suc i"] drop_bit_zero_unat[of "Suc i" tmp] by simp
  next
    case False
    then have "0 < n" using Suc.prems by (cases n) auto
    then obtain r where "mask_loop n (Suc i) tmp = Some r" "Suc i < r" "r \<le> Suc i + n" "unat tmp < 2 ^ r"
      using Suc.IH[of "Suc i"] Suc.prems by auto
    then show ?thesis using False mask_above[of tmp "Suc i"] drop_bit_zero_unat[of "Suc i" tmp] by auto
  qed
qed simp

lemma CycleBits_total:
  assumes "rate \<noteq> 0" "rate \<le> sz" "unat sz < 2 ^ 30"
  shows "\<exists>n. NumSliceGroupChangeCycleBits sz rate = Some n \<and> 0 < n \<and> n < 32"
proof -
  define tmp where "tmp = (if sz mod rate \<noteq> 0 then 2 else 1) + sz div rate"
  have r: "0 < unat rate" "unat rate \<le> unat sz" using assms(1,2) by (simp_all add: unat_gt_0 word_le_nat_alt)
  then have d: "1 \<le> unat (sz div rate)" "unat (sz div rate) \<le> unat sz"
    by (simp_all add: unat_div_distrib Suc_le_eq div_greater_zero_iff)
  have "unat tmp = unat (if sz mod rate \<noteq> 0 then 2 else 1 :: 32 word) + unat (sz div rate)"
    unfolding tmp_def by (rule unat_add_lem[THEN iffD1]) (use d assms(3) in auto)
  then have t: "2 \<le> unat tmp" "unat tmp < 2 ^ 31" using d assms(3) by (auto split: if_splits)
  then obtain n where n: "mask_loop 31 0 tmp = Some n" "n \<le> 31" "unat tmp < 2 ^ n" using mask_loop_total[of tmp 0 31] by auto
  have "2 \<le> n" using n(3) t(1) by (cases n; cases "n - 1") auto
  moreover have "sz \<noteq> 0" using assms(1,2) by auto
  ultimately show ?thesis using n assms(1,2) unfolding NumSliceGroupChangeCycleBits_def tmp_def[symmetric] Let_def
    by auto
qed


subsection \<open>Slice headers in range\<close>

definition slice_kind_ok :: "seq_param_set \<Rightarrow> pic_param_set \<Rightarrow> nal_unit \<Rightarrow> slice_header \<Rightarrow> bool" where
  "slice_kind_ok sps pps nal h = (sh_first_mb_in_slice h < pic_size_of sps \<and> sh_pic_parameter_set_id h = pps_pic_parameter_set_id pps
     \<and> (IS_I_SLICE (sh_slice_type h) \<or> (IS_P_SLICE (sh_slice_type h) \<or> IS_B_SLICE (sh_slice_type h))
        \<and> nal_unit_type nal \<noteq> NAL_CODED_SLICE_IDR \<and> sps_num_ref_frames sps \<noteq> 0))"

definition slice_fields_ok :: "seq_param_set \<Rightarrow> slice_header \<Rightarrow> bool" where
  "slice_fields_ok sps h = (unat (sh_frame_num h) < unat (sps_max_frame_num sps)
     \<and> bit01 (sh_field_pic_flag h) \<and> bit01 (sh_bottom_field_flag h)
     \<and> (sps_frame_mbs_only_flag sps \<noteq> 0 \<longrightarrow> sh_field_pic_flag h = 0 \<and> sh_bottom_field_flag h = 0)
     \<and> sh_idr_pic_id h \<le> 65535
     \<and> (sps_pic_order_cnt_type sps = 0 \<longrightarrow> unat (sh_pic_order_cnt_lsb h) < unat (sps_max_pic_order_cnt_lsb sps)))"

definition slice_ranges_ok :: "slice_header \<Rightarrow> bool" where
  "slice_ranges_ok h = (sh_redundant_pic_cnt h \<le> 127 \<and> sh_cabac_init_idc h \<le> 2 \<and> sh_disable_deblocking_filter_idc h \<le> 2
     \<and> \<bar>sh_slice_alpha_c0_offset h\<bar> \<le> 6 \<and> \<bar>sh_slice_beta_offset h\<bar> \<le> 6)"

definition slice_arrays_ok :: "slice_header \<Rightarrow> bool" where
  "slice_arrays_ok h = (length (rl_command (sh_reordering_l0 h)) = 17 \<and> length (rl_command (sh_reordering_l1 h)) = 17
     \<and> length (dm_operation (sh_marking h)) = 35)"

text \<open>The numbers of reference indices, once they are known\<close>

definition slice_counts_ok :: "slice_header \<Rightarrow> bool" where
  "slice_counts_ok h = ((IS_P_SLICE (sh_slice_type h) \<or> IS_B_SLICE (sh_slice_type h) \<longrightarrow>
       1 \<le> unat (sh_num_ref_idx_l0_active h) \<and> unat (sh_num_ref_idx_l0_active h) \<le> 32
       \<and> (sh_field_pic_flag h = 0 \<longrightarrow> unat (sh_num_ref_idx_l0_active h) \<le> 16))
     \<and> (IS_B_SLICE (sh_slice_type h) \<longrightarrow>
       1 \<le> unat (sh_num_ref_idx_l1_active h) \<and> unat (sh_num_ref_idx_l1_active h) \<le> 32
       \<and> (sh_field_pic_flag h = 0 \<longrightarrow> unat (sh_num_ref_idx_l1_active h) \<le> 16)))"

definition slice_ok :: "bool \<Rightarrow> seq_param_set \<Rightarrow> pic_param_set \<Rightarrow> nal_unit \<Rightarrow> slice_header \<Rightarrow> bool" where
  "slice_ok counted sps pps nal h = (slice_kind_ok sps pps nal h \<and> slice_fields_ok sps h \<and> slice_ranges_ok h \<and> slice_arrays_ok h
     \<and> (counted \<longrightarrow> slice_counts_ok h))"

lemmas slice_parts = slice_kind_ok_def slice_fields_ok_def slice_ranges_ok_def slice_arrays_ok_def slice_counts_ok_def

lemma readable_emul [simp]: "readable (s\<lparr>sd_emul_count := n\<rparr>) = readable s"
  by (simp add: readable_def strm_ok_def sd_bytes_def)

lemma slice_kinds: "IS_I_SLICE t \<Longrightarrow> \<not> IS_P_SLICE t \<and> \<not> IS_B_SLICE t"
  by (auto simp: IS_I_SLICE_def IS_P_SLICE_def IS_B_SLICE_def I_SLICE_def P_SLICE_def B_SLICE_def)

text \<open>A step from one state of knowledge to another\<close>

definition slice_step_ok :: "(slice_header \<Rightarrow> bool) \<Rightarrow> slice_step \<Rightarrow> (slice_header \<Rightarrow> bool) \<Rightarrow> bool" where
  "slice_step_ok P step P' = (\<forall>h k s Q. P h \<longrightarrow> readable s \<longrightarrow> (\<forall>st. Q (Inl st)) \<longrightarrow>
     (\<forall>h' s'. P' h' \<longrightarrow> readable s' \<longrightarrow> returns Q (k h' s')) \<longrightarrow> returns Q (step h k s))"

lemma slice_step_okI:
  "(\<And>h k s Q. P h \<Longrightarrow> readable s \<Longrightarrow> (\<And>st. Q (Inl st)) \<Longrightarrow> (\<And>h' s'. P' h' \<Longrightarrow> readable s' \<Longrightarrow> returns Q (k h' s'))
     \<Longrightarrow> returns Q (step h k s)) \<Longrightarrow> slice_step_ok P step P'"
  by (simp add: slice_step_ok_def)

lemma slice_step_okD:
  "slice_step_ok P step P' \<Longrightarrow> P h \<Longrightarrow> readable s \<Longrightarrow> (\<And>st. Q (Inl st)) \<Longrightarrow>
     (\<And>h' s'. P' h' \<Longrightarrow> readable s' \<Longrightarrow> returns Q (k h' s')) \<Longrightarrow> returns Q (step h k s)"
  by (simp add: slice_step_ok_def)

lemma sh_ids_ok:
  "slice_step_ok (\<lambda>h. slice_fields_ok sps h \<and> slice_ranges_ok h \<and> slice_arrays_ok h) (sh_ids sps pps nal) (slice_ok False sps pps nal)"
  by (rule slice_step_okI, unfold sh_ids_def Let_def, (rule step_intros | assumption)+)
    (auto simp: slice_ok_def slice_parts)


lemma sh_frame_ok:
  "power_4_16 (sps_max_frame_num sps) \<Longrightarrow> slice_step_ok (slice_ok False sps pps nal) (sh_frame sps) (slice_ok False sps pps nal)"
  by (rule slice_step_okI, unfold sh_frame_def, (rule step_intros | assumption)+)
    (auto simp: slice_ok_def slice_parts)

lemma sh_field_ok: "slice_step_ok (slice_ok False sps pps nal) (sh_field sps) (slice_ok False sps pps nal)"
  by (rule slice_step_okI, unfold sh_field_def Let_def, intro step_intros, simp_all)
    (auto simp: slice_ok_def slice_parts bit01_small)

lemma sh_idr_ok: "slice_step_ok (slice_ok False sps pps nal) (sh_idr nal) (slice_ok False sps pps nal)"
  by (rule slice_step_okI, unfold sh_idr_def Let_def, intro step_intros, simp_all)
    (auto simp: slice_ok_def slice_parts)

lemma sh_poc0_ok:
  "sps_pic_order_cnt_type sps = 0 \<longrightarrow> power_4_16 (sps_max_pic_order_cnt_lsb sps) \<Longrightarrow>
   slice_step_ok (slice_ok False sps pps nal) (sh_poc0 sps pps) (slice_ok False sps pps nal)"
  by (rule slice_step_okI, unfold sh_poc0_def Let_def, intro step_intros, simp_all)
    (auto simp: slice_ok_def slice_parts)

lemma sh_poc1_ok: "slice_step_ok (slice_ok False sps pps nal) (sh_poc1 ub sps pps nal) (slice_ok False sps pps nal)"
  by (rule slice_step_okI, unfold sh_poc1_def Let_def, intro step_intros, simp_all)
    (auto simp: slice_ok_def slice_parts)

lemma poc_lengths_ok: "slice_step_ok (slice_ok c sps pps nal) (poc_lengths n) (slice_ok c sps pps nal)"
proof (rule slice_step_okI, unfold poc_lengths_def Let_def, goal_cases)
  case (1 h k s Q)
  show ?case by (rule 1(4)[OF _ 1(2)]) (use 1(1) in \<open>simp add: slice_ok_def slice_parts\<close>)
qed

lemma sh_poc_ok:
  assumes "sps_pic_order_cnt_type sps = 0 \<longrightarrow> power_4_16 (sps_max_pic_order_cnt_lsb sps)"
  shows "slice_step_ok (slice_ok False sps pps nal) (sh_poc ub sps pps nal) (slice_ok False sps pps nal)"
proof (rule slice_step_okI, unfold sh_poc_def Let_def, goal_cases)
  case (1 h k s Q)
  show ?case
    by (rule slice_step_okD[OF sh_poc0_ok[OF assms] 1(1)], simp add: 1(2), rule 1(3),
        rule slice_step_okD[OF sh_poc1_ok], assumption+, rule 1(3),
        rule slice_step_okD[OF poc_lengths_ok], assumption+, rule 1(3), rule 1(4))
qed

lemma sh_redundant_ok: "slice_step_ok (slice_ok False sps pps nal) (sh_redundant pps) (slice_ok False sps pps nal)"
  by (rule slice_step_okI, unfold sh_redundant_def Let_def, intro step_intros, simp_all)
    (auto simp: slice_ok_def slice_parts)

lemma sh_direct_ok: "slice_step_ok (slice_ok False sps pps nal) sh_direct (slice_ok False sps pps nal)"
  by (rule slice_step_okI, unfold sh_direct_def Let_def, intro step_intros, simp_all)
    (auto simp: slice_ok_def slice_parts)


lemma ref_idx_bounds:
  "\<not> (v > 31 \<or> f = 0 \<and> v > 15) \<Longrightarrow> 1 \<le> unat (v + 1 :: 32 word) \<and> unat (v + 1) \<le> 32 \<and> (f = (0 :: 32 word) \<longrightarrow> unat (v + 1) \<le> 16)"
proof -
  assume a: "\<not> (v > 31 \<or> f = 0 \<and> v > 15)"
  then have "unat v \<le> 31" "f = 0 \<longrightarrow> unat v \<le> 15" by (auto simp: not_less word_le_nat_alt)
  moreover from this have "unat (v + 1) = unat v + 1" by (intro unat_plus_1) simp
  ultimately show ?thesis by simp
qed

lemma sh_ref_counts_ok:
  assumes "pps_wf pps"
  shows "slice_step_ok (slice_ok False sps pps nal) (sh_ref_counts pps) (slice_ok True sps pps nal)"
proof (rule slice_step_okI, goal_cases)
  case (1 h k s Q)
  have p: "1 \<le> unat (pps_num_ref_idx_l0_active pps)" "unat (pps_num_ref_idx_l0_active pps) \<le> 32"
    "1 \<le> unat (pps_num_ref_idx_l1_active pps)" "unat (pps_num_ref_idx_l1_active pps) \<le> 32"
    using assms by (simp_all add: pps_wf_def)
  have le16: "\<not> w > 16 \<Longrightarrow> unat w \<le> 16" for w :: "32 word" by (simp add: not_less word_le_nat_alt)
  have b: "slice_ok True sps pps nal (h\<lparr>sh_num_ref_idx_active_override_flag := t, sh_num_ref_idx_l0_active := a, sh_num_ref_idx_l1_active := b\<rparr>)"
    if "1 \<le> unat a \<and> unat a \<le> 32 \<and> (sh_field_pic_flag h = 0 \<longrightarrow> unat a \<le> 16)"
      "IS_B_SLICE (sh_slice_type h) \<longrightarrow> 1 \<le> unat b \<and> unat b \<le> 32 \<and> (sh_field_pic_flag h = 0 \<longrightarrow> unat b \<le> 16)" for t a b
    using 1(1) that by (simp add: slice_ok_def slice_parts)
  have n: "slice_ok True sps pps nal (h\<lparr>sh_num_ref_idx_active_override_flag := t, sh_num_ref_idx_l0_active := a\<rparr>)"
    if "1 \<le> unat a \<and> unat a \<le> 32 \<and> (sh_field_pic_flag h = 0 \<longrightarrow> unat a \<le> 16)" "\<not> IS_B_SLICE (sh_slice_type h)" for t a
    using 1(1) that by (simp add: slice_ok_def slice_parts)
  have i: "slice_ok True sps pps nal h" if "\<not> (IS_P_SLICE (sh_slice_type h) \<or> IS_B_SLICE (sh_slice_type h))"
    using 1(1) that by (simp add: slice_ok_def slice_parts)
  show ?case unfolding sh_ref_counts_def Let_def
  proof (intro step_intros 1(3,4) 1(2) b n i ref_idx_bounds impI)
  qed (use p le16 in auto)
qed


lemma reorder_operand_returns:
  assumes "readable s" "\<And>st. Q (Inl st)" "\<And>cmd s. readable s \<Longrightarrow> returns Q (k cmd s)"
  shows "returns Q (reorder_operand command mx cmd k s)"
  unfolding reorder_operand_def by (intro step_intros assms)

lemma reorder_loop_returns:
  assumes "\<And>st. Q (Inl st)" "\<And>j cs s. readable s \<Longrightarrow> length cs = l \<Longrightarrow> returns Q (k j cs s)"
  shows "readable s \<Longrightarrow> length cs = l \<Longrightarrow> i + n \<le> l \<Longrightarrow> returns Q (reorder_loop n i mx mvc cs k s)"
proof (induction n arbitrary: i cs s)
  case (Suc n)
  then show ?case unfolding reorder_loop.simps
    by (intro step_intros assms) (auto simp: array_read_def Let_def intro!: reorder_operand_returns assms)
qed (simp add: returns_failed assms(1))

lemma RefPicListReordering_returns:
  assumes "readable s" "\<And>st. Q (Inl st)" "1 \<le> unat num" "unat num \<le> 16" "mx \<noteq> 0" "length (rl_command rl) = 17"
    and "\<And>rl s. readable s \<Longrightarrow> length (rl_command rl) = 17 \<Longrightarrow> returns Q (k rl s)"
  shows "returns Q (RefPicListReordering num mx mvc rl k s)"
proof -
  have "num \<noteq> 0" using assms(3) by auto
  then have "\<not> (num = 0 \<or> mx = 0)" using assms(5) by simp
  then show ?thesis unfolding RefPicListReordering_def Let_def
    by (simp only: if_False, intro step_intros assms(1,2) reorder_loop_returns[where l = 17] assms(7))
      (use assms in \<open>auto intro!: returns_failed\<close>)
qed

lemma sh_reorder_ok:
  assumes "power_4_16 (sps_max_frame_num sps)" "sps_frame_mbs_only_flag sps \<noteq> 0"
  shows "slice_step_ok (slice_ok True sps pps nal) (sh_reorder sps nal) (slice_ok True sps pps nal)"
proof (rule slice_step_okI, goal_cases)
  case (1 h k s Q)
  have field: "sh_field_pic_flag h = 0" and len: "length (rl_command (sh_reordering_l0 h)) = 17" "length (rl_command (sh_reordering_l1 h)) = 17"
    using 1(1) assms(2) by (auto simp: slice_ok_def slice_parts)
  have l0: "1 \<le> unat (sh_num_ref_idx_l0_active h)" "unat (sh_num_ref_idx_l0_active h) \<le> 16" if "\<not> IS_I_SLICE (sh_slice_type h)"
    using 1(1) that field by (auto simp: slice_ok_def slice_parts)
  have l1: "1 \<le> unat (sh_num_ref_idx_l1_active h)" "unat (sh_num_ref_idx_l1_active h) \<le> 16" if "IS_B_SLICE (sh_slice_type h)"
    using 1(1) that field by (auto simp: slice_ok_def slice_parts)
  have up: "slice_ok True sps pps nal (h\<lparr>sh_reordering_l0 := a, sh_reordering_l1 := b\<rparr>)" "slice_ok True sps pps nal (h\<lparr>sh_reordering_l0 := a\<rparr>)"
    "slice_ok True sps pps nal (h\<lparr>sh_reordering_l1 := b\<rparr>)" if "length (rl_command a) = 17" "length (rl_command b) = 17" for a b
    using 1(1) that by (simp_all add: slice_ok_def slice_parts)
  show ?case unfolding sh_reorder_def Let_def
    by (intro step_intros RefPicListReordering_returns 1(3))
      (use 1(2,4) up len l0 l1 field power_4_16_nonzero[OF assms(1)] 1(1) in \<open>auto intro!: 1(4) up\<close>)
qed

lemma skip_ue_is: "skip_ue k = read_ue 0 (\<lambda>_ _. k) (\<lambda>_. k)"
  by (rule ext) (simp add: skip_ue_def read_ue_def cong: option.case_cong)

lemma skip_ses_is: "skip_ses (Suc n) k = read_se (\<lambda>_ _. skip_ses n k) (\<lambda>_. skip_ses n k)"
  by (rule ext) (simp add: read_se_def)

lemma returns_skip_ue [step_intros]: "readable s \<Longrightarrow> (\<And>s. readable s \<Longrightarrow> returns Q (k s)) \<Longrightarrow> returns Q (skip_ue k s)"
  unfolding skip_ue_is by (intro step_intros)

lemma returns_skip_ses [step_intros]: "readable s \<Longrightarrow> (\<And>s. readable s \<Longrightarrow> returns Q (k s)) \<Longrightarrow> returns Q (skip_ses n k s)"
proof (induction n arbitrary: s)
  case (Suc n)
  then show ?case unfolding skip_ses_is by (intro step_intros) auto
qed simp

lemma returns_skip_weights [step_intros]:
  "readable s \<Longrightarrow> (\<And>s. readable s \<Longrightarrow> returns Q (k s)) \<Longrightarrow> returns Q (skip_weights n grey k s)"
proof (induction n arbitrary: s)
  case (Suc n)
  show ?case unfolding skip_weights.simps Let_def by (intro step_intros Suc) simp_all
qed simp

lemma sh_weights_ok: "slice_step_ok (slice_ok True sps pps nal) (sh_weights sps pps) (slice_ok True sps pps nal)"
  by (rule slice_step_okI, unfold sh_weights_def PredWeightTable_def Let_def, intro step_intros) simp_all


lemma mmc_loop_returns:
  assumes "\<And>st. Q (Inl st)" "\<And>c ms s. readable s \<Longrightarrow> length ms = l \<Longrightarrow> returns Q (k c ms s)"
  shows "readable s \<Longrightarrow> length ms = l \<Longrightarrow> i + n \<le> l \<Longrightarrow> returns Q (mmc_loop n i refs c ms k s)"
proof (induction n arbitrary: i c ms s)
  case (Suc n)
  have ops: "returns Q (mmc_difference op m (\<lambda>m. mmc_long_term op m (\<lambda>m. mmc_max_index op refs m (\<lambda>m.
      if op \<noteq> 0 then mmc_loop n (Suc i) refs (count_mmc op c) (ms[i := m]) k else k (count_mmc op c) (ms[i := m])))) s)"
    if "readable s" for op m s
    unfolding mmc_difference_def mmc_long_term_def mmc_max_index_def Let_def
    by (intro step_intros assms(1) that) (use Suc assms that in auto)
  show ?case unfolding mmc_loop.simps
    by (intro step_intros assms(1) Suc.prems(1)) (use Suc.prems ops in \<open>simp_all add: array_read_def Let_def\<close>)
qed (simp add: returns_failed assms(1))

lemma DecRefPicMarking_returns:
  assumes "readable s" "\<And>st. Q (Inl st)" "unat refs \<le> 16" "length (dm_operation d) = 35"
    and "\<And>d s. readable s \<Longrightarrow> length (dm_operation d) = 35 \<Longrightarrow> returns Q (k d s)"
  shows "returns Q (DecRefPicMarking idr refs d k s)"
proof -
  have "unat (2 * refs) = 2 * unat refs" using assms(3) by (simp add: unat_mult_lem[THEN iffD1])
  then have n: "unat (2 * refs + 2) = 2 * unat refs + 2" using assms(3) by (subst unat_add_lem[THEN iffD1]) simp_all
  have rd: "readable (s\<lparr>sd_emul_count := 0\<rparr>)" using assms(1) by simp
  show ?thesis unfolding DecRefPicMarking_def Let_def
    by (intro step_intros assms(2) rd mmc_loop_returns[where l = 35]) (use assms n in auto)
qed

lemma sh_mark_ok:
  assumes "unat (sps_num_ref_frames sps) \<le> 16"
  shows "slice_step_ok (slice_ok True sps pps nal) (sh_mark sps nal) (slice_ok True sps pps nal)"
proof (rule slice_step_okI, goal_cases)
  case (1 h k s Q)
  have up: "slice_ok True sps pps nal (h\<lparr>sh_marking := d\<rparr>)" if "length (dm_operation d) = 35" for d
    using 1(1) that by (simp add: slice_ok_def slice_parts)
  have len: "length (dm_operation (sh_marking h)) = 35" using 1(1) by (simp add: slice_ok_def slice_parts)
  show ?case unfolding sh_mark_def
    by (intro step_intros DecRefPicMarking_returns 1(2,3,4) assms up) (use len in auto)
qed

lemma sh_cabac_ok: "slice_step_ok (slice_ok True sps pps nal) (sh_cabac pps) (slice_ok True sps pps nal)"
  by (rule slice_step_okI, unfold sh_cabac_def Let_def, intro step_intros, simp_all)
    (auto simp: slice_ok_def slice_parts)

lemma sh_qp_ok: "slice_step_ok (slice_ok True sps pps nal) (sh_qp ub sps pps) (slice_ok True sps pps nal)"
  by (rule slice_step_okI, unfold sh_qp_def Let_def, intro step_intros, simp_all)
    (auto simp: slice_ok_def slice_parts)

lemma sh_deblocking_ok: "slice_step_ok (slice_ok True sps pps nal) (sh_deblocking pps) (slice_ok True sps pps nal)"
proof (rule slice_step_okI, goal_cases)
  case (1 h k s Q)
  have keep: "slice_kind_ok sps pps nal (h\<lparr>sh_disable_deblocking_filter_idc := v, sh_slice_alpha_c0_offset := a, sh_slice_beta_offset := b\<rparr>)
      = slice_kind_ok sps pps nal h"
    "slice_fields_ok sps (h\<lparr>sh_disable_deblocking_filter_idc := v, sh_slice_alpha_c0_offset := a, sh_slice_beta_offset := b\<rparr>)
      = slice_fields_ok sps h"
    "slice_arrays_ok (h\<lparr>sh_disable_deblocking_filter_idc := v, sh_slice_alpha_c0_offset := a, sh_slice_beta_offset := b\<rparr>) = slice_arrays_ok h"
    "slice_counts_ok (h\<lparr>sh_disable_deblocking_filter_idc := v, sh_slice_alpha_c0_offset := a, sh_slice_beta_offset := b\<rparr>) = slice_counts_ok h"
    for v a b by (simp_all add: slice_parts)
  have r: "slice_ranges_ok h" using 1(1) by (simp add: slice_ok_def)
  have up: "slice_ok True sps pps nal (h\<lparr>sh_disable_deblocking_filter_idc := v, sh_slice_alpha_c0_offset := a, sh_slice_beta_offset := b\<rparr>)"
    if "\<not> v > 2" "\<bar>a\<bar> \<le> 6" "\<bar>b\<bar> \<le> 6" for v a b
    using 1(1) that r by (simp add: slice_ok_def keep slice_ranges_ok_def not_less)
  have up1: "slice_ok True sps pps nal (h\<lparr>sh_disable_deblocking_filter_idc := v\<rparr>)" if "\<not> v > 2" for v
    using up[of v "sh_slice_alpha_c0_offset h" "sh_slice_beta_offset h"] that r by (simp add: slice_ranges_ok_def)
  have six: "\<not> (a < -6 \<or> a > 6) \<Longrightarrow> \<bar>a\<bar> \<le> (6 :: int)" for a by arith
  show ?case unfolding sh_deblocking_def Let_def
    by (intro step_intros 1(2,3,4) up up1 six; (assumption | rule 1(1)))
qed

lemma sh_group_cycle_ok:
  assumes "pps_no_wrap pps" "CheckPps pps sps = Some True" "unat (pic_size_of sps) < 2 ^ 30"
  shows "slice_step_ok (slice_ok True sps pps nal) (sh_group_cycle sps pps) (slice_ok True sps pps nal)"
proof (rule slice_step_okI, unfold sh_group_cycle_def, goal_cases)
  case (1 h k s Q)
  let ?c = "pps_num_slice_groups pps > 1 \<and> pps_slice_group_map_type pps \<ge> 3 \<and> pps_slice_group_map_type pps \<le> 5"
  show ?case
  proof (cases ?c)
    case True
    have "2 < pps_slice_group_map_type pps" "pps_slice_group_map_type pps < 6" using True by (auto simp: word_le_nat_alt word_less_nat_alt)
    then have "pps_slice_group_change_rate pps \<noteq> 0" "pps_slice_group_change_rate pps \<le> pic_size_of sps"
      using assms(1,2) True
      by (auto simp: pps_no_wrap_def CheckPps_def Let_def pic_size_of_def not_less split: if_splits)
    then obtain n where n: "NumSliceGroupChangeCycleBits (pic_size_of sps) (pps_slice_group_change_rate pps) = Some n" "0 < n" "n < 32"
      using CycleBits_total assms(3) by blast
    then show ?thesis using True
      apply (simp only: if_P bind.bind_lunit Let_def)
      apply (intro step_intros 1(2,3,4)) using 1(1) by (auto simp: slice_ok_def slice_parts)
  next
    case False
    then show ?thesis using 1 by (simp only: if_False)
  qed
qed


subsection \<open>The parser\<close>

text \<open>A pair of parameter sets for frames, as activation leaves it, with no code number wrapped around\<close>

definition slice_sets :: "seq_param_set \<Rightarrow> pic_param_set \<Rightarrow> bool" where
  "slice_sets sps pps = ((\<exists>mvc ub. sps_wf mvc ub sps) \<and> pps_wf pps \<and> pps_no_wrap pps \<and> CheckPps pps sps = Some True
     \<and> unat (pic_size_of sps) < 2 ^ 30 \<and> sps_frame_mbs_only_flag sps \<noteq> 0)"

lemma slice_setsD:
  assumes "slice_sets sps pps"
  shows "power_4_16 (sps_max_frame_num sps)" "sps_pic_order_cnt_type sps = 0 \<longrightarrow> power_4_16 (sps_max_pic_order_cnt_lsb sps)"
    "unat (sps_num_ref_frames sps) \<le> 16" "pps_wf pps" "pps_no_wrap pps" "CheckPps pps sps = Some True"
    "unat (pic_size_of sps) < 2 ^ 30" "sps_frame_mbs_only_flag sps \<noteq> 0"
proof -
  obtain mvc ub where wf: "sps_wf mvc ub sps" using assms by (auto simp: slice_sets_def)
  then have "sps_num_ref_frames sps \<le> (if mvc then 15 else 16)" by (simp add: sps_wf_def sps_refs_ok_def)
  then show "unat (sps_num_ref_frames sps) \<le> 16" by (cases mvc) (auto simp: word_le_nat_alt)
qed (use assms in \<open>auto simp: slice_sets_def sps_wf_def sps_poc_ok_def\<close>)

lemma zero_slice_header_ok:
  assumes "slice_sets sps pps"
  shows "slice_fields_ok sps zero_slice_header \<and> slice_ranges_ok zero_slice_header \<and> slice_arrays_ok zero_slice_header"
  using power_4_16_nonzero[OF slice_setsD(1)[OF assms]] slice_setsD(2)[OF assms] power_4_16_nonzero[of "sps_max_pic_order_cnt_lsb sps"]
  by (auto simp: slice_parts zero_slice_header_def zero_reordering_def bit01_def unat_gt_0 MAX_NUM_REF_PICS_def MAX_NUM_MMC_OPERATIONS_def)

lemma DecodeSliceHeader_returns:
  assumes "slice_sets sps pps" "readable s" "nal_unit_type nal \<in> {NAL_CODED_SLICE, NAL_CODED_SLICE_IDR, NAL_CODED_SLICE_EXT}"
  shows "returns (\<lambda>r. \<forall>h s'. r = Inr (h, s') \<longrightarrow> slice_ok True sps pps nal h \<and> readable s') (h264bsdDecodeSliceHeader ub sps pps nal s)"
proof -
  note d = slice_setsD[OF assms(1)]
  have nal: "(nal_unit_type nal \<notin> {NAL_CODED_SLICE, NAL_CODED_SLICE_IDR, NAL_CODED_SLICE_EXT}) = False" using assms(3) by simp
  show ?thesis unfolding h264bsdDecodeSliceHeader_def nal if_False
    apply (rule slice_step_okD[OF sh_ids_ok zero_slice_header_ok[OF assms(1)] assms(2)], simp)
    apply (rule slice_step_okD[OF sh_frame_ok[OF d(1)]], assumption+, simp)
    apply (rule slice_step_okD[OF sh_field_ok], assumption+, simp)
    apply (rule slice_step_okD[OF sh_idr_ok], assumption+, simp)
    apply (rule slice_step_okD[OF sh_poc_ok[OF d(2)]], assumption+, simp)
    apply (rule slice_step_okD[OF sh_redundant_ok], assumption+, simp)
    apply (rule slice_step_okD[OF sh_direct_ok], assumption+, simp)
    apply (rule slice_step_okD[OF sh_ref_counts_ok[OF d(4)]], assumption+, simp)
    apply (rule slice_step_okD[OF sh_reorder_ok[OF d(1,8)]], assumption+, simp)
    apply (rule slice_step_okD[OF sh_weights_ok], assumption+, simp)
    apply (rule slice_step_okD[OF sh_mark_ok[OF d(3)]], assumption+, simp)
    apply (rule slice_step_okD[OF sh_cabac_ok], assumption+, simp)
    apply (rule slice_step_okD[OF sh_qp_ok], assumption+, simp)
    apply (rule slice_step_okD[OF sh_deblocking_ok], assumption+, simp)
    apply (rule slice_step_okD[OF sh_group_cycle_ok[OF d(5,6,7)]], assumption+, simp)
    by (simp add: returns_def)
qed

end
