(* ===== verification/H264SliceField.thy ===== *)
theory H264SliceField
  imports H264SliceType
begin

text \<open>
  Properties of the parser of slice headers: on the active parameter sets it is total for frame pictures; for
  field pictures it writes beyond the array of reordering commands.
\<close>

subsection \<open>Ones\<close>

lemma eg_code_0: "eg_code 0 = [True]"
proof -
  have "0 < eg_len 1" "(2 :: nat) ^ (eg_len 1 - 1) \<le> 1" using eg_len_bounds[of 1] by auto
  then have "(2 :: nat) ^ (eg_len 1 - 1) < 2 ^ 1" by simp
  then have "eg_len 1 - 1 < 1" by (rule power_less_imp_less_exp[rotated]) simp
  then have "eg_len 1 = 1" using \<open>0 < eg_len 1\<close> by simp
  then show ?thesis by (simp add: eg_code_def bit_Suc_0_iff)
qed

lemma ones_bits: "n \<le> 32 \<Longrightarrow> low_bits n (mask n :: 32 word) = replicate n True" "drop_bit n (mask n :: 32 word) = 0"
  by (auto intro!: nth_equalityI bit_word_eqI simp: bit_mask_iff bit_drop_bit_eq)

lemma ones_ue: "reading s (True # r) \<Longrightarrow> \<exists>s'. h264bsdDecodeExpGolombUnsigned s 0 = Some (HANTRO_OK, 0, s') \<and> reading s' r"
  using Unsigned_reads[of s 0 r 0] by (simp add: eg_code_0)

lemma ones_u: "reading s (replicate n True @ r) \<Longrightarrow> 0 < n \<Longrightarrow> n < 32 \<Longrightarrow>
    \<exists>s'. h264bsdGetBits s n = Some (mask n, s') \<and> mask n \<noteq> END_OF_STREAM \<and> reading s' r"
  using GetBits_reads[of s n "mask n" r] ones_bits[of n] by simp

lemma bit_u: "reading s (b # r) \<Longrightarrow> \<exists>s'. h264bsdGetBits s 1 = Some (flag_bit b, s') \<and> flag_bit b \<noteq> END_OF_STREAM \<and> reading s' r"
  using GetBits_reads[of s 1 "flag_bit b" r] by (simp add: flag_low_bits del: One_nat_def)

text \<open>Commands 0 with operand 0 until the end of the array\<close>

lemma reorder_ones:
  assumes "mx \<noteq> 0"
  shows "reading s (replicate (2 * m + 1) True @ r) \<Longrightarrow> i + m = length cs \<Longrightarrow> m < n \<Longrightarrow> reorder_loop n i mx mvc cs k s = None"
proof (induction m arbitrary: n i cs s)
  case 0
  then have "reading s (True # r)" by simp
  then obtain s1 where "h264bsdDecodeExpGolombUnsigned s 0 = Some (HANTRO_OK, 0, s1)" using ones_ue by blast
  then show ?case using 0 by (cases n) (simp_all add: read_ue_def array_read_def status_defs)
next
  case (Suc m)
  have "reading s (True # True # replicate (2 * m + 1) True @ r)" using Suc.prems(1) by simp
  then obtain s1 s2 where s: "h264bsdDecodeExpGolombUnsigned s 0 = Some (HANTRO_OK, 0, s1)"
    "h264bsdDecodeExpGolombUnsigned s1 0 = Some (HANTRO_OK, 0, s2)" "reading s2 (replicate (2 * m + 1) True @ r)"
    using ones_ue by meson
  obtain n' where n: "n = Suc n'" using Suc.prems(3) by (cases n) auto
  have "reorder_loop n' (Suc i) mx mvc (cs[i := x]) k s2 = None" for x
    using Suc.prems(2,3) n by (intro Suc.IH[OF s(3)]) auto
  then show ?case using s n Suc.prems(2) assms by (simp add: read_ue_def array_read_def status_defs reorder_operand_def)
qed

subsection \<open>Stored sets\<close>

lemma deref_slot: "deref slots ptr = Some x \<Longrightarrow> \<exists>i. ptr = Some i \<and> i < length slots \<and> slots ! i = Some x"
  by (cases ptr) (auto simp: deref_def array_read_def split: if_splits)

lemma stored_sets:
  assumes "store_ok st"
  shows "deref (st_pps st) ptr = Some pps \<Longrightarrow> pps_wf pps" "deref (st_sps st) ptr' = Some sps \<Longrightarrow> sps_fine sps"
proof -
  have ok: "slots_ok st" using assms by (simp add: store_ok_def)
  show "deref (st_pps st) ptr = Some pps \<Longrightarrow> pps_wf pps" "deref (st_sps st) ptr' = Some sps \<Longrightarrow> sps_fine sps"
    using slots_okD[OF ok] by (auto dest!: deref_slot)
qed

subsection \<open>Properties\<close>

text \<open>The slices of a stream of one view, after an activation\<close>

theorem base_view_slices:
  assumes "base_view_reach st" "unat pps_id < 256" "h264bsdActivateParamSets st pps_id t idr = Some (HANTRO_OK, st')"
    "deref (st_pps st') (st_active_pps st') = Some pps" "deref (st_sps st') (st_active_sps st') = Some sps"
    "pps_no_wrap pps" "unat (pic_size_of sps) < 2 ^ 30" "sps_frame_mbs_only_flag sps \<noteq> 0"
    "readable s" "nal_unit_type nal \<in> {NAL_CODED_SLICE, NAL_CODED_SLICE_IDR}"
  shows "\<exists>r. h264bsdDecodeSliceHeader ub sps pps nal s = Some r
    \<and> (\<forall>h s'. r = Inr (h, s') \<longrightarrow> slice_ok True sps pps nal h \<and> sh_pic_parameter_set_id h = pps_id)"
proof -
  have ok: "store_ok st'" "activated st' pps_id"
    using ActivateParamSets_ok[OF base_view_reach_ok[OF assms(1)] assms(2), of t idr] assms(3) by (auto simp: status_defs)
  then have a: "CheckPps pps sps = Some True" "pps_pic_parameter_set_id pps = pps_id" using assms(4,5) by (auto simp: activated_def)
  have "pps_wf pps" "sps_fine sps" using stored_sets[OF ok(1)] assms(4,5) by auto
  then have "slice_sets sps pps" using a(1) assms(6-8) by (auto simp: slice_sets_def sps_fine_def)
  from DecodeSliceHeader_returns[OF this assms(9), of nal ub] show ?thesis
    using a(2) assms(10) by (auto simp: returns_def slice_ok_def slice_kind_ok_def)
qed

text \<open>
  C6: every slice header of a frame stream is parsed safely: for every pair of sets as the parsers accept them (sps\_wf,
  pps\_wf) that CheckPps accepts, h264bsdDecodeSliceHeader returns on every readable NAL unit of a slice, of either view, without
  leaving the arrays of commands and operations, failing an ASSERT, dividing by zero or shifting by 32; an
  accepted header has its fields in range, fits the kind of the NAL unit and names the picture parameter set. (No code number
  plus one has wrapped around in the picture parameter set, the picture has fewer than 2^30 macroblocks, and
  frame\_mbs\_only\_flag is 1; field\_slice\_overflows shows that the last is needed. That the active pair is one that
  CheckPps accepted is base\_view\_slices for streams of one view, and may fail with two:
  ActivateParamSets\_other\_pair.)
\<close>

theorem DecodeSliceHeader_type:
  assumes "sps_wf mvc u sps" "pps_wf pps" "CheckPps pps sps = Some True"
    "pps_no_wrap pps" "unat (pic_size_of sps) < 2 ^ 30" "sps_frame_mbs_only_flag sps \<noteq> 0"
    "readable s" "nal_unit_type nal \<in> {NAL_CODED_SLICE, NAL_CODED_SLICE_IDR, NAL_CODED_SLICE_EXT}"
  shows "\<exists>r. h264bsdDecodeSliceHeader ub sps pps nal s = Some r
    \<and> (\<forall>h s'. r = Inr (h, s') \<longrightarrow> slice_ok True sps pps nal h \<and> sh_pic_parameter_set_id h = pps_pic_parameter_set_id pps)"
proof -
  have "slice_sets sps pps" using assms(1-6) by (auto simp: slice_sets_def)
  from DecodeSliceHeader_returns[OF this assms(7,8), of ub] show ?thesis
    by (auto simp: returns_def slice_ok_def slice_kind_ok_def)
qed

theorem DecodeSliceHeader_type_witness:
  "\<exists>s r. h264bsdDecodeSliceHeader False (decoded_sps demo_sps) (decoded_pps demo_pps) (zero_nal\<lparr>nal_unit_type := NAL_CODED_SLICE_EXT\<rparr>) s = Some r
    \<and> (\<forall>h s'. r = Inr (h, s') \<longrightarrow> slice_ok True (decoded_sps demo_sps) (decoded_pps demo_pps)
          (zero_nal\<lparr>nal_unit_type := NAL_CODED_SLICE_EXT\<rparr>) h \<and> sh_pic_parameter_set_id h = 1)"
proof -
  have rd: "readable (demo_stream (escape [136, 132]))" using reading_escaped[of "[136, 132]"] by (simp add: reading_def)
  have c: "pps_no_wrap (decoded_pps demo_pps)" "unat (pic_size_of (decoded_sps demo_sps)) < 2 ^ 30"
    "sps_frame_mbs_only_flag (decoded_sps demo_sps) \<noteq> 0" "CheckPps (decoded_pps demo_pps) (decoded_sps demo_sps) = Some True"
    "pps_pic_parameter_set_id (decoded_pps demo_pps) = 1"
    by (simp_all add: pps_no_wrap_def decoded_pps_def zero_pps_def pic_size_of_def decoded_sps_def level_dpb_def sps_dpb_def Let_def
        got_format_def got_crop_def got_size_def got_counts_def got_high_def got_profile_def demo_sps_def demo_pps_def CheckPps_def)
  have n: "nal_unit_type (zero_nal\<lparr>nal_unit_type := NAL_CODED_SLICE_EXT\<rparr>)
      \<in> {NAL_CODED_SLICE, NAL_CODED_SLICE_IDR, NAL_CODED_SLICE_EXT}" by simp
  obtain mvc u where "sps_wf mvc u (decoded_sps demo_sps)" using demo_sps_fine by (auto simp: sps_fine_def)
  from DecodeSliceHeader_type[OF this demo_pps_wf c(4,1-3) rd n, of False] show ?thesis unfolding c(5) by blast
qed

text \<open>
  C18: a field slice can write beyond the reordering commands: the array has 17 entries, but a field may have 32 reference
  indices and as many commands plus one; with a picture parameter set of more than 16 indices, a P field slice
  whose bits are ones but for num\_ref\_idx\_active\_override\_flag makes RefPicListReordering store an 18th command.
\<close>

theorem field_slice_overflows:
  assumes "reading s (replicate 3 True @ replicate k True @ [True, True] @ replicate l True @ False # replicate 36 True @ r)"
    and sets: "sps_max_frame_num sps = 2 ^ k" "4 \<le> k" "k \<le> 16" "sps_max_pic_order_cnt_lsb sps = 2 ^ l" "4 \<le> l" "l \<le> 16"
    "sps_pic_order_cnt_type sps = 0" "sps_frame_mbs_only_flag sps = 0" "sps_num_ref_frames sps \<noteq> 0" "pic_size_of sps \<noteq> 0"
    "pps_pic_parameter_set_id pps = 0" "pps_redundant_pic_cnt_present_flag pps = 0" "16 < unat (pps_num_ref_idx_l0_active pps)"
    "nal_unit_type nal = NAL_CODED_SLICE"
  shows "h264bsdDecodeSliceHeader ub sps pps nal s = None"
proof -
  have bits: "reading s (True # True # True # replicate k True @ True # True # replicate l True @ False # True # replicate 35 True @ r)"
    using assms(1) by (simp add: numeral_3_eq_3 numeral_2_eq_2 numeral_eq_Suc)
  obtain s1 s2 s3 where s3: "h264bsdDecodeExpGolombUnsigned s 0 = Some (HANTRO_OK, 0, s1)"
    "h264bsdDecodeExpGolombUnsigned s1 0 = Some (HANTRO_OK, 0, s2)" "h264bsdDecodeExpGolombUnsigned s2 0 = Some (HANTRO_OK, 0, s3)"
    "reading s3 (replicate k True @ True # True # replicate l True @ False # True # replicate 35 True @ r)"
    using bits ones_ue by meson
  obtain s4 where s4: "h264bsdGetBits s3 k = Some (mask k, s4)" "mask k \<noteq> END_OF_STREAM"
    "reading s4 (True # True # replicate l True @ False # True # replicate 35 True @ r)"
    using ones_u[OF s3(4)] sets(2,3) by auto
  obtain s5 where s5: "h264bsdGetBits s4 1 = Some (1, s5)" "reading s5 (True # replicate l True @ False # True # replicate 35 True @ r)"
    using bit_u[OF s4(3)] by (auto simp: flag_bit_def)
  obtain s6 where s6: "h264bsdGetBits s5 1 = Some (1, s6)" "reading s6 (replicate l True @ False # True # replicate 35 True @ r)"
    using bit_u[OF s5(2)] by (auto simp: flag_bit_def)
  then have "reading (s6\<lparr>sd_emul_count := 0\<rparr>) (replicate l True @ False # True # replicate 35 True @ r)"
    by (simp add: reading_def sd_rest_def sd_bytes_def)
  then obtain s7 where s7: "h264bsdGetBits (s6\<lparr>sd_emul_count := 0\<rparr>) l = Some (mask l, s7)" "mask l \<noteq> END_OF_STREAM"
    "reading s7 (False # True # replicate 35 True @ r)"
    using ones_u[of _ l] sets(5,6) by fastforce
  obtain s8 where s8: "h264bsdGetBits s7 1 = Some (0, s8)" "reading s8 (True # replicate 35 True @ r)"
    using bit_u[OF s7(3)] by (auto simp: flag_bit_def)
  obtain s9 where s9: "h264bsdGetBits s8 1 = Some (1, s9)" "reading s9 (replicate (2 * 17 + 1) True @ r)"
    using bit_u[OF s8(2)] by (auto simp: flag_bit_def)
  have mx: "2 * sps_max_frame_num sps \<noteq> 0"
  proof -
    have "bit (2 ^ Suc k :: 32 word) (Suc k)" using sets(3) by (simp add: bit_exp_iff del: power_Suc)
    then show ?thesis unfolding sets(1) by (metis bit_0_eq bot_apply bot_bool_def power_Suc)
  qed
  have "reorder_loop (unat (pps_num_ref_idx_l0_active pps) + 1) 0 (2 * sps_max_frame_num sps) False (rl_command zero_reordering) g s9 = None"
    for g :: "nat \<Rightarrow> reordering_op list \<Rightarrow> strm_data \<Rightarrow> slice_result"
    using sets(13) by (intro reorder_ones[OF mx s9(2)]) (simp_all add: zero_reordering_def MAX_NUM_REF_PICS_def)
  moreover have "IS_P_SLICE 0" "\<not> IS_B_SLICE 0" "\<not> IS_I_SLICE 0" "\<not> IS_IDR_NAL_UNIT nal" "NAL_CODED_SLICE \<noteq> NAL_CODED_SLICE_IDR"
    "NAL_CODED_SLICE \<noteq> NAL_CODED_SLICE_EXT" "sh_field_pic_flag zero_slice_header = 0" "sh_reordering_l0 zero_slice_header = zero_reordering"
    using sets(14) by (simp_all add: IS_P_SLICE_def IS_B_SLICE_def IS_I_SLICE_def I_SLICE_def P_SLICE_def B_SLICE_def nal_type_defs IS_IDR_NAL_UNIT_def zero_slice_header_def)
  ultimately show ?thesis
    using s3 s4 s5 s6(1) s7 s8 s9(1) mx sets
    by (simp del: reorder_loop.simps add: h264bsdDecodeSliceHeader_def sh_ids_def sh_frame_def sh_field_def sh_idr_def sh_poc_def sh_poc0_def sh_poc1_def
        poc_lengths_def sh_redundant_def sh_direct_def sh_ref_counts_def sh_reorder_def RefPicListReordering_def
        read_ue_def read_u_def read_log2_def log2_bits_power status_defs Let_def)
qed

theorem field_slice_overflows_witness:
  "h264bsdDecodeSliceHeader False
     ((decoded_sps demo_sps)\<lparr>sps_max_frame_num := 16, sps_pic_order_cnt_type := 0, sps_max_pic_order_cnt_lsb := 16,
        sps_num_ref_frames := 1, sps_pic_width_in_mbs := 1, sps_pic_height_in_mbs := 2, sps_frame_mbs_only_flag := 0\<rparr>)
     (zero_pps\<lparr>pps_num_ref_idx_l0_active := 17\<rparr>) (zero_nal\<lparr>nal_unit_type := NAL_CODED_SLICE\<rparr>)
     (demo_stream (escape [0xFF, 0xFB, 0xFF, 0xFF, 0xFF, 0xFF, 0xFF])) = None" (is "h264bsdDecodeSliceHeader _ ?sps ?pps ?nal ?s = None")
proof -
  have "bits_of [0xFF, 0xFB, 0xFF, 0xFF, 0xFF, 0xFF, 0xFF]
      = replicate 3 True @ replicate 4 True @ [True, True] @ replicate 4 True @ False # replicate 36 True @ replicate 6 True"
    by code_simp
  moreover have "length [0xFF, 0xFB, 0xFF, 0xFF, 0xFF, 0xFF, 0xFF :: 8 word] < 2 ^ 27" by simp
  ultimately have "reading ?s (replicate 3 True @ replicate 4 True @ [True, True] @ replicate 4 True @ False # replicate 36 True @ replicate 6 True)"
    using reading_escaped by metis
  then show ?thesis
    by (rule field_slice_overflows) (simp_all add: pic_size_of_def zero_pps_def)
qed

end
