(* ===== verification/H264SliceSame.thy ===== *)
theory H264SliceSame
  imports H264SliceField
begin

text \<open>
  The functions that look at a field of the header of the next slice agree with the parser of slice headers: both read the same
  codes at the same places (header\_peeks).
\<close>

subsection \<open>The count of emulation prevention bytes\<close>

text \<open>The parser sets it to 0 before the picture order count, the peeks do not; no value depends on it.\<close>

definition same :: "strm_data \<Rightarrow> strm_data \<Rightarrow> bool" where
  "same s t = (s\<lparr>sd_emul_count := 0\<rparr> = t\<lparr>sd_emul_count := 0\<rparr>)"

lemma same_iff: "same s t = (sd_buf t = sd_buf s \<and> sd_pos t = sd_pos s \<and> sd_bit_pos t = sd_bit_pos s \<and> sd_read_bits t = sd_read_bits s
    \<and> sd_data_size t = sd_data_size s \<and> sd_remove_emul3 t = sd_remove_emul3 s \<and> sd_dangling t = sd_dangling s)"
  by (cases s; cases t) (auto simp: same_def)

lemma same_reads:
  assumes "same s t"
  shows "read_byte t p = read_byte s p" "strm_pre t = strm_pre s" "at_emulation t p n = at_emulation s p n" "at_start_code t p n = at_start_code s p n"
    "turn_around t n = turn_around s n"
  using assms by (simp_all add: same_iff read_byte_def strm_pre_def at_emulation_def at_start_code_def turn_around_def SwTurnAround_def Let_def)

lemma same_show_loop: "same s t \<Longrightarrow> show_loop t n p out ob bits trb = show_loop s n p out ob bits trb"
proof (induction "n - ob" arbitrary: p out ob bits trb rule: less_induct)
  case less
  show ?case
    by (subst (1 2) show_loop.simps) (auto simp: same_reads[OF less(2)] Let_def intro!: Option.bind_cong less(1)[OF _ less(2)])
qed

lemma same_show_tail: "same s t \<Longrightarrow> show_tail t p out shift bits = show_tail s p out shift bits"
proof (induction "nat bits" arbitrary: p out shift bits rule: less_induct)
  case less
  show ?case
    by (subst (1 2) show_tail.simps) (auto simp: same_reads[OF less(2)] intro!: Option.bind_cong less(1)[OF _ less(2)])
qed

lemma same_ShowBits: "same s t \<Longrightarrow> h264bsdShowBits t n = h264bsdShowBits s n"
proof -
  assume st: "same s t"
  then have "sd_pos t = sd_pos s" "sd_bit_pos t = sd_bit_pos s" "sd_read_bits t = sd_read_bits s" "sd_data_size t = sd_data_size s"
    "sd_remove_emul3 t = sd_remove_emul3 s" by (simp_all add: same_iff)
  note fields = this same_reads[OF st] same_show_loop[OF st] same_show_tail[OF st]
  show ?thesis unfolding h264bsdShowBits_def fields ..
qed

text \<open>Two outcomes that differ in the count only\<close>

abbreviation alike :: "('a \<times> strm_data) option \<Rightarrow> ('a \<times> strm_data) option \<Rightarrow> bool" where
  "alike \<equiv> rel_option (rel_prod (=) same)"

lemma rel_bind: "rel_option A x y \<Longrightarrow> (\<And>a b. A a b \<Longrightarrow> rel_option B (f a) (g b)) \<Longrightarrow> rel_option B (Option.bind x f) (Option.bind y g)"
  by (cases x; cases y) auto

lemma same_skip: "same s t \<Longrightarrow> rel_option (rel_prod same (=)) (skip_emulation s p b) (skip_emulation t p b)"
proof -
  assume st: "same s t"
  then have "sd_read_bits t = sd_read_bits s" by (simp add: same_iff)
  note fields = this same_reads[OF st]
  show ?thesis unfolding skip_emulation_def fields
    by (rule rel_bind[where A = "(=)"]) (use st in \<open>auto simp: option.rel_refl same_iff\<close>)
qed

abbreviation alike_loop :: "(strm_data \<times> nat + strm_data \<times> nat \<times> nat \<times> nat) option \<Rightarrow> (strm_data \<times> nat + strm_data \<times> nat \<times> nat \<times> nat) option \<Rightarrow> bool" where
  "alike_loop \<equiv> rel_option (rel_sum (rel_prod same (=)) (rel_prod same (=)))"

lemma same_flush_loop: "same s t \<Longrightarrow> alike_loop (flush_loop s p n b) (flush_loop t p n b)"
proof (induction n arbitrary: s t p b rule: less_induct)
  case (less n)
  have rb: "sd_read_bits t = sd_read_bits s" using less(2) by (simp add: same_iff)
  show ?case
  proof (cases "8 \<le> n \<and> b \<noteq> 0")
    case True
    have "same (s\<lparr>sd_read_bits := x\<rparr>) (t\<lparr>sd_read_bits := x\<rparr>)" for x using less(2) by (simp add: same_iff)
    from rel_bind[OF same_skip[OF this], of _ "\<lambda>(s, p, b). flush_loop s p (n - 8) b" "\<lambda>(s, p, b). flush_loop s p (n - 8) b"]
    have "alike_loop (Option.bind (skip_emulation (s\<lparr>sd_read_bits := x\<rparr>) q c) (\<lambda>(s, p, b). flush_loop s p (n - 8) b))
        (Option.bind (skip_emulation (t\<lparr>sd_read_bits := x\<rparr>) q c) (\<lambda>(s, p, b). flush_loop s p (n - 8) b))" for x q c
      using less(1)[of "n - 8"] True by fastforce
    with True less(2) show ?thesis
      by (subst (1 2) flush_loop.simps)
        (auto simp: same_reads[OF less(2)] rb option.rel_refl split: if_splits intro!: rel_bind[where A = "(=)"])
  qed (use less(2) in \<open>auto simp: flush_loop.simps[of s] flush_loop.simps[of t]\<close>)
qed

lemma alike_bind:
  "alike x y \<Longrightarrow> (\<And>v s t. same s t \<Longrightarrow> rel_option B (f v s) (f v t)) \<Longrightarrow> rel_option B (Option.bind x (case_prod f)) (Option.bind y (case_prod f))"
  by (erule rel_bind) auto

lemma rel_value: "(\<And>v. rel_option B (f v) (g v)) \<Longrightarrow> rel_option B (Option.bind x f) (Option.bind x g)"
  by (cases x) auto

lemma rel_if: "(c \<Longrightarrow> rel_option B a b) \<Longrightarrow> (\<not> c \<Longrightarrow> rel_option B a' b') \<Longrightarrow> rel_option B (if c then a else a') (if c then b else b')"
  by simp

lemma same_flush_aligned: "same s t \<Longrightarrow> alike (flush_aligned turn s p n b) (flush_aligned turn t p n b)"
  unfolding flush_aligned_def
proof (rule rel_bind[OF same_flush_loop], assumption)
  fix r r' :: "strm_data \<times> nat + strm_data \<times> nat \<times> nat \<times> nat"
  assume "rel_sum (rel_prod same (=)) (rel_prod same (=)) r r'"
  then consider (early) s p t where "r = Inl (s, p)" "r' = Inl (t, p)" "same s t"
    | (late) s p n b t where "r = Inr (s, p, n, b)" "r' = Inr (t, p, n, b)" "same s t"
    by (auto elim!: rel_sum.cases)
  then show "alike
      (case r of Inl (s, p) \<Rightarrow> Some (HANTRO_NOK, s\<lparr>sd_pos := p, sd_dangling := turn\<rparr>)
       | Inr (s, p, num_bits, bytes_left) \<Rightarrow>
         if num_bits \<noteq> 0 \<and> bytes_left \<noteq> 0 then do {
           sc \<leftarrow> at_start_code s p bytes_left;
           if sc then Some (HANTRO_NOK, s\<lparr>sd_pos := p, sd_dangling := turn\<rparr>)
           else Some (HANTRO_OK, s\<lparr>sd_read_bits := u32 (sd_read_bits s + num_bits), sd_bit_pos := num_bits, sd_pos := p\<rparr>)
         }
         else Some (if num_bits \<noteq> 0 then END_OF_STREAM else HANTRO_OK, s\<lparr>sd_pos := p\<rparr>))
      (case r' of Inl (s, p) \<Rightarrow> Some (HANTRO_NOK, s\<lparr>sd_pos := p, sd_dangling := turn\<rparr>)
       | Inr (s, p, num_bits, bytes_left) \<Rightarrow>
         if num_bits \<noteq> 0 \<and> bytes_left \<noteq> 0 then do {
           sc \<leftarrow> at_start_code s p bytes_left;
           if sc then Some (HANTRO_NOK, s\<lparr>sd_pos := p, sd_dangling := turn\<rparr>)
           else Some (HANTRO_OK, s\<lparr>sd_read_bits := u32 (sd_read_bits s + num_bits), sd_bit_pos := num_bits, sd_pos := p\<rparr>)
         }
         else Some (if num_bits \<noteq> 0 then END_OF_STREAM else HANTRO_OK, s\<lparr>sd_pos := p\<rparr>))"
  proof cases
    case late
    then show ?thesis
      by (auto simp: same_reads[OF late(3)] option.rel_refl split: if_splits intro!: rel_bind[where A = "(=)"])
        (use late(3) in \<open>auto simp: same_iff\<close>)
  qed (simp add: same_iff)
qed

lemma same_FlushBits: "same s t \<Longrightarrow> alike (h264bsdFlushBits s n) (h264bsdFlushBits t n)"
proof -
  assume st: "same s t"
  then have fields: "sd_pos t = sd_pos s" "sd_bit_pos t = sd_bit_pos s" "sd_read_bits t = sd_read_bits s" "sd_data_size t = sd_data_size s"
    "sd_remove_emul3 t = sd_remove_emul3 s" by (simp_all add: same_iff)
  have upd: "same (s\<lparr>sd_read_bits := x, sd_bit_pos := y\<rparr>) (t\<lparr>sd_read_bits := x, sd_bit_pos := y\<rparr>)" for x y
    using st by (simp add: same_iff)
  show ?thesis
    unfolding h264bsdFlushBits_def Let_def fields same_reads[OF st]
    using st
    by (auto simp: same_iff[of s t] intro!: rel_bind[OF same_skip[OF upd]] same_flush_aligned) (auto simp: same_iff)
qed

lemma same_GetBits: "same s t \<Longrightarrow> alike (h264bsdGetBits s n) (h264bsdGetBits t n)"
  unfolding h264bsdGetBits_def Let_def
  by (simp only: same_ShowBits) (intro rel_if rel_value alike_bind[OF same_FlushBits]; simp)

abbreviation alike_code :: "(32 word \<times> 32 word \<times> strm_data) option \<Rightarrow> (32 word \<times> 32 word \<times> strm_data) option \<Rightarrow> bool" where
  "alike_code \<equiv> rel_option (rel_prod (=) (rel_prod (=) same))"

lemma same_flush_then:
  "same s t \<Longrightarrow> (\<And>s t. same s t \<Longrightarrow> alike_code (k s) (k t)) \<Longrightarrow> alike_code (flush_then s n c k) (flush_then t n c k)"
  unfolding flush_then_def by (rule alike_bind[OF same_FlushBits]) auto

lemma same_Unsigned: "same s t \<Longrightarrow> alike_code (h264bsdDecodeExpGolombUnsigned s c) (h264bsdDecodeExpGolombUnsigned t c)"
  unfolding h264bsdDecodeExpGolombUnsigned_def Let_def
  by (simp only: same_ShowBits)
    (intro rel_if rel_value same_flush_then alike_bind[OF same_GetBits]; (assumption | simp add: same_ShowBits)?;
     intro rel_value same_flush_then; simp)

lemma same_Signed: "same s t \<Longrightarrow> alike_code (h264bsdDecodeExpGolombSigned s c) (h264bsdDecodeExpGolombSigned t c)"
  unfolding h264bsdDecodeExpGolombSigned_def by (rule rel_bind[OF same_Unsigned]) auto

subsection \<open>What an accepted header comes from\<close>

text \<open>Q holds for the header, if the rest of the parser accepts one.\<close>

definition gives :: "(slice_header \<Rightarrow> bool) \<Rightarrow> slice_result \<Rightarrow> bool" where
  "gives Q r = (\<forall>h s. r = Some (Inr (h, s)) \<longrightarrow> Q h)"

lemma gives_end [simp]: "gives Q (Some (Inr (h, s))) = Q h" "gives Q (Some (Inl e))" "gives Q None"
  "gives Q (failed e s)" "gives Q (failed_ue e v s)"
  by (auto simp: gives_def failed_def failed_ue_def)

lemma gives_bind: "(\<And>v. r = Some v \<Longrightarrow> gives Q (f v)) \<Longrightarrow> gives Q (Option.bind r f)"
  by (cases r) auto

lemma gives_if: "(c \<Longrightarrow> gives Q a) \<Longrightarrow> (\<not> c \<Longrightarrow> gives Q b) \<Longrightarrow> gives Q (if c then a else b)"
  by simp

lemma gives_step: "(c \<Longrightarrow> gives Q (f s)) \<Longrightarrow> (\<not> c \<Longrightarrow> gives Q (g s)) \<Longrightarrow> gives Q ((if c then f else g) s)"
  by simp

lemma gives_ue:
  "(\<And>v s'. h264bsdDecodeExpGolombUnsigned s c = Some (HANTRO_OK, v, s') \<Longrightarrow> gives Q (k v s')) \<Longrightarrow> gives Q (read_ue c failed_ue k s)"
  "(\<And>v s'. h264bsdDecodeExpGolombUnsigned s c = Some (HANTRO_OK, v, s') \<Longrightarrow> gives Q (k v s'))
     \<Longrightarrow> gives Q (read_ue c (\<lambda>_ _. failed e) k s)"
  unfolding read_ue_def by (rule gives_bind; auto)+

lemma gives_se:
  "(\<And>v s'. h264bsdDecodeExpGolombSigned s 0 = Some (HANTRO_OK, v, s') \<Longrightarrow> gives Q (k (sint v) s')) \<Longrightarrow> gives Q (read_se failed_ue k s)"
  unfolding read_se_def by (rule gives_bind; auto)

lemma gives_u:
  "(\<And>v s'. h264bsdGetBits s n = Some (v, s') \<Longrightarrow> v \<noteq> END_OF_STREAM \<Longrightarrow> gives Q (k v s')) \<Longrightarrow> gives Q (read_u n (failed e) k s)"
  unfolding read_u_def by (rule gives_bind; auto)

lemma gives_log2:
  "(\<And>n v s'. log2_bits x = Some n \<Longrightarrow> h264bsdGetBits s n = Some (v, s') \<Longrightarrow> v \<noteq> END_OF_STREAM \<Longrightarrow> gives Q (k v s'))
     \<Longrightarrow> gives Q (read_log2 x (failed e) k s)"
  unfolding read_log2_def by (rule gives_bind, rule gives_u)

lemmas gives_intros = gives_ue gives_se gives_u gives_log2 gives_step gives_if

text \<open>The stages after the picture order count do not change what they do not read.\<close>

definition same_start :: "slice_header \<Rightarrow> slice_header \<Rightarrow> bool" where
  "same_start h h' = (sh_first_mb_in_slice h' = sh_first_mb_in_slice h \<and> sh_slice_type h' = sh_slice_type h
     \<and> sh_pic_parameter_set_id h' = sh_pic_parameter_set_id h \<and> sh_frame_num h' = sh_frame_num h \<and> sh_idr_pic_id h' = sh_idr_pic_id h
     \<and> sh_pic_order_cnt_lsb h' = sh_pic_order_cnt_lsb h \<and> sh_delta_pic_order_cnt_bottom h' = sh_delta_pic_order_cnt_bottom h
     \<and> sh_delta_pic_order_cnt h' = sh_delta_pic_order_cnt h \<and> sh_field_pic_flag h' = sh_field_pic_flag h
     \<and> sh_bottom_field_flag h' = sh_bottom_field_flag h)"

definition keeps :: "slice_step \<Rightarrow> bool" where
  "keeps stage = (\<forall>Q h k s. (\<forall>h' s'. same_start h h' \<longrightarrow> gives Q (k h' s')) \<longrightarrow> gives Q (stage h k s))"

lemma keeps_redundant: "keeps (sh_redundant pps)"
  unfolding keeps_def sh_redundant_def by (intro allI impI gives_intros) (auto simp: same_start_def)

lemma keeps_direct: "keeps sh_direct"
  unfolding keeps_def sh_direct_def by (intro allI impI gives_intros) (auto simp: same_start_def)

lemma keeps_ref_counts: "keeps (sh_ref_counts pps)"
  unfolding keeps_def sh_ref_counts_def Let_def by (intro allI impI gives_intros) (auto simp: same_start_def)

lemma gives_reorder_operand: "(\<And>m s'. gives Q (k m s')) \<Longrightarrow> gives Q (reorder_operand c mx m k s)"
  unfolding reorder_operand_def by (intro gives_intros) auto

lemma gives_reorder_loop: "(\<And>i cs s'. gives Q (k i cs s')) \<Longrightarrow> gives Q (reorder_loop n i mx mvc cs k s)"
proof (induction n arbitrary: i cs s)
  case (Suc n)
  then show ?case unfolding reorder_loop.simps Let_def
    by (intro gives_intros gives_bind gives_reorder_operand) auto
qed simp

lemma gives_RefPicListReordering: "(\<And>rl s'. gives Q (k rl s')) \<Longrightarrow> gives Q (RefPicListReordering n mx mvc rl k s)"
  unfolding RefPicListReordering_def Let_def by (intro gives_intros gives_reorder_loop) auto

lemma keeps_reorder: "keeps (sh_reorder sps nal)"
  unfolding keeps_def sh_reorder_def Let_def
  by (intro allI impI gives_step gives_RefPicListReordering) (auto simp: same_start_def)

lemma gives_skip_ses: "(\<And>s'. gives Q (k s')) \<Longrightarrow> gives Q (skip_ses n k s)"
  by (induction n arbitrary: s) (auto intro!: gives_bind)

lemma gives_skip_weights: "(\<And>s'. gives Q (k s')) \<Longrightarrow> gives Q (skip_weights n grey k s)"
proof (induction n arbitrary: s)
  case (Suc n)
  then show ?case by (auto simp: Let_def read_any_def intro!: gives_bind gives_skip_ses)
qed simp

lemma gives_PredWeightTable: "(\<And>s'. gives Q (k s')) \<Longrightarrow> gives Q (PredWeightTable h grey k s)"
  unfolding PredWeightTable_def Let_def skip_ue_def by (auto intro!: gives_bind gives_skip_weights)

lemma keeps_weights: "keeps (sh_weights sps pps)"
  unfolding keeps_def sh_weights_def by (auto intro!: gives_PredWeightTable simp: same_start_def)

lemma gives_mmc_loop: "(\<And>c ms s'. gives Q (k c ms s')) \<Longrightarrow> gives Q (mmc_loop n i nr c ms k s)"
proof (induction n arbitrary: i c ms s)
  case (Suc n)
  then show ?case unfolding mmc_loop.simps mmc_difference_def mmc_long_term_def mmc_max_index_def Let_def
    by (intro gives_intros gives_bind) auto
qed simp

lemma gives_DecRefPicMarking: "(\<And>d s'. gives Q (k d s')) \<Longrightarrow> gives Q (DecRefPicMarking idr nr d k s)"
  unfolding DecRefPicMarking_def Let_def by (intro gives_intros gives_mmc_loop) auto

lemma keeps_mark: "keeps (sh_mark sps nal)"
  unfolding keeps_def sh_mark_def by (intro allI impI gives_step gives_DecRefPicMarking) (auto simp: same_start_def)

lemma keeps_cabac: "keeps (sh_cabac pps)"
  unfolding keeps_def sh_cabac_def by (intro allI impI gives_intros) (auto simp: same_start_def)

lemma keeps_qp: "keeps (sh_qp ub sps pps)"
  unfolding keeps_def sh_qp_def Let_def by (intro allI impI gives_intros) (auto simp: same_start_def)

lemma keeps_deblocking: "keeps (sh_deblocking pps)"
  unfolding keeps_def sh_deblocking_def Let_def by (intro allI impI gives_intros) (auto simp: same_start_def)

lemma keeps_group_cycle: "keeps (sh_group_cycle sps pps)"
  unfolding keeps_def sh_group_cycle_def Let_def by (intro allI impI gives_intros gives_bind) (auto simp: same_start_def)

lemma keepsD: "keeps stage \<Longrightarrow> same_start h0 h \<Longrightarrow> (\<And>h' s'. same_start h0 h' \<Longrightarrow> gives Q (k h' s')) \<Longrightarrow> gives Q (stage h k s)"
  by (auto simp: keeps_def same_start_def)

lemma gives_tail:
  assumes "same_start h0 h" "\<And>h'. same_start h0 h' \<Longrightarrow> Q h'"
  shows "gives Q (sh_redundant pps h (\<lambda>h. sh_direct h (\<lambda>h. sh_ref_counts pps h (\<lambda>h.
         sh_reorder sps nal h (\<lambda>h. sh_weights sps pps h (\<lambda>h. sh_mark sps nal h (\<lambda>h. sh_cabac pps h (\<lambda>h.
         sh_qp ub sps pps h (\<lambda>h. sh_deblocking pps h (\<lambda>h. sh_group_cycle sps pps h (\<lambda>h s. Some (Inr (h, s)))))))))))) s)"
  using assms(2)
  by (intro keepsD[OF keeps_redundant assms(1)]) (auto intro!: keepsD[OF keeps_direct] keepsD[OF keeps_ref_counts] keepsD[OF keeps_reorder]
    keepsD[OF keeps_weights] keepsD[OF keeps_mark] keepsD[OF keeps_cabac] keepsD[OF keeps_qp] keepsD[OF keeps_deblocking]
    keepsD[OF keeps_group_cycle])

subsection \<open>The peeks\<close>

lemma log2_bits_0: "log2_bits 0 = None"
  by (simp add: log2_bits_def numeral_eq_Suc)

text \<open>What the peeks find up to idr\_pic\_id, with the stream after it; idr is IS\_IDR\_NAL\_UNIT.\<close>

definition start_peeks :: "seq_param_set \<Rightarrow> nal_unit \<Rightarrow> strm_data \<Rightarrow> slice_header \<Rightarrow> bool" where
  "start_peeks sps nal s h =
     (let mx = sps_max_frame_num sps; present = (sps_frame_mbs_only_flag sps = 0) in
      (sh_pic_parameter_set_id h < MAX_NUM_PIC_PARAM_SETS \<longrightarrow> h264bsdCheckPpsId s = Some (Inr (sh_pic_parameter_set_id h, sh_slice_type h)))
      \<and> h264bsdCheckFrameNum s mx = Some (Inr (sh_frame_num h))
      \<and> h264bsdCheckFieldPicFlag s mx present = Some (Inr (if present then Some (sh_field_pic_flag h) else None))
      \<and> h264bsdCheckBottomFieldFlag s mx present
          = Some (Inr (if present \<and> sh_field_pic_flag h \<noteq> 0 then Some (sh_bottom_field_flag h) else None))
      \<and> (nal_unit_type nal = NAL_CODED_SLICE_IDR \<longrightarrow> h264bsdCheckIdrPicId s mx NAL_CODED_SLICE_IDR present = Some (Inr (sh_idr_pic_id h)))
      \<and> (\<not> present \<longrightarrow> sh_field_pic_flag h = 0) \<and> (sh_field_pic_flag h = 0 \<longrightarrow> sh_bottom_field_flag h = 0))"

lemma gives_start:
  assumes "\<And>h s'. start_peeks sps nal s h \<Longrightarrow> skip_idr (IS_IDR_NAL_UNIT nal) sps (\<lambda>f s. Some (Inr (f, s))) s = Some (Inr (sh_field_pic_flag h, s'))
    \<Longrightarrow> gives Q (k h s')"
  shows "gives Q (sh_ids sps pps nal zero_slice_header (\<lambda>h. sh_frame sps h (\<lambda>h. sh_field sps h (\<lambda>h. sh_idr nal h k))) s)"
  unfolding sh_ids_def sh_frame_def sh_field_def sh_idr_def Let_def
  by (intro gives_intros gives_end; (rule assms)?)
    (simp_all add: start_peeks_def Let_def h264bsdCheckPpsId_def h264bsdCheckFrameNum_def h264bsdCheckFieldPicFlag_def
      h264bsdCheckBottomFieldFlag_def h264bsdCheckIdrPicId_def skip_ids_def skip_frame_num_def skip_field_def skip_idr_def
      read_ue_def read_log2_def read_u_def peeked_def status_defs,
      auto simp: log2_bits_0 IS_IDR_NAL_UNIT_def zero_slice_header_def)

lemma via_ue: "(read_ue c failed_ue j s = Some (Inr x)) = (\<exists>v s'. h264bsdDecodeExpGolombUnsigned s c = Some (HANTRO_OK, v, s') \<and> j v s' = Some (Inr x))"
  by (auto simp: read_ue_def failed_ue_def split: Option.bind_splits if_splits)

lemma via_u: "(read_u n (failed e) j s = Some (Inr x)) = (\<exists>v s'. h264bsdGetBits s n = Some (v, s') \<and> v \<noteq> END_OF_STREAM \<and> j v s' = Some (Inr x))"
  by (auto simp: read_u_def failed_def split: Option.bind_splits if_splits)

lemma skip_idr_via:
  assumes "skip_idr idr sps (\<lambda>f s. Some (Inr (f, s))) s = Some (Inr (f, s'))"
  shows "skip_idr idr sps k s = k f s'"
proof -
  obtain n where n: "log2_bits (sps_max_frame_num sps) = Some n"
    using assms by (cases "log2_bits (sps_max_frame_num sps)")
      (auto simp: skip_idr_def skip_frame_num_def skip_ids_def via_ue read_log2_def)
  then obtain s1 s2 s3 s4 v1 v2 v3 v4 where start: "h264bsdDecodeExpGolombUnsigned s 0 = Some (HANTRO_OK, v1, s1)"
    "h264bsdDecodeExpGolombUnsigned s1 0 = Some (HANTRO_OK, v2, s2)" "h264bsdDecodeExpGolombUnsigned s2 0 = Some (HANTRO_OK, v3, s3)"
    "h264bsdGetBits s3 n = Some (v4, s4)" "v4 \<noteq> END_OF_STREAM"
    and rest: "skip_field (sps_frame_mbs_only_flag sps = 0) (\<lambda>field. if idr then read_ue 0 failed_ue (\<lambda>_ s. Some (Inr (field, s)))
        else (\<lambda>s. Some (Inr (field, s)))) s4 = Some (Inr (f, s'))"
    using assms by (auto simp: skip_idr_def skip_frame_num_def skip_ids_def via_ue via_u read_log2_def)
  have "skip_field (sps_frame_mbs_only_flag sps = 0) (\<lambda>field. if idr then read_ue 0 failed_ue (\<lambda>_. k field) else k field) s4 = k f s'"
    using rest by (auto simp: skip_field_def via_ue via_u split: if_splits) (auto simp: read_ue_def read_u_def)
  then show ?thesis using start n
    by (simp add: skip_idr_def skip_frame_num_def skip_ids_def read_ue_def read_u_def read_log2_def)
qed

text \<open>What the peeks find of the picture order count\<close>

definition poc_peeks :: "seq_param_set \<Rightarrow> pic_param_set \<Rightarrow> nal_unit \<Rightarrow> strm_data \<Rightarrow> slice_header \<Rightarrow> bool" where
  "poc_peeks sps pps nal s h =
     (let t = nal_unit_type nal; second = (pps_pic_order_present_flag pps \<noteq> 0 \<and> sh_field_pic_flag h = 0) in
      (sps_pic_order_cnt_type sps = 0 \<longrightarrow> h264bsdCheckPicOrderCntLsb s sps t = Some (Inr (sh_pic_order_cnt_lsb h))
         \<and> (second \<longrightarrow> h264bsdCheckDeltaPicOrderCntBottom s sps t = Some (Inr (sh_delta_pic_order_cnt_bottom h))))
      \<and> (sps_pic_order_cnt_type sps = 1 \<and> sps_delta_pic_order_always_zero_flag sps = 0 \<longrightarrow>
          h264bsdCheckDeltaPicOrderCnt s sps t (pps_pic_order_present_flag pps \<noteq> 0)
            = Some (Inr (fst (sh_delta_pic_order_cnt h), if second then Some (snd (sh_delta_pic_order_cnt h)) else None))))"

definition same_ids :: "slice_header \<Rightarrow> slice_header \<Rightarrow> bool" where
  "same_ids h h' = (sh_slice_type h' = sh_slice_type h \<and> sh_pic_parameter_set_id h' = sh_pic_parameter_set_id h
     \<and> sh_frame_num h' = sh_frame_num h \<and> sh_idr_pic_id h' = sh_idr_pic_id h
     \<and> sh_field_pic_flag h' = sh_field_pic_flag h \<and> sh_bottom_field_flag h' = sh_bottom_field_flag h)"

lemma gives_log2_same:
  assumes "same t s" "\<And>n v s' t'. log2_bits x = Some n \<Longrightarrow> h264bsdGetBits s n = Some (v, s') \<Longrightarrow> same t' s' \<Longrightarrow> v \<noteq> END_OF_STREAM
     \<Longrightarrow> gives Q (k v t')"
  shows "gives Q (read_log2 x (failed e) k t)"
proof (rule gives_log2)
  fix n v t' assume "log2_bits x = Some n" "h264bsdGetBits t n = Some (v, t')" "v \<noteq> END_OF_STREAM"
  then show "gives Q (k v t')" using assms(2) same_GetBits[OF assms(1), of n] by (cases "h264bsdGetBits s n") auto
qed

lemma gives_se_same:
  assumes "same t s" "\<And>v s' t'. h264bsdDecodeExpGolombSigned s 0 = Some (HANTRO_OK, v, s') \<Longrightarrow> same t' s' \<Longrightarrow> gives Q (k (sint v) t')"
  shows "gives Q (read_se failed_ue k t)"
proof (rule gives_se)
  fix v t' assume "h264bsdDecodeExpGolombSigned t 0 = Some (HANTRO_OK, v, t')"
  then show "gives Q (k (sint v) t')" using assms(2) same_Signed[OF assms(1), of 0] by (cases "h264bsdDecodeExpGolombSigned s 0") auto
qed

lemma gives_poc:
  assumes start: "skip_idr (IS_IDR_NAL_UNIT nal) sps (\<lambda>f s. Some (Inr (f, s))) s0 = Some (Inr (sh_field_pic_flag h, s))"
    and "IS_IDR_NAL_UNIT nal = (nal_unit_type nal = NAL_CODED_SLICE_IDR)" "sps_max_frame_num sps \<noteq> 0"
    and Q: "\<And>h' s'. poc_peeks sps pps nal s0 h' \<Longrightarrow> same_ids h h' \<Longrightarrow> gives Q (k h' s')"
  shows "gives Q (sh_poc ub sps pps nal h k s)"
proof -
  have emul: "same (s\<lparr>sd_emul_count := 0\<rparr>) s" by (simp add: same_iff)
  show ?thesis
    unfolding sh_poc_def sh_poc0_def sh_poc1_def poc_lengths_def Let_def
    by (insert emul, intro gives_step gives_if gives_log2_same gives_se_same gives_end; (assumption | rule Q)?)
      (simp_all add: poc_peeks_def same_ids_def Let_def h264bsdCheckPicOrderCntLsb_def h264bsdCheckDeltaPicOrderCntBottom_def
        h264bsdCheckDeltaPicOrderCnt_def assms(2,3) skip_idr_via[OF start[unfolded assms(2)]] read_log2_def read_u_def read_se_def peeked_def,
        auto simp: log2_bits_0)
qed

lemma same_start_ids: "same_start h h' \<Longrightarrow> same_ids h h'"
  by (simp add: same_start_def same_ids_def)

lemma start_peeks_same: "same_ids h h' \<Longrightarrow> start_peeks sps nal s h \<Longrightarrow> start_peeks sps nal s h'"
  by (simp add: start_peeks_def same_ids_def Let_def)

lemma poc_peeks_same: "same_start h h' \<Longrightarrow> poc_peeks sps pps nal s h \<Longrightarrow> poc_peeks sps pps nal s h'"
  by (simp add: poc_peeks_def same_start_def Let_def)

lemma start_peeks_max: "start_peeks sps nal s h \<Longrightarrow> sps_max_frame_num sps \<noteq> 0"
  by (auto simp: start_peeks_def h264bsdCheckFrameNum_def Let_def)

lemma same_start_refl: "same_start h h"
  by (simp add: same_start_def)

lemma header_peeks:
  assumes "h264bsdDecodeSliceHeader ub sps pps nal s = Some (Inr (h, s'))" "nal_unit_type nal = NAL_CODED_SLICE_EXT \<Longrightarrow> non_idr_flag nal \<noteq> 0"
  shows "start_peeks sps nal s h" "poc_peeks sps pps nal s h"
proof -
  have idr: "IS_IDR_NAL_UNIT nal = (nal_unit_type nal = NAL_CODED_SLICE_IDR)" using assms(2) by (auto simp: IS_IDR_NAL_UNIT_def)
  have "gives (\<lambda>h. start_peeks sps nal s h \<and> poc_peeks sps pps nal s h) (h264bsdDecodeSliceHeader ub sps pps nal s)"
    unfolding h264bsdDecodeSliceHeader_def
    by (rule gives_if, simp, rule gives_start, rule gives_poc, assumption, rule idr, erule start_peeks_max, rule gives_tail, rule same_start_refl)
      (auto intro: start_peeks_same poc_peeks_same same_start_ids)
  with assms(1) show "start_peeks sps nal s h" "poc_peeks sps pps nal s h" by (auto simp: gives_def)
qed

lemma header_kind: "h264bsdDecodeSliceHeader ub sps pps nal s = Some r \<Longrightarrow> nal_unit_type nal \<in> {NAL_CODED_SLICE, NAL_CODED_SLICE_IDR, NAL_CODED_SLICE_EXT}"
  by (auto simp: h264bsdDecodeSliceHeader_def split: if_splits)

end
