(* ===== verification/H264Boundary.thy ===== *)
theory H264Boundary
  imports H264SliceSame
begin

text \<open>
  h264bsdCheckAccessUnitBoundary of h264hwd\_storage.c on slices that the parser accepts: what it compares and what it keeps
  for the next call.
\<close>

subsection \<open>The boundary check\<close>

text \<open>storage->aub->prev\_mod\_frame\_num = storage->aub->prev\_frame\_num \& ~frame\_num\_mask, before every check\<close>

definition mod_frame_num :: "32 word \<Rightarrow> storage \<Rightarrow> storage" where
  "mod_frame_num frame_num_mask st =
     st\<lparr>st_aub := (st_aub st)\<lparr>aub_prev_mod_frame_num := aub_prev_frame_num (st_aub st) AND NOT frame_num_mask\<rparr>\<rparr>"

text \<open>
  The comparison of frame\_num with that of the slice before: prev is the number that is kept, and with the workaround for
  streams that set a bit of the mask by error (h264decapi.c sets the mask to 0x1000) the kept number without this bit
  counts as the same, and is kept. The mask is 0 otherwise, and the comparison exact.
\<close>

definition frame_num_changes :: "32 word \<Rightarrow> 32 word \<Rightarrow> 32 word \<Rightarrow> bool" where
  "frame_num_changes fmask prev n = (n \<noteq> prev \<and> n \<noteq> prev AND NOT fmask)"

definition frame_num_kept :: "32 word \<Rightarrow> 32 word \<Rightarrow> 32 word \<Rightarrow> 32 word" where
  "frame_num_kept fmask prev n = (if frame_num_changes fmask prev n then n else prev)"

lemma frame_num_exact: "frame_num_changes 0 prev n = (n \<noteq> prev)" "frame_num_kept 0 prev n = n"
  by (simp_all add: frame_num_changes_def frame_num_kept_def)

text \<open>Whether a slice (nal', h') belongs to another primary coded picture than the slice (nal, h) before it: the conditions of
  the standard, but for the one on pic\_parameter\_set\_id; frame tells whether frame\_num differs.\<close>

definition other_picture :: "bool \<Rightarrow> seq_param_set \<Rightarrow> pic_param_set \<Rightarrow> nal_unit \<Rightarrow> slice_header \<Rightarrow> nal_unit \<Rightarrow> slice_header \<Rightarrow> bool" where
  "other_picture frame sps pps nal h nal' h' =
     (let idr = (\<lambda>n. nal_unit_type n = NAL_CODED_SLICE_IDR); second = (pps_pic_order_present_flag pps \<noteq> 0) in
      frame \<or> sh_field_pic_flag h \<noteq> sh_field_pic_flag h' \<or> sh_bottom_field_flag h \<noteq> sh_bottom_field_flag h'
      \<or> view_id nal \<noteq> view_id nal' \<or> nal_ref_idc nal \<noteq> nal_ref_idc nal' \<and> (nal_ref_idc nal = 0 \<or> nal_ref_idc nal' = 0)
      \<or> idr nal \<noteq> idr nal' \<or> idr nal \<and> idr nal' \<and> sh_idr_pic_id h \<noteq> sh_idr_pic_id h'
      \<or> sps_pic_order_cnt_type sps = 0
         \<and> (sh_pic_order_cnt_lsb h \<noteq> sh_pic_order_cnt_lsb h'
            \<or> second \<and> sh_delta_pic_order_cnt_bottom h \<noteq> sh_delta_pic_order_cnt_bottom h')
      \<or> sps_pic_order_cnt_type sps = 1 \<and> sps_delta_pic_order_always_zero_flag sps = 0
         \<and> (fst (sh_delta_pic_order_cnt h) \<noteq> fst (sh_delta_pic_order_cnt h')
            \<or> second \<and> snd (sh_delta_pic_order_cnt h) \<noteq> snd (sh_delta_pic_order_cnt h')))"

text \<open>What the check keeps of the last slice\<close>

definition knows :: "32 word \<Rightarrow> seq_param_set \<Rightarrow> pic_param_set \<Rightarrow> nal_unit \<Rightarrow> slice_header \<Rightarrow> aub_check \<Rightarrow> bool" where
  "knows prev sps pps nal h aub =
     (let second = (pps_pic_order_present_flag pps \<noteq> 0) in
      \<not> aub_first_call_flag aub \<and> aub_nu_prev aub = nal \<and> aub_prev_frame_num aub = prev
      \<and> aub_prev_field_pic_flag aub = sh_field_pic_flag h \<and> aub_prev_bottom_field_flag aub = sh_bottom_field_flag h
      \<and> (nal_unit_type nal = NAL_CODED_SLICE_IDR \<longrightarrow> aub_prev_idr_pic_id aub = sh_idr_pic_id h)
      \<and> (sps_pic_order_cnt_type sps = 0 \<longrightarrow> aub_prev_pic_order_cnt_lsb aub = sh_pic_order_cnt_lsb h
         \<and> (second \<longrightarrow> aub_prev_delta_pic_order_cnt_bottom aub = sh_delta_pic_order_cnt_bottom h))
      \<and> (sps_pic_order_cnt_type sps = 1 \<and> sps_delta_pic_order_always_zero_flag sps = 0 \<longrightarrow>
         aub_prev_delta_pic_order_cnt0 aub = fst (sh_delta_pic_order_cnt h)
         \<and> (second \<longrightarrow> aub_prev_delta_pic_order_cnt1 aub = snd (sh_delta_pic_order_cnt h))))"

lemma start_peeksD:
  assumes "start_peeks sps nal s h"
  shows "sh_pic_parameter_set_id h < MAX_NUM_PIC_PARAM_SETS \<Longrightarrow> h264bsdCheckPpsId s = Some (Inr (sh_pic_parameter_set_id h, sh_slice_type h))"
    "h264bsdCheckFrameNum s (sps_max_frame_num sps) = Some (Inr (sh_frame_num h))"
    "h264bsdCheckFieldPicFlag s (sps_max_frame_num sps) (sps_frame_mbs_only_flag sps = 0)
       = Some (Inr (if sps_frame_mbs_only_flag sps = 0 then Some (sh_field_pic_flag h) else None))"
    "h264bsdCheckBottomFieldFlag s (sps_max_frame_num sps) (sps_frame_mbs_only_flag sps = 0)
       = Some (Inr (if sps_frame_mbs_only_flag sps = 0 \<and> sh_field_pic_flag h \<noteq> 0 then Some (sh_bottom_field_flag h) else None))"
    "nal_unit_type nal = NAL_CODED_SLICE_IDR \<Longrightarrow>
       h264bsdCheckIdrPicId s (sps_max_frame_num sps) NAL_CODED_SLICE_IDR (sps_frame_mbs_only_flag sps = 0) = Some (Inr (sh_idr_pic_id h))"
    "sps_frame_mbs_only_flag sps \<noteq> 0 \<Longrightarrow> sh_field_pic_flag h = 0" "sh_field_pic_flag h = 0 \<Longrightarrow> sh_bottom_field_flag h = 0"
  using assms by (simp_all only: start_peeks_def Let_def) blast+

lemma aub_same [simp]:
  "aub_prev_frame_num aub = v \<Longrightarrow> aub\<lparr>aub_prev_frame_num := v\<rparr> = aub"
  "aub_prev_field_pic_flag aub = v \<Longrightarrow> aub\<lparr>aub_prev_field_pic_flag := v\<rparr> = aub"
  "aub_prev_bottom_field_flag aub = v \<Longrightarrow> aub\<lparr>aub_prev_bottom_field_flag := v\<rparr> = aub"
  "aub_prev_pic_order_cnt_lsb aub = v \<Longrightarrow> aub\<lparr>aub_prev_pic_order_cnt_lsb := v\<rparr> = aub"
  "aub_prev_delta_pic_order_cnt_bottom aub = d \<Longrightarrow> aub\<lparr>aub_prev_delta_pic_order_cnt_bottom := d\<rparr> = aub"
  "aub_prev_delta_pic_order_cnt0 aub = d \<Longrightarrow> aub\<lparr>aub_prev_delta_pic_order_cnt0 := d\<rparr> = aub"
  "aub_prev_delta_pic_order_cnt1 aub = d \<Longrightarrow> aub\<lparr>aub_prev_delta_pic_order_cnt1 := d\<rparr> = aub"
  by (cases aub; simp)+

lemma aub_frame_is: "start_peeks sps nal s h \<Longrightarrow> aub_prev_mod_frame_num aub = aub_prev_frame_num aub AND NOT fmask \<Longrightarrow>
    aub_frame s sps flag aub k = k (flag \<or> frame_num_changes fmask (aub_prev_frame_num aub) (sh_frame_num h))
      (aub\<lparr>aub_prev_frame_num := frame_num_kept fmask (aub_prev_frame_num aub) (sh_frame_num h)\<rparr>)"
  by (auto simp: aub_frame_def peek_def start_peeksD frame_num_changes_def frame_num_kept_def)

lemma aub_field_is:
  assumes "start_peeks sps nal s h"
  shows "aub_field s sps flag aub k = k (flag \<or> aub_prev_field_pic_flag aub \<noteq> sh_field_pic_flag h \<or> aub_prev_bottom_field_flag aub \<noteq> sh_bottom_field_flag h)
      (aub\<lparr>aub_prev_field_pic_flag := sh_field_pic_flag h, aub_prev_bottom_field_flag := sh_bottom_field_flag h\<rparr>)"
  using start_peeksD(6,7)[OF assms]
  by (auto simp: aub_field_def peek_def start_peeksD(3,4)[OF assms] Let_def)

text \<open>The comparison of the picture order counts\<close>

definition other_poc :: "seq_param_set \<Rightarrow> pic_param_set \<Rightarrow> slice_header \<Rightarrow> aub_check \<Rightarrow> bool" where
  "other_poc sps pps h aub =
     (let second = (pps_pic_order_present_flag pps \<noteq> 0) in
      sps_pic_order_cnt_type sps = 0
      \<and> (aub_prev_pic_order_cnt_lsb aub \<noteq> sh_pic_order_cnt_lsb h
         \<or> second \<and> aub_prev_delta_pic_order_cnt_bottom aub \<noteq> sh_delta_pic_order_cnt_bottom h)
      \<or> sps_pic_order_cnt_type sps = 1 \<and> sps_delta_pic_order_always_zero_flag sps = 0
      \<and> (aub_prev_delta_pic_order_cnt0 aub \<noteq> fst (sh_delta_pic_order_cnt h)
         \<or> second \<and> aub_prev_delta_pic_order_cnt1 aub \<noteq> snd (sh_delta_pic_order_cnt h)))"

definition poc_stored :: "seq_param_set \<Rightarrow> pic_param_set \<Rightarrow> slice_header \<Rightarrow> aub_check \<Rightarrow> aub_check" where
  "poc_stored sps pps h aub =
     (let second = (pps_pic_order_present_flag pps \<noteq> 0); d = sh_delta_pic_order_cnt h in
      if sps_pic_order_cnt_type sps = 0 then
        let aub = aub\<lparr>aub_prev_pic_order_cnt_lsb := sh_pic_order_cnt_lsb h\<rparr>
        in if second then aub\<lparr>aub_prev_delta_pic_order_cnt_bottom := sh_delta_pic_order_cnt_bottom h\<rparr> else aub
      else if sps_pic_order_cnt_type sps = 1 \<and> sps_delta_pic_order_always_zero_flag sps = 0 then
        let aub = aub\<lparr>aub_prev_delta_pic_order_cnt0 := fst d\<rparr> in if second then aub\<lparr>aub_prev_delta_pic_order_cnt1 := snd d\<rparr> else aub
      else aub)"

lemma aub_poc_is:
  assumes "poc_peeks sps pps nal s h" "pps_pic_order_present_flag pps \<noteq> 0 \<Longrightarrow> sh_field_pic_flag h = 0"
  shows "aub_poc junk s sps pps nal flag aub k = k (flag \<or> other_poc sps pps h aub) (poc_stored sps pps h aub)"
proof -
  have "aub_poc0 s sps pps nal flag aub k = k (flag \<or> other_poc sps pps h aub) (poc_stored sps pps h aub)"
    if "sps_pic_order_cnt_type sps = 0"
  proof -
    from that assms(1) have "h264bsdCheckPicOrderCntLsb s sps (nal_unit_type nal) = Some (Inr (sh_pic_order_cnt_lsb h))"
      "pps_pic_order_present_flag pps \<noteq> 0 \<Longrightarrow>
        h264bsdCheckDeltaPicOrderCntBottom s sps (nal_unit_type nal) = Some (Inr (sh_delta_pic_order_cnt_bottom h))"
      using assms(2) by (auto simp: poc_peeks_def Let_def)
    then show ?thesis using that by (auto simp: aub_poc0_def peek_def poc_stored_def other_poc_def Let_def)
  qed
  moreover have "aub_poc1 junk s sps pps nal flag aub k = k (flag \<or> other_poc sps pps h aub) (poc_stored sps pps h aub)"
    if "sps_pic_order_cnt_type sps = 1" "sps_delta_pic_order_always_zero_flag sps = 0"
  proof -
    from that assms(1) have "h264bsdCheckDeltaPicOrderCnt s sps (nal_unit_type nal) (pps_pic_order_present_flag pps \<noteq> 0)
        = Some (Inr (fst (sh_delta_pic_order_cnt h), if pps_pic_order_present_flag pps \<noteq> 0 then Some (snd (sh_delta_pic_order_cnt h)) else None))"
      using assms(2) by (cases "pps_pic_order_present_flag pps = 0") (auto simp: poc_peeks_def Let_def)
    then show ?thesis using that by (auto simp: aub_poc1_def peek_def poc_stored_def other_poc_def Let_def)
  qed
  ultimately show ?thesis by (auto simp: aub_poc_def poc_stored_def other_poc_def Let_def)
qed

text \<open>One slice\<close>

lemma aub_slice_is:
  assumes start: "start_peeks sps nal s h" and poc: "poc_peeks sps pps nal s h" "pps_pic_order_present_flag pps \<noteq> 0 \<Longrightarrow> sh_field_pic_flag h = 0"
    and ids: "sh_pic_parameter_set_id h < MAX_NUM_PIC_PARAM_SETS" "aub_sets st nal (sh_pic_parameter_set_id h) (sh_slice_type h) = Some (Some (sps, pps))"
    and aub: "aub_prev_mod_frame_num aub = aub_prev_frame_num aub AND NOT fmask" "\<not> aub_first_call_flag aub"
  defines "fkept \<equiv> frame_num_kept fmask (aub_prev_frame_num aub) (sh_frame_num h)"
  shows "\<exists>b aub'. aub_slice junk s nal st flag aub = Some (HANTRO_OK, b, aub') \<and> knows fkept sps pps nal h aub' \<and> (flag \<longrightarrow> b)
    \<and> (knows prev sps pps nal0 h0 aub \<longrightarrow> b = (flag \<or> other_picture (frame_num_changes fmask prev (sh_frame_num h)) sps pps nal0 h0 nal h))"
proof -
  let ?ref = "nal_ref_idc (aub_nu_prev aub) \<noteq> nal_ref_idc nal \<and> (nal_ref_idc (aub_nu_prev aub) = 0 \<or> nal_ref_idc nal = 0)"
  let ?idr = "nal_unit_type nal = NAL_CODED_SLICE_IDR" and ?was = "nal_unit_type (aub_nu_prev aub) = NAL_CODED_SLICE_IDR"
  let ?aub1 = "aub\<lparr>aub_new_picture := ?ref, aub_prev_frame_num := fkept, aub_prev_field_pic_flag := sh_field_pic_flag h,
    aub_prev_bottom_field_flag := sh_bottom_field_flag h\<rparr>"
  let ?aub2 = "if ?idr then ?aub1\<lparr>aub_prev_idr_pic_id := sh_idr_pic_id h\<rparr> else ?aub1"
  let ?b = "flag \<or> view_id (aub_nu_prev aub) \<noteq> view_id nal \<or> ?ref \<or> ?was \<noteq> ?idr \<or> frame_num_changes fmask (aub_prev_frame_num aub) (sh_frame_num h)
    \<or> aub_prev_field_pic_flag aub \<noteq> sh_field_pic_flag h \<or> aub_prev_bottom_field_flag aub \<noteq> sh_bottom_field_flag h
    \<or> ?idr \<and> ?was \<and> aub_prev_idr_pic_id aub \<noteq> sh_idr_pic_id h \<or> other_poc sps pps h aub"
  let ?aub = "(poc_stored sps pps h ?aub2)\<lparr>aub_nu_prev := nal\<rparr>"
  have other: "other_poc sps pps h ?aub2 = other_poc sps pps h aub" by (simp add: other_poc_def)
  have "aub_slice junk s nal st flag aub = Some (HANTRO_OK, ?b, ?aub)"
    using other
    by (cases ?idr) (simp_all add: aub_slice_def peek_def start_peeksD(1)[OF start ids(1)] ids(2) aub_nal_def Let_def aub_frame_is[OF start, where fmask = fmask] aub fkept_def
      aub_field_is[OF start] aub_idr_def start_peeksD(5)[OF start] aub_poc_is[OF poc], blast+)
  moreover have "knows fkept sps pps nal h ?aub" using aub(2) by (simp add: knows_def poc_stored_def Let_def)
  moreover have "?b = (flag \<or> other_picture (frame_num_changes fmask prev (sh_frame_num h)) sps pps nal0 h0 nal h)"
    if "knows prev sps pps nal0 h0 aub"
  proof -
    from that have facts: "aub_nu_prev aub = nal0" "aub_prev_frame_num aub = prev" "aub_prev_field_pic_flag aub = sh_field_pic_flag h0"
      "aub_prev_bottom_field_flag aub = sh_bottom_field_flag h0" "nal_unit_type nal0 = NAL_CODED_SLICE_IDR \<Longrightarrow> aub_prev_idr_pic_id aub = sh_idr_pic_id h0"
      by (simp_all add: knows_def Let_def)
    have poc: "other_poc sps pps h aub = (sps_pic_order_cnt_type sps = 0
         \<and> (sh_pic_order_cnt_lsb h0 \<noteq> sh_pic_order_cnt_lsb h
            \<or> pps_pic_order_present_flag pps \<noteq> 0 \<and> sh_delta_pic_order_cnt_bottom h0 \<noteq> sh_delta_pic_order_cnt_bottom h)
      \<or> sps_pic_order_cnt_type sps = 1 \<and> sps_delta_pic_order_always_zero_flag sps = 0
         \<and> (fst (sh_delta_pic_order_cnt h0) \<noteq> fst (sh_delta_pic_order_cnt h)
            \<or> pps_pic_order_present_flag pps \<noteq> 0 \<and> snd (sh_delta_pic_order_cnt h0) \<noteq> snd (sh_delta_pic_order_cnt h)))"
      using that by (cases "sps_pic_order_cnt_type sps = 0"; cases "sps_pic_order_cnt_type sps = 1";
        cases "sps_delta_pic_order_always_zero_flag sps = 0"; cases "pps_pic_order_present_flag pps = 0")
        (simp_all add: knows_def other_poc_def Let_def)
    show ?thesis
      unfolding other_picture_def Let_def poc[symmetric] facts(1-4) using facts(5) by (cases "nal_unit_type nal0 = NAL_CODED_SLICE_IDR") auto
  qed
  ultimately show ?thesis by blast
qed

lemma aub_sets_same [simp]: "aub_sets (st\<lparr>st_aub := a\<rparr>) nal i t = aub_sets st nal i t"
proof -
  have "st_pps (st\<lparr>st_aub := a\<rparr>) = st_pps st" "st_sps (st\<lparr>st_aub := a\<rparr>) = st_sps st"
    "st_active_view_sps_id (st\<lparr>st_aub := a\<rparr>) = st_active_view_sps_id st" by simp_all
  then show ?thesis unfolding aub_sets_def by (simp only:)
qed

lemma boundary_is:
  fixes fmask :: "32 word"
  assumes header: "h264bsdDecodeSliceHeader ub sps pps nal s = Some (Inr (h, s'))" "nal_unit_type nal = NAL_CODED_SLICE_EXT \<Longrightarrow> non_idr_flag nal \<noteq> 0"
    and ids: "sh_pic_parameter_set_id h < MAX_NUM_PIC_PARAM_SETS" "aub_sets st nal (sh_pic_parameter_set_id h) (sh_slice_type h) = Some (Some (sps, pps))"
    and frame: "sh_field_pic_flag h = 0 \<or> pps_pic_order_present_flag pps = 0"
  defines "fkept \<equiv> frame_num_kept fmask (aub_prev_frame_num (st_aub st)) (sh_frame_num h)"
  shows "\<exists>b aub. h264bsdCheckAccessUnitBoundary junk s nal (mod_frame_num fmask st) False = Some (HANTRO_OK, b, st\<lparr>st_aub := aub\<rparr>)
    \<and> knows fkept sps pps nal h aub \<and> (aub_first_call_flag (st_aub st) \<longrightarrow> b)
    \<and> (knows prev sps pps nal0 h0 (st_aub st)
        \<longrightarrow> b = other_picture (frame_num_changes fmask prev (sh_frame_num h)) sps pps nal0 h0 nal h)"
proof -
  note peeks = header_peeks(1,2)[OF header] header_kind[OF header(1)]
  let ?aub = "(st_aub st)\<lparr>aub_prev_mod_frame_num := aub_prev_frame_num (st_aub st) AND NOT fmask, aub_first_call_flag := False\<rparr>"
  have "pps_pic_order_present_flag pps \<noteq> 0 \<Longrightarrow> sh_field_pic_flag h = 0" using frame by auto
  from aub_slice_is[OF peeks(1,2) this ids, of ?aub fmask junk "aub_first_call_flag (st_aub st)" prev nal0 h0]
  obtain b aub where slice: "aub_slice junk s nal st (aub_first_call_flag (st_aub st)) ?aub = Some (HANTRO_OK, b, aub)"
    "knows fkept sps pps nal h aub" "aub_first_call_flag (st_aub st) \<longrightarrow> b"
    "knows prev sps pps nal0 h0 ?aub
      \<longrightarrow> b = (aub_first_call_flag (st_aub st) \<or> other_picture (frame_num_changes fmask prev (sh_frame_num h)) sps pps nal0 h0 nal h)"
    by (auto simp: fkept_def)
  have st: "aub_slice junk s nal (st\<lparr>st_aub := a\<rparr>) = aub_slice junk s nal st" for a
    unfolding aub_slice_def[abs_def] aub_sets_same ..
  have "h264bsdCheckAccessUnitBoundary junk s nal (mod_frame_num fmask st) False = Some (HANTRO_OK, b, st\<lparr>st_aub := aub\<rparr>)"
    using peeks(3) slice(1) by (elim insertE emptyE) (simp_all add: h264bsdCheckAccessUnitBoundary_def mod_frame_num_def st nal_type_defs Let_def)
  moreover have "b = other_picture (frame_num_changes fmask prev (sh_frame_num h)) sps pps nal0 h0 nal h"
    if "knows prev sps pps nal0 h0 (st_aub st)"
    using that slice(4) by (simp add: knows_def Let_def)
  ultimately show ?thesis using slice(2,3) by blast
qed

subsection \<open>An example\<close>

text \<open>An I slice of a frame, with 4 bits each for frame\_num and pic\_order\_cnt\_lsb\<close>

definition demo_slice_sps :: seq_param_set where
  "demo_slice_sps = (decoded_sps demo_sps)\<lparr>sps_max_frame_num := 16, sps_pic_order_cnt_type := 0, sps_max_pic_order_cnt_lsb := 16,
     sps_num_ref_frames := 1, sps_pic_width_in_mbs := 1, sps_pic_height_in_mbs := 2, sps_frame_mbs_only_flag := 1, sps_bit_depth_luma := 8\<rparr>"

definition demo_slice_nal :: nal_unit where "demo_slice_nal = zero_nal\<lparr>nal_unit_type := NAL_CODED_SLICE\<rparr>"

lemma Signed_zero: "reading s (True # r) \<Longrightarrow> \<exists>s'. h264bsdDecodeExpGolombSigned s 0 = Some (HANTRO_OK, 0, s') \<and> reading s' r"
  using ones_ue[of s r] by (auto simp: h264bsdDecodeExpGolombSigned_def BIG_CODE_NUM_def drop_bit_eq_div)

lemma demo_slice:
  assumes "reading s (eg_code 0 @ eg_code 2 @ eg_code 0 @ low_bits 4 f @ low_bits 4 l @ True # r)"
    "drop_bit 4 f = 0" "drop_bit 4 l = 0"
  shows "\<exists>h s'. h264bsdDecodeSliceHeader False demo_slice_sps zero_pps demo_slice_nal s = Some (Inr (h, s'))
    \<and> sh_pic_parameter_set_id h = 0 \<and> sh_slice_type h = 2 \<and> sh_frame_num h = f \<and> sh_pic_order_cnt_lsb h = l"
proof -
  obtain s1 where s1: "h264bsdDecodeExpGolombUnsigned s 0 = Some (HANTRO_OK, 0, s1)"
    "reading s1 (eg_code 2 @ eg_code 0 @ low_bits 4 f @ low_bits 4 l @ True # r)"
    using Unsigned_reads[OF assms(1), of 0] by auto
  obtain s2 where s2: "h264bsdDecodeExpGolombUnsigned s1 0 = Some (HANTRO_OK, 2, s2)"
    "reading s2 (eg_code 0 @ low_bits 4 f @ low_bits 4 l @ True # r)"
    using Unsigned_reads[OF s1(2), of 0] by auto
  obtain s3 where s3: "h264bsdDecodeExpGolombUnsigned s2 0 = Some (HANTRO_OK, 0, s3)" "reading s3 (low_bits 4 f @ low_bits 4 l @ True # r)"
    using Unsigned_reads[OF s2(2), of 0] by auto
  obtain s4 where s4: "h264bsdGetBits s3 4 = Some (f, s4)" "f \<noteq> END_OF_STREAM" "reading s4 (low_bits 4 l @ True # r)"
    using GetBits_reads[OF s3(2)] assms(2) by auto
  then have "reading (s4\<lparr>sd_emul_count := 0\<rparr>) (low_bits 4 l @ True # r)"
    by (simp add: reading_def readable_def strm_ok_def sd_rest_def sd_bytes_def strm_pre_def)
  then obtain s5 where s5: "h264bsdGetBits (s4\<lparr>sd_emul_count := 0\<rparr>) 4 = Some (l, s5)" "l \<noteq> END_OF_STREAM" "reading s5 (True # r)"
    using GetBits_reads[of "s4\<lparr>sd_emul_count := 0\<rparr>" 4 l] assms(3) by auto
  obtain s6 where s6: "h264bsdDecodeExpGolombSigned s5 0 = Some (HANTRO_OK, 0, s6)" using Signed_zero[OF s5(3)] by blast
  have logs: "log2_bits 16 = Some 4" using log2_bits_power[of 4] by simp
  show ?thesis
    using s1(1) s2(1) s3(1) s4 s5 s6 logs
    by (simp add: h264bsdDecodeSliceHeader_def sh_ids_def sh_frame_def sh_field_def sh_idr_def sh_poc_def sh_poc0_def sh_poc1_def
        poc_lengths_def sh_redundant_def sh_direct_def sh_ref_counts_def sh_reorder_def sh_weights_def sh_mark_def sh_cabac_def sh_qp_def
        sh_deblocking_def sh_group_cycle_def qp_invalid_def chk_def
        demo_slice_sps_def demo_slice_nal_def zero_pps_def zero_nal_def zero_slice_header_def nal_type_defs IS_IDR_NAL_UNIT_def pic_size_of_def
        IS_P_SLICE_def IS_B_SLICE_def IS_I_SLICE_def I_SLICE_def P_SLICE_def B_SLICE_def
        read_ue_def read_u_def read_se_def read_log2_def status_defs Let_def)
qed

lemma demo_slice_bits:
  "\<exists>h s'. h264bsdDecodeSliceHeader False demo_slice_sps zero_pps demo_slice_nal (demo_stream (escape [0xB8, 0x86])) = Some (Inr (h, s'))
    \<and> sh_pic_parameter_set_id h = 0 \<and> sh_slice_type h = 2 \<and> sh_frame_num h = 1 \<and> sh_pic_order_cnt_lsb h = 0"
  "\<exists>h s'. h264bsdDecodeSliceHeader False demo_slice_sps zero_pps demo_slice_nal (demo_stream (escape [0xB9, 0x06])) = Some (Inr (h, s'))
    \<and> sh_pic_parameter_set_id h = 0 \<and> sh_slice_type h = 2 \<and> sh_frame_num h = 2 \<and> sh_pic_order_cnt_lsb h = 0"
proof -
  have "bits_of [0xB8, 0x86] = eg_code 0 @ eg_code 2 @ eg_code 0 @ low_bits 4 (1 :: 32 word) @ low_bits 4 (0 :: 32 word) @ True # [True, False]"
    "bits_of [0xB9, 0x06] = eg_code 0 @ eg_code 2 @ eg_code 0 @ low_bits 4 (2 :: 32 word) @ low_bits 4 (0 :: 32 word) @ True # [True, False]"
    by code_simp+
  moreover have "length [0xB8, 0x86 :: 8 word] < 2 ^ 27" "length [0xB9, 0x06 :: 8 word] < 2 ^ 27" by simp_all
  ultimately have "reading (demo_stream (escape [0xB8, 0x86])) (eg_code 0 @ eg_code 2 @ eg_code 0 @ low_bits 4 (1 :: 32 word) @ low_bits 4 (0 :: 32 word) @ True # [True, False])"
    "reading (demo_stream (escape [0xB9, 0x06])) (eg_code 0 @ eg_code 2 @ eg_code 0 @ low_bits 4 (2 :: 32 word) @ low_bits 4 (0 :: 32 word) @ True # [True, False])"
    using reading_escaped by metis+
  from demo_slice[OF this(1)] demo_slice[OF this(2)]
  show "\<exists>h s'. h264bsdDecodeSliceHeader False demo_slice_sps zero_pps demo_slice_nal (demo_stream (escape [0xB8, 0x86])) = Some (Inr (h, s'))
    \<and> sh_pic_parameter_set_id h = 0 \<and> sh_slice_type h = 2 \<and> sh_frame_num h = 1 \<and> sh_pic_order_cnt_lsb h = 0"
  "\<exists>h s'. h264bsdDecodeSliceHeader False demo_slice_sps zero_pps demo_slice_nal (demo_stream (escape [0xB9, 0x06])) = Some (Inr (h, s'))
    \<and> sh_pic_parameter_set_id h = 0 \<and> sh_slice_type h = 2 \<and> sh_frame_num h = 2 \<and> sh_pic_order_cnt_lsb h = 0"
    by (simp_all add: drop_bit_eq_div)
qed

definition demo_slice_store :: storage where
  "demo_slice_store = h264bsdInitStorage\<lparr>st_sps := (st_sps h264bsdInitStorage)[0 := Some demo_slice_sps],
     st_pps := (st_pps h264bsdInitStorage)[0 := Some zero_pps]\<rparr>"

lemma demo_slice_sets: "aub_sets demo_slice_store demo_slice_nal 0 2 = Some (Some (demo_slice_sps, zero_pps))"
  by (simp add: aub_sets_def demo_slice_store_def h264bsdInitStorage_def array_read_def zero_pps_def demo_slice_nal_def nal_type_defs
      IS_I_SLICE_def I_SLICE_def MAX_NUM_VIEWS_def MAX_NUM_SEQ_PARAM_SETS_def MAX_NUM_PIC_PARAM_SETS_def)

subsection \<open>Properties\<close>

text \<open>
  C15: the functions that look ahead agree with the parser: whenever h264bsdDecodeSliceHeader accepts a header, for any pair of
  sets and any stream, h264bsdCheckPpsId, CheckFrameNum, CheckFieldPicFlag, CheckBottomFieldFlag, CheckIdrPicId,
  CheckPicOrderCntLsb, CheckDeltaPicOrderCntBottom and CheckDeltaPicOrderCnt return on the same stream the fields of that header
  (h264bsdCheckDeltaPicOrderCntBottom for frames only; anchor slices of the other view excepted).
\<close>

theorem peeks_agree:
  assumes "h264bsdDecodeSliceHeader ub sps pps nal s = Some (Inr (h, s'))" "nal_unit_type nal = NAL_CODED_SLICE_EXT \<Longrightarrow> non_idr_flag nal \<noteq> 0"
  shows "let mx = sps_max_frame_num sps; present = (sps_frame_mbs_only_flag sps = 0); t = nal_unit_type nal;
      second = (pps_pic_order_present_flag pps \<noteq> 0 \<and> sh_field_pic_flag h = 0)
    in (sh_pic_parameter_set_id h < MAX_NUM_PIC_PARAM_SETS \<longrightarrow> h264bsdCheckPpsId s = Some (Inr (sh_pic_parameter_set_id h, sh_slice_type h)))
    \<and> h264bsdCheckFrameNum s mx = Some (Inr (sh_frame_num h))
    \<and> h264bsdCheckFieldPicFlag s mx present = Some (Inr (if present then Some (sh_field_pic_flag h) else None))
    \<and> h264bsdCheckBottomFieldFlag s mx present = Some (Inr (if present \<and> sh_field_pic_flag h \<noteq> 0 then Some (sh_bottom_field_flag h) else None))
    \<and> (t = NAL_CODED_SLICE_IDR \<longrightarrow> h264bsdCheckIdrPicId s mx t present = Some (Inr (sh_idr_pic_id h)))
    \<and> (sps_pic_order_cnt_type sps = 0 \<longrightarrow> h264bsdCheckPicOrderCntLsb s sps t = Some (Inr (sh_pic_order_cnt_lsb h))
        \<and> (second \<longrightarrow> h264bsdCheckDeltaPicOrderCntBottom s sps t = Some (Inr (sh_delta_pic_order_cnt_bottom h))))
    \<and> (sps_pic_order_cnt_type sps = 1 \<and> sps_delta_pic_order_always_zero_flag sps = 0 \<longrightarrow>
        h264bsdCheckDeltaPicOrderCnt s sps t (pps_pic_order_present_flag pps \<noteq> 0)
          = Some (Inr (fst (sh_delta_pic_order_cnt h), if second then Some (snd (sh_delta_pic_order_cnt h)) else None)))"
  using start_peeksD(1-5)[OF header_peeks(1)[OF assms]] header_peeks(2)[OF assms]
  unfolding poc_peeks_def Let_def by auto

theorem peeks_agree_witness:
  "\<exists>h s'. h264bsdDecodeSliceHeader False demo_slice_sps zero_pps demo_slice_nal (demo_stream (escape [0xB8, 0x86])) = Some (Inr (h, s'))
    \<and> h264bsdCheckFrameNum (demo_stream (escape [0xB8, 0x86])) 16 = Some (Inr 1)
    \<and> h264bsdCheckPicOrderCntLsb (demo_stream (escape [0xB8, 0x86])) demo_slice_sps NAL_CODED_SLICE = Some (Inr 0)"
proof -
  obtain h s' where h: "h264bsdDecodeSliceHeader False demo_slice_sps zero_pps demo_slice_nal (demo_stream (escape [0xB8, 0x86])) = Some (Inr (h, s'))"
    "sh_frame_num h = 1" "sh_pic_order_cnt_lsb h = 0"
    using demo_slice_bits(1) by blast
  have "nal_unit_type demo_slice_nal = NAL_CODED_SLICE" "nal_unit_type demo_slice_nal \<noteq> NAL_CODED_SLICE_EXT"
    "sps_max_frame_num demo_slice_sps = 16" "sps_pic_order_cnt_type demo_slice_sps = 0"
    by (simp_all add: demo_slice_nal_def demo_slice_sps_def nal_type_defs)
  then show ?thesis using peeks_agree[OF h(1)] h by (simp add: Let_def)
qed



end
