(* ===== verification/Spec2Isabelle.thy ===== *)
theory Spec2Isabelle
  imports DecProtocol OmxCore StreamRoundtrip H264Poc H264PpsStream H264Boundary
begin

text \<open>
  The Hantro OpenMAX IL component and its H.264 codecs.

  1. THE PROGRAM

  src/project.omx/openmax\_il is an OpenMAX IL component: an application loads it through the core
  (source/core/hantro\_omx\_core.c), sends it commands, gives it buffers and gets them back by callbacks. A
  component is a worker thread (source/basecomp.c) that takes commands out of a message queue
  (source/msgque.c) and moves buffers between the queues of its ports (source/port.c); all of it stands on
  the wrappers of source/OSAL.c. source/decoder/decoder.c is the component that decodes; it calls the
  decoder libraries of src/vc8000d, as source/encoder/encoder.c calls the encoder library of src/vc8000e.
  The H.264 decoder (vc8000d/software/source/h264high) parses the parameter sets and derives from them what
  the hardware needs; the encoder (vc8000e/software/source) writes the parameter sets bit by bit.

  2. THE THEORIES

  Prelude: addresses, memmove, the oracle of the operating system, lemmas on option, lists and words.
  Fifo: the locale fifo, a queue whose operations may fail, and its refinement of a list.

  The OpenMAX IL component (project.omx/openmax\_il):
  OmxTypes (headers/OMX\_Core.h, OMX\_Types.h, OMX\_Component.h): error codes, states, commands, buffer headers.
  Osal (source/OSAL.c): checked heap blocks, recursive mutexes, events, threads.
  Msgque (source/msgque.c): the doubly linked queue; interprets fifo.
  Basecomp (source/basecomp.c): the worker thread and its command queue; interprets fifo on top of Msgque.
  Port (source/port.c): buffer lists and ports, with the buffer queue as a fifo.
  OmxCore (source/core/hantro\_omx\_core.c): the component table and the handles.
  DecBuffers (source/decoder/decoder.c): the propagate buffer of time stamps and the ring of marks.
  Decoder, DecState, DecProtocol (source/decoder/decoder.c): SendCommand and the five command handlers, the
  state transitions, the component thread; the protocol of statetrans and the queue of commands.

  The bit stream:
  Bits: bit strings, byte strings, emulation prevention, the format both sides share.
  PutBits (vc8000e, common/sw\_put\_bits.c): the writer. H264Stream and ExpGolomb (vc8000d, h264hwd\_stream.c,
  h264hwd\_vlc.c, h264hwd\_util.c; common/sw\_util.c for the copy near the start of the buffer): the reader. StreamRoundtrip: the one after the other.

  The encoder's parameter sets (vc8000e, hevc/sw\_parameter\_set.c, hevc/sw\_nal\_unit.c):
  EncParams: the records and the writers of the H.264 parameter sets with VUI and HRD. EncSyntax: the calculus
  of writers (emits, closes) and the picture parameter set. EncSps: the sequence parameter set.

  The decoder's parsers (vc8000d, h264high/legacy):
  H264Types: the structures. H264Reader: the steps of a parser and the rules for what a parser returns.
  H264Reading: the same steps on a stream whose next bits are known. H264Nal: NAL unit headers. H264Pps and
  H264PpsStream: scaling lists and picture parameter sets. H264Vui, H264Sps: VUI, HRD and sequence parameter
  sets with the multiview extension; H264SpsType: what the latter accepts. H264SpsCompare: the comparison of
  two sequence parameter sets; H264SpsSame: what it decides. ParamRoundtrip, H264Elements and SpsRoundtrip: what the
  encoder writes, the decoder reads back. H264Storage (h264hwd\_storage.c): the stored and the active parameter sets;
  H264StorageInv: their invariant in streams of one view whose sets have complete HRD parameters, and what goes wrong with two views. H264Slice: slice headers. H264SlicePeek: the fields that are looked at in advance,
  and with them h264bsdCheckAccessUnitBoundary of h264hwd\_storage.c. H264SliceType, H264SliceField: what the parser of slice
  headers accepts, and where it fails. H264SliceSame: looking in advance agrees with parsing. H264Boundary: the boundary of access
  units is where the standard has it, but for the cases its findings name (field slices with pic\_order\_present\_flag, anchor
  slices, a change of pic\_parameter\_set\_id).

  What the decoder computes (vc8000d, h264high):
  H264Poc (h264hwd\_pic\_order\_cnt.c): picture order counts. H264SliceGroup, H264BoxOut, H264SliceGroupMap
  (h264hwd\_slice\_group\_map.c, CheckPps of h264hwd\_storage.c): slice group maps and formulas of the standard.

  3. HOW THE CODE IS MODELLED

  A struct is a record, an enum a datatype (or words where the code computes with it), u32 a 32 word
  (OMX\_U32 a 64 word), an i32 that is calculated with an int with the overflow written out. Heap objects are
  addresses into a heap in the state. A function into option gives None where the C code crashes, asserts,
  reads or writes outside an object, overflows a signed number, blocks for ever or loops for ever; so a
  theorem that the result is Some excludes all of these. Error codes are values. System calls, the dynamic
  linker and allocation ask an oracle (Prelude, or arguments called alloc), over which the theorems are
  quantified: they hold whichever calls fail. Uninitialised variables are arguments (delta, junk), as are
  the results of comparisons that overflow (ub). Function pointers, the application, the codec and the other
  threads are arguments or logged calls; the log is the sequence of effects that the caller sees.

  Loops are structural recursions on a counter, functions with a measure, or partial\_function (option) where
  the loop can run for ever; there is no fuel. A theorem on such a loop states that it returns Some.

  4. WHAT THE LEMMAS SHOW

  Each theory has the invariant or type of its data, that every operation keeps it, and what the operation
  does. The conditions of a theorem are in the text before it, and where the code fails outside them, a theorem of its own shows how
  (FlushBits\_overruns, field\_slice\_overflows, StoreSeqParamSet\_wrong\_view, ActivateParamSets\_other\_pair,
  CompareSeqParamSets\_out\_of\_bounds, GetHandle\_frees\_other, FreeHandle\_out\_of\_order). The interface fifo carries the refinement of the message queue, the command queue and the buffer
  queue to a list of elements, failures included. The protocol of the decoder is an inductive set of reachable
  states with its invariants by rule induction. The parsers are shown total with a type for what they accept
  (rules step\_intros of H264Reader, applied stage by stage); round trips combine the calculus of writers with the
  rules reads of H264Reading.

  5. WHAT IS NOT MODELLED

  Of the decoder component, the buffer API (UseBuffer to FillThisBuffer), parameters and configurations, and
  the loop that passes data to the codec; the codec adapters codec\_*.c translate calls into the decoder
  libraries. The encoder component repeats the structure of the decoder component. Of OSAL.c, the allocator
  of hardware memory, which is a sequence of ioctl and mmap. The ring buffer and low-latency modes of the bit
  reader, in which the hardware writes while the code reads. The macroblock layer and everything that programs
  registers is about hardware whose description is not part of the repository. The other formats (HEVC, VP9,
  AV1, JPEG, MPEG-4, VC-1, ...), the post-processor and the rate control are not modelled yet. Bellagio,
  FreeRTOS and the copies of Android code are third-party code.
\<close>

end
